(* ===== verification/Prelude.thy ===== *)
theory Prelude
  imports Main "HOL-Library.Word" "HOL-Library.Multiset"
begin

text \<open>
  Shared vocabulary of the development: the machine integers of the server
  (\<open>uint8_t\<close> .. \<open>uint64_t\<close>), byte sequences (\<open>std::string\<close> and raw buffers are both
  lists of bytes), the little-endian object representation that \<open>memcpy\<close> of an
  integer exposes on the supported targets, and a flat byte memory with block reads
  and writes. The lemmas collected in \<open>mem_simps\<close> and \<open>le_simps\<close> carry the
  serialisation proofs of the network, stream and file components.
\<close>

unbundle bit_operations_syntax

section \<open>Types\<close>

type_synonym u8 = "8 word"
type_synonym u16 = "16 word"
type_synonym u32 = "32 word"
type_synonym u64 = "64 word"
type_synonym i32 = "32 word"
type_synonym i64 = "64 word"
type_synonym bytes = "u8 list"
type_synonym memory = "nat \<Rightarrow> u8"

named_theorems mem_simps \<open>block reads and writes of the byte memory\<close>
named_theorems le_simps \<open>little-endian encoding of machine integers\<close>

section \<open>Little-endian representation\<close>

primrec le_bytes :: "nat \<Rightarrow> 'a::len word \<Rightarrow> bytes" where
  "le_bytes 0 w = []"
| "le_bytes (Suc n) w = ucast w # le_bytes n (drop_bit 8 w)"

primrec le_word :: "bytes \<Rightarrow> 'a::len word" where
  "le_word [] = 0"
| "le_word (b # bs) = ucast b OR push_bit 8 (le_word bs)"

lemma length_le_bytes [simp]: "length (le_bytes n w) = n"
  by (induction n arbitrary: w) auto

lemma le_bytes_nonempty [simp]: "le_bytes n w = [] \<longleftrightarrow> n = 0"
  by (cases n) auto

lemma bit_le_word_le_bytes:
  "bit (le_word (le_bytes n w) :: 'a::len word) i \<longleftrightarrow> i < 8 * n \<and> bit (w :: 'a word) i"
proof (induction n arbitrary: w i)
  case 0
  then show ?case by simp
next
  case (Suc n)
  show ?case
  proof (cases "i < 8")
    case True
    then show ?thesis
      by (auto simp: bit_or_iff bit_push_bit_iff bit_ucast_iff dest: bit_imp_le_length)
  next
    case False
    then have "bit (ucast (ucast w :: u8) :: 'a word) i \<longleftrightarrow> False"
      by (auto simp: bit_ucast_iff dest: bit_imp_le_length)
    with False show ?thesis
      by (auto simp: bit_or_iff bit_push_bit_iff Suc.IH bit_drop_bit_eq dest: bit_imp_le_length)
  qed
qed

lemma le_word_le_bytes [simp, le_simps]:
  assumes "LENGTH('a::len) \<le> 8 * n"
  shows "le_word (le_bytes n (w :: 'a word)) = w"
proof (rule bit_word_eqI)
  fix i
  assume "i < LENGTH('a)"
  with assms show "bit (le_word (le_bytes n w) :: 'a word) i \<longleftrightarrow> bit w i"
    by (simp add: bit_le_word_le_bytes)
qed

lemma bit_le_word:
  "bit (le_word bs :: 'a::len word) i
     \<longleftrightarrow> i < LENGTH('a) \<and> i < 8 * length bs \<and> bit (bs ! (i div 8)) (i mod 8)"
proof (induction bs arbitrary: i)
  case Nil
  then show ?case by simp
next
  case (Cons b bs)
  show ?case
  proof (cases "i < 8")
    case True
    then show ?thesis by (auto simp: bit_or_iff bit_push_bit_iff bit_ucast_iff)
  next
    case False
    then have "\<not> bit b i" by (auto dest: bit_imp_le_length)
    moreover obtain j where j: "i = j + 8"
      using False by (metis le_add_diff_inverse2 not_less)
    moreover have "(j + 8) div 8 = Suc (j div 8)" by simp
    ultimately show ?thesis
      by (auto simp: bit_or_iff bit_push_bit_iff bit_ucast_iff Cons.IH)
  qed
qed

lemma nth_le_bytes:
  "j < n \<Longrightarrow> le_bytes n w ! j = ucast (drop_bit (8 * j) (w :: 'a::len word))"
proof (induction n arbitrary: w j)
  case 0
  then show ?case by simp
next
  case (Suc n)
  then show ?case
    by (cases j) (simp_all add: add.commute)
qed

lemma le_bytes_le_word [simp, le_simps]:
  assumes "8 * length bs \<le> LENGTH('a::len)" and "n = length bs"
  shows "le_bytes n (le_word bs :: 'a word) = bs"
proof (rule nth_equalityI)
  show "length (le_bytes n (le_word bs :: 'a word)) = length bs"
    using assms by simp
next
  fix j
  assume "j < length (le_bytes n (le_word bs :: 'a word))"
  then have j: "j < length bs" using assms by simp
  show "le_bytes n (le_word bs :: 'a word) ! j = bs ! j"
  proof (rule bit_word_eqI)
    fix i
    assume "i < LENGTH(8)"
    then have i: "i < 8" by simp
    then have "8 * j + i < LENGTH('a)" using j assms by simp
    with i j show "bit (le_bytes n (le_word bs :: 'a word) ! j) i \<longleftrightarrow> bit (bs ! j) i"
      using assms by (auto simp: nth_le_bytes bit_ucast_iff bit_drop_bit_eq bit_le_word)
  qed
qed

section \<open>Byte memory\<close>

definition mem_write :: "memory \<Rightarrow> nat \<Rightarrow> bytes \<Rightarrow> memory" where
  "mem_write m p bs = (\<lambda>i. if p \<le> i \<and> i < p + length bs then bs ! (i - p) else m i)"

definition mem_read :: "memory \<Rightarrow> nat \<Rightarrow> nat \<Rightarrow> bytes" where
  "mem_read m p n = map m [p..<p + n]"

lemma length_mem_read [simp]: "length (mem_read m p n) = n"
  by (simp add: mem_read_def)

lemma mem_read_0 [simp]: "mem_read m p 0 = []"
  by (simp add: mem_read_def)

lemma nth_mem_read [simp]: "i < n \<Longrightarrow> mem_read m p n ! i = m (p + i)"
  by (simp add: mem_read_def)

lemma mem_write_Nil [simp]: "mem_write m p [] = m"
  by (rule ext) (auto simp: mem_write_def)

lemma mem_write_same [simp, mem_simps]: "mem_read (mem_write m p bs) p (length bs) = bs"
  by (auto intro!: nth_equalityI simp: mem_write_def)

lemma mem_write_sameI: "n = length bs \<Longrightarrow> mem_read (mem_write m p bs) p n = bs"
  by simp

lemma mem_read_write_other [mem_simps]:
  "q + n \<le> p \<or> p + length bs \<le> q \<Longrightarrow> mem_read (mem_write m p bs) q n = mem_read m q n"
  by (auto simp: mem_read_def mem_write_def)

lemma mem_write_outside:
  "i < p \<or> p + length bs \<le> i \<Longrightarrow> mem_write m p bs i = m i"
  by (auto simp: mem_write_def)

lemma mem_write_read [simp]: "mem_write m p (mem_read m p n) = m"
  by (rule ext) (auto simp: mem_write_def)

lemma mem_read_append:
  "mem_read m p (a + b) = mem_read m p a @ mem_read m (p + a) b"
  by (rule nth_equalityI) (auto simp: nth_append add.assoc)

lemma mem_read_eq_append:
  "mem_read m p (length (xs @ ys)) = xs @ ys \<longleftrightarrow>
     mem_read m p (length xs) = xs \<and> mem_read m (p + length xs) (length ys) = ys"
  by (simp add: mem_read_append)

lemma mem_write_append:
  "mem_write m p (xs @ ys) = mem_write (mem_write m p xs) (p + length xs) ys"
  by (rule ext) (auto simp: mem_write_def nth_append)

lemma mem_read_cong:
  "(\<And>i. p \<le> i \<Longrightarrow> i < p + n \<Longrightarrow> m i = m' i) \<Longrightarrow> mem_read m p n = mem_read m' p n"
  by (auto simp: mem_read_def)

lemma mem_read_eqD:
  "mem_read m p n = mem_read m' p' n \<Longrightarrow> i < n \<Longrightarrow> m (p + i) = m' (p' + i)"
  by (metis nth_mem_read)

lemma mem_read_write_prefix:
  "n \<le> length bs \<Longrightarrow> mem_read (mem_write m p bs) p n = take n bs"
  by (auto intro!: nth_equalityI simp: mem_write_def)

lemma drop_mem_read: "k \<le> n \<Longrightarrow> drop k (mem_read m p n) = mem_read m (p + k) (n - k)"
  by (auto intro!: nth_equalityI simp: add.assoc)

lemma take_mem_read: "k \<le> n \<Longrightarrow> take k (mem_read m p n) = mem_read m p k"
  by (auto intro!: nth_equalityI)

section \<open>Machine integers\<close>

lemma unat_add_lt:
  "unat (a :: 'a::len word) + n < 2 ^ LENGTH('a) \<Longrightarrow> unat (a + of_nat n) = unat a + n"
  by (simp add: unat_word_ariths take_bit_nat_eq_self unat_of_nat)

lemma unat_of_nat_lt: "n < 2 ^ LENGTH('a::len) \<Longrightarrow> unat (of_nat n :: 'a word) = n"
  by (rule of_nat_inverse) simp

lemma word_of_unat_eq: "unat (w :: 'a::len word) = n \<Longrightarrow> w = of_nat n"
  by auto

lemma unat_ucast_up: "LENGTH('a::len) \<le> LENGTH('b::len) \<Longrightarrow> unat (ucast (w :: 'a word) :: 'b word) = unat w"
  by (simp add: unsigned_ucast_eq unsigned_take_bit_eq [symmetric] take_bit_word_eq_self)

lemma high_bits_clear:
  assumes "unat (w :: 'a::len word) < 2 ^ n" and "n \<le> i"
  shows "\<not> bit w i"
proof -
  have "take_bit n (unat w) = unat w" using assms(1) by (rule take_bit_nat_eq_self)
  then have "\<not> bit (unat w) i" using assms(2) by (metis bit_take_bit_iff not_le)
  then show ?thesis by (simp add: bit_unsigned_iff)
qed

lemma u8_lt: "unat (w :: u8) < 256"
  using unsigned_less [of w] by simp

lemma u16_lt: "unat (w :: u16) < 65536"
  using unsigned_less [of w] by simp

lemma u32_lt: "unat (w :: u32) < 4294967296"
  using unsigned_less [of w] by simp

section \<open>Unordered removal from a vector\<close>

text \<open>
  The idiom \<open>*it = v.back(); v.pop_back();\<close> at the first occurrence of an element: the
  last element takes its place.
\<close>

fun swap_remove :: "'a \<Rightarrow> 'a list \<Rightarrow> 'a list" where
  "swap_remove x [] = []"
| "swap_remove x (y # ys) =
     (if x = y then (if ys = [] then [] else last ys # butlast ys) else y # swap_remove x ys)"

lemma mset_swap_remove: "mset (swap_remove x xs) = mset xs - {#x#}"
proof (induction xs)
  case Nil
  then show ?case by simp
next
  case (Cons y ys)
  have "mset (last ys # butlast ys) = mset ys" if "ys \<noteq> []"
    using that by (metis append_butlast_last_id mset.simps(2) mset_rev rev.simps(2) rev_append
        append_Cons append_Nil rev_singleton_conv mset_append add.commute)
  with Cons show ?case by auto
qed

lemma swap_remove_absent: "x \<notin> set xs \<Longrightarrow> swap_remove x xs = xs"
  by (induction xs) auto

section \<open>Decimal output\<close>

definition digit :: "nat \<Rightarrow> char" where
  "digit n = char_of (48 + n)"

fun decimal :: "nat \<Rightarrow> string" where
  "decimal n = (if n < 10 then [digit n] else decimal (n div 10) @ [digit (n mod 10)])"

declare decimal.simps [simp del]

definition decimal_value :: "string \<Rightarrow> nat" where
  "decimal_value s = foldl (\<lambda>a c. 10 * a + (of_char c - 48)) 0 s"

lemma of_char_digit: "n < 10 \<Longrightarrow> (of_char (digit n) :: nat) = 48 + n"
  by (simp add: digit_def)

lemma decimal_value_append: "decimal_value (s @ [c]) = 10 * decimal_value s + (of_char c - 48)"
  by (simp add: decimal_value_def)

lemma decimal_value_decimal [simp]: "decimal_value (decimal n) = n"
proof (induction n rule: decimal.induct)
  case (1 n)
  show ?case
  proof (cases "n < 10")
    case True
    then show ?thesis by (simp add: decimal.simps decimal_value_def of_char_digit)
  next
    case False
    then show ?thesis using 1 by (simp add: decimal.simps [of n] decimal_value_append of_char_digit)
  qed
qed

lemma decimal_inject [simp]: "decimal m = decimal n \<longleftrightarrow> m = n"
  by (metis decimal_value_decimal)

lemma decimal_digits: "c \<in> set (decimal n) \<Longrightarrow> 48 \<le> (of_char c :: nat)"
proof (induction n rule: decimal.induct)
  case (1 n)
  show ?case
  proof (cases "n < 10")
    case True
    then show ?thesis using 1(2) by (simp add: decimal.simps of_char_digit)
  next
    case False
    then show ?thesis using 1 by (auto simp: decimal.simps [of n] of_char_digit)
  qed
qed

text \<open>std::setw with std::setfill('0'): zeros in front, nothing when the text is already as wide.\<close>

definition zero_fill :: "nat \<Rightarrow> string \<Rightarrow> string" where
  "zero_fill w s = replicate (w - length s) (digit 0) @ s"

lemma decimal_value_zero_fill: "decimal_value (zero_fill w s) = decimal_value s"
proof -
  have "foldl (\<lambda>a c. 10 * a + (of_char c - 48)) (0 :: nat) (replicate k (digit 0)) = 0" for k
    by (induction k) (simp_all add: of_char_digit)
  then show ?thesis by (simp add: decimal_value_def zero_fill_def)
qed

lemma zero_fill_decimal_inject [simp]:
  "zero_fill w (decimal m) = zero_fill w (decimal n) \<longleftrightarrow> m = n"
  by (metis decimal_value_decimal decimal_value_zero_fill)

lemma zero_fill_decimal_digits:
  "c \<in> set (zero_fill w (decimal n)) \<Longrightarrow> 48 \<le> (of_char c :: nat)"
  by (auto simp: zero_fill_def of_char_digit dest: decimal_digits split: if_splits)

lemma image_eq_singleton:
  assumes "inj f"
  shows "f ` M = {r} \<longleftrightarrow> (\<exists>w. r = f w \<and> M = {w})"
proof
  assume r: "f ` M = {r}"
  then obtain w where w: "w \<in> M" "r = f w" by (metis imageE singletonI)
  have "v = w" if "v \<in> M" for v
    using imageI [OF that, of f] r w(2) assms by (auto dest: injD)
  then show "\<exists>w. r = f w \<and> M = {w}" using w by blast
qed auto

end
