(* ===== verification/Position.thy ===== *)
theory Position
  imports Prelude
begin

text \<open>
  Map coordinates (\<open>game/movement/position.hpp\<close>, \<open>position.cpp\<close>) and the direction
  helpers of \<open>utils/tools.cpp\<close>. A position is a pair of 16-bit plane coordinates and
  an 8-bit floor; \<open>operator+\<close> and \<open>operator-\<close> wrap in those widths, offsets and
  distances are computed in wider signed integers and are exact. The lemmas show that
  \<open>operator<\<close> is a total order, that the hash is injective and that following
  \<open>getDirectionTo\<close> with \<open>getNextPosition\<close> reaches the target column in exactly
  \<open>getDiagonalDistance\<close> steps.
\<close>

section \<open>Data\<close>

datatype direction =
    DIRECTION_NORTH | DIRECTION_EAST | DIRECTION_SOUTH | DIRECTION_WEST
  | DIRECTION_SOUTHWEST | DIRECTION_SOUTHEAST | DIRECTION_NORTHWEST | DIRECTION_NORTHEAST
  | DIRECTION_NONE

fun dir_value :: "direction \<Rightarrow> u8" where
  "dir_value DIRECTION_NORTH = 0"
| "dir_value DIRECTION_EAST = 1"
| "dir_value DIRECTION_SOUTH = 2"
| "dir_value DIRECTION_WEST = 3"
| "dir_value DIRECTION_SOUTHWEST = 4 OR 0"
| "dir_value DIRECTION_SOUTHEAST = 4 OR 1"
| "dir_value DIRECTION_NORTHWEST = 4 OR 2"
| "dir_value DIRECTION_NORTHEAST = 4 OR 3"
| "dir_value DIRECTION_NONE = 8"

datatype position = Position (pos_x: u16) (pos_y: u16) (pos_z: u8)

section \<open>Offsets, distances and ranges\<close>

definition getOffsetX :: "position \<Rightarrow> position \<Rightarrow> int" where
  "getOffsetX p1 p2 = uint (pos_x p1) - uint (pos_x p2)"

definition getOffsetY :: "position \<Rightarrow> position \<Rightarrow> int" where
  "getOffsetY p1 p2 = uint (pos_y p1) - uint (pos_y p2)"

definition getOffsetZ :: "position \<Rightarrow> position \<Rightarrow> int" where
  "getOffsetZ p1 p2 = uint (pos_z p1) - uint (pos_z p2)"

definition getDistanceX :: "position \<Rightarrow> position \<Rightarrow> int" where
  "getDistanceX p1 p2 = \<bar>getOffsetX p1 p2\<bar>"

definition getDistanceY :: "position \<Rightarrow> position \<Rightarrow> int" where
  "getDistanceY p1 p2 = \<bar>getOffsetY p1 p2\<bar>"

definition getDistanceZ :: "position \<Rightarrow> position \<Rightarrow> int" where
  "getDistanceZ p1 p2 = \<bar>getOffsetZ p1 p2\<bar>"

definition getDiagonalDistance :: "position \<Rightarrow> position \<Rightarrow> int" where
  "getDiagonalDistance p1 p2 = max (getDistanceX p1 p2) (getDistanceY p1 p2)"

definition areInRange2 :: "int \<Rightarrow> int \<Rightarrow> position \<Rightarrow> position \<Rightarrow> bool" where
  "areInRange2 deltax deltay p1 p2 \<longleftrightarrow> getDistanceX p1 p2 \<le> deltax \<and> getDistanceY p1 p2 \<le> deltay"

definition areInRange3 :: "int \<Rightarrow> int \<Rightarrow> int \<Rightarrow> position \<Rightarrow> position \<Rightarrow> bool" where
  "areInRange3 deltax deltay deltaz p1 p2 \<longleftrightarrow>
     getDistanceX p1 p2 \<le> deltax \<and> getDistanceY p1 p2 \<le> deltay \<and> getDistanceZ p1 p2 \<le> deltaz"

section \<open>Operators and hash\<close>

definition pos_lt :: "position \<Rightarrow> position \<Rightarrow> bool" where
  "pos_lt a p \<longleftrightarrow> pos_z a < pos_z p
     \<or> (pos_z a = pos_z p \<and> pos_y a < pos_y p)
     \<or> (pos_z a = pos_z p \<and> pos_y a = pos_y p \<and> pos_x a < pos_x p)"

definition pos_gt :: "position \<Rightarrow> position \<Rightarrow> bool" where
  "pos_gt a p \<longleftrightarrow> \<not> pos_lt a p"

definition pos_eq :: "position \<Rightarrow> position \<Rightarrow> bool" where
  "pos_eq a p \<longleftrightarrow> pos_x p = pos_x a \<and> pos_y p = pos_y a \<and> pos_z p = pos_z a"

definition pos_add :: "position \<Rightarrow> position \<Rightarrow> position" where
  "pos_add a p = Position (pos_x a + pos_x p) (pos_y a + pos_y p) (pos_z a + pos_z p)"

definition pos_sub :: "position \<Rightarrow> position \<Rightarrow> position" where
  "pos_sub a p = Position (pos_x a - pos_x p) (pos_y a - pos_y p) (pos_z a - pos_z p)"

definition pos_hash :: "position \<Rightarrow> u64" where
  "pos_hash p = ucast (pos_x p) OR push_bit 16 (ucast (pos_y p)) OR push_bit 32 (ucast (pos_z p))"

section \<open>Directions\<close>

fun getNextPosition :: "direction \<Rightarrow> position \<Rightarrow> position" where
  "getNextPosition DIRECTION_NORTH (Position x y z) = Position x (y - 1) z"
| "getNextPosition DIRECTION_SOUTH (Position x y z) = Position x (y + 1) z"
| "getNextPosition DIRECTION_WEST (Position x y z) = Position (x - 1) y z"
| "getNextPosition DIRECTION_EAST (Position x y z) = Position (x + 1) y z"
| "getNextPosition DIRECTION_SOUTHWEST (Position x y z) = Position (x - 1) (y + 1) z"
| "getNextPosition DIRECTION_NORTHWEST (Position x y z) = Position (x - 1) (y - 1) z"
| "getNextPosition DIRECTION_NORTHEAST (Position x y z) = Position (x + 1) (y - 1) z"
| "getNextPosition DIRECTION_SOUTHEAST (Position x y z) = Position (x + 1) (y + 1) z"
| "getNextPosition DIRECTION_NONE p = p"

definition getDirectionTo :: "position \<Rightarrow> position \<Rightarrow> bool \<Rightarrow> direction" where
  "getDirectionTo from to exactDiagonalOnly =
     (let dx = getOffsetX from to; dy = getOffsetY from to;
          absDx = \<bar>dx\<bar>; absDy = \<bar>dy\<bar>
      in if exactDiagonalOnly \<and> absDx > absDy
           then (if dx < 0 then DIRECTION_EAST else DIRECTION_WEST)
         else if exactDiagonalOnly \<and> absDx < absDy
           then (if dy > 0 then DIRECTION_NORTH else DIRECTION_SOUTH)
         else if dx < 0
           then (if dy < 0 then DIRECTION_SOUTHEAST
                 else if dy > 0 then DIRECTION_NORTHEAST
                 else DIRECTION_EAST)
         else if dx > 0
           then (if dy < 0 then DIRECTION_SOUTHWEST
                 else if dy > 0 then DIRECTION_NORTHWEST
                 else DIRECTION_WEST)
         else (if dy > 0 then DIRECTION_NORTH else DIRECTION_SOUTH))"

definition getDirection :: "string \<Rightarrow> direction" where
  "getDirection s =
     (if s \<in> {''north'', ''n'', ''0''} then DIRECTION_NORTH
      else if s \<in> {''east'', ''e'', ''1''} then DIRECTION_EAST
      else if s \<in> {''south'', ''s'', ''2''} then DIRECTION_SOUTH
      else if s \<in> {''west'', ''w'', ''3''} then DIRECTION_WEST
      else if s \<in> {''southwest'', ''south west'', ''south-west'', ''sw'', ''4''} then DIRECTION_SOUTHWEST
      else if s \<in> {''southeast'', ''south east'', ''south-east'', ''se'', ''5''} then DIRECTION_SOUTHEAST
      else if s \<in> {''northwest'', ''north west'', ''north-west'', ''nw'', ''6''} then DIRECTION_NORTHWEST
      else if s \<in> {''northeast'', ''north east'', ''north-east'', ''ne'', ''7''} then DIRECTION_NORTHEAST
      else DIRECTION_NORTH)"

text \<open>Following the computed direction one square at a time.\<close>

primrec walk_towards :: "bool \<Rightarrow> position \<Rightarrow> nat \<Rightarrow> position \<Rightarrow> position" where
  "walk_towards exact to 0 p = p"
| "walk_towards exact to (Suc n) p =
     walk_towards exact to n (getNextPosition (getDirectionTo p to exact) p)"

section \<open>Order\<close>

instantiation position :: linorder
begin

definition less_position :: "position \<Rightarrow> position \<Rightarrow> bool" where
  "less_position = pos_lt"

definition less_eq_position :: "position \<Rightarrow> position \<Rightarrow> bool" where
  "less_eq_position a b \<longleftrightarrow> pos_lt a b \<or> a = b"

instance
proof
  fix x y z :: position
  show "x < y \<longleftrightarrow> x \<le> y \<and> \<not> y \<le> x"
    by (auto simp: less_position_def less_eq_position_def pos_lt_def)
  show "x \<le> x" by (simp add: less_eq_position_def)
  show "x \<le> z" if "x \<le> y" "y \<le> z"
    using that by (auto simp: less_eq_position_def pos_lt_def)
  show "x = y" if "x \<le> y" "y \<le> x"
    using that by (auto simp: less_eq_position_def pos_lt_def)
  show "x \<le> y \<or> y \<le> x"
    by (metis less_eq_position_def linorder_neqE pos_lt_def position.expand)
qed

end

lemma pos_eq_iff [simp]: "pos_eq a b \<longleftrightarrow> a = b"
  by (cases a; cases b) (auto simp: pos_eq_def)

lemma pos_gt_iff: "pos_gt a b \<longleftrightarrow> b \<le> a"
  by (auto simp: pos_gt_def less_position_def [symmetric])

lemma pos_add_sub_cancel [simp]: "pos_sub (pos_add a b) b = a"
  by (simp add: pos_add_def pos_sub_def)

section \<open>Hash\<close>

lemma bit_pos_hash:
  "bit (pos_hash p) i \<longleftrightarrow>
     (if i < 16 then bit (pos_x p) i
      else if i < 32 then bit (pos_y p) (i - 16)
      else if i < 40 then bit (pos_z p) (i - 32) else False)"
  by (auto simp: pos_hash_def bit_or_iff bit_push_bit_iff bit_ucast_iff
      dest: bit_imp_le_length)

lemma pos_hash_inject: "pos_hash p = pos_hash q \<Longrightarrow> p = q"
proof -
  assume eq: "pos_hash p = pos_hash q"
  have "pos_x p = pos_x q"
  proof (rule bit_word_eqI)
    fix i assume "i < LENGTH(16)"
    then show "bit (pos_x p) i \<longleftrightarrow> bit (pos_x q) i"
      using eq bit_pos_hash [of p i] bit_pos_hash [of q i] by simp
  qed
  moreover have "pos_y p = pos_y q"
  proof (rule bit_word_eqI)
    fix i assume "i < LENGTH(16)"
    then show "bit (pos_y p) i \<longleftrightarrow> bit (pos_y q) i"
      using eq bit_pos_hash [of p "i + 16"] bit_pos_hash [of q "i + 16"] by simp
  qed
  moreover have "pos_z p = pos_z q"
  proof (rule bit_word_eqI)
    fix i assume "i < LENGTH(8)"
    then show "bit (pos_z p) i \<longleftrightarrow> bit (pos_z q) i"
      using eq bit_pos_hash [of p "i + 32"] bit_pos_hash [of q "i + 32"] by simp
  qed
  ultimately show ?thesis by (simp add: position.expand)
qed

section \<open>Walking\<close>

lemma uint_add_1: "uint (x :: 'a::len word) + 1 < 2 ^ LENGTH('a) \<Longrightarrow> uint (x + 1) = uint x + 1"
  by (simp add: uint_word_ariths take_bit_int_eq_self)

lemma uint_sub_1: "0 < uint (x :: 'a::len word) \<Longrightarrow> uint (x - 1) = uint x - 1"
proof -
  assume "0 < uint x"
  moreover have "uint x < 2 ^ LENGTH('a)" by (rule unsigned_less)
  ultimately have "(uint x - 1) mod 2 ^ LENGTH('a) = uint x - 1"
    by (intro mod_pos_pos_trivial) linarith+
  then show ?thesis by (simp add: uint_word_ariths)
qed

lemma uint_u16_lt: "uint (w :: u16) < 65536"
  using unsigned_less [of w] by simp

text \<open>One coordinate of a step: it moves one towards the target, or stays if it is there.\<close>

lemma step_east: "uint (x :: u16) < uint (t :: u16) \<Longrightarrow> uint (x + 1) = uint x + 1"
  using uint_u16_lt [of t] by (intro uint_add_1) simp

lemma step_west: "uint (t :: u16) < uint (x :: u16) \<Longrightarrow> uint (x - 1) = uint x - 1"
  using uint_ge_0 [of t] by (intro uint_sub_1) linarith

lemmas dist_defs = getDiagonalDistance_def getDistanceX_def getDistanceY_def
  getOffsetX_def getOffsetY_def

lemma step_decreases:
  assumes "0 < getDiagonalDistance p t"
  shows "getDiagonalDistance (getNextPosition (getDirectionTo p t e) p) t
           = getDiagonalDistance p t - 1"
proof -
  obtain x y z where p: "p = Position x y z" by (cases p)
  obtain tx ty tz where t: "t = Position tx ty tz" by (cases t)
  show ?thesis
    using assms unfolding p t
    by (cases "uint x" "uint tx" rule: linorder_cases;
        cases "uint y" "uint ty" rule: linorder_cases)
      (simp_all add: getDirectionTo_def dist_defs Let_def step_east step_west abs_if max_def)
qed

lemma getNextPosition_floor [simp]: "pos_z (getNextPosition d p) = pos_z p"
  by (cases p; cases d) auto

lemma walk_towards_floor: "pos_z (walk_towards e t n p) = pos_z p"
  by (induction n arbitrary: p) auto

lemma diagonal_distance_0:
  "getDiagonalDistance p t = 0 \<longleftrightarrow> pos_x p = pos_x t \<and> pos_y p = pos_y t"
  by (auto simp: dist_defs max_def abs_if unsigned_word_eqI split: if_splits)

lemma walk_towards_distance:
  "int n \<le> getDiagonalDistance p t \<Longrightarrow>
     getDiagonalDistance (walk_towards e t n p) t = getDiagonalDistance p t - int n"
proof (induction n arbitrary: p)
  case 0
  then show ?case by simp
next
  case (Suc n)
  then have "0 < getDiagonalDistance p t" by simp
  from step_decreases [OF this] Suc show ?case by simp
qed

section \<open>Properties\<close>

text \<open>
  Following \<open>getDirectionTo\<close> with \<open>getNextPosition\<close>, in either diagonal mode and from
  any two positions (the 16-bit coordinates never wrap on the way), each step lowers
  \<open>getDiagonalDistance\<close> by exactly one and keeps the floor, so the target's column is
  reached after exactly that many steps and not before.
\<close>
theorem walk_reaches_target:
  assumes "int n \<le> getDiagonalDistance p t"
  shows "getDiagonalDistance (walk_towards e t n p) t = getDiagonalDistance p t - int n
    \<and> pos_z (walk_towards e t n p) = pos_z p
    \<and> ((pos_x (walk_towards e t n p) = pos_x t \<and> pos_y (walk_towards e t n p) = pos_y t)
           \<longleftrightarrow> int n = getDiagonalDistance p t)"
  using walk_towards_distance [OF assms, of e]
  by (auto simp: walk_towards_floor simp flip: diagonal_distance_0)

theorem walk_reaches_target_witness:
  "pos_x (walk_towards True (Position 103 100 7) 3 (Position 100 101 7)) = 103
   \<and> pos_y (walk_towards True (Position 103 100 7) 3 (Position 100 101 7)) = 100"
proof -
  have "int 3 = getDiagonalDistance (Position 100 101 7) (Position 103 100 7)"
    by (simp add: dist_defs)
  then show ?thesis
    using walk_reaches_target [of 3 "Position 100 101 7" "Position 103 100 7" True] by simp
qed

text \<open>
  \<open>operator<\<close> on positions is a strict total order, \<open>operator==\<close> is equality of the three
  coordinates, and the \<open>std::hash\<close> specialisation packs them without loss: distinct
  positions have distinct hashes.
\<close>
theorem position_order_and_hash:
  "irreflp pos_lt \<and> transp pos_lt \<and> totalp pos_lt \<and> (pos_eq p q \<longleftrightarrow> p = q) \<and> inj pos_hash"
proof -
  have "irreflp pos_lt" and "transp pos_lt" and "totalp pos_lt"
    unfolding less_position_def [symmetric] by simp_all
  moreover have "inj pos_hash" by (auto intro: injI pos_hash_inject)
  ultimately show ?thesis by simp
qed

text \<open>\<open>operator>\<close> is the negation of \<open>operator<\<close>, so it also holds of equal positions.\<close>

lemma pos_gt_not_strict: "pos_gt p p"
  by (simp add: pos_gt_iff)

end
