(* ===== verification/Network_Message.thy ===== *)
theory Network_Message
  imports Position
begin

text \<open>
  The message buffer of the wire protocol (\<open>server/network/message/networkmessage.hpp\<close>,
  \<open>networkmessage.cpp\<close>). The 65500-byte array is a byte memory; \<open>length\<close> and
  \<open>position\<close> are the 16-bit counters of \<open>NetworkMessageInfo\<close> and wrap as in the code.
  The templates \<open>get<T>\<close> and \<open>add<T>\<close> are polymorphic in the word width. Sizes of
  C++ objects (\<open>size_t\<close>) are natural numbers. The lemmas show that checked writers
  never touch memory outside the array, and that what the writers produce the readers
  return.
\<close>

section \<open>Constants and state\<close>

definition NETWORKMESSAGE_MAXSIZE :: nat where "NETWORKMESSAGE_MAXSIZE = 65500"
definition HEADER_LENGTH :: nat where "HEADER_LENGTH = 2"
definition CHECKSUM_LENGTH :: nat where "CHECKSUM_LENGTH = 4"
definition XTEA_MULTIPLE :: nat where "XTEA_MULTIPLE = 8"
definition MAX_BODY_LENGTH :: nat where
  "MAX_BODY_LENGTH = NETWORKMESSAGE_MAXSIZE - HEADER_LENGTH - CHECKSUM_LENGTH - XTEA_MULTIPLE"
definition MAX_PROTOCOL_BODY_LENGTH :: nat where
  "MAX_PROTOCOL_BODY_LENGTH = MAX_BODY_LENGTH - 10"
definition INITIAL_BUFFER_POSITION :: u16 where "INITIAL_BUFFER_POSITION = 8"

lemmas nm_consts = NETWORKMESSAGE_MAXSIZE_def HEADER_LENGTH_def CHECKSUM_LENGTH_def
  XTEA_MULTIPLE_def MAX_BODY_LENGTH_def MAX_PROTOCOL_BODY_LENGTH_def INITIAL_BUFFER_POSITION_def

record network_message =
  nm_length :: u16
  nm_position :: u16
  nm_overrun :: bool
  nm_buffer :: memory

definition reset :: "network_message \<Rightarrow> network_message" where
  "reset m = m\<lparr>nm_length := 0, nm_position := INITIAL_BUFFER_POSITION, nm_overrun := False\<rparr>"

section \<open>Guards\<close>

definition canAdd :: "network_message \<Rightarrow> nat \<Rightarrow> bool" where
  "canAdd m sz \<longleftrightarrow> sz + unat (nm_position m) < MAX_BODY_LENGTH"

definition canRead :: "network_message \<Rightarrow> int \<Rightarrow> bool \<times> network_message" where
  "canRead m sz =
     (if int (unat (nm_position m)) + sz > int (unat (nm_length m)) + 8
         \<or> sz \<ge> int NETWORKMESSAGE_MAXSIZE - int (unat (nm_position m))
      then (False, m\<lparr>nm_overrun := True\<rparr>) else (True, m))"

section \<open>Readers\<close>

definition getByte :: "network_message \<Rightarrow> u8 \<times> network_message" where
  "getByte m = (case canRead m 1 of
      (False, m') \<Rightarrow> (0, m')
    | (True, m') \<Rightarrow> (nm_buffer m' (unat (nm_position m')), m'\<lparr>nm_position := nm_position m' + 1\<rparr>))"

definition getPreviousByte :: "network_message \<Rightarrow> u8 \<times> network_message" where
  "getPreviousByte m =
     (let m' = m\<lparr>nm_position := nm_position m - 1\<rparr> in (nm_buffer m' (unat (nm_position m')), m'))"

definition get :: "network_message \<Rightarrow> 'a::len word \<times> network_message" where
  "get m = (let n = LENGTH('a) div 8 in case canRead m (int n) of
      (False, m') \<Rightarrow> (0, m')
    | (True, m') \<Rightarrow> (le_word (mem_read (nm_buffer m') (unat (nm_position m')) n),
                    m'\<lparr>nm_position := nm_position m' + of_nat n\<rparr>))"

definition getString :: "network_message \<Rightarrow> u16 \<Rightarrow> bytes \<times> network_message" where
  "getString m stringLen =
     (let (len, m1) = (if stringLen = 0 then get m else (stringLen, m))
      in case canRead m1 (int (unat len)) of
           (False, m') \<Rightarrow> ([], m')
         | (True, m') \<Rightarrow> (mem_read (nm_buffer m') (unat (nm_position m')) (unat len),
                         m'\<lparr>nm_position := nm_position m' + len\<rparr>))"

definition getPosition :: "network_message \<Rightarrow> position \<times> network_message" where
  "getPosition m =
     (let (x, m1) = get m; (y, m2) = get m1; (z, m3) = getByte m2 in (Position x y z, m3))"

definition skipBytes :: "network_message \<Rightarrow> 16 word \<Rightarrow> network_message" where
  "skipBytes m cnt = m\<lparr>nm_position := nm_position m + cnt\<rparr>"

definition getLengthHeader :: "network_message \<Rightarrow> u16" where
  "getLengthHeader m = ucast (nm_buffer m 0) OR push_bit 8 (ucast (nm_buffer m 1))"

definition decodeHeader :: "network_message \<Rightarrow> u16 \<times> network_message" where
  "decodeHeader m =
     (let newSize = ucast (nm_buffer m 0) OR push_bit 8 (ucast (nm_buffer m 1)) :: u16
      in (newSize, m\<lparr>nm_length := newSize\<rparr>))"

definition getBodyBuffer :: "network_message \<Rightarrow> nat \<times> network_message" where
  "getBodyBuffer m = (HEADER_LENGTH, m\<lparr>nm_position := 2\<rparr>)"

section \<open>Writers\<close>

definition addByte :: "u8 \<Rightarrow> network_message \<Rightarrow> network_message" where
  "addByte v m = (if \<not> canAdd m 1 then m
     else m\<lparr>nm_buffer := (nm_buffer m)(unat (nm_position m) := v),
            nm_position := nm_position m + 1, nm_length := nm_length m + 1\<rparr>)"

text \<open>The block every writer stores: \<open>memcpy\<close> at the position, both counters advanced.\<close>

definition put_block :: "bytes \<Rightarrow> network_message \<Rightarrow> network_message" where
  "put_block bs m = m\<lparr>nm_buffer := mem_write (nm_buffer m) (unat (nm_position m)) bs,
                      nm_position := nm_position m + of_nat (length bs),
                      nm_length := nm_length m + of_nat (length bs)\<rparr>"

definition add :: "'a::len word \<Rightarrow> network_message \<Rightarrow> network_message" where
  "add v m = (if \<not> canAdd m (LENGTH('a) div 8) then m
              else put_block (le_bytes (LENGTH('a) div 8) v) m)"

definition addBytes :: "bytes option \<Rightarrow> network_message \<Rightarrow> network_message" where
  "addBytes bytes m = (case bytes of None \<Rightarrow> m
     | Some bs \<Rightarrow> (if \<not> canAdd m (length bs) then m
                   else if length bs > NETWORKMESSAGE_MAXSIZE then m
                   else put_block bs m))"

definition addString :: "bytes \<Rightarrow> network_message \<Rightarrow> network_message" where
  "addString v m = (if \<not> canAdd m (length v + 2) then m
     else if length v > NETWORKMESSAGE_MAXSIZE then m
     else put_block v (add (of_nat (length v) :: u16) m))"

definition addPaddingBytes :: "nat \<Rightarrow> network_message \<Rightarrow> network_message" where
  "addPaddingBytes n m = (if \<not> n + unat (nm_position m) < NETWORKMESSAGE_MAXSIZE then m
     else m\<lparr>nm_buffer := mem_write (nm_buffer m) (unat (nm_position m)) (replicate n 0x33),
            nm_length := nm_length m + of_nat n\<rparr>)"

definition addPosition :: "position \<Rightarrow> network_message \<Rightarrow> network_message" where
  "addPosition p m = addByte (pos_z p) (add (pos_y p) (add (pos_x p) m))"

section \<open>The field interface\<close>

text \<open>
  A wire field is a pair of a writer and a reader that agree on a byte encoding. The
  laws are what the packet code relies on: where the encoding fits, the writer stores
  exactly these bytes and advances both counters by their number; it never touches a
  byte at or beyond the array's end; and where the encoding lies at the position and is
  readable, the reader returns the value and advances past it.
\<close>

definition fits :: "network_message \<Rightarrow> nat \<Rightarrow> bool" where
  "fits m n \<longleftrightarrow> n + unat (nm_position m) < MAX_BODY_LENGTH"

definition readable :: "network_message \<Rightarrow> nat \<Rightarrow> bool" where
  "readable m n \<longleftrightarrow> unat (nm_position m) + n \<le> unat (nm_length m) + 8
     \<and> n + unat (nm_position m) < NETWORKMESSAGE_MAXSIZE"

definition advance :: "network_message \<Rightarrow> nat \<Rightarrow> network_message" where
  "advance m n = m\<lparr>nm_position := nm_position m + of_nat n\<rparr>"

definition in_bounds :: "network_message \<Rightarrow> network_message \<Rightarrow> bool" where
  "in_bounds m m' \<longleftrightarrow>
     (\<forall>i. i < unat (nm_position m) \<or> MAX_BODY_LENGTH \<le> i \<longrightarrow> nm_buffer m' i = nm_buffer m i)
     \<and> unat (nm_position m) \<le> unat (nm_position m')
     \<and> (unat (nm_position m) < MAX_BODY_LENGTH \<longrightarrow> unat (nm_position m') < MAX_BODY_LENGTH)
     \<and> nm_length m' - nm_position m' = nm_length m - nm_position m"

lemma in_bounds_refl [simp]: "in_bounds m m"
  by (simp add: in_bounds_def)

lemma in_bounds_trans: "in_bounds a b \<Longrightarrow> in_bounds b c \<Longrightarrow> in_bounds a c"
  unfolding in_bounds_def by (auto dest: order.trans)

lemma unat_advance:
  "unat (nm_position m) + n < 65536 \<Longrightarrow> unat (nm_position m + of_nat n) = unat (nm_position m) + n"
  by (rule unat_add_lt) simp

lemma put_block_in_bounds: "fits m (length bs) \<Longrightarrow> in_bounds m (put_block bs m)"
  by (auto simp: in_bounds_def put_block_def fits_def nm_consts mem_write_outside unat_advance)

lemma put_block_append: "put_block (xs @ ys) m = put_block ys (put_block xs m)"
  if "unat (nm_position m) + length xs < 65536"
  using that by (simp add: put_block_def mem_write_append unat_advance)

lemma canAdd_fits [simp]: "canAdd m n = fits m n"
  by (simp add: canAdd_def fits_def)

lemma canRead_readable [simp]: "readable m n \<Longrightarrow> canRead m (int n) = (True, m)"
proof -
  assume "readable m n"
  then have "int (unat (nm_position m) + n) \<le> int (unat (nm_length m) + 8)"
    and "int (n + unat (nm_position m)) < int NETWORKMESSAGE_MAXSIZE"
    by (simp_all only: readable_def of_nat_le_iff of_nat_less_iff)
  then show ?thesis by (simp add: canRead_def)
qed

lemma advance_0 [simp]: "advance m 0 = m"
  by (simp add: advance_def)

lemma advance_advance [simp]: "advance (advance m a) b = advance m (a + b)"
  by (simp add: advance_def add.assoc)

lemma advance_sel [simp]:
  "nm_buffer (advance m n) = nm_buffer m" "nm_length (advance m n) = nm_length m"
  "nm_overrun (advance m n) = nm_overrun m"
  by (simp_all add: advance_def)

lemma unat_position_advance:
  "readable m n \<Longrightarrow> unat (nm_position (advance m n)) = unat (nm_position m) + n"
  by (simp add: advance_def readable_def nm_consts unat_advance)

lemma readable_split:
  "readable m (a + b) \<Longrightarrow> readable m a \<and> readable (advance m a) b"
  using unat_position_advance [of m a] by (auto simp: readable_def)

locale wire_field =
  fixes put :: "'v \<Rightarrow> network_message \<Rightarrow> network_message"
    and fetch :: "network_message \<Rightarrow> 'v \<times> network_message"
    and enc :: "'v \<Rightarrow> bytes"
  assumes put_fits: "fits m (length (enc v)) \<Longrightarrow> put v m = put_block (enc v) m"
    and put_bounds: "in_bounds m (put v m)"
    and fetch_enc: "readable m (length (enc v)) \<Longrightarrow>
      mem_read (nm_buffer m) (unat (nm_position m)) (length (enc v)) = enc v \<Longrightarrow>
      fetch m = (v, advance m (length (enc v)))"
begin

lemma put_then_fetch:
  assumes "fits m (length (enc v))" and "unat (nm_position m) + length (enc v) \<le> unat (nm_length r) + 8"
    and "nm_position r = nm_position m" and "nm_buffer r = nm_buffer (put v m)"
  shows "fetch r = (v, advance r (length (enc v)))"
proof (rule fetch_enc)
  show "readable r (length (enc v))"
    using assms by (auto simp: fits_def readable_def nm_consts)
  show "mem_read (nm_buffer r) (unat (nm_position r)) (length (enc v)) = enc v"
    using assms by (simp add: put_fits put_block_def)
qed

end

text \<open>Two fields written one after the other are again a field.\<close>

locale wire_pair = a: wire_field put1 fetch1 enc1 + b: wire_field put2 fetch2 enc2
  for put1 :: "'v \<Rightarrow> network_message \<Rightarrow> network_message" and fetch1 and enc1
    and put2 :: "'w \<Rightarrow> network_message \<Rightarrow> network_message" and fetch2 and enc2

sublocale wire_pair \<subseteq> both: wire_field
  "\<lambda>(v, w) m. put2 w (put1 v m)"
  "\<lambda>m. let (v, m1) = fetch1 m; (w, m2) = fetch2 m1 in ((v, w), m2)"
  "\<lambda>(v, w). enc1 v @ enc2 w"
proof (unfold_locales, goal_cases)
  case (1 m vw)
  obtain v w where vw: "vw = (v, w)" by (cases vw)
  from 1 have fit1: "fits m (length (enc1 v))" and lt: "unat (nm_position m) + length (enc1 v) < 65536"
    by (auto simp: vw fits_def nm_consts)
  then have "put1 v m = put_block (enc1 v) m" by (simp add: a.put_fits)
  moreover have "fits (put_block (enc1 v) m) (length (enc2 w))"
    using 1 lt by (auto simp: vw fits_def put_block_def unat_advance)
  ultimately show ?case using lt by (simp add: vw b.put_fits put_block_append)
next
  case (2 m vw)
  show ?case
    by (cases vw) (auto intro: in_bounds_trans [OF a.put_bounds b.put_bounds])
next
  case (3 m vw)
  obtain v w where vw: "vw = (v, w)" by (cases vw)
  from 3(1) have r1: "readable m (length (enc1 v))" and r2: "readable (advance m (length (enc1 v))) (length (enc2 w))"
    using readable_split by (auto simp: vw)
  from 3(2) have "mem_read (nm_buffer m) (unat (nm_position m)) (length (enc1 v)) = enc1 v"
    and "mem_read (nm_buffer m) (unat (nm_position m) + length (enc1 v)) (length (enc2 w)) = enc2 w"
    by (simp_all add: vw mem_read_append)
  with r1 r2 show ?case
    by (simp add: vw a.fetch_enc b.fetch_enc unat_position_advance)
qed

section \<open>The fields of the protocol\<close>

lemma add_field:
  assumes "8 * (LENGTH('a::len) div 8) = LENGTH('a)"
  shows "wire_field (add :: 'a word \<Rightarrow> _) get (le_bytes (LENGTH('a) div 8))"
proof (unfold_locales, goal_cases)
  case (1 m v)
  then show ?case by (simp add: add_def)
next
  case (2 m v)
  show ?case by (simp add: add_def put_block_in_bounds)
next
  case (3 m v)
  then show ?case using assms by (simp add: get_def advance_def)
qed

lemma addByte_put_block: "fits m 1 \<Longrightarrow> addByte v m = put_block [v] m"
  by (auto simp: addByte_def put_block_def mem_write_def fun_eq_iff)

interpretation field_u8: wire_field addByte getByte "\<lambda>v. [v]"
proof (unfold_locales, goal_cases)
  case (1 m v)
  then show ?case by (simp add: addByte_put_block)
next
  case (2 m v)
  show ?case
    by (cases "fits m 1") (simp_all add: addByte_put_block put_block_in_bounds, simp add: addByte_def)
next
  case (3 m v)
  then show ?case using canRead_readable [of m 1]
    by (simp add: getByte_def advance_def mem_read_def)
qed

interpretation field_u16: wire_field "add :: u16 \<Rightarrow> _" get "le_bytes 2"
  using add_field [where 'a = 16] by simp

interpretation field_u32: wire_field "add :: u32 \<Rightarrow> _" get "le_bytes 4"
  using add_field [where 'a = 32] by simp

interpretation field_u64: wire_field "add :: u64 \<Rightarrow> _" get "le_bytes 8"
  using add_field [where 'a = 64] by simp

interpretation field_xy: wire_pair "add :: u16 \<Rightarrow> _" get "le_bytes 2" "add :: u16 \<Rightarrow> _" get "le_bytes 2" ..

interpretation field_xyz: wire_pair
  "\<lambda>(v :: u16, w :: u16) m. add w (add v m)"
  "\<lambda>m. let (v, m1) = get m; (w, m2) = get m1 in ((v, w), m2)"
  "\<lambda>(v, w). le_bytes 2 v @ le_bytes 2 w" addByte getByte "\<lambda>v. [v]" ..

fun enc_position :: "position \<Rightarrow> bytes" where
  "enc_position (Position x y z) = (le_bytes 2 x @ le_bytes 2 y) @ [z]"

interpretation field_position: wire_field addPosition getPosition enc_position
proof (unfold_locales, goal_cases)
  case (1 m v)
  then show ?case
    using field_xyz.both.put_fits [of m "((pos_x v, pos_y v), pos_z v)"]
    by (cases v) (simp add: addPosition_def)
next
  case (2 m v)
  show ?case
    using field_xyz.both.put_bounds [of m "((pos_x v, pos_y v), pos_z v)"]
    by (cases v) (simp add: addPosition_def)
next
  case (3 m v)
  then show ?case
    using field_xyz.both.fetch_enc [of m "((pos_x v, pos_y v), pos_z v)"]
    by (cases v) (auto simp: getPosition_def Let_def split: prod.splits)
qed

definition enc_string :: "bytes \<Rightarrow> bytes" where
  "enc_string v = le_bytes 2 (of_nat (length v) :: u16) @ v"

lemma fits_put_block:
  "fits m (length xs + n) \<Longrightarrow> fits (put_block xs m) n"
  by (auto simp: fits_def put_block_def nm_consts unat_advance)

interpretation field_string: wire_field addString "\<lambda>m. getString m 0" enc_string
proof (unfold_locales, goal_cases)
  case (1 m v)
  then have "fits m 2" and "unat (nm_position m) + 2 < 65536" and "length v \<le> NETWORKMESSAGE_MAXSIZE"
    by (auto simp: enc_string_def fits_def nm_consts)
  with 1 show ?case
    by (simp add: addString_def enc_string_def put_block_append field_u16.put_fits)
next
  case (2 m v)
  show ?case
  proof (cases "fits m (length v + 2)")
    case True
    let ?m = "put_block (le_bytes 2 (of_nat (length v) :: u16)) m"
    from True have fit: "fits m 2" by (simp add: fits_def)
    have "fits ?m (length v)"
      using True by (intro fits_put_block) (simp add: add.commute)
    then have b: "in_bounds ?m (put_block v ?m)" by (rule put_block_in_bounds)
    have a: "in_bounds m ?m" using fit by (intro put_block_in_bounds) simp
    from fit in_bounds_trans [OF a b] show ?thesis by (simp add: addString_def field_u16.put_fits)
  qed (simp add: addString_def)
next
  case (3 m v)
  let ?n = "of_nat (length v) :: u16"
  from 3(1) have r: "readable m 2" "readable (advance m 2) (length v)"
    using readable_split [of m 2 "length v"] by (auto simp: enc_string_def)
  then have n: "unat ?n = length v"
    by (intro unat_of_nat_lt) (simp add: readable_def nm_consts)
  from 3(2) have e: "mem_read (nm_buffer m) (unat (nm_position m)) 2 = le_bytes 2 ?n"
    "mem_read (nm_buffer m) (unat (nm_position m) + 2) (length v) = v"
    using mem_read_append [of "nm_buffer m" "unat (nm_position m)" 2 "length v"]
    by (simp_all add: enc_string_def)
  from r(1) e(1) have "get m = (?n, advance m 2)"
    using field_u16.fetch_enc [of m ?n] by simp
  moreover have "canRead (advance m 2) (uint ?n) = (True, advance m 2)"
    using canRead_readable [of "advance m 2" "unat ?n"] r(2) by (simp only: n) (simp add: n uint_nat)
  ultimately show ?case
    using e n unat_position_advance [OF r(1)]
    by (simp add: getString_def enc_string_def advance_def add.assoc)
qed

section \<open>Packets\<close>

text \<open>A packet body is a sequence of typed fields; the reader is driven by their kinds.\<close>

datatype wire_value =
  WByte u8 | WU16 u16 | WU32 u32 | WU64 u64 | WString bytes | WPosition position

datatype wire_kind = KByte | KU16 | KU32 | KU64 | KString | KPosition

fun kind_of :: "wire_value \<Rightarrow> wire_kind" where
  "kind_of (WByte _) = KByte"
| "kind_of (WU16 _) = KU16"
| "kind_of (WU32 _) = KU32"
| "kind_of (WU64 _) = KU64"
| "kind_of (WString _) = KString"
| "kind_of (WPosition _) = KPosition"

fun enc_value :: "wire_value \<Rightarrow> bytes" where
  "enc_value (WByte v) = [v]"
| "enc_value (WU16 v) = le_bytes 2 v"
| "enc_value (WU32 v) = le_bytes 4 v"
| "enc_value (WU64 v) = le_bytes 8 v"
| "enc_value (WString v) = enc_string v"
| "enc_value (WPosition v) = enc_position v"

fun write_value :: "wire_value \<Rightarrow> network_message \<Rightarrow> network_message" where
  "write_value (WByte v) m = addByte v m"
| "write_value (WU16 v) m = add v m"
| "write_value (WU32 v) m = add v m"
| "write_value (WU64 v) m = add v m"
| "write_value (WString v) m = addString v m"
| "write_value (WPosition v) m = addPosition v m"

fun read_value :: "wire_kind \<Rightarrow> network_message \<Rightarrow> wire_value \<times> network_message" where
  "read_value KByte m = map_prod WByte id (getByte m)"
| "read_value KU16 m = map_prod WU16 id (get m)"
| "read_value KU32 m = map_prod WU32 id (get m)"
| "read_value KU64 m = map_prod WU64 id (get m)"
| "read_value KString m = map_prod WString id (getString m 0)"
| "read_value KPosition m = map_prod WPosition id (getPosition m)"

fun write_values :: "wire_value list \<Rightarrow> network_message \<Rightarrow> network_message" where
  "write_values [] m = m"
| "write_values (v # vs) m = write_values vs (write_value v m)"

fun read_values :: "wire_kind list \<Rightarrow> network_message \<Rightarrow> wire_value list \<times> network_message" where
  "read_values [] m = ([], m)"
| "read_values (k # ks) m =
     (let (v, m1) = read_value k m; (vs, m2) = read_values ks m1 in (v # vs, m2))"

abbreviation enc_values :: "wire_value list \<Rightarrow> bytes" where
  "enc_values vs \<equiv> concat (map enc_value vs)"

lemma write_value_fits: "fits m (length (enc_value v)) \<Longrightarrow> write_value v m = put_block (enc_value v) m"
  by (cases v)
    (simp_all add: field_u8.put_fits field_u16.put_fits field_u32.put_fits field_u64.put_fits
      field_string.put_fits field_position.put_fits)

lemma write_value_in_bounds: "in_bounds m (write_value v m)"
  by (cases v)
    (simp_all add: field_u8.put_bounds field_u16.put_bounds field_u32.put_bounds
      field_u64.put_bounds field_string.put_bounds field_position.put_bounds)

lemma read_value_enc:
  "readable m (length (enc_value v)) \<Longrightarrow>
   mem_read (nm_buffer m) (unat (nm_position m)) (length (enc_value v)) = enc_value v \<Longrightarrow>
   read_value (kind_of v) m = (v, advance m (length (enc_value v)))"
  by (cases v)
    (simp_all add: field_u8.fetch_enc field_u16.fetch_enc field_u32.fetch_enc field_u64.fetch_enc
      field_string.fetch_enc field_position.fetch_enc)

lemma write_values_fits:
  "fits m (length (enc_values vs)) \<Longrightarrow> write_values vs m = put_block (enc_values vs) m"
proof (induction vs arbitrary: m)
  case Nil
  then show ?case by (simp add: put_block_def)
next
  case (Cons v vs)
  from Cons.prems have "fits m (length (enc_value v))"
    and "unat (nm_position m) + length (enc_value v) < 65536"
    by (auto simp: fits_def nm_consts)
  with Cons show ?case
    by (simp add: write_value_fits fits_put_block put_block_append)
qed

lemma write_values_in_bounds: "in_bounds m (write_values vs m)"
  by (induction vs arbitrary: m) (auto intro: in_bounds_trans write_value_in_bounds)

lemma read_values_enc:
  "readable m (length (enc_values vs)) \<Longrightarrow>
   mem_read (nm_buffer m) (unat (nm_position m)) (length (enc_values vs)) = enc_values vs \<Longrightarrow>
   read_values (map kind_of vs) m = (vs, advance m (length (enc_values vs)))"
proof (induction vs arbitrary: m)
  case Nil
  then show ?case by simp
next
  case (Cons v vs)
  let ?a = "length (enc_value v)" and ?b = "length (enc_values vs)"
  from Cons.prems(1) have r: "readable m ?a" "readable (advance m ?a) ?b"
    using readable_split [of m ?a ?b] by auto
  from Cons.prems(2) have e:
    "mem_read (nm_buffer m) (unat (nm_position m)) ?a = enc_value v"
    "mem_read (nm_buffer m) (unat (nm_position m) + ?a) ?b = enc_values vs"
    by (simp_all add: mem_read_append)
  then show ?case
    using r by (simp add: read_value_enc Cons.IH unat_position_advance)
qed

section \<open>Properties\<close>

text \<open>
  C31. Serialisation round trip of packet bodies: a freshly reset message takes any sequence
  of bytes, integers, strings and positions whose encoding fits the body limit, records
  exactly the encoding's length, and a reader that starts at the initial buffer position
  reads the same sequence back, ends right behind it and has not overrun.
\<close>
theorem packet_round_trip:
  assumes "length (enc_values vs) + 8 < MAX_BODY_LENGTH"
    and "w = write_values vs (reset m)"
  shows "unat (nm_length w) = length (enc_values vs)
    \<and> read_values (map kind_of vs) (w\<lparr>nm_position := INITIAL_BUFFER_POSITION\<rparr>)
        = (vs, w) \<and> \<not> nm_overrun w"
proof -
  let ?n = "length (enc_values vs)" and ?r = "w\<lparr>nm_position := INITIAL_BUFFER_POSITION\<rparr>"
  have fit: "fits (reset m) ?n"
    using assms(1) by (simp add: fits_def reset_def nm_consts)
  then have w: "w = put_block (enc_values vs) (reset m)"
    using assms(2) by (simp add: write_values_fits)
  have len: "unat (nm_length w) = ?n"
    using assms(1) by (simp add: w put_block_def reset_def nm_consts unat_of_nat_lt)
  have "read_values (map kind_of vs) ?r = (vs, advance ?r ?n)"
  proof (rule read_values_enc)
    show "readable ?r ?n"
      using assms(1) len by (simp add: readable_def nm_consts)
    show "mem_read (nm_buffer ?r) (unat (nm_position ?r)) ?n = enc_values vs"
      by (simp add: w put_block_def reset_def)
  qed
  moreover have "advance ?r ?n = w"
    by (simp add: w advance_def put_block_def reset_def)
  ultimately show ?thesis
    using len by (simp add: w put_block_def reset_def)
qed

theorem packet_round_trip_witness:
  "read_values [KByte, KString, KPosition]
     ((write_values [WByte 0x64, WString [0x41, 0x42], WPosition (Position 100 200 7)]
        (reset \<lparr>nm_length = 3, nm_position = 0, nm_overrun = True, nm_buffer = (\<lambda>_. 0)\<rparr>))
      \<lparr>nm_position := INITIAL_BUFFER_POSITION\<rparr>)
   = ([WByte 0x64, WString [0x41, 0x42], WPosition (Position 100 200 7)],
      write_values [WByte 0x64, WString [0x41, 0x42], WPosition (Position 100 200 7)]
        (reset \<lparr>nm_length = 3, nm_position = 0, nm_overrun = True, nm_buffer = (\<lambda>_. 0)\<rparr>))"
proof -
  let ?vs = "[WByte 0x64, WString [0x41, 0x42], WPosition (Position 100 200 7)]"
  have "length (enc_values ?vs) + 8 < MAX_BODY_LENGTH"
    by (simp add: nm_consts enc_string_def)
  from packet_round_trip [OF this refl] show ?thesis by simp
qed

text \<open>
  C32. Memory safety of the checked writers: any sequence of typed writes, whether or not each
  fits, from a position inside the body leaves every byte before the old position and
  every byte from the body limit on untouched, keeps the position inside the body, and
  moves length and position together.
\<close>
theorem writers_stay_in_bounds:
  assumes "unat (nm_position m) < MAX_BODY_LENGTH" and "w = write_values vs m"
    and "i < unat (nm_position m) \<or> MAX_BODY_LENGTH \<le> i"
  shows "nm_buffer w i = nm_buffer m i
    \<and> unat (nm_position m) \<le> unat (nm_position w) \<and> unat (nm_position w) < MAX_BODY_LENGTH
    \<and> nm_length w - nm_position w = nm_length m - nm_position m"
  using assms write_values_in_bounds [of m vs] by (auto simp: in_bounds_def)

theorem writers_stay_in_bounds_witness:
  "nm_buffer (write_values [WU32 7, WString [1]]
     \<lparr>nm_length = 65470, nm_position = 65478, nm_overrun = False, nm_buffer = (\<lambda>_. 9)\<rparr>) 65486 = 9"
proof -
  let ?m = "\<lparr>nm_length = 65470, nm_position = 65478, nm_overrun = False, nm_buffer = (\<lambda>_. 9)\<rparr>"
  have "unat (nm_position ?m) < MAX_BODY_LENGTH"
    and "(65486::nat) < unat (nm_position ?m) \<or> MAX_BODY_LENGTH \<le> 65486"
    by (simp_all add: nm_consts)
  from writers_stay_in_bounds [OF this(1) refl this(2), of "[WU32 7, WString [1]]"]
  show ?thesis by (simp del: write_values.simps)
qed

end
