(* ===== verification/Output_Message.thy ===== *)
theory Output_Message
  imports Network_Message
begin

text \<open>
  Outgoing messages and the autosend pool
  (\<open>server/network/message/outputmessage.hpp\<close>, \<open>outputmessage.cpp\<close>). An output
  message is a network message plus \<open>outputBufferStart\<close>, the offset from which headers
  grow downwards in front of the body. The pool keeps the protocols whose buffers a
  repeating timer event flushes; the number of scheduled timer events is part of its
  state.
\<close>

section \<open>Output messages\<close>

record output_message =
  om_msg :: network_message
  outputBufferStart :: u16

definition new_output_message :: "memory \<Rightarrow> output_message" where
  "new_output_message buf = \<lparr>om_msg = \<lparr>nm_length = 0, nm_position = INITIAL_BUFFER_POSITION,
     nm_overrun = False, nm_buffer = buf\<rparr>, outputBufferStart = INITIAL_BUFFER_POSITION\<rparr>"

definition om_update :: "(network_message \<Rightarrow> network_message) \<Rightarrow> output_message \<Rightarrow> output_message" where
  "om_update f om = om\<lparr>om_msg := f (om_msg om)\<rparr>"

definition add_header :: "'a::len word \<Rightarrow> output_message \<Rightarrow> output_message" where
  "add_header h om =
     (if unat (outputBufferStart om) < LENGTH('a) div 8 then om
      else let start = outputBufferStart om - of_nat (LENGTH('a) div 8) in
        om\<lparr>outputBufferStart := start,
           om_msg := (om_msg om)\<lparr>
             nm_buffer := mem_write (nm_buffer (om_msg om)) (unat start) (le_bytes (LENGTH('a) div 8) h),
             nm_length := nm_length (om_msg om) + of_nat (LENGTH('a) div 8)\<rparr>\<rparr>)"

definition writeMessageLength :: "output_message \<Rightarrow> output_message" where
  "writeMessageLength om = add_header (nm_length (om_msg om)) om"

definition addCryptoHeader :: "bool \<Rightarrow> u32 \<Rightarrow> output_message \<Rightarrow> output_message" where
  "addCryptoHeader addChecksum checksum om =
     writeMessageLength (if addChecksum then add_header checksum om else om)"

text \<open>\<open>append\<close> copies the other message's body without a bounds check.\<close>

definition append_msg :: "network_message \<Rightarrow> output_message \<Rightarrow> output_message" where
  "append_msg msg om =
     (let msgLen = nm_length msg; m = om_msg om in
      om\<lparr>om_msg := m\<lparr>
        nm_buffer := mem_write (nm_buffer m) (unat (nm_position m))
          (mem_read (nm_buffer msg) (unat INITIAL_BUFFER_POSITION) (unat msgLen)),
        nm_length := nm_length m + msgLen,
        nm_position := nm_position m + msgLen\<rparr>\<rparr>)"

text \<open>The bytes handed to the socket: \<open>getOutputBuffer()\<close>, \<open>getLength()\<close>.\<close>

definition output_bytes :: "output_message \<Rightarrow> bytes" where
  "output_bytes om =
     mem_read (nm_buffer (om_msg om)) (unat (outputBufferStart om)) (unat (nm_length (om_msg om)))"

lemma output_message_sel [simp]:
  "nm_position (om_msg (add_header h om)) = nm_position (om_msg om)"
  "nm_overrun (om_msg (add_header h om)) = nm_overrun (om_msg om)"
  by (simp_all add: add_header_def Let_def)

lemma add_header_start:
  fixes h :: "'a::len word"
  assumes "LENGTH('a) div 8 \<le> unat (outputBufferStart om)"
  shows "unat (outputBufferStart (add_header h om)) = unat (outputBufferStart om) - LENGTH('a) div 8"
proof -
  have "LENGTH('a) div 8 < 2 ^ LENGTH(16)"
    using assms u16_lt [of "outputBufferStart om"] by simp
  then have "(of_nat (LENGTH('a) div 8) :: u16) \<le> outputBufferStart om"
    using assms by (simp add: word_le_nat_alt unat_of_nat_lt)
  then show ?thesis
    using assms \<open>LENGTH('a) div 8 < _\<close>
    by (simp add: add_header_def Let_def unat_sub unat_of_nat_lt)
qed

text \<open>A header goes in front of the bytes already there and leaves them as they are.\<close>

lemma add_header_output_bytes:
  fixes h :: "'a::len word"
  assumes room: "LENGTH('a) div 8 \<le> unat (outputBufferStart om)"
    and len: "unat (nm_length (om_msg om)) + LENGTH('a) div 8 < 65536"
  shows "output_bytes (add_header h om) = le_bytes (LENGTH('a) div 8) h @ output_bytes om
    \<and> unat (nm_length (om_msg (add_header h om))) = unat (nm_length (om_msg om)) + LENGTH('a) div 8"
proof -
  let ?k = "LENGTH('a) div 8" and ?s = "unat (outputBufferStart om)"
    and ?l = "unat (nm_length (om_msg om))"
  have start: "unat (outputBufferStart (add_header h om)) = ?s - ?k"
    using room by (rule add_header_start)
  have l: "unat (nm_length (om_msg (add_header h om))) = ?k + ?l"
    using room len by (simp add: add_header_def Let_def unat_add_lt)
  have buf: "nm_buffer (om_msg (add_header h om))
      = mem_write (nm_buffer (om_msg om)) (?s - ?k) (le_bytes ?k h)"
    using room start by (simp add: add_header_def Let_def)
  have "output_bytes (add_header h om)
      = mem_read (nm_buffer (om_msg (add_header h om))) (?s - ?k) (?k + ?l)"
    by (simp only: output_bytes_def start l)
  also have "\<dots> = le_bytes ?k h @ output_bytes om"
    using room by (simp add: mem_read_append buf output_bytes_def mem_write_sameI mem_read_write_other)
  finally show ?thesis using l by simp
qed

section \<open>The autosend pool\<close>

text \<open>
  Protocols are identified by numbers; \<open>current\<close> is each protocol's output buffer,
  \<open>sent\<close> the messages handed to the connections in order, \<open>timers\<close> the number of
  \<open>sendAll\<close> events waiting in the dispatcher.
\<close>

record 'm pool =
  bufferedProtocols :: "nat list"
  current :: "nat \<Rightarrow> 'm option"
  sent :: "(nat \<times> 'm) list"
  timers :: nat

definition scheduleSendAll :: "'m pool \<Rightarrow> 'm pool" where
  "scheduleSendAll p = p\<lparr>timers := timers p + 1\<rparr>"

fun flush_each :: "nat list \<Rightarrow> 'm pool \<Rightarrow> 'm pool" where
  "flush_each [] p = p"
| "flush_each (k # ks) p = flush_each ks
     (case current p k of None \<Rightarrow> p
      | Some msg \<Rightarrow> p\<lparr>current := (current p)(k := None), sent := sent p @ [(k, msg)]\<rparr>)"

definition sendAll :: "'m pool \<Rightarrow> 'm pool" where
  "sendAll p = (let p' = flush_each (bufferedProtocols p) p
     in if bufferedProtocols p' \<noteq> [] then scheduleSendAll p' else p')"

definition addProtocolToAutosend :: "nat \<Rightarrow> 'm pool \<Rightarrow> 'm pool" where
  "addProtocolToAutosend k p =
     (let p' = (if bufferedProtocols p = [] then scheduleSendAll p else p)
      in p'\<lparr>bufferedProtocols := bufferedProtocols p' @ [k]\<rparr>)"

definition removeProtocolFromAutosend :: "nat \<Rightarrow> 'm pool \<Rightarrow> 'm pool" where
  "removeProtocolFromAutosend k p = p\<lparr>bufferedProtocols := swap_remove k (bufferedProtocols p)\<rparr>"

datatype 'm pool_event =
    EvAdd nat | EvRemove nat | EvQueue nat 'm | EvTimer

text \<open>
  A protocol entering or leaving the pool, a packet being put into an output buffer, and
  the dispatcher running one of the waiting timer events.
\<close>

fun pool_step :: "'m pool_event \<Rightarrow> 'm pool \<Rightarrow> 'm pool" where
  "pool_step (EvAdd k) p = addProtocolToAutosend k p"
| "pool_step (EvRemove k) p = removeProtocolFromAutosend k p"
| "pool_step (EvQueue k m) p = p\<lparr>current := (current p)(k \<mapsto> m)\<rparr>"
| "pool_step EvTimer p = (if timers p = 0 then p else sendAll (p\<lparr>timers := timers p - 1\<rparr>))"

fun pool_run :: "'m pool_event list \<Rightarrow> 'm pool \<Rightarrow> 'm pool" where
  "pool_run [] p = p"
| "pool_run (e # es) p = pool_run es (pool_step e p)"

definition empty_pool :: "'m pool" where
  "empty_pool = \<lparr>bufferedProtocols = [], current = (\<lambda>_. None), sent = [], timers = 0\<rparr>"

lemma flush_each_frame [simp]:
  "bufferedProtocols (flush_each ks p) = bufferedProtocols p"
  "timers (flush_each ks p) = timers p"
  by (induction ks arbitrary: p) (auto split: option.splits)

lemma flush_each_current:
  "current (flush_each ks p) k = (if k \<in> set ks then None else current p k)"
  by (induction ks arbitrary: p) (auto split: option.splits)

lemma flush_each_sent_mono: "set (sent p) \<subseteq> set (sent (flush_each ks p))"
proof (induction ks arbitrary: p)
  case (Cons k ks)
  show ?case
  proof (cases "current p k")
    case (Some m)
    then show ?thesis
      using Cons.IH [of "p\<lparr>current := (current p)(k := None), sent := sent p @ [(k, m)]\<rparr>"] by auto
  qed (use Cons in auto)
qed simp

lemma flush_each_sends:
  "k \<in> set ks \<Longrightarrow> current p k = Some m \<Longrightarrow> (k, m) \<in> set (sent (flush_each ks p))"
proof (induction ks arbitrary: p)
  case (Cons j ks)
  let ?q = "\<lambda>n. p\<lparr>current := (current p)(j := None), sent := sent p @ [(j, n)]\<rparr>"
  show ?case
  proof (cases "j = k")
    case True
    have "(k, m) \<in> set (sent (?q m))" using True by simp
    then have "(k, m) \<in> set (sent (flush_each ks (?q m)))" using flush_each_sent_mono by blast
    with True Cons.prems show ?thesis by simp
  next
    case False
    then have "k \<in> set ks" using Cons.prems by simp
    then show ?thesis
      using False Cons.prems Cons.IH [of p] Cons.IH [of "?q n" for n]
      by (auto split: option.split)
  qed
qed simp

definition pool_ok :: "'m pool \<Rightarrow> bool" where
  "pool_ok p \<longleftrightarrow> bufferedProtocols p = [] \<or> 0 < timers p"

lemma pool_step_ok: "pool_ok p \<Longrightarrow> pool_ok (pool_step e p)"
  by (cases e)
    (auto simp: pool_ok_def addProtocolToAutosend_def removeProtocolFromAutosend_def
      scheduleSendAll_def sendAll_def Let_def)

lemma pool_run_ok: "pool_ok p \<Longrightarrow> pool_ok (pool_run es p)"
  by (induction es arbitrary: p) (auto simp: pool_step_ok)

section \<open>Properties\<close>

text \<open>
  Autosend liveness: after any sequence of pool events from the empty pool, a protocol
  that is registered and has a buffered packet is covered by a waiting timer event, and
  running one hands exactly that packet to its connection and empties its buffer.
\<close>
theorem autosend_delivers:
  assumes "p = pool_run es empty_pool"
    and "k \<in> set (bufferedProtocols p)" and "current p k = Some m"
  shows "0 < timers p \<and> (k, m) \<in> set (sent (pool_step EvTimer p))
    \<and> current (pool_step EvTimer p) k = None \<and> 0 < timers (pool_step EvTimer p)"
proof -
  have "pool_ok p"
    unfolding assms(1) by (rule pool_run_ok) (simp add: pool_ok_def empty_pool_def)
  then have t: "0 < timers p" using assms(2) by (auto simp: pool_ok_def)
  let ?q = "p\<lparr>timers := timers p - 1\<rparr>"
  have "(k, m) \<in> set (sent (flush_each (bufferedProtocols ?q) ?q))"
    using assms(2,3) by (intro flush_each_sends) simp_all
  with t assms(2) show ?thesis
    by (auto simp: sendAll_def Let_def scheduleSendAll_def flush_each_current)
qed

theorem autosend_delivers_witness:
  "(7, ''hello'') \<in> set (sent (pool_step EvTimer
     (pool_run [EvAdd 3, EvAdd 7, EvRemove 3, EvQueue 7 ''hello''] empty_pool)))"
proof -
  let ?p = "pool_run [EvAdd 3, EvAdd 7, EvRemove 3, EvQueue 7 ''hello''] empty_pool"
  have "7 \<in> set (bufferedProtocols ?p)" and "current ?p 7 = Some ''hello''"
    by (simp_all add: empty_pool_def addProtocolToAutosend_def removeProtocolFromAutosend_def
        scheduleSendAll_def)
  from autosend_delivers [OF refl this] show ?thesis by blast
qed

text \<open>
  The converse bound fails: when the last protocol leaves while its timer event waits and
  another one enters, two timer events are pending and both reschedule themselves.
\<close>

lemma autosend_timers_accumulate:
  "timers (pool_run [EvAdd 1, EvRemove 1, EvAdd 2, EvTimer, EvTimer] empty_pool) = 2"
  by (simp add: empty_pool_def addProtocolToAutosend_def removeProtocolFromAutosend_def
      scheduleSendAll_def sendAll_def)

end
