(* ===== verification/Adler.thy ===== *)
theory Adler
  imports Network_Message
begin

text \<open>
  The Adler-32 checksum of \<open>utils/tools.cpp\<close> (\<open>adlerChecksum\<close>). The code keeps both
  sums in \<open>uint32_t\<close> and reduces them modulo 65521 only after each chunk of at most
  5552 bytes. The model keeps the words and the chunking; the theorem shows that no
  intermediate sum ever wraps, so the result is the textbook checksum that reduces after
  every byte.
\<close>

section \<open>The code\<close>

text \<open>The \<open>do .. while (--tmp)\<close> loop over one chunk.\<close>

fun adler_inner :: "u32 \<Rightarrow> u32 \<Rightarrow> bytes \<Rightarrow> u32 \<times> u32" where
  "adler_inner a b [] = (a, b)"
| "adler_inner a b (d # ds) = (let a' = a + ucast d; b' = b + a' in adler_inner a' b' ds)"

text \<open>The \<open>while (length > 0)\<close> loop over the chunks.\<close>

function adler_loop :: "u32 \<Rightarrow> u32 \<Rightarrow> bytes \<Rightarrow> u32 \<times> u32" where
  "adler_loop a b ds =
     (if length ds > 0
      then let tmp = (if length ds > 5552 then 5552 else length ds);
               (a', b') = adler_inner a b (take tmp ds)
           in adler_loop (a' mod 65521) (b' mod 65521) (drop tmp ds)
      else (a, b))"
  by pat_completeness auto
termination
  by (relation "measure (\<lambda>(a, b, ds). length ds)") (auto split: if_splits)

declare adler_loop.simps [simp del]

definition adlerChecksum :: "bytes \<Rightarrow> u32" where
  "adlerChecksum data =
     (if length data > NETWORKMESSAGE_MAXSIZE then 0
      else let (a, b) = adler_loop 1 0 data in push_bit 16 b OR a)"

section \<open>The specification\<close>

text \<open>Adler-32 over the natural numbers, reduced after every byte.\<close>

fun adler_spec :: "nat \<Rightarrow> nat \<Rightarrow> bytes \<Rightarrow> nat \<times> nat" where
  "adler_spec a b [] = (a, b)"
| "adler_spec a b (d # ds) =
     adler_spec ((a + unat d) mod 65521) ((b + a + unat d) mod 65521) ds"

definition adler32 :: "bytes \<Rightarrow> nat" where
  "adler32 data = (let (a, b) = adler_spec 1 0 data in b * 65536 + a)"

section \<open>No chunk overflows\<close>

fun adler_nat :: "nat \<Rightarrow> nat \<Rightarrow> bytes \<Rightarrow> nat \<times> nat" where
  "adler_nat a b [] = (a, b)"
| "adler_nat a b (d # ds) = adler_nat (a + unat d) (b + a + unat d) ds"

lemma adler_nat_le:
  "fst (adler_nat a b ds) \<le> a + 255 * length ds
   \<and> 2 * snd (adler_nat a b ds) \<le> 2 * b + 2 * a * length ds + 255 * length ds * (length ds + 1)"
proof (induction ds arbitrary: a b)
  case Nil
  then show ?case by simp
next
  case (Cons d ds)
  have d: "unat d \<le> 255" using u8_lt [of d] by simp
  let ?a = "a + unat d" and ?b = "b + a + unat d" and ?n = "length ds"
  have "2 * snd (adler_nat ?a ?b ds) \<le> 2 * ?b + 2 * ?a * ?n + 255 * ?n * (?n + 1)"
    using Cons.IH [of ?a ?b] by simp
  also have "\<dots> = 2 * b + 2 * a * (?n + 1) + 2 * unat d * (?n + 1) + 255 * ?n * (?n + 1)"
    by (simp add: algebra_simps)
  also have "\<dots> \<le> 2 * b + 2 * a * (?n + 1) + 2 * 255 * (?n + 1) + 255 * ?n * (?n + 1)"
    using d by (intro add_mono mult_mono) auto
  also have "\<dots> = 2 * b + 2 * a * (?n + 1) + 255 * (?n + 1) * (?n + 2)"
    by (simp add: algebra_simps)
  finally show ?case
    using Cons.IH [of ?a ?b] d by simp
qed

lemma adler_nat_mono:
  "a \<le> fst (adler_nat a b ds) \<and> b \<le> snd (adler_nat a b ds)"
proof (induction ds arbitrary: a b)
  case (Cons d ds)
  then show ?case by (metis (no_types, lifting) adler_nat.simps(2) le_trans add.assoc le_add1)
qed simp

lemma adler_inner_exact:
  assumes "fst (adler_nat (unat a) (unat b) ds) < 2 ^ 32" "snd (adler_nat (unat a) (unat b) ds) < 2 ^ 32"
  shows "map_prod unat unat (adler_inner a b ds) = adler_nat (unat a) (unat b) ds"
  using assms
proof (induction ds arbitrary: a b)
  case Nil
  then show ?case by simp
next
  case (Cons d ds)
  let ?a = "a + ucast d" and ?b = "b + (a + ucast d)"
  have u: "unat (ucast d :: u32) = unat d" by (simp add: unat_ucast_up)
  have "unat a + unat d < 2 ^ 32" "unat b + unat a + unat d < 2 ^ 32"
    using Cons.prems adler_nat_mono [of "unat a + unat d" "unat b + unat a + unat d" ds] by simp_all
  then have "unat ?a = unat a + unat d" and "unat ?b = unat b + unat a + unat d"
    using unat_add_lt [of a "unat d"] unat_add_lt [of b "unat a + unat d"]
    by (simp_all add: add.assoc of_nat_add)
  with Cons.IH [of ?a ?b] Cons.prems show ?case by (simp add: Let_def)
qed

lemma adler_spec_nat:
  "adler_spec (a mod 65521) (b mod 65521) ds
     = map_prod (\<lambda>x. x mod 65521) (\<lambda>x. x mod 65521) (adler_nat a b ds)"
proof (induction ds arbitrary: a b)
  case Nil
  then show ?case by simp
next
  case (Cons d ds)
  have "(a mod 65521 + unat d) mod 65521 = (a + unat d) mod 65521"
    and "(b mod 65521 + a mod 65521 + unat d) mod 65521 = (b + a + unat d) mod 65521"
    by (simp add: mod_simps) (metis (no_types, opaque_lifting) add.assoc mod_add_left_eq mod_add_right_eq)
  with Cons.IH [of "a + unat d" "b + a + unat d"] show ?case by simp
qed

lemma adler_spec_append:
  "adler_spec a b (xs @ ys) = (let (a', b') = adler_spec a b xs in adler_spec a' b' ys)"
  by (induction xs arbitrary: a b) auto

lemma chunk_bounds:
  assumes "a < 65521" "b < 65521" "length ds \<le> 5552"
  shows "fst (adler_nat a b ds) < 2 ^ 32 \<and> snd (adler_nat a b ds) < 2 ^ 32"
proof -
  have "2 * a * length ds \<le> 2 * 65520 * 5552" "255 * length ds * (length ds + 1) \<le> 255 * 5552 * 5553"
    using assms by (intro mult_mono; simp)+
  with adler_nat_le [of a b ds] assms show ?thesis by simp
qed

lemma adler_loop_exact:
  "unat a < 65521 \<Longrightarrow> unat b < 65521 \<Longrightarrow>
     map_prod unat unat (adler_loop a b ds) = adler_spec (unat a) (unat b) ds"
proof (induction a b ds rule: adler_loop.induct)
  case (1 a b ds)
  show ?case
  proof (cases "ds = []")
    case True
    then show ?thesis by (simp add: adler_loop.simps)
  next
    case False
    define tmp where "tmp = (if length ds > 5552 then 5552 else length ds)"
    obtain a' b' where i: "adler_inner a b (take tmp ds) = (a', b')" by fastforce
    have "length (take tmp ds) \<le> 5552" by (simp add: tmp_def)
    with 1(2,3) have n: "adler_nat (unat a) (unat b) (take tmp ds) = (unat a', unat b')"
      using adler_inner_exact [of a b "take tmp ds"] chunk_bounds [of "unat a" "unat b" "take tmp ds"]
      by (simp add: i)
    let ?a = "a' mod 65521" and ?b = "b' mod 65521"
    have m: "unat ?a = unat a' mod 65521" "unat ?b = unat b' mod 65521"
      by (simp_all add: unat_mod)
    have "map_prod unat unat (adler_loop ?a ?b (drop tmp ds)) = adler_spec (unat ?a) (unat ?b) (drop tmp ds)"
      using 1(1) [OF _ tmp_def i [symmetric]] False m by simp
    moreover have "adler_spec (unat a) (unat b) (take tmp ds) = (unat ?a, unat ?b)"
      using adler_spec_nat [of "unat a" "unat b" "take tmp ds"] 1(2,3) by (simp add: n m)
    ultimately show ?thesis
      using False adler_spec_append [of "unat a" "unat b" "take tmp ds" "drop tmp ds"]
      by (subst adler_loop.simps) (simp add: i Let_def flip: tmp_def)
  qed
qed

lemma adler_spec_lt:
  "a < 65521 \<Longrightarrow> b < 65521 \<Longrightarrow> adler_spec a b ds = (x, y) \<Longrightarrow> x < 65521 \<and> y < 65521"
proof (induction ds arbitrary: a b)
  case (Cons d ds)
  then show ?case using Cons.IH [of "(a + unat d) mod 65521" "(b + a + unat d) mod 65521"] by simp
qed simp

lemma unat_concat_halves:
  assumes "unat (a :: u32) < 65536" "unat (b :: u32) < 65536"
  shows "unat (push_bit 16 b OR a) = unat b * 65536 + unat a"
proof -
  have "push_bit 16 b AND a = 0"
  proof (rule bit_word_eqI)
    fix i
    have "\<not> bit a i" if "16 \<le> i"
      using assms(1) that by (intro high_bits_clear [of a 16]) simp_all
    then show "bit (push_bit 16 b AND a) i \<longleftrightarrow> bit (0 :: u32) i"
      by (auto simp: bit_and_iff bit_push_bit_iff)
  qed
  then have "push_bit 16 b OR a = push_bit 16 b + a"
    by (rule disjunctive_add_eq_or [symmetric])
  moreover have "unat (push_bit 16 b) = unat b * 65536"
    using assms(2) by (simp add: push_bit_eq_mult unat_word_ariths)
  ultimately show ?thesis
    using assms by (simp add: unat_word_ariths)
qed

section \<open>Properties\<close>

text \<open>
  C29. For every buffer a message can hold, \<open>adlerChecksum\<close> (32-bit sums, reduced once per
  5552-byte chunk) computes the Adler-32 checksum defined with a reduction after every
  byte: no intermediate sum overflows.
\<close>
theorem adlerChecksum_is_adler32:
  assumes "length data \<le> NETWORKMESSAGE_MAXSIZE"
  shows "unat (adlerChecksum data) = adler32 data"
proof -
  obtain a b where ab: "adler_loop 1 0 data = (a, b)" by fastforce
  have spec: "adler_spec 1 0 data = (unat a, unat b)"
    using adler_loop_exact [of 1 0 data] by (simp add: ab)
  then have "unat a < 65536" "unat b < 65536"
    using adler_spec_lt [of 1 0 data] by force+
  then show ?thesis
    using assms spec by (simp add: adlerChecksum_def adler32_def ab unat_concat_halves)
qed

theorem adlerChecksum_is_adler32_witness:
  "unat (adlerChecksum [0x57, 0x69, 0x6B, 0x69, 0x70, 0x65, 0x64, 0x69, 0x61]) = 0x11E60398"
proof -
  have "length [0x57, 0x69, 0x6B, 0x69, 0x70, 0x65, 0x64, 0x69, 0x61 :: u8] \<le> NETWORKMESSAGE_MAXSIZE"
    by (simp add: nm_consts)
  from adlerChecksum_is_adler32 [OF this] show ?thesis by (simp add: adler32_def)
qed

end
