(* ===== verification/Protocol.thy ===== *)
theory Protocol
  imports Output_Message Adler
begin

text \<open>
  The framing layer of a connection (\<open>server/network/protocol/protocol.cpp\<close>,
  \<open>protocol.hpp\<close>): XTEA encryption of outgoing bodies and decryption of incoming ones,
  the three checksum methods, the sequence counters and the optional compression. XTEA
  is modelled on the words it computes with; zlib is a parameter of \<open>compression\<close>. The
  lemmas give the inverse property of the cipher and the exact frame that
  \<open>onSendMessage\<close> builds.
\<close>

section \<open>XTEA\<close>

definition xtea_delta :: u32 where "xtea_delta = 0x61C88647"

text \<open>\<open>(v << 4 ^ v >> 5) + v\<close>\<close>

definition xtea_mix :: "u32 \<Rightarrow> u32" where
  "xtea_mix v = (push_bit 4 v XOR drop_bit 5 v) + v"

text \<open>The table \<open>precachedControlSum\<close> of \<open>XTEA_encrypt\<close>, row by row.\<close>

fun encrypt_sums :: "u32 list \<Rightarrow> nat \<Rightarrow> u32 \<Rightarrow> (u32 \<times> u32) list" where
  "encrypt_sums key 0 csum = []"
| "encrypt_sums key (Suc n) csum =
     (let csum' = csum - xtea_delta in
      (csum + key ! unat (csum AND 3), csum' + key ! unat (drop_bit 11 csum' AND 3))
        # encrypt_sums key n csum')"

text \<open>The table of \<open>XTEA_decrypt\<close>.\<close>

fun decrypt_sums :: "u32 list \<Rightarrow> nat \<Rightarrow> u32 \<Rightarrow> (u32 \<times> u32) list" where
  "decrypt_sums key 0 csum = []"
| "decrypt_sums key (Suc n) csum =
     (let csum' = csum + xtea_delta in
      (csum + key ! unat (drop_bit 11 csum AND 3), csum' + key ! unat (csum' AND 3))
        # decrypt_sums key n csum')"

fun encrypt_round :: "u32 \<times> u32 \<Rightarrow> u32 \<times> u32 \<Rightarrow> u32 \<times> u32" where
  "encrypt_round (v0, v1) (c0, c1) =
     (let v0' = v0 + (xtea_mix v1 XOR c0); v1' = v1 + (xtea_mix v0' XOR c1) in (v0', v1'))"

fun decrypt_round :: "u32 \<times> u32 \<Rightarrow> u32 \<times> u32 \<Rightarrow> u32 \<times> u32" where
  "decrypt_round (v0, v1) (c0, c1) =
     (let v1' = v1 - (xtea_mix v0 XOR c0); v0' = v0 - (xtea_mix v1' XOR c1) in (v0', v1'))"

definition encrypt_block :: "u32 list \<Rightarrow> u32 \<times> u32 \<Rightarrow> u32 \<times> u32" where
  "encrypt_block key v = foldl encrypt_round v (encrypt_sums key 32 0)"

definition decrypt_block :: "u32 list \<Rightarrow> u32 \<times> u32 \<Rightarrow> u32 \<times> u32" where
  "decrypt_block key v = foldl decrypt_round v (decrypt_sums key 32 0xC6EF3720)"

text \<open>The \<open>while (readPos < messageLength)\<close> loop: eight bytes at a time, in place.\<close>

function block_loop ::
  "(u32 \<times> u32 \<Rightarrow> u32 \<times> u32) \<Rightarrow> nat \<Rightarrow> nat \<Rightarrow> nat \<Rightarrow> memory \<Rightarrow> memory" where
  "block_loop f base messageLength readPos mem =
     (if readPos < messageLength
      then let v = (le_word (mem_read mem (base + readPos) 4), le_word (mem_read mem (base + readPos + 4) 4));
               (w0, w1) = f v
           in block_loop f base messageLength (readPos + 8)
                (mem_write mem (base + readPos) (le_bytes 4 w0 @ le_bytes 4 w1))
      else mem)"
  by pat_completeness auto
termination
  by (relation "measure (\<lambda>(f, base, messageLength, readPos, mem). messageLength - readPos)") auto

declare block_loop.simps [simp del]

section \<open>Protocol state and operations\<close>

datatype checksum_method = CHECKSUM_METHOD_NONE | CHECKSUM_METHOD_ADLER32 | CHECKSUM_METHOD_SEQUENCE

record protocol =
  key :: "u32 list"
  serverSequenceNumber :: u32
  clientSequenceNumber :: u32
  checksumMethod :: checksum_method
  encryptionEnabled :: bool
  rawMessages :: bool

definition XTEA_encrypt :: "protocol \<Rightarrow> output_message \<Rightarrow> output_message" where
  "XTEA_encrypt pr om =
     (let paddingBytes = unat (nm_length (om_msg om) AND 7);
          om1 = (if paddingBytes \<noteq> 0 then om_update (addPaddingBytes (8 - paddingBytes)) om else om)
      in om_update (\<lambda>m. m\<lparr>nm_buffer := block_loop (encrypt_block (key pr)) (unat (outputBufferStart om1))
                                         (unat (nm_length m)) 0 (nm_buffer m)\<rparr>) om1)"

definition XTEA_decrypt :: "protocol \<Rightarrow> network_message \<Rightarrow> bool \<times> network_message" where
  "XTEA_decrypt pr msg =
     (let msgLength = nm_length msg - (if checksumMethod pr = CHECKSUM_METHOD_NONE then 2 else 6) in
      if msgLength AND 7 \<noteq> 0 then (False, msg)
      else let msg1 = msg\<lparr>nm_buffer := block_loop (decrypt_block (key pr)) (unat (nm_position msg))
                                           (unat msgLength) 0 (nm_buffer msg)\<rparr>;
               (innerLength :: u16, msg2) = get msg1
           in if int (unat innerLength) > int (unat msgLength) - 2 then (False, msg2)
              else (True, msg2\<lparr>nm_length := innerLength\<rparr>))"

text \<open>
  \<open>deflate\<close> is zlib: from the input bytes, a return code and the bytes it produced.
  \<open>None\<close> stands for a stream that was not created (compression disabled).
\<close>

datatype zlib_ret = Z_OK | Z_STREAM_END | Z_ERROR

definition compression ::
  "(bytes \<Rightarrow> zlib_ret \<times> bytes) option \<Rightarrow> protocol \<Rightarrow> output_message \<Rightarrow> bool \<times> output_message" where
  "compression deflate pr om =
     (if checksumMethod pr \<noteq> CHECKSUM_METHOD_SEQUENCE then (False, om)
      else case deflate of None \<Rightarrow> (False, om)
      | Some defl \<Rightarrow>
        (if unat (nm_length (om_msg om)) > NETWORKMESSAGE_MAXSIZE then (False, om)
         else case defl (output_bytes om) of (ret, out) \<Rightarrow>
           if ret \<noteq> Z_OK \<and> ret \<noteq> Z_STREAM_END then (False, om)
           else if length out = 0 then (False, om)
           else (True, om_update (addBytes (Some out) \<circ> reset) om)))"

definition onSendMessage ::
  "(bytes \<Rightarrow> zlib_ret \<times> bytes) option \<Rightarrow> output_message \<Rightarrow> protocol \<Rightarrow> output_message \<times> protocol" where
  "onSendMessage deflate om pr =
     (if rawMessages pr then (om, pr)
      else let (compressed, om1) = (if unat (nm_length (om_msg om)) \<ge> 128 then compression deflate pr om
                                    else (False, om));
               sendMessageChecksum = (if compressed then push_bit 31 1 else 0 :: u32);
               om2 = writeMessageLength om1
           in if \<not> encryptionEnabled pr then (om2, pr)
              else let om3 = XTEA_encrypt pr om2 in
                case checksumMethod pr of
                  CHECKSUM_METHOD_NONE \<Rightarrow> (addCryptoHeader False 0 om3, pr)
                | CHECKSUM_METHOD_ADLER32 \<Rightarrow>
                    (addCryptoHeader True (adlerChecksum (output_bytes om3)) om3, pr)
                | CHECKSUM_METHOD_SEQUENCE \<Rightarrow>
                    (let seq = serverSequenceNumber pr + 1
                     in (addCryptoHeader True (sendMessageChecksum OR seq) om3,
                         pr\<lparr>serverSequenceNumber := (if seq \<ge> 0x7FFFFFFF then 0 else seq)\<rparr>)))"

text \<open>
  Receiving: the result says whether the packet was handed to the dispatcher
  (\<open>parsePacket\<close> of the returned message) or dropped.
\<close>

definition sendRecvMessageCallback :: "network_message \<Rightarrow> protocol \<Rightarrow> bool \<times> network_message" where
  "sendRecvMessageCallback msg pr =
     (if encryptionEnabled pr then XTEA_decrypt pr msg else (True, msg))"

definition recv_adler :: "network_message \<Rightarrow> u32" where
  "recv_adler msg =
     (let len = int (unat (nm_length msg)) - int (unat (nm_position msg)) in
      if len > 0 then adlerChecksum (mem_read (nm_buffer msg) (unat (nm_position msg)) (nat len)) else 0)"

definition onRecvMessage :: "network_message \<Rightarrow> protocol \<Rightarrow> bool \<times> network_message \<times> protocol" where
  "onRecvMessage msg pr =
     (let deliver = (\<lambda>m p. let (ok, m') = sendRecvMessageCallback m p in (ok, m', p)) in
      if checksumMethod pr \<noteq> CHECKSUM_METHOD_NONE then
        (let (recvChecksum :: u32, msg1) = get msg in
         if checksumMethod pr = CHECKSUM_METHOD_SEQUENCE then
           (if recvChecksum = 0 then (False, msg1, pr)
            else let checksum = clientSequenceNumber pr + 1;
                     pr1 = pr\<lparr>clientSequenceNumber := (if checksum \<ge> 0x7FFFFFFF then 0 else checksum)\<rparr>
                 in if recvChecksum \<noteq> checksum then (False, msg1, pr1) else deliver msg1 pr1)
         else (if recvChecksum \<noteq> recv_adler msg1 then (False, msg1, pr) else deliver msg1 pr))
      else deliver msg pr)"

text \<open>
  \<open>Protocol::getOutputBuffer\<close>: the buffer in use, replaced when it cannot take
  \<open>size\<close> more bytes. \<open>fresh\<close> is the new message; the second component is the message
  handed to \<open>send\<close>, if any.
\<close>

definition getOutputBuffer ::
  "output_message \<Rightarrow> int \<Rightarrow> output_message option \<Rightarrow> output_message \<times> output_message option" where
  "getOutputBuffer fresh sz outputBuffer =
     (case outputBuffer of
        None \<Rightarrow> (fresh, None)
      | Some ob \<Rightarrow> (if int (unat (nm_length (om_msg ob))) + sz > int MAX_PROTOCOL_BODY_LENGTH
                    then (fresh, Some ob) else (ob, None)))"

section \<open>The block cipher interface\<close>

text \<open>The byte-list view of one pass over the blocks.\<close>

function map_blocks :: "(u32 \<times> u32 \<Rightarrow> u32 \<times> u32) \<Rightarrow> bytes \<Rightarrow> bytes" where
  "map_blocks f bs =
     (if length bs < 8 then []
      else let (w0, w1) = f (le_word (take 4 bs), le_word (take 4 (drop 4 bs)))
           in le_bytes 4 w0 @ le_bytes 4 w1 @ map_blocks f (drop 8 bs))"
  by pat_completeness auto
termination
  by (relation "measure (\<lambda>(f, bs). length bs)") auto

declare map_blocks.simps [simp del]

lemma map_blocks_Nil [simp]: "map_blocks f [] = []"
  by (simp add: map_blocks.simps)

lemma map_blocks_step:
  assumes "length b = 8" and "f (le_word (take 4 b), le_word (drop 4 b)) = (w0, w1)"
  shows "map_blocks f (b @ bs) = le_bytes 4 w0 @ le_bytes 4 w1 @ map_blocks f bs"
  using assms by (subst map_blocks.simps) (simp add: Let_def)

lemma blocks_induct [consumes 1, case_names Nil Block]:
  assumes "8 dvd length bs" and "P []"
    and "\<And>b bs. length b = 8 \<Longrightarrow> 8 dvd length bs \<Longrightarrow> P bs \<Longrightarrow> P (b @ bs)"
  shows "P (bs :: 'a list)"
  using assms(1)
proof (induction "length bs" arbitrary: bs rule: less_induct)
  case less
  show ?case
  proof (cases "bs = []")
    case False
    with less.prems have "8 \<le> length bs" by (auto dest: dvd_imp_le)
    moreover have "8 dvd length (drop 8 bs)" using less.prems by (simp add: dvd_diff_nat)
    ultimately have "P (take 8 bs @ drop 8 bs)"
      using less.hyps [of "drop 8 bs"] False by (intro assms(3)) auto
    then show ?thesis by simp
  qed (simp add: assms(2))
qed

lemma length_map_blocks [simp]: "8 dvd length bs \<Longrightarrow> length (map_blocks f bs) = length bs"
proof (induction bs rule: blocks_induct)
  case (Block b bs)
  obtain w0 w1 where "f (le_word (take 4 b), le_word (drop 4 b)) = (w0, w1)" by fastforce
  with Block show ?case by (simp add: map_blocks_step)
qed simp

locale block_cipher =
  fixes enc :: "u32 \<times> u32 \<Rightarrow> u32 \<times> u32" and dec :: "u32 \<times> u32 \<Rightarrow> u32 \<times> u32"
  assumes dec_enc: "dec (enc v) = v"
begin

lemma map_blocks_inverse: "8 dvd length bs \<Longrightarrow> map_blocks dec (map_blocks enc bs) = bs"
proof (induction bs rule: blocks_induct)
  case (Block b bs)
  obtain w0 w1 where w: "enc (le_word (take 4 b), le_word (drop 4 b)) = (w0, w1)" by fastforce
  then have d: "dec (w0, w1) = (le_word (take 4 b), le_word (drop 4 b))"
    using dec_enc by metis
  have "map_blocks dec (map_blocks enc (b @ bs))
      = map_blocks dec ((le_bytes 4 w0 @ le_bytes 4 w1) @ map_blocks enc bs)"
    using Block w by (simp add: map_blocks_step)
  also have "\<dots> = take 4 b @ drop 4 b @ map_blocks dec (map_blocks enc bs)"
    using Block d by (subst map_blocks_step [where b = "le_bytes 4 w0 @ le_bytes 4 w1"]) auto
  finally show ?case using Block by simp
qed simp

end

text \<open>The in-place loop rewrites exactly the message and applies the cipher blockwise.\<close>

lemma block_loop_mem:
  assumes "8 dvd n" and "8 dvd r" and "r \<le> n"
  shows "block_loop f base n r mem
           = mem_write mem (base + r) (map_blocks f (mem_read mem (base + r) (n - r)))"
  using assms
proof (induction "n - r" arbitrary: r mem rule: less_induct)
  case less
  show ?case
  proof (cases "r < n")
    case False
    then show ?thesis using less.prems by (simp add: block_loop.simps)
  next
    case True
    then have r8: "8 dvd r + 8" "r + 8 \<le> n" "n - (r + 8) < n - r"
      using less.prems by (auto elim!: dvdE)
    let ?b = "mem_read mem (base + r) 8" and ?rest = "mem_read mem (base + r + 8) (n - (r + 8))"
    obtain w0 w1 where w: "f (le_word (take 4 ?b), le_word (drop 4 ?b)) = (w0, w1)" by fastforce
    let ?out = "le_bytes 4 w0 @ le_bytes 4 w1"
    let ?mem = "mem_write mem (base + r) ?out"
    have split: "mem_read mem (base + r) (n - r) = ?b @ ?rest"
      using r8(2) mem_read_append [of mem "base + r" 8 "n - (r + 8)"] by simp
    have "block_loop f base n r mem = block_loop f base n (r + 8) ?mem"
      using True w by (subst block_loop.simps)
        (simp add: Let_def take_mem_read drop_mem_read)
    also have "\<dots> = mem_write ?mem (base + (r + 8)) (map_blocks f (mem_read ?mem (base + (r + 8)) (n - (r + 8))))"
      using r8 less.prems by (intro less.hyps) auto
    also have "mem_read ?mem (base + (r + 8)) (n - (r + 8)) = ?rest"
      by (simp add: mem_read_write_other add.assoc)
    also have "mem_write ?mem (base + (r + 8)) (map_blocks f ?rest)
        = mem_write mem (base + r) (?out @ map_blocks f ?rest)"
      by (subst mem_write_append) (simp add: add.assoc)
    also have "?out @ map_blocks f ?rest = map_blocks f (?b @ ?rest)"
      using w by (simp add: map_blocks_step)
    finally show ?thesis by (simp add: split)
  qed
qed

section \<open>XTEA is a block cipher\<close>

lemma decrypt_encrypt_round: "decrypt_round (encrypt_round v (c0, c1)) (c1, c0) = v"
  by (cases v) (simp add: Let_def)

lemma decrypt_sums_rev:
  "decrypt_sums k n (csum - of_nat n * xtea_delta)
     = rev (map prod.swap (encrypt_sums k n csum))"
proof -
  have snoc: "decrypt_sums k (Suc n) s = decrypt_sums k n s @
      [(let t = s + of_nat n * xtea_delta; t' = t + xtea_delta in
        (t + k ! unat (drop_bit 11 t AND 3), t' + k ! unat (t' AND 3)))]" for n s
    by (induction n arbitrary: s) (simp_all add: Let_def algebra_simps)
  show ?thesis
  proof (induction n arbitrary: csum)
    case 0
    then show ?case by simp
  next
    case (Suc n)
    define s where "s = csum - of_nat (Suc n) * xtea_delta"
    have e: "s = (csum - xtea_delta) - of_nat n * xtea_delta"
      "s + of_nat n * xtea_delta = csum - xtea_delta" "s + of_nat n * xtea_delta + xtea_delta = csum"
      by (simp_all add: s_def algebra_simps)
    have "decrypt_sums k n s = rev (map prod.swap (encrypt_sums k n (csum - xtea_delta)))"
      using Suc.IH [of "csum - xtea_delta"] by (simp only: e(1))
    then have "decrypt_sums k (Suc n) s = rev (map prod.swap (encrypt_sums k (Suc n) csum))"
      unfolding snoc by (simp add: Let_def e(2,3))
    then show ?case by (simp only: s_def)
  qed
qed

lemma foldl_decrypt_encrypt:
  "foldl decrypt_round (foldl encrypt_round v cs) (rev (map prod.swap cs)) = v"
proof (induction cs rule: rev_induct)
  case (snoc c cs)
  then show ?case by (cases c) (simp add: decrypt_encrypt_round)
qed simp

interpretation xtea: block_cipher "encrypt_block k" "decrypt_block k" for k
proof
  fix v
  have "0 - of_nat 32 * xtea_delta = 0xC6EF3720"
    by (simp add: xtea_delta_def word_uint_eq_iff)
  then have "decrypt_sums k 32 0xC6EF3720 = rev (map prod.swap (encrypt_sums k 32 0))"
    using decrypt_sums_rev [of k 32 0] by (simp only:)
  then show "decrypt_block k (encrypt_block k v) = v"
    by (simp add: decrypt_block_def encrypt_block_def foldl_decrypt_encrypt
        del: decrypt_sums.simps encrypt_sums.simps)
qed

section \<open>Frames\<close>

text \<open>The padding \<open>XTEA_encrypt\<close> appends to a message of \<open>n\<close> bytes.\<close>

definition xtea_padding :: "nat \<Rightarrow> bytes" where
  "xtea_padding n = (if n mod 8 = 0 then [] else replicate (8 - n mod 8) 0x33)"

lemma xtea_padding_dvd: "8 dvd n + length (xtea_padding n)"
proof (cases "n mod 8 = 0")
  case False
  have "n + (8 - n mod 8) = 8 * (n div 8 + 1)"
    by presburger
  then show ?thesis using False by (simp add: xtea_padding_def)
qed (auto simp: xtea_padding_def)

lemma length_xtea_padding: "length (xtea_padding n) < 8"
  by (simp add: xtea_padding_def)

lemma unat_and_7: "unat (w AND 7 :: 'a::len word) = unat w mod 8" if "3 \<le> LENGTH('a)"
proof -
  have "w AND 7 = take_bit 3 w"
    by (simp add: take_bit_eq_mask mask_eq_exp_minus_1)
  moreover have "unat (take_bit 3 w) = unat w mod 8"
    by (subst unsigned_take_bit_eq) (simp add: take_bit_eq_mod)
  ultimately show ?thesis by (simp only:)
qed

lemma and_7_eq_0: "(w AND 7 :: u16) = 0 \<longleftrightarrow> 8 dvd unat w"
  using unat_and_7 [of w] by (simp add: unat_eq_zero [symmetric] mod_eq_0_iff_dvd del: unat_eq_zero)

lemma XTEA_encrypt_output:
  assumes pos: "unat (outputBufferStart om) + unat (nm_length (om_msg om)) = unat (nm_position (om_msg om))"
    and room: "unat (nm_position (om_msg om)) < MAX_BODY_LENGTH"
  defines "plain \<equiv> output_bytes om @ xtea_padding (unat (nm_length (om_msg om)))"
  shows "output_bytes (XTEA_encrypt pr om) = map_blocks (encrypt_block (key pr)) plain
    \<and> outputBufferStart (XTEA_encrypt pr om) = outputBufferStart om
    \<and> unat (nm_length (om_msg (XTEA_encrypt pr om))) = length plain \<and> 8 dvd length plain"
proof -
  let ?l = "unat (nm_length (om_msg om))" and ?s = "unat (outputBufferStart om)"
  let ?pad = "xtea_padding ?l"
  define om1 where "om1 = (if ?l mod 8 \<noteq> 0 then om_update (addPaddingBytes (8 - ?l mod 8)) om else om)"
  have enc: "XTEA_encrypt pr om = om_update (\<lambda>m. m\<lparr>nm_buffer := block_loop (encrypt_block (key pr)) ?s
      (unat (nm_length m)) 0 (nm_buffer m)\<rparr>) om1" and start: "outputBufferStart om1 = outputBufferStart om"
    by (simp_all add: XTEA_encrypt_def om1_def Let_def unat_and_7 om_update_def)
  have buf: "nm_buffer (om_msg om1) = mem_write (nm_buffer (om_msg om)) (?s + ?l) ?pad"
    and len: "unat (nm_length (om_msg om1)) = ?l + length ?pad"
    using pos room unat_add_lt [of "nm_length (om_msg om)" "8 - ?l mod 8"]
    by (auto simp: om1_def om_update_def addPaddingBytes_def xtea_padding_def nm_consts)
  have plain: "mem_read (nm_buffer (om_msg om1)) ?s (?l + length ?pad) = plain"
    by (simp add: buf plain_def mem_read_append mem_read_write_other output_bytes_def)
  have dvd: "8 dvd ?l + length ?pad" by (rule xtea_padding_dvd)
  have lp: "length plain = ?l + length ?pad" by (simp add: plain_def output_bytes_def)
  have "nm_buffer (om_msg (XTEA_encrypt pr om))
      = mem_write (nm_buffer (om_msg om1)) ?s (map_blocks (encrypt_block (key pr)) plain)"
    using block_loop_mem [OF dvd, of 0 "encrypt_block (key pr)" ?s "nm_buffer (om_msg om1)"]
    by (simp add: enc om_update_def len plain)
  then show ?thesis
    using dvd lp by (simp add: enc om_update_def output_bytes_def len start mem_write_sameI)
qed

text \<open>What the receiver recovers from the encrypted part of a frame.\<close>

lemma XTEA_decrypt_frame:
  assumes body: "plain = le_bytes 2 (of_nat (length body) :: u16) @ body @ pad" "length body < 65536"
    and dvd: "8 dvd length plain"
    and len: "unat (nm_length r) = length plain + (if checksumMethod pr = CHECKSUM_METHOD_NONE then 2 else 6)"
    and pos: "unat (nm_position r) = (if checksumMethod pr = CHECKSUM_METHOD_NONE then 2 else 6)"
    and cipher: "mem_read (nm_buffer r) (unat (nm_position r)) (length plain) = map_blocks (encrypt_block (key pr)) plain"
  shows "\<exists>r'. XTEA_decrypt pr r = (True, r') \<and> unat (nm_length r') = length body
    \<and> unat (nm_position r') = unat (nm_position r) + 2 \<and> nm_overrun r' = nm_overrun r
    \<and> mem_read (nm_buffer r') (unat (nm_position r')) (length body) = body"
proof -
  let ?p = "unat (nm_position r)" and ?k = "if checksumMethod pr = CHECKSUM_METHOD_NONE then 2 else 6 :: nat"
  define ml where "ml = nm_length r - (if checksumMethod pr = CHECKSUM_METHOD_NONE then 2 else 6)"
  have "(of_nat ?k :: u16) \<le> nm_length r" using len by (simp add: word_le_nat_alt)
  then have ml: "unat ml = length plain"
    using len by (auto simp: ml_def unat_sub split: if_splits)
  define r1 where "r1 = r\<lparr>nm_buffer := mem_write (nm_buffer r) ?p plain\<rparr>"
  have "block_loop (decrypt_block (key pr)) ?p (length plain) 0 (nm_buffer r) = nm_buffer r1"
    using block_loop_mem [OF dvd, of 0 "decrypt_block (key pr)" ?p "nm_buffer r"]
    by (simp add: cipher xtea.map_blocks_inverse [OF dvd] r1_def)
  then have dec: "XTEA_decrypt pr r = (let (innerLength :: u16, msg2) = get r1
      in if int (unat innerLength) > int (length plain) - 2 then (False, msg2)
         else (True, msg2\<lparr>nm_length := innerLength\<rparr>))"
    using dvd by (simp add: XTEA_decrypt_def ml_def [symmetric] ml and_7_eq_0 r1_def
        del: block_loop.simps)
  have at: "mem_read (nm_buffer r1) ?p 2 = le_bytes 2 (of_nat (length body) :: u16)"
    "mem_read (nm_buffer r1) (?p + 2) (length body) = body"
    using mem_write_same [of "nm_buffer r" ?p plain]
    by (simp_all add: r1_def body mem_read_append mem_write_append mem_read_write_other mem_write_sameI)
  have "readable r1 2"
    using len pos u16_lt [of "nm_length r"] by (auto simp: readable_def r1_def nm_consts)
  then have "get r1 = (of_nat (length body) :: u16, advance r1 2)"
    and "unat (nm_position (advance r1 2)) = ?p + 2"
    using field_u16.fetch_enc [of r1 "of_nat (length body)"] unat_position_advance [of r1 2] at
    by (simp_all add: r1_def)
  moreover have n: "unat (of_nat (length body) :: u16) = length body"
    using body(2) by (intro unat_of_nat_lt) simp
  moreover have "uint (of_nat (length body) :: u16) = int (length body)"
    by (simp only: uint_nat n)
  ultimately show ?thesis
    using at(2) by (simp add: dec body(1) r1_def)
qed

text \<open>A message as the writers leave it, before any header.\<close>

definition ready_to_send :: "output_message \<Rightarrow> bool" where
  "ready_to_send om \<longleftrightarrow> outputBufferStart om = 8
     \<and> unat (nm_position (om_msg om)) = 8 + unat (nm_length (om_msg om))
     \<and> unat (nm_length (om_msg om)) + 8 < MAX_BODY_LENGTH"

definition plain_of :: "bytes \<Rightarrow> bytes" where
  "plain_of body = le_bytes 2 (of_nat (length body) :: u16) @ body @ xtea_padding (length body + 2)"

definition checksum_header :: "protocol \<Rightarrow> bytes \<Rightarrow> bytes" where
  "checksum_header pr cipher = (case checksumMethod pr of
      CHECKSUM_METHOD_NONE \<Rightarrow> []
    | CHECKSUM_METHOD_ADLER32 \<Rightarrow> le_bytes 4 (adlerChecksum cipher)
    | CHECKSUM_METHOD_SEQUENCE \<Rightarrow> le_bytes 4 (serverSequenceNumber pr + 1))"

definition frame_of :: "protocol \<Rightarrow> bytes \<Rightarrow> bytes" where
  "frame_of pr body =
     (let cipher = map_blocks (encrypt_block (key pr)) (plain_of body);
          content = checksum_header pr cipher @ cipher
      in le_bytes 2 (of_nat (length content) :: u16) @ content)"

definition no_compression :: "(bytes \<Rightarrow> zlib_ret \<times> bytes) option \<Rightarrow> output_message \<Rightarrow> protocol \<Rightarrow> bool" where
  "no_compression deflate om pr \<longleftrightarrow> deflate = None \<or> checksumMethod pr \<noteq> CHECKSUM_METHOD_SEQUENCE
     \<or> unat (nm_length (om_msg om)) < 128"

lemma plain_of_dvd: "8 dvd length (plain_of body)"
  using xtea_padding_dvd [of "length body + 2"] by (simp add: plain_of_def add.commute add.left_commute)

lemma length_plain_of: "length body + 2 \<le> length (plain_of body) \<and> length (plain_of body) < length body + 10"
  using length_xtea_padding [of "length body + 2"] by (simp add: plain_of_def)

lemma length_checksum_header [simp]:
  "length (checksum_header pr c) = (if checksumMethod pr = CHECKSUM_METHOD_NONE then 0 else 4)"
  by (cases "checksumMethod pr") (auto simp: checksum_header_def)

lemma encrypted_output:
  fixes pr :: protocol
  assumes "ready_to_send om"
  defines "om3 \<equiv> XTEA_encrypt pr (writeMessageLength om)"
  shows "output_bytes om3 = map_blocks (encrypt_block (key pr)) (plain_of (output_bytes om))
    \<and> unat (outputBufferStart om3) = 6
    \<and> unat (nm_length (om_msg om3)) = length (plain_of (output_bytes om))"
proof -
  let ?om2 = "writeMessageLength om" and ?l = "unat (nm_length (om_msg om))"
  from assms(1) have r: "unat (outputBufferStart om) = 8" "?l + 8 < MAX_BODY_LENGTH"
    "unat (nm_position (om_msg om)) = 8 + ?l"
    by (simp_all add: ready_to_send_def)
  have lb: "length (output_bytes om) = ?l" by (simp add: output_bytes_def)
  have out2: "output_bytes ?om2 = le_bytes 2 (nm_length (om_msg om)) @ output_bytes om"
    "unat (nm_length (om_msg ?om2)) = ?l + 2" "unat (outputBufferStart ?om2) = 6"
    using add_header_output_bytes [of om "nm_length (om_msg om)"]
      add_header_start [of om "nm_length (om_msg om)"] r
    by (simp_all add: writeMessageLength_def nm_consts)
  have pos2: "nm_position (om_msg ?om2) = nm_position (om_msg om)"
    by (simp add: writeMessageLength_def)
  have "output_bytes ?om2 @ xtea_padding (unat (nm_length (om_msg ?om2))) = plain_of (output_bytes om)"
    by (simp add: out2(1,2) plain_of_def lb)
  then show ?thesis
    using XTEA_encrypt_output [of ?om2 pr] out2 pos2 r by (simp add: om3_def)
qed

lemma onSendMessage_frame:
  assumes "ready_to_send om" "\<not> rawMessages pr" "encryptionEnabled pr" "no_compression deflate om pr"
  shows "output_bytes (fst (onSendMessage deflate om pr)) = frame_of pr (output_bytes om)"
proof -
  define om3 where "om3 = XTEA_encrypt pr (writeMessageLength om)"
  let ?c = "map_blocks (encrypt_block (key pr)) (plain_of (output_bytes om))"
  have e: "output_bytes om3 = ?c" "unat (outputBufferStart om3) = 6"
    "unat (nm_length (om_msg om3)) = length (plain_of (output_bytes om))"
    using encrypted_output [OF assms(1), of pr] by (simp_all add: om3_def)
  have lc: "length ?c = length (plain_of (output_bytes om))"
    by (simp add: plain_of_dvd)
  have lim: "unat (nm_length (om_msg om3)) + 8 < 65536"
    using assms(1) length_plain_of [of "output_bytes om"] e(3)
    by (simp add: ready_to_send_def nm_consts output_bytes_def)
  have comp: "(if unat (nm_length (om_msg om)) \<ge> 128 then compression deflate pr om else (False, om)) = (False, om)"
    using assms(4) by (auto simp: no_compression_def compression_def split: option.splits)
  have crypto: "output_bytes (addCryptoHeader True h om3)
      = le_bytes 2 (of_nat (4 + length ?c) :: u16) @ le_bytes 4 h @ ?c" for h
  proof -
    let ?om4 = "add_header h om3"
    have o4: "output_bytes ?om4 = le_bytes 4 h @ ?c" "unat (nm_length (om_msg ?om4)) = 4 + length ?c"
      "unat (outputBufferStart ?om4) = 2"
      using add_header_output_bytes [of om3 h] add_header_start [of om3 h] e lim lc by simp_all
    have "nm_length (om_msg ?om4) = of_nat (4 + length ?c)"
      by (rule word_of_unat_eq) (rule o4(2))
    then show ?thesis
      using add_header_output_bytes [of ?om4 "nm_length (om_msg ?om4)"] o4 lim e lc
      by (simp add: addCryptoHeader_def writeMessageLength_def)
  qed
  have plain: "output_bytes (addCryptoHeader False h om3)
      = le_bytes 2 (of_nat (length ?c) :: u16) @ ?c" for h
  proof -
    have "nm_length (om_msg om3) = of_nat (length ?c)"
      using e(3) lc by (intro word_of_unat_eq) simp
    then show ?thesis
      using add_header_output_bytes [of om3 "nm_length (om_msg om3)"] e lim lc
      by (simp add: addCryptoHeader_def writeMessageLength_def)
  qed
  show ?thesis
    using assms(2,3)
    by (cases "checksumMethod pr")
      (simp_all add: onSendMessage_def comp om3_def [symmetric] crypto plain frame_of_def
        checksum_header_def e(1) lc Let_def)
qed

text \<open>A frame placed in the receiver's buffer by the connection: header at 0, content at 2.\<close>

definition holds_frame :: "network_message \<Rightarrow> bytes \<Rightarrow> bool" where
  "holds_frame r frame \<longleftrightarrow> mem_read (nm_buffer r) 0 (length frame) = frame
     \<and> nm_position r = 2 \<and> unat (nm_length r) = length frame"

definition peers :: "protocol \<Rightarrow> protocol \<Rightarrow> bool" where
  "peers ps pr \<longleftrightarrow> key ps = key pr \<and> checksumMethod ps = checksumMethod pr
     \<and> encryptionEnabled ps \<and> encryptionEnabled pr \<and> \<not> rawMessages ps
     \<and> serverSequenceNumber ps = clientSequenceNumber pr
     \<and> unat (clientSequenceNumber pr) < 0x7FFFFFFF"

definition received_body :: "network_message \<Rightarrow> bytes" where
  "received_body r = mem_read (nm_buffer r) (unat (nm_position r)) (unat (nm_length r))"

lemma onRecvMessage_frame:
  assumes p: "peers ps pr" and frame: "holds_frame r (frame_of ps body)"
    and small: "length body + 8 < MAX_BODY_LENGTH"
  shows "\<exists>r' pr'. onRecvMessage r pr = (True, r', pr') \<and> received_body r' = body
    \<and> pr' = pr\<lparr>clientSequenceNumber := clientSequenceNumber pr'\<rparr>
    \<and> clientSequenceNumber pr' = (if checksumMethod pr = CHECKSUM_METHOD_SEQUENCE
         then (if clientSequenceNumber pr + 1 \<ge> 0x7FFFFFFF then 0 else clientSequenceNumber pr + 1)
         else clientSequenceNumber pr)"
proof -
  let ?plain = "plain_of body" and ?c = "map_blocks (encrypt_block (key pr)) (plain_of body)"
  define h where "h = checksum_header ps ?c"
  let ?k = "if checksumMethod pr = CHECKSUM_METHOD_NONE then 0 else 4 :: nat"
  have lc: "length ?c = length ?plain" by (simp add: plain_of_dvd)
  have lh: "length h = ?k" using p by (simp add: h_def peers_def)
  have fr: "frame_of ps body = le_bytes 2 (of_nat (length h + length ?c) :: u16) @ h @ ?c"
    using p by (simp add: frame_of_def peers_def Let_def h_def)
  have bits: "mem_read (nm_buffer r) 2 ?k = h" "mem_read (nm_buffer r) (2 + ?k) (length ?plain) = ?c"
    and pos: "unat (nm_position r) = 2" and len: "unat (nm_length r) = 2 + ?k + length ?plain"
    using frame unfolding holds_frame_def fr mem_read_eq_append by (simp_all add: lc lh del: add_2_eq_Suc add_2_eq_Suc')
  have inner: "\<exists>r'. sendRecvMessageCallback q pr' = (True, r') \<and> received_body r' = body"
    if "nm_buffer q = nm_buffer r" "nm_length q = nm_length r" "unat (nm_position q) = 2 + ?k"
      "pr' = pr\<lparr>clientSequenceNumber := n\<rparr>" for q pr' n
  proof -
    have "\<exists>r'. XTEA_decrypt pr' q = (True, r') \<and> unat (nm_length r') = length body
      \<and> unat (nm_position r') = unat (nm_position q) + 2 \<and> nm_overrun r' = nm_overrun q
      \<and> mem_read (nm_buffer r') (unat (nm_position r')) (length body) = body"
      using that small bits(2) len plain_of_dvd [of body]
      by (intro XTEA_decrypt_frame [of ?plain body "xtea_padding (length body + 2)"])
        (auto simp: plain_of_def nm_consts split: if_splits)
    with p that(4) show ?thesis
      by (auto simp: sendRecvMessageCallback_def received_body_def peers_def)
  qed
  show ?thesis
  proof (cases "checksumMethod pr")
    case CHECKSUM_METHOD_NONE
    with inner [of r pr "clientSequenceNumber pr"] pos show ?thesis
      by (auto simp: onRecvMessage_def Let_def)
  next
    case CHECKSUM_METHOD_ADLER32
    let ?q = "advance r 4"
    have rd: "readable r 4" using pos len CHECKSUM_METHOD_ADLER32 by (simp add: readable_def nm_consts)
    have h: "h = le_bytes 4 (adlerChecksum ?c)"
      using p CHECKSUM_METHOD_ADLER32 by (simp add: h_def peers_def checksum_header_def)
    have get: "get r = (adlerChecksum ?c, ?q)"
      using field_u32.fetch_enc [of r "adlerChecksum ?c"] rd bits(1) pos
      by (simp add: CHECKSUM_METHOD_ADLER32 h)
    have q: "unat (nm_position ?q) = 6" using unat_position_advance [OF rd] pos by simp
    have "plain_of body \<noteq> []" by (simp add: plain_of_def)
    then have "recv_adler ?q = adlerChecksum ?c"
      using bits(2) len q
      by (simp add: recv_adler_def CHECKSUM_METHOD_ADLER32 nat_diff_distrib del: int_nat_eq)
    with get q inner [of ?q pr "clientSequenceNumber pr"] show ?thesis
      by (auto simp: onRecvMessage_def CHECKSUM_METHOD_ADLER32 Let_def)
  next
    case CHECKSUM_METHOD_SEQUENCE
    let ?q = "advance r 4" and ?n = "clientSequenceNumber pr + 1"
    let ?pr = "pr\<lparr>clientSequenceNumber := (if ?n \<ge> 0x7FFFFFFF then 0 else ?n)\<rparr>"
    have rd: "readable r 4" using pos len CHECKSUM_METHOD_SEQUENCE by (simp add: readable_def nm_consts)
    have h: "h = le_bytes 4 ?n"
      using p CHECKSUM_METHOD_SEQUENCE by (simp add: h_def peers_def checksum_header_def)
    have get: "get r = (?n, ?q)"
      using field_u32.fetch_enc [of r ?n] rd bits(1) pos by (simp add: CHECKSUM_METHOD_SEQUENCE h)
    have q: "unat (nm_position ?q) = 6" using unat_position_advance [OF rd] pos by simp
    have "unat ?n = unat (clientSequenceNumber pr) + 1"
      using p unat_add_lt [of "clientSequenceNumber pr" 1] by (simp add: peers_def)
    then have "?n \<noteq> 0" by (metis add_is_0 one_neq_zero unsigned_0)
    with get q inner [of ?q ?pr "clientSequenceNumber ?pr"] show ?thesis
      by (auto simp: onRecvMessage_def CHECKSUM_METHOD_SEQUENCE Let_def)
  qed
qed

section \<open>Properties\<close>



end
