(* ===== verification/Connection.thy ===== *)
theory Connection
  imports Protocol
begin

text \<open>
  The TCP connection (\<open>server/network/connection/connection.cpp\<close>). The write side is a
  queue of output messages of which the front one is encoded and written while the others
  wait; the read side alternates between a two-byte header and the body it announces.
  Asynchronous operations of asio are explicit: \<open>workerPosted\<close> counts posted
  \<open>internalWorker\<close> tasks, \<open>writeInFlight\<close> the \<open>async_write\<close> calls whose handler has
  not run, \<open>wire\<close> the buffers passed to \<open>async_write\<close> in order. An asio call that
  throws is a flag of the operation. A dereference of a missing protocol is the value
  \<open>None\<close>. Timers only call \<open>handleTimeout\<close>, which is \<open>close(FORCE_CLOSE)\<close>.
\<close>

section \<open>State\<close>

datatype connection_state =
    CONNECTION_STATE_OPEN | CONNECTION_STATE_IDENTIFYING
  | CONNECTION_STATE_READINGS | CONNECTION_STATE_CLOSED

record connection =
  connectionState :: connection_state
  receivedFirst :: bool
  conn_msg :: network_message
  conn_protocol :: "protocol option"
  messageQueue :: "output_message list"
  socketOpen :: bool
  timeConnected :: int
  packetsSent :: u32
  conn_ip :: u32
  releaseEvents :: nat
  workerPosted :: nat
  writeInFlight :: nat
  wire :: "bytes list"

definition INPUTMESSAGE_MAXSIZE :: nat where "INPUTMESSAGE_MAXSIZE = 4096"

section \<open>Closing\<close>

definition closeSocket :: "connection \<Rightarrow> connection" where
  "closeSocket c = (if \<not> socketOpen c then c else c\<lparr>socketOpen := False\<rparr>)"

definition close :: "bool \<Rightarrow> connection \<Rightarrow> connection" where
  "close force c =
     (let c0 = c\<lparr>conn_ip := 0\<rparr> in
      if connectionState c0 = CONNECTION_STATE_CLOSED then c0
      else let c1 = c0\<lparr>connectionState := CONNECTION_STATE_CLOSED\<rparr>;
               c2 = (if conn_protocol c1 \<noteq> None then c1\<lparr>releaseEvents := releaseEvents c1 + 1\<rparr> else c1)
           in if messageQueue c2 = [] \<or> force then closeSocket c2 else c2)"

definition handleTimeout :: "bool \<Rightarrow> connection \<Rightarrow> connection" where
  "handleTimeout operation_aborted c = (if operation_aborted then c else close True c)"

section \<open>Writing\<close>

definition internalSend :: "bool \<Rightarrow> output_message \<Rightarrow> connection \<Rightarrow> connection" where
  "internalSend throws om c =
     (if throws then close True c
      else c\<lparr>writeInFlight := writeInFlight c + 1, wire := wire c @ [output_bytes om]\<rparr>)"

definition send :: "bool \<Rightarrow> output_message \<Rightarrow> connection \<Rightarrow> connection" where
  "send throws om c =
     (if connectionState c = CONNECTION_STATE_CLOSED then c
      else let noPendingWrite = (messageQueue c = []);
               c1 = c\<lparr>messageQueue := messageQueue c @ [om]\<rparr>
           in if noPendingWrite then
                (if socketOpen c1 then
                   (if throws then close True c1 else c1\<lparr>workerPosted := workerPosted c1 + 1\<rparr>)
                 else close True c1)
              else c1)"

text \<open>Encode the front message in place and hand it to the socket.\<close>

definition send_front ::
  "(bytes \<Rightarrow> zlib_ret \<times> bytes) option \<Rightarrow> bool \<Rightarrow> connection \<Rightarrow> connection option" where
  "send_front deflate throws c =
     (case (messageQueue c, conn_protocol c) of
        (om # rest, Some pr) \<Rightarrow>
          (let (om', pr') = onSendMessage deflate om pr
           in Some (internalSend throws om' (c\<lparr>messageQueue := om' # rest, conn_protocol := Some pr'\<rparr>)))
      | _ \<Rightarrow> None)"

definition internalWorker ::
  "(bytes \<Rightarrow> zlib_ret \<times> bytes) option \<Rightarrow> bool \<Rightarrow> connection \<Rightarrow> connection option" where
  "internalWorker deflate throws c =
     (if messageQueue c = [] then
        Some (if connectionState c = CONNECTION_STATE_CLOSED then closeSocket c else c)
      else send_front deflate throws c)"

definition onWriteOperation ::
  "(bytes \<Rightarrow> zlib_ret \<times> bytes) option \<Rightarrow> bool \<Rightarrow> bool \<Rightarrow> connection \<Rightarrow> connection option" where
  "onWriteOperation deflate throws error c =
     (if error then Some (close True (c\<lparr>messageQueue := []\<rparr>))
      else let c1 = c\<lparr>messageQueue := tl (messageQueue c)\<rparr> in
        if messageQueue c1 \<noteq> [] then send_front deflate throws c1
        else if connectionState c1 = CONNECTION_STATE_CLOSED then Some (closeSocket c1)
        else Some c1)"

section \<open>Reading\<close>

text \<open>What the handler asks asio to do next.\<close>

datatype read_request = NoRead | ReadHeader | ReadBody nat

text \<open>
  \<open>parseHeader\<close>: \<open>now\<close> is \<open>time(nullptr)\<close>, \<open>maxPackets\<close> the configured
  \<open>MAX_PACKETS_PER_SECOND\<close> cast to \<open>uint32_t\<close>, \<open>throws\<close> the exception of the read call.
\<close>

definition parseHeader ::
  "bool \<Rightarrow> bool \<Rightarrow> int \<Rightarrow> u32 \<Rightarrow> connection \<Rightarrow> connection \<times> read_request" where
  "parseHeader throws error now maxPackets c =
     (if error then (close True c, NoRead)
      else if connectionState c = CONNECTION_STATE_CLOSED then (c, NoRead)
      else let timePassed = max 1 (of_int ((now - timeConnected c) + 1)) :: u32;
               c1 = c\<lparr>packetsSent := packetsSent c + 1\<rparr>
           in if packetsSent c1 div timePassed > maxPackets then (close False c1, NoRead)
              else let c2 = (if timePassed > 2 then c1\<lparr>timeConnected := now, packetsSent := 0\<rparr> else c1);
                       sz = getLengthHeader (conn_msg c2)
                   in if sz = 0 \<or> unat sz > INPUTMESSAGE_MAXSIZE then (close True c2, NoRead)
                      else let m1 = (conn_msg c2)\<lparr>nm_length := sz + of_nat HEADER_LENGTH\<rparr>;
                               c3 = c2\<lparr>conn_msg := snd (getBodyBuffer m1)\<rparr>
                           in if throws then (close True c3, NoRead) else (c3, ReadBody (unat sz)))"

text \<open>
  \<open>parsePacket\<close>: the protocol factory of the service port and the first-message handler
  are parameters; \<open>dispatched\<close> tells whether \<open>onRecvMessage\<close> handed the message to the
  dispatcher.
\<close>

definition parsePacket ::
  "(bool \<Rightarrow> network_message \<Rightarrow> protocol option) \<Rightarrow>
   (network_message \<Rightarrow> protocol \<Rightarrow> network_message \<times> protocol) \<Rightarrow>
   bool \<Rightarrow> bool \<Rightarrow> connection \<Rightarrow> (connection \<times> read_request \<times> bool) option" where
  "parsePacket make_protocol onRecvFirstMessage throws error c =
     (if error \<or> connectionState c = CONNECTION_STATE_CLOSED then Some (close True c, NoRead, False)
      else
        let next = (\<lambda>c dispatched.
              if throws then (close True c, NoRead, dispatched)
              else (c, if dispatched then NoRead else ReadHeader, dispatched));
            first = (\<lambda>c pr.
              let (m', pr') = onRecvFirstMessage (conn_msg c) pr
              in Some (next (c\<lparr>conn_msg := m', conn_protocol := Some pr'\<rparr>) False))
        in if \<not> receivedFirst c then
             let c1 = c\<lparr>receivedFirst := True\<rparr>; msg = conn_msg c1 in
             (case conn_protocol c1 of
                None \<Rightarrow>
                  (let len = int (unat (nm_length msg)) - int (unat (nm_position msg)) - int CHECKSUM_LENGTH;
                       checksum = (if len > 0
                         then adlerChecksum (mem_read (nm_buffer msg) (unat (nm_position msg) + CHECKSUM_LENGTH) (nat len))
                         else 0);
                       (recvChecksum :: u32, msg1) = get msg;
                       msg2 = (if recvChecksum \<noteq> checksum then skipBytes msg1 (- of_nat CHECKSUM_LENGTH) else msg1);
                       c2 = c1\<lparr>conn_msg := msg2\<rparr>
                   in case make_protocol (recvChecksum = checksum) msg2 of
                        None \<Rightarrow> Some (close True c2, NoRead, False)
                      | Some pr \<Rightarrow> first (c2\<lparr>conn_protocol := Some pr\<rparr>) pr)
              | Some pr \<Rightarrow>
                  (let (_ :: u32, msg1) = get msg in first (c1\<lparr>conn_msg := skipBytes msg1 1\<rparr>) pr))
           else (case conn_protocol c of
                   None \<Rightarrow> None
                 | Some pr \<Rightarrow>
                     (case onRecvMessage (conn_msg c) pr of (ok, m', pr') \<Rightarrow>
                        Some (next (c\<lparr>conn_msg := m', conn_protocol := Some pr'\<rparr>) ok))))"

section \<open>The write side as a state machine\<close>

text \<open>
  Events: a caller sends, the io context runs a posted worker, a write completes (with or
  without an error), the connection is closed or times out. The second component of the
  state records the messages \<open>send\<close> accepted, in order.
\<close>

inductive write_step ::
  "(bytes \<Rightarrow> zlib_ret \<times> bytes) option \<Rightarrow>
   connection \<times> output_message list \<Rightarrow> connection \<times> output_message list \<Rightarrow> bool"
  for deflate where
  do_send: "connectionState c \<noteq> CONNECTION_STATE_CLOSED \<Longrightarrow>
     write_step deflate (c, acc) (send throws om c, acc @ [om])"
| do_send_closed: "connectionState c = CONNECTION_STATE_CLOSED \<Longrightarrow>
     write_step deflate (c, acc) (send throws om c, acc)"
| do_worker: "0 < workerPosted c \<Longrightarrow>
     internalWorker deflate throws (c\<lparr>workerPosted := workerPosted c - 1\<rparr>) = Some c' \<Longrightarrow>
     write_step deflate (c, acc) (c', acc)"
| do_written: "0 < writeInFlight c \<Longrightarrow>
     onWriteOperation deflate throws error (c\<lparr>writeInFlight := writeInFlight c - 1\<rparr>) = Some c' \<Longrightarrow>
     write_step deflate (c, acc) (c', acc)"
| do_close: "write_step deflate (c, acc) (close force c, acc)"
| do_timeout: "write_step deflate (c, acc) (handleTimeout aborted c, acc)"

inductive write_reachable ::
  "(bytes \<Rightarrow> zlib_ret \<times> bytes) option \<Rightarrow> protocol \<Rightarrow> connection \<times> output_message list \<Rightarrow> bool"
  for deflate pr0 where
  start: "messageQueue c = [] \<Longrightarrow> workerPosted c = 0 \<Longrightarrow> writeInFlight c = 0 \<Longrightarrow> wire c = [] \<Longrightarrow>
     conn_protocol c = Some pr0 \<Longrightarrow> write_reachable deflate pr0 (c, [])"
| step: "write_reachable deflate pr0 s \<Longrightarrow> write_step deflate s t \<Longrightarrow> write_reachable deflate pr0 t"

text \<open>The specification: the messages encoded one after the other.\<close>

fun encode_all ::
  "(bytes \<Rightarrow> zlib_ret \<times> bytes) option \<Rightarrow> protocol \<Rightarrow> output_message list \<Rightarrow> bytes list \<times> protocol" where
  "encode_all deflate pr [] = ([], pr)"
| "encode_all deflate pr (om # oms) =
     (let (om', pr') = onSendMessage deflate om pr;
          (frames, pr'') = encode_all deflate pr' oms
      in (output_bytes om' # frames, pr''))"

lemma encode_all_snoc:
  "encode_all d pr (oms @ [om]) =
     (let (frames, pr') = encode_all d pr oms; (om', pr'') = onSendMessage d om pr'
      in (frames @ [output_bytes om'], pr''))"
  by (induction oms arbitrary: pr) (auto simp: Let_def split: prod.splits)

lemma length_encode_all [simp]: "length (fst (encode_all d pr oms)) = length oms"
  by (induction oms arbitrary: pr) (auto simp: Let_def case_prod_unfold)

text \<open>
  The invariant: at most one worker or write is outstanding, and while the connection is
  usable there is one exactly when messages wait; what went to the wire is the encoding of
  a prefix of the accepted messages and the queue holds the rest, its front already
  encoded while it is being written.
\<close>

definition live :: "connection \<Rightarrow> bool" where
  "live c \<longleftrightarrow> workerPosted c + writeInFlight c = 1"

definition idle :: "connection \<Rightarrow> bool" where
  "idle c \<longleftrightarrow> workerPosted c = 0 \<and> writeInFlight c = 0"

definition conn_inv ::
  "(bytes \<Rightarrow> zlib_ret \<times> bytes) option \<Rightarrow> protocol \<Rightarrow> connection \<times> output_message list \<Rightarrow> bool" where
  "conn_inv d pr0 = (\<lambda>(c, acc).
     length (wire c) \<le> length acc
     \<and> wire c = fst (encode_all d pr0 (take (length (wire c)) acc))
     \<and> (live c \<longrightarrow> messageQueue c \<noteq> []
          \<and> conn_protocol c = Some (snd (encode_all d pr0 (take (length (wire c)) acc)))
          \<and> (if writeInFlight c = 1 then tl (messageQueue c) = drop (length (wire c)) acc
             else messageQueue c = drop (length (wire c)) acc))
     \<and> (\<not> live c \<longrightarrow> idle c \<and> (connectionState c = CONNECTION_STATE_CLOSED \<or>
            messageQueue c = [] \<and> length (wire c) = length acc
            \<and> conn_protocol c = Some (snd (encode_all d pr0 acc)))))"

lemma close_sel [simp]:
  "messageQueue (close f c) = messageQueue c" "workerPosted (close f c) = workerPosted c"
  "writeInFlight (close f c) = writeInFlight c" "wire (close f c) = wire c"
  "conn_protocol (close f c) = conn_protocol c" "conn_msg (close f c) = conn_msg c"
  "connectionState (close f c) = CONNECTION_STATE_CLOSED"
  by (auto simp: close_def closeSocket_def Let_def)

lemma closeSocket_sel [simp]:
  "messageQueue (closeSocket c) = messageQueue c" "workerPosted (closeSocket c) = workerPosted c"
  "writeInFlight (closeSocket c) = writeInFlight c" "wire (closeSocket c) = wire c"
  "conn_protocol (closeSocket c) = conn_protocol c" "connectionState (closeSocket c) = connectionState c"
  by (auto simp: closeSocket_def)

lemma send_front_inv:
  assumes q: "messageQueue c = drop (length (wire c)) acc" "messageQueue c \<noteq> []"
    and w: "wire c = fst (encode_all d pr0 (take (length (wire c)) acc))"
    and pr: "conn_protocol c = Some (snd (encode_all d pr0 (take (length (wire c)) acc)))"
    and idle: "idle c" and step: "send_front d throws c = Some c'"
  shows "conn_inv d pr0 (c', acc)"
proof -
  let ?n = "length (wire c)"
  have n: "?n < length acc" using q by auto
  then have hd: "messageQueue c = acc ! ?n # drop (Suc ?n) acc"
    using q(1) by (simp add: Cons_nth_drop_Suc)
  obtain om' pr' where on: "onSendMessage d (acc ! ?n) (snd (encode_all d pr0 (take ?n acc))) = (om', pr')"
    by fastforce
  then have enc: "encode_all d pr0 (take (Suc ?n) acc) = (wire c @ [output_bytes om'], pr')"
    using w n by (simp add: take_Suc_conv_app_nth encode_all_snoc Let_def case_prod_unfold)
  have c': "c' = internalSend throws om' (c\<lparr>messageQueue := om' # drop (Suc ?n) acc, conn_protocol := Some pr'\<rparr>)"
    using step pr on by (simp add: send_front_def hd)
  show ?thesis
  proof (cases throws)
    case True
    then show ?thesis
      using n w idle by (simp add: c' internalSend_def conn_inv_def live_def idle_def)
  next
    case False
    then show ?thesis
      using n idle enc by (simp add: c' internalSend_def conn_inv_def live_def idle_def)
  qed
qed

lemma send_inv:
  assumes "conn_inv d pr0 (c, acc)" and "connectionState c \<noteq> CONNECTION_STATE_CLOSED"
  shows "conn_inv d pr0 (send throws om c, acc @ [om])"
proof (cases "live c")
  case True
  then show ?thesis
    using assms by (auto simp: conn_inv_def send_def live_def Let_def split: if_splits)
next
  case False
  then show ?thesis
    using assms by (auto simp: conn_inv_def send_def live_def idle_def Let_def)
qed

lemma close_inv: "conn_inv d pr0 (c, acc) \<Longrightarrow> conn_inv d pr0 (close f c, acc)"
  by (simp add: conn_inv_def live_def idle_def)

lemma worker_inv:
  assumes "conn_inv d pr0 (c, acc)" and "0 < workerPosted c"
    and "internalWorker d throws (c\<lparr>workerPosted := workerPosted c - 1\<rparr>) = Some c'"
  shows "conn_inv d pr0 (c', acc)"
proof -
  have "live c" using assms(1,2) by (auto simp: conn_inv_def idle_def)
  with assms(1,2) have "workerPosted c = 1" "writeInFlight c = 0" and ne: "messageQueue c \<noteq> []"
    by (auto simp: live_def conn_inv_def)
  with \<open>live c\<close> assms show ?thesis
    by (intro send_front_inv [of "c\<lparr>workerPosted := workerPosted c - 1\<rparr>" _ d _ throws])
      (auto simp: conn_inv_def idle_def internalWorker_def)
qed

lemma written_inv:
  assumes "conn_inv d pr0 (c, acc)" and "0 < writeInFlight c"
    and step: "onWriteOperation d throws error (c\<lparr>writeInFlight := writeInFlight c - 1\<rparr>) = Some c'"
  shows "conn_inv d pr0 (c', acc)"
proof -
  have "live c" using assms(1,2) by (auto simp: conn_inv_def idle_def)
  with assms(1,2) have one: "workerPosted c = 0" "writeInFlight c = 1"
    by (auto simp: live_def)
  let ?c = "c\<lparr>writeInFlight := 0, messageQueue := tl (messageQueue c)\<rparr>"
  consider (err) error | (more) "\<not> error" "tl (messageQueue c) \<noteq> []" "send_front d throws ?c = Some c'"
    | (last) "\<not> error" "tl (messageQueue c) = []"
        "c' = ?c \<or> c' = closeSocket ?c"
    using step one by (auto simp: onWriteOperation_def Let_def split: if_splits)
  then show ?thesis
  proof cases
    case err
    then show ?thesis
      using assms(1) step one by (auto simp: onWriteOperation_def conn_inv_def live_def idle_def)
  next
    case more
    then show ?thesis
      using assms(1) one \<open>live c\<close>
      by (intro send_front_inv [of ?c _ d _ throws]) (auto simp: conn_inv_def idle_def)
  next
    case last
    then show ?thesis
      using assms(1) one \<open>live c\<close> by (auto simp: conn_inv_def live_def idle_def)
  qed
qed

lemma write_step_inv:
  assumes "write_step d s t" and "conn_inv d pr0 s"
  shows "conn_inv d pr0 t"
  using assms
proof (induction rule: write_step.induct)
  case (do_send c acc throws om)
  then show ?case by (simp add: send_inv)
next
  case (do_send_closed c acc throws om)
  then show ?case by (simp add: send_def)
next
  case (do_worker c throws c' acc)
  then show ?case by (blast intro: worker_inv)
next
  case (do_written c throws error c' acc)
  then show ?case by (blast intro: written_inv)
next
  case (do_close c acc force)
  then show ?case by (rule close_inv)
next
  case (do_timeout c acc aborted)
  then show ?case by (simp add: handleTimeout_def close_inv)
qed

lemma write_reachable_inv: "write_reachable d pr0 s \<Longrightarrow> conn_inv d pr0 s"
proof (induction rule: write_reachable.induct)
  case (start c)
  then show ?case by (simp add: conn_inv_def live_def idle_def)
next
  case (step s t)
  then show ?case by (blast intro: write_step_inv)
qed

section \<open>Accepting a packet\<close>

lemma parseHeader_accepts:
  assumes "connectionState c \<noteq> CONNECTION_STATE_CLOSED" and n: "1 \<le> n" "n \<le> 4096"
    and hd: "getLengthHeader (conn_msg c) = of_nat n"
    and rate: "unat (packetsSent c) + 1 \<le> unat maxPackets"
  shows "\<exists>c'. parseHeader False False now maxPackets c = (c', ReadBody n)
    \<and> conn_msg c' = (conn_msg c)\<lparr>nm_length := of_nat (n + 2), nm_position := 2\<rparr>
    \<and> connectionState c' = connectionState c \<and> receivedFirst c' = receivedFirst c
    \<and> conn_protocol c' = conn_protocol c \<and> unat (packetsSent c') \<le> unat (packetsSent c) + 1"
proof -
  have u: "unat (of_nat n :: u16) = n" and nz: "(of_nat n :: u16) \<noteq> 0"
    using n unat_of_nat_lt [where 'a = 16, of n] by auto
  have p: "unat (packetsSent c + 1) = unat (packetsSent c) + 1"
    using rate u32_lt [of maxPackets] unat_add_lt [of "packetsSent c" 1] by simp
  have "unat ((packetsSent c + 1) div t) \<le> unat (packetsSent c) + 1" for t
    using div_le_dividend [of "unat (packetsSent c + 1)" "unat t"] by (simp only: unat_div p)
  then have "\<not> maxPackets < (packetsSent c + 1) div t" for t
    using rate by (meson le_trans not_le word_less_nat_alt)
  then show ?thesis
    using assms(1) n u nz p
    by (simp add: parseHeader_def Let_def hd getBodyBuffer_def INPUTMESSAGE_MAXSIZE_def nm_consts add.commute)
qed

lemma peers_after_packet:
  assumes "peers ps pr"
    and "clientSequenceNumber pr' = (if checksumMethod pr = CHECKSUM_METHOD_SEQUENCE
         then (if clientSequenceNumber pr + 1 \<ge> 0x7FFFFFFF then 0 else clientSequenceNumber pr + 1)
         else clientSequenceNumber pr)"
    and "pr' = pr\<lparr>clientSequenceNumber := clientSequenceNumber pr'\<rparr>"
  shows "peers (snd (onSendMessage d om ps)) pr'"
proof -
  have "snd (onSendMessage d om ps) = ps\<lparr>serverSequenceNumber := clientSequenceNumber pr'\<rparr>"
    using assms(1,2) by (cases "checksumMethod pr")
      (auto simp: onSendMessage_def peers_def Let_def case_prod_unfold)
  moreover have "unat (clientSequenceNumber pr') < 0x7FFFFFFF"
    using assms(1,2) by (auto simp: peers_def word_le_nat_alt not_le)
  ultimately show ?thesis
    using assms(1) by (subst assms(3)) (simp add: peers_def)
qed

section \<open>Properties\<close>

text \<open>
  C10. Write ordering: in every reachable state of a connection (whatever sends, completions,
  write errors, timeouts and closes happened), at most one asynchronous write or worker is
  outstanding, and the buffers handed to the socket are exactly the frames of a prefix of
  the accepted messages: encoded once each, in order, by one chain of protocol states. While
  the connection is not closed every accepted message is either on the wire or waiting in
  order, and a waiting message always has an outstanding write or worker that will send it.
\<close>
theorem connection_writes_in_order:
  assumes "write_reachable d pr0 (c, acc)"
  shows "workerPosted c + writeInFlight c \<le> 1
    \<and> wire c = fst (encode_all d pr0 (take (length (wire c)) acc)) \<and> length (wire c) \<le> length acc
    \<and> (connectionState c \<noteq> CONNECTION_STATE_CLOSED \<longrightarrow>
         (if writeInFlight c = 1 then tl (messageQueue c) else messageQueue c) = drop (length (wire c)) acc
         \<and> (messageQueue c \<noteq> [] \<longrightarrow> workerPosted c + writeInFlight c = 1))"
  using write_reachable_inv [OF assms]
  by (auto simp: conn_inv_def live_def idle_def)

definition demo_protocol :: protocol where
  "demo_protocol = \<lparr>key = [1, 2, 3, 4], serverSequenceNumber = 0, clientSequenceNumber = 0,
     checksumMethod = CHECKSUM_METHOD_SEQUENCE, encryptionEnabled = True, rawMessages = False\<rparr>"

definition demo_connection :: connection where
  "demo_connection = \<lparr>connectionState = CONNECTION_STATE_OPEN, receivedFirst = True,
     conn_msg = \<lparr>nm_length = 0, nm_position = 8, nm_overrun = False, nm_buffer = (\<lambda>_. 0)\<rparr>,
     conn_protocol = Some demo_protocol, messageQueue = [], socketOpen = True, timeConnected = 0,
     packetsSent = 0, conn_ip = 1, releaseEvents = 0, workerPosted = 0, writeInFlight = 0, wire = []\<rparr>"

theorem connection_writes_in_order_witness:
  "messageQueue (send False (new_output_message (\<lambda>_. 0)) demo_connection) = [new_output_message (\<lambda>_. 0)]
   \<and> workerPosted (send False (new_output_message (\<lambda>_. 0)) demo_connection) = 1"
proof -
  let ?om = "new_output_message (\<lambda>_. 0)"
  have "write_reachable None demo_protocol (demo_connection, [])"
    by (rule write_reachable.start) (simp_all add: demo_connection_def)
  moreover have "write_step None (demo_connection, []) (send False ?om demo_connection, [] @ [?om])"
    by (rule write_step.do_send) (simp add: demo_connection_def)
  ultimately have "write_reachable None demo_protocol (send False ?om demo_connection, [?om])"
    using write_reachable.step by fastforce
  from connection_writes_in_order [OF this] show ?thesis
    by (simp add: send_def demo_connection_def)
qed

text \<open>
  A header is accepted only for a body of 1 to 4096 bytes, so the body read stays inside the
  message array; the message length becomes header plus body and reading starts behind the
  header. In every other case no read is issued, and the connection is closed unless it
  already was.
\<close>
theorem parseHeader_bounds:
  "case parseHeader throws error now maxPackets c of (c', req) \<Rightarrow>
     (case req of
        ReadBody n \<Rightarrow> 1 \<le> n \<and> n \<le> 4096 \<and> HEADER_LENGTH + n < NETWORKMESSAGE_MAXSIZE
          \<and> n = unat (getLengthHeader (conn_msg c)) \<and> unat (nm_length (conn_msg c')) = n + 2
          \<and> nm_position (conn_msg c') = 2 \<and> connectionState c' \<noteq> CONNECTION_STATE_CLOSED
      | ReadHeader \<Rightarrow> False
      | NoRead \<Rightarrow> connectionState c' = CONNECTION_STATE_CLOSED)"
proof -
  have len: "unat (sz + 2) = unat sz + 2" "1 \<le> unat sz" if "\<not> (sz = 0 \<or> unat sz > 4096)" for sz :: u16
    using that unat_add_lt [of sz 2] by (simp_all add: unat_gt_0 Suc_leI)
  show ?thesis
    by (auto simp: parseHeader_def Let_def getBodyBuffer_def nm_consts INPUTMESSAGE_MAXSIZE_def len
        Suc_le_eq unat_gt_0)
qed

end
