(* ===== verification/Key_Value.thy ===== *)
theory Key_Value
  imports Prelude "HOL-Library.AList"
begin

text \<open>
  The key-value store (\<^verbatim>\<open>src/src/kv\<close>): the values it keeps and their protocol-buffer image
  (value_wrapper.hpp, value_wrapper_proto.cpp), the write-back LRU cache KVStore with its
  intrusive list iterators (kv.cpp, kv.hpp), the SQL backend (kv_sql.cpp), scoped views and
  generateUUID.  The list nodes of the queue carry an address, because the map entries hold
  iterators into the queue; None is returned where the C++ code would dereference the end of an
  empty queue.  The storage behind the cache is the interface \<^verbatim>\<open>kv_backend\<close>, and the cache is shown
  to be a plain map on top of every backend that meets it.
\<close>

section \<open>Values\<close>

datatype value_variant =
    StringType string
  | BooleanType bool
  | IntType i32
  | DoubleType u64
  | ArrayType "value_wrapper list"
  | MapType "(string \<times> value_wrapper) list"
and value_wrapper = ValueWrapper (wrapper_data: value_variant) (getTimestamp: u64) (isDeleted: bool)

text \<open>The messages of kv.proto; \<^verbatim>\<open>ProtoUnset\<close> is the oneof with no member set.\<close>

datatype proto_value =
    ProtoUnset
  | ProtoStr string
  | ProtoBool bool
  | ProtoInt i32
  | ProtoDouble u64
  | ProtoArray "proto_value list"
  | ProtoMap "(string \<times> proto_value) list"

definition stamp :: "u64 \<Rightarrow> u64 \<Rightarrow> u64" where
  "stamp now ts = (if ts = 0 then now else ts)"

definition new_wrapper :: "u64 \<Rightarrow> value_variant \<Rightarrow> u64 \<Rightarrow> value_wrapper" where
  "new_wrapper now d ts = ValueWrapper d (stamp now ts) False"

definition default_wrapper :: "u64 \<Rightarrow> value_wrapper" where
  "default_wrapper now = new_wrapper now (StringType []) 0"

definition deleted_wrapper :: "u64 \<Rightarrow> value_wrapper" where
  "deleted_wrapper t0 = ValueWrapper (StringType []) t0 True"

definition get_key :: "value_wrapper \<Rightarrow> string \<Rightarrow> value_wrapper option" where
  "get_key w k = (case wrapper_data w of MapType m \<Rightarrow> map_of m k | _ \<Rightarrow> None)"

definition get_index :: "value_wrapper \<Rightarrow> nat \<Rightarrow> value_wrapper option" where
  "get_index w i = (case wrapper_data w of
      ArrayType xs \<Rightarrow> (if i < length xs then Some (xs ! i) else None)
    | _ \<Rightarrow> None)"

fun toProto :: "value_wrapper \<Rightarrow> proto_value" where
  "toProto (ValueWrapper (StringType s) _ _) = ProtoStr s"
| "toProto (ValueWrapper (BooleanType b) _ _) = ProtoBool b"
| "toProto (ValueWrapper (IntType i) _ _) = ProtoInt i"
| "toProto (ValueWrapper (DoubleType d) _ _) = ProtoDouble d"
| "toProto (ValueWrapper (ArrayType xs) _ _) = ProtoArray (map toProto xs)"
| "toProto (ValueWrapper (MapType m) _ _) = ProtoMap (map (\<lambda>(k, w). (k, toProto w)) m)"

definition map_assign :: "(string \<times> 'a) list \<Rightarrow> (string \<times> 'a) list" where
  "map_assign items = fold (\<lambda>(k, w) m. AList.update k w m) items []"

fun fromProto :: "u64 \<Rightarrow> u64 \<Rightarrow> proto_value \<Rightarrow> value_wrapper" where
  "fromProto now ts (ProtoStr s) = new_wrapper now (StringType s) ts"
| "fromProto now ts (ProtoBool b) = new_wrapper now (BooleanType b) ts"
| "fromProto now ts (ProtoInt i) = new_wrapper now (IntType i) ts"
| "fromProto now ts (ProtoDouble d) = new_wrapper now (DoubleType d) ts"
| "fromProto now ts (ProtoArray ps) = new_wrapper now (ArrayType (map (fromProto now ts) ps)) ts"
| "fromProto now ts (ProtoMap items) =
     new_wrapper now (MapType (map_assign (map (\<lambda>(k, p). (k, fromProto now ts p)) items))) ts"
| "fromProto now ts ProtoUnset = new_wrapper now (StringType []) ts"

text \<open>A hash map has no duplicate keys: the well-formedness the C++ type gives for free.\<close>

fun wf_value :: "value_wrapper \<Rightarrow> bool" where
  "wf_value (ValueWrapper (ArrayType xs) _ _) = list_all wf_value xs"
| "wf_value (ValueWrapper (MapType m) _ _) =
     (distinct (map fst m) \<and> list_all (\<lambda>(k, w). wf_value w) m)"
| "wf_value _ = True"

text \<open>What storing a value and loading it again makes of it: every timestamp is the row's one.\<close>

fun restamp :: "u64 \<Rightarrow> value_wrapper \<Rightarrow> value_wrapper" where
  "restamp t (ValueWrapper (ArrayType xs) _ _) = ValueWrapper (ArrayType (map (restamp t) xs)) t False"
| "restamp t (ValueWrapper (MapType m) _ _) =
     ValueWrapper (MapType (map (\<lambda>(k, w). (k, restamp t w)) m)) t False"
| "restamp t (ValueWrapper d _ _) = ValueWrapper d t False"

lemma map_assign_distinct:
  assumes "distinct (map fst items)"
  shows "map_assign items = items"
proof -
  have "fold (\<lambda>(k, w) m. AList.update k w m) items acc = acc @ items"
    if "distinct (map fst (acc @ items))" for acc
    using that
  proof (induction items arbitrary: acc)
    case (Cons p items)
    obtain k w where p: "p = (k, w)" by (cases p)
    have "k \<notin> fst ` set acc" using Cons.prems p by auto
    then have "AList.update k w acc = acc @ [(k, w)]"
      by (induction acc) auto
    then show ?case using Cons.IH [of "acc @ [(k, w)]"] Cons.prems p by auto
  qed simp
  from this [of "[]"] assms show ?thesis by (simp add: map_assign_def)
qed

lemma distinct_map_assign: "distinct (map fst (map_assign items))"
proof -
  have "distinct (map fst (fold (\<lambda>(k, w) m. AList.update k w m) items acc))"
    if "distinct (map fst acc)" for acc :: "(string \<times> 'a) list"
    using that by (induction items arbitrary: acc) (auto simp: distinct_update)
  then show ?thesis by (simp add: map_assign_def)
qed

lemma toProto_restamp: "toProto (restamp t w) = toProto w"
  by (induction w rule: toProto.induct) auto

lemma fromProto_toProto:
  assumes "wf_value w"
  shows "fromProto now ts (toProto w) = restamp (stamp now ts) w"
  using assms
proof (induction w rule: toProto.induct)
  case (5 xs t d)
  then show ?case by (auto simp: new_wrapper_def list_all_iff)
next
  case (6 m t d)
  have "map (\<lambda>(k, p). (k, fromProto now ts p)) (map (\<lambda>(k, w). (k, toProto w)) m)
      = map (\<lambda>(k, w). (k, restamp (stamp now ts) w)) m"
    using 6 by (fastforce simp: list_all_iff)
  moreover have "map_assign (map (\<lambda>(k, w). (k, restamp (stamp now ts) w)) m)
      = map (\<lambda>(k, w). (k, restamp (stamp now ts) w)) m"
    using 6(2) by (intro map_assign_distinct) (simp add: comp_def case_prod_unfold)
  ultimately show ?case by (simp add: new_wrapper_def del: map_map)
qed (auto simp: new_wrapper_def)

lemma set_map_assign: "set (map_assign items) \<subseteq> set items"
proof -
  have "set (fold (\<lambda>(k, w) m. AList.update k w m) items acc) \<subseteq> set acc \<union> set items"
    for acc :: "(string \<times> 'a) list"
  proof (induction items arbitrary: acc)
    case (Cons p items)
    have "set (AList.update (fst p) (snd p) acc) \<subseteq> insert p (set acc)"
      by (induction acc) (auto split: if_splits)
    then show ?case using Cons [of "AList.update (fst p) (snd p) acc"]
      by (auto simp: case_prod_unfold)
  qed simp
  from this [of "[]"] show ?thesis by (simp add: map_assign_def)
qed

lemma wf_fromProto: "wf_value (fromProto now ts p)"
proof (induction now ts p rule: fromProto.induct)
  case (6 now ts items)
  have "wf_value w" if "(k, w) \<in> set (map_assign (map (\<lambda>(k, p). (k, fromProto now ts p)) items))" for k w
    using set_mp [OF set_map_assign that] 6 by auto
  then show ?case by (auto simp: new_wrapper_def list_all_iff distinct_map_assign)
qed (auto simp: new_wrapper_def list_all_iff)

text \<open>
  Values survive storage: decoding the protocol-buffer image of any well-formed value gives
  back the value with the same content at every depth, undeleted and with the timestamp of the
  row, and encoding the result again gives the same image.
\<close>
theorem proto_round_trip:
  assumes "wf_value w"
  shows "fromProto now ts (toProto w) = restamp (stamp now ts) w
    \<and> toProto (fromProto now ts (toProto w)) = toProto w"
  using fromProto_toProto [OF assms] by (simp add: toProto_restamp)

theorem proto_round_trip_witness:
  "let w = ValueWrapper (MapType [(''a'', ValueWrapper (IntType 7) 3 False),
             (''b'', ValueWrapper (ArrayType [ValueWrapper (BooleanType True) 4 True]) 5 False)]) 9 True
   in fromProto 100 42 (toProto w) =
        ValueWrapper (MapType [(''a'', ValueWrapper (IntType 7) 42 False),
             (''b'', ValueWrapper (ArrayType [ValueWrapper (BooleanType True) 42 False]) 42 False)]) 42 False"
  unfolding Let_def by (subst proto_round_trip [THEN conjunct1]) (simp_all add: stamp_def)

section \<open>The cache\<close>

record kv_store =
  store :: "(string \<times> (value_wrapper \<times> nat)) list"
  lruQueue :: "(nat \<times> string) list"
  next_node :: nat

definition MAX_SIZE :: nat where
  "MAX_SIZE = 1000000"

definition empty_store :: kv_store where
  "empty_store = \<lparr>store = [], lruQueue = [], next_node = 0\<rparr>"

text \<open>std::list::splice of one node within its own list, to the front or to the back.\<close>

definition splice_front :: "nat \<Rightarrow> (nat \<times> string) list \<Rightarrow> (nat \<times> string) list" where
  "splice_front n q = filter (\<lambda>p. fst p = n) q @ filter (\<lambda>p. fst p \<noteq> n) q"

definition splice_back :: "nat \<Rightarrow> (nat \<times> string) list \<Rightarrow> (nat \<times> string) list" where
  "splice_back n q = filter (\<lambda>p. fst p \<noteq> n) q @ filter (\<lambda>p. fst p = n) q"

definition push_entry :: "string \<Rightarrow> value_wrapper \<Rightarrow> kv_store \<Rightarrow> kv_store" where
  "push_entry k v s = s\<lparr>store := AList.update k (v, next_node s) (store s),
     lruQueue := (next_node s, k) # lruQueue s, next_node := Suc (next_node s)\<rparr>"

text \<open>
  The eviction: \<^verbatim>\<open>store_[*last]\<close> creates a default value when the key is missing.  The result of
  \<^verbatim>\<open>save\<close> is ignored, as in the code.
\<close>

definition evict ::
  "('db \<Rightarrow> string \<Rightarrow> value_wrapper \<Rightarrow> bool \<times> 'db) \<Rightarrow> u64 \<Rightarrow> kv_store \<Rightarrow> 'db \<Rightarrow> (kv_store \<times> 'db) option" where
  "evict save now s db = (if lruQueue s = [] then None else
     (let k = snd (last (lruQueue s));
          v = (case map_of (store s) k of Some (v, _) \<Rightarrow> v | None \<Rightarrow> default_wrapper now)
      in Some (s\<lparr>store := AList.delete k (store s), lruQueue := butlast (lruQueue s)\<rparr>,
               snd (save db k v))))"

definition setLocked ::
  "('db \<Rightarrow> string \<Rightarrow> value_wrapper \<Rightarrow> bool \<times> 'db) \<Rightarrow> u64 \<Rightarrow> string \<Rightarrow> value_wrapper \<Rightarrow>
   kv_store \<times> 'db \<Rightarrow> (kv_store \<times> 'db) option" where
  "setLocked save now k v = (\<lambda>(s, db). case map_of (store s) k of
      Some (_, n) \<Rightarrow> Some (s\<lparr>store := AList.update k (v, n) (store s),
                          lruQueue := splice_front n (lruQueue s)\<rparr>, db)
    | None \<Rightarrow> (if length (store s) \<ge> MAX_SIZE
        then (case evict save now s db of None \<Rightarrow> None | Some (s', db') \<Rightarrow> Some (push_entry k v s', db'))
        else Some (push_entry k v s, db)))"

definition kv_get ::
  "('db \<Rightarrow> string \<Rightarrow> value_wrapper option) \<Rightarrow> ('db \<Rightarrow> string \<Rightarrow> value_wrapper \<Rightarrow> bool \<times> 'db) \<Rightarrow> u64 \<Rightarrow>
   string \<Rightarrow> bool \<Rightarrow> kv_store \<times> 'db \<Rightarrow> (value_wrapper option \<times> kv_store \<times> 'db) option" where
  "kv_get load save now k forceLoad = (\<lambda>(s, db).
     if forceLoad \<or> map_of (store s) k = None
     then (case load db k of
         None \<Rightarrow> Some (None, s, db)
       | Some v \<Rightarrow> (case setLocked save now k v (s, db) of None \<Rightarrow> None | Some st \<Rightarrow> Some (Some v, st)))
     else (case the (map_of (store s) k) of (v, n) \<Rightarrow>
       if isDeleted v then Some (None, s\<lparr>lruQueue := splice_back n (lruQueue s)\<rparr>, db)
       else Some (Some v, s\<lparr>lruQueue := splice_front n (lruQueue s)\<rparr>, db)))"

definition kv_remove ::
  "('db \<Rightarrow> string \<Rightarrow> value_wrapper \<Rightarrow> bool \<times> 'db) \<Rightarrow> u64 \<Rightarrow> u64 \<Rightarrow> string \<Rightarrow> kv_store \<times> 'db \<Rightarrow>
   (kv_store \<times> 'db) option" where
  "kv_remove save t0 now k = setLocked save now k (deleted_wrapper t0)"

definition kv_keys :: "('db \<Rightarrow> string \<Rightarrow> string list) \<Rightarrow> string \<Rightarrow> kv_store \<times> 'db \<Rightarrow> string set" where
  "kv_keys loadPrefix pre = (\<lambda>(s, db).
     (\<lambda>p. drop (length pre) (fst p)) ` {p \<in> set (store s). take (length pre) (fst p) = pre}
     \<union> set (loadPrefix db pre))"

definition kv_flush :: "('db \<Rightarrow> kv_store \<Rightarrow> bool \<times> 'db) \<Rightarrow> kv_store \<times> 'db \<Rightarrow> kv_store \<times> 'db" where
  "kv_flush saveAll = (\<lambda>(s, db). (s\<lparr>store := []\<rparr>, snd (saveAll db s)))"

text \<open>
  The cache invariant: the map entries and the queue nodes correspond one to one, through the
  iterators, and the cache is never larger than its limit.
\<close>

definition kv_inv :: "kv_store \<Rightarrow> bool" where
  "kv_inv s \<longleftrightarrow> distinct (map fst (store s)) \<and> distinct (map fst (lruQueue s))
     \<and> (\<lambda>(n, k). (k, n)) ` set (lruQueue s) = (\<lambda>(k, v, n). (k, n)) ` set (store s)
     \<and> (\<forall>p \<in> set (lruQueue s). fst p < next_node s)
     \<and> length (store s) \<le> MAX_SIZE
     \<and> (\<forall>(k, v, n) \<in> set (store s). wf_value v)"

lemma MAX_SIZE_pos [simp]: "0 < MAX_SIZE"
  by (simp add: MAX_SIZE_def)

lemma set_splice [simp]: "set (splice_front n q) = set q" "set (splice_back n q) = set q"
  by (auto simp: splice_front_def splice_back_def)

lemma distinct_splice [simp]:
  "distinct (map fst (splice_front n q)) = distinct (map fst q)"
  "distinct (map fst (splice_back n q)) = distinct (map fst q)"
proof -
  have "mset (splice_front n q) = mset q" "mset (splice_back n q) = mset q"
    unfolding splice_front_def splice_back_def
    by (metis multiset_partition mset_filter mset_append add.commute)+
  then have "mset (map fst (splice_front n q)) = mset (map fst q)"
    "mset (map fst (splice_back n q)) = mset (map fst q)" by simp_all
  then show "distinct (map fst (splice_front n q)) = distinct (map fst q)"
    "distinct (map fst (splice_back n q)) = distinct (map fst q)"
    using mset_eq_imp_distinct_iff by blast+
qed

lemma kv_inv_splice [simp]:
  "kv_inv (s\<lparr>lruQueue := splice_front n (lruQueue s)\<rparr>) = kv_inv s"
  "kv_inv (s\<lparr>lruQueue := splice_back n (lruQueue s)\<rparr>) = kv_inv s"
  by (simp_all add: kv_inv_def)

lemma kv_inv_empty: "kv_inv empty_store"
  by (simp add: kv_inv_def empty_store_def)

lemma set_update_distinct:
  "distinct (map fst al) \<Longrightarrow> set (AList.update k v al) = insert (k, v) {p \<in> set al. fst p \<noteq> k}"
  by (induction al) (auto simp: image_iff)

lemma set_delete_eq: "set (AList.delete k al) = {p \<in> set al. fst p \<noteq> k}"
  by (auto simp: AList.delete_eq)

lemma length_update: "length (AList.update k v al) = (if map_of al k = None then Suc (length al) else length al)"
  by (induction al) auto

lemma length_delete_less:
  "map_of al k \<noteq> None \<Longrightarrow> length (AList.delete k al) < length al"
proof -
  assume "map_of al k \<noteq> None"
  then obtain v where "(k, v) \<in> set al" by (auto dest: map_of_SomeD)
  then show ?thesis unfolding AList.delete_eq by (intro length_filter_less [of "(k, v)"]) auto
qed

lemma kv_inv_images:
  "kv_inv s \<Longrightarrow> (\<lambda>(n, k). (k, n)) ` set (lruQueue s) = (\<lambda>(k, v, n). (k, n)) ` set (store s)"
  by (simp add: kv_inv_def)

lemma kv_inv_lookup:
  assumes "kv_inv s" "map_of (store s) k = Some (v, n)"
  shows "(n, k) \<in> set (lruQueue s)" "wf_value v"
proof -
  have mem: "(k, v, n) \<in> set (store s)" using assms(2) by (rule map_of_SomeD)
  then have "(k, n) \<in> (\<lambda>(k, v, n). (k, n)) ` set (store s)" by force
  then have "(k, n) \<in> (\<lambda>(n, k). (k, n)) ` set (lruQueue s)"
    by (simp only: kv_inv_images [OF assms(1)])
  then show "(n, k) \<in> set (lruQueue s)" by auto
  show "wf_value v" using mem assms(1) unfolding kv_inv_def by auto
qed

lemma kv_inv_queue:
  assumes "kv_inv s" "(n, k) \<in> set (lruQueue s)"
  obtains v where "map_of (store s) k = Some (v, n)"
proof -
  have "(k, n) \<in> (\<lambda>(n, k). (k, n)) ` set (lruQueue s)" using assms(2) by force
  then have "(k, n) \<in> (\<lambda>(k, v, n). (k, n)) ` set (store s)"
    by (simp only: kv_inv_images [OF assms(1)])
  then obtain v where "(k, v, n) \<in> set (store s)" by auto
  then show ?thesis using assms(1) that by (auto simp: kv_inv_def)
qed

lemma kv_inv_overwrite:
  assumes "kv_inv s" "map_of (store s) k = Some (v0, n)" "wf_value v"
  shows "kv_inv (s\<lparr>store := AList.update k (v, n) (store s)\<rparr>)"
proof -
  have d: "distinct (map fst (store s))" using assms(1) by (simp add: kv_inv_def)
  have "(\<lambda>(k, v, n). (k, n)) ` set (AList.update k (v, n) (store s))
      = (\<lambda>(k, v, n). (k, n)) ` set (store s)" (is "?f ` ?A = ?f ` ?B")
  proof
    show "?f ` ?A \<subseteq> ?f ` ?B"
      using map_of_SomeD [OF assms(2)] by (force simp: set_update_distinct [OF d])
    have "?f p \<in> ?f ` ?A" if "p \<in> ?B" for p
    proof (cases "fst p = k")
      case True
      then have "p = (k, v0, n)" using that assms(2) d by (cases p) (auto dest: map_of_is_SomeI)
      then show ?thesis by (auto simp: set_update_distinct [OF d])
    next
      case False
      then show ?thesis using that by (simp add: set_update_distinct [OF d])
    qed
    then show "?f ` ?B \<subseteq> ?f ` ?A" by blast
  qed
  then show ?thesis using assms d
    by (auto simp: kv_inv_def distinct_update length_update set_update_distinct)
qed

lemma kv_inv_push:
  assumes "kv_inv s" "map_of (store s) k = None" "length (store s) < MAX_SIZE" "wf_value v"
  shows "kv_inv (push_entry k v s)"
proof -
  have d: "distinct (map fst (store s))" using assms(1) by (simp add: kv_inv_def)
  have "{p \<in> set (store s). fst p \<noteq> k} = set (store s)"
    using assms(2) by (auto simp: map_of_eq_None_iff)
  moreover have "next_node s \<notin> fst ` set (lruQueue s)"
    using assms(1) by (auto simp: kv_inv_def)
  ultimately show ?thesis using assms d
    by (auto simp: kv_inv_def push_entry_def distinct_update length_update set_update_distinct
        less_SucI)
qed

lemma evict_total:
  assumes "kv_inv s" "MAX_SIZE \<le> length (store s)"
  obtains k v n where "map_of (store s) k = Some (v, n)"
    "evict save now s db = Some (s\<lparr>store := AList.delete k (store s), lruQueue := butlast (lruQueue s)\<rparr>,
       snd (save db k v))"
    "kv_inv (s\<lparr>store := AList.delete k (store s), lruQueue := butlast (lruQueue s)\<rparr>)"
proof -
  have "store s \<noteq> []" using assms(2) MAX_SIZE_pos by (metis le_zero_eq list.size(3) not_less)
  then have ne: "lruQueue s \<noteq> []" using assms(1) by (auto simp: kv_inv_def)
  obtain q n k where q: "lruQueue s = q @ [(n, k)]"
    using ne by (metis append_butlast_last_id surj_pair)
  obtain v where v: "map_of (store s) k = Some (v, n)"
    using kv_inv_queue [OF assms(1), of n k] q by auto
  have d: "distinct (map fst (store s))" "distinct (map fst (q @ [(n, k)]))"
    using assms(1) q by (simp_all add: kv_inv_def)
  have img: "(\<lambda>(n, k). (k, n)) ` set (q @ [(n, k)]) = (\<lambda>(k, v, n). (k, n)) ` set (store s)"
    using assms(1) q by (simp add: kv_inv_def)
  have eq: "(\<lambda>(n, k). (k, n)) ` set q = (\<lambda>(k, v, n). (k, n)) ` set (AList.delete k (store s))"
  proof (intro set_eqI iffI)
    fix x assume x: "x \<in> (\<lambda>(n, k). (k, n)) ` set q"
    then obtain m j where x': "x = (j, m)" "(m, j) \<in> set q" by auto
    obtain w where w: "map_of (store s) j = Some (w, m)"
      using kv_inv_queue [OF assms(1), of m j] x'(2) q by auto
    have "m \<noteq> n" using x'(2) d(2) by force
    then have "j \<noteq> k" using w v by auto
    then show "x \<in> (\<lambda>(k, v, n). (k, n)) ` set (AList.delete k (store s))"
      using map_of_SomeD [OF w] x'(1) by (force simp: set_delete_eq)
  next
    fix x assume "x \<in> (\<lambda>(k, v, n). (k, n)) ` set (AList.delete k (store s))"
    then obtain j w m where x': "x = (j, m)" "(j, w, m) \<in> set (store s)" "j \<noteq> k"
      by (auto simp: set_delete_eq)
    then have "(j, m) \<in> (\<lambda>(n, k). (k, n)) ` set (q @ [(n, k)])" unfolding img by force
    then show "x \<in> (\<lambda>(n, k). (k, n)) ` set q" using x' by auto
  qed
  have "length (AList.delete k (store s)) < length (store s)" using v by (simp add: length_delete_less)
  then have "kv_inv (s\<lparr>store := AList.delete k (store s), lruQueue := butlast (lruQueue s)\<rparr>)"
    using assms(1) d eq q by (auto simp: kv_inv_def set_delete_eq distinct_delete)
  moreover have "evict save now s db = Some (s\<lparr>store := AList.delete k (store s),
      lruQueue := butlast (lruQueue s)\<rparr>, snd (save db k v))"
    using q v by (simp add: evict_def)
  ultimately show ?thesis using that v by blast
qed

section \<open>The storage interface and the cache as a map\<close>

text \<open>What a cached value stands for: nothing when it is a deletion mark.\<close>

definition stored_view :: "value_wrapper \<Rightarrow> proto_value option" where
  "stored_view v = (if isDeleted v then None else Some (toProto v))"

lemma stored_view_deleted [simp]: "isDeleted v \<Longrightarrow> stored_view v = None"
  by (simp add: stored_view_def)

lemma stored_view_live [simp]: "\<not> isDeleted v \<Longrightarrow> stored_view v = Some (toProto v)"
  by (simp add: stored_view_def)

text \<open>
  What KVStore asks of the class that implements load and save: the content of the storage, by
  key, is what load returns, and save changes it at one key only.
\<close>

locale kv_backend =
  fixes load :: "u64 \<Rightarrow> 'db \<Rightarrow> string \<Rightarrow> value_wrapper option"
    and save :: "'db \<Rightarrow> string \<Rightarrow> value_wrapper \<Rightarrow> bool \<times> 'db"
    and content :: "'db \<Rightarrow> string \<Rightarrow> proto_value option"
    and available :: "'db \<Rightarrow> bool"
  assumes load_content: "available db \<Longrightarrow> map_option toProto (load now db k) = content db k"
    and load_wf: "load now db k = Some v \<Longrightarrow> wf_value v \<and> \<not> isDeleted v"
    and save_content: "\<lbrakk>available db; wf_value v\<rbrakk> \<Longrightarrow> content (snd (save db k v)) =
          (content db)(k := stored_view v)"
    and save_available: "available db \<Longrightarrow> available (snd (save db k v))"

definition kv_view :: "('db \<Rightarrow> string \<Rightarrow> proto_value option) \<Rightarrow> kv_store \<times> 'db \<Rightarrow> string \<Rightarrow> proto_value option" where
  "kv_view content = (\<lambda>(s, db) k. case map_of (store s) k of
      Some (v, _) \<Rightarrow> stored_view v
    | None \<Rightarrow> content db k)"

datatype kv_op = KvSet string value_wrapper | KvGet string bool | KvRemove string

definition kv_exec ::
  "(u64 \<Rightarrow> 'db \<Rightarrow> string \<Rightarrow> value_wrapper option) \<Rightarrow> ('db \<Rightarrow> string \<Rightarrow> value_wrapper \<Rightarrow> bool \<times> 'db) \<Rightarrow>
   u64 \<Rightarrow> kv_op \<Rightarrow> kv_store \<times> 'db \<Rightarrow> (value_wrapper option \<times> kv_store \<times> 'db) option" where
  "kv_exec load save now op st = (case op of
      KvSet k v \<Rightarrow> map_option (\<lambda>st. (None, st)) (setLocked save now k v st)
    | KvGet k forceLoad \<Rightarrow> kv_get (load now) save now k forceLoad st
    | KvRemove k \<Rightarrow> map_option (\<lambda>st. (None, st)) (kv_remove save now now k st))"

fun kv_run ::
  "(u64 \<Rightarrow> 'db \<Rightarrow> string \<Rightarrow> value_wrapper option) \<Rightarrow> ('db \<Rightarrow> string \<Rightarrow> value_wrapper \<Rightarrow> bool \<times> 'db) \<Rightarrow>
   (u64 \<times> kv_op) list \<Rightarrow> kv_store \<times> 'db \<Rightarrow> (proto_value option list \<times> kv_store \<times> 'db) option" where
  "kv_run load save [] st = Some ([], st)"
| "kv_run load save ((now, op) # ops) st = (case kv_exec load save now op st of
      None \<Rightarrow> None
    | Some (r, st') \<Rightarrow> (case kv_run load save ops st' of
        None \<Rightarrow> None
      | Some (rs, st'') \<Rightarrow> Some (map_option toProto r # rs, st'')))"

text \<open>The specification: a partial map from keys to contents.\<close>

fun map_run :: "(u64 \<times> kv_op) list \<Rightarrow> (string \<Rightarrow> proto_value option) \<Rightarrow> proto_value option list \<times> (string \<Rightarrow> proto_value option)" where
  "map_run [] m = ([], m)"
| "map_run ((now, KvSet k v) # ops) m =
     (case map_run ops (m(k := stored_view v)) of (rs, m') \<Rightarrow> (None # rs, m'))"
| "map_run ((now, KvGet k forceLoad) # ops) m = (case map_run ops m of (rs, m') \<Rightarrow> (m k # rs, m'))"
| "map_run ((now, KvRemove k) # ops) m = (case map_run ops (m(k := None)) of (rs, m') \<Rightarrow> (None # rs, m'))"

fun wf_op :: "kv_op \<Rightarrow> bool" where
  "wf_op (KvSet k v) = wf_value v"
| "wf_op (KvGet k forceLoad) = (\<not> forceLoad)"
| "wf_op (KvRemove k) = True"

lemma wf_deleted_wrapper [simp]: "wf_value (deleted_wrapper t)" "isDeleted (deleted_wrapper t)"
  by (simp_all add: deleted_wrapper_def)

context kv_backend
begin

lemma setLocked_refines:
  assumes "kv_inv s" "available db" "wf_value v"
  obtains s' db' where "setLocked save now k v (s, db) = Some (s', db')" "kv_inv s'" "available db'"
    "kv_view content (s', db') =
       (kv_view content (s, db))(k := stored_view v)"
proof (cases "map_of (store s) k")
  case (Some p)
  obtain v0 n where p: "p = (v0, n)" by (cases p)
  have "kv_inv (s\<lparr>store := AList.update k (v, n) (store s), lruQueue := splice_front n (lruQueue s)\<rparr>)"
    using kv_inv_splice(1) [of n "s\<lparr>store := AList.update k (v, n) (store s)\<rparr>"] kv_inv_overwrite assms Some p
    by simp
  moreover have "kv_view content (s\<lparr>store := AList.update k (v, n) (store s),
      lruQueue := splice_front n (lruQueue s)\<rparr>, db) =
      (kv_view content (s, db))(k := stored_view v)"
    by (auto simp: kv_view_def fun_eq_iff update_conv)
  ultimately show ?thesis using that Some p assms(2) by (simp add: setLocked_def)
next
  case None
  show ?thesis
  proof (cases "length (store s) \<ge> MAX_SIZE")
    case False
    then have "kv_inv (push_entry k v s)" using kv_inv_push assms None by simp
    moreover have "kv_view content (push_entry k v s, db) =
        (kv_view content (s, db))(k := stored_view v)"
      by (auto simp: kv_view_def fun_eq_iff update_conv push_entry_def)
    ultimately show ?thesis using that None False assms(2) by (simp add: setLocked_def)
  next
    case True
    obtain j w n where j: "map_of (store s) j = Some (w, n)"
      "evict save now s db = Some (s\<lparr>store := AList.delete j (store s), lruQueue := butlast (lruQueue s)\<rparr>,
         snd (save db j w))"
      "kv_inv (s\<lparr>store := AList.delete j (store s), lruQueue := butlast (lruQueue s)\<rparr>)"
      using evict_total [OF assms(1) True, of save now db] by metis
    let ?s = "s\<lparr>store := AList.delete j (store s), lruQueue := butlast (lruQueue s)\<rparr>"
    have "length (AList.delete j (store s)) < length (store s)" using j(1) by (simp add: length_delete_less)
    moreover have "length (store s) \<le> MAX_SIZE" using assms(1) by (simp add: kv_inv_def)
    ultimately have "kv_inv (push_entry k v ?s)"
      using kv_inv_push [OF j(3), of k v] None assms(3) by (simp add: delete_conv)
    moreover have "kv_view content (push_entry k v ?s, snd (save db j w)) =
        (kv_view content (s, db))(k := stored_view v)"
      using j(1) None save_content [OF assms(2) kv_inv_lookup(2) [OF assms(1) j(1)], of j]
      by (auto simp: kv_view_def fun_eq_iff update_conv push_entry_def delete_conv split: option.splits)
    ultimately show ?thesis
      using that None True j(2) save_available [OF assms(2)] by (simp add: setLocked_def)
  qed
qed

lemma kv_get_refines:
  assumes "kv_inv s" "available db"
  obtains r s' db' where "kv_get (load now) save now k False (s, db) = Some (r, s', db')"
    "map_option toProto r = kv_view content (s, db) k" "kv_inv s'" "available db'"
    "kv_view content (s', db') = kv_view content (s, db)"
proof (cases "map_of (store s) k")
  case (Some p)
  obtain v n where p: "p = (v, n)" by (cases p)
  show ?thesis
  proof (cases "isDeleted v")
    case True
    then show ?thesis using that [of None "s\<lparr>lruQueue := splice_back n (lruQueue s)\<rparr>" db] Some p assms
      by (auto simp: kv_get_def kv_view_def)
  next
    case False
    then show ?thesis using that [of "Some v" "s\<lparr>lruQueue := splice_front n (lruQueue s)\<rparr>" db] Some p assms
      by (auto simp: kv_get_def kv_view_def)
  qed
next
  case None
  have view: "kv_view content (s, db) k = content db k" using None by (simp add: kv_view_def)
  show ?thesis
  proof (cases "load now db k")
    case l: None
    then show ?thesis using that [of None s db] None assms load_content [OF assms(2), of now k] view
      by (simp add: kv_get_def)
  next
    case (Some v)
    obtain s' db' where st: "setLocked save now k v (s, db) = Some (s', db')" "kv_inv s'" "available db'"
      "kv_view content (s', db') =
         (kv_view content (s, db))(k := stored_view v)"
      using setLocked_refines assms load_wf [OF Some] by metis
    have "content db k = Some (toProto v)" using load_content [OF assms(2), of now k] Some by simp
    then show ?thesis using that [of "Some v" s' db'] st None Some view load_wf [OF Some]
      by (auto simp: kv_get_def fun_upd_idem)
  qed
qed

lemma kv_run_refines:
  assumes "kv_inv s" "available db" "list_all (wf_op \<circ> snd) ops"
  shows "\<exists>s' db'. kv_run load save ops (s, db) =
       Some (fst (map_run ops (kv_view content (s, db))), s', db')
     \<and> kv_inv s' \<and> available db' \<and> kv_view content (s', db') = snd (map_run ops (kv_view content (s, db)))"
  using assms
proof (induction ops arbitrary: s db)
  case (Cons a ops)
  obtain now op where a: "a = (now, op)" by (cases a)
  show ?case
  proof (cases op)
    case (KvSet k v)
    obtain s' db' where st: "setLocked save now k v (s, db) = Some (s', db')" "kv_inv s'" "available db'"
      "kv_view content (s', db') =
         (kv_view content (s, db))(k := stored_view v)"
      using setLocked_refines [OF Cons.prems(1,2), of v now k] Cons.prems(3) a KvSet by auto
    show ?thesis using Cons.IH [OF st(2,3), unfolded st(4)] Cons.prems(3) a KvSet st(1)
      by (auto simp: kv_exec_def simp del: fun_upd_apply split: prod.splits)
  next
    case (KvGet k fl)
    obtain r s' db' where st: "kv_get (load now) save now k False (s, db) = Some (r, s', db')"
      "map_option toProto r = kv_view content (s, db) k" "kv_inv s'" "available db'"
      "kv_view content (s', db') = kv_view content (s, db)"
      using kv_get_refines Cons.prems by metis
    show ?thesis using Cons.IH [OF st(3,4), unfolded st(5)] Cons.prems(3) a KvGet st(1,2)
      by (auto simp: kv_exec_def simp del: fun_upd_apply split: prod.splits)
  next
    case (KvRemove k)
    obtain s' db' where st: "kv_remove save now now k (s, db) = Some (s', db')" "kv_inv s'" "available db'"
      "kv_view content (s', db') = (kv_view content (s, db))(k := None)"
      using setLocked_refines [OF Cons.prems(1,2), of "deleted_wrapper now" now k]
      by (auto simp: kv_remove_def)
    show ?thesis using Cons.IH [OF st(2,3), unfolded st(4)] Cons.prems(3) a KvRemove st(1)
      by (auto simp: kv_exec_def simp del: fun_upd_apply split: prod.splits)
  qed
qed simp

end

section \<open>The SQL backend\<close>

text \<open>
  The table \<^verbatim>\<open>kv_store\<close> as a map from the key to timestamp and value, and whether the server answers
  queries.  Serialisation to bytes is generated protocol-buffer code: \<^verbatim>\<open>ser\<close> and \<^verbatim>\<open>parse\<close> are
  parameters.  An insert collects rows and sends them by execute.
\<close>

record 'd kv_table =
  rows :: "string \<Rightarrow> (u64 \<times> 'd) option"
  online :: bool

definition sql_load :: "('d \<Rightarrow> proto_value option) \<Rightarrow> u64 \<Rightarrow> 'd kv_table \<Rightarrow> string \<Rightarrow> value_wrapper option" where
  "sql_load parse now db k = (if \<not> online db then None else
     (case rows db k of
        None \<Rightarrow> None
      | Some (ts, d) \<Rightarrow> (case parse d of None \<Rightarrow> None | Some p \<Rightarrow> Some (fromProto now ts p))))"

definition prepareSave ::
  "(proto_value \<Rightarrow> 'd option) \<Rightarrow> string \<Rightarrow> value_wrapper \<Rightarrow> 'd kv_table \<times> (string \<times> u64 \<times> 'd) list \<Rightarrow>
   bool \<times> 'd kv_table \<times> (string \<times> u64 \<times> 'd) list" where
  "prepareSave ser k v = (\<lambda>(db, update). case ser (toProto v) of
      None \<Rightarrow> (False, db, update)
    | Some d \<Rightarrow> (if isDeleted v
        then (online db, (if online db then db\<lparr>rows := (rows db)(k := None)\<rparr> else db), update)
        else (True, db, update @ [(k, getTimestamp v, d)])))"

definition execute_update :: "'d kv_table \<Rightarrow> (string \<times> u64 \<times> 'd) list \<Rightarrow> bool \<times> 'd kv_table" where
  "execute_update db update = (if update = [] then (True, db)
     else if online db
       then (True, db\<lparr>rows := fold (\<lambda>(k, ts, d) m. m(k \<mapsto> (ts, d))) update (rows db)\<rparr>)
     else (False, db))"

definition sql_save :: "(proto_value \<Rightarrow> 'd option) \<Rightarrow> 'd kv_table \<Rightarrow> string \<Rightarrow> value_wrapper \<Rightarrow> bool \<times> 'd kv_table" where
  "sql_save ser db k v = (case prepareSave ser k v (db, []) of (_, db', update) \<Rightarrow> execute_update db' update)"

fun prepare_all ::
  "(proto_value \<Rightarrow> 'd option) \<Rightarrow> (string \<times> value_wrapper) list \<Rightarrow> 'd kv_table \<times> (string \<times> u64 \<times> 'd) list \<Rightarrow>
   bool \<times> 'd kv_table \<times> (string \<times> u64 \<times> 'd) list" where
  "prepare_all ser [] st = (True, st)"
| "prepare_all ser ((k, v) # kvs) st = (case prepareSave ser k v st of
      (ok, st') \<Rightarrow> if ok then prepare_all ser kvs st' else (False, st'))"

definition sql_saveAll :: "(proto_value \<Rightarrow> 'd option) \<Rightarrow> 'd kv_table \<Rightarrow> kv_store \<Rightarrow> bool \<times> 'd kv_table" where
  "sql_saveAll ser db s = (case prepare_all ser (map (\<lambda>(k, v, n). (k, v)) (store s)) (db, []) of
      (ok, db', update) \<Rightarrow> if ok then execute_update db' update else (False, db'))"

definition table_content :: "('d \<Rightarrow> proto_value option) \<Rightarrow> 'd kv_table \<Rightarrow> string \<Rightarrow> proto_value option" where
  "table_content parse db k = (case rows db k of
      None \<Rightarrow> None
    | Some (ts, d) \<Rightarrow> (case parse d of None \<Rightarrow> None | Some p \<Rightarrow> Some (toProto (fromProto 1 ts p))))"

definition codec :: "(proto_value \<Rightarrow> 'd option) \<Rightarrow> ('d \<Rightarrow> proto_value option) \<Rightarrow> bool" where
  "codec ser parse \<longleftrightarrow> (\<forall>p. \<exists>d. ser p = Some d \<and> parse d = Some p)"

lemma toProto_fromProto_clock: "toProto (fromProto now ts p) = toProto (fromProto now' ts' p)"
proof (induction now ts p rule: fromProto.induct)
  case (6 now ts items)
  have "map_assign (map (\<lambda>(k, p). (k, f p)) items) =
      map (\<lambda>(k, p). (k, f p)) (map_assign items)" for f :: "proto_value \<Rightarrow> value_wrapper"
  proof -
    have upd: "AList.update k (f p) (map (\<lambda>(k, p). (k, f p)) acc) =
        map (\<lambda>(k, p). (k, f p)) (AList.update k p acc)" for k p acc
      by (induction acc) auto
    have "fold (\<lambda>(k, w) m. AList.update k w m) (map (\<lambda>(k, p). (k, f p)) items) (map (\<lambda>(k, p). (k, f p)) acc)
      = map (\<lambda>(k, p). (k, f p)) (fold (\<lambda>(k, w) m. AList.update k w m) items acc)" for acc
      by (induction items arbitrary: acc) (auto simp: upd)
    from this [of "[]"] show ?thesis by (simp add: map_assign_def)
  qed
  moreover have "toProto (fromProto now ts p) = toProto (fromProto now' ts' p)"
    if "(k, p) \<in> set (map_assign items)" for k p
    using set_mp [OF set_map_assign that] 6 by blast
  ultimately show ?case by (auto simp: new_wrapper_def)
qed (auto simp: new_wrapper_def)

lemma not_deleted_fromProto: "\<not> isDeleted (fromProto now ts p)"
  by (cases p) (simp_all add: new_wrapper_def)

lemma codecE:
  assumes "codec ser parse"
  obtains d where "ser p = Some d" "parse d = Some p"
  using assms by (auto simp: codec_def)

text \<open>The SQL backend meets the storage interface whenever the byte codec round-trips.\<close>

lemma sql_backend:
  assumes "codec ser parse"
  shows "kv_backend (sql_load parse) (sql_save ser) (table_content parse) online"
proof
  fix now db k
  show "map_option toProto (sql_load parse now db k) = table_content parse db k" if "online db"
    using that toProto_fromProto_clock
    by (auto simp: sql_load_def table_content_def split: option.splits)
next
  fix now db k v assume "sql_load parse now db k = Some v"
  then show "wf_value v \<and> \<not> isDeleted v"
    by (auto simp: sql_load_def wf_fromProto not_deleted_fromProto split: if_splits option.splits)
next
  fix db :: "'a kv_table" and k v assume *: "online db" "wf_value v"
  obtain d where "ser (toProto v) = Some d" "parse d = Some (toProto v)" using codecE [OF assms] .
  then show "table_content parse (snd (sql_save ser db k v)) = (table_content parse db)(k := stored_view v)"
    using * by (auto simp: sql_save_def prepareSave_def execute_update_def table_content_def fun_eq_iff
        stored_view_def fromProto_toProto toProto_restamp)
next
  fix db :: "'a kv_table" and k v assume "online db"
  then show "online (snd (sql_save ser db k v))"
    by (auto simp: sql_save_def prepareSave_def execute_update_def split: option.splits)
qed

interpretation kvsql: kv_backend "sql_load Some" "sql_save Some" "table_content Some" online
  by (rule sql_backend) (simp add: codec_def)

lemma prepare_all_result:
  assumes "codec ser parse" "online db"
  shows "prepare_all ser kvs (db, upd) =
    (True, db\<lparr>rows := \<lambda>k. if \<exists>v. (k, v) \<in> set kvs \<and> isDeleted v then None else rows db k\<rparr>,
     upd @ map (\<lambda>(k, v). (k, getTimestamp v, the (ser (toProto v)))) (filter (\<lambda>(k, v). \<not> isDeleted v) kvs))"
  using assms(2)
proof (induction kvs arbitrary: db upd)
  case (Cons p kvs)
  obtain k v where p: "p = (k, v)" by (cases p)
  obtain d where d: "ser (toProto v) = Some d" using codecE [OF assms(1)] .
  show ?case
  proof (cases "isDeleted v")
    case True
    then show ?thesis using Cons.IH [of "db\<lparr>rows := (rows db)(k := None)\<rparr>" upd] Cons.prems d p
      by (auto simp: prepareSave_def intro!: kv_table.equality ext)
  next
    case False
    then show ?thesis using Cons.IH [of db "upd @ [(k, getTimestamp v, d)]"] Cons.prems d p
      by (auto simp: prepareSave_def intro!: kv_table.equality ext)
  qed
qed simp

lemma fold_upsert:
  assumes "distinct (map fst us)"
  shows "fold (\<lambda>(k, ts, d) m. m(k \<mapsto> (ts, d))) us m = m ++ map_of us"
  using assms
proof (induction us arbitrary: m)
  case (Cons p us)
  obtain k ts d where p: "p = (k, ts, d)" by (cases p)
  have "map_of us k = None" using Cons.prems p by (simp add: map_of_eq_None_iff)
  then show ?case using Cons p by (auto simp: map_add_def fun_eq_iff split: option.splits)
qed simp

lemma map_of_live:
  assumes "distinct (map fst kvs)"
  shows "map_of (map (\<lambda>(k, v). (k, f v)) (filter (\<lambda>(k, v). \<not> isDeleted v) kvs)) k =
    (case map_of kvs k of None \<Rightarrow> None | Some v \<Rightarrow> if isDeleted v then None else Some (f v))"
  using assms
proof (induction kvs)
  case (Cons p kvs)
  obtain j v where p: "p = (j, v)" by (cases p)
  have "map_of kvs j = None" using Cons.prems p by (simp add: map_of_eq_None_iff)
  then show ?case using Cons p by (cases "k = j") auto
qed simp

lemma execute_update_rows:
  "online db \<Longrightarrow> distinct (map fst us) \<Longrightarrow>
   execute_update db us = (True, db\<lparr>rows := rows db ++ map_of us\<rparr>)"
  by (simp add: execute_update_def fold_upsert)

lemma sql_saveAll_content:
  assumes "codec ser parse" "online db" "kv_inv s"
  obtains db' where "sql_saveAll ser db s = (True, db')" "online db'"
    "table_content parse db' = kv_view (table_content parse) (s, db)"
proof -
  let ?kvs = "map (\<lambda>(k, v, n). (k, v)) (store s)"
  let ?row = "\<lambda>v. (getTimestamp v, the (ser (toProto v)))"
  let ?us = "map (\<lambda>(k, v). (k, ?row v)) (filter (\<lambda>(k, v). \<not> isDeleted v) ?kvs)"
  let ?db = "db\<lparr>rows := \<lambda>k. if \<exists>v. (k, v) \<in> set ?kvs \<and> isDeleted v then None else rows db k\<rparr>"
  have d: "distinct (map fst ?kvs)"
    using assms(3) by (simp add: kv_inv_def comp_def case_prod_unfold)
  have du: "distinct (map fst ?us)"
    using d by (simp add: comp_def case_prod_unfold distinct_map_filter)
  have "map_of (map (\<lambda>(k, v, n). (k, v)) xs) k = map_option fst (map_of xs k)"
    for xs :: "(string \<times> value_wrapper \<times> nat) list" and k
    by (induction xs) auto
  note mo = this [of "store s"]
  have mem: "(\<exists>v. (k, v) \<in> set ?kvs \<and> isDeleted v) \<longleftrightarrow> (\<exists>v. map_of ?kvs k = Some v \<and> isDeleted v)" for k
    using d by (metis map_of_SomeD map_of_is_SomeI)
  have run: "sql_saveAll ser db s = (True, ?db\<lparr>rows := rows ?db ++ map_of ?us\<rparr>)"
    unfolding sql_saveAll_def prepare_all_result [OF assms(1,2)]
    using execute_update_rows [of ?db ?us] du assms(2) by simp
  moreover have "table_content parse (?db\<lparr>rows := rows ?db ++ map_of ?us\<rparr>) k
      = kv_view (table_content parse) (s, db) k" for k
  proof (cases "map_of (store s) k")
    case None
    then show ?thesis using map_of_live [OF d, of ?row k] mo mem
      by (simp add: table_content_def kv_view_def map_add_def)
  next
    case (Some p)
    obtain v n where p: "p = (v, n)" by (cases p)
    obtain x where x: "ser (toProto v) = Some x" "parse x = Some (toProto v)" using codecE [OF assms(1)] .
    have "wf_value v" using kv_inv_lookup(2) assms(3) Some p by blast
    then have "toProto (fromProto 1 (getTimestamp v) (toProto v)) = toProto v"
      by (simp add: fromProto_toProto toProto_restamp)
    then show ?thesis using map_of_live [OF d, of ?row k] mo mem Some p x
      by (auto simp: table_content_def kv_view_def map_add_def)
  qed
  ultimately show ?thesis using that assms(2) by (simp add: fun_eq_iff)
qed



text \<open>
  After flush the map is empty while the queue keeps its nodes: the invariant is lost, and the
  next insertion of the same key leaves two nodes for it.
\<close>

lemma flush_breaks_queue:
  "kv_inv s \<Longrightarrow> store s \<noteq> [] \<Longrightarrow> \<not> kv_inv (fst (kv_flush saveAll (s, db)))"
  by (auto simp: kv_inv_def kv_flush_def)

text \<open>A removed key is still listed by keys until it is evicted.\<close>

lemma setLocked_stores:
  "setLocked save now k v (s, db) = Some (s', db') \<Longrightarrow> \<exists>n. map_of (store s') k = Some (v, n)"
  by (auto simp: setLocked_def push_entry_def update_conv split: option.splits if_splits)

lemma removed_key_listed:
  assumes "kv_remove save t0 now k (s, db) = Some (s', db')"
  shows "k \<in> kv_keys loadPrefix [] (s', db')"
proof -
  obtain n where "map_of (store s') k = Some (deleted_wrapper t0, n)"
    using setLocked_stores assms by (fastforce simp: kv_remove_def)
  from map_of_SomeD [OF this] show ?thesis by (force simp: kv_keys_def)
qed

section \<open>Scoped views and generated identifiers\<close>

definition buildKey :: "string \<Rightarrow> string \<Rightarrow> string" where
  "buildKey scope k = scope @ ''.'' @ k"

definition scoped_get ::
  "('db \<Rightarrow> string \<Rightarrow> value_wrapper option) \<Rightarrow> ('db \<Rightarrow> string \<Rightarrow> value_wrapper \<Rightarrow> bool \<times> 'db) \<Rightarrow> u64 \<Rightarrow> string \<Rightarrow>
   string \<Rightarrow> bool \<Rightarrow> kv_store \<times> 'db \<Rightarrow> (value_wrapper option \<times> kv_store \<times> 'db) option" where
  "scoped_get load save now scope k = kv_get load save now (buildKey scope k)"

definition scoped_set ::
  "('db \<Rightarrow> string \<Rightarrow> value_wrapper \<Rightarrow> bool \<times> 'db) \<Rightarrow> u64 \<Rightarrow> string \<Rightarrow> string \<Rightarrow> value_wrapper \<Rightarrow>
   kv_store \<times> 'db \<Rightarrow> (kv_store \<times> 'db) option" where
  "scoped_set save now scope k = setLocked save now (buildKey scope k)"

definition scoped :: "string \<Rightarrow> string \<Rightarrow> string" where
  "scoped scope inner = buildKey scope inner"

lemma nested_scopes: "buildKey (scoped a b) k = buildKey a (buildKey b k)"
  by (simp add: scoped_def buildKey_def)

lemma buildKey_inject [simp]: "buildKey scope j = buildKey scope k \<longleftrightarrow> j = k"
  by (simp add: buildKey_def)

text \<open>The state of generateUUID: the last time stamp in milliseconds and the 64-bit counter.\<close>

definition generateUUID :: "nat \<Rightarrow> nat \<times> nat \<Rightarrow> string \<times> (nat \<times> nat)" where
  "generateUUID milliseconds = (\<lambda>(lastTimestamp, counter).
     let counter' = (if milliseconds \<noteq> lastTimestamp then 0 else (counter + 1) mod 2 ^ 64)
     in (zero_fill 20 (decimal milliseconds) @ ''-'' @ zero_fill 12 (decimal counter'),
         (milliseconds, counter')))"

fun uuids :: "nat list \<Rightarrow> nat \<times> nat \<Rightarrow> string list" where
  "uuids [] st = []"
| "uuids (ms # clock) st = (case generateUUID ms st of (u, st') \<Rightarrow> u # uuids clock st')"

definition uuid_text :: "nat \<times> nat \<Rightarrow> string" where
  "uuid_text = (\<lambda>(ms, c). zero_fill 20 (decimal ms) @ ''-'' @ zero_fill 12 (decimal c))"

lemma uuid_text_inject: "uuid_text (m, c) = uuid_text (m', c') \<longleftrightarrow> m = m' \<and> c = c'"
proof
  assume eq: "uuid_text (m, c) = uuid_text (m', c')"
  have front: "takeWhile (\<lambda>x. x \<noteq> CHR ''-'') (uuid_text (m, c)) = zero_fill 20 (decimal m)" for m c
  proof -
    have "\<forall>x \<in> set (zero_fill 20 (decimal m)). x \<noteq> CHR ''-''"
      using zero_fill_decimal_digits [of "CHR ''-''" 20 m] by auto
    then show ?thesis by (simp add: uuid_text_def takeWhile_append2)
  qed
  have "zero_fill 20 (decimal m) = zero_fill 20 (decimal m')" using front eq by metis
  then have "m = m'" by simp
  with eq show "m = m' \<and> c = c'" by (simp add: uuid_text_def)
qed simp

lemma uuids_later:
  assumes "sorted clock" "\<forall>t \<in> set clock. l \<le> t" "c + length clock < 2 ^ 64" "u \<in> set (uuids clock (l, c))"
  shows "\<exists>m d. u = uuid_text (m, d) \<and> (l < m \<or> l = m \<and> c < d)"
  using assms
proof (induction clock arbitrary: l c)
  case (Cons t clock)
  let ?c = "if t \<noteq> l then 0 else (c + 1) mod 2 ^ 64"
  have u: "u = uuid_text (t, ?c) \<or> u \<in> set (uuids clock (t, ?c))"
    using Cons.prems(4) by (auto simp: generateUUID_def uuid_text_def Let_def)
  have c: "(c + 1) mod 2 ^ 64 = c + 1" using Cons.prems(3) by simp
  have "\<exists>m d. u = uuid_text (m, d) \<and> (t < m \<or> t = m \<and> ?c < d)" if "u \<in> set (uuids clock (t, ?c))"
    using Cons.IH [of t ?c] Cons.prems that c by auto
  moreover have "l \<le> t" using Cons.prems(2) by simp
  ultimately show ?case using u c by (auto simp: uuid_text_inject split: if_splits)
qed simp

text \<open>
  Identifiers are unique: as long as the clock never runs backwards and fewer than 2^64
  identifiers are drawn, all strings generateUUID returns are different.
\<close>
theorem uuids_distinct:
  assumes "sorted clock" "\<forall>t \<in> set clock. l \<le> t" "c + length clock < 2 ^ 64"
  shows "distinct (uuids clock (l, c))"
  using assms
proof (induction clock arbitrary: l c)
  case (Cons t clock)
  let ?c = "if t \<noteq> l then 0 else (c + 1) mod 2 ^ 64"
  have c: "(c + 1) mod 2 ^ 64 = c + 1" using Cons.prems(3) by simp
  have "uuid_text (t, ?c) \<notin> set (uuids clock (t, ?c))"
    using uuids_later [of clock t ?c "uuid_text (t, ?c)"] Cons.prems c uuid_text_inject by auto
  moreover have "distinct (uuids clock (t, ?c))" using Cons.IH [of t ?c] Cons.prems c by auto
  ultimately show ?case by (simp add: generateUUID_def uuid_text_def Let_def)
qed simp

theorem uuids_distinct_witness:
  "distinct (uuids [5, 5, 7] (5, 3))"
  by (rule uuids_distinct) simp_all

end
