(* ===== verification/Guild.thy ===== *)
theory Guild
  imports Prelude
begin

text \<open>
  Guilds (\<^verbatim>\<open>creatures/players/grouping/guild.hpp\<close>, \<^verbatim>\<open>guild.cpp\<close>): the members that are online, the ranks
  and the guild's bank balance.  What a change of membership does to the game is returned as a list
  of calls: updatePlayerHelpers for a player, removeGuild for a guild.
\<close>

record guild_rank =
  rank_id :: u32
  rank_name :: string
  rank_level :: u8

record guild =
  membersOnline :: "nat list"
  ranks :: "guild_rank list"
  guild_name :: string
  guild_bankBalance :: u64
  motd :: string
  guild_id :: u32
  memberCount :: u32
  guild_online :: bool

datatype guild_call = UpdatePlayerHelpers nat | RemoveGuild u32

definition addMember :: "nat \<Rightarrow> guild \<Rightarrow> guild_call list \<times> guild" where
  "addMember player g = (let members = membersOnline g @ [player]
     in (map UpdatePlayerHelpers members, g\<lparr>membersOnline := members\<rparr>))"

definition removeMember :: "nat \<Rightarrow> guild \<Rightarrow> guild_call list \<times> guild" where
  "removeMember player g = (let members = filter (\<lambda>m. m \<noteq> player) (membersOnline g)
     in (map UpdatePlayerHelpers members @ [UpdatePlayerHelpers player]
           @ (if members = [] then [RemoveGuild (guild_id g)] else []),
         g\<lparr>membersOnline := members\<rparr>))"

fun first_rank :: "(guild_rank \<Rightarrow> bool) \<Rightarrow> guild_rank list \<Rightarrow> guild_rank option" where
  "first_rank p [] = None"
| "first_rank p (r # rs) = (if p r then Some r else first_rank p rs)"

definition getRankById :: "u32 \<Rightarrow> guild \<Rightarrow> guild_rank option" where
  "getRankById rankId g = first_rank (\<lambda>r. rank_id r = rankId) (ranks g)"

definition getRankByName :: "string \<Rightarrow> guild \<Rightarrow> guild_rank option" where
  "getRankByName n g = first_rank (\<lambda>r. rank_name r = n) (ranks g)"

definition getRankByLevel :: "u8 \<Rightarrow> guild \<Rightarrow> guild_rank option" where
  "getRankByLevel level g = first_rank (\<lambda>r. rank_level r = level) (ranks g)"

definition addRank :: "u32 \<Rightarrow> string \<Rightarrow> u8 \<Rightarrow> guild \<Rightarrow> guild" where
  "addRank rankId n level g = g\<lparr>ranks := ranks g @ [\<lparr>rank_id = rankId, rank_name = n, rank_level = level\<rparr>]\<rparr>"

lemma first_rank_append:
  "first_rank p (rs @ [r]) = (case first_rank p rs of Some x \<Rightarrow> Some x | None \<Rightarrow> if p r then Some r else None)"
  by (induction rs) auto

text \<open>A history of logins and logouts, with every call made on the way.\<close>

datatype guild_event = Login nat | Logout nat

fun guild_run :: "guild_event list \<Rightarrow> guild \<Rightarrow> guild_call list \<times> guild" where
  "guild_run [] g = ([], g)"
| "guild_run (e # es) g = (case (case e of Login p \<Rightarrow> addMember p g | Logout p \<Rightarrow> removeMember p g) of
      (cs, g') \<Rightarrow> (case guild_run es g' of (cs', g'') \<Rightarrow> (cs @ cs', g'')))"

fun online_after :: "guild_event list \<Rightarrow> nat set \<Rightarrow> nat set" where
  "online_after [] A = A"
| "online_after (Login p # es) A = online_after es (insert p A)"
| "online_after (Logout p # es) A = online_after es (A - {p})"

lemma guild_run_fields:
  "guild_id (snd (guild_run es g)) = guild_id g \<and> guild_bankBalance (snd (guild_run es g)) = guild_bankBalance g"
  by (induction es arbitrary: g)
    (simp_all add: addMember_def removeMember_def Let_def case_prod_unfold split: guild_event.splits)

lemma guild_run_members: "set (membersOnline (snd (guild_run es g))) = online_after es (set (membersOnline g))"
proof (induction es arbitrary: g)
  case (Cons e es)
  have "set (membersOnline (snd (case e of Login p \<Rightarrow> addMember p g | Logout p \<Rightarrow> removeMember p g))) =
      (case e of Login p \<Rightarrow> insert p (set (membersOnline g)) | Logout p \<Rightarrow> set (membersOnline g) - {p})"
    by (auto simp: addMember_def removeMember_def Let_def split: guild_event.splits)
  then show ?case using Cons by (cases e) (simp_all add: case_prod_unfold)
qed simp

text \<open>
  The guild is unloaded exactly when its last member leaves: after any history of logins and
  logouts the online list holds exactly the players who logged in and not out again, a further
  logout removes every occurrence of the player, tells every remaining member, and asks for the
  removal of the guild if and only if nobody is left.
\<close>
theorem guild_removed_with_last_member:
  "case removeMember p (snd (guild_run es g)) of (calls, g') \<Rightarrow>
     set (membersOnline g') = online_after es (set (membersOnline g)) - {p}
     \<and> (RemoveGuild i \<in> set calls \<longleftrightarrow> i = guild_id g \<and> online_after es (set (membersOnline g)) \<subseteq> {p})
     \<and> (\<forall>m. UpdatePlayerHelpers m \<in> set calls \<longleftrightarrow> m = p \<or> m \<in> online_after es (set (membersOnline g)))"
  using guild_run_members [of es g] guild_run_fields [of es g]
  by (auto simp: removeMember_def Let_def filter_empty_conv)

end
