(* ===== verification/Money.thy ===== *)
theory Money
  imports Prelude
begin

text \<open>
  Coins: the worth of an item (Item::getWorth), the money a player carries (Player::getMoney), and
  the two operations that create and take coins, Game::addMoney and Game::removeMoney.  Coin stacks
  have an identity; what removeMoney does to the world is returned as the list of internalRemoveItem
  calls it makes, with the change it hands to addMoney, and addMoney returns the stacks it creates.
  Amounts are natural numbers and every narrowing of the code (the 32-bit crystal count and product,
  the 16-bit platinum and item counts) is written out.
\<close>

definition ITEM_GOLD_COIN :: nat where "ITEM_GOLD_COIN = 3031"
definition ITEM_PLATINUM_COIN :: nat where "ITEM_PLATINUM_COIN = 3035"
definition ITEM_CRYSTAL_COIN :: nat where "ITEM_CRYSTAL_COIN = 3043"

lemmas coin_ids = ITEM_GOLD_COIN_def ITEM_PLATINUM_COIN_def ITEM_CRYSTAL_COIN_def

record stack =
  stack_uid :: nat
  stack_id :: nat
  stack_count :: nat

datatype thing = Plain stack | Box "thing list"

definition getWorth :: "stack \<Rightarrow> nat" where
  "getWorth s = (if stack_id s = ITEM_GOLD_COIN then stack_count s
     else if stack_id s = ITEM_PLATINUM_COIN then stack_count s * 100
     else if stack_id s = ITEM_CRYSTAL_COIN then stack_count s * 10000
     else 0)"

text \<open>
  The walk over the inventory: the items of a cylinder or container in order, containers appended
  to the work list and visited later.
\<close>

fun plain_items :: "thing list \<Rightarrow> stack list" where
  "plain_items [] = []"
| "plain_items (Plain s # ts) = s # plain_items ts"
| "plain_items (Box _ # ts) = plain_items ts"

fun sub_containers :: "thing list \<Rightarrow> thing list list" where
  "sub_containers [] = []"
| "sub_containers (Plain _ # ts) = sub_containers ts"
| "sub_containers (Box c # ts) = c # sub_containers ts"

fun weight :: "thing \<Rightarrow> nat" where
  "weight (Plain _) = 1"
| "weight (Box c) = 1 + sum_list (map weight c)"

definition queue_weight :: "thing list list \<Rightarrow> nat" where
  "queue_weight q = sum_list (map (\<lambda>c. 1 + sum_list (map weight c)) q)"

lemma queue_weight_sub_containers: "queue_weight (sub_containers c) \<le> sum_list (map weight c)"
  by (induction c rule: sub_containers.induct) (auto simp: queue_weight_def)

function walk :: "thing list list \<Rightarrow> stack list" where
  "walk [] = []"
| "walk (c # q) = plain_items c @ walk (q @ sub_containers c)"
  by pat_completeness auto
termination
proof (relation "measure queue_weight")
  fix c q
  show "(q @ sub_containers c, c # q) \<in> measure queue_weight"
    using queue_weight_sub_containers [of c] by (simp add: queue_weight_def)
qed simp

definition carried :: "thing list \<Rightarrow> stack list" where
  "carried slots = walk [slots]"

definition getMoney :: "thing list \<Rightarrow> nat" where
  "getMoney slots = sum_list (map getWorth (carried slots))"

text \<open>Reference: the worth of a tree of items, by structural recursion.\<close>

fun tree_worth :: "thing \<Rightarrow> nat" where
  "tree_worth (Plain s) = getWorth s"
| "tree_worth (Box c) = sum_list (map tree_worth c)"

lemma walk_worth:
  "sum_list (map getWorth (walk q)) = sum_list (map (\<lambda>c. sum_list (map tree_worth c)) q)"
proof (induction q rule: walk.induct)
  case (2 c q)
  have "sum_list (map getWorth (plain_items c)) + sum_list (map (\<lambda>c. sum_list (map tree_worth c)) (sub_containers c))
      = sum_list (map tree_worth c)"
    by (induction c rule: sub_containers.induct) auto
  then show ?case using 2 by simp
qed simp

section \<open>Creating coins\<close>

text \<open>The loop of addMoney that splits crystal coins into stacks of at most one hundred.\<close>

function crystal_stacks :: "nat \<Rightarrow> (nat \<times> nat) list" where
  "crystal_stacks n = (if n = 0 then [] else
     (ITEM_CRYSTAL_COIN, min 100 n) # crystal_stacks (n - min 100 n))"
  by auto
termination by (relation "measure id") auto

declare crystal_stacks.simps [simp del]

definition addMoney :: "nat \<Rightarrow> (nat \<times> nat) list" where
  "addMoney money0 = (if money0 = 0 then [] else
     (let crystalCoins = (money0 div 10000) mod 2 ^ 32;
          money1 = money0 - (crystalCoins * 10000) mod 2 ^ 32;
          platinumCoins = (money1 div 100) mod 2 ^ 16;
          money2 = (if platinumCoins \<noteq> 0 then money1 - platinumCoins * 100 else money1)
      in crystal_stacks crystalCoins
         @ (if platinumCoins \<noteq> 0 then [(ITEM_PLATINUM_COIN, platinumCoins)] else [])
         @ (if money2 \<noteq> 0 then [(ITEM_GOLD_COIN, money2 mod 2 ^ 16)] else [])))"

definition created_worth :: "(nat \<times> nat) list \<Rightarrow> nat" where
  "created_worth cs = sum_list (map (\<lambda>(i, n). getWorth \<lparr>stack_uid = 0, stack_id = i, stack_count = n\<rparr>) cs)"

lemma created_worth_append [simp]: "created_worth (xs @ ys) = created_worth xs + created_worth ys"
  by (simp add: created_worth_def)

lemma crystal_stacks_0 [simp]: "crystal_stacks 0 = []"
  by (subst crystal_stacks.simps) simp

lemma created_worth_crystal: "created_worth (crystal_stacks n) = n * 10000"
proof (induction n rule: crystal_stacks.induct)
  case (1 n)
  then show ?case
    by (cases "n = 0") (auto simp: crystal_stacks.simps [of n] created_worth_def getWorth_def coin_ids
        min_def algebra_simps)
qed

lemma crystal_stacks_counts: "(i, n) \<in> set (crystal_stacks m) \<Longrightarrow> 0 < n \<and> n \<le> 100"
proof (induction m rule: crystal_stacks.induct)
  case (1 m)
  then show ?case
    by (cases "m = 0") (auto simp: crystal_stacks.simps [of m])
qed

lemma addMoney_stacks:
  assumes "money < 2 ^ 32"
  shows "created_worth (addMoney money) = money \<and> (\<forall>(i, n) \<in> set (addMoney money). 0 < n \<and> n \<le> 100)"
proof -
  let ?r = "money mod 10000"
  have c: "(money div 10000) mod 2 ^ 32 = money div 10000"
    using assms by (intro mod_less) (rule le_less_trans [OF div_le_dividend])
  have "money div 10000 * 10000 \<le> money" by simp
  then have p: "(money div 10000 * 10000) mod 2 ^ 32 = money div 10000 * 10000"
    using assms by (intro mod_less) (rule le_less_trans)
  have r: "money - money div 10000 * 10000 = ?r" by (simp add: minus_div_mult_eq_mod)
  have q: "(?r div 100) mod 2 ^ 16 = ?r div 100" by (rule mod_less) simp
  have g: "(if ?r div 100 \<noteq> 0 then ?r - ?r div 100 * 100 else ?r) = ?r mod 100"
    by (simp add: minus_div_mult_eq_mod)
  have h: "(?r mod 100) mod 2 ^ 16 = ?r mod 100" by (rule mod_less) simp
  have eq: "addMoney money = crystal_stacks (money div 10000)
       @ (if ?r div 100 \<noteq> 0 then [(ITEM_PLATINUM_COIN, ?r div 100)] else [])
       @ (if ?r mod 100 \<noteq> 0 then [(ITEM_GOLD_COIN, ?r mod 100)] else [])"
  proof (cases "money = 0")
    case True
    then show ?thesis by (simp add: addMoney_def)
  next
    case False
    then show ?thesis unfolding addMoney_def Let_def c p r q g h by (simp only: if_False)
  qed
  have "created_worth (if n \<noteq> 0 then [(ITEM_PLATINUM_COIN, n)] else []) = n * 100"
    "created_worth (if n \<noteq> 0 then [(ITEM_GOLD_COIN, n)] else []) = n" for n
    by (simp_all add: created_worth_def getWorth_def coin_ids)
  then have "created_worth (addMoney money) = money div 10000 * 10000 + (?r div 100 * 100 + ?r mod 100)"
    unfolding eq created_worth_append created_worth_crystal by (simp only:)
  then have "created_worth (addMoney money) = money" by (simp only: div_mult_mod_eq)
  moreover have "0 < n \<and> n \<le> 100" if "(i, n) \<in> set (addMoney money)" for i n
  proof -
    have "?r div 100 < 100" "?r mod 100 < 100" by (simp_all add: less_mult_imp_div_less)
    then show ?thesis using that crystal_stacks_counts [of i n] unfolding eq by (auto split: if_splits)
  qed
  ultimately show ?thesis by auto
qed

lemma created_worth_addMoney: "money < 2 ^ 32 \<Longrightarrow> created_worth (addMoney money) = money"
  using addMoney_stacks by blast

text \<open>
  Below 2^32 gold addMoney is exact: the coins it creates are worth the amount asked for, and
  every stack holds between one and a hundred coins.
\<close>
theorem addMoney_exact:
  assumes "money < 2 ^ 32"
  shows "created_worth (addMoney money) = money \<and> (\<forall>(i, n) \<in> set (addMoney money). 0 < n \<and> n \<le> 100)"
  using assms by (rule addMoney_stacks)

theorem addMoney_exact_witness:
  "(1234567 :: nat) < 2 ^ 32 \<and> created_worth (addMoney 1234567) = 1234567"
  using addMoney_exact [of 1234567] by simp

text \<open>
  Above that the 32-bit product of addMoney wraps and money is created from nothing: asked for
  4294970000 gold it creates coins worth 4297329296, among them one stack of 23592 platinum coins.
\<close>
theorem addMoney_overflow:
  "created_worth (addMoney 4294970000) = 4297329296
   \<and> (ITEM_PLATINUM_COIN, 23592) \<in> set (addMoney 4294970000)"
proof -
  have "addMoney 4294970000 = crystal_stacks 429497
      @ [(ITEM_PLATINUM_COIN, 23592)] @ [(ITEM_GOLD_COIN, 96)]"
    by (simp add: addMoney_def)
  then show ?thesis
    by (simp add: created_worth_crystal) (simp add: created_worth_def getWorth_def coin_ids)
qed

section \<open>Taking coins\<close>

text \<open>
  The loop over the multimap, which is ordered by worth and keeps insertion order among equals.
  \<^verbatim>\<open>Paid\<close> is the early return with the internalRemoveItem calls (stack and count) and the amount given
  to addMoney as change; \<^verbatim>\<open>Short\<close> is the end of the loop with the amount still owed.  The floating
  point \<^verbatim>\<open>ceil(money / worth)\<close> is the integer one: both numbers are below 2^32.
\<close>

datatype payment = Paid "(nat \<times> nat) list" nat | Short "(nat \<times> nat) list" nat

fun pay_stacks :: "(nat \<times> stack) list \<Rightarrow> nat \<Rightarrow> (nat \<times> nat) list \<Rightarrow> payment" where
  "pay_stacks [] money removed = Short removed money"
| "pay_stacks ((w, item) # es) money removed =
     (if w < money then pay_stacks es (money - w) (removed @ [(stack_uid item, stack_count item)])
      else if w > money then
        (let worth = w div stack_count item; removeCount = (money + worth - 1) div worth
         in Paid (removed @ [(stack_uid item, removeCount)]) (worth * removeCount - money))
      else Paid (removed @ [(stack_uid item, stack_count item)]) 0)"

definition moneyMap :: "thing list \<Rightarrow> (nat \<times> stack) list" where
  "moneyMap slots = sort_key fst (map (\<lambda>s. (getWorth s, s)) (filter (\<lambda>s. getWorth s \<noteq> 0) (carried slots)))"

text \<open>
  The result: whether it succeeded, the internalRemoveItem calls, the amount of change, and the bank
  balance of the paying player.  \<^verbatim>\<open>balance\<close> is None when the balance may not be used or the cylinder is
  not a player.
\<close>

definition removeMoney ::
  "thing list \<Rightarrow> nat \<Rightarrow> nat option \<Rightarrow> bool \<times> (nat \<times> nat) list \<times> nat \<times> nat option" where
  "removeMoney slots money balance = (if money = 0 then (True, [], 0, balance) else
     (let moneyCount = getMoney slots; b = (case balance of None \<Rightarrow> 0 | Some n \<Rightarrow> n)
      in if (moneyCount + b) mod 2 ^ 64 < money then (False, [], 0, balance)
         else (case pay_stacks (moneyMap slots) money [] of
             Paid removed change \<Rightarrow> (True, removed, change, balance)
           | Short removed rest \<Rightarrow> (True, removed, 0,
               (case balance of None \<Rightarrow> None | Some n \<Rightarrow> if n \<ge> rest then Some (n - rest) else Some n)))))"

text \<open>What a list of removals is worth, given the stacks it refers to.\<close>

definition removed_worth :: "stack list \<Rightarrow> (nat \<times> nat) list \<Rightarrow> nat" where
  "removed_worth items removed = sum_list (map (\<lambda>(u, n).
     (case find (\<lambda>s. stack_uid s = u) items of None \<Rightarrow> 0 | Some s \<Rightarrow> getWorth (s\<lparr>stack_count := n\<rparr>))) removed)"

definition removals_ok :: "stack list \<Rightarrow> (nat \<times> nat) list \<Rightarrow> bool" where
  "removals_ok items removed \<longleftrightarrow> distinct (map fst removed) \<and>
     (\<forall>(u, n) \<in> set removed. 0 < n \<and> (\<exists>s \<in> set items. stack_uid s = u \<and> n \<le> stack_count s))"

lemma getWorth_count: "getWorth (s\<lparr>stack_count := n\<rparr>) * stack_count s = n * getWorth s"
  by (simp add: getWorth_def)

lemma getWorth_unit:
  assumes "getWorth s \<noteq> 0"
  shows "getWorth s div stack_count s \<noteq> 0"
    "getWorth (s\<lparr>stack_count := n\<rparr>) = getWorth s div stack_count s * n"
  using assms by (auto simp: getWorth_def coin_ids split: if_splits)

lemma find_uid:
  assumes "distinct (map stack_uid items)" "s \<in> set items"
  shows "find (\<lambda>x. stack_uid x = stack_uid s) items = Some s"
  using assms by (induction items) auto

lemma ceil_div_bounds:
  fixes m w :: nat
  assumes "0 < w"
  shows "m \<le> w * ((m + w - 1) div w)" "w * ((m + w - 1) div w) < m + w"
proof -
  have "(m + w - 1) mod w < w" using assms by simp
  moreover have "w * ((m + w - 1) div w) + (m + w - 1) mod w = m + w - 1" by simp
  ultimately show "m \<le> w * ((m + w - 1) div w)" "w * ((m + w - 1) div w) < m + w"
    using assms by linarith+
qed

text \<open>
  The loop invariant: the entries already taken are removed completely, and what they are worth and
  what is still owed make up the amount asked for.
\<close>

lemma pay_stacks_exact:
  assumes "distinct (map stack_uid items)"
    "\<forall>(w, s) \<in> set es. s \<in> set items \<and> w = getWorth s \<and> w \<noteq> 0"
    "distinct (map (stack_uid \<circ> snd) es)" "set (map fst removed) \<inter> set (map (stack_uid \<circ> snd) es) = {}"
    "removals_ok items removed" "0 < money"
  shows "case pay_stacks es money removed of
      Paid rs change \<Rightarrow> removals_ok items rs \<and> removed_worth items rs = removed_worth items removed + money + change
    | Short rs rest \<Rightarrow> removals_ok items rs \<and> 0 < rest
        \<and> removed_worth items rs = removed_worth items removed + sum_list (map fst es)
        \<and> money = rest + sum_list (map fst es)"
  using assms(2-)
proof (induction es money removed rule: pay_stacks.induct)
  case (2 w item es money removed)
  have item: "item \<in> set items" "w = getWorth item" "w \<noteq> 0" using "2.prems"(1) by auto
  have cnt: "0 < stack_count item" using item by (auto simp: getWorth_def split: if_splits)
  have fnd: "find (\<lambda>x. stack_uid x = stack_uid item) items = Some item"
    using find_uid [OF assms(1) item(1)] .
  have worth: "removed_worth items (removed @ [(stack_uid item, n)]) =
      removed_worth items removed + getWorth item div stack_count item * n" for n
    using fnd getWorth_unit(2) [of item n] item by (simp add: removed_worth_def)
  have full: "getWorth item div stack_count item * stack_count item = getWorth item"
    using getWorth_unit(2) [of item "stack_count item"] item by simp
  have ok: "removals_ok items (removed @ [(stack_uid item, n)])" if "0 < n" "n \<le> stack_count item" for n
    using "2.prems"(3,4) item that by (auto simp: removals_ok_def)
  consider "w < money" | "w > money" | "w = money" by linarith
  then show ?case
  proof cases
    case 1
    have "case pay_stacks es (money - w) (removed @ [(stack_uid item, stack_count item)]) of
        Paid rs change \<Rightarrow> removals_ok items rs \<and> removed_worth items rs =
          removed_worth items (removed @ [(stack_uid item, stack_count item)]) + (money - w) + change
      | Short rs rest \<Rightarrow> removals_ok items rs \<and> 0 < rest
          \<and> removed_worth items rs = removed_worth items (removed @ [(stack_uid item, stack_count item)])
              + sum_list (map fst es)
          \<and> money - w = rest + sum_list (map fst es)"
      using "2.prems" 1 ok [OF cnt order_refl] by (intro "2.IH") auto
    then show ?thesis using 1 worth [of "stack_count item"] full item(2)
      by (auto split: payment.splits)
  next
    case 2
    let ?u = "w div stack_count item"
    let ?n = "(money + ?u - 1) div ?u"
    have u: "0 < ?u" using getWorth_unit(1) item by simp
    have n: "money \<le> ?u * ?n" "?u * ?n < money + ?u" using ceil_div_bounds [OF u] by auto
    have "0 < ?n" using n(1) "2.prems"(5) by (cases "?n = 0") auto
    moreover have "?n \<le> stack_count item"
    proof (rule ccontr)
      assume "\<not> ?n \<le> stack_count item"
      then have "?u * Suc (stack_count item) \<le> ?u * ?n" by (intro mult_le_mono) auto
      then show False using n(2) full item(2) 2 by simp
    qed
    ultimately show ?thesis using 2 n(1) worth [of ?n] ok [of ?n] item(2) by (simp add: Let_def)
  next
    case 3
    then show ?thesis using worth [of "stack_count item"] full item(2) ok [OF cnt order_refl] by simp
  qed
qed simp

definition balance_of :: "nat option \<Rightarrow> nat" where
  "balance_of balance = (case balance of None \<Rightarrow> 0 | Some n \<Rightarrow> n)"

lemma moneyMap_set:
  "(w, s) \<in> set (moneyMap slots) \<Longrightarrow> s \<in> set (carried slots) \<and> w = getWorth s \<and> w \<noteq> 0"
  by (auto simp: moneyMap_def)

lemma moneyMap_sum: "sum_list (map fst (moneyMap slots)) = getMoney slots"
proof -
  have "mset (map fst (moneyMap slots)) = mset (map getWorth (filter (\<lambda>s. getWorth s \<noteq> 0) (carried slots)))"
    by (simp add: moneyMap_def image_mset.compositionality comp_def)
  then have "sum_list (map fst (moneyMap slots)) = sum_list (map getWorth (filter (\<lambda>s. getWorth s \<noteq> 0) (carried slots)))"
    by (metis sum_mset_sum_list)
  also have "\<dots> = getMoney slots"
    unfolding getMoney_def by (rule sum_list_map_filter) simp
  finally show ?thesis .
qed

lemma moneyMap_distinct:
  assumes "distinct (map stack_uid (carried slots))"
  shows "distinct (map (stack_uid \<circ> snd) (moneyMap slots))"
proof -
  have "mset (map (stack_uid \<circ> snd) (moneyMap slots)) =
      mset (map stack_uid (filter (\<lambda>s. getWorth s \<noteq> 0) (carried slots)))"
    by (simp add: moneyMap_def image_mset.compositionality comp_def)
  moreover have "distinct (map stack_uid (filter (\<lambda>s. getWorth s \<noteq> 0) (carried slots)))"
    using assms by (rule distinct_map_filter)
  ultimately show ?thesis using mset_eq_imp_distinct_iff by blast
qed

lemma removeMoney_spec:
  assumes "distinct (map stack_uid (carried slots))"
    and "sum_list (map tree_worth slots) + balance_of balance < 2 ^ 64"
  shows "case removeMoney slots money balance of (ok, removed, change, balance') \<Rightarrow>
    ok = (money \<le> sum_list (map tree_worth slots) + balance_of balance)
    \<and> removals_ok (carried slots) removed
    \<and> (if ok then removed_worth (carried slots) removed + balance_of balance = money + change + balance_of balance'
       else removed = [] \<and> change = 0 \<and> balance' = balance)"
proof -
  have tree: "sum_list (map tree_worth slots) = getMoney slots"
    using walk_worth [of "[slots]"] by (simp add: getMoney_def carried_def)
  have ok0: "removals_ok (carried slots) []" "removed_worth (carried slots) [] = 0"
    by (simp_all add: removals_ok_def removed_worth_def)
  have total: "(getMoney slots + balance_of balance) mod 2 ^ 64 = getMoney slots + balance_of balance"
    using assms(2) tree by (intro mod_less) simp
  have pay: "case pay_stacks (moneyMap slots) money [] of
      Paid rs change \<Rightarrow> removals_ok (carried slots) rs \<and> removed_worth (carried slots) rs = money + change
    | Short rs rest \<Rightarrow> removals_ok (carried slots) rs \<and> 0 < rest
        \<and> removed_worth (carried slots) rs = getMoney slots \<and> money = rest + getMoney slots" if "0 < money"
    using pay_stacks_exact [OF assms(1), of "moneyMap slots" "[]" money] moneyMap_set [of _ _ slots]
      moneyMap_distinct [OF assms(1)] ok0 that
    by (force simp: moneyMap_sum split: payment.splits)
  show ?thesis
  proof (cases "money = 0 \<or> getMoney slots + balance_of balance < money")
    case True
    then show ?thesis using ok0 total tree
      by (auto simp: removeMoney_def balance_of_def [symmetric])
  next
    case False
    then have "0 < money" by simp
    from pay [OF this] False show ?thesis using total tree
      by (auto simp: removeMoney_def Let_def balance_of_def [symmetric] split: payment.splits)
        (auto simp: balance_of_def split: option.splits if_splits)
  qed
qed

text \<open>
  C25. A payment is exact.  removeMoney succeeds exactly when the coins carried, at any depth of the
  containers, and the usable balance cover the price; then the coins it removes and the balance it
  takes are worth the price and the change it hands back, and no stack is asked for more coins than
  it has; when it fails it touches nothing.
\<close>
theorem removeMoney_exact:
  assumes "distinct (map stack_uid (carried slots))"
    and "sum_list (map tree_worth slots) + balance_of balance < 2 ^ 64"
  shows "case removeMoney slots money balance of (ok, removed, change, balance') \<Rightarrow>
    ok = (money \<le> sum_list (map tree_worth slots) + balance_of balance)
    \<and> removals_ok (carried slots) removed
    \<and> (if ok then removed_worth (carried slots) removed + balance_of balance = money + change + balance_of balance'
       else removed = [] \<and> change = 0 \<and> balance' = balance)"
  using assms by (rule removeMoney_spec)

theorem removeMoney_exact_witness:
  "let slots = [Plain \<lparr>stack_uid = 1, stack_id = 3031, stack_count = 40\<rparr>,
        Box [Plain \<lparr>stack_uid = 2, stack_id = 3035, stack_count = 5\<rparr>, Box []]]
   in removeMoney slots 270 None = (True, [(1, 40), (2, 3)], 70, None)
     \<and> removed_worth (carried slots) [(1, 40), (2, 3)] = 270 + 70"
proof -
  define slots where "slots = [Plain \<lparr>stack_uid = 1, stack_id = 3031, stack_count = 40\<rparr>,
        Box [Plain \<lparr>stack_uid = 2, stack_id = 3035, stack_count = 5\<rparr>, Box []]]"
  have c: "carried slots = [\<lparr>stack_uid = 1, stack_id = 3031, stack_count = 40\<rparr>,
      \<lparr>stack_uid = 2, stack_id = 3035, stack_count = 5\<rparr>]"
    by (simp add: carried_def slots_def)
  then have run: "removeMoney slots 270 None = (True, [(1, 40), (2, 3)], 70, None)"
    by (simp add: removeMoney_def moneyMap_def getMoney_def getWorth_def coin_ids Let_def)
  have "sum_list (map tree_worth slots) + balance_of None < 2 ^ 64"
    by (simp add: slots_def getWorth_def coin_ids balance_of_def)
  from removeMoney_exact [OF _ this, of 270] run c
  show ?thesis unfolding slots_def [symmetric] by (simp add: Let_def)
qed

end
