(* ===== verification/Bank.thy ===== *)
theory Bank
  imports Guild Money
begin

text \<open>
  The bank (\<^verbatim>\<open>game/bank/bank.cpp\<close>): accounts of players and guilds behind the Bankable interface, credit
  and debit on 64-bit balances, transfers, withdrawals and deposits.  Accounts live in a store
  addressed by identity, so that a transfer from an account to itself and two Bank objects on the same
  account are the cases the code has.  A call that follows a null pointer ends in \<^verbatim>\<open>Crash\<close>, with the
  state it has reached.
\<close>

record player_account =
  player_name :: string
  player_town :: "u32 option"
  player_bankBalance :: u64
  player_online :: bool

datatype bankable = PlayerAccount player_account | GuildAccount guild

type_synonym accounts = "nat \<Rightarrow> bankable option"
type_synonym bank = "nat option"

datatype outcome = Done bool accounts | Crash accounts

locale bankable_account =
  fixes get_balance :: "'a \<Rightarrow> u64" and set_balance :: "u64 \<Rightarrow> 'a \<Rightarrow> 'a"
  assumes get_set: "get_balance (set_balance n a) = n"
    and set_set: "set_balance n (set_balance m a) = set_balance n a"
    and set_get: "set_balance (get_balance a) a = a"
begin

lemma debit_credit_same: "set_balance (get_balance (set_balance (get_balance a - n) a) + n)
    (set_balance (get_balance a - n) a) = a"
  by (simp add: get_set set_set set_get)

end

interpretation player_bankable: bankable_account player_bankBalance "\<lambda>n. player_bankBalance_update (\<lambda>_. n)"
  by unfold_locales simp_all

interpretation guild_bankable: bankable_account guild_bankBalance "\<lambda>n. guild_bankBalance_update (\<lambda>_. n)"
  by unfold_locales simp_all

definition getBankBalance :: "bankable \<Rightarrow> u64" where
  "getBankBalance a = (case a of PlayerAccount p \<Rightarrow> player_bankBalance p | GuildAccount g \<Rightarrow> guild_bankBalance g)"

definition setBankBalance :: "u64 \<Rightarrow> bankable \<Rightarrow> bankable" where
  "setBankBalance n a = (case a of
      PlayerAccount p \<Rightarrow> PlayerAccount (p\<lparr>player_bankBalance := n\<rparr>)
    | GuildAccount g \<Rightarrow> GuildAccount (g\<lparr>guild_bankBalance := n\<rparr>))"

interpretation any_bankable: bankable_account getBankBalance setBankBalance
  by unfold_locales (simp_all add: getBankBalance_def setBankBalance_def split: bankable.splits)

definition getPlayer :: "bankable \<Rightarrow> player_account option" where
  "getPlayer a = (case a of PlayerAccount p \<Rightarrow> Some p | GuildAccount g \<Rightarrow> None)"

definition getBankable :: "bank \<Rightarrow> accounts \<Rightarrow> (nat \<times> bankable) option" where
  "getBankable b s = (case b of None \<Rightarrow> None | Some i \<Rightarrow> map_option (Pair i) (s i))"

definition balance :: "bank \<Rightarrow> accounts \<Rightarrow> u64" where
  "balance b s = (case getBankable b s of None \<Rightarrow> 0 | Some (i, a) \<Rightarrow> getBankBalance a)"

definition set_account_balance :: "bank \<Rightarrow> u64 \<Rightarrow> accounts \<Rightarrow> bool \<times> accounts" where
  "set_account_balance b amount s = (case getBankable b s of
      None \<Rightarrow> (False, s)
    | Some (i, a) \<Rightarrow> (True, s(i \<mapsto> setBankBalance amount a)))"

definition hasBalance :: "bank \<Rightarrow> u64 \<Rightarrow> accounts \<Rightarrow> bool" where
  "hasBalance b amount s = (balance b s \<ge> amount)"

definition credit :: "bank \<Rightarrow> u64 \<Rightarrow> accounts \<Rightarrow> bool \<times> accounts" where
  "credit b amount s = set_account_balance b (balance b s + amount) s"

definition debit :: "bank \<Rightarrow> u64 \<Rightarrow> accounts \<Rightarrow> bool \<times> accounts" where
  "debit b amount s = (if \<not> hasBalance b amount s then (False, s)
     else set_account_balance b (balance b s - amount) s)"

definition deniedNames :: "string list" where
  "deniedNames = [''accountmanager'', ''rooksample'', ''druidsample'', ''sorcerersample'',
     ''knightsample'', ''paladinsample'']"

definition minTownId :: u32 where
  "minTownId = 3"

definition lower_char :: "char \<Rightarrow> char" where
  "lower_char c = (if 65 \<le> (of_char c :: nat) \<and> (of_char c :: nat) \<le> 90 then char_of (of_char c + (32 :: nat)) else c)"

definition denied_name :: "string \<Rightarrow> bool" where
  "denied_name n = (filter (\<lambda>c. c \<noteq> CHR '' '') (map lower_char n) \<in> set deniedNames)"

datatype receiver_check = Allowed | Denied | NoTown

definition check_receiver :: "bankable \<Rightarrow> receiver_check" where
  "check_receiver a = (case getPlayer a of
      None \<Rightarrow> Allowed
    | Some p \<Rightarrow> if denied_name (player_name p) then Denied
        else (case player_town p of
            None \<Rightarrow> NoTown
          | Some town \<Rightarrow> if town < minTownId then Denied else Allowed))"

definition transferTo :: "bank \<Rightarrow> bank option \<Rightarrow> u64 \<Rightarrow> accounts \<Rightarrow> outcome" where
  "transferTo b destination amount s = (case destination of
      None \<Rightarrow> Done False s
    | Some d \<Rightarrow> (case (getBankable b s, getBankable d s) of
        (Some _, Some (j, target)) \<Rightarrow> (case check_receiver target of
            Denied \<Rightarrow> Done False s
          | NoTown \<Rightarrow> Crash s
          | Allowed \<Rightarrow> (case debit b amount s of
              (False, s1) \<Rightarrow> Done False s1
            | (True, s1) \<Rightarrow> (case credit d amount s1 of
                (False, s2) \<Rightarrow> Done False s2
              | (True, s2) \<Rightarrow>
                  (case (map_option (getPlayer \<circ> snd) (getBankable d s2), map_option (getPlayer \<circ> snd) (getBankable b s2)) of
                     (Some (Some _), Some (Some _)) \<Rightarrow> Done True s2
                   | _ \<Rightarrow> Crash s2))))
      | _ \<Rightarrow> Done False s))"

text \<open>
  Withdrawals return the coins addMoney creates for the player.  Deposits take coins with removeMoney
  from the things the depositor carries; the balance of the player is not used for them.  A guild has
  no player, so removeMoney is called with a null cylinder and fails.
\<close>

definition withdraw :: "bank \<Rightarrow> u64 \<Rightarrow> accounts \<Rightarrow> bool \<times> accounts \<times> (nat \<times> nat) list" where
  "withdraw b amount s = (case debit b amount s of
      (False, s1) \<Rightarrow> (False, s1, [])
    | (True, s1) \<Rightarrow> (True, s1, addMoney (unat amount)))"

definition deposit_amount ::
  "bank \<Rightarrow> bank option \<Rightarrow> u64 \<Rightarrow> thing list \<Rightarrow> accounts \<Rightarrow> bool \<times> accounts \<times> (nat \<times> nat) list \<times> nat" where
  "deposit_amount b destination amount slots s = (case destination of
      None \<Rightarrow> (False, s, [], 0)
    | Some d \<Rightarrow> (case getBankable b s of
        None \<Rightarrow> (False, s, [], 0)
      | Some (i, a) \<Rightarrow> (case getPlayer a of
          None \<Rightarrow> (False, s, [], 0)
        | Some p \<Rightarrow> (case removeMoney slots (unat amount) None of
            (False, removed, change, _) \<Rightarrow> (False, s, removed, change)
          | (True, removed, change, _) \<Rightarrow> (case credit d amount s of (ok, s') \<Rightarrow> (ok, s', removed, change))))))"

definition deposit_all ::
  "bank \<Rightarrow> bank option \<Rightarrow> thing list \<Rightarrow> accounts \<Rightarrow> bool \<times> accounts \<times> (nat \<times> nat) list \<times> nat" where
  "deposit_all b destination slots s = (case getBankable b s of
      None \<Rightarrow> (False, s, [], 0)
    | Some (i, a) \<Rightarrow> (case getPlayer a of
        None \<Rightarrow> (False, s, [], 0)
      | Some p \<Rightarrow> deposit_amount b destination (word_of_nat (getMoney slots)) slots s))"

datatype save_call = SavePlayer nat | SaveGuild nat

definition destroy_bank :: "bank \<Rightarrow> accounts \<Rightarrow> save_call list" where
  "destroy_bank b s = (case getBankable b s of
      None \<Rightarrow> []
    | Some (i, PlayerAccount p) \<Rightarrow> (if player_online p then [] else [SavePlayer i])
    | Some (i, GuildAccount g) \<Rightarrow> (if guild_online g then [] else [SaveGuild i]))"

section \<open>Correctness\<close>

fun outcome_state :: "outcome \<Rightarrow> accounts" where
  "outcome_state (Done ok s) = s"
| "outcome_state (Crash s) = s"

lemmas account_simps = getBankable_def balance_def set_account_balance_def any_bankable.get_set
  any_bankable.set_set any_bankable.set_get

lemma getPlayer_set [simp]: "(getPlayer (setBankBalance n a) = None) = (getPlayer a = None)"
  by (simp add: getPlayer_def setBankBalance_def split: bankable.splits)

lemma debit_account:
  assumes "s i = Some a"
  shows "debit (Some i) amount s = (if amount \<le> getBankBalance a
      then (True, s(i \<mapsto> setBankBalance (getBankBalance a - amount) a)) else (False, s))"
  using assms by (simp add: debit_def hasBalance_def account_simps not_le)

lemma credit_account:
  assumes "s i = Some a"
  shows "credit (Some i) amount s = (True, s(i \<mapsto> setBankBalance (getBankBalance a + amount) a))"
  using assms by (simp add: credit_def account_simps)

definition moved :: "nat \<Rightarrow> bankable \<Rightarrow> nat \<Rightarrow> bankable \<Rightarrow> u64 \<Rightarrow> accounts \<Rightarrow> accounts" where
  "moved i a j b amount s = (if i = j then s else
     s(i \<mapsto> setBankBalance (getBankBalance a - amount) a, j \<mapsto> setBankBalance (getBankBalance b + amount) b))"

lemma debit_then_credit:
  assumes "s i = Some a" "s j = Some b" "amount \<le> getBankBalance a"
  shows "credit (Some j) amount (snd (debit (Some i) amount s)) = (True, moved i a j b amount s)"
proof (cases "i = j")
  case True
  then show ?thesis
    using assms any_bankable.debit_credit_same [of a amount]
    by (simp add: debit_account credit_account moved_def fun_upd_idem)
next
  case False
  then show ?thesis using assms by (simp add: debit_account credit_account moved_def)
qed

lemma moved_players:
  assumes "s i = Some a" "s j = Some b"
  shows "map_option (\<lambda>x. getPlayer x = None) (moved i a j b amount s i) = Some (getPlayer a = None)"
    "map_option (\<lambda>x. getPlayer x = None) (moved i a j b amount s j) = Some (getPlayer b = None)"
  using assms by (auto simp: moved_def)

lemma transferTo_cases:
  assumes "s i = Some a" "s j = Some b"
  shows "transferTo (Some i) (Some (Some j)) amount s = (case check_receiver b of
      Denied \<Rightarrow> Done False s
    | NoTown \<Rightarrow> Crash s
    | Allowed \<Rightarrow> if getBankBalance a < amount then Done False s
        else if getPlayer a \<noteq> None \<and> getPlayer b \<noteq> None then Done True (moved i a j b amount s)
        else Crash (moved i a j b amount s))"
proof (cases "check_receiver b = Allowed \<and> amount \<le> getBankBalance a")
  case True
  obtain s1 where d: "debit (Some i) amount s = (True, s1)" using True assms by (simp add: debit_account)
  have c: "credit (Some j) amount s1 = (True, moved i a j b amount s)"
    using debit_then_credit [OF assms, of amount] True d by simp
  obtain x y where xy: "moved i a j b amount s i = Some x" "moved i a j b amount s j = Some y"
    "(getPlayer x = None) = (getPlayer a = None)" "(getPlayer y = None) = (getPlayer b = None)"
    using moved_players [OF assms, of amount] by (auto simp: map_option_eq_Some)
  then show ?thesis using True assms d c
    by (auto simp: transferTo_def getBankable_def not_less split: option.splits)
next
  case False
  then show ?thesis using assms
    by (auto simp: transferTo_def getBankable_def debit_account not_le split: receiver_check.splits)
qed


definition ada :: "u64 \<Rightarrow> bankable" where
  "ada n = PlayerAccount \<lparr>player_name = ''Ada'', player_town = Some 5, player_bankBalance = n, player_online = True\<rparr>"

definition bob :: "u64 \<Rightarrow> bankable" where
  "bob n = PlayerAccount \<lparr>player_name = ''Bob'', player_town = Some 4, player_bankBalance = n, player_online = False\<rparr>"


text \<open>
  C23. Transfers conserve money: whatever happens, the total of all balances is the same after the
  call as before it, and only the two accounts named can change, as long as the receiving balance
  does not exceed 64 bits.
\<close>
theorem transfer_conserves_money:
  assumes "finite A" "i \<in> A" "j \<in> A" "s i = Some a" "s j = Some b"
    and "unat (getBankBalance b) + unat amount < 2 ^ 64"
  shows "(\<Sum>k\<in>A. unat (balance (Some k) (outcome_state (transferTo (Some i) (Some (Some j)) amount s))))
      = (\<Sum>k\<in>A. unat (balance (Some k) s))
    \<and> (\<forall>k. k \<noteq> i \<and> k \<noteq> j \<longrightarrow> outcome_state (transferTo (Some i) (Some (Some j)) amount s) k = s k)"
proof (cases "outcome_state (transferTo (Some i) (Some (Some j)) amount s) = s")
  case False
  let ?s = "moved i a j b amount s"
  have res: "outcome_state (transferTo (Some i) (Some (Some j)) amount s) = ?s"
    "i \<noteq> j" "amount \<le> getBankBalance a"
    using False transferTo_cases [OF assms(4,5), of amount]
    by (auto simp: moved_def not_less split: receiver_check.splits if_splits)
  have "unat (balance (Some i) ?s) + unat (balance (Some j) ?s)
      = unat (balance (Some i) s) + unat (balance (Some j) s)"
    using res(2,3) assms(4-6)
    by (simp add: moved_def account_simps unat_sub unat_word_ariths word_le_nat_alt)
  moreover have "balance (Some k) ?s = balance (Some k) s" if "k \<in> A - {i} - {j}" for k
    using that by (simp add: moved_def account_simps)
  moreover have "(\<Sum>k\<in>A. f k) = f i + (f j + (\<Sum>k\<in>A - {i} - {j}. f k))" for f :: "nat \<Rightarrow> nat"
    using assms(1-3) res(2) by (simp add: sum.remove [of A i] sum.remove [of "A - {i}" j])
  ultimately show ?thesis unfolding res(1) by (simp add: moved_def)
qed simp

theorem transfer_conserves_money_witness:
  "(\<Sum>k\<in>{1, 2}. unat (balance (Some k) (outcome_state
       (transferTo (Some 1) (Some (Some 2)) 60 [1 \<mapsto> ada 90, 2 \<mapsto> bob 7]))))
     = (\<Sum>k\<in>{1, 2}. unat (balance (Some k) [1 \<mapsto> ada 90, 2 \<mapsto> bob 7]))"
  using transfer_conserves_money [of "{1, 2}" 1 2 "[1 \<mapsto> ada 90, 2 \<mapsto> bob 7]" "ada 90" "bob 7" 60]
  by (simp add: ada_def bob_def getBankBalance_def)

text \<open>
  Cash and bank agree: a withdrawal below 2^32 gold hands out coins worth exactly what leaves
  the balance, and does nothing when the balance is too small; a deposit credits exactly the worth
  of the coins taken from the depositor less the change, and does nothing when the depositor carries
  too little.
\<close>
theorem cash_and_bank_agree:
  assumes "s i = Some a" "getPlayer a \<noteq> None" "unat amount < 2 ^ 32"
    and "distinct (map stack_uid (carried slots))" "sum_list (map tree_worth slots) < 2 ^ 64"
  shows "(case withdraw (Some i) amount s of (ok, s', coins) \<Rightarrow>
      ok = (amount \<le> getBankBalance a) \<and> created_worth coins = (if ok then unat amount else 0)
      \<and> s' = (if ok then s(i \<mapsto> setBankBalance (getBankBalance a - amount) a) else s))
    \<and> (case deposit_amount (Some i) (Some (Some i)) amount slots s of (ok, s', removed, change) \<Rightarrow>
      ok = (unat amount \<le> sum_list (map tree_worth slots))
      \<and> removed_worth (carried slots) removed = (if ok then unat amount + change else 0)
      \<and> s' = (if ok then s(i \<mapsto> setBankBalance (getBankBalance a + amount) a) else s))"
proof
  show "case withdraw (Some i) amount s of (ok, s', coins) \<Rightarrow>
      ok = (amount \<le> getBankBalance a) \<and> created_worth coins = (if ok then unat amount else 0)
      \<and> s' = (if ok then s(i \<mapsto> setBankBalance (getBankBalance a - amount) a) else s)"
    using assms(1,3) created_worth_addMoney [of "unat amount"]
    by (simp add: withdraw_def debit_account) (simp add: created_worth_def)
  obtain p where p: "getPlayer a = Some p" using assms(2) by auto
  obtain ok removed change bal where r: "removeMoney slots (unat amount) None = (ok, removed, change, bal)"
    by (metis prod_cases4)
  have "bal = None" using r by (auto simp: removeMoney_def Let_def split: if_splits payment.splits)
  then show "case deposit_amount (Some i) (Some (Some i)) amount slots s of (ok, s', removed, change) \<Rightarrow>
      ok = (unat amount \<le> sum_list (map tree_worth slots))
      \<and> removed_worth (carried slots) removed = (if ok then unat amount + change else 0)
      \<and> s' = (if ok then s(i \<mapsto> setBankBalance (getBankBalance a + amount) a) else s)"
    using removeMoney_spec [OF assms(4), of None "unat amount"] assms(1,5) p r
    by (cases ok) (auto simp: deposit_amount_def getBankable_def credit_account balance_of_def removed_worth_def)
qed

theorem cash_and_bank_agree_witness:
  "\<exists>coins. withdraw (Some 1) 30 [1 \<mapsto> ada 90] = (True, [1 \<mapsto> ada 60], coins) \<and> created_worth coins = 30"
  using cash_and_bank_agree [of "[1 \<mapsto> ada 90]" 1 "ada 90" 30 "[]"]
  by (auto simp: ada_def getPlayer_def getBankBalance_def setBankBalance_def carried_def split: prod.splits)

end
