(* ===== verification/Wildcard_Tree.thy ===== *)
theory Wildcard_Tree
  imports Prelude "HOL-Library.AList" "HOL-Library.Sublist"
begin

text \<open>
  The trie that completes player names (\<^verbatim>\<open>utils/wildcardtree.cpp\<close>), used for wildcards such as
  \<^verbatim>\<open>bob~\<close>.  The children of a node are a \<^verbatim>\<open>std::map\<close>; only the single child of a node is ever taken
  by position, so the order of the association list is immaterial.  The code changes nodes in place
  through pointers into the tree; here the path is rebuilt by recursion.  Inserting the empty
  string indexes the string out of range and is None.
\<close>

datatype wtree = Node (breakpoint: bool) (children: "(char \<times> wtree) list")

datatype find_result = NotOnline | NoError string | TooAmbiguous

definition getChild :: "char \<Rightarrow> wtree \<Rightarrow> wtree option" where
  "getChild ch t = map_of (children t) ch"

definition addChild :: "char \<Rightarrow> bool \<Rightarrow> wtree \<Rightarrow> wtree" where
  "addChild ch breakp t = (case getChild ch t of
      Some child \<Rightarrow> (if breakp \<and> \<not> breakpoint child then Node True (children child) else child)
    | None \<Rightarrow> Node breakp [])"

definition put_child :: "char \<Rightarrow> wtree \<Rightarrow> wtree \<Rightarrow> wtree" where
  "put_child ch child t = Node (breakpoint t) (AList.update ch child (children t))"

fun insert_word :: "string \<Rightarrow> wtree \<Rightarrow> wtree option" where
  "insert_word [] t = None"
| "insert_word [ch] t = Some (put_child ch (addChild ch True t) t)"
| "insert_word (ch # str) t = map_option (\<lambda>child. put_child ch child t) (insert_word str (addChild ch False t))"

text \<open>None: the word's path is missing and remove returns early.\<close>

fun remove_path :: "string \<Rightarrow> wtree \<Rightarrow> wtree option" where
  "remove_path [] t = Some (Node False (children t))"
| "remove_path (ch # str) t = (case getChild ch t of
      None \<Rightarrow> None
    | Some child \<Rightarrow> (case remove_path str child of
        None \<Rightarrow> None
      | Some child' \<Rightarrow>
          if children child' \<noteq> [] \<or> breakpoint child' then Some (put_child ch child' t)
          else Some (Node (breakpoint t) (AList.delete ch (children t)))))"

definition remove_word :: "string \<Rightarrow> wtree \<Rightarrow> wtree" where
  "remove_word str t = (case remove_path str t of None \<Rightarrow> t | Some t' \<Rightarrow> t')"

fun descend :: "string \<Rightarrow> wtree \<Rightarrow> wtree option" where
  "descend [] t = Some t"
| "descend (ch # str) t = (case getChild ch t of None \<Rightarrow> None | Some child \<Rightarrow> descend str child)"

fun complete :: "wtree \<Rightarrow> string \<Rightarrow> find_result" where
  "complete (Node b []) acc = NoError acc"
| "complete (Node b [(ch, t)]) acc = (if b then TooAmbiguous else complete t (acc @ [ch]))"
| "complete (Node b (p # q # cs)) acc = TooAmbiguous"

definition findOne :: "string \<Rightarrow> wtree \<Rightarrow> find_result" where
  "findOne query t = (case descend query t of None \<Rightarrow> NotOnline | Some node \<Rightarrow> complete node query)"

section \<open>Specification: a set of words\<close>

fun member :: "wtree \<Rightarrow> string \<Rightarrow> bool" where
  "member t [] = breakpoint t"
| "member t (ch # str) = (case getChild ch t of None \<Rightarrow> False | Some child \<Rightarrow> member child str)"

definition words :: "wtree \<Rightarrow> string set" where
  "words t = {w. member t w}"

text \<open>The invariant of every node below the root: no two children for one character, no dead ends.\<close>

fun wf_tree :: "wtree \<Rightarrow> bool" where
  "wf_tree (Node b cs) = (distinct (map fst cs)
     \<and> (\<forall>(ch, t) \<in> set cs. wf_tree t \<and> (breakpoint t \<or> children t \<noteq> [])))"

lemma wf_child:
  assumes "wf_tree t" "getChild ch t = Some child"
  shows "wf_tree child" "breakpoint child \<or> children child \<noteq> []"
  using assms by (cases t; force simp: getChild_def dest: map_of_SomeD)+

lemma getChild_put [simp]: "getChild c (put_child ch child t) = (if c = ch then Some child else getChild c t)"
  by (simp add: getChild_def put_child_def update_conv)

lemma breakpoint_put [simp]: "breakpoint (put_child ch child t) = breakpoint t"
  by (simp add: put_child_def)

lemma children_put [simp]: "children (put_child ch child t) \<noteq> []"
proof -
  have "AList.update ch child cs \<noteq> []" for cs :: "(char \<times> wtree) list" by (cases cs) auto
  then show ?thesis by (simp add: put_child_def)
qed

lemma set_update_subset: "set (AList.update k v al) \<subseteq> insert (k, v) (set al)"
  by (induction al) auto

lemma wf_put:
  assumes "wf_tree t" "wf_tree child" "breakpoint child \<or> children child \<noteq> []"
  shows "wf_tree (put_child ch child t)"
proof (cases t)
  case (Node b cs)
  then show ?thesis using assms set_update_subset [of ch child cs]
    by (auto simp: put_child_def distinct_update)
qed

lemma wf_addChild: "wf_tree t \<Longrightarrow> wf_tree (addChild ch b t)"
proof -
  assume t: "wf_tree t"
  have "wf_tree (Node b' (children child)) = wf_tree child" for b' child by (cases child) simp
  then show ?thesis using wf_child(1) [OF t, of ch]
    by (auto simp: addChild_def split: option.splits)
qed

lemma member_addChild:
  "member (addChild ch b t) w = (case getChild ch t of None \<Rightarrow> w = [] \<and> b | Some c \<Rightarrow> member c w \<or> w = [] \<and> b)"
proof -
  have "member (Node x (children c)) w = (if w = [] then x else member c w)" for x c
    by (cases w) (auto simp: getChild_def)
  then show ?thesis
    by (cases w) (auto simp: addChild_def getChild_def split: option.splits)
qed

lemma insert_word_spec:
  assumes "wf_tree t" "str \<noteq> []"
  shows "\<exists>t'. insert_word str t = Some t' \<and> wf_tree t' \<and> children t' \<noteq> [] \<and> breakpoint t' = breakpoint t
    \<and> (\<forall>w. member t' w = (w = str \<or> member t w))"
  using assms
proof (induction str t rule: insert_word.induct)
  case (2 ch t)
  have "member (put_child ch (addChild ch True t) t) w = (w = [ch] \<or> member t w)" for w
    by (cases w) (auto simp: member_addChild split: option.splits)
  moreover have "wf_tree (put_child ch (addChild ch True t) t)"
    using 2 by (intro wf_put wf_addChild) (auto simp: addChild_def split: option.splits)
  ultimately show ?case by simp
next
  case (3 ch c str t)
  obtain t' where t': "insert_word (c # str) (addChild ch False t) = Some t'" "wf_tree t'" "children t' \<noteq> []"
    "\<And>w. member t' w = (w = c # str \<or> member (addChild ch False t) w)"
    using "3.IH" [OF wf_addChild [OF "3.prems"(1)]] by auto
  have "member (put_child ch t' t) w = (w = ch # c # str \<or> member t w)" for w
    by (cases w) (auto simp: t'(4) member_addChild split: option.splits)
  moreover have "wf_tree (put_child ch t' t)" using t' 3 by (intro wf_put) auto
  ultimately show ?case using t'(1) by simp
qed simp

lemma no_words: "children t = [] \<Longrightarrow> \<not> breakpoint t \<Longrightarrow> \<not> member t w"
  by (cases w) (auto simp: getChild_def)

lemma remove_path_spec:
  assumes "wf_tree t"
  shows "case remove_path str t of
      None \<Rightarrow> \<not> member t str
    | Some t' \<Rightarrow> wf_tree t' \<and> (str \<noteq> [] \<longrightarrow> breakpoint t' = breakpoint t)
        \<and> (\<forall>w. member t' w = (w \<noteq> str \<and> member t w))"
  using assms
proof (induction str t rule: remove_path.induct)
  case (1 t)
  have "member (Node False (children t)) w = (w \<noteq> [] \<and> member t w)" for w
    by (cases w) (auto simp: getChild_def)
  moreover have "wf_tree (Node False (children t))" using 1 by (cases t) simp
  ultimately show ?case by simp
next
  case (2 ch str t)
  show ?case
  proof (cases "getChild ch t")
    case (Some child)
    note IH = "2.IH" [OF Some wf_child(1) [OF "2.prems" Some]]
    show ?thesis
    proof (cases "remove_path str child")
      case None
      then show ?thesis using IH Some by simp
    next
      case (Some child')
      have IH': "wf_tree child'" "\<And>w. member child' w = (w \<noteq> str \<and> member child w)"
        using IH Some by auto
      show ?thesis
      proof (cases "children child' \<noteq> [] \<or> breakpoint child'")
        case True
        have "member (put_child ch child' t) w = (w \<noteq> ch # str \<and> member t w)" for w
          using \<open>getChild ch t = Some child\<close> by (cases w) (auto simp: IH'(2) split: option.splits)
        then show ?thesis using True Some \<open>getChild ch t = Some child\<close> IH'(1) "2.prems"
          by (auto intro: wf_put)
      next
        case False
        let ?t = "Node (breakpoint t) (AList.delete ch (children t))"
        have none: "\<not> (w \<noteq> str \<and> member child w)" for w
          using no_words [of child' w] False IH'(2) by auto
        have "getChild c ?t = (if c = ch then None else getChild c t)" for c
          by (simp add: getChild_def delete_conv)
        then have "member ?t w = (w \<noteq> ch # str \<and> member t w)" for w
          using \<open>getChild ch t = Some child\<close> none by (cases w) (auto split: option.splits)
        moreover have "wf_tree ?t" using "2.prems"
          by (cases t) (auto simp: AList.delete_eq intro: distinct_map_filter)
        ultimately show ?thesis using False Some \<open>getChild ch t = Some child\<close> by simp
      qed
    qed
  qed simp
qed

section \<open>Completion\<close>

lemma live_has_word: "wf_tree t \<Longrightarrow> breakpoint t \<or> children t \<noteq> [] \<Longrightarrow> \<exists>w. member t w"
proof (induction t)
  case (Node b cs)
  show ?case
  proof (cases cs)
    case Nil
    then show ?thesis using Node.prems by (intro exI [of _ "[]"]) simp
  next
    case (Cons p ps)
    obtain ch c where p: "p = (ch, c)" by (cases p)
    obtain w where "member c w" using Node.IH [of p c] Node.prems Cons p by force
    then have "member (Node b cs) (ch # w)" by (simp add: getChild_def Cons p)
    then show ?thesis by blast
  qed
qed

lemma complete_spec:
  assumes "wf_tree t" "breakpoint t \<or> children t \<noteq> []"
  shows "complete t acc \<noteq> NotOnline \<and> (complete t acc = NoError r \<longleftrightarrow> (\<exists>w. r = acc @ w \<and> words t = {w}))"
  using assms
proof (induction t acc rule: complete.induct)
  case (1 b acc)
  have "member (Node b []) w = (w = [])" for w using 1 by (cases w) (auto simp: getChild_def)
  then show ?case by (auto simp: words_def)
next
  case (2 b ch t acc)
  obtain w where w: "member t w" using live_has_word [of t] "2.prems" by auto
  have m: "member (Node b [(ch, t)]) v = (case v of [] \<Rightarrow> b | x # u \<Rightarrow> x = ch \<and> member t u)" for v
    by (cases v) (auto simp: getChild_def)
  show ?case
  proof (cases b)
    case True
    then have "[] \<in> words (Node b [(ch, t)])" "ch # w \<in> words (Node b [(ch, t)])"
      using w by (simp_all add: words_def getChild_def)
    then have "words (Node b [(ch, t)]) \<noteq> {v}" for v by (metis empty_iff insertE list.distinct(1))
    then show ?thesis using True by simp
  next
    case False
    have "v \<in> words (Node b [(ch, t)]) \<longleftrightarrow> v \<in> (#) ch ` words t" for v
      unfolding words_def mem_Collect_eq m using False by (cases v) auto
    then have wt: "words (Node b [(ch, t)]) = (#) ch ` words t" by blast
    have "words (Node b [(ch, t)]) = {v} \<longleftrightarrow> (\<exists>u. v = ch # u \<and> words t = {u})" for v
      unfolding wt by (rule image_eq_singleton) (simp add: inj_def)
    then show ?thesis using False "2.IH" "2.prems" by auto
  qed
next
  case (3 b p q cs acc)
  obtain c t where p: "p = (c, t)" by (cases p)
  obtain d u where q: "q = (d, u)" by (cases q)
  obtain v where "member t v" using live_has_word [of t] "3.prems" p by auto
  moreover obtain w where "member u w" using live_has_word [of u] "3.prems" q by auto
  moreover have "c \<noteq> d" using "3.prems" p q by simp
  ultimately have "c # v \<in> words (Node b (p # q # cs))" "d # w \<in> words (Node b (p # q # cs))" "c # v \<noteq> d # w"
    by (simp_all add: words_def getChild_def p q)
  then have "words (Node b (p # q # cs)) \<noteq> {x}" for x by (metis empty_iff insertE)
  then show ?case by simp
qed

lemma descend_spec:
  assumes "wf_tree t"
  shows "case descend q t of
      None \<Rightarrow> \<forall>w. \<not> member t (q @ w)
    | Some n \<Rightarrow> wf_tree n \<and> (q \<noteq> [] \<longrightarrow> breakpoint n \<or> children n \<noteq> []) \<and> (\<forall>w. member n w = member t (q @ w))
        \<and> (q = [] \<longrightarrow> n = t)"
  using assms
proof (induction q t rule: descend.induct)
  case (2 ch q t)
  then show ?case
  proof (cases "getChild ch t")
    case (Some child)
    show ?thesis using "2.IH" [OF Some wf_child(1) [OF "2.prems" Some]] wf_child(2) [OF "2.prems" Some] Some
      by (cases q) (auto split: option.splits)
  qed simp
qed simp

text \<open>Histories of insertions and removals on an empty tree, and the set they describe.\<close>

datatype name_op = Insert string | Remove string

fun tree_run :: "name_op list \<Rightarrow> wtree \<Rightarrow> wtree option" where
  "tree_run [] t = Some t"
| "tree_run (Insert w # ops) t = (case insert_word w t of None \<Rightarrow> None | Some t' \<Rightarrow> tree_run ops t')"
| "tree_run (Remove w # ops) t = tree_run ops (remove_word w t)"

fun names_after :: "name_op list \<Rightarrow> string set \<Rightarrow> string set" where
  "names_after [] A = A"
| "names_after (Insert w # ops) A = names_after ops (insert w A)"
| "names_after (Remove w # ops) A = names_after ops (A - {w})"

lemma tree_run_spec:
  assumes "wf_tree t" "\<not> breakpoint t" "Insert [] \<notin> set ops"
  shows "\<exists>t'. tree_run ops t = Some t' \<and> wf_tree t' \<and> \<not> breakpoint t' \<and> words t' = names_after ops (words t)"
  using assms
proof (induction ops arbitrary: t)
  case (Cons op ops)
  show ?case
  proof (cases op)
    case (Insert w)
    then have "w \<noteq> []" using Cons.prems(3) by auto
    then obtain t' where t': "insert_word w t = Some t'" "wf_tree t'" "\<not> breakpoint t'"
      "\<And>v. member t' v = (v = w \<or> member t v)"
      using insert_word_spec [OF Cons.prems(1), of w] Cons.prems(2) by auto
    have "words t' = insert w (words t)" using t'(4) by (auto simp: words_def)
    then show ?thesis using Cons.IH [OF t'(2,3)] Cons.prems(3) Insert t'(1) by simp
  next
    case (Remove w)
    have *: "wf_tree (remove_word w t) \<and> \<not> breakpoint (remove_word w t)
        \<and> (\<forall>v. member (remove_word w t) v = (v \<noteq> w \<and> member t v))"
    proof (cases "remove_path w t")
      case None
      then have "\<not> member t w" using remove_path_spec [OF Cons.prems(1), of w] by simp
      then show ?thesis using None Cons.prems(1,2) by (auto simp: remove_word_def)
    next
      case (Some t')
      then have "wf_tree t' \<and> (w \<noteq> [] \<longrightarrow> breakpoint t' = breakpoint t) \<and> (\<forall>v. member t' v = (v \<noteq> w \<and> member t v))"
        using remove_path_spec [OF Cons.prems(1), of w] by simp
      moreover have "w = [] \<Longrightarrow> \<not> breakpoint t'" using Some by auto
      ultimately show ?thesis using Some Cons.prems(2) by (auto simp: remove_word_def)
    qed
    have "words (remove_word w t) = words t - {w}" using * by (auto simp: words_def)
    then show ?thesis using Cons.IH [of "remove_word w t"] Cons.prems(3) Remove * by simp
  qed
qed simp

text \<open>
  C34. The name tree answers exactly like the set of names: after any history of insertions (of
  non-empty names) and removals that leaves at least one name, findOne reports that nobody is online
  exactly when no name starts with the query, returns a name exactly when it is the only one that
  does, and reports an ambiguity otherwise.
\<close>
theorem findOne_correct:
  assumes "Insert [] \<notin> set ops" "names_after ops {} \<noteq> {}"
  shows "\<exists>t. tree_run ops (Node False []) = Some t \<and>
    (let matches = {w \<in> names_after ops {}. prefix query w} in
       (findOne query t = NotOnline \<longleftrightarrow> matches = {})
       \<and> (\<forall>r. findOne query t = NoError r \<longleftrightarrow> matches = {r})
       \<and> (findOne query t = TooAmbiguous \<longleftrightarrow> matches \<noteq> {} \<and> \<not> is_singleton matches))"
proof -
  obtain t where t: "tree_run ops (Node False []) = Some t" "wf_tree t" "\<not> breakpoint t"
    "words t = names_after ops {}"
    using tree_run_spec [of "Node False []" ops] assms(1) no_words [of "Node False []"] by (auto simp: words_def)
  have m: "{w \<in> names_after ops {}. prefix query w} = (@) query ` {w. member t (query @ w)}"
    unfolding t(4) [symmetric] by (auto simp: words_def prefix_def)
  have "(findOne query t = NotOnline \<longleftrightarrow> {w. member t (query @ w)} = {})
      \<and> (\<forall>r. findOne query t = NoError r \<longleftrightarrow> (\<exists>w. r = query @ w \<and> {w. member t (query @ w)} = {w}))"
  proof (cases "descend query t")
    case None
    then show ?thesis using descend_spec [OF t(2), of query] by (auto simp: findOne_def)
  next
    case (Some n)
    have n: "wf_tree n" "\<And>w. member n w = member t (query @ w)" "query \<noteq> [] \<Longrightarrow> breakpoint n \<or> children n \<noteq> []"
      "query = [] \<Longrightarrow> n = t"
      using descend_spec [OF t(2), of query] Some by auto
    have "children t \<noteq> []" using assms(2) t(3,4) no_words by (auto simp: words_def)
    then have live: "breakpoint n \<or> children n \<noteq> []" using n(3,4) by auto
    have "words n = {w. member t (query @ w)}" using n(2) by (simp add: words_def)
    moreover have "words n \<noteq> {}" using live_has_word [OF n(1) live] by (auto simp: words_def)
    ultimately show ?thesis using complete_spec [OF n(1) live, of query] Some by (simp add: findOne_def)
  qed
  moreover have "((@) query ` M = {r}) = (\<exists>w. r = query @ w \<and> M = {w})" for M r
    by (rule image_eq_singleton) (simp add: inj_def)
  ultimately show ?thesis using t(1) unfolding m Let_def is_singleton_def
    by (cases "findOne query t") auto
qed

theorem findOne_correct_witness:
  "\<exists>t. tree_run [Insert ''bob'', Insert ''bobby'', Insert ''ann'', Remove ''bob''] (Node False []) = Some t
     \<and> findOne ''b'' t = NoError ''bobby''"
proof -
  have m: "{w \<in> names_after [Insert ''bob'', Insert ''bobby'', Insert ''ann'', Remove ''bob''] {}. prefix ''b'' w} = {''bobby''}"
    by auto
  show ?thesis
    using findOne_correct [of "[Insert ''bob'', Insert ''bobby'', Insert ''ann'', Remove ''bob'']" "''b''"]
    unfolding m by (auto simp: Let_def)
qed

end
