(* ===== verification/Sequences.thy ===== *)
theory Sequences
  imports Prelude
begin

text \<open>
  The two container templates of \<^verbatim>\<open>utils\<close>: arraylist, a sequence kept in two vectors that are merged
  on demand, and vector_set, a vector that is sorted and stripped of duplicates on demand.  None
  stands for the undefined behaviour of the standard library (popping or indexing an empty vector,
  erasing a range whose end is before its start).
\<close>

section \<open>arraylist\<close>

record 'a arraylist =
  backContainer :: "'a list"
  frontContainer :: "'a list"
  al_needUpdate :: bool

definition al_new :: "'a list \<Rightarrow> 'a arraylist" where
  "al_new xs = \<lparr>backContainer = xs, frontContainer = [], al_needUpdate = False\<rparr>"

definition al_update :: "'a arraylist \<Rightarrow> 'a arraylist" where
  "al_update l = (if \<not> al_needUpdate l then l else
     (let front = rev (frontContainer l) @ backContainer l
      in \<lparr>backContainer = front, frontContainer = [], al_needUpdate = False\<rparr>))"

definition al_assign :: "'a list \<Rightarrow> 'a arraylist \<Rightarrow> 'a arraylist" where
  "al_assign xs l = l\<lparr>backContainer := xs\<rparr>"

definition al_contains :: "'a \<Rightarrow> 'a arraylist \<Rightarrow> bool \<times> 'a arraylist" where
  "al_contains v l = (let l' = al_update l in (v \<in> set (backContainer l'), l'))"

definition al_erase :: "'a \<Rightarrow> 'a arraylist \<Rightarrow> bool \<times> 'a arraylist" where
  "al_erase v l = (let l' = al_update l in
     if v \<in> set (backContainer l') then (True, l'\<lparr>backContainer := remove1 v (backContainer l')\<rparr>) else (False, l'))"

definition al_size :: "'a arraylist \<Rightarrow> nat" where
  "al_size l = length (backContainer l) + length (frontContainer l)"

definition al_erase_range :: "nat \<Rightarrow> nat \<Rightarrow> 'a arraylist \<Rightarrow> (bool \<times> 'a arraylist) option" where
  "al_erase_range b e l = (let l' = al_update l in
     if b > al_size l' \<or> e > al_size l' then Some (False, l')
     else if b > e then None
     else Some (True, l'\<lparr>backContainer := take b (backContainer l') @ drop e (backContainer l')\<rparr>))"

definition al_erase_if :: "('a \<Rightarrow> bool) \<Rightarrow> 'a arraylist \<Rightarrow> bool \<times> 'a arraylist" where
  "al_erase_if p l = (let l' = al_update l in
     (\<exists>x \<in> set (backContainer l'). p x, l'\<lparr>backContainer := filter (\<lambda>x. \<not> p x) (backContainer l')\<rparr>))"

definition al_front :: "'a arraylist \<Rightarrow> ('a \<times> 'a arraylist) option" where
  "al_front l = (let l' = al_update l in
     if backContainer l' = [] then None else Some (hd (backContainer l'), l'))"

definition al_back :: "'a arraylist \<Rightarrow> ('a \<times> 'a arraylist) option" where
  "al_back l = (let l' = al_update l in
     if backContainer l' = [] then None else Some (last (backContainer l'), l'))"

definition al_pop_back :: "'a arraylist \<Rightarrow> 'a arraylist option" where
  "al_pop_back l = (let l' = al_update l in
     if backContainer l' = [] then None else Some (l'\<lparr>backContainer := butlast (backContainer l')\<rparr>))"

definition al_push_front :: "'a \<Rightarrow> 'a arraylist \<Rightarrow> 'a arraylist" where
  "al_push_front v l = l\<lparr>al_needUpdate := True, frontContainer := frontContainer l @ [v]\<rparr>"

definition al_push_back :: "'a \<Rightarrow> 'a arraylist \<Rightarrow> 'a arraylist" where
  "al_push_back v l = l\<lparr>backContainer := backContainer l @ [v]\<rparr>"

definition al_empty :: "'a arraylist \<Rightarrow> bool" where
  "al_empty l = (backContainer l = [] \<and> frontContainer l = [])"

definition al_clear :: "'a arraylist \<Rightarrow> 'a arraylist" where
  "al_clear l = l\<lparr>frontContainer := [], backContainer := []\<rparr>"

definition al_index :: "nat \<Rightarrow> 'a arraylist \<Rightarrow> ('a \<times> 'a arraylist) option" where
  "al_index i l = (let l' = al_update l in
     if i < length (backContainer l') then Some (backContainer l' ! i, l') else None)"

definition al_data :: "'a arraylist \<Rightarrow> 'a list \<times> 'a arraylist" where
  "al_data l = (let l' = al_update l in (backContainer l', l'))"

text \<open>The contract of a sequence with cheap insertion at both ends, over the list it stands for.\<close>

locale sequence =
  fixes view :: "'s \<Rightarrow> 'a list" and ok :: "'s \<Rightarrow> bool" and new :: "'a list \<Rightarrow> 's"
    and push_front :: "'a \<Rightarrow> 's \<Rightarrow> 's" and push_back :: "'a \<Rightarrow> 's \<Rightarrow> 's"
    and pop_back :: "'s \<Rightarrow> 's option" and erase :: "'a \<Rightarrow> 's \<Rightarrow> bool \<times> 's"
  assumes view_new: "view (new xs) = xs" "ok (new xs)"
    and view_push_front: "ok s \<Longrightarrow> view (push_front x s) = x # view s \<and> ok (push_front x s)"
    and view_push_back: "ok s \<Longrightarrow> view (push_back x s) = view s @ [x] \<and> ok (push_back x s)"
    and view_pop_back: "ok s \<Longrightarrow> (case pop_back s of None \<Rightarrow> view s = []
          | Some s' \<Rightarrow> view s \<noteq> [] \<and> view s' = butlast (view s) \<and> ok s')"
    and view_erase: "ok s \<Longrightarrow> fst (erase x s) = (x \<in> set (view s)) \<and> view (snd (erase x s)) = remove1 x (view s)
          \<and> ok (snd (erase x s))"

datatype 'a seq_op = PushFront 'a | PushBack 'a | PopBack | Erase 'a

definition seq_step ::
  "('a \<Rightarrow> 's \<Rightarrow> 's) \<Rightarrow> ('a \<Rightarrow> 's \<Rightarrow> 's) \<Rightarrow> ('s \<Rightarrow> 's option) \<Rightarrow> ('a \<Rightarrow> 's \<Rightarrow> bool \<times> 's) \<Rightarrow> 'a seq_op \<Rightarrow> 's \<Rightarrow> 's option" where
  "seq_step pf pb pop er op s = (case op of
      PushFront x \<Rightarrow> Some (pf x s) | PushBack x \<Rightarrow> Some (pb x s) | PopBack \<Rightarrow> pop s | Erase x \<Rightarrow> Some (snd (er x s)))"

fun seq_run ::
  "('a \<Rightarrow> 's \<Rightarrow> 's) \<Rightarrow> ('a \<Rightarrow> 's \<Rightarrow> 's) \<Rightarrow> ('s \<Rightarrow> 's option) \<Rightarrow> ('a \<Rightarrow> 's \<Rightarrow> bool \<times> 's) \<Rightarrow> 'a seq_op list \<Rightarrow> 's \<Rightarrow> 's option" where
  "seq_run pf pb pop er [] s = Some s"
| "seq_run pf pb pop er (op # ops) s = (case seq_step pf pb pop er op s of
      None \<Rightarrow> None | Some s' \<Rightarrow> seq_run pf pb pop er ops s')"

definition list_pop :: "'a list \<Rightarrow> 'a list option" where
  "list_pop xs = (if xs = [] then None else Some (butlast xs))"

abbreviation list_run :: "'a seq_op list \<Rightarrow> 'a list \<Rightarrow> 'a list option" where
  "list_run \<equiv> seq_run (#) (\<lambda>x xs. xs @ [x]) list_pop (\<lambda>x xs. (x \<in> set xs, remove1 x xs))"

context sequence
begin

lemma run_refines:
  "ok s \<Longrightarrow> map_option view (seq_run push_front push_back pop_back erase ops s) = list_run ops (view s)"
proof (induction ops arbitrary: s)
  case (Cons op ops)
  show ?case
  proof (cases op)
    case (PushFront x)
    then show ?thesis using Cons view_push_front [of s x] by (simp add: seq_step_def)
  next
    case (PushBack x)
    then show ?thesis using Cons view_push_back [of s x] by (simp add: seq_step_def)
  next
    case PopBack
    then show ?thesis using Cons view_pop_back [of s]
      by (auto simp: seq_step_def list_pop_def split: option.splits)
  next
    case (Erase x)
    then show ?thesis using Cons view_erase [of s x] by (simp add: seq_step_def)
  qed
qed simp

end

definition al_view :: "'a arraylist \<Rightarrow> 'a list" where
  "al_view l = rev (frontContainer l) @ backContainer l"

definition al_ok :: "'a arraylist \<Rightarrow> bool" where
  "al_ok l \<longleftrightarrow> (frontContainer l \<noteq> [] \<longrightarrow> al_needUpdate l)"

lemma al_update_view:
  assumes "al_ok l"
  shows "backContainer (al_update l) = al_view l" "frontContainer (al_update l) = []"
    "al_view (al_update l) = al_view l" "al_ok (al_update l)"
  using assms by (auto simp: al_update_def al_view_def al_ok_def Let_def)

lemmas al_ops = al_contains_def al_erase_def al_size_def al_erase_range_def al_erase_if_def al_front_def
  al_back_def al_pop_back_def al_push_front_def al_push_back_def al_empty_def al_clear_def al_index_def al_data_def

interpretation arraylist: sequence al_view al_ok al_new al_push_front al_push_back al_pop_back al_erase
  by unfold_locales
    (auto simp: al_ops Let_def al_update_view al_new_def al_view_def al_ok_def remove1_idem split: option.splits)

text \<open>
  An arraylist is a list: any series of insertions at both ends, removals at the back and
  erasures gives what the same series gives on a list, and fails only where the list operation
  would; and in every state so reached the queries answer for that list.
\<close>
theorem arraylist_is_a_list:
  "map_option al_view (seq_run al_push_front al_push_back al_pop_back al_erase ops (al_new xs)) = list_run ops xs
   \<and> (case seq_run al_push_front al_push_back al_pop_back al_erase ops (al_new xs) of
        None \<Rightarrow> True
      | Some l \<Rightarrow> fst (al_data l) = al_view l \<and> al_size l = length (al_view l) \<and> al_empty l = (al_view l = [])
          \<and> fst (al_contains x l) = (x \<in> set (al_view l))
          \<and> map_option fst (al_index i l) = (if i < length (al_view l) then Some (al_view l ! i) else None))"
proof -
  have "al_ok l \<Longrightarrow> seq_run al_push_front al_push_back al_pop_back al_erase ops l = Some l' \<Longrightarrow> al_ok l'"
    for l l' :: "'a arraylist"
  proof (induction ops arbitrary: l)
    case (Cons op ops)
    have "al_ok m" if "seq_step al_push_front al_push_back al_pop_back al_erase op l = Some m" for m
      using that arraylist.view_push_front [OF Cons.prems(1)] arraylist.view_push_back [OF Cons.prems(1)]
        arraylist.view_pop_back [OF Cons.prems(1)] arraylist.view_erase [OF Cons.prems(1)]
      by (auto simp: seq_step_def split: seq_op.splits option.splits)
    then show ?case using Cons by (auto split: option.splits)
  qed simp
  note ok = this [OF arraylist.view_new(2)]
  have "fst (al_data l) = al_view l \<and> al_size l = length (al_view l) \<and> al_empty l = (al_view l = [])
      \<and> fst (al_contains x l) = (x \<in> set (al_view l))
      \<and> map_option fst (al_index i l) = (if i < length (al_view l) then Some (al_view l ! i) else None)" if "al_ok l" for l
    using that by (auto simp: al_ops Let_def al_update_view) (auto simp: al_view_def)
  then show ?thesis
    using arraylist.run_refines [OF arraylist.view_new(2), of ops xs] ok
    by (auto simp: arraylist.view_new split: option.splits)
qed

text \<open>assign replaces only the back vector: elements pushed to the front before stay in the list.\<close>

lemma al_assign_keeps_front: "al_view (al_assign xs l) = rev (frontContainer l) @ xs"
  by (simp add: al_assign_def al_view_def)

section \<open>vector_set\<close>

record 'a vector_set =
  vs_container :: "'a list"
  vs_needUpdate :: bool

definition vs_new :: "'a vector_set" where
  "vs_new = \<lparr>vs_container = [], vs_needUpdate = False\<rparr>"

definition vs_update :: "('a :: linorder) vector_set \<Rightarrow> 'a vector_set" where
  "vs_update s = (if \<not> vs_needUpdate s then s
     else \<lparr>vs_container = remdups_adj (sort (vs_container s)), vs_needUpdate = False\<rparr>)"

text \<open>std::ranges::lower_bound: the number of elements before the first one not less than v.\<close>

definition lower_bound :: "('a :: linorder) list \<Rightarrow> 'a \<Rightarrow> nat" where
  "lower_bound xs v = length (takeWhile (\<lambda>x. x < v) xs)"

definition binary_search :: "('a :: linorder) list \<Rightarrow> 'a \<Rightarrow> bool" where
  "binary_search xs v = (lower_bound xs v < length xs \<and> \<not> v < xs ! lower_bound xs v)"

definition vs_contains :: "'a :: linorder \<Rightarrow> 'a vector_set \<Rightarrow> bool \<times> 'a vector_set" where
  "vs_contains v s = (let s' = vs_update s in (binary_search (vs_container s') v, s'))"

definition vs_erase :: "'a :: linorder \<Rightarrow> 'a vector_set \<Rightarrow> bool \<times> 'a vector_set" where
  "vs_erase v s = (let s' = vs_update s; i = lower_bound (vs_container s') v in
     if i = length (vs_container s') then (False, s')
     else (True, s'\<lparr>vs_container := take i (vs_container s') @ drop (Suc i) (vs_container s')\<rparr>))"

definition vs_erase_if :: "('a :: linorder \<Rightarrow> bool) \<Rightarrow> 'a vector_set \<Rightarrow> bool \<times> 'a vector_set" where
  "vs_erase_if p s = (let s' = vs_update s in
     (\<exists>x \<in> set (vs_container s'). p x, s'\<lparr>vs_container := filter (\<lambda>x. \<not> p x) (vs_container s')\<rparr>))"

definition vs_insert :: "'a \<Rightarrow> 'a vector_set \<Rightarrow> 'a vector_set" where
  "vs_insert v s = s\<lparr>vs_needUpdate := True, vs_container := vs_container s @ [v]\<rparr>"

definition vs_insertAll :: "'a list \<Rightarrow> 'a vector_set \<Rightarrow> 'a vector_set" where
  "vs_insertAll vs s = s\<lparr>vs_needUpdate := True, vs_container := vs_container s @ vs\<rparr>"

definition vs_empty :: "'a vector_set \<Rightarrow> bool" where
  "vs_empty s = (vs_container s = [])"

definition vs_size :: "('a :: linorder) vector_set \<Rightarrow> nat \<times> 'a vector_set" where
  "vs_size s = (let s' = vs_update s in (length (vs_container s'), s'))"

definition vs_clear :: "'a vector_set \<Rightarrow> 'a vector_set" where
  "vs_clear s = s\<lparr>vs_container := []\<rparr>"

definition vs_data :: "('a :: linorder) vector_set \<Rightarrow> 'a list \<times> 'a vector_set" where
  "vs_data s = (let s' = vs_update s in (vs_container s', s'))"

definition vs_ok :: "('a :: linorder) vector_set \<Rightarrow> bool" where
  "vs_ok s \<longleftrightarrow> (\<not> vs_needUpdate s \<longrightarrow> sorted_wrt (<) (vs_container s))"

definition vs_view :: "'a vector_set \<Rightarrow> 'a set" where
  "vs_view s = set (vs_container s)"

lemma strict_sorted_remdups_adj: "sorted xs \<Longrightarrow> sorted_wrt (<) (remdups_adj xs)"
  by (induction xs rule: remdups_adj.induct) (auto simp: order_le_neq_trans)

lemma vs_update_view:
  assumes "vs_ok s"
  shows "sorted_wrt (<) (vs_container (vs_update s))" "set (vs_container (vs_update s)) = vs_view s"
    "vs_ok (vs_update s)" "vs_view (vs_update s) = vs_view s"
  using assms by (auto simp: vs_update_def vs_ok_def vs_view_def strict_sorted_remdups_adj)

lemma lower_bound_split:
  assumes "sorted_wrt (<) xs"
  shows "set (take (lower_bound xs v) xs) = {x \<in> set xs. x < v}" "set (drop (lower_bound xs v) xs) = {x \<in> set xs. v \<le> x}"
proof -
  have t: "take (lower_bound xs v) xs = takeWhile (\<lambda>x. x < v) xs"
    "drop (lower_bound xs v) xs = dropWhile (\<lambda>x. x < v) xs"
    by (simp_all add: lower_bound_def takeWhile_eq_take [symmetric] dropWhile_eq_drop [symmetric])
  have "takeWhile (\<lambda>x. x < v) xs = filter (\<lambda>x. x < v) xs" "dropWhile (\<lambda>x. x < v) xs = filter (\<lambda>x. v \<le> x) xs"
    using assms by (induction xs) (auto simp: eq_commute [of "[]"] filter_empty_conv not_less intro!: filter_True [symmetric])
  then show "set (take (lower_bound xs v) xs) = {x \<in> set xs. x < v}"
    "set (drop (lower_bound xs v) xs) = {x \<in> set xs. v \<le> x}" using t by auto
qed

lemma binary_search_set:
  assumes "sorted_wrt (<) xs"
  shows "binary_search xs v = (v \<in> set xs)"
proof (cases "lower_bound xs v < length xs")
  case True
  let ?x = "xs ! lower_bound xs v"
  have d: "drop (lower_bound xs v) xs = ?x # drop (Suc (lower_bound xs v)) xs"
    using True by (rule Cons_nth_drop_Suc [symmetric])
  have "v \<le> ?x" using lower_bound_split(2) [OF assms, of v] d by auto
  moreover have "?x \<le> y" if "y \<in> set (drop (lower_bound xs v) xs)" for y
    using that sorted_wrt_drop [OF assms, of "lower_bound xs v"] unfolding d by auto
  ultimately show ?thesis using True lower_bound_split(2) [OF assms, of v] d
    by (fastforce simp: binary_search_def)
next
  case False
  then have "drop (lower_bound xs v) xs = []" by simp
  then show ?thesis using False lower_bound_split(2) [OF assms, of v] by (auto simp: binary_search_def)
qed

lemma remove_nth:
  assumes "i < length c" "sorted_wrt (<) (c :: ('a :: linorder) list)"
  shows "sorted_wrt (<) (take i c @ drop (Suc i) c)" "set (take i c @ drop (Suc i) c) = set c - {c ! i}"
proof -
  have c: "c = take i c @ c ! i # drop (Suc i) c" using assms(1) by (rule id_take_nth_drop)
  have s: "sorted_wrt (<) (take i c @ c ! i # drop (Suc i) c)" using assms(2) c by simp
  then show "sorted_wrt (<) (take i c @ drop (Suc i) c)" by (simp add: sorted_wrt_append)
  have "distinct (take i c @ c ! i # drop (Suc i) c)" using s strict_sorted_iff by blast
  moreover have "set c = set (take i c @ c ! i # drop (Suc i) c)" using c by simp
  ultimately show "set (take i c @ drop (Suc i) c) = set c - {c ! i}" by auto
qed

lemma vs_erase_view:
  assumes "vs_ok s"
  shows "vs_view (snd (vs_erase v s)) =
      (if \<forall>x \<in> vs_view s. x < v then vs_view s else vs_view s - {Min {x \<in> vs_view s. v \<le> x}})"
    "fst (vs_erase v s) = (\<exists>x \<in> vs_view s. v \<le> x)" "vs_ok (snd (vs_erase v s))"
proof -
  define c where "c = vs_container (vs_update s)"
  define i where "i = lower_bound c v"
  have c: "sorted_wrt (<) c" "set c = vs_view s"
    using vs_update_view [OF assms] by (simp_all add: c_def)
  have le: "i \<le> length c" unfolding i_def lower_bound_def by (rule length_takeWhile_le)
  have sp: "set (drop i c) = {x \<in> vs_view s. v \<le> x}" using lower_bound_split(2) [OF c(1), of v] c(2) i_def by simp
  show "fst (vs_erase v s) = (\<exists>x \<in> vs_view s. v \<le> x)"
  proof (cases "i = length c")
    case True
    then have "{x \<in> vs_view s. v \<le> x} = {}" using sp by simp
    then show ?thesis using True by (auto simp: vs_erase_def Let_def c_def i_def)
  next
    case False
    then have "{x \<in> vs_view s. v \<le> x} \<noteq> {}" using sp le by (metis drop_eq_Nil le_antisym set_empty)
    then show ?thesis using False by (auto simp: vs_erase_def Let_def c_def i_def)
  qed
  have nu: "vs_needUpdate (vs_update s) = False"
    by (auto simp: vs_update_def)
  show "vs_ok (snd (vs_erase v s))"
  proof -
    have "sorted_wrt (<) (take i c @ drop (Suc i) c)"
      using c(1) le remove_nth(1) [of i c] by (cases "i = length c") auto
    then show ?thesis using c(1) nu by (auto simp: vs_erase_def vs_ok_def Let_def c_def i_def)
  qed
  show "vs_view (snd (vs_erase v s)) =
      (if \<forall>x \<in> vs_view s. x < v then vs_view s else vs_view s - {Min {x \<in> vs_view s. v \<le> x}})"
  proof (cases "i = length c")
    case True
    then have "{x \<in> vs_view s. v \<le> x} = {}" using sp by simp
    then have "\<forall>x \<in> vs_view s. x < v" by (auto simp: not_le)
    then show ?thesis using True c(2) by (simp add: vs_erase_def Let_def c_def i_def vs_view_def)
  next
    case False
    then have lt: "i < length c" using le by simp
    have d: "drop i c = c ! i # drop (Suc i) c" using lt by (rule Cons_nth_drop_Suc [symmetric])
    have s': "sorted_wrt (<) (drop i c)" using c(1) by (rule sorted_wrt_drop)
    have "Min {x \<in> vs_view s. v \<le> x} = c ! i"
      unfolding sp [symmetric] using s' unfolding d by (intro Min_eqI) auto
    moreover have "\<not> (\<forall>x \<in> vs_view s. x < v)" using sp d by force
    moreover note remove_nth(2) [OF lt c(1)]
    ultimately show ?thesis using False c(2) by (auto simp add: vs_erase_def Let_def c_def i_def vs_view_def)
  qed
qed

datatype 'a set_op = VInsert 'a | VInsertAll "'a list" | VErase 'a | VEraseIf "'a \<Rightarrow> bool" | VClear | VContains 'a

primrec vs_step :: "('a :: linorder) set_op \<Rightarrow> 'a vector_set \<Rightarrow> 'a vector_set" where
  "vs_step (VInsert x) s = vs_insert x s"
| "vs_step (VInsertAll xs) s = vs_insertAll xs s"
| "vs_step (VErase x) s = snd (vs_erase x s)"
| "vs_step (VEraseIf p) s = snd (vs_erase_if p s)"
| "vs_step VClear s = vs_clear s"
| "vs_step (VContains x) s = snd (vs_contains x s)"

primrec set_step :: "('a :: linorder) set_op \<Rightarrow> 'a set \<Rightarrow> 'a set" where
  "set_step (VInsert x) A = insert x A"
| "set_step (VInsertAll xs) A = A \<union> set xs"
| "set_step (VErase x) A = (if \<forall>y \<in> A. y < x then A else A - {Min {y \<in> A. x \<le> y}})"
| "set_step (VEraseIf p) A = {y \<in> A. \<not> p y}"
| "set_step VClear A = {}"
| "set_step (VContains x) A = A"

lemma vs_step_refines:
  assumes "vs_ok s"
  shows "vs_ok (vs_step op s) \<and> vs_view (vs_step op s) = set_step op (vs_view s)"
proof (cases op)
  case (VErase x)
  then show ?thesis using vs_erase_view [OF assms, of x] by simp
next
  case (VEraseIf p)
  then show ?thesis using vs_update_view [OF assms]
    by (auto simp: vs_erase_if_def Let_def vs_ok_def vs_view_def intro: sorted_wrt_filter)
qed (use vs_update_view [OF assms] in \<open>auto simp: vs_insert_def vs_insertAll_def vs_clear_def vs_contains_def
      Let_def vs_ok_def vs_view_def\<close>)

lemma vs_run_refines:
  "vs_ok s \<Longrightarrow> vs_ok (fold vs_step ops s) \<and> vs_view (fold vs_step ops s) = fold set_step ops (vs_view s)"
  by (induction ops arbitrary: s) (simp_all add: vs_step_refines)

lemma erase_present:
  "x \<in> A \<Longrightarrow> finite A \<Longrightarrow> set_step (VErase x) A = A - {x}"
proof -
  assume "x \<in> A" "finite A"
  then have "Min {y \<in> A. x \<le> y} = x" by (intro Min_eqI) auto
  then show ?thesis using \<open>x \<in> A\<close> by auto
qed

text \<open>
  A vector_set is a set, in every state any series of operations can reach: contains decides
  membership although it searches by bisection, the contents come out sorted and without
  duplicates, size is the number of elements, and erasing an element that is present removes it
  and nothing else.
\<close>
theorem vector_set_is_a_set:
  "case fold vs_step ops (vs_new :: ('a :: linorder) vector_set) of s \<Rightarrow>
     vs_view s = fold set_step ops {}
     \<and> fst (vs_contains x s) = (x \<in> vs_view s)
     \<and> fst (vs_data s) = sorted_list_of_set (vs_view s)
     \<and> fst (vs_size s) = card (vs_view s)
     \<and> vs_view (vs_insert x s) = insert x (vs_view s)
     \<and> (x \<in> vs_view s \<longrightarrow> vs_erase x s = (True, snd (vs_erase x s)) \<and> vs_view (snd (vs_erase x s)) = vs_view s - {x})"
proof -
  define s :: "'a vector_set" where "s = fold vs_step ops vs_new"
  have ok: "vs_ok s" and view: "vs_view s = fold set_step ops {}"
    using vs_run_refines [of vs_new ops] by (simp_all add: s_def vs_ok_def vs_view_def vs_new_def)
  note u = vs_update_view [OF ok]
  have fin: "finite (vs_view s)" by (simp add: vs_view_def)
  have "vs_container (vs_update s) = sorted_list_of_set (vs_view s)"
    using u(1,2) by (metis sorted_list_of_set.idem_if_sorted_distinct strict_sorted_iff)
  moreover have "x \<in> vs_view s \<Longrightarrow> fst (vs_erase x s) \<and> vs_view (snd (vs_erase x s)) = vs_view s - {x}"
    using vs_erase_view(2) [OF ok, of x] vs_step_refines [OF ok, of "VErase x"] erase_present [OF _ fin] by auto
  ultimately show ?thesis unfolding s_def [symmetric] using view u binary_search_set [OF u(1)]
    by (auto simp: vs_contains_def vs_data_def vs_size_def Let_def prod_eq_iff)
       (auto simp: vs_insert_def vs_view_def)
qed

theorem vector_set_is_a_set_witness:
  "vs_view (snd (vs_erase (3 :: nat) (fold vs_step [VInsert 5, VInsert 3, VInsert 5] vs_new))) = {5}"
proof -
  have "vs_view (fold vs_step [VInsert 5, VInsert 3, VInsert 5] vs_new) = {3, 5 :: nat}"
    by (auto simp: vs_insert_def vs_new_def vs_view_def)
  then show ?thesis
    using vector_set_is_a_set [of "[VInsert 5, VInsert 3, VInsert 5]" "3 :: nat"] by (simp add: Let_def del: vs_step.simps fold.simps)
qed

text \<open>
  Erasing an element that is absent removes a different one: vector_set::erase deletes what
  lower_bound points at without comparing it, so the next larger element is lost and the call
  reports success.
\<close>
theorem vector_set_erase_absent:
  assumes "vs_ok s" "x \<notin> vs_view s" "\<exists>y \<in> vs_view s. x < y"
  shows "fst (vs_erase x s) \<and> vs_view (snd (vs_erase x s)) = vs_view s - {Min {y \<in> vs_view s. x < y}}
    \<and> vs_view (snd (vs_erase x s)) \<noteq> vs_view s"
proof -
  have eq: "{y \<in> vs_view s. x \<le> y} = {y \<in> vs_view s. x < y}" using assms(2) by (auto simp: le_less)
  have "Min {y \<in> vs_view s. x < y} \<in> {y \<in> vs_view s. x < y}"
    using assms(3) by (intro Min_in) (auto simp: vs_view_def)
  moreover have "\<not> (\<forall>y \<in> vs_view s. y < x)" using assms(3) by (meson not_less_iff_gr_or_eq)
  ultimately show ?thesis using vs_erase_view(1,2) [OF assms(1), of x] assms(3) unfolding eq
    by (auto intro: less_imp_le)
qed

theorem vector_set_erase_absent_witness:
  "vs_view (snd (vs_erase (4 :: nat) \<lparr>vs_container = [3, 5], vs_needUpdate = False\<rparr>)) \<noteq> {3, 5}"
  using vector_set_erase_absent [of "\<lparr>vs_container = [3, 5], vs_needUpdate = False\<rparr>" "4 :: nat",
      THEN conjunct2, THEN conjunct2]
  by (simp add: vs_ok_def vs_view_def)

end
