(* ===== verification/Wait_List.thy ===== *)
theory Wait_List
  imports Prelude "HOL-Library.AList"
begin

text \<open>
  The login queue (\<^verbatim>\<open>creatures/players/management/waitlist.cpp\<close>) and the connection rate limiter
  (\<^verbatim>\<open>ban.cpp\<close>, Ban::acceptConnection).  A queue entry is identified by the player's GUID; the
  references of the code are iterators, modelled as the list the entry belongs to.  None is the
  undefined behaviour of using an iterator with a list it does not belong to.  Times are in
  milliseconds; the clock, the number of players online and the configured maximum are arguments.
\<close>

section \<open>The waiting lists\<close>

datatype which_list = PriorityList | NormalList

record wait_info =
  priorityWaitList :: "(nat \<times> nat) list"
  waitList :: "(nat \<times> nat) list"
  playerReferences :: "(nat \<times> (which_list \<times> nat)) list"

record login_player =
  guid :: nat
  premium :: bool
  always_login :: bool

definition getTime :: "nat \<Rightarrow> nat" where
  "getTime slot = (if slot < 5 then 5 else if slot < 10 then 10 else if slot < 20 then 20
     else if slot < 50 then 60 else 120)"

definition getTimeout :: "nat \<Rightarrow> nat" where
  "getTimeout slot = getTime slot + 15"

definition entries :: "which_list \<Rightarrow> wait_info \<Rightarrow> (nat \<times> nat) list" where
  "entries w s = (case w of PriorityList \<Rightarrow> priorityWaitList s | NormalList \<Rightarrow> waitList s)"

definition set_entries :: "which_list \<Rightarrow> (nat \<times> nat) list \<Rightarrow> wait_info \<Rightarrow> wait_info" where
  "set_entries w xs s = (case w of PriorityList \<Rightarrow> s\<lparr>priorityWaitList := xs\<rparr> | NormalList \<Rightarrow> s\<lparr>waitList := xs\<rparr>)"

fun cleanup_loop :: "nat \<Rightarrow> (nat \<times> nat) list \<Rightarrow> (nat \<times> (which_list \<times> nat)) list \<Rightarrow>
    (nat \<times> nat) list \<times> (nat \<times> (which_list \<times> nat)) list" where
  "cleanup_loop now [] refs = ([], refs)"
| "cleanup_loop now ((g, timeout) # es) refs = (if timeout \<le> now then cleanup_loop now es (AList.delete g refs)
     else (case cleanup_loop now es refs of (es', refs') \<Rightarrow> ((g, timeout) # es', refs')))"

definition cleanupList :: "which_list \<Rightarrow> nat \<Rightarrow> wait_info \<Rightarrow> wait_info" where
  "cleanupList w now s = (case cleanup_loop now (entries w s) (playerReferences s) of
      (es, refs) \<Rightarrow> (set_entries w es s)\<lparr>playerReferences := refs\<rparr>)"

fun distance :: "nat \<Rightarrow> (nat \<times> nat) list \<Rightarrow> nat option" where
  "distance g [] = None"
| "distance g ((h, t) # es) = (if h = g then Some 0 else map_option Suc (distance g es))"

definition slot_of :: "login_player \<Rightarrow> which_list \<Rightarrow> wait_info \<Rightarrow> nat option" where
  "slot_of p w s = (if premium p
     then (if w = PriorityList then map_option Suc (distance (guid p) (priorityWaitList s)) else None)
     else (if w = NormalList
       then map_option (\<lambda>d. length (priorityWaitList s) + d + 1) (distance (guid p) (waitList s)) else None))"

definition set_timeout :: "nat \<Rightarrow> nat \<Rightarrow> (nat \<times> nat) list \<Rightarrow> (nat \<times> nat) list" where
  "set_timeout g timeout es = map (\<lambda>(h, t). (h, if h = g then timeout else t)) es"

definition addPlayerToList :: "login_player \<Rightarrow> nat \<Rightarrow> wait_info \<Rightarrow> wait_info option" where
  "addPlayerToList p now s = (case map_of (playerReferences s) (guid p) of
      Some (w, old) \<Rightarrow> (case slot_of p w s of
          None \<Rightarrow> None
        | Some slot \<Rightarrow> Some ((set_entries w (set_timeout (guid p) (now + getTimeout slot * 1000) (entries w s)) s)
            \<lparr>playerReferences := AList.update (guid p) (w, slot) (playerReferences s)\<rparr>))
    | None \<Rightarrow> (let w = (if premium p then PriorityList else NormalList);
                  slot = length (priorityWaitList s) + (if premium p then 0 else length (waitList s))
        in Some ((set_entries w (entries w s @ [(guid p, now + getTimeout (slot + 1) * 1000)]) s)
            \<lparr>playerReferences := AList.update (guid p) (w, slot + 1) (playerReferences s)\<rparr>)))"

definition clientLogin :: "login_player \<Rightarrow> nat \<Rightarrow> nat \<Rightarrow> nat \<Rightarrow> wait_info \<Rightarrow> (bool \<times> wait_info) option" where
  "clientLogin p now online maxPlayers s = (if always_login p then Some (True, s)
     else if maxPlayers = 0 \<or> (priorityWaitList s = [] \<and> waitList s = [] \<and> online < maxPlayers) then Some (True, s)
     else (let s1 = cleanupList NormalList now (cleanupList PriorityList now s) in
       (case addPlayerToList p now s1 of
          None \<Rightarrow> None
        | Some s2 \<Rightarrow> (case map_of (playerReferences s2) (guid p) of
            None \<Rightarrow> None
          | Some (w, slot) \<Rightarrow> if online + slot \<le> maxPlayers
              then (if w = NormalList
                    then Some (True, s2\<lparr>waitList := filter (\<lambda>e. fst e \<noteq> guid p) (waitList s2),
                                  playerReferences := AList.delete (guid p) (playerReferences s2)\<rparr>)
                    else None)
              else Some (False, s2)))))"

definition getClientSlot :: "login_player \<Rightarrow> wait_info \<Rightarrow> nat option" where
  "getClientSlot p s = (case map_of (playerReferences s) (guid p) of
      None \<Rightarrow> Some 0
    | Some (w, _) \<Rightarrow> slot_of p w s)"

text \<open>The entries and the references correspond: every waiting player is in exactly one list, once.\<close>

definition wait_inv :: "wait_info \<Rightarrow> bool" where
  "wait_inv s \<longleftrightarrow> distinct (map fst (priorityWaitList s @ waitList s))
     \<and> distinct (map fst (playerReferences s))
     \<and> (\<forall>g w. (\<exists>slot. map_of (playerReferences s) g = Some (w, slot)) \<longleftrightarrow> g \<in> fst ` set (entries w s))"

lemma cleanup_loop_entries:
  "fst (cleanup_loop now es refs) = filter (\<lambda>e. now < snd e) es"
  by (induction es arbitrary: refs) (auto simp: case_prod_unfold)

lemma cleanup_loop_refs:
  "map_of (snd (cleanup_loop now es refs)) g =
     (if \<exists>t. (g, t) \<in> set es \<and> t \<le> now then None else map_of refs g)"
proof (induction es arbitrary: refs)
  case (Cons e es)
  obtain h t where e: "e = (h, t)" by (cases e)
  show ?case
  proof (cases "t \<le> now")
    case True
    then show ?thesis using Cons [of "AList.delete h refs"] e by (auto simp: delete_conv)
  next
    case False
    then show ?thesis using Cons [of refs] e by (auto simp: case_prod_unfold)
  qed
qed simp

lemma cleanup_loop_distinct:
  "distinct (map fst refs) \<Longrightarrow> distinct (map fst (snd (cleanup_loop now es refs)))"
  by (induction es arbitrary: refs) (auto simp: case_prod_unfold distinct_delete)

lemma entries_set [simp]:
  "entries w (set_entries w es s) = es" "w \<noteq> v \<Longrightarrow> entries w (set_entries v es s) = entries w s"
  "playerReferences (set_entries w es s) = playerReferences s"
  "entries w (s\<lparr>playerReferences := refs\<rparr>) = entries w s"
  "set_entries w es s\<lparr>playerReferences := refs\<rparr> = set_entries w es (s\<lparr>playerReferences := refs\<rparr>)"
  by (auto simp: entries_def set_entries_def split: which_list.splits)

lemma wait_inv_alt:
  "wait_inv s \<longleftrightarrow> (\<forall>w. distinct (map fst (entries w s))) \<and> distinct (map fst (playerReferences s))
     \<and> fst ` set (entries PriorityList s) \<inter> fst ` set (entries NormalList s) = {}
     \<and> (\<forall>g w. (\<exists>slot. map_of (playerReferences s) g = Some (w, slot)) \<longleftrightarrow> g \<in> fst ` set (entries w s))"
proof -
  have "(\<forall>w. distinct (map fst (entries w s))) \<longleftrightarrow>
      distinct (map fst (priorityWaitList s)) \<and> distinct (map fst (waitList s))"
    by (metis entries_def which_list.exhaust which_list.simps(3,4))
  then show ?thesis by (auto simp: wait_inv_def entries_def)
qed

lemma cleanup_entries:
  "entries v (cleanupList w now s) = (if v = w then filter (\<lambda>e. now < snd e) (entries w s) else entries v s)"
  "playerReferences (cleanupList w now s) = snd (cleanup_loop now (entries w s) (playerReferences s))"
  using cleanup_loop_entries [of now "entries w s" "playerReferences s"]
  by (auto simp: cleanupList_def case_prod_unfold)

lemma wait_inv_cleanup:
  assumes "wait_inv s"
  shows "wait_inv (cleanupList w now s)"
proof -
  note inv = assms [unfolded wait_inv_alt]
  have d: "distinct (map fst (entries v s))" for v using inv by blast
  have refs: "(\<exists>slot. map_of (playerReferences (cleanupList w now s)) g = Some (v, slot)) \<longleftrightarrow>
      g \<in> fst ` set (entries v (cleanupList w now s))" for g v
  proof (cases "g \<in> fst ` set (entries w s)")
    case True
    then obtain t where t: "(g, t) \<in> set (entries w s)" by auto
    have uniq: "t' = t" if "(g, t') \<in> set (entries w s)" for t' using d [of w] t that by (auto dest: eq_key_imp_eq_value)
    have other: "v \<noteq> w \<Longrightarrow> g \<notin> fst ` set (entries v s)"
      using inv True by (metis (full_types) disjoint_iff which_list.exhaust)
    have here: "g \<in> fst ` set (filter (\<lambda>e. now < snd e) (entries w s)) \<longleftrightarrow> now < t"
    proof
      assume "g \<in> fst ` set (filter (\<lambda>e. now < snd e) (entries w s))"
      then obtain t' where "(g, t') \<in> set (entries w s)" "now < t'" by auto
      then show "now < t" using uniq by blast
    next
      assume "now < t"
      then have "(g, t) \<in> set (filter (\<lambda>e. now < snd e) (entries w s))" using t by simp
      then show "g \<in> fst ` set (filter (\<lambda>e. now < snd e) (entries w s))" by (metis fst_conv imageI)
    qed
    have exp: "(\<exists>t'. (g, t') \<in> set (entries w s) \<and> t' \<le> now) \<longleftrightarrow> t \<le> now" using t uniq by blast
    obtain slot where slot: "map_of (playerReferences s) g = Some (w, slot)" using inv True by blast
    have "map_of (playerReferences (cleanupList w now s)) g = (if t \<le> now then None else Some (w, slot))"
      unfolding cleanup_entries(2) cleanup_loop_refs exp by (simp only: slot)
    then show ?thesis using other here by (cases "v = w") (auto simp: cleanup_entries(1) simp del: set_filter)
  next
    case False
    then have "map_of (playerReferences (cleanupList w now s)) g = map_of (playerReferences s) g"
      by (force simp: cleanup_entries cleanup_loop_refs)
    then show ?thesis using inv False by (force simp: cleanup_entries)
  qed
  show ?thesis unfolding wait_inv_alt
    using inv refs d
    by (auto simp: cleanup_entries cleanup_loop_distinct intro: distinct_map_filter)
qed

section \<open>Positions\<close>

definition queue :: "wait_info \<Rightarrow> nat list" where
  "queue s = map fst (priorityWaitList s @ waitList s)"

definition consistent :: "login_player \<Rightarrow> wait_info \<Rightarrow> bool" where
  "consistent p s \<longleftrightarrow> (\<forall>w slot. map_of (playerReferences s) (guid p) = Some (w, slot) \<longrightarrow>
     w = (if premium p then PriorityList else NormalList))"

lemma distance_found:
  assumes "g \<in> fst ` set es"
  obtains d where "distance g es = Some d" "d < length es" "fst (es ! d) = g"
  using assms
proof (induction es arbitrary: thesis)
  case (Cons e es)
  obtain h t where e: "e = (h, t)" by (cases e)
  show ?case
  proof (cases "h = g")
    case True
    then show ?thesis using Cons.prems(1) [of 0] e by simp
  next
    case False
    then have "g \<in> fst ` set es" using Cons.prems(2) e by auto
    then obtain d where "distance g es = Some d" "d < length es" "fst (es ! d) = g" using Cons.IH by blast
    then show ?thesis using Cons.prems(1) [of "Suc d"] False e by simp
  qed
qed simp

lemma distance_set_timeout [simp]: "distance g (set_timeout h t es) = distance g es"
  by (induction es) (auto simp: set_timeout_def)

lemma fst_set_timeout [simp]: "map fst (set_timeout h t es) = map fst es" "fst ` set (set_timeout h t es) = fst ` set es"
  "length (set_timeout h t es) = length es"
proof -
  show "map fst (set_timeout h t es) = map fst es" by (simp add: set_timeout_def case_prod_unfold comp_def)
  then show "fst ` set (set_timeout h t es) = fst ` set es" by (metis set_map)
  show "length (set_timeout h t es) = length es" by (simp add: set_timeout_def)
qed

lemma distance_append: "g \<notin> fst ` set es \<Longrightarrow> distance g (es @ [(g, t)]) = Some (length es)"
  by (induction es) auto

declare map_of_eq_Some_iff [simp del]

lemma wait_inv_refs:
  "wait_inv s \<Longrightarrow> (\<exists>slot. map_of (playerReferences s) g = Some (w, slot)) \<longleftrightarrow> g \<in> fst ` set (entries w s)"
  unfolding wait_inv_def by blast

lemma addPlayer_known:
  assumes "wait_inv s" "consistent p s" "map_of (playerReferences s) (guid p) = Some (w, old)"
  obtains s2 pos where "addPlayerToList p now s = Some s2" "wait_inv s2" "queue s2 = queue s"
    "pos < length (queue s2)" "queue s2 ! pos = guid p"
    "map_of (playerReferences s2) (guid p) = Some (w, Suc pos)" "slot_of p w s2 = Some (Suc pos)"
proof -
  have w: "w = (if premium p then PriorityList else NormalList)" using assms(2,3) by (auto simp: consistent_def)
  have g: "guid p \<in> fst ` set (entries w s)" using wait_inv_refs [OF assms(1)] assms(3) by blast
  obtain d where d: "distance (guid p) (entries w s) = Some d" "d < length (entries w s)"
    "fst (entries w s ! d) = guid p" using distance_found [OF g] .
  let ?pos = "if premium p then d else length (priorityWaitList s) + d"
  have slot: "slot_of p w s = Some (Suc ?pos)" using d(1) w by (auto simp: slot_of_def entries_def)
  let ?s = "(set_entries w (set_timeout (guid p) (now + getTimeout (Suc ?pos) * 1000) (entries w s)) s)
      \<lparr>playerReferences := AList.update (guid p) (w, Suc ?pos) (playerReferences s)\<rparr>"
  have run: "addPlayerToList p now s = Some ?s" using assms(3) slot by (simp add: addPlayerToList_def)
  have fsts: "map fst (entries v ?s) = map fst (entries v s)" for v by (cases "v = w") simp_all
  then have sets: "fst ` set (entries v ?s) = fst ` set (entries v s)" for v by (metis set_map)
  have refs: "(\<exists>slot. map_of (playerReferences ?s) g = Some (v, slot)) = (\<exists>slot. map_of (playerReferences s) g = Some (v, slot))" for g v
    using assms(3) by (simp add: update_conv)
  have "wait_inv ?s" using assms(1) refs unfolding wait_inv_alt sets fsts by (simp add: distinct_update)
  moreover have q: "queue ?s = queue s"
    using fsts [of PriorityList] fsts [of NormalList] by (simp add: queue_def entries_def)
  moreover have "?pos < length (queue ?s)" "queue ?s ! ?pos = guid p"
    unfolding q using d w by (auto simp: queue_def entries_def nth_append split: if_splits)
  moreover have "length (priorityWaitList ?s) = length (priorityWaitList s)"
    using fsts [of PriorityList] by (metis entries_def length_map which_list.simps(3))
  then have "slot_of p w ?s = Some (Suc ?pos)"
    using d(1) w by (auto simp: slot_of_def entries_def set_entries_def)
  ultimately show ?thesis using that [of ?s ?pos] run by (simp add: update_conv)
qed

lemma addPlayer_new:
  assumes "wait_inv s" "map_of (playerReferences s) (guid p) = None"
  obtains s2 w pos where "addPlayerToList p now s = Some s2" "wait_inv s2"
    "w = (if premium p then PriorityList else NormalList)"
    "pos < length (queue s2)" "queue s2 ! pos = guid p"
    "map_of (playerReferences s2) (guid p) = Some (w, Suc pos)" "slot_of p w s2 = Some (Suc pos)"
proof -
  let ?w = "if premium p then PriorityList else NormalList"
  let ?pos = "length (priorityWaitList s) + (if premium p then 0 else length (waitList s))"
  let ?e = "(guid p, now + getTimeout (?pos + 1) * 1000)"
  let ?s = "(set_entries ?w (entries ?w s @ [?e]) s)
      \<lparr>playerReferences := AList.update (guid p) (?w, ?pos + 1) (playerReferences s)\<rparr>"
  have run: "addPlayerToList p now s = Some ?s" using assms(2) by (simp add: addPlayerToList_def Let_def)
  have absent: "guid p \<notin> fst ` set (entries v s)" for v
    using wait_inv_refs [OF assms(1), of "guid p" v] assms(2) by simp
  have ent: "entries v ?s = (if v = ?w then entries v s @ [?e] else entries v s)" for v by auto
  note inv = assms(1) [unfolded wait_inv_alt]
  have refs: "(\<exists>slot. map_of (playerReferences ?s) g = Some (v, slot)) \<longleftrightarrow> g \<in> fst ` set (entries v ?s)" for g v
  proof (cases "g = guid p")
    case True
    then show ?thesis using absent [of v] unfolding ent by (auto simp: update_conv)
  next
    case False
    then show ?thesis using inv unfolding ent by (auto simp: update_conv)
  qed
  have "wait_inv ?s" unfolding wait_inv_alt
    using inv refs absent unfolding ent by (auto simp: distinct_update split: if_splits)
  moreover have "?pos < length (queue ?s)" "queue ?s ! ?pos = guid p"
    by (auto simp: queue_def set_entries_def entries_def nth_append)
  moreover have "slot_of p ?w ?s = Some (Suc ?pos)"
    using absent [of ?w] by (auto simp: slot_of_def set_entries_def entries_def distance_append)
  ultimately show ?thesis using that [of ?s ?w ?pos] run by (simp add: update_conv)
qed

lemma consistent_cleanup: "consistent p s \<Longrightarrow> consistent p (cleanupList w now s)"
  by (auto simp: consistent_def cleanup_entries cleanup_loop_refs)

lemma login_position:
  assumes "wait_inv s" "consistent p s"
  shows "\<exists>s2 pos. addPlayerToList p now (cleanupList NormalList now (cleanupList PriorityList now s)) = Some s2
    \<and> wait_inv s2 \<and> pos < length (queue s2) \<and> queue s2 ! pos = guid p \<and> getClientSlot p s2 = Some (Suc pos)
    \<and> map_of (playerReferences s2) (guid p) = Some (if premium p then PriorityList else NormalList, Suc pos)"
proof -
  let ?s = "cleanupList NormalList now (cleanupList PriorityList now s)"
  have inv: "wait_inv ?s" "consistent p ?s" using assms by (simp_all add: wait_inv_cleanup consistent_cleanup)
  show ?thesis
  proof (cases "map_of (playerReferences ?s) (guid p)")
    case None
    obtain s2 w pos where s2: "addPlayerToList p now ?s = Some s2" "wait_inv s2"
      "w = (if premium p then PriorityList else NormalList)" "pos < length (queue s2)" "queue s2 ! pos = guid p"
      "map_of (playerReferences s2) (guid p) = Some (w, Suc pos)" "slot_of p w s2 = Some (Suc pos)"
      using addPlayer_new [OF inv(1) None, of now] .
    then show ?thesis unfolding getClientSlot_def
      by (intro exI [of _ s2] exI [of _ pos]) (simp only: option.simps prod.simps simp_thms)
  next
    case (Some r)
    obtain w old where r: "r = (w, old)" by (cases r)
    have w: "w = (if premium p then PriorityList else NormalList)"
      using inv(2) Some unfolding r consistent_def by blast
    obtain s2 pos where s2: "addPlayerToList p now ?s = Some s2" "wait_inv s2"
      "pos < length (queue s2)" "queue s2 ! pos = guid p"
      "map_of (playerReferences s2) (guid p) = Some (w, Suc pos)" "slot_of p w s2 = Some (Suc pos)"
      using addPlayer_known [OF inv Some [unfolded r], of now] .
    then show ?thesis unfolding getClientSlot_def w [symmetric]
      by (intro exI [of _ s2] exI [of _ pos]) (simp only: option.simps prod.simps simp_thms)
  qed
qed

text \<open>
  The login queue is fair and consistent.  When a player has to wait, expired entries are
  dropped, the player keeps the place it had or is appended to its list, the entries and the
  references stay in step, and the slot reported is the player's position when all priority entries
  come first.  The player may enter exactly when that position fits under the limit; an ordinary
  player is then taken off the queue.  For a premium player who may enter, the code erases an
  iterator of the priority list from the ordinary list, which is undefined.
\<close>
theorem clientLogin_queue:
  assumes "wait_inv s" "consistent p s" "\<not> always_login p" "maxPlayers \<noteq> 0"
    "\<not> (queue s = [] \<and> online < maxPlayers)"
  shows "\<exists>s2 pos. wait_inv s2 \<and> pos < length (queue s2) \<and> queue s2 ! pos = guid p \<and> getClientSlot p s2 = Some (pos + 1)
    \<and> clientLogin p now online maxPlayers s =
        (if online + (pos + 1) \<le> maxPlayers
         then (if premium p then None
               else Some (True, s2\<lparr>waitList := filter (\<lambda>e. fst e \<noteq> guid p) (waitList s2),
                                  playerReferences := AList.delete (guid p) (playerReferences s2)\<rparr>))
         else Some (False, s2))"
proof -
  obtain s2 pos where s2: "addPlayerToList p now (cleanupList NormalList now (cleanupList PriorityList now s)) = Some s2"
    "wait_inv s2" "pos < length (queue s2)" "queue s2 ! pos = guid p" "getClientSlot p s2 = Some (Suc pos)"
    "map_of (playerReferences s2) (guid p) = Some (if premium p then PriorityList else NormalList, Suc pos)"
    using login_position [OF assms(1,2), of now] by blast
  have "\<not> (maxPlayers = 0 \<or> (priorityWaitList s = [] \<and> waitList s = [] \<and> online < maxPlayers))"
    using assms(4,5) by (auto simp: queue_def)
  then have "clientLogin p now online maxPlayers s =
      (if online + (pos + 1) \<le> maxPlayers
         then (if premium p then None
               else Some (True, s2\<lparr>waitList := filter (\<lambda>e. fst e \<noteq> guid p) (waitList s2),
                                  playerReferences := AList.delete (guid p) (playerReferences s2)\<rparr>))
         else Some (False, s2))"
    using assms(3) s2(1,6) by (auto simp: clientLogin_def Let_def)
  then show ?thesis using s2(2-5) by auto
qed

theorem clientLogin_queue_witness:
  "\<exists>s2. clientLogin \<lparr>guid = 7, premium = False, always_login = False\<rparr> 1000 3 3
     \<lparr>priorityWaitList = [], waitList = [], playerReferences = []\<rparr> = Some (False, s2) \<and> queue s2 \<noteq> []"
proof -
  let ?s = "\<lparr>priorityWaitList = [], waitList = [], playerReferences = []\<rparr>"
  let ?p = "\<lparr>guid = 7, premium = False, always_login = False\<rparr>"
  have "wait_inv ?s" "consistent ?p ?s" "\<not> (queue ?s = [] \<and> (3 :: nat) < 3)"
    by (auto simp: wait_inv_def consistent_def entries_def split: which_list.splits)
  from clientLogin_queue [OF this(1,2) _ _ this(3), of 1000] show ?thesis by auto
qed

end
