(* ===== verification/Ban.thy ===== *)
theory Ban
  imports Prelude
begin

text \<open>
  Connection throttling and bans (\<^verbatim>\<open>creatures/players/management/ban.cpp\<close>).  Times are natural numbers
  of milliseconds (throttling) and seconds (bans).  The ban tables of the database are maps, and the
  statements given to the database task queue are returned as data and can be applied to them.
\<close>

section \<open>Throttling\<close>

record connect_block =
  lastAttempt :: nat
  blockTime :: nat
  attempts :: nat

type_synonym connect_map = "nat \<Rightarrow> connect_block option"

definition acceptConnection :: "nat \<Rightarrow> nat \<Rightarrow> connect_map \<Rightarrow> bool \<times> connect_map" where
  "acceptConnection clientIP currentTime m = (case m clientIP of
      None \<Rightarrow> (True, m(clientIP \<mapsto> \<lparr>lastAttempt = currentTime, blockTime = 0, attempts = 1\<rparr>))
    | Some b \<Rightarrow>
        if blockTime b > currentTime then (False, m(clientIP \<mapsto> b\<lparr>blockTime := blockTime b + 250\<rparr>))
        else (let timeDiff = int currentTime - int (lastAttempt b); b1 = b\<lparr>lastAttempt := currentTime\<rparr> in
          if timeDiff \<le> 5000 then
            (let b2 = b1\<lparr>attempts := attempts b1 + 1\<rparr> in
             if attempts b2 > 5 then
               (let b3 = b2\<lparr>attempts := 0\<rparr> in
                if timeDiff \<le> 500 then (False, m(clientIP \<mapsto> b3\<lparr>blockTime := currentTime + 3000\<rparr>))
                else (True, m(clientIP \<mapsto> b3)))
             else (True, m(clientIP \<mapsto> b2)))
          else (True, m(clientIP \<mapsto> b1\<lparr>attempts := 1\<rparr>))))"

fun attempt_run :: "(nat \<times> nat) list \<Rightarrow> connect_map \<Rightarrow> bool list \<times> connect_map" where
  "attempt_run [] m = ([], m)"
| "attempt_run ((ip, t) # es) m = (case acceptConnection ip t m of
      (r, m') \<Rightarrow> (case attempt_run es m' of (rs, m'') \<Rightarrow> (r # rs, m'')))"

lemma accept_other: "ip \<noteq> ip' \<Longrightarrow> snd (acceptConnection ip t m) ip' = m ip'"
  by (simp add: acceptConnection_def Let_def split: option.splits)

lemma accept_blocked:
  "m ip = Some b \<Longrightarrow> t < blockTime b \<Longrightarrow>
   acceptConnection ip t m = (False, m(ip \<mapsto> b\<lparr>blockTime := blockTime b + 250\<rparr>))"
  by (simp add: acceptConnection_def)

lemma accept_slow:
  "m ip = Some b \<Longrightarrow> blockTime b \<le> t \<Longrightarrow> lastAttempt b + 5000 < t \<Longrightarrow>
   acceptConnection ip t m = (True, m(ip \<mapsto> b\<lparr>lastAttempt := t, attempts := 1\<rparr>))"
  by (simp add: acceptConnection_def Let_def)

lemma accept_fast:
  "m ip = Some b \<Longrightarrow> blockTime b \<le> t \<Longrightarrow> t \<le> lastAttempt b + 500 \<Longrightarrow>
   acceptConnection ip t m = (if attempts b < 5 then (True, m(ip \<mapsto> b\<lparr>lastAttempt := t, attempts := attempts b + 1\<rparr>))
      else (False, m(ip \<mapsto> b\<lparr>lastAttempt := t, attempts := 0, blockTime := t + 3000\<rparr>)))"
  by (auto simp: acceptConnection_def Let_def)

text \<open>A burst of attempts from one address, each within half a second of the one before.\<close>

fun burst :: "nat \<Rightarrow> nat list \<Rightarrow> bool" where
  "burst t [] = True"
| "burst t (u # us) = (t \<le> u \<and> u \<le> t + 500 \<and> burst u us)"

lemma burst_counts:
  assumes "m ip = Some b" "blockTime b \<le> lastAttempt b" "burst (lastAttempt b) ts" "attempts b + length ts \<le> 5"
  shows "attempt_run (map (Pair ip) ts) m = (replicate (length ts) True,
     m(ip \<mapsto> b\<lparr>lastAttempt := last (lastAttempt b # ts), attempts := attempts b + length ts\<rparr>))"
  using assms
proof (induction ts arbitrary: m b)
  case (Cons t ts)
  let ?b = "b\<lparr>lastAttempt := t, attempts := attempts b + 1\<rparr>"
  have step: "acceptConnection ip t m = (True, m(ip \<mapsto> ?b))"
    using accept_fast [of m ip b t] Cons.prems by simp
  have "attempt_run (map (Pair ip) ts) (m(ip \<mapsto> ?b)) = (replicate (length ts) True,
     (m(ip \<mapsto> ?b))(ip \<mapsto> ?b\<lparr>lastAttempt := last (lastAttempt ?b # ts), attempts := attempts ?b + length ts\<rparr>))"
    using Cons.prems by (intro Cons.IH) auto
  then show ?case using step by (auto simp del: fun_upd_apply)
qed (auto simp: fun_upd_idem)

lemma attempt_run_append:
  "attempt_run (es @ fs) m = (case attempt_run es m of (rs, m') \<Rightarrow> (case attempt_run fs m' of (rs', m'') \<Rightarrow> (rs @ rs', m'')))"
  by (induction es arbitrary: m) (auto simp: case_prod_unfold)

text \<open>
  Flooding is stopped and polite clients are not.  An address seen for the first time that
  connects six times, each attempt at most half a second after the one before, has exactly the sixth
  refused, and every further attempt within the next three seconds too; an address whose attempts are
  more than five seconds apart is never refused; and attempts from one address never change what is
  recorded of another.
\<close>
theorem connection_throttle:
  assumes "m ip = None" "burst t0 [t1, t2, t3, t4, t5]" "t < t5 + 3000"
    and "sorted_wrt (\<lambda>a b. a + 5000 < b) (u0 # us)"
  shows "fst (attempt_run (map (Pair ip) [t0, t1, t2, t3, t4, t5, t]) m) = [True, True, True, True, True, False, False]
    \<and> fst (attempt_run (map (Pair ip) (u0 # us)) m) = replicate (Suc (length us)) True
    \<and> (\<forall>ip'. ip' \<noteq> ip \<longrightarrow> snd (attempt_run (map (Pair ip) (u0 # us)) m) ip' = m ip')"
proof (intro conjI)
  let ?b = "\<lparr>lastAttempt = t0, blockTime = 0, attempts = 1\<rparr>"
  have first: "acceptConnection ip t0 m = (True, m(ip \<mapsto> ?b))" using assms(1) by (simp add: acceptConnection_def)
  have "attempt_run (map (Pair ip) [t1, t2, t3, t4]) (m(ip \<mapsto> ?b)) = (replicate 4 True,
     (m(ip \<mapsto> ?b))(ip \<mapsto> ?b\<lparr>lastAttempt := t4, attempts := 5\<rparr>))"
    using assms(2) by (subst burst_counts [of _ _ ?b]) (auto simp: eval_nat_numeral)
  moreover have "acceptConnection ip t5 ((m(ip \<mapsto> ?b))(ip \<mapsto> ?b\<lparr>lastAttempt := t4, attempts := 5\<rparr>))
      = (False, m(ip \<mapsto> \<lparr>lastAttempt = t5, blockTime = t5 + 3000, attempts = 0\<rparr>))"
    using assms(2) by (subst accept_fast [of _ _ "?b\<lparr>lastAttempt := t4, attempts := 5\<rparr>"]) auto
  moreover have "fst (acceptConnection ip t (m(ip \<mapsto> \<lparr>lastAttempt = t5, blockTime = t5 + 3000, attempts = 0\<rparr>))) = False"
    using assms(3) by (simp add: acceptConnection_def)
  ultimately have "fst (attempt_run (map (Pair ip) [t1, t2, t3, t4] @ [(ip, t5), (ip, t)]) (m(ip \<mapsto> ?b)))
      = [True, True, True, True, False, False]"
    unfolding attempt_run_append by (simp add: case_prod_unfold eval_nat_numeral)
  then show "fst (attempt_run (map (Pair ip) [t0, t1, t2, t3, t4, t5, t]) m) = [True, True, True, True, True, False, False]"
    using first by (simp add: case_prod_unfold)
next
  have slow: "fst (attempt_run (map (Pair ip) us) m) = replicate (length us) True"
    if "m ip = Some b" "blockTime b = 0" "sorted_wrt (\<lambda>a b. a + 5000 < b) (lastAttempt b # us)" for m b us
    using that
  proof (induction us arbitrary: m b)
    case (Cons u us)
    have "acceptConnection ip u m = (True, m(ip \<mapsto> b\<lparr>lastAttempt := u, attempts := 1\<rparr>))"
      using Cons.prems by (intro accept_slow) auto
    moreover have "fst (attempt_run (map (Pair ip) us) (m(ip \<mapsto> b\<lparr>lastAttempt := u, attempts := 1\<rparr>))) = replicate (length us) True"
      using Cons.prems by (intro Cons.IH [of _ "b\<lparr>lastAttempt := u, attempts := 1\<rparr>"]) auto
    ultimately show ?case by (simp add: case_prod_unfold)
  qed simp
  have first: "acceptConnection ip u0 m = (True, m(ip \<mapsto> \<lparr>lastAttempt = u0, blockTime = 0, attempts = 1\<rparr>))"
    using assms(1) by (simp add: acceptConnection_def)
  show "fst (attempt_run (map (Pair ip) (u0 # us)) m) = replicate (Suc (length us)) True"
    using first slow [of _ "\<lparr>lastAttempt = u0, blockTime = 0, attempts = 1\<rparr>" us] assms(4)
    by (simp add: case_prod_unfold)
  have "snd (attempt_run (map (Pair ip) vs) n) ip' = n ip'" if "ip' \<noteq> ip" for ip' vs n
    using that accept_other [of ip ip'] by (induction vs arbitrary: n) (auto simp: case_prod_unfold)
  then show "\<forall>ip'. ip' \<noteq> ip \<longrightarrow> snd (attempt_run (map (Pair ip) (u0 # us)) m) ip' = m ip'" by blast
qed

theorem connection_throttle_witness:
  "fst (attempt_run (map (Pair 9) [10, 20, 30, 40, 50, 60, 2000]) Map.empty)
     = [True, True, True, True, True, False, False]"
  using connection_throttle [of Map.empty 9 10 20 30 40 50 60 2000 0 "[6000]"] by simp

section \<open>Bans\<close>

record ban_row =
  reason :: string
  expires_at :: int
  banned_at :: int
  banned_by :: nat

record ban_info =
  bannedBy :: string
  info_reason :: string
  expiresAt :: int

record ban_tables =
  account_bans :: "nat \<Rightarrow> ban_row option"
  ban_history :: "(nat \<times> ban_row) list"
  ip_bans :: "nat \<Rightarrow> ban_row option"
  namelocks :: "nat set"
  player_names :: "nat \<Rightarrow> string option"

datatype ban_task = MoveToHistory nat ban_row | DeleteAccountBan nat | DeleteIpBan nat

definition name_of :: "ban_tables \<Rightarrow> nat \<Rightarrow> string" where
  "name_of db i = (case player_names db i of None \<Rightarrow> [] | Some n \<Rightarrow> n)"

definition isAccountBanned :: "nat \<Rightarrow> int \<Rightarrow> ban_tables \<Rightarrow> ban_info option \<times> ban_task list" where
  "isAccountBanned accountId now db = (case account_bans db accountId of
      None \<Rightarrow> (None, [])
    | Some r \<Rightarrow> if expires_at r \<noteq> 0 \<and> now > expires_at r
        then (None, [MoveToHistory accountId r, DeleteAccountBan accountId])
        else (Some \<lparr>bannedBy = name_of db (banned_by r), info_reason = reason r, expiresAt = expires_at r\<rparr>, []))"

definition isIpBanned :: "nat \<Rightarrow> int \<Rightarrow> ban_tables \<Rightarrow> ban_info option \<times> ban_task list" where
  "isIpBanned clientIP now db = (if clientIP = 0 then (None, []) else
     (case ip_bans db clientIP of
        None \<Rightarrow> (None, [])
      | Some r \<Rightarrow> if expires_at r \<noteq> 0 \<and> now > expires_at r then (None, [DeleteIpBan clientIP])
          else (Some \<lparr>bannedBy = name_of db (banned_by r), info_reason = reason r, expiresAt = expires_at r\<rparr>, [])))"

definition isPlayerNamelocked :: "nat \<Rightarrow> ban_tables \<Rightarrow> bool" where
  "isPlayerNamelocked playerId db = (playerId \<in> namelocks db)"

primrec run_task :: "ban_task \<Rightarrow> ban_tables \<Rightarrow> ban_tables" where
  "run_task (MoveToHistory a r) db = db\<lparr>ban_history := ban_history db @ [(a, r)]\<rparr>"
| "run_task (DeleteAccountBan a) db = db\<lparr>account_bans := (account_bans db)(a := None)\<rparr>"
| "run_task (DeleteIpBan ip) db = db\<lparr>ip_bans := (ip_bans db)(ip := None)\<rparr>"

text \<open>
  A ban holds until it expires and then leaves exactly one trace: asking again after the queued
  statements have run gives the same answer and queues nothing more; no ban is lost while it is in
  force, a permanent one (expiry zero) never expires, and an expired account ban is in the history.
\<close>
theorem account_ban_lifecycle:
  "case isAccountBanned a now db of (info, tasks) \<Rightarrow>
     (info \<noteq> None \<longleftrightarrow> (\<exists>r. account_bans db a = Some r \<and> (expires_at r = 0 \<or> now \<le> expires_at r)))
     \<and> isAccountBanned a now (fold run_task tasks db) = (info, [])
     \<and> (case account_bans db a of
          None \<Rightarrow> fold run_task tasks db = db
        | Some r \<Rightarrow> (if info \<noteq> None then fold run_task tasks db = db
            else account_bans (fold run_task tasks db) a = None
              \<and> ban_history (fold run_task tasks db) = ban_history db @ [(a, r)]))
     \<and> account_bans (fold run_task tasks db) = (if info = None then (account_bans db)(a := None) else account_bans db)"
  by (auto simp: isAccountBanned_def split: option.splits)

end
