(* ===== verification/Sha1.thy ===== *)
theory Sha1
  imports Prelude
begin

text \<open>
  SHA-1 and the authenticator token (\<^verbatim>\<open>utils/tools.cpp\<close>, transformToSHA1 and generateToken).  Strings
  are lists of bytes.  The code absorbs the input byte by byte into a 64-byte block, counting bits in
  two 32-bit words, and pads the last block in place; it is compared with the definition of the hash
  as a fold over the blocks of the padded message.
\<close>

unbundle bit_operations_syntax

type_synonym sha_state = "u32 \<times> u32 \<times> u32 \<times> u32 \<times> u32"

definition circularShift :: "nat \<Rightarrow> u32 \<Rightarrow> u32" where
  "circularShift bits v = (push_bit bits v) OR (drop_bit (32 - bits) v)"

definition block_word :: "bytes \<Rightarrow> nat \<Rightarrow> u32" where
  "block_word b i = (push_bit 24 (ucast (b ! (4 * i)))) OR (push_bit 16 (ucast (b ! (4 * i + 1))))
     OR (push_bit 8 (ucast (b ! (4 * i + 2)))) OR ucast (b ! (4 * i + 3))"

primrec extend_schedule :: "nat \<Rightarrow> u32 list \<Rightarrow> u32 list" where
  "extend_schedule 0 W = W"
| "extend_schedule (Suc n) W = (let i = length W in
     extend_schedule n (W @ [circularShift 1 (W ! (i - 3) XOR W ! (i - 8) XOR W ! (i - 14) XOR W ! (i - 16))]))"

definition schedule :: "bytes \<Rightarrow> u32 list" where
  "schedule b = extend_schedule 64 (map (block_word b) [0..<16])"

definition sha_round :: "(u32 \<Rightarrow> u32 \<Rightarrow> u32 \<Rightarrow> u32) \<Rightarrow> u32 \<Rightarrow> u32 \<Rightarrow> sha_state \<Rightarrow> sha_state" where
  "sha_round f k w = (\<lambda>(A, B, C, D, E). (circularShift 5 A + f B C D + E + w + k, A, circularShift 30 B, C, D))"

definition processSHA1MessageBlock :: "bytes \<Rightarrow> sha_state \<Rightarrow> sha_state" where
  "processSHA1MessageBlock b H = (let W = schedule b;
     r1 = fold (\<lambda>i. sha_round (\<lambda>B C D. (B AND C) OR (NOT B AND D)) 0x5A827999 (W ! i)) [0..<20] H;
     r2 = fold (\<lambda>i. sha_round (\<lambda>B C D. B XOR C XOR D) 0x6ED9EBA1 (W ! i)) [20..<40] r1;
     r3 = fold (\<lambda>i. sha_round (\<lambda>B C D. (B AND C) OR (B AND D) OR (C AND D)) 0x8F1BBCDC (W ! i)) [40..<60] r2;
     r4 = fold (\<lambda>i. sha_round (\<lambda>B C D. B XOR C XOR D) 0xCA62C1D6 (W ! i)) [60..<80] r3
   in (case (H, r4) of ((h0, h1, h2, h3, h4), (A, B, C, D, E)) \<Rightarrow> (h0 + A, h1 + B, h2 + C, h3 + D, h4 + E)))"

definition sha_init :: sha_state where
  "sha_init = (0x67452301, 0xEFCDAB89, 0x98BADCFE, 0x10325476, 0xC3D2E1F0)"

record sha_ctx =
  sha_H :: sha_state
  messageBlock :: bytes
  length_low :: u32
  length_high :: u32

definition absorb_byte :: "u8 \<Rightarrow> sha_ctx \<Rightarrow> sha_ctx" where
  "absorb_byte ch c = (let block = messageBlock c @ [ch]; low = length_low c + 8;
       high = (if low = 0 then length_high c + 1 else length_high c);
       c' = c\<lparr>length_low := low, length_high := high\<rparr>
     in if length block = 64 then c'\<lparr>sha_H := processSHA1MessageBlock block (sha_H c), messageBlock := []\<rparr>
        else c'\<lparr>messageBlock := block\<rparr>)"

definition word_bytes :: "u32 \<Rightarrow> bytes" where
  "word_bytes w = [ucast (drop_bit 24 w), ucast (drop_bit 16 w), ucast (drop_bit 8 w), ucast w]"

definition finish :: "sha_ctx \<Rightarrow> sha_state" where
  "finish c = (let b1 = messageBlock c @ [0x80];
       (H, b2) = (if length b1 > 56 then (processSHA1MessageBlock (b1 @ replicate (64 - length b1) 0) (sha_H c), [])
                  else (sha_H c, b1));
       b3 = b2 @ replicate (56 - length b2) 0
     in processSHA1MessageBlock (b3 @ word_bytes (length_high c) @ word_bytes (length_low c)) H)"

definition digest_bytes :: "sha_state \<Rightarrow> bytes" where
  "digest_bytes = (\<lambda>(a, b, c, d, e). concat (map word_bytes [a, b, c, d, e]))"

definition hexDigits :: string where
  "hexDigits = ''0123456789abcdef''"

definition hex_byte :: "u8 \<Rightarrow> string" where
  "hex_byte b = [hexDigits ! unat (drop_bit 4 b), hexDigits ! unat (b AND 15)]"

definition sha1_state :: "bytes \<Rightarrow> sha_state" where
  "sha1_state input = finish (fold absorb_byte input
     \<lparr>sha_H = sha_init, messageBlock = [], length_low = 0, length_high = 0\<rparr>)"

definition transformToSHA1 :: "bytes \<Rightarrow> string" where
  "transformToSHA1 input = concat (map hex_byte (digest_bytes (sha1_state input)))"

section \<open>The definition of the hash\<close>

function chunks :: "bytes \<Rightarrow> bytes list" where
  "chunks xs = (if length xs < 64 then [] else take 64 xs # chunks (drop 64 xs))"
  by auto
termination by (relation "measure length") auto

declare chunks.simps [simp del]

definition sha_padding :: "nat \<Rightarrow> bytes" where
  "sha_padding n = 0x80 # replicate ((119 - n mod 64) mod 64) 0
     @ word_bytes (word_of_nat (8 * n div 2 ^ 32)) @ word_bytes (word_of_nat (8 * n))"

definition sha1_spec :: "bytes \<Rightarrow> sha_state" where
  "sha1_spec msg = fold processSHA1MessageBlock (chunks (msg @ sha_padding (length msg))) sha_init"

lemma chunks_short [simp]: "length xs < 64 \<Longrightarrow> chunks xs = []"
  by (subst chunks.simps) simp

lemma chunks_block [simp]: "length b = 64 \<Longrightarrow> chunks (b @ xs) = b # chunks xs"
  by (subst chunks.simps) simp

lemma chunks_one [simp]: "length b = 64 \<Longrightarrow> chunks b = [b]"
  using chunks_block [of b "[]"] by simp

text \<open>The state after absorbing a prefix: complete blocks processed, the rest in the block.\<close>

definition absorbed :: "bytes \<Rightarrow> sha_ctx \<Rightarrow> bool" where
  "absorbed msg c \<longleftrightarrow> (\<exists>blks. msg = concat blks @ messageBlock c \<and> (\<forall>b \<in> set blks. length b = 64)
     \<and> length (messageBlock c) < 64 \<and> sha_H c = fold processSHA1MessageBlock blks sha_init)
     \<and> length_low c = word_of_nat (8 * length msg) \<and> length_high c = word_of_nat (8 * length msg div 2 ^ 32)"

lemma bit_count_carry:
  fixes m :: nat
  shows "8 * Suc m div 2 ^ 32 = (if (8 * Suc m) mod 2 ^ 32 = 0 then 8 * m div 2 ^ 32 + 1 else 8 * m div 2 ^ 32)"
proof -
  have s: "8 * Suc m div 2 ^ 32 = Suc m div 536870912" "8 * m div 2 ^ 32 = m div 536870912"
    using div_mult_mult1 [of 8 "Suc m" 536870912] div_mult_mult1 [of 8 m 536870912] by simp_all
  have "(8 * Suc m) mod 2 ^ 32 = 8 * (Suc m mod 536870912)"
    using mult_mod_right [of 8 "Suc m" 536870912] by simp
  then show ?thesis unfolding s by (simp add: div_Suc)
qed

lemma low_zero: "((word_of_nat (8 * m) :: u32) = 0) = ((8 * m) mod 2 ^ 32 = 0)"
  by (simp only: word_of_nat_eq_0_iff dvd_eq_mod_eq_0) simp

lemma absorb_step:
  assumes "absorbed msg c"
  shows "absorbed (msg @ [ch]) (absorb_byte ch c)"
proof -
  obtain blks where b: "msg = concat blks @ messageBlock c" "\<forall>b \<in> set blks. length b = 64"
    "length (messageBlock c) < 64" "sha_H c = fold processSHA1MessageBlock blks sha_init"
    using assms by (auto simp: absorbed_def)
  let ?m = "length msg"
  have low: "length_low c + 8 = word_of_nat (8 * Suc ?m)"
    using assms by (simp add: absorbed_def)
  have high: "(if length_low c + 8 = 0 then length_high c + 1 else length_high c) = word_of_nat (8 * Suc ?m div 2 ^ 32)"
    unfolding low low_zero bit_count_carry using assms by (simp add: absorbed_def)
  have len: "length (msg @ [ch]) = Suc ?m" by simp
  show ?thesis
  proof (cases "length (messageBlock c @ [ch]) = 64")
    case True
    let ?blks = "blks @ [messageBlock c @ [ch]]"
    have "msg @ [ch] = concat ?blks" "\<forall>b \<in> set ?blks. length b = 64"
      "processSHA1MessageBlock (messageBlock c @ [ch]) (sha_H c) = fold processSHA1MessageBlock ?blks sha_init"
      using b True by auto
    then show ?thesis using True low high unfolding absorbed_def absorb_byte_def Let_def len
      by (intro conjI exI [of _ ?blks]) simp_all
  next
    case False
    then show ?thesis using b low high unfolding absorbed_def absorb_byte_def Let_def len
      by (intro conjI exI [of _ blks]) simp_all
  qed
qed

lemma absorb_all: "absorbed msg c \<Longrightarrow> absorbed (msg @ xs) (fold absorb_byte xs c)"
proof (induction xs arbitrary: msg c)
  case (Cons x xs)
  then show ?case using Cons.IH [OF absorb_step [OF Cons.prems, of x]] by simp
qed simp

lemma chunks_concat:
  "\<forall>b \<in> set blks. length b = 64 \<Longrightarrow> chunks (concat blks @ xs) = blks @ chunks xs"
  by (induction blks) auto

lemma length_concat_blocks: "\<forall>b \<in> set blks. length b = 64 \<Longrightarrow> length (concat blks) = 64 * length blks"
  by (induction blks) auto

lemma length_word_bytes [simp]: "length (word_bytes w) = 4"
  by (simp add: word_bytes_def)

lemma finish_spec:
  assumes "absorbed msg c"
  shows "finish c = sha1_spec msg"
proof -
  obtain blks where b: "msg = concat blks @ messageBlock c" "\<forall>b \<in> set blks. length b = 64"
    "length (messageBlock c) < 64" "sha_H c = fold processSHA1MessageBlock blks sha_init"
    using assms by (auto simp: absorbed_def)
  let ?L = "word_bytes (length_high c) @ word_bytes (length_low c)"
  let ?n = "length (messageBlock c)"
  have mod: "length msg mod 64 = ?n" using b(1-3) by (simp add: length_concat_blocks)
  have pad: "sha_padding (length msg) = 0x80 # replicate ((119 - ?n) mod 64) 0 @ ?L"
    using assms by (simp add: sha_padding_def mod absorbed_def)
  have spec: "sha1_spec msg = fold processSHA1MessageBlock (chunks (messageBlock c @ sha_padding (length msg))) (sha_H c)"
    unfolding sha1_spec_def by (subst b(1)) (simp add: chunks_concat [OF b(2)] b(4))
  show ?thesis
  proof (cases "?n < 56")
    case True
    have k: "(119 - ?n) mod 64 = 55 - ?n"
    proof -
      have "119 - ?n = 64 + (55 - ?n)" using True by simp
      moreover have "(64 + (55 - ?n)) mod 64 = (55 - ?n) mod 64" by (rule mod_add_self1)
      moreover have "(55 - ?n) mod 64 = 55 - ?n" by (rule mod_less) simp
      ultimately show ?thesis by (simp only:)
    qed
    have "messageBlock c @ sha_padding (length msg) = messageBlock c @ [0x80] @ replicate (55 - ?n) 0 @ ?L"
      unfolding pad k by simp
    then have "chunks (messageBlock c @ sha_padding (length msg)) = [messageBlock c @ [0x80] @ replicate (55 - ?n) 0 @ ?L]"
      using True by simp
    then show ?thesis using True by (simp add: spec finish_def Let_def)
  next
    case False
    have k: "(119 - ?n) mod 64 = (63 - ?n) + 56" using False b(3) by simp
    let ?b1 = "messageBlock c @ [0x80] @ replicate (63 - ?n) 0"
    let ?b2 = "replicate 56 0 @ ?L"
    have "messageBlock c @ sha_padding (length msg) = ?b1 @ ?b2"
      unfolding pad k replicate_add by simp
    moreover have "length ?b1 = 64" "length ?b2 = 64" using b(3) by simp_all
    ultimately have "chunks (messageBlock c @ sha_padding (length msg)) = [?b1, ?b2]"
      by (simp only: chunks_block chunks_one)
    then show ?thesis using False by (simp add: spec finish_def Let_def)
  qed
qed

lemma sha1_state_spec: "sha1_state msg = sha1_spec msg"
proof -
  have "absorbed [] \<lparr>sha_H = sha_init, messageBlock = [], length_low = 0, length_high = 0\<rparr>"
    by (auto simp: absorbed_def intro!: exI [of _ "[]"])
  from absorb_all [OF this, of msg] show ?thesis by (simp add: sha1_state_def finish_spec)
qed


section \<open>Authenticator tokens\<close>

definition AUTHENTICATOR_DIGITS :: nat where
  "AUTHENTICATOR_DIGITS = 6"

text \<open>The loop \<^verbatim>\<open>for (uint8_t i = 8; --i; ticks >>= 8)\<close>: positions seven down to one.\<close>

primrec store_ticks :: "nat \<Rightarrow> u32 \<Rightarrow> bytes \<Rightarrow> bytes" where
  "store_ticks 0 ticks m = m"
| "store_ticks (Suc i) ticks m = store_ticks i (drop_bit 8 ticks) (m[Suc i := ucast (ticks AND 0xFF)])"

definition xor_key :: "u8 \<Rightarrow> bytes \<Rightarrow> bytes" where
  "xor_key pad k = map (\<lambda>b. pad XOR b) k @ replicate (64 - length k) pad"

definition hex_char :: "char \<Rightarrow> nat" where
  "hex_char c = length (takeWhile (\<lambda>d. d \<noteq> c) hexDigits)"

definition stol16 :: "string \<Rightarrow> nat" where
  "stol16 s = foldl (\<lambda>a c. 16 * a + hex_char c) 0 s"

fun from_hex :: "string \<Rightarrow> bytes" where
  "from_hex (a # b # s) = word_of_nat (stol16 [a, b]) # from_hex s"
| "from_hex _ = []"

text \<open>Keys longer than the 64-byte pad are written past its end: None.\<close>

definition generateToken :: "bytes \<Rightarrow> u32 \<Rightarrow> string option" where
  "generateToken k ticks = (if length k > 64 then None else Some (
     let msg = store_ticks 7 ticks (replicate 8 0);
         h1 = transformToSHA1 (xor_key 0x36 k @ msg);
         h2 = transformToSHA1 (xor_key 0x5C k @ from_hex h1);
         offset = stol16 (take 1 (drop 39 h2)) mod 16;
         truncHash = stol16 (take 8 (drop (2 * offset) h2)) mod 2 ^ 31;
         text = decimal truncHash; hashLen = length text
     in replicate (AUTHENTICATOR_DIGITS - min hashLen AUTHENTICATOR_DIGITS) (digit 0)
        @ drop (hashLen - min hashLen AUTHENTICATOR_DIGITS) text))"

text \<open>The counter-based one-time password of RFC 4226 over the hash.\<close>

definition sha1_bytes :: "bytes \<Rightarrow> bytes" where
  "sha1_bytes msg = digest_bytes (sha1_spec msg)"

definition hmac_sha1 :: "bytes \<Rightarrow> bytes \<Rightarrow> bytes" where
  "hmac_sha1 k msg = sha1_bytes (xor_key 0x5C k @ sha1_bytes (xor_key 0x36 k @ msg))"

definition counter_bytes :: "u32 \<Rightarrow> bytes" where
  "counter_bytes t = [0, 0, 0, 0] @ word_bytes t"

primrec fixed_digits :: "nat \<Rightarrow> nat \<Rightarrow> string" where
  "fixed_digits 0 n = []"
| "fixed_digits (Suc w) n = fixed_digits w (n div 10) @ [digit (n mod 10)]"

definition hotp :: "bytes \<Rightarrow> u32 \<Rightarrow> string" where
  "hotp k counter = (let h = hmac_sha1 k (counter_bytes counter); off = unat (h ! 19) mod 16;
     v = ((unat (h ! off) * 256 + unat (h ! (off + 1))) * 256 + unat (h ! (off + 2))) * 256 + unat (h ! (off + 3))
   in fixed_digits 6 (v mod 2 ^ 31 mod 10 ^ 6))"

lemma store_ticks_counter: "store_ticks 7 t (replicate 8 0) = counter_bytes t"
proof -
  have z: "drop_bit 8 (drop_bit 8 (drop_bit 8 (drop_bit 8 t))) = 0"
    by (intro bit_word_eqI) (simp add: bit_drop_bit_eq)
  have m: "(0xFF :: u32) = mask 8" by (simp add: mask_eq_exp_minus_1)
  have f: "ucast (w AND 0xFF) = (ucast w :: u8)" for w :: u32
    unfolding m by (intro bit_word_eqI) (auto simp: bit_simps)
  have "(7 :: nat) = Suc (Suc (Suc (Suc (Suc (Suc (Suc 0))))))" by simp
  moreover have "replicate 8 (0 :: u8) = [0, 0, 0, 0, 0, 0, 0, 0]" by (simp add: numeral_eq_Suc)
  ultimately have "store_ticks 7 t (replicate 8 0) =
      store_ticks (Suc (Suc (Suc (Suc (Suc (Suc (Suc 0))))))) t [0, 0, 0, 0, 0, 0, 0, 0]" by (simp only:)
  then show ?thesis using z by (simp add: counter_bytes_def word_bytes_def f)
qed

lemma index_of_nth: "distinct xs \<Longrightarrow> i < length xs \<Longrightarrow> length (takeWhile (\<lambda>d. d \<noteq> xs ! i) xs) = i"
proof (induction xs arbitrary: i)
  case (Cons x xs)
  then show ?case by (cases i) (auto simp: nth_mem)
qed simp

lemma hex_char_digit: "i < 16 \<Longrightarrow> hex_char (hexDigits ! i) = i"
  unfolding hex_char_def by (rule index_of_nth) (simp_all add: hexDigits_def)

lemma nibbles:
  fixes b :: u8
  shows "unat (drop_bit 4 b) = unat b div 16" "unat (b AND 15) = unat b mod 16"
proof -
  show "unat (drop_bit 4 b) = unat b div 16" by (simp add: unat_drop_bit_eq drop_bit_nat_def)
  have "b AND 15 = take_bit 4 b" by (simp add: take_bit_eq_mask mask_eq_exp_minus_1)
  then show "unat (b AND 15) = unat b mod 16" by (simp add: unsigned_take_bit_eq take_bit_nat_def)
qed

lemma hex_byte_chars:
  "hex_byte b = [hexDigits ! (unat b div 16), hexDigits ! (unat b mod 16)]"
  by (simp add: hex_byte_def nibbles)

lemma hex_byte_values: "map hex_char (hex_byte b) = [unat b div 16, unat b mod 16]"
  using u8_lt [of b] by (simp add: hex_byte_chars hex_char_digit less_mult_imp_div_less)

lemma stol16_byte: "stol16 (hex_byte b) = unat b"
  using hex_byte_values [of b] by (simp add: stol16_def hex_byte_chars)

lemma from_hex_bytes: "from_hex (concat (map hex_byte bs)) = bs"
proof (induction bs)
  case (Cons b bs)
  have "hex_byte b = [hexDigits ! (unat b div 16), hexDigits ! (unat b mod 16)]" by (rule hex_byte_chars)
  then show ?case using Cons stol16_byte [of b] by simp
qed simp

lemma stol16_append: "stol16 (s @ [a, b]) = 256 * stol16 s + (16 * hex_char a + hex_char b)"
  by (simp add: stol16_def)

lemma stol16_append_byte: "stol16 (s @ hex_byte b) = 256 * stol16 s + unat b"
  using stol16_append [of s "hexDigits ! (unat b div 16)" "hexDigits ! (unat b mod 16)"] hex_byte_values [of b]
  by (simp add: hex_byte_chars)

lemma drop_hex: "drop (2 * i) (concat (map hex_byte bs)) = concat (map hex_byte (drop i bs))"
proof (induction bs arbitrary: i)
  case (Cons b bs)
  show ?case
  proof (cases i)
    case (Suc j)
    then show ?thesis using Cons [of j] by (simp add: hex_byte_chars)
  qed simp
qed simp

lemma truncated_value:
  assumes "i + 4 \<le> length bs"
  shows "stol16 (take 8 (drop (2 * i) (concat (map hex_byte bs)))) =
     ((unat (bs ! i) * 256 + unat (bs ! (i + 1))) * 256 + unat (bs ! (i + 2))) * 256 + unat (bs ! (i + 3))"
proof -
  have "drop i bs = bs ! i # bs ! (i + 1) # bs ! (i + 2) # bs ! (i + 3) # drop (i + 4) bs"
    using assms by (simp add: Cons_nth_drop_Suc numeral_eq_Suc)
  then have "drop (2 * i) (concat (map hex_byte bs)) =
      (((hex_byte (bs ! i) @ hex_byte (bs ! (i + 1))) @ hex_byte (bs ! (i + 2))) @ hex_byte (bs ! (i + 3)))
      @ concat (map hex_byte (drop (i + 4) bs))"
    by (simp add: drop_hex)
  moreover have "length (hex_byte b) = 2" for b by (simp add: hex_byte_def)
  ultimately have "take 8 (drop (2 * i) (concat (map hex_byte bs))) =
      (((hex_byte (bs ! i) @ hex_byte (bs ! (i + 1))) @ hex_byte (bs ! (i + 2))) @ hex_byte (bs ! (i + 3)))"
    by simp
  then show ?thesis by (simp only: stol16_append_byte stol16_byte) simp
qed

lemma last_nibble:
  assumes "length bs = 20"
  shows "stol16 (take 1 (drop 39 (concat (map hex_byte bs)))) = unat (bs ! 19) mod 16"
proof -
  have d: "drop 19 bs = [bs ! 19]" using assms by (simp add: Cons_nth_drop_Suc [symmetric])
  have "drop 39 (concat (map hex_byte bs)) = drop 1 (drop (2 * 19) (concat (map hex_byte bs)))"
    by (simp only: drop_drop) simp
  also have "\<dots> = [hexDigits ! (unat (bs ! 19) mod 16)]" unfolding drop_hex d by (simp add: hex_byte_chars)
  finally show ?thesis by (simp add: stol16_def hex_char_digit)
qed

lemma fixed_digits_mod: "fixed_digits w (n mod 10 ^ w) = fixed_digits w n"
proof (induction w arbitrary: n)
  case (Suc w)
  have "n mod 10 ^ Suc w div 10 = n div 10 mod 10 ^ w" 
    by (simp add: mod_mult2_eq)
  moreover have "n mod 10 ^ Suc w mod 10 = n mod 10" by (simp add: mod_mod_cancel)
  ultimately show ?case using Suc [of "n div 10"] by simp
qed simp

lemma fixed_digits_zero: "fixed_digits w 0 = replicate w (digit 0)"
  by (induction w) (simp_all add: replicate_append_same)

lemma last_digits:
  "replicate (Suc w - min (length (decimal n)) (Suc w)) (digit 0)
     @ drop (length (decimal n) - min (length (decimal n)) (Suc w)) (decimal n) = fixed_digits (Suc w) n"
proof (induction w arbitrary: n)
  case 0
  show ?case by (cases "n < 10") (simp_all add: decimal.simps [of n])
next
  case (Suc w)
  show ?case
  proof (cases "n < 10")
    case True
    then show ?thesis by (simp add: decimal.simps [of n] fixed_digits_zero replicate_append_same)
  next
    case False
    let ?d = "decimal (n div 10)"
    have d: "decimal n = ?d @ [digit (n mod 10)]" using False by (simp add: decimal.simps [of n])
    show ?thesis using Suc [of "n div 10"] unfolding d by (simp add: min_def split: if_splits)
  qed
qed

text \<open>
  generateToken computes the standard one-time password: for every key of at most 64 bytes and
  every counter the six digits are those of HOTP (RFC 4226), HMAC-SHA1 with dynamic truncation, with
  leading zeros kept.
\<close>
theorem generateToken_is_hotp:
  assumes "length k \<le> 64"
  shows "generateToken k ticks = Some (hotp k ticks)"
proof -
  have sha: "transformToSHA1 m = concat (map hex_byte (sha1_bytes m))" for m
    by (simp add: transformToSHA1_def sha1_bytes_def sha1_state_spec)
  let ?h = "hmac_sha1 k (counter_bytes ticks)"
  have len: "length ?h = 20"
    by (simp add: hmac_sha1_def sha1_bytes_def digest_bytes_def split: prod.splits)
  let ?off = "unat (?h ! 19) mod 16"
  have h2: "transformToSHA1 (xor_key 0x5C k @ from_hex (transformToSHA1 (xor_key 0x36 k @ counter_bytes ticks)))
      = concat (map hex_byte ?h)"
    unfolding sha from_hex_bytes hmac_sha1_def ..
  have off: "stol16 (take 1 (drop 39 (concat (map hex_byte ?h)))) mod 16 = ?off"
    unfolding last_nibble [OF len] by simp
  have v: "stol16 (take 8 (drop (2 * ?off) (concat (map hex_byte ?h)))) =
     ((unat (?h ! ?off) * 256 + unat (?h ! (?off + 1))) * 256 + unat (?h ! (?off + 2))) * 256 + unat (?h ! (?off + 3))"
    by (rule truncated_value) (simp add: len)
  have six: "AUTHENTICATOR_DIGITS = Suc 5" by (simp add: AUTHENTICATOR_DIGITS_def)
  have fd: "fixed_digits (Suc 5) n = fixed_digits 6 (n mod 10 ^ 6)" for n
    using fixed_digits_mod [of 6 n] by simp
  show ?thesis
    unfolding generateToken_def hotp_def Let_def store_ticks_counter h2 off v six last_digits fd
    using assms by simp
qed

theorem generateToken_is_hotp_witness:
  "generateToken [1, 2, 3] 5 = Some (hotp [1, 2, 3] 5)"
  by (rule generateToken_is_hotp) simp

end
