(* ===== verification/Account.thy ===== *)
theory Account
  imports Sha1 "HOL-Library.Signed_Division"
begin

text \<open>
  Accounts (\<^verbatim>\<open>account/account.cpp\<close>) over the account repository and its database implementation
  (\<^verbatim>\<open>account/account_repository_db.cpp\<close>): loading and saving, coins with their transaction log,
  premium time, and authentication.  Times are integers of seconds, the clock is an argument, and the
  conversions to unsigned and signed 32-bit numbers are written out.  The tables are lists of rows; an
  UPDATE of a missing row succeeds and changes nothing.  The Argon2 check is library code: a parameter.
\<close>

definition to_u32 :: "int \<Rightarrow> int" where
  "to_u32 x = x mod 2 ^ 32"

definition to_i32 :: "int \<Rightarrow> int" where
  "to_i32 x = (x + 2 ^ 31) mod 2 ^ 32 - 2 ^ 31"

datatype account_error = Ok | Storage | RemoveCoinsError | InvalidLastDay | LoadingAccount | NotInitialized

record account_info =
  acc_id :: u32
  premiumRemainingDays :: int
  premiumLastDay :: int
  accountType :: int
  acc_players :: "string list"
  oldProtocol :: bool
  sessionExpires :: int
  premiumDaysPurchased :: int
  creationTime :: int

record account =
  info :: account_info
  descriptor :: string
  accLoaded :: bool

section \<open>The database repository\<close>

record account_row =
  row_name :: string
  row_email :: string
  row_password :: string
  row_type :: int
  row_premdays :: int
  row_lastday :: int
  row_creation :: int
  row_purchased :: int
  row_coins :: u32
  row_tournament :: u32
  row_transferable :: u32

record coin_transaction =
  tr_account :: u32
  tr_type :: nat
  tr_coin :: nat
  tr_amount :: u32
  tr_description :: string

record account_db =
  account_rows :: "(u32 \<times> account_row) list"
  sessions :: "string \<Rightarrow> (u32 \<times> int) option"
  player_rows :: "(u32 \<times> string \<times> nat) list"
  transactions :: "coin_transaction list"
  writable :: bool

definition update_row :: "u32 \<Rightarrow> (account_row \<Rightarrow> account_row) \<Rightarrow> account_db \<Rightarrow> bool \<times> account_db" where
  "update_row i f db = (if writable db
     then (True, db\<lparr>account_rows := map (\<lambda>(j, r). (j, if j = i then f r else r)) (account_rows db)\<rparr>)
     else (False, db))"

definition db_save :: "account_info \<Rightarrow> account_db \<Rightarrow> bool \<times> account_db" where
  "db_save a = update_row (acc_id a) (\<lambda>r. r\<lparr>row_type := accountType a, row_premdays := premiumRemainingDays a,
     row_lastday := premiumLastDay a, row_creation := creationTime a, row_purchased := premiumDaysPurchased a\<rparr>)"

definition setupLoyaltyInfo :: "int \<Rightarrow> account_info \<Rightarrow> account_db \<Rightarrow> account_info \<times> account_db" where
  "setupLoyaltyInfo now a db = (if premiumDaysPurchased a \<ge> premiumRemainingDays a \<and> creationTime a \<noteq> 0 then (a, db)
     else (let a1 = (if premiumDaysPurchased a < premiumRemainingDays a
                     then a\<lparr>premiumDaysPurchased := premiumRemainingDays a\<rparr> else a);
               a2 = (if creationTime a1 = 0 then a1\<lparr>creationTime := to_u32 now\<rparr> else a1)
           in (a2, snd (db_save a2 db))))"

definition loadAccountPlayers :: "account_info \<Rightarrow> account_db \<Rightarrow> bool \<times> account_info" where
  "loadAccountPlayers a db = (let rs = filter (\<lambda>(i, n, d). i = acc_id a) (player_rows db) in
     if rs = [] then (False, a)
     else (True, a\<lparr>acc_players := remdups (acc_players a @ map (\<lambda>(i, n, d). n) (filter (\<lambda>(i, n, d). d = 0) rs))\<rparr>))"

definition remaining_days :: "int \<Rightarrow> int \<Rightarrow> int" where
  "remaining_days lastDay now = (if lastDay > now then to_u32 ((lastDay - now) sdiv 86400) else 0)"

definition db_load :: "int \<Rightarrow> (u32 \<times> account_row \<times> int) option \<Rightarrow> account_info \<Rightarrow> account_db \<Rightarrow> bool \<times> account_info \<times> account_db" where
  "db_load now result a db = (case result of
      None \<Rightarrow> (False, a, db)
    | Some (i, r, expires) \<Rightarrow>
        (let a1 = a\<lparr>acc_id := i, accountType := row_type r mod 256, premiumLastDay := row_lastday r,
               sessionExpires := expires, premiumDaysPurchased := to_u32 (row_purchased r),
               creationTime := to_u32 (row_creation r), premiumRemainingDays := remaining_days (row_lastday r) now\<rparr>;
             (a2, db2) = setupLoyaltyInfo now a1 db;
             (ok, a3) = loadAccountPlayers a2 db2
         in (ok, a3, db2)))"

definition find_row :: "(u32 \<times> account_row \<Rightarrow> bool) \<Rightarrow> account_db \<Rightarrow> (u32 \<times> account_row) option" where
  "find_row p db = find p (account_rows db)"

definition loadByID :: "int \<Rightarrow> u32 \<Rightarrow> account_info \<Rightarrow> account_db \<Rightarrow> bool \<times> account_info \<times> account_db" where
  "loadByID now i a db = db_load now (map_option (\<lambda>(j, r). (j, r, 0)) (find_row (\<lambda>(j, r). j = i) db)) a db"

definition loadByEmailOrName :: "int \<Rightarrow> bool \<Rightarrow> string \<Rightarrow> account_info \<Rightarrow> account_db \<Rightarrow> bool \<times> account_info \<times> account_db" where
  "loadByEmailOrName now old s a db = db_load now (map_option (\<lambda>(j, r). (j, r, 0))
     (find_row (\<lambda>(j, r). (if old then row_name r else row_email r) = s) db)) a db"

definition bytes_of :: "string \<Rightarrow> bytes" where
  "bytes_of s = map (\<lambda>c. word_of_nat (of_char c)) s"

definition loadBySession :: "int \<Rightarrow> string \<Rightarrow> account_info \<Rightarrow> account_db \<Rightarrow> bool \<times> account_info \<times> account_db" where
  "loadBySession now sessionKey a db = db_load now
     (case sessions db (transformToSHA1 (bytes_of sessionKey)) of
        None \<Rightarrow> None
      | Some (i, expires) \<Rightarrow> map_option (\<lambda>(j, r). (j, r, expires)) (find_row (\<lambda>(j, r). j = i) db)) a db"

definition db_getPassword :: "u32 \<Rightarrow> account_db \<Rightarrow> string option" where
  "db_getPassword i db = map_option (row_password \<circ> snd) (find_row (\<lambda>(j, r). j = i) db)"

definition coin_column :: "nat \<Rightarrow> ((account_row \<Rightarrow> u32) \<times> (u32 \<Rightarrow> account_row \<Rightarrow> account_row)) option" where
  "coin_column t = (if t = 1 then Some (row_coins, \<lambda>n. row_coins_update (\<lambda>_. n))
     else if t = 2 then Some (row_tournament, \<lambda>n. row_tournament_update (\<lambda>_. n))
     else if t = 3 then Some (row_transferable, \<lambda>n. row_transferable_update (\<lambda>_. n)) else None)"

definition db_getCoins :: "account_db \<Rightarrow> u32 \<Rightarrow> nat \<Rightarrow> u32 option" where
  "db_getCoins db i t = (case coin_column t of
      None \<Rightarrow> None
    | Some (col, _) \<Rightarrow> map_option (col \<circ> snd) (find_row (\<lambda>(j, r). j = i) db))"

definition db_setCoins :: "account_db \<Rightarrow> u32 \<Rightarrow> nat \<Rightarrow> u32 \<Rightarrow> bool \<times> account_db" where
  "db_setCoins db i t amount = (case coin_column t of
      None \<Rightarrow> (False, db)
    | Some (_, upd) \<Rightarrow> update_row i (upd amount) db)"

definition db_registerCoinsTransaction :: "account_db \<Rightarrow> coin_transaction \<Rightarrow> bool \<times> account_db" where
  "db_registerCoinsTransaction db tr = (if writable db then (True, db\<lparr>transactions := transactions db @ [tr]\<rparr>) else (False, db))"

section \<open>The account\<close>

definition new_account :: "u32 \<Rightarrow> account" where
  "new_account i = \<lparr>info = \<lparr>acc_id = i, premiumRemainingDays = 0, premiumLastDay = 0, accountType = 1,
     acc_players = [], oldProtocol = False, sessionExpires = 0, premiumDaysPurchased = 0, creationTime = 0\<rparr>,
     descriptor = [], accLoaded = False\<rparr>"

definition new_account_descriptor :: "string \<Rightarrow> account" where
  "new_account_descriptor d = (new_account 0)\<lparr>descriptor := d\<rparr>"

definition setPremiumDays :: "int \<Rightarrow> int \<Rightarrow> account_info \<Rightarrow> account_info" where
  "setPremiumDays now days a = (if days \<le> 0 then a\<lparr>premiumRemainingDays := 0, premiumLastDay := 0\<rparr>
     else a\<lparr>premiumRemainingDays := to_u32 days, premiumLastDay := now + to_i32 (days * 86400)\<rparr>)"

definition addPremiumDays :: "int \<Rightarrow> int \<Rightarrow> account_info \<Rightarrow> account_info" where
  "addPremiumDays now days a = (let timeLeft = max 0 (to_i32 ((premiumLastDay a - now) smod 86400));
       a1 = setPremiumDays now (to_i32 (premiumRemainingDays a + days)) a;
       a2 = a1\<lparr>premiumDaysPurchased := to_u32 (premiumDaysPurchased a1 + days)\<rparr>
     in if timeLeft > 0 then a2\<lparr>premiumLastDay := premiumLastDay a2 + timeLeft\<rparr> else a2)"

definition getPremiumRemainingDays :: "int \<Rightarrow> account_info \<Rightarrow> int" where
  "getPremiumRemainingDays now a = remaining_days (premiumLastDay a) now"

definition account_save :: "account \<Rightarrow> account_db \<Rightarrow> account_error \<times> account_db" where
  "account_save acc db = (if \<not> accLoaded acc then (NotInitialized, db)
     else (case db_save (info acc) db of (ok, db') \<Rightarrow> (if ok then Ok else Storage, db')))"

definition updatePremiumTime :: "int \<Rightarrow> account \<Rightarrow> account_db \<Rightarrow> account \<times> account_db" where
  "updatePremiumTime now acc db = (let a = info acc; lastDay = premiumLastDay a; remainingDays = premiumRemainingDays a;
       daysLeft = to_i32 ((lastDay - now) sdiv 86400); timeLeft = to_i32 ((lastDay - now) smod 86400);
       a1 = a\<lparr>premiumRemainingDays := (if daysLeft > 0 then daysLeft else 0)\<rparr>;
       a2 = (if daysLeft = 0 \<and> timeLeft = 0 then setPremiumDays now 0 a1 else a1);
       a3 = (if lastDay < now \<or> lastDay = 0 then setPremiumDays now 0 a2 else a2);
       acc' = acc\<lparr>info := a3\<rparr>
     in if remainingDays = premiumRemainingDays a3 then (acc', db) else (acc', snd (account_save acc' db)))"

definition account_load :: "int \<Rightarrow> account \<Rightarrow> account_db \<Rightarrow> account_error \<times> account \<times> account_db" where
  "account_load now acc db = (let (ok1, a1, db1) =
         (if acc_id (info acc) \<noteq> 0 then loadByID now (acc_id (info acc)) (info acc) db else (False, info acc, db))
     in if ok1 then (Ok, acc\<lparr>info := a1, accLoaded := True\<rparr>, db1)
     else (let (ok2, a2, db2) =
           (if descriptor acc \<noteq> [] then loadByEmailOrName now (oldProtocol a1) (descriptor acc) a1 db1 else (False, a1, db1))
       in if ok2 then (Ok, acc\<lparr>info := a2, accLoaded := True\<rparr>, db2)
       else (let (ok3, a3, db3) =
             (if descriptor acc \<noteq> [] then loadBySession now (descriptor acc) a2 db2 else (False, a2, db2))
         in if ok3 then (Ok, acc\<lparr>info := a3, accLoaded := True\<rparr>, db3)
         else (case updatePremiumTime now (acc\<lparr>info := a3\<rparr>) db3 of (acc', db') \<Rightarrow> (LoadingAccount, acc', db')))))"

definition account_reload :: "int \<Rightarrow> account \<Rightarrow> account_db \<Rightarrow> account_error \<times> account \<times> account_db" where
  "account_reload now acc db = (if \<not> accLoaded acc then (NotInitialized, acc, db) else account_load now acc db)"

definition getPassword :: "account \<Rightarrow> account_db \<Rightarrow> string" where
  "getPassword acc db = (if \<not> accLoaded acc then []
     else (case db_getPassword (acc_id (info acc)) db of None \<Rightarrow> [] | Some p \<Rightarrow> p))"

definition authenticateSession :: "int \<Rightarrow> account \<Rightarrow> bool" where
  "authenticateSession now acc = (\<not> sessionExpires (info acc) < now)"

definition authenticatePassword :: "(string \<Rightarrow> string \<Rightarrow> bool) \<Rightarrow> string \<Rightarrow> account \<Rightarrow> account_db \<Rightarrow> bool" where
  "authenticatePassword argon password acc db = (argon password (getPassword acc db)
     \<or> transformToSHA1 (bytes_of password) = getPassword acc db)"

definition getAccountAgeInDays :: "int \<Rightarrow> account_info \<Rightarrow> int" where
  "getAccountAgeInDays now a = to_u32 ((now - creationTime a) sdiv 86400)"

definition setAccountType :: "int \<Rightarrow> account_info \<Rightarrow> account_error \<times> account_info" where
  "setAccountType t a = (Ok, a\<lparr>accountType := t\<rparr>)"

section \<open>Coins\<close>

definition getCoins :: "('db \<Rightarrow> u32 \<Rightarrow> nat \<Rightarrow> u32 option) \<Rightarrow> account \<Rightarrow> nat \<Rightarrow> 'db \<Rightarrow> u32 \<times> account_error" where
  "getCoins getC acc t db = (if \<not> accLoaded acc then (0, NotInitialized)
     else (case getC db (acc_id (info acc)) t of None \<Rightarrow> (0, Storage) | Some c \<Rightarrow> (c, Ok)))"

definition registerCoinTransaction ::
  "('db \<Rightarrow> coin_transaction \<Rightarrow> bool \<times> 'db) \<Rightarrow> account \<Rightarrow> nat \<Rightarrow> nat \<Rightarrow> u32 \<Rightarrow> string \<Rightarrow> 'db \<Rightarrow> 'db" where
  "registerCoinTransaction regT acc transactionType t amount detail db = (if \<not> accLoaded acc \<or> detail = [] then db
     else snd (regT db \<lparr>tr_account = acc_id (info acc), tr_type = transactionType, tr_coin = t, tr_amount = amount,
                 tr_description = detail\<rparr>))"

definition addCoins ::
  "('db \<Rightarrow> u32 \<Rightarrow> nat \<Rightarrow> u32 option) \<Rightarrow> ('db \<Rightarrow> u32 \<Rightarrow> nat \<Rightarrow> u32 \<Rightarrow> bool \<times> 'db) \<Rightarrow> ('db \<Rightarrow> coin_transaction \<Rightarrow> bool \<times> 'db) \<Rightarrow>
   account \<Rightarrow> nat \<Rightarrow> u32 \<Rightarrow> string \<Rightarrow> 'db \<Rightarrow> account_error \<times> 'db" where
  "addCoins getC setC regT acc t amount detail db = (if \<not> accLoaded acc then (NotInitialized, db)
     else if amount = 0 then (Ok, db)
     else (case getCoins getC acc t db of (coins, result) \<Rightarrow>
       if result \<noteq> Ok then (result, db)
       else (case setC db (acc_id (info acc)) t (coins + amount) of
           (False, db1) \<Rightarrow> (Storage, db1)
         | (True, db1) \<Rightarrow> (Ok, registerCoinTransaction regT acc 1 t amount detail db1))))"

definition removeCoins ::
  "('db \<Rightarrow> u32 \<Rightarrow> nat \<Rightarrow> u32 option) \<Rightarrow> ('db \<Rightarrow> u32 \<Rightarrow> nat \<Rightarrow> u32 \<Rightarrow> bool \<times> 'db) \<Rightarrow> ('db \<Rightarrow> coin_transaction \<Rightarrow> bool \<times> 'db) \<Rightarrow>
   account \<Rightarrow> nat \<Rightarrow> u32 \<Rightarrow> string \<Rightarrow> 'db \<Rightarrow> account_error \<times> 'db" where
  "removeCoins getC setC regT acc t amount detail db = (if \<not> accLoaded acc then (NotInitialized, db)
     else if amount = 0 then (Ok, db)
     else (case getCoins getC acc t db of (coins, result) \<Rightarrow>
       if result \<noteq> Ok then (result, db)
       else if coins < amount then (RemoveCoinsError, db)
       else (case setC db (acc_id (info acc)) t (coins - amount) of
           (False, db1) \<Rightarrow> (Storage, db1)
         | (True, db1) \<Rightarrow> (Ok, registerCoinTransaction regT acc 2 t amount detail db1))))"

datatype coin_op = AddCoins nat u32 string | RemoveCoins nat u32 string

definition coin_step ::
  "('db \<Rightarrow> u32 \<Rightarrow> nat \<Rightarrow> u32 option) \<Rightarrow> ('db \<Rightarrow> u32 \<Rightarrow> nat \<Rightarrow> u32 \<Rightarrow> bool \<times> 'db) \<Rightarrow> ('db \<Rightarrow> coin_transaction \<Rightarrow> bool \<times> 'db) \<Rightarrow>
   account \<Rightarrow> coin_op \<Rightarrow> 'db \<Rightarrow> account_error \<times> 'db" where
  "coin_step getC setC regT acc op db = (case op of
      AddCoins t amount detail \<Rightarrow> addCoins getC setC regT acc t amount detail db
    | RemoveCoins t amount detail \<Rightarrow> removeCoins getC setC regT acc t amount detail db)"

fun coin_run ::
  "('db \<Rightarrow> u32 \<Rightarrow> nat \<Rightarrow> u32 option) \<Rightarrow> ('db \<Rightarrow> u32 \<Rightarrow> nat \<Rightarrow> u32 \<Rightarrow> bool \<times> 'db) \<Rightarrow> ('db \<Rightarrow> coin_transaction \<Rightarrow> bool \<times> 'db) \<Rightarrow>
   account \<Rightarrow> coin_op list \<Rightarrow> 'db \<Rightarrow> account_error list \<times> 'db" where
  "coin_run getC setC regT acc [] db = ([], db)"
| "coin_run getC setC regT acc (op # ops) db = (case coin_step getC setC regT acc op db of
      (e, db1) \<Rightarrow> (case coin_run getC setC regT acc ops db1 of (es, db2) \<Rightarrow> (e # es, db2)))"

text \<open>The specification: a purse of natural numbers and a log of entries.\<close>

definition ledger_step :: "u32 \<Rightarrow> coin_op \<Rightarrow> (nat \<Rightarrow> nat) \<times> coin_transaction list \<Rightarrow> account_error \<times> (nat \<Rightarrow> nat) \<times> coin_transaction list" where
  "ledger_step i op = (\<lambda>(c, log). case op of
      AddCoins t amount detail \<Rightarrow> if amount = 0 then (Ok, c, log)
        else (Ok, c(t := c t + unat amount), log @ (if detail = [] then [] else [\<lparr>tr_account = i, tr_type = 1, tr_coin = t, tr_amount = amount, tr_description = detail\<rparr>]))
    | RemoveCoins t amount detail \<Rightarrow> if amount = 0 then (Ok, c, log)
        else if c t < unat amount then (RemoveCoinsError, c, log)
        else (Ok, c(t := c t - unat amount), log @ (if detail = [] then [] else [\<lparr>tr_account = i, tr_type = 2, tr_coin = t, tr_amount = amount, tr_description = detail\<rparr>])))"

fun ledger_run :: "u32 \<Rightarrow> coin_op list \<Rightarrow> (nat \<Rightarrow> nat) \<times> coin_transaction list \<Rightarrow> account_error list \<times> (nat \<Rightarrow> nat) \<times> coin_transaction list" where
  "ledger_run i [] st = ([], st)"
| "ledger_run i (op # ops) st = (case ledger_step i op st of
      (e, st1) \<Rightarrow> (case ledger_run i ops st1 of (es, st2) \<Rightarrow> (e # es, st2)))"

fun op_coin :: "coin_op \<Rightarrow> nat" where
  "op_coin (AddCoins t amount detail) = t"
| "op_coin (RemoveCoins t amount detail) = t"

fun added :: "nat \<Rightarrow> coin_op list \<Rightarrow> nat" where
  "added t [] = 0"
| "added t (AddCoins s amount detail # ops) = (if s = t then unat amount else 0) + added t ops"
| "added t (RemoveCoins s amount detail # ops) = added t ops"

text \<open>A database whose log is l and that holds the purse c of one account for the coin types in T.\<close>

definition holds_purse ::
  "('db \<Rightarrow> u32 \<Rightarrow> nat \<Rightarrow> u32 option) \<Rightarrow> ('db \<Rightarrow> coin_transaction list) \<Rightarrow> ('db \<Rightarrow> bool) \<Rightarrow>
   u32 \<Rightarrow> nat set \<Rightarrow> (nat \<Rightarrow> nat) \<Rightarrow> coin_transaction list \<Rightarrow> 'db \<Rightarrow> bool" where
  "holds_purse getC log up i T c l db \<longleftrightarrow> up db \<and> (\<forall>t \<in> T. map_option unat (getC db i t) = Some (c t)) \<and> log db = l"

text \<open>What the account asks of its repository.\<close>

locale account_repository =
  fixes getC :: "'db \<Rightarrow> u32 \<Rightarrow> nat \<Rightarrow> u32 option" and setC :: "'db \<Rightarrow> u32 \<Rightarrow> nat \<Rightarrow> u32 \<Rightarrow> bool \<times> 'db"
    and regT :: "'db \<Rightarrow> coin_transaction \<Rightarrow> bool \<times> 'db" and log :: "'db \<Rightarrow> coin_transaction list"
    and up :: "'db \<Rightarrow> bool"
  assumes set_ok: "up db \<Longrightarrow> getC db i t = Some c \<Longrightarrow> fst (setC db i t n)"
    and get_set: "up db \<Longrightarrow> getC db i t = Some c \<Longrightarrow> getC (snd (setC db i t n)) j s = (if j = i \<and> s = t then Some n else getC db j s)"
    and log_set: "log (snd (setC db i t n)) = log db" "up (snd (setC db i t n)) = up db"
    and get_reg: "getC (snd (regT db tr)) = getC db" "up (snd (regT db tr)) = up db"
    and log_reg: "up db \<Longrightarrow> log (snd (regT db tr)) = log db @ [tr]"
begin

lemma step_refines:
  assumes "accLoaded acc" "acc_id (info acc) = i" "holds_purse getC log up i T c l db" "op_coin op \<in> T"
    "c (op_coin op) + added (op_coin op) [op] < 2 ^ 32"
  shows "case ledger_step i op (c, l) of (e, c', l') \<Rightarrow>
    fst (coin_step getC setC regT acc op db) = e \<and> holds_purse getC log up i T c' l' (snd (coin_step getC setC regT acc op db))"
proof -
  let ?t = "op_coin op"
  have up: "up db" using assms(3) by (simp add: holds_purse_def)
  obtain w where w: "getC db i ?t = Some w" "unat w = c ?t" using assms(3,4) by (auto simp: holds_purse_def)
  have set: "\<exists>db1. setC db i ?t n = (True, db1) \<and> up db1 \<and> log db1 = log db
      \<and> (\<forall>s. getC db1 i s = (if s = ?t then Some n else getC db i s))" for n
    using set_ok [OF up w(1), of n] get_set [OF up w(1), of n i] log_set [of db i ?t n] up
    by (metis prod.collapse)
  show ?thesis
  proof (cases op)
    case (AddCoins t amount detail)
    obtain db1 where db1: "setC db i t (w + amount) = (True, db1)" "up db1" "log db1 = log db"
      "\<And>s. getC db1 i s = (if s = t then Some (w + amount) else getC db i s)"
      using set [of "w + amount"] AddCoins by auto
    have "unat (w + amount) = c t + unat amount"
      using assms(5) w(2) AddCoins by (simp add: unat_word_ariths)
    then show ?thesis using AddCoins assms(1-3) w db1
      by (auto simp: coin_step_def addCoins_def getCoins_def ledger_step_def registerCoinTransaction_def holds_purse_def
          get_reg log_reg)
  next
    case (RemoveCoins t amount detail)
    obtain db1 where db1: "setC db i t (w - amount) = (True, db1)" "up db1" "log db1 = log db"
      "\<And>s. getC db1 i s = (if s = t then Some (w - amount) else getC db i s)"
      using set [of "w - amount"] RemoveCoins by auto
    have "w < amount \<longleftrightarrow> c t < unat amount" using w(2) RemoveCoins by (simp add: word_less_nat_alt)
    moreover have "\<not> w < amount \<Longrightarrow> unat (w - amount) = c t - unat amount"
      using w(2) RemoveCoins by (simp add: unat_sub word_le_nat_alt not_less)
    ultimately show ?thesis using RemoveCoins assms(1-3) w db1
      by (auto simp: coin_step_def removeCoins_def getCoins_def ledger_step_def registerCoinTransaction_def holds_purse_def
          get_reg log_reg)
  qed
qed

lemma run_refines:
  assumes "accLoaded acc" "acc_id (info acc) = i" "holds_purse getC log up i T c l db" "\<forall>op \<in> set ops. op_coin op \<in> T"
    "\<forall>t \<in> T. c t + added t ops < 2 ^ 32"
  shows "case ledger_run i ops (c, l) of (es, c', l') \<Rightarrow>
    fst (coin_run getC setC regT acc ops db) = es \<and> holds_purse getC log up i T c' l' (snd (coin_run getC setC regT acc ops db))"
  using assms(3-)
proof (induction ops arbitrary: c l db)
  case (Cons op ops)
  obtain e c1 l1 where step: "ledger_step i op (c, l) = (e, c1, l1)" by (metis prod_cases3)
  have a: "added t (op # ops) = added t [op] + added t ops" for t by (cases op) simp_all
  have b1: "c (op_coin op) + added (op_coin op) [op] < 2 ^ 32"
    using Cons.prems(2,3) a [of "op_coin op"] by fastforce
  have s: "fst (coin_step getC setC regT acc op db) = e" "holds_purse getC log up i T c1 l1 (snd (coin_step getC setC regT acc op db))"
    using step_refines [OF assms(1,2) Cons.prems(1) _ b1] Cons.prems(2) step by auto
  have grow: "c1 t \<le> c t + added t [op]" for t
    using step by (cases op) (auto simp: ledger_step_def split: if_splits)
  have "c1 t + added t ops < 2 ^ 32" if "t \<in> T" for t
  proof -
    have "c t + added t (op # ops) < 2 ^ 32" using Cons.prems(3) that by blast
    then show ?thesis using grow [of t] a [of t] by linarith
  qed
  then show ?case using Cons.IH [OF s(2)] Cons.prems(2) step s(1) by (auto simp: case_prod_unfold)
qed simp

end

lemma find_update_row:
  "find (\<lambda>(j, r). j = i) (map (\<lambda>(j, r). (j, if j = k then f r else r)) rs) =
     map_option (\<lambda>(j, r). (j, if j = k then f r else r)) (find (\<lambda>(j, r). j = i) rs)"
  by (induction rs) auto

lemma find_id: "find (\<lambda>(j, r). j = i) rs = Some (j, r) \<Longrightarrow> j = i"
  by (auto simp: find_Some_iff)

lemma coin_column_laws:
  assumes "coin_column t = Some (g, u)" "coin_column s = Some (h, v)"
  shows "h (u n r) = (if s = t then n else h r)"
  using assms by (auto simp: coin_column_def split: if_splits)

lemma db_set_get:
  assumes "writable db" "db_getCoins db i t = Some c"
  shows "fst (db_setCoins db i t n)"
    "db_getCoins (snd (db_setCoins db i t n)) j s = (if j = i \<and> s = t then Some n else db_getCoins db j s)"
proof -
  obtain g u where col: "coin_column t = Some (g, u)"
    using assms(2) by (auto simp: db_getCoins_def split: option.splits)
  show "fst (db_setCoins db i t n)" using assms(1) col by (simp add: db_setCoins_def update_row_def)
  show "db_getCoins (snd (db_setCoins db i t n)) j s = (if j = i \<and> s = t then Some n else db_getCoins db j s)"
  proof (cases "coin_column s")
    case None
    then show ?thesis using col by (auto simp: db_getCoins_def)
  next
    case (Some p)
    obtain h v where p: "p = (h, v)" by (cases p)
    show ?thesis
    proof (cases "find (\<lambda>(j', r). j' = j) (account_rows db)")
      case None
      then show ?thesis using assms col Some p
        by (auto simp: db_getCoins_def db_setCoins_def update_row_def find_row_def find_update_row)
    next
      case (Some q)
      obtain j' r where "q = (j', r)" by (cases q)
      then have q: "q = (j, r)" using find_id [of j "account_rows db" j' r] Some by simp
      show ?thesis using assms col \<open>coin_column s = Some p\<close> p Some q coin_column_laws [OF col, of s h v n]
        by (auto simp: db_getCoins_def db_setCoins_def update_row_def find_row_def find_update_row)
    qed
  qed
qed

interpretation account_db: account_repository db_getCoins db_setCoins db_registerCoinsTransaction transactions writable
proof unfold_locales
  fix db i t n
  show "transactions (snd (db_setCoins db i t n)) = transactions db"
    "writable (snd (db_setCoins db i t n)) = writable db"
    by (auto simp: db_setCoins_def update_row_def split: option.splits)
next
  fix db tr
  show "db_getCoins (snd (db_registerCoinsTransaction db tr)) = db_getCoins db"
    "writable (snd (db_registerCoinsTransaction db tr)) = writable db"
    by (auto simp: db_registerCoinsTransaction_def db_getCoins_def find_row_def fun_eq_iff split: option.splits)
qed (auto simp: db_set_get db_registerCoinsTransaction_def)

text \<open>
  C36. Coins are kept by the book.  For a loaded account with a row in a working database and any
  series of additions and removals of the three coin types whose totals stay below 2^32, the
  results, the balances of all three types and the transaction log are those of a purse of natural
  numbers with a journal: a removal succeeds exactly when the balance covers it, nothing is lost or
  created, and each successful change with a description is logged once.
\<close>
theorem coins_by_the_book:
  assumes "accLoaded acc" "holds_purse db_getCoins transactions writable (acc_id (info acc)) {1, 2, 3} c l db"
    and "\<forall>op \<in> set ops. op_coin op \<in> {1, 2, 3}" "\<forall>t \<in> {1, 2, 3}. c t + added t ops < 2 ^ 32"
  shows "case (ledger_run (acc_id (info acc)) ops (c, l),
        coin_run db_getCoins db_setCoins db_registerCoinsTransaction acc ops db) of
      ((errors, c', l'), errors', db') \<Rightarrow>
        errors' = errors \<and> holds_purse db_getCoins transactions writable (acc_id (info acc)) {1, 2, 3} c' l' db'"
  using account_db.run_refines [OF assms(1) refl assms(2-4)] by (auto simp: case_prod_unfold)

definition demo_row :: account_row where
  "demo_row = \<lparr>row_name = ''a'', row_email = ''e'', row_password = '''', row_type = 1, row_premdays = 0, row_lastday = 0,
     row_creation = 1, row_purchased = 0, row_coins = 10, row_tournament = 0, row_transferable = 5\<rparr>"

definition demo_account_db :: account_db where
  "demo_account_db = \<lparr>account_rows = [(7, demo_row)], sessions = (\<lambda>_. None), player_rows = [], transactions = [], writable = True\<rparr>"

theorem coins_by_the_book_witness:
  "fst (coin_run db_getCoins db_setCoins db_registerCoinsTransaction ((new_account 7)\<lparr>accLoaded := True\<rparr>)
     [RemoveCoins 1 4 ''shop'', RemoveCoins 1 7 ''shop'', AddCoins 3 2 ''gift''] demo_account_db) = [Ok, RemoveCoinsError, Ok]"
proof -
  let ?acc = "(new_account 7)\<lparr>accLoaded := True\<rparr>"
  let ?c = "\<lambda>t. if t = 1 then 10 else if t = 3 then 5 else (0 :: nat)"
  let ?ops = "[RemoveCoins 1 4 ''shop'', RemoveCoins 1 7 ''shop'', AddCoins 3 2 ''gift'']"
  have p: "holds_purse db_getCoins transactions writable (acc_id (info ?acc)) {1, 2, 3} ?c [] demo_account_db"
    by (simp add: holds_purse_def new_account_def demo_account_db_def demo_row_def db_getCoins_def coin_column_def find_row_def)
  have "fst (ledger_run (acc_id (info ?acc)) ?ops (?c, [])) = [Ok, RemoveCoinsError, Ok]"
    by (simp add: ledger_step_def new_account_def)
  with coins_by_the_book [of ?acc ?c "[]" demo_account_db ?ops, OF _ p] show ?thesis
    by (simp add: case_prod_unfold)
qed

text \<open>
  Beyond 2^32 the balance wraps: adding coins can leave fewer than before.
\<close>

lemma addCoins_wraps:
  "db_getCoins (snd (addCoins db_getCoins db_setCoins db_registerCoinsTransaction ((new_account 7)\<lparr>accLoaded := True\<rparr>) 1 4294967290 ''''
     demo_account_db)) 7 1 = Some 4"
  by (simp add: addCoins_def getCoins_def new_account_def demo_account_db_def demo_row_def db_getCoins_def db_setCoins_def
      coin_column_def find_row_def update_row_def registerCoinTransaction_def)

section \<open>Premium time\<close>

lemma to_i32_id: "- (2 ^ 31) \<le> x \<Longrightarrow> x < 2 ^ 31 \<Longrightarrow> to_i32 x = x"
  by (simp add: to_i32_def)

lemma to_u32_id: "0 \<le> x \<Longrightarrow> x < 2 ^ 32 \<Longrightarrow> to_u32 x = x"
  by (simp add: to_u32_def)

lemma sdiv_pos: "0 \<le> a \<Longrightarrow> (a :: int) sdiv 86400 = a div 86400" "0 \<le> a \<Longrightarrow> (a :: int) smod 86400 = a mod 86400"
  by (simp_all add: signed_divide_int_def signed_modulo_int_def sgn_if minus_div_mult_eq_mod)

lemma smod_neg: "a \<le> 0 \<Longrightarrow> (a :: int) smod 86400 \<le> 0"
  by (auto simp: signed_divide_int_def signed_modulo_int_def sgn_if minus_div_mult_eq_mod)

text \<open>
  Premium time is added to the second.  On an account whose stored day count is that of the
  clock, as loading leaves it, addPremiumDays moves the end of the premium time by exactly that many
  days when it lies in the future, and to that many days from now when it has passed; the part of a
  day that was left is not lost, and the days the client is shown afterwards are the old ones and the
  new ones.
\<close>
theorem addPremiumDays_exact:
  assumes "0 < days" "premiumRemainingDays a = remaining_days (premiumLastDay a) now"
    and "premiumLastDay a - now + days * 86400 < 2 ^ 31" "days * 86400 < 2 ^ 31"
  shows "premiumLastDay (addPremiumDays now days a) = max (premiumLastDay a) now + days * 86400
    \<and> getPremiumRemainingDays now (addPremiumDays now days a) = getPremiumRemainingDays now a + days"
proof -
  let ?L = "premiumLastDay a - now"
  have days: "days < 2 ^ 31 div 86400 + 1" using assms(4) by simp
  have end_: "premiumLastDay (addPremiumDays now days a) = max (premiumLastDay a) now + days * 86400"
  proof (cases "0 < ?L")
    case True
    have r: "premiumRemainingDays a = ?L div 86400"
      using assms(2,3) True assms(1) by (simp add: remaining_days_def sdiv_pos to_u32_id)
    have le: "?L div 86400 * 86400 \<le> ?L" by (simp flip: minus_mod_eq_div_mult)
    have t: "max 0 (to_i32 (?L smod 86400)) = ?L mod 86400" using True by (simp add: sdiv_pos to_i32_id)
    have nn: "0 \<le> ?L div 86400" using True by (simp add: pos_imp_zdiv_nonneg_iff)
    have s: "(?L div 86400 + days) * 86400 < 2 ^ 31" using le assms(3) by (simp add: algebra_simps)
    then have "?L div 86400 + days < 2 ^ 31" using nn assms(1) by simp
    then have i: "to_i32 (premiumRemainingDays a + days) = ?L div 86400 + days"
      using r nn assms(1) by (simp add: to_i32_id)
    have m: "to_i32 ((?L div 86400 + days) * 86400) = (?L div 86400 + days) * 86400"
      using s nn assms(1) by (intro to_i32_id) simp_all
    have z: "\<not> 0 < ?L mod 86400 \<Longrightarrow> now + ?L div 86400 * 86400 = premiumLastDay a"
      using pos_mod_sign [of 86400 ?L] div_mult_mod_eq [of ?L 86400] by linarith
    have "premiumLastDay (addPremiumDays now days a) = now + (?L div 86400 + days) * 86400 + ?L mod 86400"
      unfolding addPremiumDays_def Let_def t i
      using nn assms(1) m z by (simp add: setPremiumDays_def)
    also have "\<dots> = premiumLastDay a + days * 86400" by (simp add: algebra_simps)
    finally show ?thesis using True by simp
  next
    case False
    have "?L smod 86400 \<le> 0" using smod_neg False by simp
    moreover have "- (2 ^ 31) \<le> ?L smod 86400" using False
      by (auto simp: signed_divide_int_def signed_modulo_int_def sgn_if minus_div_mult_eq_mod)
    ultimately have t: "max 0 (to_i32 (?L smod 86400)) = 0" by (simp add: to_i32_id)
    have i: "to_i32 (premiumRemainingDays a + days) = days"
      using False assms(1,2) days by (simp add: remaining_days_def to_i32_id)
    have m: "to_i32 (days * 86400) = days * 86400" using assms(1,4) by (intro to_i32_id) simp_all
    show ?thesis unfolding addPremiumDays_def Let_def t i using False assms(1) m by (simp add: setPremiumDays_def)
  qed
  have "remaining_days (max (premiumLastDay a) now + days * 86400) now = remaining_days (premiumLastDay a) now + days"
  proof (cases "0 < ?L")
    case True
    have q: "(?L + days * 86400) div 86400 = ?L div 86400 + days" by simp
    have nn: "0 \<le> ?L div 86400" using True by (simp add: pos_imp_zdiv_nonneg_iff)
    moreover have "?L div 86400 \<le> ?L"
      using nn pos_mod_sign [of 86400 ?L] div_mult_mod_eq [of ?L 86400] by linarith
    ultimately show ?thesis using True assms(1,3) days q by (simp add: remaining_days_def sdiv_pos to_u32_id algebra_simps)
  next
    case False
    then show ?thesis using assms(1) days by (simp add: remaining_days_def sdiv_pos to_u32_id)
  qed
  then show ?thesis using end_ assms(2) by (simp add: getPremiumRemainingDays_def)
qed

theorem addPremiumDays_exact_witness:
  "premiumLastDay (addPremiumDays 1000000 30 ((info (new_account 1))\<lparr>premiumLastDay := 1100000, premiumRemainingDays := 1\<rparr>))
     = 1100000 + 30 * 86400"
  using addPremiumDays_exact [of 30 "(info (new_account 1))\<lparr>premiumLastDay := 1100000, premiumRemainingDays := 1\<rparr>" 1000000]
  by (simp add: remaining_days_def sdiv_pos to_u32_def)

end
