(* ===== verification/Strings.thy ===== *)
theory Strings
  imports Prelude "HOL-Library.Sublist"
begin

text \<open>
  The string helpers of \<^verbatim>\<open>utils/tools.cpp\<close>: search and replace, splitting, trimming and the case
  conversions.  Characters are those of the C locale.  A call that would never return (an empty
  search text) is None.
\<close>

section \<open>Searching\<close>

fun find_sub :: "string \<Rightarrow> string \<Rightarrow> nat option" where
  "find_sub sought [] = (if sought = [] then Some 0 else None)"
| "find_sub sought (c # s) = (if prefix sought (c # s) then Some 0 else map_option Suc (find_sub sought s))"

lemma find_sub_Some:
  assumes "find_sub sought s = Some i"
  shows "i + length sought \<le> length s" "s = take i s @ sought @ drop (i + length sought) s"
proof -
  have "i + length sought \<le> length s \<and> s = take i s @ sought @ drop (i + length sought) s"
    using assms
  proof (induction s arbitrary: i)
    case (Cons c s)
    show ?case
    proof (cases "prefix sought (c # s)")
      case True
      then obtain zs where eq: "c # s = sought @ zs" by (auto elim: prefixE)
      have i: "i = 0" using Cons.prems True by simp
      show ?thesis unfolding i eq by simp
    next
      case False
      then obtain j where "find_sub sought s = Some j" "i = Suc j" using Cons.prems by auto
      then show ?thesis using Cons.IH [of j] by simp
    qed
  qed (auto split: if_splits)
  then show "i + length sought \<le> length s" "s = take i s @ sought @ drop (i + length sought) s" by auto
qed

lemma find_sub_None: "find_sub sought s = None \<longleftrightarrow> \<not> sublist sought s"
  by (induction s) (auto simp: sublist_Cons_right)

lemma find_sub_first: "find_sub sought s = Some i \<Longrightarrow> j < i \<Longrightarrow> \<not> prefix sought (drop j s)"
proof (induction s arbitrary: i j)
  case (Cons c s)
  then show ?case by (cases j) (auto split: if_splits)
qed (auto split: if_splits)

text \<open>
  replaceString: the loop only looks at the text after the last replacement, so it works on that
  rest.  An empty text is returned as it is; an empty search text is found again and again.
\<close>

function replace_rest :: "string \<Rightarrow> string \<Rightarrow> string \<Rightarrow> string" where
  "replace_rest sought replacement s = (if sought = [] then s else
     (case find_sub sought s of
        None \<Rightarrow> s
      | Some i \<Rightarrow> take i s @ replacement @ replace_rest sought replacement (drop (i + length sought) s)))"
  by auto
termination
proof (relation "measure (\<lambda>(sought, replacement, s). length s)")
  fix sought replacement s :: string and i
  assume "sought \<noteq> []" "find_sub sought s = Some i"
  then show "((sought, replacement, drop (i + length sought) s), sought, replacement, s)
      \<in> measure (\<lambda>(sought, replacement, s). length s)"
    using find_sub_Some(1) [of sought s i] by (cases sought) auto
qed simp

declare replace_rest.simps [simp del]

definition replaceString :: "string \<Rightarrow> string \<Rightarrow> string \<Rightarrow> string option" where
  "replaceString str sought replacement = (if str = [] then Some []
     else if sought = [] then None
     else Some (replace_rest sought replacement str))"

text \<open>explodeString: \<^verbatim>\<open>limit\<close> is the number of splits still allowed, None for the default of -1.\<close>

function explode_rest :: "string \<Rightarrow> nat option \<Rightarrow> string \<Rightarrow> string list" where
  "explode_rest separator limit s = (if separator = [] \<or> limit = Some 0 then [s] else
     (case find_sub separator s of
        None \<Rightarrow> [s]
      | Some i \<Rightarrow> take i s # explode_rest separator (map_option (\<lambda>n. n - 1) limit) (drop (i + length separator) s)))"
  by auto
termination
proof (relation "measure (\<lambda>(separator, limit, s). length s)")
  fix separator s :: string and limit :: "nat option" and i
  assume "\<not> (separator = [] \<or> limit = Some 0)" "find_sub separator s = Some i"
  then show "((separator, map_option (\<lambda>n. n - 1) limit, drop (i + length separator) s), separator, limit, s)
      \<in> measure (\<lambda>(separator, limit, s). length s)"
    using find_sub_Some(1) [of separator s i] by (cases separator) auto
qed simp

declare explode_rest.simps [simp del]

definition explodeString :: "string \<Rightarrow> string \<Rightarrow> int \<Rightarrow> string list option" where
  "explodeString inString separator limit = (if limit = 0 then Some [inString]
     else if separator = [] \<and> limit < 0 then None
     else if separator = [] then Some (replicate (nat limit) [] @ [inString])
     else Some (explode_rest separator (if limit < 0 then None else Some (nat limit)) inString))"

text \<open>Joining with a separator, the specification of both loops.\<close>

fun join :: "string \<Rightarrow> string list \<Rightarrow> string" where
  "join sep [] = []"
| "join sep [x] = x"
| "join sep (x # y # xs) = x @ sep @ join sep (y # xs)"

lemma join_Cons: "xs \<noteq> [] \<Longrightarrow> join sep (x # xs) = x @ sep @ join sep xs"
  by (cases xs) auto

lemma explode_nonempty: "explode_rest sep limit s \<noteq> []"
  by (subst explode_rest.simps) (simp split: option.splits)

lemma explode_join: "join sep (explode_rest sep limit s) = s"
proof (induction sep limit s rule: explode_rest.induct)
  case (1 sep limit s)
  show ?case
  proof (cases "\<not> (sep = [] \<or> limit = Some 0) \<and> find_sub sep s \<noteq> None")
    case True
    then obtain i where i: "find_sub sep s = Some i" by auto
    have "join sep (explode_rest sep limit s) =
        take i s @ sep @ join sep (explode_rest sep (map_option (\<lambda>n. n - 1) limit) (drop (i + length sep) s))"
      using True i by (subst explode_rest.simps) (simp add: join_Cons explode_nonempty)
    also have "\<dots> = take i s @ sep @ drop (i + length sep) s" using 1 True i by simp
    also have "\<dots> = s" using find_sub_Some(2) [OF i] by simp
    finally show ?thesis .
  next
    case False
    then have "explode_rest sep limit s = [s]" by (subst explode_rest.simps) auto
    then show ?thesis by simp
  qed
qed

lemma explode_count: "limit = Some n \<Longrightarrow> length (explode_rest sep limit s) \<le> Suc n"
proof (induction sep limit s arbitrary: n rule: explode_rest.induct)
  case (1 sep limit s n)
  show ?case
  proof (cases "sep \<noteq> [] \<and> n \<noteq> 0 \<and> find_sub sep s \<noteq> None")
    case True
    then obtain i where i: "find_sub sep s = Some i" by auto
    have "length (explode_rest sep (Some (n - 1)) (drop (i + length sep) s)) \<le> Suc (n - 1)"
      using "1.IH" [of i "n - 1"] "1.prems" True i by simp
    then show ?thesis using True i "1.prems" by (subst explode_rest.simps) simp
  next
    case False
    then have "explode_rest sep limit s = [s]" using "1.prems" by (subst explode_rest.simps) auto
    then show ?thesis by simp
  qed
qed

text \<open>With no limit, no piece contains the separator: a piece ends before the first occurrence.\<close>

lemma sublist_take_first:
  assumes "find_sub sep s = Some i" "sep \<noteq> []"
  shows "\<not> sublist sep (take i s)"
proof
  assume "sublist sep (take i s)"
  then obtain a b where ab: "take i s = a @ sep @ b" by (auto simp: sublist_def)
  have "length a + length sep \<le> i" using arg_cong [OF ab, of length] by simp
  then have lt: "length a < i" using assms(2) by (cases sep) auto
  have "s = a @ sep @ b @ drop i s" using ab by (metis append_assoc append_take_drop_id)
  then have "prefix sep (drop (length a) s)" by (metis append_eq_conv_conj prefixI)
  then show False using find_sub_first [OF assms(1) lt] by simp
qed

lemma explode_pieces:
  "sep \<noteq> [] \<Longrightarrow> limit = None \<Longrightarrow> x \<in> set (explode_rest sep limit s) \<Longrightarrow> \<not> sublist sep x"
proof (induction sep limit s rule: explode_rest.induct)
  case (1 sep limit s)
  show ?case
  proof (cases "find_sub sep s")
    case None
    then have "explode_rest sep limit s = [s]" by (subst explode_rest.simps) simp
    then show ?thesis using "1.prems" None by (simp add: find_sub_None)
  next
    case (Some i)
    then have "explode_rest sep limit s = take i s # explode_rest sep None (drop (i + length sep) s)"
      using "1.prems" by (subst explode_rest.simps) simp
    then consider "x = take i s" | "x \<in> set (explode_rest sep None (drop (i + length sep) s))"
      using "1.prems" by auto
    then show ?thesis
    proof cases
      case 1
      then show ?thesis using sublist_take_first Some \<open>sep \<noteq> []\<close> by simp
    next
      case 2
      then show ?thesis using "1.IH" [OF _ Some] "1.prems" by simp
    qed
  qed
qed

lemma replace_is_join: "sought \<noteq> [] \<Longrightarrow> replace_rest sought replacement s = join replacement (explode_rest sought None s)"
proof (induction sought replacement s rule: replace_rest.induct)
  case (1 sought replacement s)
  show ?case
  proof (cases "find_sub sought s")
    case None
    then show ?thesis by (simp add: replace_rest.simps [of sought] explode_rest.simps [of sought])
  next
    case (Some i)
    then have "explode_rest sought None s = take i s # explode_rest sought None (drop (i + length sought) s)"
      using 1 by (subst explode_rest.simps) simp
    moreover have "replace_rest sought replacement s =
        take i s @ replacement @ replace_rest sought replacement (drop (i + length sought) s)"
      using 1 Some by (subst replace_rest.simps) simp
    ultimately show ?thesis using 1 Some by (simp add: join_Cons explode_nonempty)
  qed
qed

text \<open>
  Splitting loses nothing and replacing is splitting and joining.  For a separator that is not
  empty, explodeString returns pieces that join back to the text; without a limit no piece contains
  the separator, with a limit of n there are at most n + 1 pieces; and replaceString returns exactly
  those pieces joined with the replacement, so text it has inserted is never searched again.
\<close>
theorem explode_and_replace:
  assumes "sep \<noteq> []" "0 \<le> n"
  shows "\<exists>pieces. explodeString s sep (- 1) = Some pieces \<and> join sep pieces = s
      \<and> (\<forall>x \<in> set pieces. \<not> sublist sep x) \<and> replaceString s sep r = Some (join r pieces)
    \<and> (\<exists>limited. explodeString s sep n = Some limited \<and> join sep limited = s \<and> int (length limited) \<le> n + 1)"
proof -
  have "s = [] \<Longrightarrow> join r (explode_rest sep None s) = []"
    using assms(1) by (simp add: explode_rest.simps)
  then have "replaceString s sep r = Some (join r (explode_rest sep None s))"
    using assms(1) replace_is_join by (simp add: replaceString_def)
  moreover have "\<exists>limited. explodeString s sep n = Some limited \<and> join sep limited = s \<and> int (length limited) \<le> n + 1"
    using assms explode_join [of sep "Some (nat n)" s] explode_count [of "Some (nat n)" "nat n" sep s]
    by (auto simp: explodeString_def)
  ultimately show ?thesis using assms explode_join [of sep None s] explode_pieces [OF assms(1)]
    by (auto simp: explodeString_def)
qed

theorem explode_and_replace_witness:
  "\<exists>pieces. explodeString ''a;b;c'' '';'' (- 1) = Some pieces \<and> join '';'' pieces = ''a;b;c''"
  using explode_and_replace [of "'';''" 1 "''a;b;c''"] by auto

section \<open>Trimming and cases\<close>

definition trim_right :: "char \<Rightarrow> string \<Rightarrow> string" where
  "trim_right t s = rev (dropWhile (\<lambda>c. c = t) (rev s))"

definition trim_left :: "char \<Rightarrow> string \<Rightarrow> string" where
  "trim_left t s = dropWhile (\<lambda>c. c = t) s"

definition trimString :: "string \<Rightarrow> string" where
  "trimString s = trim_left (CHR '' '') (trim_right (CHR '' '') s)"

definition keepFirstWordOnly :: "string \<Rightarrow> string" where
  "keepFirstWordOnly s = takeWhile (\<lambda>c. c \<noteq> CHR '' '') s"

definition isupper :: "char \<Rightarrow> bool" where
  "isupper c = (65 \<le> (of_char c :: nat) \<and> (of_char c :: nat) \<le> 90)"

definition islower :: "char \<Rightarrow> bool" where
  "islower c = (97 \<le> (of_char c :: nat) \<and> (of_char c :: nat) \<le> 122)"

definition isspace :: "char \<Rightarrow> bool" where
  "isspace c = ((of_char c :: nat) = 32 \<or> 9 \<le> (of_char c :: nat) \<and> (of_char c :: nat) \<le> 13)"

definition tolower :: "char \<Rightarrow> char" where
  "tolower c = (if isupper c then char_of ((of_char c :: nat) + 32) else c)"

definition toupper :: "char \<Rightarrow> char" where
  "toupper c = (if islower c then char_of ((of_char c :: nat) - 32) else c)"

definition asLowerCaseString :: "string \<Rightarrow> string" where
  "asLowerCaseString s = map tolower s"

definition asUpperCaseString :: "string \<Rightarrow> string" where
  "asUpperCaseString s = map toupper s"

fun camel_loop :: "bool \<Rightarrow> string \<Rightarrow> string" where
  "camel_loop capitalizeNext [] = []"
| "camel_loop capitalizeNext (ch # s) = (if ch = CHR ''_'' \<or> isspace ch \<or> ch = CHR ''-'' then camel_loop True s
     else if capitalizeNext then toupper ch # camel_loop False s
     else tolower ch # camel_loop capitalizeNext s)"

definition toCamelCase :: "string \<Rightarrow> string" where
  "toCamelCase s = camel_loop False s"

fun pascal_loop :: "bool \<Rightarrow> string \<Rightarrow> string" where
  "pascal_loop capitalizeNext [] = []"
| "pascal_loop capitalizeNext (ch # s) = (if ch = CHR ''_'' \<or> isspace ch \<or> ch = CHR ''-'' then pascal_loop True s
     else if capitalizeNext then toupper ch # pascal_loop False s
     else ch # pascal_loop capitalizeNext s)"

definition toPascalCase :: "string \<Rightarrow> string" where
  "toPascalCase s = pascal_loop True s"

definition toSnakeCase :: "string \<Rightarrow> string" where
  "toSnakeCase s = concat (map (\<lambda>ch. if isupper ch then [CHR ''_'', tolower ch]
     else if isspace ch \<or> ch = CHR ''-'' then [CHR ''_''] else [ch]) s)"

definition toKebabCase :: "string \<Rightarrow> string" where
  "toKebabCase s = concat (map (\<lambda>ch. if isupper ch then [CHR ''-'', tolower ch]
     else if isspace ch \<or> ch = CHR ''_'' then [CHR ''-''] else [ch]) s)"

fun start_case_rest :: "string \<Rightarrow> string" where
  "start_case_rest [] = []"
| "start_case_rest (ch # s) = (if isupper ch then [CHR '' '', toupper ch] else [tolower ch]) @ start_case_rest s"

definition toStartCaseWithSpace :: "string \<Rightarrow> string" where
  "toStartCaseWithSpace s = (case s of [] \<Rightarrow> [] | ch # r \<Rightarrow> toupper ch # start_case_rest r)"

definition formatEnumName :: "string \<Rightarrow> string" where
  "formatEnumName s = map (\<lambda>c. tolower (if c = CHR ''_'' then CHR '' '' else c)) s"

lemma of_tolower: "(of_char (tolower c) :: nat) = (if isupper c then of_char c + 32 else of_char c)"
  by (auto simp: tolower_def isupper_def)

lemma not_isupper_tolower [simp]: "\<not> isupper (tolower c)"
  by (simp add: isupper_def of_tolower)

lemma tolower_classes [simp]: "isupper c \<Longrightarrow> \<not> isspace (tolower c)" "isupper c \<Longrightarrow> tolower c \<noteq> CHR ''-''" "isupper c \<Longrightarrow> tolower c \<noteq> CHR ''_''"
proof -
  assume u: "isupper c"
  then have "97 \<le> (of_char (tolower c) :: nat)" "(of_char (tolower c) :: nat) \<le> 122" by (auto simp: of_tolower isupper_def)
  then show "\<not> isspace (tolower c)" "tolower c \<noteq> CHR ''-''" "tolower c \<noteq> CHR ''_''" by (auto simp: isspace_def)
qed

lemma takeWhile_eq_replicate: "takeWhile (\<lambda>c. c = x) s = replicate (length (takeWhile (\<lambda>c. c = x) s)) x"
  by (induction s) auto

lemma takeWhile_dropWhile_same: "takeWhile P (dropWhile P xs) = []"
  by (induction xs) auto

lemma trim_split:
  shows "\<exists>a b. s = replicate a (CHR '' '') @ trimString s @ replicate b (CHR '' '')"
    and "takeWhile (\<lambda>c. c = CHR '' '') (trimString s) = []"
    and "takeWhile (\<lambda>c. c = CHR '' '') (rev (trimString s)) = []"
proof -
  let ?p = "\<lambda>c. c = CHR '' ''"
  let ?r = "rev (dropWhile ?p (rev s))"
  have s: "s = ?r @ rev (takeWhile ?p (rev s))" by (metis rev_append rev_rev_ident takeWhile_dropWhile_id)
  have r: "?r = takeWhile ?p ?r @ trimString s"
    by (simp add: trimString_def trim_left_def trim_right_def)
  have b: "rev (takeWhile ?p (rev s)) = replicate (length (takeWhile ?p (rev s))) (CHR '' '')"
    by (metis rev_replicate takeWhile_eq_replicate)
  have "s = replicate (length (takeWhile ?p ?r)) (CHR '' '') @ trimString s @ replicate (length (takeWhile ?p (rev s))) (CHR '' '')"
    using s r b takeWhile_eq_replicate [of "CHR '' ''" ?r] by (metis append_assoc)
  then show "\<exists>a b. s = replicate a (CHR '' '') @ trimString s @ replicate b (CHR '' '')" by blast
  show "takeWhile ?p (trimString s) = []"
    by (simp add: trimString_def trim_left_def takeWhile_dropWhile_same)
  have "rev ?r = rev (trimString s) @ rev (takeWhile ?p ?r)" using r by (metis rev_append)
  moreover have "takeWhile ?p (rev ?r) = []" by (simp add: takeWhile_dropWhile_same)
  moreover have "takeWhile P (xs @ ys) = [] \<Longrightarrow> takeWhile P xs = []" for P and xs ys :: string
    by (cases xs) (auto split: if_splits)
  ultimately show "takeWhile ?p (rev (trimString s)) = []" by metis
qed

text \<open>
  The normalised forms are normal: trimString takes nothing but spaces off the ends and leaves
  none there, and toSnakeCase and toKebabCase produce no upper-case letter, no white space and no
  foreign separator, so that applying them again changes nothing.
\<close>
theorem normal_forms:
  "(\<exists>a b. s = replicate a (CHR '' '') @ trimString s @ replicate b (CHR '' ''))
   \<and> takeWhile (\<lambda>c. c = CHR '' '') (trimString s) = [] \<and> takeWhile (\<lambda>c. c = CHR '' '') (rev (trimString s)) = []
   \<and> set (toSnakeCase s) \<inter> {c. isupper c \<or> isspace c \<or> c = CHR ''-''} = {}
   \<and> set (toKebabCase s) \<inter> {c. isupper c \<or> isspace c \<or> c = CHR ''_''} = {}
   \<and> toSnakeCase (toSnakeCase s) = toSnakeCase s \<and> toKebabCase (toKebabCase s) = toKebabCase s"
proof (intro conjI)
  show "\<exists>a b. s = replicate a (CHR '' '') @ trimString s @ replicate b (CHR '' '')"
    using trim_split(1) by blast
  show "takeWhile (\<lambda>c. c = CHR '' '') (trimString s) = []" "takeWhile (\<lambda>c. c = CHR '' '') (rev (trimString s)) = []"
    using trim_split(2,3) by auto
  have sp: "\<not> isspace (CHR ''_'')" "\<not> isspace (CHR ''-'')" "\<not> isupper (CHR ''_'')" "\<not> isupper (CHR ''-'')"
    by (simp_all add: isspace_def isupper_def)
  show snake: "set (toSnakeCase s) \<inter> {c. isupper c \<or> isspace c \<or> c = CHR ''-''} = {}"
    using sp by (auto simp: toSnakeCase_def split: if_splits)
  show kebab: "set (toKebabCase s) \<inter> {c. isupper c \<or> isspace c \<or> c = CHR ''_''} = {}"
    using sp by (auto simp: toKebabCase_def split: if_splits)
  have id1: "toSnakeCase t = t" if "set t \<inter> {c. isupper c \<or> isspace c \<or> c = CHR ''-''} = {}" for t
    using that by (induction t) (auto simp: toSnakeCase_def)
  have id2: "toKebabCase t = t" if "set t \<inter> {c. isupper c \<or> isspace c \<or> c = CHR ''_''} = {}" for t
    using that by (induction t) (auto simp: toKebabCase_def)
  show "toSnakeCase (toSnakeCase s) = toSnakeCase s" by (rule id1 [OF snake])
  show "toKebabCase (toKebabCase s) = toKebabCase s" by (rule id2 [OF kebab])
qed

end
