(* ===== verification/Dispatcher.thy ===== *)
theory Dispatcher
  imports Prelude "HOL-Library.AList"
begin

text \<open>
  The task dispatcher (\<^verbatim>\<open>game/scheduling/dispatcher.cpp\<close>, \<^verbatim>\<open>task.cpp\<close>).  Every thread has its own queues
  of serial, parallel and scheduled tasks; the dispatcher thread merges them and runs them.  A task's
  function is a number; what it does to the dispatcher while it runs is a parameter \<^verbatim>\<open>eff\<close>, the list of
  dispatcher calls it makes, and every run of a function is entered in a log.  Scheduled tasks are
  shared objects: they live in a heap under their event id, so that cancelling one through the
  reference table is seen by the queue that holds it.  The clock is an argument.  Event ids are drawn
  from a counter that is assumed not to pass 2^64.
\<close>

section \<open>Tasks\<close>

record task =
  t_func :: "nat option"
  utime :: int
  expiration :: int
  t_delay :: int
  t_cycle :: bool

definition new_event_task :: "int \<Rightarrow> nat \<Rightarrow> int \<Rightarrow> task" where
  "new_event_task now f expiresAfterMs = \<lparr>t_func = Some f, utime = now,
     expiration = (if expiresAfterMs > 0 then now + expiresAfterMs else 0), t_delay = 0, t_cycle = False\<rparr>"

definition new_scheduled_task :: "int \<Rightarrow> nat \<Rightarrow> int \<Rightarrow> bool \<Rightarrow> task" where
  "new_scheduled_task now f d cyc = \<lparr>t_func = Some f, utime = now + d, expiration = 0, t_delay = d, t_cycle = cyc\<rparr>"

definition hasExpired :: "int \<Rightarrow> task \<Rightarrow> bool" where
  "hasExpired now t = (expiration t \<noteq> 0 \<and> expiration t < now)"

definition isCanceled :: "task \<Rightarrow> bool" where
  "isCanceled t = (t_func t = None)"

definition cancel :: "task \<Rightarrow> task" where
  "cancel t = t\<lparr>t_func := None\<rparr>"

definition updateTime :: "int \<Rightarrow> task \<Rightarrow> task" where
  "updateTime now t = t\<lparr>utime := now + t_delay t\<rparr>"

section \<open>The dispatcher\<close>

datatype task_group = Serial | GenericParallel

record thread_task =
  th_serial :: "task list"
  th_parallel :: "task list"
  th_scheduled :: "nat list"

datatype origin = Direct | Event nat

record dispatcher =
  threads :: "thread_task list"
  m_serial :: "task list"
  m_parallel :: "task list"
  scheduledTasks :: "nat list"
  scheduledTasksRef :: "nat set"
  heap :: "nat \<Rightarrow> task option"
  last_event_id :: nat
  hasPendingTasks :: bool
  dispatcherCycle :: nat
  executed :: "(origin \<times> nat \<times> int) list"

datatype disp_op = AddEvent nat int | AsyncEvent nat task_group | ScheduleEvent nat int bool | StopEvent nat

definition on_thread :: "nat \<Rightarrow> (thread_task \<Rightarrow> thread_task) \<Rightarrow> dispatcher \<Rightarrow> dispatcher" where
  "on_thread th f d = d\<lparr>threads := (threads d)[th := f (threads d ! th)]\<rparr>"

definition notify :: "dispatcher \<Rightarrow> dispatcher" where
  "notify d = (if hasPendingTasks d then d else d\<lparr>hasPendingTasks := True\<rparr>)"

definition addEvent :: "nat \<Rightarrow> int \<Rightarrow> nat \<Rightarrow> int \<Rightarrow> dispatcher \<Rightarrow> dispatcher" where
  "addEvent th now f expiresAfterMs d = notify (on_thread th
     (\<lambda>t. t\<lparr>th_serial := th_serial t @ [new_event_task now f expiresAfterMs]\<rparr>) d)"

definition asyncEvent :: "nat \<Rightarrow> int \<Rightarrow> nat \<Rightarrow> task_group \<Rightarrow> dispatcher \<Rightarrow> dispatcher" where
  "asyncEvent th now f grp d = notify (on_thread th (\<lambda>t. case grp of
      Serial \<Rightarrow> t\<lparr>th_serial := th_serial t @ [new_event_task now f 0]\<rparr>
    | GenericParallel \<Rightarrow> t\<lparr>th_parallel := th_parallel t @ [new_event_task now f 0]\<rparr>) d)"

definition scheduleEvent :: "nat \<Rightarrow> int \<Rightarrow> nat \<Rightarrow> int \<Rightarrow> bool \<Rightarrow> dispatcher \<Rightarrow> nat \<times> dispatcher" where
  "scheduleEvent th now f d cyc s = (let i = last_event_id s + 1;
       s1 = s\<lparr>last_event_id := i, heap := (heap s)(i \<mapsto> new_scheduled_task now f d cyc)\<rparr>;
       s2 = on_thread th (\<lambda>t. t\<lparr>th_scheduled := th_scheduled t @ [i]\<rparr>) s1;
       s3 = s2\<lparr>scheduledTasksRef := insert i (scheduledTasksRef s2)\<rparr>
     in (i, notify s3))"

definition stopEvent :: "nat \<Rightarrow> dispatcher \<Rightarrow> dispatcher" where
  "stopEvent i s = (if i \<in> scheduledTasksRef s
     then s\<lparr>heap := (heap s)(i := map_option cancel (heap s i)), scheduledTasksRef := scheduledTasksRef s - {i}\<rparr>
     else s)"

primrec disp_call :: "nat \<Rightarrow> int \<Rightarrow> disp_op \<Rightarrow> dispatcher \<Rightarrow> dispatcher" where
  "disp_call th now (AddEvent f e) s = addEvent th now f e s"
| "disp_call th now (AsyncEvent f g) s = asyncEvent th now f g s"
| "disp_call th now (ScheduleEvent f d c) s = snd (scheduleEvent th now f d c s)"
| "disp_call th now (StopEvent i) s = stopEvent i s"

definition run_func :: "(nat \<Rightarrow> disp_op list) \<Rightarrow> nat \<Rightarrow> int \<Rightarrow> origin \<Rightarrow> nat \<Rightarrow> dispatcher \<Rightarrow> dispatcher" where
  "run_func eff th now src f s = fold (disp_call th now) (eff f) (s\<lparr>executed := executed s @ [(src, f, now)]\<rparr>)"

definition execute :: "(nat \<Rightarrow> disp_op list) \<Rightarrow> nat \<Rightarrow> int \<Rightarrow> origin \<Rightarrow> task \<Rightarrow> dispatcher \<Rightarrow> bool \<times> dispatcher" where
  "execute eff th now src t s = (case t_func t of
      None \<Rightarrow> (False, s)
    | Some f \<Rightarrow> if hasExpired now t then (False, s) else (True, run_func eff th now src f s))"

definition serial_step :: "(nat \<Rightarrow> disp_op list) \<Rightarrow> nat \<Rightarrow> int \<Rightarrow> task \<Rightarrow> dispatcher \<Rightarrow> dispatcher" where
  "serial_step eff me now t s = (case execute eff me now Direct t s of
      (ok, s') \<Rightarrow> if ok then s'\<lparr>dispatcherCycle := dispatcherCycle s' + 1\<rparr> else s')"

definition executeSerialEvents :: "(nat \<Rightarrow> disp_op list) \<Rightarrow> nat \<Rightarrow> int \<Rightarrow> dispatcher \<Rightarrow> dispatcher" where
  "executeSerialEvents eff me now s = (fold (serial_step eff me now) (m_serial s) s)\<lparr>m_serial := []\<rparr>"

text \<open>
  Parallel tasks: \<^verbatim>\<open>order\<close> is the order the thread pool happens to run them in, with the worker that
  runs each.  The protocol by which the dispatcher waits for them is treated below.
\<close>

definition executeParallelEvents ::
  "(nat \<Rightarrow> disp_op list) \<Rightarrow> (task list \<Rightarrow> (nat \<times> task) list) \<Rightarrow> int \<Rightarrow> dispatcher \<Rightarrow> dispatcher" where
  "executeParallelEvents eff order now s =
     (fold (\<lambda>(w, t) s. snd (execute eff w now Direct t s)) (order (m_parallel s)) s)\<lparr>m_parallel := []\<rparr>"

fun merge_async :: "thread_task list \<Rightarrow> task list \<Rightarrow> thread_task list \<times> task list" where
  "merge_async [] m = ([], m)"
| "merge_async (t # ts) m = (case merge_async ts (m @ th_parallel t) of (ts', m') \<Rightarrow> (t\<lparr>th_parallel := []\<rparr> # ts', m'))"

definition mergeAsyncEvents :: "dispatcher \<Rightarrow> dispatcher" where
  "mergeAsyncEvents s = (case merge_async (threads s) (m_parallel s) of
      (ts, m) \<Rightarrow> s\<lparr>threads := ts, m_parallel := m\<rparr>)"

definition executeEvents ::
  "(nat \<Rightarrow> disp_op list) \<Rightarrow> (task list \<Rightarrow> (nat \<times> task) list) \<Rightarrow> nat \<Rightarrow> int \<Rightarrow> task_group \<Rightarrow> dispatcher \<Rightarrow> dispatcher" where
  "executeEvents eff order me now startGroup s = (case startGroup of
      Serial \<Rightarrow> (if m_serial s = [] then s
        else (let s1 = mergeAsyncEvents (executeSerialEvents eff me now s)
              in if m_parallel s1 = [] then s1 else executeParallelEvents eff order now s1))
    | GenericParallel \<Rightarrow> (if m_parallel s = [] then s else executeParallelEvents eff order now s))"

text \<open>The queue is ordered by time when a task enters it; equal times keep the order of insertion.\<close>

definition task_time :: "dispatcher \<Rightarrow> nat \<Rightarrow> int" where
  "task_time s i = (case heap s i of None \<Rightarrow> 0 | Some t \<Rightarrow> utime t)"

definition scheduled_step :: "(nat \<Rightarrow> disp_op list) \<Rightarrow> nat \<Rightarrow> int \<Rightarrow> nat \<Rightarrow> dispatcher \<Rightarrow> dispatcher" where
  "scheduled_step eff me now i s = (case heap s i of
      None \<Rightarrow> s
    | Some t \<Rightarrow> (case execute eff me now (Event i) t s of
        (ok, s1) \<Rightarrow> if ok \<and> t_cycle t
          then on_thread me (\<lambda>th. th\<lparr>th_scheduled := th_scheduled th @ [i]\<rparr>)
                 (s1\<lparr>heap := (heap s1)(i := map_option (updateTime now) (heap s1 i))\<rparr>)
          else s1\<lparr>scheduledTasksRef := scheduledTasksRef s1 - {i}\<rparr>))"

definition due :: "int \<Rightarrow> dispatcher \<Rightarrow> nat list" where
  "due now s = takeWhile (\<lambda>i. task_time s i \<le> now) (scheduledTasks s)"

definition executeScheduledEvents ::
  "(nat \<Rightarrow> disp_op list) \<Rightarrow> (task list \<Rightarrow> (nat \<times> task) list) \<Rightarrow> nat \<Rightarrow> int \<Rightarrow> dispatcher \<Rightarrow> dispatcher" where
  "executeScheduledEvents eff order me now s = (let batch = due now s;
       s1 = fold (scheduled_step eff me now) batch s;
       s2 = s1\<lparr>scheduledTasks := drop (length batch) (scheduledTasks s1)\<rparr>
     in executeEvents eff order me now GenericParallel (mergeAsyncEvents s2))"

fun insert_by_time :: "(nat \<Rightarrow> int) \<Rightarrow> nat \<Rightarrow> nat list \<Rightarrow> nat list" where
  "insert_by_time time i [] = [i]"
| "insert_by_time time i (j # js) = (if time i < time j then i # j # js else j # insert_by_time time i js)"

fun merge_threads :: "(nat \<Rightarrow> int) \<Rightarrow> thread_task list \<Rightarrow> task list \<Rightarrow> nat list \<Rightarrow> thread_task list \<times> task list \<times> nat list" where
  "merge_threads time [] m q = ([], m, q)"
| "merge_threads time (t # ts) m q = (case merge_threads time ts (m @ th_serial t) (fold (insert_by_time time) (th_scheduled t) q) of
      (ts', m', q') \<Rightarrow> (t\<lparr>th_serial := [], th_scheduled := []\<rparr> # ts', m', q'))"

definition checkPendingTasks :: "dispatcher \<Rightarrow> dispatcher" where
  "checkPendingTasks s = s\<lparr>hasPendingTasks := (m_serial s \<noteq> [] \<or> m_parallel s \<noteq> [])\<rparr>"

definition mergeEvents :: "dispatcher \<Rightarrow> dispatcher" where
  "mergeEvents s = (case merge_threads (task_time s) (threads s) (m_serial s) (scheduledTasks s) of
      (ts, m, q) \<Rightarrow> checkPendingTasks (s\<lparr>threads := ts, m_serial := m, scheduledTasks := q\<rparr>))"

definition timeUntilNextScheduledTask :: "int \<Rightarrow> dispatcher \<Rightarrow> int option" where
  "timeUntilNextScheduledTask now s = (case scheduledTasks s of
      [] \<Rightarrow> None
    | i # _ \<Rightarrow> Some (max (task_time s i - now) 0))"

definition dispatch_cycle ::
  "(nat \<Rightarrow> disp_op list) \<Rightarrow> (task list \<Rightarrow> (nat \<times> task) list) \<Rightarrow> nat \<Rightarrow> int \<Rightarrow> dispatcher \<Rightarrow> dispatcher" where
  "dispatch_cycle eff order me now s =
     mergeEvents (executeScheduledEvents eff order me now (executeEvents eff order me now Serial s))"

section \<open>What a task may change\<close>

text \<open>
  Calls made by a running function only touch thread queues, the heap, the reference table and the
  pending flag: the merged queues and the log stay as they are.
\<close>

definition same_queues :: "dispatcher \<Rightarrow> dispatcher \<Rightarrow> bool" where
  "same_queues s s' \<longleftrightarrow> m_serial s' = m_serial s \<and> m_parallel s' = m_parallel s \<and> scheduledTasks s' = scheduledTasks s
     \<and> dispatcherCycle s' = dispatcherCycle s"

lemmas disp_defs = addEvent_def asyncEvent_def scheduleEvent_def stopEvent_def notify_def on_thread_def Let_def

lemma disp_call_frame:
  "same_queues s (disp_call th now op s)" "executed (disp_call th now op s) = executed s"
  "last_event_id s \<le> last_event_id (disp_call th now op s)"
  by (cases op; simp add: same_queues_def disp_defs)+

lemma disp_calls_frame:
  "same_queues s (fold (disp_call th now) ops s)" "executed (fold (disp_call th now) ops s) = executed s"
  "last_event_id s \<le> last_event_id (fold (disp_call th now) ops s)"
proof (induction ops arbitrary: s)
  case (Cons op ops)
  { case 1 show ?case using Cons(1) [of "disp_call th now op s"] disp_call_frame(1) [of s th now op]
      by (simp add: same_queues_def) }
  { case 2 show ?case using Cons(2) [of "disp_call th now op s"] disp_call_frame(2) by simp }
  { case 3 show ?case using Cons(3) [of "disp_call th now op s"] disp_call_frame(3) [of s th now op] by simp }
qed (simp_all add: same_queues_def)

lemma execute_frame:
  "same_queues s (snd (execute eff th now src t s))"
  "executed (snd (execute eff th now src t s)) = executed s @
     (case t_func t of None \<Rightarrow> [] | Some f \<Rightarrow> if hasExpired now t then [] else [(src, f, now)])"
  using disp_calls_frame(1,2) [where s = "s\<lparr>executed := executed s @ [(src, the (t_func t), now)]\<rparr>" and th = th and now = now and ops = "eff (the (t_func t))"]
  by (auto simp: execute_def run_func_def same_queues_def split: option.splits)

text \<open>The log entries of a list of tasks run one after the other.\<close>

definition runs :: "int \<Rightarrow> task list \<Rightarrow> (origin \<times> nat \<times> int) list" where
  "runs now ts = concat (map (\<lambda>t. case t_func t of None \<Rightarrow> [] | Some f \<Rightarrow> if hasExpired now t then [] else [(Direct, f, now)]) ts)"

lemma serial_steps:
  "executed (fold (serial_step eff me now) ts s) = executed s @ runs now ts"
  "m_parallel (fold (serial_step eff me now) ts s) = m_parallel s"
  "scheduledTasks (fold (serial_step eff me now) ts s) = scheduledTasks s"
proof (induction ts arbitrary: s)
  case (Cons t ts)
  have e: "executed (serial_step eff me now t s) = executed s @ runs now [t]"
    "m_parallel (serial_step eff me now t s) = m_parallel s" "scheduledTasks (serial_step eff me now t s) = scheduledTasks s" for s
    using execute_frame [where s = s and eff = eff and th = me and now = now and src = Direct and t = t]
    by (auto simp: serial_step_def runs_def case_prod_unfold same_queues_def)
  have r: "runs now (t # ts) = runs now [t] @ runs now ts" by (simp add: runs_def)
  { case 1 show ?case unfolding r fold_simps Cons(1) e(1) by (rule append_assoc) }
  { case 2 show ?case using Cons(2) [of "serial_step eff me now t s"] e by simp }
  { case 3 show ?case using Cons(3) [of "serial_step eff me now t s"] e by simp }
qed (simp_all add: runs_def)

lemma merge_threads_serial:
  "fst (snd (merge_threads time ts m q)) = m @ concat (map th_serial ts)"
  by (induction ts arbitrary: m q) (simp_all add: case_prod_unfold)

text \<open>
  Serial events run in order, once, and are not lost: merging appends what every thread has
  queued, in that thread's order, and leaves its queue empty; executing the merged queue runs exactly
  the tasks that are neither cancelled nor expired, each once and in queue order, whatever further
  events the running tasks add, and leaves the queue empty.
\<close>
theorem serial_events_in_order:
  "executed (executeSerialEvents eff me now s) = executed s @ runs now (m_serial s)
   \<and> m_serial (executeSerialEvents eff me now s) = []
   \<and> m_serial (mergeEvents s) = m_serial s @ concat (map th_serial (threads s))
   \<and> map th_serial (threads (mergeEvents s)) = replicate (length (threads s)) []
   \<and> executed (executeSerialEvents eff me now (mergeEvents s)) =
       executed s @ runs now (m_serial s) @ concat (map (runs now \<circ> th_serial) (threads s))"
proof (intro conjI)
  show e: "executed (executeSerialEvents eff me now s) = executed s @ runs now (m_serial s)" for s
    by (simp add: executeSerialEvents_def serial_steps)
  show "m_serial (executeSerialEvents eff me now s) = []" by (simp add: executeSerialEvents_def)
  show m: "m_serial (mergeEvents s) = m_serial s @ concat (map th_serial (threads s))"
    by (simp add: mergeEvents_def checkPendingTasks_def case_prod_unfold merge_threads_serial)
  have "map th_serial (fst (merge_threads time ts m q)) = replicate (length ts) []" for time ts m q
    by (induction ts arbitrary: m q) (simp_all add: case_prod_unfold)
  then show "map th_serial (threads (mergeEvents s)) = replicate (length (threads s)) []"
    by (simp add: mergeEvents_def checkPendingTasks_def case_prod_unfold)
  have "runs now (concat tss) = concat (map (runs now) tss)" for tss
    by (induction tss) (simp_all add: runs_def)
  moreover have "runs now (a @ b) = runs now a @ runs now b" for a b by (simp add: runs_def)
  moreover have "executed (mergeEvents s) = executed s"
    by (simp add: mergeEvents_def checkPendingTasks_def case_prod_unfold)
  ultimately show "executed (executeSerialEvents eff me now (mergeEvents s)) =
       executed s @ runs now (m_serial s) @ concat (map (runs now \<circ> th_serial) (threads s))"
    unfolding e m by (simp add: comp_def)
qed

section \<open>Cancelled events\<close>

definition event_runs :: "nat \<Rightarrow> dispatcher \<Rightarrow> (origin \<times> nat \<times> int) list" where
  "event_runs i s = filter (\<lambda>e. fst e = Event i) (executed s)"

definition dead :: "nat \<Rightarrow> dispatcher \<Rightarrow> bool" where
  "dead i s \<longleftrightarrow> i \<le> last_event_id s \<and> (\<exists>t. heap s i = Some t \<and> t_func t = None)"

lemma dead_call: "dead i s \<Longrightarrow> dead i (disp_call th now op s)"
  by (cases op) (auto simp: dead_def disp_defs cancel_def)

lemma dead_calls: "dead i s \<Longrightarrow> dead i (fold (disp_call th now) ops s)"
  by (induction ops arbitrary: s) (simp_all add: dead_call)

lemma dead_execute:
  assumes "dead i s" "src \<noteq> Event i \<or> t_func t = None"
  shows "dead i (snd (execute eff th now src t s))" "event_runs i (snd (execute eff th now src t s)) = event_runs i s"
proof -
  have "dead i (s\<lparr>executed := x\<rparr>)" for x using assms(1) by (simp add: dead_def)
  then show "dead i (snd (execute eff th now src t s))"
    using assms(1) dead_calls by (auto simp: execute_def run_func_def split: option.splits)
  show "event_runs i (snd (execute eff th now src t s)) = event_runs i s"
    using assms(2) by (auto simp: event_runs_def execute_frame split: option.splits)
qed

lemma dead_serial: "dead i s \<Longrightarrow> dead i (fold (serial_step eff me now) ts s) \<and> event_runs i (fold (serial_step eff me now) ts s) = event_runs i s"
proof (induction ts arbitrary: s)
  case (Cons t ts)
  have "dead i (serial_step eff me now t s) \<and> event_runs i (serial_step eff me now t s) = event_runs i s"
    using dead_execute [OF Cons.prems, of Direct t eff me now]
    by (auto simp: serial_step_def case_prod_unfold dead_def event_runs_def)
  then show ?case using Cons.IH by simp
qed simp

lemma dead_parallel:
  "dead i s \<Longrightarrow> dead i (fold (\<lambda>(w, t) s. snd (execute eff w now Direct t s)) ts s)
     \<and> event_runs i (fold (\<lambda>(w, t) s. snd (execute eff w now Direct t s)) ts s) = event_runs i s"
  using dead_execute [of i _ Direct] by (induction ts arbitrary: s) (auto simp: case_prod_unfold)

lemma dead_scheduled_step:
  assumes "dead i s"
  shows "dead i (scheduled_step eff me now j s)" "event_runs i (scheduled_step eff me now j s) = event_runs i s"
proof -
  have "dead i (scheduled_step eff me now j s) \<and> event_runs i (scheduled_step eff me now j s) = event_runs i s"
  proof (cases "heap s j")
    case (Some t)
    have "Event j \<noteq> Event i \<or> t_func t = None" using assms Some by (auto simp: dead_def)
    note d = dead_execute [OF assms this, of eff me now]
    show ?thesis using d Some
      by (auto simp: scheduled_step_def case_prod_unfold dead_def event_runs_def on_thread_def updateTime_def)
  qed (use assms in \<open>simp add: scheduled_step_def\<close>)
  then show "dead i (scheduled_step eff me now j s)" "event_runs i (scheduled_step eff me now j s) = event_runs i s" by auto
qed

lemma dead_scheduled: "dead i s \<Longrightarrow> dead i (fold (scheduled_step eff me now) js s) \<and> event_runs i (fold (scheduled_step eff me now) js s) = event_runs i s"
  by (induction js arbitrary: s) (simp_all add: dead_scheduled_step)

lemma dead_executeEvents:
  assumes "dead i s"
  shows "dead i (executeEvents eff order me now g s) \<and> event_runs i (executeEvents eff order me now g s) = event_runs i s"
proof -
  have par: "dead i (executeParallelEvents eff order now s) \<and> event_runs i (executeParallelEvents eff order now s) = event_runs i s"
    if "dead i s" for s
    using dead_parallel [OF that, of eff now "order (m_parallel s)"]
    by (simp add: executeParallelEvents_def dead_def event_runs_def)
  have ser: "dead i (mergeAsyncEvents (executeSerialEvents eff me now s))
      \<and> event_runs i (mergeAsyncEvents (executeSerialEvents eff me now s)) = event_runs i s"
    using dead_serial [OF assms, of eff me now "m_serial s"]
    by (simp add: executeSerialEvents_def mergeAsyncEvents_def dead_def event_runs_def case_prod_unfold)
  show ?thesis using par [OF assms] par [of "mergeAsyncEvents (executeSerialEvents eff me now s)"] ser assms
    by (simp add: executeEvents_def Let_def split: task_group.split)
qed

lemma dead_cycle:
  assumes "dead i s"
  shows "dead i (dispatch_cycle eff order me now s) \<and> event_runs i (dispatch_cycle eff order me now s) = event_runs i s"
proof -
  let ?s1 = "executeEvents eff order me now Serial s"
  let ?s2 = "fold (scheduled_step eff me now) (due now ?s1) ?s1"
  let ?s3 = "mergeAsyncEvents (?s2\<lparr>scheduledTasks := drop (length (due now ?s1)) (scheduledTasks ?s2)\<rparr>)"
  have 1: "dead i ?s1 \<and> event_runs i ?s1 = event_runs i s" using dead_executeEvents [OF assms] by simp
  have 2: "dead i ?s3 \<and> event_runs i ?s3 = event_runs i s"
    using dead_scheduled [of i ?s1 eff me now "due now ?s1"] 1
    by (simp add: mergeAsyncEvents_def dead_def event_runs_def case_prod_unfold)
  have "dead i (executeEvents eff order me now GenericParallel ?s3)
      \<and> event_runs i (executeEvents eff order me now GenericParallel ?s3) = event_runs i s"
    using dead_executeEvents [of i ?s3 eff order me now GenericParallel] 2 by simp
  then show ?thesis
    by (simp add: dispatch_cycle_def executeScheduledEvents_def Let_def mergeEvents_def checkPendingTasks_def
        dead_def event_runs_def case_prod_unfold)
qed

text \<open>
  Histories: cycles of the dispatcher thread and calls from any thread in between, at any times.
\<close>

inductive disp_reach :: "(nat \<Rightarrow> disp_op list) \<Rightarrow> (task list \<Rightarrow> (nat \<times> task) list) \<Rightarrow> nat \<Rightarrow> dispatcher \<Rightarrow> dispatcher \<Rightarrow> bool"
  for eff order me where
  refl: "disp_reach eff order me s s"
| cycle: "disp_reach eff order me s s' \<Longrightarrow> disp_reach eff order me s (dispatch_cycle eff order me now s')"
| call: "disp_reach eff order me s s' \<Longrightarrow> disp_reach eff order me s (disp_call th now op s')"

lemma dead_reach:
  "disp_reach eff order me s s' \<Longrightarrow> dead i s \<Longrightarrow> dead i s' \<and> event_runs i s' = event_runs i s"
proof (induction rule: disp_reach.induct)
  case (cycle s s' now)
  then show ?case using dead_cycle [of i s' eff order me now] by simp
next
  case (call s s' th now op)
  then show ?case using dead_call disp_call_frame(2) [of th now op s'] by (simp add: event_runs_def)
qed simp

text \<open>
  C30. A stopped event never runs again: once stopEvent has been called for a scheduled event that is
  still registered, no cycle of the dispatcher and no call from any thread, in any order and at any
  time, makes its function run, not even when it was already in the queue and due or repeats itself.
\<close>
theorem stopped_event_never_runs:
  assumes "i \<in> scheduledTasksRef s" "heap s i = Some t" "i \<le> last_event_id s"
    "disp_reach eff order me (stopEvent i s) s'"
  shows "event_runs i s' = event_runs i s"
proof -
  have "dead i (stopEvent i s)" "event_runs i (stopEvent i s) = event_runs i s"
    using assms(1-3) by (auto simp: dead_def stopEvent_def cancel_def event_runs_def)
  then show ?thesis using dead_reach [OF assms(4)] by simp
qed

definition demo_dispatcher :: dispatcher where
  "demo_dispatcher = \<lparr>threads = [\<lparr>th_serial = [], th_parallel = [], th_scheduled = []\<rparr>], m_serial = [], m_parallel = [],
     scheduledTasks = [], scheduledTasksRef = {}, heap = (\<lambda>_. None), last_event_id = 0, hasPendingTasks = False,
     dispatcherCycle = 0, executed = []\<rparr>"

theorem stopped_event_never_runs_witness:
  "let s = mergeEvents (snd (scheduleEvent 0 100 7 50 True demo_dispatcher)) in
   event_runs 1 (dispatch_cycle (\<lambda>_. []) (map (Pair 0)) 0 200 (stopEvent 1 s)) = []"
proof -
  let ?s = "mergeEvents (snd (scheduleEvent 0 100 7 50 True demo_dispatcher))"
  have *: "1 \<in> scheduledTasksRef ?s" "heap ?s 1 = Some (new_scheduled_task 100 7 50 True)" "1 \<le> last_event_id ?s"
    "event_runs 1 ?s = []"
    by (simp_all add: demo_dispatcher_def scheduleEvent_def on_thread_def notify_def mergeEvents_def checkPendingTasks_def
        Let_def case_prod_unfold event_runs_def)
  show ?thesis unfolding Let_def
    using stopped_event_never_runs [OF *(1-3) disp_reach.cycle [OF disp_reach.refl]] *(4) by metis
qed

section \<open>One pass over the scheduled events\<close>

text \<open>What everything but its own turn can do to a scheduled task: leave it or cancel it.\<close>

definition keeps :: "nat \<Rightarrow> dispatcher \<Rightarrow> dispatcher \<Rightarrow> bool" where
  "keeps i s s' \<longleftrightarrow> i \<le> last_event_id s' \<and> (heap s' i = heap s i \<or> heap s' i = map_option cancel (heap s i))"

lemma cancel_idem [simp]: "cancel (cancel t) = cancel t"
  by (simp add: cancel_def)

lemma keeps_trans: "keeps i s s' \<Longrightarrow> keeps i s' s'' \<Longrightarrow> keeps i s s''"
  by (auto simp: keeps_def option.map_comp comp_def)

lemma keeps_refl: "i \<le> last_event_id s \<Longrightarrow> keeps i s s"
  by (simp add: keeps_def)

lemma keeps_call: "i \<le> last_event_id s \<Longrightarrow> keeps i s (disp_call th now op s)"
  by (cases op) (auto simp: keeps_def disp_defs)

lemma keeps_calls: "i \<le> last_event_id s \<Longrightarrow> keeps i s (fold (disp_call th now) ops s)"
proof (induction ops arbitrary: s)
  case (Cons op ops)
  have k: "keeps i s (disp_call th now op s)" using keeps_call [OF Cons.prems] .
  then have "i \<le> last_event_id (disp_call th now op s)" by (simp add: keeps_def)
  from keeps_trans [OF k Cons.IH [OF this]] show ?case by simp
qed (simp add: keeps_refl)

lemma keeps_execute: "i \<le> last_event_id s \<Longrightarrow> keeps i s (snd (execute eff th now src t s))"
  using keeps_calls [of i "s\<lparr>executed := x\<rparr>" for x]
  by (auto simp: execute_def run_func_def keeps_def split: option.splits)

lemma scheduled_step_other:
  assumes "i \<le> last_event_id s" "j \<noteq> i"
  shows "keeps i s (scheduled_step eff me now j s)" "event_runs i (scheduled_step eff me now j s) = event_runs i s"
    "scheduledTasks (scheduled_step eff me now j s) = scheduledTasks s"
proof -
  have "keeps i s (scheduled_step eff me now j s) \<and> event_runs i (scheduled_step eff me now j s) = event_runs i s
      \<and> scheduledTasks (scheduled_step eff me now j s) = scheduledTasks s"
  proof (cases "heap s j")
    case None
    then show ?thesis using assms by (simp add: scheduled_step_def keeps_refl)
  next
    case (Some t)
    show ?thesis using keeps_execute [OF assms(1), of eff me now "Event j" t] execute_frame [where s = s and eff = eff and th = me and now = now and src = "Event j" and t = t] assms(2) Some
      by (auto simp: scheduled_step_def case_prod_unfold keeps_def event_runs_def on_thread_def same_queues_def split: option.splits)
  qed
  then show "keeps i s (scheduled_step eff me now j s)" "event_runs i (scheduled_step eff me now j s) = event_runs i s"
    "scheduledTasks (scheduled_step eff me now j s) = scheduledTasks s" by auto
qed

lemma scheduled_steps_other:
  assumes "i \<le> last_event_id s" "i \<notin> set js"
  shows "keeps i s (fold (scheduled_step eff me now) js s) \<and> event_runs i (fold (scheduled_step eff me now) js s) = event_runs i s"
  using assms
proof (induction js arbitrary: s)
  case (Cons j js)
  have "j \<noteq> i" using Cons.prems(2) by auto
  note k = scheduled_step_other [OF Cons.prems(1) this, of eff me now]
  have "i \<le> last_event_id (scheduled_step eff me now j s)" using k(1) by (simp add: keeps_def)
  from Cons.IH [OF this] Cons.prems(2) show ?case using k(2) keeps_trans [OF k(1)] by simp
qed (simp add: keeps_refl)

lemma scheduled_step_own:
  assumes "heap s i = Some t" "expiration t = 0"
  shows "event_runs i (scheduled_step eff me now i s) =
    event_runs i s @ (case t_func t of None \<Rightarrow> [] | Some f \<Rightarrow> [(Event i, f, now)])"
  using assms execute_frame(2) [where s = s and eff = eff and th = me and now = now and src = "Event i" and t = t]
  by (auto simp: scheduled_step_def case_prod_unfold event_runs_def on_thread_def hasExpired_def split: option.splits)

lemma scheduled_steps_queue:
  "scheduledTasks (fold (scheduled_step eff me now) js s) = scheduledTasks s"
proof (induction js arbitrary: s)
  case (Cons j js)
  have "scheduledTasks (scheduled_step eff me now j s) = scheduledTasks s"
    using execute_frame(1) [where s = s and eff = eff and th = me and now = now and src = "Event j" and t = "the (heap s j)"]
    by (auto simp: scheduled_step_def case_prod_unfold on_thread_def same_queues_def split: option.splits)
  then show ?case using Cons by simp
qed simp

lemma parallel_no_events:
  "event_runs i (executeEvents eff order me now GenericParallel s) = event_runs i s"
  "scheduledTasks (executeEvents eff order me now GenericParallel s) = scheduledTasks s"
proof -
  have "event_runs i (fold (\<lambda>(w, t) s. snd (execute eff w now Direct t s)) ts s) = event_runs i s
      \<and> scheduledTasks (fold (\<lambda>(w, t) s. snd (execute eff w now Direct t s)) ts s) = scheduledTasks s" for ts
  proof (induction ts arbitrary: s)
    case (Cons p ts)
    have "event_runs i (snd (execute eff w now Direct t s)) = event_runs i s
        \<and> scheduledTasks (snd (execute eff w now Direct t s)) = scheduledTasks s" for w t
      using execute_frame [where s = s and eff = eff and th = w and now = now and src = Direct and t = t]
      by (auto simp: event_runs_def same_queues_def split: option.splits)
    then show ?case using Cons by (cases p) simp
  qed simp
  then show "event_runs i (executeEvents eff order me now GenericParallel s) = event_runs i s"
    "scheduledTasks (executeEvents eff order me now GenericParallel s) = scheduledTasks s"
    by (simp_all add: executeEvents_def executeParallelEvents_def event_runs_def)
qed

text \<open>
  C4. Scheduled events run on time, once.  In one pass at time \<^verbatim>\<open>now\<close> over a queue ordered by time, no
  event whose time has not come runs and exactly those stay in the queue; every event whose time has
  come runs at most once, and exactly once unless it was cancelled before its turn, whatever the
  running tasks schedule, stop or post meanwhile.
\<close>
theorem scheduled_events_on_time:
  assumes "sorted (map (task_time s) (scheduledTasks s))" "distinct (scheduledTasks s)"
    "\<forall>j \<in> set (scheduledTasks s). j \<le> last_event_id s \<and> (\<exists>t. heap s j = Some t \<and> expiration t = 0)"
    "i \<in> set (scheduledTasks s)" "heap s i = Some t"
  shows "case executeScheduledEvents eff order me now s of s' \<Rightarrow>
      scheduledTasks s' = filter (\<lambda>j. now < task_time s j) (scheduledTasks s)
      \<and> (utime t > now \<longrightarrow> event_runs i s' = event_runs i s)
      \<and> (utime t \<le> now \<longrightarrow> (\<exists>f. t_func t = Some f \<and> event_runs i s' = event_runs i s @ [(Event i, f, now)])
           \<or> event_runs i s' = event_runs i s \<and> (isCanceled t \<or> (\<exists>pre post. due now s = pre @ i # post \<and>
               heap (fold (scheduled_step eff me now) pre s) i = Some (cancel t))))"
proof -
  have drop: "dropWhile (\<lambda>j. task_time s j \<le> now) q = filter (\<lambda>j. now < task_time s j) q"
    if "sorted (map (task_time s) q)" for q
    using that by (induction q) (auto simp: not_le intro!: filter_True [symmetric])
  have rest: "drop (length (due now s)) (scheduledTasks s) = filter (\<lambda>j. now < task_time s j) (scheduledTasks s)"
    unfolding due_def dropWhile_eq_drop [symmetric] using drop [OF assms(1)] .
  have time: "task_time s i = utime t" using assms(5) by (simp add: task_time_def)
  define s1 where "s1 = fold (scheduled_step eff me now) (due now s) s"
  have runs: "event_runs i (executeScheduledEvents eff order me now s) = event_runs i s1"
    by (simp add: executeScheduledEvents_def Let_def parallel_no_events s1_def [symmetric])
      (simp add: mergeAsyncEvents_def event_runs_def case_prod_unfold)
  have queue: "scheduledTasks (executeScheduledEvents eff order me now s) = filter (\<lambda>j. now < task_time s j) (scheduledTasks s)"
    by (simp add: executeScheduledEvents_def Let_def parallel_no_events s1_def [symmetric])
      (simp add: mergeAsyncEvents_def case_prod_unfold s1_def scheduled_steps_queue rest)
  have le: "i \<le> last_event_id s" "expiration t = 0" using assms(3-5) by auto
  have early: "event_runs i s1 = event_runs i s" if "utime t > now"
  proof -
    have "i \<notin> set (due now s)" using that time by (auto simp: due_def dest: set_takeWhileD)
    then show ?thesis using scheduled_steps_other [OF le(1)] by (simp add: s1_def)
  qed
  have late: "(\<exists>f. t_func t = Some f \<and> event_runs i s1 = event_runs i s @ [(Event i, f, now)])
      \<or> event_runs i s1 = event_runs i s \<and> (isCanceled t \<or> (\<exists>pre post. due now s = pre @ i # post \<and>
           heap (fold (scheduled_step eff me now) pre s) i = Some (cancel t)))" if "utime t \<le> now"
  proof -
    have "scheduledTasks s = due now s @ filter (\<lambda>j. now < task_time s j) (scheduledTasks s)"
      using rest by (metis append_take_drop_id due_def takeWhile_eq_take)
    then have "set (scheduledTasks s) = set (due now s) \<union> set (filter (\<lambda>j. now < task_time s j) (scheduledTasks s))"
      by (metis set_append)
    then have "i \<in> set (due now s)" using assms(4) that time by auto
    then obtain pre post where pp: "due now s = pre @ i # post" by (meson split_list)
    have "distinct (due now s)" using assms(2) by (simp add: due_def distinct_takeWhile)
    then have nin: "i \<notin> set pre" "i \<notin> set post" using pp by auto
    define a where "a = fold (scheduled_step eff me now) pre s"
    have ka: "keeps i s a" "event_runs i a = event_runs i s" using scheduled_steps_other [OF le(1) nin(1)] by (simp_all add: a_def)
    define u where "u = the (heap a i)"
    have hu: "heap a i = Some u" "u = t \<or> u = cancel t" "expiration u = 0"
      using ka(1) assms(5) le(2) by (auto simp: keeps_def u_def cancel_def)
    define b where "b = scheduled_step eff me now i a"
    have rb: "event_runs i b = event_runs i s @ (case t_func u of None \<Rightarrow> [] | Some f \<Rightarrow> [(Event i, f, now)])"
      using scheduled_step_own [OF hu(1,3)] ka(2) by (simp add: b_def)
    have "i \<le> last_event_id b"
    proof -
      have "i \<le> last_event_id a" using ka(1) by (simp add: keeps_def)
      then show ?thesis using keeps_execute [of i a eff me now "Event i" u] hu(1)
        by (simp add: b_def scheduled_step_def case_prod_unfold keeps_def on_thread_def)
    qed
    then have "event_runs i s1 = event_runs i b"
      using scheduled_steps_other [OF _ nin(2), of b] by (simp add: s1_def pp a_def [symmetric] b_def [symmetric])
    then show ?thesis using rb hu(1,2) pp a_def by (auto simp: isCanceled_def cancel_def split: option.splits)
  qed
  show ?thesis using early late queue unfolding runs by simp
qed

theorem scheduled_events_on_time_witness:
  "let s = mergeEvents (snd (scheduleEvent 0 100 7 50 True demo_dispatcher)) in
   event_runs 1 (executeScheduledEvents (\<lambda>_. []) (map (Pair 0)) 0 120 s) = []"
proof -
  let ?s = "mergeEvents (snd (scheduleEvent 0 100 7 50 True demo_dispatcher))"
  have s: "?s = demo_dispatcher\<lparr>last_event_id := 1, heap := [1 \<mapsto> new_scheduled_task 100 7 50 True], scheduledTasksRef := {1},
      scheduledTasks := [1]\<rparr>"
    by (simp add: demo_dispatcher_def scheduleEvent_def on_thread_def notify_def mergeEvents_def checkPendingTasks_def Let_def)
  show ?thesis unfolding Let_def s
    using scheduled_events_on_time [of "demo_dispatcher\<lparr>last_event_id := 1, heap := [1 \<mapsto> new_scheduled_task 100 7 50 True],
        scheduledTasksRef := {1}, scheduledTasks := [1]\<rparr>" 1 "new_scheduled_task 100 7 50 True" "\<lambda>_. []" "map (Pair 0)" 0 120]
    by (simp add: new_scheduled_task_def event_runs_def demo_dispatcher_def)
qed

section \<open>Waking the dispatcher\<close>

text \<open>
  A wake-up can be lost.  A parallel event posted after the cycle has collected the parallel
  queues and before it merges the rest stays in its thread's queue, yet mergeEvents clears the flag
  that posting it has set: with no other work the dispatcher then sleeps, without a time limit when
  nothing is scheduled, although the event is waiting.
\<close>
theorem async_wakeup_lost:
  assumes "th < length (threads s)" "m_serial s = []" "m_parallel s = []" "scheduledTasks s = []"
    "\<forall>t \<in> set (threads s). th_serial t = [] \<and> th_scheduled t = []"
  shows "case mergeEvents (asyncEvent th now f GenericParallel s) of s' \<Rightarrow>
    \<not> hasPendingTasks s' \<and> timeUntilNextScheduledTask now s' = None
    \<and> new_event_task now f 0 \<in> set (th_parallel (threads s' ! th))"
proof -
  have empty: "merge_threads time ts [] [] = (map (\<lambda>t. t\<lparr>th_serial := [], th_scheduled := []\<rparr>) ts, [], [])"
    if "\<forall>t \<in> set ts. th_serial t = [] \<and> th_scheduled t = []" for time ts
    using that by (induction ts) auto
  let ?t = "(threads s ! th)\<lparr>th_parallel := th_parallel (threads s ! th) @ [new_event_task now f 0]\<rparr>"
  let ?ts = "(threads s)[th := ?t]"
  have "th_serial (threads s ! th) = [] \<and> th_scheduled (threads s ! th) = []"
    using assms(1,5) nth_mem by blast
  then have ok: "\<forall>t \<in> set ?ts. th_serial t = [] \<and> th_scheduled t = []"
    using assms(5) set_update_subset_insert [of "threads s" th ?t] by auto
  have a: "threads (asyncEvent th now f GenericParallel s) = ?ts" "m_serial (asyncEvent th now f GenericParallel s) = []"
    "m_parallel (asyncEvent th now f GenericParallel s) = []" "scheduledTasks (asyncEvent th now f GenericParallel s) = []"
    using assms by (simp_all add: asyncEvent_def notify_def on_thread_def)
  show ?thesis using assms(1)
    by (simp add: mergeEvents_def a empty [OF ok] checkPendingTasks_def timeUntilNextScheduledTask_def)
qed

theorem async_wakeup_lost_witness:
  "\<not> hasPendingTasks (mergeEvents (asyncEvent 0 5 9 GenericParallel demo_dispatcher))"
  using async_wakeup_lost [of 0 demo_dispatcher 5 9] by (simp add: demo_dispatcher_def)

section \<open>Waiting for parallel tasks\<close>

text \<open>
  executeParallelEvents as a protocol: each worker runs its task, decrements the counter, reads the
  counter and, if it reads zero, sets the completion flag; the dispatcher returns, and its local
  counter and flag cease to exist, once the flag is set.
\<close>

datatype worker = Running | Executed | Decremented | SawZero | Finished

record join_state =
  workers :: "worker list"
  totalTaskSize :: nat
  isTasksCompleted :: bool
  returned :: bool

definition start_join :: "nat \<Rightarrow> join_state" where
  "start_join n = \<lparr>workers = replicate n Running, totalTaskSize = n, isTasksCompleted = False, returned = False\<rparr>"

inductive join_step :: "join_state \<Rightarrow> join_state \<Rightarrow> bool" where
  run: "k < length (workers s) \<Longrightarrow> workers s ! k = Running \<Longrightarrow> join_step s (s\<lparr>workers := (workers s)[k := Executed]\<rparr>)"
| decrement: "k < length (workers s) \<Longrightarrow> workers s ! k = Executed \<Longrightarrow>
    join_step s (s\<lparr>workers := (workers s)[k := Decremented], totalTaskSize := totalTaskSize s - 1\<rparr>)"
| read_zero: "k < length (workers s) \<Longrightarrow> workers s ! k = Decremented \<Longrightarrow> totalTaskSize s = 0 \<Longrightarrow>
    join_step s (s\<lparr>workers := (workers s)[k := SawZero]\<rparr>)"
| read_more: "k < length (workers s) \<Longrightarrow> workers s ! k = Decremented \<Longrightarrow> totalTaskSize s \<noteq> 0 \<Longrightarrow>
    join_step s (s\<lparr>workers := (workers s)[k := Finished]\<rparr>)"
| complete: "k < length (workers s) \<Longrightarrow> workers s ! k = SawZero \<Longrightarrow>
    join_step s (s\<lparr>workers := (workers s)[k := Finished], isTasksCompleted := True\<rparr>)"
| wake: "isTasksCompleted s \<Longrightarrow> join_step s (s\<lparr>returned := True\<rparr>)"

inductive join_reachable :: "nat \<Rightarrow> join_state \<Rightarrow> bool" for n where
  start: "join_reachable n (start_join n)"
| step: "join_reachable n s \<Longrightarrow> join_step s s' \<Longrightarrow> join_reachable n s'"

definition unfinished :: "join_state \<Rightarrow> nat" where
  "unfinished s = length (filter (\<lambda>w. w = Running \<or> w = Executed) (workers s))"

definition join_inv :: "join_state \<Rightarrow> bool" where
  "join_inv s \<longleftrightarrow> totalTaskSize s = unfinished s \<and> (SawZero \<in> set (workers s) \<longrightarrow> totalTaskSize s = 0)
     \<and> (isTasksCompleted s \<longrightarrow> totalTaskSize s = 0) \<and> (returned s \<longrightarrow> isTasksCompleted s)"

lemma length_filter_update:
  assumes "k < length ws"
  shows "length (filter P (ws[k := w])) + (if P (ws ! k) then 1 else 0) = length (filter P ws) + (if P w then 1 else 0)"
  using assms
proof (induction ws arbitrary: k)
  case (Cons v ws)
  then show ?case by (cases k) auto
qed simp

lemma join_inv_step: "join_step s s' \<Longrightarrow> join_inv s \<Longrightarrow> join_inv s'"
proof (induction rule: join_step.induct)
  case (run k s)
  then show ?case using length_filter_update [OF run(1), of "\<lambda>w. w = Running \<or> w = Executed" Executed]
    by (auto simp: join_inv_def unfinished_def dest: set_update_subset_insert [THEN subsetD])
next
  case (decrement k s)
  then show ?case using length_filter_update [OF decrement(1), of "\<lambda>w. w = Running \<or> w = Executed" Decremented]
    by (auto simp: join_inv_def unfinished_def dest: set_update_subset_insert [THEN subsetD])
next
  case (read_zero k s)
  then show ?case using length_filter_update [OF read_zero(1), of "\<lambda>w. w = Running \<or> w = Executed" SawZero]
    by (auto simp: join_inv_def unfinished_def)
next
  case (read_more k s)
  then show ?case using length_filter_update [OF read_more(1), of "\<lambda>w. w = Running \<or> w = Executed" Finished]
    by (auto simp: join_inv_def unfinished_def dest: set_update_subset_insert [THEN subsetD])
next
  case (complete k s)
  have "SawZero \<in> set (workers s)" using complete(1,2) nth_mem by metis
  then show ?case using complete length_filter_update [OF complete(1), of "\<lambda>w. w = Running \<or> w = Executed" Finished]
    by (auto simp: join_inv_def unfinished_def)
next
  case (wake s)
  then show ?case by (auto simp: join_inv_def unfinished_def)
qed

lemma join_inv_reachable: "join_reachable n s \<Longrightarrow> join_inv s"
  by (induction rule: join_reachable.induct)
    (auto simp: join_inv_step, auto simp: join_inv_def unfinished_def start_join_def)

text \<open>
  C35. The dispatcher never continues before all parallel tasks have run: in every interleaving,
  when executeParallelEvents has returned no worker is still running its task or has yet to count it
  off.
\<close>
theorem parallel_tasks_complete:
  assumes "join_reachable n s" "returned s"
  shows "totalTaskSize s = 0 \<and> (\<forall>w \<in> set (workers s). w \<noteq> Running \<and> w \<noteq> Executed)"
proof -
  have "join_inv s" using join_inv_reachable [OF assms(1)] .
  then have "totalTaskSize s = 0" "unfinished s = 0" using assms(2) by (auto simp: join_inv_def)
  then show ?thesis by (auto simp: unfinished_def filter_empty_conv)
qed

lemma join_race_path:
  "join_reachable 2 \<lparr>workers = [Decremented, Finished], totalTaskSize = 0, isTasksCompleted = True, returned = True\<rparr>"
proof -
  note S = join_reachable.step
  have 0: "join_reachable 2 \<lparr>workers = [Running, Running], totalTaskSize = 2, isTasksCompleted = False, returned = False\<rparr>"
    using join_reachable.start [of 2] by (simp add: start_join_def numeral_2_eq_2)
  have 1: "join_reachable 2 \<lparr>workers = [Executed, Running], totalTaskSize = 2, isTasksCompleted = False, returned = False\<rparr>"
    using S [OF 0 join_step.run [of 0]] by simp
  have 2: "join_reachable 2 \<lparr>workers = [Executed, Executed], totalTaskSize = 2, isTasksCompleted = False, returned = False\<rparr>"
    using S [OF 1 join_step.run [of 1]] by simp
  have 3: "join_reachable 2 \<lparr>workers = [Decremented, Executed], totalTaskSize = 1, isTasksCompleted = False, returned = False\<rparr>"
    using S [OF 2 join_step.decrement [of 0]] by simp
  have 4: "join_reachable 2 \<lparr>workers = [Decremented, Decremented], totalTaskSize = 0, isTasksCompleted = False, returned = False\<rparr>"
    using S [OF 3 join_step.decrement [of 1]] by simp
  have 5: "join_reachable 2 \<lparr>workers = [Decremented, SawZero], totalTaskSize = 0, isTasksCompleted = False, returned = False\<rparr>"
    using S [OF 4 join_step.read_zero [of 1]] by simp
  have 6: "join_reachable 2 \<lparr>workers = [Decremented, Finished], totalTaskSize = 0, isTasksCompleted = True, returned = False\<rparr>"
    using S [OF 5 join_step.complete [of 1]] by simp
  show ?thesis using S [OF 6 join_step.wake] by simp
qed

theorem parallel_tasks_complete_witness:
  "case \<lparr>workers = [Decremented, Finished], totalTaskSize = 0, isTasksCompleted = True, returned = True\<rparr> of s \<Rightarrow>
     join_reachable 2 s \<and> totalTaskSize s = 0 \<and> Running \<notin> set (workers s) \<and> Executed \<notin> set (workers s)"
  using parallel_tasks_complete [OF join_race_path] join_race_path by simp

text \<open>
  But it may continue too early for the counter: there is an interleaving of two workers in which
  executeParallelEvents has returned while one of them still has to read the counter, a local
  variable of the call that no longer exists.
\<close>
theorem parallel_counter_race:
  "\<exists>s. join_reachable 2 s \<and> returned s \<and> Decremented \<in> set (workers s)"
  using join_race_path by (intro exI conjI) auto

end
