(* ===== verification/Prop_Stream.thy ===== *)
theory Prop_Stream
  imports Prelude
begin

text \<open>
  The property streams of \<open>io/fileloader.hpp\<close>: \<open>PropWriteStream\<close> appends the object
  representation of integers and length-prefixed strings to a byte vector, \<open>PropStream\<close>
  walks over a byte range with a bounds check before every read. Item attributes,
  conditions and house items travel through this pair.
\<close>

section \<open>Writing\<close>

type_synonym prop_write_stream = bytes

definition pw_clear :: "prop_write_stream \<Rightarrow> prop_write_stream" where
  "pw_clear buffer = []"

definition pw_write :: "'a::len word \<Rightarrow> prop_write_stream \<Rightarrow> prop_write_stream" where
  "pw_write v buffer = buffer @ le_bytes (LENGTH('a) div 8) v"

text \<open>A string that does not fit its 16-bit length is replaced by the empty string.\<close>

definition pw_writeString :: "bytes \<Rightarrow> prop_write_stream \<Rightarrow> prop_write_stream" where
  "pw_writeString str buffer =
     (if length str > 65535 then pw_write (0 :: u16) buffer
      else pw_write (of_nat (length str) :: u16) buffer @ str)"

section \<open>Reading\<close>

text \<open>
  The pointers \<open>p\<close> and \<open>end\<close> delimit the bytes not yet read. Every reader returns the value
  when it returns true; a failing \<open>readString\<close> may already have consumed the length.
\<close>

type_synonym prop_stream = bytes

definition ps_size :: "prop_stream \<Rightarrow> nat" where
  "ps_size s = length s"

definition ps_read :: "prop_stream \<Rightarrow> 'a::len word option \<times> prop_stream" where
  "ps_read s =
     (if ps_size s < LENGTH('a) div 8 then (None, s)
      else (Some (le_word (take (LENGTH('a) div 8) s)), drop (LENGTH('a) div 8) s))"

definition ps_readString :: "prop_stream \<Rightarrow> bytes option \<times> prop_stream" where
  "ps_readString s =
     (case ps_read s :: u16 option \<times> prop_stream of
        (None, s1) \<Rightarrow> (None, s1)
      | (Some strLen, s1) \<Rightarrow>
          if ps_size s1 < unat strLen then (None, s1)
          else (Some (take (unat strLen) s1), drop (unat strLen) s1))"

definition ps_skip :: "nat \<Rightarrow> prop_stream \<Rightarrow> bool \<times> prop_stream" where
  "ps_skip n s = (if ps_size s < n then (False, s) else (True, drop n s))"

section \<open>Typed sequences\<close>

datatype prop_value = P8 u8 | P16 u16 | P32 u32 | P64 u64 | PStr bytes

datatype prop_kind = K8 | K16 | K32 | K64 | KStr

fun prop_kind_of :: "prop_value \<Rightarrow> prop_kind" where
  "prop_kind_of (P8 _) = K8"
| "prop_kind_of (P16 _) = K16"
| "prop_kind_of (P32 _) = K32"
| "prop_kind_of (P64 _) = K64"
| "prop_kind_of (PStr _) = KStr"

fun write_prop :: "prop_value \<Rightarrow> prop_write_stream \<Rightarrow> prop_write_stream" where
  "write_prop (P8 v) b = pw_write v b"
| "write_prop (P16 v) b = pw_write v b"
| "write_prop (P32 v) b = pw_write v b"
| "write_prop (P64 v) b = pw_write v b"
| "write_prop (PStr s) b = pw_writeString s b"

definition tagged :: "('a \<Rightarrow> 'b) \<Rightarrow> 'a option \<times> 's \<Rightarrow> 'b option \<times> 's" where
  "tagged c r = (map_option c (fst r), snd r)"

fun read_prop :: "prop_kind \<Rightarrow> prop_stream \<Rightarrow> prop_value option \<times> prop_stream" where
  "read_prop K8 s = tagged P8 (ps_read s)"
| "read_prop K16 s = tagged P16 (ps_read s)"
| "read_prop K32 s = tagged P32 (ps_read s)"
| "read_prop K64 s = tagged P64 (ps_read s)"
| "read_prop KStr s = tagged PStr (ps_readString s)"

fun read_props :: "prop_kind list \<Rightarrow> prop_stream \<Rightarrow> prop_value list option \<times> prop_stream" where
  "read_props [] s = (Some [], s)"
| "read_props (k # ks) s =
     (case read_prop k s of
        (None, s1) \<Rightarrow> (None, s1)
      | (Some v, s1) \<Rightarrow> tagged ((#) v) (read_props ks s1))"

text \<open>The bytes a value contributes, and the value a string is reduced to when it is too long.\<close>

fun enc_prop :: "prop_value \<Rightarrow> bytes" where
  "enc_prop (P8 v) = [v]"
| "enc_prop (P16 v) = le_bytes 2 v"
| "enc_prop (P32 v) = le_bytes 4 v"
| "enc_prop (P64 v) = le_bytes 8 v"
| "enc_prop (PStr s) =
     (if length s > 65535 then [0, 0] else le_bytes 2 (of_nat (length s) :: u16) @ s)"

fun stored_prop :: "prop_value \<Rightarrow> prop_value" where
  "stored_prop (PStr s) = PStr (if length s > 65535 then [] else s)"
| "stored_prop v = v"

lemma write_prop_enc: "write_prop v b = b @ enc_prop v"
  by (cases v) (simp_all add: pw_write_def pw_writeString_def numeral_2_eq_2)

lemma fold_write_prop: "fold write_prop vs b = b @ concat (map enc_prop vs)"
  by (induction vs arbitrary: b) (simp_all add: write_prop_enc)

lemma ps_read_le_bytes:
  assumes "8 * (LENGTH('a::len) div 8) = LENGTH('a)" "n = LENGTH('a) div 8"
  shows "ps_read (le_bytes n (v :: 'a word) @ rest) = (Some v, rest)"
  using assms by (simp add: ps_read_def ps_size_def)

lemma ps_readString_enc:
  assumes "length s \<le> 65535"
  shows "ps_readString (le_bytes 2 (of_nat (length s) :: u16) @ s @ rest) = (Some s, rest)"
  using assms
  by (simp add: ps_readString_def ps_read_le_bytes [where 'a = 16] ps_size_def unat_of_nat_lt)

lemma read_prop_enc: "read_prop (prop_kind_of v) (enc_prop v @ rest) = (Some (stored_prop v), rest)"
proof (cases v)
  case (P8 w)
  then show ?thesis
    using ps_read_le_bytes [where 'a = 8 and n = 1 and v = w and rest = rest] by (simp add: tagged_def)
next
  case (PStr s)
  show ?thesis
  proof (cases "length s > 65535")
    case True
    then show ?thesis
      using PStr ps_readString_enc [of "[]" rest] by (simp add: tagged_def numeral_2_eq_2)
  qed (simp add: PStr tagged_def ps_readString_enc)
qed (simp_all add: tagged_def ps_read_le_bytes)

lemma read_props_enc:
  "read_props (map prop_kind_of vs) (concat (map enc_prop vs) @ rest) = (Some (map stored_prop vs), rest)"
  by (induction vs) (simp_all add: read_prop_enc tagged_def)

text \<open>Readers never go past the end and a failing integer read leaves the stream unchanged.\<close>

lemma ps_read_suffix: "\<exists>used. s = used @ snd (ps_read s :: 'a::len word option \<times> prop_stream)"
  by (auto simp: ps_read_def) (metis append_take_drop_id)

lemma read_prop_suffix: "\<exists>used. s = used @ snd (read_prop k s)"
proof -
  have "\<exists>used. s = used @ snd (ps_readString s)"
  proof -
    obtain o1 s1 where s1: "ps_read s = (o1 :: u16 option, s1)" by fastforce
    obtain used where used: "s = used @ s1" using ps_read_suffix [of s, where 'a = 16] s1 by auto
    show ?thesis
    proof (cases "\<exists>n. o1 = Some n \<and> unat n \<le> length s1")
      case True
      then obtain n where "o1 = Some n" "unat n \<le> length s1" by blast
      then show ?thesis using s1 used
        by (auto simp: ps_readString_def ps_size_def intro: exI [of _ "used @ take (unat n) s1"])
    next
      case False
      then show ?thesis using s1 used
        by (auto simp: ps_readString_def ps_size_def split: option.splits)
    qed
  qed
  then show ?thesis by (cases k) (simp_all add: tagged_def ps_read_suffix)
qed

text \<open>
  Reading back what was written to a property stream, with the same sequence of types,
  returns every integer exactly and every string of at most 65535 bytes exactly; longer
  strings come back empty without disturbing the values behind them. Nothing is left over.
\<close>
theorem prop_stream_round_trip:
  "read_props (map prop_kind_of vs) (fold write_prop vs (pw_clear b)) = (Some (map stored_prop vs), [])"
  using read_props_enc [of vs "[]"] by (simp add: fold_write_prop pw_clear_def)

end
