(* ===== verification/Otb_Loader.thy ===== *)
theory Otb_Loader
  imports Prop_Stream
begin

text \<open>
  The node files of \<open>io/fileloader.cpp\<close>: a 4-byte identifier followed by a tree of nodes,
  each delimited by a start and an end marker, with marker bytes inside properties
  preceded by an escape byte. \<open>Loader\<close> checks the identifier, \<open>parseTree\<close> builds the node
  tree with iterators into the file, \<open>getProps\<close> hands out the unescaped properties.
\<close>

section \<open>Nodes\<close>

definition NODE_ESCAPE :: u8 where "NODE_ESCAPE = 0xFD"
definition NODE_START :: u8 where "NODE_START = 0xFE"
definition NODE_END :: u8 where "NODE_END = 0xFF"

lemmas node_marks = NODE_ESCAPE_def NODE_START_def NODE_END_def

text \<open>Iterators are offsets into the file; an iterator never assigned is \<open>None\<close>.\<close>

datatype otb_node =
  Otb_Node (node_type: u8) (propsBegin: nat) (propsEnd: "nat option") (node_children: "otb_node list")

datatype load_error = InvalidOTBFormat

definition wildcard :: bytes where "wildcard = [0, 0, 0, 0]"

definition loader_accepts :: "bytes \<Rightarrow> bytes \<Rightarrow> bool" where
  "loader_accepts acceptedIdentifier fileContents \<longleftrightarrow>
     length fileContents > 4 + 1 + 1 + 1
     \<and> (take 4 fileContents = acceptedIdentifier \<or> take 4 fileContents = wildcard)"

section \<open>Parsing\<close>

text \<open>
  The parse stack holds pointers to the nodes on the path from the root to the current
  node. Here it holds the nodes themselves, the current one first, and a finished node is
  put behind its siblings when it is popped; while a node is on the stack nothing looks
  at the child list of its parent. The root is stored when the stack becomes empty. The
  iterator is its offset together with the bytes from there on.
\<close>

type_synonym parse_state = "otb_node list \<times> otb_node option"

fun end_props :: "nat \<Rightarrow> otb_node \<Rightarrow> otb_node" where
  "end_props it (Otb_Node t pb pe cs) = Otb_Node t pb (if cs = [] then Some it else pe) cs"

fun add_child :: "otb_node \<Rightarrow> otb_node \<Rightarrow> otb_node" where
  "add_child c (Otb_Node t pb pe cs) = Otb_Node t pb pe (cs @ [c])"

fun pop_node :: "parse_state \<Rightarrow> parse_state" where
  "pop_node ([], r) = ([], r)"
| "pop_node ([n], r) = ([], Some n)"
| "pop_node (n # p # ns, r) = (add_child n p # ns, r)"

fun map_top :: "(otb_node \<Rightarrow> otb_node) \<Rightarrow> parse_state \<Rightarrow> parse_state" where
  "map_top f (n # ns, r) = (f n # ns, r)"
| "map_top f ([], r) = ([], r)"

fun push_node :: "otb_node \<Rightarrow> parse_state \<Rightarrow> parse_state" where
  "push_node n (ns, r) = (n # ns, r)"

fun parse_loop :: "nat \<Rightarrow> bytes \<Rightarrow> parse_state \<Rightarrow> load_error + parse_state" where
  "parse_loop it [] st = Inr st"
| "parse_loop it (b # bs) st =
     (if b = NODE_START then
        if fst st = [] then Inl InvalidOTBFormat
        else (case bs of
                [] \<Rightarrow> Inl InvalidOTBFormat
              | t # bs' \<Rightarrow>
                  parse_loop (it + 2) bs' (push_node (Otb_Node t (it + 2) None []) (map_top (end_props it) st)))
      else if b = NODE_END then
        if fst st = [] then Inl InvalidOTBFormat
        else parse_loop (it + 1) bs (pop_node (map_top (end_props it) st))
      else if b = NODE_ESCAPE then
        (case bs of [] \<Rightarrow> Inl InvalidOTBFormat | _ # bs' \<Rightarrow> parse_loop (it + 2) bs' st)
      else parse_loop (it + 1) bs st)"

definition parseTree :: "bytes \<Rightarrow> load_error + otb_node" where
  "parseTree fileContents =
     (case drop 4 fileContents of
        b # t # bs \<Rightarrow>
          if b \<noteq> NODE_START then Inl InvalidOTBFormat
          else (case parse_loop 6 bs ([Otb_Node t 6 None []], None) of
                  Inr ([], Some root) \<Rightarrow> Inr root
                | _ \<Rightarrow> Inl InvalidOTBFormat)
      | _ \<Rightarrow> Inl InvalidOTBFormat)"

definition load :: "bytes \<Rightarrow> bytes \<Rightarrow> load_error + otb_node" where
  "load acceptedIdentifier fileContents =
     (if loader_accepts acceptedIdentifier fileContents then parseTree fileContents
      else Inl InvalidOTBFormat)"

fun copy_props :: "bool \<Rightarrow> bytes \<Rightarrow> bytes" where
  "copy_props lastEscaped [] = []"
| "copy_props lastEscaped (b # bs) =
     (let lastEscaped' = (b = NODE_ESCAPE \<and> \<not> lastEscaped)
      in if lastEscaped' then copy_props lastEscaped' bs else b # copy_props lastEscaped' bs)"

text \<open>\<open>None\<close> is the result false; an unassigned end iterator has no properties to offer.\<close>

fun getProps :: "bytes \<Rightarrow> otb_node \<Rightarrow> prop_stream option" where
  "getProps fileContents (Otb_Node t pb (Some pe) cs) =
     (if pe - pb = 0 then None else Some (copy_props False (take (pe - pb) (drop pb fileContents))))"
| "getProps fileContents (Otb_Node t pb None cs) = None"

section \<open>The file format\<close>

text \<open>
  The format as the map and item editors write it: a tree of typed nodes with arbitrary
  property bytes, in which the three marker values are escaped.
\<close>

datatype otb_tree = Otb_Tree u8 bytes "otb_tree list"

definition special :: "u8 \<Rightarrow> bool" where
  "special b \<longleftrightarrow> b = NODE_START \<or> b = NODE_END \<or> b = NODE_ESCAPE"

definition escape :: "bytes \<Rightarrow> bytes" where
  "escape bs = concat (map (\<lambda>b. if special b then [NODE_ESCAPE, b] else [b]) bs)"

fun enc_tree :: "otb_tree \<Rightarrow> bytes" where
  "enc_tree (Otb_Tree t ps cs) =
     NODE_START # t # escape ps @ concat (map enc_tree cs) @ [NODE_END]"

text \<open>What a client of the loader reads from a node and its descendants.\<close>

fun tree_of :: "bytes \<Rightarrow> otb_node \<Rightarrow> otb_tree" where
  "tree_of fileContents (Otb_Node t pb pe cs) =
     Otb_Tree t (case getProps fileContents (Otb_Node t pb pe cs) of None \<Rightarrow> [] | Some ps \<Rightarrow> ps)
       (map (tree_of fileContents) cs)"

text \<open>The node the loader builds for a tree that starts at a given offset.\<close>

fun built :: "nat \<Rightarrow> otb_tree \<Rightarrow> otb_node"
  and built_list :: "nat \<Rightarrow> otb_tree list \<Rightarrow> otb_node list" where
  "built it (Otb_Tree t ps cs) =
     Otb_Node t (it + 2) (Some (it + 2 + length (escape ps))) (built_list (it + 2 + length (escape ps)) cs)"
| "built_list it [] = []"
| "built_list it (c # cs) = built it c # built_list (it + length (enc_tree c)) cs"

lemma escape_simps [simp]:
  "escape [] = []"
  "escape (b # bs) = (if special b then [NODE_ESCAPE, b] else [b]) @ escape bs"
  by (simp_all add: escape_def)

lemma marks_distinct [simp]:
  "NODE_START \<noteq> NODE_END" "NODE_START \<noteq> NODE_ESCAPE" "NODE_END \<noteq> NODE_ESCAPE"
  "NODE_END \<noteq> NODE_START" "NODE_ESCAPE \<noteq> NODE_START" "NODE_ESCAPE \<noteq> NODE_END"
  by (simp_all add: node_marks)

lemma copy_props_escape [simp]: "copy_props False (escape ps) = ps"
  by (induction ps) (auto simp: special_def)

lemma escape_eq_Nil [simp]: "escape ps = [] \<longleftrightarrow> ps = []"
  by (cases ps) auto

lemma parse_loop_escape:
  "parse_loop it (escape ps @ rest) st = parse_loop (it + length (escape ps)) rest st"
  by (induction ps arbitrary: it) (auto simp: special_def)

text \<open>
  A whole encoded subtree becomes the last child of the current node, and the current
  node's properties end where its first child begins.
\<close>

lemma parse_loop_tree:
  fixes T :: otb_tree and Ts :: "otb_tree list"
  shows "parse_loop it (enc_tree T @ rest) (n # ns, r) =
      parse_loop (it + length (enc_tree T)) rest (add_child (built it T) (end_props it n) # ns, r)"
  and "parse_loop it (concat (map enc_tree Ts) @ rest) (Otb_Node t pb pe cs # ns, r) =
      parse_loop (it + length (concat (map enc_tree Ts))) rest
        (Otb_Node t pb (if cs = [] \<and> Ts \<noteq> [] then Some it else pe) (cs @ built_list it Ts) # ns, r)"
proof (induction it T and it Ts arbitrary: rest n ns r and rest t pb pe cs ns r
    rule: built_built_list.induct)
  case (1 it t ps cs)
  have "2 = Suc (Suc 0)" by simp
  then show ?case
    using 1 [where t = t and pb = "it + 2" and pe = None and cs = "[]" and ns = "end_props it n # ns"
        and rest = "NODE_END # rest" and r = r]
    by (cases cs) (simp_all add: parse_loop_escape algebra_simps)
next
  case (2 it)
  then show ?case by simp
next
  case (3 it c cs)
  show ?case
    by (simp add: 3 algebra_simps)
qed

lemma take_drop_middle: "take (length ys) (drop (length xs) (xs @ ys @ zs)) = ys"
  by simp

lemma tree_of_built:
  fixes T :: otb_tree and Ts :: "otb_tree list"
  shows "tree_of (xs @ enc_tree T @ ys) (built (length xs) T) = T"
  and "map (tree_of (xs @ concat (map enc_tree Ts) @ ys)) (built_list (length xs) Ts) = Ts"
proof (induction "length xs" T and "length xs" Ts arbitrary: xs ys and xs ys
    rule: built_built_list.induct)
  case (1 t ps cs)
  show ?case
    using 1 [of "xs @ NODE_START # t # escape ps" "NODE_END # ys"] by simp
next
  case 2
  then show ?case by simp
next
  case (3 c cs)
  show ?case
    using 3(1) [of xs "concat (map enc_tree cs) @ ys"] 3(2) [of "xs @ enc_tree c" ys] by simp
qed

lemma parseTree_enc:
  assumes "length ident = 4"
  shows "parseTree (ident @ enc_tree T) = Inr (built 4 T)"
proof (cases T)
  case (Otb_Tree t ps cs)
  have "parse_loop (6 + length (escape ps)) (concat (map enc_tree cs) @ [NODE_END]) ([Otb_Node t 6 None []], None)
      = Inr ([], Some (built 4 T))"
    using parse_loop_tree(2) [where it = "6 + length (escape ps)" and Ts = cs and rest = "[NODE_END]"
        and t = t and pb = 6 and pe = None and cs = "[]" and ns = "[]" and r = None]
    by (cases cs) (simp_all add: Otb_Tree)
  then show ?thesis
    using assms by (simp add: parseTree_def Otb_Tree parse_loop_escape)
qed

section \<open>Well-formed nodes\<close>

text \<open>
  Nodes of a finished parse have both iterators assigned, in order and inside the file, so
  that \<open>getProps\<close> copies from a valid range. While a node is on the stack its end is
  assigned exactly when it has a child or its child is being parsed.
\<close>

fun node_ok :: "nat \<Rightarrow> otb_node \<Rightarrow> bool" where
  "node_ok len (Otb_Node t pb pe cs) \<longleftrightarrow>
     (\<exists>e. pe = Some e \<and> pb \<le> e \<and> e \<le> len) \<and> (\<forall>c \<in> set cs. node_ok len c)"

definition open_ok :: "nat \<Rightarrow> nat \<Rightarrow> bool \<Rightarrow> otb_node \<Rightarrow> bool" where
  "open_ok len it ended n \<longleftrightarrow> propsBegin n \<le> it
     \<and> (if ended \<or> node_children n \<noteq> [] then node_ok len n else propsEnd n = None)"

fun state_ok :: "nat \<Rightarrow> nat \<Rightarrow> parse_state \<Rightarrow> bool" where
  "state_ok len it ([], r) \<longleftrightarrow> (\<exists>n. r = Some n \<and> node_ok len n)"
| "state_ok len it (n # ns, r) \<longleftrightarrow> open_ok len it False n \<and> list_all (open_ok len it True) ns"

lemma open_ok_mono: "open_ok len it e n \<Longrightarrow> it \<le> it' \<Longrightarrow> open_ok len it' e n"
  by (auto simp: open_ok_def)

lemma state_ok_mono: "state_ok len it st \<Longrightarrow> it \<le> it' \<Longrightarrow> state_ok len it' st"
  by (induction len it st rule: state_ok.induct) (auto simp: list_all_iff intro: open_ok_mono)

lemma end_props_ok: "open_ok len it False n \<Longrightarrow> it \<le> len \<Longrightarrow> open_ok len it True (end_props it n)"
  by (cases n) (auto simp: open_ok_def)

lemma open_ok_node_ok: "open_ok len it True n \<Longrightarrow> node_ok len n"
  by (simp add: open_ok_def)

lemma add_child_ok:
  "open_ok len it True p \<Longrightarrow> node_ok len c \<Longrightarrow> open_ok len it e (add_child c p)"
  by (cases p) (auto simp: open_ok_def)

lemma push_ok:
  assumes "state_ok len it st" "fst st \<noteq> []" "it + 2 \<le> len"
  shows "state_ok len (it + 2) (push_node (Otb_Node t (it + 2) None []) (map_top (end_props it) st))"
proof -
  obtain n ns r where st: "st = (n # ns, r)" using assms(2) by (cases st; cases "fst st") auto
  have "open_ok len (it + 2) True (end_props it n)"
    using assms end_props_ok [of len it n] by (auto simp: st intro: open_ok_mono)
  moreover have "list_all (open_ok len (it + 2) True) ns"
    using assms(1) by (auto simp: st list_all_iff intro: open_ok_mono)
  ultimately show ?thesis by (simp add: st open_ok_def)
qed

lemma pop_ok:
  assumes "state_ok len it st" "fst st \<noteq> []" "it \<le> len"
  shows "state_ok len it (pop_node (map_top (end_props it) st))"
proof -
  obtain n ns r where st: "st = (n # ns, r)" using assms(2) by (cases st; cases "fst st") auto
  have "node_ok len (end_props it n)"
    using assms end_props_ok [of len it n] by (auto simp: st intro: open_ok_node_ok)
  then show ?thesis using assms(1) by (cases ns) (auto simp: st intro: add_child_ok)
qed

lemma parse_loop_ok:
  assumes "parse_loop it bs st = Inr st'" "state_ok len it st" "it + length bs = len"
  shows "state_ok len len st'"
  using assms
proof (induction it bs st arbitrary: st' rule: parse_loop.induct)
  case (1 it st)
  then show ?case by simp
next
  case (2 it b bs st)
  note IH = 2(1-4) and prems = 2(5-7)
  consider (start) "b = NODE_START" | (stop) "b = NODE_END" | (esc) "b = NODE_ESCAPE"
    | (plain) "b \<noteq> NODE_START" "b \<noteq> NODE_END" "b \<noteq> NODE_ESCAPE" by blast
  then show ?case
  proof cases
    case start
    with prems(1) obtain t bs' where bs: "bs = t # bs'" "fst st \<noteq> []"
      by (auto split: if_splits list.splits)
    then show ?thesis using start IH(1) [OF start bs(2,1)] prems push_ok [of len it st t] by simp
  next
    case stop
    then have st: "fst st \<noteq> []" using prems(1) by (auto split: if_splits)
    then show ?thesis
      using stop IH(2) prems pop_ok [of len it st] state_ok_mono [of len it _ "it + 1"] by simp
  next
    case esc
    with prems(1) obtain t bs' where bs: "bs = t # bs'" by (auto split: list.splits)
    then show ?thesis using esc IH(3) prems state_ok_mono [of len it st "it + 2"] by simp
  next
    case plain
    then show ?thesis using IH(4) prems state_ok_mono [of len it st "it + 1"] by simp
  qed
qed

text \<open>
  A file made of an accepted (or wildcard) identifier and an encoded node tree loads, and
  the node types, properties and children that a client reads from the result are those of
  the tree; the markers inside property bytes are restored. The tree must not be a single
  node without properties, which the minimal size check refuses.
\<close>
theorem otb_round_trip:
  assumes "length ident = 4" "ident = accepted \<or> ident = wildcard" "ps \<noteq> [] \<or> cs \<noteq> []"
  shows "\<exists>root. load accepted (ident @ enc_tree (Otb_Tree t ps cs)) = Inr root
    \<and> tree_of (ident @ enc_tree (Otb_Tree t ps cs)) root = Otb_Tree t ps cs"
proof -
  have "ps \<noteq> [] \<Longrightarrow> length (escape ps) > 0" by simp
  moreover have "cs \<noteq> [] \<Longrightarrow> length (concat (map enc_tree cs)) > 0"
    by (cases cs; cases "hd cs") auto
  ultimately have "loader_accepts accepted (ident @ enc_tree (Otb_Tree t ps cs))"
    using assms by (auto simp: loader_accepts_def simp del: length_greater_0_conv)
  then show ?thesis
    using assms(1) tree_of_built(1) [of ident "Otb_Tree t ps cs" "[]"]
    by (simp add: load_def parseTree_enc del: built.simps enc_tree.simps)
qed

theorem otb_round_trip_witness:
  "\<exists>root. load [79, 84, 66, 77] ([0, 0, 0, 0] @ enc_tree (Otb_Tree 0 [1, 0xFE] [Otb_Tree 7 [] []])) = Inr root
    \<and> tree_of ([0, 0, 0, 0] @ enc_tree (Otb_Tree 0 [1, 0xFE] [Otb_Tree 7 [] []])) root
      = Otb_Tree 0 [1, 0xFE] [Otb_Tree 7 [] []]"
  by (rule otb_round_trip) (simp_all add: wildcard_def)

text \<open>
  C27. Whatever bytes a file holds, if it loads then in the whole node tree every properties
  range has both ends assigned, in order and inside the file.
\<close>
theorem loaded_nodes_in_bounds:
  assumes "load accepted fileContents = Inr root"
  shows "node_ok (length fileContents) root"
proof -
  have acc: "length fileContents > 7" and p: "parseTree fileContents = Inr root"
    using assms by (auto simp: load_def loader_accepts_def split: if_splits)
  obtain b t bs where f: "drop 4 fileContents = b # t # bs"
    using acc p by (auto simp: parseTree_def split: list.splits)
  then have loop: "parse_loop 6 bs ([Otb_Node t 6 None []], None) = Inr ([], Some root)"
    using p by (auto simp: parseTree_def split: if_splits sum.splits list.splits option.splits)
  have "length (drop 4 fileContents) = length bs + 2" using f by simp
  then have "6 + length bs = length fileContents" using acc by simp
  moreover have "state_ok (length fileContents) 6 ([Otb_Node t 6 None []], None)"
    by (simp add: open_ok_def)
  ultimately show ?thesis using parse_loop_ok [OF loop] by simp
qed

theorem loaded_nodes_in_bounds_witness:
  "node_ok 9 (built 4 (Otb_Tree 1 [2, 3] []))"
proof -
  have "load [0, 0, 0, 0] ([0, 0, 0, 0] @ enc_tree (Otb_Tree 1 [2, 3] [])) = Inr (built 4 (Otb_Tree 1 [2, 3] []))"
    using parseTree_enc [of "[0, 0, 0, 0]" "Otb_Tree 1 [2, 3] []"]
    by (simp add: load_def loader_accepts_def special_def node_marks del: built.simps)
  from loaded_nodes_in_bounds [OF this] show ?thesis
    by (simp add: special_def node_marks)
qed

text \<open>A file with only an empty root node is refused.\<close>

lemma lone_empty_root_refused: "length ident = 4 \<Longrightarrow> load accepted (ident @ enc_tree (Otb_Tree t [] [])) = Inl InvalidOTBFormat"
  by (simp add: load_def loader_accepts_def)

end
