(* ===== verification/File_Stream.thy ===== *)
theory File_Stream
  imports Otb_Loader Position
begin

text \<open>
  The map stream of \<open>io/filestream.cpp\<close>: sequential reading of a node file without building
  a tree, with unescaping while inside a node, and the two loops of \<open>io/iomap.cpp\<close> that
  read the towns and the waypoints of a map through it.
\<close>

section \<open>The stream\<close>

record file_stream =
  m_nodes :: u32
  m_pos :: u32
  m_data :: bytes

text \<open>
  \<open>Failure\<close> is the exception the code throws, \<open>Out_of_bounds\<close> an access of \<open>m_data\<close> beyond its
  end, which the code does not check for, \<open>Map_error\<close> the exception of the map loader.
\<close>

datatype stream_error = Failure | Out_of_bounds | Map_error | Out_of_fuel

fun and_then :: "'e + 'a \<times> 's \<Rightarrow> ('a \<Rightarrow> 's \<Rightarrow> 'e + 'b) \<Rightarrow> 'e + 'b" where
  "and_then (Inl e) f = Inl e"
| "and_then (Inr (v, s)) f = f v s"

definition tell :: "file_stream \<Rightarrow> u32" where
  "tell s = m_pos s"

definition seek :: "u32 \<Rightarrow> file_stream \<Rightarrow> stream_error + file_stream" where
  "seek pos s = (if unat pos > length (m_data s) then Inl Failure else Inr (s\<lparr>m_pos := pos\<rparr>))"

definition fs_skip :: "u32 \<Rightarrow> file_stream \<Rightarrow> stream_error + file_stream" where
  "fs_skip len s = seek (tell s + len) s"

definition fs_size :: "file_stream \<Rightarrow> stream_error + u32" where
  "fs_size s = (if length (m_data s) > 2 ^ 32 - 1 then Inl Failure else Inr (of_nat (length (m_data s))))"

definition fs_back :: "u32 \<Rightarrow> file_stream \<Rightarrow> file_stream" where
  "fs_back pos s = s\<lparr>m_pos := m_pos s - pos\<rparr>"

text \<open>\<open>m_data[m_pos]\<close>, and one byte with the escape byte in front of it skipped.\<close>

definition current :: "file_stream \<Rightarrow> stream_error + u8 \<times> file_stream" where
  "current s =
     (if unat (m_pos s) < length (m_data s) then Inr (m_data s ! unat (m_pos s), s) else Inl Out_of_bounds)"

definition next_byte :: "bool \<Rightarrow> file_stream \<Rightarrow> stream_error + u8 \<times> file_stream" where
  "next_byte unescape s =
     and_then (if unescape then current s else Inr (0, s)) (\<lambda>b s.
     let s1 = (if unescape \<and> b = NODE_ESCAPE then s\<lparr>m_pos := m_pos s + 1\<rparr> else s) in
     and_then (current s1) (\<lambda>v s1. Inr (v, s1\<lparr>m_pos := m_pos s1 + 1\<rparr>)))"

primrec read_loop :: "nat \<Rightarrow> file_stream \<Rightarrow> stream_error + bytes \<times> file_stream" where
  "read_loop 0 s = Inr ([], s)"
| "read_loop (Suc n) s =
     and_then (next_byte True s) (\<lambda>b s. and_then (read_loop n s) (\<lambda>bs s. Inr (b # bs, s)))"

definition read_array :: "nat \<Rightarrow> bool \<Rightarrow> file_stream \<Rightarrow> stream_error + bytes \<times> file_stream" where
  "read_array sz esc s =
     (if unat (m_pos s) + sz > length (m_data s) then Inl Failure
      else if esc then read_loop sz s
      else Inr (take sz (drop (unat (m_pos s)) (m_data s)), s\<lparr>m_pos := m_pos s + of_nat sz\<rparr>))"

definition fs_read :: "bool \<Rightarrow> file_stream \<Rightarrow> stream_error + 'a::len word \<times> file_stream" where
  "fs_read esc s = and_then (read_array (LENGTH('a) div 8) esc s) (\<lambda>bs s. Inr (le_word bs, s))"

definition getU8 :: "file_stream \<Rightarrow> stream_error + u8 \<times> file_stream" where
  "getU8 s =
     (if unat (m_pos s + 1) > length (m_data s) then Inl Failure else next_byte (m_nodes s > 0) s)"

definition getU16 :: "file_stream \<Rightarrow> stream_error + u16 \<times> file_stream" where
  "getU16 s = fs_read (m_nodes s > 0) s"

definition getU32 :: "file_stream \<Rightarrow> stream_error + u32 \<times> file_stream" where
  "getU32 s = fs_read (m_nodes s > 0) s"

definition getU64 :: "file_stream \<Rightarrow> stream_error + u64 \<times> file_stream" where
  "getU64 s = fs_read (m_nodes s > 0) s"

definition fs_getString :: "file_stream \<Rightarrow> stream_error + bytes \<times> file_stream" where
  "fs_getString s =
     and_then (getU16 s) (\<lambda>len s.
       if len > 0 \<and> len < 8192 then
         if unat (m_pos s + ucast len) > length (m_data s) then Inl Failure
         else Inr (take (unat len) (drop (unat (m_pos s)) (m_data s)), s\<lparr>m_pos := m_pos s + ucast len\<rparr>)
       else if len \<noteq> 0 then Inl Failure
       else Inr ([], s))"

definition isProp :: "u8 \<Rightarrow> bool \<Rightarrow> file_stream \<Rightarrow> stream_error + bool \<times> file_stream" where
  "isProp prop toNext s =
     and_then (getU8 s) (\<lambda>b s.
       if b = prop then Inr (True, if toNext then s else fs_back 1 s) else Inr (False, fs_back 1 s))"

definition startNode :: "u8 \<Rightarrow> file_stream \<Rightarrow> stream_error + bool \<times> file_stream" where
  "startNode t s =
     and_then (getU8 s) (\<lambda>b s.
       if b = NODE_START then
         if t = 0 then Inr (True, s\<lparr>m_nodes := m_nodes s + 1\<rparr>)
         else and_then (getU8 s) (\<lambda>b s.
           if b = t then Inr (True, s\<lparr>m_nodes := m_nodes s + 1\<rparr>)
           else Inr (False, fs_back 1 (fs_back 1 s)))
       else Inr (False, fs_back 1 s))"

definition endNode :: "file_stream \<Rightarrow> stream_error + bool \<times> file_stream" where
  "endNode s =
     and_then (getU8 s) (\<lambda>b s.
       if b = NODE_END then Inr (True, s\<lparr>m_nodes := m_nodes s - 1\<rparr>) else Inr (False, fs_back 1 s))"

section \<open>Towns and waypoints\<close>

record town =
  town_id :: u32
  town_name :: bytes
  templePosition :: position

type_synonym town_map = "u32 \<rightharpoonup> town"

definition getOrCreateTown :: "u32 \<Rightarrow> town_map \<Rightarrow> town \<times> town_map" where
  "getOrCreateTown townId m =
     (case m townId of
        Some t \<Rightarrow> (t, m)
      | None \<Rightarrow> (let t = \<lparr>town_id = townId, town_name = [], templePosition = Position 0 0 0\<rparr>
                in (t, m(townId \<mapsto> t))))"

definition set_town :: "u32 \<Rightarrow> bytes \<Rightarrow> position \<Rightarrow> town_map \<Rightarrow> town_map" where
  "set_town townId townName pos m =
     (let (t, m) = getOrCreateTown townId m
      in m(townId \<mapsto> t\<lparr>town_name := townName, templePosition := pos\<rparr>))"

definition OTBM_TOWNS :: u8 where "OTBM_TOWNS = 12"
definition OTBM_TOWN :: u8 where "OTBM_TOWN = 13"
definition OTBM_WAYPOINTS :: u8 where "OTBM_WAYPOINTS = 15"
definition OTBM_WAYPOINT :: u8 where "OTBM_WAYPOINT = 16"

lemmas otbm_types = OTBM_TOWNS_def OTBM_TOWN_def OTBM_WAYPOINTS_def OTBM_WAYPOINT_def

definition expect_end :: "file_stream \<Rightarrow> 'm \<Rightarrow> stream_error + 'm \<times> file_stream" where
  "expect_end s m = and_then (endNode s) (\<lambda>ok s. if ok then Inr (m, s) else Inl Map_error)"

definition town_body :: "town_map \<Rightarrow> file_stream \<Rightarrow> stream_error + town_map \<times> file_stream" where
  "town_body m s =
     and_then (getU32 s) (\<lambda>townId s.
     and_then (fs_getString s) (\<lambda>townName s.
     and_then (getU16 s) (\<lambda>px s.
     and_then (getU16 s) (\<lambda>py s.
     and_then (getU8 s) (\<lambda>pz s.
     expect_end s (set_town townId townName (Position px py pz) m))))))"

type_synonym waypoint_map = "bytes \<rightharpoonup> position"

definition waypoint_body :: "waypoint_map \<Rightarrow> file_stream \<Rightarrow> stream_error + waypoint_map \<times> file_stream" where
  "waypoint_body m s =
     and_then (fs_getString s) (\<lambda>name s.
     and_then (getU16 s) (\<lambda>px s.
     and_then (getU16 s) (\<lambda>py s.
     and_then (getU8 s) (\<lambda>pz s.
     expect_end s (m(name \<mapsto> (Position px py pz)))))))"

text \<open>
  The loop \<open>while (stream.startNode(type))\<close> around a body that reads one child to its end. Every
  round consumes bytes of the file, whose length bounds the number of rounds.
\<close>

fun node_loop ::
  "nat \<Rightarrow> u8 \<Rightarrow> ('m \<Rightarrow> file_stream \<Rightarrow> stream_error + 'm \<times> file_stream)
    \<Rightarrow> 'm \<Rightarrow> file_stream \<Rightarrow> stream_error + 'm \<times> file_stream" where
  "node_loop 0 t body m s = Inl Out_of_fuel"
| "node_loop (Suc fuel) t body m s =
     and_then (startNode t s) (\<lambda>started s.
       if started then and_then (body m s) (\<lambda>m s. node_loop fuel t body m s) else Inr (m, s))"

definition parse_nodes ::
  "u8 \<Rightarrow> u8 \<Rightarrow> ('m \<Rightarrow> file_stream \<Rightarrow> stream_error + 'm \<times> file_stream)
    \<Rightarrow> 'm \<Rightarrow> file_stream \<Rightarrow> stream_error + 'm \<times> file_stream" where
  "parse_nodes outer inner body m s =
     and_then (startNode outer s) (\<lambda>started s.
       if \<not> started then Inl Map_error
       else and_then (node_loop (Suc (length (m_data s))) inner body m s) (\<lambda>m s. expect_end s m))"

definition parseTowns :: "town_map \<Rightarrow> file_stream \<Rightarrow> stream_error + town_map \<times> file_stream" where
  "parseTowns = parse_nodes OTBM_TOWNS OTBM_TOWN town_body"

definition parseWaypoints :: "waypoint_map \<Rightarrow> file_stream \<Rightarrow> stream_error + waypoint_map \<times> file_stream" where
  "parseWaypoints = parse_nodes OTBM_WAYPOINTS OTBM_WAYPOINT waypoint_body"

section \<open>Reading what was written\<close>

text \<open>The stream stands in front of the given bytes, at the given nesting depth.\<close>

definition view :: "u32 \<Rightarrow> bytes \<Rightarrow> file_stream \<Rightarrow> bool" where
  "view k rest s \<longleftrightarrow> length (m_data s) < 2 ^ 32 \<and> unat (m_pos s) \<le> length (m_data s)
     \<and> drop (unat (m_pos s)) (m_data s) = rest \<and> m_nodes s = k"

lemma view_length: "view k rest s \<Longrightarrow> unat (m_pos s) + length rest = length (m_data s)"
  by (auto simp: view_def)

lemma unat_pos_add:
  assumes "view k rest s" "n \<le> length rest"
  shows "unat (m_pos s + of_nat n) = unat (m_pos s) + n"
  using assms view_length [OF assms(1)] by (intro unat_add_lt) (simp add: view_def)

lemma view_move:
  assumes "view k (xs @ rest) s" "n = length xs"
  shows "view k rest (s\<lparr>m_pos := m_pos s + of_nat n\<rparr>)"
proof -
  have u: "unat (m_pos s + of_nat n) = unat (m_pos s) + n" using unat_pos_add [OF assms(1)] assms(2) by simp
  have "drop (unat (m_pos s) + n) (m_data s) = rest"
    using assms by (simp add: view_def add.commute flip: drop_drop)
  then show ?thesis using assms u view_length [OF assms(1)] by (simp add: view_def)
qed

lemma current_view: "view k (b # rest) s \<Longrightarrow> current s = Inr (b, s)"
proof -
  assume v: "view k (b # rest) s"
  then have "unat (m_pos s) < length (m_data s)" using view_length [OF v] by simp
  moreover have "m_data s ! unat (m_pos s) = b"
    using v calculation by (metis Cons_nth_drop_Suc view_def list.inject)
  ultimately show ?thesis by (simp add: current_def)
qed

lemma next_byte_plain:
  assumes "view k (b # rest) s" "\<not> esc \<or> b \<noteq> NODE_ESCAPE"
  shows "next_byte esc s = Inr (b, s\<lparr>m_pos := m_pos s + 1\<rparr>)"
    and "view k rest (s\<lparr>m_pos := m_pos s + 1\<rparr>)"
  using assms view_move [of k "[b]" rest s 1]
  by (auto simp: next_byte_def current_view [OF assms(1)] split: if_splits)

lemma next_byte_escaped:
  assumes "view k (NODE_ESCAPE # b # rest) s"
  shows "\<exists>s'. next_byte True s = Inr (b, s') \<and> view k rest s'"
proof -
  let ?s = "s\<lparr>m_pos := m_pos s + 1\<rparr>"
  have v: "view k (b # rest) ?s" using view_move [of k "[NODE_ESCAPE]" "b # rest" s 1] assms by simp
  show ?thesis
    using view_move [of k "[b]" rest ?s 1] v
    by (simp add: next_byte_def current_view [OF assms] current_view [OF v])
qed

lemma next_byte_escape:
  assumes "view k (escape [b] @ rest) s"
  shows "\<exists>s'. next_byte True s = Inr (b, s') \<and> view k rest s'"
proof (cases "special b")
  case True
  then show ?thesis using assms next_byte_escaped by simp
next
  case False
  then show ?thesis using assms next_byte_plain [of k b rest s True] by (auto simp: special_def)
qed

lemma read_loop_escape:
  "view k (escape bs @ rest) s \<Longrightarrow> \<exists>s'. read_loop (length bs) s = Inr (bs, s') \<and> view k rest s'"
proof (induction bs arbitrary: s)
  case (Cons b bs)
  then obtain s1 where "next_byte True s = Inr (b, s1)" "view k (escape bs @ rest) s1"
    using next_byte_escape [of k b "escape bs @ rest" s] by auto
  with Cons.IH show ?case by fastforce
qed auto

lemma length_escape: "length bs \<le> length (escape bs)"
  by (induction bs) auto

lemma length_escape_le: "length (escape bs) \<le> 2 * length bs"
  by (induction bs) auto

lemma word_gt_0_nat: "(k :: 'a::len word) > 0 \<longleftrightarrow> k \<noteq> 0"
  by (rule word_neq_0_conv [symmetric])

text \<open>
  The contract of a reader inside a node: standing in front of the encoding of a value it
  returns that value and stands behind it.
\<close>

locale stream_field =
  fixes rd :: "file_stream \<Rightarrow> stream_error + 'v \<times> file_stream"
    and enc :: "'v \<Rightarrow> bytes"
    and ok :: "'v \<Rightarrow> bool"
  assumes read_back: "ok v \<Longrightarrow> k \<noteq> 0 \<Longrightarrow> view k (enc v @ rest) s \<Longrightarrow> \<exists>s'. rd s = Inr (v, s') \<and> view k rest s'"
begin

lemma read_then:
  assumes "ok v" "k \<noteq> 0" "view k (enc v @ rest) s"
    and "\<And>s. view k rest s \<Longrightarrow> \<exists>s'. f v s = Inr (r, s') \<and> view k' rest' s'"
  shows "\<exists>s'. and_then (rd s) f = Inr (r, s') \<and> view k' rest' s'"
  using read_back [OF assms(1-3)] assms(4) by fastforce

end

lemma fs_read_enc:
  assumes "LENGTH('a::len) = 8 * n" "k \<noteq> 0" "view k (escape (le_bytes n (v :: 'a word)) @ rest) s"
  shows "\<exists>s'. fs_read (m_nodes s > 0) s = Inr (v, s') \<and> view k rest s'"
proof -
  have nodes: "m_nodes s > 0" using assms(2,3) by (simp add: view_def word_gt_0_nat)
  obtain s' where s': "read_loop n s = Inr (le_bytes n v, s')" "view k rest s'"
    using read_loop_escape [OF assms(3)] by auto
  have "unat (m_pos s) + n \<le> length (m_data s)"
    using view_length [OF assms(3)] length_escape [of "le_bytes n v"] by simp
  then show ?thesis using s' nodes assms(1) by (simp add: fs_read_def read_array_def)
qed

lemma getU8_next_byte:
  assumes "view k (b # rest) s"
  shows "getU8 s = next_byte (m_nodes s > 0) s"
  using unat_pos_add [OF assms, of 1] view_length [OF assms] by (simp add: getU8_def)

interpretation fs_u8: stream_field getU8 "\<lambda>v. escape [v]" "\<lambda>_. True"
proof
  fix v k rest s
  assume k: "k \<noteq> 0" and v: "view k (escape [v] @ rest) s"
  have "m_nodes s > 0" using v k by (simp add: view_def word_gt_0_nat)
  moreover have "\<exists>b bs. escape [v] @ rest = b # bs" by simp
  ultimately show "\<exists>s'. getU8 s = Inr (v, s') \<and> view k rest s'"
    using next_byte_escape [OF v] getU8_next_byte v by fastforce
qed

interpretation fs_u16: stream_field getU16 "\<lambda>v. escape (le_bytes 2 v)" "\<lambda>_. True"
  by unfold_locales (simp add: getU16_def fs_read_enc)

interpretation fs_u32: stream_field getU32 "\<lambda>v. escape (le_bytes 4 v)" "\<lambda>_. True"
  by unfold_locales (simp add: getU32_def fs_read_enc)

interpretation fs_u64: stream_field getU64 "\<lambda>v. escape (le_bytes 8 v)" "\<lambda>_. True"
  by unfold_locales (simp add: getU64_def fs_read_enc)

text \<open>
  \<open>getString\<close> copies the characters without unescaping them, so it only returns strings
  without marker bytes, and refuses those of 8192 bytes or more.
\<close>

definition plain_string :: "bytes \<Rightarrow> bool" where
  "plain_string str \<longleftrightarrow> length str < 8192 \<and> (\<forall>b \<in> set str. \<not> special b)"

definition enc_str :: "bytes \<Rightarrow> bytes" where
  "enc_str str = escape (le_bytes 2 (of_nat (length str) :: u16) @ str)"

lemma escape_append: "escape (xs @ ys) = escape xs @ escape ys"
  by (simp add: escape_def)

lemma escape_plain: "\<forall>b \<in> set str. \<not> special b \<Longrightarrow> escape str = str"
  by (induction str) auto

interpretation fs_string: stream_field fs_getString enc_str plain_string
proof
  fix v k rest s
  assume p: "plain_string v" and k: "k \<noteq> 0" and v: "view k (enc_str v @ rest) s"
  let ?len = "of_nat (length v) :: u16"
  have e: "enc_str v = escape (le_bytes 2 ?len) @ v"
    using p by (simp add: enc_str_def escape_append escape_plain plain_string_def)
  then obtain s1 where s1: "getU16 s = Inr (?len, s1)" "view k (v @ rest) s1"
    using fs_u16.read_back [of k ?len "v @ rest" s] k v by auto
  have len: "unat ?len = length v" "?len < 8192 \<and> (?len > 0 \<longleftrightarrow> v \<noteq> [])"
    using p by (auto simp: plain_string_def unat_of_nat_lt word_less_nat_alt)
  then have u: "ucast ?len = (of_nat (length v) :: u32)" by (metis of_nat_unat)
  have "unat (m_pos s1 + of_nat (length v)) = unat (m_pos s1) + length v"
    using unat_pos_add [OF s1(2)] by simp
  moreover have "unat (m_pos s1) + length v \<le> length (m_data s1)" using view_length [OF s1(2)] by simp
  moreover have "take (length v) (drop (unat (m_pos s1)) (m_data s1)) = v" using s1(2) by (simp add: view_def)
  moreover have "?len = 0" if "v = []" using that by simp
  ultimately show "\<exists>s'. fs_getString s = Inr (v, s') \<and> view k rest s'"
    using s1 len u view_move [OF s1(2) refl] by (auto simp: fs_getString_def)
qed

section \<open>Nodes on the stream\<close>

lemma getU8_plain:
  assumes "view k (b # rest) s" "k = 0 \<or> b \<noteq> NODE_ESCAPE"
  shows "getU8 s = Inr (b, s\<lparr>m_pos := m_pos s + 1\<rparr>)" "view k rest (s\<lparr>m_pos := m_pos s + 1\<rparr>)"
proof -
  have "m_nodes s = k" using assms(1) by (simp add: view_def)
  then have "\<not> m_nodes s > 0 \<or> b \<noteq> NODE_ESCAPE" using assms(2) by auto
  from next_byte_plain [OF assms(1) this]
  show "getU8 s = Inr (b, s\<lparr>m_pos := m_pos s + 1\<rparr>)" "view k rest (s\<lparr>m_pos := m_pos s + 1\<rparr>)"
    by (simp_all only: getU8_next_byte [OF assms(1)])
qed

lemma view_nodes: "view k rest s \<Longrightarrow> view k' rest (s\<lparr>m_nodes := k'\<rparr>)"
  by (simp add: view_def)

lemma startNode_start:
  assumes "view k (NODE_START # t # rest) s" "t \<noteq> NODE_ESCAPE" "t \<noteq> 0"
  shows "\<exists>s'. startNode t s = Inr (True, s') \<and> view (k + 1) rest s'"
proof -
  let ?s1 = "s\<lparr>m_pos := m_pos s + 1\<rparr>" and ?s2 = "s\<lparr>m_pos := m_pos s + 1 + 1\<rparr>"
  have a: "getU8 s = Inr (NODE_START, ?s1)" "view k (t # rest) ?s1"
    using getU8_plain [OF assms(1)] by simp_all
  have b: "getU8 ?s1 = Inr (t, ?s2)" "view k rest ?s2"
    using getU8_plain [OF a(2)] assms(2) by simp_all
  have "m_nodes s = k" using assms(1) by (simp add: view_def)
  then show ?thesis
    using view_nodes [OF b(2), of "k + 1"] assms(3) by (simp add: startNode_def a(1) b(1))
qed

lemma startNode_other:
  assumes "view k (b # rest) s" "b \<noteq> NODE_START" "b \<noteq> NODE_ESCAPE"
  shows "startNode t s = Inr (False, s)"
  using getU8_plain [OF assms(1)] assms(2,3) by (simp add: startNode_def fs_back_def)

lemma expect_end_end:
  assumes "view (k + 1) (NODE_END # rest) s"
  shows "\<exists>s'. expect_end s m = Inr (m, s') \<and> view k rest s'"
proof -
  note a = getU8_plain [OF assms]
  have "m_nodes s = k + 1" using assms by (simp add: view_def)
  then show ?thesis using a view_nodes [OF a(2), of k] by (simp add: expect_end_def endNode_def)
qed

text \<open>
  A list node: an outer node without properties of its own whose children all have the same
  type and are read by one body.
\<close>

locale list_node =
  fixes outer :: u8 and inner :: u8
    and body :: "'m \<Rightarrow> file_stream \<Rightarrow> stream_error + 'm \<times> file_stream"
    and props :: "'v \<Rightarrow> bytes"
    and ok :: "'v \<Rightarrow> bool"
    and upd :: "'v \<Rightarrow> 'm \<Rightarrow> 'm"
  assumes types: "outer \<noteq> 0" "outer \<noteq> NODE_ESCAPE" "inner \<noteq> 0" "inner \<noteq> NODE_ESCAPE"
    and body_reads: "ok v \<Longrightarrow> k + 1 \<noteq> 0 \<Longrightarrow> view (k + 1) (escape (props v) @ NODE_END # rest) s
      \<Longrightarrow> \<exists>s'. body m s = Inr (upd v m, s') \<and> view k rest s'"
begin

lemma loop_reads:
  assumes "list_all ok vs" "k + 1 \<noteq> 0" "length vs < fuel"
    and "view k (concat (map (\<lambda>v. enc_tree (Otb_Tree inner (props v) [])) vs) @ NODE_END # rest) s"
  shows "\<exists>s'. node_loop fuel inner body m s = Inr (fold upd vs m, s') \<and> view k (NODE_END # rest) s'"
  using assms
proof (induction vs arbitrary: fuel m s)
  case Nil
  then show ?case by (cases fuel) (auto simp: startNode_other)
next
  case (Cons v vs)
  obtain f where f: "fuel = Suc f" using Cons.prems(3) by (cases fuel) auto
  let ?more = "concat (map (\<lambda>v. enc_tree (Otb_Tree inner (props v) [])) vs) @ NODE_END # rest"
  obtain s1 where s1: "startNode inner s = Inr (True, s1)"
      "view (k + 1) (escape (props v) @ NODE_END # ?more) s1"
    using startNode_start [of k inner "escape (props v) @ NODE_END # ?more" s] Cons.prems(4) types by auto
  obtain s2 where "body m s1 = Inr (upd v m, s2)" "view k ?more s2"
    using body_reads [OF _ Cons.prems(2) s1(2)] Cons.prems(1) by auto
  then show ?case using Cons.IH [of f s2 "upd v m"] Cons.prems s1 by (simp add: f)
qed

lemma nodes_read:
  assumes "list_all ok vs" "k + 1 \<noteq> 0" "k + 2 \<noteq> 0"
    and "view k (enc_tree (Otb_Tree outer [] (map (\<lambda>v. Otb_Tree inner (props v) []) vs)) @ rest) s"
  shows "\<exists>s'. parse_nodes outer inner body m s = Inr (fold upd vs m, s') \<and> view k rest s'"
proof -
  let ?cs = "concat (map (\<lambda>v. enc_tree (Otb_Tree inner (props v) [])) vs)"
  obtain s1 where s1: "startNode outer s = Inr (True, s1)" "view (k + 1) (?cs @ NODE_END # rest) s1"
    using startNode_start [of k outer "?cs @ NODE_END # rest" s] assms(4) types by (auto simp: comp_def)
  have "length vs \<le> length ?cs" by (induction vs) auto
  then have "length vs < Suc (length (m_data s1))" using view_length [OF s1(2)] by simp
  then obtain s2 where s2: "node_loop (Suc (length (m_data s1))) inner body m s1 = Inr (fold upd vs m, s2)"
      "view (k + 1) (NODE_END # rest) s2"
    using loop_reads [OF assms(1) _ _ s1(2), of "Suc (length (m_data s1))" m] assms(3)
    by (auto simp: add.assoc simp del: node_loop.simps)
  then show ?thesis using s1 expect_end_end [OF s2(2), of "fold upd vs m"] by (simp add: parse_nodes_def)
qed

end

fun town_props :: "town \<Rightarrow> bytes" where
  "town_props t =
     (case templePosition t of Position px py pz \<Rightarrow>
        le_bytes 4 (town_id t) @ le_bytes 2 (of_nat (length (town_name t)) :: u16) @ town_name t
        @ le_bytes 2 px @ le_bytes 2 py @ [pz])"

fun waypoint_props :: "bytes \<times> position \<Rightarrow> bytes" where
  "waypoint_props (name, Position px py pz) =
     le_bytes 2 (of_nat (length name) :: u16) @ name @ le_bytes 2 px @ le_bytes 2 py @ [pz]"

lemma set_town_eq:
  assumes "\<And>i t. m i = Some t \<Longrightarrow> town_id t = i"
  shows "set_town i n p m = m(i \<mapsto> \<lparr>town_id = i, town_name = n, templePosition = p\<rparr>)"
  using assms [of i] by (auto simp: set_town_def getOrCreateTown_def Let_def split: option.splits)

abbreviation store_town :: "town \<Rightarrow> town_map \<Rightarrow> town_map" where
  "store_town t m \<equiv> set_town (town_id t) (town_name t) (templePosition t) m"

interpretation towns: list_node OTBM_TOWNS OTBM_TOWN town_body town_props "\<lambda>t. plain_string (town_name t)"
    store_town
proof
  fix v :: town and k rest s m
  assume p: "plain_string (town_name v)" and k: "k + 1 \<noteq> 0"
    and s: "view (k + 1) (escape (town_props v) @ NODE_END # rest) s"
  obtain px py pz where pos: "templePosition v = Position px py pz" by (cases "templePosition v")
  then have "view (k + 1) (escape (le_bytes 4 (town_id v)) @ enc_str (town_name v) @ escape (le_bytes 2 px)
      @ escape (le_bytes 2 py) @ escape [pz] @ NODE_END # rest) s"
    using s by (simp add: escape_append enc_str_def del: escape_simps)
  with p k pos show "\<exists>s'. town_body m s = Inr (store_town v m, s') \<and> view k rest s'"
    unfolding town_body_def
    by (auto intro!: fs_u32.read_then fs_string.read_then fs_u16.read_then fs_u8.read_then expect_end_end
        simp del: escape_simps)
qed (simp_all add: otbm_types NODE_ESCAPE_def)

interpretation waypoints: list_node OTBM_WAYPOINTS OTBM_WAYPOINT waypoint_body waypoint_props
    "\<lambda>w. plain_string (fst w)" "\<lambda>w m. m(fst w \<mapsto> snd w)"
proof
  fix v :: "bytes \<times> position" and k rest s and m :: waypoint_map
  assume p: "plain_string (fst v)" and k: "k + 1 \<noteq> 0"
    and s: "view (k + 1) (escape (waypoint_props v) @ NODE_END # rest) s"
  obtain name px py pz where v: "v = (name, Position px py pz)" by (cases v; cases "snd v") auto
  then have "view (k + 1) (enc_str name @ escape (le_bytes 2 px)
      @ escape (le_bytes 2 py) @ escape [pz] @ NODE_END # rest) s"
    using s by (simp add: escape_append enc_str_def del: escape_simps)
  with p k v show "\<exists>s'. waypoint_body m s = Inr (m(fst v \<mapsto> snd v), s') \<and> view k rest s'"
    unfolding waypoint_body_def
    by (auto intro!: fs_string.read_then fs_u16.read_then fs_u8.read_then expect_end_end
        simp del: escape_simps)
qed (simp_all add: otbm_types NODE_ESCAPE_def)

definition keyed :: "town_map \<Rightarrow> bool" where
  "keyed m \<longleftrightarrow> (\<forall>i t. m i = Some t \<longrightarrow> town_id t = i)"

lemma store_town_keyed: "keyed m \<Longrightarrow> store_town t m = m(town_id t \<mapsto> t) \<and> keyed (m(town_id t \<mapsto> t))"
  using set_town_eq [of m] by (cases t) (simp add: keyed_def)

lemma fold_store_town:
  "keyed m \<Longrightarrow> fold store_town ts m = m ++ map_of (rev (map (\<lambda>t. (town_id t, t)) ts))"
proof (induction ts arbitrary: m)
  case (Cons t ts)
  note st = store_town_keyed [OF Cons.prems, of t]
  show ?case using Cons.IH [OF conjunct2 [OF st]] by (simp add: map_add_assoc conjunct1 [OF st] del: fun_upd_apply)
qed simp

lemma fold_upd_pairs: "fold (\<lambda>w m. m(fst w \<mapsto> snd w)) ws m = m ++ map_of (rev ws)"
  by (induction ws arbitrary: m) (simp_all add: map_add_assoc)

definition towns_tree :: "town list \<Rightarrow> otb_tree" where
  "towns_tree ts = Otb_Tree OTBM_TOWNS [] (map (\<lambda>t. Otb_Tree OTBM_TOWN (town_props t) []) ts)"

definition waypoints_tree :: "(bytes \<times> position) list \<Rightarrow> otb_tree" where
  "waypoints_tree ws = Otb_Tree OTBM_WAYPOINTS [] (map (\<lambda>w. Otb_Tree OTBM_WAYPOINT (waypoint_props w) []) ws)"

text \<open>
  C26. Standing in front of an encoded towns node followed by an encoded waypoints node, the
  map loader reads both to their end, at any nesting depth: it returns exactly the
  encoded towns by id and the encoded positions by name (the last of several entries with
  the same key), whatever marker values ids and coordinates contain, provided the names
  are shorter than 8192 bytes and free of marker bytes.
\<close>
theorem towns_and_waypoints_round_trip:
  assumes "view k (enc_tree (towns_tree ts) @ enc_tree (waypoints_tree ws) @ rest) s"
    and "k + 1 \<noteq> 0" "k + 2 \<noteq> 0"
    and "list_all (\<lambda>t. plain_string (town_name t)) ts" "list_all (\<lambda>w. plain_string (fst w)) ws"
  shows "\<exists>s1 s2. parseTowns Map.empty s = Inr (map_of (rev (map (\<lambda>t. (town_id t, t)) ts)), s1)
    \<and> parseWaypoints Map.empty s1 = Inr (map_of (rev ws), s2) \<and> view k rest s2"
proof -
  obtain s1 where s1: "parseTowns Map.empty s = Inr (map_of (rev (map (\<lambda>t. (town_id t, t)) ts)), s1)"
      "view k (enc_tree (waypoints_tree ws) @ rest) s1"
    using towns.nodes_read [OF assms(4,2,3), of "enc_tree (waypoints_tree ws) @ rest" s Map.empty] assms(1)
    by (auto simp: parseTowns_def towns_tree_def fold_store_town keyed_def simp del: enc_tree.simps town_props.simps)
  then show ?thesis
    using waypoints.nodes_read [OF assms(5,2,3), of rest s1 Map.empty]
    by (auto simp: parseWaypoints_def waypoints_tree_def fold_upd_pairs simp del: enc_tree.simps)
qed

theorem towns_and_waypoints_round_trip_witness:
  "\<exists>s1 s2.
     parseTowns Map.empty
       \<lparr>m_nodes = 1, m_pos = 0,
        m_data = enc_tree (towns_tree [\<lparr>town_id = 0xFE, town_name = [84, 104, 97], templePosition = Position 255 7 3\<rparr>])
          @ enc_tree (waypoints_tree [([65], Position 1 2 0xFD)])\<rparr>
     = Inr ([0xFE \<mapsto> \<lparr>town_id = 0xFE, town_name = [84, 104, 97], templePosition = Position 255 7 3\<rparr>], s1)
   \<and> parseWaypoints Map.empty s1 = Inr ([[65] \<mapsto> Position 1 2 0xFD], s2) \<and> view 1 [] s2"
proof -
  let ?ts = "[\<lparr>town_id = 0xFE, town_name = [84, 104, 97], templePosition = Position 255 7 3\<rparr>]"
  let ?ws = "[([65], Position 1 2 0xFD)]"
  let ?s = "\<lparr>m_nodes = 1, m_pos = 0, m_data = enc_tree (towns_tree ?ts) @ enc_tree (waypoints_tree ?ws)\<rparr>"
  have "view 1 (enc_tree (towns_tree ?ts) @ enc_tree (waypoints_tree ?ws) @ []) ?s"
    by (simp add: view_def towns_tree_def waypoints_tree_def le_less_trans [OF add_mono [OF length_escape_le length_escape_le]])
  from towns_and_waypoints_round_trip [OF this] show ?thesis
    by (simp add: plain_string_def special_def node_marks)
qed

section \<open>Limits of the stream\<close>

text \<open>
  The bounds checks count unescaped bytes: a node cut off behind an escape byte is read
  past the end of the data.
\<close>

lemma read_past_end:
  "getU8 \<lparr>m_nodes = 1, m_pos = 0, m_data = [NODE_ESCAPE]\<rparr> = Inl Out_of_bounds"
  "getU16 \<lparr>m_nodes = 1, m_pos = 0, m_data = [NODE_ESCAPE, 1]\<rparr> = Inl Out_of_bounds"
proof -
  show "getU8 \<lparr>m_nodes = 1, m_pos = 0, m_data = [NODE_ESCAPE]\<rparr> = Inl Out_of_bounds"
    by (simp add: getU8_def next_byte_def current_def)
  have "read_loop (Suc (Suc 0)) \<lparr>m_nodes = 1, m_pos = 0, m_data = [NODE_ESCAPE, 1]\<rparr> = Inl Out_of_bounds"
    by (simp add: next_byte_def current_def)
  then show "getU16 \<lparr>m_nodes = 1, m_pos = 0, m_data = [NODE_ESCAPE, 1]\<rparr> = Inl Out_of_bounds"
    by (simp add: getU16_def fs_read_def read_array_def numeral_2_eq_2)
qed

text \<open>A failed test of an escaped byte steps back into the middle of the escape sequence.\<close>

lemma isProp_loses_escape:
  "isProp 5 True \<lparr>m_nodes = 1, m_pos = 0, m_data = [NODE_ESCAPE, 0xFE]\<rparr>
     = Inr (False, \<lparr>m_nodes = 1, m_pos = 1, m_data = [NODE_ESCAPE, 0xFE]\<rparr>)"
  by (simp add: isProp_def getU8_def next_byte_def current_def fs_back_def node_marks)

text \<open>An escaped property byte with the value of the start marker is taken for a node.\<close>

lemma startNode_accepts_escaped:
  "startNode 0 \<lparr>m_nodes = 1, m_pos = 0, m_data = escape [0xFE]\<rparr>
     = Inr (True, \<lparr>m_nodes = 2, m_pos = 2, m_data = escape [0xFE]\<rparr>)"
  by (simp add: startNode_def getU8_def next_byte_def current_def special_def node_marks)

end
