(* ===== verification/Party.thy ===== *)
theory Party
  imports Position
begin

text \<open>
  Parties (\<^verbatim>\<open>creatures/players/grouping/party.cpp\<close>), the party side of a player
  (\<^verbatim>\<open>creatures/players/player.cpp\<close>) and the requests of \<^verbatim>\<open>game/game.cpp\<close> that drive them: inviting,
  joining, revoking, passing the leadership, leaving, logging out, and the shared experience.
  Players and parties refer to each other in both directions (\<^verbatim>\<open>m_party\<close>, \<^verbatim>\<open>memberList\<close>,
  \<^verbatim>\<open>inviteList\<close>, \<^verbatim>\<open>invitePartyList\<close>), so the state is a store of both kinds of objects. Messages to
  clients change none of it and are left out. The Lua events that may veto a step are an argument.
\<close>

section \<open>State\<close>

record party =
  m_leader :: "nat option"
  memberList :: "nat list"
  inviteList :: "nat list"
  ticksMap :: "nat \<rightharpoonup> int"
  sharedExpActive :: bool
  sharedExpEnabled :: bool

record party_player =
  m_party :: "nat option"
  invitePartyList :: "nat list"
  player_level :: nat
  player_position :: position
  notGainInFight :: bool
  inFight :: bool
  zoneType :: nat
  onProtectionTile :: bool

record party_world =
  parties :: "nat \<Rightarrow> party"
  party_players :: "nat \<Rightarrow> party_player"
  players_online :: "nat \<Rightarrow> bool"
  next_party :: nat

datatype party_event = OnDisband nat | OnLeave nat nat | OnJoin nat nat

datatype shared_exp_status =
  SHAREDEXP_OK | SHAREDEXP_TOOFARAWAY | SHAREDEXP_LEVELDIFFTOOLARGE | SHAREDEXP_MEMBERINACTIVE | SHAREDEXP_EMPTYPARTY

abbreviation leader_of :: "party_world \<Rightarrow> nat \<Rightarrow> nat option" where
  "leader_of w p \<equiv> m_leader (parties w p)"

abbreviation members_of :: "party_world \<Rightarrow> nat \<Rightarrow> nat list" where
  "members_of w p \<equiv> memberList (parties w p)"

abbreviation invitees_of :: "party_world \<Rightarrow> nat \<Rightarrow> nat list" where
  "invitees_of w p \<equiv> inviteList (parties w p)"

abbreviation party_of :: "party_world \<Rightarrow> nat \<Rightarrow> nat option" where
  "party_of w x \<equiv> m_party (party_players w x)"

abbreviation invitations_of :: "party_world \<Rightarrow> nat \<Rightarrow> nat list" where
  "invitations_of w x \<equiv> invitePartyList (party_players w x)"

definition upd_party :: "nat \<Rightarrow> (party \<Rightarrow> party) \<Rightarrow> party_world \<Rightarrow> party_world" where
  "upd_party p f w = w\<lparr>parties := (parties w)(p := f (parties w p))\<rparr>"

definition upd_player :: "nat \<Rightarrow> (party_player \<Rightarrow> party_player) \<Rightarrow> party_world \<Rightarrow> party_world" where
  "upd_player x f w = w\<lparr>party_players := (party_players w)(x := f (party_players w x))\<rparr>"

definition setParty :: "nat option \<Rightarrow> nat \<Rightarrow> party_world \<Rightarrow> party_world" where
  "setParty newParty x = upd_player x (\<lambda>pl. pl\<lparr>m_party := newParty\<rparr>)"

definition addPartyInvitation :: "nat \<Rightarrow> nat \<Rightarrow> party_world \<Rightarrow> party_world" where
  "addPartyInvitation newParty x w =
     (if newParty \<in> set (invitations_of w x) then w
      else upd_player x (\<lambda>pl. pl\<lparr>invitePartyList := newParty # invitePartyList pl\<rparr>) w)"

definition removePartyInvitation :: "nat \<Rightarrow> nat \<Rightarrow> party_world \<Rightarrow> party_world" where
  "removePartyInvitation remParty x =
     upd_player x (\<lambda>pl. pl\<lparr>invitePartyList := removeAll remParty (invitePartyList pl)\<rparr>)"

section \<open>Shared experience\<close>

definition getHighestLevel :: "party_world \<Rightarrow> nat \<Rightarrow> nat" where
  "getHighestLevel w p = (case leader_of w p of
      None \<Rightarrow> 0
    | Some l \<Rightarrow> fold (\<lambda>m h. if player_level (party_players w m) > h then player_level (party_players w m) else h)
        (members_of w p) (player_level (party_players w l)))"

definition getLowestLevel :: "party_world \<Rightarrow> nat \<Rightarrow> nat" where
  "getLowestLevel w p = (case leader_of w p of
      None \<Rightarrow> 0
    | Some l \<Rightarrow> fold (\<lambda>m h. if player_level (party_players w m) < h then player_level (party_players w m) else h)
        (members_of w p) (player_level (party_players w l)))"

text \<open>
  \<^verbatim>\<open>std::ceil((float) h * 2 / 3)\<close> and \<^verbatim>\<open>std::floor((float) l * 3 / 2)\<close>. For levels below 2^22 the product is
  exact in single precision and the rounding of the quotient, less than one third, does not cross an
  integer, so the results are those of the exact quotients.
\<close>

definition getMinLevel :: "party_world \<Rightarrow> nat \<Rightarrow> nat" where
  "getMinLevel w p = (getHighestLevel w p * 2 + 2) div 3"

definition getMaxLevel :: "party_world \<Rightarrow> nat \<Rightarrow> nat" where
  "getMaxLevel w p = getLowestLevel w p * 3 div 2"

text \<open>The difference of two times is kept in an unsigned 64-bit variable.\<close>

definition isPlayerActive :: "int \<Rightarrow> party_world \<Rightarrow> nat \<Rightarrow> nat \<Rightarrow> bool" where
  "isPlayerActive now w p x = (case ticksMap (parties w p) x of
      None \<Rightarrow> False
    | Some t \<Rightarrow> (now - t) mod 2 ^ 64 \<le> 2 * 60 * 1000)"

definition getMemberSharedExperienceStatus :: "int \<Rightarrow> party_world \<Rightarrow> nat \<Rightarrow> nat \<Rightarrow> shared_exp_status" where
  "getMemberSharedExperienceStatus now w p x = (case leader_of w p of
      None \<Rightarrow> SHAREDEXP_EMPTYPARTY
    | Some l \<Rightarrow>
        if members_of w p = [] then SHAREDEXP_EMPTYPARTY
        else if player_level (party_players w x) < getMinLevel w p then SHAREDEXP_LEVELDIFFTOOLARGE
        else if \<not> areInRange3 30 30 1 (player_position (party_players w l)) (player_position (party_players w x))
          then SHAREDEXP_TOOFARAWAY
        else if \<not> notGainInFight (party_players w x) \<and> \<not> isPlayerActive now w p x then SHAREDEXP_MEMBERINACTIVE
        else SHAREDEXP_OK)"

definition canUseSharedExperience :: "int \<Rightarrow> party_world \<Rightarrow> nat \<Rightarrow> nat \<Rightarrow> bool" where
  "canUseSharedExperience now w p x = (getMemberSharedExperienceStatus now w p x = SHAREDEXP_OK)"

fun first_failure :: "(nat \<Rightarrow> shared_exp_status) \<Rightarrow> nat list \<Rightarrow> shared_exp_status" where
  "first_failure st [] = SHAREDEXP_OK"
| "first_failure st (m # ms) = (if st m \<noteq> SHAREDEXP_OK then st m else first_failure st ms)"

definition getSharedExperienceStatus :: "int \<Rightarrow> party_world \<Rightarrow> nat \<Rightarrow> shared_exp_status" where
  "getSharedExperienceStatus now w p = (case leader_of w p of
      None \<Rightarrow> SHAREDEXP_EMPTYPARTY
    | Some l \<Rightarrow>
        (let leaderStatus = getMemberSharedExperienceStatus now w p l
         in if leaderStatus \<noteq> SHAREDEXP_OK then leaderStatus
            else first_failure (getMemberSharedExperienceStatus now w p) (members_of w p)))"

definition updateSharedExperience :: "int \<Rightarrow> nat \<Rightarrow> party_world \<Rightarrow> party_world" where
  "updateSharedExperience now p w =
     (if sharedExpActive (parties w p)
      then upd_party p (\<lambda>pa. pa\<lparr>sharedExpEnabled := (getSharedExperienceStatus now w p = SHAREDEXP_OK)\<rparr>) w
      else w)"

definition setSharedExperience :: "int \<Rightarrow> nat \<Rightarrow> bool \<Rightarrow> nat \<Rightarrow> party_world \<Rightarrow> bool \<times> party_world" where
  "setSharedExperience now player newSharedExpActive p w =
     (if leader_of w p \<noteq> Some player then (False, w)
      else if sharedExpActive (parties w p) = newSharedExpActive then (True, w)
      else let w1 = upd_party p (\<lambda>pa. pa\<lparr>sharedExpActive := newSharedExpActive\<rparr>) w
        in (True, if newSharedExpActive
             then upd_party p (\<lambda>pa. pa\<lparr>sharedExpEnabled := (getSharedExperienceStatus now w1 p = SHAREDEXP_OK)\<rparr>) w1
             else w1))"

definition updatePlayerTicks :: "int \<Rightarrow> nat \<Rightarrow> nat \<Rightarrow> nat \<Rightarrow> party_world \<Rightarrow> party_world" where
  "updatePlayerTicks now player points p w =
     (if points \<noteq> 0 \<and> \<not> notGainInFight (party_players w player)
      then updateSharedExperience now p (upd_party p (\<lambda>pa. pa\<lparr>ticksMap := (ticksMap pa)(player \<mapsto> now)\<rparr>) w)
      else w)"

definition clearPlayerPoints :: "int \<Rightarrow> nat \<Rightarrow> nat \<Rightarrow> party_world \<Rightarrow> party_world" where
  "clearPlayerPoints now player p w =
     (if ticksMap (parties w p) player = None then w
      else updateSharedExperience now p (upd_party p (\<lambda>pa. pa\<lparr>ticksMap := (ticksMap pa)(player := None)\<rparr>) w))"

section \<open>Membership\<close>

definition party_empty :: "party_world \<Rightarrow> nat \<Rightarrow> bool" where
  "party_empty w p \<longleftrightarrow> members_of w p = [] \<and> invitees_of w p = []"

definition isPlayerInvited :: "party_world \<Rightarrow> nat \<Rightarrow> nat \<Rightarrow> bool" where
  "isPlayerInvited w p x \<longleftrightarrow> x \<in> set (invitees_of w p)"

definition disband :: "(party_event \<Rightarrow> bool) \<Rightarrow> nat \<Rightarrow> party_world \<Rightarrow> party_world" where
  "disband hk p w =
     (if \<not> hk (OnDisband p) then w
      else case leader_of w p of
        None \<Rightarrow> w
      | Some l \<Rightarrow>
          (let w1 = setParty None l (upd_party p (\<lambda>pa. pa\<lparr>m_leader := None\<rparr>) w);
               w2 = fold (removePartyInvitation p) (invitees_of w p) w1;
               w3 = upd_party p (\<lambda>pa. pa\<lparr>inviteList := []\<rparr>) w2;
               w4 = fold (setParty None) (members_of w p) w3
           in upd_party p (\<lambda>pa. pa\<lparr>memberList := []\<rparr>) w4))"

definition passPartyLeadership :: "int \<Rightarrow> nat \<Rightarrow> nat \<Rightarrow> party_world \<Rightarrow> bool \<times> party_world" where
  "passPartyLeadership now player p w = (case leader_of w p of
      None \<Rightarrow> (False, w)
    | Some l \<Rightarrow>
        if l = player \<or> party_of w player \<noteq> Some p then (False, w)
        else (True, updateSharedExperience now p
          (upd_party p (\<lambda>pa. pa\<lparr>m_leader := Some player, memberList := l # remove1 player (memberList pa)\<rparr>) w)))"

definition leaveParty :: "(party_event \<Rightarrow> bool) \<Rightarrow> int \<Rightarrow> nat \<Rightarrow> nat \<Rightarrow> party_world \<Rightarrow> bool \<times> party_world" where
  "leaveParty hk now player p w = (case leader_of w p of
      None \<Rightarrow> (False, w)
    | Some l \<Rightarrow>
        if party_of w player \<noteq> Some p \<and> l \<noteq> player then (False, w)
        else if \<not> hk (OnLeave p player) then (False, w)
        else
          (let (missingLeader, w1) =
             (if l = player
              then (case members_of w p of
                  [] \<Rightarrow> (True, w)
                | newLeader # ms \<Rightarrow>
                    if ms = [] \<and> invitees_of w p = [] then (True, w)
                    else (False, snd (passPartyLeadership now newLeader p w)))
              else (False, w));
               w2 = upd_party p (\<lambda>pa. pa\<lparr>memberList := remove1 player (memberList pa)\<rparr>) w1;
               w3 = clearPlayerPoints now player p (updateSharedExperience now p (setParty None player w2))
           in (True, if missingLeader \<or> party_empty w3 p then disband hk p w3 else w3)))"

definition joinParty :: "(party_event \<Rightarrow> bool) \<Rightarrow> int \<Rightarrow> nat \<Rightarrow> nat \<Rightarrow> party_world \<Rightarrow> bool \<times> party_world" where
  "joinParty hk now player p w =
     (if leader_of w p = None then (False, w)
      else if \<not> hk (OnJoin p player) then (False, w)
      else if player \<notin> set (invitees_of w p) then (False, w)
      else
        (let w1 = upd_party p (\<lambda>pa. pa\<lparr>inviteList := remove1 player (inviteList pa)\<rparr>) w;
             w2 = setParty (Some p) player w1;
             w3 = upd_party p (\<lambda>pa. pa\<lparr>memberList := memberList pa @ [player]\<rparr>) w2
         in (True, updateSharedExperience now p (removePartyInvitation p player w3))))"

definition removeInvite :: "(party_event \<Rightarrow> bool) \<Rightarrow> nat \<Rightarrow> bool \<Rightarrow> nat \<Rightarrow> party_world \<Rightarrow> bool \<times> party_world" where
  "removeInvite hk player removeFromPlayer p w =
     (if leader_of w p = None then (False, w)
      else if player \<notin> set (invitees_of w p) then (False, w)
      else
        (let w1 = upd_party p (\<lambda>pa. pa\<lparr>inviteList := remove1 player (inviteList pa)\<rparr>) w;
             w2 = (if removeFromPlayer then removePartyInvitation p player w1 else w1)
         in (True, if party_empty w2 p then disband hk p w2 else w2)))"

definition revokeInvitation :: "(party_event \<Rightarrow> bool) \<Rightarrow> nat \<Rightarrow> nat \<Rightarrow> party_world \<Rightarrow> party_world" where
  "revokeInvitation hk player p w = (if leader_of w p = None then w else snd (removeInvite hk player True p w))"

definition invitePlayer :: "nat \<Rightarrow> nat \<Rightarrow> party_world \<Rightarrow> bool \<times> party_world" where
  "invitePlayer player p w =
     (if leader_of w p = None then (False, w)
      else if isPlayerInvited w p player then (False, w)
      else (True, addPartyInvitation p player (upd_party p (\<lambda>pa. pa\<lparr>inviteList := inviteList pa @ [player]\<rparr>) w)))"

definition create_party :: "bool \<Rightarrow> int \<Rightarrow> nat \<Rightarrow> party_world \<Rightarrow> nat \<times> party_world" where
  "create_party autoShare now l w =
     (let p = next_party w;
          w1 = upd_party p (\<lambda>_. \<lparr>m_leader = Some l, memberList = [], inviteList = [], ticksMap = Map.empty,
                                sharedExpActive = False, sharedExpEnabled = False\<rparr>) (w\<lparr>next_party := p + 1\<rparr>);
          w2 = setParty (Some p) l w1
      in (p, if autoShare then snd (setSharedExperience now l True p w2) else w2))"

definition isInviting :: "party_world \<Rightarrow> nat \<Rightarrow> nat \<Rightarrow> bool" where
  "isInviting w x player = (case party_of w x of
      None \<Rightarrow> False
    | Some p \<Rightarrow> leader_of w p = Some x \<and> isPlayerInvited w p player)"

definition isPartner :: "party_world \<Rightarrow> nat \<Rightarrow> nat \<Rightarrow> bool" where
  "isPartner w x player \<longleftrightarrow> party_of w x \<noteq> None \<and> player \<noteq> x \<and> party_of w x = party_of w player"

definition clearPartyInvitations :: "(party_event \<Rightarrow> bool) \<Rightarrow> nat \<Rightarrow> party_world \<Rightarrow> party_world" where
  "clearPartyInvitations hk x w =
     upd_player x (\<lambda>pl. pl\<lparr>invitePartyList := []\<rparr>)
       (fold (\<lambda>p w. snd (removeInvite hk x False p w)) (invitations_of w x) w)"

section \<open>Requests\<close>

definition playerInviteToParty :: "bool \<Rightarrow> int \<Rightarrow> nat \<Rightarrow> nat \<Rightarrow> party_world \<Rightarrow> party_world" where
  "playerInviteToParty autoShare now playerId invitedId w =
     (if playerId = invitedId \<or> \<not> players_online w playerId then w
      else if \<not> players_online w invitedId \<or> isInviting w invitedId playerId then w
      else if party_of w invitedId \<noteq> None then w
      else case party_of w playerId of
        None \<Rightarrow> (let (p, w1) = create_party autoShare now playerId w in snd (invitePlayer invitedId p w1))
      | Some p \<Rightarrow> if leader_of w p \<noteq> Some playerId then w else snd (invitePlayer invitedId p w))"

definition playerJoinParty :: "(party_event \<Rightarrow> bool) \<Rightarrow> int \<Rightarrow> nat \<Rightarrow> nat \<Rightarrow> party_world \<Rightarrow> party_world" where
  "playerJoinParty hk now playerId leaderId w =
     (if \<not> players_online w playerId \<or> \<not> players_online w leaderId \<or> \<not> isInviting w leaderId playerId then w
      else case party_of w leaderId of
        None \<Rightarrow> w
      | Some p \<Rightarrow>
          if leader_of w p \<noteq> Some leaderId then w
          else if party_of w playerId \<noteq> None then w
          else snd (joinParty hk now playerId p w))"

definition playerRevokePartyInvitation :: "(party_event \<Rightarrow> bool) \<Rightarrow> nat \<Rightarrow> nat \<Rightarrow> party_world \<Rightarrow> party_world" where
  "playerRevokePartyInvitation hk playerId invitedId w =
     (if \<not> players_online w playerId then w
      else case party_of w playerId of
        None \<Rightarrow> w
      | Some p \<Rightarrow>
          if leader_of w p \<noteq> Some playerId then w
          else if \<not> players_online w invitedId \<or> \<not> isInviting w playerId invitedId then w
          else revokeInvitation hk invitedId p w)"

definition playerPassPartyLeadership :: "int \<Rightarrow> nat \<Rightarrow> nat \<Rightarrow> party_world \<Rightarrow> party_world" where
  "playerPassPartyLeadership now playerId newLeaderId w =
     (if \<not> players_online w playerId then w
      else case party_of w playerId of
        None \<Rightarrow> w
      | Some p \<Rightarrow>
          if leader_of w p \<noteq> Some playerId then w
          else if \<not> players_online w newLeaderId \<or> \<not> isPartner w playerId newLeaderId then w
          else snd (passPartyLeadership now newLeaderId p w))"

text \<open>
  The guard reads \<^verbatim>\<open>!player->getZoneType() == ZONE_PROTECTION\<close>: the negation of the zone number is
  compared with the number 0 of the protection zone.
\<close>

definition playerLeaveParty :: "(party_event \<Rightarrow> bool) \<Rightarrow> int \<Rightarrow> nat \<Rightarrow> party_world \<Rightarrow> party_world" where
  "playerLeaveParty hk now playerId w =
     (if \<not> players_online w playerId then w
      else case party_of w playerId of
        None \<Rightarrow> w
      | Some p \<Rightarrow>
          if inFight (party_players w playerId) \<and> (if zoneType (party_players w playerId) = 0 then 1 else (0 :: nat)) = 0
          then w
          else snd (leaveParty hk now playerId p w))"

definition playerEnableSharedPartyExperience :: "int \<Rightarrow> nat \<Rightarrow> bool \<Rightarrow> party_world \<Rightarrow> party_world" where
  "playerEnableSharedPartyExperience now playerId active w =
     (if \<not> players_online w playerId then w
      else case party_of w playerId of
        None \<Rightarrow> w
      | Some p \<Rightarrow>
          if inFight (party_players w playerId) \<and> \<not> onProtectionTile (party_players w playerId) then w
          else snd (setSharedExperience now playerId active p w))"

text \<open>The party part of \<^verbatim>\<open>Player::onRemoveCreature\<close> at a logout.\<close>

definition player_logout :: "(party_event \<Rightarrow> bool) \<Rightarrow> int \<Rightarrow> nat \<Rightarrow> party_world \<Rightarrow> party_world" where
  "player_logout hk now x w =
     (let w1 = (case party_of w x of None \<Rightarrow> w | Some p \<Rightarrow> snd (leaveParty hk now x p w));
          w2 = clearPartyInvitations hk x w1
      in w2\<lparr>players_online := (players_online w2)(x := False)\<rparr>)"

section \<open>Shields\<close>

datatype party_shield =
  SHIELD_NONE | SHIELD_WHITEYELLOW | SHIELD_WHITEBLUE | SHIELD_BLUE | SHIELD_YELLOW | SHIELD_BLUE_SHAREDEXP
  | SHIELD_YELLOW_SHAREDEXP | SHIELD_BLUE_NOSHAREDEXP_BLINK | SHIELD_YELLOW_NOSHAREDEXP_BLINK
  | SHIELD_BLUE_NOSHAREDEXP | SHIELD_YELLOW_NOSHAREDEXP | SHIELD_GRAY

definition shield_outside :: "party_world \<Rightarrow> nat \<Rightarrow> nat \<Rightarrow> party_shield" where
  "shield_outside w x player =
     (if isInviting w player x then SHIELD_WHITEYELLOW
      else if party_of w player \<noteq> None then SHIELD_GRAY
      else SHIELD_NONE)"

definition getPartyShield :: "int \<Rightarrow> party_world \<Rightarrow> nat \<Rightarrow> nat \<Rightarrow> party_shield" where
  "getPartyShield now w x player = (case party_of w x of
      None \<Rightarrow> shield_outside w x player
    | Some p \<Rightarrow>
        if leader_of w p = Some player then
          (if sharedExpActive (parties w p) then
             if sharedExpEnabled (parties w p) then SHIELD_YELLOW_SHAREDEXP
             else if canUseSharedExperience now w p player then SHIELD_YELLOW_NOSHAREDEXP
             else SHIELD_YELLOW_NOSHAREDEXP_BLINK
           else SHIELD_YELLOW)
        else if party_of w player = Some p then
          (if sharedExpActive (parties w p) then
             if sharedExpEnabled (parties w p) then SHIELD_BLUE_SHAREDEXP
             else if canUseSharedExperience now w p player then SHIELD_BLUE_NOSHAREDEXP
             else SHIELD_BLUE_NOSHAREDEXP_BLINK
           else SHIELD_BLUE)
        else if isInviting w x player then SHIELD_WHITEBLUE
        else shield_outside w x player)"

section \<open>Consistency of the links\<close>

lemma upd_party_sel [simp]:
  "parties (upd_party p f w) = (parties w)(p := f (parties w p))"
  "party_players (upd_party p f w) = party_players w"
  "players_online (upd_party p f w) = players_online w"
  "next_party (upd_party p f w) = next_party w"
  by (simp_all add: upd_party_def)

lemma upd_player_sel [simp]:
  "party_players (upd_player x f w) = (party_players w)(x := f (party_players w x))"
  "parties (upd_player x f w) = parties w"
  "players_online (upd_player x f w) = players_online w"
  "next_party (upd_player x f w) = next_party w"
  by (simp_all add: upd_player_def)

text \<open>What the shared experience touches is no link.\<close>

definition same_links :: "party_world \<Rightarrow> party_world \<Rightarrow> bool" where
  "same_links w w' \<longleftrightarrow> (\<forall>p. leader_of w' p = leader_of w p \<and> members_of w' p = members_of w p
     \<and> invitees_of w' p = invitees_of w p) \<and> party_players w' = party_players w
     \<and> players_online w' = players_online w \<and> next_party w' = next_party w"

lemma same_links_refl: "same_links w w"
  by (simp add: same_links_def)

lemma same_links_trans: "same_links a b \<Longrightarrow> same_links b c \<Longrightarrow> same_links a c"
  by (simp add: same_links_def)

lemma same_links_updateSharedExperience: "same_links w (updateSharedExperience now p w)"
  by (simp add: same_links_def updateSharedExperience_def)

lemma same_links_setSharedExperience: "same_links w (snd (setSharedExperience now x b p w))"
  by (simp add: same_links_def setSharedExperience_def Let_def)

lemma same_links_clearPlayerPoints: "same_links w (clearPlayerPoints now x p w)"
proof -
  have "same_links w (upd_party p (\<lambda>pa. pa\<lparr>ticksMap := (ticksMap pa)(x := None)\<rparr>) w)"
    by (simp add: same_links_def)
  then show ?thesis
    by (simp add: clearPlayerPoints_def same_links_refl same_links_trans [OF _ same_links_updateSharedExperience])
qed

lemma same_links_updatePlayerTicks: "same_links w (updatePlayerTicks now x n p w)"
proof -
  have "same_links w (upd_party p (\<lambda>pa. pa\<lparr>ticksMap := (ticksMap pa)(x \<mapsto> now)\<rparr>) w)"
    by (simp add: same_links_def)
  then show ?thesis
    by (simp add: updatePlayerTicks_def same_links_refl same_links_trans [OF _ same_links_updateSharedExperience])
qed

lemma fold_removePartyInvitation [simp]:
  "parties (fold (removePartyInvitation p) xs w) = parties w"
  "players_online (fold (removePartyInvitation p) xs w) = players_online w"
  "next_party (fold (removePartyInvitation p) xs w) = next_party w"
  "party_of (fold (removePartyInvitation p) xs w) x = party_of w x"
  "invitations_of (fold (removePartyInvitation p) xs w) x =
     (if x \<in> set xs then removeAll p (invitations_of w x) else invitations_of w x)"
  by (induction xs arbitrary: w) (auto simp: removePartyInvitation_def)

lemma fold_setParty [simp]:
  "parties (fold (setParty v) xs w) = parties w"
  "players_online (fold (setParty v) xs w) = players_online w"
  "next_party (fold (setParty v) xs w) = next_party w"
  "party_of (fold (setParty v) xs w) x = (if x \<in> set xs then v else party_of w x)"
  "invitations_of (fold (setParty v) xs w) x = invitations_of w x"
  by (induction xs arbitrary: w) (auto simp: setParty_def)

text \<open>
  A party is linked when its leader and members are exactly the players who point to it, and
  announced when its invitees are exactly the players who hold its invitation.
\<close>

definition linked :: "party_world \<Rightarrow> nat \<Rightarrow> bool" where
  "linked w p \<longleftrightarrow> distinct (members_of w p) \<and> distinct (invitees_of w p)
     \<and> (\<forall>x. party_of w x = Some p \<longleftrightarrow> leader_of w p = Some x \<or> x \<in> set (members_of w p))
     \<and> (\<forall>l. leader_of w p = Some l \<longrightarrow> l \<notin> set (members_of w p))
     \<and> (leader_of w p = None \<longrightarrow> party_empty w p)
     \<and> (\<forall>x. x \<in> set (invitees_of w p) \<longrightarrow> party_of w x \<noteq> Some p)"

definition announced :: "nat set \<Rightarrow> party_world \<Rightarrow> nat \<Rightarrow> bool" where
  "announced A w p \<longleftrightarrow> (\<forall>x \<in> A. x \<in> set (invitees_of w p) \<longleftrightarrow> p \<in> set (invitations_of w x))"

definition alive :: "party_world \<Rightarrow> nat \<Rightarrow> bool" where
  "alive w p \<longleftrightarrow> (leader_of w p \<noteq> None \<longrightarrow> \<not> party_empty w p \<and> p < next_party w)"

definition party_inv :: "nat set \<Rightarrow> party_world \<Rightarrow> bool" where
  "party_inv A w \<longleftrightarrow> (\<forall>p. linked w p \<and> announced A w p \<and> alive w p) \<and> (\<forall>x. distinct (invitations_of w x))"

lemma party_invI:
  assumes "linked w p \<and> announced A w p \<and> alive w p" "\<And>q. q \<noteq> p \<Longrightarrow> linked w q \<and> announced A w q \<and> alive w q"
    and "\<And>x. distinct (invitations_of w x)"
  shows "party_inv A w"
proof -
  have "linked w q \<and> announced A w q \<and> alive w q" for q using assms(1,2) by (cases "q = p") simp_all
  then show ?thesis using assms(3) by (simp add: party_inv_def)
qed

lemma party_invD:
  assumes "party_inv A w"
  shows "linked w p" "announced A w p" "alive w p" "distinct (invitations_of w x)"
  using assms by (simp_all add: party_inv_def)

lemma same_links_linked: "same_links w w' \<Longrightarrow> linked w' p = linked w p"
  by (simp add: linked_def same_links_def party_empty_def)

lemma same_links_announced: "same_links w w' \<Longrightarrow> announced A w' p = announced A w p"
  by (simp add: announced_def same_links_def)

lemma same_links_alive: "same_links w w' \<Longrightarrow> alive w' p = alive w p"
  by (simp add: alive_def same_links_def party_empty_def)

lemma same_links_inv: "same_links w w' \<Longrightarrow> party_inv A w' = party_inv A w"
  using same_links_linked same_links_announced same_links_alive
  by (simp add: party_inv_def) (simp add: same_links_def)

lemma party_empty_simps [simp]:
  "party_empty (upd_party p f w) q =
     (if q = p then memberList (f (parties w p)) = [] \<and> inviteList (f (parties w p)) = [] else party_empty w q)"
  "party_empty (upd_player x g w) q = party_empty w q"
  by (auto simp: party_empty_def)

lemma disband_links:
  assumes "hk (OnDisband p)" "leader_of w p = Some l"
  shows "leader_of (disband hk p w) q = (if q = p then None else leader_of w q)"
    and "members_of (disband hk p w) q = (if q = p then [] else members_of w q)"
    and "invitees_of (disband hk p w) q = (if q = p then [] else invitees_of w q)"
    and "party_of (disband hk p w) x = (if x = l \<or> x \<in> set (members_of w p) then None else party_of w x)"
    and "invitations_of (disband hk p w) x =
      (if x \<in> set (invitees_of w p) then removeAll p (invitations_of w x) else invitations_of w x)"
    and "next_party (disband hk p w) = next_party w"
  using assms by (simp_all add: disband_def Let_def setParty_def)

lemma disband_inv:
  assumes hk: "hk (OnDisband p)" and l: "leader_of w p = Some l"
    and others: "\<And>q. q \<noteq> p \<Longrightarrow> linked w q \<and> announced A w q \<and> alive w q"
    and mine: "\<And>x. party_of w x = Some p \<Longrightarrow> x = l \<or> x \<in> set (members_of w p)"
    and only: "\<And>x q. x = l \<or> x \<in> set (members_of w p) \<Longrightarrow> party_of w x = Some q \<Longrightarrow> q = p"
    and inv: "announced A w p" "\<And>x. distinct (invitations_of w x)"
  shows "party_inv A (disband hk p w)"
proof -
  note d = disband_links [of hk p, OF hk l]
  have "linked (disband hk p w) p \<and> announced A (disband hk p w) p \<and> alive (disband hk p w) p"
    using mine inv(1) by (auto simp: linked_def announced_def alive_def party_empty_def d)
  moreover have "linked (disband hk p w) q \<and> announced A (disband hk p w) q \<and> alive (disband hk p w) q" if "q \<noteq> p" for q
  proof -
    have "party_of (disband hk p w) x = Some q \<longleftrightarrow> party_of w x = Some q" for x
      using only [of x q] that by (auto simp: d)
    then show ?thesis
      using others [OF that] that by (auto simp: linked_def announced_def alive_def party_empty_def d)
  qed
  ultimately show ?thesis
    using inv(2) by (intro party_invI [of _ p]) (simp_all add: d distinct_removeAll)
qed

lemma linked_members:
  assumes "party_inv A w" "leader_of w p = Some l"
  shows "party_of w l = Some p" "l \<notin> set (members_of w p)" "\<And>x. x \<in> set (members_of w p) \<Longrightarrow> party_of w x = Some p"
    "\<And>x. party_of w x = Some p \<Longrightarrow> x \<noteq> l \<Longrightarrow> x \<in> set (members_of w p)"
  using party_invD(1) [OF assms(1), of p] assms(2) by (auto simp: linked_def)

lemma linked_other:
  assumes "linked w q" "\<And>x. party_of w' x = Some q \<longleftrightarrow> party_of w x = Some q" "parties w' q = parties w q"
  shows "linked w' q"
  using assms by (auto simp: linked_def party_empty_def)

lemma announced_other:
  assumes "announced A w q" "\<And>x. q \<in> set (invitations_of w' x) \<longleftrightarrow> q \<in> set (invitations_of w x)"
    "parties w' q = parties w q"
  shows "announced A w' q"
  using assms by (simp add: announced_def)

lemma alive_other:
  assumes "alive w q" "parties w' q = parties w q" "next_party w \<le> next_party w'"
  shows "alive w' q"
  using assms by (auto simp: alive_def party_empty_def)

lemma passPartyLeadership_inv:
  assumes "party_inv A w"
  shows "party_inv A (snd (passPartyLeadership now x p w))"
proof (cases "\<exists>l. leader_of w p = Some l \<and> l \<noteq> x \<and> party_of w x = Some p")
  case True
  then obtain l where l: "leader_of w p = Some l" "l \<noteq> x" "party_of w x = Some p" by blast
  let ?w = "upd_party p (\<lambda>pa. pa\<lparr>m_leader := Some x, memberList := l # remove1 x (memberList pa)\<rparr>) w"
  note d = party_invD [OF assms]
  have "linked ?w p"
    using d(1) [of p] l by (auto simp: linked_def in_set_remove1 set_remove1_eq)
  moreover have "announced A ?w p \<and> alive ?w p"
    using d(2,3) [of p] l by (auto simp: announced_def alive_def)
  moreover have "linked ?w q \<and> announced A ?w q \<and> alive ?w q" if "q \<noteq> p" for q
    using that d linked_other [of w q ?w] announced_other [of _ w q ?w] alive_other [of w q ?w] by simp
  ultimately have "party_inv A ?w" using d(4) by (intro party_invI [of _ p]) simp_all
  then show ?thesis
    using l same_links_inv [OF same_links_updateSharedExperience] by (simp add: passPartyLeadership_def)
next
  case False
  then show ?thesis using assms by (auto simp: passPartyLeadership_def split: option.splits)
qed

lemma passPartyLeadership_links:
  assumes "leader_of w p = Some l" "l \<noteq> x" "party_of w x = Some p"
  shows "leader_of (snd (passPartyLeadership now x p w)) p = Some x"
    "members_of (snd (passPartyLeadership now x p w)) p = l # remove1 x (members_of w p)"
    "invitees_of (snd (passPartyLeadership now x p w)) p = invitees_of w p"
    "party_players (snd (passPartyLeadership now x p w)) = party_players w"
  using assms same_links_updateSharedExperience
  by (simp_all add: passPartyLeadership_def same_links_def)

lemma joinParty_inv:
  assumes "party_inv A w" "party_of w x = None"
  shows "party_inv A (snd (joinParty hk now x p w))"
proof (cases "leader_of w p = None \<or> \<not> hk (OnJoin p x) \<or> x \<notin> set (invitees_of w p)")
  case True
  then show ?thesis using assms by (auto simp: joinParty_def)
next
  case False
  then obtain l where l: "leader_of w p = Some l" by auto
  let ?w = "removePartyInvitation p x (upd_party p (\<lambda>pa. pa\<lparr>memberList := memberList pa @ [x]\<rparr>)
     (setParty (Some p) x (upd_party p (\<lambda>pa. pa\<lparr>inviteList := remove1 x (inviteList pa)\<rparr>) w)))"
  note d = party_invD [OF assms(1)]
  note defs = removePartyInvitation_def setParty_def
  have x: "x \<notin> set (members_of w p)" "x \<noteq> l" using linked_members [OF assms(1) l] assms(2) by force+
  have "linked ?w p" using d(1) [of p] l x by (auto simp: linked_def defs set_remove1_eq)
  moreover have "announced A ?w p" using d(1,2) [of p] l x by (auto simp: announced_def linked_def defs set_remove1_eq)
  moreover have "alive ?w p" using d(3) [of p] l by (auto simp: alive_def defs)
  moreover have "linked ?w q \<and> announced A ?w q \<and> alive ?w q" if "q \<noteq> p" for q
    using that d assms(2) linked_other [of w q ?w] announced_other [of _ w q ?w] alive_other [of w q ?w] by (simp add: defs)
  ultimately have "party_inv A ?w" using d(4) by (intro party_invI [of _ p]) (simp_all add: defs distinct_removeAll)
  then show ?thesis
    using False l same_links_inv [OF same_links_updateSharedExperience] by (simp add: joinParty_def Let_def)
qed

lemma invitePlayer_inv:
  assumes linked: "\<And>q. linked w q" and announced: "\<And>q. announced UNIV w q" and alive: "\<And>q. q \<noteq> p \<Longrightarrow> alive w q"
    and d: "\<And>y. distinct (invitations_of w y)" and l: "leader_of w p \<noteq> None" "p < next_party w"
    and x: "party_of w x = None" "\<not> isPlayerInvited w p x"
  shows "party_inv UNIV (snd (invitePlayer x p w))"
proof -
  let ?w = "addPartyInvitation p x (upd_party p (\<lambda>pa. pa\<lparr>inviteList := inviteList pa @ [x]\<rparr>) w)"
  have no: "p \<notin> set (invitations_of w x)" using announced [of p] x by (simp add: announced_def isPlayerInvited_def)
  note defs = addPartyInvitation_def isPlayerInvited_def
  have "leader_of w p \<noteq> Some x" "x \<notin> set (members_of w p)" using linked [of p] x(1) unfolding linked_def by (metis option.distinct(1))+
  then have "linked ?w p" using linked [of p] l x no by (auto simp: linked_def defs)
  moreover have "announced UNIV ?w p" using announced [of p] no by (auto simp: announced_def defs)
  moreover have "alive ?w p" using l no by (auto simp: alive_def defs)
  moreover have "linked ?w q \<and> announced UNIV ?w q \<and> alive ?w q" if "q \<noteq> p" for q
    using that linked announced alive no linked_other [of w q ?w] announced_other [of _ w q ?w] alive_other [of w q ?w] by (simp add: defs)
  ultimately have "party_inv UNIV ?w" using d no by (intro party_invI [of _ p]) (simp_all add: defs)
  then show ?thesis using l x by (auto simp: invitePlayer_def)
qed

lemma create_party_links:
  assumes "create_party autoShare now l w = (p, w')"
  shows "p = next_party w" "same_links (setParty (Some p) l (upd_party p (\<lambda>_. \<lparr>m_leader = Some l, memberList = [],
      inviteList = [], ticksMap = Map.empty, sharedExpActive = False, sharedExpEnabled = False\<rparr>)
      (w\<lparr>next_party := p + 1\<rparr>))) w'"
  using assms same_links_setSharedExperience same_links_refl by (auto simp: create_party_def Let_def)

lemma create_and_invite_inv:
  assumes inv: "party_inv UNIV w" and "create_party autoShare now l w = (p, w')"
    and "party_of w l = None" "party_of w x = None" "x \<noteq> l"
  shows "party_inv UNIV (snd (invitePlayer x p w'))"
proof -
  note d = party_invD [OF inv]
  let ?w = "setParty (Some p) l (upd_party p (\<lambda>_. \<lparr>m_leader = Some l, memberList = [],
      inviteList = [], ticksMap = Map.empty, sharedExpActive = False, sharedExpEnabled = False\<rparr>)
      (w\<lparr>next_party := p + 1\<rparr>))"
  have p: "p = next_party w" and same: "same_links ?w w'" using create_party_links [OF assms(2)] by simp_all
  have "leader_of w p = None" using d(3) [of p] by (auto simp: alive_def p)
  then have old: "invitees_of w p = []" "\<And>y. party_of w y \<noteq> Some p" "\<And>y. p \<notin> set (invitations_of w y)"
    using d(1,2) [of p] by (auto simp: linked_def announced_def party_empty_def)
  have "linked ?w q \<and> announced UNIV ?w q" for q
  proof (cases "q = p")
    case True
    then show ?thesis using old by (auto simp: linked_def announced_def setParty_def)
  next
    case False
    then show ?thesis using d assms(3) linked_other [of w q ?w] announced_other [of _ w q ?w] alive_other [of w q ?w] by (simp add: setParty_def)
  qed
  moreover have "alive ?w q" if "q \<noteq> p" for q
    using that d alive_other [of w q ?w] by (simp add: setParty_def p)
  ultimately show ?thesis
    using d(4) old assms(4,5) same
    by (intro invitePlayer_inv)
      (auto simp: same_links_linked [OF same] same_links_announced [OF same] same_links_alive [OF same]
        same_links_def setParty_def isPlayerInvited_def)
qed

lemma removeInvite_inv:
  assumes inv: "party_inv A w" and hk: "hk (OnDisband p)" and rf: "removeFromPlayer \<or> x \<notin> A"
  shows "party_inv A (snd (removeInvite hk x removeFromPlayer p w))"
proof (cases "leader_of w p = None \<or> x \<notin> set (invitees_of w p)")
  case True
  then show ?thesis using inv by (auto simp: removeInvite_def)
next
  case False
  then obtain l where l: "leader_of w p = Some l" and x: "x \<in> set (invitees_of w p)" by auto
  let ?w1 = "upd_party p (\<lambda>pa. pa\<lparr>inviteList := remove1 x (inviteList pa)\<rparr>) w"
  let ?w = "if removeFromPlayer then removePartyInvitation p x ?w1 else ?w1"
  note d = party_invD [OF inv]
  note defs = removePartyInvitation_def
  have "linked ?w p" using d(1) [of p] l x by (auto simp: linked_def defs set_remove1_eq)
  moreover have an: "announced A ?w p" using d(1,2) [of p] rf by (auto simp: announced_def linked_def defs set_remove1_eq)
  moreover have other: "linked ?w q \<and> announced A ?w q \<and> alive ?w q" if "q \<noteq> p" for q
    using that d linked_other [of w q ?w] announced_other [of _ w q ?w] alive_other [of w q ?w] by (simp add: defs)
  moreover have di: "distinct (invitations_of ?w y)" for y using d(4) by (simp add: defs distinct_removeAll)
  moreover have "alive ?w p" if "\<not> party_empty ?w p" using d(3) [of p] l that by (simp add: alive_def defs)
  ultimately have keep: "party_inv A ?w" if "\<not> party_empty ?w p" using that by (intro party_invI [of _ p]) simp_all
  have "party_inv A (disband hk p ?w)" if "party_empty ?w p"
  proof (rule disband_inv [where l = l])
    show "leader_of ?w p = Some l" using l by (simp add: defs)
    show "\<And>y. party_of ?w y = Some p \<Longrightarrow> y = l \<or> y \<in> set (members_of ?w p)"
      using linked_members [OF inv l] by (auto simp: defs split: if_splits)
    show "\<And>y q. y = l \<or> y \<in> set (members_of ?w p) \<Longrightarrow> party_of ?w y = Some q \<Longrightarrow> q = p"
      using linked_members [OF inv l] by (auto simp: defs split: if_splits)
  qed (use hk other an di in auto)
  moreover have "snd (removeInvite hk x removeFromPlayer p w) = (if party_empty ?w p then disband hk p ?w else ?w)"
    using l x by (simp add: removeInvite_def Let_def)
  ultimately show ?thesis using keep by (cases "party_empty ?w p") (simp_all only: if_True if_False not_False_eq_True simp_thms)
qed

lemma leave_member_inv:
  assumes inv: "party_inv A w" and l: "leader_of w p = Some l" and x: "x \<in> set (members_of w p)" and hk: "hk (OnDisband p)"
    and same: "same_links (setParty None x (upd_party p (\<lambda>pa. pa\<lparr>memberList := remove1 x (memberList pa)\<rparr>) w)) w'"
  shows "party_inv A (if party_empty w' p then disband hk p w' else w')"
proof -
  let ?w = "setParty None x (upd_party p (\<lambda>pa. pa\<lparr>memberList := remove1 x (memberList pa)\<rparr>) w)"
  note d = party_invD [OF inv]
  note m = linked_members [OF inv l]
  have "linked ?w p" using d(1) [of p] l x by (auto simp: linked_def setParty_def set_remove1_eq)
  then have li: "linked w' p" using same_links_linked [OF same] by simp
  have "announced A ?w p" using d(2) [of p] by (auto simp: announced_def setParty_def)
  then have an: "announced A w' p" using same_links_announced [OF same] by simp
  have other: "linked w' q \<and> announced A w' q \<and> alive w' q" if "q \<noteq> p" for q
    using that d m(3) [OF x] linked_other [of w q ?w] announced_other [of _ w q ?w] alive_other [of w q ?w]
    by (simp add: setParty_def same_links_linked [OF same] same_links_announced [OF same] same_links_alive [OF same])
  have di: "distinct (invitations_of w' y)" for y using d(4) same by (simp add: same_links_def setParty_def)
  have l': "leader_of w' p = Some l" using same l by (simp add: same_links_def setParty_def)
  have nx: "p < next_party w'" using d(3) [of p] l same by (simp add: alive_def same_links_def setParty_def)
  have at_p: "party_of w' y = Some p \<longleftrightarrow> y = l \<or> y \<in> set (members_of w' p)" for y
    using li l' by (auto simp: linked_def)
  have only: "q = p" if "y = l \<or> y \<in> set (members_of w' p)" "party_of w' y = Some q" for y q
    using at_p [of y] that by simp
  have "party_inv A (disband hk p w')"
    by (rule disband_inv [of hk p, OF hk l' other _ only an di]) (simp_all add: at_p)
  moreover have "party_inv A w'" if "\<not> party_empty w' p"
    using that li an other di nx by (intro party_invI [of _ p]) (simp_all add: alive_def)
  ultimately show ?thesis by simp
qed

lemma leave_last_inv:
  assumes inv: "party_inv A w" and l: "leader_of w p = Some x" and hk: "hk (OnDisband p)"
    and same: "same_links (setParty None x (upd_party p (\<lambda>pa. pa\<lparr>memberList := remove1 x (memberList pa)\<rparr>) w)) w'"
  shows "party_inv A (disband hk p w')"
proof -
  let ?w = "setParty None x (upd_party p (\<lambda>pa. pa\<lparr>memberList := remove1 x (memberList pa)\<rparr>) w)"
  note d = party_invD [OF inv]
  note m = linked_members [OF inv l]
  have other: "linked w' q \<and> announced A w' q \<and> alive w' q" if "q \<noteq> p" for q
    using that d m(1) linked_other [of w q ?w] announced_other [of _ w q ?w] alive_other [of w q ?w]
    by (simp add: setParty_def same_links_linked [OF same] same_links_announced [OF same] same_links_alive [OF same])
  have "announced A ?w p" using d(2) [of p] by (auto simp: announced_def setParty_def)
  then have an: "announced A w' p" using same_links_announced [OF same] by simp
  have w': "leader_of w' p = Some x" "members_of w' p = members_of w p"
      "\<And>y. party_of w' y = (if y = x then None else party_of w y)" "\<And>y. invitations_of w' y = invitations_of w y"
    using same l m(2) by (simp_all add: same_links_def setParty_def remove1_idem)
  have mine: "y = x \<or> y \<in> set (members_of w' p)" if "party_of w' y = Some p" for y
    using that m(4) by (auto simp: w' split: if_splits)
  have only: "q = p" if "y = x \<or> y \<in> set (members_of w' p)" "party_of w' y = Some q" for y q
    using that m(3) by (auto simp: w' split: if_splits)
  show ?thesis
    by (rule disband_inv [of hk p, OF hk w'(1) other mine only an]) (simp_all add: w' d(4))
qed

lemma leaveParty_inv:
  assumes inv: "party_inv A w" and hk: "hk (OnDisband p)"
  shows "party_inv A (snd (leaveParty hk now x p w))"
proof (cases "\<exists>l. leader_of w p = Some l \<and> (party_of w x = Some p \<or> l = x) \<and> hk (OnLeave p x)")
  case False
  then show ?thesis using inv by (auto simp: leaveParty_def split: option.splits)
next
  case True
  then obtain l where l: "leader_of w p = Some l" "party_of w x = Some p" "hk (OnLeave p x)"
    using linked_members(1) [OF inv] by auto
  let ?rest = "\<lambda>w. clearPlayerPoints now x p (updateSharedExperience now p
      (setParty None x (upd_party p (\<lambda>pa. pa\<lparr>memberList := remove1 x (memberList pa)\<rparr>) w)))"
  have same: "same_links (setParty None x (upd_party p (\<lambda>pa. pa\<lparr>memberList := remove1 x (memberList pa)\<rparr>) v)) (?rest v)" for v
    by (rule same_links_trans [OF same_links_updateSharedExperience same_links_clearPlayerPoints])
  note m = linked_members [OF inv l(1)]
  consider (member) "l \<noteq> x" | (last) "l = x" "members_of w p = [] \<or> (\<exists>n. members_of w p = [n]) \<and> invitees_of w p = []"
    | (pass) n ms where "l = x" "members_of w p = n # ms" "\<not> (ms = [] \<and> invitees_of w p = [])"
    by (cases "members_of w p") auto
  then show ?thesis
  proof cases
    case member
    then have x: "x \<in> set (members_of w p)" using m(4) l(2) by blast
    have "snd (leaveParty hk now x p w) = (if party_empty (?rest w) p then disband hk p (?rest w) else ?rest w)"
      using l member by (simp add: leaveParty_def Let_def)
    then show ?thesis using leave_member_inv [of A w p l x hk, OF inv l(1) x hk same] by simp
  next
    case last
    then have "snd (leaveParty hk now x p w) = disband hk p (?rest w)"
      using l by (auto simp: leaveParty_def Let_def)
    then show ?thesis using leave_last_inv [of A w p x hk, OF inv _ hk same] l last by simp
  next
    case pass
    let ?w1 = "snd (passPartyLeadership now n p w)"
    have n: "party_of w n = Some p" "l \<noteq> n" using m(2,3) pass(2) by force+
    note links = passPartyLeadership_links [OF l(1) n(2,1)]
    have "snd (leaveParty hk now x p w) = (if party_empty (?rest ?w1) p then disband hk p (?rest ?w1) else ?rest ?w1)"
      using l pass by (auto simp: leaveParty_def Let_def)
    then show ?thesis
      using leave_member_inv [of A ?w1 p n x hk, OF passPartyLeadership_inv [OF inv] links(1) _ hk same] pass(1)
      by (simp add: links)
  qed
qed

lemma removeInvite_invitees:
  assumes "party_inv A w" "x \<in> set (invitees_of (snd (removeInvite hk x rf p w)) q)"
  shows "x \<in> set (invitees_of w q) \<and> q \<noteq> p"
proof -
  note li = party_invD(1) [OF assms(1), of p]
  have dis: "invitees_of (disband hk p v) r = [] \<or> invitees_of (disband hk p v) r = invitees_of v r" for v r
    by (cases "hk (OnDisband p)"; cases "leader_of v p") (auto simp: disband_def disband_links Let_def setParty_def)
  have "leader_of w p = None \<Longrightarrow> invitees_of w p = []" using li by (simp add: linked_def party_empty_def)
  moreover have "x \<notin> set (remove1 x (invitees_of w p))" using li by (simp add: linked_def)
  ultimately show ?thesis
    using assms(2) dis [of "upd_party p (\<lambda>pa. pa\<lparr>inviteList := remove1 x (inviteList pa)\<rparr>) w" q]
      dis [of "removePartyInvitation p x (upd_party p (\<lambda>pa. pa\<lparr>inviteList := remove1 x (inviteList pa)\<rparr>) w)" q]
    by (auto simp: removeInvite_def Let_def removePartyInvitation_def split: if_splits)
qed

lemma fold_removeInvite:
  assumes "party_inv A w" "x \<notin> A" "\<And>p. hk (OnDisband p)"
  shows "party_inv A (fold (\<lambda>p w. snd (removeInvite hk x False p w)) ps w)
    \<and> (\<forall>q. x \<in> set (invitees_of (fold (\<lambda>p w. snd (removeInvite hk x False p w)) ps w) q) \<longrightarrow>
          x \<in> set (invitees_of w q) \<and> q \<notin> set ps)"
  using assms(1)
proof (induction ps arbitrary: w)
  case (Cons p ps)
  let ?w = "snd (removeInvite hk x False p w)"
  have "party_inv A ?w" using removeInvite_inv [of A w hk p False x] Cons.prems assms(2,3) by simp
  note IH = Cons.IH [OF this]
  have "x \<in> set (invitees_of w q) \<and> q \<notin> set (p # ps)"
    if "x \<in> set (invitees_of (fold (\<lambda>p w. snd (removeInvite hk x False p w)) ps ?w) q)" for q
    using IH that removeInvite_invitees [OF Cons.prems, of x hk False p q] by auto
  then show ?case using IH by simp
qed simp

lemma clearPartyInvitations_inv:
  assumes inv: "party_inv UNIV w" and hk: "\<And>p. hk (OnDisband p)"
  shows "party_inv UNIV (clearPartyInvitations hk x w)"
proof -
  let ?w = "fold (\<lambda>p w. snd (removeInvite hk x False p w)) (invitations_of w x) w"
  have "party_inv (- {x}) w" using inv by (auto simp: party_inv_def announced_def)
  from fold_removeInvite [OF this, of x hk "invitations_of w x"] hk
  have w: "party_inv (- {x}) ?w" and gone: "\<And>q. x \<notin> set (invitees_of ?w q)"
    using party_invD(2) [OF inv] by (auto simp: announced_def)
  note d = party_invD [OF w]
  let ?v = "upd_player x (\<lambda>pl. pl\<lparr>invitePartyList := []\<rparr>) ?w"
  have "announced UNIV ?v q" for q using d(2) [of q] gone [of q] by (auto simp: announced_def)
  moreover have "linked ?v q" for q using d(1) [of q] linked_other [of ?w q ?v] by simp
  moreover have "alive ?v q" for q using d(3) [of q] alive_other [of ?w q ?v] by simp
  ultimately show ?thesis using d(4) by (simp add: party_inv_def clearPartyInvitations_def)
qed

lemma party_inv_online [simp]: "party_inv A (w\<lparr>players_online := f\<rparr>) = party_inv A w"
  by (simp add: party_inv_def linked_def announced_def alive_def party_empty_def)

lemma playerInviteToParty_inv:
  assumes "party_inv UNIV w"
  shows "party_inv UNIV (playerInviteToParty autoShare now x y w)"
proof -
  have new: "party_inv UNIV (snd (invitePlayer y p v))"
    if "create_party autoShare now x w = (p, v)" "party_of w x = None" "party_of w y = None" "x \<noteq> y" for p v
    using create_and_invite_inv [OF assms that(1-3)] that(4) by simp
  have old: "party_inv UNIV (snd (invitePlayer y p w))" if "leader_of w p = Some x" "party_of w y = None" for p
  proof (cases "isPlayerInvited w p y")
    case True
    then show ?thesis using assms by (simp add: invitePlayer_def)
  next
    case False
    then show ?thesis
      using party_invD [OF assms] that by (intro invitePlayer_inv) (auto simp: alive_def)
  qed
  show ?thesis
    using assms new old by (auto simp: playerInviteToParty_def split: option.splits prod.splits)
qed

text \<open>Everything that can happen to parties; other changes of a player keep its party fields.\<close>

inductive party_step :: "party_world \<Rightarrow> party_world \<Rightarrow> bool" where
  invite: "party_step w (playerInviteToParty autoShare now x y w)"
| join: "party_step w (playerJoinParty hk now x y w)"
| revoke: "\<forall>p. hk (OnDisband p) \<Longrightarrow> party_step w (playerRevokePartyInvitation hk x y w)"
| pass: "party_step w (playerPassPartyLeadership now x y w)"
| leave: "\<forall>p. hk (OnDisband p) \<Longrightarrow> party_step w (playerLeaveParty hk now x w)"
| share: "party_step w (playerEnableSharedPartyExperience now x b w)"
| ticks: "party_step w (updatePlayerTicks now x n p w)"
| logout: "\<forall>p. hk (OnDisband p) \<Longrightarrow> party_step w (player_logout hk now x w)"
| login: "party_step w (w\<lparr>players_online := (players_online w)(x := True)\<rparr>)"
| change: "party_step w (upd_player x (\<lambda>pl. pl\<lparr>player_level := lv, player_position := pos, notGainInFight := a,
      inFight := b, zoneType := z, onProtectionTile := t\<rparr>) w)"

definition no_parties :: "party_world \<Rightarrow> bool" where
  "no_parties w \<longleftrightarrow> (\<forall>p. leader_of w p = None \<and> party_empty w p) \<and> (\<forall>x. party_of w x = None \<and> invitations_of w x = [])"

lemma no_parties_inv: "no_parties w \<Longrightarrow> party_inv UNIV w"
  by (auto simp: no_parties_def party_inv_def linked_def announced_def alive_def party_empty_def)

lemma party_step_inv: "party_step w w' \<Longrightarrow> party_inv UNIV w \<Longrightarrow> party_inv UNIV w'"
proof (induction rule: party_step.induct)
  case (invite w autoShare now x y)
  then show ?case by (rule playerInviteToParty_inv)
next
  case (join w hk now x y)
  then show ?case by (auto simp: playerJoinParty_def joinParty_inv split: option.splits)
next
  case (revoke hk w x y)
  then show ?case
    by (auto simp: playerRevokePartyInvitation_def revokeInvitation_def removeInvite_inv split: option.splits)
next
  case (pass w now x y)
  then show ?case by (auto simp: playerPassPartyLeadership_def passPartyLeadership_inv split: option.splits)
next
  case (leave hk w now x)
  then show ?case by (auto simp: playerLeaveParty_def leaveParty_inv split: option.splits)
next
  case (share w now x b)
  then show ?case
    by (auto simp: playerEnableSharedPartyExperience_def same_links_inv [OF same_links_setSharedExperience] split: option.splits)
next
  case (ticks w now x n p)
  then show ?case by (simp add: same_links_inv [OF same_links_updatePlayerTicks])
next
  case (logout hk w now x)
  then have "party_inv UNIV (case party_of w x of None \<Rightarrow> w | Some p \<Rightarrow> snd (leaveParty hk now x p w))"
    by (simp add: leaveParty_inv split: option.splits)
  then show ?case using logout(1) by (simp add: player_logout_def Let_def clearPartyInvitations_inv)
next
  case (login w x)
  then show ?case by simp
next
  case (change w x t z b a pos lv)
  let ?v = "upd_player x (\<lambda>pl. pl\<lparr>player_level := lv, player_position := pos, notGainInFight := a,
      inFight := b, zoneType := z, onProtectionTile := t\<rparr>) w"
  note d = party_invD [OF change]
  show ?case
    using d linked_other [of w _ ?v] announced_other [of _ w _ ?v] alive_other [of w _ ?v]
    by (simp add: party_inv_def)
qed


definition demo_party_world :: party_world where
  "demo_party_world =
     \<lparr>parties = (\<lambda>_. \<lparr>m_leader = None, memberList = [], inviteList = [], ticksMap = Map.empty,
                     sharedExpActive = False, sharedExpEnabled = False\<rparr>),
      party_players = (\<lambda>_. \<lparr>m_party = None, invitePartyList = [], player_level = 8, player_position = Position 100 100 7,
                     notGainInFight = False, inFight = False, zoneType = 4, onProtectionTile = False\<rparr>),
      players_online = (\<lambda>_. True), next_party = 0\<rparr>"

abbreviation demo_joined :: party_world where
  "demo_joined \<equiv> playerJoinParty (\<lambda>_. True) 5 2 1 (playerInviteToParty False 0 1 2 demo_party_world)"

lemmas demo_party_defs = demo_party_world_def playerInviteToParty_def playerJoinParty_def invitePlayer_def
  joinParty_def create_party_def isInviting_def isPlayerInvited_def addPartyInvitation_def
  removePartyInvitation_def setParty_def updateSharedExperience_def Let_def


section \<open>The rule of shared experience\<close>

lemma fold_max_level:
  "fold (\<lambda>m h. if f m > h then f m else (h :: nat)) ms h = Max (insert h (f ` set ms))"
proof (induction ms arbitrary: h)
  case (Cons m ms)
  have "insert h (f ` set (m # ms)) = insert h (insert (f m) (f ` set ms))" by auto
  then have "Max (insert h (f ` set (m # ms))) = max h (Max (insert (f m) (f ` set ms)))"
    by simp
  then show ?case using Cons.IH by (cases "f ` set ms = {}") (auto simp: max_def)
qed simp

lemma fold_min_level:
  "fold (\<lambda>m h. if f m < h then f m else (h :: nat)) ms h = Min (insert h (f ` set ms))"
proof (induction ms arbitrary: h)
  case (Cons m ms)
  have "insert h (f ` set (m # ms)) = insert h (insert (f m) (f ` set ms))" by auto
  then have "Min (insert h (f ` set (m # ms))) = min h (Min (insert (f m) (f ` set ms)))"
    by simp
  then show ?case using Cons.IH by (cases "f ` set ms = {}") (auto simp: min_def)
qed simp

abbreviation party_levels :: "party_world \<Rightarrow> nat \<Rightarrow> nat \<Rightarrow> nat set" where
  "party_levels w p l \<equiv> (\<lambda>x. player_level (party_players w x)) ` insert l (set (members_of w p))"

lemma getHighestLevel_Max: "leader_of w p = Some l \<Longrightarrow> getHighestLevel w p = Max (party_levels w p l)"
  by (simp add: getHighestLevel_def fold_max_level)

lemma getLowestLevel_Min: "leader_of w p = Some l \<Longrightarrow> getLowestLevel w p = Min (party_levels w p l)"
  by (simp add: getLowestLevel_def fold_min_level)

lemma ceil_two_thirds: "l < (h * 2 + 2) div 3 \<longleftrightarrow> \<not> 2 * h \<le> 3 * (l :: nat)"
  using div_less_iff_less_mult [of 3 "h * 2 + 2" "Suc l"] by auto

lemma level_limits: "(h * 2 + 2) div 3 \<le> (l :: nat) \<longleftrightarrow> h \<le> l * 3 div 2"
  using ceil_two_thirds [of l h] less_eq_div_iff_mult_less_eq [of 2 h "l * 3"] by auto

lemma first_failure_OK: "first_failure st ms = SHAREDEXP_OK \<longleftrightarrow> (\<forall>m \<in> set ms. st m = SHAREDEXP_OK)"
  by (induction ms) auto

text \<open>
  Shared experience is granted by the published rule. The status is ok exactly when the party has a
  leader and members and everybody, the leader included, has at least two thirds of the highest
  level, stands within 30 squares and one floor of the leader and was active in the last two minutes
  or is exempt; updating an active party enables it exactly then; and the two limits shown to an
  invited player express the same rule from both ends.
\<close>
theorem shared_experience_rule:
  "(getSharedExperienceStatus now w p = SHAREDEXP_OK \<longleftrightarrow>
     (\<exists>l. leader_of w p = Some l \<and> members_of w p \<noteq> []
       \<and> (\<forall>x \<in> insert l (set (members_of w p)).
            2 * Max (party_levels w p l) \<le> 3 * player_level (party_players w x)
            \<and> areInRange3 30 30 1 (player_position (party_players w l)) (player_position (party_players w x))
            \<and> (notGainInFight (party_players w x) \<or> isPlayerActive now w p x))))
   \<and> (sharedExpActive (parties w p) \<longrightarrow>
        sharedExpEnabled (parties (updateSharedExperience now p w) p) = (getSharedExperienceStatus now w p = SHAREDEXP_OK))
   \<and> (getMinLevel w p \<le> getLowestLevel w p \<longleftrightarrow> getHighestLevel w p \<le> getMaxLevel w p)"
proof -
  have member: "getMemberSharedExperienceStatus now w p x = SHAREDEXP_OK \<longleftrightarrow>
      members_of w p \<noteq> [] \<and> 2 * Max (party_levels w p l) \<le> 3 * player_level (party_players w x)
      \<and> areInRange3 30 30 1 (player_position (party_players w l)) (player_position (party_players w x))
      \<and> (notGainInFight (party_players w x) \<or> isPlayerActive now w p x)"
    if "leader_of w p = Some l" for l x
  proof -
    have "player_level (party_players w x) < getMinLevel w p \<longleftrightarrow>
        \<not> 2 * Max (party_levels w p l) \<le> 3 * player_level (party_players w x)"
      unfolding getMinLevel_def getHighestLevel_Max [OF that] by (rule ceil_two_thirds)
    then show ?thesis using that by (simp add: getMemberSharedExperienceStatus_def)
  qed
  have st: "getSharedExperienceStatus now w p = SHAREDEXP_OK \<longleftrightarrow> (\<exists>l. leader_of w p = Some l \<and>
      (\<forall>x \<in> insert l (set (members_of w p)). getMemberSharedExperienceStatus now w p x = SHAREDEXP_OK))"
    by (auto simp: getSharedExperienceStatus_def first_failure_OK Let_def split: option.splits)
  show ?thesis
  proof (intro conjI)
    show "getSharedExperienceStatus now w p = SHAREDEXP_OK \<longleftrightarrow>
       (\<exists>l. leader_of w p = Some l \<and> members_of w p \<noteq> []
         \<and> (\<forall>x \<in> insert l (set (members_of w p)).
              2 * Max (party_levels w p l) \<le> 3 * player_level (party_players w x)
              \<and> areInRange3 30 30 1 (player_position (party_players w l)) (player_position (party_players w x))
              \<and> (notGainInFight (party_players w x) \<or> isPlayerActive now w p x)))"
    proof (cases "leader_of w p")
      case (Some l)
      show ?thesis unfolding st by (cases "members_of w p = []") (simp_all add: member [OF Some] Some)
    qed (simp add: st)
    show "sharedExpActive (parties w p) \<longrightarrow>
        sharedExpEnabled (parties (updateSharedExperience now p w) p) = (getSharedExperienceStatus now w p = SHAREDEXP_OK)"
      by (simp add: updateSharedExperience_def)
    show "getMinLevel w p \<le> getLowestLevel w p \<longleftrightarrow> getHighestLevel w p \<le> getMaxLevel w p"
      unfolding getMinLevel_def getMaxLevel_def by (rule level_limits)
  qed
qed

theorem shared_experience_rule_witness:
  "getSharedExperienceStatus 5 demo_joined 0 = SHAREDEXP_MEMBERINACTIVE
   \<and> getSharedExperienceStatus 9 (updatePlayerTicks 9 2 1 0 (updatePlayerTicks 8 1 1 0 demo_joined)) 0 = SHAREDEXP_OK
   \<and> getMinLevel demo_joined 0 = 6 \<and> getMaxLevel demo_joined 0 = 12"
proof -
  let ?w = "updatePlayerTicks 9 2 1 0 (updatePlayerTicks 8 1 1 0 demo_joined)"
  have "\<exists>l. leader_of ?w 0 = Some l \<and> members_of ?w 0 \<noteq> []
       \<and> (\<forall>x \<in> insert l (set (members_of ?w 0)).
            2 * Max (party_levels ?w 0 l) \<le> 3 * player_level (party_players ?w x)
            \<and> areInRange3 30 30 1 (player_position (party_players ?w l)) (player_position (party_players ?w x))
            \<and> (notGainInFight (party_players ?w x) \<or> isPlayerActive 9 ?w 0 x))"
    by (simp add: demo_party_defs updatePlayerTicks_def isPlayerActive_def areInRange3_def getDistanceX_def
        getDistanceY_def getDistanceZ_def getOffsetX_def getOffsetY_def getOffsetZ_def)
  then have "getSharedExperienceStatus 9 ?w 0 = SHAREDEXP_OK"
    using shared_experience_rule [of 9 ?w 0] by blast
  then show ?thesis
    by (simp add: getSharedExperienceStatus_def getMemberSharedExperienceStatus_def demo_party_defs isPlayerActive_def
        getMinLevel_def getMaxLevel_def getHighestLevel_def getLowestLevel_def areInRange3_def getDistanceX_def
        getDistanceY_def getDistanceZ_def getOffsetX_def getOffsetY_def getOffsetZ_def)
qed

text \<open>
  The assumption on the disband event is needed: when a script refuses it, the last leader leaves a
  party that still names it.
\<close>

lemma vetoed_disband_breaks_links:
  "case playerLeaveParty (\<lambda>e. case e of OnDisband _ \<Rightarrow> False | _ \<Rightarrow> True) 5 1 demo_joined of w \<Rightarrow>
     leader_of w 0 = Some 1 \<and> party_of w 1 = None \<and> party_of w 2 = Some 0"
  by (simp add: playerLeaveParty_def leaveParty_def disband_def clearPlayerPoints_def demo_party_defs)

end
