(* ===== verification/Party_Analyzer.thy ===== *)
theory Party_Analyzer
  imports Money
begin

text \<open>
  The party hunt analyzer (the second half of \<^verbatim>\<open>creatures/players/grouping/party.cpp\<close>) and the item
  prices it uses (\<^verbatim>\<open>Game::getItemMarketPrice\<close>, \<^verbatim>\<open>Player::getItemCustomPrice\<close>): per player the damage and
  healing, the loot and the supplies with their worth, kept up to date item by item in 64-bit
  counters and recomputed when the source of the prices is switched.
\<close>

section \<open>Prices\<close>

record price_source =
  itemsPriceMap :: "nat \<rightharpoonup> (nat \<times> u64) list"
  type_buyPrice :: "nat \<Rightarrow> u32"
  type_sellPrice :: "nat \<Rightarrow> u32"

type_synonym item_map = "(nat \<times> u64) list"

definition entry_price :: "price_source \<Rightarrow> bool \<Rightarrow> nat \<times> u64 \<Rightarrow> u64 \<Rightarrow> u64" where
  "entry_price src buyPrice it tot =
     (if fst it = ITEM_GOLD_COIN then tot + snd it
      else if fst it = ITEM_PLATINUM_COIN then tot + 100 * snd it
      else if fst it = ITEM_CRYSTAL_COIN then tot + 10000 * snd it
      else case itemsPriceMap src (fst it) of
        Some tiers \<Rightarrow> fold (\<lambda>(tier, price) t. t + price * snd it) tiers tot
      | None \<Rightarrow> tot + ucast (if buyPrice then type_buyPrice src (fst it) else type_sellPrice src (fst it)) * snd it)"

definition getItemMarketPrice :: "price_source \<Rightarrow> item_map \<Rightarrow> bool \<Rightarrow> u64" where
  "getItemMarketPrice src itemMap buyPrice = fold (entry_price src buyPrice) itemMap 0"

definition getItemCustomPrice :: "price_source \<Rightarrow> (nat \<rightharpoonup> u64) \<Rightarrow> nat \<Rightarrow> bool \<Rightarrow> u64" where
  "getItemCustomPrice src itemPriceMap itemId buyPrice = (case itemPriceMap itemId of
      Some p \<Rightarrow> p
    | None \<Rightarrow> getItemMarketPrice src [(itemId, 1)] buyPrice)"

section \<open>The analyzer\<close>

record party_analyzer =
  an_id :: nat
  damage :: u64
  healing :: u64
  lootPrice :: u64
  supplyPrice :: u64
  lootMap :: item_map
  supplyMap :: item_map

datatype price_type = MARKET_PRICE | LEADER_PRICE

record analyzer =
  priceType :: price_type
  membersData :: "party_analyzer list"

definition new_analyzer :: "nat \<Rightarrow> party_analyzer" where
  "new_analyzer pid = \<lparr>an_id = pid, damage = 0, healing = 0, lootPrice = 0, supplyPrice = 0, lootMap = [], supplyMap = []\<rparr>"

definition getPlayerPartyAnalyzerStruct :: "nat \<Rightarrow> analyzer \<Rightarrow> party_analyzer option" where
  "getPlayerPartyAnalyzerStruct pid a = find (\<lambda>e. an_id e = pid) (membersData a)"

text \<open>The entry of a player, created at the end of the list on first use, is changed in place.\<close>

fun update_entry :: "nat \<Rightarrow> (party_analyzer \<Rightarrow> party_analyzer) \<Rightarrow> party_analyzer list \<Rightarrow> party_analyzer list" where
  "update_entry pid f [] = [f (new_analyzer pid)]"
| "update_entry pid f (e # es) = (if an_id e = pid then f e # es else e # update_entry pid f es)"

definition with_entry :: "nat \<Rightarrow> (party_analyzer \<Rightarrow> party_analyzer) \<Rightarrow> analyzer \<Rightarrow> analyzer" where
  "with_entry pid f a = a\<lparr>membersData := update_entry pid f (membersData a)\<rparr>"

fun add_to_map :: "nat \<Rightarrow> u64 \<Rightarrow> item_map \<Rightarrow> item_map" where
  "add_to_map i c [] = [(i, c)]"
| "add_to_map i c ((j, d) # m) = (if j = i then (j, d + c) # m else (j, d) # add_to_map i c m)"

text \<open>The leader is given by its own price list; without a leader most operations do nothing.\<close>

definition addPlayerLoot ::
  "price_source \<Rightarrow> (nat \<rightharpoonup> u64) option \<Rightarrow> nat \<Rightarrow> nat \<Rightarrow> u32 \<Rightarrow> analyzer \<Rightarrow> analyzer" where
  "addPlayerLoot src leader pid itemId itemCount a = (case leader of
      None \<Rightarrow> a
    | Some lp \<Rightarrow>
        (let cnt = ucast (max 1 itemCount) :: u64
         in with_entry pid (\<lambda>e. e\<lparr>lootMap := add_to_map itemId cnt (lootMap e),
              lootPrice := lootPrice e + (if priceType a = LEADER_PRICE then getItemCustomPrice src lp itemId False * cnt
                else getItemMarketPrice src [(itemId, cnt)] False)\<rparr>) a))"

definition addPlayerSupply ::
  "price_source \<Rightarrow> (nat \<rightharpoonup> u64) option \<Rightarrow> nat \<Rightarrow> nat \<Rightarrow> analyzer \<Rightarrow> analyzer" where
  "addPlayerSupply src leader pid itemId a = (case leader of
      None \<Rightarrow> a
    | Some lp \<Rightarrow>
        with_entry pid (\<lambda>e. e\<lparr>supplyMap := add_to_map itemId 1 (supplyMap e),
          supplyPrice := supplyPrice e + (if priceType a = LEADER_PRICE then getItemCustomPrice src lp itemId True
            else getItemMarketPrice src [(itemId, 1)] True)\<rparr>) a)"

definition addPlayerDamage :: "nat \<Rightarrow> u64 \<Rightarrow> analyzer \<Rightarrow> analyzer" where
  "addPlayerDamage pid amount a = with_entry pid (\<lambda>e. e\<lparr>damage := damage e + amount\<rparr>) a"

definition addPlayerHealing :: "nat \<Rightarrow> u64 \<Rightarrow> analyzer \<Rightarrow> analyzer" where
  "addPlayerHealing pid amount a = with_entry pid (\<lambda>e. e\<lparr>healing := healing e + amount\<rparr>) a"

definition leader_total :: "price_source \<Rightarrow> (nat \<rightharpoonup> u64) \<Rightarrow> bool \<Rightarrow> item_map \<Rightarrow> u64" where
  "leader_total src lp buy m = fold (\<lambda>it t. t + getItemCustomPrice src lp (fst it) buy * snd it) m 0"

definition reload_entry :: "price_source \<Rightarrow> (nat \<rightharpoonup> u64) \<Rightarrow> price_type \<Rightarrow> party_analyzer \<Rightarrow> party_analyzer" where
  "reload_entry src lp pt e =
     (if pt = MARKET_PRICE
      then e\<lparr>lootPrice := getItemMarketPrice src (lootMap e) False, supplyPrice := getItemMarketPrice src (supplyMap e) True\<rparr>
      else e\<lparr>lootPrice := leader_total src lp False (lootMap e), supplyPrice := leader_total src lp True (supplyMap e)\<rparr>)"

definition reloadPrices :: "price_source \<Rightarrow> (nat \<rightharpoonup> u64) option \<Rightarrow> analyzer \<Rightarrow> analyzer" where
  "reloadPrices src leader a = (case leader of
      None \<Rightarrow> a
    | Some lp \<Rightarrow> a\<lparr>membersData := map (reload_entry src lp (priceType a)) (membersData a)\<rparr>)"

definition switchAnalyzerPriceType :: "price_source \<Rightarrow> (nat \<rightharpoonup> u64) option \<Rightarrow> analyzer \<Rightarrow> analyzer" where
  "switchAnalyzerPriceType src leader a = (case leader of
      None \<Rightarrow> a
    | Some _ \<Rightarrow> reloadPrices src leader
        (a\<lparr>priceType := (if priceType a = LEADER_PRICE then MARKET_PRICE else LEADER_PRICE)\<rparr>))"

definition resetAnalyzer :: "analyzer \<Rightarrow> analyzer" where
  "resetAnalyzer a = a\<lparr>membersData := []\<rparr>"

section \<open>The journal\<close>

text \<open>
  The specification keeps the list of everything that happened since the last reset and adds it up
  with one price per item.
\<close>

datatype hunt_op = Loot nat nat u32 | Supply nat nat | Damage nat u64 | Healing nat u64 | Switch | Reset

fun hunt_step :: "price_source \<Rightarrow> (nat \<rightharpoonup> u64) \<Rightarrow> hunt_op \<Rightarrow> analyzer \<Rightarrow> analyzer" where
  "hunt_step src lp (Loot pid i n) a = addPlayerLoot src (Some lp) pid i n a"
| "hunt_step src lp (Supply pid i) a = addPlayerSupply src (Some lp) pid i a"
| "hunt_step src lp (Damage pid n) a = addPlayerDamage pid n a"
| "hunt_step src lp (Healing pid n) a = addPlayerHealing pid n a"
| "hunt_step src lp Switch a = switchAnalyzerPriceType src (Some lp) a"
| "hunt_step src lp Reset a = resetAnalyzer a"

fun journal_step :: "hunt_op \<Rightarrow> price_type \<times> hunt_op list \<Rightarrow> price_type \<times> hunt_op list" where
  "journal_step Switch (pt, j) = (if pt = LEADER_PRICE then MARKET_PRICE else LEADER_PRICE, j)"
| "journal_step Reset (pt, j) = (pt, [])"
| "journal_step op (pt, j) = (pt, j @ [op])"

definition unit_price :: "price_source \<Rightarrow> (nat \<rightharpoonup> u64) \<Rightarrow> price_type \<Rightarrow> bool \<Rightarrow> nat \<Rightarrow> u64" where
  "unit_price src lp pt buy i =
     (if pt = LEADER_PRICE then getItemCustomPrice src lp i buy else getItemMarketPrice src [(i, 1)] buy)"

fun loot_worth :: "(nat \<Rightarrow> u64) \<Rightarrow> nat \<Rightarrow> hunt_op \<Rightarrow> u64" where
  "loot_worth f pid (Loot q i n) = (if q = pid then f i * ucast (max 1 n) else 0)"
| "loot_worth f pid _ = 0"

fun supply_worth :: "(nat \<Rightarrow> u64) \<Rightarrow> nat \<Rightarrow> hunt_op \<Rightarrow> u64" where
  "supply_worth f pid (Supply q i) = (if q = pid then f i else 0)"
| "supply_worth f pid _ = 0"

fun damage_of :: "nat \<Rightarrow> hunt_op \<Rightarrow> u64" where
  "damage_of pid (Damage q n) = (if q = pid then n else 0)"
| "damage_of pid _ = 0"

fun healing_of :: "nat \<Rightarrow> hunt_op \<Rightarrow> u64" where
  "healing_of pid (Healing q n) = (if q = pid then n else 0)"
| "healing_of pid _ = 0"

fun hunter :: "hunt_op \<Rightarrow> nat option" where
  "hunter (Loot pid _ _) = Some pid"
| "hunter (Supply pid _) = Some pid"
| "hunter (Damage pid _) = Some pid"
| "hunter (Healing pid _) = Some pid"
| "hunter _ = None"

definition map_total :: "(nat \<Rightarrow> u64) \<Rightarrow> item_map \<Rightarrow> u64" where
  "map_total f m = sum_list (map (\<lambda>(i, c). f i * c) m)"

lemma map_total_add: "map_total f (add_to_map i c m) = map_total f m + f i * c"
  by (induction i c m rule: add_to_map.induct) (auto simp: map_total_def algebra_simps)

lemma fold_add: "fold (\<lambda>x t. t + g x) xs (t0 :: 'a::comm_monoid_add) = t0 + sum_list (map g xs)"
  by (induction xs arbitrary: t0) (simp_all add: add.assoc)

lemma entry_price_linear:
  "entry_price src buy (i, c) t = t + getItemMarketPrice src [(i, 1)] buy * c"
proof -
  have tiers: "fold (\<lambda>(tier, price) t. t + price * c) ts t = t + sum_list (map snd ts) * c" for ts :: "(nat \<times> u64) list" and c t
    by (induction ts arbitrary: t) (auto simp: algebra_simps)
  from tiers [of 1] have "fold (\<lambda>(tier, price) t. t + price) ts t = t + sum_list (map snd ts)" for ts :: "(nat \<times> u64) list" and t
    by simp
  then show ?thesis
    by (simp add: getItemMarketPrice_def entry_price_def tiers split: option.splits)
qed

lemma getItemMarketPrice_total: "getItemMarketPrice src m buy = map_total (\<lambda>i. getItemMarketPrice src [(i, 1)] buy) m"
proof -
  have "entry_price src buy = (\<lambda>it t. t + (case it of (i, c) \<Rightarrow> getItemMarketPrice src [(i, 1)] buy * c))"
    by (auto simp: fun_eq_iff entry_price_linear)
  then show ?thesis by (simp add: getItemMarketPrice_def [of src m] map_total_def fold_add)
qed

lemma leader_total_total: "leader_total src lp buy m = map_total (\<lambda>i. getItemCustomPrice src lp i buy) m"
  by (simp add: leader_total_def map_total_def fold_add case_prod_unfold)

definition entry_ok :: "price_source \<Rightarrow> (nat \<rightharpoonup> u64) \<Rightarrow> price_type \<Rightarrow> hunt_op list \<Rightarrow> party_analyzer \<Rightarrow> bool" where
  "entry_ok src lp pt j e \<longleftrightarrow>
     damage e = sum_list (map (damage_of (an_id e)) j) \<and> healing e = sum_list (map (healing_of (an_id e)) j)
     \<and> (\<forall>f. map_total f (lootMap e) = sum_list (map (loot_worth f (an_id e)) j))
     \<and> (\<forall>f. map_total f (supplyMap e) = sum_list (map (supply_worth f (an_id e)) j))
     \<and> lootPrice e = sum_list (map (loot_worth (unit_price src lp pt False) (an_id e)) j)
     \<and> supplyPrice e = sum_list (map (supply_worth (unit_price src lp pt True) (an_id e)) j)"

definition an_inv :: "price_source \<Rightarrow> (nat \<rightharpoonup> u64) \<Rightarrow> price_type \<times> hunt_op list \<Rightarrow> analyzer \<Rightarrow> bool" where
  "an_inv src lp pj a \<longleftrightarrow> priceType a = fst pj \<and> distinct (map an_id (membersData a))
     \<and> (\<forall>e \<in> set (membersData a). entry_ok src lp (fst pj) (snd pj) e)
     \<and> (\<forall>pid. pid \<in> an_id ` set (membersData a) \<longleftrightarrow> Some pid \<in> hunter ` set (snd pj))"

definition current_entry :: "nat \<Rightarrow> party_analyzer list \<Rightarrow> party_analyzer" where
  "current_entry pid es = (case find (\<lambda>e. an_id e = pid) es of Some e \<Rightarrow> e | None \<Rightarrow> new_analyzer pid)"

lemma set_update_entry:
  "distinct (map an_id es) \<Longrightarrow>
     set (update_entry pid f es) = insert (f (current_entry pid es)) {e \<in> set es. an_id e \<noteq> pid}"
proof (induction es)
  case Nil
  then show ?case by (simp add: current_entry_def)
next
  case (Cons e es)
  show ?case
  proof (cases "an_id e = pid")
    case True
    have "an_id x \<noteq> pid" if "x \<in> set es" for x using Cons.prems True that by (metis distinct.simps(2) image_eqI list.set_map list.simps(9))
    then show ?thesis using True by (auto simp: current_entry_def)
  next
    case False
    then show ?thesis using Cons by (auto simp: current_entry_def)
  qed
qed

lemma ids_update_entry:
  assumes "\<And>e. an_id (f e) = an_id e"
  shows "map an_id (update_entry pid f es) =
    (if pid \<in> an_id ` set es then map an_id es else map an_id es @ [pid])"
  using assms by (induction es) (auto simp: new_analyzer_def)

lemma no_entry_sums:
  assumes "Some pid \<notin> hunter ` set j"
  shows "sum_list (map (damage_of pid) j) = 0" "sum_list (map (healing_of pid) j) = 0"
    "sum_list (map (loot_worth f pid) j) = 0" "sum_list (map (supply_worth f pid) j) = 0"
proof -
  have "damage_of pid op = 0 \<and> healing_of pid op = 0 \<and> loot_worth f pid op = 0 \<and> supply_worth f pid op = 0"
    if "op \<in> set j" for op
  proof -
    have "hunter op \<noteq> Some pid" using that assms by (metis imageI)
    then show ?thesis by (cases op) auto
  qed
  then show "sum_list (map (damage_of pid) j) = 0" "sum_list (map (healing_of pid) j) = 0"
    "sum_list (map (loot_worth f pid) j) = 0" "sum_list (map (supply_worth f pid) j) = 0"
    by (simp_all cong: map_cong)
qed

lemma find_entry:
  "find (\<lambda>e. an_id e = pid) es = Some e \<Longrightarrow> e \<in> set es \<and> an_id e = pid"
  "find (\<lambda>e. an_id e = pid) es = None \<longleftrightarrow> pid \<notin> an_id ` set es"
  by (auto simp: find_Some_iff find_None_iff)

lemma current_entry_ok:
  assumes "an_inv src lp (pt, j) a"
  shows "entry_ok src lp pt j (current_entry pid (membersData a))" "an_id (current_entry pid (membersData a)) = pid"
proof -
  show "an_id (current_entry pid (membersData a)) = pid"
    by (auto simp: current_entry_def new_analyzer_def dest: find_entry(1) split: option.splits)
  show "entry_ok src lp pt j (current_entry pid (membersData a))"
  proof (cases "find (\<lambda>e. an_id e = pid) (membersData a)")
    case None
    then have "pid \<notin> an_id ` set (membersData a)" by (simp add: find_entry(2))
    then have "Some pid \<notin> hunter ` set j" using assms by (simp add: an_inv_def)
    then show ?thesis using None
      by (simp add: current_entry_def entry_ok_def new_analyzer_def no_entry_sums map_total_def)
  next
    case (Some e)
    then show ?thesis using assms find_entry(1) [OF Some] by (simp add: current_entry_def an_inv_def)
  qed
qed

text \<open>An operation on behalf of one player keeps the books if it changes that entry the right way.\<close>

lemma with_entry_inv:
  assumes inv: "an_inv src lp (pt, j) a" and id: "\<And>e. an_id (f e) = an_id e" and op: "hunter op = Some pid"
    and ok: "\<And>e. an_id e = pid \<Longrightarrow> entry_ok src lp pt j e \<Longrightarrow> entry_ok src lp pt (j @ [op]) (f e)"
  shows "an_inv src lp (pt, j @ [op]) (with_entry pid f a)"
proof -
  let ?es = "membersData a"
  have d: "distinct (map an_id ?es)" using inv by (simp add: an_inv_def)
  have "entry_ok src lp pt (j @ [op]) e" if "e \<in> set ?es" "an_id e \<noteq> pid" for e
  proof -
    have "damage_of (an_id e) op = 0 \<and> healing_of (an_id e) op = 0 \<and> loot_worth g (an_id e) op = 0
        \<and> supply_worth g (an_id e) op = 0" for g
      using that(2) op by (cases op) auto
    moreover have "entry_ok src lp pt j e" using inv that(1) by (simp add: an_inv_def)
    ultimately show ?thesis by (simp add: entry_ok_def)
  qed
  moreover have "entry_ok src lp pt (j @ [op]) (f (current_entry pid ?es))"
    using ok current_entry_ok [OF inv] by blast
  moreover have "distinct (map an_id (update_entry pid f ?es))"
    using d by (simp add: ids_update_entry [of f, OF id])
  moreover have "an_id ` set (update_entry pid f ?es) = insert pid (an_id ` set ?es)"
    using ids_update_entry [of f pid ?es, OF id] by (metis (no_types, lifting) Un_insert_right insert_absorb list.set(1)
        list.set_map list.simps(15) set_append sup_bot_right)
  ultimately show ?thesis
    using inv op by (auto simp: an_inv_def with_entry_def set_update_entry [OF d])
qed

lemma reload_units:
  "getItemMarketPrice src m buy = map_total (unit_price src lp MARKET_PRICE buy) m"
  "leader_total src lp buy m = map_total (unit_price src lp LEADER_PRICE buy) m"
proof -
  have "unit_price src lp MARKET_PRICE buy = (\<lambda>i. getItemMarketPrice src [(i, 1)] buy)"
    "unit_price src lp LEADER_PRICE buy = (\<lambda>i. getItemCustomPrice src lp i buy)"
    by (simp_all add: fun_eq_iff unit_price_def)
  then show "getItemMarketPrice src m buy = map_total (unit_price src lp MARKET_PRICE buy) m"
    "leader_total src lp buy m = map_total (unit_price src lp LEADER_PRICE buy) m"
    by (simp_all only: getItemMarketPrice_total [of src m] leader_total_total)
qed

lemma reload_entry_ok: "entry_ok src lp pt j e \<Longrightarrow> entry_ok src lp pt' j (reload_entry src lp pt' e)"
  by (cases pt') (simp_all add: entry_ok_def reload_entry_def reload_units [where lp = lp])

lemma reload_entry_id [simp]: "an_id (reload_entry src lp pt e) = an_id e"
  by (simp add: reload_entry_def)

lemma hunt_step_inv:
  assumes inv: "an_inv src lp pj a"
  shows "an_inv src lp (journal_step op pj) (hunt_step src lp op a)"
proof -
  obtain pt j where pj: "pj = (pt, j)" by (cases pj)
  have pt: "priceType a = pt" using inv by (simp add: an_inv_def pj)
  have market: "getItemMarketPrice src [(i, c)] buy = unit_price src lp MARKET_PRICE buy i * c" for i c buy
    by (simp add: reload_units(1) [where lp = lp] map_total_def)
  show ?thesis
  proof (cases op)
    case (Loot pid i n)
    then show ?thesis using inv pt
      by (cases pt) (auto simp: pj addPlayerLoot_def Let_def intro!: with_entry_inv
          simp: entry_ok_def map_total_add market, simp_all add: unit_price_def)
  next
    case (Supply pid i)
    then show ?thesis using inv pt
      by (cases pt) (auto simp: pj addPlayerSupply_def intro!: with_entry_inv
          simp: entry_ok_def map_total_add market, simp_all add: unit_price_def)
  next
    case (Damage pid n)
    then show ?thesis using inv by (auto simp: pj addPlayerDamage_def entry_ok_def intro!: with_entry_inv)
  next
    case (Healing pid n)
    then show ?thesis using inv by (auto simp: pj addPlayerHealing_def entry_ok_def intro!: with_entry_inv)
  next
    case Switch
    then show ?thesis using inv
      by (auto simp: pj switchAnalyzerPriceType_def reloadPrices_def an_inv_def comp_def image_image intro: reload_entry_ok)
  next
    case Reset
    then show ?thesis using inv by (simp add: pj resetAnalyzer_def an_inv_def)
  qed
qed

text \<open>
  C37. The hunt analyzer is exact. After any sequence of loot, supplies, damage, healing, switches of the
  price source and resets, with the prices unchanged meanwhile, every player who did something since
  the last reset has an entry and nobody else has, and its damage, healing, loot value and supply
  value are the sums, in 64 bits, over what the player did since then, at the prices now selected:
  the values kept item by item never differ from a recomputation.
\<close>
theorem analyzer_is_exact:
  "case (fold journal_step ops (MARKET_PRICE, []),
         fold (hunt_step src lp) ops \<lparr>priceType = MARKET_PRICE, membersData = []\<rparr>) of
     ((pt, j), a) \<Rightarrow> priceType a = pt \<and>
       (case getPlayerPartyAnalyzerStruct pid a of
          None \<Rightarrow> Some pid \<notin> hunter ` set j
        | Some e \<Rightarrow> Some pid \<in> hunter ` set j
            \<and> damage e = sum_list (map (damage_of pid) j) \<and> healing e = sum_list (map (healing_of pid) j)
            \<and> lootPrice e = sum_list (map (loot_worth (unit_price src lp pt False) pid) j)
            \<and> supplyPrice e = sum_list (map (supply_worth (unit_price src lp pt True) pid) j))"
proof -
  have "an_inv src lp (fold journal_step ops (MARKET_PRICE, [])) (fold (hunt_step src lp) ops \<lparr>priceType = MARKET_PRICE, membersData = []\<rparr>)"
    by (induction ops rule: rev_induct) (simp_all add: hunt_step_inv, simp add: an_inv_def)
  moreover obtain pt j where pj: "fold journal_step ops (MARKET_PRICE, []) = (pt, j)" by fastforce
  moreover define a where a: "a = fold (hunt_step src lp) ops \<lparr>priceType = MARKET_PRICE, membersData = []\<rparr>"
  ultimately have inv: "an_inv src lp (pt, j) a" by simp
  have "case getPlayerPartyAnalyzerStruct pid a of
          None \<Rightarrow> Some pid \<notin> hunter ` set j
        | Some e \<Rightarrow> Some pid \<in> hunter ` set j
            \<and> damage e = sum_list (map (damage_of pid) j) \<and> healing e = sum_list (map (healing_of pid) j)
            \<and> lootPrice e = sum_list (map (loot_worth (unit_price src lp pt False) pid) j)
            \<and> supplyPrice e = sum_list (map (supply_worth (unit_price src lp pt True) pid) j)"
  proof (cases "getPlayerPartyAnalyzerStruct pid a")
    case None
    then have "pid \<notin> an_id ` set (membersData a)" by (simp add: getPlayerPartyAnalyzerStruct_def find_entry(2))
    then show ?thesis using inv None by (simp add: an_inv_def)
  next
    case (Some e)
    then have e: "e \<in> set (membersData a)" "an_id e = pid"
      using find_entry(1) by (auto simp: getPlayerPartyAnalyzerStruct_def)
    then have "pid \<in> an_id ` set (membersData a)" by (metis imageI)
    then have "Some pid \<in> hunter ` set j" using inv by (simp add: an_inv_def)
    with e show ?thesis using inv Some by (auto simp: an_inv_def entry_ok_def)
  qed
  then show ?thesis using inv by (simp add: pj flip: a) (simp add: an_inv_def)
qed

end
