(* ===== verification/Path_Finding.thy ===== *)
theory Path_Finding
  imports Position
begin

text \<open>
  Path finding: the node pool of \<^verbatim>\<open>map/utils/astarnodes.cpp\<close>, the search of \<^verbatim>\<open>Map::getPathMatching\<close> with
  \<^verbatim>\<open>Map::canWalkTo\<close> (\<^verbatim>\<open>map/map.cpp\<close>) and the condition \<^verbatim>\<open>FrozenPathingConditionCall\<close>
  (\<^verbatim>\<open>creatures/creature.cpp\<close>). What the search asks of the map, its tiles and the walking creature
  is a record of answers. The search loop is a partial function, proved to return; the directions
  it returns lead from the start over accepted tiles to a position that satisfies the condition.
\<close>

section \<open>What the search asks the map\<close>

record field_info =
  field_immune :: bool
  field_condition :: bool
  field_monster_blocked :: bool
  field_blocking :: bool
  field_damage :: int

record path_env =
  has_creature :: bool
  creature_is_player :: bool
  creature_removed :: bool
  walkCache :: "position \<Rightarrow> int"
  tile_exists :: "position \<Rightarrow> bool"
  on_own_tile :: "position \<Rightarrow> bool"
  query_add_ok :: "position \<Rightarrow> bool"
  block_solid :: "position \<Rightarrow> bool"
  top_creature :: "position \<Rightarrow> bool"
  tile_field :: "position \<Rightarrow> field_info option"
  sight_clear :: "position \<Rightarrow> position \<Rightarrow> bool"

record find_path_params =
  fullPathSearch :: bool
  clearSight :: bool
  allowDiagonal :: bool
  keepDistance :: bool
  maxSearchDist :: int
  minTargetDist :: int
  maxTargetDist :: int

text \<open>True stands for a tile, false for the null pointer.\<close>

definition canWalkTo :: "path_env \<Rightarrow> position \<Rightarrow> bool" where
  "canWalkTo E p =
     (if \<not> has_creature E \<or> creature_removed E then False
      else if walkCache E p = 0 then False
      else if walkCache E p = 1 then tile_exists E p
      else if \<not> on_own_tile E p \<and> (\<not> tile_exists E p \<or> \<not> query_add_ok E p) then False
      else tile_exists E p)"

section \<open>The node pool\<close>

text \<open>
  The arrays \<^verbatim>\<open>nodes\<close> and \<^verbatim>\<open>openNodes\<close> up to \<^verbatim>\<open>curNode\<close> are one list, with the open flag in the node; node
  pointers are indices.
\<close>

record astar_node =
  nd_parent :: "nat option"
  nd_f :: nat
  nd_x :: u16
  nd_y :: u16
  nd_open :: bool

record astar =
  astar_nodes :: "astar_node list"
  nodeTable :: "u32 \<rightharpoonup> nat"
  closedNodes :: int

definition MAX_NODES :: nat where "MAX_NODES = 512"
definition MAP_NORMALWALKCOST :: nat where "MAP_NORMALWALKCOST = 10"
definition MAP_PREFERDIAGONALWALKCOST :: nat where "MAP_PREFERDIAGONALWALKCOST = 14"
definition MAP_DIAGONALWALKCOST :: nat where "MAP_DIAGONALWALKCOST = 25"

lemmas walk_costs = MAP_NORMALWALKCOST_def MAP_PREFERDIAGONALWALKCOST_def MAP_DIAGONALWALKCOST_def

definition table_key :: "u16 \<Rightarrow> u16 \<Rightarrow> u32" where
  "table_key x y = push_bit 16 (ucast x) OR ucast y"

definition new_astar :: "u16 \<Rightarrow> u16 \<Rightarrow> astar" where
  "new_astar x y =
     \<lparr>astar_nodes = [\<lparr>nd_parent = None, nd_f = 0, nd_x = x, nd_y = y, nd_open = True\<rparr>],
      nodeTable = [table_key x y \<mapsto> 0], closedNodes = 0\<rparr>"

definition createOpenNode :: "nat \<Rightarrow> u16 \<Rightarrow> u16 \<Rightarrow> nat \<Rightarrow> astar \<Rightarrow> astar option" where
  "createOpenNode parent x y f st =
     (if length (astar_nodes st) \<ge> MAX_NODES then None
      else Some (st\<lparr>astar_nodes := astar_nodes st @ [\<lparr>nd_parent = Some parent, nd_f = f, nd_x = x, nd_y = y, nd_open = True\<rparr>],
                   nodeTable := (nodeTable st)(table_key x y \<mapsto> length (astar_nodes st))\<rparr>))"

fun best_from :: "nat \<Rightarrow> nat \<Rightarrow> nat option \<Rightarrow> astar_node list \<Rightarrow> nat option" where
  "best_from i best_node_f best_node [] = best_node"
| "best_from i best_node_f best_node (n # ns) =
     (if nd_open n \<and> nd_f n < best_node_f then best_from (Suc i) (nd_f n) (Some i) ns
      else best_from (Suc i) best_node_f best_node ns)"

definition getBestNode :: "astar \<Rightarrow> nat option" where
  "getBestNode st = best_from 0 2147483647 None (astar_nodes st)"

definition closeNode :: "nat \<Rightarrow> astar \<Rightarrow> astar" where
  "closeNode i st =
     (if i \<ge> MAX_NODES then st
      else st\<lparr>astar_nodes := (astar_nodes st)[i := (astar_nodes st ! i)\<lparr>nd_open := False\<rparr>], closedNodes := closedNodes st + 1\<rparr>)"

definition openNode :: "nat \<Rightarrow> astar \<Rightarrow> astar" where
  "openNode i st =
     (if i \<ge> MAX_NODES then st
      else if nd_open (astar_nodes st ! i) then st
      else st\<lparr>astar_nodes := (astar_nodes st)[i := (astar_nodes st ! i)\<lparr>nd_open := True\<rparr>], closedNodes := closedNodes st - 1\<rparr>)"

definition getNodeByPosition :: "u16 \<Rightarrow> u16 \<Rightarrow> astar \<Rightarrow> nat option" where
  "getNodeByPosition x y st = nodeTable st (table_key x y)"

definition getMapWalkCost :: "astar_node \<Rightarrow> position \<Rightarrow> bool \<Rightarrow> nat" where
  "getMapWalkCost n p preferDiagonal =
     (if \<bar>uint (nd_x n) - uint (pos_x p)\<bar> = \<bar>uint (nd_y n) - uint (pos_y p)\<bar>
      then if preferDiagonal then MAP_PREFERDIAGONALWALKCOST else MAP_DIAGONALWALKCOST
      else MAP_NORMALWALKCOST)"

definition getTileWalkCost :: "path_env \<Rightarrow> position \<Rightarrow> nat" where
  "getTileWalkCost E p =
     (if \<not> has_creature E then 0
      else (if top_creature E p then MAP_NORMALWALKCOST * 3 else 0) +
        (case tile_field E p of
           None \<Rightarrow> 0
         | Some fi \<Rightarrow>
             (if \<not> field_immune fi \<and> \<not> field_condition fi \<and> field_monster_blocked fi then MAP_NORMALWALKCOST * 18 else 0)
             + (if creature_is_player E \<and> \<not> field_blocking fi \<and> field_damage fi \<noteq> 0 then MAP_NORMALWALKCOST * 18 else 0)))"

section \<open>The condition\<close>

definition isInRange :: "position \<Rightarrow> position \<Rightarrow> position \<Rightarrow> find_path_params \<Rightarrow> bool" where
  "isInRange targetPos startPos testPos fpp =
     (if fullPathSearch fpp then
        \<not> (uint (pos_x testPos) > uint (pos_x targetPos) + maxTargetDist fpp
          \<or> uint (pos_x testPos) < uint (pos_x targetPos) - maxTargetDist fpp
          \<or> uint (pos_y testPos) > uint (pos_y targetPos) + maxTargetDist fpp
          \<or> uint (pos_y testPos) < uint (pos_y targetPos) - maxTargetDist fpp)
      else
        (let dx = getOffsetX startPos targetPos; dy = getOffsetY startPos targetPos
         in \<not> (uint (pos_x testPos) > uint (pos_x targetPos) + (if dx \<ge> 0 then maxTargetDist fpp else 0)
             \<or> uint (pos_x testPos) < uint (pos_x targetPos) - (if dx \<le> 0 then maxTargetDist fpp else 0)
             \<or> uint (pos_y testPos) > uint (pos_y targetPos) + (if dy \<ge> 0 then maxTargetDist fpp else 0)
             \<or> uint (pos_y testPos) < uint (pos_y targetPos) - (if dy \<le> 0 then maxTargetDist fpp else 0))))"

definition pathCondition ::
  "path_env \<Rightarrow> position \<Rightarrow> find_path_params \<Rightarrow> position \<Rightarrow> position \<Rightarrow> int \<Rightarrow> bool \<times> int" where
  "pathCondition E targetPos fpp startPos testPos bestMatchDist =
     (if \<not> isInRange targetPos startPos testPos fpp then (False, bestMatchDist)
      else if clearSight fpp \<and> \<not> sight_clear E testPos targetPos then (False, bestMatchDist)
      else
        (let testDist = max (getDistanceX targetPos testPos) (getDistanceY targetPos testPos)
         in if maxTargetDist fpp = 1 then
              if testDist < minTargetDist fpp \<or> testDist > maxTargetDist fpp then (False, bestMatchDist)
              else (True, bestMatchDist)
            else if testDist \<le> maxTargetDist fpp then
              if testDist < minTargetDist fpp then (False, bestMatchDist)
              else if testDist = maxTargetDist fpp then (True, 0)
              else if testDist > bestMatchDist then (True, testDist)
              else (False, bestMatchDist)
            else (False, bestMatchDist)))"

section \<open>The search\<close>

definition allNeighbors :: "(int \<times> int) list" where
  "allNeighbors = [(-1, 0), (0, 1), (1, 0), (0, -1), (-1, -1), (1, -1), (1, 1), (-1, 1)]"

fun dirNeighbors :: "direction \<Rightarrow> (int \<times> int) list" where
  "dirNeighbors DIRECTION_NORTH = [(-1, 0), (0, 1), (1, 0), (1, 1), (-1, 1)]"
| "dirNeighbors DIRECTION_EAST = [(-1, 0), (0, 1), (0, -1), (-1, -1), (-1, 1)]"
| "dirNeighbors DIRECTION_SOUTH = [(-1, 0), (1, 0), (0, -1), (-1, -1), (1, -1)]"
| "dirNeighbors DIRECTION_WEST = [(0, 1), (1, 0), (0, -1), (1, -1), (1, 1)]"
| "dirNeighbors DIRECTION_SOUTHWEST = [(1, 0), (0, -1), (-1, -1), (1, -1), (1, 1)]"
| "dirNeighbors DIRECTION_SOUTHEAST = [(-1, 0), (0, -1), (-1, -1), (1, -1), (-1, 1)]"
| "dirNeighbors DIRECTION_NORTHWEST = [(0, 1), (1, 0), (1, -1), (1, 1), (-1, 1)]"
| "dirNeighbors DIRECTION_NORTHEAST = [(-1, 0), (0, 1), (-1, -1), (1, 1), (-1, 1)]"
| "dirNeighbors DIRECTION_NONE = []"

definition parent_direction :: "bool \<Rightarrow> int \<Rightarrow> int \<Rightarrow> direction" where
  "parent_direction diagonal offset_x offset_y =
     (if offset_y = 0 then if offset_x = -1 then DIRECTION_WEST else DIRECTION_EAST
      else if \<not> diagonal \<or> offset_x = 0 then if offset_y = -1 then DIRECTION_NORTH else DIRECTION_SOUTH
      else if offset_y = -1 then if offset_x = -1 then DIRECTION_NORTHWEST else DIRECTION_NORTHEAST
      else if offset_x = -1 then DIRECTION_SOUTHWEST else DIRECTION_SOUTHEAST)"

definition neighbors :: "find_path_params \<Rightarrow> astar \<Rightarrow> nat \<Rightarrow> (int \<times> int) list" where
  "neighbors fpp st n = (case nd_parent (astar_nodes st ! n) of
      None \<Rightarrow> allNeighbors
    | Some p \<Rightarrow>
        take (if allowDiagonal fpp then 5 else 3)
          (dirNeighbors (parent_direction (allowDiagonal fpp)
             (uint (nd_x (astar_nodes st ! p)) - uint (nd_x (astar_nodes st ! n)))
             (uint (nd_y (astar_nodes st ! p)) - uint (nd_y (astar_nodes st ! n))))))"

text \<open>
  One round of the inner loop: \<open>None\<close> when the pool is exhausted, else the state after the neighbour was
  skipped, improved or added.
\<close>

definition relink :: "nat \<Rightarrow> nat \<Rightarrow> nat \<Rightarrow> astar \<Rightarrow> astar" where
  "relink i n newf st =
     openNode i (st\<lparr>astar_nodes := (astar_nodes st)[i := (astar_nodes st ! i)\<lparr>nd_f := newf, nd_parent := Some n\<rparr>]\<rparr>)"

definition visit ::
  "path_env \<Rightarrow> find_path_params \<Rightarrow> position \<Rightarrow> position \<Rightarrow> nat \<Rightarrow> nat \<Rightarrow> int \<times> int \<Rightarrow> astar \<Rightarrow> astar option" where
  "visit E fpp targetPos startPos n f off st =
     (let nd = astar_nodes st ! n;
          p = Position (nd_x nd + of_int (fst off)) (nd_y nd + of_int (snd off)) (pos_z startPos)
      in if maxSearchDist fpp \<noteq> 0
            \<and> (getDistanceX startPos p > maxSearchDist fpp \<or> getDistanceY startPos p > maxSearchDist fpp) then Some st
         else if keepDistance fpp \<and> \<not> isInRange targetPos startPos p fpp then Some st
         else
           (let neighborNode = getNodeByPosition (pos_x p) (pos_y p) st;
                withoutCreature = (\<not> has_creature E);
                tile = (if neighborNode \<noteq> None \<or> withoutCreature then tile_exists E p else canWalkTo E p)
            in if \<not> tile \<or> (neighborNode = None \<and> withoutCreature \<and> block_solid E p) then Some st
               else
                 (let newf = f + getMapWalkCost nd p withoutCreature + getTileWalkCost E p
                  in case neighborNode of
                       Some i \<Rightarrow> if nd_f (astar_nodes st ! i) \<le> newf then Some st else Some (relink i n newf st)
                     | None \<Rightarrow> createOpenNode n (pos_x p) (pos_y p) newf st)))"

fun expand ::
  "path_env \<Rightarrow> find_path_params \<Rightarrow> position \<Rightarrow> position \<Rightarrow> nat \<Rightarrow> nat \<Rightarrow> (int \<times> int) list \<Rightarrow> astar \<Rightarrow> bool \<times> astar" where
  "expand E fpp targetPos startPos n f [] st = (True, st)"
| "expand E fpp targetPos startPos n f (off # offs) st =
     (case visit E fpp targetPos startPos n f off st of
        None \<Rightarrow> (False, st)
      | Some st' \<Rightarrow> expand E fpp targetPos startPos n f offs st')"

text \<open>
  The outer loop. Its state is the pool, the best match so far and the node found; it ends with the
  pool and the node found, if any.
\<close>

type_synonym search_state = "astar \<times> int \<times> nat option"

datatype round = Finished "astar \<times> nat option" | Again search_state

definition search_round :: "path_env \<Rightarrow> find_path_params \<Rightarrow> position \<Rightarrow> position \<Rightarrow> search_state \<Rightarrow> round" where
  "search_round E fpp targetPos startPos = (\<lambda>(st, bestMatch, found).
     if \<not> (maxSearchDist fpp \<noteq> 0 \<or> closedNodes st < 100) then Finished (st, found)
     else case getBestNode st of
       None \<Rightarrow> Finished (st, found)
     | Some n \<Rightarrow>
         (let nd = astar_nodes st ! n;
              (matches, bestMatch') = pathCondition E targetPos fpp startPos (Position (nd_x nd) (nd_y nd) (pos_z startPos)) bestMatch;
              found' = (if matches then Some n else found)
          in if matches \<and> bestMatch' = 0 then Finished (st, found')
             else (case expand E fpp targetPos startPos n (nd_f nd) (neighbors fpp st n) st of
                 (complete, st') \<Rightarrow>
                   if \<not> complete \<and> found' = None then Finished (st', None)
                   else Again (closeNode n st', bestMatch', found'))))"

partial_function (option) search_loop ::
  "path_env \<Rightarrow> find_path_params \<Rightarrow> position \<Rightarrow> position \<Rightarrow> search_state \<Rightarrow> (astar \<times> nat option) option" where
  "search_loop E fpp targetPos startPos s =
     (case search_round E fpp targetPos startPos s of
        Finished r \<Rightarrow> Some r
      | Again s' \<Rightarrow> search_loop E fpp targetPos startPos s')"

definition step_direction :: "int \<Rightarrow> int \<Rightarrow> direction list" where
  "step_direction dx dy =
     (if dx = 1 \<and> dy = 1 then [DIRECTION_NORTHWEST]
      else if dx = -1 \<and> dy = 1 then [DIRECTION_NORTHEAST]
      else if dx = 1 \<and> dy = -1 then [DIRECTION_SOUTHWEST]
      else if dx = -1 \<and> dy = -1 then [DIRECTION_SOUTHEAST]
      else if dx = 1 then [DIRECTION_WEST]
      else if dx = -1 then [DIRECTION_EAST]
      else if dy = 1 then [DIRECTION_NORTH]
      else if dy = -1 then [DIRECTION_SOUTH]
      else [])"

partial_function (option) trace_back ::
  "astar \<Rightarrow> nat option \<Rightarrow> u16 \<Rightarrow> u16 \<Rightarrow> direction list \<Rightarrow> direction list option" where
  "trace_back st found prevx prevy dirList =
     (case found of
        None \<Rightarrow> Some dirList
      | Some i \<Rightarrow>
          (let nd = astar_nodes st ! i
           in trace_back st (nd_parent nd) (nd_x nd) (nd_y nd)
                (step_direction (uint (nd_x nd) - uint prevx) (uint (nd_y nd) - uint prevy) @ dirList)))"

text \<open>The result is the value returned and the direction list; \<open>None\<close> would be a call that does not return.\<close>

definition getPathMatching ::
  "path_env \<Rightarrow> find_path_params \<Rightarrow> position \<Rightarrow> position \<Rightarrow> direction list option option" where
  "getPathMatching E fpp targetPos startPos =
     (case search_loop E fpp targetPos startPos (new_astar (pos_x startPos) (pos_y startPos), 0, None) of
        None \<Rightarrow> None
      | Some (st, None) \<Rightarrow> Some None
      | Some (st, Some i) \<Rightarrow>
          (let nd = astar_nodes st ! i
           in map_option Some (trace_back st (nd_parent nd) (nd_x nd) (nd_y nd) [])))"

section \<open>The search ends\<close>

text \<open>
  Every round adds a node to the bounded pool, or lowers the cost of a node, or else only closes
  one.
\<close>

definition f_sum :: "astar \<Rightarrow> nat" where
  "f_sum st = sum_list (map nd_f (astar_nodes st))"

definition open_count :: "astar \<Rightarrow> nat" where
  "open_count st = length (filter nd_open (astar_nodes st))"

definition pool_measure :: "astar \<Rightarrow> nat \<times> nat \<times> nat" where
  "pool_measure st = (MAX_NODES - length (astar_nodes st), f_sum st, open_count st)"

definition progress :: "astar \<Rightarrow> astar \<Rightarrow> bool" where
  "progress st st' \<longleftrightarrow>
     (length (astar_nodes st) < length (astar_nodes st') \<and> length (astar_nodes st') \<le> MAX_NODES)
     \<or> (length (astar_nodes st') = length (astar_nodes st) \<and> f_sum st' < f_sum st)
     \<or> astar_nodes st' = astar_nodes st"

lemma progress_refl: "progress st st"
  by (simp add: progress_def)

lemma progress_trans: "progress a b \<Longrightarrow> progress b c \<Longrightarrow> progress a c"
  by (auto simp: progress_def f_sum_def)

lemma f_sum_set_open: "map nd_f (ns[i := (ns ! i)\<lparr>nd_open := b\<rparr>]) = map nd_f ns"
proof (cases "i < length ns")
  case True
  then show ?thesis by (intro nth_equalityI) (auto simp: nth_list_update)
qed (simp add: list_update_beyond)

lemma length_filter_update_less:
  "i < length xs \<Longrightarrow> P (xs ! i) \<Longrightarrow> \<not> P x \<Longrightarrow> length (filter P (xs[i := x])) < length (filter P xs)"
proof (induction xs arbitrary: i)
  case (Cons y ys)
  then show ?case by (cases i) auto
qed simp

lemma progress_relink:
  assumes "\<not> nd_f (astar_nodes st ! i) \<le> newf"
  shows "progress st (relink i n newf st)"
proof (cases "i < length (astar_nodes st)")
  case True
  let ?ns = "(astar_nodes st)[i := (astar_nodes st ! i)\<lparr>nd_f := newf, nd_parent := Some n\<rparr>]"
  have "nd_f (astar_nodes st ! i) \<le> sum_list (map nd_f (astar_nodes st))"
    using True by (intro member_le_sum_list) simp_all
  then have "sum_list (map nd_f ?ns) < sum_list (map nd_f (astar_nodes st))"
    using True assms by (simp add: map_update sum_list_update)
  then show ?thesis
    using f_sum_set_open [of ?ns i True] by (simp add: progress_def relink_def openNode_def f_sum_def)
next
  case False
  then show ?thesis by (simp add: progress_def relink_def openNode_def list_update_beyond)
qed

lemma visit_progress: "visit E fpp t s n f off st = Some st' \<Longrightarrow> progress st st'"
  by (auto simp: visit_def Let_def createOpenNode_def progress_refl intro: progress_relink
      split: if_splits option.splits) (auto simp: progress_def)

lemma expand_progress: "progress st (snd (expand E fpp t s n f offs st))"
proof (induction offs arbitrary: st)
  case (Cons off offs)
  show ?case
  proof (cases "visit E fpp t s n f off st")
    case (Some st')
    then show ?thesis using progress_trans [OF visit_progress [OF Some] Cons.IH] by simp
  qed (simp add: progress_refl)
qed (simp add: progress_refl)

lemma best_from_open:
  "best_from i bf b ns = Some j \<Longrightarrow> b = Some j \<or> (i \<le> j \<and> j < i + length ns \<and> nd_open (ns ! (j - i)))"
proof (induction ns arbitrary: i bf b)
  case (Cons n ns)
  show ?case
  proof (cases "nd_open n \<and> nd_f n < bf")
    case True
    then show ?thesis using Cons.IH [of "Suc i" "nd_f n" "Some i"] Cons.prems by (auto simp: nth_Cons' split: if_splits)
  next
    case False
    then show ?thesis using Cons.IH [of "Suc i" bf b] Cons.prems by (auto simp: nth_Cons' split: if_splits)
  qed
qed simp

lemma getBestNode_open:
  "getBestNode st = Some n \<Longrightarrow> n < length (astar_nodes st) \<and> nd_open (astar_nodes st ! n)"
  using best_from_open [of 0 _ None] by (fastforce simp: getBestNode_def)

lemma closeNode_measure:
  assumes "progress st st'" "n < length (astar_nodes st)" "nd_open (astar_nodes st ! n)" "length (astar_nodes st) \<le> MAX_NODES"
  shows "(pool_measure (closeNode n st'), pool_measure st) \<in> less_than <*lex*> less_than <*lex*> less_than"
proof -
  have n: "n < MAX_NODES" using assms(2,4) by simp
  have f: "f_sum (closeNode n st') = f_sum st'" by (simp add: closeNode_def f_sum_def f_sum_set_open)
  have len: "length (astar_nodes (closeNode n st')) = length (astar_nodes st')" by (simp add: closeNode_def)
  have "open_count (closeNode n st') < open_count st" if "astar_nodes st' = astar_nodes st"
    using that n assms(2,3) length_filter_update_less [of n "astar_nodes st" nd_open]
    by (simp add: open_count_def closeNode_def)
  then show ?thesis
    using assms(1,2) f len unfolding progress_def pool_measure_def by (auto simp: f_sum_def)
qed

section \<open>The node tree\<close>

text \<open>
  A position that the search may step on, and the shape of the pool: node 0 is the start, every
  other node was accepted, lies next to its parent and costs more than it.
\<close>

definition accepted :: "path_env \<Rightarrow> position \<Rightarrow> bool" where
  "accepted E p = (if has_creature E then canWalkTo E p else tile_exists E p \<and> \<not> block_solid E p)"

definition node_pos :: "position \<Rightarrow> astar_node \<Rightarrow> position" where
  "node_pos s nd = Position (nd_x nd) (nd_y nd) (pos_z s)"

definition shifted :: "astar_node \<Rightarrow> astar_node \<Rightarrow> bool" where
  "shifted a b \<longleftrightarrow> (\<exists>(dx, dy) \<in> set allNeighbors. nd_x b = nd_x a + of_int dx \<and> nd_y b = nd_y a + of_int dy)"

definition child_ok :: "path_env \<Rightarrow> position \<Rightarrow> astar_node list \<Rightarrow> astar_node \<Rightarrow> bool" where
  "child_ok E s ns nd \<longleftrightarrow> (\<exists>p. nd_parent nd = Some p \<and> p < length ns \<and> nd_f (ns ! p) < nd_f nd \<and> shifted (ns ! p) nd
     \<and> accepted E (node_pos s nd))"

definition astar_inv :: "path_env \<Rightarrow> position \<Rightarrow> astar \<Rightarrow> bool" where
  "astar_inv E s st \<longleftrightarrow> astar_nodes st \<noteq> [] \<and> length (astar_nodes st) \<le> MAX_NODES
     \<and> nd_parent (astar_nodes st ! 0) = None \<and> nd_f (astar_nodes st ! 0) = 0 \<and> node_pos s (astar_nodes st ! 0) = s
     \<and> (\<forall>i. 0 < i \<and> i < length (astar_nodes st) \<longrightarrow> child_ok E s (astar_nodes st) (astar_nodes st ! i))
     \<and> (\<forall>k i. nodeTable st k = Some i \<longrightarrow>
          i < length (astar_nodes st) \<and> table_key (nd_x (astar_nodes st ! i)) (nd_y (astar_nodes st ! i)) = k)"

lemma table_key_inject: "table_key x y = table_key x' y' \<longleftrightarrow> x = x' \<and> y = y'"
proof
  assume eq: "table_key x y = table_key x' y'"
  have b: "bit (table_key a b) i \<longleftrightarrow> (if i < 16 then bit b i else bit a (i - 16) \<and> i < 32)" for a b i
    by (auto simp: table_key_def bit_or_iff bit_push_bit_iff bit_ucast_iff dest: bit_imp_le_length)
  have "y = y'"
  proof (rule bit_word_eqI)
    fix i assume "i < LENGTH(16)"
    then show "bit y i \<longleftrightarrow> bit y' i" using eq b [of x y i] b [of x' y' i] by simp
  qed
  moreover have "x = x'"
  proof (rule bit_word_eqI)
    fix i assume "i < LENGTH(16)"
    then show "bit x i \<longleftrightarrow> bit x' i" using eq b [of x y "i + 16"] b [of x' y' "i + 16"] by simp
  qed
  ultimately show "x = x' \<and> y = y'" by simp
qed simp

lemma new_astar_inv: "astar_inv E s (new_astar (pos_x s) (pos_y s))"
  by (cases s) (auto simp: astar_inv_def new_astar_def node_pos_def MAX_NODES_def)

text \<open>Only the cost, parent and position of nodes matter; costs may fall as long as children cost more.\<close>

lemma child_ok_mono:
  assumes "child_ok E s ns nd" "length ns \<le> length ns'"
    and "\<And>p. p < length ns \<Longrightarrow> nd_f (ns' ! p) \<le> nd_f (ns ! p) \<and> nd_x (ns' ! p) = nd_x (ns ! p) \<and> nd_y (ns' ! p) = nd_y (ns ! p)"
  shows "child_ok E s ns' nd"
  using assms by (fastforce simp: child_ok_def shifted_def)

lemma set_open_inv:
  assumes "astar_inv E s st" "st' = st\<lparr>astar_nodes := (astar_nodes st)[i := (astar_nodes st ! i)\<lparr>nd_open := b\<rparr>], closedNodes := c\<rparr>"
  shows "astar_inv E s st'"
proof -
  have same: "nd_f (astar_nodes st' ! j) = nd_f (astar_nodes st ! j) \<and> nd_x (astar_nodes st' ! j) = nd_x (astar_nodes st ! j)
      \<and> nd_y (astar_nodes st' ! j) = nd_y (astar_nodes st ! j) \<and> nd_parent (astar_nodes st' ! j) = nd_parent (astar_nodes st ! j)"
    for j
    using assms(2) by (cases "i < length (astar_nodes st)"; cases "j = i") (simp_all add: list_update_beyond)
  have len: "length (astar_nodes st') = length (astar_nodes st)" using assms(2) by simp
  have "child_ok E s (astar_nodes st') (astar_nodes st' ! j)" if "0 < j" "j < length (astar_nodes st)" for j
  proof -
    have "child_ok E s (astar_nodes st) (astar_nodes st ! j)" using assms(1) that by (simp add: astar_inv_def)
    then show ?thesis using same len by (auto simp: child_ok_def shifted_def node_pos_def)
  qed
  moreover have "astar_nodes st' \<noteq> []" using len assms(1) by (auto simp: astar_inv_def)
  ultimately show ?thesis
    using assms same len by (auto simp: astar_inv_def node_pos_def)
qed

lemma closeNode_inv: "astar_inv E s st \<Longrightarrow> astar_inv E s (closeNode i st)"
  by (auto simp: closeNode_def intro: set_open_inv)

lemma openNode_inv: "astar_inv E s st \<Longrightarrow> astar_inv E s (openNode i st)"
  by (auto simp: openNode_def intro: set_open_inv)

lemma createOpenNode_inv:
  assumes inv: "astar_inv E s st" and "createOpenNode n x y newf st = Some st'"
    and n: "n < length (astar_nodes st)" "nd_f (astar_nodes st ! n) < newf"
    and off: "(dx, dy) \<in> set allNeighbors" "x = nd_x (astar_nodes st ! n) + of_int dx" "y = nd_y (astar_nodes st ! n) + of_int dy"
    and acc: "accepted E (Position x y (pos_z s))"
  shows "astar_inv E s st'"
proof -
  let ?nd = "\<lparr>nd_parent = Some n, nd_f = newf, nd_x = x, nd_y = y, nd_open = True\<rparr>"
  have st': "astar_nodes st' = astar_nodes st @ [?nd]" "length (astar_nodes st) < MAX_NODES"
      "nodeTable st' = (nodeTable st)(table_key x y \<mapsto> length (astar_nodes st))"
    using assms(2) by (auto simp: createOpenNode_def split: if_splits)
  have "child_ok E s (astar_nodes st') (astar_nodes st' ! i)" if "0 < i" "i < length (astar_nodes st')" for i
  proof (cases "i < length (astar_nodes st)")
    case True
    then have "child_ok E s (astar_nodes st) (astar_nodes st ! i)" using inv that by (simp add: astar_inv_def)
    then have "child_ok E s (astar_nodes st') (astar_nodes st ! i)"
      by (rule child_ok_mono) (simp_all add: st' nth_append)
    then show ?thesis using True by (simp add: st' nth_append)
  next
    case False
    then have "astar_nodes st' ! i = ?nd" using that(2) by (simp add: st' nth_append)
    then show ?thesis
      using n off acc by (auto simp: child_ok_def shifted_def node_pos_def st' nth_append)
  qed
  then show ?thesis
    using inv st' by (auto simp: astar_inv_def nth_append less_Suc_eq)
qed

lemma relink_inv:
  assumes inv: "astar_inv E s st" and i: "nodeTable st (table_key x y) = Some i" "newf < nd_f (astar_nodes st ! i)"
    and n: "n < length (astar_nodes st)" "nd_f (astar_nodes st ! n) < newf"
    and off: "(dx, dy) \<in> set allNeighbors" "x = nd_x (astar_nodes st ! n) + of_int dx" "y = nd_y (astar_nodes st ! n) + of_int dy"
  shows "astar_inv E s (relink i n newf st)"
proof -
  let ?ns = "astar_nodes st"
  let ?ns' = "?ns[i := (?ns ! i)\<lparr>nd_f := newf, nd_parent := Some n\<rparr>]"
  have il: "i < length ?ns" and "table_key (nd_x (?ns ! i)) (nd_y (?ns ! i)) = table_key x y"
    using inv i(1) by (simp_all add: astar_inv_def)
  then have pos: "nd_x (?ns ! i) = x" "nd_y (?ns ! i) = y" by (simp_all add: table_key_inject)
  have i0: "i \<noteq> 0" using inv i(2) by (intro notI) (simp add: astar_inv_def)
  have ni: "n \<noteq> i" using n(2) i(2) by auto
  have same: "nd_f (?ns' ! j) \<le> nd_f (?ns ! j) \<and> nd_x (?ns' ! j) = nd_x (?ns ! j) \<and> nd_y (?ns' ! j) = nd_y (?ns ! j)" for j
    using i(2) il by (cases "j = i") simp_all
  have old: "child_ok E s ?ns (?ns ! j)" if "0 < j" "j < length ?ns" for j using inv that by (simp add: astar_inv_def)
  have "child_ok E s ?ns' (?ns' ! j)" if "0 < j" "j < length ?ns" for j
  proof (cases "j = i")
    case True
    have "accepted E (node_pos s (?ns ! i))" using old [of i] i0 il by (auto simp: child_ok_def)
    then show ?thesis using True il n ni off pos by (auto simp: child_ok_def shifted_def node_pos_def)
  next
    case False
    then show ?thesis using child_ok_mono [OF old [OF that], of ?ns'] same by simp
  qed
  then have "astar_inv E s (st\<lparr>astar_nodes := ?ns'\<rparr>)"
    using inv same i0 by (auto simp: astar_inv_def node_pos_def)
  then show ?thesis by (simp add: relink_def openNode_inv)
qed

lemma getMapWalkCost_pos: "0 < getMapWalkCost nd p b"
  by (simp add: getMapWalkCost_def walk_costs)

lemma visit_cases:
  assumes "visit E fpp t s n f (dx, dy) st = Some st'"
    and p: "p = Position (nd_x (astar_nodes st ! n) + of_int dx) (nd_y (astar_nodes st ! n) + of_int dy) (pos_z s)"
    and newf: "newf = f + getMapWalkCost (astar_nodes st ! n) p (\<not> has_creature E) + getTileWalkCost E p"
  shows "st' = st
    \<or> (\<exists>i. nodeTable st (table_key (pos_x p) (pos_y p)) = Some i \<and> newf < nd_f (astar_nodes st ! i) \<and> st' = relink i n newf st)
    \<or> (createOpenNode n (pos_x p) (pos_y p) newf st = Some st' \<and> accepted E p)"
  using assms(1) unfolding visit_def fst_conv snd_conv Let_def p [symmetric] newf [symmetric] getNodeByPosition_def
  by (cases "nodeTable st (table_key (pos_x p) (pos_y p))") (simp_all add: accepted_def split: if_splits)

lemma visit_inv:
  assumes inv: "astar_inv E s st" and n: "n < length (astar_nodes st)" "nd_f (astar_nodes st ! n) \<le> f"
    and off: "off \<in> set allNeighbors" and v: "visit E fpp t s n f off st = Some st'"
  shows "astar_inv E s st' \<and> n < length (astar_nodes st') \<and> nd_f (astar_nodes st' ! n) \<le> f"
proof -
  obtain dx dy where o: "off = (dx, dy)" by (cases off)
  let ?nd = "astar_nodes st ! n"
  define x where "x = nd_x ?nd + of_int dx"
  define y where "y = nd_y ?nd + of_int dy"
  let ?p = "Position x y (pos_z s)"
  define newf where "newf = f + getMapWalkCost ?nd ?p (\<not> has_creature E) + getTileWalkCost E ?p"
  have newf: "nd_f ?nd < newf" using n(2) getMapWalkCost_pos [of ?nd ?p "\<not> has_creature E"] by (simp add: newf_def)
  have le: "nd_f (astar_nodes (relink i n newf st) ! n) \<le> f" if "newf < nd_f (astar_nodes st ! i)" for i
  proof -
    have "i \<noteq> n" using that newf by auto
    then show ?thesis using n by (simp add: relink_def openNode_def)
  qed
  consider (skip) "st' = st"
    | (relink) i where "nodeTable st (table_key x y) = Some i" "newf < nd_f (astar_nodes st ! i)" "st' = relink i n newf st"
    | (create) "createOpenNode n x y newf st = Some st'" "accepted E ?p"
    using visit_cases [OF v [unfolded o] refl refl] by (auto simp: x_def y_def newf_def)
  then show ?thesis
  proof cases
    case skip
    then show ?thesis using inv n by simp
  next
    case relink
    have "length (astar_nodes st') = length (astar_nodes st)" using relink(3) by (simp add: relink_def openNode_def)
    then show ?thesis
      using relink_inv [OF inv relink(1,2) n(1) newf _ x_def y_def] off o relink le n(1) by simp
  next
    case create
    then show ?thesis
      using createOpenNode_inv [OF inv create(1) n(1) newf _ x_def y_def create(2)] off o n
      by (auto simp: createOpenNode_def nth_append split: if_splits)
  qed
qed

lemma expand_inv:
  assumes "astar_inv E s st" "n < length (astar_nodes st)" "nd_f (astar_nodes st ! n) \<le> f" "set offs \<subseteq> set allNeighbors"
  shows "astar_inv E s (snd (expand E fpp t s n f offs st))"
  using assms
proof (induction offs arbitrary: st)
  case (Cons off offs)
  show ?case
  proof (cases "visit E fpp t s n f off st")
    case None
    then show ?thesis using Cons.prems by simp
  next
    case (Some st')
    then show ?thesis using visit_inv [OF Cons.prems(1-3) _ Some] Cons.prems(4) Cons.IH [of st'] by simp
  qed
qed simp

lemma set_neighbors: "set (neighbors fpp st n) \<subseteq> set allNeighbors"
proof -
  have "set (dirNeighbors d) \<subseteq> set allNeighbors" for d by (cases d) (simp_all add: allNeighbors_def)
  then show ?thesis by (auto simp: neighbors_def split: option.split dest: in_set_takeD)
qed

text \<open>What the loop keeps besides the pool: the node found satisfied the condition.\<close>

definition meets :: "path_env \<Rightarrow> find_path_params \<Rightarrow> position \<Rightarrow> position \<Rightarrow> position \<Rightarrow> bool" where
  "meets E fpp t s p \<longleftrightarrow> (\<exists>b. fst (pathCondition E t fpp s p b))"

definition found_ok :: "path_env \<Rightarrow> find_path_params \<Rightarrow> position \<Rightarrow> position \<Rightarrow> astar \<Rightarrow> nat option \<Rightarrow> bool" where
  "found_ok E fpp t s st found \<longleftrightarrow> (\<forall>i. found = Some i \<longrightarrow>
     i < length (astar_nodes st) \<and> meets E fpp t s (node_pos s (astar_nodes st ! i)))"

text \<open>Nodes keep their place.\<close>

definition keeps_pos :: "astar \<Rightarrow> astar \<Rightarrow> bool" where
  "keeps_pos st st' \<longleftrightarrow> (\<forall>i < length (astar_nodes st). i < length (astar_nodes st')
     \<and> nd_x (astar_nodes st' ! i) = nd_x (astar_nodes st ! i) \<and> nd_y (astar_nodes st' ! i) = nd_y (astar_nodes st ! i))"

lemma keeps_pos_trans: "keeps_pos a b \<Longrightarrow> keeps_pos b c \<Longrightarrow> keeps_pos a c"
  by (simp add: keeps_pos_def)

lemma keeps_pos_update:
  assumes "astar_nodes st' = (astar_nodes st)[i := nd]" "nd_x nd = nd_x (astar_nodes st ! i)" "nd_y nd = nd_y (astar_nodes st ! i)"
  shows "keeps_pos st st'"
proof -
  have "nd_x ((astar_nodes st)[i := nd] ! j) = nd_x (astar_nodes st ! j)
      \<and> nd_y ((astar_nodes st)[i := nd] ! j) = nd_y (astar_nodes st ! j)" if "j < length (astar_nodes st)" for j
    using assms that by (cases "j = i") simp_all
  then show ?thesis using assms by (simp add: keeps_pos_def)
qed

lemma keeps_pos_closeNode: "keeps_pos st (closeNode i st)"
proof (cases "i \<ge> MAX_NODES")
  case False
  then show ?thesis
    by (intro keeps_pos_update [of _ _ i "(astar_nodes st ! i)\<lparr>nd_open := False\<rparr>"]) (simp_all add: closeNode_def)
qed (simp add: closeNode_def keeps_pos_def)

lemma keeps_pos_openNode: "keeps_pos st (openNode i st)"
proof (cases "i \<ge> MAX_NODES \<or> nd_open (astar_nodes st ! i)")
  case False
  then show ?thesis
    by (intro keeps_pos_update [of _ _ i "(astar_nodes st ! i)\<lparr>nd_open := True\<rparr>"]) (simp_all add: openNode_def)
qed (auto simp: openNode_def keeps_pos_def)

lemma keeps_pos_relink: "keeps_pos st (relink i n newf st)"
  unfolding relink_def
  by (rule keeps_pos_trans [OF keeps_pos_update [of _ _ i "(astar_nodes st ! i)\<lparr>nd_f := newf, nd_parent := Some n\<rparr>"]
        keeps_pos_openNode]) simp_all

lemma keeps_pos_visit: "visit E fpp t s n f off st = Some st' \<Longrightarrow> keeps_pos st st'"
proof -
  assume v: "visit E fpp t s n f off st = Some st'"
  obtain dx dy where "off = (dx, dy)" by (cases off)
  from visit_cases [OF v [unfolded this] refl refl] show ?thesis
    using keeps_pos_relink by (auto simp: createOpenNode_def keeps_pos_def nth_append split: if_splits)
qed

lemma keeps_pos_expand: "keeps_pos st (snd (expand E fpp t s n f offs st))"
proof (induction offs arbitrary: st)
  case (Cons off offs)
  show ?case
  proof (cases "visit E fpp t s n f off st")
    case (Some st')
    then show ?thesis using keeps_pos_trans [OF keeps_pos_visit [OF Some] Cons.IH] by simp
  qed (simp add: keeps_pos_def)
qed (simp add: keeps_pos_def)

lemma found_ok_keeps: "found_ok E fpp t s st found \<Longrightarrow> keeps_pos st st' \<Longrightarrow> found_ok E fpp t s st' found"
  by (auto simp: found_ok_def keeps_pos_def node_pos_def)

lemma search_round_spec:
  assumes inv: "astar_inv E s st" and found: "found_ok E fpp t s st found"
  shows "case search_round E fpp t s (st, bm, found) of
      Finished (st', found') \<Rightarrow> astar_inv E s st' \<and> found_ok E fpp t s st' found'
    | Again (st', bm', found') \<Rightarrow> astar_inv E s st' \<and> found_ok E fpp t s st' found'
        \<and> (pool_measure st', pool_measure st) \<in> less_than <*lex*> less_than <*lex*> less_than"
proof (cases "(maxSearchDist fpp \<noteq> 0 \<or> closedNodes st < 100) \<and> getBestNode st \<noteq> None")
  case False
  then show ?thesis using inv found by (auto simp: search_round_def)
next
  case True
  then obtain n where n: "getBestNode st = Some n" by auto
  note open_n = getBestNode_open [OF n]
  let ?nd = "astar_nodes st ! n"
  obtain ma bm' where c: "pathCondition E t fpp s (Position (nd_x ?nd) (nd_y ?nd) (pos_z s)) bm = (ma, bm')" by fastforce
  let ?found = "if ma then Some n else found"
  obtain co st' where e: "expand E fpp t s n (nd_f ?nd) (neighbors fpp st n) st = (co, st')" by fastforce
  have "meets E fpp t s (node_pos s ?nd)" if ma using c that unfolding meets_def node_pos_def by (metis fst_conv)
  then have f1: "found_ok E fpp t s st ?found" using found open_n by (auto simp: found_ok_def)
  have inv': "astar_inv E s st'" using expand_inv [OF inv _ _ set_neighbors, of n "nd_f ?nd" fpp t fpp st n] open_n e by simp
  have k: "keeps_pos st st'" using keeps_pos_expand [of st E fpp t s n "nd_f ?nd" "neighbors fpp st n"] e by simp
  have "(pool_measure (closeNode n st'), pool_measure st) \<in> less_than <*lex*> less_than <*lex*> less_than"
    using closeNode_measure [OF _ conjunct1 [OF open_n] conjunct2 [OF open_n]] e inv
      expand_progress [of st E fpp t s n "nd_f ?nd" "neighbors fpp st n"] by (simp add: astar_inv_def)
  moreover have "found_ok E fpp t s (closeNode n st') ?found"
    using found_ok_keeps [OF f1 keeps_pos_trans [OF k keeps_pos_closeNode]] by simp
  moreover have "found_ok E fpp t s st' None" by (simp add: found_ok_def)
  moreover have "search_round E fpp t s (st, bm, found) =
      (if ma \<and> bm' = 0 then Finished (st, ?found)
       else if \<not> co \<and> ?found = None then Finished (st', None) else Again (closeNode n st', bm', ?found))"
    using True n c e by (auto simp: search_round_def Let_def)
  ultimately show ?thesis
    using inv f1 inv' closeNode_inv [OF inv', of n]
    by (cases "ma \<and> bm' = 0"; cases "\<not> co \<and> ?found = None") (simp_all only: if_True if_False round.case prod.case simp_thms)
qed

lemma search_loop_returns:
  assumes "astar_inv E s st" "found_ok E fpp t s st found"
  shows "\<exists>st' found'. search_loop E fpp t s (st, bm, found) = Some (st', found')
    \<and> astar_inv E s st' \<and> found_ok E fpp t s st' found'"
  using assms
proof (induction "pool_measure st" arbitrary: st bm found rule: wf_induct_rule [OF wf_lex_prod [OF wf_less_than wf_lex_prod [OF wf_less_than wf_less_than]]])
  case 1
  note spec = search_round_spec [OF 1(2,3), of bm]
  show ?case
  proof (cases "search_round E fpp t s (st, bm, found)")
    case (Finished r)
    then show ?thesis using spec by (cases r) (simp add: search_loop.simps)
  next
    case (Again r)
    obtain st' bm' found' where r: "r = (st', bm', found')" by (cases r)
    have "\<exists>st2 found2. search_loop E fpp t s (st', bm', found') = Some (st2, found2) \<and> astar_inv E s st2
        \<and> found_ok E fpp t s st2 found2"
      using spec Again r by (intro 1(1)) auto
    then show ?thesis using Again r by (simp add: search_loop.simps [of E fpp t s "(st, bm, found)"])
  qed
qed

section \<open>The path\<close>

text \<open>
  Away from the edge of the 16-bit coordinate range a step of the node tree is a step of the
  returned direction.
\<close>

definition interior :: "position \<Rightarrow> bool" where
  "interior p \<longleftrightarrow> 0 < uint (pos_x p) \<and> uint (pos_x p) < 65535 \<and> 0 < uint (pos_y p) \<and> uint (pos_y p) < 65535"

definition follow :: "position \<Rightarrow> direction list \<Rightarrow> position" where
  "follow s dirs = foldl (\<lambda>p d. getNextPosition d p) s dirs"

lemma uint_add_of_int:
  assumes "0 \<le> uint x + d" "uint x + d < 65536"
  shows "uint (x + of_int d :: u16) = uint x + d"
  using assms by (simp add: uint_word_ariths take_bit_eq_mod mod_add_right_eq unsigned_of_int)

lemma step_direction_follows:
  assumes "shifted a b" "interior (node_pos s a)"
  shows "\<exists>d. step_direction (uint (nd_x a) - uint (nd_x b)) (uint (nd_y a) - uint (nd_y b)) = [d]
    \<and> getNextPosition d (node_pos s a) = node_pos s b"
proof -
  obtain dx dy where o: "(dx, dy) \<in> set allNeighbors" "nd_x b = nd_x a + of_int dx" "nd_y b = nd_y a + of_int dy"
    using assms(1) by (auto simp: shifted_def)
  then have r: "dx = -1 \<or> dx = 0 \<or> dx = 1" "dy = -1 \<or> dy = 0 \<or> dy = 1" "\<not> (dx = 0 \<and> dy = 0)"
    by (auto simp: allNeighbors_def)
  have "uint (nd_x b) = uint (nd_x a) + dx" "uint (nd_y b) = uint (nd_y a) + dy"
    using uint_add_of_int [of "nd_x a" dx] uint_add_of_int [of "nd_y a" dy] assms(2) r o(2,3)
    by (auto simp: interior_def node_pos_def)
  then have "step_direction (uint (nd_x a) - uint (nd_x b)) (uint (nd_y a) - uint (nd_y b)) = step_direction (- dx) (- dy)"
    by simp
  then show ?thesis using r o(2,3) by (auto simp: step_direction_def node_pos_def)
qed

lemma trace_back_path:
  assumes inv: "astar_inv E s st" and inside: "interior s" "\<And>p. accepted E p \<Longrightarrow> interior p"
    and i: "i < length (astar_nodes st)"
  shows "\<exists>ds. trace_back st (nd_parent (astar_nodes st ! i)) (nd_x (astar_nodes st ! i)) (nd_y (astar_nodes st ! i)) acc = Some (ds @ acc)
    \<and> follow s ds = node_pos s (astar_nodes st ! i)
    \<and> (\<forall>k. 0 < k \<and> k \<le> length ds \<longrightarrow> accepted E (follow s (take k ds)))"
  using i
proof (induction "nd_f (astar_nodes st ! i)" arbitrary: i acc rule: less_induct)
  case less
  let ?ns = "astar_nodes st"
  show ?case
  proof (cases "i = 0")
    case True
    then show ?thesis using inv by (intro exI [of _ "[]"]) (simp add: trace_back.simps astar_inv_def follow_def)
  next
    case False
    then obtain p where p: "nd_parent (?ns ! i) = Some p" "p < length ?ns" "nd_f (?ns ! p) < nd_f (?ns ! i)"
        "shifted (?ns ! p) (?ns ! i)" and acc_i: "accepted E (node_pos s (?ns ! i))"
      using inv less.prems by (auto simp: astar_inv_def child_ok_def)
    have "node_pos s (?ns ! p) = s \<or> accepted E (node_pos s (?ns ! p))"
      using inv p(2) by (cases "p = 0") (auto simp: astar_inv_def child_ok_def)
    then have "interior (node_pos s (?ns ! p))" using inside by auto
    then obtain d where d: "step_direction (uint (nd_x (?ns ! p)) - uint (nd_x (?ns ! i))) (uint (nd_y (?ns ! p)) - uint (nd_y (?ns ! i))) = [d]"
        "getNextPosition d (node_pos s (?ns ! p)) = node_pos s (?ns ! i)"
      using step_direction_follows [OF p(4)] by blast
    obtain ds where ds: "trace_back st (nd_parent (?ns ! p)) (nd_x (?ns ! p)) (nd_y (?ns ! p)) (d # acc) = Some (ds @ d # acc)"
        "follow s ds = node_pos s (?ns ! p)" "\<forall>k. 0 < k \<and> k \<le> length ds \<longrightarrow> accepted E (follow s (take k ds))"
      using less.hyps [OF p(3,2)] by blast
    have "follow s (ds @ [d]) = node_pos s (?ns ! i)" using ds(2) d(2) by (simp add: follow_def)
    moreover have "accepted E (follow s (take k (ds @ [d])))" if "0 < k" "k \<le> length (ds @ [d])" for k
    proof (cases "k = length (ds @ [d])")
      case True
      then show ?thesis using calculation acc_i by simp
    next
      case False
      then show ?thesis using ds(3) that by simp
    qed
    moreover have "trace_back st (nd_parent (?ns ! i)) (nd_x (?ns ! i)) (nd_y (?ns ! i)) acc = Some ((ds @ [d]) @ acc)"
      using ds(1) d(1) by (simp add: trace_back.simps [of st "Some p"] p(1) Let_def)
    ultimately show ?thesis by blast
  qed
qed

lemma trace_back_returns:
  assumes inv: "astar_inv E s st" and i: "i < length (astar_nodes st)"
  shows "\<exists>ds. trace_back st (nd_parent (astar_nodes st ! i)) x y acc = Some ds \<and> length ds \<le> length acc + nd_f (astar_nodes st ! i)"
  using i
proof (induction "nd_f (astar_nodes st ! i)" arbitrary: i x y acc rule: less_induct)
  case less
  show ?case
  proof (cases "i = 0")
    case True
    then show ?thesis using inv by (simp add: trace_back.simps astar_inv_def)
  next
    case False
    then obtain p where p: "nd_parent (astar_nodes st ! i) = Some p" "p < length (astar_nodes st)"
        "nd_f (astar_nodes st ! p) < nd_f (astar_nodes st ! i)"
      using inv less.prems by (auto simp: astar_inv_def child_ok_def)
    have one: "length (step_direction a b) \<le> 1" for a b by (simp add: step_direction_def)
    let ?p = "astar_nodes st ! p"
    obtain ds where ds: "trace_back st (nd_parent ?p) (nd_x ?p) (nd_y ?p)
        (step_direction (uint (nd_x ?p) - uint x) (uint (nd_y ?p) - uint y) @ acc) = Some ds"
        "length ds \<le> length (step_direction (uint (nd_x ?p) - uint x) (uint (nd_y ?p) - uint y) @ acc) + nd_f ?p"
      using less.hyps [OF p(3,2)] by blast
    then show ?thesis
      using p one [of "uint (nd_x ?p) - uint x" "uint (nd_y ?p) - uint y"]
      by (auto simp: trace_back.simps [of st "Some p"] Let_def)
  qed
qed

lemma search_result:
  "\<exists>st found. search_loop E fpp t s (new_astar (pos_x s) (pos_y s), 0, None) = Some (st, found)
     \<and> astar_inv E s st \<and> found_ok E fpp t s st found"
  by (rule search_loop_returns [OF new_astar_inv]) (simp add: found_ok_def)

text \<open>
  C17. The path search always returns, on every map, for every creature, target and set of parameters,
  the ones without a limit of the search distance included.
\<close>
theorem getPathMatching_returns:
  "\<exists>result. getPathMatching E fpp targetPos startPos = Some result"
proof -
  obtain st found where "search_loop E fpp targetPos startPos (new_astar (pos_x startPos) (pos_y startPos), 0, None) = Some (st, found)"
      "astar_inv E startPos st" "found_ok E fpp targetPos startPos st found"
    using search_result by blast
  then show ?thesis
    using trace_back_returns [of E startPos st]
    by (cases found) (fastforce simp: getPathMatching_def found_ok_def Let_def)+
qed

text \<open>
  C18. A path that is returned can be walked: following the directions from the start, every square
  stepped on was accepted for the creature (or exists and is not solid when there is none), and the
  square reached satisfies the path condition, as long as no accepted square lies on the outermost
  rows of the 16-bit coordinate range.
\<close>
theorem path_leads_to_target:
  assumes "getPathMatching E fpp targetPos startPos = Some (Some dirs)"
    and "interior startPos" "\<forall>p. accepted E p \<longrightarrow> interior p"
  shows "(\<forall>k. 0 < k \<and> k \<le> length dirs \<longrightarrow> accepted E (follow startPos (take k dirs)))
    \<and> (\<exists>b. fst (pathCondition E targetPos fpp startPos (follow startPos dirs) b))"
proof -
  obtain st found where s: "search_loop E fpp targetPos startPos (new_astar (pos_x startPos) (pos_y startPos), 0, None) = Some (st, found)"
      and inv: "astar_inv E startPos st" and found: "found_ok E fpp targetPos startPos st found"
    using search_result by blast
  obtain i where i: "found = Some i" using assms(1) s by (cases found) (auto simp: getPathMatching_def)
  then have il: "i < length (astar_nodes st)" "meets E fpp targetPos startPos (node_pos startPos (astar_nodes st ! i))"
    using found by (auto simp: found_ok_def)
  from trace_back_path [OF inv assms(2) _ il(1), of "[]"] assms(3)
  show ?thesis using assms(1) s i il(2) by (auto simp: getPathMatching_def Let_def meets_def)
qed

definition corridor :: path_env where
  "corridor = \<lparr>has_creature = True, creature_is_player = False, creature_removed = False, walkCache = (\<lambda>_. 1),
     tile_exists = (\<lambda>p. p \<in> {Position 100 100 7, Position 101 100 7, Position 102 100 7}),
     on_own_tile = (\<lambda>p. p = Position 100 100 7), query_add_ok = (\<lambda>_. True), block_solid = (\<lambda>_. False),
     top_creature = (\<lambda>_. False), tile_field = (\<lambda>_. None), sight_clear = (\<lambda>_ _. True)\<rparr>"

definition corridor_params :: find_path_params where
  "corridor_params = \<lparr>fullPathSearch = True, clearSight = True, allowDiagonal = True, keepDistance = False,
     maxSearchDist = 0, minTargetDist = 1, maxTargetDist = 1\<rparr>"

lemma corridor_rounds:
  fixes st1 :: astar
  defines "st1 \<equiv> \<lparr>astar_nodes = [\<lparr>nd_parent = None, nd_f = 0, nd_x = 100, nd_y = 100, nd_open = False\<rparr>,
        \<lparr>nd_parent = Some 0, nd_f = 10, nd_x = 101, nd_y = 100, nd_open = True\<rparr>],
      nodeTable = [table_key 100 100 \<mapsto> 0, table_key 101 100 \<mapsto> 1], closedNodes = 1\<rparr>"
  shows "search_round corridor corridor_params (Position 102 100 7) (Position 100 100 7) (new_astar 100 100, 0, None) = Again (st1, 0, None)"
    and "search_round corridor corridor_params (Position 102 100 7) (Position 100 100 7) (st1, 0, None) = Finished (st1, Some 1)"
proof -
  note geo = getDistanceX_def getDistanceY_def getOffsetX_def getOffsetY_def
  show "search_round corridor corridor_params (Position 102 100 7) (Position 100 100 7) (new_astar 100 100, 0, None) = Again (st1, 0, None)"
    by (simp add: search_round_def new_astar_def getBestNode_def pathCondition_def isInRange_def corridor_params_def
        neighbors_def allNeighbors_def visit_def getNodeByPosition_def table_key_inject corridor_def canWalkTo_def
        createOpenNode_def MAX_NODES_def getMapWalkCost_def getTileWalkCost_def walk_costs closeNode_def st1_def geo Let_def)
  show "search_round corridor corridor_params (Position 102 100 7) (Position 100 100 7) (st1, 0, None) = Finished (st1, Some 1)"
    by (simp add: search_round_def getBestNode_def pathCondition_def isInRange_def corridor_params_def corridor_def st1_def
        geo Let_def)
qed

lemma corridor_path:
  "getPathMatching corridor corridor_params (Position 102 100 7) (Position 100 100 7) = Some (Some [DIRECTION_EAST])"
  using corridor_rounds
  by (simp add: getPathMatching_def search_loop.simps [of _ _ _ _ "(_, 0, None)"] trace_back.simps [of _ "Some 0"]
      trace_back.simps [of _ None] step_direction_def Let_def)

theorem path_leads_to_target_witness:
  "accepted corridor (follow (Position 100 100 7) [DIRECTION_EAST])
   \<and> (\<exists>b. fst (pathCondition corridor (Position 102 100 7) corridor_params (Position 100 100 7) (Position 101 100 7) b))"
proof -
  have "\<forall>p. accepted corridor p \<longrightarrow> interior p"
    by (auto simp: accepted_def corridor_def canWalkTo_def interior_def)
  note path_leads_to_target [OF corridor_path _ this]
  moreover have "interior (Position 100 100 7)" by (simp add: interior_def)
  ultimately have "accepted corridor (follow (Position 100 100 7) (take 1 [DIRECTION_EAST]))
      \<and> (\<exists>b. fst (pathCondition corridor (Position 102 100 7) corridor_params (Position 100 100 7)
            (follow (Position 100 100 7) [DIRECTION_EAST]) b))" by fastforce
  then show ?thesis by (simp add: follow_def)
qed

text \<open>The parameter that forbids diagonal steps does not apply to the first step.\<close>

lemma first_step_may_be_diagonal:
  "\<not> allowDiagonal fpp \<Longrightarrow> (1, 1) \<in> set (neighbors fpp (new_astar x y) 0)"
  by (simp add: neighbors_def new_astar_def allNeighbors_def)

end
