(* ===== verification/Item_Attribute.thy ===== *)
theory Item_Attribute
  imports Prop_Stream "HOL-Library.List_Lexorder"
begin

text \<open>
  Item attributes (\<^verbatim>\<open>items/functions/item/attribute.cpp\<close>, \<^verbatim>\<open>custom_attribute.cpp\<close>, \<^verbatim>\<open>enums/item_attribute.hpp\<close>).
  The built-in attributes are an unordered vector of typed entries with at most one entry per type;
  the custom ones a \<open>std::map\<close> from lower-case names to variants, kept here as an association list in
  key order.  Strings are byte lists, a double is its 64-bit image.  Both stores meet the contract of
  the locale \<open>keyed_store\<close>, from which the lookups behind a series of writes follow.
\<close>

section \<open>Attribute types\<close>

datatype item_attribute_t =
    NONE | ACTIONID | UNIQUEID | DESCRIPTION | TEXT | DATE | WRITER | NAME | ARTICLE | PLURALNAME
  | WEIGHT | ATTACK | DEFENSE | EXTRADEFENSE | ARMOR | HITCHANCE | SHOOTRANGE | OWNER | DURATION
  | DECAYSTATE | CORPSEOWNER | CHARGES | FLUIDTYPE | DOORID | SPECIAL | IMBUEMENT_SLOT | OPENCONTAINER
  | QUICKLOOTCONTAINER | DURATION_TIMESTAMP | AMOUNT | TIER | STORE | CUSTOM | LOOTMESSAGE_SUFFIX
  | STORE_INBOX_CATEGORY | OBTAINCONTAINER

definition isAttributeInteger :: "item_attribute_t \<Rightarrow> bool" where
  "isAttributeInteger t \<longleftrightarrow> t \<in> {STORE, ACTIONID, UNIQUEID, DATE, WEIGHT, ATTACK, DEFENSE, EXTRADEFENSE, ARMOR,
     HITCHANCE, SHOOTRANGE, OWNER, DURATION, DECAYSTATE, CORPSEOWNER, CHARGES, FLUIDTYPE, DOORID,
     IMBUEMENT_SLOT, OPENCONTAINER, QUICKLOOTCONTAINER, OBTAINCONTAINER, DURATION_TIMESTAMP, TIER, AMOUNT}"

definition isAttributeString :: "item_attribute_t \<Rightarrow> bool" where
  "isAttributeString t \<longleftrightarrow> t \<in> {DESCRIPTION, TEXT, WRITER, NAME, ARTICLE, PLURALNAME, SPECIAL,
     LOOTMESSAGE_SUFFIX, STORE_INBOX_CATEGORY}"

lemma attribute_kinds_disjoint: "isAttributeInteger t \<Longrightarrow> \<not> isAttributeString t"
  by (auto simp: isAttributeInteger_def isAttributeString_def)

section \<open>The attribute vector\<close>

datatype attr_value = IntV i64 | StrV bytes

type_synonym attributes = "item_attribute_t \<times> attr_value"

text \<open>The variant's first alternative is the integer zero.\<close>

definition getDefaultValueForType :: "item_attribute_t \<Rightarrow> attr_value" where
  "getDefaultValueForType t = (if isAttributeInteger t then IntV 0 else if isAttributeString t then StrV [] else IntV 0)"

fun setValue_int :: "i64 \<Rightarrow> attr_value \<Rightarrow> attr_value" where
  "setValue_int n (IntV _) = IntV n"
| "setValue_int n (StrV s) = StrV s"

fun setValue_string :: "bytes \<Rightarrow> attr_value \<Rightarrow> attr_value" where
  "setValue_string s (StrV _) = StrV s"
| "setValue_string s (IntV n) = IntV n"

fun value_integer :: "attr_value \<Rightarrow> i64" where
  "value_integer (IntV n) = n"
| "value_integer (StrV _) = 0"

fun value_string :: "attr_value \<Rightarrow> bytes" where
  "value_string (StrV s) = s"
| "value_string (IntV _) = []"

definition has_attr :: "item_attribute_t \<Rightarrow> attributes list \<Rightarrow> bool" where
  "has_attr t vec \<longleftrightarrow> t \<in> fst ` set vec"

definition get_attr :: "item_attribute_t \<Rightarrow> attributes list \<Rightarrow> attr_value option" where
  "get_attr t vec = map_of vec t"

text \<open>
  \<open>getAttributesByType\<close> returns a reference to the entry of the type, appended with the default value
  when there is none; the setters write through it.
\<close>

fun modify_attr :: "item_attribute_t \<Rightarrow> (attr_value \<Rightarrow> attr_value) \<Rightarrow> attributes list \<Rightarrow> attributes list" where
  "modify_attr t f [] = [(t, f (getDefaultValueForType t))]"
| "modify_attr t f ((u, v) # vec) = (if u = t then (u, f v) # vec else (u, v) # modify_attr t f vec)"

definition setAttribute_int :: "item_attribute_t \<Rightarrow> i64 \<Rightarrow> attributes list \<Rightarrow> attributes list" where
  "setAttribute_int t n vec = (if \<not> isAttributeInteger t then vec else modify_attr t (setValue_int n) vec)"

definition setAttribute_string :: "item_attribute_t \<Rightarrow> bytes \<Rightarrow> attributes list \<Rightarrow> attributes list" where
  "setAttribute_string t s vec =
     (if \<not> isAttributeString t then vec else if s = [] then vec else modify_attr t (setValue_string s) vec)"

text \<open>The entry found is overwritten by the last one, which is dropped.\<close>

fun find_type :: "item_attribute_t \<Rightarrow> attributes list \<Rightarrow> nat option" where
  "find_type t [] = None"
| "find_type t ((u, v) # vec) = (if u = t then Some 0 else map_option Suc (find_type t vec))"

definition remove_attr :: "item_attribute_t \<Rightarrow> attributes list \<Rightarrow> bool \<times> attributes list" where
  "remove_attr t vec = (case find_type t vec of
      None \<Rightarrow> (False, vec)
    | Some i \<Rightarrow> (True, butlast (vec[i := last vec])))"

definition getAttributeValue :: "item_attribute_t \<Rightarrow> attributes list \<Rightarrow> i64" where
  "getAttributeValue t vec = (if \<not> isAttributeInteger t then 0
     else (case get_attr t vec of None \<Rightarrow> 0 | Some v \<Rightarrow> value_integer v))"

definition getAttributeString :: "item_attribute_t \<Rightarrow> attributes list \<Rightarrow> bytes" where
  "getAttributeString t vec = (if \<not> isAttributeString t then []
     else (case get_attr t vec of None \<Rightarrow> [] | Some v \<Rightarrow> value_string v))"

section \<open>Custom attributes\<close>

datatype custom_value = CInt i64 | CStr bytes | CDouble u64 | CBool bool

record custom_attribute =
  stringKey :: bytes
  custom_val :: custom_value

definition new_custom_attribute :: custom_attribute where
  "new_custom_attribute = \<lparr>stringKey = [], custom_val = CInt 0\<rparr>"

definition lower_byte :: "u8 \<Rightarrow> u8" where
  "lower_byte b = (if 65 \<le> b \<and> b \<le> 90 then b + 32 else b)"

definition lower_bytes :: "bytes \<Rightarrow> bytes" where
  "lower_bytes s = map lower_byte s"

type_synonym custom_map = "(bytes \<times> custom_attribute) list"

fun custom_assign :: "bytes \<Rightarrow> custom_attribute \<Rightarrow> custom_map \<Rightarrow> custom_map" where
  "custom_assign k v [] = [(k, v)]"
| "custom_assign k v ((l, w) # m) =
     (if k = l then (l, v) # m else if k < l then (k, v) # (l, w) # m else (l, w) # custom_assign k v m)"

definition addCustomAttribute :: "bytes \<Rightarrow> custom_attribute \<Rightarrow> custom_map \<Rightarrow> custom_map" where
  "addCustomAttribute k a m = custom_assign (lower_bytes k) a m"

definition setCustomAttribute :: "bytes \<Rightarrow> custom_value \<Rightarrow> custom_map \<Rightarrow> custom_map" where
  "setCustomAttribute k v m = custom_assign (lower_bytes k) \<lparr>stringKey = k, custom_val = v\<rparr> m"

definition getCustomAttribute :: "bytes \<Rightarrow> custom_map \<Rightarrow> custom_attribute option" where
  "getCustomAttribute k m = map_of m (lower_bytes k)"

definition removeCustomAttribute :: "bytes \<Rightarrow> custom_map \<Rightarrow> bool \<times> custom_map" where
  "removeCustomAttribute k m = (if lower_bytes k \<in> fst ` set m
     then (True, filter (\<lambda>(l, _). l \<noteq> lower_bytes k) m) else (False, m))"

definition custom_integer :: "custom_attribute \<Rightarrow> i64" where
  "custom_integer a = (case custom_val a of CInt n \<Rightarrow> n | _ \<Rightarrow> 0)"

definition custom_serialize :: "custom_attribute \<Rightarrow> prop_write_stream \<Rightarrow> prop_write_stream" where
  "custom_serialize a b = (case custom_val a of
      CStr s \<Rightarrow> pw_writeString s (pw_write (1 :: u8) b)
    | CInt n \<Rightarrow> pw_write n (pw_write (2 :: u8) b)
    | CDouble d \<Rightarrow> pw_write d (pw_write (3 :: u8) b)
    | CBool t \<Rightarrow> pw_write (if t then 1 else 0 :: u8) (pw_write (4 :: u8) b))"

text \<open>
  A byte other than 0 and 1 read into a \<open>bool\<close> has no defined meaning in C++; the model takes it as true.
  A failing read leaves the value as it was.
\<close>

definition custom_unserialize :: "custom_attribute \<Rightarrow> prop_stream \<Rightarrow> custom_attribute option \<times> prop_stream" where
  "custom_unserialize a s = (case ps_read s :: u8 option \<times> prop_stream of
      (None, s1) \<Rightarrow> (None, s1)
    | (Some t, s1) \<Rightarrow>
        if t = 1 then tagged (\<lambda>v. a\<lparr>custom_val := CStr v\<rparr>) (ps_readString s1)
        else if t = 2 then tagged (\<lambda>v. a\<lparr>custom_val := CInt v\<rparr>) (ps_read s1)
        else if t = 3 then tagged (\<lambda>v. a\<lparr>custom_val := CDouble v\<rparr>) (ps_read s1)
        else if t = 4 then tagged (\<lambda>v :: u8. a\<lparr>custom_val := CBool (v \<noteq> 0)\<rparr>) (ps_read s1)
        else (None, s1))"

section \<open>The contract of a keyed store\<close>

locale keyed_store =
  fixes look :: "'s \<Rightarrow> 'k \<Rightarrow> 'v option"
    and assign :: "'k \<Rightarrow> 'v \<Rightarrow> 's \<Rightarrow> 's"
    and erase :: "'k \<Rightarrow> 's \<Rightarrow> bool \<times> 's"
    and good :: "'s \<Rightarrow> bool"
    and fits :: "'k \<Rightarrow> 'v \<Rightarrow> bool"
  assumes good_assign: "good s \<Longrightarrow> fits k v \<Longrightarrow> good (assign k v s)"
    and look_assign: "good s \<Longrightarrow> fits k v \<Longrightarrow> look (assign k v s) l = (if l = k then Some v else look s l)"
    and good_erase: "good s \<Longrightarrow> good (snd (erase k s))"
    and look_erase: "good s \<Longrightarrow> fits k v \<Longrightarrow> look (snd (erase k s)) l = (if l = k then None else look s l)"
    and erase_result: "good s \<Longrightarrow> fits k v \<Longrightarrow> fst (erase k s) \<longleftrightarrow> look s k \<noteq> None"
begin

definition write_all :: "('k \<times> 'v) list \<Rightarrow> 's \<Rightarrow> 's" where
  "write_all kvs = fold (\<lambda>(k, v). assign k v) kvs"

lemma good_write_all: "good s \<Longrightarrow> \<forall>(k, v) \<in> set kvs. fits k v \<Longrightarrow> good (write_all kvs s)"
  unfolding write_all_def by (induction kvs arbitrary: s) (auto simp: good_assign)

lemma look_write_all:
  "good s \<Longrightarrow> \<forall>(k, v) \<in> set kvs. fits k v \<Longrightarrow> distinct (map fst kvs) \<Longrightarrow>
   look (write_all kvs s) l = (case map_of kvs l of Some v \<Rightarrow> Some v | None \<Rightarrow> look s l)"
proof (induction kvs arbitrary: s)
  case (Cons kv kvs)
  obtain k v where kv: "kv = (k, v)" by force
  then have step: "good (assign k v s)" "fits k v" using Cons.prems by (auto simp: good_assign)
  have "look (write_all (kv # kvs) s) l = look (write_all kvs (assign k v s)) l"
    by (simp add: write_all_def kv)
  also have "\<dots> = (case map_of kvs l of Some v \<Rightarrow> Some v | None \<Rightarrow> look (assign k v s) l)"
    using Cons.IH [OF step(1)] Cons.prems by auto
  also have "\<dots> = (case map_of (kv # kvs) l of Some v \<Rightarrow> Some v | None \<Rightarrow> look s l)"
    using Cons.prems kv look_assign [OF Cons.prems(1) step(2)]
    by (auto simp: map_of_eq_None_iff split: option.split dest: map_of_SomeD intro: rev_image_eqI)
  finally show ?case .
qed (simp add: write_all_def)

end

section \<open>Both stores meet the contract\<close>

fun typed_attr :: "item_attribute_t \<Rightarrow> attr_value \<Rightarrow> bool" where
  "typed_attr t (IntV _) = isAttributeInteger t"
| "typed_attr t (StrV s) = (isAttributeString t \<and> s \<noteq> [])"

fun assign_attr :: "item_attribute_t \<Rightarrow> attr_value \<Rightarrow> attributes list \<Rightarrow> attributes list" where
  "assign_attr t (IntV n) vec = setAttribute_int t n vec"
| "assign_attr t (StrV s) vec = setAttribute_string t s vec"

definition attrs_ok :: "attributes list \<Rightarrow> bool" where
  "attrs_ok vec \<longleftrightarrow> distinct (map fst vec) \<and> (\<forall>(t, v) \<in> set vec. typed_attr t v)"

lemma keys_modify_attr: "fst ` set (modify_attr t f vec) = insert t (fst ` set vec)"
  by (induction t f vec rule: modify_attr.induct) auto

lemma distinct_modify_attr: "distinct (map fst vec) \<Longrightarrow> distinct (map fst (modify_attr t f vec))"
proof (induction t f vec rule: modify_attr.induct)
  case (2 t f u v vec)
  then show ?case using keys_modify_attr [of t f vec] by auto
qed simp

lemma look_modify_attr:
  "map_of (modify_attr t f vec) l =
     (if l = t then Some (f (case map_of vec t of None \<Rightarrow> getDefaultValueForType t | Some v \<Rightarrow> v)) else map_of vec l)"
  by (induction t f vec rule: modify_attr.induct) auto

lemma set_modify_attr:
  "distinct (map fst vec) \<Longrightarrow> (u, w) \<in> set (modify_attr t f vec) \<Longrightarrow>
     (u, w) \<in> set vec \<or> (u = t \<and> w = f (case map_of vec t of None \<Rightarrow> getDefaultValueForType t | Some v \<Rightarrow> v))"
  by (induction t f vec rule: modify_attr.induct) (auto split: if_splits)

lemma typed_lookup: "attrs_ok vec \<Longrightarrow> map_of vec t = Some v \<Longrightarrow> typed_attr t v"
  by (auto simp: attrs_ok_def dest: map_of_SomeD)

abbreviation current_value :: "item_attribute_t \<Rightarrow> attributes list \<Rightarrow> attr_value" where
  "current_value t vec \<equiv> (case map_of vec t of None \<Rightarrow> getDefaultValueForType t | Some w \<Rightarrow> w)"

lemma current_kind:
  assumes "attrs_ok vec"
  shows "isAttributeInteger t \<Longrightarrow> \<exists>n. current_value t vec = IntV n"
    and "isAttributeString t \<Longrightarrow> \<exists>s. current_value t vec = StrV s"
proof -
  have "typed_attr t w \<Longrightarrow> (isAttributeInteger t \<longrightarrow> (\<exists>n. w = IntV n)) \<and> (isAttributeString t \<longrightarrow> (\<exists>s. w = StrV s))" for w
    using attribute_kinds_disjoint [of t] by (cases w) auto
  then show "isAttributeInteger t \<Longrightarrow> \<exists>n. current_value t vec = IntV n" "isAttributeString t \<Longrightarrow> \<exists>s. current_value t vec = StrV s"
    using typed_lookup [OF assms, of t] attribute_kinds_disjoint [of t]
    by (auto simp: getDefaultValueForType_def split: option.split)
qed

lemma set_on_typed:
  assumes "attrs_ok vec" "typed_attr t v"
  shows "\<exists>f. assign_attr t v vec = modify_attr t f vec \<and> f (current_value t vec) = v"
proof (cases v)
  case (IntV n)
  then obtain m where "current_value t vec = IntV m" using assms current_kind(1) by fastforce
  then show ?thesis using assms IntV by (intro exI [of _ "setValue_int n"]) (simp add: setAttribute_int_def)
next
  case (StrV s)
  then obtain m where "current_value t vec = StrV m" using assms current_kind(2) by fastforce
  then show ?thesis using assms StrV by (intro exI [of _ "setValue_string s"]) (simp add: setAttribute_string_def)
qed

lemma find_type_split:
  "find_type t vec = Some i \<Longrightarrow> \<exists>v. i < length vec \<and> vec ! i = (t, v) \<and> map_of vec t = Some v"
  by (induction t vec arbitrary: i rule: find_type.induct) (auto split: if_splits)

lemma find_type_None: "find_type t vec = None \<longleftrightarrow> map_of vec t = None"
  by (induction t vec rule: find_type.induct) auto

lemma remove_attr_perm:
  assumes "find_type t vec = Some i"
  shows "mset (butlast (vec[i := last vec])) = mset vec - {#vec ! i#}"
proof -
  from assms have i: "i < length vec" using find_type_split by blast
  then obtain ys y where vec: "vec = ys @ [y]" by (cases vec rule: rev_cases) auto
  show ?thesis
  proof (cases "i = length ys")
    case False
    then have "i < length ys" using i vec by simp
    then show ?thesis by (simp add: vec list_update_append mset_update nth_append)
  qed (simp add: vec list_update_append)
qed

text \<open>A store with distinct keys is determined by its multiset of entries.\<close>

lemma map_of_mset:
  assumes "distinct (map fst xs)" "mset ys = mset xs"
  shows "distinct (map fst ys)" "map_of ys = map_of xs"
proof -
  have "mset (map fst ys) = mset (map fst xs)" by (simp add: assms(2))
  then show d: "distinct (map fst ys)" using assms(1) mset_eq_imp_distinct_iff by blast
  have "set ys = set xs" using assms(2) by (rule mset_eq_setD)
  then show "map_of ys = map_of xs" using d assms(1) by (simp add: map_of_inject_set)
qed

lemma remove_attr_spec:
  assumes "distinct (map fst vec)"
  shows "distinct (map fst (snd (remove_attr t vec)))"
    and "map_of (snd (remove_attr t vec)) l = (if l = t then None else map_of vec l)"
    and "fst (remove_attr t vec) \<longleftrightarrow> map_of vec t \<noteq> None"
    and "set (snd (remove_attr t vec)) \<subseteq> set vec"
proof -
  show "fst (remove_attr t vec) \<longleftrightarrow> map_of vec t \<noteq> None"
    using find_type_None [of t vec] by (cases "find_type t vec") (auto simp: remove_attr_def)
  have "distinct (map fst (snd (remove_attr t vec)))
    \<and> map_of (snd (remove_attr t vec)) l = (if l = t then None else map_of vec l)
    \<and> set (snd (remove_attr t vec)) \<subseteq> set vec"
  proof (cases "find_type t vec")
    case None
    moreover have "map_of vec t = None" using None by (simp only: find_type_None)
    ultimately show ?thesis using assms by (simp add: remove_attr_def)
  next
    case (Some i)
    then obtain v where v: "i < length vec" "vec ! i = (t, v)" using find_type_split by blast
    let ?f = "filter (\<lambda>p. fst p \<noteq> t) vec"
    have "mset vec - {#(t, v)#} = mset ?f"
    proof -
      have "vec = take i vec @ (t, v) # drop (Suc i) vec" using v by (metis id_take_nth_drop)
      then obtain xs ys where xy: "vec = xs @ (t, v) # ys" by blast
      then have "t \<notin> fst ` set xs" "t \<notin> fst ` set ys" using assms by auto
      then have "filter (\<lambda>p. fst p \<noteq> t) xs = xs" "filter (\<lambda>p. fst p \<noteq> t) ys = ys" by (auto simp: filter_id_conv)
      then have "?f = xs @ ys" by (simp add: xy)
      then show ?thesis by (simp add: xy)
    qed
    then have m: "mset (snd (remove_attr t vec)) = mset ?f"
      using Some v remove_attr_perm [OF Some] by (simp add: remove_attr_def)
    have "distinct (map fst ?f)" using assms by (simp add: distinct_map_filter)
    note map_of_mset [OF this m]
    moreover have "map_of ?f l = (if l = t then None else map_of vec l)" by (induction vec) auto
    moreover have "set (snd (remove_attr t vec)) = set ?f" using m by (rule mset_eq_setD)
    ultimately show ?thesis by auto
  qed
  then show "distinct (map fst (snd (remove_attr t vec)))"
    "map_of (snd (remove_attr t vec)) l = (if l = t then None else map_of vec l)"
    "set (snd (remove_attr t vec)) \<subseteq> set vec" by blast+
qed

interpretation attribute_vector: keyed_store "\<lambda>vec t. get_attr t vec" assign_attr remove_attr attrs_ok typed_attr
proof (unfold_locales, goal_cases)
  case (1 vec t v)
  then obtain f where f: "assign_attr t v vec = modify_attr t f vec" "f (current_value t vec) = v" using set_on_typed by blast
  then show ?case using 1 set_modify_attr [of vec] by (force simp: attrs_ok_def distinct_modify_attr)
next
  case (2 vec t v l)
  then obtain f where "assign_attr t v vec = modify_attr t f vec" "f (current_value t vec) = v" using set_on_typed by blast
  then show ?case by (simp add: get_attr_def look_modify_attr)
next
  case (3 vec t)
  then show ?case using remove_attr_spec(1,4) [of vec t] by (auto simp: attrs_ok_def)
next
  case (4 vec t v l)
  then show ?case using remove_attr_spec(2) [of vec t l] by (simp add: attrs_ok_def get_attr_def)
next
  case (5 vec t v)
  then show ?case using remove_attr_spec(3) [of vec t] by (simp add: attrs_ok_def get_attr_def)
qed

definition custom_ok :: "custom_map \<Rightarrow> bool" where
  "custom_ok m \<longleftrightarrow> sorted_wrt (<) (map fst m) \<and> (\<forall>k \<in> fst ` set m. lower_bytes k = k)"

lemma lower_bytes_idem [simp]: "lower_bytes (lower_bytes k) = lower_bytes k"
proof -
  have "lower_byte (lower_byte b) = lower_byte b" for b
  proof (cases "65 \<le> b \<and> b \<le> 90")
    case True
    then have "\<not> b + 32 \<le> 90"
      by (simp add: word_le_nat_alt unat_word_ariths)
    then show ?thesis using True by (simp add: lower_byte_def)
  qed (simp add: lower_byte_def)
  then show ?thesis by (simp add: lower_bytes_def)
qed

lemma keys_custom_assign: "fst ` set (custom_assign k v m) = insert k (fst ` set m)"
  by (induction k v m rule: custom_assign.induct) auto

lemma sorted_custom_assign: "sorted_wrt (<) (map fst m) \<Longrightarrow> sorted_wrt (<) (map fst (custom_assign k v m))"
proof (induction k v m rule: custom_assign.induct)
  case (2 k v l w m)
  then show ?case using keys_custom_assign [of k v m] by (auto dest: less_trans)
qed simp

lemma look_custom_assign:
  "sorted_wrt (<) (map fst m) \<Longrightarrow> map_of (custom_assign k v m) l = (if l = k then Some v else map_of m l)"
  by (induction k v m rule: custom_assign.induct) auto

interpretation custom_attributes:
  keyed_store map_of custom_assign removeCustomAttribute custom_ok "\<lambda>k _. lower_bytes k = k"
proof (unfold_locales, goal_cases)
  case (1 m k v)
  then show ?case using keys_custom_assign [of k v m] by (simp add: custom_ok_def sorted_custom_assign)
next
  case (2 m k v l)
  then show ?case by (simp add: custom_ok_def look_custom_assign)
next
  case (3 m k)
  then show ?case using sorted_wrt_filter [of "(<)" "map fst m" "\<lambda>l. l \<noteq> lower_bytes k"]
    by (auto simp: custom_ok_def removeCustomAttribute_def case_prod_unfold filter_map comp_def)
next
  case (4 m k v l)
  have "map_of (filter (\<lambda>(l, _). l \<noteq> k) m) l = (if l = k then None else map_of m l)" by (induction m) auto
  then show ?case using 4 by (auto simp: removeCustomAttribute_def map_of_eq_None_iff)
next
  case (5 m k v)
  then show ?case by (auto simp: removeCustomAttribute_def map_of_eq_None_iff)
qed

section \<open>Round trip of a custom attribute\<close>

fun custom_short :: "custom_value \<Rightarrow> bool" where
  "custom_short (CStr s) = (length s \<le> 65535)"
| "custom_short _ = True"

fun enc_custom :: "custom_value \<Rightarrow> bytes" where
  "enc_custom (CStr s) = 1 # enc_prop (PStr s)"
| "enc_custom (CInt n) = 2 # enc_prop (P64 n)"
| "enc_custom (CDouble d) = 3 # enc_prop (P64 d)"
| "enc_custom (CBool t) = [4, if t then 1 else 0]"

lemma pw_write_u8 [simp]: "pw_write (v :: u8) b = b @ [v]"
  by (simp add: pw_write_def)

lemma ps_read_u8 [simp]: "ps_read (b # s) = (Some (b :: u8), s)"
  using ps_read_le_bytes [where 'a = 8 and n = 1 and v = b and rest = s] by simp

lemma custom_serialize_enc: "custom_serialize a b = b @ enc_custom (custom_val a)"
  by (simp add: custom_serialize_def pw_write_def pw_writeString_def numeral_2_eq_2 split: custom_value.split)

lemma custom_unserialize_enc:
  "custom_short v \<Longrightarrow> custom_unserialize a (enc_custom v @ rest) = (Some (a\<lparr>custom_val := v\<rparr>), rest)"
  by (cases v) (simp_all add: custom_unserialize_def tagged_def ps_readString_enc ps_read_le_bytes)

lemma ps_read_u8_empty [simp]: "ps_read [] = (None :: u8 option, [])"
  by (simp add: ps_read_def ps_size_def)

lemma ps_readString_length: "length (snd (ps_readString s)) \<le> length s"
  using read_prop_suffix [of s KStr] by (auto simp: tagged_def) (metis le_add2 length_append)

lemma ps_read_length: "length (snd (ps_read s :: 'a::len word option \<times> prop_stream)) \<le> length s"
  by (simp add: ps_read_def)

lemma custom_unserialize_length: "length (snd (custom_unserialize a s)) \<le> length s"
proof -
  obtain t s1 where r: "ps_read s = (t :: u8 option, s1)" by fastforce
  then have "length s1 \<le> length s" using ps_read_length [of s, where 'a = 8] by simp
  moreover have "length (snd (custom_unserialize a s)) \<le> length s1"
    using r by (auto simp: ps_readString_length ps_read_length custom_unserialize_def tagged_def split: option.split)
  ultimately show ?thesis by simp
qed

end
