(* ===== verification/Item.thy ===== *)
theory Item
  imports Item_Attribute
begin

text \<open>
  Items (\<^verbatim>\<open>items/item.hpp\<close>, \<^verbatim>\<open>item.cpp\<close>): construction, sub types, weight, owner, duration and decay state,
  movability and comparison.  The table of item types (\<^verbatim>\<open>items/items.hpp\<close>), loaded from data files, is the
  argument \<open>items\<close> of the operations.  Integer attributes are 64-bit words and every narrowing
  \<open>getAttribute<T>\<close> is a truncation, the clamp behind the cast being the identity.
\<close>

section \<open>Item types\<close>

datatype item_group = ITEM_GROUP_NONE | ITEM_GROUP_GROUND | ITEM_GROUP_CONTAINER | ITEM_GROUP_SPLASH | ITEM_GROUP_FLUID

datatype item_types =
    ITEM_TYPE_NONE | ITEM_TYPE_ARMOR | ITEM_TYPE_AMULET | ITEM_TYPE_BOOTS | ITEM_TYPE_CONTAINER | ITEM_TYPE_DECORATION
  | ITEM_TYPE_FOOD | ITEM_TYPE_HELMET | ITEM_TYPE_LEGS | ITEM_TYPE_OTHER | ITEM_TYPE_POTION | ITEM_TYPE_RING
  | ITEM_TYPE_RUNE | ITEM_TYPE_SHIELD | ITEM_TYPE_TOOLS | ITEM_TYPE_VALUABLE | ITEM_TYPE_AMMO | ITEM_TYPE_AXE
  | ITEM_TYPE_CLUB | ITEM_TYPE_DISTANCE | ITEM_TYPE_SWORD | ITEM_TYPE_WAND | ITEM_TYPE_PREMIUMSCROLL
  | ITEM_TYPE_TIBIACOIN | ITEM_TYPE_CREATUREPRODUCT | ITEM_TYPE_QUIVER | ITEM_TYPE_BELT | ITEM_TYPE_GLOVES
  | ITEM_TYPE_DEPOT | ITEM_TYPE_MAILBOX | ITEM_TYPE_TRASHHOLDER | ITEM_TYPE_DOOR | ITEM_TYPE_MAGICFIELD
  | ITEM_TYPE_TELEPORT | ITEM_TYPE_BED | ITEM_TYPE_KEY | ITEM_TYPE_SUPPLY | ITEM_TYPE_REWARDCHEST | ITEM_TYPE_CARPET
  | ITEM_TYPE_RETRIEVE | ITEM_TYPE_GOLD | ITEM_TYPE_UNASSIGNED | ITEM_TYPE_LADDER | ITEM_TYPE_DUMMY

record item_type =
  it_id :: u16
  it_group :: item_group
  it_type :: item_types
  it_decayTime :: u32
  it_charges :: u32
  it_weight :: i32
  it_decayTo :: int
  it_stackSize :: u8
  it_maxItems :: u16
  it_ammo :: bool
  it_stackable :: bool
  it_movable :: bool
  it_pickupable :: bool
  it_stopTime :: bool
  it_isCorpse :: bool
  it_wareId :: u16
  it_transformOnUse :: u16
  it_wrapableTo :: int
  it_canWriteText :: bool
  it_upgradeClassification :: u8

type_synonym item_table = "u16 \<Rightarrow> item_type"

definition isContainer :: "item_type \<Rightarrow> bool" where "isContainer t \<longleftrightarrow> it_group t = ITEM_GROUP_CONTAINER"
definition isSplash :: "item_type \<Rightarrow> bool" where "isSplash t \<longleftrightarrow> it_group t = ITEM_GROUP_SPLASH"
definition isFluidContainer :: "item_type \<Rightarrow> bool" where "isFluidContainer t \<longleftrightarrow> it_group t = ITEM_GROUP_FLUID"
definition hasSubType :: "item_type \<Rightarrow> bool" where
  "hasSubType t \<longleftrightarrow> isFluidContainer t \<or> isSplash t \<or> it_stackable t \<or> it_charges t \<noteq> 0"

section \<open>Items and their properties\<close>

record item =
  item_id :: u16
  item_count :: u8
  attributeVector :: "attributes list"
  customAttributeMap :: custom_map
  loadedFromMap :: bool
  decayDisabled :: bool

text \<open>An item without an attribute object reads like one whose attribute object is empty.\<close>

definition hasAttribute :: "item_attribute_t \<Rightarrow> item \<Rightarrow> bool" where
  "hasAttribute t i = has_attr t (attributeVector i)"

definition getInteger :: "item_attribute_t \<Rightarrow> item \<Rightarrow> i64" where
  "getInteger t i = getAttributeValue t (attributeVector i)"

definition item_getString :: "item_attribute_t \<Rightarrow> item \<Rightarrow> bytes" where
  "item_getString t i = getAttributeString t (attributeVector i)"

definition set_int :: "item_attribute_t \<Rightarrow> i64 \<Rightarrow> item \<Rightarrow> item" where
  "set_int t n i = i\<lparr>attributeVector := setAttribute_int t n (attributeVector i)\<rparr>"

definition set_string :: "item_attribute_t \<Rightarrow> bytes \<Rightarrow> item \<Rightarrow> item" where
  "set_string t s i = i\<lparr>attributeVector := setAttribute_string t s (attributeVector i)\<rparr>"

definition removeAttribute :: "item_attribute_t \<Rightarrow> item \<Rightarrow> item" where
  "removeAttribute t i = i\<lparr>attributeVector := snd (remove_attr t (attributeVector i))\<rparr>"

definition setItemCount :: "u8 \<Rightarrow> item \<Rightarrow> item" where
  "setItemCount n i = i\<lparr>item_count := n\<rparr>"

datatype item_decay_state = DECAYING_FALSE | DECAYING_TRUE | DECAYING_PENDING | DECAYING_STOPPING

fun decay_code :: "item_decay_state \<Rightarrow> u8" where
  "decay_code DECAYING_FALSE = 0"
| "decay_code DECAYING_TRUE = 1"
| "decay_code DECAYING_PENDING = 2"
| "decay_code DECAYING_STOPPING = 3"

text \<open>The state is kept as its number; the getter casts the 64-bit attribute to the 8-bit enumeration.\<close>

definition getDecaying :: "item \<Rightarrow> u8" where
  "getDecaying i = ucast (getInteger DECAYSTATE i)"

definition setDecaying :: "item_decay_state \<Rightarrow> item \<Rightarrow> item" where
  "setDecaying d i = (let i1 = set_int DECAYSTATE (ucast (decay_code d)) i
     in if d = DECAYING_FALSE then removeAttribute DURATION_TIMESTAMP i1 else i1)"

definition max0 :: "i32 \<Rightarrow> i32" where
  "max0 d = (if sint d < 0 then 0 else d)"

text \<open>Milliseconds left; the two 64-bit times are reduced to 32 bits before they are subtracted.\<close>

definition getDuration :: "i64 \<Rightarrow> item \<Rightarrow> i32" where
  "getDuration now i =
     (if getDecaying i = decay_code DECAYING_TRUE \<or> getDecaying i = decay_code DECAYING_STOPPING
      then max0 (ucast (getInteger DURATION_TIMESTAMP i) - ucast now)
      else ucast (getInteger DURATION i))"

definition setDuration :: "i32 \<Rightarrow> item \<Rightarrow> item" where
  "setDuration d i = set_int DURATION (scast (max0 d)) i"

definition isStoreItem :: "item \<Rightarrow> bool" where
  "isStoreItem i \<longleftrightarrow> 0 < sint (getInteger STORE i)"

definition getCorpseOwner :: "item \<Rightarrow> u32" where
  "getCorpseOwner i = ucast (getInteger CORPSEOWNER i)"

definition isRewardCorpse :: "item \<Rightarrow> bool" where
  "isRewardCorpse i \<longleftrightarrow> getCorpseOwner i = 2147483647"

definition setRewardCorpse :: "item \<Rightarrow> item" where
  "setRewardCorpse i = set_int CORPSEOWNER 2147483647 i"

definition getOwnerId :: "item \<Rightarrow> u32" where
  "getOwnerId i = (if hasAttribute OWNER i then ucast (getInteger OWNER i) else 0)"

definition hasOwner :: "item \<Rightarrow> bool" where
  "hasOwner i \<longleftrightarrow> getOwnerId i \<noteq> 0"

definition setOwner :: "u32 \<Rightarrow> item \<Rightarrow> item" where
  "setOwner ow i = set_int OWNER (ucast ow) i"

definition getTier :: "int \<Rightarrow> item \<Rightarrow> u8" where
  "getTier maxTier i = (if \<not> hasAttribute TIER i then 0
     else (let t = ucast (getInteger TIER i) in if uint t > maxTier then 0 else t))"

definition setTier :: "item_table \<Rightarrow> int \<Rightarrow> u8 \<Rightarrow> item \<Rightarrow> item" where
  "setTier items maxTier t i = (if uint t > maxTier then i
     else if it_upgradeClassification (items (item_id i)) \<noteq> 0 then set_int TIER (ucast t) i else i)"

section \<open>Construction and transformation\<close>

definition FLUID_INK :: u16 where "FLUID_INK = 18"

definition getDefaultDuration :: "item_table \<Rightarrow> item \<Rightarrow> u32" where
  "getDefaultDuration items i = it_decayTime (items (item_id i)) * 1000"

definition setDefaultDuration :: "item_table \<Rightarrow> item \<Rightarrow> item" where
  "setDefaultDuration items i = (if getDefaultDuration items i \<noteq> 0 then setDuration (getDefaultDuration items i) i else i)"

definition new_item :: "item_table \<Rightarrow> u16 \<Rightarrow> u16 \<Rightarrow> item" where
  "new_item items itemId itemCount =
     (let it = items itemId;
          i = \<lparr>item_id = itemId, item_count = 1, attributeVector = [], customAttributeMap = [],
               loadedFromMap = False, decayDisabled = False\<rparr>
      in setDefaultDuration items
        (if isFluidContainer it \<or> isSplash it then set_int FLUIDTYPE (ucast (max 1 (min itemCount FLUID_INK))) i
         else if it_stackable it
           then (if itemCount \<noteq> 0 then setItemCount (ucast itemCount) i
                 else if it_charges it \<noteq> 0 then setItemCount (ucast (it_charges it)) i else i)
         else if it_charges it \<noteq> 0
           then set_int CHARGES (if itemCount \<noteq> 0 then ucast itemCount else ucast (it_charges it)) i
         else i))"

text \<open>Activated rings and boots, and an old arrow, that are turned into their plain form when created.\<close>

definition ItemTransformationMap :: "(u16 \<times> u16) list" where
  "ItemTransformationMap = [(3094, 3091), (3096, 3093), (3099, 3097), (3100, 3098), (3086, 3049), (3090, 3053),
     (3549, 6529), (6300, 6299), (16264, 16114), (25757, 35901)]"

text \<open>
  The class of the object the factory makes, in the order of its tests.  The constructors of the
  special classes and of containers ignore the count.
\<close>

datatype item_class = DepotLockerC | RewardChestC | ContainerC | TeleportC | MagicFieldC | DoorC | TrashHolderC
  | MailboxC | BedC | PlainC

definition item_class_of :: "item_type \<Rightarrow> item_class" where
  "item_class_of t =
     (if it_type t = ITEM_TYPE_DEPOT then DepotLockerC
      else if it_type t = ITEM_TYPE_REWARDCHEST then RewardChestC
      else if isContainer t then ContainerC
      else if it_type t = ITEM_TYPE_TELEPORT then TeleportC
      else if it_type t = ITEM_TYPE_MAGICFIELD then MagicFieldC
      else if it_type t = ITEM_TYPE_DOOR then DoorC
      else if it_type t = ITEM_TYPE_TRASHHOLDER then TrashHolderC
      else if it_type t = ITEM_TYPE_MAILBOX then MailboxC
      else if it_type t = ITEM_TYPE_BED then BedC
      else PlainC)"

definition createItem :: "item_table \<Rightarrow> u16 \<Rightarrow> u16 \<Rightarrow> (item_class \<times> item) option" where
  "createItem items type cnt0 =
     (let it = items type; cnt = (if it_stackable it \<and> cnt0 = 0 then 1 else cnt0) in
      if it_id it = 0 then None
      else (case item_class_of it of
          PlainC \<Rightarrow> Some (PlainC, (case map_of ItemTransformationMap (it_id it) of
              Some to \<Rightarrow> new_item items to cnt | None \<Rightarrow> new_item items type cnt))
        | c \<Rightarrow> Some (c, new_item items type 0)))"

definition getSubType :: "item_table \<Rightarrow> item \<Rightarrow> u16" where
  "getSubType items i = (let it = items (item_id i) in
     if isFluidContainer it \<or> isSplash it then ucast (getInteger FLUIDTYPE i)
     else if it_stackable it then ucast (item_count i)
     else if it_charges it \<noteq> 0 then ucast (getInteger CHARGES i)
     else ucast (item_count i))"

definition setSubType :: "item_table \<Rightarrow> u16 \<Rightarrow> item \<Rightarrow> item" where
  "setSubType items n i = (let it = items (item_id i) in
     if isFluidContainer it \<or> isSplash it then set_int FLUIDTYPE (ucast n) i
     else if it_stackable it then setItemCount (ucast n) i
     else if it_charges it \<noteq> 0 then set_int CHARGES (ucast n) i
     else setItemCount (ucast n) i)"

definition setDefaultSubtype :: "item_table \<Rightarrow> item \<Rightarrow> item" where
  "setDefaultSubtype items i = (let it = items (item_id i); i1 = setItemCount 1 i in
     if it_charges it \<noteq> 0
     then (if it_stackable it then setItemCount (ucast (it_charges it)) i1 else set_int CHARGES (ucast (it_charges it)) i1)
     else i1)"

definition setID :: "item_table \<Rightarrow> u16 \<Rightarrow> item \<Rightarrow> item" where
  "setID items newid i =
     (let prevIt = items (item_id i); i0 = i\<lparr>item_id := newid\<rparr>; it = items newid; newDuration = it_decayTime it * 1000;
          i1 = (if newDuration = 0 \<and> \<not> it_stopTime it \<and> it_decayTo it < 0
                then removeAttribute DURATION (if hasAttribute DECAYSTATE i0 then setDecaying DECAYING_STOPPING i0 else i0)
                else i0);
          i2 = (if \<not> isRewardCorpse i1 then removeAttribute CORPSEOWNER i1 else i1)
      in if newDuration > 0 \<and> (\<not> it_stopTime prevIt \<or> \<not> hasAttribute DURATION i2)
         then setDuration newDuration (setDecaying DECAYING_PENDING i2) else i2)"

definition getStackSize :: "item_table \<Rightarrow> item \<Rightarrow> u8" where
  "getStackSize items i = (if it_stackable (items (item_id i)) then it_stackSize (items (item_id i)) else 1)"

definition getBaseWeight :: "item_table \<Rightarrow> item \<Rightarrow> u32" where
  "getBaseWeight items i = (if hasAttribute WEIGHT i then ucast (getInteger WEIGHT i) else it_weight (items (item_id i)))"

definition getWeight :: "item_table \<Rightarrow> item \<Rightarrow> u32" where
  "getWeight items i = (if it_stackable (items (item_id i)) then getBaseWeight items i * max 1 (ucast (item_count i))
     else getBaseWeight items i)"

definition countByType :: "item_table \<Rightarrow> item \<Rightarrow> int \<Rightarrow> u32" where
  "countByType items i subType = (if subType = -1 \<or> subType = uint (getSubType items i) then ucast (item_count i) else 0)"

definition canBeMoved :: "item_table \<Rightarrow> item \<Rightarrow> bool" where
  "canBeMoved items i =
     (if hasAttribute UNIQUEID i then False
      else if hasAttribute ACTIONID i \<and> (ucast (getInteger ACTIONID i) :: u16) = 100 then False
      else it_movable (items (item_id i)))"

definition isCleanable :: "item_table \<Rightarrow> item \<Rightarrow> bool" where
  "isCleanable items i \<longleftrightarrow> \<not> loadedFromMap i \<and> it_pickupable (items (item_id i)) \<and> \<not> hasAttribute UNIQUEID i
     \<and> \<not> hasAttribute ACTIONID i"

definition canDecay :: "item_table \<Rightarrow> bool \<Rightarrow> item \<Rightarrow> bool" where
  "canDecay items removed i \<longleftrightarrow> \<not> removed \<and> \<not> decayDisabled i \<and> \<not> it_decayTo (items (item_id i)) < 0
     \<and> it_decayTime (items (item_id i)) \<noteq> 0 \<and> \<not> hasAttribute UNIQUEID i"

text \<open>
  Comparison of two items.  String attributes are held by shared pointers and the pointers are compared,
  not the strings; \<open>ptr1\<close> and \<open>ptr2\<close> are the addresses of the strings of the two items.
\<close>

definition item_equals ::
  "(item_attribute_t \<Rightarrow> nat) \<Rightarrow> (item_attribute_t \<Rightarrow> nat) \<Rightarrow> item \<Rightarrow> item \<Rightarrow> bool" where
  "item_equals ptr1 ptr2 i j \<longleftrightarrow> item_id i = item_id j \<and> isStoreItem i = isStoreItem j \<and> getOwnerId i = getOwnerId j
     \<and> list_all (\<lambda>(t, v). t = STORE \<or> list_all (\<lambda>(u, w). t \<noteq> u
          \<or> (\<not> (isAttributeInteger t \<and> value_integer v \<noteq> value_integer w)
             \<and> \<not> (isAttributeString t \<and> ptr1 t \<noteq> ptr2 u))) (attributeVector j)) (attributeVector i)"

section \<open>Lookups behind the setters\<close>

definition item_attr :: "item \<Rightarrow> item_attribute_t \<Rightarrow> attr_value option" where
  "item_attr i t = get_attr t (attributeVector i)"

definition item_ok :: "item \<Rightarrow> bool" where
  "item_ok i \<longleftrightarrow> attrs_ok (attributeVector i) \<and> custom_ok (customAttributeMap i)"

lemma hasAttribute_attr: "hasAttribute t i \<longleftrightarrow> item_attr i t \<noteq> None"
  by (auto simp: hasAttribute_def has_attr_def item_attr_def get_attr_def map_of_eq_None_iff)

lemma getInteger_attr: "getInteger t i = (case item_attr i t of Some (IntV n) \<Rightarrow> if isAttributeInteger t then n else 0 | _ \<Rightarrow> 0)"
  by (simp add: getInteger_def getAttributeValue_def item_attr_def split: option.split attr_value.split)

lemma item_getString_attr: "item_getString t i = (case item_attr i t of Some (StrV s) \<Rightarrow> if isAttributeString t then s else [] | _ \<Rightarrow> [])"
  by (simp add: item_getString_def getAttributeString_def item_attr_def split: option.split attr_value.split)

lemma set_int_item:
  assumes "item_ok i"
  shows "item_ok (set_int t n i)"
    and "item_attr (set_int t n i) u = (if isAttributeInteger t \<and> u = t then Some (IntV n) else item_attr i u)"
proof -
  have "item_ok (set_int t n i) \<and>
      item_attr (set_int t n i) u = (if isAttributeInteger t \<and> u = t then Some (IntV n) else item_attr i u)"
  proof (cases "isAttributeInteger t")
    case True
    then show ?thesis
      using assms attribute_vector.good_assign [of "attributeVector i" t "IntV n"]
        attribute_vector.look_assign [of "attributeVector i" t "IntV n" u]
      by (simp add: item_ok_def item_attr_def set_int_def)
  qed (use assms in \<open>simp add: set_int_def setAttribute_int_def\<close>)
  then show "item_ok (set_int t n i)"
    "item_attr (set_int t n i) u = (if isAttributeInteger t \<and> u = t then Some (IntV n) else item_attr i u)" by auto
qed

lemma set_string_item:
  assumes "item_ok i"
  shows "item_ok (set_string t s i)"
    and "item_attr (set_string t s i) u = (if isAttributeString t \<and> s \<noteq> [] \<and> u = t then Some (StrV s) else item_attr i u)"
proof -
  have "item_ok (set_string t s i) \<and>
      item_attr (set_string t s i) u = (if isAttributeString t \<and> s \<noteq> [] \<and> u = t then Some (StrV s) else item_attr i u)"
  proof (cases "isAttributeString t \<and> s \<noteq> []")
    case True
    then show ?thesis
      using assms attribute_vector.good_assign [of "attributeVector i" t "StrV s"]
        attribute_vector.look_assign [of "attributeVector i" t "StrV s" u]
      by (simp add: item_ok_def item_attr_def set_string_def)
  qed (use assms in \<open>auto simp: set_string_def setAttribute_string_def\<close>)
  then show "item_ok (set_string t s i)"
    "item_attr (set_string t s i) u = (if isAttributeString t \<and> s \<noteq> [] \<and> u = t then Some (StrV s) else item_attr i u)" by auto
qed

lemma removeAttribute_item:
  assumes "item_ok i"
  shows "item_ok (removeAttribute t i)"
    and "item_attr (removeAttribute t i) u = (if u = t then None else item_attr i u)"
  using assms attribute_vector.good_erase [of "attributeVector i" t] remove_attr_spec(2) [of "attributeVector i" t u]
  by (simp_all add: item_ok_def item_attr_def removeAttribute_def get_attr_def attrs_ok_def)

lemma set_fields [simp]:
  "item_id (set_int t n i) = item_id i" "item_count (set_int t n i) = item_count i"
  "customAttributeMap (set_int t n i) = customAttributeMap i"
  "item_id (set_string t s i) = item_id i" "item_count (set_string t s i) = item_count i"
  "customAttributeMap (set_string t s i) = customAttributeMap i"
  "item_id (removeAttribute t i) = item_id i" "item_count (removeAttribute t i) = item_count i"
  "customAttributeMap (removeAttribute t i) = customAttributeMap i"
  by (simp_all add: set_int_def set_string_def removeAttribute_def)

lemma setItemCount_item [simp]:
  "item_ok (setItemCount n i) = item_ok i" "item_attr (setItemCount n i) = item_attr i"
  "item_id (setItemCount n i) = item_id i" "item_count (setItemCount n i) = n"
  "customAttributeMap (setItemCount n i) = customAttributeMap i"
  by (simp_all add: setItemCount_def item_ok_def item_attr_def fun_eq_iff)

text \<open>
  The pointers of equal but separately created names differ, so items that carry the same name are not
  considered equal, and do not stack; copies made by \<open>clone\<close> share the pointers and are.
\<close>

lemma equal_names_differ:
  assumes "item_attr i NAME = Some (StrV s)" "item_attr j NAME = Some (StrV s)" "ptr1 NAME \<noteq> ptr2 NAME"
  shows "\<not> item_equals ptr1 ptr2 i j"
proof -
  have "(NAME, StrV s) \<in> set (attributeVector i)" "(NAME, StrV s) \<in> set (attributeVector j)"
    using assms(1,2) by (auto simp: item_attr_def get_attr_def dest: map_of_SomeD)
  then show ?thesis using assms(3)
    by (fastforce simp: item_equals_def list_all_iff isAttributeString_def)
qed

lemma clone_equals: "item_ok i \<Longrightarrow> item_equals ptr ptr i i"
proof -
  assume "item_ok i"
  then have "(t, v) \<in> set (attributeVector i) \<Longrightarrow> (t, w) \<in> set (attributeVector i) \<Longrightarrow> v = w" for t v w
    by (auto simp: item_ok_def attrs_ok_def dest: eq_key_imp_eq_value)
  then show ?thesis by (fastforce simp: item_equals_def list_all_iff)
qed

end
