(* ===== verification/Item_Serial.thy ===== *)
theory Item_Serial
  imports Item Position
begin

text \<open>
  The binary form of items: \<open>Item::serializeAttr\<close>, \<open>readAttr\<close> and \<open>unserializeAttr\<close> of \<^verbatim>\<open>items/item.cpp\<close>, the
  container's \<open>readAttr\<close>, and the recursive \<open>saveItem\<close>, \<open>loadItem\<close> and \<open>loadContainer\<close> of
  \<^verbatim>\<open>io/iomapserialize.cpp\<close> that store the contents of houses.  An attribute is a tag byte followed by a
  fixed-width integer or a length-prefixed string.
\<close>

section \<open>Tags\<close>

datatype attr_types =
    ATTR_STORE | ATTR_TILE_FLAGS | ATTR_ACTION_ID | ATTR_UNIQUE_ID | ATTR_TEXT | ATTR_DESC | ATTR_TELE_DEST
  | ATTR_ITEM | ATTR_DEPOT_ID | ATTR_RUNE_CHARGES | ATTR_HOUSEDOORID | ATTR_COUNT | ATTR_DURATION
  | ATTR_DECAYING_STATE | ATTR_WRITTENDATE | ATTR_WRITTENBY | ATTR_SLEEPERGUID | ATTR_SLEEPSTART | ATTR_CHARGES
  | ATTR_CONTAINER_ITEMS | ATTR_NAME | ATTR_ARTICLE | ATTR_PLURALNAME | ATTR_WEIGHT | ATTR_ATTACK | ATTR_DEFENSE
  | ATTR_EXTRADEFENSE | ATTR_ARMOR | ATTR_HITCHANCE | ATTR_SHOOTRANGE | ATTR_SPECIAL | ATTR_IMBUEMENT_SLOT
  | ATTR_OPENCONTAINER | ATTR_CUSTOM_ATTRIBUTES | ATTR_QUICKLOOTCONTAINER | ATTR_AMOUNT | ATTR_TIER | ATTR_CUSTOM
  | ATTR_STORE_INBOX_CATEGORY | ATTR_OWNER | ATTR_OBTAINCONTAINER

definition attr_table :: "(attr_types \<times> u8) list" where
  "attr_table = [(ATTR_STORE, 1), (ATTR_TILE_FLAGS, 3), (ATTR_ACTION_ID, 4), (ATTR_UNIQUE_ID, 5), (ATTR_TEXT, 6),
     (ATTR_DESC, 7), (ATTR_TELE_DEST, 8), (ATTR_ITEM, 9), (ATTR_DEPOT_ID, 10), (ATTR_RUNE_CHARGES, 12),
     (ATTR_HOUSEDOORID, 14), (ATTR_COUNT, 15), (ATTR_DURATION, 16), (ATTR_DECAYING_STATE, 17),
     (ATTR_WRITTENDATE, 18), (ATTR_WRITTENBY, 19), (ATTR_SLEEPERGUID, 20), (ATTR_SLEEPSTART, 21),
     (ATTR_CHARGES, 22), (ATTR_CONTAINER_ITEMS, 23), (ATTR_NAME, 24), (ATTR_ARTICLE, 25), (ATTR_PLURALNAME, 26),
     (ATTR_WEIGHT, 27), (ATTR_ATTACK, 28), (ATTR_DEFENSE, 29), (ATTR_EXTRADEFENSE, 30), (ATTR_ARMOR, 31),
     (ATTR_HITCHANCE, 32), (ATTR_SHOOTRANGE, 33), (ATTR_SPECIAL, 34), (ATTR_IMBUEMENT_SLOT, 35),
     (ATTR_OPENCONTAINER, 36), (ATTR_CUSTOM_ATTRIBUTES, 37), (ATTR_QUICKLOOTCONTAINER, 38), (ATTR_AMOUNT, 39),
     (ATTR_TIER, 40), (ATTR_CUSTOM, 41), (ATTR_STORE_INBOX_CATEGORY, 42), (ATTR_OWNER, 43),
     (ATTR_OBTAINCONTAINER, 44)]"

definition attr_code :: "attr_types \<Rightarrow> u8" where
  "attr_code a = the (map_of attr_table a)"

definition attr_of_code :: "u8 \<Rightarrow> attr_types option" where
  "attr_of_code b = map_of (map (\<lambda>(a, c). (c, a)) attr_table) b"

lemma attr_code_inverse: "attr_of_code (attr_code a) = Some a" "attr_code a \<noteq> 0"
  by (cases a; simp add: attr_code_def attr_of_code_def attr_table_def)+

section \<open>Reading\<close>

datatype attr_read_value = ATTR_READ_CONTINUE | ATTR_READ_ERROR | ATTR_READ_END

text \<open>
  The item being read with the fields its class adds: the number of items a container announces, the
  destination of a teleport, the town of a depot, who sleeps in a bed and since when; and what the game
  keeps: the unique identifiers taken and the players known to sleep.
\<close>

record class_fields =
  destPos :: position
  depotId :: u16
  sleeperGUID :: u32
  sleepStart :: u64

record game_ids =
  uniqueItems :: "u16 set"
  bedSleepers :: "u32 set"

record load_state =
  ld_item :: item
  ld_fields :: class_fields
  ld_game :: game_ids
  serializationCount :: u32

type_synonym read_result = "attr_read_value \<times> load_state \<times> prop_stream"

definition on_fields :: "(class_fields \<Rightarrow> class_fields) \<Rightarrow> load_state \<Rightarrow> load_state" where
  "on_fields f st = st\<lparr>ld_fields := f (ld_fields st)\<rparr>"

definition on_item :: "(item \<Rightarrow> item) \<Rightarrow> load_state \<Rightarrow> load_state" where
  "on_item f st = st\<lparr>ld_item := f (ld_item st)\<rparr>"

text \<open>Every branch reads its value, gives up when that fails, and stores it otherwise.\<close>

definition with_read :: "'v option \<times> prop_stream \<Rightarrow> ('v \<Rightarrow> load_state \<Rightarrow> load_state) \<Rightarrow> load_state \<Rightarrow> read_result" where
  "with_read r f st = (case r of
      (None, s) \<Rightarrow> (ATTR_READ_ERROR, st, s)
    | (Some v, s) \<Rightarrow> (ATTR_READ_CONTINUE, f v st, s))"

definition with_skip :: "nat \<Rightarrow> prop_stream \<Rightarrow> load_state \<Rightarrow> read_result" where
  "with_skip n s st = (case ps_skip n s of
      (False, s1) \<Rightarrow> (ATTR_READ_ERROR, st, s1)
    | (True, s1) \<Rightarrow> (ATTR_READ_CONTINUE, st, s1))"

definition addUniqueId :: "u16 \<Rightarrow> load_state \<Rightarrow> load_state" where
  "addUniqueId uid st =
     (if hasAttribute UNIQUEID (ld_item st) then st
      else if uid \<in> uniqueItems (ld_game st) then st
      else on_item (set_int UNIQUEID (ucast uid)) (st\<lparr>ld_game := (ld_game st)\<lparr>uniqueItems := insert uid (uniqueItems (ld_game st))\<rparr>\<rparr>))"

definition str_bytes :: "string \<Rightarrow> bytes" where
  "str_bytes s = map of_char s"

fun atoi_digits :: "int \<Rightarrow> bytes \<Rightarrow> int" where
  "atoi_digits acc [] = acc"
| "atoi_digits acc (b # bs) = (if 48 \<le> b \<and> b \<le> 57 then atoi_digits (10 * acc + uint b - 48) bs else acc)"

definition atoi :: "bytes \<Rightarrow> int" where
  "atoi s = (case dropWhile (\<lambda>b. b = 32 \<or> (9 \<le> b \<and> b \<le> 13)) s of
      [] \<Rightarrow> 0
    | b # bs \<Rightarrow> if b = 45 then - atoi_digits 0 bs else if b = 43 then atoi_digits 0 bs else atoi_digits 0 (b # bs))"

definition HIRELING_LAMP :: u16 where "HIRELING_LAMP = 29432"

definition add_custom :: "bytes \<Rightarrow> custom_attribute \<Rightarrow> item \<Rightarrow> item" where
  "add_custom k a i = i\<lparr>customAttributeMap := addCustomAttribute k a (customAttributeMap i)\<rparr>"

definition set_custom :: "bytes \<Rightarrow> custom_value \<Rightarrow> item \<Rightarrow> item" where
  "set_custom k v i = i\<lparr>customAttributeMap := setCustomAttribute k v (customAttributeMap i)\<rparr>"

definition store_special :: "bytes \<Rightarrow> item \<Rightarrow> item" where
  "store_special special i =
     (let i1 = set_string SPECIAL special i
      in if item_id i1 = HIRELING_LAMP
         then set_custom (str_bytes ''Hireling'') (CInt (word_of_int (atoi special))) (removeAttribute SPECIAL i1)
         else i1)"

text \<open>What the deprecated form does after every custom attribute.\<close>

definition migrate_custom :: "i64 \<Rightarrow> item \<Rightarrow> item" where
  "migrate_custom now i =
     (let i1 = removeAttribute CUSTOM i
      in if getCustomAttribute (str_bytes ''unWrapId'') (customAttributeMap i1) \<noteq> None \<and> getInteger STORE i1 = 0
         then set_int STORE now i1 else i1)"

fun custom_loop :: "(item \<Rightarrow> item) \<Rightarrow> nat \<Rightarrow> prop_stream \<Rightarrow> load_state \<Rightarrow> read_result" where
  "custom_loop each 0 s st = (ATTR_READ_CONTINUE, st, s)"
| "custom_loop each (Suc n) s st = (case ps_readString s of
      (None, s1) \<Rightarrow> (ATTR_READ_ERROR, st, s1)
    | (Some k, s1) \<Rightarrow> (case custom_unserialize new_custom_attribute s1 of
          (None, s2) \<Rightarrow> (ATTR_READ_ERROR, st, s2)
        | (Some a, s2) \<Rightarrow> custom_loop each n s2 (on_item (each \<circ> add_custom k a) st)))"

definition read_customs :: "(item \<Rightarrow> item) \<Rightarrow> prop_stream \<Rightarrow> load_state \<Rightarrow> read_result" where
  "read_customs each s st = (case ps_read s :: u64 option \<times> prop_stream of
      (None, s1) \<Rightarrow> (ATTR_READ_ERROR, st, s1)
    | (Some n, s1) \<Rightarrow> custom_loop each (unat n) s1 st)"

definition readAttr :: "item_table \<Rightarrow> i64 \<Rightarrow> attr_types \<Rightarrow> prop_stream \<Rightarrow> load_state \<Rightarrow> read_result" where
  "readAttr items now attr s st = (case attr of
      ATTR_STORE \<Rightarrow> with_read (ps_read s) (\<lambda>v :: i64. on_item (set_int STORE v)) st
    | ATTR_COUNT \<Rightarrow> with_read (ps_read s) (\<lambda>v :: u8. on_item (setSubType items (ucast v))) st
    | ATTR_RUNE_CHARGES \<Rightarrow> with_read (ps_read s) (\<lambda>v :: u8. on_item (setSubType items (ucast v))) st
    | ATTR_ACTION_ID \<Rightarrow> with_read (ps_read s) (\<lambda>v :: u16. on_item (set_int ACTIONID (ucast v))) st
    | ATTR_UNIQUE_ID \<Rightarrow> with_read (ps_read s) addUniqueId st
    | ATTR_TEXT \<Rightarrow> with_read (ps_readString s) (\<lambda>v. on_item (set_string TEXT v)) st
    | ATTR_WRITTENDATE \<Rightarrow> with_read (ps_read s) (\<lambda>v :: u64. on_item (set_int DATE v)) st
    | ATTR_WRITTENBY \<Rightarrow> with_read (ps_readString s) (\<lambda>v. on_item (set_string WRITER v)) st
    | ATTR_DESC \<Rightarrow> with_read (ps_readString s) (\<lambda>v. on_item (set_string DESCRIPTION v)) st
    | ATTR_CHARGES \<Rightarrow> with_read (ps_read s) (\<lambda>v :: u16. on_item (setSubType items v)) st
    | ATTR_DURATION \<Rightarrow> with_read (ps_read s) (\<lambda>v :: i32. on_item (setDuration v)) st
    | ATTR_DECAYING_STATE \<Rightarrow> with_read (ps_read s) (\<lambda>v :: u8. if v \<noteq> decay_code DECAYING_FALSE
          then on_item (setDecaying DECAYING_PENDING) else id) st
    | ATTR_NAME \<Rightarrow> with_read (ps_readString s) (\<lambda>v. on_item (set_string NAME v)) st
    | ATTR_ARTICLE \<Rightarrow> with_read (ps_readString s) (\<lambda>v. on_item (set_string ARTICLE v)) st
    | ATTR_PLURALNAME \<Rightarrow> with_read (ps_readString s) (\<lambda>v. on_item (set_string PLURALNAME v)) st
    | ATTR_WEIGHT \<Rightarrow> with_read (ps_read s) (\<lambda>v :: u32. on_item (set_int WEIGHT (ucast v))) st
    | ATTR_ATTACK \<Rightarrow> with_read (ps_read s) (\<lambda>v :: i32. on_item (set_int ATTACK (scast v))) st
    | ATTR_DEFENSE \<Rightarrow> with_read (ps_read s) (\<lambda>v :: i32. on_item (set_int DEFENSE (scast v))) st
    | ATTR_EXTRADEFENSE \<Rightarrow> with_read (ps_read s) (\<lambda>v :: i32. on_item (set_int EXTRADEFENSE (scast v))) st
    | ATTR_IMBUEMENT_SLOT \<Rightarrow> with_read (ps_read s) (\<lambda>v :: i32. on_item (set_int IMBUEMENT_SLOT (scast v))) st
    | ATTR_OPENCONTAINER \<Rightarrow> with_read (ps_read s) (\<lambda>v :: u8. on_item (set_int OPENCONTAINER (ucast v))) st
    | ATTR_ARMOR \<Rightarrow> with_read (ps_read s) (\<lambda>v :: i32. on_item (set_int ARMOR (scast v))) st
    | ATTR_HITCHANCE \<Rightarrow> with_read (ps_read s) (\<lambda>v :: 8 word. on_item (set_int HITCHANCE (scast v))) st
    | ATTR_SHOOTRANGE \<Rightarrow> with_read (ps_read s) (\<lambda>v :: u8. on_item (set_int SHOOTRANGE (ucast v))) st
    | ATTR_SPECIAL \<Rightarrow> with_read (ps_readString s) (\<lambda>v. on_item (store_special v)) st
    | ATTR_QUICKLOOTCONTAINER \<Rightarrow> with_read (ps_read s) (\<lambda>v :: u32. on_item (set_int QUICKLOOTCONTAINER (ucast v))) st
    | ATTR_DEPOT_ID \<Rightarrow> with_skip 2 s st
    | ATTR_HOUSEDOORID \<Rightarrow> with_skip 1 s st
    | ATTR_SLEEPERGUID \<Rightarrow> with_skip 4 s st
    | ATTR_SLEEPSTART \<Rightarrow> with_skip 4 s st
    | ATTR_TELE_DEST \<Rightarrow> with_skip 5 s st
    | ATTR_CONTAINER_ITEMS \<Rightarrow> (ATTR_READ_ERROR, st, s)
    | ATTR_CUSTOM_ATTRIBUTES \<Rightarrow> read_customs (migrate_custom now) s st
    | ATTR_TIER \<Rightarrow> with_read (ps_read s) (\<lambda>v :: u8. on_item (set_int TIER (ucast v))) st
    | ATTR_AMOUNT \<Rightarrow> with_read (ps_read s) (\<lambda>v :: u16. on_item (set_int AMOUNT (ucast v))) st
    | ATTR_CUSTOM \<Rightarrow> read_customs id s st
    | ATTR_STORE_INBOX_CATEGORY \<Rightarrow> with_read (ps_readString s) (\<lambda>v. on_item (set_string STORE_INBOX_CATEGORY v)) st
    | ATTR_OWNER \<Rightarrow> with_read (ps_read s) (\<lambda>v :: u32. on_item (set_int OWNER (ucast v))) st
    | ATTR_OBTAINCONTAINER \<Rightarrow> with_read (ps_read s) (\<lambda>v :: u32. on_item (set_int OBTAINCONTAINER (ucast v))) st
    | _ \<Rightarrow> (ATTR_READ_ERROR, st, s))"

text \<open>
  \<open>readAttr\<close> is virtual: some classes handle tags themselves and leave the others to \<open>Item::readAttr\<close>.  The
  name of a sleeping player comes from the database, here the argument \<open>names\<close>.
\<close>

definition container_readAttr :: "item_table \<Rightarrow> i64 \<Rightarrow> attr_types \<Rightarrow> prop_stream \<Rightarrow> load_state \<Rightarrow> read_result" where
  "container_readAttr items now attr s st =
     (if attr = ATTR_CONTAINER_ITEMS
      then (case ps_read s of
          (None, s1) \<Rightarrow> (ATTR_READ_ERROR, st, s1)
        | (Some n, s1) \<Rightarrow> (ATTR_READ_END, st\<lparr>serializationCount := n\<rparr>, s1))
      else readAttr items now attr s st)"

definition depot_readAttr :: "item_table \<Rightarrow> i64 \<Rightarrow> attr_types \<Rightarrow> prop_stream \<Rightarrow> load_state \<Rightarrow> read_result" where
  "depot_readAttr items now attr s st =
     (if attr = ATTR_DEPOT_ID then with_read (ps_read s) (\<lambda>v. on_fields (depotId_update (\<lambda>_. v))) st
      else readAttr items now attr s st)"

definition door_readAttr :: "item_table \<Rightarrow> i64 \<Rightarrow> attr_types \<Rightarrow> prop_stream \<Rightarrow> load_state \<Rightarrow> read_result" where
  "door_readAttr items now attr s st =
     (if attr = ATTR_HOUSEDOORID then with_read (ps_read s) (\<lambda>v :: u8. on_item (set_int DOORID (ucast v))) st
      else readAttr items now attr s st)"

text \<open>The three coordinates are read into the field one by one.\<close>

definition teleport_readAttr :: "item_table \<Rightarrow> i64 \<Rightarrow> attr_types \<Rightarrow> prop_stream \<Rightarrow> load_state \<Rightarrow> read_result" where
  "teleport_readAttr items now attr s st =
     (if attr = ATTR_TELE_DEST
      then (case ps_read s of
          (None, s1) \<Rightarrow> (ATTR_READ_ERROR, st, s1)
        | (Some x, s1) \<Rightarrow>
            let st1 = on_fields (\<lambda>f. f\<lparr>destPos := Position x (pos_y (destPos f)) (pos_z (destPos f))\<rparr>) st in
            (case ps_read s1 of
              (None, s2) \<Rightarrow> (ATTR_READ_ERROR, st1, s2)
            | (Some y, s2) \<Rightarrow>
                let st2 = on_fields (\<lambda>f. f\<lparr>destPos := Position x y (pos_z (destPos f))\<rparr>) st1 in
                with_read (ps_read s2) (\<lambda>z. on_fields (destPos_update (\<lambda>_. Position x y z))) st2))
      else readAttr items now attr s st)"

definition bed_readAttr ::
  "(u32 \<Rightarrow> bytes) \<Rightarrow> item_table \<Rightarrow> i64 \<Rightarrow> attr_types \<Rightarrow> prop_stream \<Rightarrow> load_state \<Rightarrow> read_result" where
  "bed_readAttr names items now attr s st =
     (if attr = ATTR_SLEEPERGUID
      then with_read (ps_read s) (\<lambda>guid st.
          if guid \<noteq> 0 \<and> names guid \<noteq> []
          then on_item (set_string DESCRIPTION (names guid @ str_bytes '' is sleeping there.''))
            (on_fields (sleeperGUID_update (\<lambda>_. guid))
              (st\<lparr>ld_game := (ld_game st)\<lparr>bedSleepers := insert guid (bedSleepers (ld_game st))\<rparr>\<rparr>))
          else st) st
      else if attr = ATTR_SLEEPSTART
      then with_read (ps_read s) (\<lambda>v :: u32. on_fields (sleepStart_update (\<lambda>_. ucast v))) st
      else readAttr items now attr s st)"

fun virtual_readAttr ::
  "item_table \<Rightarrow> i64 \<Rightarrow> (u32 \<Rightarrow> bytes) \<Rightarrow> item_class \<Rightarrow> attr_types \<Rightarrow> prop_stream \<Rightarrow> load_state \<Rightarrow> read_result" where
  "virtual_readAttr items now names ContainerC = container_readAttr items now"
| "virtual_readAttr items now names RewardChestC = container_readAttr items now"
| "virtual_readAttr items now names DepotLockerC = depot_readAttr items now"
| "virtual_readAttr items now names DoorC = door_readAttr items now"
| "virtual_readAttr items now names TeleportC = teleport_readAttr items now"
| "virtual_readAttr items now names BedC = bed_readAttr names items now"
| "virtual_readAttr items now names _ = readAttr items now"

text \<open>No branch reads behind the data, so the loop over the tags ends.\<close>

lemma with_read_length: "length (snd r) \<le> n \<Longrightarrow> length (snd (snd (with_read r f st))) \<le> n"
  by (cases r) (auto simp: with_read_def split: option.split)

lemma with_skip_length: "length (snd (snd (with_skip n s st))) \<le> length s"
  by (simp add: with_skip_def ps_skip_def)

lemma custom_loop_length: "length (snd (snd (custom_loop each n s st))) \<le> length s"
proof (induction n arbitrary: s st)
  case (Suc n)
  obtain k s1 where k: "ps_readString s = (k, s1)" by fastforce
  obtain a s2 where a: "custom_unserialize new_custom_attribute s1 = (a, s2)" by fastforce
  have "length s1 \<le> length s" "length s2 \<le> length s1"
    using ps_readString_length [of s] custom_unserialize_length [of new_custom_attribute s1] k a by simp_all
  then show ?case using Suc.IH [of s2] k a by (auto split: option.split intro: order_trans)
qed simp

lemma read_customs_length: "length (snd (snd (read_customs each s st))) \<le> length s"
proof -
  obtain n s1 where r: "ps_read s = (n :: u64 option, s1)" by fastforce
  then have "length s1 \<le> length s" using ps_read_length [of s, where 'a = 64] by simp
  then show ?thesis using r custom_loop_length [of each _ s1 st]
    by (auto simp: read_customs_def split: option.split intro: order_trans)
qed

lemma readAttr_length: "length (snd (snd (readAttr items now attr s st))) \<le> length s"
  by (cases attr) (simp_all add: readAttr_def with_read_length ps_read_length ps_readString_length with_skip_length
      read_customs_length)

lemma teleport_readAttr_length: "length (snd (snd (teleport_readAttr items now attr s st))) \<le> length s"
proof (cases "attr = ATTR_TELE_DEST")
  case True
  obtain x s1 where x: "ps_read s = (x :: u16 option, s1)" by fastforce
  obtain y s2 where y: "ps_read s1 = (y :: u16 option, s2)" by fastforce
  have "length s1 \<le> length s" "length s2 \<le> length s1"
    using ps_read_length [of s, where 'a = 16] ps_read_length [of s1, where 'a = 16] x y by simp_all
  then show ?thesis using x y True
    by (auto simp: teleport_readAttr_def Let_def split: option.split
        intro!: with_read_length order_trans [OF ps_read_length])
qed (simp add: teleport_readAttr_def readAttr_length)

lemma virtual_readAttr_length: "length (snd (snd (virtual_readAttr items now names cls attr s st))) \<le> length s"
proof -
  have "length (snd (snd (container_readAttr items now attr s st))) \<le> length s"
    using readAttr_length [of items now attr s st] ps_read_length [of s, where 'a = 32]
    by (auto simp: container_readAttr_def split: option.split prod.split)
  then show ?thesis
    by (cases cls) (auto simp: depot_readAttr_def door_readAttr_def bed_readAttr_def teleport_readAttr_length
        readAttr_length intro: with_read_length ps_read_length)
qed

lemma loop_decreases:
  assumes "ps_read s = (Some (b :: u8), s1)" "virtual_readAttr items now names cls attr s1 st = (r, st', s2)"
  shows "length s2 < length s"
proof -
  have "length s1 < length s" using assms(1) by (auto simp: ps_read_def ps_size_def split: if_splits)
  moreover have "length s2 \<le> length s1" using virtual_readAttr_length [of items now names cls attr s1 st] assms(2) by simp
  ultimately show ?thesis by simp
qed

function unserializeAttr ::
  "item_table \<Rightarrow> i64 \<Rightarrow> (u32 \<Rightarrow> bytes) \<Rightarrow> item_class \<Rightarrow> prop_stream \<Rightarrow> load_state \<Rightarrow> bool \<times> load_state \<times> prop_stream" where
  "unserializeAttr items now names cls s st = (case ps_read s :: u8 option \<times> prop_stream of
      (None, s1) \<Rightarrow> (True, st, s1)
    | (Some b, s1) \<Rightarrow>
        if b = 0 then (True, st, s1)
        else (case attr_of_code b of
            None \<Rightarrow> (False, st, s1)
          | Some attr \<Rightarrow> (case virtual_readAttr items now names cls attr s1 st of
                (ATTR_READ_ERROR, st', s2) \<Rightarrow> (False, st', s2)
              | (ATTR_READ_END, st', s2) \<Rightarrow> (True, st', s2)
              | (ATTR_READ_CONTINUE, st', s2) \<Rightarrow> unserializeAttr items now names cls s2 st')))"
  by pat_completeness auto

termination
  by (relation "measure (\<lambda>(items, now, names, cls, s, st). length s)") (auto intro: loop_decreases [OF sym sym])

declare unserializeAttr.simps [simp del]

section \<open>Writing\<close>

definition emit :: "bool \<Rightarrow> attr_types \<Rightarrow> (prop_write_stream \<Rightarrow> prop_write_stream) \<Rightarrow> prop_write_stream \<Rightarrow> prop_write_stream" where
  "emit c a w b = (if c then w (pw_write (attr_code a) b) else b)"

definition write_customs :: "custom_map \<Rightarrow> prop_write_stream \<Rightarrow> prop_write_stream" where
  "write_customs m b = fold (\<lambda>(k, a) b. custom_serialize a (pw_writeString k b)) m (pw_write (of_nat (length m) :: u64) b)"

definition serializeAttr :: "item_table \<Rightarrow> i64 \<Rightarrow> int \<Rightarrow> item \<Rightarrow> prop_write_stream \<Rightarrow> prop_write_stream" where
  "serializeAttr items now maxTier i b =
     (let it = items (item_id i) in fold (\<lambda>w. w)
       [emit (getInteger STORE i \<noteq> 0) ATTR_STORE (pw_write (getInteger STORE i)),
        emit (it_stackable it \<or> isFluidContainer it \<or> isSplash it) ATTR_COUNT (pw_write (ucast (getSubType items i) :: u8)),
        emit ((ucast (getInteger CHARGES i) :: u16) \<noteq> 0) ATTR_CHARGES (pw_write (ucast (getInteger CHARGES i) :: u16)),
        emit (it_movable it \<and> (ucast (getInteger ACTIONID i) :: u16) \<noteq> 0) ATTR_ACTION_ID
          (pw_write (ucast (getInteger ACTIONID i) :: u16)),
        emit (item_getString TEXT i \<noteq> []) ATTR_TEXT (pw_writeString (item_getString TEXT i)),
        emit (getInteger DATE i \<noteq> 0) ATTR_WRITTENDATE (pw_write (getInteger DATE i)),
        emit (item_getString WRITER i \<noteq> []) ATTR_WRITTENBY (pw_writeString (item_getString WRITER i)),
        emit (item_getString DESCRIPTION i \<noteq> []) ATTR_DESC (pw_writeString (item_getString DESCRIPTION i)),
        emit (hasAttribute DURATION i) ATTR_DURATION (pw_write (getDuration now i)),
        emit (getDecaying i = decay_code DECAYING_TRUE \<or> getDecaying i = decay_code DECAYING_PENDING) ATTR_DECAYING_STATE
          (pw_write (getDecaying i)),
        emit (hasAttribute NAME i) ATTR_NAME (pw_writeString (item_getString NAME i)),
        emit (hasAttribute ARTICLE i) ATTR_ARTICLE (pw_writeString (item_getString ARTICLE i)),
        emit (hasAttribute PLURALNAME i) ATTR_PLURALNAME (pw_writeString (item_getString PLURALNAME i)),
        emit (hasAttribute WEIGHT i) ATTR_WEIGHT (pw_write (ucast (getInteger WEIGHT i) :: u32)),
        emit (hasAttribute ATTACK i) ATTR_ATTACK (pw_write (ucast (getInteger ATTACK i) :: i32)),
        emit (hasAttribute DEFENSE i) ATTR_DEFENSE (pw_write (ucast (getInteger DEFENSE i) :: i32)),
        emit (hasAttribute EXTRADEFENSE i) ATTR_EXTRADEFENSE (pw_write (ucast (getInteger EXTRADEFENSE i) :: i32)),
        emit (hasAttribute IMBUEMENT_SLOT i) ATTR_IMBUEMENT_SLOT (pw_write (ucast (getInteger IMBUEMENT_SLOT i) :: i32)),
        emit (hasAttribute OPENCONTAINER i) ATTR_OPENCONTAINER (pw_write (ucast (getInteger OPENCONTAINER i) :: u8)),
        emit (hasAttribute ARMOR i) ATTR_ARMOR (pw_write (ucast (getInteger ARMOR i) :: i32)),
        emit (hasAttribute HITCHANCE i) ATTR_HITCHANCE (pw_write (ucast (getInteger HITCHANCE i) :: 8 word)),
        emit (hasAttribute SHOOTRANGE i) ATTR_SHOOTRANGE (pw_write (ucast (getInteger SHOOTRANGE i) :: u8)),
        emit (hasAttribute SPECIAL i) ATTR_SPECIAL (pw_writeString (item_getString SPECIAL i)),
        emit (hasAttribute QUICKLOOTCONTAINER i) ATTR_QUICKLOOTCONTAINER
          (pw_write (ucast (getInteger QUICKLOOTCONTAINER i) :: u32)),
        emit (hasAttribute TIER i) ATTR_TIER (pw_write (getTier maxTier i)),
        emit (hasAttribute AMOUNT i) ATTR_AMOUNT (pw_write (ucast (getInteger AMOUNT i) :: u16)),
        emit (hasAttribute STORE_INBOX_CATEGORY i) ATTR_STORE_INBOX_CATEGORY (pw_writeString (item_getString STORE_INBOX_CATEGORY i)),
        emit (hasAttribute OWNER i) ATTR_OWNER (pw_write (ucast (getInteger OWNER i) :: u32)),
        emit (customAttributeMap i \<noteq> []) ATTR_CUSTOM (write_customs (customAttributeMap i)),
        emit (hasAttribute OBTAINCONTAINER i) ATTR_OBTAINCONTAINER
          (pw_write (ucast (getInteger OBTAINCONTAINER i) :: u32))] b)"

text \<open>A teleport appends its destination; a bed writes its sleeper instead of the attributes of an item.\<close>

definition teleport_serializeAttr ::
  "item_table \<Rightarrow> i64 \<Rightarrow> int \<Rightarrow> class_fields \<Rightarrow> item \<Rightarrow> prop_write_stream \<Rightarrow> prop_write_stream" where
  "teleport_serializeAttr items now maxTier x i b =
     pw_write (pos_z (destPos x)) (pw_write (pos_y (destPos x)) (pw_write (pos_x (destPos x))
       (pw_write (attr_code ATTR_TELE_DEST) (serializeAttr items now maxTier i b))))"

definition bed_serializeAttr :: "class_fields \<Rightarrow> prop_write_stream \<Rightarrow> prop_write_stream" where
  "bed_serializeAttr x b =
     emit (sleepStart x \<noteq> 0) ATTR_SLEEPSTART (pw_write (ucast (sleepStart x) :: u32))
       (emit (sleeperGUID x \<noteq> 0) ATTR_SLEEPERGUID (pw_write (sleeperGUID x)) b)"

fun virtual_serializeAttr ::
  "item_table \<Rightarrow> i64 \<Rightarrow> int \<Rightarrow> item_class \<Rightarrow> class_fields \<Rightarrow> item \<Rightarrow> prop_write_stream \<Rightarrow> prop_write_stream" where
  "virtual_serializeAttr items now maxTier TeleportC x i = teleport_serializeAttr items now maxTier x i"
| "virtual_serializeAttr items now maxTier BedC x i = bed_serializeAttr x"
| "virtual_serializeAttr items now maxTier _ x i = serializeAttr items now maxTier i"

section \<open>What was written is read back\<close>

text \<open>
  \<open>reads W F\<close>: the writer \<open>W\<close> appends bytes whose reading has the effect \<open>F\<close> on the item and goes on with
  what follows them.
\<close>

definition reads :: "item_table \<Rightarrow> i64 \<Rightarrow> (u32 \<Rightarrow> bytes) \<Rightarrow> item_class \<Rightarrow> (prop_write_stream \<Rightarrow> prop_write_stream) \<Rightarrow> (item \<Rightarrow> item) \<Rightarrow> bool" where
  "reads items now names cls W F \<longleftrightarrow> (\<exists>q. (\<forall>b. W b = b @ q)
     \<and> (\<forall>rest st. unserializeAttr items now names cls (q @ rest) st = unserializeAttr items now names cls rest (on_item F st)))"

definition apply_if :: "bool \<Rightarrow> (item \<Rightarrow> item) \<Rightarrow> item \<Rightarrow> item" where
  "apply_if c f i = (if c then f i else i)"

lemma on_item_id [simp]: "on_item (\<lambda>i. i) st = st" "on_item id st = st"
  by (simp_all add: on_item_def)

lemma on_item_comp: "on_item g (on_item f st) = on_item (\<lambda>i. g (f i)) st"
  by (simp add: on_item_def)

lemma reads_fold:
  "list_all2 (reads items now names cls) Ws Fs \<Longrightarrow> reads items now names cls (fold (\<lambda>w. w) Ws) (fold (\<lambda>f. f) Fs)"
proof (induction rule: list_all2_induct)
  case Nil
  then show ?case by (simp add: reads_def id_def)
next
  case (Cons W Ws F Fs)
  from Cons(1) obtain q where q: "\<And>b. W b = b @ q"
      "\<And>rest st. unserializeAttr items now names cls (q @ rest) st = unserializeAttr items now names cls rest (on_item F st)"
    unfolding reads_def by blast
  from Cons(3) obtain r where r: "\<And>b. fold (\<lambda>w. w) Ws b = b @ r"
      "\<And>rest st. unserializeAttr items now names cls (r @ rest) st
         = unserializeAttr items now names cls rest (on_item (fold (\<lambda>f. f) Fs) st)"
    unfolding reads_def by blast
  show ?case unfolding reads_def
    by (rule exI [of _ "q @ r"]) (simp add: q r on_item_comp comp_def)
qed

text \<open>Tags that no class handles in its own way.\<close>

definition shared_tag :: "attr_types \<Rightarrow> bool" where
  "shared_tag tag \<longleftrightarrow> tag \<notin> {ATTR_CONTAINER_ITEMS, ATTR_DEPOT_ID, ATTR_HOUSEDOORID, ATTR_TELE_DEST, ATTR_SLEEPERGUID, ATTR_SLEEPSTART}"

lemma reads_emit:
  assumes w: "\<And>b. w b = b @ p"
    and r: "\<And>rest st. readAttr items now tag (p @ rest) st = (ATTR_READ_CONTINUE, on_item f st, rest)"
    and tag: "shared_tag tag"
  shows "reads items now names cls (emit c tag w) (apply_if c f)"
proof (cases c)
  case True
  have "virtual_readAttr items now names cls tag (p @ rest) st = (ATTR_READ_CONTINUE, on_item f st, rest)" for rest st
    using tag by (cases cls) (simp_all add: shared_tag_def container_readAttr_def depot_readAttr_def door_readAttr_def
        teleport_readAttr_def bed_readAttr_def r)
  then have "unserializeAttr items now names cls ((attr_code tag # p) @ rest) st = unserializeAttr items now names cls rest (on_item f st)" for rest st
    by (subst unserializeAttr.simps) (simp add: attr_code_inverse)
  then show ?thesis unfolding reads_def apply_if_def
    by (intro exI [of _ "attr_code tag # p"]) (simp add: True emit_def w)
qed (simp add: reads_def emit_def apply_if_def [abs_def] exI [of _ "[]"])

lemma reads_word:
  assumes "8 * (LENGTH('a::len) div 8) = LENGTH('a)"
    and "\<And>s st. readAttr items now tag s st = with_read (ps_read s) (\<lambda>v :: 'a word. on_item (f v)) st"
    and "shared_tag tag"
  shows "reads items now names cls (emit c tag (pw_write (v :: 'a word))) (apply_if c (f v))"
  by (rule reads_emit [where p = "le_bytes (LENGTH('a) div 8) v"])
    (simp_all add: pw_write_def assms(2) with_read_def ps_read_le_bytes [OF assms(1)] assms(3))

lemma reads_text:
  assumes "length str \<le> 65535"
    and "\<And>s st. readAttr items now tag s st = with_read (ps_readString s) (\<lambda>v. on_item (f v)) st"
    and "shared_tag tag"
  shows "reads items now names cls (emit c tag (pw_writeString str)) (apply_if c (f str))"
  using assms(1)
  by (intro reads_emit [where p = "le_bytes 2 (of_nat (length str) :: u16) @ str"])
    (simp_all add: pw_writeString_def pw_write_def assms(2,3) with_read_def ps_readString_enc)

definition custom_fits :: "custom_map \<Rightarrow> bool" where
  "custom_fits m \<longleftrightarrow> length m < 2 ^ 64 \<and> list_all (\<lambda>(k, a). length k \<le> 65535 \<and> custom_short (custom_val a)) m"

definition add_customs :: "custom_map \<Rightarrow> item \<Rightarrow> item" where
  "add_customs m i = fold (\<lambda>(k, a). add_custom k (new_custom_attribute\<lparr>custom_val := custom_val a\<rparr>)) m i"

definition enc_customs :: "custom_map \<Rightarrow> bytes" where
  "enc_customs m = concat (map (\<lambda>(k, a). enc_prop (PStr k) @ enc_custom (custom_val a)) m)"

lemma write_customs_enc: "write_customs m b = b @ le_bytes 8 (of_nat (length m) :: u64) @ enc_customs m"
proof -
  have "fold (\<lambda>(k, a) b. custom_serialize a (pw_writeString k b)) m b = b @ enc_customs m" for b
    unfolding enc_customs_def
    by (induction m arbitrary: b)
      (auto simp: custom_serialize_enc write_prop_enc [of "PStr _", simplified write_prop.simps])
  then show ?thesis by (simp add: write_customs_def pw_write_def)
qed

lemma custom_loop_enc:
  "list_all (\<lambda>(k, a). length k \<le> 65535 \<and> custom_short (custom_val a)) m \<Longrightarrow>
   custom_loop id (length m) (enc_customs m @ rest) st = (ATTR_READ_CONTINUE, on_item (add_customs m) st, rest)"
proof (induction m arbitrary: st)
  case Nil
  then show ?case by (simp add: enc_customs_def add_customs_def [abs_def] id_def)
next
  case (Cons ka m)
  obtain k a where ka: "ka = (k, a)" by force
  then show ?case using Cons
    by (simp add: enc_customs_def ps_readString_enc custom_unserialize_enc add_customs_def [abs_def] on_item_comp comp_def)
qed

lemma reads_customs:
  "custom_fits m \<Longrightarrow> reads items now names cls (emit c ATTR_CUSTOM (write_customs m)) (apply_if c (add_customs m))"
  by (rule reads_emit [OF write_customs_enc])
    (auto simp: readAttr_def read_customs_def custom_fits_def ps_read_le_bytes unat_of_nat_lt custom_loop_enc shared_tag_def)

text \<open>The effects of reading back an item, in the order they were written.\<close>

definition restore :: "item_table \<Rightarrow> i64 \<Rightarrow> int \<Rightarrow> item \<Rightarrow> item \<Rightarrow> item" where
  "restore items now maxTier i = (let it = items (item_id i) in fold (\<lambda>f. f)
     [apply_if (getInteger STORE i \<noteq> 0) (set_int STORE (getInteger STORE i)),
      apply_if (it_stackable it \<or> isFluidContainer it \<or> isSplash it)
        (setSubType items (ucast (ucast (getSubType items i) :: u8))),
      apply_if ((ucast (getInteger CHARGES i) :: u16) \<noteq> 0) (setSubType items (ucast (getInteger CHARGES i))),
      apply_if (it_movable it \<and> (ucast (getInteger ACTIONID i) :: u16) \<noteq> 0)
        (set_int ACTIONID (ucast (ucast (getInteger ACTIONID i) :: u16))),
      apply_if (item_getString TEXT i \<noteq> []) (set_string TEXT (item_getString TEXT i)),
      apply_if (getInteger DATE i \<noteq> 0) (set_int DATE (getInteger DATE i)),
      apply_if (item_getString WRITER i \<noteq> []) (set_string WRITER (item_getString WRITER i)),
      apply_if (item_getString DESCRIPTION i \<noteq> []) (set_string DESCRIPTION (item_getString DESCRIPTION i)),
      apply_if (hasAttribute DURATION i) (setDuration (getDuration now i)),
      apply_if (getDecaying i = decay_code DECAYING_TRUE \<or> getDecaying i = decay_code DECAYING_PENDING)
        (setDecaying DECAYING_PENDING),
      apply_if (hasAttribute NAME i) (set_string NAME (item_getString NAME i)),
      apply_if (hasAttribute ARTICLE i) (set_string ARTICLE (item_getString ARTICLE i)),
      apply_if (hasAttribute PLURALNAME i) (set_string PLURALNAME (item_getString PLURALNAME i)),
      apply_if (hasAttribute WEIGHT i) (set_int WEIGHT (ucast (ucast (getInteger WEIGHT i) :: u32))),
      apply_if (hasAttribute ATTACK i) (set_int ATTACK (scast (ucast (getInteger ATTACK i) :: i32))),
      apply_if (hasAttribute DEFENSE i) (set_int DEFENSE (scast (ucast (getInteger DEFENSE i) :: i32))),
      apply_if (hasAttribute EXTRADEFENSE i) (set_int EXTRADEFENSE (scast (ucast (getInteger EXTRADEFENSE i) :: i32))),
      apply_if (hasAttribute IMBUEMENT_SLOT i) (set_int IMBUEMENT_SLOT (scast (ucast (getInteger IMBUEMENT_SLOT i) :: i32))),
      apply_if (hasAttribute OPENCONTAINER i) (set_int OPENCONTAINER (ucast (ucast (getInteger OPENCONTAINER i) :: u8))),
      apply_if (hasAttribute ARMOR i) (set_int ARMOR (scast (ucast (getInteger ARMOR i) :: i32))),
      apply_if (hasAttribute HITCHANCE i) (set_int HITCHANCE (scast (ucast (getInteger HITCHANCE i) :: 8 word))),
      apply_if (hasAttribute SHOOTRANGE i) (set_int SHOOTRANGE (ucast (ucast (getInteger SHOOTRANGE i) :: u8))),
      apply_if (hasAttribute SPECIAL i) (store_special (item_getString SPECIAL i)),
      apply_if (hasAttribute QUICKLOOTCONTAINER i)
        (set_int QUICKLOOTCONTAINER (ucast (ucast (getInteger QUICKLOOTCONTAINER i) :: u32))),
      apply_if (hasAttribute TIER i) (set_int TIER (ucast (getTier maxTier i))),
      apply_if (hasAttribute AMOUNT i) (set_int AMOUNT (ucast (ucast (getInteger AMOUNT i) :: u16))),
      apply_if (hasAttribute STORE_INBOX_CATEGORY i) (set_string STORE_INBOX_CATEGORY (item_getString STORE_INBOX_CATEGORY i)),
      apply_if (hasAttribute OWNER i) (set_int OWNER (ucast (ucast (getInteger OWNER i) :: u32))),
      apply_if (customAttributeMap i \<noteq> []) (add_customs (customAttributeMap i)),
      apply_if (hasAttribute OBTAINCONTAINER i) (set_int OBTAINCONTAINER (ucast (ucast (getInteger OBTAINCONTAINER i) :: u32)))])"

definition strings_fit :: "item \<Rightarrow> bool" where
  "strings_fit i \<longleftrightarrow> list_all (\<lambda>t. length (item_getString t i) \<le> 65535)
     [TEXT, WRITER, DESCRIPTION, NAME, ARTICLE, PLURALNAME, SPECIAL, STORE_INBOX_CATEGORY]"

lemma reads_serializeAttr:
  assumes "strings_fit i" "custom_fits (customAttributeMap i)"
  shows "reads items now' names cls (serializeAttr items now maxTier i) (restore items now maxTier i)"
proof -
  have len: "length (item_getString t i) \<le> 65535"
    if "t \<in> {TEXT, WRITER, DESCRIPTION, NAME, ARTICLE, PLURALNAME, SPECIAL, STORE_INBOX_CATEGORY}" for t
    using assms(1) that by (auto simp: strings_fit_def)
  have decay: "reads items now' names cls (emit (v = 1 \<or> v = 2) ATTR_DECAYING_STATE (pw_write (v :: u8)))
      (apply_if (v = 1 \<or> v = 2) (setDecaying DECAYING_PENDING))" for v
  proof -
    have "reads items now' names cls (emit c ATTR_DECAYING_STATE (pw_write v))
        (apply_if c (if v \<noteq> 0 then setDecaying DECAYING_PENDING else id))" for c
      by (rule reads_emit [where p = "[v]"]) (auto simp: readAttr_def with_read_def shared_tag_def)
    from this [of "v = 1 \<or> v = 2"] show ?thesis by (cases "v = 0") (simp_all add: apply_if_def [abs_def])
  qed
  show ?thesis unfolding serializeAttr_def [abs_def] restore_def Let_def decay_code.simps
    by (rule reads_fold)
      (simp only: list.rel_inject list.rel_intros simp_thms;
       intro conjI reads_customs [OF assms(2)] decay reads_text reads_word; simp add: readAttr_def len shared_tag_def)
qed

section \<open>The item that results\<close>

lemma apply_if_fields [simp]:
  "(\<And>x. item_id (f x) = item_id x) \<Longrightarrow> item_id (apply_if c f x) = item_id x"
  "(\<And>x. item_count (f x) = item_count x) \<Longrightarrow> item_count (apply_if c f x) = item_count x"
  "(\<And>x. customAttributeMap (f x) = customAttributeMap x) \<Longrightarrow> customAttributeMap (apply_if c f x) = customAttributeMap x"
  by (simp_all add: apply_if_def)

lemma apply_if_ok: "item_ok x \<Longrightarrow> (\<And>y. item_ok y \<Longrightarrow> item_ok (f y)) \<Longrightarrow> item_ok (apply_if c f x)"
  by (simp add: apply_if_def)

lemma apply_if_set_int:
  "item_ok x \<Longrightarrow> item_attr (apply_if c (set_int t n) x) u = (if c \<and> isAttributeInteger t \<and> u = t then Some (IntV n) else item_attr x u)"
  by (simp add: apply_if_def set_int_item)

lemma apply_if_set_string:
  "item_ok x \<Longrightarrow> item_attr (apply_if c (set_string t s) x) u
     = (if c \<and> isAttributeString t \<and> s \<noteq> [] \<and> u = t then Some (StrV s) else item_attr x u)"
  by (simp add: apply_if_def set_string_item)

lemma setDuration_item [simp]:
  "item_ok x \<Longrightarrow> item_ok (setDuration d x)" "item_id (setDuration d x) = item_id x"
  "item_count (setDuration d x) = item_count x" "customAttributeMap (setDuration d x) = customAttributeMap x"
  by (simp_all add: setDuration_def set_int_item)

lemma setPending_item [simp]:
  "item_ok x \<Longrightarrow> item_ok (setDecaying DECAYING_PENDING x)" "item_id (setDecaying DECAYING_PENDING x) = item_id x"
  "item_count (setDecaying DECAYING_PENDING x) = item_count x"
  "customAttributeMap (setDecaying DECAYING_PENDING x) = customAttributeMap x"
  by (simp_all add: setDecaying_def set_int_item)

lemma setSubType_item [simp]:
  "item_ok x \<Longrightarrow> item_ok (setSubType items n x)" "item_id (setSubType items n x) = item_id x"
  "customAttributeMap (setSubType items n x) = customAttributeMap x"
  by (simp_all add: setSubType_def Let_def set_int_item)

lemma apply_if_duration:
  "item_ok x \<Longrightarrow> item_attr (apply_if c (setDuration d) x) u = (if c \<and> u = DURATION then Some (IntV (scast (max0 d))) else item_attr x u)"
  by (simp add: apply_if_def setDuration_def set_int_item isAttributeInteger_def)

lemma apply_if_pending:
  "item_ok x \<Longrightarrow> item_attr (apply_if c (setDecaying DECAYING_PENDING) x) u = (if c \<and> u = DECAYSTATE then Some (IntV 2) else item_attr x u)"
  by (simp add: apply_if_def setDecaying_def Let_def set_int_item isAttributeInteger_def)

lemma custom_ok_add:
  "custom_ok m \<Longrightarrow> custom_ok (addCustomAttribute k a m)" "custom_ok m \<Longrightarrow> custom_ok (setCustomAttribute k v m)"
  by (simp_all add: addCustomAttribute_def setCustomAttribute_def custom_attributes.good_assign)

lemma add_customs_item [simp]:
  "item_ok x \<Longrightarrow> item_ok (add_customs m x)" "item_id (add_customs m x) = item_id x"
  "item_count (add_customs m x) = item_count x" "item_attr (add_customs m x) = item_attr x"
proof -
  have "(item_ok x \<longrightarrow> item_ok (add_customs m x)) \<and> item_id (add_customs m x) = item_id x
    \<and> item_count (add_customs m x) = item_count x \<and> item_attr (add_customs m x) = item_attr x"
    unfolding add_customs_def
    by (induction m arbitrary: x) (auto simp: add_custom_def item_ok_def item_attr_def fun_eq_iff custom_ok_add)
  then show "item_ok x \<Longrightarrow> item_ok (add_customs m x)" "item_id (add_customs m x) = item_id x"
    "item_count (add_customs m x) = item_count x" "item_attr (add_customs m x) = item_attr x" by auto
qed

lemma apply_if_customs: "item_attr (apply_if c (add_customs m) x) u = item_attr x u"
  by (simp add: apply_if_def)

lemma store_special_item [simp]:
  "item_ok x \<Longrightarrow> item_ok (store_special s x)" "item_id (store_special s x) = item_id x"
  "item_count (store_special s x) = item_count x"
  "item_id x \<noteq> HIRELING_LAMP \<Longrightarrow> store_special s x = set_string SPECIAL s x"
  using removeAttribute_item(1) [OF set_string_item(1), of x SPECIAL SPECIAL s] set_string_item(1) [of x SPECIAL s]
  by (auto simp: store_special_def Let_def set_custom_def set_string_item item_ok_def custom_ok_add)

lemma apply_if_special:
  "item_ok x \<Longrightarrow> c \<longrightarrow> item_id x \<noteq> HIRELING_LAMP \<Longrightarrow>
   item_attr (apply_if c (store_special s) x) u = (if c \<and> s \<noteq> [] \<and> u = SPECIAL then Some (StrV s) else item_attr x u)"
  "c \<longrightarrow> item_id x \<noteq> HIRELING_LAMP \<Longrightarrow> customAttributeMap (apply_if c (store_special s) x) = customAttributeMap x"
  by (auto simp: apply_if_def set_string_item isAttributeString_def)

lemma apply_if_subtype:
  assumes "item_ok x"
  shows "item_attr (apply_if c (setSubType items n) x) u =
    (if c \<and> u = (if isFluidContainer (items (item_id x)) \<or> isSplash (items (item_id x)) then FLUIDTYPE
         else if it_stackable (items (item_id x)) \<or> it_charges (items (item_id x)) = 0 then NONE else CHARGES) \<and> u \<noteq> NONE
     then Some (IntV (ucast n)) else item_attr x u)"
    and "item_count (apply_if c (setSubType items n) x) =
    (if c \<and> \<not> isFluidContainer (items (item_id x)) \<and> \<not> isSplash (items (item_id x))
         \<and> (it_stackable (items (item_id x)) \<or> it_charges (items (item_id x)) = 0) then ucast n else item_count x)"
  using assms by (auto simp: apply_if_def setSubType_def Let_def set_int_item isAttributeInteger_def)

lemmas apply_if_rules = apply_if_ok apply_if_set_int apply_if_set_string apply_if_duration apply_if_pending
  apply_if_customs apply_if_special apply_if_subtype set_int_item(1) set_string_item(1)

text \<open>
  Items that can be stored without loss: every integer is in the range of its field, a tier does not
  exceed the configured maximum, and the attributes that share the sub type agree with the item type.  A
  charge count of zero is not written, so an item type with charges would come back with all of them.
\<close>

definition int_fields :: "item_attribute_t list" where
  "int_fields = [STORE, CHARGES, FLUIDTYPE, ACTIONID, DATE, WEIGHT, ATTACK, DEFENSE, EXTRADEFENSE, IMBUEMENT_SLOT,
     OPENCONTAINER, ARMOR, HITCHANCE, SHOOTRANGE, QUICKLOOTCONTAINER, TIER, AMOUNT, OWNER, OBTAINCONTAINER]"

definition string_fields :: "item_attribute_t list" where
  "string_fields = [TEXT, WRITER, DESCRIPTION, NAME, ARTICLE, PLURALNAME, SPECIAL, STORE_INBOX_CATEGORY]"

definition int_fits :: "item_attribute_t \<Rightarrow> i64 \<Rightarrow> bool" where
  "int_fits t n \<longleftrightarrow>
     (t \<in> {WEIGHT, QUICKLOOTCONTAINER, OWNER, OBTAINCONTAINER} \<longrightarrow> ucast (ucast n :: u32) = n)
   \<and> (t \<in> {ATTACK, DEFENSE, EXTRADEFENSE, IMBUEMENT_SLOT, ARMOR} \<longrightarrow> scast (ucast n :: i32) = n)
   \<and> (t \<in> {OPENCONTAINER, SHOOTRANGE, TIER, FLUIDTYPE} \<longrightarrow> ucast (ucast n :: u8) = n)
   \<and> (t = HITCHANCE \<longrightarrow> scast (ucast n :: u8) = n)
   \<and> (t \<in> {CHARGES, ACTIONID, AMOUNT} \<longrightarrow> ucast (ucast n :: u16) = n)"

definition subtype_ok :: "item_table \<Rightarrow> item \<Rightarrow> bool" where
  "subtype_ok items i = (let it = items (item_id i) in
     if isFluidContainer it \<or> isSplash it then item_count i = 1 \<and> getInteger CHARGES i = 0
     else if it_stackable it then getInteger CHARGES i = 0 \<and> getInteger FLUIDTYPE i = 0
     else item_count i = 1 \<and> getInteger FLUIDTYPE i = 0 \<and> (getInteger CHARGES i \<noteq> 0 \<longleftrightarrow> it_charges it \<noteq> 0))"

definition savable :: "item_table \<Rightarrow> int \<Rightarrow> item \<Rightarrow> bool" where
  "savable items maxTier i \<longleftrightarrow> item_ok i \<and> strings_fit i \<and> custom_fits (customAttributeMap i)
     \<and> list_all (\<lambda>t. int_fits t (getInteger t i)) int_fields \<and> subtype_ok items i
     \<and> (hasAttribute TIER i \<longrightarrow> uint (ucast (getInteger TIER i) :: u8) \<le> maxTier)
     \<and> (item_id i = HIRELING_LAMP \<longrightarrow> \<not> hasAttribute SPECIAL i)
     \<and> (\<not> it_movable (items (item_id i)) \<longrightarrow> getInteger ACTIONID i = 0)"

definition custom_values :: "item \<Rightarrow> (bytes \<times> custom_value) list" where
  "custom_values i = map (\<lambda>(k, a). (k, custom_val a)) (customAttributeMap i)"

text \<open>
  What a stored item and its loaded copy have in common.  A running countdown is stored as the time that
  was left at \<open>now\<close> and comes back as one that is pending.
\<close>

definition same_item :: "i64 \<Rightarrow> item \<Rightarrow> item \<Rightarrow> bool" where
  "same_item now i j \<longleftrightarrow> item_id j = item_id i \<and> item_count j = item_count i
     \<and> list_all (\<lambda>t. getInteger t j = getInteger t i) int_fields
     \<and> list_all (\<lambda>t. item_getString t j = item_getString t i) string_fields
     \<and> custom_values j = custom_values i
     \<and> (hasAttribute DURATION i \<longrightarrow> getInteger DURATION j = scast (max0 (getDuration now i)))
     \<and> getInteger DECAYSTATE j = (if getDecaying i \<in> {1, 2} then 2 else 0)"

lemma new_item_attr:
  shows "item_ok (new_item items itemId n)"
    and "t \<notin> {DURATION, CHARGES, FLUIDTYPE} \<Longrightarrow> item_attr (new_item items itemId n) t = None"
    and "item_id (new_item items itemId n) = itemId" "customAttributeMap (new_item items itemId n) = []"
proof -
  let ?i = "\<lparr>item_id = itemId, item_count = 1, attributeVector = [], customAttributeMap = [],
     loadedFromMap = False, decayDisabled = False\<rparr>"
  have [simp]: "item_ok ?i" "item_attr ?i t = None"
    by (simp_all add: item_ok_def attrs_ok_def custom_ok_def item_attr_def get_attr_def)
  show "item_ok (new_item items itemId n)"
    by (simp add: new_item_def Let_def setDefaultDuration_def set_int_item)
  show "t \<notin> {DURATION, CHARGES, FLUIDTYPE} \<Longrightarrow> item_attr (new_item items itemId n) t = None"
    by (simp add: new_item_def Let_def setDefaultDuration_def set_int_item setDuration_def)
  show "item_id (new_item items itemId n) = itemId" "customAttributeMap (new_item items itemId n) = []"
    by (simp_all add: new_item_def Let_def setDefaultDuration_def)
qed

lemma new_item_defaults:
  "\<not> isFluidContainer (items itemId) \<Longrightarrow> \<not> isSplash (items itemId) \<Longrightarrow> item_attr (new_item items itemId n) FLUIDTYPE = None"
  "isFluidContainer (items itemId) \<or> isSplash (items itemId) \<or> it_stackable (items itemId) \<or> it_charges (items itemId) = 0 \<Longrightarrow>
     item_attr (new_item items itemId n) CHARGES = None"
  "isFluidContainer (items itemId) \<or> isSplash (items itemId) \<or> \<not> it_stackable (items itemId) \<Longrightarrow> item_count (new_item items itemId n) = 1"
proof -
  let ?i = "\<lparr>item_id = itemId, item_count = 1, attributeVector = [], customAttributeMap = [],
     loadedFromMap = False, decayDisabled = False\<rparr>"
  have [simp]: "item_ok ?i" "item_attr ?i t = None" for t
    by (simp_all add: item_ok_def attrs_ok_def custom_ok_def item_attr_def get_attr_def)
  show "\<not> isFluidContainer (items itemId) \<Longrightarrow> \<not> isSplash (items itemId) \<Longrightarrow> item_attr (new_item items itemId n) FLUIDTYPE = None"
    by (simp add: new_item_def Let_def setDefaultDuration_def set_int_item setDuration_def)
  show "isFluidContainer (items itemId) \<or> isSplash (items itemId) \<or> it_stackable (items itemId) \<or> it_charges (items itemId) = 0 \<Longrightarrow>
     item_attr (new_item items itemId n) CHARGES = None"
    by (auto simp: new_item_def Let_def setDefaultDuration_def set_int_item setDuration_def)
  show "isFluidContainer (items itemId) \<or> isSplash (items itemId) \<or> \<not> it_stackable (items itemId) \<Longrightarrow> item_count (new_item items itemId n) = 1"
    by (auto simp: new_item_def Let_def setDefaultDuration_def)
qed

lemma restore_attr:
  assumes "item_ok x" "item_id x = item_id i" "hasAttribute SPECIAL i \<longrightarrow> item_id i \<noteq> HIRELING_LAMP"
    and "r = restore items now maxTier i x"
  shows "item_ok r" "item_id r = item_id i"
    "item_attr r STORE = (if getInteger STORE i \<noteq> 0 then Some (IntV (getInteger STORE i)) else item_attr x STORE)"
    "item_attr r DATE = (if getInteger DATE i \<noteq> 0 then Some (IntV (getInteger DATE i)) else item_attr x DATE)"
    "item_attr r ACTIONID = (if it_movable (items (item_id i)) \<and> (ucast (getInteger ACTIONID i) :: u16) \<noteq> 0 then Some (IntV (ucast (ucast (getInteger ACTIONID i) :: u16))) else item_attr x ACTIONID)"
    "item_attr r DURATION = (if hasAttribute DURATION i then Some (IntV (scast (max0 (getDuration now i)))) else item_attr x DURATION)"
    "item_attr r DECAYSTATE = (if getDecaying i = 1 \<or> getDecaying i = 2 then Some (IntV 2) else item_attr x DECAYSTATE)"
    "item_attr r WEIGHT = (if hasAttribute WEIGHT i then Some (IntV (ucast (ucast (getInteger WEIGHT i) :: u32))) else item_attr x WEIGHT)"
    "item_attr r ATTACK = (if hasAttribute ATTACK i then Some (IntV (scast (ucast (getInteger ATTACK i) :: i32))) else item_attr x ATTACK)"
    "item_attr r DEFENSE = (if hasAttribute DEFENSE i then Some (IntV (scast (ucast (getInteger DEFENSE i) :: i32))) else item_attr x DEFENSE)"
    "item_attr r EXTRADEFENSE = (if hasAttribute EXTRADEFENSE i then Some (IntV (scast (ucast (getInteger EXTRADEFENSE i) :: i32))) else item_attr x EXTRADEFENSE)"
    "item_attr r IMBUEMENT_SLOT = (if hasAttribute IMBUEMENT_SLOT i then Some (IntV (scast (ucast (getInteger IMBUEMENT_SLOT i) :: i32))) else item_attr x IMBUEMENT_SLOT)"
    "item_attr r ARMOR = (if hasAttribute ARMOR i then Some (IntV (scast (ucast (getInteger ARMOR i) :: i32))) else item_attr x ARMOR)"
    "item_attr r OPENCONTAINER = (if hasAttribute OPENCONTAINER i then Some (IntV (ucast (ucast (getInteger OPENCONTAINER i) :: u8))) else item_attr x OPENCONTAINER)"
    "item_attr r SHOOTRANGE = (if hasAttribute SHOOTRANGE i then Some (IntV (ucast (ucast (getInteger SHOOTRANGE i) :: u8))) else item_attr x SHOOTRANGE)"
    "item_attr r HITCHANCE = (if hasAttribute HITCHANCE i then Some (IntV (scast (ucast (getInteger HITCHANCE i) :: u8))) else item_attr x HITCHANCE)"
    "item_attr r QUICKLOOTCONTAINER = (if hasAttribute QUICKLOOTCONTAINER i then Some (IntV (ucast (ucast (getInteger QUICKLOOTCONTAINER i) :: u32))) else item_attr x QUICKLOOTCONTAINER)"
    "item_attr r OWNER = (if hasAttribute OWNER i then Some (IntV (ucast (ucast (getInteger OWNER i) :: u32))) else item_attr x OWNER)"
    "item_attr r OBTAINCONTAINER = (if hasAttribute OBTAINCONTAINER i then Some (IntV (ucast (ucast (getInteger OBTAINCONTAINER i) :: u32))) else item_attr x OBTAINCONTAINER)"
    "item_attr r TIER = (if hasAttribute TIER i then Some (IntV (ucast (getTier maxTier i))) else item_attr x TIER)"
    "item_attr r AMOUNT = (if hasAttribute AMOUNT i then Some (IntV (ucast (ucast (getInteger AMOUNT i) :: u16))) else item_attr x AMOUNT)"
    "item_attr r TEXT = (if item_getString TEXT i \<noteq> [] then Some (StrV (item_getString TEXT i)) else item_attr x TEXT)"
    "item_attr r WRITER = (if item_getString WRITER i \<noteq> [] then Some (StrV (item_getString WRITER i)) else item_attr x WRITER)"
    "item_attr r DESCRIPTION = (if item_getString DESCRIPTION i \<noteq> [] then Some (StrV (item_getString DESCRIPTION i)) else item_attr x DESCRIPTION)"
    "item_attr r NAME = (if hasAttribute NAME i \<and> item_getString NAME i \<noteq> [] then Some (StrV (item_getString NAME i)) else item_attr x NAME)"
    "item_attr r ARTICLE = (if hasAttribute ARTICLE i \<and> item_getString ARTICLE i \<noteq> [] then Some (StrV (item_getString ARTICLE i)) else item_attr x ARTICLE)"
    "item_attr r PLURALNAME = (if hasAttribute PLURALNAME i \<and> item_getString PLURALNAME i \<noteq> [] then Some (StrV (item_getString PLURALNAME i)) else item_attr x PLURALNAME)"
    "item_attr r SPECIAL = (if hasAttribute SPECIAL i \<and> item_getString SPECIAL i \<noteq> [] then Some (StrV (item_getString SPECIAL i)) else item_attr x SPECIAL)"
    "item_attr r STORE_INBOX_CATEGORY = (if hasAttribute STORE_INBOX_CATEGORY i \<and> item_getString STORE_INBOX_CATEGORY i \<noteq> [] then Some (StrV (item_getString STORE_INBOX_CATEGORY i)) else item_attr x STORE_INBOX_CATEGORY)"
    "item_attr r FLUIDTYPE = (if isFluidContainer (items (item_id i)) \<or> isSplash (items (item_id i)) then Some (IntV (if (ucast (getInteger CHARGES i) :: u16) \<noteq> 0 then ucast (ucast (getInteger CHARGES i) :: u16) else ucast (ucast (ucast (getSubType items i) :: u8) :: u16))) else item_attr x FLUIDTYPE)"
    "item_attr r CHARGES = (if \<not> isFluidContainer (items (item_id i)) \<and> \<not> isSplash (items (item_id i)) \<and> \<not> it_stackable (items (item_id i)) \<and> it_charges (items (item_id i)) \<noteq> 0 \<and> (ucast (getInteger CHARGES i) :: u16) \<noteq> 0 then Some (IntV (ucast (ucast (getInteger CHARGES i) :: u16))) else item_attr x CHARGES)"
  using assms(1-3) unfolding assms(4) restore_def Let_def decay_code.simps
  by (simp_all add: apply_if_rules isAttributeInteger_def isAttributeString_def)

definition merge_customs :: "custom_map \<Rightarrow> custom_map \<Rightarrow> custom_map" where
  "merge_customs m c = fold (\<lambda>(k, a). addCustomAttribute k (new_custom_attribute\<lparr>custom_val := custom_val a\<rparr>)) m c"

lemma customs_add_customs: "customAttributeMap (add_customs m x) = merge_customs m (customAttributeMap x)"
  unfolding add_customs_def merge_customs_def
  by (induction m arbitrary: x) (auto simp: add_custom_def)

lemma custom_assign_append: "\<forall>l \<in> fst ` set m. l < k \<Longrightarrow> custom_assign k v m = m @ [(k, v)]"
  by (induction k v m rule: custom_assign.induct) auto

lemma merge_customs_append:
  assumes "custom_ok (c @ m)"
  shows "merge_customs m c = c @ map (\<lambda>(k, a). (k, new_custom_attribute\<lparr>custom_val := custom_val a\<rparr>)) m"
  using assms
proof (induction m arbitrary: c)
  case (Cons ka m)
  obtain k a where ka: "ka = (k, a)" by force
  let ?a = "new_custom_attribute\<lparr>custom_val := custom_val a\<rparr>"
  have "\<forall>l \<in> fst ` set c. l < k" "lower_bytes k = k" using Cons.prems by (auto simp: ka custom_ok_def sorted_wrt_append)
  then have "addCustomAttribute k ?a c = c @ [(k, ?a)]" by (simp add: addCustomAttribute_def custom_assign_append)
  moreover have "custom_ok ((c @ [(k, ?a)]) @ m)" using Cons.prems by (simp add: ka custom_ok_def)
  ultimately show ?case using Cons.IH [of "c @ [(k, ?a)]"] by (simp add: ka merge_customs_def)
qed (simp add: merge_customs_def)

lemma restore_rest:
  assumes "item_ok x" "item_id x = item_id i" "hasAttribute SPECIAL i \<longrightarrow> item_id i \<noteq> HIRELING_LAMP"
    and "r = restore items now maxTier i x"
  shows "item_count r = (let it = items (item_id i) in if isFluidContainer it \<or> isSplash it then item_count x
      else if it_stackable it \<or> it_charges it = 0
        then (if (ucast (getInteger CHARGES i) :: u16) \<noteq> 0 then ucast (ucast (getInteger CHARGES i) :: u16)
              else if it_stackable it then ucast (ucast (ucast (getSubType items i) :: u8) :: u16) else item_count x)
        else item_count x)"
    and "customAttributeMap r = merge_customs (customAttributeMap i) (customAttributeMap x)"
proof -
  have "apply_if (m \<noteq> []) (add_customs m) y = add_customs m y" for m y
    by (simp add: apply_if_def add_customs_def)
  then show "customAttributeMap r = merge_customs (customAttributeMap i) (customAttributeMap x)"
    using assms(1-3) unfolding assms(4) restore_def Let_def
    by (simp add: apply_if_rules customs_add_customs)
  show "item_count r = (let it = items (item_id i) in if isFluidContainer it \<or> isSplash it then item_count x
      else if it_stackable it \<or> it_charges it = 0
        then (if (ucast (getInteger CHARGES i) :: u16) \<noteq> 0 then ucast (ucast (getInteger CHARGES i) :: u16)
              else if it_stackable it then ucast (ucast (ucast (getSubType items i) :: u8) :: u16) else item_count x)
        else item_count x)"
    using assms(1-3) unfolding assms(4) restore_def Let_def
    by (simp add: apply_if_rules)
qed

lemma absent_is_zero: "\<not> hasAttribute t i \<Longrightarrow> getInteger t i = 0" "\<not> hasAttribute t i \<Longrightarrow> item_getString t i = []"
  by (simp_all add: hasAttribute_attr getInteger_attr item_getString_attr)

lemma byte_of_u16: "ucast (ucast (ucast (ucast (n :: i64) :: u16) :: u8) :: u16) = (ucast (ucast n :: u8) :: i64)"
  by (rule bit_word_eqI) (auto simp: bit_unsigned_iff dest: bit_imp_le_length)

lemma byte_round_trip: "ucast (ucast (ucast (ucast (n :: u8) :: u16) :: u8) :: u16) = n"
  by (rule bit_word_eqI) (auto simp: bit_unsigned_iff dest: bit_imp_le_length)

lemma restore_same:
  assumes s: "savable items maxTier i" and x: "x = new_item items (item_id i) n"
    and r: "r = restore items now maxTier i x"
  shows "same_item now i r"
proof -
  let ?it = "items (item_id i)"
  have special: "hasAttribute SPECIAL i \<longrightarrow> item_id i \<noteq> HIRELING_LAMP" using s by (auto simp: savable_def)
  have ok: "item_ok x" and id: "item_id x = item_id i" by (simp_all add: x new_item_attr)
  have none: "t \<notin> {DURATION, CHARGES, FLUIDTYPE} \<Longrightarrow> item_attr x t = None" for t by (simp add: x new_item_attr)
  note A = restore_attr [OF ok id special r] and B = restore_rest [OF ok id special r]
  have F: "list_all (\<lambda>t. int_fits t (getInteger t i)) int_fields" using s by (simp add: savable_def)
  note F = this [unfolded int_fields_def int_fits_def, simplified]
  have zero: "(ucast (getInteger ACTIONID i) :: u16) = 0 \<Longrightarrow> getInteger ACTIONID i = 0"
    "(ucast (getInteger CHARGES i) :: u16) = 0 \<Longrightarrow> getInteger CHARGES i = 0"
    using F by (metis unsigned_0)+
  have tier: "hasAttribute TIER i \<Longrightarrow> ucast (getTier maxTier i) = getInteger TIER i"
    and act: "\<not> it_movable ?it \<Longrightarrow> getInteger ACTIONID i = 0" and sub: "subtype_ok items i"
    using s by (simp_all add: savable_def getTier_def F)
  have int: "getInteger t r = getInteger t i"
    if "item_attr r t = (if c then Some (IntV v) else item_attr x t)" "t \<notin> {DURATION, CHARGES, FLUIDTYPE}"
      "isAttributeInteger t" "c \<Longrightarrow> v = getInteger t i" "\<not> c \<Longrightarrow> getInteger t i = 0" for t c v
    using that none [of t] by (simp add: getInteger_attr [of t r])
  have str: "item_getString t r = item_getString t i"
    if "item_attr r t = (if c then Some (StrV v) else item_attr x t)" "t \<notin> {DURATION, CHARGES, FLUIDTYPE}"
      "isAttributeString t" "c \<Longrightarrow> v = item_getString t i" "\<not> c \<Longrightarrow> item_getString t i = []" for t c v
    using that none [of t] by (simp add: item_getString_attr [of t r])
  have ints: "list_all (\<lambda>t. getInteger t r = getInteger t i) [STORE, ACTIONID, DATE, WEIGHT, ATTACK, DEFENSE, EXTRADEFENSE,
      IMBUEMENT_SLOT, OPENCONTAINER, ARMOR, HITCHANCE, SHOOTRANGE, QUICKLOOTCONTAINER, TIER, AMOUNT, OWNER, OBTAINCONTAINER]"
    by (simp only: list.pred_inject simp_thms; intro conjI;
      (rule int, rule A; auto simp: F zero tier act isAttributeInteger_def absent_is_zero))
  have strs: "list_all (\<lambda>t. item_getString t r = item_getString t i) string_fields"
    unfolding string_fields_def
    by (simp only: list.pred_inject simp_thms; intro conjI;
      (rule str, rule A; auto simp: isAttributeString_def absent_is_zero))
  have fluid: "getInteger FLUIDTYPE r = getInteger FLUIDTYPE i"
  proof (cases "isFluidContainer ?it \<or> isSplash ?it")
    case True
    then show ?thesis using sub F by (simp add: A getInteger_attr [of _ r] isAttributeInteger_def subtype_ok_def getSubType_def Let_def byte_of_u16)
  next
    case False
    then show ?thesis using sub
      by (simp add: A getInteger_attr [of _ r] subtype_ok_def Let_def x new_item_defaults split: if_splits)
  qed
  have charges: "getInteger CHARGES r = getInteger CHARGES i"
    using sub F zero by (auto simp: A getInteger_attr [of _ r] isAttributeInteger_def subtype_ok_def Let_def x new_item_defaults split: if_splits)
  have cnt: "item_count r = item_count i"
    using sub zero by (auto simp: B subtype_ok_def Let_def x new_item_defaults getSubType_def byte_round_trip split: if_splits)
  have "custom_values r = custom_values i"
    using merge_customs_append [of "[]" "customAttributeMap i"] s
    by (simp add: custom_values_def B x new_item_attr savable_def item_ok_def comp_def case_prod_unfold)
  moreover have "hasAttribute DURATION i \<longrightarrow> getInteger DURATION r = scast (max0 (getDuration now i))"
    by (simp add: A getInteger_attr [of _ r] isAttributeInteger_def)
  moreover have "getInteger DECAYSTATE r = (if getDecaying i \<in> {1, 2} then 2 else 0)"
    by (simp add: A getInteger_attr [of _ r] isAttributeInteger_def none)
  moreover have "list_all (\<lambda>t. getInteger t r = getInteger t i) int_fields"
    using ints fluid charges by (simp add: int_fields_def)
  ultimately show ?thesis using strs cnt by (simp add: same_item_def A(2))
qed

end
