(* ===== verification/House_Items.thy ===== *)
theory House_Items
  imports Item_Serial
begin

text \<open>
  The contents of houses (\<^verbatim>\<open>io/iomapserialize.cpp\<close>): \<open>saveItem\<close> writes an item with everything inside it,
  \<open>loadItem\<close> and \<open>loadContainer\<close> read it back, \<open>saveTile\<close> and \<open>loadHouseItems\<close> do so for the items of a
  tile.  An object is a tree of its class, its attributes and the list of things inside.  Loading is
  recursive in what it reads; the model carries a fuel, and any fuel above the number of bytes is enough.
\<close>

section \<open>Saving\<close>

datatype item_tree = Tree (t_class: item_class) (t_item: item) (t_fields: class_fields) (t_items: "item_tree list")

definition is_box :: "item_class \<Rightarrow> bool" where
  "is_box c \<longleftrightarrow> c \<in> {ContainerC, RewardChestC, DepotLockerC}"

text \<open>The list of a container is written from its end, since loading adds every item in front.\<close>

function saveItem :: "item_table \<Rightarrow> i64 \<Rightarrow> int \<Rightarrow> item_tree \<Rightarrow> prop_write_stream \<Rightarrow> prop_write_stream" where
  "saveItem items now maxTier (Tree c i x ts) b =
     (let b1 = virtual_serializeAttr items now maxTier c x i (pw_write (item_id i) b);
          b2 = (if is_box c
                then fold (\<lambda>t. saveItem items now maxTier t) (rev ts)
                  (pw_write (of_nat (length ts) :: u32) (pw_write (attr_code ATTR_CONTAINER_ITEMS) b1))
                else b1)
      in pw_write (0 :: u8) b2)"
  by pat_completeness auto

termination
proof (relation "measure (\<lambda>(items, now, maxTier, t, b). size t)", goal_cases)
  case (2 items now maxTier c i x ts b b1 t b')
  then show ?case using size_list_estimation' [of t ts "size t" size] by (simp add: less_Suc_eq_le)
qed simp

section \<open>Loading\<close>

text \<open>
  What the loader needs from outside: the item types, the time, the names of players, and the game's
  \<open>transformItem\<close>, which turns a stationary item into the one that was saved.
\<close>

record loader_env =
  le_items :: item_table
  le_now :: i64
  le_names :: "u32 \<Rightarrow> bytes"
  le_transform :: "u16 \<Rightarrow> item_tree \<Rightarrow> item_tree"

definition new_fields :: class_fields where
  "new_fields = \<lparr>destPos = Position 0 0 0, depotId = 0, sleeperGUID = 0, sleepStart = 0\<rparr>"

datatype placed = NotAdded | Added item_tree | Changed nat item_tree

definition isBed :: "item_type \<Rightarrow> bool" where "isBed t \<longleftrightarrow> it_type t = ITEM_TYPE_BED"
definition isDoor :: "item_type \<Rightarrow> bool" where "isDoor t \<longleftrightarrow> it_type t = ITEM_TYPE_DOOR"
definition isCarpet :: "item_type \<Rightarrow> bool" where "isCarpet t \<longleftrightarrow> it_type t = ITEM_TYPE_CARPET"
definition isTrashHolder :: "item_type \<Rightarrow> bool" where "isTrashHolder t \<longleftrightarrow> it_type t = ITEM_TYPE_TRASHHOLDER"

text \<open>The item of the tile that the saved one belongs to.\<close>

definition stationary_match :: "item_type \<Rightarrow> u16 \<Rightarrow> item_tree \<Rightarrow> bool" where
  "stationary_match iType iid t \<longleftrightarrow> item_id (t_item t) = iid
     \<or> (it_transformOnUse iType \<noteq> 0 \<and> item_id (t_item t) = it_transformOnUse iType)
     \<or> (isDoor iType \<and> t_class t = DoorC) \<or> (isBed iType \<and> t_class t = BedC)"

fun find_stationary :: "item_type \<Rightarrow> u16 \<Rightarrow> item_tree list \<Rightarrow> nat option" where
  "find_stationary iType iid [] = None"
| "find_stationary iType iid (t # ts) = (if stationary_match iType iid t then Some 0
     else map_option Suc (find_stationary iType iid ts))"

definition read_state :: "item \<Rightarrow> class_fields \<Rightarrow> game_ids \<Rightarrow> load_state" where
  "read_state i x g = \<lparr>ld_item = i, ld_fields = x, ld_game = g, serializationCount = 0\<rparr>"

type_synonym load_result = "(bool \<times> placed \<times> game_ids \<times> prop_stream) option"
type_synonym fill_result = "(bool \<times> item_tree list \<times> game_ids \<times> prop_stream) option"

text \<open>
  The three branches of \<open>loadItem\<close>.  They are given \<open>fill\<close>, the loader of a container's contents, with the
  number of items announced, the items the container has, the data and the game's registries.  Loaded
  items also start to decay, which is not part of this model.
\<close>

type_synonym filler = "nat \<Rightarrow> item_tree list \<Rightarrow> prop_stream \<Rightarrow> game_ids \<Rightarrow> fill_result"

definition load_new :: "loader_env \<Rightarrow> filler \<Rightarrow> bool \<Rightarrow> u16 \<Rightarrow> prop_stream \<Rightarrow> game_ids \<Rightarrow> load_result" where
  "load_new E fill house iid s g = (case createItem (le_items E) iid 0 of
      None \<Rightarrow> Some (True, NotAdded, g, s)
    | Some (c, i) \<Rightarrow>
        (case unserializeAttr (le_items E) (le_now E) (le_names E) c s (read_state i new_fields g) of
          (ok, st, s1) \<Rightarrow>
            if \<not> ok then Some (False, NotAdded, ld_game st, s1)
            else if house \<and> isBed (le_items E iid) \<and> c = BedC \<and> sleeperGUID (ld_fields st) = 0 \<and> \<not> it_movable (le_items E iid)
            then Some (False, NotAdded, ld_game st, s1)
            else if is_box c
            then map_option (\<lambda>(ok, cs, g1, s2).
                (ok, if ok then Added (Tree c (ld_item st) (ld_fields st) cs) else NotAdded, g1, s2))
              (fill (unat (serializationCount st)) [] s1 (ld_game st))
            else Some (True, Added (Tree c (ld_item st) (ld_fields st) []), ld_game st, s1)))"

definition load_stationary ::
  "loader_env \<Rightarrow> filler \<Rightarrow> nat \<Rightarrow> item_tree \<Rightarrow> u16 \<Rightarrow> prop_stream \<Rightarrow> game_ids \<Rightarrow> load_result" where
  "load_stationary E fill k t iid s g =
     (case unserializeAttr (le_items E) (le_now E) (le_names E) (t_class t) s (read_state (t_item t) (t_fields t) g) of
       (ok, st, s1) \<Rightarrow>
         let changed = Tree (t_class t) (ld_item st) (ld_fields st) in
         if \<not> ok then Some (True, Changed k (changed (t_items t)), ld_game st, s1)
         else if is_box (t_class t)
         then map_option (\<lambda>(ok, cs, g1, s2). (ok, Changed k (if ok then le_transform E iid (changed cs) else changed cs), g1, s2))
           (fill (unat (serializationCount st)) (t_items t) s1 (ld_game st))
         else Some (True, Changed k (le_transform E iid (changed (t_items t))), ld_game st, s1))"

definition load_dummy :: "loader_env \<Rightarrow> filler \<Rightarrow> u16 \<Rightarrow> prop_stream \<Rightarrow> game_ids \<Rightarrow> load_result" where
  "load_dummy E fill iid s g = (case createItem (le_items E) iid 0 of
      None \<Rightarrow> Some (True, NotAdded, g, s)
    | Some (c, i) \<Rightarrow>
        (case unserializeAttr (le_items E) (le_now E) (le_names E) c s (read_state i new_fields g) of
          (_, st, s1) \<Rightarrow>
            if is_box c
            then map_option (\<lambda>(ok, cs, g1, s2). (ok, NotAdded, g1, s2)) (fill (unat (serializationCount st)) [] s1 (ld_game st))
            else if c = BedC \<and> sleeperGUID (ld_fields st) \<noteq> 0
            then Some (True, NotAdded, (ld_game st)\<lparr>bedSleepers := bedSleepers (ld_game st) - {sleeperGUID (ld_fields st)}\<rparr>, s1)
            else Some (True, NotAdded, ld_game st, s1)))"

text \<open>\<open>tile\<close> is the list of items of the tile that is the parent, or \<open>None\<close> when the parent is a container.\<close>

definition loadItem_with :: "loader_env \<Rightarrow> filler \<Rightarrow> item_tree list option \<Rightarrow> bool \<Rightarrow> prop_stream \<Rightarrow> game_ids \<Rightarrow> load_result" where
  "loadItem_with E fill tile house s g = (case ps_read s :: u16 option \<times> prop_stream of
      (None, s1) \<Rightarrow> Some (False, NotAdded, g, s1)
    | (Some iid, s1) \<Rightarrow>
        let iType = le_items E iid in
        if isBed iType \<or> it_movable iType \<or> tile = None \<or> isCarpet iType \<or> isTrashHolder iType
        then load_new E fill house iid s1 g
        else (case find_stationary iType iid (the tile) of
            Some k \<Rightarrow> load_stationary E fill k (the tile ! k) iid s1 g
          | None \<Rightarrow> load_dummy E fill iid s1 g))"

primrec loadContainer :: "loader_env \<Rightarrow> nat \<Rightarrow> filler" where
  "loadContainer E 0 = (\<lambda>n cs s g. None)"
| "loadContainer E (Suc f) = (\<lambda>n cs s g.
     if n > 0
     then (case loadItem_with E (loadContainer E f) None False s g of
         None \<Rightarrow> None
       | Some (ok, p, g1, s1) \<Rightarrow>
           if \<not> ok then Some (False, cs, g1, s1)
           else loadContainer E f (n - 1) (case p of Added t \<Rightarrow> t # cs | _ \<Rightarrow> cs) s1 g1)
     else (case ps_read s :: u8 option \<times> prop_stream of
         (None, s1) \<Rightarrow> Some (False, cs, g, s1)
       | (Some e, s1) \<Rightarrow> Some (e = 0, cs, g, s1)))"

definition loadItem :: "loader_env \<Rightarrow> item_tree list option \<Rightarrow> bool \<Rightarrow> prop_stream \<Rightarrow> game_ids \<Rightarrow> load_result" where
  "loadItem E tile house s g = loadItem_with E (loadContainer E (Suc (length s))) tile house s g"

section \<open>Loading ends\<close>

text \<open>An answer that leaves at most \<open>n\<close> bytes.\<close>

definition within :: "nat \<Rightarrow> (bool \<times> 'b \<times> game_ids \<times> prop_stream) option \<Rightarrow> bool" where
  "within n r \<longleftrightarrow> (case r of None \<Rightarrow> False | Some (_, _, _, s) \<Rightarrow> length s \<le> n)"

lemma within_Some [simp]: "within n (Some (ok, p, g, s)) \<longleftrightarrow> length s \<le> n" "\<not> within n None"
  by (simp_all add: within_def)

lemma within_map [simp]: "within n (map_option (\<lambda>(ok, cs, g, s). (ok, q ok cs, g, s)) r) = within n r"
  by (simp add: within_def split: option.split)

lemma within_mono: "within n r \<Longrightarrow> n \<le> m \<Longrightarrow> within m r"
  by (auto simp: within_def split: option.splits)

lemma within_obtain: "within n r \<Longrightarrow> \<exists>ok p g s. r = Some (ok, p, g, s) \<and> length s \<le> n"
  by (auto simp: within_def split: option.splits)

definition returns_below :: "nat \<Rightarrow> filler \<Rightarrow> bool" where
  "returns_below m fill \<longleftrightarrow> (\<forall>n cs s g. length s < m \<longrightarrow> within (length s) (fill n cs s g))"

lemma unserializeAttr_length: "unserializeAttr items now names cls s st = (ok, st', s') \<Longrightarrow> length s' \<le> length s"
proof (induction items now names cls s st rule: unserializeAttr.induct)
  case (1 items now names cls s st)
  obtain b s1 where b: "ps_read s = (b :: u8 option, s1)" by fastforce
  then have l: "length s1 \<le> length s" using ps_read_length [of s, where 'a = 8] by simp
  show ?case
  proof (cases "b = None \<or> b = Some 0 \<or> attr_of_code (the b) = None")
    case True
    then show ?thesis using b l 1(2) by (subst (asm) unserializeAttr.simps) (cases b; auto split: if_splits)
  next
    case False
    then obtain v a where v: "b = Some v" "v \<noteq> 0" "attr_of_code v = Some a" by (cases b) auto
    obtain r st2 s2 where r: "virtual_readAttr items now names cls a s1 st = (r, st2, s2)"
      by (cases "virtual_readAttr items now names cls a s1 st")
    then have "length s2 \<le> length s" using virtual_readAttr_length [of items now names cls a s1 st] l by simp
    moreover have "r = ATTR_READ_CONTINUE \<Longrightarrow> unserializeAttr items now names cls s2 st2 = (ok, st', s') \<Longrightarrow> length s' \<le> length s2"
      using 1(1) [OF b [symmetric] v(1)] v r by simp
    ultimately show ?thesis using b v r 1(2)
      by (subst (asm) unserializeAttr.simps) (auto split: attr_read_value.splits)
  qed
qed

lemma load_branches_return:
  assumes f: "returns_below m fill" and l: "length s < m"
  shows "within (length s) (load_new E fill house iid s g)"
    and "within (length s) (load_stationary E fill k t iid s g)"
    and "within (length s) (load_dummy E fill iid s g)"
proof -
  have fill: "within (length s) (fill n cs s1 g1)" if "length s1 \<le> length s" for n cs s1 g1
    using f l that unfolding returns_below_def by (meson le_less_trans within_mono)
  show "within (length s) (load_new E fill house iid s g)"
    using fill by (auto simp: load_new_def split: option.split prod.split dest: unserializeAttr_length)
  show "within (length s) (load_stationary E fill k t iid s g)"
    using fill by (auto simp: load_stationary_def Let_def split: prod.split dest: unserializeAttr_length)
  show "within (length s) (load_dummy E fill iid s g)"
    using fill by (auto simp: load_dummy_def split: option.split prod.split dest: unserializeAttr_length)
qed

lemma loadItem_with_returns:
  assumes "returns_below m fill" "length s \<le> Suc m"
  shows "\<exists>ok p g' s'. loadItem_with E fill tile house s g = Some (ok, p, g', s')
    \<and> length s' \<le> length s \<and> (ok \<longrightarrow> Suc (length s') < length s)"
proof -
  obtain r s1 where r: "ps_read s = (r :: u16 option, s1)" by fastforce
  show ?thesis
  proof (cases r)
    case None
    then show ?thesis using r ps_read_length [of s, where 'a = 16] by (auto simp: loadItem_with_def)
  next
    case (Some iid)
    then have l: "Suc (length s1) < length s" using r by (auto simp: ps_read_def ps_size_def split: if_splits)
    then have "length s1 < m" using assms(2) by simp
    note load_branches_return [OF assms(1) this, of E]
    then have "within (length s1) (loadItem_with E fill tile house s g)"
      using r Some by (auto simp: loadItem_with_def Let_def split: option.split)
    then show ?thesis using l within_obtain by fastforce
  qed
qed

lemma loadContainer_returns: "returns_below f (loadContainer E f)"
proof (induction f)
  case (Suc f)
  show ?case unfolding returns_below_def
  proof (intro allI impI)
    fix n cs s g assume "length (s :: prop_stream) < Suc f"
    then obtain ok p g1 s1 where i: "loadItem_with E (loadContainer E f) None False s g = Some (ok, p, g1, s1)"
        "length s1 \<le> length s" "ok \<longrightarrow> Suc (length s1) < length s"
      using loadItem_with_returns [OF Suc, of s E None False g] by auto
    then have "ok \<Longrightarrow> within (length s) (loadContainer E f (n - 1) cs2 s1 g1)" for cs2
      using Suc \<open>length s < Suc f\<close> unfolding returns_below_def by (meson within_mono less_Suc_eq_le order_less_le_trans Suc_lessD)
    then show "within (length s) (loadContainer E (Suc f) n cs s g)"
      using i ps_read_length [of s, where 'a = 8] by (auto split: option.split prod.split)
  qed
qed (simp add: returns_below_def)

section \<open>Saved things are loaded back\<close>

text \<open>
  Trees that can be stored: every item can, the class is the one the factory makes for the item type, and
  the number of things inside fits its field.  Beds and teleports write other attributes; a depot's
  \<open>readAttr\<close> leaves the tag of the contents to the item, which rejects it.
\<close>

fun tree_ok :: "item_table \<Rightarrow> int \<Rightarrow> item_tree \<Rightarrow> bool" where
  "tree_ok items maxTier (Tree c i x ts) \<longleftrightarrow> savable items maxTier i \<and> it_id (items (item_id i)) \<noteq> 0
     \<and> c = item_class_of (items (item_id i)) \<and> c \<notin> {BedC, TeleportC, DepotLockerC}
     \<and> (c = PlainC \<longrightarrow> map_of ItemTransformationMap (it_id (items (item_id i))) = None)
     \<and> x = new_fields \<and> (\<not> is_box c \<longrightarrow> ts = []) \<and> length ts < 2 ^ 32 \<and> list_all (tree_ok items maxTier) ts"

fun same_tree :: "i64 \<Rightarrow> item_tree \<Rightarrow> item_tree \<Rightarrow> bool" where
  "same_tree now (Tree c i x ts) (Tree c' i' x' ts') \<longleftrightarrow>
     c = c' \<and> same_item now i i' \<and> x = x' \<and> list_all2 (same_tree now) ts ts'"

fun enc_thing :: "item_table \<Rightarrow> i64 \<Rightarrow> int \<Rightarrow> item_tree \<Rightarrow> bytes" where
  "enc_thing items now maxTier (Tree c i x ts) = le_bytes 2 (item_id i) @ virtual_serializeAttr items now maxTier c x i []
     @ (if is_box c then attr_code ATTR_CONTAINER_ITEMS # le_bytes 4 (of_nat (length ts) :: u32)
          @ concat (rev (map (enc_thing items now maxTier) ts)) else []) @ [0]"

lemma tree_ok_serialize:
  assumes "tree_ok items maxTier (Tree c i x ts)"
  shows "reads items now' names cls (virtual_serializeAttr items now maxTier c x i) (restore items now maxTier i)"
  using assms reads_serializeAttr [of i items now' names cls now maxTier] by (cases c) (auto simp: savable_def)

lemma saveItem_enc: "tree_ok items maxTier t \<Longrightarrow> saveItem items now maxTier t b = b @ enc_thing items now maxTier t"
proof (induction t arbitrary: b)
  case (Tree c i x ts)
  obtain q where q: "\<And>b. virtual_serializeAttr items now maxTier c x i b = b @ q"
    using tree_ok_serialize [OF Tree.prems, of now "\<lambda>_. []" c] unfolding reads_def by blast
  have "fold (\<lambda>t. saveItem items now maxTier t) us b = b @ concat (map (enc_thing items now maxTier) us)"
    if "set us \<subseteq> set ts" for us b
    using that
  proof (induction us arbitrary: b)
    case (Cons u us)
    then have "saveItem items now maxTier u b = b @ enc_thing items now maxTier u" for b
      using Tree by (simp add: list_all_iff)
    then show ?case using Cons by simp
  qed simp
  from this [of "rev ts"] show ?case by (simp add: Let_def q pw_write_def rev_map)
qed

lemma fresh_item:
  assumes "tree_ok items maxTier (Tree c i x ts)"
  shows "\<exists>n. createItem items (item_id i) 0 = Some (c, new_item items (item_id i) n)"
  using assms by (cases c) (auto simp: createItem_def Let_def split: item_class.split)

text \<open>
  Reading the attributes of one object: up to the end mark for a plain item, up to the announced number of
  things inside for a container.
\<close>

lemma read_object:
  assumes "tree_ok items maxTier (Tree c i x ts)" and i: "createItem items (item_id i) 0 = Some (c, i0)"
  shows "\<exists>j. same_item now i j \<and>
    unserializeAttr items now' names c
      (virtual_serializeAttr items now maxTier c x i [] @ (if is_box c then attr_code ATTR_CONTAINER_ITEMS
          # le_bytes 4 (of_nat (length ts) :: u32) @ rest else 0 # rest)) (read_state i0 x g)
    = (True, (read_state j x g)\<lparr>serializationCount := if is_box c then of_nat (length ts) else 0\<rparr>, rest)"
proof -
  obtain n where n: "i0 = new_item items (item_id i) n" using fresh_item [OF assms(1)] i by auto
  define j where "j = restore items now maxTier i i0"
  have same: "same_item now i j" using restore_same [OF _ n j_def] assms(1) by simp
  obtain q where q: "\<And>b. virtual_serializeAttr items now maxTier c x i b = b @ q"
      "\<And>rest st. unserializeAttr items now' names c (q @ rest) st
         = unserializeAttr items now' names c rest (on_item (restore items now maxTier i) st)"
    using tree_ok_serialize [OF assms(1), of now' names c] unfolding reads_def by blast
  have j: "on_item (restore items now maxTier i) (read_state i0 x g) = read_state j x g"
    by (simp add: on_item_def read_state_def j_def)
  have "unserializeAttr items now' names c (0 # rest) st = (True, st, rest)" for st
    by (subst unserializeAttr.simps) simp
  moreover have "unserializeAttr items now' names c
      (attr_code ATTR_CONTAINER_ITEMS # le_bytes 4 (of_nat (length ts) :: u32) @ rest) st
      = (True, st\<lparr>serializationCount := of_nat (length ts)\<rparr>, rest)" if "is_box c" for st
    using that assms(1) by (subst unserializeAttr.simps)
      (auto simp: attr_code_inverse is_box_def container_readAttr_def ps_read_le_bytes)
  ultimately show ?thesis using same j
    by (intro exI [of _ j]) (simp add: q, simp add: read_state_def)
qed

text \<open>The items for which a new object is made: all of them inside containers, movable ones and carpets on tiles.\<close>

definition made_new :: "loader_env \<Rightarrow> item_tree list option \<Rightarrow> item_tree \<Rightarrow> bool" where
  "made_new E tile t \<longleftrightarrow> (let iType = le_items E (item_id (t_item t)) in
     isBed iType \<or> it_movable iType \<or> tile = None \<or> isCarpet iType \<or> isTrashHolder iType)"

lemma load_contents:
  assumes "\<And>u f rest. u \<in> set us \<Longrightarrow> length (enc_thing items now maxTier u @ rest) \<le> f \<Longrightarrow>
      \<exists>u'. same_tree now u u' \<and> loadItem_with E (loadContainer E f) None False (enc_thing items now maxTier u @ rest) g
        = Some (True, Added u', g, rest)"
    and "length (concat (map (enc_thing items now maxTier) us) @ 0 # rest) < f"
  shows "\<exists>us'. list_all2 (same_tree now) us us' \<and>
    loadContainer E f (length us) cs (concat (map (enc_thing items now maxTier) us) @ 0 # rest) g = Some (True, rev us' @ cs, g, rest)"
  using assms
proof (induction us arbitrary: cs f)
  case Nil
  then show ?case by (cases f) auto
next
  case (Cons u us)
  let ?more = "concat (map (enc_thing items now maxTier) us) @ 0 # rest"
  obtain f' where f: "f = Suc f'" using Cons.prems(2) by (cases f) auto
  obtain u' where u': "same_tree now u u'" "loadItem_with E (loadContainer E f') None False (enc_thing items now maxTier u @ ?more) g
      = Some (True, Added u', g, ?more)"
    using Cons.prems(1) [of u ?more f'] Cons.prems(2) f by auto
  have "2 \<le> length (enc_thing items now maxTier u)" by (cases u) simp
  then have "length ?more < f'" using Cons.prems(2) f by simp
  then obtain us' where us': "list_all2 (same_tree now) us us'"
      "loadContainer E f' (length us) (u' # cs) ?more g = Some (True, rev us' @ u' # cs, g, rest)"
    using Cons.IH [of f' "u' # cs"] Cons.prems(1) by auto
  show ?case using u' us' by (intro exI [of _ "u' # us'"]) (simp add: f)
qed

lemma load_tree:
  assumes "tree_ok (le_items E) maxTier t" "made_new E tile t"
    "length (enc_thing (le_items E) now maxTier t @ rest) \<le> f"
  shows "\<exists>t'. same_tree now t t' \<and>
    loadItem_with E (loadContainer E f) tile house (enc_thing (le_items E) now maxTier t @ rest) g = Some (True, Added t', g, rest)"
  using assms
proof (induction t arbitrary: f rest tile house)
  case (Tree c i x ts)
  let ?items = "le_items E" and ?rest = "concat (rev (map (enc_thing (le_items E) now maxTier) ts)) @ 0 # rest"
  obtain n where new: "createItem ?items (item_id i) 0 = Some (c, new_item ?items (item_id i) n)"
    using fresh_item [OF Tree.prems(1)] by blast
  have x: "x = new_fields" "c \<noteq> BedC" "length ts < 2 ^ 32" "\<not> is_box c \<Longrightarrow> ts = []" using Tree.prems(1) by auto
  obtain j where j: "same_item now i j"
      "unserializeAttr ?items (le_now E) (le_names E) c
        (virtual_serializeAttr ?items now maxTier c x i [] @ (if is_box c then attr_code ATTR_CONTAINER_ITEMS
            # le_bytes 4 (of_nat (length ts) :: u32) @ ?rest else 0 # rest)) (read_state (new_item ?items (item_id i) n) x g)
       = (True, (read_state j x g)\<lparr>serializationCount := if is_box c then of_nat (length ts) else 0\<rparr>, if is_box c then ?rest else rest)"
    using read_object [OF Tree.prems(1) new, of now "le_now E" "le_names E" ?rest g]
      read_object [OF Tree.prems(1) new, of now "le_now E" "le_names E" rest g] by (cases "is_box c") auto
  have kids: "\<exists>us'. list_all2 (same_tree now) (rev ts) us' \<and>
      loadContainer E f (length ts) [] ?rest g = Some (True, rev us', g, rest)" if "is_box c"
  proof -
    have "length (concat (map (enc_thing ?items now maxTier) (rev ts)) @ 0 # rest) < f"
      using Tree.prems(3) that by (simp add: rev_map)
    moreover have "\<exists>u'. same_tree now u u' \<and> loadItem_with E (loadContainer E f) None False (enc_thing ?items now maxTier u @ rest) g
        = Some (True, Added u', g, rest)" if "u \<in> set (rev ts)" "length (enc_thing ?items now maxTier u @ rest) \<le> f" for u f rest
      using Tree.IH [of u] Tree.prems(1) that by (auto simp: list_all_iff made_new_def Let_def)
    ultimately show ?thesis using load_contents [of "rev ts" ?items now maxTier E g rest f "[]"] by (auto simp: rev_map)
  qed
  have read: "loadItem_with E (loadContainer E f) tile house (enc_thing ?items now maxTier (Tree c i x ts) @ rest) g
    = load_new E (loadContainer E f) house (item_id i) (virtual_serializeAttr ?items now maxTier c x i []
        @ (if is_box c then attr_code ATTR_CONTAINER_ITEMS # le_bytes 4 (of_nat (length ts) :: u32) @ ?rest else 0 # rest)) g"
    using Tree.prems(2) by (simp add: loadItem_with_def ps_read_le_bytes [where 'a = 16] made_new_def Let_def)
  show ?case
  proof (cases "is_box c")
    case True
    then obtain us' where us: "list_all2 (same_tree now) (rev ts) us'"
        "loadContainer E f (length ts) [] ?rest g = Some (True, rev us', g, rest)" using kids by blast
    then have "same_tree now (Tree c i x ts) (Tree c j x (rev us'))"
      using j(1) by (simp add: list_all2_rev1)
    then show ?thesis unfolding read using True us j x new
      by (intro exI [of _ "Tree c j x (rev us')"]) (simp add: load_new_def read_state_def unat_of_nat_lt)
  next
    case False
    then have "same_tree now (Tree c i x ts) (Tree c j x [])" using j(1) x by simp
    then show ?thesis unfolding read using False j x new
      by (intro exI [of _ "Tree c j x []"]) (simp add: load_new_def read_state_def)
  qed
qed

section \<open>Tiles\<close>

definition ITEM_BATHTUB_FILLED :: u16 where "ITEM_BATHTUB_FILLED = 26077"
definition ITEM_BATHTUB_FILLED_NOTMOVABLE :: u16 where "ITEM_BATHTUB_FILLED_NOTMOVABLE = 26100"

definition isSavedToHouses :: "item_table \<Rightarrow> item_tree \<Rightarrow> bool" where
  "isSavedToHouses items t \<longleftrightarrow> (let it = items (item_id (t_item t)) in
     it_movable it \<or> it_wrapableTo it > 0 \<or> isCarpet it \<or> t_class t = DoorC \<or> (is_box (t_class t) \<and> t_items t \<noteq> [])
     \<or> it_canWriteText it \<or> t_class t = BedC \<or> it_transformOnUse it \<noteq> 0)"

text \<open>
  The items to be written, in the order of the tile.  \<open>None\<close> stands for the null pointer that is followed
  when the movable bathtub is not a known item type.
\<close>

fun saved_items :: "item_table \<Rightarrow> item_tree list \<Rightarrow> item_tree list option" where
  "saved_items items [] = Some []"
| "saved_items items (t # ts) =
     (if item_id (t_item t) = ITEM_BATHTUB_FILLED_NOTMOVABLE
      then (case createItem items ITEM_BATHTUB_FILLED 0 of
          None \<Rightarrow> None
        | Some (c, i) \<Rightarrow> map_option ((#) (Tree c i new_fields [])) (saved_items items ts))
      else if \<not> isSavedToHouses items t then saved_items items ts
      else map_option ((#) t) (saved_items items ts))"

text \<open>
  The items are collected in front of a list and so written in reverse.  They are counted in 16 bits; the
  field has 32.
\<close>

definition saveTile ::
  "item_table \<Rightarrow> i64 \<Rightarrow> int \<Rightarrow> position \<Rightarrow> item_tree list \<Rightarrow> prop_write_stream \<Rightarrow> prop_write_stream option" where
  "saveTile items now maxTier pos ts b = (case saved_items items ts of
      None \<Rightarrow> None
    | Some ls \<Rightarrow> if ls = [] then Some b
        else Some (fold (\<lambda>t. saveItem items now maxTier t) (rev ls)
          (pw_write (ucast (of_nat (length ls) :: u16) :: u32)
            (pw_write (pos_z pos) (pw_write (pos_y pos) (pw_write (pos_x pos) b))))))"

text \<open>\<open>add\<close> is the tile's \<open>internalAddThing\<close>.  The result of \<open>loadItem\<close> is not looked at.\<close>

type_synonym tile_add = "item_tree \<Rightarrow> item_tree list \<Rightarrow> item_tree list"

fun place :: "tile_add \<Rightarrow> placed \<Rightarrow> item_tree list \<Rightarrow> item_tree list" where
  "place add NotAdded tile = tile"
| "place add (Added t) tile = add t tile"
| "place add (Changed k t) tile = tile[k := t]"

fun load_tile_loop :: "loader_env \<Rightarrow> tile_add \<Rightarrow> bool \<Rightarrow> nat \<Rightarrow> prop_stream \<Rightarrow> game_ids \<Rightarrow> item_tree list
    \<Rightarrow> (item_tree list \<times> game_ids) option" where
  "load_tile_loop E add ownerless 0 s g tile = Some (tile, g)"
| "load_tile_loop E add ownerless (Suc n) s g tile =
     (if ownerless then load_tile_loop E add ownerless n s g tile
      else (case loadItem E (Some tile) True s g of
          None \<Rightarrow> None
        | Some (ok, p, g1, s1) \<Rightarrow> load_tile_loop E add ownerless n s1 g1 (place add p tile)))"

text \<open>
  One row of the table: the position, the number of items, the items.  \<open>tiles\<close> is the map and \<open>ownerless\<close>
  tells the tiles of houses whose items are skipped because nobody owns the house.
\<close>

definition load_row ::
  "loader_env \<Rightarrow> tile_add \<Rightarrow> (position \<Rightarrow> bool) \<Rightarrow> prop_stream \<Rightarrow> game_ids \<Rightarrow> (position \<Rightarrow> item_tree list option)
    \<Rightarrow> ((position \<Rightarrow> item_tree list option) \<times> game_ids) option" where
  "load_row E add ownerless s g tiles = (case ps_read s of
      (None, s1) \<Rightarrow> Some (tiles, g)
    | (Some x, s1) \<Rightarrow> (case ps_read s1 of
        (None, s2) \<Rightarrow> Some (tiles, g)
      | (Some y, s2) \<Rightarrow> (case ps_read s2 of
          (None, s3) \<Rightarrow> Some (tiles, g)
        | (Some z, s3) \<Rightarrow> (case tiles (Position x y z) of
            None \<Rightarrow> Some (tiles, g)
          | Some tile \<Rightarrow> (case ps_read s3 :: u32 option \<times> prop_stream of
              (None, s4) \<Rightarrow> Some (tiles, g)
            | (Some n, s4) \<Rightarrow>
                map_option (\<lambda>(tile', g'). (tiles(Position x y z \<mapsto> tile'), g'))
                  (load_tile_loop E add (ownerless (Position x y z)) (unat n) s4 g tile))))))"

definition loadHouseItems ::
  "loader_env \<Rightarrow> tile_add \<Rightarrow> (position \<Rightarrow> bool) \<Rightarrow> prop_stream list \<Rightarrow> game_ids \<Rightarrow> (position \<Rightarrow> item_tree list option)
    \<Rightarrow> ((position \<Rightarrow> item_tree list option) \<times> game_ids) option" where
  "loadHouseItems E add ownerless rows g tiles =
     fold (\<lambda>s r. case r of None \<Rightarrow> None | Some (tiles, g) \<Rightarrow> load_row E add ownerless s g tiles) rows (Some (tiles, g))"

lemma loadItem_saved:
  assumes "tree_ok (le_items E) maxTier t" "made_new E tile t"
  shows "\<exists>t'. same_tree now t t' \<and>
    loadItem E tile house (enc_thing (le_items E) now maxTier t @ rest) g = Some (True, Added t', g, rest)"
  unfolding loadItem_def by (rule load_tree [OF assms]) simp

lemma load_tile_saved:
  assumes "\<forall>u \<in> set us. tree_ok (le_items E) maxTier u \<and> (\<forall>tile. made_new E (Some tile) u)"
  shows "\<exists>us'. list_all2 (same_tree now) us us' \<and>
    load_tile_loop E add False (length us) (concat (map (enc_thing (le_items E) now maxTier) us)) g tile = Some (fold add us' tile, g)"
  using assms
proof (induction us arbitrary: tile)
  case (Cons u us)
  obtain u' where u: "same_tree now u u'" "loadItem E (Some tile) True (enc_thing (le_items E) now maxTier u
      @ concat (map (enc_thing (le_items E) now maxTier) us)) g = Some (True, Added u', g, concat (map (enc_thing (le_items E) now maxTier) us))"
    using loadItem_saved [of E maxTier u "Some tile" now] Cons.prems by force
  obtain us' where "list_all2 (same_tree now) us us'"
      "load_tile_loop E add False (length us) (concat (map (enc_thing (le_items E) now maxTier) us)) g (add u' tile) = Some (fold add us' (add u' tile), g)"
    using Cons.IH [of "add u' tile"] Cons.prems by auto
  then show ?case using u by (intro exI [of _ "u' # us'"]) simp
qed simp

text \<open>
  Reading any data as a saved item ends: the loader returns, with a verdict, and has not read behind the
  end of the data.
\<close>
theorem loading_returns:
  "\<exists>ok p g' s'. loadItem E tile house s g = Some (ok, p, g', s') \<and> length s' \<le> length s"
  using loadItem_with_returns [OF loadContainer_returns [of "Suc (length s)" E], of s E tile house g]
  by (auto simp: loadItem_def)

definition storable :: "loader_env \<Rightarrow> int \<Rightarrow> item_tree \<Rightarrow> bool" where
  "storable E maxTier t \<longleftrightarrow> tree_ok (le_items E) maxTier t \<and> isSavedToHouses (le_items E) t
     \<and> item_id (t_item t) \<noteq> ITEM_BATHTUB_FILLED_NOTMOVABLE
     \<and> (it_movable (le_items E (item_id (t_item t))) \<or> isCarpet (le_items E (item_id (t_item t))))"

lemma saved_items_all: "list_all (storable E maxTier) ts \<Longrightarrow> saved_items (le_items E) ts = Some ts"
  by (induction ts) (auto simp: storable_def)


definition demo_item_type :: "u16 \<Rightarrow> item_group \<Rightarrow> bool \<Rightarrow> item_type" where
  "demo_item_type n grp st = \<lparr>it_id = n, it_group = grp, it_type = ITEM_TYPE_NONE, it_decayTime = 0, it_charges = 0,
     it_weight = 10, it_decayTo = -1, it_stackSize = 100, it_maxItems = 8, it_ammo = False, it_stackable = st,
     it_movable = True, it_pickupable = True, it_stopTime = False, it_isCorpse = False, it_wareId = 0,
     it_transformOnUse = 0, it_wrapableTo = 0, it_canWriteText = False, it_upgradeClassification = 0\<rparr>"

definition demo_items :: item_table where
  "demo_items n = (if n = 7 then demo_item_type 7 ITEM_GROUP_CONTAINER False
     else if n = 9 then demo_item_type 9 ITEM_GROUP_NONE True else demo_item_type 0 ITEM_GROUP_NONE False)"

definition demo_loader :: loader_env where
  "demo_loader = \<lparr>le_items = demo_items, le_now = 0, le_names = (\<lambda>_. []), le_transform = (\<lambda>_ t. t)\<rparr>"

definition demo_bag :: item_tree where
  "demo_bag = Tree ContainerC \<lparr>item_id = 7, item_count = 1, attributeVector = [(NAME, StrV [98, 97, 103])],
       customAttributeMap = [], loadedFromMap = False, decayDisabled = False\<rparr> new_fields
     [Tree PlainC \<lparr>item_id = 9, item_count = 50, attributeVector = [(ATTACK, IntV (-3))],
       customAttributeMap = [([107], \<lparr>stringKey = [75], custom_val = CInt 5\<rparr>)], loadedFromMap = False, decayDisabled = False\<rparr>
       new_fields []]"

lemma demo_bag_storable: "storable demo_loader 10 demo_bag"
  by (simp add: storable_def demo_loader_def demo_bag_def demo_items_def demo_item_type_def item_class_of_def
      isContainer_def isSavedToHouses_def ITEM_BATHTUB_FILLED_NOTMOVABLE_def is_box_def savable_def item_ok_def
      attrs_ok_def custom_ok_def strings_fit_def custom_fits_def int_fields_def int_fits_def subtype_ok_def
      HIRELING_LAMP_def hasAttribute_attr item_attr_def get_attr_def getInteger_attr item_getString_attr
      isAttributeInteger_def isAttributeString_def isFluidContainer_def isSplash_def ItemTransformationMap_def
      lower_bytes_def lower_byte_def)


end
