(* ===== verification/Containers.thy ===== *)
theory Containers
  imports Item "HOL-Library.Multiset"
begin

text \<open>
  Containers (\<^verbatim>\<open>items/containers/container.cpp\<close>).  Things are numbered; the world gives every thing its
  item, the cylinder it is in and, for containers, its contents.  A container keeps the weight of
  everything inside it as a 32-bit sum that each operation carries up the chain of containers around it.
  The chain is followed through the parents, which ends only because containers are not inside
  themselves: \<open>ancestors\<close> is a partial function and proved to return for the worlds that occur.
\<close>

section \<open>The world\<close>

datatype thing_place = Nowhere | Inside nat | Outside nat

datatype container_class = ContainerBox | DepotChest | Inbox | RewardBox | RewardChest | DepotLocker

record box =
  itemlist :: "nat list"
  totalWeight :: u32
  maxSize :: u32
  m_maxItems :: u32
  unlocked :: bool
  pagination :: bool
  box_class :: container_class

record cont_world =
  w_item :: "nat \<Rightarrow> item"
  w_place :: "nat \<Rightarrow> thing_place"
  w_box :: "nat \<Rightarrow> box option"

definition contents_of :: "cont_world \<Rightarrow> nat \<Rightarrow> nat list" where
  "contents_of w c = (case w_box w c of None \<Rightarrow> [] | Some b \<Rightarrow> itemlist b)"

definition getParentContainer :: "cont_world \<Rightarrow> nat \<Rightarrow> nat option" where
  "getParentContainer w x = (case w_place w x of Inside c \<Rightarrow> Some c | _ \<Rightarrow> None)"

partial_function (option) ancestors :: "cont_world \<Rightarrow> nat \<Rightarrow> nat list option" where
  "ancestors w x = (case getParentContainer w x of
      None \<Rightarrow> Some []
    | Some c \<Rightarrow> Option.bind (ancestors w c) (\<lambda>as. Some (c # as)))"

definition set_place :: "nat \<Rightarrow> thing_place \<Rightarrow> cont_world \<Rightarrow> cont_world" where
  "set_place x p w = w\<lparr>w_place := (w_place w)(x := p)\<rparr>"

definition change_list :: "nat \<Rightarrow> (nat list \<Rightarrow> nat list) \<Rightarrow> cont_world \<Rightarrow> cont_world" where
  "change_list c f w = w\<lparr>w_box := (w_box w)(c := map_option (\<lambda>b. b\<lparr>itemlist := f (itemlist b)\<rparr>) (w_box w c))\<rparr>"

definition change_item :: "nat \<Rightarrow> (item \<Rightarrow> item) \<Rightarrow> cont_world \<Rightarrow> cont_world" where
  "change_item x f w = w\<lparr>w_item := (w_item w)(x := f (w_item w x))\<rparr>"

section \<open>Weights\<close>

definition add_weight :: "u32 \<Rightarrow> nat \<Rightarrow> cont_world \<Rightarrow> cont_world" where
  "add_weight d c w = w\<lparr>w_box := (w_box w)(c := map_option (\<lambda>b. b\<lparr>totalWeight := totalWeight b + d\<rparr>) (w_box w c))\<rparr>"

definition updateItemWeight :: "nat \<Rightarrow> u32 \<Rightarrow> cont_world \<Rightarrow> cont_world option" where
  "updateItemWeight c d w = map_option (\<lambda>as. fold (add_weight d) (c # as) w) (ancestors w c)"

text \<open>A container weighs what its item type weighs, and its contents.\<close>

definition container_getWeight :: "item_table \<Rightarrow> cont_world \<Rightarrow> nat \<Rightarrow> u32" where
  "container_getWeight items w x =
     getWeight items (w_item w x) + (case w_box w x of None \<Rightarrow> 0 | Some b \<Rightarrow> totalWeight b)"

section \<open>Operations\<close>

fun index_of :: "nat \<Rightarrow> nat list \<Rightarrow> nat option" where
  "index_of x [] = None"
| "index_of x (y # ys) = (if y = x then Some 0 else map_option Suc (index_of x ys))"

definition getThingIndex :: "cont_world \<Rightarrow> nat \<Rightarrow> nat \<Rightarrow> int" where
  "getThingIndex w c x = (case index_of x (contents_of w c) of None \<Rightarrow> -1 | Some i \<Rightarrow> int i)"

definition getItemByIndex :: "cont_world \<Rightarrow> nat \<Rightarrow> nat \<Rightarrow> nat option" where
  "getItemByIndex w c i = (if i \<ge> length (contents_of w c) then None else Some (contents_of w c ! i))"

definition capacity :: "cont_world \<Rightarrow> nat \<Rightarrow> u32" where
  "capacity w c = (case w_box w c of None \<Rightarrow> 0 | Some b \<Rightarrow> maxSize b)"

definition addItem :: "nat \<Rightarrow> nat \<Rightarrow> cont_world \<Rightarrow> cont_world" where
  "addItem c x w = set_place x (Inside c) (change_list c (\<lambda>xs. xs @ [x]) w)"

definition internalAddThing :: "item_table \<Rightarrow> nat \<Rightarrow> nat \<Rightarrow> cont_world \<Rightarrow> cont_world option" where
  "internalAddThing items c x w =
     (let w1 = change_list c ((#) x) (set_place x (Inside c) w)
      in updateItemWeight c (container_getWeight items w1 x) w1)"

definition addThing :: "item_table \<Rightarrow> nat \<Rightarrow> int \<Rightarrow> nat \<Rightarrow> cont_world \<Rightarrow> cont_world option" where
  "addThing items c index x w =
     (if index \<ge> sint (capacity w c) then Some w
      else (let w1 = change_list c ((#) x) (set_place x (Inside c) w)
            in updateItemWeight c (container_getWeight items w1 x) w1))"

definition addItemBack :: "item_table \<Rightarrow> nat \<Rightarrow> nat \<Rightarrow> cont_world \<Rightarrow> cont_world option" where
  "addItemBack items c x w = (let w1 = addItem c x w in updateItemWeight c (container_getWeight items w1 x) w1)"

definition updateThing :: "item_table \<Rightarrow> nat \<Rightarrow> nat \<Rightarrow> u16 \<Rightarrow> u32 \<Rightarrow> cont_world \<Rightarrow> cont_world option" where
  "updateThing items c x itemId n w =
     (if getThingIndex w c x = -1 then Some w
      else (let oldWeight = container_getWeight items w x;
                w1 = change_item x (\<lambda>i. setSubType items (ucast n) (setID items itemId i)) w
            in updateItemWeight c (- oldWeight + container_getWeight items w1 x) w1))"

definition replaceThing :: "item_table \<Rightarrow> nat \<Rightarrow> nat \<Rightarrow> nat \<Rightarrow> cont_world \<Rightarrow> cont_world option" where
  "replaceThing items c index x w = (case getItemByIndex w c index of
      None \<Rightarrow> Some w
    | Some r \<Rightarrow>
        let w1 = set_place x (Inside c) (change_list c (\<lambda>xs. xs[index := x]) w)
        in map_option (set_place r Nowhere)
          (updateItemWeight c (- container_getWeight items w1 r + container_getWeight items w1 x) w1))"

text \<open>The difference is taken in 32 unsigned bits and then read as a signed number.\<close>

definition removeThing :: "item_table \<Rightarrow> nat \<Rightarrow> nat \<Rightarrow> u32 \<Rightarrow> cont_world \<Rightarrow> cont_world option" where
  "removeThing items c x n w =
     (if getThingIndex w c x = -1 then Some w
      else if it_stackable (items (item_id (w_item w x))) \<and> n \<noteq> ucast (item_count (w_item w x))
      then (let newCount = ucast (max0 (ucast (item_count (w_item w x)) - n)) :: u8;
                oldWeight = container_getWeight items w x;
                w1 = change_item x (setItemCount newCount) w
            in updateItemWeight c (- oldWeight + container_getWeight items w1 x) w1)
      else map_option (\<lambda>w1. change_list c (remove1 x) (set_place x Nowhere w1))
          (updateItemWeight c (- container_getWeight items w x) w))"

text \<open>\<open>removeItem\<close> takes a thing out without touching the weights.\<close>

definition removeItem :: "nat \<Rightarrow> nat \<Rightarrow> cont_world \<Rightarrow> cont_world" where
  "removeItem c x w = (if x \<in> set (contents_of w c) then set_place x Nowhere (change_list c (remove1 x) w) else w)"

section \<open>Going through everything inside\<close>

text \<open>
  The iterator walks through the container at the front of its queue, puts every container that is not
  empty at the end when it passes it, and drops the front when it is through.
\<close>

record container_iterator =
  over :: "nat list"
  cur :: nat

definition hasNext :: "container_iterator \<Rightarrow> bool" where
  "hasNext it \<longleftrightarrow> over it \<noteq> []"

definition iterator :: "cont_world \<Rightarrow> nat \<Rightarrow> container_iterator" where
  "iterator w c = \<lparr>over = (if contents_of w c \<noteq> [] then [c] else []), cur = 0\<rparr>"

definition deref :: "cont_world \<Rightarrow> container_iterator \<Rightarrow> nat" where
  "deref w it = contents_of w (hd (over it)) ! cur it"

definition nonempty_box :: "cont_world \<Rightarrow> nat \<Rightarrow> bool" where
  "nonempty_box w x \<longleftrightarrow> w_box w x \<noteq> None \<and> contents_of w x \<noteq> []"

definition iter_advance :: "cont_world \<Rightarrow> container_iterator \<Rightarrow> container_iterator" where
  "iter_advance w it =
     (let ov = (if nonempty_box w (deref w it) then over it @ [deref w it] else over it); n = cur it + 1
      in if n = length (contents_of w (hd ov)) then \<lparr>over = tl ov, cur = 0\<rparr> else \<lparr>over = ov, cur = n\<rparr>)"

text \<open>The things a loop over the iterator sees.\<close>

partial_function (option) iterate_over :: "cont_world \<Rightarrow> container_iterator \<Rightarrow> nat list option" where
  "iterate_over w it = (if \<not> hasNext it then Some []
     else Option.bind (iterate_over w (iter_advance w it)) (\<lambda>xs. Some (deref w it # xs)))"

definition container_items :: "cont_world \<Rightarrow> nat \<Rightarrow> nat list option" where
  "container_items w c = iterate_over w (iterator w c)"

definition getItems :: "cont_world \<Rightarrow> nat \<Rightarrow> bool \<Rightarrow> nat list option" where
  "getItems w c recursive = (if recursive then container_items w c else Some (contents_of w c))"

definition getItemHoldingCount :: "cont_world \<Rightarrow> nat \<Rightarrow> u32 option" where
  "getItemHoldingCount w c = map_option (\<lambda>xs. of_nat (length xs)) (container_items w c)"

definition getContainerHoldingCount :: "cont_world \<Rightarrow> nat \<Rightarrow> u32 option" where
  "getContainerHoldingCount w c =
     map_option (\<lambda>xs. of_nat (length (filter (\<lambda>x. w_box w x \<noteq> None) xs))) (container_items w c)"

definition isHoldingItem :: "cont_world \<Rightarrow> nat \<Rightarrow> nat \<Rightarrow> bool option" where
  "isHoldingItem w c x = map_option (\<lambda>xs. x \<in> set xs) (container_items w c)"

definition isHoldingItemWithId :: "cont_world \<Rightarrow> nat \<Rightarrow> u16 \<Rightarrow> bool option" where
  "isHoldingItemWithId w c n = map_option (list_ex (\<lambda>x. item_id (w_item w x) = n)) (container_items w c)"

definition isInsideContainerWithId :: "cont_world \<Rightarrow> nat \<Rightarrow> u16 \<Rightarrow> bool option" where
  "isInsideContainerWithId w c n = map_option (list_ex (\<lambda>x. item_id (w_item w x) = n)) (ancestors w c)"

definition getItemTypeCount :: "item_table \<Rightarrow> cont_world \<Rightarrow> nat \<Rightarrow> u16 \<Rightarrow> int \<Rightarrow> u32" where
  "getItemTypeCount items w c itemId subType =
     fold (\<lambda>x n. if item_id (w_item w x) = itemId then n + countByType items (w_item w x) subType else n) (contents_of w c) 0"

definition getAllItemTypeCount :: "cont_world \<Rightarrow> nat \<Rightarrow> (u16 \<Rightarrow> u32) \<Rightarrow> u16 \<Rightarrow> u32" where
  "getAllItemTypeCount w c = fold (\<lambda>x m. m(item_id (w_item w x) := m (item_id (w_item w x)) + ucast (item_count (w_item w x))))
     (contents_of w c)"

section \<open>Well-formed worlds\<close>

text \<open>
  A thing is in the list of a container exactly when its parent is that container, at most once, and the
  nesting is finite: there is a depth that grows from a container to what is inside it.  Finitely many
  containers hold something.
\<close>

definition nested :: "(nat \<Rightarrow> nat) \<Rightarrow> cont_world \<Rightarrow> bool" where
  "nested depth w \<longleftrightarrow> (\<forall>x c. w_place w x = Inside c \<longrightarrow> depth c < depth x)"

definition forest :: "cont_world \<Rightarrow> bool" where
  "forest w \<longleftrightarrow> (\<forall>c. distinct (contents_of w c)) \<and> (\<forall>c x. x \<in> set (contents_of w c) \<longleftrightarrow> w_place w x = Inside c)
     \<and> (\<exists>depth. nested depth w) \<and> finite {c. contents_of w c \<noteq> []}"

text \<open>The weight of the container \<open>co\<close>, if any, lacks \<open>d\<close>; every other one is the sum over its contents.\<close>

definition weights_lack :: "item_table \<Rightarrow> nat option \<Rightarrow> u32 \<Rightarrow> cont_world \<Rightarrow> bool" where
  "weights_lack items co d w \<longleftrightarrow> (\<forall>c b. w_box w c = Some b \<longrightarrow>
     totalWeight b + (if co = Some c then d else 0) = (\<Sum>x \<leftarrow> itemlist b. container_getWeight items w x))"

definition boxes_ok :: "item_table \<Rightarrow> cont_world \<Rightarrow> bool" where
  "boxes_ok items w \<longleftrightarrow> forest w \<and> weights_lack items None 0 w"

lemma ancestors_inside: "w_place w x = Inside c \<Longrightarrow> ancestors w x = Option.bind (ancestors w c) (\<lambda>as. Some (c # as))"
  by (subst ancestors.simps) (simp add: getParentContainer_def)

lemma ancestors_root: "\<forall>c. w_place w x \<noteq> Inside c \<Longrightarrow> ancestors w x = Some []"
  by (subst ancestors.simps) (simp add: getParentContainer_def split: thing_place.split)

lemma forest_box: "forest w \<Longrightarrow> w_place w x = Inside c \<Longrightarrow> \<exists>b. w_box w c = Some b \<and> x \<in> set (itemlist b)"
  by (auto simp: forest_def contents_of_def split: option.splits) (metis empty_iff empty_set option.exhaust)

lemma ancestors_return: "nested depth w \<Longrightarrow> \<exists>as. ancestors w x = Some as"
proof (induction "depth x" arbitrary: x rule: less_induct)
  case less
  show ?case
  proof (cases "\<exists>c. w_place w x = Inside c")
    case True
    then obtain c where c: "w_place w x = Inside c" by blast
    then have "depth c < depth x" using less.prems by (auto simp: nested_def)
    then obtain as where "ancestors w c = Some as" using less by blast
    then show ?thesis using c by (simp add: ancestors_inside)
  qed (simp add: ancestors_root)
qed

lemma ancestors_depth: "nested depth w \<Longrightarrow> ancestors w x = Some as \<Longrightarrow> a \<in> set as \<Longrightarrow> depth a < depth x"
proof (induction as arbitrary: x)
  case (Cons c as)
  then obtain c' where c': "w_place w x = Inside c'" using ancestors_root [of w x] by fastforce
  then have "c' = c" "ancestors w c = Some as" using Cons.prems(2) by (auto simp: ancestors_inside bind_eq_Some_conv)
  moreover have "depth c < depth x" using c' Cons.prems(1) by (auto simp: nested_def \<open>c' = c\<close>)
  ultimately show ?case using Cons by (auto dest: less_trans)
qed simp

lemma ancestors_place: "w_place w = w_place w' \<Longrightarrow> nested depth w \<Longrightarrow> ancestors w' x = ancestors w x"
proof (induction "depth x" arbitrary: x rule: less_induct)
  case less
  show ?case
  proof (cases "\<exists>c. w_place w x = Inside c")
    case True
    then obtain c where c: "w_place w x = Inside c" by blast
    then have "depth c < depth x" using less.prems by (auto simp: nested_def)
    then have "ancestors w' c = ancestors w c" using less by blast
    then show ?thesis using c less.prems(1) by (simp add: ancestors_inside)
  next
    case False
    then show ?thesis using less.prems(1) by (simp add: ancestors_root)
  qed
qed

section \<open>The weights after an update\<close>

lemma add_weight_fields [simp]:
  "w_place (add_weight d c w) = w_place w" "w_item (add_weight d c w) = w_item w"
  "contents_of (add_weight d c w) = contents_of w"
  by (auto simp: add_weight_def contents_of_def fun_eq_iff split: option.split)

lemma forest_add_weight [simp]: "forest (add_weight d c w) = forest w"
  by (simp add: forest_def nested_def)

lemma weight_add_weight:
  "w_box w c \<noteq> None \<Longrightarrow> container_getWeight items (add_weight d c w) x = container_getWeight items w x + (if x = c then d else 0)"
  by (auto simp: container_getWeight_def add_weight_def)

lemma sum_list_one_changed:
  fixes f :: "'a \<Rightarrow> 'b::comm_monoid_add"
  shows "distinct xs \<Longrightarrow> (\<Sum>x \<leftarrow> xs. f x + (if x = c then d else 0)) = (\<Sum>x \<leftarrow> xs. f x) + (if c \<in> set xs then d else 0)"
  by (induction xs) (auto simp: ac_simps)

text \<open>Adding what a container lacks makes the container around it lack the same.\<close>

lemma weights_step:
  assumes f: "forest w" and l: "weights_lack items (Some c) d w" and b: "w_box w c \<noteq> None"
  shows "weights_lack items (getParentContainer w c) d (add_weight d c w)"
  unfolding weights_lack_def
proof (intro allI impI)
  fix a ba assume a: "w_box (add_weight d c w) a = Some ba"
  then obtain b0 where b0: "w_box w a = Some b0" "itemlist ba = itemlist b0" "totalWeight ba = totalWeight b0 + (if a = c then d else 0)"
    by (auto simp: add_weight_def split: if_splits)
  have xs: "itemlist b0 = contents_of w a" using b0 by (simp add: contents_of_def)
  have "distinct (itemlist b0)" "c \<in> set (itemlist b0) \<longleftrightarrow> w_place w c = Inside a"
    using f by (simp_all add: forest_def xs)
  then have "(\<Sum>x \<leftarrow> itemlist b0. container_getWeight items (add_weight d c w) x)
      = (\<Sum>x \<leftarrow> itemlist b0. container_getWeight items w x) + (if w_place w c = Inside a then d else 0)"
    by (simp add: weight_add_weight [OF b] sum_list_one_changed)
  moreover have "totalWeight b0 + (if c = a then d else 0) = (\<Sum>x \<leftarrow> itemlist b0. container_getWeight items w x)"
    using l b0(1) by (auto simp: weights_lack_def)
  moreover have "w_place w c \<noteq> Inside c" using f by (auto simp: forest_def nested_def)
  ultimately show "totalWeight ba + (if getParentContainer w c = Some a then d else 0)
      = (\<Sum>x \<leftarrow> itemlist ba. container_getWeight items (add_weight d c w) x)"
    using b0 by (auto simp: getParentContainer_def split: thing_place.split)
qed

lemma weights_chain:
  assumes "forest w" "weights_lack items (Some c) d w" "w_box w c \<noteq> None" "ancestors w c = Some as"
  shows "boxes_ok items (fold (add_weight d) (c # as) w)"
  using assms
proof (induction as arbitrary: c w)
  case Nil
  then have "getParentContainer w c = None"
    by (cases "w_place w c") (auto simp: getParentContainer_def ancestors_inside bind_eq_Some_conv)
  then have "weights_lack items None d (add_weight d c w)" using weights_step [OF Nil(1-3)] by simp
  then show ?case using Nil by (simp add: boxes_ok_def weights_lack_def)
next
  case (Cons p as)
  then obtain p' where "w_place w c = Inside p'" using ancestors_root [of w c] by fastforce
  then have p: "w_place w c = Inside p" "ancestors w p = Some as"
    using Cons.prems(4) by (auto simp: ancestors_inside bind_eq_Some_conv)
  let ?w = "add_weight d c w"
  obtain depth where "nested depth w" using Cons.prems(1) by (auto simp: forest_def)
  then have "ancestors ?w p = Some as" using ancestors_place [of w ?w] p by simp
  moreover have "weights_lack items (Some p) d ?w"
    using weights_step [OF Cons.prems(1-3)] p(1) by (simp add: getParentContainer_def)
  moreover have "w_box ?w p \<noteq> None"
    using forest_box [OF Cons.prems(1) p(1)] by (auto simp: add_weight_def)
  ultimately show ?case using Cons.IH [of ?w p] Cons.prems(1) by simp
qed

lemma updateItemWeight_repairs:
  assumes "forest w" "weights_lack items (Some c) d w" "w_box w c \<noteq> None"
  shows "\<exists>w'. updateItemWeight c d w = Some w' \<and> boxes_ok items w' \<and> w_place w' = w_place w
    \<and> contents_of w' = contents_of w \<and> w_item w' = w_item w"
proof -
  obtain depth where "nested depth w" using assms(1) by (auto simp: forest_def)
  then obtain as where as: "ancestors w c = Some as" using ancestors_return by blast
  have same: "w_place (fold (add_weight d) cs w) = w_place w \<and> contents_of (fold (add_weight d) cs w) = contents_of w
      \<and> w_item (fold (add_weight d) cs w) = w_item w" for cs
    by (induction cs arbitrary: w) auto
  show ?thesis using as weights_chain [OF assms as] same [of "c # as"] by (simp add: updateItemWeight_def del: fold.simps)
qed

section \<open>Putting in and taking out\<close>

text \<open>The thing \<open>x\<close> goes to the place \<open>p\<close> and the list of \<open>c\<close> becomes \<open>ys\<close>.\<close>

definition relist :: "nat \<Rightarrow> thing_place \<Rightarrow> nat \<Rightarrow> nat list \<Rightarrow> cont_world \<Rightarrow> cont_world" where
  "relist x p c ys w = set_place x p (change_list c (\<lambda>_. ys) w)"

text \<open>A thing may enter a container when it is in none and the container is not inside it.\<close>

definition may_enter :: "cont_world \<Rightarrow> nat \<Rightarrow> nat \<Rightarrow> bool" where
  "may_enter w c x \<longleftrightarrow> w_box w c \<noteq> None \<and> getParentContainer w x = None \<and> x \<noteq> c
     \<and> (case ancestors w c of None \<Rightarrow> False | Some as \<Rightarrow> x \<notin> set as)"

lemma relist_fields [simp]:
  "w_item (relist x p c ys w) = w_item w" "w_place (relist x p c ys w) = (w_place w)(x := p)"
  "w_box w c \<noteq> None \<Longrightarrow> contents_of (relist x p c ys w) = (contents_of w)(c := ys)"
  by (auto simp: relist_def set_place_def change_list_def contents_of_def fun_eq_iff)

lemma weight_relist [simp]: "container_getWeight items (relist x p c ys w) = container_getWeight items w"
  by (auto simp: container_getWeight_def relist_def set_place_def change_list_def fun_eq_iff split: option.split)

lemma sum_by_mset: "mset ys = mset xs \<Longrightarrow> (\<Sum>x \<leftarrow> ys. f x) = (\<Sum>x \<leftarrow> xs. f x :: 'a::comm_monoid_add)"
  by (metis mset_map sum_mset_sum_list)

lemma weights_relist:
  assumes "weights_lack items None 0 w" "w_box w c \<noteq> None"
    and "(\<Sum>y \<leftarrow> ys. container_getWeight items w y) = (\<Sum>y \<leftarrow> contents_of w c. container_getWeight items w y) + d"
  shows "weights_lack items (Some c) d (relist x p c ys w)"
  unfolding weights_lack_def
proof (intro allI impI)
  fix a b assume a: "w_box (relist x p c ys w) a = Some b"
  then obtain b0 where b0: "w_box w a = Some b0" "totalWeight b = totalWeight b0" "itemlist b = (if a = c then ys else itemlist b0)"
    by (auto simp: relist_def set_place_def change_list_def split: if_splits)
  have "totalWeight b0 = (\<Sum>y \<leftarrow> itemlist b0. container_getWeight items w y)"
    using assms(1) b0(1) by (simp add: weights_lack_def)
  then show "totalWeight b + (if Some c = Some a then d else 0) = (\<Sum>y \<leftarrow> itemlist b. container_getWeight items (relist x p c ys w) y)"
    using b0 assms(3) by (auto simp: contents_of_def)
qed

lemma nested_shifted:
  assumes d: "nested depth w" and same: "\<And>y q. w_place w y = Inside q \<Longrightarrow> y \<noteq> x \<Longrightarrow> y \<in> B \<longleftrightarrow> q \<in> B"
    and x: "x \<in> B" and c: "c \<notin> B"
  shows "nested (\<lambda>y. if y \<in> B then depth y + depth c + 1 else depth y) (relist x (Inside c) c ys w)"
  unfolding nested_def
proof (intro allI impI)
  fix y q assume q: "w_place (relist x (Inside c) c ys w) y = Inside q"
  show "(if q \<in> B then depth q + depth c + 1 else depth q) < (if y \<in> B then depth y + depth c + 1 else depth y)"
  proof (cases "y = x")
    case True
    then show ?thesis using q x c by simp
  next
    case False
    then have y: "w_place w y = Inside q" using q by simp
    then have "depth q < depth y" using d by (simp add: nested_def)
    then show ?thesis using same [OF y False] by simp
  qed
qed

lemma nested_enter:
  assumes f: "forest w" and e: "may_enter w c x"
  shows "\<exists>depth. nested depth (relist x (Inside c) c ys w)"
proof -
  obtain depth where d: "nested depth w" using f by (auto simp: forest_def)
  obtain as where as: "ancestors w c = Some as" "x \<notin> set as" using e by (auto simp: may_enter_def split: option.splits)
  let ?B = "{y. y = x \<or> (\<exists>bs. ancestors w y = Some bs \<and> x \<in> set bs)}"
  have "y \<in> ?B \<longleftrightarrow> q \<in> ?B" if "w_place w y = Inside q" "y \<noteq> x" for y q
  proof -
    obtain bs where "ancestors w q = Some bs" using ancestors_return [OF d] by blast
    then show ?thesis using that by (auto simp: ancestors_inside)
  qed
  moreover have "c \<notin> ?B" using as e by (auto simp: may_enter_def)
  ultimately show ?thesis using nested_shifted [OF d, of x ?B c] by blast
qed

lemma nested_leave: "forest w \<Longrightarrow> \<exists>depth. nested depth (relist x Nowhere c ys w)"
  unfolding forest_def nested_def by (elim conjE exE, rule exI) auto

lemma forest_enter:
  assumes f: "forest w" and e: "may_enter w c x" and ys: "mset ys = add_mset x (mset (contents_of w c))"
  shows "forest (relist x (Inside c) c ys w)"
proof -
  have c: "w_box w c \<noteq> None" and x: "w_place w x \<noteq> Inside q" for q
    using e by (auto simp: may_enter_def getParentContainer_def split: thing_place.splits)
  have set: "set ys = insert x (set (contents_of w c))" using ys by (metis set_mset_add_mset_insert set_mset_mset)
  have "x \<notin> set (contents_of w c)" "distinct (contents_of w c)" using f x by (auto simp: forest_def)
  then have "distinct (x # contents_of w c)" by simp
  then have "distinct ys" using ys mset_eq_imp_distinct_iff [of ys "x # contents_of w c"] by simp
  moreover have "finite {a. ((contents_of w)(c := ys)) a \<noteq> []}"
    using f by (auto simp: forest_def intro: finite_subset [of _ "insert c {a. contents_of w a \<noteq> []}"])
  ultimately show ?thesis
    using f x set nested_enter [OF f e] by (auto simp: forest_def c)
qed

lemma forest_leave:
  assumes f: "forest w" and x: "x \<in> set (contents_of w c)" and ys: "mset ys = mset (contents_of w c) - {#x#}"
  shows "forest (relist x Nowhere c ys w)"
proof -
  have c: "w_box w c \<noteq> None" using x by (cases "w_box w c") (auto simp: contents_of_def)
  have d: "distinct (contents_of w c)" using f by (simp add: forest_def)
  have m: "mset ys = mset (remove1 x (contents_of w c))" using ys by simp
  have s: "set ys = set (contents_of w c) - {x}" using mset_eq_setD [OF m] d by simp
  have "distinct ys" using mset_eq_imp_distinct_iff [OF m] d by simp
  moreover have "finite {a. ((contents_of w)(c := ys)) a \<noteq> []}"
    using f by (auto simp: forest_def intro: finite_subset [of _ "insert c {a. contents_of w a \<noteq> []}"])
  moreover have "w_place w x = Inside c" using f x by (simp add: forest_def)
  ultimately show ?thesis using f s nested_leave [OF f] by (auto simp: forest_def c)
qed

section \<open>What the iterator sees\<close>

text \<open>\<open>x\<close> is below \<open>c\<close> when \<open>c\<close> is reached from it through the parents.\<close>

definition below :: "cont_world \<Rightarrow> nat \<Rightarrow> nat \<Rightarrow> bool" where
  "below w = (\<lambda>x c. w_place w x = Inside c)\<^sup>+\<^sup>+"

lemma below_up: "below w x c \<longleftrightarrow> (\<exists>p. w_place w x = Inside p \<and> (p = c \<or> below w p c))"
  unfolding below_def by (auto elim: converse_tranclpE intro: tranclp_into_tranclp2)

lemma below_down: "below w x c \<longleftrightarrow> (\<exists>z. w_place w z = Inside c \<and> (x = z \<or> below w x z))"
  unfolding below_def by (auto elim: tranclp.cases intro: tranclp.intros)

lemma below_trans: "below w x y \<Longrightarrow> below w y z \<Longrightarrow> below w x z"
  unfolding below_def by (rule tranclp_trans)

lemma below_depth: "below w x c \<Longrightarrow> nested depth w \<Longrightarrow> depth c < depth x"
  unfolding below_def by (induction rule: tranclp_induct) (auto simp: nested_def intro: less_trans)

lemma not_below_self: "forest w \<Longrightarrow> \<not> below w x x"
  using below_depth by (force simp: forest_def)

lemma set_ancestors: "ancestors w x = Some as \<Longrightarrow> set as = {c. below w x c}"
proof (induction as arbitrary: x)
  case Nil
  then have "w_place w x \<noteq> Inside c" for c by (auto simp: ancestors_inside bind_eq_Some_conv)
  then show ?case by (auto simp: below_up [of w x])
next
  case (Cons p as)
  then obtain p' where "w_place w x = Inside p'" using ancestors_root [of w x] by fastforce
  then have "w_place w x = Inside p" "ancestors w p = Some as"
    using Cons.prems by (auto simp: ancestors_inside bind_eq_Some_conv)
  then show ?case using Cons.IH [of p] below_up [of w x] by auto
qed

lemma finite_below: "forest w \<Longrightarrow> finite {x. below w x c}"
proof -
  assume f: "forest w"
  have "{x. below w x c} \<subseteq> (\<Union>a \<in> {a. contents_of w a \<noteq> []}. set (contents_of w a))"
  proof
    fix x assume "x \<in> {x. below w x c}"
    then obtain p where "w_place w x = Inside p" using below_up [of w x c] by blast
    then have "x \<in> set (contents_of w p)" using f by (simp add: forest_def)
    then show "x \<in> (\<Union>a \<in> {a. contents_of w a \<noteq> []}. set (contents_of w a))" by (auto intro!: exI [of _ p])
  qed
  moreover have "finite (\<Union>a \<in> {a. contents_of w a \<noteq> []}. set (contents_of w a))" using f by (simp add: forest_def)
  ultimately show ?thesis by (rule finite_subset)
qed

text \<open>The rest of the container at the front.\<close>

lemma iterate_front:
  "i < length (contents_of w c) \<Longrightarrow> iterate_over w \<lparr>over = c # rest, cur = i\<rparr>
     = Option.bind (iterate_over w \<lparr>over = rest @ filter (nonempty_box w) (drop i (contents_of w c)), cur = 0\<rparr>)
         (\<lambda>xs. Some (drop i (contents_of w c) @ xs))"
proof (induction "length (contents_of w c) - i" arbitrary: i rest)
  case (Suc n)
  let ?x = "contents_of w c ! i" and ?it = "\<lparr>over = c # rest, cur = i\<rparr>"
  let ?rest = "if nonempty_box w ?x then rest @ [?x] else rest"
  have d: "drop i (contents_of w c) = ?x # drop (Suc i) (contents_of w c)" using Suc.prems by (simp add: Cons_nth_drop_Suc)
  have x: "deref w ?it = ?x" by (simp add: deref_def)
  have "iterate_over w (iter_advance w ?it) = Option.bind (iterate_over w \<lparr>over = ?rest @ filter (nonempty_box w) (drop (Suc i) (contents_of w c)), cur = 0\<rparr>)
      (\<lambda>xs. Some (drop (Suc i) (contents_of w c) @ xs))"
  proof (cases "Suc i = length (contents_of w c)")
    case True
    then show ?thesis by (simp add: iter_advance_def x)
  next
    case False
    then have "iterate_over w \<lparr>over = c # ?rest, cur = Suc i\<rparr> = Option.bind (iterate_over w \<lparr>over = ?rest @ filter (nonempty_box w)
        (drop (Suc i) (contents_of w c)), cur = 0\<rparr>) (\<lambda>xs. Some (drop (Suc i) (contents_of w c) @ xs))"
      using Suc.hyps(2) Suc.prems by (intro Suc.hyps(1)) auto
    then show ?thesis using False by (simp add: iter_advance_def x split: if_splits)
  qed
  then show ?case by (subst iterate_over.simps) (simp add: hasNext_def x d bind_assoc)
qed simp

text \<open>
  The queue never holds a container and one inside it, so what is below one element is not below another;
  every container that is passed leaves fewer things to see.
\<close>

definition independent :: "cont_world \<Rightarrow> nat list \<Rightarrow> bool" where
  "independent w qs \<longleftrightarrow> distinct qs \<and> (\<forall>p q. p \<in> set qs \<longrightarrow> q \<in> set qs \<longrightarrow> \<not> below w p q) \<and> (\<forall>q. q \<in> set qs \<longrightarrow> contents_of w q \<noteq> [])"

definition region :: "cont_world \<Rightarrow> nat list \<Rightarrow> nat set" where
  "region w qs = {x. \<exists>q. q \<in> set qs \<and> below w x q}"

lemma kid: "forest w \<Longrightarrow> x \<in> set (contents_of w c) \<longleftrightarrow> w_place w x = Inside c"
  by (simp add: forest_def)

lemma nonempty_box_iff: "nonempty_box w x \<longleftrightarrow> contents_of w x \<noteq> []"
  by (cases "w_box w x") (auto simp: nonempty_box_def contents_of_def)

lemma independent_step:
  assumes f: "forest w" and i: "independent w (c # rest)"
  shows "independent w (rest @ filter (nonempty_box w) (contents_of w c))"
proof -
  have up: "below w k q \<longleftrightarrow> c = q \<or> below w c q" if "w_place w k = Inside c" for k q
    using that below_up [of w k q] by simp
  have d: "distinct (contents_of w c)" using f by (simp add: forest_def)
  have a: "\<not> below w p q" if "p \<in> set (c # rest)" "q \<in> set (c # rest)" for p q
    using i that by (auto simp only: independent_def)
  have self: "\<not> below w c c" by (rule a) auto
  have "\<not> below w p k" if "p \<in> set rest" "w_place w k = Inside c" for p k
    using a [of p c] below_trans [of w p k c] up [OF that(2), of c] that(1) by auto
  moreover have "k \<notin> set rest" if "w_place w k = Inside c" for k
    using a [of k c] up [OF that, of c] by auto
  moreover have "\<not> below w k q" if "w_place w k = Inside c" "q \<in> set rest" for k q
    using a [of c q] up [OF that(1), of q] that(2) i by (auto simp: independent_def)
  moreover have "\<not> below w k k'" if "w_place w k = Inside c" "w_place w k' = Inside c" for k k'
    using up [OF that(1), of k'] below_trans [of w c k' c] up [OF that(2), of c] self by auto
  ultimately show ?thesis
    using i d by (auto simp: independent_def kid [OF f] nonempty_box_iff)
qed

lemma region_step:
  assumes f: "forest w" and i: "independent w (c # rest)"
  shows "region w (c # rest) = set (contents_of w c) \<union> region w (rest @ filter (nonempty_box w) (contents_of w c))"
    and "set (contents_of w c) \<inter> region w (rest @ filter (nonempty_box w) (contents_of w c)) = {}"
proof -
  have n: "contents_of w z \<noteq> []" if "below w x z" for x z
    using that below_down [of w x z] kid [OF f, of _ z] by fastforce
  show "region w (c # rest) = set (contents_of w c) \<union> region w (rest @ filter (nonempty_box w) (contents_of w c))"
  proof (rule set_eqI)
    fix x
    have "below w x c \<longleftrightarrow> w_place w x = Inside c \<or> (\<exists>z. w_place w z = Inside c \<and> contents_of w z \<noteq> [] \<and> below w x z)"
      using below_down [of w x c] n by blast
    then show "x \<in> region w (c # rest) \<longleftrightarrow> x \<in> set (contents_of w c) \<union> region w (rest @ filter (nonempty_box w) (contents_of w c))"
      unfolding region_def by (auto simp: kid [OF f] nonempty_box_iff)
  qed
  have "\<not> below w k q" if k: "w_place w k = Inside c" and q: "q \<in> set (rest @ filter (nonempty_box w) (contents_of w c))" for k q
  proof
    assume "below w k q"
    then have b: "c = q \<or> below w c q" using k below_up [of w k q] by simp
    show False
    proof (cases "q \<in> set rest")
      case True
      then show False using b i by (auto simp: independent_def)
    next
      case False
      then have "w_place w q = Inside c" using q by (simp add: kid [OF f])
      then have "below w q c" using below_up [of w q c] by simp
      then show False using b below_trans [of w q c q] not_below_self [OF f, of q] by auto
    qed
  qed
  then show "set (contents_of w c) \<inter> region w (rest @ filter (nonempty_box w) (contents_of w c)) = {}"
    by (auto simp: region_def kid [OF f])
qed

lemma finite_region: "forest w \<Longrightarrow> finite (region w qs)"
proof -
  assume f: "forest w"
  have "region w qs = (\<Union>q \<in> set qs. {x. below w x q})" by (auto simp: region_def)
  then show ?thesis using finite_below [OF f] by simp
qed

lemma iterate_queue:
  assumes f: "forest w"
  shows "independent w qs \<Longrightarrow> \<exists>xs. iterate_over w \<lparr>over = qs, cur = 0\<rparr> = Some xs \<and> distinct xs \<and> set xs = region w qs"
proof (induction "card (region w qs)" arbitrary: qs rule: less_induct)
  case less
  show ?case
  proof (cases qs)
    case Nil
    then show ?thesis by (subst iterate_over.simps) (simp add: hasNext_def region_def)
  next
    case (Cons c rest)
    let ?qs = "rest @ filter (nonempty_box w) (contents_of w c)"
    have i: "independent w (c # rest)" using less.prems Cons by simp
    have c: "contents_of w c \<noteq> []" using i by (simp add: independent_def)
    note r = region_step [OF f i]
    have "B \<subset> A \<union> B" if "A \<inter> B = {}" "A \<noteq> {}" for A B :: "nat set" using that by auto
    then have "region w ?qs \<subset> region w qs" unfolding Cons r(1) using r(2) c by simp
    then have "card (region w ?qs) < card (region w qs)" using finite_region [OF f] by (rule psubset_card_mono [rotated])
    then obtain xs where "iterate_over w \<lparr>over = ?qs, cur = 0\<rparr> = Some xs" "distinct xs" "set xs = region w ?qs"
      using less.hyps independent_step [OF f i] by blast
    moreover have "distinct (contents_of w c)" using f by (simp add: forest_def)
    ultimately show ?thesis using iterate_front [of 0 w c rest] c r Cons by auto
  qed
qed

lemma container_items_spec:
  assumes f: "forest w"
  shows "\<exists>xs. container_items w c = Some xs \<and> distinct xs \<and> set xs = {x. below w x c}"
proof (cases "contents_of w c = []")
  case True
  then have "\<not> below w x c" for x using below_down [of w x c] kid [OF f, of _ c] by auto
  then show ?thesis using True by (subst container_items_def, subst iterate_over.simps) (simp add: iterator_def hasNext_def)
next
  case False
  then have "independent w [c]" using not_below_self [OF f] by (simp add: independent_def)
  then show ?thesis using iterate_queue [OF f, of "[c]"] False by (simp add: container_items_def iterator_def region_def)
qed

section \<open>The operations keep the weights\<close>

text \<open>What a caller sees after a successful update: the things, places and lists are the given ones, and the weights are right.\<close>

definition settled :: "item_table \<Rightarrow> cont_world \<Rightarrow> cont_world option \<Rightarrow> bool" where
  "settled items w0 r \<longleftrightarrow> (\<exists>w'. r = Some w' \<and> boxes_ok items w' \<and> w_place w' = w_place w0
     \<and> contents_of w' = contents_of w0 \<and> w_item w' = w_item w0)"

lemma settled_same: "boxes_ok items w \<Longrightarrow> settled items w (Some w)"
  by (simp add: settled_def)

lemma updateItemWeight_settled:
  "forest w \<Longrightarrow> weights_lack items (Some c) d w \<Longrightarrow> w_box w c \<noteq> None \<Longrightarrow> settled items w (updateItemWeight c d w)"
  unfolding settled_def by (rule updateItemWeight_repairs)

lemma weights_ok: "boxes_ok items w \<Longrightarrow> weights_lack items None 0 w" and forest_ok: "boxes_ok items w \<Longrightarrow> forest w"
  by (simp_all add: boxes_ok_def)

text \<open>Insertion at either end.\<close>

lemma box_relist [simp]: "w_box (relist x p c ys w) c = None \<longleftrightarrow> w_box w c = None"
  by (simp add: relist_def set_place_def change_list_def)

lemma may_enter_box: "may_enter w c x \<Longrightarrow> w_box w c \<noteq> None" by (simp add: may_enter_def)

lemma enter_settled:
  assumes "boxes_ok items w" "may_enter w c x" "mset ys = add_mset x (mset (contents_of w c))"
  shows "settled items (relist x (Inside c) c ys w)
    (updateItemWeight c (container_getWeight items w x) (relist x (Inside c) c ys w))"
proof (rule updateItemWeight_settled)
  let ?f = "container_getWeight items w"
  have "mset ys = mset (x # contents_of w c)" using assms(3) by simp
  from sum_by_mset [OF this, of ?f]
  have "(\<Sum>y \<leftarrow> ys. ?f y) = (\<Sum>y \<leftarrow> contents_of w c. ?f y) + ?f x" by (simp add: add.commute)
  then show "weights_lack items (Some c) (?f x) (relist x (Inside c) c ys w)"
    using weights_relist weights_ok [OF assms(1)] may_enter_box [OF assms(2)] by blast
qed (use assms forest_enter forest_ok may_enter_box in auto)

lemma enter_relist:
  "w_box w c \<noteq> None \<Longrightarrow> change_list c ((#) x) (set_place x p w) = relist x p c (x # contents_of w c) w"
  "w_box w c \<noteq> None \<Longrightarrow> addItem c x w = relist x (Inside c) c (contents_of w c @ [x]) w"
  by (auto simp: relist_def change_list_def set_place_def contents_of_def addItem_def)

lemma internalAddThing_settled:
  "boxes_ok items w \<Longrightarrow> may_enter w c x \<Longrightarrow>
   settled items (relist x (Inside c) c (x # contents_of w c) w) (internalAddThing items c x w)"
  using enter_settled [of items w c x "x # contents_of w c"] by (simp add: internalAddThing_def enter_relist may_enter_box)

lemma addThing_settled:
  "boxes_ok items w \<Longrightarrow> may_enter w c x \<Longrightarrow>
   settled items (if index \<ge> sint (capacity w c) then w else relist x (Inside c) c (x # contents_of w c) w) (addThing items c index x w)"
  using internalAddThing_settled [of items w c x] by (simp add: addThing_def internalAddThing_def settled_same)

lemma addItemBack_settled:
  "boxes_ok items w \<Longrightarrow> may_enter w c x \<Longrightarrow>
   settled items (relist x (Inside c) c (contents_of w c @ [x]) w) (addItemBack items c x w)"
  using enter_settled [of items w c x "contents_of w c @ [x]"] by (simp add: addItemBack_def enter_relist may_enter_box)

text \<open>A changed item.\<close>

lemma change_item_fields [simp]:
  "w_place (change_item x f w) = w_place w" "w_box (change_item x f w) = w_box w"
  "contents_of (change_item x f w) = contents_of w" "forest (change_item x f w) = forest w"
  by (simp_all add: change_item_def contents_of_def fun_eq_iff forest_def nested_def)

lemma weights_change_item:
  assumes ok: "boxes_ok items w" and x: "w_place w x = Inside c"
  shows "weights_lack items (Some c) (- container_getWeight items w x + container_getWeight items (change_item x f w) x) (change_item x f w)"
    (is "weights_lack items _ ?d ?w")
  unfolding weights_lack_def
proof (intro allI impI)
  fix a b assume b: "w_box ?w a = Some b"
  have w: "container_getWeight items ?w y = container_getWeight items w y + (if y = x then ?d else 0)" for y
    by (simp add: container_getWeight_def change_item_def)
  have "itemlist b = contents_of w a" using b by (simp add: contents_of_def)
  then have "distinct (itemlist b)" "x \<in> set (itemlist b) \<longleftrightarrow> c = a"
    using forest_ok [OF ok] x by (simp_all add: forest_def)
  then have "(\<Sum>y \<leftarrow> itemlist b. container_getWeight items ?w y) = (\<Sum>y \<leftarrow> itemlist b. container_getWeight items w y) + (if c = a then ?d else 0)"
    by (simp add: w sum_list_one_changed)
  then show "totalWeight b + (if Some c = Some a then ?d else 0) = (\<Sum>y \<leftarrow> itemlist b. container_getWeight items ?w y)"
    using weights_ok [OF ok] b by (simp add: weights_lack_def)
qed

lemma index_of_None [simp]: "index_of x xs = None \<longleftrightarrow> x \<notin> set xs"
  by (induction xs) auto

lemma getThingIndex_inside: "forest w \<Longrightarrow> getThingIndex w c x = -1 \<longleftrightarrow> w_place w x \<noteq> Inside c"
  unfolding getThingIndex_def kid [symmetric] by (cases "x \<in> set (contents_of w c)") (use index_of_None in \<open>fastforce split: option.split\<close>)+

lemma change_settled:
  "boxes_ok items w \<Longrightarrow> w_place w x = Inside c \<Longrightarrow> settled items (change_item x f w)
     (updateItemWeight c (- container_getWeight items w x + container_getWeight items (change_item x f w) x) (change_item x f w))"
  using updateItemWeight_settled [OF _ weights_change_item] forest_ok forest_box by fastforce

lemma updateThing_settled:
  "boxes_ok items w \<Longrightarrow> settled items (if getThingIndex w c x = -1 then w
     else change_item x (\<lambda>i. setSubType items (ucast n) (setID items itemId i)) w) (updateThing items c x itemId n w)"
  using change_settled by (simp add: updateThing_def Let_def settled_same getThingIndex_inside forest_ok)

text \<open>Taking out: the weights are updated before the list, which makes no difference.\<close>

lemma ancestors_set_place: "ancestors w c = Some as \<Longrightarrow> x \<notin> set (c # as) \<Longrightarrow> w_place w' = (w_place w)(x := p) \<Longrightarrow> ancestors w' c = Some as"
proof (induction as arbitrary: c)
  case Nil
  then have "w_place w c \<noteq> Inside q" for q by (auto simp: ancestors_inside bind_eq_Some_conv)
  then show ?case using Nil by (intro ancestors_root) auto
next
  case (Cons q as)
  then obtain q' where "w_place w c = Inside q'" using ancestors_root [of w c] by fastforce
  then have "w_place w c = Inside q" "ancestors w q = Some as"
    using Cons.prems by (auto simp: ancestors_inside bind_eq_Some_conv)
  then show ?case using Cons by (simp add: ancestors_inside)
qed

lemma add_weight_relist: "add_weight d a (relist x p c ys w) = relist x p c ys (add_weight d a w)"
  by (cases w, cases "w_box w a"; cases "w_box w c")
     (auto simp: add_weight_def relist_def set_place_def change_list_def fun_eq_iff)

lemma fold_add_weight:
  "fold (add_weight d) as (relist x p c ys w) = relist x p c ys (fold (add_weight d) as w)"
  "w_place (fold (add_weight d) as w) = w_place w" "contents_of (fold (add_weight d) as w) = contents_of w"
  by (induction as arbitrary: w) (auto simp: add_weight_relist)

lemma update_relist:
  assumes "ancestors w c = Some as" "x \<notin> set (c # as)"
  shows "updateItemWeight c d (relist x p c ys w) = map_option (relist x p c ys) (updateItemWeight c d w)"
proof -
  have "ancestors (relist x p c ys w) c = Some as" using ancestors_set_place [OF assms] by simp
  then show ?thesis using assms(1) by (simp add: updateItemWeight_def fold_add_weight add_weight_relist)
qed

lemma inside_not_above:
  assumes f: "forest w" and x: "w_place w x = Inside c"
  shows "\<exists>as. ancestors w c = Some as \<and> x \<notin> set (c # as)"
proof -
  obtain depth where "nested depth w" using f by (auto simp: forest_def)
  then obtain as where as: "ancestors w c = Some as" using ancestors_return by blast
  have "below w x c" using x below_up [of w x c] by simp
  then have "x \<noteq> c" "\<not> below w c x" using not_below_self [OF f] below_trans by blast+
  then show ?thesis using as set_ancestors [OF as] by simp
qed

lemma leave_settled:
  assumes ok: "boxes_ok items w" and x: "w_place w x = Inside c" and ys: "mset ys = mset (contents_of w c) - {#x#}"
  shows "settled items (relist x Nowhere c ys w)
    (map_option (relist x Nowhere c ys) (updateItemWeight c (- container_getWeight items w x) w))"
proof -
  let ?f = "container_getWeight items w"
  have f: "forest w" using ok by (rule forest_ok)
  have in_c: "x \<in> set (contents_of w c)" using x by (simp add: kid [OF f])
  obtain as where as: "ancestors w c = Some as" "x \<notin> set (c # as)" using inside_not_above [OF f x] by blast
  have c: "w_box w c \<noteq> None" using forest_box [OF f x] by auto
  have "mset (x # ys) = mset (contents_of w c)" using ys in_c by simp
  from sum_by_mset [OF this, of ?f]
  have "(\<Sum>y \<leftarrow> ys. ?f y) = (\<Sum>y \<leftarrow> contents_of w c. ?f y) + - ?f x" by (simp add: algebra_simps)
  then have "settled items (relist x Nowhere c ys w) (updateItemWeight c (- ?f x) (relist x Nowhere c ys w))"
    using weights_relist [OF weights_ok [OF ok] c] forest_leave [OF f in_c ys] c by (intro updateItemWeight_settled) simp_all
  then show ?thesis by (simp add: update_relist [OF as])
qed

lemma removeThing_all:
  assumes ok: "boxes_ok items w" and x: "w_place w x = Inside c"
  shows "map_option (\<lambda>w1. change_list c (remove1 x) (set_place x Nowhere w1)) (updateItemWeight c (- container_getWeight items w x) w)
    = map_option (relist x Nowhere c (remove1 x (contents_of w c))) (updateItemWeight c (- container_getWeight items w x) w)"
proof -
  obtain as where as: "ancestors w c = Some as" using inside_not_above [OF forest_ok [OF ok] x] by blast
  have "change_list c (remove1 x) (set_place x Nowhere v) = relist x Nowhere c (remove1 x (contents_of v c)) v" for v
    by (auto simp: change_list_def set_place_def relist_def contents_of_def fun_eq_iff split: option.split)
  then show ?thesis by (simp add: updateItemWeight_def as fold_add_weight)
qed

lemma removeThing_settled:
  assumes ok: "boxes_ok items w"
  shows "settled items (if getThingIndex w c x = -1 then w
     else if it_stackable (items (item_id (w_item w x))) \<and> n \<noteq> ucast (item_count (w_item w x))
     then change_item x (setItemCount (ucast (max0 (ucast (item_count (w_item w x)) - n)))) w
     else relist x Nowhere c (remove1 x (contents_of w c)) w) (removeThing items c x n w)"
proof (cases "w_place w x = Inside c")
  case True
  then show ?thesis
    using change_settled [OF ok True] leave_settled [OF ok True, of "remove1 x (contents_of w c)"] removeThing_all [OF ok True]
    by (simp add: removeThing_def Let_def getThingIndex_inside forest_ok [OF ok])
qed (simp add: removeThing_def getThingIndex_inside forest_ok [OF ok] settled_same [OF ok])

text \<open>Replacing: the new thing takes the slot of the old one, whose parent is reset at the end.\<close>

lemma set_place_relist: "contents_of w c = ys \<Longrightarrow> w_box w c \<noteq> None \<Longrightarrow> relist x p c ys w = set_place x p w"
  by (cases w) (auto simp: relist_def set_place_def change_list_def contents_of_def fun_eq_iff)

lemma box_add_weight: "w_box (fold (add_weight d) bs w) c = None \<longleftrightarrow> w_box w c = None"
  by (induction bs arbitrary: w) (simp_all add: add_weight_def)

lemma weights_lack_cong: "w_box w = w_box w' \<Longrightarrow> w_item w = w_item w' \<Longrightarrow> weights_lack items co d w = weights_lack items co d w'"
  by (simp add: weights_lack_def container_getWeight_def)

lemma replace_swap:
  "x \<noteq> r \<Longrightarrow> relist x p c ys (relist r q c zs w) = set_place r q (relist x p c ys w)"
  by (cases w, cases "w_box w c") (auto simp: relist_def set_place_def change_list_def fun_eq_iff)

lemma may_enter_relist:
  assumes e: "may_enter w c x" and r: "x \<noteq> r" and as: "ancestors w c = Some as" "r \<notin> set (c # as)"
  shows "may_enter (relist r p c ys w) c x"
proof -
  have "ancestors (relist r p c ys w) c = Some as" using ancestors_set_place [OF as] by simp
  then show ?thesis using e r as(1) by (simp add: may_enter_def getParentContainer_def)
qed

lemma replace_forest:
  assumes f: "forest w" and e: "may_enter w c x" and i: "index < length (contents_of w c)"
  shows "forest (set_place (contents_of w c ! index) Nowhere (relist x (Inside c) c ((contents_of w c)[index := x]) w))"
proof -
  let ?r = "contents_of w c ! index" and ?ys = "(contents_of w c)[index := x]"
  let ?w = "relist ?r Nowhere c (remove1 ?r (contents_of w c)) w"
  have r: "?r \<in> set (contents_of w c)" using i by simp
  then have place: "w_place w ?r = Inside c" by (simp add: kid [OF f])
  then have ne: "x \<noteq> ?r" using e by (auto simp: may_enter_def getParentContainer_def)
  obtain as where as: "ancestors w c = Some as" "?r \<notin> set (c # as)" using inside_not_above [OF f place] by blast
  have "mset ?ys = add_mset x (mset (contents_of ?w c))"
    using i may_enter_box [OF e] by (simp add: mset_update)
  then have "forest (relist x (Inside c) c ?ys ?w)"
    using forest_enter [OF forest_leave [OF f r, of "remove1 ?r (contents_of w c)"] may_enter_relist [OF e ne as]] by simp
  then show ?thesis by (simp add: replace_swap [OF ne])
qed

lemma replace_settled:
  assumes ok: "boxes_ok items w" and e: "may_enter w c x" and i: "index < length (contents_of w c)"
  defines "r \<equiv> contents_of w c ! index"
  defines "w1 \<equiv> relist x (Inside c) c ((contents_of w c)[index := x]) w"
  shows "settled items (set_place r Nowhere w1)
    (map_option (set_place r Nowhere) (updateItemWeight c (- container_getWeight items w r + container_getWeight items w x) w1))"
proof -
  let ?f = "container_getWeight items w" and ?ys = "(contents_of w c)[index := x]"
  have f: "forest w" using ok by (rule forest_ok)
  have c: "w_box w c \<noteq> None" by (rule may_enter_box [OF e])
  have r: "w_place w r = Inside c" using i by (simp add: r_def kid [OF f, symmetric])
  then have ne: "x \<noteq> r" using e by (auto simp: may_enter_def getParentContainer_def)
  obtain as where as: "ancestors w c = Some as" "r \<notin> set (c # as)" using inside_not_above [OF f r] by blast
  have "x \<notin> set (c # as)" using e as(1) by (auto simp: may_enter_def)
  then have as1: "ancestors w1 c = Some as" using ancestors_set_place [OF as(1), of x w1 "Inside c"] by (simp add: w1_def)
  have c1: "w_box w1 c \<noteq> None" "contents_of w1 c = ?ys" using c by (simp_all add: w1_def)
  have "mset (r # ?ys) = mset (x # contents_of w c)" using i by (simp add: mset_update r_def)
  from sum_by_mset [OF this, of ?f] have "(\<Sum>y \<leftarrow> ?ys. ?f y) = (\<Sum>y \<leftarrow> contents_of w c. ?f y) + (- ?f r + ?f x)"
    by (simp add: algebra_simps)
  then have "weights_lack items (Some c) (- ?f r + ?f x) w1"
    unfolding w1_def by (rule weights_relist [OF weights_ok [OF ok] c])
  then have "weights_lack items (Some c) (- ?f r + ?f x) (set_place r Nowhere w1)"
    using weights_lack_cong [of w1 "set_place r Nowhere w1"] by (simp add: set_place_def)
  moreover have "forest (set_place r Nowhere w1)" unfolding r_def w1_def by (rule replace_forest [OF f e i])
  ultimately have "settled items (set_place r Nowhere w1) (updateItemWeight c (- ?f r + ?f x) (set_place r Nowhere w1))"
    using c1(1) by (intro updateItemWeight_settled) (simp_all add: set_place_def)
  moreover have "updateItemWeight c d (set_place r Nowhere w1) = map_option (set_place r Nowhere) (updateItemWeight c d w1)" for d
  proof -
    have "updateItemWeight c d (relist r Nowhere c ?ys w1) = map_option (relist r Nowhere c ?ys) (updateItemWeight c d w1)"
      by (rule update_relist [OF as1 as(2)])
    moreover have "relist r Nowhere c ?ys (fold (add_weight d) bs w1) = set_place r Nowhere (fold (add_weight d) bs w1)" for bs
      using c1 by (intro set_place_relist) (simp_all add: fold_add_weight box_add_weight)
    ultimately show ?thesis using set_place_relist [OF c1(2,1)] by (simp add: updateItemWeight_def as1 del: fold.simps)
  qed
  ultimately show ?thesis by simp
qed

lemma replaceThing_settled:
  assumes ok: "boxes_ok items w" and e: "may_enter w c x"
  shows "settled items (case getItemByIndex w c index of None \<Rightarrow> w
     | Some r \<Rightarrow> set_place r Nowhere (relist x (Inside c) c ((contents_of w c)[index := x]) w)) (replaceThing items c index x w)"
proof (cases "index < length (contents_of w c)")
  case True
  have "set_place x (Inside c) (change_list c (\<lambda>xs. xs[index := x]) w) = relist x (Inside c) c ((contents_of w c)[index := x]) w"
    by (cases w, cases "w_box w c") (auto simp: set_place_def change_list_def relist_def contents_of_def fun_eq_iff)
  then show ?thesis using replace_settled [OF ok e True] True by (simp add: replaceThing_def getItemByIndex_def)
qed (simp add: replaceThing_def getItemByIndex_def settled_same [OF ok])

end
