(* ===== verification/Container_Query.thy ===== *)
theory Container_Query
  imports Containers "HOL-Library.Monad_Syntax"
begin

unbundle bit_operations_syntax

text \<open>
  What containers answer before a move (\<^verbatim>\<open>items/containers/container.cpp\<close> and its subclasses): may a
  thing be added, how many, may it be removed, and where does it go.  Cylinders that are not containers
  (tiles, players) are numbered; their own answers, the players of the game and the configuration are the
  fields of \<open>query_env\<close>.  A function that follows parents or walks through contents returns an option,
  and is proved to return when containers are not inside themselves.
\<close>

section \<open>Cylinders and their parents\<close>

text \<open>The answers containers and tiles give themselves; any other value of the enumeration is kept as its number.\<close>

datatype return_value = NOERROR | NOTPOSSIBLE | NOTENOUGHROOM | NOTMOVABLE | CONTAINERNOTENOUGHROOM | ONLYAMMOINQUIVER
  | CANNOTPICKUP | THISISIMPOSSIBLE | DEPOTISFULL | CONTAINERISFULL | ITEMISNOTYOURS | NEEDEXCHANGE | PLAYERISPZLOCKED
  | PLAYERISPZLOCKEDLEAVEPVPZONE | PLAYERISPZLOCKEDENTERPVPZONE | OtherValue nat

datatype cylinder = Box nat | Out nat

datatype outside_kind = TileK | HouseTileK | PlayerK u32 u32

record query_env =
  e_items :: item_table
  e_ptr :: "nat \<Rightarrow> item_attribute_t \<Rightarrow> nat"
  e_kind :: "nat \<Rightarrow> outside_kind"
  e_parent :: "nat \<Rightarrow> nat option"
  e_realParent :: "nat \<Rightarrow> nat option"
  e_queryAdd :: "nat \<Rightarrow> nat \<Rightarrow> u32 \<Rightarrow> u32 \<Rightarrow> return_value"
  e_queryRemove :: "nat \<Rightarrow> nat \<Rightarrow> u32 \<Rightarrow> u32 \<Rightarrow> return_value"
  e_firstID :: u32
  e_lastID :: u32
  e_guid_of_id :: "u32 \<Rightarrow> u32 option"
  e_id_of_guid :: "u32 \<Rightarrow> u32 option"
  e_maxContainer :: u32
  e_maxDepotItems :: "nat \<Rightarrow> u32"

definition FLAG_NOLIMIT :: u32 where "FLAG_NOLIMIT = 1"
definition FLAG_CHILDISOWNER :: u32 where "FLAG_CHILDISOWNER = 8"
definition FLAG_IGNORENOTMOVABLE :: u32 where "FLAG_IGNORENOTMOVABLE = 64"
definition FLAG_IGNOREAUTOSTACK :: u32 where "FLAG_IGNOREAUTOSTACK = 128"

definition hasBitSet :: "u32 \<Rightarrow> u32 \<Rightarrow> bool" where
  "hasBitSet flag flags \<longleftrightarrow> (flags AND flag) \<noteq> 0"

definition INDEX_WHEREEVER :: int where "INDEX_WHEREEVER = -1"

definition parent_of :: "query_env \<Rightarrow> cont_world \<Rightarrow> cylinder \<Rightarrow> cylinder option" where
  "parent_of env w cyl = (case cyl of
      Box x \<Rightarrow> (case w_place w x of Nowhere \<Rightarrow> None | Inside c \<Rightarrow> Some (Box c) | Outside k \<Rightarrow> Some (Out k))
    | Out k \<Rightarrow> map_option Out (e_parent env k))"

text \<open>\<open>Item::getTopParent\<close>: the cylinder below the last one; a player rather than the tile it stands on.\<close>

partial_function (option) top_parent_from :: "query_env \<Rightarrow> cont_world \<Rightarrow> cylinder \<Rightarrow> cylinder \<Rightarrow> cylinder option" where
  "top_parent_from env w prevaux aux = (case parent_of env w aux of
      None \<Rightarrow> Some prevaux
    | Some p \<Rightarrow> top_parent_from env w aux p)"

definition getTopParent :: "query_env \<Rightarrow> cont_world \<Rightarrow> nat \<Rightarrow> cylinder option" where
  "getTopParent env w x = (case parent_of env w (Box x) of
      None \<Rightarrow> Some (Box x)
    | Some aux \<Rightarrow> top_parent_from env w (Box x) aux)"

text \<open>\<open>Container::getTopParentContainer\<close>\<close>

partial_function (option) top_container_from :: "query_env \<Rightarrow> cont_world \<Rightarrow> cylinder \<Rightarrow> cylinder \<Rightarrow> cylinder option" where
  "top_container_from env w prevThing thing = (case parent_of env w thing of
      Some (Box p) \<Rightarrow> top_container_from env w thing (Box p)
    | _ \<Rightarrow> Some prevThing)"

definition getTopParentContainer :: "query_env \<Rightarrow> cont_world \<Rightarrow> nat \<Rightarrow> cylinder option" where
  "getTopParentContainer env w c = (case parent_of env w (Box c) of
      None \<Rightarrow> Some (Box c)
    | Some thing \<Rightarrow> top_container_from env w (Box c) thing)"

section \<open>Owners\<close>

text \<open>The owner of a container is its own, or else the first one found among its contents.\<close>

partial_function (option) first_owner :: "cont_world \<Rightarrow> nat list \<Rightarrow> u32 option" where
  "first_owner w xs = (case xs of
      [] \<Rightarrow> Some 0
    | x # rest \<Rightarrow>
        if getOwnerId (w_item w x) \<noteq> 0 then Some (getOwnerId (w_item w x))
        else Option.bind (first_owner w (contents_of w x)) (\<lambda>ow. if ow \<noteq> 0 then Some ow else first_owner w rest))"

definition container_getOwnerId :: "cont_world \<Rightarrow> nat \<Rightarrow> u32 option" where
  "container_getOwnerId w x = first_owner w [x]"

definition isOwner_id :: "query_env \<Rightarrow> u32 \<Rightarrow> u32 \<Rightarrow> bool" where
  "isOwner_id env own ownerId \<longleftrightarrow>
     (if own = ownerId then True
      else if ownerId \<ge> e_firstID env \<and> ownerId \<le> e_lastID env
      then (case e_guid_of_id env ownerId of None \<Rightarrow> False | Some guid \<Rightarrow> guid = own)
      else (case e_id_of_guid env ownerId of None \<Rightarrow> False | Some i \<Rightarrow> i = own))"

text \<open>A creature that is not a player has no guid.\<close>

definition isOwner :: "query_env \<Rightarrow> u32 \<Rightarrow> u32 \<Rightarrow> u32 option \<Rightarrow> bool" where
  "isOwner env own creatureId guid \<longleftrightarrow>
     (if isOwner_id env own creatureId then True
      else isOwner_id env own (case guid of Some g \<Rightarrow> g | None \<Rightarrow> creatureId))"

section \<open>May a thing be added\<close>

text \<open>
  The argument is what \<open>getItem\<close> gives for the thing: nothing for a creature.  The actor is the creature's
  id and, for a player, its guid.
\<close>

type_synonym creature_ref = "u32 \<times> u32 option"

definition wrong_owner :: "query_env \<Rightarrow> cont_world \<Rightarrow> nat \<Rightarrow> nat \<Rightarrow> bool option" where
  "wrong_owner env w c x = do {
     own \<leftarrow> container_getOwnerId w x;
     if own = 0 then Some False
     else do {
       tp \<leftarrow> getTopParent env w c;
       if (case tp of Out k \<Rightarrow> (case e_kind env k of PlayerK i g \<Rightarrow> \<not> isOwner env own i (Some g) | _ \<Rightarrow> False) | Box _ \<Rightarrow> False)
       then Some True
       else do {
         mine \<leftarrow> container_getOwnerId w c;
         Some (mine \<noteq> 0 \<and> mine \<noteq> own)
       }
     }
   }"

text \<open>The walk up the cylinders around the container; the value is the error it stops with, if any.\<close>

partial_function (option) check_cylinders :: "query_env \<Rightarrow> cont_world \<Rightarrow> nat \<Rightarrow> bool \<Rightarrow> cylinder option \<Rightarrow> return_value option option" where
  "check_cylinders env w x noLimit cylinder = (case cylinder of
      None \<Rightarrow> Some None
    | Some cyl \<Rightarrow>
        if cyl = Box x then Some (Some THISISIMPOSSIBLE)
        else if \<not> noLimit \<and> (case cyl of Box c \<Rightarrow> (case w_box w c of Some b \<Rightarrow> box_class b = Inbox | None \<Rightarrow> False) | Out _ \<Rightarrow> False)
        then Some (Some CONTAINERNOTENOUGHROOM)
        else if parent_of env w cyl = Some cyl then Some (Some NOTPOSSIBLE)
        else check_cylinders env w x noLimit (parent_of env w cyl))"

definition is_full :: "query_env \<Rightarrow> cont_world \<Rightarrow> nat \<Rightarrow> nat \<Rightarrow> u32 \<Rightarrow> bool option" where
  "is_full env w x topc maxItems = (if w_box w x \<noteq> None
     then do {
       addContainers \<leftarrow> getContainerHoldingCount w x;
       topContainers \<leftarrow> getContainerHoldingCount w topc;
       if addContainers + 1 + topContainers > e_maxContainer env then Some True
       else do {
         addItems \<leftarrow> getItemHoldingCount w x;
         topItems \<leftarrow> getItemHoldingCount w topc;
         Some (addItems + 1 + topItems > maxItems)
       }
     }
     else do {
       topItems \<leftarrow> getItemHoldingCount w topc;
       Some (topItems + 1 > maxItems)
     })"

text \<open>
  \<open>Container::queryAdd\<close>.  The query of the top parent, which is passed on with the flag that makes a plain
  container answer at once, is the argument \<open>top_query\<close>.
\<close>

definition add_below_limits ::
  "(cylinder \<Rightarrow> int \<Rightarrow> nat option \<Rightarrow> u32 \<Rightarrow> u32 \<Rightarrow> creature_ref option \<Rightarrow> return_value option)
   \<Rightarrow> query_env \<Rightarrow> cont_world \<Rightarrow> nat \<Rightarrow> box \<Rightarrow> int \<Rightarrow> nat \<Rightarrow> u32 \<Rightarrow> u32 \<Rightarrow> creature_ref option \<Rightarrow> return_value option" where
  "add_below_limits top_query env w c b addIndex x addCount flags actor =
     (if \<not> hasBitSet FLAG_NOLIMIT flags \<and> addIndex = INDEX_WHEREEVER \<and> unat (maxSize b) \<le> length (itemlist b) \<and> \<not> pagination b
      then Some CONTAINERNOTENOUGHROOM
      else do {
        topContainer \<leftarrow> getTopParentContainer env w c;
        full \<leftarrow> (case topContainer of Box t \<Rightarrow> is_full env w x t (m_maxItems b) | Out _ \<Rightarrow> Some False);
        if full then Some CONTAINERISFULL
        else if it_type (e_items env (item_id (w_item w c))) = ITEM_TYPE_QUIVER \<and> \<not> it_ammo (e_items env (item_id (w_item w x)))
        then Some ONLYAMMOINQUIVER
        else do {
          topParent \<leftarrow> getTopParent env w c;
          if topParent \<noteq> Box c then top_query topParent INDEX_WHEREEVER (Some x) addCount (flags OR FLAG_CHILDISOWNER) actor
          else Some NOERROR
        }
      })"

definition add_checked ::
  "(cylinder \<Rightarrow> int \<Rightarrow> nat option \<Rightarrow> u32 \<Rightarrow> u32 \<Rightarrow> creature_ref option \<Rightarrow> return_value option)
   \<Rightarrow> query_env \<Rightarrow> cont_world \<Rightarrow> nat \<Rightarrow> box \<Rightarrow> int \<Rightarrow> nat \<Rightarrow> u32 \<Rightarrow> u32 \<Rightarrow> creature_ref option \<Rightarrow> return_value option" where
  "add_checked top_query env w c b addIndex x addCount flags actor = do {
     refused \<leftarrow> wrong_owner env w c x;
     if refused then Some ITEMISNOTYOURS
     else do {
       found \<leftarrow> check_cylinders env w x (hasBitSet FLAG_NOLIMIT flags) (parent_of env w (Box c));
       case found of Some r \<Rightarrow> Some r
         | None \<Rightarrow> add_below_limits top_query env w c b addIndex x addCount flags actor
     }
   }"

definition Container_queryAdd ::
  "(cylinder \<Rightarrow> int \<Rightarrow> nat option \<Rightarrow> u32 \<Rightarrow> u32 \<Rightarrow> creature_ref option \<Rightarrow> return_value option)
   \<Rightarrow> query_env \<Rightarrow> cont_world \<Rightarrow> nat \<Rightarrow> box \<Rightarrow> int \<Rightarrow> nat option \<Rightarrow> u32 \<Rightarrow> u32 \<Rightarrow> creature_ref option \<Rightarrow> return_value option" where
  "Container_queryAdd top_query env w c b addIndex thing addCount flags actor =
     (if hasBitSet FLAG_CHILDISOWNER flags then Some NOERROR
      else if \<not> unlocked b then Some NOTPOSSIBLE
      else (case thing of None \<Rightarrow> Some NOTPOSSIBLE | Some x \<Rightarrow>
        if \<not> it_pickupable (e_items env (item_id (w_item w x))) then Some CANNOTPICKUP
        else if x = c then Some THISISIMPOSSIBLE
        else add_checked top_query env w c b addIndex x addCount flags actor))"

text \<open>The subclasses.  A depot chest counts the items of the locker around it (\<open>getRealParent\<close>) when it has one.\<close>

definition DepotChest_room :: "query_env \<Rightarrow> cont_world \<Rightarrow> nat \<Rightarrow> nat \<Rightarrow> u32 \<Rightarrow> bool option" where
  "DepotChest_room env w c x cnt = do {
     tp \<leftarrow> getTopParent env w x;
     addCount \<leftarrow> (if tp \<noteq> Box c then (if w_box w x \<noteq> None then map_option (\<lambda>n. n + 1) (getItemHoldingCount w x) else Some 1)
        else Some (if it_stackable (e_items env (item_id (w_item w x))) \<and> ucast (item_count (w_item w x)) \<noteq> cnt then 1 else 0));
     held \<leftarrow> (case e_realParent env c of Some p \<Rightarrow> getItemHoldingCount w p | None \<Rightarrow> getItemHoldingCount w c);
     Some (\<not> held + addCount > e_maxDepotItems env c)
   }"

definition DepotChest_queryAdd ::
  "(cylinder \<Rightarrow> int \<Rightarrow> nat option \<Rightarrow> u32 \<Rightarrow> u32 \<Rightarrow> creature_ref option \<Rightarrow> return_value option)
   \<Rightarrow> query_env \<Rightarrow> cont_world \<Rightarrow> nat \<Rightarrow> box \<Rightarrow> int \<Rightarrow> nat option \<Rightarrow> u32 \<Rightarrow> u32 \<Rightarrow> creature_ref option \<Rightarrow> return_value option" where
  "DepotChest_queryAdd top_query env w c b index thing cnt flags actor = (case thing of
      None \<Rightarrow> Some NOTPOSSIBLE
    | Some x \<Rightarrow> do {
        own \<leftarrow> container_getOwnerId w x;
        if (case actor of Some (i, g) \<Rightarrow> own \<noteq> 0 \<and> \<not> isOwner env own i g | None \<Rightarrow> False) then Some ITEMISNOTYOURS
        else do {
          room \<leftarrow> (if hasBitSet FLAG_NOLIMIT flags then Some True else DepotChest_room env w c x cnt);
          if \<not> room then Some DEPOTISFULL
          else Container_queryAdd top_query env w c b index thing cnt flags actor
        }
      })"

definition Inbox_queryAdd :: "query_env \<Rightarrow> cont_world \<Rightarrow> nat \<Rightarrow> nat option \<Rightarrow> u32 \<Rightarrow> return_value option" where
  "Inbox_queryAdd env w c thing flags =
     (if \<not> hasBitSet FLAG_NOLIMIT flags then Some CONTAINERNOTENOUGHROOM
      else (case thing of None \<Rightarrow> Some NOTPOSSIBLE | Some x \<Rightarrow>
        if x = c then Some THISISIMPOSSIBLE
        else if \<not> it_pickupable (e_items env (item_id (w_item w x))) then Some CANNOTPICKUP
        else do {
          tp \<leftarrow> getTopParent env w x;
          addCount \<leftarrow> (if tp = Box c then Some 0
             else if w_box w x \<noteq> None then map_option (\<lambda>n. n + 1) (getItemHoldingCount w x) else Some 1);
          held \<leftarrow> getItemHoldingCount w c;
          Some (if held + addCount > 65535 then DEPOTISFULL else NOERROR)
        }))"

definition Reward_queryAdd :: "query_env \<Rightarrow> cont_world \<Rightarrow> nat \<Rightarrow> nat option \<Rightarrow> creature_ref option \<Rightarrow> return_value" where
  "Reward_queryAdd env w c thing actor =
     (if actor \<noteq> None then NOTPOSSIBLE
      else (case thing of None \<Rightarrow> NOTPOSSIBLE | Some x \<Rightarrow>
        if x = c then THISISIMPOSSIBLE
        else if \<not> it_pickupable (e_items env (item_id (w_item w x))) then CANNOTPICKUP
        else NOERROR))"

definition RewardChest_queryAdd :: "creature_ref option \<Rightarrow> return_value" where
  "RewardChest_queryAdd actor = (if actor \<noteq> None then NOTPOSSIBLE else NOERROR)"

text \<open>
  The virtual call.  A query asks the top parent at most once, and that one answers without asking on, so
  two levels are enough (\<open>queryAdd_levels\<close>).
\<close>

primrec queryAdd_level :: "nat \<Rightarrow> query_env \<Rightarrow> cont_world \<Rightarrow> cylinder \<Rightarrow> int \<Rightarrow> nat option \<Rightarrow> u32 \<Rightarrow> u32 \<Rightarrow> creature_ref option \<Rightarrow> return_value option" where
  "queryAdd_level 0 env w cyl index thing cnt flags actor = None"
| "queryAdd_level (Suc n) env w cyl index thing cnt flags actor = (case cyl of
      Out k \<Rightarrow> (case thing of None \<Rightarrow> None | Some x \<Rightarrow> Some (e_queryAdd env k x cnt flags))
    | Box c \<Rightarrow> (case w_box w c of None \<Rightarrow> None | Some b \<Rightarrow> (case box_class b of
          ContainerBox \<Rightarrow> Container_queryAdd (queryAdd_level n env w) env w c b index thing cnt flags actor
        | DepotChest \<Rightarrow> DepotChest_queryAdd (queryAdd_level n env w) env w c b index thing cnt flags actor
        | Inbox \<Rightarrow> Inbox_queryAdd env w c thing flags
        | RewardBox \<Rightarrow> Some (Reward_queryAdd env w c thing actor)
        | RewardChest \<Rightarrow> Some (RewardChest_queryAdd actor)
        | DepotLocker \<Rightarrow> Some NOTENOUGHROOM)))"

definition queryAdd :: "query_env \<Rightarrow> cont_world \<Rightarrow> cylinder \<Rightarrow> int \<Rightarrow> nat option \<Rightarrow> u32 \<Rightarrow> u32 \<Rightarrow> creature_ref option \<Rightarrow> return_value option" where
  "queryAdd = queryAdd_level 2"

section \<open>How many, which, and where\<close>

definition thing_equals :: "query_env \<Rightarrow> cont_world \<Rightarrow> nat \<Rightarrow> nat \<Rightarrow> bool" where
  "thing_equals env w x y = item_equals (e_ptr env x) (e_ptr env y) (w_item w x) (w_item w y)"

definition room_on :: "query_env \<Rightarrow> cont_world \<Rightarrow> nat \<Rightarrow> u32" where
  "room_on env w y = ucast (getStackSize (e_items env) (w_item w y)) - ucast (item_count (w_item w y))"

definition has_room :: "query_env \<Rightarrow> cont_world \<Rightarrow> nat \<Rightarrow> bool" where
  "has_room env w y \<longleftrightarrow> item_count (w_item w y) < getStackSize (e_items env) (w_item w y)"

text \<open>The index given to the query counts the stacks with room met so far.\<close>

primrec stack_room :: "query_env \<Rightarrow> cont_world \<Rightarrow> nat \<Rightarrow> nat \<Rightarrow> u32 \<Rightarrow> nat list \<Rightarrow> u32 \<Rightarrow> u32 \<Rightarrow> u32 option" where
  "stack_room env w c x flags [] slotIndex n = Some n"
| "stack_room env w c x flags (y # ys) slotIndex n =
     (if y \<noteq> x \<and> thing_equals env w y x \<and> has_room env w y
      then do {
        r \<leftarrow> queryAdd env w (Box c) (sint slotIndex) (Some x) (room_on env w y) flags None;
        stack_room env w c x flags ys (slotIndex + 1) (if r = NOERROR then n + room_on env w y else n)
      }
      else stack_room env w c x flags ys slotIndex n)"

text \<open>The answer and the largest count.\<close>

definition queryMaxCount :: "query_env \<Rightarrow> cont_world \<Rightarrow> nat \<Rightarrow> int \<Rightarrow> nat option \<Rightarrow> u32 \<Rightarrow> u32 \<Rightarrow> (return_value \<times> u32) option" where
  "queryMaxCount env w c index thing cnt flags = (case thing of
      None \<Rightarrow> Some (NOTPOSSIBLE, 0)
    | Some x \<Rightarrow>
        if hasBitSet FLAG_NOLIMIT flags \<or> (case w_box w c of Some b \<Rightarrow> pagination b | None \<Rightarrow> False) then Some (NOERROR, max 1 cnt)
        else (let freeSlots = max0 (capacity w c - of_nat (length (contents_of w c))) in
          if it_stackable (e_items env (item_id (w_item w x)))
          then do {
            n \<leftarrow> (if index = INDEX_WHEREEVER then stack_room env w c x flags (contents_of w c) 0 0
                 else Some (case (if index < 0 then None else getItemByIndex w c (nat index)) of
                     Some y \<Rightarrow> if thing_equals env w x y \<and> has_room env w y then room_on env w y else 0
                   | None \<Rightarrow> 0));
            let most = freeSlots * ucast (getStackSize (e_items env) (w_item w x)) + n;
            Some (if most < cnt then (CONTAINERNOTENOUGHROOM, most) else (NOERROR, most))
          }
          else Some (if freeSlots = 0 then (CONTAINERNOTENOUGHROOM, freeSlots) else (NOERROR, freeSlots))))"

definition queryRemove :: "query_env \<Rightarrow> cont_world \<Rightarrow> nat \<Rightarrow> nat \<Rightarrow> u32 \<Rightarrow> u32 \<Rightarrow> return_value option" where
  "queryRemove env w c x cnt flags =
     (let it = e_items env (item_id (w_item w x)) in
      if getThingIndex w c x = -1 then Some NOTPOSSIBLE
      else if cnt = 0 \<or> (it_stackable it \<and> cnt > ucast (item_count (w_item w x))) then Some NOTPOSSIBLE
      else if \<not> it_movable it \<and> \<not> hasBitSet FLAG_IGNORENOTMOVABLE flags then Some NOTMOVABLE
      else do {
        tp \<leftarrow> getTopParent env w c;
        Some (case tp of Out k \<Rightarrow> (if e_kind env k = HouseTileK then e_queryRemove env k x cnt flags else NOERROR) | Box _ \<Rightarrow> NOERROR)
      })"

text \<open>The index and the destination item are passed in and handed back.\<close>

definition stack_target :: "query_env \<Rightarrow> cont_world \<Rightarrow> nat \<Rightarrow> nat \<Rightarrow> bool" where
  "stack_target env w x y \<longleftrightarrow> thing_equals env w y x \<and> has_room env w y"

fun find_stack :: "query_env \<Rightarrow> cont_world \<Rightarrow> nat \<Rightarrow> nat list \<Rightarrow> nat \<Rightarrow> (nat \<times> nat) option" where
  "find_stack env w x [] n = None"
| "find_stack env w x (y # ys) n =
     (if y \<noteq> x \<and> stack_target env w x y then Some (y, n) else find_stack env w x ys (n + 1))"

definition auto_stack :: "query_env \<Rightarrow> cont_world \<Rightarrow> nat \<Rightarrow> nat \<Rightarrow> u32 \<Rightarrow> int \<Rightarrow> nat option \<Rightarrow> cylinder \<times> int \<times> nat option" where
  "auto_stack env w c x flags index dest =
     (if \<not> hasBitSet FLAG_IGNOREAUTOSTACK flags \<and> it_stackable (e_items env (item_id (w_item w x)))
         \<and> parent_of env w (Box x) \<noteq> Some (Box c)
      then (if (case dest of Some y \<Rightarrow> stack_target env w x y | None \<Rightarrow> False) then (Box c, index, dest)
            else (case find_stack env w x (contents_of w c) 0 of
                Some (y, n) \<Rightarrow> (Box c, int n, Some y)
              | None \<Rightarrow> (Box c, index, dest)))
      else (Box c, index, dest))"

definition queryDestination :: "query_env \<Rightarrow> cont_world \<Rightarrow> nat \<Rightarrow> int \<Rightarrow> nat option \<Rightarrow> nat option \<Rightarrow> u32 \<Rightarrow> cylinder \<times> int \<times> nat option" where
  "queryDestination env w c index0 thing dest0 flags = (case w_box w c of
      None \<Rightarrow> (Box c, index0, None)
    | Some b \<Rightarrow>
      if \<not> unlocked b then (Box c, index0, None)
      else if index0 = 254 then ((case w_place w c of Inside p \<Rightarrow> Box p | _ \<Rightarrow> Box c), INDEX_WHEREEVER, None)
      else (let outside = (index0 = 255 \<or> (index0 \<ge> sint (maxSize b) \<and> \<not> pagination b));
                index = (if outside then INDEX_WHEREEVER else index0);
                dest = (if outside then None else dest0)
            in case thing of None \<Rightarrow> (Box c, index, dest)
             | Some x \<Rightarrow>
                 (let dest1 = (if index \<noteq> INDEX_WHEREEVER
                      then (case (if index < 0 then None else getItemByIndex w c (nat index)) of Some y \<Rightarrow> Some y | None \<Rightarrow> dest)
                      else dest)
                  in if index \<noteq> INDEX_WHEREEVER \<and> (case dest1 of Some y \<Rightarrow> w_box w y \<noteq> None | None \<Rightarrow> False)
                     then (Box (the dest1), INDEX_WHEREEVER, None)
                     else auto_stack env w c x flags index dest1)))"

section \<open>Counting what is free and what can be stowed\<close>

text \<open>
  The free slots of a container and of the containers in it, in 16 unsigned bits.  The maximum with zero is
  taken of a number that is unsigned already.
\<close>

partial_function (option) free_slots_of :: "cont_world \<Rightarrow> nat list \<Rightarrow> u16 \<Rightarrow> u16 option" where
  "free_slots_of w xs counter = (case xs of
      [] \<Rightarrow> Some counter
    | x # rest \<Rightarrow>
        if w_box w x = None then free_slots_of w rest counter
        else Option.bind (free_slots_of w (contents_of w x) (max 0 (ucast (capacity w x) - of_nat (length (contents_of w x)))))
          (\<lambda>n. free_slots_of w rest (counter + max 0 n)))"

definition getFreeSlots :: "cont_world \<Rightarrow> nat \<Rightarrow> u16 option" where
  "getFreeSlots w c = free_slots_of w (contents_of w c) (max 0 (ucast (capacity w c) - of_nat (length (contents_of w c))))"

definition isItemStorable :: "item_table \<Rightarrow> cont_world \<Rightarrow> nat \<Rightarrow> u32 \<Rightarrow> bool" where
  "isItemStorable items w x own \<longleftrightarrow>
     \<not> (isStoreItem (w_item w x) \<or> own \<noteq> 0)
     \<and> ((it_stackable (items (item_id (w_item w x))) \<and> it_wareId (items (item_id (w_item w x))) > 0)
        \<or> (w_box w x \<noteq> None \<and> length (contents_of w x) > 0))"

text \<open>A container is gone into; only things that are not containers are asked whether they can be stowed.\<close>

partial_function (option) stowable_of :: "item_table \<Rightarrow> cont_world \<Rightarrow> nat list \<Rightarrow> (nat \<times> u32) list option" where
  "stowable_of items w xs = (case xs of
      [] \<Rightarrow> Some []
    | x # rest \<Rightarrow>
        Option.bind (if w_box w x \<noteq> None
            then Option.bind (stowable_of items w (contents_of w x))
              (\<lambda>ys. Some (map (\<lambda>(y, _). (y, ucast (item_count (w_item w y)))) ys))
            else Some (if isItemStorable items w x (getOwnerId (w_item w x))
              then [(x, ucast (item_count (w_item w x)))] else []))
          (\<lambda>ys. Option.bind (stowable_of items w rest) (\<lambda>zs. Some (ys @ zs))))"

definition getStowableItems :: "item_table \<Rightarrow> cont_world \<Rightarrow> nat \<Rightarrow> (nat \<times> u32) list option" where
  "getStowableItems items w c = stowable_of items w (contents_of w c)"

section \<open>New containers\<close>

definition ITEM_GOLD_POUCH :: u16 where "ITEM_GOLD_POUCH = 23721"
definition ITEM_STORE_INBOX :: u16 where "ITEM_STORE_INBOX = 23396"

definition ITEM_BROWSEFIELD :: u16 where "ITEM_BROWSEFIELD = 470"
definition ITEM_REWARD_CONTAINER :: u16 where "ITEM_REWARD_CONTAINER = 19202"
definition ITEM_REWARD_CHEST :: u16 where "ITEM_REWARD_CHEST = 19250"

record container_config =
  MAX_CONTAINER_ITEM :: u32
  LOOTPOUCH_MAXLIMIT :: u32
  STOREINBOX_MAXLIMIT :: u32

text \<open>
  The constructor with a size does not set \<open>m_maxItems\<close>: its value is whatever the memory held, here the
  argument \<open>junk\<close>.
\<close>

definition new_sized_container :: "u32 \<Rightarrow> u16 \<Rightarrow> bool \<Rightarrow> bool \<Rightarrow> box" where
  "new_sized_container junk initSize initUnlocked initPagination =
     \<lparr>itemlist = [], totalWeight = 0, maxSize = ucast initSize, m_maxItems = junk, unlocked = initUnlocked,
      pagination = initPagination, box_class = ContainerBox\<rparr>"

definition new_container :: "item_table \<Rightarrow> container_config \<Rightarrow> u16 \<Rightarrow> box" where
  "new_container items conf type =
     (let b = (new_sized_container 0 (it_maxItems (items type)) True False)\<lparr>m_maxItems := MAX_CONTAINER_ITEM conf\<rparr>;
          b1 = (if type = ITEM_GOLD_POUCH
                then b\<lparr>pagination := True, m_maxItems := LOOTPOUCH_MAXLIMIT conf, maxSize := 32\<rparr> else b)
      in if type = ITEM_STORE_INBOX
         then b1\<lparr>pagination := True, m_maxItems := STOREINBOX_MAXLIMIT conf, maxSize := 32\<rparr> else b1)"

definition new_depot_chest :: "item_table \<Rightarrow> container_config \<Rightarrow> u16 \<Rightarrow> box" where
  "new_depot_chest items conf type = (new_container items conf type)\<lparr>maxSize := 32, pagination := True, box_class := DepotChest\<rparr>"

definition new_inbox :: "u32 \<Rightarrow> box" where
  "new_inbox junk = (new_sized_container junk 30 False True)\<lparr>box_class := Inbox\<rparr>"

definition new_reward :: "item_table \<Rightarrow> container_config \<Rightarrow> box" where
  "new_reward items conf = (new_container items conf ITEM_REWARD_CONTAINER)\<lparr>maxSize := 32, unlocked := False, pagination := True,
     box_class := RewardBox\<rparr>"

definition new_reward_chest :: "item_table \<Rightarrow> container_config \<Rightarrow> u16 \<Rightarrow> box" where
  "new_reward_chest items conf type = (new_container items conf type)\<lparr>maxSize := 32, unlocked := False, pagination := True,
     box_class := RewardChest\<rparr>"

definition hasParent :: "query_env \<Rightarrow> cont_world \<Rightarrow> nat \<Rightarrow> bool" where
  "hasParent env w c \<longleftrightarrow> (case parent_of env w (Box c) of
      None \<Rightarrow> False
    | Some p \<Rightarrow> item_id (w_item w c) \<noteq> ITEM_BROWSEFIELD
        \<and> \<not> (case p of Out k \<Rightarrow> (case e_kind env k of PlayerK _ _ \<Rightarrow> True | _ \<Rightarrow> False) | Box _ \<Rightarrow> False))"

definition countsToLootAnalyzerBalance :: "item_table \<Rightarrow> cont_world \<Rightarrow> nat \<Rightarrow> bool" where
  "countsToLootAnalyzerBalance items w c \<longleftrightarrow>
     it_isCorpse (items (item_id (w_item w c))) \<or> item_id (w_item w c) = ITEM_REWARD_CONTAINER"

definition isBrowseFieldAndHoldsRewardChest :: "cont_world \<Rightarrow> nat \<Rightarrow> bool option" where
  "isBrowseFieldAndHoldsRewardChest w c =
     (if item_id (w_item w c) \<noteq> ITEM_BROWSEFIELD then Some False else isHoldingItemWithId w c ITEM_REWARD_CHEST)"

definition isAnyKindOfRewardChest :: "cont_world \<Rightarrow> nat \<Rightarrow> bool option" where
  "isAnyKindOfRewardChest w c =
     (if item_id (w_item w c) = ITEM_REWARD_CHEST
         \<or> (item_id (w_item w c) = ITEM_REWARD_CONTAINER
            \<and> (case w_place w c of Inside p \<Rightarrow> item_id (w_item w p) = ITEM_REWARD_CHEST | _ \<Rightarrow> False))
      then Some True else isBrowseFieldAndHoldsRewardChest w c)"

definition isAnyKindOfRewardContainer :: "cont_world \<Rightarrow> nat \<Rightarrow> bool option" where
  "isAnyKindOfRewardContainer w c =
     (if item_id (w_item w c) = ITEM_REWARD_CHEST \<or> item_id (w_item w c) = ITEM_REWARD_CONTAINER then Some True
      else do {
        holds \<leftarrow> isHoldingItemWithId w c ITEM_REWARD_CONTAINER;
        if holds then Some True else isInsideContainerWithId w c ITEM_REWARD_CONTAINER
      })"

section \<open>The queries return\<close>

definition outside_ok :: "query_env \<Rightarrow> bool" where
  "outside_ok env \<longleftrightarrow> (\<exists>height :: nat \<Rightarrow> nat. \<forall>k p. e_parent env k = Some p \<longrightarrow> height p < height k)"

lemma cylinder_induct:
  assumes f: "forest w" and e: "outside_ok env"
    and step: "\<And>cyl. (\<And>p. parent_of env w cyl = Some p \<Longrightarrow> P p) \<Longrightarrow> P cyl"
  shows "P cyl"
proof -
  obtain depth where d: "nested depth w" using f by (auto simp: forest_def)
  obtain height where h: "\<And>k p. e_parent env k = Some p \<Longrightarrow> height p < (height k :: nat)" using e by (auto simp: outside_ok_def)
  have out: "P (Out k)" for k
    by (induction "height k" arbitrary: k rule: less_induct) (rule step, auto simp: parent_of_def dest: h)
  have box: "P (Box x)" for x
    by (induction "depth x" arbitrary: x rule: less_induct)
       (rule step, use out d in \<open>auto simp: parent_of_def nested_def split: thing_place.splits\<close>)
  show ?thesis by (cases cyl) (simp_all add: out box)
qed

lemma contents_induct:
  assumes f: "forest w" and step: "\<And>x. (\<And>y. y \<in> set (contents_of w x) \<Longrightarrow> P y) \<Longrightarrow> P x"
  shows "P x"
proof (induction "card {y. below w y x}" arbitrary: x rule: less_induct)
  case less
  show ?case
  proof (rule step, rule less)
    fix y assume "y \<in> set (contents_of w x)"
    then have y: "below w y x" using below_up [of w y x] by (simp add: kid [OF f])
    then have "{z. below w z y} \<subset> {z. below w z x}"
      using below_trans [of w _ y x] not_below_self [OF f, of y] by auto
    then show "card {z. below w z y} < card {z. below w z x}" using finite_below [OF f] by (simp add: psubset_card_mono)
  qed
qed

lemma top_parent_returns: 
  assumes "forest w" "outside_ok env" shows "\<exists>t. top_parent_from env w prev cyl = Some t"
proof (induction cyl arbitrary: prev rule: cylinder_induct [OF assms])
  case (1 cyl)
  then show ?case by (subst top_parent_from.simps) (cases "parent_of env w cyl"; simp)
qed

lemma getTopParent_returns: "forest w \<Longrightarrow> outside_ok env \<Longrightarrow> \<exists>t. getTopParent env w x = Some t"
  by (simp add: getTopParent_def top_parent_returns split: option.split)

lemma top_container_returns: 
  assumes "forest w" "outside_ok env" shows "\<exists>t. top_container_from env w prev cyl = Some t"
proof (induction cyl arbitrary: prev rule: cylinder_induct [OF assms])
  case (1 cyl)
  then show ?case by (subst top_container_from.simps) (auto split: option.split cylinder.split)
qed

lemma getTopParentContainer_returns: "forest w \<Longrightarrow> outside_ok env \<Longrightarrow> \<exists>t. getTopParentContainer env w x = Some t"
  by (simp add: getTopParentContainer_def top_container_returns split: option.split)

lemma check_cylinders_returns: 
  assumes "forest w" "outside_ok env" shows "\<exists>r. check_cylinders env w x noLimit (Some cyl) = Some r"
proof (induction cyl rule: cylinder_induct [OF assms])
  case (1 cyl)
  then have "\<exists>r. check_cylinders env w x noLimit (parent_of env w cyl) = Some r"
    by (cases "parent_of env w cyl") (simp_all add: check_cylinders.simps [of env w x noLimit None])
  then show ?case by (subst check_cylinders.simps) auto
qed

lemma check_cylinders_option: "forest w \<Longrightarrow> outside_ok env \<Longrightarrow> \<exists>r. check_cylinders env w x noLimit co = Some r"
  using check_cylinders_returns check_cylinders.simps [of env w x noLimit None] by (cases co) auto

lemma first_owner_returns:
  assumes f: "forest w" shows "\<exists>ow. first_owner w xs = Some ow"
proof -
  have list: "\<exists>ow. first_owner w xs = Some ow" if "\<And>x. x \<in> set xs \<Longrightarrow> \<exists>ow. first_owner w (contents_of w x) = Some ow" for xs
    using that
  proof (induction xs)
    case Nil
    show ?case by (subst first_owner.simps) simp
  next
    case (Cons x xs)
    then obtain ow where "first_owner w (contents_of w x) = Some ow" by auto
    then show ?case using Cons by (subst first_owner.simps) auto
  qed
  have "\<exists>ow. first_owner w (contents_of w x) = Some ow" for x
    by (rule contents_induct [OF f]) (rule list)
  then show ?thesis by (rule list)
qed

lemma container_getOwnerId_returns: "forest w \<Longrightarrow> \<exists>ow. container_getOwnerId w x = Some ow"
  by (simp add: container_getOwnerId_def first_owner_returns)

lemma wrong_owner_returns: "forest w \<Longrightarrow> outside_ok env \<Longrightarrow> \<exists>b. wrong_owner env w c x = Some b"
  using container_getOwnerId_returns [of w x] container_getOwnerId_returns [of w c] getTopParent_returns [of w env c]
  by (auto simp: wrong_owner_def)

definition exists_box :: "cont_world \<Rightarrow> cylinder \<Rightarrow> bool" where
  "exists_box w cyl \<longleftrightarrow> (case cyl of Box c \<Rightarrow> w_box w c \<noteq> None | Out _ \<Rightarrow> True)"

lemma parent_exists: "forest w \<Longrightarrow> parent_of env w cyl = Some p \<Longrightarrow> exists_box w p"
  using forest_box by (fastforce simp: parent_of_def exists_box_def split: cylinder.splits thing_place.splits)

lemma top_parent_exists:
  assumes "forest w" "outside_ok env"
  shows "exists_box w prev \<Longrightarrow> exists_box w cyl \<Longrightarrow> top_parent_from env w prev cyl = Some t \<Longrightarrow> exists_box w t"
proof (induction cyl arbitrary: prev rule: cylinder_induct [OF assms])
  case (1 cyl)
  then show ?case
  proof (cases "parent_of env w cyl")
    case None
    then show ?thesis using 1 by (subst (asm) top_parent_from.simps) simp
  next
    case (Some p)
    then have "top_parent_from env w cyl p = Some t" using 1(4) by (subst (asm) top_parent_from.simps) simp
    then show ?thesis using 1(1) [OF Some 1(3) parent_exists [OF assms(1) Some]] by blast
  qed
qed

lemma getTopParent_exists:
  assumes "forest w" "outside_ok env" "w_box w c \<noteq> None" "getTopParent env w c = Some t"
  shows "exists_box w t"
proof (cases "parent_of env w (Box c)")
  case None
  then have "t = Box c" using assms(4) by (simp add: getTopParent_def)
  then show ?thesis using assms(3) by (simp add: exists_box_def)
next
  case (Some p)
  moreover have "exists_box w (Box c)" using assms(3) by (simp add: exists_box_def)
  ultimately show ?thesis
    using assms(4) top_parent_exists [OF assms(1,2) _ parent_exists [OF assms(1) Some]] by (simp add: getTopParent_def)
qed

lemma counts_return:
  assumes "forest w"
  shows "\<exists>n. getItemHoldingCount w c = Some n" "\<exists>n. getContainerHoldingCount w c = Some n" "\<exists>b. isHoldingItem w c x = Some b"
  using container_items_spec [OF assms, of c]
  by (auto simp: getItemHoldingCount_def getContainerHoldingCount_def isHoldingItem_def)

lemma is_full_returns: "forest w \<Longrightarrow> \<exists>b. is_full env w x t m = Some b"
  using counts_return [of w x] counts_return [of w t] by (auto simp: is_full_def)

lemma child_bit: "hasBitSet FLAG_CHILDISOWNER (flags OR FLAG_CHILDISOWNER)"
proof -
  have "bit ((flags OR FLAG_CHILDISOWNER) AND FLAG_CHILDISOWNER) 3" by (simp add: FLAG_CHILDISOWNER_def bit_simps)
  then show ?thesis by (auto simp: hasBitSet_def)
qed

lemma Container_child: "hasBitSet FLAG_CHILDISOWNER flags \<Longrightarrow> Container_queryAdd q env w c b i thing n flags actor = Some NOERROR"
  by (simp add: Container_queryAdd_def)

lemma DepotChest_room_returns: "forest w \<Longrightarrow> outside_ok env \<Longrightarrow> \<exists>b. DepotChest_room env w c x n = Some b"
  using getTopParent_returns [of w env x] counts_return(1) [of w x] counts_return(1) [of w c] counts_return(1) [of w "the (e_realParent env c)"]
  by (cases "e_realParent env c") (auto simp: DepotChest_room_def)

lemma DepotChest_returns:
  assumes "forest w" "outside_ok env" "\<exists>r. Container_queryAdd q env w c b i thing n flags actor = Some r"
  shows "\<exists>r. DepotChest_queryAdd q env w c b i thing n flags actor = Some r"
proof (cases thing)
  case (Some x)
  then show ?thesis
    using assms container_getOwnerId_returns [OF assms(1), of x] DepotChest_room_returns [OF assms(1,2), of c x n]
    by (auto simp: DepotChest_queryAdd_def)
qed (simp add: DepotChest_queryAdd_def)

lemma Inbox_returns: "forest w \<Longrightarrow> outside_ok env \<Longrightarrow> \<exists>r. Inbox_queryAdd env w c thing flags = Some r"
  using getTopParent_returns [of w env "the thing"] counts_return(1) [of w "the thing"] counts_return(1) [of w c]
  by (cases thing) (auto simp: Inbox_queryAdd_def)

lemma Container_queryAdd_returns:
  assumes f: "forest w" and e: "outside_ok env" and b: "w_box w c \<noteq> None"
    and q: "\<And>t x fl. exists_box w t \<Longrightarrow> hasBitSet FLAG_CHILDISOWNER fl \<Longrightarrow> \<exists>r. q t INDEX_WHEREEVER (Some x) n fl actor = Some r"
  shows "\<exists>r. Container_queryAdd q env w c bx i thing n flags actor = Some r"
proof (cases thing)
  case (Some x)
  obtain refused where "wrong_owner env w c x = Some refused" using wrong_owner_returns [OF f e] by blast
  moreover obtain found where "check_cylinders env w x (hasBitSet FLAG_NOLIMIT flags) (parent_of env w (Box c)) = Some found"
    using check_cylinders_option [OF f e] by blast
  moreover obtain tc where "getTopParentContainer env w c = Some tc" using getTopParentContainer_returns [OF f e] by blast
  moreover have "\<exists>full. (case tc of Box t \<Rightarrow> is_full env w x t (m_maxItems bx) | Out _ \<Rightarrow> Some False) = Some full"
    using is_full_returns [OF f] by (cases tc) auto
  moreover obtain tp where tp: "getTopParent env w c = Some tp" using getTopParent_returns [OF f e] by blast
  moreover obtain r where "q tp INDEX_WHEREEVER (Some x) n (flags OR FLAG_CHILDISOWNER) actor = Some r"
    using q [OF getTopParent_exists [OF f e b tp] child_bit] by blast
  ultimately show ?thesis by (auto simp: Container_queryAdd_def add_checked_def add_below_limits_def Some split: option.split)
qed (simp add: Container_queryAdd_def)

lemma child_level_returns:
  assumes "forest w" "outside_ok env" "exists_box w cyl" "hasBitSet FLAG_CHILDISOWNER flags"
  shows "\<exists>r. queryAdd_level (Suc n) env w cyl i (Some x) cnt flags actor = Some r"
proof (cases cyl)
  case (Box c)
  then obtain b where "w_box w c = Some b" using assms(3) by (auto simp: exists_box_def)
  then show ?thesis
    using Box Container_child [OF assms(4)] DepotChest_returns [OF assms(1,2)] Inbox_returns [OF assms(1,2)]
    by (cases "box_class b") auto
qed simp

lemma level_returns:
  assumes f: "forest w" and e: "outside_ok env" and b: "w_box w c \<noteq> None"
  shows "\<exists>r. queryAdd_level (Suc (Suc n)) env w (Box c) i thing cnt flags actor = Some r"
proof -
  obtain bx where bx: "w_box w c = Some bx" using b by auto
  have C: "\<exists>r. Container_queryAdd (queryAdd_level (Suc n) env w) env w c bx i thing cnt flags actor = Some r"
    by (rule Container_queryAdd_returns [OF f e b]) (rule child_level_returns [OF f e])
  show ?thesis
    using C DepotChest_returns [OF f e C] Inbox_returns [OF f e] bx by (cases "box_class bx") (auto simp del: queryAdd_level.simps(2) simp: queryAdd_level.simps(2) [of "Suc n"])
qed

section \<open>What an accepted query guarantees\<close>

lemma check_cylinders_above:
  assumes f: "forest w" and e: "outside_ok env"
  shows "check_cylinders env w x noLimit (Some cyl) = Some None \<Longrightarrow> cyl \<noteq> Box x \<and> (\<forall>c. cyl = Box c \<longrightarrow> \<not> below w c x)"
proof (induction cyl rule: cylinder_induct [OF f e])
  case (1 cyl)
  have ne: "cyl \<noteq> Box x" and up: "check_cylinders env w x noLimit (parent_of env w cyl) = Some None"
    using 1(2) by (subst (asm) check_cylinders.simps; simp split: if_splits)+
  have "\<not> below w c x" if c: "cyl = Box c" for c
  proof
    assume "below w c x"
    then obtain p where p: "w_place w c = Inside p" "p = x \<or> below w p x" using below_up [of w c x] by blast
    then have parent: "parent_of env w cyl = Some (Box p)" by (simp add: c parent_of_def)
    show False using 1(1) [OF parent] up p(2) by (simp add: parent)
  qed
  then show ?case using ne by blast
qed

lemma check_cylinders_error:
  assumes f: "forest w" and e: "outside_ok env"
  shows "check_cylinders env w x noLimit co \<noteq> Some (Some NOERROR)"
proof (cases co)
  case (Some cyl)
  have "check_cylinders env w x noLimit (Some cyl) \<noteq> Some (Some NOERROR)"
  proof (induction cyl rule: cylinder_induct [OF f e])
    case (1 cyl)
    then have "check_cylinders env w x noLimit (parent_of env w cyl) \<noteq> Some (Some NOERROR)"
      using check_cylinders.simps [of env w x noLimit None] by (cases "parent_of env w cyl") auto
    then show ?case by (subst check_cylinders.simps) auto
  qed
  then show ?thesis by (simp add: Some)
qed (simp add: check_cylinders.simps)

text \<open>Without the child flag, a container accepts a thing only when it is not the thing and not inside it.\<close>

lemma add_below_limits_accepts:
  assumes "add_below_limits q env w c b i x n flags actor = Some NOERROR"
  shows "\<not> hasBitSet FLAG_NOLIMIT flags \<Longrightarrow> i = INDEX_WHEREEVER \<Longrightarrow> \<not> pagination b \<Longrightarrow> length (itemlist b) < unat (maxSize b)"
    and "getTopParentContainer env w c = Some (Box t) \<Longrightarrow> is_full env w x t (m_maxItems b) = Some False"
    and "it_type (e_items env (item_id (w_item w c))) = ITEM_TYPE_QUIVER \<Longrightarrow> it_ammo (e_items env (item_id (w_item w x)))"
  using assms by (auto simp: add_below_limits_def bind_eq_Some_conv split: if_splits)

lemma add_checked_accepts:
  assumes "forest w" "outside_ok env" "add_checked q env w c b i x n flags actor = Some NOERROR"
  shows "check_cylinders env w x (hasBitSet FLAG_NOLIMIT flags) (parent_of env w (Box c)) = Some None"
    and "add_below_limits q env w c b i x n flags actor = Some NOERROR"
proof -
  obtain found where *: "check_cylinders env w x (hasBitSet FLAG_NOLIMIT flags) (parent_of env w (Box c)) = Some found"
    "(case found of Some r \<Rightarrow> Some r | None \<Rightarrow> add_below_limits q env w c b i x n flags actor) = Some NOERROR"
    using assms(3) by (auto simp: add_checked_def bind_eq_Some_conv split: if_splits)
  then have "found = None" using check_cylinders_error [OF assms(1,2)] by (cases found) auto
  then show "check_cylinders env w x (hasBitSet FLAG_NOLIMIT flags) (parent_of env w (Box c)) = Some None"
    "add_below_limits q env w c b i x n flags actor = Some NOERROR" using * by simp_all
qed

lemma Container_accepts_checked:
  assumes "Container_queryAdd q env w c b i (Some x) n flags actor = Some NOERROR" and "\<not> hasBitSet FLAG_CHILDISOWNER flags"
  shows "unlocked b" "it_pickupable (e_items env (item_id (w_item w x)))" "x \<noteq> c"
    and "add_checked q env w c b i x n flags actor = Some NOERROR"
  using assms by (auto simp: Container_queryAdd_def split: if_splits)

lemma Container_accepts:
  assumes f: "forest w" and e: "outside_ok env"
    and q: "Container_queryAdd q env w c b i (Some x) n flags actor = Some NOERROR" and nc: "\<not> hasBitSet FLAG_CHILDISOWNER flags"
  shows "x \<noteq> c" and "\<not> below w c x"
proof -
  show "x \<noteq> c" using Container_accepts_checked [OF q nc] by simp
  have found: "check_cylinders env w x (hasBitSet FLAG_NOLIMIT flags) (parent_of env w (Box c)) = Some None"
    using add_checked_accepts [OF f e] Container_accepts_checked(4) [OF q nc] by blast
  show "\<not> below w c x"
  proof
    assume "below w c x"
    then obtain p where p: "w_place w c = Inside p" "p = x \<or> below w p x" using below_up [of w c x] by blast
    then have "parent_of env w (Box c) = Some (Box p)" by (simp add: parent_of_def)
    then show False using check_cylinders_above [OF f e] found p(2) by fastforce
  qed
qed

lemma queryAdd_two: "queryAdd = queryAdd_level (Suc (Suc 0))"
  by (simp add: queryAdd_def numeral_2_eq_2)

lemma queryAdd_box:
  "w_box w c = Some b \<Longrightarrow> box_class b = ContainerBox \<Longrightarrow>
   queryAdd env w (Box c) i thing n flags actor = Container_queryAdd (queryAdd_level (Suc 0) env w) env w c b i thing n flags actor"
  "w_box w c = Some b \<Longrightarrow> box_class b = DepotChest \<Longrightarrow>
   queryAdd env w (Box c) i thing n flags actor = DepotChest_queryAdd (queryAdd_level (Suc 0) env w) env w c b i thing n flags actor"
  by (simp_all add: queryAdd_two del: queryAdd_level.simps(2) add: queryAdd_level.simps(2) [of "Suc 0"])

text \<open>What a move needs before it puts a thing into a container: it is in no container, and the query accepts it.\<close>

definition admitted :: "query_env \<Rightarrow> cont_world \<Rightarrow> nat \<Rightarrow> int \<Rightarrow> nat \<Rightarrow> u32 \<Rightarrow> u32 \<Rightarrow> creature_ref option \<Rightarrow> bool" where
  "admitted env w c i x n flags actor \<longleftrightarrow> (case w_box w c of None \<Rightarrow> False
     | Some b \<Rightarrow> box_class b = ContainerBox \<or> box_class b = DepotChest)
     \<and> \<not> hasBitSet FLAG_CHILDISOWNER flags \<and> getParentContainer w x = None
     \<and> queryAdd env w (Box c) i (Some x) n flags actor = Some NOERROR"

lemma admitted_may_enter:
  assumes f: "forest w" and e: "outside_ok env" and a: "admitted env w c i x n flags actor"
  shows "may_enter w c x"
proof -
  obtain b where b: "w_box w c = Some b" "box_class b = ContainerBox \<or> box_class b = DepotChest"
    using a by (auto simp: admitted_def split: option.splits)
  have "Container_queryAdd (queryAdd_level (Suc 0) env w) env w c b i (Some x) n flags actor = Some NOERROR"
    using a b queryAdd_box [OF b(1)] by (auto simp: admitted_def DepotChest_queryAdd_def bind_eq_Some_conv split: if_splits option.splits)
  note q = Container_accepts [OF f e this]
  obtain depth where "nested depth w" using f by (auto simp: forest_def)
  then obtain as where as: "ancestors w c = Some as" using ancestors_return by blast
  show ?thesis using a b(1) q(1,2) as set_ancestors [OF as] by (auto simp: may_enter_def admitted_def)
qed

section \<open>Sequences of operations\<close>

text \<open>
  What the game does with containers: it adds what the query accepts, loads new things, changes, replaces
  and removes things, and puts a thing that is in no container somewhere else.  An action whose condition
  does not hold is not carried out.
\<close>

datatype container_action =
    AddThing nat int nat u32 u32 "creature_ref option"
  | AddItemBack nat int nat u32 u32 "creature_ref option"
  | ReplaceThing nat nat nat u32 u32 "creature_ref option"
  | LoadItem nat nat
  | UpdateThing nat nat u16 u32
  | RemoveThing nat nat u32
  | PutElsewhere nat thing_place

definition fresh_thing :: "cont_world \<Rightarrow> nat \<Rightarrow> nat \<Rightarrow> bool" where
  "fresh_thing w c x \<longleftrightarrow> w_box w c \<noteq> None \<and> x \<noteq> c \<and> w_place w x = Nowhere \<and> contents_of w x = []"

fun container_step :: "query_env \<Rightarrow> container_action \<Rightarrow> cont_world \<Rightarrow> cont_world option" where
  "container_step env (AddThing c i x n flags actor) w =
     (if admitted env w c i x n flags actor then addThing (e_items env) c i x w else Some w)"
| "container_step env (AddItemBack c i x n flags actor) w =
     (if admitted env w c i x n flags actor then addItemBack (e_items env) c x w else Some w)"
| "container_step env (ReplaceThing c i x n flags actor) w =
     (if admitted env w c (int i) x n flags actor then replaceThing (e_items env) c i x w else Some w)"
| "container_step env (LoadItem c x) w = (if fresh_thing w c x then internalAddThing (e_items env) c x w else Some w)"
| "container_step env (UpdateThing c x itemId n) w = updateThing (e_items env) c x itemId n w"
| "container_step env (RemoveThing c x n) w = removeThing (e_items env) c x n w"
| "container_step env (PutElsewhere x p) w =
     Some (if getParentContainer w x = None \<and> (case p of Inside _ \<Rightarrow> False | _ \<Rightarrow> True) then set_place x p w else w)"

fun container_run :: "query_env \<Rightarrow> container_action list \<Rightarrow> cont_world \<Rightarrow> cont_world option" where
  "container_run env [] w = Some w"
| "container_run env (a # as) w = Option.bind (container_step env a w) (container_run env as)"

lemma fresh_may_enter: "forest w \<Longrightarrow> fresh_thing w c x \<Longrightarrow> may_enter w c x"
proof -
  assume f: "forest w" and x: "fresh_thing w c x"
  obtain depth where "nested depth w" using f by (auto simp: forest_def)
  then obtain as where as: "ancestors w c = Some as" using ancestors_return by blast
  have "\<not> below w c x" using x below_down [of w c x] kid [OF f, of _ x] by (auto simp: fresh_thing_def)
  then show ?thesis using x as set_ancestors [OF as] by (auto simp: may_enter_def fresh_thing_def getParentContainer_def)
qed

lemma set_place_ok:
  assumes ok: "boxes_ok items w" and x: "getParentContainer w x = None" and p: "\<forall>c. p \<noteq> Inside c"
  shows "boxes_ok items (set_place x p w)"
proof -
  have n: "w_place w x \<noteq> Inside c" for c using x by (auto simp: getParentContainer_def split: thing_place.splits)
  have "contents_of (set_place x p w) = contents_of w" by (simp add: set_place_def contents_of_def fun_eq_iff)
  moreover have "nested depth (set_place x p w)" if "nested depth w" for depth
    using that p by (simp add: nested_def set_place_def)
  ultimately have "forest (set_place x p w)"
    using forest_ok [OF ok] n p unfolding forest_def by (auto simp: set_place_def)
  moreover have "weights_lack items None 0 (set_place x p w)"
    using weights_ok [OF ok] weights_lack_cong [of w "set_place x p w"] by (simp add: set_place_def)
  ultimately show ?thesis by (simp add: boxes_ok_def)
qed

lemma settled_ok: "settled items v r \<Longrightarrow> \<exists>w'. r = Some w' \<and> boxes_ok items w'"
  by (auto simp: settled_def)

lemma container_step_ok:
  assumes ok: "boxes_ok (e_items env) w" and e: "outside_ok env"
  shows "\<exists>w'. container_step env a w = Some w' \<and> boxes_ok (e_items env) w'"
proof (cases a)
  case (AddThing c i x n flags actor)
  then show ?thesis
    using settled_ok [OF addThing_settled [OF ok admitted_may_enter [OF forest_ok [OF ok] e]]] ok by auto
next
  case (AddItemBack c i x n flags actor)
  then show ?thesis
    using settled_ok [OF addItemBack_settled [OF ok admitted_may_enter [OF forest_ok [OF ok] e]]] ok by auto
next
  case (ReplaceThing c i x n flags actor)
  then show ?thesis
    using settled_ok [OF replaceThing_settled [OF ok admitted_may_enter [OF forest_ok [OF ok] e]]] ok by auto
next
  case (LoadItem c x)
  then show ?thesis
    using settled_ok [OF internalAddThing_settled [OF ok fresh_may_enter [OF forest_ok [OF ok]]]] ok by auto
next
  case (UpdateThing c x itemId n)
  then show ?thesis using settled_ok [OF updateThing_settled [OF ok]] by auto
next
  case (RemoveThing c x n)
  then show ?thesis using settled_ok [OF removeThing_settled [OF ok]] by auto
next
  case (PutElsewhere x p)
  then show ?thesis using set_place_ok [OF ok] ok by (auto split: thing_place.splits)
qed

lemma container_run_ok:
  "boxes_ok (e_items env) w \<Longrightarrow> outside_ok env \<Longrightarrow> \<exists>w'. container_run env as w = Some w' \<and> boxes_ok (e_items env) w'"
proof (induction as arbitrary: w)
  case (Cons a as)
  then show ?case using container_step_ok [of env w a] by auto
qed simp

section \<open>Total weights\<close>

definition inner_weight :: "cont_world \<Rightarrow> nat \<Rightarrow> u32" where
  "inner_weight w c = (case w_box w c of None \<Rightarrow> 0 | Some b \<Rightarrow> totalWeight b)"

lemma below_contents:
  assumes f: "forest w"
  shows "{y. below w y c} = (\<Union>x \<in> set (contents_of w c). insert x {y. below w y x})"
  using below_down [of w _ c] by (auto simp: kid [OF f])

lemma below_disjoint:
  assumes f: "forest w" and x: "x \<in> set (contents_of w c)" and y: "y \<in> set (contents_of w c)" and ne: "x \<noteq> y"
  shows "insert x {z. below w z x} \<inter> insert y {z. below w z y} = {}"
proof -
  have up: "a = c \<or> below w c a" if "below w k a" "k \<in> set (contents_of w c)" for k a
    using that below_up [of w k a] by (auto simp: kid [OF f])
  have down: "below w k c" if "k \<in> set (contents_of w c)" for k
    using that below_up [of w k c] by (simp add: kid [OF f])
  have no: "\<not> below w x y" "\<not> below w y x"
    using up [of x y] up [of y x] down [OF x] down [OF y] x y below_trans not_below_self [OF f] by blast+
  have "\<not> (below w z x \<and> below w z y)" for z
  proof
    assume z: "below w z x \<and> below w z y"
    have chain: "p = q \<or> below w p q \<or> below w q p" if "below w u p" "below w u q" for u p q
    proof -
      have "below w u p \<Longrightarrow> \<forall>q. below w u q \<longrightarrow> p = q \<or> below w p q \<or> below w q p"
        unfolding below_def
      proof (induction rule: converse_tranclp_induct)
        case (base u)
        then show ?case by (metis below_def below_up thing_place.inject(1))
      next
        case (step u v)
        then show ?case by (metis below_def below_up thing_place.inject(1))
      qed
      then show ?thesis using that by blast
    qed
    show False using chain [of z x y] z ne no by blast
  qed
  then show ?thesis using no ne by auto
qed

lemma inner_weight_sum:
  assumes ok: "boxes_ok items w"
  shows "inner_weight w c = (\<Sum>y \<in> {y. below w y c}. getWeight items (w_item w y))"
proof (induction c rule: contents_induct [OF forest_ok [OF ok]])
  case (1 c)
  let ?g = "\<lambda>y. getWeight items (w_item w y)"
  have f: "forest w" using ok by (rule forest_ok)
  have d: "distinct (contents_of w c)" using f by (simp add: forest_def)
  have "inner_weight w c = (\<Sum>x \<leftarrow> contents_of w c. container_getWeight items w x)"
    using weights_ok [OF ok] by (cases "w_box w c") (auto simp: inner_weight_def contents_of_def weights_lack_def)
  also have "\<dots> = (\<Sum>x \<in> set (contents_of w c). ?g x + inner_weight w x)"
    using d by (simp add: sum_list_distinct_conv_sum_set container_getWeight_def inner_weight_def)
  also have "\<dots> = (\<Sum>x \<in> set (contents_of w c). \<Sum>y \<in> insert x {y. below w y x}. ?g y)"
    using 1 finite_below [OF f] not_below_self [OF f] by (intro sum.cong) auto
  also have "\<dots> = (\<Sum>y \<in> (\<Union>x \<in> set (contents_of w c). insert x {y. below w y x}). ?g y)"
    using finite_below [OF f] below_disjoint [OF f] by (intro sum.UNION_disjoint [symmetric]) auto
  finally show ?case by (simp add: below_contents [OF f, of c])
qed

lemma items_weight:
  assumes ok: "boxes_ok items w" and b: "w_box w c = Some b"
  shows "\<exists>xs. container_items w c = Some xs \<and> distinct xs \<and> totalWeight b = (\<Sum>y \<leftarrow> xs. getWeight items (w_item w y))"
proof -
  obtain xs where xs: "container_items w c = Some xs" "distinct xs" "set xs = {x. below w x c}"
    using container_items_spec [OF forest_ok [OF ok]] by blast
  then show ?thesis using inner_weight_sum [OF ok, of c] b by (simp add: inner_weight_def sum_list_distinct_conv_sum_set)
qed

section \<open>Properties\<close>


text \<open>A backpack (0) on a player with a bag (1) inside and five coins (2) in the bag; a second bag (3) lies on a tile.\<close>

definition sack_type :: "u16 \<Rightarrow> item_group \<Rightarrow> i32 \<Rightarrow> bool \<Rightarrow> item_type" where
  "sack_type n grp wt st = \<lparr>it_id = n, it_group = grp, it_type = ITEM_TYPE_NONE, it_decayTime = 0, it_charges = 0,
     it_weight = wt, it_decayTo = -1, it_stackSize = 100, it_maxItems = 8, it_ammo = False, it_stackable = st,
     it_movable = True, it_pickupable = True, it_stopTime = False, it_isCorpse = False, it_wareId = 0,
     it_transformOnUse = 0, it_wrapableTo = 0, it_canWriteText = False, it_upgradeClassification = 0\<rparr>"

definition sack_item :: "u16 \<Rightarrow> u8 \<Rightarrow> item" where
  "sack_item n k = \<lparr>item_id = n, item_count = k, attributeVector = [], customAttributeMap = [], loadedFromMap = False, decayDisabled = False\<rparr>"

definition sack_box :: "nat list \<Rightarrow> u32 \<Rightarrow> box" where
  "sack_box xs wt = \<lparr>itemlist = xs, totalWeight = wt, maxSize = 8, m_maxItems = 1500, unlocked = True, pagination = False,
     box_class = ContainerBox\<rparr>"

definition sack_env :: query_env where
  "sack_env = \<lparr>e_items = (\<lambda>n. if n = 7 then sack_type 7 ITEM_GROUP_CONTAINER 800 False else sack_type 9 ITEM_GROUP_NONE 10 True),
     e_ptr = (\<lambda>_ _. 0), e_kind = (\<lambda>k. if k = 0 then TileK else PlayerK 5 6), e_parent = (\<lambda>k. if k = 1 then Some 0 else None),
     e_realParent = (\<lambda>_. None), e_queryAdd = (\<lambda>_ _ _ _. NOERROR), e_queryRemove = (\<lambda>_ _ _ _. NOERROR), e_firstID = 1, e_lastID = 9,
     e_guid_of_id = (\<lambda>_. None), e_id_of_guid = (\<lambda>_. None), e_maxContainer = 100, e_maxDepotItems = (\<lambda>_. 2000)\<rparr>"

definition sack_world :: cont_world where
  "sack_world = \<lparr>w_item = (\<lambda>x. if x = 2 then sack_item 9 5 else sack_item 7 1),
     w_place = (\<lambda>x. if x = 0 then Outside 1 else if x = 1 then Inside 0 else if x = 2 then Inside 1 else if x = 3 then Outside 0 else Nowhere),
     w_box = (\<lambda>x. if x = 0 then Some (sack_box [1] 850) else if x = 1 then Some (sack_box [2] 50) else if x = 3 then Some (sack_box [] 0) else None)\<rparr>"

lemma sack_box_fields [simp]:
  "box_class (sack_box xs n) = ContainerBox" "m_maxItems (sack_box xs n) = 1500" "unlocked (sack_box xs n)"
  "\<not> pagination (sack_box xs n)" "maxSize (sack_box xs n) = 8" "itemlist (sack_box xs n) = xs"
  by (simp_all add: sack_box_def)

lemma sack_contents: "contents_of sack_world x = (if x = 0 then [1] else if x = 1 then [2] else [])"
  by (simp add: sack_world_def contents_of_def sack_box_def)

lemma sack_forest: "forest sack_world"
proof -
  have "nested (\<lambda>x. if x = 0 then 0 else if x = 1 then 1 else if x = 2 then 2 else 0) sack_world"
    by (simp add: nested_def sack_world_def)
  moreover have "finite {c. contents_of sack_world c \<noteq> []}"
    by (rule finite_subset [of _ "{0, 1}"]) (auto simp: sack_contents)
  moreover have "x \<in> set (contents_of sack_world c) \<longleftrightarrow> w_place sack_world x = Inside c" for c x
    by (auto simp: sack_contents) (auto simp: sack_world_def split: if_splits)
  ultimately show ?thesis by (auto simp: forest_def sack_contents)
qed

lemma sack_ok: "boxes_ok (e_items sack_env) sack_world"
  using sack_forest
  by (auto simp: boxes_ok_def weights_lack_def container_getWeight_def sack_world_def sack_box_def sack_item_def sack_env_def
      sack_type_def getWeight_def getBaseWeight_def hasAttribute_def has_attr_def)

lemma sack_outside: "outside_ok sack_env"
  unfolding outside_ok_def by (rule exI [of _ id]) (simp add: sack_env_def)


text \<open>
  C19. The iterator that loops over everything in a container ends when containers are not inside
  themselves, and it sees exactly the things below the container, each of them once, even though the
  queue grows while it runs.
\<close>
theorem iterator_sees_everything_once:
  assumes "forest w"
  shows "\<exists>xs. container_items w c = Some xs \<and> distinct xs \<and> set xs = {x. below w x c}
    \<and> getItemHoldingCount w c = Some (of_nat (length xs)) \<and> isHoldingItem w c y = Some (below w y c)"
  using container_items_spec [OF assms, of c] by (auto simp: getItemHoldingCount_def isHoldingItem_def)

theorem iterator_sees_everything_once_witness:
  "\<exists>xs. container_items sack_world 0 = Some xs \<and> distinct xs \<and> set xs = {x. below sack_world x 0}
    \<and> getItemHoldingCount sack_world 0 = Some (of_nat (length xs)) \<and> isHoldingItem sack_world 0 2 = Some (below sack_world 2 0)"
  by (rule iterator_sees_everything_once [OF sack_forest])

text \<open>
  A plain container that accepts a thing, asked without the child flag, is unlocked and the thing can be
  picked up; the thing is not the container, and the container is not inside it at any depth; a container
  without pages that is asked for any free place has one; and nothing but ammunition goes into a quiver.
\<close>
theorem accepted_thing_fits:
  assumes "forest w" "outside_ok env" "w_box w c = Some b" "box_class b = ContainerBox" "\<not> hasBitSet FLAG_CHILDISOWNER flags"
    and "queryAdd env w (Box c) i (Some x) n flags actor = Some NOERROR"
  shows "unlocked b \<and> it_pickupable (e_items env (item_id (w_item w x))) \<and> x \<noteq> c \<and> \<not> below w c x
    \<and> (hasBitSet FLAG_NOLIMIT flags \<or> i \<noteq> INDEX_WHEREEVER \<or> pagination b \<or> length (itemlist b) < unat (maxSize b))
    \<and> (it_type (e_items env (item_id (w_item w c))) \<noteq> ITEM_TYPE_QUIVER \<or> it_ammo (e_items env (item_id (w_item w x))))"
proof -
  have q: "Container_queryAdd (queryAdd_level (Suc 0) env w) env w c b i (Some x) n flags actor = Some NOERROR"
    using assms(6) queryAdd_box [OF assms(3)] assms(4) by simp
  note c = Container_accepts_checked [OF q assms(5)]
  note l = add_below_limits_accepts [OF add_checked_accepts(2) [OF assms(1,2) c(4)]]
  show ?thesis using c l(1,3) Container_accepts [OF assms(1,2) q assms(5)] by blast
qed

lemma sack_no_owner: "getOwnerId (w_item sack_world x) = 0"
  by (simp add: sack_world_def sack_item_def getOwnerId_def hasAttribute_def has_attr_def)

lemma sack_box_3: "w_box sack_world 3 = Some (sack_box [] 0)"
  by (simp add: sack_world_def)

lemma sack_accepts: "queryAdd sack_env sack_world (Box 3) INDEX_WHEREEVER (Some 2) 5 0 None = Some NOERROR"
proof -
  have "first_owner sack_world [] = Some 0" by (subst first_owner.simps) simp
  then have own: "container_getOwnerId sack_world 2 = Some 0"
    unfolding container_getOwnerId_def by (subst first_owner.simps) (simp add: sack_no_owner sack_contents)
  have parent: "parent_of sack_env sack_world (Box 3) = Some (Out 0)" "parent_of sack_env sack_world (Out 0) = None"
    by (simp_all add: parent_of_def sack_world_def sack_env_def)
  have "check_cylinders sack_env sack_world 2 False None = Some None" by (subst check_cylinders.simps) simp
  then have cyl: "check_cylinders sack_env sack_world 2 False (Some (Out 0)) = Some None"
    by (subst check_cylinders.simps) (simp add: parent)
  have top: "getTopParentContainer sack_env sack_world 3 = Some (Box 3)" "getTopParent sack_env sack_world 3 = Some (Box 3)"
    by (simp_all add: getTopParentContainer_def getTopParent_def parent top_container_from.simps [of sack_env sack_world "Box 3" "Out 0"]
        top_parent_from.simps [of sack_env sack_world "Box 3" "Out 0"])
  have "container_items sack_world 3 = Some []"
    unfolding container_items_def by (subst iterate_over.simps) (simp add: iterator_def hasNext_def sack_contents)
  then have "getItemHoldingCount sack_world 3 = Some 0" by (simp add: getItemHoldingCount_def)
  moreover have "w_box sack_world 2 = None" by (simp add: sack_world_def)
  ultimately have full: "is_full sack_env sack_world 2 3 1500 = Some False" by (simp add: is_full_def)
  have types: "it_pickupable (e_items sack_env n)" "it_type (e_items sack_env n) \<noteq> ITEM_TYPE_QUIVER" for n
    by (simp_all add: sack_env_def sack_type_def)
  show ?thesis
    by (simp add: queryAdd_box [OF sack_box_3] Container_queryAdd_def add_checked_def add_below_limits_def wrong_owner_def own
        parent cyl top full types hasBitSet_def)
qed

theorem accepted_thing_fits_witness:
  "\<not> below sack_world 3 2 \<and> it_pickupable (e_items sack_env (item_id (w_item sack_world 2)))"
  using accepted_thing_fits [OF sack_forest sack_outside sack_box_3 _ _ sack_accepts]
  by (simp add: sack_box_def hasBitSet_def)

text \<open>
  Asking a container whether a thing can be added always gets an answer: none of the loops behind it, up
  through the cylinders and down through the contents, runs forever, and the question is passed on to the
  top parent at most once.
\<close>
theorem queryAdd_returns:
  assumes "forest w" "outside_ok env" "w_box w c \<noteq> None"
  shows "\<exists>r. queryAdd env w (Box c) i thing n flags actor = Some r"
  unfolding queryAdd_two by (rule level_returns [OF assms])

theorem queryAdd_returns_witness: "\<exists>r. queryAdd sack_env sack_world (Box 1) 0 (Some 0) 1 0 None = Some r"
  by (rule queryAdd_returns [OF sack_forest sack_outside]) (simp add: sack_world_def)

text \<open>
  The container that the limits are counted on is not the top one: from a container inside another one that
  lies on a tile, the search answers with the inner container.
\<close>

lemma top_container_below_top:
  assumes "w_place w c = Inside p" "w_place w p = Outside k"
  shows "getTopParentContainer env w c = Some (Box c)"
  using assms by (simp add: getTopParentContainer_def parent_of_def top_container_from.simps [of env w "Box c" "Box p"])

text \<open>
  The free slots of a container that holds more than its capacity, as one with pages may, are not zero but
  close to the largest 16-bit number.
\<close>

lemma no_boxes_free_slots: "list_all (\<lambda>x. w_box w x = None) xs \<Longrightarrow> free_slots_of w xs n = Some n"
  by (induction xs) (simp_all add: free_slots_of.simps)

lemma free_slots_wrap:
  assumes "w_box w c = Some b" "list_all (\<lambda>x. w_box w x = None) (itemlist b)" "length (itemlist b) = unat (maxSize b) + 1"
  shows "getFreeSlots w c = Some 65535"
proof -
  have "of_nat (unat (maxSize b)) = (ucast (maxSize b) :: u16)" by (simp add: of_nat_unat)
  then show ?thesis using assms no_boxes_free_slots by (simp add: getFreeSlots_def contents_of_def capacity_def)
qed

lemma find_stack_nth: "find_stack env w x ys n = Some (y, m) \<Longrightarrow> n \<le> m \<and> m - n < length ys \<and> ys ! (m - n) = y \<and> y \<noteq> x \<and> stack_target env w x y"
proof (induction ys arbitrary: n)
  case (Cons z ys)
  show ?case
  proof (cases "z \<noteq> x \<and> stack_target env w x z")
    case False
    then have "find_stack env w x ys (n + 1) = Some (y, m)" using Cons.prems by auto
    from Cons.IH [OF this] have ih: "n + 1 \<le> m" "m - (n + 1) < length ys" "ys ! (m - (n + 1)) = y" "y \<noteq> x" "stack_target env w x y" by auto
    have "m - n = Suc (m - (n + 1))" using ih(1) by simp
    then show ?thesis using ih by simp
  qed (use Cons.prems in auto)
qed simp

lemma find_stack_none: "find_stack env w x ys n = None \<longleftrightarrow> list_all (\<lambda>y. \<not> (y \<noteq> x \<and> stack_target env w x y)) ys"
  by (induction ys arbitrary: n) auto

text \<open>
  When the destination query hands back an item to merge with, the item lies in the container it answers
  with, exactly at the index it hands back; and when the moved thing is stackable, comes from elsewhere, is
  asked to go anywhere and may be merged, a stack with room for it is found whenever there is one.
\<close>
theorem destination_item_in_place:
  assumes "w_box w c = Some b"
  shows "(queryDestination env w c i (Some x) None flags = (cyl, j, Some y)
      \<longrightarrow> cyl = Box c \<and> 0 \<le> j \<and> getItemByIndex w c (nat j) = Some y)
    \<and> (unlocked b \<and> it_stackable (e_items env (item_id (w_item w x))) \<and> \<not> hasBitSet FLAG_IGNOREAUTOSTACK flags
        \<and> w_place w x \<noteq> Inside c \<and> list_ex (\<lambda>y. y \<noteq> x \<and> stack_target env w x y) (contents_of w c)
      \<longrightarrow> (\<exists>j y. queryDestination env w c 255 (Some x) None flags = (Box c, j, Some y) \<and> y \<noteq> x \<and> stack_target env w x y))"
proof (intro conjI impI)
  have auto_none: "auto_stack env w c x flags k None = (cyl, j, Some y) \<Longrightarrow> cyl = Box c \<and> 0 \<le> j \<and> getItemByIndex w c (nat j) = Some y" for k
    using find_stack_nth [of env w x "contents_of w c" 0] by (auto simp: auto_stack_def getItemByIndex_def split: if_splits option.splits)
  have auto_some: "auto_stack env w c x flags k (Some z) = (cyl, j, Some y) \<Longrightarrow> getItemByIndex w c (nat k) = Some z \<Longrightarrow> 0 \<le> k
      \<Longrightarrow> cyl = Box c \<and> 0 \<le> j \<and> getItemByIndex w c (nat j) = Some y" for k z
    using find_stack_nth [of env w x "contents_of w c" 0] by (auto simp: auto_stack_def getItemByIndex_def split: if_splits option.splits)
  assume q: "queryDestination env w c i (Some x) None flags = (cyl, j, Some y)"
  show "cyl = Box c" "0 \<le> j" "getItemByIndex w c (nat j) = Some y"
    using q assms auto_none auto_some
    by (auto simp: queryDestination_def Let_def INDEX_WHEREEVER_def split: if_splits option.splits)
next
  assume a: "unlocked b \<and> it_stackable (e_items env (item_id (w_item w x))) \<and> \<not> hasBitSet FLAG_IGNOREAUTOSTACK flags
        \<and> w_place w x \<noteq> Inside c \<and> list_ex (\<lambda>y. y \<noteq> x \<and> stack_target env w x y) (contents_of w c)"
  then have p: "parent_of env w (Box x) \<noteq> Some (Box c)" by (auto simp: parent_of_def split: thing_place.splits)
  obtain y n where f: "find_stack env w x (contents_of w c) 0 = Some (y, n)"
    using a find_stack_none [of env w x "contents_of w c" 0] by (cases "find_stack env w x (contents_of w c) 0") (auto simp: list_all_iff list_ex_iff)
  then have "y \<noteq> x \<and> stack_target env w x y" using find_stack_nth by blast
  moreover have "queryDestination env w c 255 (Some x) None flags = (Box c, int n, Some y)"
    using a assms p f by (simp add: queryDestination_def auto_stack_def INDEX_WHEREEVER_def)
  ultimately show "\<exists>j y. queryDestination env w c 255 (Some x) None flags = (Box c, j, Some y) \<and> y \<noteq> x \<and> stack_target env w x y" by blast
qed

definition sack_world2 :: cont_world where
  "sack_world2 = sack_world\<lparr>w_item := (w_item sack_world)(20 := sack_item 9 3)\<rparr>"

theorem destination_item_in_place_witness:
  "\<exists>j y. queryDestination sack_env sack_world2 1 255 (Some 20) None 0 = (Box 1, j, Some y) \<and> y \<noteq> 20 \<and> stack_target sack_env sack_world2 20 y"
proof -
  have box: "w_box sack_world2 1 = Some (sack_box [2] 50)" by (simp add: sack_world2_def sack_world_def)
  have c: "contents_of sack_world2 1 = [2]" by (simp only: contents_of_def box option.case sack_box_fields)
  have i: "w_item sack_world2 2 = sack_item 9 5" "w_item sack_world2 20 = sack_item 9 3"
    by (simp_all add: sack_world2_def sack_world_def)
  have "stack_target sack_env sack_world2 20 2"
    by (simp add: stack_target_def thing_equals_def has_room_def i item_equals_def sack_item_def sack_env_def sack_type_def
        getStackSize_def isStoreItem_def getInteger_def getAttributeValue_def getOwnerId_def hasAttribute_def has_attr_def get_attr_def)
  then have "list_ex (\<lambda>y. y \<noteq> 20 \<and> stack_target sack_env sack_world2 20 y) (contents_of sack_world2 1)" by (simp add: c [simplified])
  then show ?thesis
    using conjunct2 [OF destination_item_in_place [OF box, of sack_env 0 20 0 "Box 1" 0 2]]
    by (simp add: hasBitSet_def sack_world2_def sack_world_def sack_env_def sack_type_def sack_item_def)
qed

end
