(* ===== verification/House.thy ===== *)
theory House
  imports Strings Guild Money
begin

text \<open>
  Houses (\<^verbatim>\<open>map/house/house.cpp\<close>, \<^verbatim>\<open>house.hpp\<close>): access lists and what their text means, who may enter
  and edit, doors, beds and the transfer document, and the players that a new list puts out of the house.
  Creatures, tiles and items are handles; who a creature is, what the entry tile admits and what an item is,
  is an environment.  The database of players and guilds is a \<^verbatim>\<open>directory\<close>.  What is asked of the game is
  kept as a list of requests.  Door descriptions, effects and the messages to players are left out; the rent
  of a house is the one the configured rate gives.
\<close>

section \<open>Access lists\<close>

record access_list =
  al_text :: string
  al_players :: "u32 set"
  al_ranks :: "u32 set"
  al_everyone :: bool

record directory =
  dir_online :: "string \<Rightarrow> u32 option"
  dir_guid :: "string \<Rightarrow> u32"
  dir_guild_id :: "string \<Rightarrow> u32"
  dir_loaded :: "u32 \<Rightarrow> guild option"
  dir_load :: "u32 \<Rightarrow> guild option"

definition no_access :: access_list where
  "no_access = \<lparr>al_text = [], al_players = {}, al_ranks = {}, al_everyone = False\<rparr>"

definition access_addPlayer :: "directory \<Rightarrow> string \<Rightarrow> access_list \<Rightarrow> access_list" where
  "access_addPlayer dir n al = (case dir_online dir n of
      Some guid \<Rightarrow> al\<lparr>al_players := insert guid (al_players al)\<rparr>
    | None \<Rightarrow> (let guid = dir_guid dir n in
        if guid \<noteq> 0 then al\<lparr>al_players := insert guid (al_players al)\<rparr> else al))"

definition getGuildByName :: "directory \<Rightarrow> string \<Rightarrow> guild option" where
  "getGuildByName dir n = (let guildId = dir_guild_id dir n in
     if guildId = 0 then None
     else case dir_loaded dir guildId of Some g \<Rightarrow> Some g | None \<Rightarrow> dir_load dir guildId)"

definition access_addGuild :: "directory \<Rightarrow> string \<Rightarrow> access_list \<Rightarrow> access_list" where
  "access_addGuild dir n al = (case getGuildByName dir n of None \<Rightarrow> al
    | Some g \<Rightarrow> al\<lparr>al_ranks := al_ranks al \<union> set (map rank_id (ranks g))\<rparr>)"

definition access_addGuildRank :: "directory \<Rightarrow> string \<Rightarrow> string \<Rightarrow> access_list \<Rightarrow> access_list" where
  "access_addGuildRank dir n guildName al = (case getGuildByName dir guildName of None \<Rightarrow> al
    | Some g \<Rightarrow> (case getRankByName n g of None \<Rightarrow> al
        | Some r \<Rightarrow> al\<lparr>al_ranks := insert (rank_id r) (al_ranks al)\<rparr>))"

definition newline :: char where "newline = CHR 0x0A"

definition valid_char :: "char \<Rightarrow> bool" where
  "valid_char c \<longleftrightarrow> isupper c \<or> islower c \<or> c \<in> {CHR 0x27, CHR '' '', newline, CHR ''*'', CHR ''!'', CHR ''@'', CHR ''#''}"

fun split_lines :: "string \<Rightarrow> string list" where
  "split_lines [] = [[]]"
| "split_lines (c # cs) = (if c = newline then [] # split_lines cs
     else (case split_lines cs of [] \<Rightarrow> [[c]] | l # ls \<Rightarrow> (c # l) # ls))"

text \<open>The regular expression drops every other character; empty lines go too.\<close>

definition clean_text :: "string \<Rightarrow> string" where
  "clean_text txt = concat (map (\<lambda>l. l @ [newline]) (filter (\<lambda>l. l \<noteq> []) (split_lines (filter valid_char txt))))"

definition NETWORKMESSAGE_PLAYERNAME_MAXLENGTH :: nat where "NETWORKMESSAGE_PLAYERNAME_MAXLENGTH = 30"

definition trim_line :: "string \<Rightarrow> string" where
  "trim_line l = trimString (trim_right (CHR 0x09) (trim_left (CHR 0x09) (trimString l)))"

definition parse_entry :: "directory \<Rightarrow> string \<Rightarrow> access_list \<Rightarrow> access_list" where
  "parse_entry dir raw al = (let line = trim_line raw in
     if line = [] \<or> hd line = CHR ''#'' \<or> length line > 100 then al
     else (let line = asLowerCaseString line in
       case find_sub ''@'' line of
         Some at_pos \<Rightarrow>
           if at_pos = 0 then access_addGuild dir (drop 1 line) al
           else access_addGuildRank dir (take (at_pos - 1) line) (drop (at_pos + 1) line) al
       | None \<Rightarrow>
           if line = ''*'' then al\<lparr>al_everyone := True\<rparr>
           else if list_ex (\<lambda>c. c \<in> {CHR ''!'', CHR ''*'', CHR 0x3F}) line then al
           else if length line \<le> NETWORKMESSAGE_PLAYERNAME_MAXLENGTH then access_addPlayer dir line al
           else al))"

definition parseList :: "directory \<Rightarrow> string \<Rightarrow> access_list" where
  "parseList dir txt = (let valid = clean_text txt; al = no_access\<lparr>al_text := valid\<rparr> in
     if txt = [] then al
     else (case explodeString valid [newline] 100 of None \<Rightarrow> al
       | Some lines \<Rightarrow> fold (parse_entry dir) lines al))"

record person =
  p_guid :: u32
  p_account :: u32
  p_canEditHouses :: bool
  p_rank :: "u32 option"

definition isInList :: "person \<Rightarrow> access_list \<Rightarrow> bool" where
  "isInList q al \<longleftrightarrow> al_everyone al \<or> p_guid q \<in> al_players al
     \<or> (case p_rank q of None \<Rightarrow> False | Some r \<Rightarrow> r \<in> al_ranks al)"

section \<open>The cleaned text is stable\<close>

lemma split_lines_nonempty [simp]: "split_lines s \<noteq> []"
  by (induction s) (auto split: list.splits)

lemma split_lines_append:
  "newline \<notin> set l \<Longrightarrow> split_lines (l @ newline # s) = l # split_lines s"
  by (induction l) (auto split: list.splits)

lemma split_concat_lines:
  "\<forall>l \<in> set ls. newline \<notin> set l \<Longrightarrow> split_lines (concat (map (\<lambda>l. l @ [newline]) ls)) = ls @ [[]]"
  by (induction ls) (simp_all add: split_lines_append)

lemma split_lines_chars_all: "\<forall>l \<in> set (split_lines s). set l \<subseteq> set s - {newline}"
  by (induction s) (auto split: list.splits)

lemma split_lines_chars: "l \<in> set (split_lines s) \<Longrightarrow> set l \<subseteq> set s - {newline}"
  using split_lines_chars_all by blast

lemma valid_newline [simp]: "valid_char newline"
  by (simp add: valid_char_def)

lemma clean_text_valid: "filter valid_char (clean_text txt) = clean_text txt"
proof -
  have "set l \<subseteq> Collect valid_char" if "l \<in> set (split_lines (filter valid_char txt))" for l
    using split_lines_chars [OF that] by auto
  then show ?thesis by (auto simp: clean_text_def filter_id_conv)
qed

lemma clean_text_Nil [simp]: "clean_text [] = []"
  by (simp add: clean_text_def)

lemma clean_text_idem: "clean_text (clean_text txt) = clean_text txt"
proof -
  let ?ls = "filter (\<lambda>l. l \<noteq> []) (split_lines (filter valid_char txt))"
  have "\<forall>l \<in> set ?ls. newline \<notin> set l" using split_lines_chars by fastforce
  then have "split_lines (clean_text txt) = ?ls @ [[]]" unfolding clean_text_def by (rule split_concat_lines)
  then have "filter (\<lambda>l. l \<noteq> []) (split_lines (filter valid_char (clean_text txt))) = ?ls"
    unfolding clean_text_valid by simp
  then show ?thesis unfolding clean_text_def [of "clean_text txt"] by (simp add: clean_text_def)
qed

lemma entry_fields:
  "al_text (parse_entry dir l al) = al_text al"
  by (simp add: parse_entry_def Let_def access_addPlayer_def access_addGuild_def access_addGuildRank_def split: option.split)

lemma entries_text: "al_text (fold (parse_entry dir) ls al) = al_text al"
  by (induction ls arbitrary: al) (simp_all add: entry_fields)

lemma parse_text: "al_text (parseList dir txt) = clean_text txt"
  by (simp add: parseList_def Let_def entries_text no_access_def split: option.split)

lemma parse_entry_empty: "parse_entry dir [] al = al"
  by (simp add: parse_entry_def trim_line_def trimString_def trim_left_def trim_right_def)

lemma parse_clean: "parseList dir (clean_text txt) = parseList dir txt"
proof (cases "clean_text txt = []")
  case False
  then have "txt \<noteq> []" by (auto simp: clean_text_def)
  with False show ?thesis by (simp add: parseList_def clean_text_idem)
next
  case True
  have "explodeString [] [newline] 100 = Some [[]]"
    by (simp add: explodeString_def explode_rest.simps)
  with True show ?thesis by (simp add: parseList_def clean_text_idem parse_entry_empty Let_def)
qed

lemma parse_own_text: "parseList dir (al_text (parseList dir txt)) = parseList dir txt"
  by (simp add: parse_text parse_clean)

lemma parse_nothing: "parseList dir [] = no_access"
  by (simp add: parseList_def clean_text_def no_access_def)

section \<open>Levels of access\<close>

datatype house_level = HOUSE_NOT_INVITED | HOUSE_GUEST | HOUSE_SUBOWNER | HOUSE_OWNER

fun level_value :: "house_level \<Rightarrow> nat" where
  "level_value HOUSE_NOT_INVITED = 0" | "level_value HOUSE_GUEST = 1"
| "level_value HOUSE_SUBOWNER = 2" | "level_value HOUSE_OWNER = 3"

instantiation house_level :: linorder
begin

definition less_eq_house_level :: "house_level \<Rightarrow> house_level \<Rightarrow> bool" where
  "less_eq_house_level a b \<longleftrightarrow> level_value a \<le> level_value b"

definition less_house_level :: "house_level \<Rightarrow> house_level \<Rightarrow> bool" where
  "less_house_level a b \<longleftrightarrow> level_value a < level_value b"

instance
proof
  fix a b :: house_level
  show "a \<le> b \<Longrightarrow> b \<le> a \<Longrightarrow> a = b"
    by (cases a; cases b) (simp_all add: less_eq_house_level_def)
qed (auto simp: less_eq_house_level_def less_house_level_def)

end

definition GUEST_LIST :: u32 where "GUEST_LIST = 0x100"
definition SUBOWNER_LIST :: u32 where "SUBOWNER_LIST = 0x101"

text \<open>A door is known to the house by its number; its position is where \<^verbatim>\<open>getDoorByPosition\<close> finds it.\<close>

record house_door =
  door_item :: nat
  door_id :: u32
  door_position :: "u16 \<times> u16 \<times> u8"
  door_access :: access_list

record house =
  house_id :: u32
  house_owner :: u32
  house_ownerName :: string
  house_ownerAccount :: u32
  house_name :: string
  house_town :: u32
  house_rent :: nat
  house_paidUntil :: int
  house_warnings :: nat
  house_isLoaded :: bool
  house_newOwnerOnStartup :: bool
  house_transferItem :: "nat option"
  guestList :: access_list
  subOwnerList :: access_list
  doorList :: "house_door list"
  bedsList :: "nat list"
  houseTiles :: "nat list"

datatype rent_period = RENTPERIOD_DAILY | RENTPERIOD_WEEKLY | RENTPERIOD_MONTHLY | RENTPERIOD_YEARLY | RENTPERIOD_NEVER

text \<open>
  The environment: who a creature is, the tile at the entry and whom it admits, the items of a tile and what
  an item is (its contents if it is a container, its owner), what wrapping an item gives if it is still there
  then, the other half of a bed, who is online and who can be loaded (name and account), the towns, the clock
  and the configuration.  A tenant is the player as the game has it after the requests made so far.
\<close>

record tenant =
  tn_person :: person
  tn_slots :: "thing list"
  tn_balance :: nat
  tn_lastLogin :: int
  tn_vip :: bool

datatype house_request = WakeUp nat u32 | MoveToInbox nat u32 | RemoveItem nat | SavePlayers "u32 set"
  | TakeMoney u32 "(nat \<times> nat) list" nat "nat option" | Letter u32 int | TransferItems u32 u32

record house_env =
  he_dir :: directory
  he_person :: "nat \<Rightarrow> person option"
  he_entry :: "nat option"
  he_admits :: "nat \<Rightarrow> nat \<Rightarrow> bool"
  he_items :: "nat \<Rightarrow> nat list"
  he_wrapable :: "nat \<Rightarrow> bool"
  he_wrapContainer :: "nat \<Rightarrow> bool"
  he_pickupable :: "nat \<Rightarrow> bool"
  he_isBed :: "nat \<Rightarrow> bool"
  he_contents :: "nat \<Rightarrow> nat list option"
  he_item_owner :: "nat \<Rightarrow> u32 option"
  he_isOwner :: "nat \<Rightarrow> u32 \<Rightarrow> bool"
  he_wrapped :: "nat \<Rightarrow> nat option"
  he_partner :: "nat \<Rightarrow> nat option"
  he_online :: "u32 \<Rightarrow> bool"
  he_player_row :: "u32 \<Rightarrow> (string \<times> u32) option"
  he_tenant :: "house_request list \<Rightarrow> u32 \<Rightarrow> tenant option"
  he_town :: "u32 \<Rightarrow> bool"
  he_now :: int
  he_owned_by_account :: bool
  he_transfer_on_restart :: bool
  he_rent_period :: rent_period
  he_lose_after :: int
  he_vip_keep :: bool

definition getHouseAccessLevel :: "house_env \<Rightarrow> house \<Rightarrow> person option \<Rightarrow> house_level" where
  "getHouseAccessLevel e h player = (case player of None \<Rightarrow> HOUSE_OWNER
    | Some q \<Rightarrow>
      if he_owned_by_account e \<and> house_ownerAccount h = p_account q then HOUSE_OWNER
      else if p_canEditHouses q then HOUSE_OWNER
      else if p_guid q = house_owner h then HOUSE_OWNER
      else if isInList q (subOwnerList h) then HOUSE_SUBOWNER
      else if isInList q (guestList h) then HOUSE_GUEST
      else HOUSE_NOT_INVITED)"

definition isInvited :: "house_env \<Rightarrow> house \<Rightarrow> person option \<Rightarrow> bool" where
  "isInvited e h player \<longleftrightarrow> getHouseAccessLevel e h player \<noteq> HOUSE_NOT_INVITED"

definition canEditAccessList :: "house_env \<Rightarrow> house \<Rightarrow> u32 \<Rightarrow> person option \<Rightarrow> bool" where
  "canEditAccessList e h listId player = (case getHouseAccessLevel e h player of
      HOUSE_OWNER \<Rightarrow> True
    | HOUSE_SUBOWNER \<Rightarrow> listId = GUEST_LIST
    | _ \<Rightarrow> False)"

section \<open>Doors, beds and the transfer document\<close>

definition getDoorByNumber :: "house \<Rightarrow> u32 \<Rightarrow> house_door option" where
  "getDoorByNumber h n = find (\<lambda>d. door_id d = n) (doorList h)"

definition getDoorByPosition :: "house \<Rightarrow> u16 \<times> u16 \<times> u8 \<Rightarrow> house_door option" where
  "getDoorByPosition h pos = find (\<lambda>d. door_position d = pos) (doorList h)"

definition addDoor :: "house_door \<Rightarrow> house \<Rightarrow> house" where
  "addDoor d h = h\<lparr>doorList := doorList h @ [d]\<rparr>"

fun remove_first :: "('a \<Rightarrow> bool) \<Rightarrow> 'a list \<Rightarrow> 'a list" where
  "remove_first p [] = []"
| "remove_first p (x # xs) = (if p x then xs else x # remove_first p xs)"

definition removeDoor :: "nat \<Rightarrow> house \<Rightarrow> house" where
  "removeDoor item h = h\<lparr>doorList := remove_first (\<lambda>d. door_item d = item) (doorList h)\<rparr>"

definition addBed :: "nat \<Rightarrow> house \<Rightarrow> house" where
  "addBed bed h = h\<lparr>bedsList := bedsList h @ [bed]\<rparr>"

definition removeBed :: "nat \<Rightarrow> house \<Rightarrow> house" where
  "removeBed bed h = h\<lparr>bedsList := filter (\<lambda>b. b \<noteq> bed) (bedsList h)\<rparr>"

definition getBedCount :: "house \<Rightarrow> nat" where
  "getBedCount h = length (bedsList h) div 2"

definition door_canUse :: "house_env \<Rightarrow> house option \<Rightarrow> house_door \<Rightarrow> person option \<Rightarrow> bool" where
  "door_canUse e hs d player = (case hs of None \<Rightarrow> True
    | Some h \<Rightarrow> if HOUSE_SUBOWNER \<le> getHouseAccessLevel e h player then True
        else (case player of None \<Rightarrow> True | Some q \<Rightarrow> isInList q (door_access d)))"

definition getTransferItem :: "nat \<Rightarrow> house \<Rightarrow> nat option \<times> house" where
  "getTransferItem document h =
     (if house_transferItem h \<noteq> None then (None, h) else (Some document, h\<lparr>house_transferItem := Some document\<rparr>))"

definition resetTransferItem :: "house \<Rightarrow> house" where
  "resetTransferItem h = (if house_transferItem h \<noteq> None then h\<lparr>house_transferItem := None\<rparr> else h)"

definition getAccessList :: "u32 \<Rightarrow> house \<Rightarrow> string option" where
  "getAccessList listId h =
     (if listId = GUEST_LIST then Some (al_text (guestList h))
      else if listId = SUBOWNER_LIST then Some (al_text (subOwnerList h))
      else map_option (\<lambda>d. al_text (door_access d)) (getDoorByNumber h listId))"

section \<open>Who is inside\<close>

text \<open>
  A bed's sleeper and the time the sleep began (0 when free).  The tables \<^verbatim>\<open>houses\<close> and \<^verbatim>\<open>house_lists\<close> are
  association lists, one row for a key.
\<close>

record house_row =
  row_owner :: u32
  row_newOwner :: int
  row_paid :: int
  row_warnings :: nat

record house_world =
  hw_tile :: "nat \<Rightarrow> nat"
  hw_creatures :: "nat \<Rightarrow> nat list"
  hw_bed :: "nat \<Rightarrow> u32 \<times> u64"
  hw_rows :: "(u32 \<times> house_row) list"
  hw_lists :: "((u32 \<times> u32) \<times> string \<times> nat) list"
  hw_requests :: "house_request list"

definition put_creature :: "nat \<Rightarrow> nat \<Rightarrow> house_world \<Rightarrow> house_world" where
  "put_creature c to w = (let old = hw_tile w c in
     w\<lparr>hw_tile := (hw_tile w)(c := to),
       hw_creatures := (\<lambda>t. (if t = to then [c] else []) @ (if t = old then remove1 c (hw_creatures w t) else hw_creatures w t))\<rparr>)"

definition internalTeleport :: "house_env \<Rightarrow> nat \<Rightarrow> house_world \<Rightarrow> bool \<times> house_world" where
  "internalTeleport e c w = (case he_entry e of None \<Rightarrow> (False, w)
    | Some t \<Rightarrow> if hw_tile w c = t then (False, w)
        else if \<not> he_admits e t c then (False, w)
        else (True, put_creature c t w))"

definition kickPlayer :: "house_env \<Rightarrow> house \<Rightarrow> person option \<Rightarrow> nat \<Rightarrow> house_world \<Rightarrow> bool \<times> house_world" where
  "kickPlayer e h player target w = (case he_person e target of None \<Rightarrow> (False, w)
    | Some q \<Rightarrow>
      if hw_tile w target \<notin> set (houseTiles h) then (False, w)
      else if getHouseAccessLevel e h player < getHouseAccessLevel e h (Some q) \<or> p_canEditHouses q then (False, w)
      else (True, snd (internalTeleport e target w)))"

text \<open>
  The loops over the creatures of a tile count down an index taken from the size at the start; the list
  shrinks behind the index when a creature leaves.
\<close>

fun kick_down :: "house_env \<Rightarrow> house \<Rightarrow> (person \<Rightarrow> bool) \<Rightarrow> nat \<Rightarrow> nat \<Rightarrow> house_world \<Rightarrow> house_world" where
  "kick_down e h stays t 0 w = w"
| "kick_down e h stays t (Suc i) w =
     (let c = hw_creatures w t ! i in
      kick_down e h stays t i
        (case he_person e c of None \<Rightarrow> w | Some q \<Rightarrow> if stays q then w else snd (kickPlayer e h None c w)))"

definition kick_tiles :: "house_env \<Rightarrow> house \<Rightarrow> (person \<Rightarrow> bool) \<Rightarrow> house_world \<Rightarrow> house_world" where
  "kick_tiles e h stays w =
     fold (\<lambda>t w. kick_down e h stays t (length (hw_creatures w t)) w) (houseTiles h) w"

fun update_first :: "('a \<Rightarrow> bool) \<Rightarrow> ('a \<Rightarrow> 'a) \<Rightarrow> 'a list \<Rightarrow> 'a list" where
  "update_first p f [] = []"
| "update_first p f (x # xs) = (if p x then f x # xs else x # update_first p f xs)"

definition setAccessList :: "house_env \<Rightarrow> u32 \<Rightarrow> string \<Rightarrow> house \<times> house_world \<Rightarrow> house \<times> house_world" where
  "setAccessList e listId txt hw = (let (h, w) = hw; al = parseList (he_dir e) txt in
     if listId = GUEST_LIST then
       (let h' = h\<lparr>guestList := al\<rparr> in (h', kick_tiles e h' (\<lambda>q. isInvited e h' (Some q)) w))
     else if listId = SUBOWNER_LIST then
       (let h' = h\<lparr>subOwnerList := al\<rparr> in (h', kick_tiles e h' (\<lambda>q. isInvited e h' (Some q)) w))
     else (h\<lparr>doorList := update_first (\<lambda>d. door_id d = listId) (\<lambda>d. d\<lparr>door_access := al\<rparr>) (doorList h)\<rparr>, w))"

end
