(* ===== verification/House_Owner.thy ===== *)
theory House_Owner
  imports House "HOL-Library.AList" "HOL-Library.Signed_Division"
begin

text \<open>
  Ownership of houses (\<^verbatim>\<open>map/house/house.cpp\<close>): what happens to players, beds and items when a house changes
  hands, the rent (\<^verbatim>\<open>payHouses\<close>), and the house tables of the database (\<^verbatim>\<open>loadHouseInfo\<close> and \<^verbatim>\<open>saveHouseInfo\<close>
  of \<^verbatim>\<open>io/iomapserialize.cpp\<close>).
\<close>

section \<open>Beds and items leave\<close>

definition ask_game :: "house_request \<Rightarrow> house_world \<Rightarrow> house_world" where
  "ask_game r w = w\<lparr>hw_requests := hw_requests w @ [r]\<rparr>"

definition wakeUp :: "house_env \<Rightarrow> nat \<Rightarrow> house_world \<Rightarrow> house_world" where
  "wakeUp e bed w = (let sleeper = fst (hw_bed w bed) in
     if sleeper = 0 then w
     else (let w = ask_game (WakeUp bed sleeper) w; free = (hw_bed w)(bed := (0, 0)) in
       w\<lparr>hw_bed := (case he_partner e bed of None \<Rightarrow> free | Some n \<Rightarrow> free(n := (0, 0)))\<rparr>))"

definition wrapItem :: "house_env \<Rightarrow> nat \<Rightarrow> house \<times> house_world \<Rightarrow> nat option \<times> house \<times> house_world" where
  "wrapItem e item hw = (let (h, w) = hw in
     (he_wrapped e item, if he_isBed e item then (removeBed item h, wakeUp e item w) else (h, w)))"

definition handleContainer :: "house_env \<Rightarrow> nat \<Rightarrow> nat list \<Rightarrow> nat list" where
  "handleContainer e item moveItemList = (case he_contents e item of None \<Rightarrow> moveItemList
     | Some itemList \<Rightarrow> moveItemList @ itemList)"

definition handleWrapableItem :: "house_env \<Rightarrow> nat \<Rightarrow> nat list \<times> house \<times> house_world \<Rightarrow> nat list \<times> house \<times> house_world" where
  "handleWrapableItem e item st = (let (moveItemList, hw) = st;
       moveItemList = (if he_wrapContainer e item then handleContainer e item moveItemList else moveItemList) in
     case wrapItem e item hw of
       (None, hw) \<Rightarrow> (moveItemList, hw)
     | (Some newItem, hw) \<Rightarrow> (moveItemList @ [newItem], hw))"

definition depot_item :: "house_env \<Rightarrow> nat \<Rightarrow> nat list \<times> house \<times> house_world \<Rightarrow> nat list \<times> house \<times> house_world" where
  "depot_item e item st =
     (if he_wrapable e item then handleWrapableItem e item st
      else if he_pickupable e item then (fst st @ [item], snd st)
      else (handleContainer e item (fst st), snd st))"

definition targetPlayer :: "house_env \<Rightarrow> u32 \<Rightarrow> nat \<Rightarrow> u32 option" where
  "targetPlayer e guid item = (case he_item_owner e item of None \<Rightarrow> Some guid
     | Some own \<Rightarrow> if he_isOwner e item guid then Some guid
         else if own \<noteq> 0 \<and> he_online e own then Some own else None)"

definition move_request :: "house_env \<Rightarrow> u32 \<Rightarrow> nat \<Rightarrow> house_request" where
  "move_request e guid item = (case targetPlayer e guid item of None \<Rightarrow> RemoveItem item | Some g \<Rightarrow> MoveToInbox item g)"

definition transferToDepot_tile :: "house_env \<Rightarrow> u32 \<Rightarrow> nat \<Rightarrow> house \<times> house_world \<Rightarrow> house \<times> house_world" where
  "transferToDepot_tile e guid tile hw =
     (case fold (depot_item e) (he_items e tile) ([], hw) of (moveItemList, h, w) \<Rightarrow>
       (let w = fold (\<lambda>item. ask_game (move_request e guid item)) moveItemList w;
            playersToSave = insert guid (set (List.map_filter (targetPlayer e guid) moveItemList)) in
        (h, ask_game (SavePlayers playersToSave) w)))"

definition transferToDepot :: "house_env \<Rightarrow> u32 \<Rightarrow> house \<times> house_world \<Rightarrow> bool \<times> house \<times> house_world" where
  "transferToDepot e guid hw =
     (if house_town (fst hw) = 0 then (False, hw)
      else (True, fold (transferToDepot_tile e guid) (houseTiles (fst hw)) hw))"

definition transferToOwnersDepot :: "house_env \<Rightarrow> house \<times> house_world \<Rightarrow> bool \<times> house \<times> house_world" where
  "transferToOwnersDepot e hw = (let guid = house_owner (fst hw) in
     if house_town (fst hw) = 0 then (False, hw)
     else if (guid \<noteq> 0 \<and> he_online e guid) \<or> he_player_row e guid \<noteq> None then (True, snd (transferToDepot e guid hw))
     else (False, hw))"

definition hasItemOnTile :: "house_env \<Rightarrow> house \<Rightarrow> bool" where
  "hasItemOnTile e h \<longleftrightarrow> list_ex (\<lambda>t. list_ex (\<lambda>i. he_wrapable e i \<or> he_pickupable e i) (he_items e t)) (houseTiles h)"

section \<open>Change of hands\<close>

definition clearHouseInfo :: "house_env \<Rightarrow> bool \<Rightarrow> house \<times> house_world \<Rightarrow> house \<times> house_world" where
  "clearHouseInfo e preventOwnerDeletion hw = (let (h, w) = hw;
       w = fold (\<lambda>bed w. if fst (hw_bed w bed) \<noteq> 0 then wakeUp e bed w else w) (bedsList h) w;
       h = (if preventOwnerDeletion then h else h\<lparr>house_owner := 0, house_ownerAccount := 0\<rparr>);
       (h, w) = setAccessList e SUBOWNER_LIST [] (h, w);
       (h, w) = setAccessList e GUEST_LIST [] (h, w) in
     (h\<lparr>doorList := map (\<lambda>d. d\<lparr>door_access := parseList (he_dir e) []\<rparr>) (doorList h)\<rparr>, w))"

definition tryTransferOwnership :: "house_env \<Rightarrow> person option \<Rightarrow> bool \<Rightarrow> house \<times> house_world \<Rightarrow> bool \<times> house \<times> house_world" where
  "tryTransferOwnership e player serverStartup hw =
     (let (transferSuccess, h, w) = (case player of Some q \<Rightarrow> transferToDepot e (p_guid q) hw | None \<Rightarrow> transferToOwnersDepot e hw);
          w = kick_tiles e h (\<lambda>_. False) w in
      (transferSuccess, clearHouseInfo e serverStartup (h, w)))"

fun rent_seconds :: "rent_period \<Rightarrow> int" where
  "rent_seconds RENTPERIOD_DAILY = 24 * 60 * 60"
| "rent_seconds RENTPERIOD_WEEKLY = 24 * 60 * 60 * 7"
| "rent_seconds RENTPERIOD_MONTHLY = 24 * 60 * 60 * 30"
| "rent_seconds RENTPERIOD_YEARLY = 24 * 60 * 60 * 365"
| "rent_seconds RENTPERIOD_NEVER = 0"

definition first_due :: "house_env \<Rightarrow> int" where
  "first_due e = (if he_rent_period e = RENTPERIOD_NEVER then 0 else he_now e + rent_seconds (he_rent_period e))"

definition update_house_row :: "u32 \<Rightarrow> (house_row \<Rightarrow> house_row) \<Rightarrow> house_world \<Rightarrow> house_world" where
  "update_house_row i f w = w\<lparr>hw_rows := map (\<lambda>(j, r). (j, if j = i then f r else r)) (hw_rows w)\<rparr>"

definition house_setOwner :: "house_env \<Rightarrow> u32 \<Rightarrow> bool \<Rightarrow> person option \<Rightarrow> house \<times> house_world \<Rightarrow> house \<times> house_world" where
  "house_setOwner e guid updateDatabase player hw = (let (h, w) = hw;
       w = (if updateDatabase \<and> house_owner h \<noteq> guid
            then update_house_row (house_id h) (\<lambda>r. r\<lparr>row_owner := guid, row_newOwner := -1\<rparr>) w else w) in
     if house_isLoaded h \<and> house_owner h = guid then (h, w)
     else (let h = h\<lparr>house_isLoaded := True\<rparr>;
         (h, w) = (if house_owner h \<noteq> 0 then snd (tryTransferOwnership e player False (h, w))
                   else (h\<lparr>house_paidUntil := first_due e\<rparr>, w));
         h = h\<lparr>house_warnings := 0\<rparr> in
       if guid = 0 then (h, w)
       else (case he_player_row e guid of
           Some (n, account) \<Rightarrow> if n \<noteq> [] then (h\<lparr>house_owner := guid, house_ownerName := n, house_ownerAccount := account\<rparr>, w) else (h, w)
         | None \<Rightarrow> (h, w))))"

definition setNewOwnerGuid :: "house_env \<Rightarrow> int \<Rightarrow> bool \<Rightarrow> house \<times> house_world \<Rightarrow> house \<times> house_world" where
  "setNewOwnerGuid e newOwnerGuid serverStartup hw =
     (if \<not> he_transfer_on_restart e then house_setOwner e (word_of_int newOwnerGuid) True None hw
      else (let (h, w) = hw; w = update_house_row (house_id h) (\<lambda>r. r\<lparr>row_newOwner := newOwnerGuid\<rparr>) w in
        (if serverStartup then h else h\<lparr>house_newOwnerOnStartup := True\<rparr>, w)))"

definition executeTransfer :: "house_env \<Rightarrow> nat \<Rightarrow> person \<Rightarrow> house \<times> house_world \<Rightarrow> bool \<times> house \<times> house_world" where
  "executeTransfer e item newOwner hw =
     (if house_transferItem (fst hw) \<noteq> Some item then (False, hw)
      else if he_transfer_on_restart e \<and> house_newOwnerOnStartup (fst hw) then (False, hw)
      else (let (h, w) = (if he_transfer_on_restart e then setNewOwnerGuid e (sint (p_guid newOwner)) False hw
                          else house_setOwner e (p_guid newOwner) True None hw) in
        (True, h\<lparr>house_transferItem := None\<rparr>, w)))"

text \<open>The trade of the document: the game then removes the document, whatever became of the transfer.\<close>

datatype trade_event = ON_TRADE_TRANSFER | ON_TRADE_CANCEL

definition onTradeEvent :: "house_env \<Rightarrow> nat \<Rightarrow> trade_event \<Rightarrow> person \<Rightarrow> house \<times> house_world \<Rightarrow> house \<times> house_world" where
  "onTradeEvent e item event newOwner hw = (case event of
      ON_TRADE_TRANSFER \<Rightarrow> (let (_, h, w) = executeTransfer e item newOwner hw in (h, ask_game (RemoveItem item) w))
    | ON_TRADE_CANCEL \<Rightarrow> (resetTransferItem (fst hw), snd hw))"

section \<open>All houses\<close>

text \<open>The houses in the order of their ids.\<close>

definition getHouse :: "u32 \<Rightarrow> house list \<Rightarrow> house option" where
  "getHouse houseId hs = find (\<lambda>h. house_id h = houseId) hs"

definition getHouseByPlayerId :: "u32 \<Rightarrow> house list \<Rightarrow> house option" where
  "getHouseByPlayerId playerId hs = find (\<lambda>h. house_owner h = playerId) hs"

section \<open>Rent\<close>

definition house_lost :: "house_env \<Rightarrow> tenant \<Rightarrow> bool" where
  "house_lost e p \<longleftrightarrow> he_lose_after e > 0 \<and> \<not> (he_vip_keep e \<and> tn_vip p)
     \<and> \<not> (he_now e - tn_lastLogin p) sdiv (60 * 60 * 24) < he_lose_after e"

definition payHouse :: "house_env \<Rightarrow> rent_period \<Rightarrow> house \<times> house_world \<Rightarrow> house \<times> house_world" where
  "payHouse e rentPeriod hw = (let (h, w) = hw; ownerId = house_owner h in
     if ownerId = 0 then (h, w)
     else if \<not> he_town e (house_town h) then (h, w)
     else (case he_tenant e (hw_requests w) ownerId of
         None \<Rightarrow> snd (tryTransferOwnership e None True (h, w))
       | Some p \<Rightarrow>
         (let save = (\<lambda>(h, w). (h, ask_game (SavePlayers {ownerId}) w)) in
          if house_lost e p then save (house_setOwner e 0 True (Some (tn_person p)) (h, w))
          else if house_rent h = 0 \<or> house_paidUntil h > he_now e then (h, w)
          else if tn_balance p \<ge> house_rent h then
            (case removeMoney (tn_slots p) (house_rent h) (Some (tn_balance p)) of (_, removed, change, balance) \<Rightarrow>
              save (h\<lparr>house_paidUntil := he_now e + rent_seconds rentPeriod\<rparr>, ask_game (TakeMoney ownerId removed change balance) w))
          else if house_warnings h < 7 then
            save (h\<lparr>house_warnings := house_warnings h + 1\<rparr>, ask_game (Letter ownerId (7 - int (house_warnings h))) w)
          else save (house_setOwner e 0 True (Some (tn_person p)) (h, w)))))"

fun each_house :: "(house \<times> house_world \<Rightarrow> house \<times> house_world) \<Rightarrow> house list \<Rightarrow> house_world \<Rightarrow> house list \<times> house_world" where
  "each_house f [] w = ([], w)"
| "each_house f (h # hs) w = (case f (h, w) of (h', w') \<Rightarrow> case each_house f hs w' of (hs', w'') \<Rightarrow> (h' # hs', w''))"

definition payHouses :: "house_env \<Rightarrow> rent_period \<Rightarrow> house list \<Rightarrow> house_world \<Rightarrow> house list \<times> house_world" where
  "payHouses e rentPeriod hs w =
     (if rentPeriod = RENTPERIOD_NEVER then (hs, w) else each_house (payHouse e rentPeriod) hs w)"

end
