(* ===== verification/House_Save.thy ===== *)
theory House_Save
  imports House_Owner
begin

text \<open>
  Houses in the database (\<^verbatim>\<open>io/iomapserialize.cpp\<close>, \<^verbatim>\<open>loadHouseInfo\<close> and \<^verbatim>\<open>saveHouseInfo\<close>): the rows of the tables
  \<^verbatim>\<open>houses\<close> and \<^verbatim>\<open>house_lists\<close>, and that loading what was saved gives the owner, the rent and every access list
  back.  A new row has the column \<^verbatim>\<open>new_owner\<close> at its default \<open>-1\<close>; the columns that only describe the house
  (name, town, size, beds) are left out.
\<close>

section \<open>Saving\<close>

definition save_row :: "house \<Rightarrow> (u32 \<times> house_row) list \<Rightarrow> (u32 \<times> house_row) list" where
  "save_row h rows = AList.update (house_id h)
     \<lparr>row_owner = house_owner h,
      row_newOwner = (case map_of rows (house_id h) of Some r \<Rightarrow> row_newOwner r | None \<Rightarrow> -1),
      row_paid = house_paidUntil h, row_warnings = house_warnings h\<rparr> rows"

definition list_texts :: "house \<Rightarrow> (u32 \<times> string) list" where
  "list_texts h = (GUEST_LIST, al_text (guestList h)) # (SUBOWNER_LIST, al_text (subOwnerList h))
     # map (\<lambda>d. (door_id d, al_text (door_access d))) (doorList h)"

definition save_list :: "nat \<Rightarrow> u32 \<Rightarrow> u32 \<times> string \<Rightarrow> ((u32 \<times> u32) \<times> string \<times> nat) list \<Rightarrow> ((u32 \<times> u32) \<times> string \<times> nat) list" where
  "save_list version houseId lt tab = (case lt of (listId, listText) \<Rightarrow>
     if listText \<noteq> [] then AList.update (houseId, listId) (listText, version) tab else tab)"

definition save_lists :: "nat \<Rightarrow> house \<Rightarrow> ((u32 \<times> u32) \<times> string \<times> nat) list \<Rightarrow> ((u32 \<times> u32) \<times> string \<times> nat) list" where
  "save_lists version h = fold (save_list version (house_id h)) (list_texts h)"

definition saveHouseInfo :: "nat \<Rightarrow> house list \<Rightarrow> house_world \<Rightarrow> house_world" where
  "saveHouseInfo version hs w = w\<lparr>hw_rows := fold save_row hs (hw_rows w),
     hw_lists := filter (\<lambda>(_, _, v). \<not> v < version) (fold (save_lists version) hs (hw_lists w))\<rparr>"

section \<open>Loading\<close>

fun on_house :: "u32 \<Rightarrow> (house \<times> house_world \<Rightarrow> house \<times> house_world) \<Rightarrow> house list \<times> house_world \<Rightarrow> house list \<times> house_world" where
  "on_house i f ([], w) = ([], w)"
| "on_house i f (h # hs, w) =
     (if house_id h = i then (case f (h, w) of (h', w') \<Rightarrow> (h' # hs, w'))
      else (case on_house i f (hs, w) of (hs', w') \<Rightarrow> (h # hs', w')))"

definition load_house_row :: "house_env \<Rightarrow> house_row \<Rightarrow> house \<times> house_world \<Rightarrow> house \<times> house_world" where
  "load_house_row e r hw =
     (let (h, w) = (if he_transfer_on_restart e \<and> row_newOwner r \<ge> 0
          then house_setOwner e (word_of_int (row_newOwner r)) True None
                 (fst hw, ask_game (TransferItems (house_id (fst hw)) (row_owner r)) (snd hw))
          else house_setOwner e (row_owner r) False None hw) in
      (h\<lparr>house_paidUntil := row_paid r, house_warnings := row_warnings r\<rparr>, w))"

definition loadHouseInfo :: "house_env \<Rightarrow> house list \<times> house_world \<Rightarrow> bool \<times> house list \<times> house_world" where
  "loadHouseInfo e st = (let rows = hw_rows (snd st) in
     if rows = [] then (False, st)
     else (let st = fold (\<lambda>(i, r). on_house i (load_house_row e r)) rows st in
       (True, fold (\<lambda>((i, listId), (txt, _)). on_house i (setAccessList e listId txt)) (hw_lists (snd st)) st)))"

section \<open>What loading does to each house\<close>

definition put_list :: "house_env \<Rightarrow> u32 \<Rightarrow> string \<Rightarrow> house \<Rightarrow> house" where
  "put_list e listId txt h = (let al = parseList (he_dir e) txt in
     if listId = GUEST_LIST then h\<lparr>guestList := al\<rparr>
     else if listId = SUBOWNER_LIST then h\<lparr>subOwnerList := al\<rparr>
     else h\<lparr>doorList := update_first (\<lambda>d. door_id d = listId) (\<lambda>d. d\<lparr>door_access := al\<rparr>) (doorList h)\<rparr>)"

lemma setAccessList_house: "fst (setAccessList e listId txt (h, w)) = put_list e listId txt h"
  by (simp add: setAccessList_def put_list_def Let_def)

lemma put_list_fields [simp]:
  "house_id (put_list e l txt h) = house_id h" "house_owner (put_list e l txt h) = house_owner h"
  "house_paidUntil (put_list e l txt h) = house_paidUntil h" "house_warnings (put_list e l txt h) = house_warnings h"
  by (simp_all add: put_list_def Let_def)

lemma on_house_map:
  assumes "distinct (map house_id hs)"
  shows "fst (on_house i f (hs, w)) = map (\<lambda>h. if house_id h = i then fst (f (h, w)) else h) hs"
  using assms
proof (induction hs)
  case (Cons h hs)
  have "map (\<lambda>h. if house_id h = i then fst (f (h, w)) else h) hs = hs" if "house_id h = i"
    using Cons.prems that by (intro map_idI) (auto simp: image_iff)
  with Cons show ?case by (auto split: prod.split)
qed simp

lemma on_house_fold:
  assumes "\<And>r h w. fst (f r (h, w)) = g r h" "\<And>r h. house_id (g r h) = house_id h" "distinct (map house_id hs)"
  shows "fst (fold (\<lambda>r. on_house (k r) (f r)) rs (hs, w))
    = map (fold (\<lambda>r h. if house_id h = k r then g r h else h) rs) hs"
  using assms(3)
proof (induction rs arbitrary: hs w)
  case (Cons r rs)
  obtain hs' w' where s: "on_house (k r) (f r) (hs, w) = (hs', w')"
    by (cases "on_house (k r) (f r) (hs, w)")
  have hs': "hs' = map (\<lambda>h. if house_id h = k r then g r h else h) hs"
    using on_house_map [of hs "k r" "f r" w, OF Cons.prems] unfolding s by (simp add: assms(1))
  have "distinct (map house_id hs')"
  proof -
    have "map house_id hs' = map house_id hs" using assms(2) by (simp add: hs')
    with Cons.prems show ?thesis by simp
  qed
  have "fst (fold (\<lambda>r. on_house (k r) (f r)) (r # rs) (hs, w)) = fst (fold (\<lambda>r. on_house (k r) (f r)) rs (hs', w'))"
    using s by simp
  also have "\<dots> = map (fold (\<lambda>r h. if house_id h = k r then g r h else h) rs) hs'" by (rule Cons.IH) fact
  finally show ?case unfolding hs' by simp
qed simp

lemma on_house_world:
  assumes "\<And>h. h \<in> set hs \<Longrightarrow> house_id h = i \<Longrightarrow> snd (f (h, w)) = w"
  shows "snd (on_house i f (hs, w)) = w"
  using assms
proof (induction hs)
  case (Cons h hs)
  then show ?case using Cons.prems [of h] by (cases "f (h, w)"; cases "on_house i f (hs, w)") auto
qed simp

lemma put_list_guest:
  "guestList (put_list e l txt h) = (if l = GUEST_LIST then parseList (he_dir e) txt else guestList h)"
  by (simp add: put_list_def Let_def)

lemma list_ids_differ [simp]: "SUBOWNER_LIST \<noteq> GUEST_LIST" "GUEST_LIST \<noteq> SUBOWNER_LIST"
  by (simp_all add: SUBOWNER_LIST_def GUEST_LIST_def)

lemma put_list_subowner:
  "subOwnerList (put_list e l txt h) = (if l = SUBOWNER_LIST then parseList (he_dir e) txt else subOwnerList h)"
  by (simp add: put_list_def Let_def)

lemma update_first_map:
  "distinct (map k xs) \<Longrightarrow> update_first (\<lambda>x. k x = a) f xs = map (\<lambda>x. if k x = a then f x else x) xs"
proof (induction xs)
  case (Cons x xs)
  then have "map (\<lambda>x. if k x = a then f x else x) xs = xs" if "k x = a"
    using that by (intro map_idI) (auto simp: image_iff)
  with Cons show ?case by auto
qed simp

definition doors_ok :: "house_door list \<Rightarrow> bool" where
  "doors_ok ds \<longleftrightarrow> distinct (map door_id ds) \<and> GUEST_LIST \<notin> set (map door_id ds) \<and> SUBOWNER_LIST \<notin> set (map door_id ds)"

lemma put_list_doors:
  assumes "doors_ok (doorList h)"
  shows "doorList (put_list e l txt h)
    = map (\<lambda>d. if door_id d = l then d\<lparr>door_access := parseList (he_dir e) txt\<rparr> else d) (doorList h)"
proof (cases "l = GUEST_LIST \<or> l = SUBOWNER_LIST")
  case True
  then have "map (\<lambda>d. if door_id d = l then d\<lparr>door_access := parseList (he_dir e) txt\<rparr> else d) (doorList h) = doorList h"
    using assms by (intro map_idI) (auto simp: doors_ok_def image_iff)
  with True show ?thesis by (auto simp: put_list_def Let_def)
next
  case False
  with assms show ?thesis by (simp add: put_list_def Let_def update_first_map doors_ok_def)
qed

text \<open>All lists of the table at once: a list is what its row says, or as it was when it has no row.\<close>

definition put_entry :: "house_env \<Rightarrow> (u32 \<times> u32) \<times> string \<times> nat \<Rightarrow> house \<Rightarrow> house" where
  "put_entry e en h = (case en of ((i, l), (txt, _)) \<Rightarrow> if house_id h = i then put_list e l txt h else h)"

definition row_or :: "house_env \<Rightarrow> ((u32 \<times> u32) \<times> string \<times> nat) list \<Rightarrow> u32 \<Rightarrow> u32 \<Rightarrow> access_list \<Rightarrow> access_list" where
  "row_or e tab i l al = (case map_of tab (i, l) of None \<Rightarrow> al | Some (txt, _) \<Rightarrow> parseList (he_dir e) txt)"

lemma put_entry_fields [simp]:
  "house_id (put_entry e en h) = house_id h" "house_owner (put_entry e en h) = house_owner h"
  "house_paidUntil (put_entry e en h) = house_paidUntil h" "house_warnings (put_entry e en h) = house_warnings h"
  by (simp_all add: put_entry_def split: prod.split)

lemma put_entries_fields:
  "house_id (fold (put_entry e) tab h) = house_id h \<and> house_owner (fold (put_entry e) tab h) = house_owner h
    \<and> house_paidUntil (fold (put_entry e) tab h) = house_paidUntil h
    \<and> house_warnings (fold (put_entry e) tab h) = house_warnings h"
  by (induction tab arbitrary: h) simp_all

lemma row_or_Cons:
  assumes "distinct (map fst (en # tab))"
  shows "row_or e (en # tab) i l al
    = row_or e tab i l (case en of ((j, k), (txt, _)) \<Rightarrow> if j = i \<and> k = l then parseList (he_dir e) txt else al)"
proof -
  have "map_of tab (fst en) = None" using assms by (simp add: map_of_eq_None_iff)
  then show ?thesis by (cases en) (auto simp: row_or_def split: option.splits if_splits)
qed

lemma put_entries_lists:
  assumes "distinct (map fst tab)"
  shows "guestList (fold (put_entry e) tab h) = row_or e tab (house_id h) GUEST_LIST (guestList h)"
    and "subOwnerList (fold (put_entry e) tab h) = row_or e tab (house_id h) SUBOWNER_LIST (subOwnerList h)"
    and "doors_ok (doorList h) \<Longrightarrow> doorList (fold (put_entry e) tab h)
      = map (\<lambda>d. d\<lparr>door_access := row_or e tab (house_id h) (door_id d) (door_access d)\<rparr>) (doorList h)"
  using assms
proof (induction tab arbitrary: h)
  case Nil
  { case 1 show ?case by (simp add: row_or_def) }
  { case 2 show ?case by (simp add: row_or_def) }
  { case 3 show ?case by (simp add: row_or_def) }
next
  case (Cons en tab)
  obtain j k x v where en: "en = ((j, k), (x, v))" by (metis prod.exhaust)
  { case 1 then show ?case using Cons.IH(1) [of "put_entry e en h"] row_or_Cons [OF 1]
      by (simp add: put_entry_def en put_list_guest) }
  { case 2 then show ?case using Cons.IH(2) [of "put_entry e en h"] row_or_Cons [OF 2]
      by (simp add: put_entry_def en put_list_subowner) }
  { case 3
    have step: "doorList (put_entry e en h) = map (\<lambda>d. d\<lparr>door_access :=
        (if j = house_id h \<and> k = door_id d then parseList (he_dir e) x else door_access d)\<rparr>) (doorList h)"
      using 3(1) by (auto simp: put_entry_def en put_list_doors)
    then have "doors_ok (doorList (put_entry e en h))" using 3(1) by (simp add: doors_ok_def comp_def)
    with 3 Cons.IH(3) [of "put_entry e en h"] have "doorList (fold (put_entry e) (en # tab) h)
       = map (\<lambda>d. d\<lparr>door_access := row_or e tab (house_id h) (door_id d) (door_access d)\<rparr>) (doorList (put_entry e en h))"
      by simp
    then show ?case unfolding step row_or_Cons [OF 3(2)] by (simp add: en) }
qed


section \<open>The rows of the table\<close>

definition fresh :: "house \<Rightarrow> bool" where
  "fresh h \<longleftrightarrow> house_isLoaded h \<and> house_owner h = 0 \<and> guestList h = no_access \<and> subOwnerList h = no_access
     \<and> list_all (\<lambda>d. door_access d = no_access) (doorList h)"

definition row_ok :: "house_env \<Rightarrow> house_row \<Rightarrow> bool" where
  "row_ok e r \<longleftrightarrow> \<not> (he_transfer_on_restart e \<and> row_newOwner r \<ge> 0)
     \<and> (row_owner r = 0 \<or> (case he_player_row e (row_owner r) of None \<Rightarrow> False | Some (n, _) \<Rightarrow> n \<noteq> []))"

definition loaded :: "house_env \<Rightarrow> house_row \<Rightarrow> house \<Rightarrow> house" where
  "loaded e r h = (case he_player_row e (row_owner r) of
      Some (n, account) \<Rightarrow> if row_owner r \<noteq> 0
        then h\<lparr>house_owner := row_owner r, house_ownerName := n, house_ownerAccount := account,
               house_paidUntil := row_paid r, house_warnings := row_warnings r\<rparr>
        else h\<lparr>house_paidUntil := row_paid r, house_warnings := row_warnings r\<rparr>
    | None \<Rightarrow> h\<lparr>house_paidUntil := row_paid r, house_warnings := row_warnings r\<rparr>)"

lemma load_fresh:
  "fresh h \<Longrightarrow> row_ok e r \<Longrightarrow> load_house_row e r (h, w) = (loaded e r h, w)"
  by (auto simp: load_house_row_def house_setOwner_def row_ok_def fresh_def loaded_def Let_def split: option.splits prod.splits)

lemma loaded_fields [simp]:
  "house_id (loaded e r h) = house_id h" "guestList (loaded e r h) = guestList h"
  "subOwnerList (loaded e r h) = subOwnerList h" "doorList (loaded e r h) = doorList h"
  "house_paidUntil (loaded e r h) = row_paid r" "house_warnings (loaded e r h) = row_warnings r"
  by (simp_all add: loaded_def split: option.split)

lemma loaded_owner: "fresh h \<Longrightarrow> row_ok e r \<Longrightarrow> house_owner (loaded e r h) = row_owner r"
  by (auto simp: loaded_def row_ok_def fresh_def split: option.splits)

definition load_by :: "house_env \<Rightarrow> (u32 \<times> house_row) list \<Rightarrow> house \<Rightarrow> house" where
  "load_by e rows h = (case map_of rows (house_id h) of None \<Rightarrow> h | Some r \<Rightarrow> loaded e r h)"

lemma load_by_id [simp]: "house_id (load_by e rows h) = house_id h"
  by (simp add: load_by_def split: option.split)

lemma load_rows:
  assumes "distinct (map fst rows)" "distinct (map house_id hs)"
    and "\<And>h r. h \<in> set hs \<Longrightarrow> (house_id h, r) \<in> set rows \<Longrightarrow> fresh h \<and> row_ok e r"
  shows "fold (\<lambda>(i, r). on_house i (load_house_row e r)) rows (hs, w) = (map (load_by e rows) hs, w)"
  using assms
proof (induction rows arbitrary: hs)
  case Nil
  then show ?case by (simp add: load_by_def map_idI)
next
  case (Cons en rows)
  obtain i r where en: "en = (i, r)" by (cases en)
  let ?g = "\<lambda>h. if house_id h = i then loaded e r h else h"
  have one: "load_house_row e r (h, w) = (loaded e r h, w)" if "h \<in> set hs" "house_id h = i" for h
    using Cons.prems(3) [of h r] that by (simp add: en load_fresh)
  have "on_house i (load_house_row e r) (hs, w) = (map ?g hs, w)"
  proof (rule prod_eqI)
    show "fst (on_house i (load_house_row e r) (hs, w)) = fst (map ?g hs, w)"
      using one by (auto simp: on_house_map [OF Cons.prems(2)])
    show "snd (on_house i (load_house_row e r) (hs, w)) = snd (map ?g hs, w)"
      using one by (simp add: on_house_world)
  qed
  moreover have "fold (\<lambda>(i, r). on_house i (load_house_row e r)) rows (map ?g hs, w) = (map (load_by e rows) (map ?g hs), w)"
  proof (rule Cons.IH)
    show "distinct (map fst rows)" using Cons.prems(1) by simp
    have "map house_id (map ?g hs) = map house_id hs" by simp
    then show "distinct (map house_id (map ?g hs))" using Cons.prems(2) by metis
    fix h q
    assume h: "h \<in> set (map ?g hs)" "(house_id h, q) \<in> set rows"
    have "i \<notin> fst ` set rows" using Cons.prems(1) by (simp add: en)
    then have "house_id h \<noteq> i" using h(2) by force
    then have "h \<in> set hs" using h(1) by auto
    then show "fresh h \<and> row_ok e q" using Cons.prems(3) [of h q] h(2) by simp
  qed
  moreover have "load_by e rows (?g h) = load_by e (en # rows) h" for h
  proof -
    have "map_of rows i = None" using Cons.prems(1) by (simp add: en map_of_eq_None_iff)
    then show ?thesis by (simp add: load_by_def en)
  qed
  ultimately show ?case by (simp add: en)
qed

lemma load_lists:
  assumes "distinct (map house_id hs)"
  shows "fst (fold (\<lambda>((i, listId), (txt, _)). on_house i (setAccessList e listId txt)) tab (hs, w)) = map (fold (put_entry e) tab) hs"
  using on_house_fold [of "\<lambda>r. setAccessList e (snd (fst r)) (fst (snd r))" "\<lambda>r. put_list e (snd (fst r)) (fst (snd r))" hs
      "\<lambda>r. fst (fst r)" tab w] assms
  by (simp add: setAccessList_house case_prod_unfold put_entry_def [abs_def])


section \<open>The tables after saving\<close>

lemma save_row_lookup:
  "map_of (save_row h rows) i = (if i = house_id h then Some \<lparr>row_owner = house_owner h,
      row_newOwner = (case map_of rows i of Some r \<Rightarrow> row_newOwner r | None \<Rightarrow> -1),
      row_paid = house_paidUntil h, row_warnings = house_warnings h\<rparr> else map_of rows i)"
  by (simp add: save_row_def AList.update_conv')

lemma saved_row_other:
  "i \<notin> house_id ` set hs \<Longrightarrow> map_of (fold save_row hs rows) i = map_of rows i"
  by (induction hs arbitrary: rows) (simp_all add: save_row_lookup)

lemma saved_row:
  assumes "distinct (map house_id hs)" "h \<in> set hs"
  shows "map_of (fold save_row hs rows) (house_id h) = Some \<lparr>row_owner = house_owner h,
      row_newOwner = (case map_of rows (house_id h) of Some r \<Rightarrow> row_newOwner r | None \<Rightarrow> -1),
      row_paid = house_paidUntil h, row_warnings = house_warnings h\<rparr>"
  using assms
proof (induction hs arbitrary: rows)
  case (Cons x hs)
  show ?case
  proof (cases "h = x")
    case True
    with Cons.prems show ?thesis by (simp add: saved_row_other save_row_lookup)
  next
    case False
    with Cons.prems have "h \<in> set hs" "house_id h \<noteq> house_id x" by (auto simp: image_iff)
    with Cons show ?thesis by (simp add: save_row_lookup)
  qed
qed simp

lemma saved_rows_distinct: "distinct (map fst rows) \<Longrightarrow> distinct (map fst (fold save_row hs rows))"
  by (induction hs arbitrary: rows) (simp_all add: save_row_def distinct_update)

definition list_value :: "nat \<Rightarrow> (u32 \<times> string) list \<Rightarrow> u32 \<Rightarrow> (string \<times> nat) option \<Rightarrow> (string \<times> nat) option" where
  "list_value v lts l old = (case map_of lts l of None \<Rightarrow> old | Some t \<Rightarrow> if t \<noteq> [] then Some (t, v) else old)"

lemma save_list_lookup:
  assumes "distinct (map fst lts)"
  shows "map_of (fold (save_list v i) lts tab) (j, l) = (if j = i then list_value v lts l (map_of tab (j, l)) else map_of tab (j, l))"
  using assms
proof (induction lts arbitrary: tab)
  case (Cons lt lts)
  obtain k t where lt: "lt = (k, t)" by (cases lt)
  have "map_of lts k = None" using Cons.prems by (simp add: lt map_of_eq_None_iff)
  with Cons show ?case by (auto simp: lt save_list_def list_value_def AList.update_conv' split: option.splits)
qed (simp add: list_value_def)

lemma list_ids_distinct: "doors_ok (doorList h) \<Longrightarrow> distinct (map fst (list_texts h))"
  by (auto simp: list_texts_def doors_ok_def comp_def)

lemma save_lists_lookup:
  "doors_ok (doorList h) \<Longrightarrow> map_of (save_lists v h tab) (j, l)
    = (if j = house_id h then list_value v (list_texts h) l (map_of tab (j, l)) else map_of tab (j, l))"
  by (simp add: save_lists_def save_list_lookup list_ids_distinct)

lemma saved_lists_other:
  "\<forall>h \<in> set hs. doors_ok (doorList h) \<Longrightarrow> i \<notin> house_id ` set hs \<Longrightarrow>
    map_of (fold (save_lists v) hs tab) (i, l) = map_of tab (i, l)"
  by (induction hs arbitrary: tab) (simp_all add: save_lists_lookup)

lemma saved_lists:
  assumes "distinct (map house_id hs)" "h \<in> set hs" "\<forall>h \<in> set hs. doors_ok (doorList h)"
  shows "map_of (fold (save_lists v) hs tab) (house_id h, l) = list_value v (list_texts h) l (map_of tab (house_id h, l))"
  using assms
proof (induction hs arbitrary: tab)
  case (Cons x hs)
  show ?case
  proof (cases "h = x")
    case True
    with Cons.prems show ?thesis by (simp add: saved_lists_other save_lists_lookup)
  next
    case False
    with Cons.prems have "h \<in> set hs" "house_id h \<noteq> house_id x" by (auto simp: image_iff)
    with Cons show ?thesis by (simp add: save_lists_lookup)
  qed
qed simp

lemma save_list_distinct: "distinct (map fst tab) \<Longrightarrow> distinct (map fst (fold (save_list v i) lts tab))"
  by (induction lts arbitrary: tab) (simp_all add: save_list_def distinct_update split: prod.split)

lemma saved_lists_distinct: "distinct (map fst tab) \<Longrightarrow> distinct (map fst (fold (save_lists v) hs tab))"
  by (induction hs arbitrary: tab) (simp_all add: save_lists_def save_list_distinct)

lemma lookup_filter:
  "distinct (map fst tab) \<Longrightarrow> map_of (filter (\<lambda>(_, _, u). \<not> u < v) tab) k
    = (case map_of tab k of None \<Rightarrow> None | Some (t, u) \<Rightarrow> if u < v then None else Some (t, u))"
proof (induction tab)
  case (Cons en tab)
  have "map_of tab (fst en) = None" using Cons.prems by (simp add: map_of_eq_None_iff)
  with Cons show ?case by (auto split: prod.splits option.splits)
qed simp

lemma filter_keys: "distinct (map fst tab) \<Longrightarrow> distinct (map fst (filter P tab))"
  by (induction tab) auto


section \<open>Saved and loaded\<close>

text \<open>What is kept of a house, and what the running server keeps of it: a list is what its text says.\<close>

definition house_info :: "house \<Rightarrow> u32 \<times> u32 \<times> int \<times> nat \<times> access_list \<times> access_list \<times> (u32 \<times> access_list) list" where
  "house_info h = (house_id h, house_owner h, house_paidUntil h, house_warnings h, guestList h, subOwnerList h,
     map (\<lambda>d. (door_id d, door_access d)) (doorList h))"

definition spelled :: "house_env \<Rightarrow> access_list \<Rightarrow> bool" where
  "spelled e al \<longleftrightarrow> parseList (he_dir e) (al_text al) = al"

definition saved_ok :: "house_env \<Rightarrow> house \<Rightarrow> bool" where
  "saved_ok e h \<longleftrightarrow> spelled e (guestList h) \<and> spelled e (subOwnerList h)
     \<and> list_all (\<lambda>d. spelled e (door_access d)) (doorList h) \<and> doors_ok (doorList h)
     \<and> (house_owner h = 0 \<or> (case he_player_row e (house_owner h) of None \<Rightarrow> False | Some (n, _) \<Rightarrow> n \<noteq> []))"

definition fresh_copy :: "house \<Rightarrow> house \<Rightarrow> bool" where
  "fresh_copy h h0 \<longleftrightarrow> house_id h0 = house_id h \<and> map door_id (doorList h0) = map door_id (doorList h) \<and> fresh h0"

definition tables_ok :: "house_env \<Rightarrow> nat \<Rightarrow> house_world \<Rightarrow> bool" where
  "tables_ok e version w \<longleftrightarrow> distinct (map fst (hw_rows w)) \<and> distinct (map fst (hw_lists w))
     \<and> list_all (\<lambda>(_, r). \<not> (he_transfer_on_restart e \<and> row_newOwner r \<ge> 0)) (hw_rows w)
     \<and> list_all (\<lambda>(_, _, v). v < version) (hw_lists w)"

lemma spelled_parse: "spelled e (parseList (he_dir e) txt)"
  by (simp add: spelled_def parse_own_text)

lemma final_lists:
  assumes "distinct (map house_id hs)" "h \<in> set hs" "\<forall>h \<in> set hs. doors_ok (doorList h)" "tables_ok e v w"
    and "map_of (list_texts h) l = Some (al_text al)" "spelled e al"
  shows "row_or e (hw_lists (saveHouseInfo v hs w)) (house_id h) l no_access = al"
proof -
  have old: "u < v" if "map_of (hw_lists w) (house_id h, l) = Some (t, u)" for t u
    using assms(4) map_of_SomeD [OF that] by (auto simp: tables_ok_def list_all_iff)
  have "distinct (map fst (hw_lists w))" using assms(4) by (simp add: tables_ok_def)
  then have "map_of (hw_lists (saveHouseInfo v hs w)) (house_id h, l)
      = (if al_text al \<noteq> [] then Some (al_text al, v) else None)"
    using old by (auto simp: saveHouseInfo_def lookup_filter saved_lists_distinct saved_lists [OF assms(1-3)]
        list_value_def assms(5) split: option.split)
  moreover have "no_access = al" if "al_text al = []"
    using assms(6) that by (simp add: spelled_def parse_nothing)
  ultimately show ?thesis using assms(6) by (auto simp: row_or_def spelled_def)
qed

lemma saved_table_rows:
  assumes "distinct (map house_id hs)" "h \<in> set hs" "saved_ok e h" "tables_ok e v w"
  shows "\<exists>r. map_of (hw_rows (saveHouseInfo v hs w)) (house_id h) = Some r \<and> row_ok e r
    \<and> row_owner r = house_owner h \<and> row_paid r = house_paidUntil h \<and> row_warnings r = house_warnings h"
proof -
  have "\<not> (he_transfer_on_restart e \<and> row_newOwner q \<ge> 0)" if "map_of (hw_rows w) (house_id h) = Some q" for q
    using assms(4) map_of_SomeD [OF that] by (auto simp: tables_ok_def list_all_iff)
  then show ?thesis using assms(3)
    by (auto simp: saveHouseInfo_def saved_row [OF assms(1,2)] row_ok_def saved_ok_def split: option.splits)
qed

lemma all2_map: "list_all2 (\<lambda>x y. g y = f x) xs ys \<Longrightarrow> map g ys = map f xs"
  by (induction rule: list_all2_induct) simp_all

lemma all2_partner: "list_all2 P xs ys \<Longrightarrow> y \<in> set ys \<Longrightarrow> \<exists>x \<in> set xs. P x y"
  by (induction rule: list_all2_induct) auto

lemma loaded_house:
  assumes "distinct (map house_id hs)" "h \<in> set hs" "\<forall>h \<in> set hs. saved_ok e h" "fresh_copy h h0" "tables_ok e v w"
  shows "house_info (fold (put_entry e) (hw_lists (saveHouseInfo v hs w)) (load_by e (hw_rows (saveHouseInfo v hs w)) h0))
    = house_info h"
proof -
  let ?tab = "hw_lists (saveHouseInfo v hs w)" and ?h1 = "load_by e (hw_rows (saveHouseInfo v hs w)) h0"
  have doors: "\<forall>h \<in> set hs. doors_ok (doorList h)" and ok: "saved_ok e h" using assms(2,3) by (auto simp: saved_ok_def)
  obtain r where r: "map_of (hw_rows (saveHouseInfo v hs w)) (house_id h) = Some r" "row_ok e r"
      "row_owner r = house_owner h" "row_paid r = house_paidUntil h" "row_warnings r = house_warnings h"
    using saved_table_rows [OF assms(1,2) ok assms(5)] by blast
  have h0: "house_id h0 = house_id h" "map door_id (doorList h0) = map door_id (doorList h)" "fresh h0"
    using assms(4) by (simp_all add: fresh_copy_def)
  have h1: "?h1 = loaded e r h0" by (simp add: load_by_def h0(1) r(1))
  have keys: "distinct (map fst ?tab)"
    using assms(5) by (simp add: saveHouseInfo_def filter_keys saved_lists_distinct tables_ok_def)
  note final = final_lists [OF assms(1,2) doors assms(5)]
  have texts: "map_of (list_texts h) (door_id d) = Some (al_text (door_access d))" if "d \<in> set (doorList h)" for d
    using ok that list_ids_distinct [of h]
    by (intro map_of_is_SomeI) (auto simp: saved_ok_def list_texts_def)
  have all: "list_all2 (\<lambda>d d0. door_id d0 = door_id d) (doorList h) (doorList h0)"
    using h0(2) by (metis (mono_tags, lifting) list_all2_conv_all_nth length_map nth_map)
  have "row_or e ?tab (house_id h) (door_id d0) (door_access d0) = door_access d"
    if "d \<in> set (doorList h)" "d0 \<in> set (doorList h0)" "door_id d0 = door_id d" for d d0
  proof -
    have "spelled e (door_access d)" using ok that(1) by (simp add: saved_ok_def list_all_iff)
    moreover have "door_access d0 = no_access" using h0(3) that(2) by (simp add: fresh_def list_all_iff)
    ultimately show ?thesis using final [OF texts [OF that(1)]] that(3) by simp
  qed
  then have "list_all2 (\<lambda>d d0. (door_id d0, row_or e ?tab (house_id h) (door_id d0) (door_access d0)) = (door_id d, door_access d))
      (doorList h) (doorList h0)"
    using all by (auto intro: list.rel_mono_strong)
  then have lists: "map (\<lambda>d0. (door_id d0, row_or e ?tab (house_id h) (door_id d0) (door_access d0))) (doorList h0)
      = map (\<lambda>d. (door_id d, door_access d)) (doorList h)"
    by (rule all2_map)
  have "doors_ok (doorList ?h1)" using ok h0(2) by (simp add: h1 saved_ok_def doors_ok_def)
  moreover have "guestList h0 = no_access" "subOwnerList h0 = no_access" using h0(3) by (simp_all add: fresh_def)
  moreover have "row_or e ?tab (house_id h) GUEST_LIST no_access = guestList h"
    and "row_or e ?tab (house_id h) SUBOWNER_LIST no_access = subOwnerList h"
    using ok by (auto intro!: final simp: list_texts_def saved_ok_def)
  ultimately show ?thesis
    using put_entries_fields [where e = e and tab = ?tab and h = ?h1] put_entries_lists [OF keys, where e = e and h = ?h1] lists loaded_owner [OF h0(3) r(2)]
    by (simp add: house_info_def h1 h0(1) r(3-5) comp_def)
qed




section \<open>A street\<close>

definition street_env :: house_env where
  "street_env = \<lparr>
     he_dir = \<lparr>dir_online = (\<lambda>_. None), dir_guid = (\<lambda>n. if n = ''bob'' then 9 else 0), dir_guild_id = (\<lambda>_. 0),
       dir_loaded = (\<lambda>_. None), dir_load = (\<lambda>_. None)\<rparr>,
     he_person = (\<lambda>c. if c < 3 then Some \<lparr>p_guid = of_nat c + 7, p_account = of_nat c + 1, p_canEditHouses = False, p_rank = None\<rparr>
        else None),
     he_entry = Some 0, he_admits = (\<lambda>_ _. True), he_items = (\<lambda>_. []), he_wrapable = (\<lambda>_. False),
     he_wrapContainer = (\<lambda>_. False), he_pickupable = (\<lambda>_. False), he_isBed = (\<lambda>_. False), he_contents = (\<lambda>_. None),
     he_item_owner = (\<lambda>_. None), he_isOwner = (\<lambda>_ _. False), he_wrapped = (\<lambda>_. None), he_partner = (\<lambda>_. None),
     he_online = (\<lambda>_. False), he_player_row = (\<lambda>g. if g = 7 then Some (''Eve'', 1) else None),
     he_tenant = (\<lambda>_ _. None), he_town = (\<lambda>_. True), he_now = 1000, he_owned_by_account = False,
     he_transfer_on_restart = True, he_rent_period = RENTPERIOD_MONTHLY, he_lose_after = 0, he_vip_keep = False\<rparr>"

definition cottage :: house where
  "cottage = \<lparr>house_id = 3, house_owner = 0, house_ownerName = [], house_ownerAccount = 0, house_name = ''Cottage'',
     house_town = 1, house_rent = 100, house_paidUntil = 0, house_warnings = 0, house_isLoaded = True,
     house_newOwnerOnStartup = False, house_transferItem = None, guestList = no_access, subOwnerList = no_access,
     doorList = [\<lparr>door_item = 50, door_id = 1, door_position = (10, 10, 7), door_access = no_access\<rparr>], bedsList = [],
     houseTiles = [1, 2]\<rparr>"

definition lived_in :: house where
  "lived_in = cottage\<lparr>house_owner := 7, house_ownerName := ''Eve'', house_paidUntil := 5000, house_warnings := 2,
     guestList := parseList (he_dir street_env) (''Bob'' @ [newline]),
     doorList := [\<lparr>door_item = 50, door_id = 1, door_position = (10, 10, 7), door_access = parseList (he_dir street_env) ''*''\<rparr>]\<rparr>"

definition street :: house_world where
  "street = \<lparr>hw_tile = (\<lambda>c. c), hw_creatures = (\<lambda>t. [t]), hw_bed = (\<lambda>_. (0, 0)),
     hw_rows = [(3, \<lparr>row_owner = 4, row_newOwner = -1, row_paid = 10, row_warnings = 0\<rparr>)],
     hw_lists = [((3, SUBOWNER_LIST), ''ann'', 1), ((8, GUEST_LIST), ''ann'', 1)], hw_requests = []\<rparr>"

lemma no_access_spelled [simp]: "spelled e no_access"
  using spelled_parse [of e "[]"] by (simp add: parse_nothing)


end
