(* ===== verification/Tile.thy ===== *)
theory Tile
  imports Item Position Container_Query
begin

text \<open>
  Tiles (\<^verbatim>\<open>items/tile.cpp\<close>).  A tile has a ground, one vector of items that holds first the items lying
  below the creatures (newest first) and behind them the items always on top (by their order), and the
  creatures (newest first).  Clients address things by their index or stack position, so the lemmas show
  that indexing and lookup are inverse, that the two kinds of items never mix, and that the flags of the
  tile say which properties its items have.  Not modelled of the handlers behind an update: the messages to
  spectators, browse fields, zones and the automatic carpets of houses.
\<close>

section \<open>Flags\<close>

definition flag_bit :: "nat \<Rightarrow> u32" where "flag_bit k = push_bit k 1"

definition TILESTATE_FLOORCHANGE_DOWN :: u32 where "TILESTATE_FLOORCHANGE_DOWN = flag_bit 0"
definition TILESTATE_FLOORCHANGE_NORTH :: u32 where "TILESTATE_FLOORCHANGE_NORTH = flag_bit 1"
definition TILESTATE_FLOORCHANGE_SOUTH :: u32 where "TILESTATE_FLOORCHANGE_SOUTH = flag_bit 2"
definition TILESTATE_FLOORCHANGE_EAST :: u32 where "TILESTATE_FLOORCHANGE_EAST = flag_bit 3"
definition TILESTATE_FLOORCHANGE_WEST :: u32 where "TILESTATE_FLOORCHANGE_WEST = flag_bit 4"
definition TILESTATE_FLOORCHANGE_SOUTH_ALT :: u32 where "TILESTATE_FLOORCHANGE_SOUTH_ALT = flag_bit 5"
definition TILESTATE_FLOORCHANGE_EAST_ALT :: u32 where "TILESTATE_FLOORCHANGE_EAST_ALT = flag_bit 6"
definition TILESTATE_PROTECTIONZONE :: u32 where "TILESTATE_PROTECTIONZONE = flag_bit 7"
definition TILESTATE_NOPVPZONE :: u32 where "TILESTATE_NOPVPZONE = flag_bit 8"
definition TILESTATE_NOLOGOUT :: u32 where "TILESTATE_NOLOGOUT = flag_bit 9"
definition TILESTATE_PVPZONE :: u32 where "TILESTATE_PVPZONE = flag_bit 10"
definition TILESTATE_TELEPORT :: u32 where "TILESTATE_TELEPORT = flag_bit 11"
definition TILESTATE_MAGICFIELD :: u32 where "TILESTATE_MAGICFIELD = flag_bit 12"
definition TILESTATE_MAILBOX :: u32 where "TILESTATE_MAILBOX = flag_bit 13"
definition TILESTATE_TRASHHOLDER :: u32 where "TILESTATE_TRASHHOLDER = flag_bit 14"
definition TILESTATE_BED :: u32 where "TILESTATE_BED = flag_bit 15"
definition TILESTATE_DEPOT :: u32 where "TILESTATE_DEPOT = flag_bit 16"
definition TILESTATE_BLOCKSOLID :: u32 where "TILESTATE_BLOCKSOLID = flag_bit 17"
definition TILESTATE_BLOCKPATH :: u32 where "TILESTATE_BLOCKPATH = flag_bit 18"
definition TILESTATE_IMMOVABLEBLOCKSOLID :: u32 where "TILESTATE_IMMOVABLEBLOCKSOLID = flag_bit 19"
definition TILESTATE_IMMOVABLEBLOCKPATH :: u32 where "TILESTATE_IMMOVABLEBLOCKPATH = flag_bit 20"
definition TILESTATE_IMMOVABLENOFIELDBLOCKPATH :: u32 where "TILESTATE_IMMOVABLENOFIELDBLOCKPATH = flag_bit 21"
definition TILESTATE_NOFIELDBLOCKPATH :: u32 where "TILESTATE_NOFIELDBLOCKPATH = flag_bit 22"
definition TILESTATE_SUPPORTS_HANGABLE :: u32 where "TILESTATE_SUPPORTS_HANGABLE = flag_bit 23"
definition TILESTATE_MOVABLE :: u32 where "TILESTATE_MOVABLE = flag_bit 24"
definition TILESTATE_ISHORIZONTAL :: u32 where "TILESTATE_ISHORIZONTAL = flag_bit 25"
definition TILESTATE_ISVERTICAL :: u32 where "TILESTATE_ISVERTICAL = flag_bit 26"
definition TILESTATE_BLOCKPROJECTILE :: u32 where "TILESTATE_BLOCKPROJECTILE = flag_bit 27"
definition TILESTATE_HASHEIGHT :: u32 where "TILESTATE_HASHEIGHT = flag_bit 28"

definition TILESTATE_FLOORCHANGE :: u32 where
  "TILESTATE_FLOORCHANGE = TILESTATE_FLOORCHANGE_DOWN OR TILESTATE_FLOORCHANGE_NORTH OR TILESTATE_FLOORCHANGE_SOUTH
     OR TILESTATE_FLOORCHANGE_EAST OR TILESTATE_FLOORCHANGE_WEST OR TILESTATE_FLOORCHANGE_SOUTH_ALT OR TILESTATE_FLOORCHANGE_EAST_ALT"

lemmas TILESTATE_defs = TILESTATE_FLOORCHANGE_DOWN_def TILESTATE_FLOORCHANGE_NORTH_def TILESTATE_FLOORCHANGE_SOUTH_def TILESTATE_FLOORCHANGE_EAST_def TILESTATE_FLOORCHANGE_WEST_def TILESTATE_FLOORCHANGE_SOUTH_ALT_def TILESTATE_FLOORCHANGE_EAST_ALT_def TILESTATE_PROTECTIONZONE_def TILESTATE_NOPVPZONE_def TILESTATE_NOLOGOUT_def
  TILESTATE_PVPZONE_def TILESTATE_TELEPORT_def TILESTATE_MAGICFIELD_def TILESTATE_MAILBOX_def TILESTATE_TRASHHOLDER_def TILESTATE_BED_def TILESTATE_DEPOT_def TILESTATE_BLOCKSOLID_def TILESTATE_BLOCKPATH_def TILESTATE_IMMOVABLEBLOCKSOLID_def
  TILESTATE_IMMOVABLEBLOCKPATH_def TILESTATE_IMMOVABLENOFIELDBLOCKPATH_def TILESTATE_NOFIELDBLOCKPATH_def TILESTATE_SUPPORTS_HANGABLE_def TILESTATE_MOVABLE_def TILESTATE_ISHORIZONTAL_def TILESTATE_ISVERTICAL_def TILESTATE_BLOCKPROJECTILE_def TILESTATE_HASHEIGHT_def

datatype item_property = CONST_PROP_BLOCKSOLID | CONST_PROP_HASHEIGHT | CONST_PROP_BLOCKPROJECTILE | CONST_PROP_BLOCKPATH
  | CONST_PROP_ISVERTICAL | CONST_PROP_ISHORIZONTAL | CONST_PROP_MOVABLE | CONST_PROP_IMMOVABLEBLOCKSOLID
  | CONST_PROP_IMMOVABLEBLOCKPATH | CONST_PROP_IMMOVABLENOFIELDBLOCKPATH | CONST_PROP_NOFIELDBLOCKPATH | CONST_PROP_SUPPORTHANGABLE

section \<open>The tile\<close>

record tile_item_type = item_type +
  tt_alwaysOnTopOrder :: u8
  tt_floorChange :: u32
  tt_blockSolid :: bool
  tt_blockProjectile :: bool
  tt_blockPathFind :: bool
  tt_hasHeight :: bool
  tt_isVertical :: bool
  tt_isHorizontal :: bool
  tt_isHangable :: bool
  tt_lookThrough :: bool
  tt_replaceable :: bool
  tt_damage :: int
  tt_combatType :: nat

type_synonym tile_types = "u16 \<Rightarrow> tile_item_type"

definition base_types :: "tile_types \<Rightarrow> item_table" where
  "base_types types n = item_type.truncate (types n)"

text \<open>Items and creatures are numbered; every item has its contents, its class and whether its parent is the tile.\<close>

datatype thing = ItemThing nat | CreatureThing nat

record tile =
  ground :: "nat option"
  tile_items :: "nat list"
  downItemCount :: nat
  tile_creatures :: "nat list"
  tile_flags :: u32
  tile_item :: "nat \<Rightarrow> item"
  tile_class :: "nat \<Rightarrow> item_class"
  is_parent :: "thing \<Rightarrow> bool"

definition type_of :: "tile_types \<Rightarrow> tile \<Rightarrow> nat \<Rightarrow> tile_item_type" where
  "type_of types t x = types (item_id (tile_item t x))"

definition downItems :: "tile \<Rightarrow> nat list" where "downItems t = take (downItemCount t) (tile_items t)"
definition topItems :: "tile \<Rightarrow> nat list" where "topItems t = drop (downItemCount t) (tile_items t)"

definition getTopItemCount :: "tile \<Rightarrow> nat" where "getTopItemCount t = length (tile_items t) - downItemCount t"

definition getTopTopItem :: "tile \<Rightarrow> nat option" where
  "getTopTopItem t = (if getTopItemCount t = 0 then None else Some (last (tile_items t)))"

definition getTopDownItem :: "tile \<Rightarrow> nat option" where
  "getTopDownItem t = (if downItemCount t = 0 then None else Some (hd (tile_items t)))"

definition getThingCount :: "tile \<Rightarrow> nat" where
  "getThingCount t = length (tile_creatures t) + length (tile_items t) + (if ground t = None then 0 else 1)"

definition isAlwaysOnTop :: "tile_types \<Rightarrow> tile \<Rightarrow> nat \<Rightarrow> bool" where
  "isAlwaysOnTop types t x \<longleftrightarrow> tt_alwaysOnTopOrder (type_of types t x) \<noteq> 0"

definition isGroundTile :: "tile_types \<Rightarrow> tile \<Rightarrow> nat \<Rightarrow> bool" where
  "isGroundTile types t x \<longleftrightarrow> it_group (type_of types t x) = ITEM_GROUP_GROUND"

definition hasFlag :: "u32 \<Rightarrow> tile \<Rightarrow> bool" where "hasFlag f t = hasBitSet f (tile_flags t)"
definition setFlag :: "u32 \<Rightarrow> tile \<Rightarrow> tile" where "setFlag f t = t\<lparr>tile_flags := tile_flags t OR f\<rparr>"
definition resetFlag :: "u32 \<Rightarrow> tile \<Rightarrow> tile" where "resetFlag f t = t\<lparr>tile_flags := tile_flags t AND NOT f\<rparr>"

datatype zone_type = ZONE_PROTECTION | ZONE_NOPVP | ZONE_PVP | ZONE_NOLOGOUT | ZONE_NORMAL

definition getZoneType :: "tile \<Rightarrow> zone_type" where
  "getZoneType t = (if hasFlag TILESTATE_PROTECTIONZONE t then ZONE_PROTECTION
     else if hasFlag TILESTATE_NOPVPZONE t then ZONE_NOPVP
     else if hasFlag TILESTATE_PVPZONE t then ZONE_PVP
     else if hasFlag TILESTATE_NOLOGOUT t then ZONE_NOLOGOUT
     else ZONE_NORMAL)"

section \<open>Properties of items and of the tile\<close>

definition item_hasProperty :: "tile_types \<Rightarrow> tile \<Rightarrow> nat \<Rightarrow> item_property \<Rightarrow> bool" where
  "item_hasProperty types t x prop =
     (let it = type_of types t x; moved = canBeMoved (base_types types) (tile_item t x); field = it_type it = ITEM_TYPE_MAGICFIELD in
      case prop of
        CONST_PROP_BLOCKSOLID \<Rightarrow> tt_blockSolid it
      | CONST_PROP_MOVABLE \<Rightarrow> moved
      | CONST_PROP_HASHEIGHT \<Rightarrow> tt_hasHeight it
      | CONST_PROP_BLOCKPROJECTILE \<Rightarrow> tt_blockProjectile it
      | CONST_PROP_BLOCKPATH \<Rightarrow> tt_blockPathFind it
      | CONST_PROP_ISVERTICAL \<Rightarrow> tt_isVertical it
      | CONST_PROP_ISHORIZONTAL \<Rightarrow> tt_isHorizontal it
      | CONST_PROP_IMMOVABLEBLOCKSOLID \<Rightarrow> tt_blockSolid it \<and> \<not> moved
      | CONST_PROP_IMMOVABLEBLOCKPATH \<Rightarrow> tt_blockPathFind it \<and> \<not> moved
      | CONST_PROP_IMMOVABLENOFIELDBLOCKPATH \<Rightarrow> \<not> field \<and> tt_blockPathFind it \<and> \<not> moved
      | CONST_PROP_NOFIELDBLOCKPATH \<Rightarrow> \<not> field \<and> tt_blockPathFind it
      | CONST_PROP_SUPPORTHANGABLE \<Rightarrow> tt_isHorizontal it \<or> tt_isVertical it)"

definition property_flag :: "item_property \<Rightarrow> u32" where
  "property_flag prop = (case prop of
        CONST_PROP_BLOCKSOLID \<Rightarrow> TILESTATE_BLOCKSOLID
      | CONST_PROP_HASHEIGHT \<Rightarrow> TILESTATE_HASHEIGHT
      | CONST_PROP_BLOCKPROJECTILE \<Rightarrow> TILESTATE_BLOCKPROJECTILE
      | CONST_PROP_BLOCKPATH \<Rightarrow> TILESTATE_BLOCKPATH
      | CONST_PROP_ISVERTICAL \<Rightarrow> TILESTATE_ISVERTICAL
      | CONST_PROP_ISHORIZONTAL \<Rightarrow> TILESTATE_ISHORIZONTAL
      | CONST_PROP_MOVABLE \<Rightarrow> TILESTATE_MOVABLE
      | CONST_PROP_IMMOVABLEBLOCKSOLID \<Rightarrow> TILESTATE_IMMOVABLEBLOCKSOLID
      | CONST_PROP_IMMOVABLEBLOCKPATH \<Rightarrow> TILESTATE_IMMOVABLEBLOCKPATH
      | CONST_PROP_IMMOVABLENOFIELDBLOCKPATH \<Rightarrow> TILESTATE_IMMOVABLENOFIELDBLOCKPATH
      | CONST_PROP_NOFIELDBLOCKPATH \<Rightarrow> TILESTATE_NOFIELDBLOCKPATH
      | CONST_PROP_SUPPORTHANGABLE \<Rightarrow> TILESTATE_SUPPORTS_HANGABLE)"

definition tile_hasProperty :: "item_property \<Rightarrow> tile \<Rightarrow> bool" where
  "tile_hasProperty prop t = hasFlag (property_flag prop) t"

definition others_haveProperty :: "tile_types \<Rightarrow> nat \<Rightarrow> item_property \<Rightarrow> tile \<Rightarrow> bool" where
  "others_haveProperty types exclude prop t \<longleftrightarrow>
     (case ground t of Some g \<Rightarrow> exclude \<noteq> g \<and> item_hasProperty types t g prop | None \<Rightarrow> False)
     \<or> list_ex (\<lambda>x. x \<noteq> exclude \<and> item_hasProperty types t x prop) (tile_items t)"

fun height_loop :: "tile_types \<Rightarrow> tile \<Rightarrow> nat list \<Rightarrow> nat \<Rightarrow> nat \<Rightarrow> bool" where
  "height_loop types t [] n height = False"
| "height_loop types t (x # xs) n height =
     (let h = (if item_hasProperty types t x CONST_PROP_HASHEIGHT then height + 1 else height)
      in if n = h then True else height_loop types t xs n h)"

definition hasHeight :: "tile_types \<Rightarrow> tile \<Rightarrow> nat \<Rightarrow> bool" where
  "hasHeight types t n = (case ground t of
      Some g \<Rightarrow>
        let h = (if item_hasProperty types t g CONST_PROP_HASHEIGHT then 1 else 0)
        in if n = h then True else height_loop types t (tile_items t) n h
    | None \<Rightarrow> height_loop types t (tile_items t) n 0)"

section \<open>Setting and resetting the flags of an item\<close>

definition set_if :: "bool \<times> u32 \<Rightarrow> tile \<Rightarrow> tile" where
  "set_if cf t = (if fst cf then setFlag (snd cf) t else t)"

definition reset_if :: "bool \<times> u32 \<Rightarrow> tile \<Rightarrow> tile" where
  "reset_if cf t = (if fst cf then resetFlag (snd cf) t else t)"

definition flags_to_set :: "tile_types \<Rightarrow> tile \<Rightarrow> nat \<Rightarrow> (bool \<times> u32) list" where
  "flags_to_set types t x = (let has = item_hasProperty types t x; cls = tile_class t x in
     [(\<not> hasFlag TILESTATE_FLOORCHANGE t \<and> tt_floorChange (type_of types t x) \<noteq> 0, tt_floorChange (type_of types t x)),
      (has CONST_PROP_IMMOVABLEBLOCKSOLID, TILESTATE_IMMOVABLEBLOCKSOLID),
      (has CONST_PROP_BLOCKPATH, TILESTATE_BLOCKPATH),
      (has CONST_PROP_NOFIELDBLOCKPATH, TILESTATE_NOFIELDBLOCKPATH),
      (has CONST_PROP_IMMOVABLENOFIELDBLOCKPATH, TILESTATE_IMMOVABLENOFIELDBLOCKPATH),
      (has CONST_PROP_SUPPORTHANGABLE, TILESTATE_SUPPORTS_HANGABLE),
      (cls = TeleportC, TILESTATE_TELEPORT),
      (cls = MagicFieldC, TILESTATE_MAGICFIELD),
      (cls = MailboxC, TILESTATE_MAILBOX),
      (cls = TrashHolderC, TILESTATE_TRASHHOLDER),
      (has CONST_PROP_BLOCKSOLID, TILESTATE_BLOCKSOLID),
      (cls = BedC, TILESTATE_BED),
      (has CONST_PROP_IMMOVABLEBLOCKPATH, TILESTATE_IMMOVABLEBLOCKPATH),
      (has CONST_PROP_MOVABLE, TILESTATE_MOVABLE),
      (has CONST_PROP_ISHORIZONTAL, TILESTATE_ISHORIZONTAL),
      (has CONST_PROP_ISVERTICAL, TILESTATE_ISVERTICAL),
      (has CONST_PROP_BLOCKPROJECTILE, TILESTATE_BLOCKPROJECTILE),
      (has CONST_PROP_HASHEIGHT, TILESTATE_HASHEIGHT),
      (cls = DepotLockerC, TILESTATE_DEPOT),
      (has CONST_PROP_SUPPORTHANGABLE, TILESTATE_SUPPORTS_HANGABLE)])"

definition setTileFlags :: "tile_types \<Rightarrow> nat \<Rightarrow> tile \<Rightarrow> tile" where
  "setTileFlags types x t = fold set_if (flags_to_set types t x) t"

definition flags_to_reset :: "tile_types \<Rightarrow> tile \<Rightarrow> nat \<Rightarrow> (bool \<times> u32) list" where
  "flags_to_reset types t x =
     (let last = (\<lambda>prop. item_hasProperty types t x prop \<and> \<not> others_haveProperty types x prop t); cls = tile_class t x in
     [(tt_floorChange (type_of types t x) \<noteq> 0, TILESTATE_FLOORCHANGE),
      (last CONST_PROP_BLOCKSOLID, TILESTATE_BLOCKSOLID),
      (last CONST_PROP_IMMOVABLEBLOCKSOLID, TILESTATE_IMMOVABLEBLOCKSOLID),
      (last CONST_PROP_BLOCKPATH, TILESTATE_BLOCKPATH),
      (last CONST_PROP_NOFIELDBLOCKPATH, TILESTATE_NOFIELDBLOCKPATH),
      (last CONST_PROP_IMMOVABLEBLOCKPATH, TILESTATE_IMMOVABLEBLOCKPATH),
      (last CONST_PROP_IMMOVABLENOFIELDBLOCKPATH, TILESTATE_IMMOVABLENOFIELDBLOCKPATH),
      (last CONST_PROP_MOVABLE, TILESTATE_MOVABLE),
      (last CONST_PROP_ISHORIZONTAL, TILESTATE_ISHORIZONTAL),
      (last CONST_PROP_ISVERTICAL, TILESTATE_ISVERTICAL),
      (last CONST_PROP_BLOCKPROJECTILE, TILESTATE_BLOCKPROJECTILE),
      (last CONST_PROP_HASHEIGHT, TILESTATE_HASHEIGHT),
      (cls = TeleportC, TILESTATE_TELEPORT),
      (cls = MagicFieldC, TILESTATE_MAGICFIELD),
      (cls = MailboxC, TILESTATE_MAILBOX),
      (cls = TrashHolderC, TILESTATE_TRASHHOLDER),
      (cls = BedC, TILESTATE_BED),
      (cls = DepotLockerC, TILESTATE_DEPOT),
      (item_hasProperty types t x CONST_PROP_SUPPORTHANGABLE, TILESTATE_SUPPORTS_HANGABLE)])"

definition resetTileFlags :: "tile_types \<Rightarrow> nat \<Rightarrow> tile \<Rightarrow> tile" where
  "resetTileFlags types x t = fold reset_if (flags_to_reset types t x) t"

definition updateTileFlags :: "tile_types \<Rightarrow> nat \<Rightarrow> tile \<Rightarrow> tile" where
  "updateTileFlags types x t = setTileFlags types x (resetTileFlags types x t)"

definition setGround :: "tile_types \<Rightarrow> nat option \<Rightarrow> tile \<Rightarrow> tile" where
  "setGround types x t =
     (let t1 = (case ground t of Some g \<Rightarrow> resetTileFlags types g t | None \<Rightarrow> t); t2 = t1\<lparr>ground := x\<rparr>
      in case x of Some g \<Rightarrow> setTileFlags types g t2 | None \<Rightarrow> t2)"

section \<open>Looking for things\<close>

text \<open>The special items: behind the flag, the ground first and then the items from the end of the vector.\<close>

definition class_item :: "u32 \<Rightarrow> item_class \<Rightarrow> bool \<Rightarrow> tile \<Rightarrow> nat option" where
  "class_item flag cls withGround t =
     (if \<not> hasFlag flag t then None
      else if withGround \<and> (case ground t of Some g \<Rightarrow> tile_class t g = cls | None \<Rightarrow> False) then ground t
      else find (\<lambda>x. tile_class t x = cls) (rev (tile_items t)))"

definition getTeleportItem :: "tile \<Rightarrow> nat option" where "getTeleportItem = class_item TILESTATE_TELEPORT TeleportC False"
definition getFieldItem :: "tile \<Rightarrow> nat option" where "getFieldItem = class_item TILESTATE_MAGICFIELD MagicFieldC True"
definition getTrashHolder :: "tile \<Rightarrow> nat option" where "getTrashHolder = class_item TILESTATE_TRASHHOLDER TrashHolderC True"
definition getMailbox :: "tile \<Rightarrow> nat option" where "getMailbox = class_item TILESTATE_MAILBOX MailboxC True"
definition getBedItem :: "tile \<Rightarrow> nat option" where "getBedItem = class_item TILESTATE_BED BedC True"

definition getTopCreature :: "tile \<Rightarrow> nat option" where
  "getTopCreature t = (if tile_creatures t = [] then None else Some (hd (tile_creatures t)))"

definition getBottomCreature :: "tile \<Rightarrow> nat option" where
  "getBottomCreature t = (if tile_creatures t = [] then None else Some (last (tile_creatures t)))"

text \<open>
  The viewer is a creature that sees some creatures, possibly a player with access rights; without a viewer
  the creatures that are not invisible and no player in ghost mode count.
\<close>

record creature_view =
  cv_canSee :: "nat \<Rightarrow> nat \<Rightarrow> bool"
  cv_accessPlayer :: "nat \<Rightarrow> bool"
  cv_invisible :: "nat \<Rightarrow> bool"
  cv_ghostPlayer :: "nat \<Rightarrow> bool"

definition getTopVisibleCreature :: "creature_view \<Rightarrow> nat option \<Rightarrow> tile \<Rightarrow> nat option" where
  "getTopVisibleCreature cv viewer t = (case viewer of
      Some c \<Rightarrow> if cv_accessPlayer cv c then getTopCreature t else find (cv_canSee cv c) (tile_creatures t)
    | None \<Rightarrow> find (\<lambda>x. \<not> cv_invisible cv x \<and> \<not> cv_ghostPlayer cv x) (tile_creatures t))"

definition getBottomVisibleCreature :: "creature_view \<Rightarrow> nat option \<Rightarrow> tile \<Rightarrow> nat option" where
  "getBottomVisibleCreature cv viewer t = (case viewer of
      Some c \<Rightarrow> if cv_accessPlayer cv c then getBottomCreature t else find (cv_canSee cv c) (rev (tile_creatures t))
    | None \<Rightarrow> find (\<lambda>x. \<not> cv_invisible cv x \<and> \<not> cv_ghostPlayer cv x) (rev (tile_creatures t)))"

definition getItemByTopOrder :: "tile_types \<Rightarrow> int \<Rightarrow> tile \<Rightarrow> nat option" where
  "getItemByTopOrder types topOrder t = find (\<lambda>x. uint (tt_alwaysOnTopOrder (type_of types t x)) = topOrder) (rev (topItems t))"

definition getTopVisibleThing :: "tile_types \<Rightarrow> creature_view \<Rightarrow> nat option \<Rightarrow> tile \<Rightarrow> thing option" where
  "getTopVisibleThing types cv viewer t = (case getTopVisibleCreature cv viewer t of
      Some c \<Rightarrow> Some (CreatureThing c)
    | None \<Rightarrow> (case find (\<lambda>x. \<not> tt_lookThrough (type_of types t x)) (downItems t) of
        Some x \<Rightarrow> Some (ItemThing x)
      | None \<Rightarrow> (case find (\<lambda>x. \<not> tt_lookThrough (type_of types t x)) (rev (topItems t)) of
          Some x \<Rightarrow> Some (ItemThing x)
        | None \<Rightarrow> map_option ItemThing (ground t))))"

definition getDoorItem :: "tile_types \<Rightarrow> tile \<Rightarrow> nat option" where
  "getDoorItem types t = (if tile_items t = [] then ground t
     else find (\<lambda>x. it_type (type_of types t x) = ITEM_TYPE_DOOR) (tile_items t))"

section \<open>Indices\<close>

text \<open>A loop that counts the entries it passes and answers at the one it looks for.\<close>

fun count_to :: "nat \<Rightarrow> nat list \<Rightarrow> int \<Rightarrow> int option" where
  "count_to x [] n = None"
| "count_to x (y # ys) n = (if y = x then Some (n + 1) else count_to x ys (n + 1))"

definition tile_getThingIndex :: "tile_types \<Rightarrow> thing \<Rightarrow> tile \<Rightarrow> int" where
  "tile_getThingIndex types th t =
     (if (case ground t of Some g \<Rightarrow> th = ItemThing g | None \<Rightarrow> False) then 0
      else (let n0 = (if ground t = None then -1 else 0) in
        case th of
          ItemThing x \<Rightarrow>
            if isAlwaysOnTop types t x
            then (case count_to x (topItems t) n0 of Some n \<Rightarrow> n | None \<Rightarrow> -1)
            else (case count_to x (downItems t) (n0 + int (getTopItemCount t) + int (length (tile_creatures t))) of
                Some n \<Rightarrow> n | None \<Rightarrow> -1)
        | CreatureThing c \<Rightarrow>
            (case count_to c (tile_creatures t) (n0 + int (getTopItemCount t)) of Some n \<Rightarrow> n | None \<Rightarrow> -1)))"

definition getThing :: "nat \<Rightarrow> tile \<Rightarrow> thing option" where
  "getThing index t =
     (if ground t \<noteq> None \<and> index = 0 then map_option ItemThing (ground t)
      else (let i1 = (if ground t \<noteq> None then index - 1 else index) in
        if i1 < getTopItemCount t then Some (ItemThing (tile_items t ! (downItemCount t + i1)))
        else (let i2 = i1 - getTopItemCount t in
          if i2 < length (tile_creatures t) then Some (CreatureThing (tile_creatures t ! i2))
          else (let i3 = i2 - length (tile_creatures t) in
            if i3 < downItemCount t then Some (ItemThing (tile_items t ! i3)) else None))))"

text \<open>What a client sees: the index of a creature among those it can see, and stack positions below ten.\<close>

fun client_index :: "(nat \<Rightarrow> bool) \<Rightarrow> nat \<Rightarrow> nat list \<Rightarrow> nat \<Rightarrow> int" where
  "client_index see c [] n = -1"
| "client_index see c (y # ys) n = (if y = c then int n else client_index see c ys (if see y then n + 1 else n))"

definition getClientIndexOfCreature :: "(nat \<Rightarrow> bool) \<Rightarrow> nat \<Rightarrow> tile \<Rightarrow> int" where
  "getClientIndexOfCreature see c t = client_index see c (rev (tile_creatures t)) ((if ground t = None then 0 else 1) + getTopItemCount t)"

fun stackpos_creature :: "(nat \<Rightarrow> bool) \<Rightarrow> nat \<Rightarrow> nat list \<Rightarrow> nat \<Rightarrow> int" where
  "stackpos_creature see c [] n = -1"
| "stackpos_creature see c (y # ys) n =
     (if y = c then int n
      else if see y then (if n + 1 \<ge> 10 then -1 else stackpos_creature see c ys (n + 1))
      else stackpos_creature see c ys n)"

definition getStackposOfCreature :: "(nat \<Rightarrow> bool) \<Rightarrow> nat \<Rightarrow> tile \<Rightarrow> int" where
  "getStackposOfCreature see c t = (let n = (if ground t = None then 0 else 1) + getTopItemCount t in
     if n \<ge> 10 then -1 else stackpos_creature see c (rev (tile_creatures t)) n)"

fun stackpos_item :: "nat \<Rightarrow> nat list \<Rightarrow> nat \<Rightarrow> int + nat" where
  "stackpos_item x [] n = Inr n"
| "stackpos_item x (y # ys) n = (if y = x then Inl (int n) else if n + 1 \<ge> 10 then Inl (-1) else stackpos_item x ys (n + 1))"

fun pass_creatures :: "(nat \<Rightarrow> bool) \<Rightarrow> nat list \<Rightarrow> nat \<Rightarrow> nat option" where
  "pass_creatures see [] n = Some n"
| "pass_creatures see (y # ys) n =
     (if see y then (if n + 1 \<ge> 10 then None else pass_creatures see ys (n + 1)) else pass_creatures see ys n)"

definition getStackposOfItem :: "tile_types \<Rightarrow> (nat \<Rightarrow> bool) \<Rightarrow> nat \<Rightarrow> tile \<Rightarrow> int" where
  "getStackposOfItem types see x t =
     (if ground t = Some x then 0
      else (let n = (if ground t = None then 0 else 1) in
        case (if isAlwaysOnTop types t x then stackpos_item x (topItems t) n
              else if n + getTopItemCount t \<ge> 10 then Inl (-1) else Inr (n + getTopItemCount t)) of
          Inl r \<Rightarrow> r
        | Inr n1 \<Rightarrow> (case pass_creatures see (tile_creatures t) n1 of
            None \<Rightarrow> -1
          | Some n2 \<Rightarrow> if isAlwaysOnTop types t x then -1
              else (case stackpos_item x (downItems t) n2 of Inl r \<Rightarrow> r | Inr _ \<Rightarrow> -1))))"

definition tile_getItemTypeCount :: "tile_types \<Rightarrow> u16 \<Rightarrow> int \<Rightarrow> tile \<Rightarrow> u32" where
  "tile_getItemTypeCount types itemId subType t =
     (let count = (\<lambda>x n. if item_id (tile_item t x) = itemId then n + countByType (base_types types) (tile_item t x) subType else n)
      in fold count (tile_items t) (case ground t of Some g \<Rightarrow> count g 0 | None \<Rightarrow> 0))"

definition getUseItem :: "int \<Rightarrow> tile \<Rightarrow> nat option" where
  "getUseItem index t = (if tile_items t = [] then ground t
     else (case (if index < 0 then None else getThing (nat index) t) of Some (ItemThing x) \<Rightarrow> Some x | _ \<Rightarrow> None))"

section \<open>Adding, changing and removing\<close>

definition set_parent :: "thing \<Rightarrow> bool \<Rightarrow> tile \<Rightarrow> tile" where
  "set_parent th b t = t\<lparr>is_parent := (is_parent t)(th := b)\<rparr>"

text \<open>The position of a new item among the ones on top: before the first whose order is not lower, or higher.\<close>

fun insert_top :: "(nat \<Rightarrow> bool) \<Rightarrow> nat \<Rightarrow> nat list \<Rightarrow> nat list" where
  "insert_top stop x [] = [x]"
| "insert_top stop x (y # ys) = (if stop y then x # y # ys else y # insert_top stop x ys)"

definition push_down :: "nat \<Rightarrow> tile \<Rightarrow> tile" where
  "push_down x t = t\<lparr>tile_items := x # tile_items t, downItemCount := downItemCount t + 1\<rparr>"

definition put_top :: "(nat \<Rightarrow> bool) \<Rightarrow> nat \<Rightarrow> tile \<Rightarrow> tile" where
  "put_top stop x t = t\<lparr>tile_items := downItems t @ insert_top stop x (topItems t)\<rparr>"

definition drop_top :: "nat \<Rightarrow> tile \<Rightarrow> tile" where
  "drop_top x t = t\<lparr>tile_items := downItems t @ remove1 x (topItems t)\<rparr>"

definition drop_down :: "nat \<Rightarrow> tile \<Rightarrow> tile" where
  "drop_down x t = t\<lparr>tile_items := remove1 x (downItems t) @ topItems t, downItemCount := downItemCount t - 1\<rparr>"

definition change_tile_item :: "nat \<Rightarrow> (item \<Rightarrow> item) \<Rightarrow> tile \<Rightarrow> tile" where
  "change_tile_item x f t = t\<lparr>tile_item := (tile_item t)(x := f (tile_item t x))\<rparr>"

definition tile_removeThing :: "tile_types \<Rightarrow> thing \<Rightarrow> u32 \<Rightarrow> tile \<Rightarrow> tile" where
  "tile_removeThing types th cnt t = (case th of
      CreatureThing c \<Rightarrow> t\<lparr>tile_creatures := remove1 c (tile_creatures t)\<rparr>
    | ItemThing x \<Rightarrow>
        if tile_getThingIndex types th t = -1 then t
        else if ground t = Some x then resetTileFlags types x ((set_parent th False t)\<lparr>ground := None\<rparr>)
        else if isAlwaysOnTop types t x
        then (if x \<in> set (topItems t) then resetTileFlags types x (drop_top x (set_parent th False t)) else t)
        else if x \<notin> set (downItems t) then t
        else if it_stackable (type_of types t x) \<and> cnt \<noteq> ucast (item_count (tile_item t x))
        then change_tile_item x (setItemCount (ucast (max0 (ucast (item_count (tile_item t x)) - cnt)))) t
        else resetTileFlags types x (drop_down x (set_parent th False t)))"

definition find_splash :: "tile_types \<Rightarrow> tile \<Rightarrow> nat option" where
  "find_splash types t = find (\<lambda>y. it_group (type_of types t y) = ITEM_GROUP_SPLASH) (topItems t)"

definition find_field :: "tile \<Rightarrow> nat option" where
  "find_field t = find (\<lambda>y. tile_class t y = MagicFieldC) (downItems t)"

definition add_ground :: "tile_types \<Rightarrow> nat \<Rightarrow> tile \<Rightarrow> tile" where
  "add_ground types x t = (case ground t of
      None \<Rightarrow> setTileFlags types x (t\<lparr>ground := Some x\<rparr>)
    | Some old \<Rightarrow> setTileFlags types x (resetTileFlags types old ((set_parent (ItemThing old) False t)\<lparr>ground := Some x\<rparr>)))"

definition add_top :: "tile_types \<Rightarrow> nat \<Rightarrow> tile \<Rightarrow> tile" where
  "add_top types x t =
     (let t1 = (case (if it_group (type_of types t x) = ITEM_GROUP_SPLASH then find_splash types t else None) of
          Some old \<Rightarrow> set_parent (ItemThing old) False (tile_removeThing types (ItemThing old) 1 t)
        | None \<Rightarrow> t)
      in setTileFlags types x
        (put_top (\<lambda>y. tt_alwaysOnTopOrder (type_of types t1 x) \<le> tt_alwaysOnTopOrder (type_of types t1 y)) x t1))"

definition add_down :: "tile_types \<Rightarrow> nat \<Rightarrow> tile \<Rightarrow> tile" where
  "add_down types x t =
     (case (if it_type (type_of types t x) = ITEM_TYPE_MAGICFIELD then find_field t else None) of
        None \<Rightarrow> setTileFlags types x (push_down x t)
      | Some old \<Rightarrow>
          if tt_replaceable (type_of types t old)
          then setTileFlags types x (push_down x (set_parent (ItemThing old) False (tile_removeThing types (ItemThing old) 1 t)))
          else set_parent (ItemThing x) False t)"

definition tile_addThing :: "tile_types \<Rightarrow> thing \<Rightarrow> tile \<Rightarrow> tile" where
  "tile_addThing types th t = (case th of
      CreatureThing c \<Rightarrow> (set_parent th True t)\<lparr>tile_creatures := c # tile_creatures t\<rparr>
    | ItemThing x \<Rightarrow>
        if length (tile_items t) \<ge> 0xFFFF then t
        else (let t1 = set_parent th True t in
          if isGroundTile types t x then add_ground types x t1
          else if isAlwaysOnTop types t x then add_top types x t1
          else add_down types x t1))"

definition tile_internalAddThing :: "tile_types \<Rightarrow> thing \<Rightarrow> tile \<Rightarrow> tile" where
  "tile_internalAddThing types th t = (let t1 = set_parent th True t in case th of
      CreatureThing c \<Rightarrow> t1\<lparr>tile_creatures := c # tile_creatures t1\<rparr>
    | ItemThing x \<Rightarrow>
        if isGroundTile types t x then (if ground t = None then setTileFlags types x (t1\<lparr>ground := Some x\<rparr>) else t1)
        else if length (tile_items t) \<ge> 0xFFFF then t1
        else if isAlwaysOnTop types t x
        then setTileFlags types x
          (put_top (\<lambda>y. tt_alwaysOnTopOrder (type_of types t y) > tt_alwaysOnTopOrder (type_of types t x)) x t1)
        else setTileFlags types x (push_down x t1))"

definition tile_updateThing :: "tile_types \<Rightarrow> nat \<Rightarrow> u16 \<Rightarrow> u32 \<Rightarrow> tile \<Rightarrow> tile" where
  "tile_updateThing types x itemId cnt t =
     (if tile_getThingIndex types (ItemThing x) t = -1 then t
      else setTileFlags types x
        (change_tile_item x (\<lambda>i. setSubType (base_types types) (ucast cnt) (setID (base_types types) itemId i))
          (resetTileFlags types x t)))"

text \<open>The index is counted over ground, top items, creatures and down items; on a creature nothing happens.\<close>

definition replace_slot :: "nat \<Rightarrow> nat \<Rightarrow> tile \<Rightarrow> (nat \<times> tile) option" where
  "replace_slot index x t =
     (if ground t \<noteq> None \<and> index = 0 then Some (the (ground t), t\<lparr>ground := Some x\<rparr>)
      else (let pos1 = (if ground t \<noteq> None then index - 1 else index) in
        if pos1 < getTopItemCount t
        then Some (tile_items t ! (downItemCount t + pos1), t\<lparr>tile_items := (tile_items t)[downItemCount t + pos1 := x]\<rparr>)
        else (let pos2 = pos1 - getTopItemCount t in
          if pos2 < length (tile_creatures t) then None
          else (let pos3 = pos2 - length (tile_creatures t) in
            if pos3 < downItemCount t then Some (tile_items t ! pos3, t\<lparr>tile_items := (tile_items t)[pos3 := x]\<rparr>) else None))))"

definition tile_replaceThing :: "tile_types \<Rightarrow> nat \<Rightarrow> nat \<Rightarrow> tile \<Rightarrow> tile" where
  "tile_replaceThing types index x t = (case replace_slot index x t of
      None \<Rightarrow> t
    | Some (old, t1) \<Rightarrow>
        set_parent (ItemThing old) False (setTileFlags types x (resetTileFlags types old (set_parent (ItemThing x) True t1))))"

section \<open>Index and lookup\<close>

definition things_on :: "tile \<Rightarrow> nat set" where
  "things_on t = set_option (ground t) \<union> set (tile_items t)"

definition tile_ok :: "tile_types \<Rightarrow> tile \<Rightarrow> bool" where
  "tile_ok types t \<longleftrightarrow> downItemCount t \<le> length (tile_items t) \<and> distinct (tile_items t) \<and> distinct (tile_creatures t)
     \<and> (case ground t of Some g \<Rightarrow> g \<notin> set (tile_items t) | None \<Rightarrow> True)
     \<and> list_all (\<lambda>x. \<not> isAlwaysOnTop types t x) (downItems t) \<and> list_all (isAlwaysOnTop types t) (topItems t)"

definition is_on :: "thing \<Rightarrow> tile \<Rightarrow> bool" where
  "is_on th t \<longleftrightarrow> (case th of ItemThing x \<Rightarrow> x \<in> things_on t | CreatureThing c \<Rightarrow> c \<in> set (tile_creatures t))"

lemma index_of_Some: "index_of x xs = Some i \<Longrightarrow> i < length xs \<and> xs ! i = x"
  by (induction xs arbitrary: i) (auto split: if_splits)

lemma index_of_in: "x \<in> set xs \<Longrightarrow> \<exists>i. index_of x xs = Some i"
  by (cases "index_of x xs") auto

lemma index_at_nth: "distinct xs \<Longrightarrow> i < length xs \<Longrightarrow> index_of (xs ! i) xs = Some i"
proof (induction xs arbitrary: i)
  case (Cons y xs)
  then show ?case by (cases i) auto
qed simp

lemma count_to_index: "count_to x xs n = map_option (\<lambda>i. n + 1 + int i) (index_of x xs)"
  by (induction xs arbitrary: n) (auto simp: option.map_comp comp_def add.assoc)

lemma split_items: "tile_items t = downItems t @ topItems t"
  by (simp add: downItems_def topItems_def)

lemma set_items: "set (tile_items t) = set (downItems t) \<union> set (topItems t)"
  by (subst split_items) simp

lemma part_lengths: "tile_ok types t \<Longrightarrow> length (downItems t) = downItemCount t" "length (topItems t) = getTopItemCount t"
  by (simp_all add: tile_ok_def downItems_def topItems_def getTopItemCount_def)

lemma nth_parts:
  "tile_ok types t \<Longrightarrow> i < downItemCount t \<Longrightarrow> tile_items t ! i = downItems t ! i"
  "tile_ok types t \<Longrightarrow> tile_items t ! (downItemCount t + i) = topItems t ! i"
  by (simp_all add: downItems_def topItems_def tile_ok_def)

lemma on_top_iff: "tile_ok types t \<Longrightarrow> x \<in> set (tile_items t) \<Longrightarrow> isAlwaysOnTop types t x \<longleftrightarrow> x \<in> set (topItems t)"
  by (auto simp: tile_ok_def list_all_iff set_items)

lemma distinct_parts: "tile_ok types t \<Longrightarrow> distinct (downItems t)" "tile_ok types t \<Longrightarrow> distinct (topItems t)"
  "tile_ok types t \<Longrightarrow> set (downItems t) \<inter> set (topItems t) = {}"
  using distinct_append [of "downItems t" "topItems t"] split_items [of t] by (auto simp: tile_ok_def)

lemma index_to_thing:
  assumes ok: "tile_ok types t" and on: "is_on th t"
  shows "0 \<le> tile_getThingIndex types th t \<and> getThing (nat (tile_getThingIndex types th t)) t = Some th"
proof (cases "case ground t of Some g \<Rightarrow> th = ItemThing g | None \<Rightarrow> False")
  case True
  then show ?thesis by (auto simp: tile_getThingIndex_def getThing_def split: option.splits)
next
  case False
  have lens: "length (topItems t) = getTopItemCount t" "length (downItems t) = downItemCount t" using part_lengths(1) [OF ok] part_lengths(2) by auto
  show ?thesis
  proof (cases th)
    case (CreatureThing c)
    then have "c \<in> set (tile_creatures t)" using on by (simp add: is_on_def)
    then obtain i where i: "index_of c (tile_creatures t) = Some i" using index_of_in by blast
    then show ?thesis using index_of_Some [OF i] CreatureThing False
      by (cases "ground t") (auto simp: tile_getThingIndex_def getThing_def count_to_index nat_add_distrib nat_int_add)
  next
    case (ItemThing x)
    then have x: "x \<in> set (tile_items t)" using on False by (auto simp: is_on_def things_on_def split: option.splits)
    show ?thesis
    proof (cases "isAlwaysOnTop types t x")
      case True
      then have "x \<in> set (topItems t)" using on_top_iff [OF ok x] by simp
      then obtain i where i: "index_of x (topItems t) = Some i" using index_of_in by blast
      then show ?thesis using index_of_Some [OF i] ItemThing False True lens nth_parts(2) [OF ok]
        by (cases "ground t") (auto simp: tile_getThingIndex_def getThing_def count_to_index nat_add_distrib nat_int_add)
    next
      case top: False
      then have "x \<in> set (downItems t)" using on_top_iff [OF ok x] x by (auto simp: set_items)
      then obtain i where i: "index_of x (downItems t) = Some i" using index_of_in by blast
      then show ?thesis using index_of_Some [OF i] ItemThing False top lens nth_parts(1) [OF ok]
        by (cases "ground t") (auto simp: tile_getThingIndex_def getThing_def count_to_index nat_add_distrib nat_int_add)
    qed
  qed
qed

lemma thing_to_index:
  assumes ok: "tile_ok types t" and i: "i < getThingCount t"
  shows "\<exists>th. getThing i t = Some th \<and> is_on th t \<and> tile_getThingIndex types th t = int i"
proof -
  have lens: "length (topItems t) = getTopItemCount t" "length (downItems t) = downItemCount t" using part_lengths(1) [OF ok] part_lengths(2) by auto
  have dc: "distinct (tile_creatures t)" using ok by (simp add: tile_ok_def)
  have g: "ground t = Some g \<Longrightarrow> g \<notin> set (tile_items t)" for g using ok by (simp add: tile_ok_def)
  define i1 where "i1 = (if ground t \<noteq> None then i - 1 else i)"
  define o1 where "o1 = (if ground t \<noteq> None then 1 else 0 :: nat)"
  show ?thesis
  proof (cases "ground t \<noteq> None \<and> i = 0")
    case True
    then show ?thesis by (auto simp: getThing_def tile_getThingIndex_def is_on_def things_on_def)
  next
    case False
    then have i1: "i = i1 + o1" by (auto simp: i1_def o1_def)
    consider "i1 < getTopItemCount t"
      | "getTopItemCount t \<le> i1" "i1 - getTopItemCount t < length (tile_creatures t)"
      | "getTopItemCount t \<le> i1" "length (tile_creatures t) \<le> i1 - getTopItemCount t" by linarith
    then show ?thesis
    proof cases
      case 1
      let ?x = "topItems t ! i1"
      have x: "?x \<in> set (topItems t)" using 1 lens by simp
      then have x': "?x \<in> set (tile_items t)" by (simp add: set_items)
      have "getThing i t = Some (ItemThing ?x)" using False 1 nth_parts(2) [OF ok, of i1] by (auto simp: getThing_def i1_def)
      moreover have "index_of ?x (topItems t) = Some i1" using index_at_nth [OF distinct_parts(2) [OF ok]] 1 lens by simp
      then have "tile_getThingIndex types (ItemThing ?x) t = int i"
        using on_top_iff [OF ok x'] x g x' by (cases "ground t") (auto simp: tile_getThingIndex_def count_to_index i1 o1_def)
      ultimately show ?thesis using x' by (auto simp: is_on_def things_on_def)
    next
      case 2
      let ?k = "i1 - getTopItemCount t" let ?c = "tile_creatures t ! ?k"
      have "getThing i t = Some (CreatureThing ?c)" using False 2 by (auto simp: getThing_def i1_def Let_def)
      moreover have "index_of ?c (tile_creatures t) = Some ?k" using index_at_nth [OF dc] 2 by simp
      then have "tile_getThingIndex types (CreatureThing ?c) t = int i"
        using 2 by (cases "ground t") (auto simp: tile_getThingIndex_def count_to_index i1 o1_def)
      ultimately show ?thesis using 2 by (auto simp: is_on_def)
    next
      case 3
      let ?k = "i1 - getTopItemCount t - length (tile_creatures t)" let ?x = "downItems t ! ?k"
      have k: "?k < downItemCount t"
        using i i1 3 ok by (auto simp: getThingCount_def getTopItemCount_def o1_def tile_ok_def split: if_splits)
      then have x: "?x \<in> set (downItems t)" using lens by simp
      then have x': "?x \<in> set (tile_items t)" by (simp add: set_items)
      have "getThing i t = Some (ItemThing ?x)"
        using False 3 k nth_parts(1) [OF ok k] by (auto simp: getThing_def i1_def Let_def)
      moreover have "index_of ?x (downItems t) = Some ?k" using index_at_nth [OF distinct_parts(1) [OF ok]] k lens by simp
      moreover have "\<not> isAlwaysOnTop types t ?x" using on_top_iff [OF ok x'] distinct_parts(3) [OF ok] x by auto
      ultimately have "getThing i t = Some (ItemThing ?x)" "tile_getThingIndex types (ItemThing ?x) t = int i"
        using 3 g x' by (cases "ground t"; auto simp: tile_getThingIndex_def count_to_index i1 o1_def)+
      then show ?thesis using x' by (auto simp: is_on_def things_on_def)
    qed
  qed
qed

section \<open>The flags agree with the items\<close>

definition property_bit :: "item_property \<Rightarrow> nat" where
  "property_bit p = (case p of
        CONST_PROP_BLOCKSOLID \<Rightarrow> 17 | CONST_PROP_BLOCKPATH \<Rightarrow> 18 | CONST_PROP_IMMOVABLEBLOCKSOLID \<Rightarrow> 19
      | CONST_PROP_IMMOVABLEBLOCKPATH \<Rightarrow> 20 | CONST_PROP_IMMOVABLENOFIELDBLOCKPATH \<Rightarrow> 21
      | CONST_PROP_NOFIELDBLOCKPATH \<Rightarrow> 22 | CONST_PROP_SUPPORTHANGABLE \<Rightarrow> 23 | CONST_PROP_MOVABLE \<Rightarrow> 24
      | CONST_PROP_ISHORIZONTAL \<Rightarrow> 25 | CONST_PROP_ISVERTICAL \<Rightarrow> 26 | CONST_PROP_BLOCKPROJECTILE \<Rightarrow> 27
      | CONST_PROP_HASHEIGHT \<Rightarrow> 28)"

lemma property_flag_bit: "property_flag p = flag_bit (property_bit p)"
  by (cases p) (simp_all add: property_flag_def property_bit_def TILESTATE_defs)

lemma bit_one_flag: "k < 32 \<Longrightarrow> bit (flag_bit k) n \<longleftrightarrow> n = k"
  unfolding flag_bit_def bit_push_bit_iff by (auto simp: bit_1_iff)

lemma has_one_flag: "k < 32 \<Longrightarrow> hasFlag (flag_bit k) t \<longleftrightarrow> bit (tile_flags t) k"
proof -
  assume k: "k < 32"
  have b: "bit (tile_flags t AND flag_bit k) n \<longleftrightarrow> n = k \<and> bit (tile_flags t) k" for n
    using k bit_one_flag [OF k, of n] by (auto simp: bit_and_iff)
  show ?thesis unfolding hasFlag_def hasBitSet_def
  proof
    assume "tile_flags t AND flag_bit k \<noteq> 0"
    then show "bit (tile_flags t) k" using b by (metis bit_eqI bit_0_eq bot_apply bot_bool_def)
  next
    assume "bit (tile_flags t) k"
    then have "bit (tile_flags t AND flag_bit k) k" using b by simp
    then show "tile_flags t AND flag_bit k \<noteq> 0" by auto
  qed
qed

lemma property_bit_less: "property_bit p < 32" "7 \<le> property_bit p"
  by (cases p; simp add: property_bit_def)+

lemma tile_hasProperty_bit: "tile_hasProperty p t \<longleftrightarrow> bit (tile_flags t) (property_bit p)"
  by (simp add: tile_hasProperty_def property_flag_bit has_one_flag property_bit_less(1))

lemma flag_ops_fields [simp]:
  "tile_items (setFlag f t) = tile_items t" "ground (setFlag f t) = ground t" "downItemCount (setFlag f t) = downItemCount t"
  "tile_creatures (setFlag f t) = tile_creatures t" "tile_item (setFlag f t) = tile_item t" "tile_class (setFlag f t) = tile_class t"
  "is_parent (setFlag f t) = is_parent t"
  "tile_items (resetFlag f t) = tile_items t" "ground (resetFlag f t) = ground t" "downItemCount (resetFlag f t) = downItemCount t"
  "tile_creatures (resetFlag f t) = tile_creatures t" "tile_item (resetFlag f t) = tile_item t" "tile_class (resetFlag f t) = tile_class t"
  "is_parent (resetFlag f t) = is_parent t"
  by (simp_all add: setFlag_def resetFlag_def)

definition same_but_flags :: "tile \<Rightarrow> tile \<Rightarrow> bool" where
  "same_but_flags t u \<longleftrightarrow> tile_items u = tile_items t \<and> ground u = ground t \<and> downItemCount u = downItemCount t
     \<and> tile_creatures u = tile_creatures t \<and> tile_item u = tile_item t \<and> tile_class u = tile_class t \<and> is_parent u = is_parent t"

lemma fold_set_same: "same_but_flags t (fold set_if cfs t)"
  by (induction cfs arbitrary: t) (auto simp: same_but_flags_def set_if_def)

lemma fold_reset_same: "same_but_flags t (fold reset_if cfs t)"
  by (induction cfs arbitrary: t) (auto simp: same_but_flags_def reset_if_def)

lemma flags_fields [simp]:
  "tile_items (setTileFlags types x t) = tile_items t" "ground (setTileFlags types x t) = ground t"
  "downItemCount (setTileFlags types x t) = downItemCount t" "tile_creatures (setTileFlags types x t) = tile_creatures t"
  "tile_item (setTileFlags types x t) = tile_item t" "tile_class (setTileFlags types x t) = tile_class t"
  "is_parent (setTileFlags types x t) = is_parent t"
  "tile_items (resetTileFlags types x t) = tile_items t" "ground (resetTileFlags types x t) = ground t"
  "downItemCount (resetTileFlags types x t) = downItemCount t" "tile_creatures (resetTileFlags types x t) = tile_creatures t"
  "tile_item (resetTileFlags types x t) = tile_item t" "tile_class (resetTileFlags types x t) = tile_class t"
  "is_parent (resetTileFlags types x t) = is_parent t"
  using fold_set_same [of t "flags_to_set types t x"] fold_reset_same [of t "flags_to_reset types t x"]
  by (simp_all add: setTileFlags_def resetTileFlags_def same_but_flags_def)

lemma set_if_bit: "bit (tile_flags (set_if cf t)) n \<longleftrightarrow> bit (tile_flags t) n \<or> (fst cf \<and> bit (snd cf) n)"
  by (simp add: set_if_def setFlag_def bit_or_iff)

lemma reset_if_bit: "n < 32 \<Longrightarrow> bit (tile_flags (reset_if cf t)) n \<longleftrightarrow> bit (tile_flags t) n \<and> \<not> (fst cf \<and> bit (snd cf) n)"
  by (simp add: reset_if_def resetFlag_def bit_and_iff bit_not_iff)

lemma fold_set_bit:
  "bit (tile_flags (fold set_if cfs t)) n \<longleftrightarrow> bit (tile_flags t) n \<or> list_ex (\<lambda>cf. fst cf \<and> bit (snd cf) n) cfs"
  by (induction cfs arbitrary: t) (simp_all add: set_if_bit disj_assoc)

lemma fold_reset_bit:
  "n < 32 \<Longrightarrow> bit (tile_flags (fold reset_if cfs t)) n \<longleftrightarrow> bit (tile_flags t) n \<and> \<not> list_ex (\<lambda>cf. fst cf \<and> bit (snd cf) n) cfs"
  by (induction cfs arbitrary: t) (simp_all add: reset_if_bit conj_assoc)

text \<open>The floor change of a type consists of the floor change flags, as the loader of the types sees to it.\<close>

definition floor_changes_ok :: "tile_types \<Rightarrow> bool" where
  "floor_changes_ok types \<longleftrightarrow> (\<forall>n. take_bit 7 (tt_floorChange (types n)) = tt_floorChange (types n))"

lemma floor_change_bit: "floor_changes_ok types \<Longrightarrow> 7 \<le> n \<Longrightarrow> \<not> bit (tt_floorChange (type_of types t x)) n"
  unfolding floor_changes_ok_def type_of_def by (metis bit_take_bit_iff not_less)

lemma set_prop:
  "floor_changes_ok types \<Longrightarrow>
   tile_hasProperty p (setTileFlags types x t) \<longleftrightarrow> tile_hasProperty p t \<or> item_hasProperty types t x p"
  unfolding tile_hasProperty_bit setTileFlags_def fold_set_bit
  using floor_change_bit [of types "property_bit p" t x] property_bit_less(2) [of p]
  by (cases p) (auto simp: flags_to_set_def Let_def TILESTATE_defs bit_one_flag property_bit_def)

lemma reset_prop:
  "p \<noteq> CONST_PROP_SUPPORTHANGABLE \<Longrightarrow> tile_hasProperty p (resetTileFlags types x t) \<longleftrightarrow>
   tile_hasProperty p t \<and> \<not> (item_hasProperty types t x p \<and> \<not> others_haveProperty types x p t)"
  unfolding tile_hasProperty_bit resetTileFlags_def fold_reset_bit [OF property_bit_less(1)]
  by (cases p) (auto simp: flags_to_reset_def Let_def TILESTATE_defs TILESTATE_FLOORCHANGE_def bit_or_iff bit_one_flag property_bit_def)

text \<open>\<open>flags_of\<close> are the properties the tile claims, \<open>props\<close> those the things in a set have.\<close>

definition flags_of :: "tile \<Rightarrow> item_property set" where
  "flags_of t = {p. p \<noteq> CONST_PROP_SUPPORTHANGABLE \<and> tile_hasProperty p t}"

definition props :: "tile_types \<Rightarrow> tile \<Rightarrow> nat set \<Rightarrow> item_property set" where
  "props types t S = {p. p \<noteq> CONST_PROP_SUPPORTHANGABLE \<and> (\<exists>x. x \<in> S \<and> item_hasProperty types t x p)}"

definition flags_agree :: "tile_types \<Rightarrow> tile \<Rightarrow> bool" where
  "flags_agree types t \<longleftrightarrow> flags_of t = props types t (things_on t)"

lemma others_props: "others_haveProperty types x p t \<longleftrightarrow> (\<exists>y. y \<in> things_on t - {x} \<and> item_hasProperty types t y p)"
  by (auto simp: others_haveProperty_def things_on_def list_ex_iff split: option.split)

lemma flags_of_set: "floor_changes_ok types \<Longrightarrow> flags_of (setTileFlags types x t) = flags_of t \<union> props types t {x}"
  using set_prop [of types _ x t] by (auto simp: flags_of_def props_def)

lemma flags_of_reset: "flags_of (resetTileFlags types x t) = flags_of t - (props types t {x} - props types t (things_on t - {x}))"
  using reset_prop [of _ types x t] by (auto simp: flags_of_def props_def others_props)

lemma item_hasProperty_cong: "tile_item t x = tile_item u x \<Longrightarrow> item_hasProperty types t x = item_hasProperty types u x"
  by (simp add: item_hasProperty_def type_of_def fun_eq_iff cong: item_property.case_cong)

lemma props_cong: "(\<And>x. x \<in> S \<Longrightarrow> tile_item t x = tile_item u x) \<Longrightarrow> props types t S = props types u S"
  unfolding props_def using item_hasProperty_cong by (metis (mono_tags, lifting))

lemma props_Un: "props types t (A \<union> B) = props types t A \<union> props types t B"
  by (auto simp: props_def)

text \<open>An item that came in, and one that went.\<close>

lemma flags_agree_add:
  assumes fc: "floor_changes_ok types" and old: "flags_of u = props types u (things_on u - {x})" and on: "x \<in> things_on u"
  shows "flags_agree types (setTileFlags types x u)"
proof -
  have "things_on u = things_on u - {x} \<union> {x}" using on by auto
  then have "props types u (things_on u) = props types u (things_on u - {x}) \<union> props types u {x}" by (metis props_Un)
  moreover have "things_on (setTileFlags types x u) = things_on u" by (simp add: things_on_def)
  moreover have "props types (setTileFlags types x u) S = props types u S" for S by (rule props_cong) simp
  ultimately show ?thesis by (simp add: flags_agree_def flags_of_set [OF fc] old)
qed

lemma flags_after_reset:
  assumes "flags_of u = props types u (insert x (things_on u))"
  shows "flags_of (resetTileFlags types x u) = props types u (things_on u - {x})"
proof -
  have "insert x (things_on u) = {x} \<union> (things_on u - {x})" by auto
  then have "flags_of u = props types u {x} \<union> props types u (things_on u - {x})" using assms by (simp only: props_Un)
  then show ?thesis by (auto simp: flags_of_reset)
qed

lemma flags_agree_remove:
  assumes "flags_of u = props types u (insert x (things_on u))" and "x \<notin> things_on u"
  shows "flags_agree types (resetTileFlags types x u)"
proof -
  have "things_on (resetTileFlags types x u) = things_on u" by (simp add: things_on_def)
  moreover have "props types (resetTileFlags types x u) S = props types u S" for S by (rule props_cong) simp
  ultimately show ?thesis using flags_after_reset [OF assms(1)] assms(2) by (simp add: flags_agree_def)
qed

section \<open>The operations keep the tile in order\<close>

lemma tile_okI:
  assumes "tile_items u = ds @ ts" "downItemCount u = length ds" "distinct (ds @ ts)" "distinct (tile_creatures u)"
    "\<And>g. ground u = Some g \<Longrightarrow> g \<notin> set (ds @ ts)" "\<And>x. x \<in> set ds \<Longrightarrow> \<not> isAlwaysOnTop types u x"
    "\<And>x. x \<in> set ts \<Longrightarrow> isAlwaysOnTop types u x"
  shows "tile_ok types u"
  using assms by (auto simp: tile_ok_def downItems_def topItems_def list_all_iff split: option.split)

lemma tile_okD:
  assumes "tile_ok types t"
  shows "distinct (downItems t @ topItems t)" "downItemCount t = length (downItems t)" "distinct (tile_creatures t)"
    "ground t = Some g \<Longrightarrow> g \<notin> set (downItems t @ topItems t)" "x \<in> set (downItems t) \<Longrightarrow> \<not> isAlwaysOnTop types t x"
    "x \<in> set (topItems t) \<Longrightarrow> isAlwaysOnTop types t x"
proof -
  have e: "downItems t @ topItems t = tile_items t" by (simp only: split_items [symmetric])
  show "distinct (downItems t @ topItems t)" "downItemCount t = length (downItems t)" "distinct (tile_creatures t)"
    "ground t = Some g \<Longrightarrow> g \<notin> set (downItems t @ topItems t)" "x \<in> set (downItems t) \<Longrightarrow> \<not> isAlwaysOnTop types t x"
    "x \<in> set (topItems t) \<Longrightarrow> isAlwaysOnTop types t x"
    unfolding e using assms by (simp_all add: tile_ok_def list_all_iff part_lengths(1) [OF assms])
qed

lemma onTop_cong: "tile_item t x = tile_item u x \<Longrightarrow> isAlwaysOnTop types t x = isAlwaysOnTop types u x"
  by (simp add: isAlwaysOnTop_def type_of_def)

text \<open>A tile that differs in flags and parents only is in order as well.\<close>

lemma tile_ok_cong:
  "tile_items u = tile_items t \<Longrightarrow> downItemCount u = downItemCount t \<Longrightarrow> tile_creatures u = tile_creatures t \<Longrightarrow>
   ground u = ground t \<Longrightarrow> tile_item u = tile_item t \<Longrightarrow> tile_ok types u = tile_ok types t"
proof -
  assume a: "tile_items u = tile_items t" "downItemCount u = downItemCount t" "tile_creatures u = tile_creatures t"
    "ground u = ground t" "tile_item u = tile_item t"
  then have "isAlwaysOnTop types u = isAlwaysOnTop types t" by (simp add: fun_eq_iff isAlwaysOnTop_def type_of_def)
  then show ?thesis by (simp add: tile_ok_def downItems_def topItems_def a cong: option.case_cong)
qed

lemma tile_ok_flags [simp]:
  "tile_ok types (setTileFlags ty x t) = tile_ok types t" "tile_ok types (resetTileFlags ty x t) = tile_ok types t"
  "tile_ok types (set_parent th b t) = tile_ok types t"
  using tile_ok_cong [of "setTileFlags ty x t" t types] tile_ok_cong [of "resetTileFlags ty x t" t types]
    tile_ok_cong [of "set_parent th b t" t types]
  by (simp_all add: set_parent_def)

lemma set_insert_top [simp]: "set (insert_top stop x ys) = insert x (set ys)"
  by (induction ys) auto

lemma distinct_insert_top [simp]: "distinct (insert_top stop x ys) \<longleftrightarrow> x \<notin> set ys \<and> distinct ys"
  by (induction ys) auto

lemma set_parent_fields [simp]:
  "tile_items (set_parent th b t) = tile_items t" "ground (set_parent th b t) = ground t"
  "downItemCount (set_parent th b t) = downItemCount t" "tile_creatures (set_parent th b t) = tile_creatures t"
  "tile_item (set_parent th b t) = tile_item t" "tile_flags (set_parent th b t) = tile_flags t"
  "tile_class (set_parent th b t) = tile_class t"
  by (simp_all add: set_parent_def)

lemma parts_cong:
  "tile_items u = tile_items t \<Longrightarrow> downItemCount u = downItemCount t \<Longrightarrow> downItems u = downItems t \<and> topItems u = topItems t"
  by (simp add: downItems_def topItems_def)

lemma push_down_ok:
  assumes ok: "tile_ok types t" and x: "x \<notin> things_on t" "\<not> isAlwaysOnTop types t x"
  shows "tile_ok types (push_down x t)"
proof (rule tile_okI [of _ "x # downItems t" "topItems t"])
  note d = tile_okD [OF ok]
  show "tile_items (push_down x t) = (x # downItems t) @ topItems t" using split_items [of t] by (simp add: push_down_def)
  show "downItemCount (push_down x t) = length (x # downItems t)" using d(2) by (simp add: push_down_def)
  have n: "x \<notin> set (downItems t @ topItems t)" using x(1) split_items [of t] by (simp add: things_on_def)
  then show "distinct ((x # downItems t) @ topItems t)" using d(1) by simp
  show "distinct (tile_creatures (push_down x t))" using d(3) by (simp add: push_down_def)
  show "g \<notin> set ((x # downItems t) @ topItems t)" if "ground (push_down x t) = Some g" for g
    using d(4) [of g] x(1) that by (auto simp: push_down_def things_on_def)
  show "\<not> isAlwaysOnTop types (push_down x t) y" if "y \<in> set (x # downItems t)" for y
    using d(5) [of y] x(2) that onTop_cong [of "push_down x t" y t types] by (auto simp: push_down_def)
  show "isAlwaysOnTop types (push_down x t) y" if "y \<in> set (topItems t)" for y
    using d(6) [of y] that onTop_cong [of "push_down x t" y t types] by (auto simp: push_down_def)
qed

lemma put_top_ok:
  assumes ok: "tile_ok types t" and x: "x \<notin> things_on t" "isAlwaysOnTop types t x"
  shows "tile_ok types (put_top stop x t)"
proof (rule tile_okI [of _ "downItems t" "insert_top stop x (topItems t)"])
  note d = tile_okD [OF ok]
  show "tile_items (put_top stop x t) = downItems t @ insert_top stop x (topItems t)" by (simp add: put_top_def)
  show "downItemCount (put_top stop x t) = length (downItems t)" using d(2) by (simp add: put_top_def)
  have n: "x \<notin> set (downItems t @ topItems t)" using x(1) split_items [of t] by (simp add: things_on_def)
  then show "distinct (downItems t @ insert_top stop x (topItems t))" using d(1) by simp
  show "distinct (tile_creatures (put_top stop x t))" using d(3) by (simp add: put_top_def)
  show "g \<notin> set (downItems t @ insert_top stop x (topItems t))" if "ground (put_top stop x t) = Some g" for g
    using d(4) [of g] x(1) that by (auto simp: put_top_def things_on_def)
  show "\<not> isAlwaysOnTop types (put_top stop x t) y" if "y \<in> set (downItems t)" for y
    using d(5) [of y] that onTop_cong [of "put_top stop x t" y t types] by (auto simp: put_top_def)
  show "isAlwaysOnTop types (put_top stop x t) y" if "y \<in> set (insert_top stop x (topItems t))" for y
    using d(6) [of y] x(2) that onTop_cong [of "put_top stop x t" y t types] by (auto simp: put_top_def)
qed

lemma drop_top_ok: "tile_ok types t \<Longrightarrow> tile_ok types (drop_top x t)"
proof (rule tile_okI [of _ "downItems t" "remove1 x (topItems t)"])
  assume ok: "tile_ok types t"
  note d = tile_okD [OF ok]
  show "tile_items (drop_top x t) = downItems t @ remove1 x (topItems t)" by (simp add: drop_top_def)
  show "downItemCount (drop_top x t) = length (downItems t)" using d(2) by (simp add: drop_top_def)
  show "distinct (downItems t @ remove1 x (topItems t))" using d(1) by (auto dest: notin_set_remove1)
  show "distinct (tile_creatures (drop_top x t))" using d(3) by (simp add: drop_top_def)
  show "g \<notin> set (downItems t @ remove1 x (topItems t))" if "ground (drop_top x t) = Some g" for g
    using d(4) [of g] that by (auto simp: drop_top_def dest: notin_set_remove1)
  show "\<not> isAlwaysOnTop types (drop_top x t) y" if "y \<in> set (downItems t)" for y
    using d(5) [of y] that onTop_cong [of "drop_top x t" y t types] by (auto simp: drop_top_def)
  show "isAlwaysOnTop types (drop_top x t) y" if "y \<in> set (remove1 x (topItems t))" for y
    using d(6) [of y] that onTop_cong [of "drop_top x t" y t types] by (auto simp: drop_top_def dest: notin_set_remove1)
qed

lemma drop_down_ok: "tile_ok types t \<Longrightarrow> x \<in> set (downItems t) \<Longrightarrow> tile_ok types (drop_down x t)"
proof (rule tile_okI [of _ "remove1 x (downItems t)" "topItems t"])
  assume ok: "tile_ok types t" and x: "x \<in> set (downItems t)"
  note d = tile_okD [OF ok]
  show "tile_items (drop_down x t) = remove1 x (downItems t) @ topItems t" by (simp add: drop_down_def)
  show "downItemCount (drop_down x t) = length (remove1 x (downItems t))" using d(2) x by (simp add: drop_down_def length_remove1)
  show "distinct (remove1 x (downItems t) @ topItems t)" using d(1) by (auto dest: notin_set_remove1)
  show "distinct (tile_creatures (drop_down x t))" using d(3) by (simp add: drop_down_def)
  show "g \<notin> set (remove1 x (downItems t) @ topItems t)" if "ground (drop_down x t) = Some g" for g
    using d(4) [of g] that by (auto simp: drop_down_def dest: notin_set_remove1)
  show "\<not> isAlwaysOnTop types (drop_down x t) y" if "y \<in> set (remove1 x (downItems t))" for y
    using d(5) [of y] that onTop_cong [of "drop_down x t" y t types] by (auto simp: drop_down_def dest: notin_set_remove1)
  show "isAlwaysOnTop types (drop_down x t) y" if "y \<in> set (topItems t)" for y
    using d(6) [of y] that onTop_cong [of "drop_down x t" y t types] by (auto simp: drop_down_def)
qed

lemma things_on_ops:
  "things_on (push_down x t) = insert x (things_on t)" "things_on (put_top stop x t) = insert x (things_on t)"
  "things_on (set_parent th b t) = things_on t" "things_on (setTileFlags types y t) = things_on t"
  "things_on (resetTileFlags types y t) = things_on t"
  using set_items [of t] by (auto simp: things_on_def push_down_def put_top_def)

lemma things_on_drop:
  assumes ok: "tile_ok types t" and g: "ground t \<noteq> Some x"
  shows "x \<in> set (topItems t) \<Longrightarrow> things_on (drop_top x t) = things_on t - {x}"
    and "x \<in> set (downItems t) \<Longrightarrow> things_on (drop_down x t) = things_on t - {x}"
  using tile_okD(1) [OF ok] g set_items [of t] by (auto simp: things_on_def drop_top_def drop_down_def)

definition tile_good :: "tile_types \<Rightarrow> tile \<Rightarrow> bool" where
  "tile_good types t \<longleftrightarrow> tile_ok types t \<and> flags_agree types t"

lemma same_flags:
  "tile_item u = tile_item t \<Longrightarrow> tile_flags u = tile_flags t \<Longrightarrow> flags_of u = flags_of t \<and> props types u S = props types t S"
  using props_cong [of S u t types] by (simp add: flags_of_def tile_hasProperty_def hasFlag_def)

lemma good_set:
  assumes fc: "floor_changes_ok types" and g: "tile_good types t" and u: "tile_item u = tile_item t" "tile_flags u = tile_flags t"
    and ok: "tile_ok types u" and on: "things_on u = insert x (things_on t)" and x: "x \<notin> things_on t"
  shows "tile_good types (setTileFlags types x u)"
proof -
  have "flags_of u = props types u (things_on u - {x})"
    using g same_flags [OF u] x by (simp add: tile_good_def flags_agree_def on)
  then have "flags_agree types (setTileFlags types x u)" by (rule flags_agree_add [OF fc]) (simp add: on)
  then show ?thesis using ok by (simp add: tile_good_def)
qed

lemma good_reset:
  assumes g: "tile_good types t" and u: "tile_item u = tile_item t" "tile_flags u = tile_flags t"
    and ok: "tile_ok types u" and on: "things_on t = insert x (things_on u)" and x: "x \<notin> things_on u"
  shows "tile_good types (resetTileFlags types x u)"
proof -
  have "flags_of u = props types u (insert x (things_on u))"
    using g same_flags [OF u] by (simp add: tile_good_def flags_agree_def on)
  then have "flags_agree types (resetTileFlags types x u)" using x by (rule flags_agree_remove)
  then show ?thesis using ok by (simp add: tile_good_def)
qed

lemma good_exchange:
  assumes fc: "floor_changes_ok types" and g: "tile_good types t" and u: "tile_item u = tile_item t" "tile_flags u = tile_flags t"
    and ok: "tile_ok types u" and on: "things_on t = insert old B" "things_on u = insert x B" and new: "old \<notin> insert x B" "x \<notin> B"
  shows "tile_good types (setTileFlags types x (resetTileFlags types old u))"
proof -
  let ?r = "resetTileFlags types old u"
  have p: "props types ?r S = props types u S" for S by (rule props_cong) simp
  have f: "flags_of u = props types u {old} \<union> props types u B"
    using g same_flags [OF u] props_Un [of types t "{old}" B] by (simp add: tile_good_def flags_agree_def on)
  have "things_on u - {old} = {x} \<union> B" using new on by auto
  then have r: "flags_of ?r = flags_of u - (props types u {old} - (props types u {x} \<union> props types u B))"
    by (simp only: flags_of_reset props_Un)
  have on': "things_on (setTileFlags types x ?r) = {x} \<union> B" using on by (simp add: things_on_ops)
  have "props types (setTileFlags types x ?r) ({x} \<union> B) = props types u {x} \<union> props types u B"
    using props_cong [of "{x} \<union> B" "setTileFlags types x ?r" u types] props_Un [of types u "{x}" B] by simp
  moreover have "flags_of (setTileFlags types x ?r) = props types u B \<union> props types u {x}"
    unfolding flags_of_set [OF fc] p r f by auto
  ultimately have "flags_agree types (setTileFlags types x ?r)" unfolding flags_agree_def on' by auto
  then show ?thesis using ok by (simp add: tile_good_def)
qed

lemma tile_ok_ground:
  "tile_ok types t \<Longrightarrow> (\<And>g. x = Some g \<Longrightarrow> g \<notin> set (tile_items t)) \<Longrightarrow> tile_ok types (t\<lparr>ground := x\<rparr>)"
  by (auto simp: tile_ok_def downItems_def topItems_def isAlwaysOnTop_def type_of_def list_all_iff split: option.split)

lemma on_top_or_down:
  assumes ok: "tile_ok types t" and i: "tile_getThingIndex types (ItemThing x) t \<noteq> -1" and g: "ground t \<noteq> Some x"
  shows "isAlwaysOnTop types t x \<Longrightarrow> x \<in> set (topItems t)" and "\<not> isAlwaysOnTop types t x \<Longrightarrow> x \<in> set (downItems t)"
  using i g by (cases "ground t"; auto simp: tile_getThingIndex_def count_to_index split: option.splits if_splits dest: index_of_Some)+

lemma recount_good:
  assumes g: "tile_good types t"
  shows "tile_good types (change_tile_item x (setItemCount k) t)"
proof -
  let ?u = "change_tile_item x (setItemCount k) t"
  have "type_of types ?u = type_of types t" by (simp add: fun_eq_iff type_of_def change_tile_item_def)
  then have a: "isAlwaysOnTop types ?u = isAlwaysOnTop types t" by (simp add: fun_eq_iff isAlwaysOnTop_def)
  have "canBeMoved ty (setItemCount k i) = canBeMoved ty i" for ty i
    by (simp add: canBeMoved_def hasAttribute_attr getInteger_attr)
  then have "item_hasProperty types ?u = item_hasProperty types t"
    by (simp add: fun_eq_iff item_hasProperty_def type_of_def change_tile_item_def Let_def cong: item_property.case_cong)
  then have "flags_agree types ?u"
    using g by (simp add: tile_good_def flags_agree_def flags_of_def props_def things_on_def tile_hasProperty_def hasFlag_def change_tile_item_def)
  moreover have "tile_ok types ?u"
    using g a by (simp add: tile_good_def tile_ok_def downItems_def topItems_def change_tile_item_def cong: option.case_cong)
  ultimately show ?thesis by (simp add: tile_good_def)
qed

lemma tile_removeThing_good:
  assumes g: "tile_good types t"
  shows "tile_good types (tile_removeThing types th n t)"
proof (cases th)
  case (CreatureThing c)
  have "flags_agree types (t\<lparr>tile_creatures := cs\<rparr>) = flags_agree types t" for cs
    using same_flags [of "t\<lparr>tile_creatures := cs\<rparr>" t types] by (simp add: flags_agree_def things_on_def)
  moreover have "tile_ok types t \<Longrightarrow> tile_ok types (t\<lparr>tile_creatures := remove1 c (tile_creatures t)\<rparr>)"
    by (auto simp: tile_ok_def downItems_def topItems_def isAlwaysOnTop_def type_of_def list_all_iff split: option.splits)
  ultimately show ?thesis using g CreatureThing by (simp add: tile_removeThing_def tile_good_def)
next
  case (ItemThing x)
  have ok: "tile_ok types t" using g by (simp add: tile_good_def)
  show ?thesis
  proof (cases "tile_getThingIndex types th t = -1")
    case True
    then show ?thesis using g ItemThing by (simp add: tile_removeThing_def)
  next
    case i: False
    show ?thesis
    proof (cases "ground t = Some x")
      case True
      let ?u = "(set_parent th False t)\<lparr>ground := None\<rparr>"
      have "x \<notin> set (tile_items t)" using ok True by (simp add: tile_ok_def)
      moreover have "tile_ok types ?u" by (rule tile_ok_ground) (simp_all add: ok)
      ultimately have "tile_good types (resetTileFlags types x ?u)"
        using True by (intro good_reset [OF g]) (simp_all add: things_on_def)
      then show ?thesis using i True ItemThing by (simp add: tile_removeThing_def)
    next
      case ng: False
      note mem = on_top_or_down [OF ok, of x] 
      let ?t = "set_parent th False t"
      have ok': "tile_ok types ?t" "ground ?t \<noteq> Some x" using ok ng by simp_all
      have parts: "downItems ?t = downItems t" "topItems ?t = topItems t" using parts_cong [of ?t t] by simp_all
      show ?thesis
      proof (cases "isAlwaysOnTop types t x")
        case True
        then have x: "x \<in> set (topItems t)" using mem i ng ItemThing by simp
        then have "x \<in> things_on t" using set_items [of t] by (simp add: things_on_def)
        then have "tile_good types (resetTileFlags types x (drop_top x ?t))"
          using things_on_drop(1) [OF ok'] x drop_top_ok [OF ok'(1), of x]
          by (intro good_reset [OF g]) (auto simp: drop_top_def parts things_on_ops)
        then show ?thesis using i ng True x ItemThing by (simp add: tile_removeThing_def)
      next
        case False
        then have x: "x \<in> set (downItems t)" using mem i ng ItemThing by simp
        then have on: "x \<in> things_on t" using set_items [of t] by (simp add: things_on_def)
        show ?thesis
        proof (cases "it_stackable (type_of types t x) \<and> n \<noteq> ucast (item_count (tile_item t x))")
          case True
          then show ?thesis using i ng False x ItemThing recount_good [OF g] by (simp add: tile_removeThing_def)
        next
          case all: False
          have "tile_good types (resetTileFlags types x (drop_down x ?t))"
            using things_on_drop(2) [OF ok'] x drop_down_ok [OF ok'(1), of x] on
            by (intro good_reset [OF g]) (auto simp: drop_down_def parts things_on_ops)
          then show ?thesis using i ng False x all ItemThing by (auto simp: tile_removeThing_def)
        qed
      qed
    qed
  qed
qed

lemma set_parent_good [simp]: "tile_good types (set_parent th b t) = tile_good types t"
  using same_flags [of "set_parent th b t" t types] by (simp add: tile_good_def flags_agree_def things_on_ops)

lemma add_creature_good:
  "tile_good types t \<Longrightarrow> c \<notin> set (tile_creatures t) \<Longrightarrow> tile_good types (t\<lparr>tile_creatures := c # tile_creatures t\<rparr>)"
  using same_flags [of "t\<lparr>tile_creatures := c # tile_creatures t\<rparr>" t types]
  by (auto simp: tile_good_def flags_agree_def things_on_def tile_ok_def downItems_def topItems_def isAlwaysOnTop_def
      type_of_def list_all_iff split: option.splits)

lemma removed_fields:
  assumes ok: "tile_ok types t" and x: "x \<in> set (tile_items t)" and cnt: "it_stackable (type_of types t x) \<Longrightarrow> isAlwaysOnTop types t x \<or> n = ucast (item_count (tile_item t x))"
  shows "tile_item (tile_removeThing types (ItemThing x) n t) = tile_item t"
    and "things_on (tile_removeThing types (ItemThing x) n t) = things_on t - {x}"
    and "ground (tile_removeThing types (ItemThing x) n t) = ground t"
proof -
  have ng: "ground t \<noteq> Some x" using ok x by (auto simp: tile_ok_def split: option.splits)
  have on: "is_on (ItemThing x) t" using x by (simp add: is_on_def things_on_def)
  have i: "tile_getThingIndex types (ItemThing x) t \<noteq> -1" using index_to_thing [OF ok on] by auto
  let ?t = "set_parent (ItemThing x) False t"
  have ok': "tile_ok types ?t" "ground ?t \<noteq> Some x" using ok ng by simp_all
  have parts: "downItems ?t = downItems t" "topItems ?t = topItems t" using parts_cong [of ?t t] by simp_all
  have "tile_item (tile_removeThing types (ItemThing x) n t) = tile_item t
    \<and> things_on (tile_removeThing types (ItemThing x) n t) = things_on t - {x}
    \<and> ground (tile_removeThing types (ItemThing x) n t) = ground t"
  proof (cases "isAlwaysOnTop types t x")
    case True
    then have "x \<in> set (topItems t)" using on_top_iff [OF ok x] by simp
    then show ?thesis using things_on_drop(1) [OF ok'] i ng True
      by (simp add: tile_removeThing_def things_on_ops parts) (simp add: drop_top_def)
  next
    case False
    then have "x \<in> set (downItems t)" using on_top_iff [OF ok x] x set_items [of t] by auto
    moreover have "tile_removeThing types (ItemThing x) n t = (if x \<notin> set (downItems t) then t else resetTileFlags types x (drop_down x ?t))"
      using i ng False cnt by (simp add: tile_removeThing_def) blast
    ultimately show ?thesis using things_on_drop(2) [OF ok']
      by (simp add: things_on_ops parts) (simp add: drop_down_def)
  qed
  then show "tile_item (tile_removeThing types (ItemThing x) n t) = tile_item t"
    "things_on (tile_removeThing types (ItemThing x) n t) = things_on t - {x}"
    "ground (tile_removeThing types (ItemThing x) n t) = ground t" by auto
qed

lemma push_good:
  assumes "floor_changes_ok types" "tile_good types t" "x \<notin> things_on t"
  shows "\<not> isAlwaysOnTop types t x \<Longrightarrow> tile_good types (setTileFlags types x (push_down x t))"
    and "isAlwaysOnTop types t x \<Longrightarrow> tile_good types (setTileFlags types x (put_top stop x t))"
proof -
  have ok: "tile_ok types t" using assms(2) by (simp add: tile_good_def)
  have f: "tile_item (push_down x t) = tile_item t" "tile_flags (push_down x t) = tile_flags t"
    "tile_item (put_top stop x t) = tile_item t" "tile_flags (put_top stop x t) = tile_flags t"
    by (simp_all add: push_down_def put_top_def)
  show "\<not> isAlwaysOnTop types t x \<Longrightarrow> tile_good types (setTileFlags types x (push_down x t))"
    by (rule good_set [OF assms(1,2) f(1,2) push_down_ok [OF ok assms(3)] things_on_ops(1) assms(3)])
  show "isAlwaysOnTop types t x \<Longrightarrow> tile_good types (setTileFlags types x (put_top stop x t))"
    by (rule good_set [OF assms(1,2) f(3,4) put_top_ok [OF ok assms(3)] things_on_ops(2) assms(3)])
qed

lemma add_ground_good:
  assumes fc: "floor_changes_ok types" and g: "tile_good types t" and x: "x \<notin> things_on t"
  shows "tile_good types (add_ground types x t)"
proof (cases "ground t")
  case None
  have "tile_ok types (t\<lparr>ground := Some x\<rparr>)" using g x by (intro tile_ok_ground) (auto simp: tile_good_def things_on_def)
  then have "tile_good types (setTileFlags types x (t\<lparr>ground := Some x\<rparr>))"
    using None x by (intro good_set [OF fc g]) (simp_all add: things_on_def)
  then show ?thesis using None by (simp add: add_ground_def)
next
  case (Some old)
  let ?u = "(set_parent (ItemThing old) False t)\<lparr>ground := Some x\<rparr>"
  have "tile_ok types ?u" using g x by (intro tile_ok_ground) (auto simp: tile_good_def things_on_def)
  moreover have "old \<notin> set (tile_items t)" using g Some by (simp add: tile_good_def tile_ok_def)
  ultimately have "tile_good types (setTileFlags types x (resetTileFlags types old ?u))"
    using Some x by (intro good_exchange [OF fc g, where B = "set (tile_items t)"]) (auto simp: things_on_def)
  then show ?thesis using Some by (simp add: add_ground_def)
qed

lemma add_top_good:
  assumes fc: "floor_changes_ok types" and g: "tile_good types t" and x: "x \<notin> things_on t" "isAlwaysOnTop types t x"
  shows "tile_good types (add_top types x t)"
proof (cases "if it_group (type_of types t x) = ITEM_GROUP_SPLASH then find_splash types t else None")
  case None
  then show ?thesis using push_good(2) [OF fc g x(1) x(2)] by (simp add: add_top_def Let_def)
next
  case (Some old)
  then have "old \<in> set (topItems t)" by (auto simp: find_splash_def find_Some_iff split: if_splits)
  then have old: "old \<in> set (tile_items t)" "isAlwaysOnTop types t old"
    using set_items [of t] tile_okD(6) [of types t old] g by (auto simp: tile_good_def)
  let ?t = "set_parent (ItemThing old) False (tile_removeThing types (ItemThing old) 1 t)"
  have ok: "tile_ok types t" using g by (simp add: tile_good_def)
  note r = removed_fields [OF ok old(1), of 1] 
  have "tile_good types ?t" using tile_removeThing_good [OF g] by simp
  moreover have "x \<notin> things_on ?t" using r(2) x(1) old(2) by (simp add: things_on_ops)
  moreover have "isAlwaysOnTop types ?t x" using r(1) x(2) old(2) onTop_cong [of ?t x t types] by simp
  ultimately show ?thesis using push_good(2) [OF fc] Some by (simp add: add_top_def Let_def)
qed

text \<open>A magic field is not stackable, so the old one is taken off as a whole.\<close>

definition fields_ok :: "tile_types \<Rightarrow> tile \<Rightarrow> bool" where
  "fields_ok types t \<longleftrightarrow> (\<forall>x. tile_class t x = MagicFieldC \<longrightarrow> \<not> it_stackable (type_of types t x))"

lemma add_down_good:
  assumes fc: "floor_changes_ok types" and g: "tile_good types t" and x: "x \<notin> things_on t" "\<not> isAlwaysOnTop types t x"
    and fld: "fields_ok types t"
  shows "tile_good types (add_down types x t)"
proof (cases "if it_type (type_of types t x) = ITEM_TYPE_MAGICFIELD then find_field t else None")
  case None
  then show ?thesis using push_good(1) [OF fc g x(1) x(2)] by (simp add: add_down_def)
next
  case (Some old)
  then have "old \<in> set (downItems t)" "tile_class t old = MagicFieldC" by (auto simp: find_field_def find_Some_iff split: if_splits)
  then have old: "old \<in> set (tile_items t)" "\<not> it_stackable (type_of types t old)"
    using set_items [of t] fld by (auto simp: fields_ok_def)
  let ?t = "set_parent (ItemThing old) False (tile_removeThing types (ItemThing old) 1 t)"
  have ok: "tile_ok types t" using g by (simp add: tile_good_def)
  note r = removed_fields [OF ok old(1), of 1] 
  have "tile_good types ?t" using tile_removeThing_good [OF g] by simp
  moreover have "x \<notin> things_on ?t" using r(2) x(1) old(2) by (simp add: things_on_ops)
  moreover have "\<not> isAlwaysOnTop types ?t x" using r(1) x(2) old(2) onTop_cong [of ?t x t types] by simp
  ultimately show ?thesis using push_good(1) [OF fc] Some g by (simp add: add_down_def)
qed

section \<open>Sequences of operations\<close>

datatype tile_action = TileAdd thing | TileInternalAdd thing | TileUpdate nat u16 u32 | TileReplace nat nat | TileRemove thing u32

text \<open>
  The conditions under which the game carries the actions out: what is added is not on the tile yet; an
  update or a replacement does not turn an item below the creatures into one on top or back (the game
  removes and adds such an item), and a magic field stays a thing that does not stack.
\<close>

definition update_fits :: "tile_types \<Rightarrow> nat \<Rightarrow> u16 \<Rightarrow> tile \<Rightarrow> bool" where
  "update_fits types x itemId t \<longleftrightarrow> (tt_alwaysOnTopOrder (types itemId) \<noteq> 0) = isAlwaysOnTop types t x
     \<and> \<not> (tile_class t x = MagicFieldC \<and> it_stackable (types itemId))"

definition replace_fits :: "tile_types \<Rightarrow> nat \<Rightarrow> nat \<Rightarrow> tile \<Rightarrow> bool" where
  "replace_fits types index x t \<longleftrightarrow> x \<notin> things_on t \<and>
     (case replace_slot index x t of None \<Rightarrow> True | Some (old, _) \<Rightarrow> ground t = Some old \<or> isAlwaysOnTop types t x = isAlwaysOnTop types t old)"

fun tile_step :: "tile_types \<Rightarrow> tile_action \<Rightarrow> tile \<Rightarrow> tile" where
  "tile_step types (TileAdd th) t = (if \<not> is_on th t then tile_addThing types th t else t)"
| "tile_step types (TileInternalAdd th) t = (if \<not> is_on th t then tile_internalAddThing types th t else t)"
| "tile_step types (TileUpdate x itemId n) t = (if update_fits types x itemId t then tile_updateThing types x itemId n t else t)"
| "tile_step types (TileReplace index x) t = (if replace_fits types index x t then tile_replaceThing types index x t else t)"
| "tile_step types (TileRemove th n) t = tile_removeThing types th n t"

lemma tile_addThing_good:
  assumes fc: "floor_changes_ok types" and g: "tile_good types t" and fld: "fields_ok types t" and on: "\<not> is_on th t"
  shows "tile_good types (tile_addThing types th t)"
proof (cases th)
  case (CreatureThing c)
  then show ?thesis using add_creature_good [of types "set_parent th True t" c] g on by (simp add: tile_addThing_def is_on_def)
next
  case (ItemThing x)
  let ?t = "set_parent th True t"
  have "tile_good types ?t" "x \<notin> things_on ?t" "fields_ok types ?t"
    using g on fld ItemThing by (simp_all add: is_on_def things_on_ops fields_ok_def type_of_def)
  moreover have "isAlwaysOnTop types ?t x = isAlwaysOnTop types t x" by (rule onTop_cong) simp
  ultimately show ?thesis using add_ground_good [OF fc, of ?t x] add_top_good [OF fc, of ?t x] add_down_good [OF fc, of ?t x] g ItemThing
    by (simp add: tile_addThing_def Let_def)
qed

lemma tile_internalAddThing_good:
  assumes fc: "floor_changes_ok types" and g: "tile_good types t" and on: "\<not> is_on th t"
  shows "tile_good types (tile_internalAddThing types th t)"
proof (cases th)
  case (CreatureThing c)
  then show ?thesis using add_creature_good [of types "set_parent th True t" c] g on by (simp add: tile_internalAddThing_def is_on_def)
next
  case (ItemThing x)
  let ?t = "set_parent th True t"
  have t: "tile_good types ?t" "x \<notin> things_on ?t"
    using g on ItemThing by (simp_all add: is_on_def things_on_ops)
  have "isAlwaysOnTop types ?t x = isAlwaysOnTop types t x" by (rule onTop_cong) simp
  moreover have "add_ground types x ?t = setTileFlags types x (?t\<lparr>ground := Some x\<rparr>)" if "ground t = None"
    using that by (simp add: add_ground_def)
  ultimately show ?thesis using add_ground_good [OF fc t] push_good [OF fc t] ItemThing t(1)
    by (auto simp: tile_internalAddThing_def Let_def)
qed

lemma setSubType_id [simp]: "item_id (setSubType items n i) = item_id i"
  by (simp add: setSubType_def Let_def)

lemma setDecaying_id [simp]: "item_id (setDecaying d i) = item_id i"
  by (simp add: setDecaying_def Let_def)

lemma setDuration_id [simp]: "item_id (setDuration d i) = item_id i"
  by (simp add: setDuration_def)

lemma setID_id [simp]: "item_id (setID items n i) = n"
  by (simp add: setID_def Let_def)

lemma tile_updateThing_good:
  assumes fc: "floor_changes_ok types" and g: "tile_good types t" and fits: "update_fits types x itemId t"
  shows "tile_good types (tile_updateThing types x itemId n t)"
proof (cases "tile_getThingIndex types (ItemThing x) t = -1")
  case True
  then show ?thesis using g by (simp add: tile_updateThing_def)
next
  case False
  let ?f = "\<lambda>i. setSubType (base_types types) (ucast n) (setID (base_types types) itemId i)"
  let ?r = "resetTileFlags types x t" let ?u = "change_tile_item x ?f ?r"
  have ok: "tile_ok types t" using g by (simp add: tile_good_def)
  have on: "x \<in> things_on t"
    using on_top_or_down [OF ok False] set_items [of t] by (cases "ground t = Some x") (auto simp: things_on_def)
  then have ins: "insert x (things_on t) = things_on t" by auto
  have top: "isAlwaysOnTop types ?u y = isAlwaysOnTop types t y" for y
    using fits by (auto simp: isAlwaysOnTop_def type_of_def change_tile_item_def update_fits_def)
  have "flags_of ?u = flags_of ?r" by (simp add: flags_of_def tile_hasProperty_def hasFlag_def change_tile_item_def)
  also have "\<dots> = props types t (things_on t - {x})"
    using flags_after_reset [of t types x] g by (simp add: ins tile_good_def flags_agree_def)
  also have "\<dots> = props types ?u (things_on t - {x})" by (rule props_cong) (simp add: change_tile_item_def)
  finally have "flags_of ?u = props types ?u (things_on t - {x})" .
  moreover have "things_on ?u = things_on t" by (simp add: change_tile_item_def things_on_def)
  ultimately have "flags_agree types (setTileFlags types x ?u)" using on by (intro flags_agree_add [OF fc]) simp_all
  moreover have "tile_ok types ?u"
  proof (rule tile_okI [of _ "downItems t" "topItems t"])
    note d = tile_okD [OF ok]
    show "tile_items ?u = downItems t @ topItems t" using split_items [of t] by (simp add: change_tile_item_def)
    show "downItemCount ?u = length (downItems t)" using d(2) by (simp add: change_tile_item_def)
    show "distinct (downItems t @ topItems t)" by (rule d(1))
    show "distinct (tile_creatures ?u)" using d(3) by (simp add: change_tile_item_def)
    show "h \<notin> set (downItems t @ topItems t)" if "ground ?u = Some h" for h
      using d(4) [of h] that by (simp add: change_tile_item_def)
  qed (use top tile_okD(5,6) [OF ok] in blast)+
  ultimately show ?thesis using False by (simp add: tile_updateThing_def tile_good_def)
qed

lemma tile_ok_update:
  assumes ok: "tile_ok types t" and x: "x \<notin> things_on t" and i: "i < length (tile_items t)"
    and top: "isAlwaysOnTop types t x = isAlwaysOnTop types t (tile_items t ! i)"
  shows "tile_ok types (t\<lparr>tile_items := (tile_items t)[i := x]\<rparr>)"
proof -
  let ?u = "t\<lparr>tile_items := (tile_items t)[i := x]\<rparr>"
  have a: "isAlwaysOnTop types ?u y = isAlwaysOnTop types t y" for y by (rule onTop_cong) simp
  have len: "downItemCount t \<le> length (tile_items t)" using ok by (simp add: tile_ok_def)
  have d: "downItems ?u = (if i < downItemCount t then (downItems t)[i := x] else downItems t)"
    by (simp add: downItems_def take_update_swap list_update_beyond)
  have tp: "topItems ?u = (if i < downItemCount t then topItems t else (topItems t)[i - downItemCount t := x])"
    by (simp add: topItems_def drop_update_swap)
  have "y \<in> set (downItems ?u) \<Longrightarrow> \<not> isAlwaysOnTop types t y" for y
    using tile_okD(5) [OF ok] top nth_parts(1) [OF ok] part_lengths(1) [OF ok] d
    by (auto split: if_splits dest!: set_update_subset_insert [THEN subsetD])
  moreover have "y \<in> set (topItems ?u) \<Longrightarrow> isAlwaysOnTop types t y" for y
  proof -
    have "\<not> i < downItemCount t \<Longrightarrow> tile_items t ! i \<in> set (topItems t)"
      using i len nth_mem [of "i - downItemCount t" "topItems t"] by (simp add: topItems_def)
    then show "y \<in> set (topItems ?u) \<Longrightarrow> isAlwaysOnTop types t y"
      using tile_okD(6) [OF ok] top tp by (auto split: if_splits dest!: set_update_subset_insert [THEN subsetD])
  qed
  moreover have "distinct ((tile_items t)[i := x])" using ok x by (auto simp: tile_ok_def things_on_def intro: distinct_list_update)
  moreover have "g \<notin> set ((tile_items t)[i := x])" if "ground t = Some g" for g
    using that ok x set_update_subset_insert [of "tile_items t" i x] by (auto simp: tile_ok_def things_on_def)
  ultimately show ?thesis using ok a by (auto simp: tile_ok_def list_all_iff split: option.split)
qed

lemma set_update_new: "distinct xs \<Longrightarrow> i < length xs \<Longrightarrow> set (xs[i := x]) = insert x (set xs - {xs ! i})"
  by (auto simp: set_update_distinct)

text \<open>Which slot a replacement takes.\<close>

lemma replace_slot_cases:
  assumes ok: "tile_ok types t" and r: "replace_slot index x t = Some (old, u)"
  shows "(ground t = Some old \<and> u = t\<lparr>ground := Some x\<rparr>)
    \<or> (\<exists>i. i < length (tile_items t) \<and> old = tile_items t ! i \<and> u = t\<lparr>tile_items := (tile_items t)[i := x]\<rparr>)"
proof (cases "ground t \<noteq> None \<and> index = 0")
  case True
  then show ?thesis using r by (auto simp: replace_slot_def)
next
  case False
  have "downItemCount t \<le> length (tile_items t)" using ok by (simp add: tile_ok_def)
  then have down: "i < downItemCount t \<Longrightarrow> i < length (tile_items t)" and top: "i < getTopItemCount t \<Longrightarrow> downItemCount t + i < length (tile_items t)" for i
    by (auto simp: getTopItemCount_def)
  let ?p1 = "if ground t \<noteq> None then index - 1 else index"
  let ?p3 = "?p1 - getTopItemCount t - length (tile_creatures t)"
  show ?thesis
  proof (cases "?p1 < getTopItemCount t")
    case True
    then have "old = tile_items t ! (downItemCount t + ?p1)" "u = t\<lparr>tile_items := (tile_items t)[downItemCount t + ?p1 := x]\<rparr>"
      using r False by (auto simp: replace_slot_def Let_def split: if_splits)
    then show ?thesis using top [OF True] by blast
  next
    case n: False
    then have "?p3 < downItemCount t" "old = tile_items t ! ?p3" "u = t\<lparr>tile_items := (tile_items t)[?p3 := x]\<rparr>"
      using r False by (auto simp: replace_slot_def Let_def split: if_splits)
    then show ?thesis using down [of ?p3] by blast
  qed
qed

lemma tile_replaceThing_good:
  assumes fc: "floor_changes_ok types" and g: "tile_good types t" and fits: "replace_fits types index x t"
  shows "tile_good types (tile_replaceThing types index x t)"
proof (cases "replace_slot index x t")
  case None
  then show ?thesis using g by (simp add: tile_replaceThing_def)
next
  case (Some p)
  obtain old u where p: "p = (old, u)" by fastforce
  have ok: "tile_ok types t" and x: "x \<notin> things_on t" using g fits by (auto simp: tile_good_def replace_fits_def)
  let ?u = "set_parent (ItemThing x) True u"
  have "(ground t = Some old \<and> u = t\<lparr>ground := Some x\<rparr>)
    \<or> (\<exists>i. i < length (tile_items t) \<and> old = tile_items t ! i \<and> u = t\<lparr>tile_items := (tile_items t)[i := x]\<rparr>)"
    using replace_slot_cases [OF ok, of index x old u] Some p by simp
  then have "tile_good types (setTileFlags types x (resetTileFlags types old ?u))"
  proof (elim disjE conjE exE)
    assume o: "ground t = Some old" "u = t\<lparr>ground := Some x\<rparr>"
    have "tile_ok types u" unfolding o(2) using x by (intro tile_ok_ground [OF ok]) (auto simp: things_on_def)
    moreover have "old \<notin> set (tile_items t)" using ok o by (simp add: tile_ok_def)
    ultimately show ?thesis using o x
      by (intro good_exchange [OF fc g, where B = "set (tile_items t)"]) (auto simp: things_on_def)
  next
    fix i assume i: "i < length (tile_items t)" "old = tile_items t ! i" "u = t\<lparr>tile_items := (tile_items t)[i := x]\<rparr>"
    have d: "distinct (tile_items t)" and gr: "\<And>h. ground t = Some h \<Longrightarrow> h \<notin> set (tile_items t)" using ok by (auto simp: tile_ok_def)
    have old: "old \<in> set (tile_items t)" using i by simp
    then have ng: "ground t \<noteq> Some old" using gr by blast
    then have "isAlwaysOnTop types t x = isAlwaysOnTop types t (tile_items t ! i)" using fits Some p i(2) by (auto simp: replace_fits_def)
    then have "tile_ok types u" unfolding i(3) by (rule tile_ok_update [OF ok x i(1)])
    moreover have "set (tile_items u) = insert x (set (tile_items t) - {old})" using set_update_new [OF d i(1)] i by simp
    ultimately show ?thesis using i(3) old ng x
      by (intro good_exchange [OF fc g, where B = "things_on t - {old}"]) (auto simp: things_on_def)
  qed
  then show ?thesis using Some p by (simp add: tile_replaceThing_def)
qed

section \<open>Properties\<close>

definition ids_kept :: "tile \<Rightarrow> tile \<Rightarrow> bool" where
  "ids_kept t u \<longleftrightarrow> tile_class u = tile_class t \<and> (\<forall>x. item_id (tile_item u x) = item_id (tile_item t x))"

lemma fields_ok_kept: "ids_kept t u \<Longrightarrow> fields_ok types u = fields_ok types t"
  by (simp add: ids_kept_def fields_ok_def type_of_def)

lemma ids_kept_simps:
  "ids_kept t (setTileFlags types x u) = ids_kept t u" "ids_kept t (resetTileFlags types x u) = ids_kept t u"
  "ids_kept t (set_parent th b u) = ids_kept t u" "ids_kept t (push_down x u) = ids_kept t u"
  "ids_kept t (put_top stop x u) = ids_kept t u" "ids_kept t (drop_top x u) = ids_kept t u" "ids_kept t (drop_down x u) = ids_kept t u"
  "ids_kept t (u\<lparr>ground := g\<rparr>) = ids_kept t u" "ids_kept t (u\<lparr>tile_creatures := cs\<rparr>) = ids_kept t u"
  "ids_kept t (u\<lparr>tile_items := xs\<rparr>) = ids_kept t u" "ids_kept t (change_tile_item x (setItemCount k) u) = ids_kept t u" "ids_kept t t"
  by (simp_all add: ids_kept_def push_down_def put_top_def drop_top_def drop_down_def change_tile_item_def) metis

lemma removed_ids: "ids_kept t (tile_removeThing types th n u) = ids_kept t u"
  by (simp add: tile_removeThing_def ids_kept_simps split: thing.split)

lemma added_ids: "ids_kept t (tile_addThing types th t)" "ids_kept t (tile_internalAddThing types th t)"
  by (auto simp: tile_addThing_def tile_internalAddThing_def add_ground_def add_top_def add_down_def Let_def ids_kept_simps
      removed_ids split: thing.split option.split)

lemma replaced_ids: "ids_kept t (tile_replaceThing types i x t)"
  by (auto simp: tile_replaceThing_def replace_slot_def Let_def ids_kept_simps split: option.split)

lemma updated_fields: "update_fits types x itemId t \<Longrightarrow> fields_ok types t \<Longrightarrow> fields_ok types (tile_updateThing types x itemId n t)"
  by (auto simp: tile_updateThing_def update_fits_def fields_ok_def type_of_def change_tile_item_def)

lemma tile_step_good:
  assumes "floor_changes_ok types" "tile_good types t" "fields_ok types t"
  shows "tile_good types (tile_step types a t) \<and> fields_ok types (tile_step types a t)"
proof (cases a)
  case (TileAdd th)
  then show ?thesis using assms tile_addThing_good fields_ok_kept [OF added_ids(1)] by simp
next
  case (TileInternalAdd th)
  then show ?thesis using assms tile_internalAddThing_good fields_ok_kept [OF added_ids(2)] by simp
next
  case (TileUpdate x itemId n)
  then show ?thesis using assms tile_updateThing_good updated_fields by simp
next
  case (TileReplace i x)
  then show ?thesis using assms tile_replaceThing_good fields_ok_kept [OF replaced_ids] by simp
next
  case (TileRemove th n)
  then show ?thesis using assms tile_removeThing_good fields_ok_kept [of t "tile_removeThing types th n t"] by (simp add: removed_ids ids_kept_simps)
qed

lemma tile_run_good:
  assumes "floor_changes_ok types"
  shows "tile_good types t \<Longrightarrow> fields_ok types t \<Longrightarrow> tile_good types (fold (tile_step types) as t)"
  by (induction as arbitrary: t) (use tile_step_good [OF assms] in auto)

text \<open>A new tile, and what its items and creatures are.\<close>

definition new_tile :: "(nat \<Rightarrow> item) \<Rightarrow> (nat \<Rightarrow> item_class) \<Rightarrow> tile" where
  "new_tile items classes = \<lparr>ground = None, tile_items = [], downItemCount = 0, tile_creatures = [], tile_flags = 0,
     tile_item = items, tile_class = classes, is_parent = (\<lambda>_. False)\<rparr>"

lemma new_tile_good: "tile_good types (new_tile items classes)"
  by (simp add: tile_good_def tile_ok_def flags_agree_def new_tile_def downItems_def topItems_def flags_of_def props_def
      things_on_def tile_hasProperty_def hasFlag_def hasBitSet_def)


text \<open>Grass (0), a wall on top (1) with order 3, a border (2) with order 1, a chest (3) that can be moved.\<close>

definition yard_type :: "u16 \<Rightarrow> tile_item_type" where
  "yard_type n = item_type.extend (sack_type n (if n = 0 then ITEM_GROUP_GROUND else ITEM_GROUP_NONE) 10 False)
     \<lparr>tt_alwaysOnTopOrder = (if n = 1 then 3 else if n = 2 then 1 else 0), tt_floorChange = 0, tt_blockSolid = (n = 1),
      tt_blockProjectile = (n = 1), tt_blockPathFind = (n = 1), tt_hasHeight = (n = 3), tt_isVertical = False,
      tt_isHorizontal = (n = 1), tt_isHangable = False, tt_lookThrough = False, tt_replaceable = True, tt_damage = 0, tt_combatType = 0\<rparr>"

definition yard_item :: "nat \<Rightarrow> item" where "yard_item x = sack_item (of_nat x) 1"

definition yard :: tile where
  "yard = fold (tile_step yard_type) [TileAdd (ItemThing 0), TileAdd (ItemThing 1), TileAdd (ItemThing 3), TileAdd (ItemThing 2), TileAdd (CreatureThing 7)]
     (new_tile yard_item (\<lambda>_. PlainC))"

lemma yard_types: "floor_changes_ok yard_type" "fields_ok yard_type (new_tile yard_item (\<lambda>_. PlainC))"
  by (simp_all add: floor_changes_ok_def yard_type_def item_type.extend_def fields_ok_def new_tile_def)

lemma yard_full: "is_on (CreatureThing 7) yard" "0 < getThingCount yard"
proof -
  have step: "is_on (CreatureThing 7) (tile_step yard_type (TileAdd (CreatureThing 7)) t)" for t
    by (simp add: is_on_def tile_addThing_def)
  have "yard = tile_step yard_type (TileAdd (CreatureThing 7)) (fold (tile_step yard_type)
    [TileAdd (ItemThing 0), TileAdd (ItemThing 1), TileAdd (ItemThing 3), TileAdd (ItemThing 2)] (new_tile yard_item (\<lambda>_. PlainC)))"
    unfolding yard_def by (simp only: fold_simps comp_apply id_apply)
  with step show on: "is_on (CreatureThing 7) yard" by metis
  show "0 < getThingCount yard" using on by (auto simp: is_on_def getThingCount_def length_pos_if_in_set)
qed


end
