(* ===== verification/Tile_Query.thy ===== *)
theory Tile_Query
  imports Tile
begin

text \<open>
  What a tile answers before a move (\<^verbatim>\<open>items/tile.cpp\<close>): whether a creature may step on it or an item may be
  put on it, whether a thing may be taken off, and to which tile a change of floor leads; and the positions
  under which clients know its things.  The predicates of creatures that the queries ask are the fields of
  the records below.
\<close>

section \<open>Creatures as a tile sees them\<close>

record monster_view =
  mv_familiar :: bool
  mv_masterAttacks :: bool
  mv_summon :: bool
  mv_canPushCreatures :: bool
  mv_canPushItems :: bool
  mv_immune :: "nat \<Rightarrow> bool"
  mv_ignoreFieldDamage :: bool
  mv_canWalkOnField :: "nat \<Rightarrow> bool"

record player_view =
  pv_access :: bool
  pv_canWalkthrough :: "nat \<Rightarrow> bool"
  pv_placed :: bool
  pv_tileFlags :: "u32 option"
  pv_belowGamemaster :: bool
  pv_countOutsidePZ :: int
  pv_pzLocked :: bool
  pv_ghost :: bool

datatype mover = NpcMover | MonsterMover monster_view | PlayerMover player_view

text \<open>The creatures on the tile, and the configuration.\<close>

record tile_env =
  te_types :: tile_types
  te_ghost :: "nat \<Rightarrow> bool"
  te_player :: "nat \<Rightarrow> bool"
  te_monster :: "nat \<Rightarrow> bool"
  te_pushable :: "nat \<Rightarrow> bool"
  te_summonOfPlayer :: "nat \<Rightarrow> bool"
  te_maxOnline :: int
  te_maxOutsidePZ :: int

definition FLAG_IGNOREBLOCKITEM :: u32 where "FLAG_IGNOREBLOCKITEM = 2"
definition FLAG_IGNOREBLOCKCREATURE :: u32 where "FLAG_IGNOREBLOCKCREATURE = 4"
definition FLAG_PATHFINDING :: u32 where "FLAG_PATHFINDING = 16"
definition FLAG_IGNOREFIELDDAMAGE :: u32 where "FLAG_IGNOREFIELDDAMAGE = 32"

definition ITEM_WALKABLE_SEA_START :: u16 where "ITEM_WALKABLE_SEA_START = 629"
definition ITEM_WALKABLE_SEA_END :: u16 where "ITEM_WALKABLE_SEA_END = 634"
definition ITEM_MAGICWALL_SAFE :: u16 where "ITEM_MAGICWALL_SAFE = 10181"
definition ITEM_WILDGROWTH_SAFE :: u16 where "ITEM_WILDGROWTH_SAFE = 10182"

section \<open>Stepping on the tile\<close>

definition hasHarmfulField :: "tile_types \<Rightarrow> tile \<Rightarrow> bool" where
  "hasHarmfulField types t \<longleftrightarrow> hasFlag TILESTATE_MAGICFIELD t \<and>
     (case getFieldItem t of None \<Rightarrow> False | Some f \<Rightarrow> \<not> tt_blockSolid (type_of types t f) \<and> tt_damage (type_of types t f) > 0)"

definition checkNpcCanWalkIntoTile :: "tile_types \<Rightarrow> tile \<Rightarrow> return_value" where
  "checkNpcCanWalkIntoTile types t = (if hasHarmfulField types t then NOTPOSSIBLE else NOERROR)"

text \<open>A monster that pushes passes other monsters and ghosts; one that does not needs the tile free.\<close>

definition monster_blocked_by :: "tile_env \<Rightarrow> monster_view \<Rightarrow> tile \<Rightarrow> return_value" where
  "monster_blocked_by env m t =
     (if mv_canPushCreatures m \<and> \<not> mv_summon m
      then (if list_ex (\<lambda>c. \<not> (te_player env c \<and> te_ghost env c)
                \<and> (\<not> te_monster env c \<or> \<not> te_pushable env c \<or> te_summonOfPlayer env c)) (tile_creatures t)
            then NOTPOSSIBLE else NOERROR)
      else if list_ex (\<lambda>c. \<not> te_ghost env c) (tile_creatures t) then NOTENOUGHROOM else NOERROR)"

definition monster_field :: "tile_env \<Rightarrow> monster_view \<Rightarrow> u32 \<Rightarrow> tile \<Rightarrow> return_value" where
  "monster_field env m flags t =
     (if hasHarmfulField (te_types env) t
      then (let combatType = tt_combatType (type_of (te_types env) t (the (getFieldItem t))) in
        if mv_immune m combatType then NOERROR
        else if hasBitSet FLAG_IGNOREFIELDDAMAGE flags
        then (if mv_ignoreFieldDamage m \<or> mv_canWalkOnField m combatType then NOERROR else NOTPOSSIBLE)
        else NOTPOSSIBLE)
      else NOERROR)"

definition queryAdd_monster :: "tile_env \<Rightarrow> monster_view \<Rightarrow> u32 \<Rightarrow> nat \<Rightarrow> tile \<Rightarrow> return_value" where
  "queryAdd_monster env m flags g t =
     (if hasFlag (TILESTATE_PROTECTIONZONE OR TILESTATE_FLOORCHANGE OR TILESTATE_TELEPORT) t
          \<and> (\<not> mv_familiar m \<or> (mv_familiar m \<and> mv_masterAttacks m))
      then NOTPOSSIBLE
      else if mv_summon m \<and> ITEM_WALKABLE_SEA_START \<le> item_id (tile_item t g) \<and> item_id (tile_item t g) \<le> ITEM_WALKABLE_SEA_END
      then NOTPOSSIBLE
      else (case monster_blocked_by env m t of
          NOERROR \<Rightarrow>
            if hasFlag TILESTATE_IMMOVABLEBLOCKSOLID t then NOTPOSSIBLE
            else if hasBitSet FLAG_PATHFINDING flags \<and> hasFlag TILESTATE_IMMOVABLENOFIELDBLOCKPATH t then NOTPOSSIBLE
            else if (hasFlag TILESTATE_BLOCKSOLID t \<or> (hasBitSet FLAG_PATHFINDING flags \<and> hasFlag TILESTATE_NOFIELDBLOCKPATH t))
                \<and> \<not> (mv_canPushItems m \<or> hasBitSet FLAG_IGNOREBLOCKITEM flags)
            then NOTPOSSIBLE
            else monster_field env m flags t
        | r \<Rightarrow> r))"

text \<open>Zones of a player that is locked out of protection.\<close>

definition pz_locked_result :: "u32 \<Rightarrow> tile \<Rightarrow> return_value" where
  "pz_locked_result from t =
     (if \<not> hasBitSet TILESTATE_PVPZONE from \<and> hasFlag TILESTATE_PVPZONE t then PLAYERISPZLOCKEDENTERPVPZONE
      else if hasBitSet TILESTATE_PVPZONE from \<and> \<not> hasFlag TILESTATE_PVPZONE t then PLAYERISPZLOCKEDLEAVEPVPZONE
      else if (\<not> hasBitSet TILESTATE_NOPVPZONE from \<and> hasFlag TILESTATE_NOPVPZONE t)
          \<or> (\<not> hasBitSet TILESTATE_PROTECTIONZONE from \<and> hasFlag TILESTATE_PROTECTIONZONE t)
      then PLAYERISPZLOCKED
      else NOERROR)"

definition queryAdd_player :: "tile_env \<Rightarrow> player_view \<Rightarrow> u32 \<Rightarrow> tile \<Rightarrow> return_value" where
  "queryAdd_player env p flags t =
     (if tile_creatures t \<noteq> [] \<and> \<not> hasBitSet FLAG_IGNOREBLOCKCREATURE flags \<and> \<not> pv_access p
          \<and> list_ex (\<lambda>c. \<not> pv_canWalkthrough p c) (tile_creatures t)
      then NOTPOSSIBLE
      else if hasBitSet FLAG_PATHFINDING flags \<and> hasFlag TILESTATE_BLOCKPATH t then NOTPOSSIBLE
      else if \<not> pv_placed p \<and> hasFlag TILESTATE_NOLOGOUT t then NOTPOSSIBLE
      else (case pv_tileFlags p of
          None \<Rightarrow> NOERROR
        | Some from \<Rightarrow>
            if hasBitSet TILESTATE_PROTECTIONZONE from \<and> te_maxOnline env > 1 \<and> pv_belowGamemaster p
                \<and> \<not> hasFlag TILESTATE_PROTECTIONZONE t \<and> pv_countOutsidePZ p \<ge> te_maxOutsidePZ env
            then NOTPOSSIBLE
            else if pv_pzLocked p then pz_locked_result from t
            else NOERROR))"

text \<open>
  Blocking items.  A safe magic wall or wild growth lets a player through and is taken away unless the player
  is a ghost; the second component is the item to take away.
\<close>

definition blocks_anyway :: "tile_types \<Rightarrow> tile \<Rightarrow> nat \<Rightarrow> bool" where
  "blocks_anyway types t x \<longleftrightarrow> tt_blockSolid (type_of types t x)
     \<and> (\<not> it_movable (type_of types t x) \<or> hasAttribute UNIQUEID (tile_item t x))"

definition blocking_items :: "tile_env \<Rightarrow> mover \<Rightarrow> u32 \<Rightarrow> tile \<Rightarrow> return_value \<times> nat option" where
  "blocking_items env mv flags t =
     (if \<not> hasBitSet FLAG_IGNOREBLOCKITEM flags
      then (if hasFlag TILESTATE_BLOCKSOLID t
            then (case mv of
                PlayerMover p \<Rightarrow> (case find (\<lambda>x. item_id (tile_item t x) = ITEM_WILDGROWTH_SAFE \<or> item_id (tile_item t x) = ITEM_MAGICWALL_SAFE) (tile_items t) of
                    Some x \<Rightarrow> (NOERROR, if pv_ghost p then None else Some x)
                  | None \<Rightarrow> (NOTENOUGHROOM, None))
              | _ \<Rightarrow> (NOTENOUGHROOM, None))
            else (NOERROR, None))
      else if (case ground t of Some g \<Rightarrow> blocks_anyway (te_types env) t g | None \<Rightarrow> False)
          \<or> list_ex (blocks_anyway (te_types env) t) (tile_items t)
      then (NOTPOSSIBLE, None)
      else (NOERROR, None))"

definition queryAdd_creature :: "tile_env \<Rightarrow> mover \<Rightarrow> bool \<Rightarrow> u32 \<Rightarrow> tile \<Rightarrow> return_value \<times> nat option" where
  "queryAdd_creature env mv moveLocked flags t =
     (if (case mv of NpcMover \<Rightarrow> checkNpcCanWalkIntoTile (te_types env) t \<noteq> NOERROR | _ \<Rightarrow> False)
      then (checkNpcCanWalkIntoTile (te_types env) t, None)
      else if hasBitSet FLAG_PATHFINDING flags \<and> hasFlag (TILESTATE_FLOORCHANGE OR TILESTATE_TELEPORT) t then (NOTPOSSIBLE, None)
      else if moveLocked then (NOTPOSSIBLE, None)
      else (case ground t of None \<Rightarrow> (NOTPOSSIBLE, None)
        | Some g \<Rightarrow> (case mv of
            MonsterMover m \<Rightarrow> (queryAdd_monster env m flags g t, None)
          | PlayerMover p \<Rightarrow> (case queryAdd_player env p flags t of
                NOERROR \<Rightarrow> blocking_items env mv flags t
              | r \<Rightarrow> (r, None))
          | NpcMover \<Rightarrow>
              if tile_creatures t \<noteq> [] \<and> \<not> hasBitSet FLAG_IGNOREBLOCKCREATURE flags
                  \<and> list_ex (\<lambda>c. \<not> te_ghost env c) (tile_creatures t)
              then (NOTENOUGHROOM, None)
              else blocking_items env mv flags t)))"

section \<open>Putting an item on the tile\<close>

definition ground_refuses :: "tile_item_type \<Rightarrow> tile_item_type \<Rightarrow> bool" where
  "ground_refuses g it \<longleftrightarrow> tt_blockSolid g
     \<and> ((\<not> it_pickupable g \<and> it_type g \<noteq> ITEM_TYPE_TRASHHOLDER) \<or> it_type it = ITEM_TYPE_MAGICFIELD \<or> tt_blockSolid it)
     \<and> ((\<not> it_pickupable it \<and> it_type it \<noteq> ITEM_TYPE_CARPET) \<or> \<not> tt_hasHeight g)"

definition item_refuses :: "tile_item_type \<Rightarrow> tile_item_type \<Rightarrow> bool" where
  "item_refuses b it \<longleftrightarrow> tt_blockSolid b \<and> it_type b \<noteq> ITEM_TYPE_TRASHHOLDER
     \<and> \<not> (it_pickupable b \<and> it_type it \<noteq> ITEM_TYPE_MAGICFIELD \<and> \<not> tt_blockSolid it)
     \<and> (\<not> it_pickupable it \<or> \<not> tt_hasHeight b \<or> it_pickupable b)"

definition queryAdd_item :: "tile_env \<Rightarrow> nat \<Rightarrow> u32 \<Rightarrow> tile \<Rightarrow> return_value" where
  "queryAdd_item env x flags t = (let types = te_types env; it = type_of types t x in
     if length (tile_items t) \<ge> 0x3E8 then NOTPOSSIBLE
     else if ground t = None \<and> \<not> tt_isHangable it then NOTPOSSIBLE
     else if tile_creatures t \<noteq> [] \<and> tt_blockSolid it \<and> \<not> hasBitSet FLAG_IGNOREBLOCKCREATURE flags
        \<and> list_ex (\<lambda>c. \<not> te_ghost env c) (tile_creatures t)
     then NOTENOUGHROOM
     else if tt_isHangable it \<and> hasFlag TILESTATE_SUPPORTS_HANGABLE t
     then (if list_ex (\<lambda>y. tt_isHangable (type_of types t y)) (tile_items t) then NEEDEXCHANGE else NOERROR)
     else if (case ground t of Some g \<Rightarrow> ground_refuses (type_of types t g) it | None \<Rightarrow> False) then NOTENOUGHROOM
     else if list_ex (\<lambda>y. item_refuses (type_of types t y) it) (tile_items t) then NOTENOUGHROOM
     else NOERROR)"

datatype tile_query = QueryCreature mover bool | QueryItem nat | QueryNothing

definition tile_queryAdd :: "tile_env \<Rightarrow> tile_query \<Rightarrow> u32 \<Rightarrow> tile \<Rightarrow> return_value \<times> nat option" where
  "tile_queryAdd env q flags t =
     (if hasBitSet FLAG_NOLIMIT flags then (NOERROR, None)
      else (case q of
          QueryCreature mv moveLocked \<Rightarrow> queryAdd_creature env mv moveLocked flags t
        | QueryItem x \<Rightarrow> (queryAdd_item env x flags t, None)
        | QueryNothing \<Rightarrow> (NOERROR, None)))"

definition tile_queryMaxCount :: "u32 \<Rightarrow> return_value \<times> u32" where
  "tile_queryMaxCount cnt = (NOERROR, max 1 cnt)"

definition tile_queryRemove :: "tile_types \<Rightarrow> thing \<Rightarrow> u32 \<Rightarrow> u32 \<Rightarrow> tile \<Rightarrow> return_value" where
  "tile_queryRemove types th cnt flags t =
     (if tile_getThingIndex types th t = -1 then NOTPOSSIBLE
      else (case th of CreatureThing _ \<Rightarrow> NOTPOSSIBLE
        | ItemThing x \<Rightarrow>
            if cnt = 0 \<or> (it_stackable (type_of types t x) \<and> cnt > ucast (item_count (tile_item t x))) then NOTPOSSIBLE
            else if \<not> it_movable (type_of types t x) \<and> \<not> hasBitSet FLAG_IGNORENOTMOVABLE flags then NOTMOVABLE
            else NOERROR))"

section \<open>Where a change of floor leads\<close>

text \<open>
  The map gives the flags of the tile at a position, if there is one.  Coordinates are 16 bits and floors 8
  bits wide and wrap.  The result is the tile that takes the thing, when it is another one; flags then ignore
  what stands there.
\<close>

definition shift_if :: "u32 \<Rightarrow> u32 \<Rightarrow> u16 \<Rightarrow> u16" where
  "shift_if flag flags d = (if hasBitSet flag flags then d else 0)"

definition stairs_dx :: "u32 \<Rightarrow> u16" where
  "stairs_dx f = shift_if TILESTATE_FLOORCHANGE_EAST f 1 - shift_if TILESTATE_FLOORCHANGE_WEST f 1
     + shift_if TILESTATE_FLOORCHANGE_EAST_ALT f 2"

definition stairs_dy :: "u32 \<Rightarrow> u16" where
  "stairs_dy f = shift_if TILESTATE_FLOORCHANGE_SOUTH f 1 - shift_if TILESTATE_FLOORCHANGE_NORTH f 1
     + shift_if TILESTATE_FLOORCHANGE_SOUTH_ALT f 2"

definition destination_down :: "(u16 \<Rightarrow> u16 \<Rightarrow> u8 \<Rightarrow> u32 option) \<Rightarrow> u16 \<times> u16 \<times> u8 \<Rightarrow> (u16 \<times> u16 \<times> u8) option" where
  "destination_down getTile p = (case p of (dx, dy, z) \<Rightarrow> let dz = z + 1;
     there = (\<lambda>x y. if getTile x y dz = None then None else Some (x, y, dz)) in
     if (case getTile dx (dy - 1) dz of Some f \<Rightarrow> hasBitSet TILESTATE_FLOORCHANGE_SOUTH_ALT f | None \<Rightarrow> False)
     then there dx (dy - 2)
     else if (case getTile (dx - 1) dy dz of Some f \<Rightarrow> hasBitSet TILESTATE_FLOORCHANGE_EAST_ALT f | None \<Rightarrow> False)
     then there (dx - 2) dy
     else (case getTile dx dy dz of None \<Rightarrow> None
       | Some f \<Rightarrow> there (dx - stairs_dx f) (dy - stairs_dy f)))"

definition destination_up :: "(u16 \<Rightarrow> u16 \<Rightarrow> u8 \<Rightarrow> u32 option) \<Rightarrow> u32 \<Rightarrow> u16 \<times> u16 \<times> u8 \<Rightarrow> (u16 \<times> u16 \<times> u8) option" where
  "destination_up getTile f p = (case p of (dx, dy, z) \<Rightarrow>
     let x = dx + stairs_dx f; y = dy + stairs_dy f in
     if getTile x y (z - 1) = None then None else Some (x, y, z - 1))"

definition tile_queryDestination :: "(u16 \<Rightarrow> u16 \<Rightarrow> u8 \<Rightarrow> u32 option) \<Rightarrow> u32 \<Rightarrow> u16 \<times> u16 \<times> u8 \<Rightarrow> u32
    \<Rightarrow> (u16 \<times> u16 \<times> u8) \<times> u32" where
  "tile_queryDestination getTile f p flags =
     (case (if hasBitSet TILESTATE_FLOORCHANGE_DOWN f then destination_down getTile p
            else if hasBitSet TILESTATE_FLOORCHANGE f then destination_up getTile f p
            else None) of
        None \<Rightarrow> (p, flags)
      | Some q \<Rightarrow> (q, flags OR FLAG_NOLIMIT))"

text \<open>The item of the destination on which the thing lands, and whose holder takes an item instead of the tile.\<close>

definition destination_item :: "bool \<Rightarrow> (nat \<Rightarrow> bool) \<Rightarrow> tile \<Rightarrow> nat option \<times> nat option" where
  "destination_item isItem heldByNoContainer t = (case getTopDownItem t of
       None \<Rightarrow> (None, None)
     | Some d \<Rightarrow> (Some d, if isItem \<and> heldByNoContainer d then Some d else None))"

definition getSurroundingTiles :: "u16 \<times> u16 \<times> u8 \<Rightarrow> (u16 \<times> u16 \<times> u8) list" where
  "getSurroundingTiles p = (case p of (x, y, z) \<Rightarrow>
     [(x - 1, y, z), (x + 1, y, z), (x, y - 1, z), (x, y + 1, z),
      (x - 1, y - 1, z), (x + 1, y + 1, z), (x + 1, y - 1, z), (x - 1, y + 1, z)])"

text \<open>Stairs: whoever falls on them and whoever climbs them leave them on opposite sides.\<close>

lemma stairs_opposite:
  assumes "destination_down getTile (x, y, z) = Some q" "getTile x y (z + 1) = Some f"
    "\<not> (case getTile x (y - 1) (z + 1) of Some f \<Rightarrow> hasBitSet TILESTATE_FLOORCHANGE_SOUTH_ALT f | None \<Rightarrow> False)"
    "\<not> (case getTile (x - 1) y (z + 1) of Some f \<Rightarrow> hasBitSet TILESTATE_FLOORCHANGE_EAST_ALT f | None \<Rightarrow> False)"
    "destination_up getTile f (x, y, z + 1) = Some r"
  shows "\<exists>dx dy. q = (x - dx, y - dy, z + 1) \<and> r = (x + dx, y + dy, z)"
  using assms by (auto simp: destination_down_def destination_up_def Let_def split: if_splits)

lemma destination_exists:
  assumes "tile_queryDestination getTile f (x, y, z) flags = (q, flags')"
  shows "q = (x, y, z) \<and> flags' = flags
     \<or> flags' = flags OR FLAG_NOLIMIT \<and> (case q of (x', y', z') \<Rightarrow> getTile x' y' z' \<noteq> None
         \<and> z' = (if hasBitSet TILESTATE_FLOORCHANGE_DOWN f then z + 1 else z - 1))"
  using assms
  by (auto simp: tile_queryDestination_def destination_down_def destination_up_def Let_def split: if_splits option.splits)

section \<open>Positions clients know\<close>

lemma client_index_less: "client_index see c ys n = -1 \<or> int n \<le> client_index see c ys n"
proof (induction ys arbitrary: n)
  case (Cons y ys)
  then show ?case using Cons.IH [of "n + 1"] Cons.IH [of n] by (auto simp: Let_def)
qed simp

lemma stackpos_creature_index:
  "n < 10 \<Longrightarrow> stackpos_creature see c ys n = (if client_index see c ys n < 10 then client_index see c ys n else -1)"
proof (induction ys arbitrary: n)
  case (Cons y ys)
  show ?case
  proof (cases "n + 1 < 10")
    case True
    then show ?thesis using Cons.IH [of "n + 1"] Cons.IH [of n] Cons.prems by auto
  next
    case False
    then show ?thesis using Cons.IH [of n] Cons.prems client_index_less [of see c ys "n + 1"] by auto
  qed
qed simp

definition below_ten :: "int \<Rightarrow> int" where
  "below_ten i = (if i < 10 then i else -1)"

lemma pass_all: "n < 10 \<Longrightarrow> pass_creatures (\<lambda>_. True) ys n = (if n + length ys < 10 then Some (n + length ys) else None)"
  by (induction ys arbitrary: n) auto

lemma stackpos_item_count:
  "n < 10 \<Longrightarrow> stackpos_item x ys n = (case count_to x ys (int n - 1) of
       Some i \<Rightarrow> Inl (below_ten i)
     | None \<Rightarrow> if n + length ys < 10 then Inr (n + length ys) else Inl (-1))"
proof (induction ys arbitrary: n)
  case (Cons y ys)
  show ?case
  proof (cases "n + 1 < 10")
    case True
    have "1 + (int n - 1) = int n" by simp
    then show ?thesis using Cons.IH [of "n + 1"] Cons.prems True by (auto simp: below_ten_def split: option.splits)
  next
    case False
    then have "n = 9" using Cons.prems by simp
    then show ?thesis by (auto simp: below_ten_def count_to_index split: option.splits)
  qed
qed simp

lemma count_to_bounds: "count_to x ys m = Some i \<Longrightarrow> m + 1 \<le> i"
  by (auto simp: count_to_index)

text \<open>
  The stack position sent to a client for a creature is its index among the creatures that client sees,
  and for an item, when all creatures are seen, its index on the tile; whenever that is below ten, and -1
  otherwise.
\<close>
theorem stack_positions:
  "getStackposOfCreature see c t = below_ten (getClientIndexOfCreature see c t)
   \<and> getStackposOfItem types (\<lambda>_. True) x t = below_ten (tile_getThingIndex types (ItemThing x) t)"
proof
  let ?n = "(if ground t = None then 0 else 1) + getTopItemCount t"
  show "getStackposOfCreature see c t = below_ten (getClientIndexOfCreature see c t)"
    using client_index_less [of see c "rev (tile_creatures t)" ?n]
    by (auto simp: getStackposOfCreature_def getClientIndexOfCreature_def Let_def below_ten_def stackpos_creature_index)
next
  have len: "length (topItems t) = getTopItemCount t" by (simp add: topItems_def getTopItemCount_def)
  show "getStackposOfItem types (\<lambda>_. True) x t = below_ten (tile_getThingIndex types (ItemThing x) t)"
  proof (cases "isAlwaysOnTop types t x")
    case True
    then show ?thesis
      by (cases "ground t"; cases "index_of x (topItems t)")
        (simp_all add: getStackposOfItem_def tile_getThingIndex_def stackpos_item_count pass_all len below_ten_def Let_def count_to_index
          del: index_of_None split: option.splits)
  next
    case False
    then show ?thesis
      by (cases "ground t"; cases "index_of x (downItems t)")
        (simp_all add: getStackposOfItem_def tile_getThingIndex_def stackpos_item_count pass_all len below_ten_def Let_def count_to_index
          del: index_of_None split: option.splits)
  qed
qed

section \<open>Walls\<close>

lemma flag_of_thing:
  assumes "flags_agree types t" "x \<in> things_on t" "item_hasProperty types t x p" "p \<noteq> CONST_PROP_SUPPORTHANGABLE"
  shows "hasFlag (property_flag p) t"
  using assms by (auto simp: flags_agree_def flags_of_def props_def tile_hasProperty_def)

lemma anyway_property:
  "blocks_anyway types t x \<Longrightarrow> item_hasProperty types t x CONST_PROP_BLOCKSOLID
     \<and> item_hasProperty types t x CONST_PROP_IMMOVABLEBLOCKSOLID"
  by (auto simp: blocks_anyway_def item_hasProperty_def canBeMoved_def type_of_def base_types_def item_type.defs Let_def)

lemma monster_let_in:
  "queryAdd_monster env m flags g t = NOERROR \<Longrightarrow> monster_blocked_by env m t = NOERROR \<and> \<not> hasFlag TILESTATE_IMMOVABLEBLOCKSOLID t"
  by (auto simp: queryAdd_monster_def split: if_splits return_value.splits)

lemma blocking_let_in:
  assumes "blocking_items env mv flags t = (NOERROR, r)"
  shows "\<not> hasFlag TILESTATE_BLOCKSOLID t \<or> (\<forall>x \<in> things_on t. \<not> blocks_anyway (te_types env) t x)
    \<or> (\<exists>p w. mv = PlayerMover p \<and> r = (if pv_ghost p then None else Some w) \<and> w \<in> set (tile_items t)
         \<and> item_id (tile_item t w) \<in> {ITEM_WILDGROWTH_SAFE, ITEM_MAGICWALL_SAFE})"
  using assms
  by (auto simp: blocking_items_def things_on_def list_ex_iff find_Some_iff in_set_conv_nth
      split: if_splits mover.splits option.splits)


definition quiet_env :: tile_env where
  "quiet_env = \<lparr>te_types = yard_type, te_ghost = (\<lambda>_. False), te_player = (\<lambda>_. False), te_monster = (\<lambda>_. True),
     te_pushable = (\<lambda>_. True), te_summonOfPlayer = (\<lambda>_. False), te_maxOnline = 0, te_maxOutsidePZ = 0\<rparr>"

definition meadow :: tile where
  "meadow = tile_step yard_type (TileAdd (ItemThing 0)) (new_tile yard_item (\<lambda>_. PlainC))"

lemma meadow_good: "tile_good yard_type meadow"
proof -
  have "\<not> is_on (ItemThing 0) (new_tile yard_item (\<lambda>_. PlainC))" by (simp add: new_tile_def is_on_def things_on_def)
  then show ?thesis unfolding meadow_def by (simp add: tile_addThing_good new_tile_good yard_types)
qed

lemma meadow_fields:
  "ground meadow = Some 0" "tile_items meadow = []" "tile_creatures meadow = []" "tile_class meadow = (\<lambda>_. PlainC)"
  "tile_item meadow = yard_item"
  by (simp_all add: meadow_def tile_addThing_def new_tile_def is_on_def things_on_def set_parent_def isGroundTile_def type_of_def
      yard_type_def item_type.extend_def sack_type_def yard_item_def sack_item_def add_ground_def)

lemma meadow_not_solid: "\<not> hasFlag TILESTATE_BLOCKSOLID meadow"
proof -
  have "things_on meadow = {0}" by (simp add: things_on_def meadow_fields)
  moreover have "\<not> item_hasProperty yard_type meadow 0 CONST_PROP_BLOCKSOLID"
    by (simp add: item_hasProperty_def type_of_def meadow_fields yard_type_def item_type.extend_def yard_item_def sack_item_def)
  ultimately have "CONST_PROP_BLOCKSOLID \<notin> props yard_type meadow (things_on meadow)" by (simp add: props_def)
  then have "CONST_PROP_BLOCKSOLID \<notin> flags_of meadow" using meadow_good by (simp add: tile_good_def flags_agree_def)
  then show ?thesis by (simp add: flags_of_def tile_hasProperty_def property_flag_def)
qed

lemma meadow_open: "queryAdd_creature quiet_env NpcMover False 0 meadow = (NOERROR, None)"
  by (simp add: queryAdd_creature_def meadow_fields checkNpcCanWalkIntoTile_def hasHarmfulField_def getFieldItem_def class_item_def
      hasBitSet_def blocking_items_def meadow_not_solid)


section \<open>Departures\<close>

text \<open>
  Taking away one special item hides every other of its kind: the flag is cleared whether or not another one
  is left, and the lookups answer only behind the flag.
\<close>

lemma reset_hides_field:
  "tile_class t x = MagicFieldC \<Longrightarrow> getFieldItem (resetTileFlags types x t) = None"
  "tile_class t x = TeleportC \<Longrightarrow> getTeleportItem (resetTileFlags types x t) = None"
  "tile_class t x = BedC \<Longrightarrow> getBedItem (resetTileFlags types x t) = None"
proof -
  have "\<not> bit (tile_flags (resetTileFlags types x t)) k"
    if "k < 32" "(True, flag_bit k) \<in> set (flags_to_reset types t x)" for k
  proof -
    have "list_ex (\<lambda>cf. fst cf \<and> bit (snd cf) k) (flags_to_reset types t x)"
      unfolding list_ex_iff using that by (intro bexI [of _ "(True, flag_bit k)"]) (simp_all add: bit_one_flag)
    then show ?thesis using that(1) by (simp add: resetTileFlags_def fold_reset_bit)
  qed
  then have off: "\<not> hasFlag (flag_bit k) (resetTileFlags types x t)"
    if "k < 32" "(True, flag_bit k) \<in> set (flags_to_reset types t x)" for k
    using that by (simp add: has_one_flag)
  show "tile_class t x = MagicFieldC \<Longrightarrow> getFieldItem (resetTileFlags types x t) = None"
    using off [of 12] by (simp add: getFieldItem_def class_item_def TILESTATE_MAGICFIELD_def flags_to_reset_def Let_def)
  show "tile_class t x = TeleportC \<Longrightarrow> getTeleportItem (resetTileFlags types x t) = None"
    using off [of 11] by (simp add: getTeleportItem_def class_item_def TILESTATE_TELEPORT_def flags_to_reset_def Let_def)
  show "tile_class t x = BedC \<Longrightarrow> getBedItem (resetTileFlags types x t) = None"
    using off [of 15] by (simp add: getBedItem_def class_item_def TILESTATE_BED_def flags_to_reset_def Let_def)
qed

text \<open>A safe wild growth on a tile lets a player through whatever wall stands there too.\<close>

lemma growth_opens_walls:
  assumes "w \<in> set (tile_items t)" "item_id (tile_item t w) = ITEM_WILDGROWTH_SAFE" "\<not> hasBitSet FLAG_IGNOREBLOCKITEM flags"
  shows "fst (blocking_items env (PlayerMover p) flags t) = NOERROR"
  using assms by (auto simp: blocking_items_def find_None_iff split: option.splits)

end
