(* ===== verification/House_Tile.thy ===== *)
theory House_Tile
  imports House_Save Tile_Query
begin

text \<open>
  The tiles of a house (\<^verbatim>\<open>map/house/housetile.cpp\<close>): what they add to the queries of a tile, and the doors and
  beds they report to the house.  With them the steps in the life of a house are put together, and shown to
  keep everybody out who is not invited.
\<close>

section \<open>Queries\<close>

definition PLAYERISNOTINVITED :: return_value where "PLAYERISNOTINVITED = OtherValue 7"
definition CANNOTTHROW :: return_value where "CANNOTTHROW = OtherValue 8"

text \<open>
  What comes to the tile.  A summon brings its master, if that is a player; an item who moves it: nobody, or a
  creature that may be a player.
\<close>

datatype house_visitor = PlayerVisitor person player_view bool | MonsterVisitor "person option option" monster_view bool
  | NpcVisitor bool | ItemVisitor nat "person option option" | NoVisitor

fun as_query :: "house_visitor \<Rightarrow> tile_query" where
  "as_query (PlayerVisitor _ p l) = QueryCreature (PlayerMover p) l"
| "as_query (MonsterVisitor _ m l) = QueryCreature (MonsterMover m) l"
| "as_query (NpcVisitor l) = QueryCreature NpcMover l"
| "as_query (ItemVisitor x _) = QueryItem x"
| "as_query NoVisitor = QueryNothing"

text \<open>For summons the code asks the state of the tile, not the flags of the query, whether it is a path search.\<close>

definition HouseTile_queryAdd :: "house_env \<Rightarrow> bool \<Rightarrow> house \<Rightarrow> tile_env \<Rightarrow> house_visitor \<Rightarrow> u32 \<Rightarrow> tile \<Rightarrow> return_value \<times> nat option" where
  "HouseTile_queryAdd e onlyInvited h env v tileFlags t =
     (let base = tile_queryAdd env (as_query v) tileFlags t in
      case v of
        PlayerVisitor q _ _ \<Rightarrow> if \<not> isInvited e h (Some q) then (PLAYERISNOTINVITED, None) else base
      | MonsterVisitor (Some master) _ _ \<Rightarrow>
          if \<not> isInvited e h master then (NOTPOSSIBLE, None)
          else if hasFlag TILESTATE_BLOCKSOLID t \<or> (hasBitSet FLAG_PATHFINDING (tile_flags t) \<and> hasFlag TILESTATE_NOFIELDBLOCKPATH t)
          then (NOTPOSSIBLE, None) else (NOERROR, None)
      | ItemVisitor _ (Some actor) \<Rightarrow>
          if (\<not> isInvited e h actor \<or> getHouseAccessLevel e h actor = HOUSE_GUEST) \<and> onlyInvited then (CANNOTTHROW, None)
          else base
      | _ \<Rightarrow> base)"

text \<open>Where an uninvited player goes: the entry, the temple of his town, or nowhere.\<close>

datatype house_destination = AsTile | ToEntry | ToTemple | ToNullTile

definition HouseTile_queryDestination :: "house_env \<Rightarrow> house \<Rightarrow> house_visitor \<Rightarrow> bool \<Rightarrow> bool \<Rightarrow> house_destination" where
  "HouseTile_queryDestination e h v entryTile templeTile = (case v of
      PlayerVisitor q _ _ \<Rightarrow>
        if \<not> isInvited e h (Some q) then (if entryTile then ToEntry else if templeTile then ToTemple else ToNullTile)
        else AsTile
    | _ \<Rightarrow> AsTile)"

definition HouseTile_queryRemove :: "house_env \<Rightarrow> bool \<Rightarrow> house \<Rightarrow> tile_types \<Rightarrow> thing \<Rightarrow> u32 \<Rightarrow> u32 \<Rightarrow> person option option \<Rightarrow> tile \<Rightarrow> return_value" where
  "HouseTile_queryRemove e onlyInvited h types th cnt flags actor t = (case th of
      CreatureThing _ \<Rightarrow> NOTPOSSIBLE
    | ItemThing _ \<Rightarrow> (case actor of
          Some a \<Rightarrow>
            if onlyInvited \<and> \<not> isInvited e h a then NOTPOSSIBLE
            else if onlyInvited \<and> getHouseAccessLevel e h a = HOUSE_GUEST then NOTMOVABLE
            else tile_queryRemove types th cnt flags t
        | None \<Rightarrow> tile_queryRemove types th cnt flags t))"

text \<open>An item that came to stay on the tile: a door with its number and place, a bed, or any other.\<close>

datatype house_item = DoorItem house_door | BedItem nat | PlainItem

definition updateHouse :: "house_item \<Rightarrow> house \<Rightarrow> house" where
  "updateHouse item h = (case item of
      DoorItem d \<Rightarrow> if door_id d \<noteq> 0 then addDoor d h else h
    | BedItem b \<Rightarrow> addBed b h
    | PlainItem \<Rightarrow> h)"

text \<open>
  Taking an item: guests may not when the server protects houses; nor may anybody throw anything in.  The
  answers are those of an ordinary tile for whoever may edit the guest list.
\<close>

lemma editors_use_the_tile:
  assumes "canEditAccessList e h GUEST_LIST a"
  shows "HouseTile_queryAdd e o1 h env (ItemVisitor x (Some a)) f t = tile_queryAdd env (QueryItem x) f t"
    and "HouseTile_queryRemove e o1 h types (ItemThing x) cnt f (Some a) t = tile_queryRemove types (ItemThing x) cnt f t"
  using assms
  by (auto simp: HouseTile_queryAdd_def HouseTile_queryRemove_def canEditAccessList_def isInvited_def
      split: house_level.splits)

section \<open>The life of a house\<close>

inductive house_step :: "house_env \<Rightarrow> house \<times> house_world \<Rightarrow> house \<times> house_world \<Rightarrow> bool" for e :: house_env where
  step_in: "he_person e c = Some q \<Longrightarrow> to \<in> set (houseTiles h)
    \<Longrightarrow> fst (HouseTile_queryAdd e onlyInvited h env (PlayerVisitor q v locked) flags t) = NOERROR
    \<Longrightarrow> house_step e (h, w) (h, put_creature c to w)"
| other_in: "he_person e c = None \<Longrightarrow> house_step e (h, w) (h, put_creature c to w)"
| step_elsewhere: "to \<notin> set (houseTiles h) \<Longrightarrow> house_step e (h, w) (h, put_creature c to w)"
| edit_list: "canEditAccessList e h listId player \<Longrightarrow> house_step e hw (setAccessList e listId txt hw)"
| kick: "house_step e (h, w) (h, snd (kickPlayer e h player c w))"
| new_owner: "house_step e hw (house_setOwner e guid updateDatabase player hw)"
| trade: "house_step e hw (onTradeEvent e item event player hw)"
| document: "house_step e (h, w) (snd (getTransferItem item h), w)"
| rent_day: "house_step e hw (payHouse e rentPeriod hw)"
| new_item: "house_step e (h, w) (updateHouse item h, w)"
| gone_item: "house_step e (h, w) (removeDoor item (removeBed item h), w)"

text \<open>Every creature is on the tile that holds it.\<close>

definition standing :: "house_world \<Rightarrow> bool" where
  "standing w \<longleftrightarrow> (\<forall>t. distinct (hw_creatures w t) \<and> set (hw_creatures w t) = {c. hw_tile w c = t})"

definition can_leave :: "house_env \<Rightarrow> house \<Rightarrow> nat \<Rightarrow> bool" where
  "can_leave e h c = (case he_entry e of None \<Rightarrow> False | Some t \<Rightarrow> t \<notin> set (houseTiles h) \<and> he_admits e t c)"

definition nobody_inside :: "house_env \<Rightarrow> house \<Rightarrow> house_world \<Rightarrow> (person \<Rightarrow> bool) \<Rightarrow> bool" where
  "nobody_inside e h w out \<longleftrightarrow> (\<forall>c q. he_person e c = Some q \<longrightarrow> hw_tile w c \<in> set (houseTiles h) \<longrightarrow> can_leave e h c \<longrightarrow> \<not> out q)"

lemma can_leave_cong: "set (houseTiles h') = set (houseTiles h) \<Longrightarrow> can_leave e h' c = can_leave e h c"
  by (simp add: can_leave_def split: option.split)

lemma standing_put: "standing w \<Longrightarrow> standing (put_creature c to w)"
  by (auto simp: standing_def put_creature_def Let_def distinct_remove1)

lemma standing_teleport: "standing w \<Longrightarrow> standing (snd (internalTeleport e c w))"
  by (simp add: internalTeleport_def standing_put split: option.split)

lemma standing_kick: "standing w \<Longrightarrow> standing (snd (kickPlayer e h player c w))"
  by (simp add: kickPlayer_def standing_teleport split: option.split)

lemma standing_kick_down: "standing w \<Longrightarrow> standing (kick_down e h stays t n w)"
  by (induction n arbitrary: w) (auto simp: Let_def standing_kick split: option.split)

lemma standing_kick_tiles: "standing w \<Longrightarrow> standing (kick_tiles e h stays w)"
proof -
  have "standing w \<Longrightarrow> standing (fold (\<lambda>t w. kick_down e h stays t (length (hw_creatures w t)) w) ts w)" for ts
    by (induction ts arbitrary: w) (simp_all add: standing_kick_down)
  then show "standing w \<Longrightarrow> standing (kick_tiles e h stays w)" by (simp add: kick_tiles_def)
qed

text \<open>With an entry outside the house, a round over a tile sends away everybody who may not stay.\<close>

definition leaves :: "house_env \<Rightarrow> nat \<Rightarrow> (person \<Rightarrow> bool) \<Rightarrow> nat \<Rightarrow> bool" where
  "leaves e out stays c = (case he_person e c of None \<Rightarrow> False
     | Some q \<Rightarrow> \<not> stays q \<and> \<not> p_canEditHouses q \<and> he_admits e out c)"

lemma owner_level: "getHouseAccessLevel e h None = HOUSE_OWNER"
  by (simp add: getHouseAccessLevel_def)

lemma not_above_owner: "\<not> HOUSE_OWNER < l"
  by (cases l) (simp_all add: less_house_level_def)

lemma kick_one:
  assumes "he_entry e = Some out" "out \<notin> set (houseTiles h)" "hw_tile w c \<in> set (houseTiles h)"
  shows "(case he_person e c of None \<Rightarrow> w | Some q \<Rightarrow> if stays q then w else snd (kickPlayer e h None c w))
    = (if leaves e out stays c then put_creature c out w else w)"
  using assms by (auto simp: kickPlayer_def internalTeleport_def leaves_def owner_level not_above_owner split: option.split)

lemma put_fields:
  "hw_tile (put_creature c out w) d = (if d = c then out else hw_tile w d)"
  "hw_tile w c = t \<Longrightarrow> t \<noteq> out \<Longrightarrow> hw_creatures (put_creature c out w) t = remove1 c (hw_creatures w t)"
  by (simp_all add: put_creature_def Let_def)

lemma remove1_nth: "distinct xs \<Longrightarrow> i < length xs \<Longrightarrow> remove1 (xs ! i) xs = take i xs @ drop (Suc i) xs"
proof (induction xs arbitrary: i)
  case (Cons x xs)
  then show ?case by (cases i) auto
qed simp

lemma kick_down_spec:
  assumes "he_entry e = Some out" "out \<notin> set (houseTiles h)" "t \<in> set (houseTiles h)"
    and "standing w" "n \<le> length (hw_creatures w t)"
  shows "hw_creatures (kick_down e h stays t n w) t
      = filter (\<lambda>c. \<not> leaves e out stays c) (take n (hw_creatures w t)) @ drop n (hw_creatures w t)
    \<and> (\<forall>c. hw_tile (kick_down e h stays t n w) c = hw_tile w c \<or> hw_tile (kick_down e h stays t n w) c = out)"
  using assms(4,5)
proof (induction n arbitrary: w)
  case (Suc i)
  let ?xs = "hw_creatures w t" and ?c = "hw_creatures w t ! i"
  have dist: "distinct ?xs" using Suc.prems(1) by (simp add: standing_def)
  have "?c \<in> set ?xs" using Suc.prems(2) by simp
  then have here: "hw_tile w ?c = t" using Suc.prems(1) unfolding standing_def by blast
  have "t \<noteq> out" using assms(2,3) by blast
  define w' where "w' = (if leaves e out stays ?c then put_creature ?c out w else w)"
  have w': "kick_down e h stays t (Suc i) w = kick_down e h stays t i w'"
    using kick_one [OF assms(1,2), of w ?c stays] here assms(3) by (simp add: w'_def)
  have xs': "hw_creatures w' t = (if leaves e out stays ?c then take i ?xs @ drop (Suc i) ?xs else ?xs)"
    using Suc.prems(2) remove1_nth [OF dist, of i] here \<open>t \<noteq> out\<close> by (simp add: w'_def put_fields)
  have "standing w'" using Suc.prems(1) by (simp add: w'_def standing_put)
  moreover have "i \<le> length (hw_creatures w' t)" using Suc.prems(2) by (auto simp: xs')
  ultimately have IH: "hw_creatures (kick_down e h stays t i w') t
      = filter (\<lambda>c. \<not> leaves e out stays c) (take i (hw_creatures w' t)) @ drop i (hw_creatures w' t)"
      "\<forall>c. hw_tile (kick_down e h stays t i w') c = hw_tile w' c \<or> hw_tile (kick_down e h stays t i w') c = out"
    using Suc.IH [of w'] by simp_all
  have "take (Suc i) ?xs = take i ?xs @ [?c]" "drop i ?xs = ?c # drop (Suc i) ?xs"
    using Suc.prems(2) by (simp_all add: take_Suc_conv_app_nth Cons_nth_drop_Suc)
  then have "hw_creatures (kick_down e h stays t i w') t
      = filter (\<lambda>c. \<not> leaves e out stays c) (take (Suc i) ?xs) @ drop (Suc i) ?xs"
    unfolding IH(1) xs' using Suc.prems(2) by simp
  moreover have "hw_tile w' c = hw_tile w c \<or> hw_tile w' c = out" for c by (simp add: w'_def put_fields)
  ultimately show ?case unfolding w' using IH(2) by metis
qed simp


lemma kick_tiles_spec:
  assumes "he_entry e = Some out" "out \<notin> set (houseTiles h)" "standing w"
  shows "(\<forall>c. hw_tile (kick_tiles e h stays w) c = hw_tile w c \<or> hw_tile (kick_tiles e h stays w) c = out)
    \<and> (\<forall>c. hw_tile (kick_tiles e h stays w) c \<in> set (houseTiles h) \<longrightarrow> \<not> leaves e out stays c)"
proof -
  have "(\<forall>c. hw_tile (fold (\<lambda>t w. kick_down e h stays t (length (hw_creatures w t)) w) ts w) c = hw_tile w c
          \<or> hw_tile (fold (\<lambda>t w. kick_down e h stays t (length (hw_creatures w t)) w) ts w) c = out)
      \<and> (\<forall>c. hw_tile (fold (\<lambda>t w. kick_down e h stays t (length (hw_creatures w t)) w) ts w) c \<in> set ts \<longrightarrow> \<not> leaves e out stays c)"
    if "set ts \<subseteq> set (houseTiles h)" for ts
    using that assms(3)
  proof (induction ts arbitrary: w)
    case (Cons t ts)
    let ?w = "kick_down e h stays t (length (hw_creatures w t)) w"
    have spec: "hw_creatures ?w t = filter (\<lambda>c. \<not> leaves e out stays c) (hw_creatures w t)"
        "\<forall>c. hw_tile ?w c = hw_tile w c \<or> hw_tile ?w c = out"
      using kick_down_spec [OF assms(1,2), of t w "length (hw_creatures w t)"] Cons.prems by simp_all
    have st: "standing ?w" by (rule standing_kick_down) (rule Cons.prems(2))
    have t: "\<not> leaves e out stays c" if "hw_tile ?w c = t" for c
    proof -
      have "c \<in> set (hw_creatures ?w t)" using st that by (simp add: standing_def)
      then show ?thesis by (simp add: spec(1))
    qed
    have "t \<noteq> out" using Cons.prems(1) assms(2) by auto
    let ?F = "fold (\<lambda>t w. kick_down e h stays t (length (hw_creatures w t)) w) ts ?w"
    have IH: "\<forall>c. hw_tile ?F c = hw_tile ?w c \<or> hw_tile ?F c = out"
        "\<forall>c. hw_tile ?F c \<in> set ts \<longrightarrow> \<not> leaves e out stays c"
      using Cons.IH [OF _ st] Cons.prems(1) by simp_all
    have "\<not> leaves e out stays c" if "hw_tile ?F c \<in> set (t # ts)" for c
      using that IH(1) [rule_format, of c] IH(2) [rule_format, of c] t [of c] \<open>t \<noteq> out\<close> by auto
    moreover have "hw_tile ?F c = hw_tile w c \<or> hw_tile ?F c = out" for c
      using IH(1) [rule_format, of c] spec(2) [rule_format, of c] by auto
    ultimately show ?case by simp
  qed simp
  from this [OF subset_refl] show ?thesis by (simp add: kick_tiles_def)
qed

lemma kick_tiles_clears:
  assumes "standing w"
  shows "nobody_inside e h (kick_tiles e h stays w) (\<lambda>q. \<not> stays q \<and> \<not> p_canEditHouses q)"
proof (cases "\<exists>out. he_entry e = Some out \<and> out \<notin> set (houseTiles h)")
  case True
  then obtain out where out: "he_entry e = Some out" "out \<notin> set (houseTiles h)" by blast
  show ?thesis using kick_tiles_spec [OF out assms, of stays]
    by (auto simp: nobody_inside_def can_leave_def out leaves_def split: option.splits)
next
  case False
  then show ?thesis by (auto simp: nobody_inside_def can_leave_def split: option.splits)
qed

lemma kick_tiles_keeps:
  assumes "standing w" "nobody_inside e h w P" "set (houseTiles h') = set (houseTiles h)"
  shows "nobody_inside e h' (kick_tiles e h' stays w) P"
proof (cases "\<exists>out. he_entry e = Some out \<and> out \<notin> set (houseTiles h)")
  case True
  then obtain out where out: "he_entry e = Some out" "out \<notin> set (houseTiles h')" using assms(3) by blast
  have "hw_tile (kick_tiles e h' stays w) c = hw_tile w c" if "hw_tile (kick_tiles e h' stays w) c \<in> set (houseTiles h')" for c
    using kick_tiles_spec [OF out assms(1), of stays] that out(2) by auto
  then show ?thesis using assms(2,3) can_leave_cong [OF assms(3), of e] unfolding nobody_inside_def by auto
next
  case False
  then show ?thesis using assms(3) by (auto simp: nobody_inside_def can_leave_def split: option.splits)
qed

lemma nobody_weaken:
  "nobody_inside e h w P \<Longrightarrow> (\<And>q. Q q \<Longrightarrow> P q) \<Longrightarrow> set (houseTiles h') = set (houseTiles h) \<Longrightarrow> hw_tile w' = hw_tile w
    \<Longrightarrow> nobody_inside e h' w' Q"
  using can_leave_cong [of h' h e] by (auto simp: nobody_inside_def)

section \<open>Nobody stays uninvited\<close>

definition people_ok :: "house_env \<Rightarrow> bool" where
  "people_ok e \<longleftrightarrow> (\<forall>c q. he_person e c = Some q \<longrightarrow> p_guid q \<noteq> 0 \<and> p_account q \<noteq> 0)"

definition house_inv :: "house_env \<Rightarrow> house \<times> house_world \<Rightarrow> bool" where
  "house_inv e hw \<longleftrightarrow> standing (snd hw)
     \<and> nobody_inside e (fst hw) (snd hw) (\<lambda>q. \<not> isInvited e (fst hw) (Some q))
     \<and> (house_owner (fst hw) = 0 \<longrightarrow> house_ownerAccount (fst hw) = 0)"

lemma editors_invited: "p_canEditHouses q \<Longrightarrow> isInvited e h (Some q)"
  by (simp add: isInvited_def getHouseAccessLevel_def)

lemma isInvited_cong:
  "house_owner h' = house_owner h \<Longrightarrow> house_ownerAccount h' = house_ownerAccount h \<Longrightarrow> guestList h' = guestList h
    \<Longrightarrow> subOwnerList h' = subOwnerList h \<Longrightarrow> isInvited e h' = isInvited e h"
  by (rule ext) (simp add: isInvited_def getHouseAccessLevel_def split: option.split)

text \<open>A new list leaves only the invited, whatever was before.\<close>

lemma set_list_fields:
  "house_owner (fst (setAccessList e l txt hw)) = house_owner (fst hw)"
  "house_ownerAccount (fst (setAccessList e l txt hw)) = house_ownerAccount (fst hw)"
  "houseTiles (fst (setAccessList e l txt hw)) = houseTiles (fst hw)"
  by (simp_all add: setAccessList_def Let_def split: prod.split)

lemma set_list_inside:
  assumes "standing (snd hw)" "l = GUEST_LIST \<or> l = SUBOWNER_LIST"
  shows "nobody_inside e (fst (setAccessList e l txt hw)) (snd (setAccessList e l txt hw))
      (\<lambda>q. \<not> isInvited e (fst (setAccessList e l txt hw)) (Some q))"
proof -
  have "nobody_inside e h' (kick_tiles e h' (\<lambda>q. isInvited e h' (Some q)) (snd hw)) (\<lambda>q. \<not> isInvited e h' (Some q))" for h'
    using kick_tiles_clears [OF assms(1)] by (rule nobody_weaken) (auto simp: editors_invited)
  then show ?thesis using assms(2) by (auto simp: setAccessList_def Let_def split_beta)
qed

lemma set_list_standing: "standing (snd hw) \<Longrightarrow> standing (snd (setAccessList e l txt hw))"
  by (simp add: setAccessList_def Let_def split_beta standing_kick_tiles)

lemma set_list_keeps:
  assumes "standing (snd hw)" "nobody_inside e (fst hw) (snd hw) P"
  shows "nobody_inside e (fst (setAccessList e l txt hw)) (snd (setAccessList e l txt hw)) P"
proof -
  have keep: "nobody_inside e h' (kick_tiles e h' stays (snd hw)) P" if "houseTiles h' = houseTiles (fst hw)" for h' stays
    using that by (intro kick_tiles_keeps [OF assms]) simp
  have same: "nobody_inside e h' (snd hw) P" if "houseTiles h' = houseTiles (fst hw)" for h'
    using that by (intro nobody_weaken [OF assms(2)]) simp_all
  show ?thesis
    by (cases "l = GUEST_LIST"; cases "l = SUBOWNER_LIST") (simp_all add: setAccessList_def Let_def split_beta keep same)
qed


text \<open>What only wakes sleepers, takes beds away or asks the game moves nobody.\<close>

definition same_places :: "house_world \<Rightarrow> house_world \<Rightarrow> bool" where
  "same_places w w' \<longleftrightarrow> hw_tile w' = hw_tile w \<and> hw_creatures w' = hw_creatures w"

definition quiet :: "house \<times> house_world \<Rightarrow> house \<times> house_world \<Rightarrow> bool" where
  "quiet hw hw' \<longleftrightarrow> same_places (snd hw) (snd hw') \<and> (\<exists>beds. fst hw' = (fst hw)\<lparr>bedsList := beds\<rparr>)"

lemma same_places_refl [simp]: "same_places w w"
  by (simp add: same_places_def)

lemma same_places_trans: "same_places w w' \<Longrightarrow> same_places w' w'' \<Longrightarrow> same_places w w''"
  by (simp add: same_places_def)

lemma same_places_fold: "(\<And>x w. same_places w (f x w)) \<Longrightarrow> same_places w (fold f xs w)"
  by (induction xs arbitrary: w) (auto intro: same_places_trans)

lemma same_places_ask [simp]: "same_places w (ask_game r w)"
  by (simp add: same_places_def ask_game_def)

lemma same_places_wakeUp [simp]: "same_places w (wakeUp e bed w)"
  by (simp add: same_places_def wakeUp_def ask_game_def Let_def)

lemma same_places_standing: "same_places w w' \<Longrightarrow> standing w' = standing w"
  by (simp add: same_places_def standing_def)

lemma quiet_refl [simp]: "quiet hw hw"
proof -
  have "h = h\<lparr>bedsList := bedsList h\<rparr>" for h :: house by simp
  then show ?thesis unfolding quiet_def same_places_def by blast
qed

lemma quiet_trans: "quiet a b \<Longrightarrow> quiet b c \<Longrightarrow> quiet a c"
  unfolding quiet_def by (auto intro: same_places_trans)

lemma quiet_world: "same_places w w' \<Longrightarrow> quiet (h, w) (h, w')"
  using quiet_refl [of "(h, w)"] unfolding quiet_def fst_conv snd_conv by blast

lemma quiet_fold:
  assumes "\<And>x hw. quiet hw (f x hw)"
  shows "quiet hw (fold f xs hw)"
proof (induction xs arbitrary: hw)
  case (Cons x xs)
  show ?case using quiet_trans [OF assms Cons.IH, of hw x] by simp
qed simp

lemma quiet_removeBed [simp]: "quiet (h, w) (removeBed b h, wakeUp e b w)"
  by (simp only: quiet_def removeBed_def fst_conv snd_conv same_places_wakeUp simp_thms) blast

lemma quiet_wrapItem: "quiet hw (snd (wrapItem e item hw))"
  by (cases hw) (simp add: wrapItem_def)

lemma quiet_depot_item: "quiet (snd st) (snd (depot_item e item st))"
  using quiet_wrapItem [of "snd st" e item]
  by (auto simp: depot_item_def handleWrapableItem_def Let_def split: prod.splits option.splits)

lemma quiet_depot_items: "quiet (snd st) (snd (fold (depot_item e) xs st))"
proof (induction xs arbitrary: st)
  case (Cons x xs)
  show ?case using quiet_trans [OF quiet_depot_item Cons.IH, of st e x] by simp
qed simp

lemma quiet_depot_tile: "quiet hw (transferToDepot_tile e guid t hw)"
proof -
  obtain ms h w where f: "fold (depot_item e) (he_items e t) ([], hw) = (ms, h, w)" by (metis prod.exhaust)
  then have "quiet hw (h, w)" using quiet_depot_items [of "([], hw)" e "he_items e t"] by simp
  moreover have "quiet (h, w) (transferToDepot_tile e guid t hw)"
    unfolding transferToDepot_tile_def f
    by (simp add: Let_def, intro quiet_world same_places_trans [OF same_places_fold same_places_ask]) simp
  ultimately show ?thesis by (rule quiet_trans)
qed

lemma quiet_depot: "quiet hw (snd (transferToDepot e guid hw))"
  by (simp add: transferToDepot_def quiet_fold quiet_depot_tile)

lemma quiet_owner_depot: "quiet hw (snd (transferToOwnersDepot e hw))"
  by (simp add: transferToOwnersDepot_def quiet_depot Let_def)

section \<open>A change of hands empties the house\<close>

lemma clear_spec:
  assumes "standing (snd hw)" "nobody_inside e (fst hw) (snd hw) P"
  shows "standing (snd (clearHouseInfo e keepOwner hw))
    \<and> nobody_inside e (fst (clearHouseInfo e keepOwner hw)) (snd (clearHouseInfo e keepOwner hw)) P
    \<and> houseTiles (fst (clearHouseInfo e keepOwner hw)) = houseTiles (fst hw)
    \<and> (house_owner (fst (clearHouseInfo e keepOwner hw)), house_ownerAccount (fst (clearHouseInfo e keepOwner hw)))
       = (if keepOwner then (house_owner (fst hw), house_ownerAccount (fst hw)) else (0, 0))"
proof -
  let ?w = "fold (\<lambda>bed w. if fst (hw_bed w bed) \<noteq> 0 then wakeUp e bed w else w) (bedsList (fst hw)) (snd hw)"
  let ?h = "if keepOwner then fst hw else (fst hw)\<lparr>house_owner := 0, house_ownerAccount := 0\<rparr>"
  let ?a = "setAccessList e SUBOWNER_LIST [] (?h, ?w)"
  let ?b = "setAccessList e GUEST_LIST [] ?a"
  have places: "same_places (snd hw) ?w" by (rule same_places_fold) simp
  have a: "standing (snd (?h, ?w))" "nobody_inside e (fst (?h, ?w)) (snd (?h, ?w)) P"
    using assms(1) same_places_standing [OF places] nobody_weaken [OF assms(2), of P ?h ?w] places
    by (simp_all add: same_places_def)
  have b: "standing (snd ?a)" "nobody_inside e (fst ?a) (snd ?a) P"
    using set_list_standing [OF a(1)] set_list_keeps [OF a] by simp_all
  have c: "standing (snd ?b)" "nobody_inside e (fst ?b) (snd ?b) P"
    using set_list_standing [OF b(1)] set_list_keeps [OF b] by simp_all
  have clear: "clearHouseInfo e keepOwner hw
      = ((fst ?b)\<lparr>doorList := map (\<lambda>d. d\<lparr>door_access := parseList (he_dir e) []\<rparr>) (doorList (fst ?b))\<rparr>, snd ?b)"
    by (simp add: clearHouseInfo_def Let_def split_beta)
  have "nobody_inside e ((fst ?b)\<lparr>doorList := ds\<rparr>) (snd ?b) P" for ds
    by (rule nobody_weaken [OF c(2)]) simp_all
  then show ?thesis unfolding clear using c(1) by (simp add: set_list_fields)
qed

lemma transfer_spec:
  assumes "standing (snd hw)"
  shows "standing (snd (snd (tryTransferOwnership e player keepOwner hw)))
    \<and> nobody_inside e (fst (snd (tryTransferOwnership e player keepOwner hw))) (snd (snd (tryTransferOwnership e player keepOwner hw)))
        (\<lambda>q. \<not> p_canEditHouses q)
    \<and> (house_owner (fst (snd (tryTransferOwnership e player keepOwner hw))),
       house_ownerAccount (fst (snd (tryTransferOwnership e player keepOwner hw))))
       = (if keepOwner then (house_owner (fst hw), house_ownerAccount (fst hw)) else (0, 0))"
proof -
  let ?d = "case player of Some q \<Rightarrow> transferToDepot e (p_guid q) hw | None \<Rightarrow> transferToOwnersDepot e hw"
  let ?h = "fst (snd ?d)" and ?w = "snd (snd ?d)"
  have "quiet hw (snd ?d)" by (cases player) (simp_all add: quiet_depot quiet_owner_depot)
  then have q: "same_places (snd hw) ?w" "house_owner ?h = house_owner (fst hw)" "house_ownerAccount ?h = house_ownerAccount (fst hw)"
    by (auto simp: quiet_def)
  have st: "standing ?w" using assms same_places_standing [OF q(1)] by simp
  let ?k = "(?h, kick_tiles e ?h (\<lambda>_. False) ?w)"
  have k: "standing (snd ?k)" "nobody_inside e (fst ?k) (snd ?k) (\<lambda>q. \<not> p_canEditHouses q)"
    using standing_kick_tiles [OF st] kick_tiles_clears [OF st, of e ?h "\<lambda>_. False"] by simp_all
  have "snd (tryTransferOwnership e player keepOwner hw) = clearHouseInfo e keepOwner ?k"
    by (simp add: tryTransferOwnership_def split_beta Let_def)
  with clear_spec [OF k, of keepOwner] show ?thesis by (simp add: q)
qed


lemma inv_from_clear:
  assumes "standing w" "nobody_inside e h w (\<lambda>q. \<not> p_canEditHouses q)" "houseTiles h' = houseTiles h"
    and "house_owner h' = 0 \<longrightarrow> house_ownerAccount h' = 0"
  shows "house_inv e (h', w)"
  unfolding house_inv_def fst_conv snd_conv
  by (intro conjI assms(1,4) nobody_weaken [OF assms(2)]) (auto simp: assms(3) editors_invited)

lemma inv_cong:
  assumes "house_inv e (h, w)" "same_places w w'" "isInvited e h' = isInvited e h" "houseTiles h' = houseTiles h"
    and "house_owner h' = house_owner h" "house_ownerAccount h' = house_ownerAccount h"
  shows "house_inv e (h', w')"
proof -
  have "nobody_inside e h w (\<lambda>q. \<not> isInvited e h (Some q))" using assms(1) by (simp add: house_inv_def)
  then have "nobody_inside e h' w' (\<lambda>q. \<not> isInvited e h' (Some q))"
    by (rule nobody_weaken) (use assms(2-4) in \<open>simp_all add: same_places_def\<close>)
  then show ?thesis using assms(1,5,6) same_places_standing [OF assms(2)] by (simp add: house_inv_def)
qed

lemma set_list_inv: "house_inv e hw \<Longrightarrow> house_inv e (setAccessList e l txt hw)"
proof -
  assume inv: "house_inv e hw"
  then have st: "standing (snd hw)" by (simp add: house_inv_def)
  show ?thesis
  proof (cases "l = GUEST_LIST \<or> l = SUBOWNER_LIST")
    case True
    with st inv show ?thesis
      using set_list_inside [OF st True] set_list_standing [OF st] by (simp add: house_inv_def set_list_fields)
  next
    case False
    obtain h w where hw: "hw = (h, w)" by (cases hw)
    have "setAccessList e l txt hw = ((fst hw)\<lparr>doorList :=
        update_first (\<lambda>d. door_id d = l) (\<lambda>d. d\<lparr>door_access := parseList (he_dir e) txt\<rparr>) (doorList (fst hw))\<rparr>, snd hw)"
      using False by (simp add: setAccessList_def Let_def split_beta)
    moreover have "house_inv e (h\<lparr>doorList := ds\<rparr>, w)" for ds
      using inv unfolding hw by (rule inv_cong) ((rule same_places_refl isInvited_cong; simp)+, simp_all)
    ultimately show ?thesis by (simp add: hw)
  qed
qed

lemma owner_keeps_invited:
  assumes "house_owner h = 0" "house_ownerAccount h = 0" "p_guid q \<noteq> 0" "p_account q \<noteq> 0" "isInvited e h (Some q)"
    and "guestList h' = guestList h" "subOwnerList h' = subOwnerList h"
  shows "isInvited e h' (Some q)"
  using assms by (auto simp: isInvited_def getHouseAccessLevel_def split: if_splits)

lemma set_owner_inv:
  assumes "people_ok e" "house_inv e hw"
  shows "house_inv e (house_setOwner e guid upd player hw)"
proof -
  obtain h w0 where hw: "hw = (h, w0)" by (cases hw)
  define w where "w = (if upd \<and> house_owner h \<noteq> guid
    then update_house_row (house_id h) (\<lambda>r. r\<lparr>row_owner := guid, row_newOwner := -1\<rparr>) w0 else w0)"
  define h1 where "h1 = h\<lparr>house_isLoaded := True\<rparr>"
  define s where "s = (if house_owner h1 \<noteq> 0 then snd (tryTransferOwnership e player False (h1, w))
     else (h1\<lparr>house_paidUntil := first_due e\<rparr>, w))"
  define h2 where "h2 = (fst s)\<lparr>house_warnings := 0\<rparr>"
  have w: "same_places w0 w" by (simp add: w_def update_house_row_def same_places_def)
  have inv: "house_inv e (h, w)" by (rule inv_cong [OF assms(2) [unfolded hw] w]) simp_all
  have st: "standing w" using inv by (simp add: house_inv_def)
  have set: "house_inv e (h2\<lparr>house_owner := g, house_ownerName := n, house_ownerAccount := a\<rparr>, snd s) \<and> house_inv e (h2, snd s)"
    if "g \<noteq> 0" for g n a
  proof (cases "house_owner h1 = 0")
    case True
    then have s: "h2 = h1\<lparr>house_paidUntil := first_due e, house_warnings := 0\<rparr>" "snd s = w" by (simp_all add: h2_def s_def)
    have "isInvited e h2 = isInvited e h" by (rule isInvited_cong) (simp_all add: s(1) h1_def)
    then have "house_inv e (h2, w)" by (intro inv_cong [OF inv]) (simp_all add: s(1) h1_def)
    moreover have "nobody_inside e (h2\<lparr>house_owner := g, house_ownerName := n, house_ownerAccount := a\<rparr>) w
        (\<lambda>q. \<not> isInvited e (h2\<lparr>house_owner := g, house_ownerName := n, house_ownerAccount := a\<rparr>) (Some q))"
      unfolding nobody_inside_def
    proof (intro allI impI notI)
      fix c q
      assume c: "he_person e c = Some q"
        "hw_tile w c \<in> set (houseTiles (h2\<lparr>house_owner := g, house_ownerName := n, house_ownerAccount := a\<rparr>))"
        "can_leave e (h2\<lparr>house_owner := g, house_ownerName := n, house_ownerAccount := a\<rparr>) c"
        "\<not> isInvited e (h2\<lparr>house_owner := g, house_ownerName := n, house_ownerAccount := a\<rparr>) (Some q)"
      have "isInvited e h2 (Some q)"
        using \<open>house_inv e (h2, w)\<close> c(1-3) can_leave_cong [of "h2\<lparr>house_owner := g, house_ownerName := n, house_ownerAccount := a\<rparr>" h2 e c]
        by (auto simp: house_inv_def nobody_inside_def)
      moreover have "house_owner h2 = 0" "house_ownerAccount h2 = 0"
        using True inv by (simp_all add: s(1) h1_def house_inv_def)
      ultimately show False
        using c(4) assms(1) c(1) owner_keeps_invited [of h2 q e "h2\<lparr>house_owner := g, house_ownerName := n, house_ownerAccount := a\<rparr>"]
        by (simp add: people_ok_def)
    qed
    ultimately show ?thesis using that st by (simp add: house_inv_def s(2))
  next
    case False
    then have "s = snd (tryTransferOwnership e player False (h1, w))" by (simp add: s_def)
    with transfer_spec [of "(h1, w)" e player False] st
    have t: "standing (snd s)" "nobody_inside e (fst s) (snd s) (\<lambda>q. \<not> p_canEditHouses q)"
        "house_owner (fst s) = 0" "house_ownerAccount (fst s) = 0" by simp_all
    show ?thesis using that t(3,4) by (auto intro!: inv_from_clear [OF t(1,2)] simp: h2_def)
  qed
  have "house_setOwner e guid upd player hw = (if house_isLoaded h \<and> house_owner h = guid then (h, w)
     else if guid = 0 then (h2, snd s)
     else (case he_player_row e guid of Some (n, account) \<Rightarrow>
         if n \<noteq> [] then (h2\<lparr>house_owner := guid, house_ownerName := n, house_ownerAccount := account\<rparr>, snd s) else (h2, snd s)
       | None \<Rightarrow> (h2, snd s)))"
    by (simp add: house_setOwner_def hw Let_def split_beta w_def h1_def s_def h2_def split: option.split)
  then show ?thesis using inv set [of guid] set [of 1] by (simp split: option.split)
qed


lemma inv_fields:
  assumes "house_inv e (h, w)" "same_places w w'" "house_owner h' = house_owner h" "house_ownerAccount h' = house_ownerAccount h"
    and "guestList h' = guestList h" "subOwnerList h' = subOwnerList h" "houseTiles h' = houseTiles h"
  shows "house_inv e (h', w')"
  by (rule inv_cong [OF assms(1,2) isInvited_cong]) (simp_all add: assms)

lemma inv_ask: "house_inv e hw \<Longrightarrow> house_inv e (fst hw, ask_game r (snd hw))"
  by (cases hw) (simp, erule inv_fields, simp_all)

lemma new_guid_inv:
  assumes "people_ok e" "house_inv e hw"
  shows "house_inv e (setNewOwnerGuid e g startup hw)"
proof -
  obtain h w where hw: "hw = (h, w)" by (cases hw)
  have upd: "same_places w (update_house_row i f w)" for i f by (simp add: same_places_def update_house_row_def)
  have "house_inv e (if startup then h else h\<lparr>house_newOwnerOnStartup := True\<rparr>, update_house_row i f w)" for i f
    by (rule inv_fields [OF assms(2) [unfolded hw] upd]) simp_all
  with set_owner_inv [OF assms] show ?thesis by (simp add: setNewOwnerGuid_def hw Let_def)
qed

lemma trade_inv:
  assumes "people_ok e" "house_inv e hw"
  shows "house_inv e (onTradeEvent e item event player hw)"
proof -
  have reset: "house_inv e (resetTransferItem (fst hw), snd hw)"
    by (rule inv_fields [of e "fst hw" "snd hw"]) (simp_all add: assms(2) resetTransferItem_def)
  have doc: "house_inv e (h\<lparr>house_transferItem := None\<rparr>, w)" if "house_inv e (h, w)" for h w
    by (rule inv_fields [OF that]) simp_all
  have moved: "house_inv e (if he_transfer_on_restart e then setNewOwnerGuid e (sint (p_guid player)) False hw
      else house_setOwner e (p_guid player) True None hw)"
    using new_guid_inv [OF assms] set_owner_inv [OF assms] by simp
  then have "house_inv e (snd (executeTransfer e item player hw))"
    using doc [of "fst x" "snd x" for x] assms(2) by (simp add: executeTransfer_def Let_def split_beta)
  from inv_ask [OF this, of "RemoveItem item"] show ?thesis
    using reset assms(2) by (simp add: onTradeEvent_def split_beta split: trade_event.split)
qed

lemma rent_inv:
  assumes "people_ok e" "house_inv e hw"
  shows "house_inv e (payHouse e rp hw)"
proof -
  obtain h w where hw: "hw = (h, w)" by (cases hw)
  have st: "standing w" using assms(2) by (simp add: house_inv_def hw)
  let ?t = "snd (tryTransferOwnership e None True (h, w))"
  have "house_owner h \<noteq> 0 \<Longrightarrow> house_inv e (fst ?t, snd ?t)"
    using transfer_spec [of "(h, w)" e None True] st by (intro inv_from_clear [where h = "fst ?t"]) simp_all
  then have gone: "house_owner h \<noteq> 0 \<Longrightarrow> house_inv e ?t" by simp
  have saved: "house_inv e (case x of (h, w) \<Rightarrow> (h, ask_game r w))" if "house_inv e x" for x r
    using inv_ask [OF that, of r] by (simp add: split_beta)
  have paid: "house_inv e (h\<lparr>house_paidUntil := t\<rparr>, ask_game r w)"
    and warned: "house_inv e (h\<lparr>house_warnings := n\<rparr>, ask_game r w)" for t n r
    using assms(2) unfolding hw by (rule inv_fields, simp_all)+
  show ?thesis
    using assms(2) gone saved [OF set_owner_inv [OF assms]] saved [OF paid] saved [OF warned]
    by (simp add: payHouse_def hw Let_def split: option.split prod.split)
qed

lemma put_inv:
  assumes "house_inv e (h, w)"
    and "\<And>q. he_person e c = Some q \<Longrightarrow> to \<in> set (houseTiles h) \<Longrightarrow> isInvited e h (Some q)"
  shows "house_inv e (h, put_creature c to w)"
  using assms by (auto simp: house_inv_def standing_put nobody_inside_def put_fields)

lemma kick_inv:
  assumes "house_inv e (h, w)"
  shows "house_inv e (h, snd (kickPlayer e h player c w))"
proof -
  have "house_inv e (h, put_creature c t w)" if "he_entry e = Some t" "he_admits e t c" "\<not> can_leave e h c \<or> t \<notin> set (houseTiles h)" for t
    using assms that by (auto simp: house_inv_def standing_put nobody_inside_def put_fields)
  then have "house_inv e (h, snd (internalTeleport e c w))"
    using assms by (auto simp: internalTeleport_def can_leave_def split: option.split)
  then show ?thesis using assms by (simp add: kickPlayer_def split: option.split)
qed

lemma item_inv:
  assumes "house_inv e (h, w)"
  shows "house_inv e (updateHouse item h, w)" "house_inv e (removeDoor i (removeBed i h), w)" "house_inv e (snd (getTransferItem i h), w)"
  using assms by (auto simp: updateHouse_def addDoor_def addBed_def removeDoor_def removeBed_def getTransferItem_def
      elim!: inv_fields split: house_item.split)

lemma house_step_inv:
  assumes "house_step e s s'" "people_ok e" "house_inv e s"
  shows "house_inv e s'"
  using assms
proof (induction rule: house_step.induct)
  case (step_in c q to h onlyInvited env v locked flags t w)
  then have "isInvited e h (Some q)"
    by (auto simp: HouseTile_queryAdd_def Let_def PLAYERISNOTINVITED_def split: if_splits)
  with step_in show ?case by (intro put_inv) auto
next
  case (other_in c h w to) then show ?case by (intro put_inv) auto
next
  case (step_elsewhere to h w c) then show ?case by (intro put_inv) auto
next
  case (kick h w player c) then show ?case by (simp add: kick_inv)
qed (auto simp: set_list_inv set_owner_inv trade_inv rent_inv item_inv)



definition open_house :: house where
  "open_house = lived_in\<lparr>guestList := parseList (he_dir street_env) ''*''\<rparr>"

lemma star_everyone: "al_everyone (parseList (he_dir street_env) ''*'')"
  by code_simp

lemma open_house_inv: "house_inv street_env (open_house, street)"
  by (auto simp: house_inv_def nobody_inside_def isInvited_def getHouseAccessLevel_def open_house_def lived_in_def isInList_def
      star_everyone standing_def street_def split: option.splits)


end
