(* ===== verification/House_Rent.thy ===== *)
theory House_Rent
  imports House_Tile
begin

text \<open>
  The rent of a house (\<^verbatim>\<open>Houses::payHouses\<close> in \<^verbatim>\<open>map/house/house.cpp\<close>): a payment takes exactly the rent, and a
  tenant who never pays is warned seven times and then loses the house.
\<close>

definition rent_due :: "house_env \<Rightarrow> house \<Rightarrow> bool" where
  "rent_due e h \<longleftrightarrow> he_town e (house_town h) \<and> house_rent h \<noteq> 0 \<and> \<not> house_paidUntil h > he_now e"

lemma rent_paid:
  assumes "house_owner h \<noteq> 0" "rent_due e h" "he_tenant e (hw_requests w) (house_owner h) = Some p" "\<not> house_lost e p"
    and "house_rent h \<le> tn_balance p" "distinct (map stack_uid (carried (tn_slots p)))"
    and "sum_list (map tree_worth (tn_slots p)) + tn_balance p < 2 ^ 64"
  shows "\<exists>removed change b. payHouse e rp (h, w) = (h\<lparr>house_paidUntil := he_now e + rent_seconds rp\<rparr>,
      ask_game (SavePlayers {house_owner h}) (ask_game (TakeMoney (house_owner h) removed change b) w))
    \<and> removed_worth (carried (tn_slots p)) removed + tn_balance p = house_rent h + change + balance_of b"
proof -
  obtain ok removed change b where m: "removeMoney (tn_slots p) (house_rent h) (Some (tn_balance p)) = (ok, removed, change, b)"
    by (metis prod.exhaust)
  have b: "balance_of (Some (tn_balance p)) = tn_balance p" by (simp add: balance_of_def)
  have "removed_worth (carried (tn_slots p)) removed + tn_balance p = house_rent h + change + balance_of b"
    using removeMoney_spec [of "tn_slots p" "Some (tn_balance p)" "house_rent h"] assms(5-7) by (auto simp: m b)
  with assms(1-5) show ?thesis
    by (intro exI [of _ removed] exI [of _ change] exI [of _ b]) (simp add: payHouse_def Let_def m rent_due_def)
qed

text \<open>The warnings given before a payment are kept, so that a later missed payment counts on from them.\<close>

lemma warnings_survive_payment:
  assumes "house_owner h \<noteq> 0" "rent_due e h" "he_tenant e (hw_requests w) (house_owner h) = Some p" "\<not> house_lost e p"
    and "house_rent h \<le> tn_balance p"
  shows "house_warnings (fst (payHouse e rp (h, w))) = house_warnings h"
  using assms by (simp add: payHouse_def rent_due_def Let_def split: prod.split)

section \<open>The house is lost\<close>

lemma clear_fields:
  "house_owner (fst (clearHouseInfo e False hw)) = 0"
  "guestList (fst (clearHouseInfo e False hw)) = no_access"
  "subOwnerList (fst (clearHouseInfo e False hw)) = no_access"
  "list_all (\<lambda>d. door_access d = no_access) (doorList (fst (clearHouseInfo e False hw)))"
  by (simp_all add: clearHouseInfo_def split_beta Let_def setAccessList_def parse_nothing list_all_iff)

definition nobodys :: "house \<Rightarrow> bool" where
  "nobodys h \<longleftrightarrow> house_owner h = 0 \<and> house_warnings h = 0 \<and> guestList h = no_access \<and> subOwnerList h = no_access
     \<and> list_all (\<lambda>d. door_access d = no_access) (doorList h)"

lemma disowned:
  "house_owner h \<noteq> 0 \<Longrightarrow> nobodys (fst (house_setOwner e 0 True p (h, w)))"
  by (simp add: house_setOwner_def Let_def split_beta nobodys_def tryTransferOwnership_def clear_fields)

lemma nobodys_rent: "house_owner (fst hw) = 0 \<Longrightarrow> payHouse e rp hw = hw"
  by (cases hw) (simp add: payHouse_def Let_def)

definition broke :: "house \<Rightarrow> house_env \<Rightarrow> bool" where
  "broke h e \<longleftrightarrow> rent_due e h \<and> (\<forall>rs. case he_tenant e rs (house_owner h) of None \<Rightarrow> False
     | Some p \<Rightarrow> \<not> house_lost e p \<and> tn_balance p < house_rent h)"

lemma broke_day:
  assumes "house_owner h \<noteq> 0" "broke h e"
  shows "house_warnings h < 7 \<Longrightarrow> fst (payHouse e rp (h, w)) = h\<lparr>house_warnings := house_warnings h + 1\<rparr>"
    and "\<not> house_warnings h < 7 \<Longrightarrow> nobodys (fst (payHouse e rp (h, w)))"
proof -
  obtain p where p: "he_tenant e (hw_requests w) (house_owner h) = Some p" "\<not> house_lost e p" "tn_balance p < house_rent h"
    using assms(2) unfolding broke_def by (auto split: option.splits)
  have due: "rent_due e h" using assms(2) by (simp add: broke_def)
  show "house_warnings h < 7 \<Longrightarrow> fst (payHouse e rp (h, w)) = h\<lparr>house_warnings := house_warnings h + 1\<rparr>"
    using assms(1) p due by (simp add: payHouse_def Let_def rent_due_def)
  show "\<not> house_warnings h < 7 \<Longrightarrow> nobodys (fst (payHouse e rp (h, w)))"
    using assms(1) p due disowned [OF assms(1)] by (simp add: payHouse_def Let_def rent_due_def split_beta)
qed


definition bad_day :: house_env where
  "bad_day = street_env\<lparr>he_now := 6000, he_tenant := (\<lambda>_ g. if g = 7 then Some \<lparr>
     tn_person = \<lparr>p_guid = 7, p_account = 1, p_canEditHouses = False, p_rank = None\<rparr>,
     tn_slots = [], tn_balance = 99, tn_lastLogin = 0, tn_vip = False\<rparr> else None)\<rparr>"


end
