(* ===== verification/Decay.thy ===== *)
theory Decay
  imports Item
begin

text \<open>
  Decaying items (\<^verbatim>\<open>items/decay/decay.cpp\<close>): items numbered, a map from expiry times to the items that expire
  then, and the timer event that looks at its front.  What the game does with an expired item is the
  interface \<^verbatim>\<open>decay_game\<close>, interpreted on the removal and the change of type that the game performs.
\<close>

section \<open>State\<close>

record decay_types =
  dt_items :: item_table
  dt_equipTo :: "u16 \<Rightarrow> u16"
  dt_deEquipTo :: "u16 \<Rightarrow> u16"

record decay_state =
  dk_item :: "nat \<Rightarrow> item"
  dk_removed :: "nat \<Rightarrow> bool"
  decayMap :: "(int \<times> nat list) list"
  decayEventId :: nat
  dk_pending :: "(nat \<times> int) list"
  dk_nextEvent :: nat

definition modify_item :: "nat \<Rightarrow> (item \<Rightarrow> item) \<Rightarrow> decay_state \<Rightarrow> decay_state" where
  "modify_item x f s = s\<lparr>dk_item := (dk_item s)(x := f (dk_item s x))\<rparr>"

definition item_canDecay :: "decay_types \<Rightarrow> decay_state \<Rightarrow> nat \<Rightarrow> bool" where
  "item_canDecay types s x = canDecay (dt_items types) (dk_removed s x) (dk_item s x)"

text \<open>The ordered map of vectors.\<close>

fun bucket_add :: "int \<Rightarrow> nat \<Rightarrow> (int \<times> nat list) list \<Rightarrow> (int \<times> nat list) list" where
  "bucket_add ts x [] = [(ts, [x])]"
| "bucket_add ts x ((k, xs) # m) =
     (if ts < k then (ts, [x]) # (k, xs) # m
      else if ts = k then (k, xs @ [x]) # m
      else (k, xs) # bucket_add ts x m)"

fun bucket_erase :: "int \<Rightarrow> (int \<times> nat list) list \<Rightarrow> (int \<times> nat list) list" where
  "bucket_erase ts [] = []"
| "bucket_erase ts ((k, xs) # m) = (if k = ts then m else (k, xs) # bucket_erase ts m)"

fun bucket_put :: "int \<Rightarrow> nat list \<Rightarrow> (int \<times> nat list) list \<Rightarrow> (int \<times> nat list) list" where
  "bucket_put ts ys [] = []"
| "bucket_put ts ys ((k, xs) # m) = (if k = ts then (k, ys) # m else (k, xs) # bucket_put ts ys m)"

text \<open>The last element takes the place of the one found.\<close>

fun swap_out :: "nat \<Rightarrow> nat list \<Rightarrow> nat list" where
  "swap_out x [] = []"
| "swap_out x (y # ys) = (if y = x then (if ys = [] then [] else last ys # butlast ys) else y # swap_out x ys)"

text \<open>Timer events.\<close>

definition SCHEDULER_MINTICKS :: int where "SCHEDULER_MINTICKS = 50"

definition schedule_check :: "i64 \<Rightarrow> i64 \<Rightarrow> decay_state \<Rightarrow> decay_state" where
  "schedule_check now delay s =
     s\<lparr>decayEventId := dk_nextEvent s, dk_nextEvent := dk_nextEvent s + 1,
       dk_pending := dk_pending s @ [(dk_nextEvent s, sint now + max SCHEDULER_MINTICKS (sint (ucast delay :: i32)))]\<rparr>"

definition stop_check :: "decay_state \<Rightarrow> decay_state" where
  "stop_check s = s\<lparr>dk_pending := filter (\<lambda>e. fst e \<noteq> decayEventId s) (dk_pending s)\<rparr>"

section \<open>Operations\<close>

definition halt_item :: "i64 \<Rightarrow> item \<Rightarrow> item" where
  "halt_item now i = removeAttribute DECAYSTATE (if hasAttribute DURATION i then setDuration (getDuration now i) i else i)"

definition stopDecay :: "i64 \<Rightarrow> nat \<Rightarrow> decay_state \<Rightarrow> decay_state" where
  "stopDecay now x s = (let i = dk_item s x; ts = sint (getInteger DURATION_TIMESTAMP i) in
     if \<not> hasAttribute DECAYSTATE i then s
     else if hasAttribute DURATION_TIMESTAMP i
     then (case map_of (decayMap s) ts of
         Some xs \<Rightarrow>
           if length xs = 1
           then (if hd xs = x then (modify_item x (halt_item now) s)\<lparr>decayMap := bucket_erase ts (decayMap s)\<rparr> else s)
           else if x \<in> set xs
           then (modify_item x (halt_item now) s)\<lparr>decayMap := bucket_put ts (swap_out x xs) (decayMap s)\<rparr>
           else modify_item x (removeAttribute DURATION_TIMESTAMP) s
       | None \<Rightarrow> modify_item x (removeAttribute DURATION_TIMESTAMP) s)
     else modify_item x (removeAttribute DECAYSTATE) s)"

datatype decay_request = RemoveItem nat | TransformItem nat u16

type_synonym game_reply = "i64 \<Rightarrow> decay_request \<Rightarrow> decay_state \<Rightarrow> decay_state"

definition decay_outcome :: "decay_types \<Rightarrow> nat \<Rightarrow> decay_state \<Rightarrow> decay_request option" where
  "decay_outcome types x s = (let i = dk_item s x; it = dt_items types (item_id i) in
     if it_id it = dt_equipTo types (item_id i) \<or> it_id it = dt_deEquipTo types (item_id i) then Some (RemoveItem x)
     else if it_decayTo it \<noteq> 0 then Some (TransformItem x (word_of_int (it_decayTo it)))
     else if loadedFromMap i then None
     else Some (RemoveItem x))"

definition internalDecayItem :: "decay_types \<Rightarrow> game_reply \<Rightarrow> i64 \<Rightarrow> nat \<Rightarrow> decay_state \<Rightarrow> decay_state" where
  "internalDecayItem types game now x s = (case decay_outcome types x s of None \<Rightarrow> s | Some r \<Rightarrow> game now r s)"

definition enlist :: "i64 \<Rightarrow> i64 \<Rightarrow> nat \<Rightarrow> decay_state \<Rightarrow> decay_state" where
  "enlist now duration x s = (let timestamp = now + duration;
     s1 = (case decayMap s of
         [] \<Rightarrow> schedule_check now duration s
       | (k, _) # _ \<Rightarrow> if sint timestamp < k then schedule_check now duration (stop_check s) else s)
     in (modify_item x (\<lambda>i. set_int DURATION_TIMESTAMP timestamp (setDecaying DECAYING_TRUE i)) s1)
          \<lparr>decayMap := bucket_add (sint timestamp) x (decayMap s1)\<rparr>)"

definition startDecay :: "decay_types \<Rightarrow> game_reply \<Rightarrow> i64 \<Rightarrow> nat \<Rightarrow> decay_state \<Rightarrow> decay_state" where
  "startDecay types game now x s =
     (let i = dk_item s x; st = getDecaying i; duration = getInteger DURATION i in
      if st = decay_code DECAYING_STOPPING \<or> (\<not> item_canDecay types s x \<and> st = decay_code DECAYING_TRUE) then stopDecay now x s
      else if \<not> item_canDecay types s x \<or> st = decay_code DECAYING_TRUE then s
      else if sint duration \<le> 0 \<and> hasAttribute DURATION i then internalDecayItem types game now x s
      else if 0 < sint duration
      then enlist now duration x (if hasAttribute DURATION_TIMESTAMP i then stopDecay now x s else s)
      else s)"

definition expire :: "decay_types \<Rightarrow> game_reply \<Rightarrow> i64 \<Rightarrow> nat \<Rightarrow> decay_state \<Rightarrow> decay_state" where
  "expire types game now x s =
     (if \<not> item_canDecay types s x
      then modify_item x (\<lambda>i. setDecaying DECAYING_FALSE (setDuration (getDuration now i) i)) s
      else internalDecayItem types game now x (modify_item x (setDecaying DECAYING_FALSE) s))"

text \<open>
  The iterator that stopped at the first later time is used again after the items were handled; \<open>None\<close> when
  the handling erased the entry it points to.
\<close>

definition checkDecay :: "decay_types \<Rightarrow> game_reply \<Rightarrow> i64 \<Rightarrow> decay_state \<Rightarrow> decay_state option" where
  "checkDecay types game now s =
     (let due = concat (map snd (takeWhile (\<lambda>e. fst e \<le> sint now) (decayMap s)));
          rest = dropWhile (\<lambda>e. fst e \<le> sint now) (decayMap s);
          s1 = fold (expire types game now) due (s\<lparr>decayMap := rest\<rparr>)
      in case rest of
          [] \<Rightarrow> Some s1
        | (k, _) # _ \<Rightarrow> if k \<in> fst ` set (decayMap s1) then Some (schedule_check now (word_of_int k - now) s1) else None)"

section \<open>The map\<close>

definition map_entries :: "(int \<times> nat list) list \<Rightarrow> (int \<times> nat) multiset" where
  "map_entries m = mset (concat (map (\<lambda>(k, xs). map (Pair k) xs) m))"

definition map_ok :: "(int \<times> nat list) list \<Rightarrow> bool" where
  "map_ok m \<longleftrightarrow> sorted_wrt (<) (map fst m) \<and> (\<forall>e \<in> set m. snd e \<noteq> [])"

lemma map_entries_simps [simp]:
  "map_entries [] = {#}" "map_entries ((k, xs) # m) = image_mset (Pair k) (mset xs) + map_entries m"
  "map_entries (m @ m') = map_entries m + map_entries m'"
  by (simp_all add: map_entries_def)

lemma keys_add: "fst ` set (bucket_add ts x m) = insert ts (fst ` set m)"
proof (induction m)
  case (Cons e m)
  then show ?case by (cases e) (simp add: insert_commute)
qed simp

lemma bucket_add_spec:
  assumes "map_ok m"
  shows "map_ok (bucket_add ts x m)" "map_entries (bucket_add ts x m) = add_mset (ts, x) (map_entries m)"
proof -
  show "map_ok (bucket_add ts x m)"
    using assms
  proof (induction m)
    case (Cons e m)
    obtain k xs where e: "e = (k, xs)" by force
    have "\<forall>j \<in> insert ts (fst ` set m). k < j" if "k < ts" using Cons.prems that by (auto simp: map_ok_def e)
    then have "sorted_wrt (<) (map fst ((k, xs) # bucket_add ts x m))" if "k < ts"
      using Cons that keys_add [of ts x m] by (auto simp: map_ok_def e simp del: keys_add)
    then show ?case using Cons by (auto simp: map_ok_def e)
  qed (simp add: map_ok_def)
  show "map_entries (bucket_add ts x m) = add_mset (ts, x) (map_entries m)" by (induction m) auto
qed

lemma map_ok_Cons: "map_ok ((k, xs) # m) \<longleftrightarrow> xs \<noteq> [] \<and> (\<forall>j \<in> fst ` set m. k < j) \<and> map_ok m"
  by (auto simp: map_ok_def)

lemma mset_swap_out: "x \<in> set xs \<Longrightarrow> mset xs = add_mset x (mset (swap_out x xs))"
proof (induction xs)
  case (Cons y ys)
  have "mset ys = add_mset (last ys) (mset (butlast ys))" if "ys \<noteq> []"
    using append_butlast_last_id [OF that] by (metis add_mset_add_single mset.simps(1) mset.simps(2) mset_append)
  then show ?case using Cons by (auto split: if_splits)
qed simp

lemma bucket_put_spec:
  assumes "map_ok m" "map_of m ts = Some xs" "x \<in> set xs" "length xs \<noteq> 1"
  shows "map_ok (bucket_put ts (swap_out x xs) m)"
    "map_entries m = add_mset (ts, x) (map_entries (bucket_put ts (swap_out x xs) m))"
    "fst ` set (bucket_put ts (swap_out x xs) m) = fst ` set m"
proof -
  have keys: "map fst (bucket_put ts ys m) = map fst m" for ys by (induction m) auto
  have size: "size (mset xs) = Suc (size (mset (swap_out x xs)))" using mset_swap_out [OF assms(3)] by simp
  then have ne: "swap_out x xs \<noteq> []" using assms(4) by auto
  have "snd e \<noteq> []" if "e \<in> set (bucket_put ts ys m)" "ys \<noteq> []" "\<forall>e \<in> set m. snd e \<noteq> []" for e ys
    using that by (induction m) (auto split: if_splits)
  then show "map_ok (bucket_put ts (swap_out x xs) m)" using assms(1) ne by (simp add: map_ok_def keys)
  show "map_entries m = add_mset (ts, x) (map_entries (bucket_put ts (swap_out x xs) m))"
    using assms(2) mset_swap_out [OF assms(3)] by (induction m) (auto split: if_splits)
  show "fst ` set (bucket_put ts (swap_out x xs) m) = fst ` set m" using keys by (metis list.set_map)
qed

lemma bucket_erase_spec:
  assumes "map_ok m" "map_of m ts = Some [x]"
  shows "map_ok (bucket_erase ts m)" "map_entries m = add_mset (ts, x) (map_entries (bucket_erase ts m))"
    "set (bucket_erase ts m) \<subseteq> set m"
proof -
  have sub: "set (bucket_erase ts m) \<subseteq> set m" for m by (induction m) (auto split: if_splits)
  show "set (bucket_erase ts m) \<subseteq> set m" by (rule sub)
  show "map_ok (bucket_erase ts m)" using assms(1)
  proof (induction m)
    case (Cons e m)
    then show ?case using sub [of m] by (cases e) (auto simp: map_ok_Cons)
  qed simp
  show "map_entries m = add_mset (ts, x) (map_entries (bucket_erase ts m))"
    using assms(2) by (induction m) (auto split: if_splits)
qed

lemma map_entries_member: "(ts, x) \<in># map_entries m \<longleftrightarrow> (\<exists>xs. (ts, xs) \<in> set m \<and> x \<in> set xs)"
  by (induction m) auto

lemma map_ok_lookup: "map_ok m \<Longrightarrow> (ts, xs) \<in> set m \<Longrightarrow> map_of m ts = Some xs"
  by (induction m) (force simp: map_ok_Cons split: if_splits)+

section \<open>Items and the map agree\<close>

definition item_stamp :: "item \<Rightarrow> int" where "item_stamp i = sint (getInteger DURATION_TIMESTAMP i)"

definition duration_ok :: "item \<Rightarrow> bool" where
  "duration_ok i \<longleftrightarrow> item_ok i \<and> sint (getInteger DURATION i) < 2 ^ 62"

text \<open>
  The map holds no item twice and each under its time stamp; every item whose state says that it decays is in
  the map.  Durations are such that times do not overflow.  The items of \<open>D\<close> have been taken out of the map and
  wait for the running check to handle them.
\<close>

definition agrees :: "nat set \<Rightarrow> (int \<times> nat) multiset \<Rightarrow> (nat \<Rightarrow> item) \<Rightarrow> bool" where
  "agrees D E items \<longleftrightarrow> (\<forall>e. count E e \<le> 1) \<and> (\<forall>x. duration_ok (items x))
     \<and> (\<forall>ts x. (ts, x) \<in># E \<longrightarrow> x \<notin> D \<and> hasAttribute DECAYSTATE (items x) \<and> hasAttribute DURATION_TIMESTAMP (items x)
          \<and> item_stamp (items x) = ts)
     \<and> (\<forall>x. x \<notin> D \<longrightarrow> getDecaying (items x) = decay_code DECAYING_TRUE \<longrightarrow> (item_stamp (items x), x) \<in># E)"

definition decay_but :: "nat set \<Rightarrow> decay_state \<Rightarrow> bool" where
  "decay_but D s \<longleftrightarrow> map_ok (decayMap s) \<and> agrees D (map_entries (decayMap s)) (dk_item s)"

abbreviation decay_ok :: "decay_state \<Rightarrow> bool" where
  "decay_ok \<equiv> decay_but {}"

definition listed :: "nat \<Rightarrow> decay_state \<Rightarrow> bool" where
  "listed x s \<longleftrightarrow> (\<exists>ts. (ts, x) \<in># map_entries (decayMap s))"

lemma agrees_change:
  "agrees D E items \<Longrightarrow> (\<And>ts. (ts, x) \<notin># E) \<Longrightarrow> duration_ok i \<Longrightarrow> getDecaying i \<noteq> decay_code DECAYING_TRUE \<Longrightarrow> agrees D E (items(x := i))"
  by (auto simp: agrees_def)

lemma agrees_take:
  assumes "agrees D (add_mset (ts, x) E) items"
  shows "\<And>ts'. (ts', x) \<notin># E"
    and "duration_ok i \<Longrightarrow> getDecaying i \<noteq> decay_code DECAYING_TRUE \<Longrightarrow> agrees D E (items(x := i))"
proof -
  have c: "\<And>e. count (add_mset (ts, x) E) e \<le> 1" using assms unfolding agrees_def by blast
  have le: "count E e \<le> count (add_mset (ts, x) E) e" for e by simp
  show out: "(ts', x) \<notin># E" for ts'
  proof
    assume m: "(ts', x) \<in># E"
    have stamp: "(t, y) \<in># add_mset (ts, x) E \<Longrightarrow> item_stamp (items y) = t" for t y
      using assms unfolding agrees_def by blast
    have "ts' = ts" using stamp [of ts' x] stamp [of ts x] m by simp
    then show False using c [of "(ts, x)"] m by (simp add: count_eq_zero_iff)
  qed
  have "count E e \<le> 1" for e using c le order_trans by blast
  moreover have "(ts', y) \<in># E \<Longrightarrow> y \<noteq> x" for ts' y using out by auto
  ultimately show "duration_ok i \<Longrightarrow> getDecaying i \<noteq> decay_code DECAYING_TRUE \<Longrightarrow> agrees D E (items(x := i))"
    using assms unfolding agrees_def by auto
qed

lemma agrees_put:
  assumes "agrees D E items" "x \<notin> D" "\<And>ts. (ts, x) \<notin># E" "duration_ok i" "hasAttribute DECAYSTATE i"
    "hasAttribute DURATION_TIMESTAMP i" "item_stamp i = ts"
  shows "agrees D (add_mset (ts, x) E) (items(x := i))"
proof -
  have "count (add_mset (ts, x) E) e \<le> 1" for e
  proof (cases "e = (ts, x)")
    case True
    then show ?thesis using assms(3) [of ts] by (simp add: count_eq_zero_iff)
  next
    case False
    then show ?thesis using assms(1) unfolding agrees_def by (cases e) auto
  qed
  then show ?thesis using assms unfolding agrees_def by auto
qed

lemmas attr_view = hasAttribute_attr getInteger_attr getDecaying_def isAttributeInteger_def

lemma max0_bound: "sint (scast (max0 d) :: i64) < 2 ^ 62"
proof -
  have "sint (max0 d) < 2 ^ 31" using sint_lt [of "max0 d"] by simp
  moreover have "sint (scast (max0 d) :: i64) = sint (max0 d)" by (rule sint_up_scast) (simp add: is_up)
  ultimately show ?thesis by simp
qed

lemma setDuration_ok: "duration_ok i \<Longrightarrow> duration_ok (setDuration d i)"
  using max0_bound [of d] by (auto simp: duration_ok_def setDuration_def set_int_item getInteger_attr isAttributeInteger_def)

lemma halt_item_ok:
  assumes "duration_ok i"
  shows "duration_ok (halt_item now i)" "getDecaying (halt_item now i) = 0" "\<not> hasAttribute DECAYSTATE (halt_item now i)"
proof -
  have "duration_ok j \<Longrightarrow> duration_ok (removeAttribute DECAYSTATE j)" for j
    by (auto simp: duration_ok_def removeAttribute_item getInteger_attr)
  then show "duration_ok (halt_item now i)" using assms setDuration_ok by (simp add: halt_item_def)
  have "item_ok j \<Longrightarrow> item_attr (removeAttribute DECAYSTATE j) DECAYSTATE = None" for j by (simp add: removeAttribute_item)
  then have "item_attr (halt_item now i) DECAYSTATE = None"
    using assms setDuration_ok [OF assms, of "getDuration now i"] by (simp add: halt_item_def duration_ok_def)
  then show "getDecaying (halt_item now i) = 0" "\<not> hasAttribute DECAYSTATE (halt_item now i)" by (simp_all add: attr_view)
qed

lemma unset_ok:
  assumes "duration_ok i"
  shows "duration_ok (removeAttribute DURATION_TIMESTAMP i)" "getDecaying (removeAttribute DURATION_TIMESTAMP i) = getDecaying i"
    "duration_ok (removeAttribute DECAYSTATE i)" "getDecaying (removeAttribute DECAYSTATE i) = 0"
    "duration_ok (setDecaying DECAYING_FALSE i)" "getDecaying (setDecaying DECAYING_FALSE i) = 0"
  using assms by (auto simp: duration_ok_def removeAttribute_item set_int_item setDecaying_def attr_view)

definition mark_decaying :: "i64 \<Rightarrow> item \<Rightarrow> item" where
  "mark_decaying timestamp i = set_int DURATION_TIMESTAMP timestamp (setDecaying DECAYING_TRUE i)"

lemma mark_ok:
  assumes "duration_ok i"
  shows "duration_ok (mark_decaying w i)" "hasAttribute DECAYSTATE (mark_decaying w i)"
    "hasAttribute DURATION_TIMESTAMP (mark_decaying w i)" "item_stamp (mark_decaying w i) = sint w"
  using assms by (auto simp: mark_decaying_def duration_ok_def removeAttribute_item set_int_item setDecaying_def attr_view item_stamp_def)

section \<open>Every operation keeps the agreement\<close>

definition time_ok :: "i64 \<Rightarrow> bool" where
  "time_ok now \<longleftrightarrow> 0 \<le> sint now \<and> sint now < 2 ^ 62"

text \<open>
  An entry at \<open>t\<close> is attended to when a pending check comes at most the minimal tick later; \<open>k\<close> is the time
  from which on a running check takes care of the map_entries itself.
\<close>

definition due_by :: "int \<Rightarrow> decay_state \<Rightarrow> bool" where
  "due_by t s \<longleftrightarrow> (\<exists>e \<in> set (dk_pending s). snd e \<le> t + SCHEDULER_MINTICKS)"

definition timer_ok :: "int option \<Rightarrow> decay_state \<Rightarrow> bool" where
  "timer_ok k s \<longleftrightarrow> (\<forall>t \<in> fst ` set (decayMap s). (case k of Some j \<Rightarrow> j \<le> t | None \<Rightarrow> False) \<or> due_by t s)"

lemma modify_item_fields [simp]:
  "decayMap (modify_item x f s) = decayMap s" "dk_pending (modify_item x f s) = dk_pending s"
  "dk_item (modify_item x f s) = (dk_item s)(x := f (dk_item s x))" "dk_removed (modify_item x f s) = dk_removed s"
  "due_by t (modify_item x f s) = due_by t s"
  by (simp_all add: modify_item_def due_by_def)

lemma decay_butD: "decay_but D s \<Longrightarrow> map_ok (decayMap s)" "decay_but D s \<Longrightarrow> agrees D (map_entries (decayMap s)) (dk_item s)"
  by (simp_all add: decay_but_def)

lemma listed_stamp:
  "decay_but D s \<Longrightarrow> (ts, x) \<in># map_entries (decayMap s) \<Longrightarrow>
     hasAttribute DECAYSTATE (dk_item s x) \<and> hasAttribute DURATION_TIMESTAMP (dk_item s x) \<and> item_stamp (dk_item s x) = ts"
  by (auto simp: decay_but_def agrees_def)

lemma item_duration_ok: "decay_but D s \<Longrightarrow> duration_ok (dk_item s x)"
  by (simp add: decay_but_def agrees_def)

lemma change_unlisted:
  assumes "decay_but D s" "\<not> listed x s" "duration_ok (f (dk_item s x))" "getDecaying (f (dk_item s x)) \<noteq> decay_code DECAYING_TRUE"
  shows "decay_but D (modify_item x f s)"
  using assms agrees_change [of D _ "dk_item s" x] by (simp add: decay_but_def listed_def)

lemma take_listed:
  assumes "decay_but D s" "map_entries (decayMap s) = add_mset (ts, x) (map_entries m)" "map_ok m"
  shows "decay_but D ((modify_item x (halt_item now) s)\<lparr>decayMap := m\<rparr>)"
    "\<not> listed x ((modify_item x (halt_item now) s)\<lparr>decayMap := m\<rparr>)"
proof -
  have agr: "agrees D (add_mset (ts, x) (map_entries m)) (dk_item s)" using assms(1,2) by (simp add: decay_but_def)
  show "decay_but D ((modify_item x (halt_item now) s)\<lparr>decayMap := m\<rparr>)"
    using agrees_take(2) [OF agr] halt_item_ok [OF item_duration_ok [OF assms(1)]] assms(3) by (simp add: decay_but_def)
  show "\<not> listed x ((modify_item x (halt_item now) s)\<lparr>decayMap := m\<rparr>)"
    using agrees_take(1) [OF agr] by (simp add: listed_def)
qed

definition kept :: "nat set \<Rightarrow> decay_state \<Rightarrow> decay_state \<Rightarrow> bool" where
  "kept D s s' \<longleftrightarrow> decay_but D s' \<and> dk_pending s' = dk_pending s \<and> fst ` set (decayMap s') \<subseteq> fst ` set (decayMap s)"

lemma stopDecay_spec:
  assumes "decay_but D s" and xD: "x \<notin> D"
  shows "kept D s (stopDecay now x s) \<and> \<not> listed x (stopDecay now x s)"
proof -
  let ?i = "dk_item s x" let ?ts = "item_stamp ?i"
  have mok: "map_ok (decayMap s)" and dok: "duration_ok ?i" using assms item_duration_ok by (auto simp: decay_but_def)
  have no_entry: "\<not> listed x s" if "\<not> (hasAttribute DECAYSTATE ?i \<and> hasAttribute DURATION_TIMESTAMP ?i \<and> (?ts, x) \<in># map_entries (decayMap s))"
    using that listed_stamp [OF assms(1)] by (auto simp: listed_def)
  have not_true: "getDecaying ?i \<noteq> decay_code DECAYING_TRUE" if "\<not> listed x s"
    using assms(1) that xD by (auto simp: decay_but_def agrees_def listed_def)
  have unset: "kept D s (modify_item x f s) \<and> \<not> listed x (modify_item x f s)"
    if "\<not> listed x s" "f = removeAttribute DURATION_TIMESTAMP \<or> f = removeAttribute DECAYSTATE" for f
    using change_unlisted [OF assms(1), of x f] that unset_ok [OF dok] not_true by (auto simp: kept_def listed_def)
  show ?thesis
  proof (cases "hasAttribute DECAYSTATE ?i \<and> hasAttribute DURATION_TIMESTAMP ?i")
    case False
    then show ?thesis using no_entry unset assms by (auto simp: stopDecay_def Let_def kept_def)
  next
    case True
    show ?thesis
    proof (cases "map_of (decayMap s) ?ts")
      case None
      then have "\<not> listed x s" using no_entry map_ok_lookup [OF mok] by (fastforce simp: map_entries_member)
      then show ?thesis using True None unset by (simp add: stopDecay_def Let_def item_stamp_def)
    next
      case (Some xs)
      have x_in: "x \<in> set xs" if "(?ts, x) \<in># map_entries (decayMap s)"
        using that map_ok_lookup [OF mok] Some by (auto simp: map_entries_member)
      show ?thesis
      proof (cases "x \<in> set xs")
        case False
        then have "\<not> listed x s" using no_entry x_in by blast
        moreover have "length xs = 1 \<Longrightarrow> hd xs \<noteq> x" using False by (cases xs) auto
        ultimately show ?thesis using True Some False unset assms by (simp add: stopDecay_def Let_def item_stamp_def kept_def)
      next
        case x: True
        show ?thesis
        proof (cases "length xs = 1")
          case True
          then have xs: "xs = [x]" using x by (cases xs) auto
          note spec = bucket_erase_spec [OF mok Some [unfolded xs]]
          show ?thesis using take_listed [OF assms(1) spec(2) spec(1), of now] spec(3) \<open>hasAttribute DECAYSTATE ?i \<and> _\<close> Some xs
            by (auto simp: stopDecay_def Let_def item_stamp_def kept_def)
        next
          case False
          note spec = bucket_put_spec [OF mok Some x False]
          show ?thesis using take_listed [OF assms(1) spec(2) spec(1), of now] spec(3) True Some False x
            by (auto simp: stopDecay_def Let_def item_stamp_def kept_def)
        qed
      qed
    qed
  qed
qed

lemma kept_timer: "kept D s s' \<Longrightarrow> timer_ok k s \<Longrightarrow> timer_ok k s'"
  unfolding kept_def timer_ok_def due_by_def by (metis subset_iff)

lemma narrow_le: "0 < sint d \<Longrightarrow> sint (ucast (d :: i64) :: i32) \<le> sint d"
proof -
  assume "0 < sint d"
  have "sint (ucast d :: i32) = signed_take_bit 31 (sint d)"
    by (simp add: sint_uint unsigned_ucast_eq signed_take_bit_take_bit)
  then show ?thesis using \<open>0 < sint d\<close> by (simp add: signed_take_bit_int_less_eq_self_iff)
qed

lemma sum_time:
  assumes "time_ok now" "0 < sint d" "sint (d :: i64) < 2 ^ 62"
  shows "sint (now + d) = sint now + sint d"
  using assms sint_word_ariths(1) [of now d] by (simp add: time_ok_def signed_take_bit_int_eq_self)

lemma schedule_check_fields [simp]:
  "decayMap (schedule_check now d s) = decayMap s" "dk_item (schedule_check now d s) = dk_item s"
  "decayMap (stop_check s) = decayMap s" "dk_item (stop_check s) = dk_item s"
  by (simp_all add: schedule_check_def stop_check_def)

lemma schedule_due:
  assumes "0 < sint d" "sint now + sint d \<le> t"
  shows "due_by t (schedule_check now d s)"
proof -
  have "sint now + max SCHEDULER_MINTICKS (sint (ucast d :: i32)) \<le> t + SCHEDULER_MINTICKS"
    using narrow_le [OF assms(1)] assms by (simp add: SCHEDULER_MINTICKS_def max_def)
  then show ?thesis by (simp add: due_by_def schedule_check_def)
qed

lemma schedule_mono: "due_by t s \<Longrightarrow> due_by t (schedule_check now d s)"
  by (auto simp: due_by_def schedule_check_def)

lemma due_by_later: "due_by t s \<Longrightarrow> t \<le> u \<Longrightarrow> due_by u s"
  unfolding due_by_def by (meson add_right_mono order_trans)

lemma enlist_spec:
  assumes ok: "decay_but D s" and xD: "x \<notin> D" and x: "\<not> listed x s" and now: "time_ok now" and d: "0 < sint d" "sint d < 2 ^ 62"
  shows "decay_but D (enlist now d x s)" "timer_ok k s \<Longrightarrow> timer_ok k (enlist now d x s)"
    "(sint now + sint d, x) \<in># map_entries (decayMap (enlist now d x s))"
proof -
  let ?ts = "sint (now + d)"
  define s1 where "s1 = (case decayMap s of
         [] \<Rightarrow> schedule_check now d s
       | (k, _) # _ \<Rightarrow> if ?ts < k then schedule_check now d (stop_check s) else s)"
  have same: "decayMap s1 = decayMap s" "dk_item s1 = dk_item s" by (auto simp: s1_def split: list.splits)
  have mok: "map_ok (decayMap s)" using ok by (rule decay_butD)
  have enl: "enlist now d x s = (modify_item x (mark_decaying (now + d)) s1)\<lparr>decayMap := bucket_add ?ts x (decayMap s)\<rparr>"
    by (simp add: enlist_def Let_def s1_def [symmetric] same mark_decaying_def [abs_def])
  note mark = mark_ok [OF item_duration_ok [OF ok, of x], of "now + d"]
  show "decay_but D (enlist now d x s)"
    using agrees_put [OF decay_butD(2) [OF ok] xD _ mark(1-3), where ts = ?ts] x mark(4) bucket_add_spec [OF mok, of ?ts x]
    by (simp add: enl decay_but_def listed_def same)
  have sum: "?ts = sint now + sint d" using sum_time [OF now d] .
  show "(sint now + sint d, x) \<in># map_entries (decayMap (enlist now d x s))"
    by (simp add: enl bucket_add_spec(2) [OF mok] sum)
  have due_new: "due_by t (schedule_check now d s')" if "?ts \<le> t" for t s' using schedule_due [OF d(1)] that sum by simp
  show "timer_ok k (enlist now d x s)" if t: "timer_ok k s"
  proof (cases "decayMap s")
    case Nil
    then show ?thesis by (simp add: timer_ok_def enl s1_def due_by_def [symmetric])
        (use due_new in \<open>simp add: due_by_def schedule_check_def\<close>)
  next
    case (Cons e m)
    obtain j ys where e: "e = (j, ys)" by force
    have least: "j \<le> u" if "u \<in> fst ` set (decayMap s)" for u using mok that Cons e by (auto simp: map_ok_Cons)
    have due: "due_by u (enlist now d x s) = due_by u s1" for u by (simp add: enl due_by_def)
    have keys: "fst ` set (decayMap (enlist now d x s)) = insert ?ts (fst ` set (decayMap s))" by (simp add: enl keys_add)
    show ?thesis
    proof (cases "?ts < j")
      case True
      then have "due_by u s1" if "u \<in> insert ?ts (fst ` set (decayMap s))" for u
        using due_new least that Cons e by (fastforce simp: s1_def)
      then show ?thesis unfolding timer_ok_def due keys by blast
    next
      case False
      then have s1: "s1 = s" using Cons e by (simp add: s1_def)
      have "(case k of Some i \<Rightarrow> i \<le> u | None \<Rightarrow> False) \<or> due_by u s" if "u \<in> insert ?ts (fst ` set (decayMap s))" for u
      proof -
        have "(case k of Some i \<Rightarrow> i \<le> j | None \<Rightarrow> False) \<or> due_by j s" using t Cons e by (simp add: timer_ok_def)
        moreover have "j \<le> u" using that least False by auto
        ultimately show ?thesis using due_by_later by (auto split: option.splits)
      qed
      then show ?thesis unfolding timer_ok_def due keys s1 by blast
    qed
  qed
qed

lemma sub_time:
  assumes "time_ok now" "sint now < sint (w :: i64)"
  shows "sint (w - now) = sint w - sint now"
proof -
  have "sint w < 2 ^ 63" using sint_lt [of w] by simp
  then show ?thesis using assms sint_word_ariths(2) [of w now] by (simp add: time_ok_def signed_take_bit_int_eq_self)
qed

lemma agrees_done:
  assumes "agrees (insert x D) E items" "x \<notin> D" "duration_ok i" "getDecaying i \<noteq> decay_code DECAYING_TRUE"
  shows "agrees D E (items(x := i))"
  using assms unfolding agrees_def by auto

lemma map_entries_pairs: "map_entries m = mset (concat (map (\<lambda>(k, xs). map (Pair k) xs) m))"
  by (simp add: map_entries_def)

lemma agrees_split:
  assumes "agrees {} (map_entries (m @ rest)) items"
  shows "agrees (set (concat (map snd m))) (map_entries rest) items \<and> distinct (concat (map snd m))"
proof -
  let ?ps = "concat (map (\<lambda>(k, xs). map (Pair k) xs) m)"
  have snds: "map snd ?ps = concat (map snd m)" by (induction m) (auto simp: comp_def)
  have c: "count (map_entries m + map_entries rest) e \<le> 1" for e using assms unfolding agrees_def by (cases e) simp
  then have "count (mset ?ps) e \<le> 1" for e by (metis add_leD1 count_union map_entries_pairs)
  then have d: "distinct ?ps" by (simp add: distinct_count_atmost_1 count_mset_0_iff le_Suc_eq) (metis count_mset_0_iff le_antisym less_one linorder_not_less)
  have stamp: "(t, y) \<in># map_entries m + map_entries rest \<Longrightarrow> item_stamp (items y) = t" for t y using assms unfolding agrees_def by auto
  have "inj_on snd (set ?ps)"
  proof (rule inj_onI)
    fix p q assume "p \<in> set ?ps" "q \<in> set ?ps" "snd p = snd q"
    then have "p \<in># map_entries m" "q \<in># map_entries m" by (simp_all only: map_entries_pairs set_mset_mset)
    then have "item_stamp (items (snd p)) = fst p" "item_stamp (items (snd q)) = fst q"
      using stamp [of "fst p" "snd p"] stamp [of "fst q" "snd q"] by simp_all
    then show "p = q" using \<open>snd p = snd q\<close> by (simp add: prod_eq_iff)
  qed
  then have dist: "distinct (concat (map snd m))" using d by (simp add: distinct_map flip: snds)
  have members: "x \<in> set (concat (map snd m)) \<Longrightarrow> (item_stamp (items x), x) \<in># map_entries m" for x
  proof -
    assume "x \<in> set (concat (map snd m))"
    then obtain t xs where "(t, xs) \<in> set m" "x \<in> set xs" by auto
    then have "(t, x) \<in># map_entries m" using map_entries_member by blast
    then show ?thesis using stamp [of t x] by simp
  qed
  have apart: "x \<notin> set (concat (map snd m))" if "(t, x) \<in># map_entries rest" for t x
  proof
    assume "x \<in> set (concat (map snd m))"
    then have "(t, x) \<in># map_entries m" using members [of x] stamp [of t x] that by simp
    then have "1 \<le> count (map_entries m) (t, x)" "1 \<le> count (map_entries rest) (t, x)"
      using that by (simp_all only: count_greater_eq_one_iff)
    then show False using c [of "(t, x)"] by (simp only: count_union)
  qed
  have le1: "count (map_entries rest) e \<le> 1" for e using c [of e] by simp
  have "(t, x) \<in># map_entries m \<Longrightarrow> x \<in> set (concat (map snd m))" for t x by (force simp: map_entries_member)
  then have in_rest: "(item_stamp (items x), x) \<in># map_entries rest"
    if "x \<notin> set (concat (map snd m))" "getDecaying (items x) = decay_code DECAYING_TRUE" for x
    using assms that unfolding agrees_def by (metis empty_iff map_entries_simps(3) union_iff)
  have view: "duration_ok (items x)" "(t, x) \<in># map_entries rest \<Longrightarrow> hasAttribute DECAYSTATE (items x) \<and> hasAttribute DURATION_TIMESTAMP (items x)" for t x
    using assms unfolding agrees_def by auto
  have "agrees (set (concat (map snd m))) (map_entries rest) items"
    unfolding agrees_def
  proof (intro conjI allI impI)
    fix t x assume "(t, x) \<in># map_entries rest"
    then show "x \<notin> set (concat (map snd m))" "hasAttribute DECAYSTATE (items x)" "hasAttribute DURATION_TIMESTAMP (items x)"
      "item_stamp (items x) = t" using apart view stamp [of t x] by auto
  qed (use le1 view(1) in_rest in \<open>auto simp del: set_concat\<close>)
  then show ?thesis using dist by blast
qed

section \<open>The game behind the timer\<close>

text \<open>
  What the game does to an item that has expired may stop and start the decay of any items; it keeps the
  agreement, and the pending check in time.
\<close>

fun requested :: "decay_request \<Rightarrow> nat" where
  "requested (RemoveItem x) = x"
| "requested (TransformItem x n) = x"

lemma outcome_item: "decay_outcome types x s = Some r \<Longrightarrow> requested r = x"
  by (auto simp: decay_outcome_def Let_def split: if_splits)

locale decay_game =
  fixes game :: game_reply
  assumes game_later: "time_ok now \<Longrightarrow> requested r \<notin> D \<Longrightarrow> decay_but D s
      \<Longrightarrow> fst ` set (decayMap (game now r s)) \<subseteq> fst ` set (decayMap s) \<union> {t. sint now < t}"
    and game_ok: "time_ok now \<Longrightarrow> requested r \<notin> D \<Longrightarrow> decay_but D s \<Longrightarrow> decay_but D (game now r s)"
    and game_timer: "time_ok now \<Longrightarrow> requested r \<notin> D \<Longrightarrow> decay_but D s \<Longrightarrow> timer_ok k s \<Longrightarrow> timer_ok k (game now r s)"
begin

lemma internal_ok:
  assumes "time_ok now" "x \<notin> D" "decay_but D s"
  shows "decay_but D (internalDecayItem types game now x s)"
    "timer_ok k s \<Longrightarrow> timer_ok k (internalDecayItem types game now x s)"
  using assms game_ok game_timer outcome_item by (auto simp: internalDecayItem_def split: option.split)

lemma start_ok:
  assumes "time_ok now" "x \<notin> D" "decay_but D s"
  shows "decay_but D (startDecay types game now x s)" "timer_ok k s \<Longrightarrow> timer_ok k (startDecay types game now x s)"
proof -
  let ?i = "dk_item s x"
  let ?s = "if hasAttribute DURATION_TIMESTAMP ?i then stopDecay now x s else s"
  have stop: "kept D s (stopDecay now x s)" "\<not> listed x (stopDecay now x s)" using stopDecay_spec [OF assms(3,2)] by auto
  have "decay_but D ?s" "timer_ok k s \<Longrightarrow> timer_ok k ?s" for k
    using stop(1) assms(3) kept_timer by (auto simp: kept_def)
  moreover have "\<not> listed x ?s" using stop(2) listed_stamp [OF assms(3)] by (auto simp: listed_def)
  moreover have "sint (getInteger DURATION ?i) < 2 ^ 62" using item_duration_ok [OF assms(3)] by (simp add: duration_ok_def)
  ultimately have "0 < sint (getInteger DURATION ?i) \<Longrightarrow> decay_but D (enlist now (getInteger DURATION ?i) x ?s)"
    "0 < sint (getInteger DURATION ?i) \<Longrightarrow> timer_ok k s \<Longrightarrow> timer_ok k (enlist now (getInteger DURATION ?i) x ?s)" for k
    using enlist_spec [of D ?s x now "getInteger DURATION ?i"] assms(1,2) by auto
  then show "decay_but D (startDecay types game now x s)" "timer_ok k s \<Longrightarrow> timer_ok k (startDecay types game now x s)"
    using internal_ok [OF assms] stop(1) kept_timer [OF stop(1)] assms(3)
    by (auto simp: startDecay_def Let_def kept_def)
qed

lemma internal_later:
  "time_ok now \<Longrightarrow> x \<notin> D \<Longrightarrow> decay_but D s
     \<Longrightarrow> fst ` set (decayMap (internalDecayItem types game now x s)) \<subseteq> fst ` set (decayMap s) \<union> {t. sint now < t}"
proof (cases "decay_outcome types x s")
  case (Some r)
  moreover assume "time_ok now" "x \<notin> D" "decay_but D s"
  ultimately show ?thesis using game_later [of now r D s] outcome_item [of types x s r] by (simp add: internalDecayItem_def)
qed (simp add: internalDecayItem_def)

lemma expire_ok:
  assumes "time_ok now" "x \<notin> D" "decay_but (insert x D) s"
  shows "decay_but D (expire types game now x s)" "timer_ok k s \<Longrightarrow> timer_ok k (expire types game now x s)"
    "fst ` set (decayMap (expire types game now x s)) \<subseteq> fst ` set (decayMap s) \<union> {t. sint now < t}"
proof -
  have dok: "duration_ok (dk_item s x)" using item_duration_ok [OF assms(3)] .
  let ?f = "\<lambda>i. setDecaying DECAYING_FALSE (setDuration (getDuration now i) i)"
  have handled: "decay_but D (modify_item x f s)" if "f = ?f \<or> f = setDecaying DECAYING_FALSE" for f
    using agrees_done [of x D _ "dk_item s" "f (dk_item s x)"] assms(2,3) that unset_ok [OF dok] unset_ok [OF setDuration_ok [OF dok]]
    by (auto simp: decay_but_def)
  have t: "timer_ok k (modify_item x f s) = timer_ok k s" for f by (simp add: timer_ok_def)
  show "decay_but D (expire types game now x s)" "timer_ok k s \<Longrightarrow> timer_ok k (expire types game now x s)"
    using handled internal_ok [OF assms(1,2), of "modify_item x (setDecaying DECAYING_FALSE) s"] t by (auto simp: expire_def)
  show "fst ` set (decayMap (expire types game now x s)) \<subseteq> fst ` set (decayMap s) \<union> {t. sint now < t}"
    using handled internal_later [OF assms(1,2), of "modify_item x (setDecaying DECAYING_FALSE) s"] by (auto simp: expire_def)
qed

lemma expire_all_ok:
  assumes "time_ok now" "distinct xs" "decay_but (set xs) s"
  shows "decay_ok (fold (expire types game now) xs s) \<and> (timer_ok k s \<longrightarrow> timer_ok k (fold (expire types game now) xs s))
    \<and> fst ` set (decayMap (fold (expire types game now) xs s)) \<subseteq> fst ` set (decayMap s) \<union> {t. sint now < t}"
  using assms(2,3)
proof (induction xs arbitrary: s)
  case (Cons x xs)
  then have "decay_but (set xs) (expire types game now x s)" using expire_ok(1) [OF assms(1), of x "set xs" s] by simp
  then have IH: "decay_ok (fold (expire types game now) (x # xs) s)"
    "timer_ok k (expire types game now x s) \<longrightarrow> timer_ok k (fold (expire types game now) (x # xs) s)"
    "fst ` set (decayMap (fold (expire types game now) (x # xs) s))
       \<subseteq> fst ` set (decayMap (expire types game now x s)) \<union> {t. sint now < t}"
    using Cons.IH [of "expire types game now x s"] Cons.prems by simp_all
  moreover have "fst ` set (decayMap (expire types game now x s)) \<subseteq> fst ` set (decayMap s) \<union> {t. sint now < t}"
    using expire_ok(3) [OF assms(1), of x "set xs" s] Cons.prems by simp
  ultimately show ?case using expire_ok(2) [OF assms(1), of x "set xs" s k types] Cons.prems by auto
qed simp

lemma check_ok:
  assumes "time_ok now" "decay_ok s" "checkDecay types game now s = Some s'"
  shows "decay_ok s'" "timer_ok None s'" "\<forall>t \<in> fst ` set (decayMap s'). sint now < t"
proof -
  let ?P = "\<lambda>e. fst e \<le> sint now"
  define before where "before = takeWhile ?P (decayMap s)"
  define rest where "rest = dropWhile ?P (decayMap s)"
  define s1 where "s1 = fold (expire types game now) (concat (map snd before)) (s\<lparr>decayMap := rest\<rparr>)"
  have split: "decayMap s = before @ rest" by (simp add: before_def rest_def)
  have mok: "map_ok rest" "map_ok (decayMap s)" using assms(2) split by (auto simp: decay_but_def map_ok_def sorted_wrt_append)
  have later: "sint now < t" if "t \<in> fst ` set rest" for t
  proof (cases rest)
    case (Cons e m)
    then have "\<not> ?P e" using hd_dropWhile [of ?P "decayMap s"] by (simp add: rest_def [symmetric])
    then show ?thesis using that mok(1) Cons by (cases e) (fastforce simp: map_ok_Cons)
  qed (use that in simp)
  have "decay_but (set (concat (map snd before))) (s\<lparr>decayMap := rest\<rparr>)" "distinct (concat (map snd before))"
    using agrees_split [of before rest "dk_item s"] assms(2) mok by (auto simp: decay_but_def split)
  note all = expire_all_ok [OF assms(1) this(2,1), of types, folded s1_def]
  have ok1: "decay_ok s1" and keys1: "fst ` set (decayMap s1) \<subseteq> fst ` set rest \<union> {t. sint now < t}" using all by auto
  have res: "(case rest of [] \<Rightarrow> Some s1
        | (k, _) # _ \<Rightarrow> if k \<in> fst ` set (decayMap s1) then Some (schedule_check now (word_of_int k - now) s1) else None) = Some s'"
    using assms(3) unfolding checkDecay_def Let_def before_def [symmetric] rest_def [symmetric] s1_def [symmetric] .
  have same: "decayMap s' = decayMap s1" "dk_item s' = dk_item s1" using res by (auto split: list.splits if_splits)
  show "\<forall>t \<in> fst ` set (decayMap s'). sint now < t" 
    using same keys1 later by auto
  show "decay_ok s'" using ok1 unfolding decay_but_def same .
  show "timer_ok None s'"
  proof (cases rest)
    case Nil
    then have "timer_ok None s1" using all [of None] by (simp add: timer_ok_def)
    then show ?thesis using res Nil by simp
  next
    case (Cons e m)
    obtain k xs where e: "e = (k, xs)" by force
    have k: "k \<in> fst ` set (decayMap s1)" and s': "s' = schedule_check now (word_of_int k - now) s1"
      using res Cons e by (auto split: if_splits)
    have "timer_ok (Some k) (s\<lparr>decayMap := rest\<rparr>)" using mok(1) Cons e by (auto simp: timer_ok_def map_ok_Cons)
    then have t1: "timer_ok (Some k) s1" using all by blast
    obtain ys where ys: "(k, ys) \<in> set (decayMap s)" "ys \<noteq> []" using mok(1) Cons e split by (auto simp: map_ok_Cons)
    then obtain x where "(k, x) \<in># map_entries (decayMap s)" using map_entries_member by (metis list.set_intros(1) neq_Nil_conv)
    then have "k = sint (getInteger DURATION_TIMESTAMP (dk_item s x))" using listed_stamp [OF assms(2)] by (simp add: item_stamp_def)
    then have "sint (word_of_int k :: i64) = k" by simp
    moreover have "sint now < k" using later Cons e by auto
    ultimately have "sint (word_of_int k - now) = k - sint now" using sub_time [of now "word_of_int k"] assms(1) by simp
    then have "due_by t s'" if "k \<le> t" for t unfolding s' using schedule_due [of "word_of_int k - now" now t s1] that \<open>sint now < k\<close> by simp
    then show ?thesis using t1 schedule_mono [of _ s1] by (auto simp: timer_ok_def s')
  qed
qed

end

text \<open>
  The game's side: a removed item stops decaying; an item that changes its type gets the new type's duration
  and starts again, which may expire it at once, up to a depth.
\<close>

fun world_game :: "decay_types \<Rightarrow> nat \<Rightarrow> game_reply" where
  "world_game types 0 now r s = s"
| "world_game types (Suc n) now (RemoveItem x) s = stopDecay now x (s\<lparr>dk_removed := (dk_removed s)(x := True)\<rparr>)"
| "world_game types (Suc n) now (TransformItem x newId) s =
     startDecay types (world_game types n) now x (modify_item x (setID (dt_items types) newId) s)"

lemma change_kept:
  assumes "decay_but D s" "duration_ok (f (dk_item s x))"
    "hasAttribute DECAYSTATE (dk_item s x) \<longrightarrow> hasAttribute DECAYSTATE (f (dk_item s x))"
    "item_attr (f (dk_item s x)) DURATION_TIMESTAMP = item_attr (dk_item s x) DURATION_TIMESTAMP"
    "getDecaying (f (dk_item s x)) = decay_code DECAYING_TRUE \<longrightarrow> getDecaying (dk_item s x) = decay_code DECAYING_TRUE"
  shows "decay_but D (modify_item x f s)"
proof -
  have "hasAttribute DURATION_TIMESTAMP (f (dk_item s x)) = hasAttribute DURATION_TIMESTAMP (dk_item s x)"
    "item_stamp (f (dk_item s x)) = item_stamp (dk_item s x)" using assms(4) by (simp_all add: attr_view item_stamp_def)
  then show ?thesis using assms by (simp add: decay_but_def agrees_def)
qed

lemma setDecaying_attr:
  assumes "item_ok i" "d \<noteq> DECAYING_FALSE"
  shows "item_ok (setDecaying d i)"
    "item_attr (setDecaying d i) u = (if u = DECAYSTATE then Some (IntV (ucast (decay_code d))) else item_attr i u)"
  using assms by (simp_all add: setDecaying_def set_int_item isAttributeInteger_def)

lemma setDuration_attr:
  assumes "item_ok i"
  shows "item_ok (setDuration d i)"
    "item_attr (setDuration d i) u = (if u = DURATION then Some (IntV (scast (max0 d))) else item_attr i u)"
  using assms by (simp_all add: setDuration_def set_int_item isAttributeInteger_def)

lemma setID_decay:
  assumes "duration_ok i"
  shows "duration_ok (setID types n i)" "hasAttribute DECAYSTATE i \<longrightarrow> hasAttribute DECAYSTATE (setID types n i)"
    "item_attr (setID types n i) DURATION_TIMESTAMP = item_attr i DURATION_TIMESTAMP"
    "getDecaying (setID types n i) = decay_code DECAYING_TRUE \<longrightarrow> getDecaying i = decay_code DECAYING_TRUE"
proof -
  define keeps where "keeps j \<longleftrightarrow> duration_ok j \<and> (hasAttribute DECAYSTATE i \<longrightarrow> hasAttribute DECAYSTATE j)
    \<and> item_attr j DURATION_TIMESTAMP = item_attr i DURATION_TIMESTAMP
    \<and> (getDecaying j = decay_code DECAYING_TRUE \<longrightarrow> getDecaying i = decay_code DECAYING_TRUE)" for j
  have same: "item_attr (i\<lparr>item_id := n\<rparr>) = item_attr i" "item_ok (i\<lparr>item_id := n\<rparr>) = item_ok i"
    by (simp_all add: item_attr_def item_ok_def fun_eq_iff)
  then have start: "keeps (i\<lparr>item_id := n\<rparr>)" using assms by (simp add: keeps_def duration_ok_def attr_view)
  have drop: "keeps (removeAttribute u j)" if "keeps j" "u = DURATION \<or> u = CORPSEOWNER" for u j
    using that by (auto simp: keeps_def duration_ok_def removeAttribute_item attr_view)
  have mark: "keeps (setDecaying d j)" if "keeps j" "d = DECAYING_STOPPING \<or> d = DECAYING_PENDING" for d j
    using that by (auto simp: keeps_def duration_ok_def setDecaying_attr attr_view)
  have dur: "keeps (setDuration d j)" if "keeps j" for d j
    using that setDuration_ok [of j d] by (auto simp: keeps_def duration_ok_def setDuration_attr attr_view)
  have steps: "keeps j \<Longrightarrow> keeps (if a then removeAttribute DURATION (if b then setDecaying DECAYING_STOPPING j else j) else j)"
    "keeps j \<Longrightarrow> keeps (if a then removeAttribute CORPSEOWNER j else j)"
    "keeps j \<Longrightarrow> keeps (if a then setDuration d (setDecaying DECAYING_PENDING j) else j)" for a b d j
    using drop mark dur by simp_all
  have "keeps (setID types n i)" unfolding setID_def Let_def by (intro steps start)
  then show "duration_ok (setID types n i)" "hasAttribute DECAYSTATE i \<longrightarrow> hasAttribute DECAYSTATE (setID types n i)"
    "item_attr (setID types n i) DURATION_TIMESTAMP = item_attr i DURATION_TIMESTAMP"
    "getDecaying (setID types n i) = decay_code DECAYING_TRUE \<longrightarrow> getDecaying i = decay_code DECAYING_TRUE"
    by (auto simp: keeps_def)
qed

lemma keys_enlist: "map_ok (decayMap s) \<Longrightarrow> fst ` set (decayMap (enlist now d x s)) = insert (sint (now + d)) (fst ` set (decayMap s))"
  by (auto simp: enlist_def Let_def keys_add split: list.splits)

lemma start_keys:
  assumes "time_ok now" "x \<notin> D" "decay_but D s"
    "\<And>r. requested r = x \<Longrightarrow> fst ` set (decayMap (game now r s)) \<subseteq> fst ` set (decayMap s) \<union> {t. sint now < t}"
  shows "fst ` set (decayMap (startDecay types game now x s)) \<subseteq> fst ` set (decayMap s) \<union> {t. sint now < t}"
proof -
  let ?d = "getInteger DURATION (dk_item s x)"
  have stop: "decay_but D (stopDecay now x s)" "fst ` set (decayMap (stopDecay now x s)) \<subseteq> fst ` set (decayMap s)"
    using stopDecay_spec [OF assms(3,2), of now] by (auto simp: kept_def)
  have "sint (now + ?d) = sint now + sint ?d" if "0 < sint ?d"
    using sum_time [OF assms(1) that] item_duration_ok [OF assms(3), of x] by (simp add: duration_ok_def)
  then have enl: "fst ` set (decayMap (enlist now ?d x s')) \<subseteq> fst ` set (decayMap s') \<union> {t. sint now < t}"
    if "0 < sint ?d" "decay_but D s'" for s'
    using that keys_enlist [OF decay_butD(1) [OF that(2)], of now ?d x] by auto
  have internal: "fst ` set (decayMap (internalDecayItem types game now x s)) \<subseteq> fst ` set (decayMap s) \<union> {t. sint now < t}"
  proof (cases "decay_outcome types x s")
    case (Some r)
    then show ?thesis using assms(4) [OF outcome_item [OF Some]] by (simp add: internalDecayItem_def)
  qed (simp add: internalDecayItem_def)
  show ?thesis
    unfolding startDecay_def Let_def
    using stop internal enl [of s] enl [of "stopDecay now x s"] assms(3) by (simp split: if_split) blast
qed

lemma change_laws:
  assumes "decay_but D s"
  shows "decay_but D (modify_item x (setID items n) s)" "timer_ok k (modify_item x (setID items n) s) = timer_ok k s"
    "decay_but D (s\<lparr>dk_removed := r\<rparr>)" "timer_ok k (s\<lparr>dk_removed := r\<rparr>) = timer_ok k s"
  using change_kept [OF assms, of "setID items n" x] setID_decay [OF item_duration_ok [OF assms]] assms
  by (simp_all add: timer_ok_def due_by_def decay_but_def)

lemma world_game_law: "decay_game (world_game types n)"
proof (induction n)
  case 0
  show ?case by unfold_locales auto
next
  case (Suc n)
  note start = decay_game.start_ok [OF Suc]
  show ?case
  proof
    fix now r D s k
    assume a: "time_ok now" "requested r \<notin> D" "decay_but D s"
    show "fst ` set (decayMap (world_game types (Suc n) now r s)) \<subseteq> fst ` set (decayMap s) \<union> {t. sint now < t}"
    proof (cases r)
      case (RemoveItem x)
      then show ?thesis using stopDecay_spec [OF change_laws(3) [OF a(3)], where x = x and now = now] a(2) by (auto simp: kept_def)
    next
      case (TransformItem x i)
      let ?s = "modify_item x (setID (dt_items types) i) s"
      have "fst ` set (decayMap (world_game types n now q ?s)) \<subseteq> fst ` set (decayMap ?s) \<union> {t. sint now < t}" if "requested q = x" for q
        by (rule decay_game.game_later [OF Suc a(1) _ change_laws(1) [OF a(3)]]) (use that a(2) TransformItem in simp)
      then show ?thesis using start_keys [OF a(1) _ change_laws(1) [OF a(3)], of x] a(2) TransformItem by simp
    qed
    show "decay_but D (world_game types (Suc n) now r s)"
      using stopDecay_spec [OF change_laws(3) [OF a(3)], where now = now] start(1) [OF a(1) _ change_laws(1) [OF a(3)]] a(2)
      by (cases r) (auto simp: kept_def)
    show "timer_ok k (world_game types (Suc n) now r s)" if "timer_ok k s"
    proof (cases r)
      case (RemoveItem x)
      let ?s = "s\<lparr>dk_removed := (dk_removed s)(x := True)\<rparr>"
      have "kept D ?s (stopDecay now x ?s)" using stopDecay_spec [OF change_laws(3) [OF a(3)], of x] a(2) RemoveItem by simp
      then show ?thesis using kept_timer [of D ?s _ k] that change_laws(4) [OF a(3)] RemoveItem by simp
    next
      case (TransformItem x i)
      then show ?thesis using start(2) [OF a(1) _ change_laws(1) [OF a(3)]] a(2) that change_laws(2) [OF a(3)] by simp
    qed
  qed
qed

interpretation world: decay_game "world_game types n" for types n
  by (rule world_game_law)

section \<open>Runs\<close>

text \<open>
  The items start without decaying.  A step starts or stops an item, changes the type of one, or runs a check
  whose time has come; \<open>n\<close> bounds the chain of types an item goes through at one moment.
\<close>

inductive decay_step :: "decay_types \<Rightarrow> nat \<Rightarrow> decay_state \<Rightarrow> decay_state \<Rightarrow> bool" for types n where
  Start: "time_ok now \<Longrightarrow> decay_step types n s (startDecay types (world_game types n) now x s)"
| Stop: "decay_step types n s (stopDecay now x s)"
| Retype: "decay_step types n s (modify_item x (setID (dt_items types) newId) s)"
| Give: "hasAttribute DECAYSTATE (dk_item s x) = False \<Longrightarrow> sint (scast d :: i64) < 2 ^ 62 \<Longrightarrow> decay_step types n s (modify_item x (setDuration d) s)"
| Fire: "time_ok now \<Longrightarrow> e \<in> set (dk_pending s) \<Longrightarrow> snd e \<le> sint now
    \<Longrightarrow> checkDecay types (world_game types n) now (s\<lparr>dk_pending := remove1 e (dk_pending s)\<rparr>) = Some s' \<Longrightarrow> decay_step types n s s'"

inductive decay_run :: "decay_types \<Rightarrow> nat \<Rightarrow> decay_state \<Rightarrow> decay_state \<Rightarrow> bool" for types n s0 where
  Begin: "decay_run types n s0 s0"
| Then: "decay_run types n s0 s \<Longrightarrow> decay_step types n s s' \<Longrightarrow> decay_run types n s0 s'"

definition idle_decay :: "decay_state \<Rightarrow> bool" where
  "idle_decay s \<longleftrightarrow> decayMap s = [] \<and> (\<forall>x. duration_ok (dk_item s x) \<and> \<not> hasAttribute DECAYSTATE (dk_item s x))"

lemma idle_ok: "idle_decay s \<Longrightarrow> decay_ok s \<and> timer_ok None s"
  by (auto simp: idle_decay_def decay_but_def map_ok_def agrees_def timer_ok_def attr_view)

lemma give_ok:
  assumes "decay_ok s" "\<not> hasAttribute DECAYSTATE (dk_item s x)"
  shows "decay_ok (modify_item x (setDuration d) s)"
proof (rule change_kept [OF assms(1)])
  have ok: "duration_ok (dk_item s x)" using item_duration_ok [OF assms(1)] .
  then show "duration_ok (setDuration d (dk_item s x))" by (rule setDuration_ok)
  show "hasAttribute DECAYSTATE (dk_item s x) \<longrightarrow> hasAttribute DECAYSTATE (setDuration d (dk_item s x))"
    "item_attr (setDuration d (dk_item s x)) DURATION_TIMESTAMP = item_attr (dk_item s x) DURATION_TIMESTAMP"
    "getDecaying (setDuration d (dk_item s x)) = decay_code DECAYING_TRUE \<longrightarrow> getDecaying (dk_item s x) = decay_code DECAYING_TRUE"
    using ok assms(2) by (auto simp: duration_ok_def setDuration_attr attr_view)
qed

lemma decay_step_ok:
  assumes "decay_step types n s s'" "decay_ok s" "timer_ok None s"
  shows "decay_ok s' \<and> timer_ok None s'"
  using assms
proof cases
  case (Start now x)
  then show ?thesis using world.start_ok [of now x "{}" s] assms(2,3) by simp
next
  case (Stop now x)
  then show ?thesis using stopDecay_spec [OF assms(2), of x now] kept_timer assms(3) by (auto simp: kept_def)
next
  case (Retype x newId)
  then show ?thesis using change_laws(1,2) [OF assms(2)] assms(3) by simp
next
  case (Give x d)
  then show ?thesis using give_ok [OF assms(2)] assms(3) by (simp add: timer_ok_def)
next
  case (Fire now e)
  have "decay_ok (s\<lparr>dk_pending := remove1 e (dk_pending s)\<rparr>)" using assms(2) by (simp add: decay_but_def)
  from world.check_ok(1,2) [OF Fire(1) this Fire(4)] show ?thesis by simp
qed

lemma decay_run_ok:
  assumes "decay_run types n s0 s" "idle_decay s0"
  shows "decay_ok s \<and> timer_ok None s"
  using assms by (induction rule: decay_run.induct) (use idle_ok decay_step_ok in blast)+


lemma map_ok_cut:
  assumes "map_ok m"
  shows "takeWhile (\<lambda>e. fst e \<le> b) m = filter (\<lambda>e. fst e \<le> b) m" "dropWhile (\<lambda>e. fst e \<le> b) m = filter (\<lambda>e. b < fst e) m"
proof -
  have "takeWhile (\<lambda>e. fst e \<le> b) m = filter (\<lambda>e. fst e \<le> b) m \<and> dropWhile (\<lambda>e. fst e \<le> b) m = filter (\<lambda>e. b < fst e) m"
    using assms
  proof (induction m)
    case (Cons e m)
    obtain k xs where e: "e = (k, xs)" by force
    have "filter (\<lambda>e. fst e \<le> b) m = [] \<and> filter (\<lambda>e. b < fst e) m = m" if "b < k"
      using Cons.prems that by (force simp: e map_ok_Cons filter_empty_conv filter_id_conv)
    then show ?case using Cons by (auto simp: e map_ok_Cons)
  qed simp
  then show "takeWhile (\<lambda>e. fst e \<le> b) m = filter (\<lambda>e. fst e \<le> b) m" "dropWhile (\<lambda>e. fst e \<le> b) m = filter (\<lambda>e. b < fst e) m" by auto
qed

lemma bucket_order:
  assumes "map_ok m" "\<And>k xs x. (k, xs) \<in> set m \<Longrightarrow> x \<in> set xs \<Longrightarrow> f x = k"
  shows "sorted (map f (concat (map snd m)))"
  using assms
proof (induction m)
  case (Cons e m)
  obtain k xs where e: "e = (k, xs)" by force
  have "map f xs = replicate (length xs) k" using Cons.prems(2) [of k xs] by (auto simp: e intro: replicate_eqI)
  moreover have "k \<le> f y" if "(j, ys) \<in> set m" "y \<in> set ys" for j ys y
    using that Cons.prems(2) [of j ys y] Cons.prems(1) by (force simp: e map_ok_Cons)
  moreover have "sorted (map f (concat (map snd m)))"
  proof (rule Cons.IH)
    show "map_ok m" using Cons.prems(1) by (simp add: e map_ok_Cons)
    show "f x = j" if "(j, ys) \<in> set m" "x \<in> set ys" for j ys x using Cons.prems(2) [of j ys x] that by simp
  qed
  ultimately show ?case by (auto simp: e sorted_append)
qed simp

text \<open>
  A check hands every item whose time has come to the game, in order of time and each once, and leaves
  only items that expire later in the map.
\<close>
theorem check_expires_due_items:
  assumes "decay_run types n s0 s" "idle_decay s0" "time_ok now" "checkDecay types (world_game types n) now s = Some s'"
  shows "(\<exists>due. sorted (map (\<lambda>x. item_stamp (dk_item s x)) due) \<and> distinct due
        \<and> (\<forall>x. x \<in> set due \<longleftrightarrow> (\<exists>ts xs. (ts, xs) \<in> set (decayMap s) \<and> x \<in> set xs \<and> ts \<le> sint now))
        \<and> decayMap s' = decayMap (fold (expire types (world_game types n) now) due
             (s\<lparr>decayMap := filter (\<lambda>e. sint now < fst e) (decayMap s)\<rparr>)))
    \<and> (\<forall>ts xs. (ts, xs) \<in> set (decayMap s') \<longrightarrow> sint now < ts)"
proof -
  note ok = decay_run_ok [OF assms(1,2), THEN conjunct1]
  have mok: "map_ok (decayMap s)" using ok by (rule decay_butD)
  define before where "before = filter (\<lambda>e. fst e \<le> sint now) (decayMap s)"
  let ?due = "concat (map snd before)" let ?rest = "filter (\<lambda>e. sint now < fst e) (decayMap s)"
  have bok: "map_ok before" using mok by (simp add: before_def map_ok_def sorted_wrt_map sorted_wrt_filter)
  have stamp: "item_stamp (dk_item s x) = k" if "(k, xs) \<in> set before" "x \<in> set xs" for k xs x
    using listed_stamp [OF ok] that by (auto simp: before_def map_entries_member)
  have split: "decayMap s = before @ ?rest"
    using map_ok_cut [OF mok, of "sint now"] takeWhile_dropWhile_id by (metis before_def)
  have "agrees {} (map_entries (before @ ?rest)) (dk_item s)" using ok split by (simp add: decay_but_def)
  then have "distinct ?due" using agrees_split by blast
  moreover have "sorted (map (\<lambda>x. item_stamp (dk_item s x)) ?due)" using bucket_order [OF bok stamp] .
  moreover have "x \<in> set ?due \<longleftrightarrow> (\<exists>ts xs. (ts, xs) \<in> set (decayMap s) \<and> x \<in> set xs \<and> ts \<le> sint now)" for x
    by (force simp: before_def)
  moreover have "decayMap s' = decayMap (fold (expire types (world_game types n) now) ?due (s\<lparr>decayMap := ?rest\<rparr>))"
    using assms(4) unfolding checkDecay_def Let_def map_ok_cut [OF mok] before_def [symmetric]
    by (auto split: list.splits if_splits)
  moreover have "\<forall>ts xs. (ts, xs) \<in> set (decayMap s') \<longrightarrow> sint now < ts"
    using world.check_ok(3) [OF assms(3) ok assms(4)] by force
  ultimately show ?thesis by blast
qed

section \<open>An example\<close>

definition torch_type :: item_type where
  "torch_type = \<lparr>it_id = 5, it_group = ITEM_GROUP_NONE, it_type = ITEM_TYPE_NONE, it_decayTime = 1, it_charges = 0,
     it_weight = 10, it_decayTo = 0, it_stackSize = 100, it_maxItems = 8, it_ammo = False, it_stackable = False,
     it_movable = True, it_pickupable = True, it_stopTime = False, it_isCorpse = False, it_wareId = 0,
     it_transformOnUse = 0, it_wrapableTo = 0, it_canWriteText = False, it_upgradeClassification = 0\<rparr>"

definition torch :: "i64 \<Rightarrow> item" where
  "torch d = \<lparr>item_id = 5, item_count = 1, attributeVector = [(DURATION, IntV d)], customAttributeMap = [],
     loadedFromMap = False, decayDisabled = False\<rparr>"

definition torch_types :: decay_types where
  "torch_types = \<lparr>dt_items = (\<lambda>_. torch_type), dt_equipTo = (\<lambda>_. 0), dt_deEquipTo = (\<lambda>_. 0)\<rparr>"

definition torches :: decay_state where
  "torches = \<lparr>dk_item = (\<lambda>x. torch (if x = 0 then 1000 else 5000)), dk_removed = (\<lambda>_. False), decayMap = [], decayEventId = 0,
     dk_pending = [], dk_nextEvent = 1\<rparr>"

definition lit :: decay_state where
  "lit = startDecay torch_types (world_game torch_types 1) 0 1 (startDecay torch_types (world_game torch_types 1) 0 0 torches)"

lemma torch_view:
  "item_attr (torch d) t = (if t = DURATION then Some (IntV d) else None)" "item_ok (torch d)"
  "canDecay (\<lambda>_. torch_type) False (torch d)"
  by (auto simp: item_attr_def item_ok_def torch_def get_attr_def attrs_ok_def custom_ok_def isAttributeInteger_def canDecay_def
      torch_type_def hasAttribute_def has_attr_def)

lemma torches_idle: "idle_decay torches"
  unfolding idle_decay_def
proof (intro conjI allI)
  show "decayMap torches = []" by (simp add: torches_def)
  fix x
  have "duration_ok (torch d) \<and> \<not> hasAttribute DECAYSTATE (torch d)" if "sint d < 2 ^ 62" for d
    unfolding duration_ok_def hasAttribute_attr getInteger_attr torch_view(1) using that by (simp add: torch_view(2) isAttributeInteger_def)
  moreover have "sint (1000 :: i64) < 2 ^ 62" "sint (5000 :: i64) < 2 ^ 62" by simp_all
  ultimately have "duration_ok (torch 1000) \<and> \<not> hasAttribute DECAYSTATE (torch 1000)" "duration_ok (torch 5000) \<and> \<not> hasAttribute DECAYSTATE (torch 5000)"
    by blast+
  then show "duration_ok (dk_item torches x)" "\<not> hasAttribute DECAYSTATE (dk_item torches x)" by (simp_all add: torches_def)
qed

lemma torches_lit: "decay_run torch_types 1 torches lit"
proof -
  have t: "time_ok 0" by (simp add: time_ok_def)
  show ?thesis unfolding lit_def
    by (rule decay_run.Then [OF decay_run.Then [OF decay_run.Begin decay_step.Start [OF t]] decay_step.Start [OF t]])
qed

lemma light_torch:
  assumes "dk_item s x = torch d" "\<not> dk_removed s x" "0 < sint d"
  shows "decayMap (startDecay torch_types g now x s) = bucket_add (sint (now + d)) x (decayMap s)"
    "dk_removed (startDecay torch_types g now x s) = dk_removed s"
    "y \<noteq> x \<Longrightarrow> dk_item (startDecay torch_types g now x s) y = dk_item s y"
  using assms
  by (auto simp: startDecay_def Let_def item_canDecay_def torch_types_def torch_view attr_view enlist_def schedule_check_def stop_check_def
      split: list.split)

lemma lit_map: "decayMap lit = [(1000, [0]), (5000, [1])]"
proof -
  have s: "sint (1000 :: i64) = 1000" "sint (5000 :: i64) = 5000" "sint (10000 :: i64) = 10000" by simp_all
  let ?one = "startDecay torch_types (world_game torch_types 1) 0 0 torches"
  have "dk_item torches 0 = torch 1000" "dk_item torches 1 = torch 5000" "\<not> dk_removed torches 0" "\<not> dk_removed torches 1" "decayMap torches = []"
    by (simp_all add: torches_def)
  then have "decayMap ?one = [(1000, [0])]" "dk_item ?one 1 = torch 5000" "\<not> dk_removed ?one 1"
    using light_torch(1) [of torches 0 1000 "world_game torch_types 1" 0] light_torch(2) [of torches 0 1000 "world_game torch_types 1" 0]
      light_torch(3) [of torches 0 1000 1 "world_game torch_types 1" 0] by (simp_all add: s)
  then show ?thesis
    using light_torch(1) [of ?one 1 5000 "world_game torch_types 1" 0] by (simp add: lit_def s)
qed

lemma torches_checked: "\<exists>s. checkDecay torch_types (world_game torch_types 1) 10000 lit = Some s"
proof -
  have "dropWhile (\<lambda>e. fst e \<le> sint (10000 :: i64)) (decayMap lit) = []" by (simp add: lit_map)
  then show ?thesis unfolding checkDecay_def Let_def by (simp only: list.case) blast
qed


theorem check_expires_due_items_witness:
  "\<exists>(s :: decay_state) due. distinct due \<and> decayMap s = decayMap (fold (expire torch_types (world_game torch_types 1) 10000) due
             (lit\<lparr>decayMap := filter (\<lambda>e. sint (10000 :: i64) < fst e) (decayMap lit)\<rparr>))"
proof -
  have "time_ok 10000" by (simp add: time_ok_def) 
  moreover obtain s where "checkDecay torch_types (world_game torch_types 1) 10000 lit = Some s" using torches_checked by blast
  ultimately show ?thesis using check_expires_due_items [OF torches_lit torches_idle, of 10000 s] by blast
qed

section \<open>Departures\<close>

text \<open>
  Emptying the map leaves the pending check alone, and the next item to start schedules another one: each
  later reschedules itself, so the checks multiply.
\<close>

lemma checks_pile_up:
  assumes "decayMap s = [(ts, [x])]" "hasAttribute DECAYSTATE (dk_item s x)" "hasAttribute DURATION_TIMESTAMP (dk_item s x)"
    "item_stamp (dk_item s x) = ts" "dk_pending s = [e]"
  shows "decayMap (stopDecay now x s) = []" "length (dk_pending (enlist now d y (stopDecay now x s))) = 2"
proof -
  have "stopDecay now x s = (modify_item x (halt_item now) s)\<lparr>decayMap := []\<rparr>"
    using assms by (simp add: stopDecay_def Let_def item_stamp_def)
  then show "decayMap (stopDecay now x s) = []" "length (dk_pending (enlist now d y (stopDecay now x s))) = 2"
    using assms(5) by (simp_all add: enlist_def Let_def schedule_check_def)
qed

text \<open>The check goes on with an iterator whose entry the handling of the due items may have erased.\<close>

lemma check_may_dangle:
  assumes "decayMap s = [(t, [x]), (u, [y])]" "t \<le> sint now" "sint now < u" "item_canDecay types s x"
    "decay_outcome types x (modify_item x (setDecaying DECAYING_FALSE) (s\<lparr>decayMap := [(u, [y])]\<rparr>)) = Some (RemoveItem x)"
    "x \<noteq> y" "hasAttribute DECAYSTATE (dk_item s y)" "hasAttribute DURATION_TIMESTAMP (dk_item s y)" "item_stamp (dk_item s y) = u"
  shows "checkDecay types (\<lambda>now r. stopDecay now y) now s = None"
  using assms by (simp add: checkDecay_def Let_def expire_def item_canDecay_def internalDecayItem_def stopDecay_def item_stamp_def)

end
