(* ===== verification/Game_View.thy ===== *)
theory Game_View
  imports Tile
begin

text \<open>
  What a client is told about the map (\<^verbatim>\<open>server/network/protocol/protocolgame.cpp\<close>): the viewport, the
  description of tiles and floors with their run-length skips, the creatures a client knows, and the rows
  and columns sent when the player moves.  A message is a list of the parts it is made of, an item, a
  creature or a skip; what an item or creature looks like on the wire is left out.
\<close>

section \<open>The viewport\<close>

definition MAP_MAX_CLIENT_VIEW_PORT_X :: int where "MAP_MAX_CLIENT_VIEW_PORT_X = 8"
definition MAP_MAX_CLIENT_VIEW_PORT_Y :: int where "MAP_MAX_CLIENT_VIEW_PORT_Y = 6"
definition MAP_MAX_LAYERS :: int where "MAP_MAX_LAYERS = 16"
definition MAP_INIT_SURFACE_LAYER :: int where "MAP_INIT_SURFACE_LAYER = 7"
definition MAP_LAYER_VIEW_LIMIT :: int where "MAP_LAYER_VIEW_LIMIT = 2"

lemmas map_consts = MAP_MAX_CLIENT_VIEW_PORT_X_def MAP_MAX_CLIENT_VIEW_PORT_Y_def MAP_MAX_LAYERS_def
  MAP_INIT_SURFACE_LAYER_def MAP_LAYER_VIEW_LIMIT_def

type_synonym spot = "int \<times> int \<times> int"

definition canSeePos :: "spot \<Rightarrow> spot \<Rightarrow> bool" where
  "canSeePos my p = (case (my, p) of ((mx, my, mz), (x, y, z)) \<Rightarrow>
     if mz \<le> MAP_INIT_SURFACE_LAYER \<and> z > MAP_INIT_SURFACE_LAYER then False
     else if mz > MAP_INIT_SURFACE_LAYER \<and> \<bar>mz - z\<bar> > MAP_LAYER_VIEW_LIMIT then False
     else (let offsetz = mz - z in
       x \<ge> mx - MAP_MAX_CLIENT_VIEW_PORT_X + offsetz \<and> x \<le> mx + (MAP_MAX_CLIENT_VIEW_PORT_X + 1) + offsetz
       \<and> y \<ge> my - MAP_MAX_CLIENT_VIEW_PORT_Y + offsetz \<and> y \<le> my + (MAP_MAX_CLIENT_VIEW_PORT_Y + 1) + offsetz))"

text \<open>The places a floor description goes through, columns first.\<close>

definition floor_places :: "int \<Rightarrow> int \<Rightarrow> int \<Rightarrow> nat \<Rightarrow> nat \<Rightarrow> int \<Rightarrow> spot list" where
  "floor_places x y z width height offset =
     concat (map (\<lambda>nx. map (\<lambda>ny. (x + int nx + offset, y + int ny + offset, z)) [0..<height]) [0..<width])"

definition view_floors :: "int \<Rightarrow> int list" where
  "view_floors z =
     (if z > MAP_INIT_SURFACE_LAYER
      then [z - MAP_LAYER_VIEW_LIMIT .. min (MAP_MAX_LAYERS - 1) (z + MAP_LAYER_VIEW_LIMIT)]
      else rev [0 .. MAP_INIT_SURFACE_LAYER])"

definition map_places :: "int \<Rightarrow> int \<Rightarrow> int \<Rightarrow> nat \<Rightarrow> nat \<Rightarrow> spot list" where
  "map_places x y z width height = concat (map (\<lambda>nz. floor_places x y nz width height (z - nz)) (view_floors z))"

section \<open>Creatures the client knows\<close>

text \<open>
  The set is listed in the order in which iteration meets it, which an insertion may choose; \<open>mayForget\<close>
  says that a creature is out of sight, and no player of the same party.
\<close>

record viewer =
  vw_id :: nat
  vw_see :: "nat \<Rightarrow> bool"
  vw_mayForget :: "nat \<Rightarrow> bool"
  vw_insert :: "nat \<Rightarrow> nat list \<Rightarrow> nat list"
  vw_old :: bool

definition checkCreatureAsKnown :: "viewer \<Rightarrow> nat \<Rightarrow> nat list \<Rightarrow> (bool \<times> nat) \<times> nat list" where
  "checkCreatureAsKnown v cid ks =
     (if cid \<in> set ks then ((True, 0), ks)
      else (let ks1 = vw_insert v cid ks in
        if length ks1 > 1300
        then (case find (\<lambda>k. k \<noteq> cid \<and> vw_mayForget v k) ks1 of
            Some k \<Rightarrow> ((False, k), remove1 k ks1)
          | None \<Rightarrow> (let k = (if hd ks1 = cid then ks1 ! 1 else hd ks1) in ((False, k), remove1 k ks1)))
        else ((False, 0), ks1)))"

section \<open>Describing a tile\<close>

datatype view_token = EnvTok | ItemTok nat | CreatureTok nat bool nat | SkipTok u8

text \<open>Ground and top items: ten things at most, nine on the tile of the player.  The flag says to return.\<close>

fun desc_top :: "bool \<Rightarrow> nat list \<Rightarrow> nat \<Rightarrow> nat list \<times> nat \<times> bool" where
  "desc_top here [] cnt = ([], cnt, False)"
| "desc_top here (x # xs) cnt = (let c = cnt + 1 in
     if c = 9 \<and> here then ([x], c, False)
     else if c = 10 then ([x], c, True)
     else (case desc_top here xs c of (ys, r) \<Rightarrow> (x # ys, r)))"

fun desc_creatures :: "viewer \<Rightarrow> bool \<Rightarrow> nat list \<Rightarrow> bool \<Rightarrow> nat \<Rightarrow> nat list \<Rightarrow> view_token list \<times> nat \<times> nat list" where
  "desc_creatures v here [] added cnt ks = ([], cnt, ks)"
| "desc_creatures v here (c # cs) added cnt ks =
     (if \<not> vw_see v c then desc_creatures v here cs added cnt ks
      else (let c1 = (if here \<and> cnt = 9 \<and> \<not> added then vw_id v else c) in
        case checkCreatureAsKnown v c1 ks of ((known, gone), ks1) \<Rightarrow>
          if cnt + 1 = 10 then ([CreatureTok c1 known gone], 10, ks1)
          else (case desc_creatures v here cs (added \<or> c1 = vw_id v) (cnt + 1) ks1 of
              (ts, r) \<Rightarrow> (CreatureTok c1 known gone # ts, r))))"

definition GetTileDescription :: "viewer \<Rightarrow> tile \<Rightarrow> bool \<Rightarrow> nat list \<Rightarrow> view_token list \<times> nat list" where
  "GetTileDescription v t here ks =
     (let env = (if vw_old v then [EnvTok] else []);
          grd = (case ground t of Some g \<Rightarrow> [g] | None \<Rightarrow> []) in
      case desc_top here (topItems t) (length grd) of (tops, n, stop) \<Rightarrow>
        (let start = env @ map ItemTok grd @ map ItemTok tops in
         if stop then (start, ks)
         else (case desc_creatures v here (rev (tile_creatures t)) False n ks of (cts, n1, ks1) \<Rightarrow>
           if n1 = 10 then (start @ cts, ks1)
           else (start @ cts @ map ItemTok (take (10 - n1) (downItems t)), ks1))))"

section \<open>Describing floors\<close>

text \<open>The counter of empty places starts at -1; each cell is the tile there, if any, and whether the player is on it.\<close>

type_synonym cell = "(tile \<times> bool) option"

fun describe_cells :: "viewer \<Rightarrow> cell list \<Rightarrow> int \<Rightarrow> nat list \<Rightarrow> view_token list \<times> int \<times> nat list" where
  "describe_cells v [] skip ks = ([], skip, ks)"
| "describe_cells v (Some (t, here) # cs) skip ks =
     (case GetTileDescription v t here ks of (ts, ks1) \<Rightarrow>
      (case describe_cells v cs 0 ks1 of (rest, r) \<Rightarrow>
        ((if skip \<ge> 0 then [SkipTok (word_of_int skip)] else []) @ ts @ rest, r)))"
| "describe_cells v (None # cs) skip ks =
     (if skip = 0xFE
      then (case describe_cells v cs (-1) ks of (rest, r) \<Rightarrow> (SkipTok 0xFF # rest, r))
      else describe_cells v cs (skip + 1) ks)"

definition last_skip :: "int \<Rightarrow> view_token list" where
  "last_skip skip = (if skip \<ge> 0 then [SkipTok (word_of_int skip)] else [])"

definition describe :: "viewer \<Rightarrow> cell list \<Rightarrow> nat list \<Rightarrow> view_token list \<times> nat list" where
  "describe v cells ks = (case describe_cells v cells (-1) ks of (ts, skip, ks1) \<Rightarrow> (ts @ last_skip skip, ks1))"

definition cell_at :: "(u16 \<Rightarrow> u16 \<Rightarrow> u8 \<Rightarrow> tile option) \<Rightarrow> spot \<Rightarrow> spot \<Rightarrow> cell" where
  "cell_at getTile me p = (case p of (x, y, z) \<Rightarrow>
     (case getTile (word_of_int x) (word_of_int y) (word_of_int z) of
        None \<Rightarrow> None
      | Some t \<Rightarrow> Some (t, (uint (word_of_int x :: u16), uint (word_of_int y :: u16), uint (word_of_int z :: u8)) = me)))"

definition GetMapDescription :: "viewer \<Rightarrow> (u16 \<Rightarrow> u16 \<Rightarrow> u8 \<Rightarrow> tile option) \<Rightarrow> spot \<Rightarrow> int \<Rightarrow> int \<Rightarrow> int \<Rightarrow> nat \<Rightarrow> nat
    \<Rightarrow> nat list \<Rightarrow> view_token list \<times> nat list" where
  "GetMapDescription v getTile me x y z width height ks = describe v (map (cell_at getTile me) (map_places x y z width height)) ks"

section \<open>Moving the view\<close>

text \<open>The parts of the message a player gets about a move of its own; rows and floors are runs of places to describe.\<close>

datatype move_part =
    RemovePart spot nat
  | MovePart spot nat spot
  | MapPart spot "spot list"
  | FloorPart u8 "spot list"
  | RowPart u8 "spot list"

definition RemoveTileThing :: "spot \<Rightarrow> nat \<Rightarrow> move_part list" where
  "RemoveTileThing p stackpos = (if stackpos \<ge> 10 then [] else [RemovePart p stackpos])"

definition full_map :: "spot \<Rightarrow> spot list" where
  "full_map pos = (case pos of (x, y, z) \<Rightarrow>
     map_places (x - MAP_MAX_CLIENT_VIEW_PORT_X) (y - MAP_MAX_CLIENT_VIEW_PORT_Y) z
       (nat ((MAP_MAX_CLIENT_VIEW_PORT_X + 1) * 2)) (nat ((MAP_MAX_CLIENT_VIEW_PORT_Y + 1) * 2)))"

definition sendMapDescription :: "spot \<Rightarrow> spot \<Rightarrow> move_part list" where
  "sendMapDescription me pos = [MapPart me (full_map pos)]"

definition view_width :: nat where "view_width = nat ((MAP_MAX_CLIENT_VIEW_PORT_X + 1) * 2)"
definition view_height :: nat where "view_height = nat ((MAP_MAX_CLIENT_VIEW_PORT_Y + 1) * 2)"

definition old_floor :: "spot \<Rightarrow> int \<Rightarrow> int \<Rightarrow> spot list" where
  "old_floor oldPos z offset = (case oldPos of (ox, oy, oz) \<Rightarrow>
     floor_places (ox - MAP_MAX_CLIENT_VIEW_PORT_X) (oy - MAP_MAX_CLIENT_VIEW_PORT_Y) z view_width view_height offset)"

definition MoveUpCreature :: "spot \<Rightarrow> spot \<Rightarrow> move_part list" where
  "MoveUpCreature newPos oldPos = (case (newPos, oldPos) of ((nx, ny, nz), (ox, oy, oz)) \<Rightarrow>
     [FloorPart 0xBE
        (if nz = MAP_INIT_SURFACE_LAYER
         then old_floor oldPos 5 3 @ old_floor oldPos 4 4 @ old_floor oldPos 3 5 @ old_floor oldPos 2 6 @ old_floor oldPos 1 7
           @ old_floor oldPos 0 8
         else if nz > MAP_INIT_SURFACE_LAYER then old_floor oldPos (oz - 3) 3
         else []),
      RowPart 0x68 (map_places (ox - MAP_MAX_CLIENT_VIEW_PORT_X) (oy - (MAP_MAX_CLIENT_VIEW_PORT_Y - 1)) nz 1 view_height),
      RowPart 0x65 (map_places (ox - MAP_MAX_CLIENT_VIEW_PORT_X) (oy - MAP_MAX_CLIENT_VIEW_PORT_Y) nz view_width 1)])"

definition MoveDownCreature :: "spot \<Rightarrow> spot \<Rightarrow> move_part list" where
  "MoveDownCreature newPos oldPos = (case (newPos, oldPos) of ((nx, ny, nz), (ox, oy, oz)) \<Rightarrow>
     [FloorPart 0xBF
        (if nz = MAP_INIT_SURFACE_LAYER + 1
         then old_floor oldPos nz (-1) @ old_floor oldPos (nz + 1) (-2) @ old_floor oldPos (nz + 2) (-3)
         else if nz > oz \<and> nz > MAP_INIT_SURFACE_LAYER + 1 \<and> nz < MAP_MAX_LAYERS - MAP_LAYER_VIEW_LIMIT
         then old_floor oldPos (nz + MAP_LAYER_VIEW_LIMIT) (-3)
         else []),
      RowPart 0x66 (map_places (ox + MAP_MAX_CLIENT_VIEW_PORT_X + 1) (oy - (MAP_MAX_CLIENT_VIEW_PORT_Y + 1)) nz 1 view_height),
      RowPart 0x67 (map_places (ox - MAP_MAX_CLIENT_VIEW_PORT_X) (oy + (MAP_MAX_CLIENT_VIEW_PORT_Y + 1)) nz view_width 1)])"

definition new_rows :: "spot \<Rightarrow> spot \<Rightarrow> move_part list" where
  "new_rows newPos oldPos = (case (newPos, oldPos) of ((nx, ny, nz), (ox, oy, oz)) \<Rightarrow>
     (if oy > ny
      then [RowPart 0x65 (map_places (ox - MAP_MAX_CLIENT_VIEW_PORT_X) (ny - MAP_MAX_CLIENT_VIEW_PORT_Y) nz view_width 1)]
      else if oy < ny
      then [RowPart 0x67 (map_places (ox - MAP_MAX_CLIENT_VIEW_PORT_X) (ny + (MAP_MAX_CLIENT_VIEW_PORT_Y + 1)) nz view_width 1)]
      else [])
     @ (if ox < nx
        then [RowPart 0x66 (map_places (nx + (MAP_MAX_CLIENT_VIEW_PORT_X + 1)) (ny - MAP_MAX_CLIENT_VIEW_PORT_Y) nz 1 view_height)]
        else if ox > nx
        then [RowPart 0x68 (map_places (nx - MAP_MAX_CLIENT_VIEW_PORT_X) (ny - MAP_MAX_CLIENT_VIEW_PORT_Y) nz 1 view_height)]
        else []))"

text \<open>The player has moved already, so its position is the new one.\<close>

definition sendMoveSelf :: "spot \<Rightarrow> spot \<Rightarrow> nat \<Rightarrow> bool \<Rightarrow> move_part list" where
  "sendMoveSelf newPos oldPos oldStackPos teleport = (let oz = snd (snd oldPos); nz = snd (snd newPos) in
     if oldStackPos \<ge> 10 then sendMapDescription newPos newPos
     else if teleport then RemoveTileThing oldPos oldStackPos @ sendMapDescription newPos newPos
     else (if oz = MAP_INIT_SURFACE_LAYER \<and> nz \<ge> MAP_INIT_SURFACE_LAYER + 1
           then RemoveTileThing oldPos oldStackPos
           else [MovePart oldPos oldStackPos newPos])
       @ (if nz > oz then MoveDownCreature newPos oldPos
          else if nz < oz then MoveUpCreature newPos oldPos
          else [])
       @ new_rows newPos oldPos)"

text \<open>A move of another creature, by what the player sees of it.\<close>

datatype other_move = MoveOther spot nat spot | RemoveOther spot nat | AddOther spot nat

definition sendMoveOther :: "spot \<Rightarrow> spot \<Rightarrow> nat \<Rightarrow> spot \<Rightarrow> nat \<Rightarrow> bool \<Rightarrow> other_move list" where
  "sendMoveOther me newPos newStackPos oldPos oldStackPos teleport =
     (let removed = (if canSeePos me oldPos \<and> oldStackPos < 10 then [RemoveOther oldPos oldStackPos] else []) in
      if canSeePos me oldPos \<and> canSeePos me newPos
      then (if teleport \<or> (snd (snd oldPos) = MAP_INIT_SURFACE_LAYER \<and> snd (snd newPos) \<ge> MAP_INIT_SURFACE_LAYER + 1) \<or> oldStackPos \<ge> 10
            then removed @ [AddOther newPos newStackPos]
            else [MoveOther oldPos oldStackPos newPos])
      else if canSeePos me oldPos then removed
      else if canSeePos me newPos then [AddOther newPos newStackPos]
      else [])"

fun part_places :: "move_part \<Rightarrow> spot list" where
  "part_places (MapPart p ps) = ps"
| "part_places (FloorPart c ps) = ps"
| "part_places (RowPart c ps) = ps"
| "part_places _ = []"

section \<open>Nothing in view stays unknown\<close>

lemma floor_places_member:
  "(px, py, pz) \<in> set (floor_places x y z width height offset) \<longleftrightarrow>
     x + offset \<le> px \<and> px < x + offset + int width \<and> y + offset \<le> py \<and> py < y + offset + int height \<and> pz = z"
proof
  assume "x + offset \<le> px \<and> px < x + offset + int width \<and> y + offset \<le> py \<and> py < y + offset + int height \<and> pz = z"
  then show "(px, py, pz) \<in> set (floor_places x y z width height offset)"
    by (auto simp: floor_places_def intro!: bexI [of _ "nat (px - x - offset)"] image_eqI [of _ _ "nat (py - y - offset)"])
qed (auto simp: floor_places_def)

lemma map_places_member:
  "(px, py, pz) \<in> set (map_places x y z width height) \<longleftrightarrow> pz \<in> set (view_floors z)
     \<and> x + (z - pz) \<le> px \<and> px < x + (z - pz) + int width \<and> y + (z - pz) \<le> py \<and> py < y + (z - pz) + int height"
  by (auto simp: map_places_def floor_places_member)

text \<open>
  The full map description goes through exactly the places the player can see, on the floors that exist.
\<close>
theorem full_map_is_the_view:
  assumes "0 \<le> mz" "mz < MAP_MAX_LAYERS"
  shows "set (full_map (mx, my, mz)) = {(x, y, z). canSeePos (mx, my, mz) (x, y, z) \<and> 0 \<le> z \<and> z < MAP_MAX_LAYERS}"
  using assms
  by (auto simp: full_map_def map_places_member canSeePos_def map_consts view_floors_def Let_def abs_if split: if_splits)

definition told :: "move_part list \<Rightarrow> spot \<Rightarrow> bool" where
  "told parts p \<longleftrightarrow> (\<exists>part \<in> set parts. p \<in> set (part_places part))"

lemma told_simps [simp]:
  "told [] p = False" "told (part # parts) p \<longleftrightarrow> p \<in> set (part_places part) \<or> told parts p"
  "told (parts @ parts') p \<longleftrightarrow> told parts p \<or> told parts' p"
  by (auto simp: told_def)

lemma view_floors_member:
  "0 \<le> z \<Longrightarrow> z < MAP_MAX_LAYERS \<Longrightarrow> 0 \<le> pz \<Longrightarrow> pz < MAP_MAX_LAYERS \<Longrightarrow>
     pz \<in> set (view_floors z) \<longleftrightarrow> (if z \<le> 7 then pz \<le> 7 else \<bar>z - pz\<bar> \<le> 2)"
  by (auto simp: view_floors_def map_consts)

lemma old_floor_member:
  "(px, py, pz) \<in> set (old_floor (ox, oy, oz) z offset) \<longleftrightarrow>
     ox - 8 + offset \<le> px \<and> px < ox + 10 + offset \<and> oy - 6 + offset \<le> py \<and> py < oy + 8 + offset \<and> pz = z"
  by (auto simp: old_floor_def floor_places_member map_consts view_width_def view_height_def)

lemma canSee_iff:
  "canSeePos (mx, my, mz) (x, y, z) \<longleftrightarrow> (if mz \<le> 7 then z \<le> 7 else \<bar>mz - z\<bar> \<le> 2)
     \<and> mx - 8 + (mz - z) \<le> x \<and> x \<le> mx + 9 + (mz - z) \<and> my - 6 + (mz - z) \<le> y \<and> y \<le> my + 7 + (mz - z)"
  by (auto simp: canSeePos_def map_consts Let_def)

lemma row_told:
  assumes "0 \<le> nz" "nz < MAP_MAX_LAYERS" "0 \<le> z" "z < MAP_MAX_LAYERS" "if nz \<le> 7 then z \<le> 7 else \<bar>nz - z\<bar> \<le> 2"
  shows "oy > ny \<Longrightarrow> y - (nz - z) = ny - 6 \<Longrightarrow> ox - 8 \<le> x - (nz - z) \<Longrightarrow> x - (nz - z) \<le> ox + 9
           \<Longrightarrow> told (new_rows (nx, ny, nz) (ox, oy, oz)) (x, y, z)"
    "oy < ny \<Longrightarrow> y - (nz - z) = ny + 7 \<Longrightarrow> ox - 8 \<le> x - (nz - z) \<Longrightarrow> x - (nz - z) \<le> ox + 9
           \<Longrightarrow> told (new_rows (nx, ny, nz) (ox, oy, oz)) (x, y, z)"
    "ox < nx \<Longrightarrow> x - (nz - z) = nx + 9 \<Longrightarrow> ny - 6 \<le> y - (nz - z) \<Longrightarrow> y - (nz - z) \<le> ny + 7
           \<Longrightarrow> told (new_rows (nx, ny, nz) (ox, oy, oz)) (x, y, z)"
    "ox > nx \<Longrightarrow> x - (nz - z) = nx - 8 \<Longrightarrow> ny - 6 \<le> y - (nz - z) \<Longrightarrow> y - (nz - z) \<le> ny + 7
           \<Longrightarrow> told (new_rows (nx, ny, nz) (ox, oy, oz)) (x, y, z)"
  using assms(5) by (simp_all add: new_rows_def map_places_member view_floors_member [OF assms(1-4)] view_width_def view_height_def map_consts)

text \<open>What comes into a window that moves by at most one: a row or a column at its edge.\<close>

lemma window_step:
  assumes "\<bar>nx - ox\<bar> \<le> (1 :: int)" "\<bar>ny - oy\<bar> \<le> (1 :: int)" "nx - 8 \<le> a" "a \<le> nx + 9" "ny - 6 \<le> b" "b \<le> ny + 7"
  shows "(ox - 8 \<le> a \<and> a \<le> ox + 9 \<and> oy - 6 \<le> b \<and> b \<le> oy + 7)
    \<or> (oy > ny \<and> b = ny - 6 \<and> ox - 8 \<le> a \<and> a \<le> ox + 9) \<or> (oy < ny \<and> b = ny + 7 \<and> ox - 8 \<le> a \<and> a \<le> ox + 9)
    \<or> (ox < nx \<and> a = nx + 9) \<or> (ox > nx \<and> a = nx - 8)"
proof -
  consider "a < ox - 8" | "a > ox + 9" | "ox - 8 \<le> a" "a \<le> ox + 9" by linarith
  then show ?thesis
  proof cases
    case 1
    then have "ox > nx" "a = nx - 8" using assms by auto
    then show ?thesis by blast
  next
    case 2
    then have "ox < nx" "a = nx + 9" using assms by auto
    then show ?thesis by blast
  next
    case 3
    consider "b < oy - 6" | "b > oy + 7" | "oy - 6 \<le> b" "b \<le> oy + 7" by linarith
    then show ?thesis
    proof cases
      case 1
      then have "oy > ny" "b = ny - 6" using assms by auto
      then show ?thesis using 3 by blast
    next
      case 2
      then have "oy < ny" "b = ny + 7" using assms by auto
      then show ?thesis using 3 by blast
    qed (use 3 in blast)
  qed
qed

lemma walked_window:
  assumes "\<bar>nx - ox\<bar> \<le> 1" "\<bar>ny - oy\<bar> \<le> 1" "0 \<le> nz" "nz < MAP_MAX_LAYERS" "0 \<le> z" "z < MAP_MAX_LAYERS"
    "canSeePos (nx, ny, nz) (x, y, z)"
    "\<not> (ox - 8 \<le> x - (nz - z) \<and> x - (nz - z) \<le> ox + 9 \<and> oy - 6 \<le> y - (nz - z) \<and> y - (nz - z) \<le> oy + 7)"
  shows "told (new_rows (nx, ny, nz) (ox, oy, oz)) (x, y, z)"
proof -
  have F: "if nz \<le> 7 then z \<le> 7 else \<bar>nz - z\<bar> \<le> 2" using assms(7) by (simp add: canSee_iff)
  have new: "nx - 8 \<le> x - (nz - z)" "x - (nz - z) \<le> nx + 9" "ny - 6 \<le> y - (nz - z)" "y - (nz - z) \<le> ny + 7"
    using assms(7) by (auto simp: canSee_iff)
  note t = row_told [OF assms(3-6) F, where x = x and y = y and ox = ox and oy = oy and nx = nx and ny = ny and oz = oz]
  from window_step [OF assms(1,2) new] show ?thesis using assms(8) t new by blast
qed

lemma down_told:
  assumes "0 \<le> nz" "nz < MAP_MAX_LAYERS" "0 \<le> z" "z < MAP_MAX_LAYERS" "if nz \<le> 7 then z \<le> 7 else \<bar>nz - z\<bar> \<le> 2"
  shows "x - (nz - z) = ox + 9 \<Longrightarrow> oy - 7 \<le> y - (nz - z) \<Longrightarrow> y - (nz - z) \<le> oy + 6 \<Longrightarrow> told (MoveDownCreature (nx, ny, nz) (ox, oy, oz)) (x, y, z)"
    "y - (nz - z) = oy + 7 \<Longrightarrow> ox - 8 \<le> x - (nz - z) \<Longrightarrow> x - (nz - z) \<le> ox + 9 \<Longrightarrow> told (MoveDownCreature (nx, ny, nz) (ox, oy, oz)) (x, y, z)"
  using assms(5) by (simp_all add: MoveDownCreature_def map_places_member view_floors_member [OF assms(1-4)] view_width_def view_height_def map_consts)

lemma down_floors:
  assumes "nz = oz + 1" "8 \<le> nz" "if nz = 8 then 8 \<le> z \<and> z \<le> 10 else z = nz + 2 \<and> nz < 14"
    "ox - 9 \<le> x - (nz - z)" "x - (nz - z) \<le> ox + 8" "oy - 7 \<le> y - (nz - z)" "y - (nz - z) \<le> oy + 6"
  shows "told (MoveDownCreature (nx, ny, nz) (ox, oy, oz)) (x, y, z)"
  using assms by (auto simp: MoveDownCreature_def old_floor_member map_consts split: if_splits)


lemma down_view:
  assumes "\<bar>nx - ox\<bar> \<le> 1" "\<bar>ny - oy\<bar> \<le> 1" "nz = oz + 1" "0 \<le> oz" "nz < MAP_MAX_LAYERS" "0 \<le> z" "z < MAP_MAX_LAYERS"
    "canSeePos (nx, ny, nz) (x, y, z)" "\<not> canSeePos (ox, oy, oz) (x, y, z)"
  shows "told (MoveDownCreature (nx, ny, nz) (ox, oy, oz)) (x, y, z) \<or> told (new_rows (nx, ny, nz) (ox, oy, oz)) (x, y, z)"
proof -
  have nz: "0 \<le> nz" using assms by simp
  have F: "if nz \<le> 7 then z \<le> 7 else \<bar>nz - z\<bar> \<le> 2" using assms(8) by (simp add: canSee_iff)
  let ?a = "x - (nz - z)" let ?b = "y - (nz - z)"
  show ?thesis
  proof (cases "ox - 8 \<le> ?a \<and> ?a \<le> ox + 9 \<and> oy - 6 \<le> ?b \<and> ?b \<le> oy + 7")
    case False
    then show ?thesis using walked_window [OF assms(1,2) nz assms(5,6,7,8)] by blast
  next
    case True
    note edge = down_told [OF nz assms(5-7) F, where x = x and y = y and ox = ox and oy = oy and nx = nx and ny = ny and oz = oz]
    consider "?b = oy + 7" | "?a = ox + 9" "?b \<le> oy + 6" | "?a \<le> ox + 8" "?b \<le> oy + 6" using True by linarith
    then show ?thesis
    proof cases
      case 3
      have "\<not> (if oz \<le> 7 then z \<le> 7 else \<bar>oz - z\<bar> \<le> 2)" using assms(3,9) True 3 by (auto simp: canSee_iff)
      then have "8 \<le> nz" "if nz = 8 then 8 \<le> z \<and> z \<le> 10 else z = nz + 2 \<and> nz < 14"
        using F assms(3,7) by (auto simp: map_consts split: if_splits)
      then show ?thesis using down_floors [OF assms(3)] True 3 by simp
    qed (use edge True in auto)
  qed
qed

lemma up_told:
  assumes "0 \<le> nz" "nz < MAP_MAX_LAYERS" "0 \<le> z" "z < MAP_MAX_LAYERS" "if nz \<le> 7 then z \<le> 7 else \<bar>nz - z\<bar> \<le> 2"
  shows "x - (nz - z) = ox - 8 \<Longrightarrow> oy - 5 \<le> y - (nz - z) \<Longrightarrow> y - (nz - z) \<le> oy + 8 \<Longrightarrow> told (MoveUpCreature (nx, ny, nz) (ox, oy, oz)) (x, y, z)"
    "y - (nz - z) = oy - 6 \<Longrightarrow> ox - 8 \<le> x - (nz - z) \<Longrightarrow> x - (nz - z) \<le> ox + 9 \<Longrightarrow> told (MoveUpCreature (nx, ny, nz) (ox, oy, oz)) (x, y, z)"
  using assms(5) by (simp_all add: MoveUpCreature_def map_places_member view_floors_member [OF assms(1-4)] view_width_def view_height_def map_consts)

lemma up_floors:
  assumes "nz = oz - 1" "7 \<le> nz" "if nz = 7 then 0 \<le> z \<and> z \<le> 5 else z = nz - 2"
    "ox - 7 \<le> x - (nz - z)" "x - (nz - z) \<le> ox + 10" "oy - 5 \<le> y - (nz - z)" "y - (nz - z) \<le> oy + 8"
  shows "told (MoveUpCreature (nx, ny, nz) (ox, oy, oz)) (x, y, z)"
proof (cases "nz = 7")
  case True
  then have "z = 0 \<or> z = 1 \<or> z = 2 \<or> z = 3 \<or> z = 4 \<or> z = 5" using assms(3) by auto
  then show ?thesis using assms(4-7) True by (elim disjE) (simp_all add: MoveUpCreature_def old_floor_member map_consts)
next
  case False
  then show ?thesis using assms by (simp add: MoveUpCreature_def old_floor_member map_consts)
qed

lemma up_view:
  assumes "\<bar>nx - ox\<bar> \<le> 1" "\<bar>ny - oy\<bar> \<le> 1" "nz = oz - 1" "0 \<le> nz" "oz < MAP_MAX_LAYERS" "0 \<le> z" "z < MAP_MAX_LAYERS"
    "canSeePos (nx, ny, nz) (x, y, z)" "\<not> canSeePos (ox, oy, oz) (x, y, z)"
  shows "told (MoveUpCreature (nx, ny, nz) (ox, oy, oz)) (x, y, z) \<or> told (new_rows (nx, ny, nz) (ox, oy, oz)) (x, y, z)"
proof -
  have nz: "nz < MAP_MAX_LAYERS" using assms by simp
  have F: "if nz \<le> 7 then z \<le> 7 else \<bar>nz - z\<bar> \<le> 2" using assms(8) by (simp add: canSee_iff)
  let ?a = "x - (nz - z)" let ?b = "y - (nz - z)"
  show ?thesis
  proof (cases "ox - 8 \<le> ?a \<and> ?a \<le> ox + 9 \<and> oy - 6 \<le> ?b \<and> ?b \<le> oy + 7")
    case False
    then show ?thesis using walked_window [OF assms(1,2,4) nz assms(6,7,8)] by blast
  next
    case True
    note edge = up_told [OF assms(4) nz assms(6,7) F, where x = x and y = y and ox = ox and oy = oy and nx = nx and ny = ny and oz = oz]
    consider "?b = oy - 6" | "?a = ox - 8" "oy - 5 \<le> ?b" | "ox - 7 \<le> ?a" "oy - 5 \<le> ?b" using True by linarith
    then show ?thesis
    proof cases
      case 3
      have "\<not> (if oz \<le> 7 then z \<le> 7 else \<bar>oz - z\<bar> \<le> 2)" using assms(3,9) True 3 by (auto simp: canSee_iff)
      then have "7 \<le> nz" "if nz = 7 then 0 \<le> z \<and> z \<le> 5 else z = nz - 2"
        using F assms(3,6) by (auto split: if_splits)
      then show ?thesis using up_floors [OF assms(3)] True 3 by simp
    qed (use edge True in auto)
  qed
qed

text \<open>
  C20. When a player walks one step in any direction, to the floor above or below or both, every place it can see
  afterwards was in its view before or is described in the message about the move.
\<close>
theorem moved_view_is_known:
  assumes "\<bar>nx - ox\<bar> \<le> 1" "\<bar>ny - oy\<bar> \<le> 1" "\<bar>nz - oz\<bar> \<le> 1" "0 \<le> oz" "oz < MAP_MAX_LAYERS" "0 \<le> nz" "nz < MAP_MAX_LAYERS"
    "canSeePos (nx, ny, nz) (x, y, z)" "0 \<le> z" "z < MAP_MAX_LAYERS"
  shows "canSeePos (ox, oy, oz) (x, y, z)
     \<or> (\<exists>part \<in> set (sendMoveSelf (nx, ny, nz) (ox, oy, oz) stackpos teleport). (x, y, z) \<in> set (part_places part))"
proof -
  have "canSeePos (ox, oy, oz) (x, y, z) \<or> told (sendMoveSelf (nx, ny, nz) (ox, oy, oz) stackpos teleport) (x, y, z)"
  proof (cases "stackpos \<ge> 10 \<or> teleport")
    case True
    have "(x, y, z) \<in> set (full_map (nx, ny, nz))" using full_map_is_the_view [OF assms(6,7)] assms(8-10) by simp
    then show ?thesis using True by (auto simp: sendMoveSelf_def sendMapDescription_def Let_def)
  next
    case False
    consider "nz = oz" | "nz = oz + 1" | "nz = oz - 1" using assms(3) by linarith
    then show ?thesis
    proof cases
      case 1
      then have "\<not> canSeePos (ox, oy, oz) (x, y, z) \<Longrightarrow> told (new_rows (nx, ny, nz) (ox, oy, oz)) (x, y, z)"
        using walked_window [OF assms(1,2,6,7,9,10,8)] assms(8) by (auto simp: canSee_iff)
      then show ?thesis using False 1 by (auto simp: sendMoveSelf_def Let_def)
    next
      case 2
      then show ?thesis using down_view [OF assms(1,2) 2 assms(4,7,9,10,8)] False by (auto simp: sendMoveSelf_def Let_def)
    next
      case 3
      then show ?thesis using up_view [OF assms(1,2) 3 assms(6,5,9,10,8)] False by (auto simp: sendMoveSelf_def Let_def)
    qed
  qed
  then show ?thesis by (simp add: told_def)
qed

theorem full_map_is_the_view_witness:
  "set (full_map (100, 200, 7)) = {(x, y, z). canSeePos (100, 200, 7) (x, y, z) \<and> 0 \<le> z \<and> z < MAP_MAX_LAYERS}"
  using full_map_is_the_view [of 7 100 200] by (simp add: map_consts)

theorem moved_view_is_known_witness:
  "canSeePos (100, 200, 7) (110, 200, 8)
     \<or> (\<exists>part \<in> set (sendMoveSelf (101, 200, 8) (100, 200, 7) 1 False). (110, 200, 8) \<in> set (part_places part))"
  using moved_view_is_known [of 101 100 200 200 8 7 110 200 8 1 False] by (simp add: map_consts canSeePos_def)

section \<open>Reading the description back\<close>

text \<open>
  How a client reads: the things of a tile come before the next skip, whose number says how many of the
  following places are empty.
\<close>

fun read_tile :: "view_token list \<Rightarrow> (view_token list \<times> nat \<times> view_token list) option" where
  "read_tile [] = None"
| "read_tile (SkipTok k # ts) = Some ([], unat k, ts)"
| "read_tile (t # ts) = map_option (\<lambda>(xs, r). (t # xs, r)) (read_tile ts)"

fun read_cells :: "nat \<Rightarrow> nat \<Rightarrow> view_token list \<Rightarrow> (view_token list list \<times> view_token list) option" where
  "read_cells 0 skip ts = Some ([], ts)"
| "read_cells (Suc n) (Suc k) ts = map_option (\<lambda>(cs, r). ([] # cs, r)) (read_cells n k ts)"
| "read_cells (Suc n) 0 ts = (case read_tile ts of None \<Rightarrow> None
     | Some (xs, k, rest) \<Rightarrow> map_option (\<lambda>(cs, r). (xs # cs, r)) (read_cells n k rest))"

fun cell_tokens :: "viewer \<Rightarrow> cell list \<Rightarrow> nat list \<Rightarrow> view_token list list" where
  "cell_tokens v [] ks = []"
| "cell_tokens v (None # cs) ks = [] # cell_tokens v cs ks"
| "cell_tokens v (Some (t, here) # cs) ks = (case GetTileDescription v t here ks of (ts, ks1) \<Rightarrow> ts # cell_tokens v cs ks1)"

definition is_skip :: "view_token \<Rightarrow> bool" where
  "is_skip t \<longleftrightarrow> (case t of SkipTok _ \<Rightarrow> True | _ \<Rightarrow> False)"

lemma is_skip_simps [simp]: "\<not> is_skip EnvTok" "\<not> is_skip (ItemTok x)" "\<not> is_skip (CreatureTok c b n)" "is_skip (SkipTok k)"
  by (simp_all add: is_skip_def)

lemma read_tile_things: "\<forall>t \<in> set ts. \<not> is_skip t \<Longrightarrow> read_tile (ts @ SkipTok k # rest) = Some (ts, unat k, rest)"
proof (induction ts)
  case (Cons t ts)
  then show ?case by (cases t) auto
qed simp

lemma creatures_no_skip: "desc_creatures v here cs added n ks = (ts, r) \<Longrightarrow> \<forall>t \<in> set ts. \<not> is_skip t"
  by (induction v here cs added n ks arbitrary: ts r rule: desc_creatures.induct) (auto simp: Let_def split: if_splits prod.splits)

lemma tile_no_skip: "GetTileDescription v t here ks = (ts, r) \<Longrightarrow> \<forall>t \<in> set ts. \<not> is_skip t"
  using creatures_no_skip by (auto simp: GetTileDescription_def Let_def split: if_splits prod.splits)

lemma read_described:
  assumes "describe_cells v cells skip ks = (ts, skip', r)" "-1 \<le> skip" "skip \<le> 254"
  shows "-1 \<le> skip' \<and> skip' \<le> 254 \<and>
    (if skip = -1 then read_cells (length cells) 0 (ts @ last_skip skip') = Some (cell_tokens v cells ks, [])
     else \<exists>k rest. ts @ last_skip skip' = SkipTok k # rest \<and> nat skip \<le> unat k
       \<and> read_cells (length cells) (unat k - nat skip) rest = Some (cell_tokens v cells ks, []))"
  using assms
proof (induction v cells skip ks arbitrary: ts r rule: describe_cells.induct)
  case (1 v skip ks)
  have "unat (word_of_int skip :: u8) = nat skip" if "0 \<le> skip"
    using that 1 by (simp add: unat_eq_nat_uint uint_word_of_int)
  then show ?case using 1 by (auto simp: last_skip_def)
next
  case (2 v t here cs skip ks)
  obtain xs ks1 where x: "GetTileDescription v t here ks = (xs, ks1)" by force
  obtain rest where d: "describe_cells v cs 0 ks1 = (rest, skip', r)"
    and ts: "ts = (if skip \<ge> 0 then [SkipTok (word_of_int skip)] else []) @ xs @ rest"
    using 2(2) x by (auto split: prod.splits)
  from 2(1) [OF x [symmetric] d] obtain k rest' where
    k: "-1 \<le> skip'" "skip' \<le> 254" "rest @ last_skip skip' = SkipTok k # rest'"
      "read_cells (length cs) (unat k) rest' = Some (cell_tokens v cs ks1, [])" by auto
  have tile: "read_tile (xs @ rest @ last_skip skip') = Some (xs, unat k, rest')"
    using read_tile_things [OF tile_no_skip [OF x]] k(3) by simp
  have u: "unat (word_of_int skip :: u8) = nat skip" if "0 \<le> skip"
    using that 2(3,4) by (simp add: unat_eq_nat_uint uint_word_of_int)
  show ?case using k tile ts x u 2(3) by auto
next
  case (3 v cs skip ks)
  show ?case
  proof (cases "skip = 0xFE")
    case True
    obtain rest where d: "describe_cells v cs (-1) ks = (rest, skip', r)" and ts: "ts = SkipTok 0xFF # rest"
      using 3(3) True by (auto split: prod.splits)
    then show ?thesis using 3(1) [OF True d] True by auto
  next
    case False
    then have d: "describe_cells v cs (skip + 1) ks = (ts, skip', r)" using 3(3) by simp
    from 3(2) [OF False d] obtain k rest where
      k: "-1 \<le> skip'" "skip' \<le> 254" "ts @ last_skip skip' = SkipTok k # rest" "nat (skip + 1) \<le> unat k"
        "read_cells (length cs) (unat k - nat (skip + 1)) rest = Some (cell_tokens v cs ks, [])"
      using 3(4,5) False by auto
    show ?thesis
    proof (cases "skip = -1")
      case True
      then show ?thesis using k by auto
    next
      case skip: False
      then have "unat k - nat skip = Suc (unat k - nat (skip + 1))" using k(4) 3(4) by auto
      then show ?thesis using k skip by auto
    qed
  qed
qed

text \<open>
  C21. A client that reads a map description with as many places as were described finds at every place
  exactly the things that were written for it, none where there is no tile, and the message is used up.
\<close>
theorem map_description_round_trip:
  "read_cells (length (map_places x y z width height)) 0 (fst (GetMapDescription v getTile me x y z width height ks))
     = Some (cell_tokens v (map (cell_at getTile me) (map_places x y z width height)) ks, [])"
proof -
  let ?cells = "map (cell_at getTile me) (map_places x y z width height)"
  obtain ts skip r where d: "describe_cells v ?cells (-1) ks = (ts, skip, r)" by (metis prod_cases3)
  from read_described [OF d] show ?thesis by (simp add: GetMapDescription_def describe_def d)
qed

section \<open>Creatures on the client\<close>

text \<open>
  The client keeps a set of creatures: one sent as known must be in it; one sent as new comes in and the one
  named with it goes, where 0 names none.
\<close>

fun client_reads :: "view_token list \<Rightarrow> nat set \<Rightarrow> nat set option" where
  "client_reads [] K = Some K"
| "client_reads (CreatureTok c known gone # ts) K =
     (if known then (if c \<in> K then client_reads ts K else None)
      else client_reads ts (insert c (if gone = 0 then K else K - {gone})))"
| "client_reads (_ # ts) K = client_reads ts K"

definition viewer_ok :: "viewer \<Rightarrow> bool" where
  "viewer_ok v \<longleftrightarrow> vw_id v \<noteq> 0 \<and> (\<forall>c ks. c \<notin> set ks \<longrightarrow> distinct ks \<longrightarrow> distinct (vw_insert v c ks) \<and> set (vw_insert v c ks) = insert c (set ks))"

definition known_ok :: "nat list \<Rightarrow> bool" where
  "known_ok ks \<longleftrightarrow> distinct ks \<and> length ks \<le> 1300 \<and> 0 \<notin> set ks"

lemma check_known:
  assumes "viewer_ok v" "known_ok ks" "c \<noteq> 0" "checkCreatureAsKnown v c ks = ((known, gone), ks')"
  shows "known_ok ks'" "c \<in> set ks'"
    "if known then c \<in> set ks \<and> set ks' = set ks else set ks' = insert c (if gone = 0 then set ks else set ks - {gone})"
proof -
  have "known_ok ks' \<and> c \<in> set ks' \<and>
    (if known then c \<in> set ks \<and> set ks' = set ks else set ks' = insert c (if gone = 0 then set ks else set ks - {gone}))"
  proof (cases "c \<in> set ks")
    case True
    then show ?thesis using assms by (auto simp: checkCreatureAsKnown_def)
  next
    case False
    define ks1 where "ks1 = vw_insert v c ks"
    have ks1: "distinct ks1" "set ks1 = insert c (set ks)" using assms(1,2) False by (auto simp: viewer_ok_def known_ok_def ks1_def)
    have len: "length ks1 = Suc (length ks)"
      using ks1 False assms(2) distinct_card [of ks1] distinct_card [of ks] by (simp add: known_ok_def)
    have dropped: ?thesis if g: "gone \<in> set ks1" "gone \<noteq> c" and eq: "known = False" "ks' = remove1 gone ks1"
    proof -
      have "gone \<noteq> 0" using g ks1 assms(2) by (auto simp: known_ok_def)
      moreover have "known_ok ks'" using eq ks1 len g assms(2,3) by (auto simp: known_ok_def length_remove1)
      ultimately show ?thesis using eq ks1 g by auto
    qed
    show ?thesis
    proof (cases "length ks1 > 1300")
      case False
      then show ?thesis using assms(2,3,4) \<open>c \<notin> set ks\<close> ks1 len
        by (auto simp: checkCreatureAsKnown_def Let_def ks1_def [symmetric] known_ok_def)
    next
      case long: True
      show ?thesis
      proof (cases "find (\<lambda>k. k \<noteq> c \<and> vw_mayForget v k) ks1")
        case (Some k)
        then have "k \<in> set ks1" "k \<noteq> c" by (auto simp: find_Some_iff)
        moreover have "known = False" "gone = k" "ks' = remove1 k ks1"
          using assms(4) \<open>c \<notin> set ks\<close> long Some by (auto simp: checkCreatureAsKnown_def Let_def ks1_def [symmetric])
        ultimately show ?thesis using dropped by simp
      next
        case None
        let ?k = "if hd ks1 = c then ks1 ! 1 else hd ks1"
        have "ks1 \<noteq> []" using long by auto
        then have nth: "hd ks1 = ks1 ! 0" "1 < length ks1" using long by (simp_all add: hd_conv_nth)
        then have "ks1 ! 1 \<noteq> ks1 ! 0" using nth_eq_iff_index_eq [OF ks1(1) nth(2), of 0] \<open>ks1 \<noteq> []\<close> by simp
        moreover have "?k \<in> set ks1" using nth by (cases ks1) (auto simp: nth_Cons')
        moreover have "known = False" "gone = ?k" "ks' = remove1 ?k ks1"
          using assms(4) \<open>c \<notin> set ks\<close> long None by (auto simp: checkCreatureAsKnown_def Let_def ks1_def [symmetric])
        ultimately show ?thesis using dropped nth(1) by (auto split: if_splits)
      qed
    qed
  qed
  then show "known_ok ks'" "c \<in> set ks'"
    "if known then c \<in> set ks \<and> set ks' = set ks else set ks' = insert c (if gone = 0 then set ks else set ks - {gone})" by auto
qed

lemma client_reads_append:
  "client_reads (ts @ us) K = (case client_reads ts K of None \<Rightarrow> None | Some K1 \<Rightarrow> client_reads us K1)"
  by (induction ts K rule: client_reads.induct) auto

lemma client_reads_other: "\<forall>t \<in> set ts. \<forall>c b n. t \<noteq> CreatureTok c b n \<Longrightarrow> client_reads ts K = Some K"
proof (induction ts)
  case (Cons t ts)
  then show ?case by (cases t) auto
qed simp

lemma creatures_in_step:
  assumes "viewer_ok v" "known_ok ks" "0 \<notin> set cs" "desc_creatures v here cs added n ks = (ts, n', ks')"
  shows "known_ok ks' \<and> client_reads ts (set ks) = Some (set ks')"
  using assms
proof (induction cs arbitrary: added n ks ts)
  case (Cons c cs)
  show ?case
  proof (cases "vw_see v c")
    case False
    then show ?thesis using Cons by simp
  next
    case True
    define c1 where "c1 = (if here \<and> n = 9 \<and> \<not> added then vw_id v else c)"
    have c1: "c1 \<noteq> 0" using Cons.prems(1,3) by (auto simp: c1_def viewer_ok_def)
    obtain known gone ks1 where k: "checkCreatureAsKnown v c1 ks = ((known, gone), ks1)" by (metis surj_pair)
    note chk = check_known [OF Cons.prems(1,2) c1 k]
    have eq: "desc_creatures v here (c # cs) added n ks = (if n + 1 = 10 then ([CreatureTok c1 known gone], 10, ks1)
        else (case desc_creatures v here cs (added \<or> c1 = vw_id v) (n + 1) ks1 of (ts, r) \<Rightarrow> (CreatureTok c1 known gone # ts, r)))"
      using True k by (simp add: Let_def c1_def [symmetric] del: One_nat_def)
    show ?thesis
    proof (cases "n + 1 = 10")
      case True
      then have "ts = [CreatureTok c1 known gone]" "ks' = ks1"
        using Cons.prems(4) eq by simp_all
      then show ?thesis using chk by (auto split: if_splits)
    next
      case False
      obtain us where us: "desc_creatures v here cs (added \<or> c1 = vw_id v) (n + 1) ks1 = (us, n', ks')" "ts = CreatureTok c1 known gone # us"
        using Cons.prems(4) False unfolding eq by (auto split: prod.splits)
      then show ?thesis using Cons.IH [OF Cons.prems(1) chk(1) _ us(1)] Cons.prems(3) chk by (auto split: if_splits)
    qed
  qed
qed simp

lemma tile_in_step:
  assumes "viewer_ok v" "known_ok ks" "0 \<notin> set (tile_creatures t)" "GetTileDescription v t here ks = (ts, ks')"
  shows "known_ok ks' \<and> client_reads ts (set ks) = Some (set ks')"
proof -
  have items: "client_reads (map ItemTok xs) K = Some K" "client_reads (if b then [EnvTok] else []) K = Some K" for xs b K
    by (rule client_reads_other; auto)+
  show ?thesis
    using assms(2,4) creatures_in_step [OF assms(1,2), of "rev (tile_creatures t)"] assms(3)
    by (auto simp: GetTileDescription_def Let_def client_reads_append items simp flip: map_append split: if_splits prod.splits option.splits)
qed

text \<open>
  C22. Server and client agree on the creatures the client knows: after any map description the client, reading
  it, has exactly the set the server keeps, no creature was sent as known that the client did not have, and
  the set never exceeds 1300.
\<close>
theorem known_creatures_agree:
  assumes "viewer_ok v" "known_ok ks" "\<forall>x y z t. getTile x y z = Some t \<longrightarrow> 0 \<notin> set (tile_creatures t)"
    "GetMapDescription v getTile me x y z width height ks = (ts, ks')"
  shows "client_reads ts (set ks) = Some (set ks') \<and> distinct ks' \<and> length ks' \<le> 1300"
proof -
  have "known_ok ks' \<and> client_reads us (set ks) = Some (set ks')"
    if "viewer_ok v" "known_ok ks" "\<forall>t b. Some (t, b) \<in> set cells \<longrightarrow> 0 \<notin> set (tile_creatures t)"
      "describe_cells v cells skip ks = (us, skip', ks')" for cells skip us skip' ks ks'
    using that
  proof (induction v cells skip ks arbitrary: us rule: describe_cells.induct)
    case (2 v t here cs skip ks)
    obtain xs ks1 where x: "GetTileDescription v t here ks = (xs, ks1)" by force
    have t: "known_ok ks1 \<and> client_reads xs (set ks) = Some (set ks1)" using tile_in_step [OF 2(2,3) _ x] 2(4) by auto
    obtain rest where d: "describe_cells v cs 0 ks1 = (rest, skip', ks')"
      and us: "us = (if skip \<ge> 0 then [SkipTok (word_of_int skip)] else []) @ xs @ rest"
      using 2(5) x by (auto split: prod.splits)
    then show ?case using 2(1) [OF x [symmetric] 2(2) _ _ d] t 2(4) us by (auto simp: client_reads_append)
  next
    case (3 v cs skip ks)
    then show ?case by (auto split: if_splits prod.splits)
  qed auto
  note cells = this
  let ?cells = "map (cell_at getTile me) (map_places x y z width height)"
  obtain us skip r where d: "describe_cells v ?cells (-1) ks = (us, skip, r)" by (metis prod_cases3)
  have "\<forall>t b. Some (t, b) \<in> set ?cells \<longrightarrow> 0 \<notin> set (tile_creatures t)"
    using assms(3) by (auto simp: cell_at_def split: option.splits prod.splits)
  from cells [OF assms(1,2) this d] show ?thesis using assms(4) d
    by (auto simp: GetMapDescription_def describe_def client_reads_append last_skip_def known_ok_def)
qed

definition inn :: tile where
  "inn = \<lparr>ground = None, tile_items = [], downItemCount = 0, tile_creatures = [7, 9], tile_flags = 0,
     tile_item = (\<lambda>_. undefined), tile_class = (\<lambda>_. PlainC), is_parent = (\<lambda>_. False)\<rparr>"

definition guest :: viewer where
  "guest = \<lparr>vw_id = 7, vw_see = (\<lambda>_. True), vw_mayForget = (\<lambda>_. False), vw_insert = (\<lambda>c ks. c # ks), vw_old = False\<rparr>"

theorem known_creatures_agree_witness:
  "\<exists>ts ks'. GetMapDescription guest (\<lambda>_ _ _. Some inn) (0, 0, 7) 0 0 7 18 14 [] = (ts, ks')
     \<and> client_reads ts {} = Some (set ks') \<and> distinct ks' \<and> length ks' \<le> 1300"
proof -
  obtain ts ks' where d: "GetMapDescription guest (\<lambda>_ _ _. Some inn) (0, 0, 7) 0 0 7 18 14 [] = (ts, ks')" by (metis surj_pair)
  show ?thesis using known_creatures_agree [OF _ _ _ d] d by (simp add: viewer_ok_def known_ok_def guest_def inn_def)
qed

section \<open>The player's own tile\<close>

definition tok_is :: "nat \<Rightarrow> view_token \<Rightarrow> bool" where
  "tok_is c t \<longleftrightarrow> (case t of CreatureTok c' _ _ \<Rightarrow> c' = c | _ \<Rightarrow> False)"

lemma tok_is_simps [simp]: "tok_is c (CreatureTok c' b n) \<longleftrightarrow> c' = c" "\<not> tok_is c EnvTok" "\<not> tok_is c (ItemTok x)" "\<not> tok_is c (SkipTok k)"
  by (auto simp: tok_is_def)

lemma desc_top_count:
  "desc_top here xs n = (ys, n', stop) \<Longrightarrow> n \<le> 8 \<Longrightarrow>
     n' = n + length ys \<and> n' \<le> 10 \<and> (stop \<longleftrightarrow> n' = 10) \<and> (here \<longrightarrow> n' \<le> 9)"
proof (induction here xs n arbitrary: ys rule: desc_top.induct)
  case (2 here x xs n)
  show ?case
  proof (cases "n = 8")
    case True
    have nine: "desc_top here zs 9 = (us, m, st) \<Longrightarrow> \<not> here \<Longrightarrow> m = 9 + length us \<and> m \<le> 10 \<and> (st \<longleftrightarrow> m = 10)" for zs us m st
      by (cases zs) auto
    show ?thesis
    proof (cases here)
      case False
      obtain us where us: "desc_top here xs 9 = (us, n', stop)" "ys = x # us"
        using 2(2) True False by (auto simp: Let_def split: prod.splits)
      show ?thesis using nine [OF us(1) False] us(2) True False by auto
    qed (use 2(2) True in \<open>auto simp: Let_def\<close>)
  next
    case False
    obtain us where us: "desc_top here xs (n + 1) = (us, n', stop)" "ys = x # us"
      using 2(2,3) False by (auto simp: Let_def split: prod.splits if_splits)
    show ?thesis using 2(1) [of "n + 1" us] us 2(3) False by auto
  qed
qed auto

lemma desc_creatures_count:
  "desc_creatures v here cs added n ks = (ts, n', ks') \<Longrightarrow> n \<le> 9 \<Longrightarrow> n' = n + length ts \<and> n' \<le> 10"
  by (induction v here cs added n ks arbitrary: ts rule: desc_creatures.induct) (force simp: Let_def split: if_splits prod.splits)+

lemma no_second_player:
  "desc_creatures v here cs True n ks = (ts, r) \<Longrightarrow> vw_id v \<notin> set cs \<Longrightarrow> filter (tok_is (vw_id v)) ts = []"
proof (induction v here cs True n ks arbitrary: ts r rule: desc_creatures.induct)
  case (2 v here c cs n ks)
  then show ?case by (force simp: Let_def split: if_splits prod.splits)
qed auto

lemma player_shown_once:
  "desc_creatures v True cs False n ks = (ts, r) \<Longrightarrow> n \<le> 9 \<Longrightarrow> distinct cs \<Longrightarrow> vw_id v \<in> set cs \<Longrightarrow> vw_see v (vw_id v)
     \<Longrightarrow> length (filter (tok_is (vw_id v)) ts) = 1"
proof (induction cs arbitrary: n ks ts)
  case (Cons c cs)
  show ?case
  proof (cases "vw_see v c")
    case False
    then have "c \<noteq> vw_id v" using Cons.prems by auto
    then show ?thesis using Cons False by auto
  next
    case see: True
    obtain known gone ks1 where k: "checkCreatureAsKnown v (if n = 9 then vw_id v else c) ks = ((known, gone), ks1)" by (metis surj_pair)
    show ?thesis
    proof (cases "n = 9")
      case True
      then show ?thesis using Cons.prems(1) see k by (auto simp: Let_def)
    next
      case False
      obtain us where us: "desc_creatures v True cs (c = vw_id v) (n + 1) ks1 = (us, r)" "ts = CreatureTok c known gone # us"
        using Cons.prems(1,2) see k False by (auto simp: Let_def split: prod.splits)
      show ?thesis
      proof (cases "c = vw_id v")
        case True
        then show ?thesis using no_second_player [of v True cs "n + 1" ks1 us r] us Cons.prems(3) by simp
      next
        case c: False
        then have "desc_creatures v True cs False (n + 1) ks1 = (us, r)" using us(1) by simp
        from Cons.IH [OF this] Cons.prems c False us(2) show ?thesis by auto
      qed
    qed
  qed
qed simp

text \<open>
  A tile is described by at most ten things, and on the player's own tile the player is one of them,
  exactly once, however many items and creatures are there.
\<close>
theorem own_tile_shows_player:
  assumes "GetTileDescription v t here ks = (ts, ks')"
  shows "length (filter (\<lambda>x. x \<noteq> EnvTok) ts) \<le> 10
    \<and> (here \<and> distinct (tile_creatures t) \<and> vw_id v \<in> set (tile_creatures t) \<and> vw_see v (vw_id v)
       \<longrightarrow> length (filter (tok_is (vw_id v)) ts) = 1)"
proof -
  define grd where "grd = (case ground t of Some g \<Rightarrow> [g] | None \<Rightarrow> [])"
  obtain tops n stop where top: "desc_top here (topItems t) (length grd) = (tops, n, stop)" by (metis prod_cases3)
  have grd: "length grd \<le> 8" by (simp add: grd_def split: option.split)
  note n = desc_top_count [OF top grd]
  have none: "filter (\<lambda>x. x \<noteq> EnvTok) (map ItemTok xs) = map ItemTok xs" "filter (tok_is c) (map ItemTok xs) = []" for xs c
    by (induction xs) auto
  obtain cts n1 ks1 where c: "desc_creatures v here (rev (tile_creatures t)) False n ks = (cts, n1, ks1)" by (metis prod_cases3)
  have ts: "ts = (if vw_old v then [EnvTok] else []) @ map ItemTok grd @ map ItemTok tops
      @ (if stop then [] else if n1 = 10 then cts else cts @ map ItemTok (take (10 - n1) (downItems t)))"
    using assms top c by (auto simp: GetTileDescription_def Let_def grd_def [symmetric] split: if_splits)
  have cnt: "\<not> stop \<Longrightarrow> n1 = n + length cts \<and> n1 \<le> 10" using desc_creatures_count [OF c] n by auto
  define m where "m = length (filter (\<lambda>x. x \<noteq> EnvTok) cts)"
  have "m \<le> length cts" by (simp add: m_def)
  then have "length (filter (\<lambda>x. x \<noteq> EnvTok) ts) \<le> 10" using cnt n by (auto simp: ts none m_def [symmetric])
  moreover have "length (filter (tok_is (vw_id v)) ts) = 1"
    if "here" "distinct (tile_creatures t)" "vw_id v \<in> set (tile_creatures t)" "vw_see v (vw_id v)"
    using player_shown_once [of v "rev (tile_creatures t)" n ks cts "(n1, ks1)"] c n that by (auto simp: ts none)
  ultimately show ?thesis by blast
qed

theorem own_tile_shows_player_witness:
  "\<exists>ts ks'. GetTileDescription guest inn True [] = (ts, ks') \<and> length (filter (tok_is 7) ts) = 1"
proof -
  obtain ts ks' where d: "GetTileDescription guest inn True [] = (ts, ks')" by (metis surj_pair)
  show ?thesis using own_tile_shows_player [OF d] d by (simp add: guest_def inn_def)
qed

end
