(* ===== verification/Game_Parse.thy ===== *)
theory Game_Parse
  imports Network_Message "HOL-Library.State_Monad"
begin

text \<open>
  The client's packets (\<^verbatim>\<open>server/network/protocol/protocolgame.cpp\<close>): \<^verbatim>\<open>parsePacket\<close>,
  \<^verbatim>\<open>parsePacketDead\<close>, \<^verbatim>\<open>parsePacketFromDispatcher\<close> and the \<^verbatim>\<open>parse...\<close> handlers it selects. A handler is
  a program of the state monad over the message being read, the flag \<^verbatim>\<open>debugAssertSent\<close> and the list of
  what the handler has asked for so far: tasks for the game (\<^verbatim>\<open>addGameTask\<close>, with the method of \<^verbatim>\<open>Game\<close> and
  its arguments after the implicit conversions of the call), events of the protocol and direct calls.
  What a handler asks of the player, the configuration and the item types is a field of the two
  records \<^verbatim>\<open>protocol_game\<close> and \<^verbatim>\<open>client_player\<close>. Handlers that only build an answer from the bestiary,
  the bosstiary or the team finder are an action \<^verbatim>\<open>Handle\<close> that names them. The one loop of a modelled
  handler that may not end, the price list of the party analyzer, is a partial function, so the
  top-level function returns an option.
\<close>

section \<open>Data\<close>

record outfit =
  lookType :: u16
  lookTypeEx :: u16
  lookMount :: u16
  lookHead :: u8
  lookBody :: u8
  lookLegs :: u8
  lookFeet :: u8
  lookAddons :: u8
  lookMountHead :: u8
  lookMountBody :: u8
  lookMountLegs :: u8
  lookMountFeet :: u8
  lookFamiliarsType :: u16

definition no_outfit :: outfit where
  "no_outfit = \<lparr>lookType = 0, lookTypeEx = 0, lookMount = 0, lookHead = 0, lookBody = 0, lookLegs = 0,
     lookFeet = 0, lookAddons = 0, lookMountHead = 0, lookMountBody = 0, lookMountLegs = 0,
     lookMountFeet = 0, lookFamiliarsType = 0\<rparr>"

datatype arg =
    ABool bool | AByte u8 | AInt8 u8 | AU16 u16 | AU32 u32 | AU64 u64 | AInt int
  | AString bytes | APos position | ADir direction | ADirs "direction list" | AItems "u16 list"
  | AOutfit outfit | APair u8 u8 | AMsg network_message | APlayer u32 | ANull

datatype arg_type =
    TBool | TByte | TInt8 | TU16 | TU32 | TU64 | TInt | TString | TPos | TDir | TDirs | TItems
  | TOutfit | TPair | TMsg | TPlayer | TItem

fun arg_type_of :: "arg \<Rightarrow> arg_type" where
  "arg_type_of (ABool _) = TBool" | "arg_type_of (AByte _) = TByte" | "arg_type_of (AInt8 _) = TInt8"
| "arg_type_of (AU16 _) = TU16" | "arg_type_of (AU32 _) = TU32" | "arg_type_of (AU64 _) = TU64"
| "arg_type_of (AInt _) = TInt" | "arg_type_of (AString _) = TString" | "arg_type_of (APos _) = TPos"
| "arg_type_of (ADir _) = TDir" | "arg_type_of (ADirs _) = TDirs" | "arg_type_of (AItems _) = TItems"
| "arg_type_of (AOutfit _) = TOutfit" | "arg_type_of (APair _ _) = TPair" | "arg_type_of (AMsg _) = TMsg"
| "arg_type_of (APlayer _) = TPlayer" | "arg_type_of ANull = TItem"

text \<open>\<^verbatim>\<open>addGameTask\<close>, \<^verbatim>\<open>addGameTaskTimed\<close> with the task expiration, a direct call of the game, the other
  events given to the dispatcher, and calls of objects outside this file.\<close>

datatype action =
    GameTask string "arg list"
  | GameTaskTimed string "arg list"
  | CallGame string "arg list"
  | Event string "arg list"
  | ScheduledEvent nat string
  | Call string "arg list"
  | Handle string network_message

record client_player =
  pv_id :: u32
  pv_guid :: u32
  pv_name :: bytes
  pv_removed :: bool
  pv_dead :: bool
  pv_health :: int
  pv_position :: position
  pv_depot :: int
  leads_party :: bool
  stash_available :: bool
  ui_exhausted :: bool

record protocol_game =
  acceptPackets :: bool
  game_shutdown :: bool
  oldProtocol :: bool
  otclientV8 :: u16
  playerDeathTime :: u8
  pg_player :: "client_player option"
  isPodium :: "u16 \<Rightarrow> bool"
  upgradeClassification :: "u16 \<Rightarrow> u8"
  task_hunting_enabled :: bool
  prey_enabled :: bool
  reward_collect_enabled :: bool
  reward_max_items :: "32 word"
  wheel_enabled :: bool

record packet_state =
  ps_msg :: network_message
  ps_debugAssertSent :: bool
  ps_out :: "action list"

type_synonym 'a parser = "(packet_state, 'a) state"

section \<open>Reading and asking\<close>

definition reading :: "(network_message \<Rightarrow> 'a \<times> network_message) \<Rightarrow> 'a parser" where
  "reading r = State (\<lambda>s. let (v, m) = r (ps_msg s) in (v, s\<lparr>ps_msg := m\<rparr>))"

definition issue :: "action \<Rightarrow> unit parser" where
  "issue a = State (\<lambda>s. ((), s\<lparr>ps_out := ps_out s @ [a]\<rparr>))"

abbreviation nothing :: "unit parser" where "nothing \<equiv> State_Monad.return ()"
abbreviation byte :: "u8 parser" where "byte \<equiv> reading getByte"
abbreviation word16 :: "u16 parser" where "word16 \<equiv> reading get"
abbreviation word32 :: "u32 parser" where "word32 \<equiv> reading get"
abbreviation word64 :: "u64 parser" where "word64 \<equiv> reading get"
abbreviation text_field :: "bytes parser" where "text_field \<equiv> reading (\<lambda>m. getString m 0)"
abbreviation pos_field :: "position parser" where "pos_field \<equiv> reading getPosition"

definition addGameTask :: "client_player \<Rightarrow> string \<Rightarrow> arg list \<Rightarrow> unit parser" where
  "addGameTask p m args = issue (GameTask m (AU32 (pv_id p) # args))"

definition addGameTaskTimed :: "client_player \<Rightarrow> string \<Rightarrow> arg list \<Rightarrow> unit parser" where
  "addGameTaskTimed p m args = issue (GameTaskTimed m (AU32 (pv_id p) # args))"

section \<open>Channels, speech and friends\<close>

definition parseChannelInvite :: "client_player \<Rightarrow> unit parser" where
  "parseChannelInvite p = do { name \<leftarrow> text_field; addGameTask p ''playerChannelInvite'' [AString name] }"

definition parseChannelExclude :: "client_player \<Rightarrow> unit parser" where
  "parseChannelExclude p = do { name \<leftarrow> text_field; addGameTask p ''playerChannelExclude'' [AString name] }"

definition parseOpenChannel :: "client_player \<Rightarrow> unit parser" where
  "parseOpenChannel p = do { channelId \<leftarrow> word16; addGameTask p ''playerOpenChannel'' [AU16 channelId] }"

definition parseCloseChannel :: "client_player \<Rightarrow> unit parser" where
  "parseCloseChannel p = do { channelId \<leftarrow> word16; addGameTask p ''playerCloseChannel'' [AU16 channelId] }"

definition parseOpenPrivateChannel :: "client_player \<Rightarrow> unit parser" where
  "parseOpenPrivateChannel p = do {
     receiver \<leftarrow> text_field;
     addGameTask p ''playerOpenPrivateChannel'' [AString receiver] }"

text \<open>The speak classes \<^verbatim>\<open>PRIVATE_TO\<close> 5, \<^verbatim>\<open>PRIVATE_RED_TO\<close> 16, \<^verbatim>\<open>CHANNEL_Y\<close> 7 and \<^verbatim>\<open>CHANNEL_R1\<close> 14.\<close>

definition parseSay :: "client_player \<Rightarrow> unit parser" where
  "parseSay p = do {
     type \<leftarrow> byte;
     receiver \<leftarrow> (if type = 5 \<or> type = 16 then text_field else State_Monad.return []);
     channelId \<leftarrow> (if type = 7 \<or> type = 14 then word16 else State_Monad.return 0);
     txt \<leftarrow> text_field;
     if length txt > 255 then nothing
     else addGameTask p ''playerSay'' [AU16 channelId, AByte type, AString receiver, AString txt] }"

definition parseAddVip :: "client_player \<Rightarrow> unit parser" where
  "parseAddVip p = do { name \<leftarrow> text_field; addGameTask p ''playerRequestAddVip'' [AString name] }"

definition parseRemoveVip :: "client_player \<Rightarrow> unit parser" where
  "parseRemoveVip p = do { guid \<leftarrow> word32; addGameTask p ''playerRequestRemoveVip'' [AU32 guid] }"

definition parseEditVip :: "client_player \<Rightarrow> unit parser" where
  "parseEditVip p = do {
     guid \<leftarrow> word32;
     description \<leftarrow> text_field;
     icon \<leftarrow> word32;
     notify \<leftarrow> byte;
     addGameTask p ''playerRequestEditVip''
       [AU32 guid, AString description, AU32 (min 10 icon), ABool (notify \<noteq> 0)] }"

definition parseGreet :: "client_player \<Rightarrow> unit parser" where
  "parseGreet p = do { npcId \<leftarrow> word32; addGameTask p ''playerNpcGreet'' [AU32 npcId] }"

definition parseInviteToParty :: "client_player \<Rightarrow> unit parser" where
  "parseInviteToParty p = do { targetId \<leftarrow> word32; addGameTask p ''playerInviteToParty'' [AU32 targetId] }"

definition parseJoinParty :: "client_player \<Rightarrow> unit parser" where
  "parseJoinParty p = do { targetId \<leftarrow> word32; addGameTask p ''playerJoinParty'' [AU32 targetId] }"

definition parseRevokePartyInvite :: "client_player \<Rightarrow> unit parser" where
  "parseRevokePartyInvite p = do {
     targetId \<leftarrow> word32;
     addGameTask p ''playerRevokePartyInvitation'' [AU32 targetId] }"

definition parsePassPartyLeadership :: "client_player \<Rightarrow> unit parser" where
  "parsePassPartyLeadership p = do {
     targetId \<leftarrow> word32;
     addGameTask p ''playerPassPartyLeadership'' [AU32 targetId] }"

definition parseEnableSharedPartyExperience :: "client_player \<Rightarrow> unit parser" where
  "parseEnableSharedPartyExperience p = do {
     sharedExpActive \<leftarrow> byte;
     addGameTask p ''playerEnableSharedPartyExperience'' [ABool (sharedExpActive = 1)] }"

definition parseQuestLine :: "client_player \<Rightarrow> unit parser" where
  "parseQuestLine p = do { questId \<leftarrow> word16; addGameTask p ''playerShowQuestLine'' [AU16 questId] }"

definition parseModalWindowAnswer :: "client_player \<Rightarrow> unit parser" where
  "parseModalWindowAnswer p = do {
     id \<leftarrow> word32;
     button \<leftarrow> byte;
     choice \<leftarrow> byte;
     addGameTask p ''playerAnswerModalWindow'' [AU32 id, AByte button, AByte choice] }"

definition parseExtendedOpcode :: "client_player \<Rightarrow> unit parser" where
  "parseExtendedOpcode p = do {
     opcode \<leftarrow> byte;
     buffer \<leftarrow> text_field;
     addGameTask p ''parsePlayerExtendedOpcode'' [AByte opcode, AString buffer] }"

section \<open>Walking, fighting, outfits\<close>

fun raw_direction :: "u8 \<Rightarrow> direction option" where
  "raw_direction r =
     (if r = 1 then Some DIRECTION_EAST
      else if r = 2 then Some DIRECTION_NORTHEAST
      else if r = 3 then Some DIRECTION_NORTH
      else if r = 4 then Some DIRECTION_NORTHWEST
      else if r = 5 then Some DIRECTION_WEST
      else if r = 6 then Some DIRECTION_SOUTHWEST
      else if r = 7 then Some DIRECTION_SOUTH
      else if r = 8 then Some DIRECTION_SOUTHEAST
      else None)"

text \<open>The loop reads the directions from the last to the first and pushes each to the front.\<close>

fun read_path :: "nat \<Rightarrow> direction list \<Rightarrow> direction list parser" where
  "read_path 0 path = State_Monad.return path"
| "read_path (Suc n) path = do {
     rawdir \<leftarrow> reading getPreviousByte;
     read_path n (case raw_direction rawdir of None \<Rightarrow> path | Some d \<Rightarrow> d # path) }"

definition parseAutoWalk :: "client_player \<Rightarrow> unit parser" where
  "parseAutoWalk p = do {
     numdirs \<leftarrow> byte;
     (pos, len) \<leftarrow> reading (\<lambda>m. ((nm_position m, nm_length m), m));
     if numdirs = 0 \<or> unat pos + unat numdirs \<noteq> unat len + 8 then nothing
     else do {
       _ \<leftarrow> reading (\<lambda>m. ((), skipBytes m (ucast numdirs)));
       path \<leftarrow> read_path (unat numdirs) [];
       if path = [] then nothing else addGameTask p ''playerAutoWalk'' [ADirs path] } }"

definition parseTeleport :: "client_player \<Rightarrow> unit parser" where
  "parseTeleport p = do { newPosition \<leftarrow> pos_field; addGameTask p ''playerTeleport'' [APos newPosition] }"

text \<open>\<^verbatim>\<open>FIGHTMODE_ATTACK\<close> 1, \<^verbatim>\<open>FIGHTMODE_BALANCED\<close> 2, \<^verbatim>\<open>FIGHTMODE_DEFENSE\<close> 3.\<close>

definition parseFightModes :: "client_player \<Rightarrow> unit parser" where
  "parseFightModes p = do {
     rawFightMode \<leftarrow> byte;
     rawChaseMode \<leftarrow> byte;
     rawSecureMode \<leftarrow> byte;
     addGameTask p ''playerSetFightModes''
       [AByte (if rawFightMode = 1 then 1 else if rawFightMode = 2 then 2 else 3),
        ABool (rawChaseMode \<noteq> 0), ABool (rawSecureMode \<noteq> 0)] }"

definition parseAttack :: "client_player \<Rightarrow> unit parser" where
  "parseAttack p = do { creatureId \<leftarrow> word32; addGameTask p ''playerSetAttackedCreature'' [AU32 creatureId] }"

definition parseFollow :: "client_player \<Rightarrow> unit parser" where
  "parseFollow p = do { creatureId \<leftarrow> word32; addGameTask p ''playerFollowCreature'' [AU32 creatureId] }"

definition parseToggleMount :: "client_player \<Rightarrow> unit parser" where
  "parseToggleMount p = do { mount \<leftarrow> byte; addGameTask p ''playerToggleMount'' [ABool (mount \<noteq> 0)] }"

text \<open>
  \<^verbatim>\<open>parseSetOutfit\<close> runs as an event of its own. A module registered for the opcode runs first; it is a
  parameter, and the outfit is read only when it left the position where it was. The outfit and
  podium changes are direct calls of the game.
\<close>

definition parseSetOutfit ::
  "(network_message \<Rightarrow> network_message) option \<Rightarrow> protocol_game \<Rightarrow> unit parser" where
  "parseSetOutfit outfitModule g = (case pg_player g of None \<Rightarrow> nothing
    | Some p \<Rightarrow> if pv_removed p then nothing else do {
     start \<leftarrow> reading (\<lambda>m. (nm_position m, m));
     _ \<leftarrow> reading (\<lambda>m. ((), case outfitModule of None \<Rightarrow> m | Some f \<Rightarrow> f m));
     now \<leftarrow> reading (\<lambda>m. (nm_position m, m));
     if now \<noteq> start then nothing else do {
       outfitType \<leftarrow> (if \<not> oldProtocol g then byte else State_Monad.return 0);
       type \<leftarrow> word16; head \<leftarrow> byte; body \<leftarrow> byte; legs \<leftarrow> byte; feet \<leftarrow> byte; addons \<leftarrow> byte;
       let out = no_outfit\<lparr>lookType := type, lookHead := min 132 head, lookBody := min 132 body,
         lookLegs := min 132 legs, lookFeet := min 132 feet, lookAddons := addons\<rparr> in
       if outfitType = 0 then do {
         mount \<leftarrow> word16;
         out' \<leftarrow> (if \<not> oldProtocol g then do {
             mhead \<leftarrow> byte; mbody \<leftarrow> byte; mlegs \<leftarrow> byte; mfeet \<leftarrow> byte; fam \<leftarrow> word16;
             State_Monad.return (out\<lparr>lookMount := mount, lookMountHead := min 132 mhead,
               lookMountBody := min 132 mbody, lookMountLegs := min 132 mlegs,
               lookMountFeet := min 132 mfeet, lookFamiliarsType := fam\<rparr>) }
           else State_Monad.return (out\<lparr>lookMount := mount\<rparr>));
         isMountRandomized \<leftarrow> byte;
         issue (CallGame ''playerChangeOutfit'' [AU32 (pv_id p), AOutfit out', AByte isMountRandomized]) }
       else if outfitType = 1 then do { _ \<leftarrow> word32; nothing }
       else if outfitType = 2 then do {
         pos \<leftarrow> pos_field; itemId \<leftarrow> word16; stackpos \<leftarrow> byte; mount \<leftarrow> word16;
         mhead \<leftarrow> byte; mbody \<leftarrow> byte; mlegs \<leftarrow> byte; mfeet \<leftarrow> byte; direction \<leftarrow> byte; podiumVisible \<leftarrow> byte;
         issue (CallGame ''playerSetShowOffSocket''
           [AU32 (pv_id p), AOutfit (out\<lparr>lookMount := mount, lookMountHead := min 132 mhead,
               lookMountBody := min 132 mbody, lookMountLegs := min 132 mlegs, lookMountFeet := min 132 mfeet\<rparr>),
            APos pos, AByte stackpos, AU16 itemId, AByte podiumVisible, AByte (max 0 (min 3 direction))]) }
       else nothing } })"

section \<open>Items, containers, trade and shops\<close>

definition parseHotkeyEquip :: "protocol_game \<Rightarrow> client_player \<Rightarrow> unit parser" where
  "parseHotkeyEquip g p = do {
     itemId \<leftarrow> word16;
     tier \<leftarrow> byte;
     addGameTask p ''playerEquipItem'' [AU16 itemId, ABool (upgradeClassification g itemId > 0), AByte tier] }"

definition parseApplyImbuement :: "client_player \<Rightarrow> unit parser" where
  "parseApplyImbuement p = do {
     slot \<leftarrow> byte;
     imbuementId \<leftarrow> word32;
     protectionCharm \<leftarrow> byte;
     addGameTask p ''playerApplyImbuement'' [AU16 (ucast imbuementId), AByte slot, ABool (protectionCharm \<noteq> 0)] }"

definition parseClearImbuement :: "client_player \<Rightarrow> unit parser" where
  "parseClearImbuement p = do { slot \<leftarrow> byte; addGameTask p ''playerClearImbuement'' [AByte slot] }"

definition parseCloseImbuementWindow :: "client_player \<Rightarrow> unit parser" where
  "parseCloseImbuementWindow p = addGameTask p ''playerCloseImbuementWindow'' []"

definition parseUseItem :: "client_player \<Rightarrow> unit parser" where
  "parseUseItem p = do {
     pos \<leftarrow> pos_field; itemId \<leftarrow> word16; stackpos \<leftarrow> byte; index \<leftarrow> byte;
     addGameTaskTimed p ''playerUseItem'' [APos pos, AByte stackpos, AByte index, AU16 itemId] }"

definition parseUseItemEx :: "client_player \<Rightarrow> unit parser" where
  "parseUseItemEx p = do {
     fromPos \<leftarrow> pos_field; fromItemId \<leftarrow> word16; fromStackPos \<leftarrow> byte;
     toPos \<leftarrow> pos_field; toItemId \<leftarrow> word16; toStackPos \<leftarrow> byte;
     addGameTaskTimed p ''playerUseItemEx''
       [APos fromPos, AByte fromStackPos, AU16 fromItemId, APos toPos, AByte toStackPos, AU16 toItemId] }"

definition parseUseWithCreature :: "client_player \<Rightarrow> unit parser" where
  "parseUseWithCreature p = do {
     fromPos \<leftarrow> pos_field; itemId \<leftarrow> word16; fromStackPos \<leftarrow> byte; creatureId \<leftarrow> word32;
     addGameTaskTimed p ''playerUseWithCreature''
       [APos fromPos, AByte fromStackPos, AU32 creatureId, AU16 itemId] }"

definition parseCloseContainer :: "client_player \<Rightarrow> unit parser" where
  "parseCloseContainer p = do { cid \<leftarrow> byte; addGameTask p ''playerCloseContainer'' [AByte cid] }"

definition parseUpArrowContainer :: "client_player \<Rightarrow> unit parser" where
  "parseUpArrowContainer p = do { cid \<leftarrow> byte; addGameTask p ''playerMoveUpContainer'' [AByte cid] }"

definition parseUpdateContainer :: "client_player \<Rightarrow> unit parser" where
  "parseUpdateContainer p = do { cid \<leftarrow> byte; addGameTask p ''playerUpdateContainer'' [AByte cid] }"

definition parseThrow :: "client_player \<Rightarrow> unit parser" where
  "parseThrow p = do {
     fromPos \<leftarrow> pos_field; itemId \<leftarrow> word16; fromStackpos \<leftarrow> byte; toPos \<leftarrow> pos_field; cnt \<leftarrow> byte;
     if toPos \<noteq> fromPos then
       addGameTaskTimed p ''playerMoveThing''
         [APos fromPos, AU16 itemId, AByte fromStackpos, APos toPos, AByte cnt]
     else nothing }"

definition parseLookAt :: "client_player \<Rightarrow> unit parser" where
  "parseLookAt p = do {
     pos \<leftarrow> pos_field; itemId \<leftarrow> word16; stackpos \<leftarrow> byte;
     addGameTaskTimed p ''playerLookAt'' [AU16 itemId, APos pos, AByte stackpos] }"

definition parseLookInBattleList :: "client_player \<Rightarrow> unit parser" where
  "parseLookInBattleList p = do {
     creatureId \<leftarrow> word32;
     addGameTaskTimed p ''playerLookInBattleList'' [AU32 creatureId] }"

definition parseQuickLoot :: "protocol_game \<Rightarrow> client_player \<Rightarrow> unit parser" where
  "parseQuickLoot g p = (if oldProtocol g then nothing else do {
     pos \<leftarrow> pos_field; itemId \<leftarrow> word16; stackpos \<leftarrow> byte; lootAllCorpses \<leftarrow> byte; autoLoot \<leftarrow> byte;
     addGameTask p ''playerQuickLoot''
       [APos pos, AU16 itemId, AByte stackpos, ANull, ABool (lootAllCorpses \<noteq> 0), ABool (autoLoot \<noteq> 0)] })"

text \<open>The actions 0 to 2 work on the loot container of a category, 4 to 6 on its obtain container.\<close>

definition parseLootContainer :: "protocol_game \<Rightarrow> client_player \<Rightarrow> unit parser" where
  "parseLootContainer g p = (if oldProtocol g then nothing else do {
     action \<leftarrow> byte;
     if action = 0 \<or> action = 4 then do {
       category \<leftarrow> byte; pos \<leftarrow> pos_field; itemId \<leftarrow> word16; stackpos \<leftarrow> byte;
       addGameTask p ''playerSetManagedContainer''
         [AInt (uint category), APos pos, AU16 itemId, AByte stackpos, ABool (action = 0)] }
     else if action = 1 \<or> action = 5 then do {
       category \<leftarrow> byte;
       addGameTask p ''playerClearManagedContainer'' [AInt (uint category), ABool (action = 1)] }
     else if action = 2 \<or> action = 6 then do {
       category \<leftarrow> byte;
       addGameTask p ''playerOpenManagedContainer'' [AInt (uint category), ABool (action = 2)] }
     else if action = 3 then do {
       useMainAsFallback \<leftarrow> byte;
       addGameTask p ''playerSetQuickLootFallback'' [ABool (useMainAsFallback = 1)] }
     else nothing })"

definition parseQuickLootBlackWhitelist :: "protocol_game \<Rightarrow> client_player \<Rightarrow> unit parser" where
  "parseQuickLootBlackWhitelist g p = (if oldProtocol g then nothing else do {
     filter \<leftarrow> byte;
     size \<leftarrow> word16;
     listedItems \<leftarrow> State_Monad.traverse_list (\<lambda>_. word16) [0..<unat size];
     addGameTask p ''playerQuickLootBlackWhitelist'' [AInt (uint filter), AItems listedItems] })"

definition parseTextWindow :: "client_player \<Rightarrow> unit parser" where
  "parseTextWindow p = do {
     windowTextId \<leftarrow> word32;
     newText \<leftarrow> text_field;
     addGameTask p ''playerWriteItem'' [AU32 windowTextId, AString newText] }"

definition parseHouseWindow :: "client_player \<Rightarrow> unit parser" where
  "parseHouseWindow p = do {
     doorId \<leftarrow> byte; id \<leftarrow> word32; txt \<leftarrow> text_field;
     addGameTask p ''playerUpdateHouseWindow'' [AByte doorId, AU32 id, AString txt] }"

definition parseLookInShop :: "client_player \<Rightarrow> unit parser" where
  "parseLookInShop p = do {
     id \<leftarrow> word16; cnt \<leftarrow> byte;
     addGameTaskTimed p ''playerLookInShop'' [AU16 id, AByte cnt] }"

text \<open>An amount is one byte in the old protocol, two in the new.\<close>

definition amount_field :: "protocol_game \<Rightarrow> u16 parser" where
  "amount_field g = (if oldProtocol g then do { b \<leftarrow> byte; State_Monad.return (ucast b) } else word16)"

definition parsePlayerBuyOnShop :: "protocol_game \<Rightarrow> client_player \<Rightarrow> unit parser" where
  "parsePlayerBuyOnShop g p = do {
     id \<leftarrow> word16; cnt \<leftarrow> byte; amount \<leftarrow> amount_field g; ignoreCap \<leftarrow> byte; inBackpacks \<leftarrow> byte;
     addGameTaskTimed p ''playerBuyItem''
       [AU16 id, AByte cnt, AU16 amount, ABool (ignoreCap \<noteq> 0), ABool (inBackpacks \<noteq> 0)] }"

definition parsePlayerSellOnShop :: "protocol_game \<Rightarrow> client_player \<Rightarrow> unit parser" where
  "parsePlayerSellOnShop g p = do {
     id \<leftarrow> word16; cnt \<leftarrow> byte; amount \<leftarrow> amount_field g; ignoreEquipped \<leftarrow> byte;
     addGameTaskTimed p ''playerSellItem''
       [AU16 id, AByte (max cnt 1), AU16 amount, ABool (ignoreEquipped \<noteq> 0)] }"

definition parseRequestTrade :: "client_player \<Rightarrow> unit parser" where
  "parseRequestTrade p = do {
     pos \<leftarrow> pos_field; itemId \<leftarrow> word16; stackpos \<leftarrow> byte; playerId \<leftarrow> word32;
     addGameTask p ''playerRequestTrade'' [APos pos, AByte stackpos, AU32 playerId, AU16 itemId] }"

definition parseLookInTrade :: "client_player \<Rightarrow> unit parser" where
  "parseLookInTrade p = do {
     counterOffer \<leftarrow> byte; index \<leftarrow> byte;
     addGameTaskTimed p ''playerLookInTrade'' [ABool (counterOffer = 1), AByte index] }"

definition parseRotateItem :: "protocol_game \<Rightarrow> client_player \<Rightarrow> unit parser" where
  "parseRotateItem g p = do {
     pos \<leftarrow> pos_field; itemId \<leftarrow> word16; stackpos \<leftarrow> byte;
     if isPodium g itemId
     then addGameTaskTimed p ''playerRotatePodium'' [APos pos, AByte stackpos, AU16 itemId]
     else addGameTaskTimed p ''playerRotateItem'' [APos pos, AByte stackpos, AU16 itemId] }"

definition parseWrapableItem :: "client_player \<Rightarrow> unit parser" where
  "parseWrapableItem p = do {
     pos \<leftarrow> pos_field; itemId \<leftarrow> word16; stackpos \<leftarrow> byte;
     addGameTaskTimed p ''playerWrapableItem'' [APos pos, AByte stackpos, AU16 itemId] }"

definition parseBrowseField :: "client_player \<Rightarrow> unit parser" where
  "parseBrowseField p = do { pos \<leftarrow> pos_field; addGameTask p ''playerBrowseField'' [APos pos] }"

definition parseSeekInContainer :: "client_player \<Rightarrow> unit parser" where
  "parseSeekInContainer p = do {
     containerId \<leftarrow> byte; index \<leftarrow> word16; primaryType \<leftarrow> byte;
     addGameTask p ''playerSeekInContainer'' [AByte containerId, AU16 index, AByte primaryType] }"

text \<open>Inspection kinds: 0 an object of the world, 1 an offer of an npc, 3 a cyclopedia entry.\<close>

definition parseInspectionObject :: "protocol_game \<Rightarrow> client_player \<Rightarrow> unit parser" where
  "parseInspectionObject g p = (if oldProtocol g then nothing else do {
     inspectionType \<leftarrow> byte;
     if inspectionType = 0 then do {
       pos \<leftarrow> pos_field;
       issue (CallGame ''playerInspectItem'' [APlayer (pv_id p), APos pos]) }
     else if inspectionType = 1 \<or> inspectionType = 3 then do {
       itemId \<leftarrow> word16; itemCount \<leftarrow> byte;
       issue (CallGame ''playerInspectItem''
         [APlayer (pv_id p), AU16 itemId, AByte itemCount, ABool (inspectionType = 3)]) }
     else nothing })"

definition parseConfigureShowOffSocket :: "protocol_game \<Rightarrow> client_player \<Rightarrow> unit parser" where
  "parseConfigureShowOffSocket g p = (if oldProtocol g then nothing else do {
     pos \<leftarrow> pos_field; itemId \<leftarrow> word16; stackpos \<leftarrow> byte;
     issue (CallGame ''playerConfigureShowOffSocket'' [AU32 (pv_id p), APos pos, AByte stackpos, AU16 itemId]) })"

definition parseSetMonsterPodium :: "protocol_game \<Rightarrow> client_player \<Rightarrow> unit parser" where
  "parseSetMonsterPodium g p = (if oldProtocol g then nothing else do {
     race \<leftarrow> word32; pos \<leftarrow> pos_field; itemId \<leftarrow> word16; stackpos \<leftarrow> byte;
     direction \<leftarrow> byte; podiumVisible \<leftarrow> byte; monsterVisible \<leftarrow> byte;
     issue (CallGame ''playerSetMonsterPodium''
       [AU32 (pv_id p), AU32 (ucast (ucast race :: u16)), APos pos, AByte stackpos, AU16 itemId,
        AByte direction, APair podiumVisible monsterVisible]) })"

section \<open>Depot, stash, market, forge and the other windows\<close>

definition parseStashWithdraw :: "protocol_game \<Rightarrow> client_player \<Rightarrow> unit parser" where
  "parseStashWithdraw g p = (if oldProtocol g then nothing
     else if \<not> stash_available p then issue (Call ''sendCancelMessage'' [])
     else if ui_exhausted p then issue (Call ''sendCancelMessage'' [])
     else do {
       action \<leftarrow> byte;
       (if action = 0 then do {
          pos \<leftarrow> pos_field; itemId \<leftarrow> word16; stackpos \<leftarrow> byte; cnt \<leftarrow> byte;
          addGameTask p ''playerStowItem'' [APos pos, AU16 itemId, AByte stackpos, AByte cnt, ABool False] }
        else if action = 1 \<or> action = 2 then do {
          pos \<leftarrow> pos_field; itemId \<leftarrow> word16; stackpos \<leftarrow> byte;
          addGameTask p ''playerStowItem'' [APos pos, AU16 itemId, AByte stackpos, AByte 0, ABool (action = 2)] }
        else if action = 3 then do {
          itemId \<leftarrow> word16; cnt \<leftarrow> word32; stackpos \<leftarrow> byte;
          addGameTask p ''playerStashWithdraw'' [AU16 itemId, AU32 cnt, AByte stackpos] }
        else nothing);
       issue (Call ''updateUIExhausted'' []) })"

definition parseOpenDepotSearch :: "protocol_game \<Rightarrow> client_player \<Rightarrow> unit parser" where
  "parseOpenDepotSearch g p = (if oldProtocol g then nothing else addGameTask p ''playerRequestDepotItems'' [])"

definition parseCloseDepotSearch :: "protocol_game \<Rightarrow> client_player \<Rightarrow> unit parser" where
  "parseCloseDepotSearch g p =
     (if oldProtocol g then nothing else addGameTask p ''playerRequestCloseDepotSearch'' [])"

text \<open>A tier byte follows the item id when the item type can be upgraded.\<close>

definition tier_field :: "protocol_game \<Rightarrow> u16 \<Rightarrow> u8 parser" where
  "tier_field g itemId = (if upgradeClassification g itemId > 0 then byte else State_Monad.return 0)"

definition parseDepotSearchItemRequest :: "protocol_game \<Rightarrow> client_player \<Rightarrow> unit parser" where
  "parseDepotSearchItemRequest g p = (if oldProtocol g then nothing else do {
     itemId \<leftarrow> word16; itemTier \<leftarrow> tier_field g itemId;
     addGameTask p ''playerRequestDepotSearchItem'' [AU16 itemId, AByte itemTier] })"

definition parseRetrieveDepotSearch :: "protocol_game \<Rightarrow> client_player \<Rightarrow> unit parser" where
  "parseRetrieveDepotSearch g p = (if oldProtocol g then nothing else do {
     itemId \<leftarrow> word16; itemTier \<leftarrow> tier_field g itemId; type \<leftarrow> byte;
     addGameTask p ''playerRequestDepotSearchRetrieve'' [AU16 itemId, AByte itemTier, AByte type] })"

definition parseOpenParentContainer :: "protocol_game \<Rightarrow> client_player \<Rightarrow> unit parser" where
  "parseOpenParentContainer g p = (if oldProtocol g then nothing else do {
     pos \<leftarrow> pos_field;
     addGameTask p ''playerRequestOpenContainerFromDepotSearch'' [APos pos] })"

definition parseMarketLeave :: "client_player \<Rightarrow> unit parser" where
  "parseMarketLeave p = addGameTask p ''playerLeaveMarket'' []"

text \<open>
  The requests for the player's own offers and history are 2 and 1, in the old protocol the item ids
  0xFFFE and 0xFFFF.
\<close>

definition parseMarketBrowse :: "protocol_game \<Rightarrow> client_player \<Rightarrow> unit parser" where
  "parseMarketBrowse g p = do {
     browseId \<leftarrow> (if oldProtocol g then word16 else do { b \<leftarrow> byte; State_Monad.return (ucast b) });
     if (oldProtocol g \<and> browseId = 0xFFFE) \<or> (\<not> oldProtocol g \<and> browseId = 2)
     then addGameTask p ''playerBrowseMarketOwnOffers'' []
     else if (oldProtocol g \<and> browseId = 0xFFFF) \<or> (\<not> oldProtocol g \<and> browseId = 1)
     then addGameTask p ''playerBrowseMarketOwnHistory'' []
     else if \<not> oldProtocol g then do {
       itemId \<leftarrow> word16; tier \<leftarrow> byte;
       issue (Call ''sendMarketEnter'' [AInt (pv_depot p)]);
       addGameTask p ''playerBrowseMarket'' [AU16 itemId, AByte tier] }
     else addGameTask p ''playerBrowseMarket'' [AU16 browseId, AByte 0] }"

definition parseMarketCreateOffer :: "protocol_game \<Rightarrow> client_player \<Rightarrow> unit parser" where
  "parseMarketCreateOffer g p = do {
     type \<leftarrow> byte;
     itemId \<leftarrow> word16;
     itemTier \<leftarrow> (if \<not> oldProtocol g then tier_field g itemId else State_Monad.return 0);
     amount \<leftarrow> word16;
     price \<leftarrow> (if oldProtocol g then do { w \<leftarrow> word32; State_Monad.return (ucast w) } else word64);
     anonymous \<leftarrow> byte;
     if amount > 0 \<and> price > 0
     then addGameTask p ''playerCreateMarketOffer''
       [AByte type, AU16 itemId, AU16 amount, AU64 price, AByte itemTier, ABool (anonymous \<noteq> 0)]
     else nothing }"

definition parseMarketCancelOffer :: "client_player \<Rightarrow> unit parser" where
  "parseMarketCancelOffer p = do {
     timestamp \<leftarrow> word32; counter \<leftarrow> word16;
     (if counter > 0 then addGameTask p ''playerCancelMarketOffer'' [AU32 timestamp, AU16 counter] else nothing);
     issue (Call ''updateCoinBalance'' []) }"

definition parseMarketAcceptOffer :: "client_player \<Rightarrow> unit parser" where
  "parseMarketAcceptOffer p = do {
     timestamp \<leftarrow> word32; counter \<leftarrow> word16; amount \<leftarrow> word16;
     (if amount > 0 \<and> counter > 0
      then addGameTask p ''playerAcceptMarketOffer'' [AU32 timestamp, AU16 counter, AU16 amount]
      else nothing);
     issue (Call ''updateCoinBalance'' []) }"

text \<open>\<^verbatim>\<open>ForgeAction_t\<close>: 0 fusion, 1 transfer, 2 to 4 the resource conversions.\<close>

definition parseForgeEnter :: "protocol_game \<Rightarrow> client_player \<Rightarrow> unit parser" where
  "parseForgeEnter g p = (if oldProtocol g then nothing else do {
     actionType \<leftarrow> byte; convergence \<leftarrow> byte; firstItem \<leftarrow> word16; tier \<leftarrow> byte; secondItem \<leftarrow> word16;
     usedCore \<leftarrow> byte; reduceTierLoss \<leftarrow> byte;
     if actionType = 0 then
       addGameTask p ''playerForgeFuseItems''
         [AByte actionType, AU16 firstItem, AByte tier, AU16 secondItem, ABool (usedCore \<noteq> 0),
          ABool (reduceTierLoss \<noteq> 0), ABool (convergence \<noteq> 0)]
     else if actionType = 1 then
       addGameTask p ''playerForgeTransferItemTier''
         [AByte actionType, AU16 firstItem, AByte tier, AU16 secondItem, ABool (convergence \<noteq> 0)]
     else if actionType \<le> 4 then addGameTask p ''playerForgeResourceConversion'' [AByte actionType]
     else nothing })"

definition parseForgeBrowseHistory :: "protocol_game \<Rightarrow> client_player \<Rightarrow> unit parser" where
  "parseForgeBrowseHistory g p = (if oldProtocol g then nothing else do {
     page \<leftarrow> byte; addGameTask p ''playerBrowseForgeHistory'' [AByte page] })"

definition parseInventoryImbuements :: "protocol_game \<Rightarrow> client_player \<Rightarrow> unit parser" where
  "parseInventoryImbuements g p = (if oldProtocol g then nothing else do {
     isTrackerOpen \<leftarrow> byte;
     addGameTask p ''playerRequestInventoryImbuements'' [ABool (isTrackerOpen \<noteq> 0)] })"

definition parseBosstiarySlot :: "protocol_game \<Rightarrow> client_player \<Rightarrow> unit parser" where
  "parseBosstiarySlot g p = (if oldProtocol g then nothing else do {
     slotBossId \<leftarrow> byte; selectedBossId \<leftarrow> word32;
     addGameTask p ''playerBosstiarySlot'' [AByte slotBossId, AU32 selectedBossId] })"

definition parseOpenWheel :: "protocol_game \<Rightarrow> client_player \<Rightarrow> unit parser" where
  "parseOpenWheel g p = (if oldProtocol g \<or> \<not> wheel_enabled g then nothing else do {
     ownerId \<leftarrow> word32; addGameTask p ''playerOpenWheel'' [AU32 ownerId] })"

definition parseWheelGemAction :: "protocol_game \<Rightarrow> client_player \<Rightarrow> unit parser" where
  "parseWheelGemAction g p = (if oldProtocol g \<or> \<not> wheel_enabled g then nothing else do {
     msg \<leftarrow> reading (\<lambda>m. (m, m)); addGameTask p ''playerWheelGemAction'' [AMsg msg] })"

definition parseSaveWheel :: "protocol_game \<Rightarrow> client_player \<Rightarrow> unit parser" where
  "parseSaveWheel g p = (if oldProtocol g \<or> \<not> wheel_enabled g then nothing else do {
     msg \<leftarrow> reading (\<lambda>m. (m, m)); addGameTask p ''playerSaveWheel'' [AMsg msg] })"

text \<open>Recent deaths and recent kills, 3 and 4, are paged; a character id 0 is the player's own.\<close>

definition parseCyclopediaCharacterInfo :: "protocol_game \<Rightarrow> client_player \<Rightarrow> unit parser" where
  "parseCyclopediaCharacterInfo g p = (if oldProtocol g then nothing else do {
     characterID \<leftarrow> word32;
     infoType \<leftarrow> byte;
     (entriesPerPage, page) \<leftarrow> (if infoType = 3 \<or> infoType = 4 then do {
         entries \<leftarrow> word16; pg \<leftarrow> word16;
         State_Monad.return (min 30 (max 5 entries), max 1 pg) }
       else State_Monad.return (0, 0));
     issue (CallGame ''playerCyclopediaCharacterInfo''
       [APlayer (pv_id p), AU32 (if characterID = 0 then pv_guid p else characterID), AByte infoType,
        AU16 entriesPerPage, AU16 page]) })"

definition parseHighscores :: "protocol_game \<Rightarrow> client_player \<Rightarrow> unit parser" where
  "parseHighscores g p = (if oldProtocol g then nothing else do {
     type \<leftarrow> byte; category \<leftarrow> byte; vocation \<leftarrow> word32; worldName \<leftarrow> text_field;
     _ \<leftarrow> byte; _ \<leftarrow> byte;
     page \<leftarrow> (if type = 0 then do { w \<leftarrow> word16; State_Monad.return (max 1 w) } else State_Monad.return 1);
     entries \<leftarrow> byte;
     issue (CallGame ''playerHighscores''
       [APlayer (pv_id p), AByte type, AByte category, AU32 vocation, AString worldName, AU16 page,
        AByte (min 30 (max 5 entries))]) })"

definition parseTaskHuntingAction :: "protocol_game \<Rightarrow> client_player \<Rightarrow> unit parser" where
  "parseTaskHuntingAction g p = (if oldProtocol g then nothing else do {
     slot \<leftarrow> byte; action \<leftarrow> byte; upgrade \<leftarrow> byte; raceId \<leftarrow> word16;
     if \<not> task_hunting_enabled g then nothing
     else addGameTask p ''playerTaskHuntingAction''
       [AByte slot, AByte action, ABool (upgrade \<noteq> 0), AU16 raceId] })"

text \<open>The prey actions with a field of their own: 2 a monster of the list, 5 an option, 4 a race.\<close>

definition parsePreyAction :: "protocol_game \<Rightarrow> client_player \<Rightarrow> unit parser" where
  "parsePreyAction g p = do {
     slot \<leftarrow> byte;
     action \<leftarrow> byte;
     index \<leftarrow> (if action = 2 then byte else State_Monad.return (- 1));
     option \<leftarrow> (if action = 5 then byte else State_Monad.return 0);
     raceId \<leftarrow> (if action = 4 then word16 else State_Monad.return 0);
     if \<not> prey_enabled g then nothing
     else addGameTask p ''playerPreyAction'' [AByte slot, AByte action, AByte option, AInt8 index, AU16 raceId] }"

definition parseRewardChestCollect :: "protocol_game \<Rightarrow> client_player \<Rightarrow> unit parser" where
  "parseRewardChestCollect g p = do {
     position \<leftarrow> pos_field; itemId \<leftarrow> word16; stackPosition \<leftarrow> byte;
     if \<not> reward_collect_enabled g then nothing
     else addGameTask p ''playerRewardChestCollect''
       [APos position, AU16 itemId, AByte stackPosition, AU32 (reward_max_items g)] }"

definition parseBugReport :: "client_player \<Rightarrow> unit parser" where
  "parseBugReport p = do {
     category \<leftarrow> byte;
     message \<leftarrow> text_field;
     position \<leftarrow> (if category = 0 then pos_field else State_Monad.return (Position 0 0 0));
     addGameTask p ''playerReportBug'' [AString message, APos position, AByte category] }"

text \<open>One assertion report is taken in a session.\<close>

definition report_assertion :: "bool parser" where
  "report_assertion = State (\<lambda>s. (ps_debugAssertSent s, s\<lparr>ps_debugAssertSent := True\<rparr>))"

definition parseDebugAssert :: "client_player \<Rightarrow> unit parser" where
  "parseDebugAssert p = do {
     sent \<leftarrow> report_assertion;
     if sent then nothing else do {
       assertLine \<leftarrow> text_field; date \<leftarrow> text_field; description \<leftarrow> text_field; comment \<leftarrow> text_field;
       addGameTask p ''playerDebugAssert''
         [AString assertLine, AString date, AString description, AString comment] } }"

text \<open>The handler of the disabled rule violation opcode.  Report kinds: 0 a name, 1 a statement.\<close>

definition parseRuleViolationReport :: "client_player \<Rightarrow> unit parser" where
  "parseRuleViolationReport p = do {
     reportType \<leftarrow> byte; reportReason \<leftarrow> byte; targetName \<leftarrow> text_field; comment \<leftarrow> text_field;
     translation \<leftarrow> (if reportType = 0 then text_field
       else if reportType = 1 then do { t \<leftarrow> text_field; _ \<leftarrow> word32; State_Monad.return t }
       else State_Monad.return []);
     addGameTask p ''playerReportRuleViolationReport''
       [AString targetName, AByte reportType, AByte reportReason, AString comment, AString translation] }"

section \<open>The price list of the party analyzer\<close>

text \<open>\<^verbatim>\<open>for (uint16_t i = 1; i <= size; i++)\<close>, the counter wrapping at its width.\<close>

definition read_price :: "unit parser" where
  "read_price = do { itemId \<leftarrow> word16; price \<leftarrow> word64; issue (Call ''setItemCustomPrice'' [AU16 itemId, AU64 price]) }"

partial_function (option) price_loop :: "u16 \<Rightarrow> u16 \<Rightarrow> packet_state \<Rightarrow> packet_state option" where
  "price_loop sz i s =
     (if i \<le> sz then price_loop sz (i + 1) (snd (run_state read_price s)) else Some s)"

definition parsePartyAnalyzerAction :: "protocol_game \<Rightarrow> client_player \<Rightarrow> packet_state \<Rightarrow> packet_state option" where
  "parsePartyAnalyzerAction g p s =
     (if oldProtocol g \<or> \<not> leads_party p then Some s
      else (let (action, s1) = run_state byte s in
        if action = 0 then Some (snd (run_state (issue (Call ''resetAnalyzer'' [])) s1))
        else if action = 1 then Some (snd (run_state (issue (Call ''switchAnalyzerPriceType'' [])) s1))
        else if action = 2 then (let (sz, s2) = run_state word16 s1 in
          map_option (\<lambda>s3. snd (run_state (do { issue (Call ''reloadPrices'' []); issue (Call ''updateTrackerAnalyzer'' []) }) s3))
            (price_loop sz 1 s2))
        else Some s1))"

section \<open>Selecting the handler\<close>

definition leave_to :: "string \<Rightarrow> unit parser" where
  "leave_to name = do { m \<leftarrow> reading (\<lambda>m. (m, m)); issue (Handle name m) }"

definition session_opcodes :: "protocol_game \<Rightarrow> client_player \<Rightarrow> (u8 \<times> unit parser) list" where
  "session_opcodes g p =
    [(0x14, issue (Event ''logout'' [ABool True, ABool False])),
     (0x1D, addGameTask p ''playerReceivePingBack'' []),
     (0x1E, addGameTask p ''playerReceivePing'' []),
     (0x2A, leave_to ''parseCyclopediaMonsterTracker''),
     (0x2C, leave_to ''parseLeaderFinderWindow''),
     (0x2D, leave_to ''parseMemberFinderWindow''),
     (0x28, parseStashWithdraw g p),
     (0x29, parseRetrieveDepotSearch g p),
     (0x32, parseExtendedOpcode p),
     (0x60, parseInventoryImbuements g p),
     (0x61, parseOpenWheel g p),
     (0x62, parseSaveWheel g p),
     (0x64, parseAutoWalk p),
     (0x65, addGameTask p ''playerMove'' [ADir DIRECTION_NORTH]),
     (0x66, addGameTask p ''playerMove'' [ADir DIRECTION_EAST]),
     (0x67, addGameTask p ''playerMove'' [ADir DIRECTION_SOUTH]),
     (0x68, addGameTask p ''playerMove'' [ADir DIRECTION_WEST]),
     (0x69, addGameTask p ''playerStopAutoWalk'' []),
     (0x6A, addGameTask p ''playerMove'' [ADir DIRECTION_NORTHEAST]),
     (0x6B, addGameTask p ''playerMove'' [ADir DIRECTION_SOUTHEAST]),
     (0x6C, addGameTask p ''playerMove'' [ADir DIRECTION_SOUTHWEST]),
     (0x6D, addGameTask p ''playerMove'' [ADir DIRECTION_NORTHWEST]),
     (0x6F, addGameTaskTimed p ''playerTurn'' [ADir DIRECTION_NORTH]),
     (0x70, addGameTaskTimed p ''playerTurn'' [ADir DIRECTION_EAST]),
     (0x71, addGameTaskTimed p ''playerTurn'' [ADir DIRECTION_SOUTH]),
     (0x72, addGameTaskTimed p ''playerTurn'' [ADir DIRECTION_WEST]),
     (0x73, parseTeleport p)]"

definition item_opcodes :: "protocol_game \<Rightarrow> client_player \<Rightarrow> (u8 \<times> unit parser) list" where
  "item_opcodes g p =
    [(0x77, parseHotkeyEquip g p),
     (0x78, parseThrow p),
     (0x79, parseLookInShop p),
     (0x7A, parsePlayerBuyOnShop g p),
     (0x7B, parsePlayerSellOnShop g p),
     (0x7C, addGameTask p ''playerCloseShop'' []),
     (0x7D, parseRequestTrade p),
     (0x7E, parseLookInTrade p),
     (0x7F, addGameTask p ''playerAcceptTrade'' []),
     (0x80, addGameTask p ''playerCloseTrade'' []),
     (0x82, parseUseItem p),
     (0x83, parseUseItemEx p),
     (0x84, parseUseWithCreature p),
     (0x85, parseRotateItem g p),
     (0x86, parseConfigureShowOffSocket g p),
     (0x87, parseCloseContainer p),
     (0x88, parseUpArrowContainer p),
     (0x89, parseTextWindow p),
     (0x8A, parseHouseWindow p),
     (0x8B, parseWrapableItem p),
     (0x8C, parseLookAt p),
     (0x8D, parseLookInBattleList p),
     (0x8E, nothing),
     (0x8F, parseQuickLoot g p),
     (0x90, parseLootContainer g p),
     (0x91, parseQuickLootBlackWhitelist g p),
     (0x92, parseOpenDepotSearch g p),
     (0x93, parseCloseDepotSearch g p),
     (0x94, parseDepotSearchItemRequest g p),
     (0x95, parseOpenParentContainer g p)]"

definition social_opcodes :: "protocol_game \<Rightarrow> client_player \<Rightarrow> (u8 \<times> unit parser) list" where
  "social_opcodes g p =
    [(0x96, parseSay p),
     (0x97, addGameTask p ''playerRequestChannels'' []),
     (0x98, parseOpenChannel p),
     (0x99, parseCloseChannel p),
     (0x9A, parseOpenPrivateChannel p),
     (0x9E, addGameTask p ''playerCloseNpcChannel'' []),
     (0x9F, parseSetMonsterPodium g p),
     (0xA0, parseFightModes p),
     (0xA1, parseAttack p),
     (0xA2, parseFollow p),
     (0xA3, parseInviteToParty p),
     (0xA4, parseJoinParty p),
     (0xA5, parseRevokePartyInvite p),
     (0xA6, parsePassPartyLeadership p),
     (0xA7, addGameTask p ''playerLeaveParty'' []),
     (0xA8, parseEnableSharedPartyExperience p),
     (0xAA, addGameTask p ''playerCreatePrivateChannel'' []),
     (0xAB, parseChannelInvite p),
     (0xAC, parseChannelExclude p),
     (0xAE, leave_to ''parseSendBosstiary''),
     (0xAF, leave_to ''parseSendBosstiarySlots''),
     (0xB0, parseBosstiarySlot g p),
     (0xB1, parseHighscores g p),
     (0xBA, parseTaskHuntingAction g p),
     (0xBE, addGameTask p ''playerCancelAttackAndFollow'' []),
     (0xBF, parseForgeEnter g p),
     (0xC0, parseForgeBrowseHistory g p),
     (0xC9, nothing),
     (0xCA, parseUpdateContainer p),
     (0xCB, parseBrowseField p),
     (0xCC, parseSeekInContainer p),
     (0xCD, parseInspectionObject g p)]"

definition window_opcodes :: "protocol_game \<Rightarrow> client_player \<Rightarrow> (u8 \<times> unit parser) list" where
  "window_opcodes g p =
    [(0xD2, addGameTask p ''playerRequestOutfit'' []),
     (0xD3, do { m \<leftarrow> reading (\<lambda>m. (m, m)); issue (Event ''parseSetOutfit'' [AMsg m]) }),
     (0xD4, parseToggleMount p),
     (0xD5, parseApplyImbuement p),
     (0xD6, parseClearImbuement p),
     (0xD7, parseCloseImbuementWindow p),
     (0xDC, parseAddVip p),
     (0xDD, parseRemoveVip p),
     (0xDE, parseEditVip p),
     (0xE1, leave_to ''parseBestiarysendRaces''),
     (0xE2, leave_to ''parseBestiarysendCreatures''),
     (0xE3, leave_to ''parseBestiarysendMonsterData''),
     (0xE4, leave_to ''parseSendBuyCharmRune''),
     (0xE5, parseCyclopediaCharacterInfo g p),
     (0xE6, parseBugReport p),
     (0xE7, parseWheelGemAction g p),
     (0xE8, parseDebugAssert p),
     (0xEB, parsePreyAction g p),
     (0xED, leave_to ''parseSendResourceBalance''),
     (0xEE, parseGreet p),
     (0xF0, addGameTaskTimed p ''playerShowQuestLog'' []),
     (0xF1, parseQuestLine p),
     (0xF3, nothing),
     (0xF4, parseMarketLeave p),
     (0xF5, parseMarketBrowse g p),
     (0xF6, parseMarketCreateOffer g p),
     (0xF7, parseMarketCancelOffer p),
     (0xF8, parseMarketAcceptOffer p),
     (0xF9, parseModalWindowAnswer p),
     (0xFF, parseRewardChestCollect g p)]"

definition handler :: "protocol_game \<Rightarrow> client_player \<Rightarrow> u8 \<Rightarrow> unit parser" where
  "handler g p recvbyte =
     (case map_of (session_opcodes g p @ item_opcodes g p @ social_opcodes g p @ window_opcodes g p) recvbyte of
        Some h \<Rightarrow> h | None \<Rightarrow> nothing)"

definition parsePacketFromDispatcher :: "protocol_game \<Rightarrow> u8 \<Rightarrow> packet_state \<Rightarrow> packet_state option" where
  "parsePacketFromDispatcher g recvbyte s =
     (if \<not> acceptPackets g \<or> game_shutdown g then Some s
      else case pg_player g of None \<Rightarrow> Some s
      | Some p \<Rightarrow>
        if pv_removed p \<or> pv_health p \<le> 0 then Some s
        else if recvbyte = 0x2B then parsePartyAnalyzerAction g p s
        else Some (snd (run_state (handler g p recvbyte) s)))"

section \<open>Receiving\<close>

definition ProtocolGame_parsePacket :: "protocol_game \<Rightarrow> network_message \<Rightarrow> action list \<times> protocol_game" where
  "ProtocolGame_parsePacket g msg =
     (if \<not> acceptPackets g \<or> game_shutdown g \<or> nm_length msg = 0 then ([], g)
      else (let (recvbyte, m) = getByte msg; closed = (if recvbyte = 0x0F then [Call ''disconnect'' []] else []) in
        case pg_player g of None \<Rightarrow> (closed, g)
        | Some p \<Rightarrow>
          if pv_removed p then (closed, g)
          else if pv_dead p \<or> pv_health p \<le> 0 then
            ((if playerDeathTime g = 0 then [GameTask ''playerCheckActivity'' [AString (pv_name p), AInt 1000]] else [])
              @ [Event ''parsePacketDead'' [AByte recvbyte]],
             if playerDeathTime g = 0 then g\<lparr>playerDeathTime := playerDeathTime g + 1\<rparr> else g)
          else
            ((if recvbyte \<noteq> 0xD3 then [Event ''executeOnRecvbyte'' [AU32 (pv_id p), AMsg m, AByte recvbyte]] else [])
              @ [Event ''parsePacketFromDispatcher'' [AMsg m, AByte recvbyte]], g)))"

text \<open>
  On the death screen. Whether \<^verbatim>\<open>spawn\<close> finds a place is an argument; a null player dereferenced is None.
\<close>

definition parsePacketDead :: "bool \<Rightarrow> protocol_game \<Rightarrow> u8 \<Rightarrow> (action list \<times> protocol_game) option" where
  "parsePacketDead spawned g recvbyte =
     (if recvbyte = 0x14 then
        (case pg_player g of None \<Rightarrow> None
         | Some p \<Rightarrow> Some ((if otclientV8 g > 0 then [CallGame ''removePlayerUniqueLogin'' [AString (pv_name p)]] else [])
             @ [Call ''disconnect'' [], Event ''updateOnlineStatus'' [AU32 (pv_guid p), ABool False]], g))
      else if recvbyte = 0x0F then
        (case pg_player g of None \<Rightarrow> Some ([], g)
         | Some p \<Rightarrow>
           if \<not> spawned then
             Some ([ScheduledEvent 100 ''sendPing'', Call ''disconnect'' [],
                    GameTask ''removeCreature'' [APlayer (pv_id p), ABool True]], g)
           else
             Some ([ScheduledEvent 100 ''sendPing'',
                    Event ''sendAddCreature'' [APlayer (pv_id p), APos (pv_position p), AInt 0, ABool False],
                    Event ''addBless'' []], g\<lparr>playerDeathTime := 0\<rparr>))
      else if recvbyte = 0x1D then Some ([ScheduledEvent 100 ''sendPingBack''], g)
      else Some ([], g))"

end
