(* ===== verification/Game_Requests.thy ===== *)
theory Game_Requests
  imports Game_Parse
begin

text \<open>
  What the packet handlers of \<^verbatim>\<open>protocolgame.cpp\<close> guarantee: every call they make of the game fits the
  signature of its method in \<^verbatim>\<open>game/game.hpp\<close>, a packet asks the game for at most one thing, what is
  read never depends on bytes outside the received message, the packets a client writes with the
  protocol's fields are understood as meant, and which packets stop the server from returning.
\<close>

section \<open>The methods of the game\<close>

definition game_signatures :: "(string \<times> arg_type list) list" where
  "game_signatures =
    [(''playerReportBug'', [TU32, TString, TPos, TByte]),
     (''playerDebugAssert'', [TU32, TString, TString, TString, TString]),
     (''playerPreyAction'', [TU32, TByte, TByte, TByte, TInt8, TU16]),
     (''playerTaskHuntingAction'', [TU32, TByte, TByte, TBool, TU16]),
     (''playerNpcGreet'', [TU32, TU32]),
     (''playerAnswerModalWindow'', [TU32, TU32, TByte, TByte]),
     (''playerForgeFuseItems'', [TU32, TByte, TU16, TByte, TU16, TBool, TBool, TBool]),
     (''playerForgeTransferItemTier'', [TU32, TByte, TU16, TByte, TU16, TBool]),
     (''playerForgeResourceConversion'', [TU32, TByte]),
     (''playerBrowseForgeHistory'', [TU32, TByte]),
     (''playerBosstiarySlot'', [TU32, TByte, TU32]),
     (''playerSetMonsterPodium'', [TU32, TU32, TPos, TByte, TU16, TByte, TPair]),
     (''playerRotatePodium'', [TU32, TPos, TByte, TU16]),
     (''playerRequestInventoryImbuements'', [TU32, TBool]),
     (''playerRewardChestCollect'', [TU32, TPos, TU16, TByte, TU32]),
     (''playerReportRuleViolationReport'', [TU32, TString, TByte, TByte, TString, TString]),
     (''playerCyclopediaCharacterInfo'', [TPlayer, TU32, TByte, TU16, TU16]),
     (''playerHighscores'', [TPlayer, TByte, TByte, TU32, TString, TU16, TByte]),
     (''playerTeleport'', [TU32, TPos]),
     (''playerMoveThing'', [TU32, TPos, TU16, TByte, TPos, TByte]),
     (''playerEquipItem'', [TU32, TU16, TBool, TByte]),
     (''playerMove'', [TU32, TDir]),
     (''playerCreatePrivateChannel'', [TU32]),
     (''playerChannelInvite'', [TU32, TString]),
     (''playerChannelExclude'', [TU32, TString]),
     (''playerRequestChannels'', [TU32]),
     (''playerOpenChannel'', [TU32, TU16]),
     (''playerCloseChannel'', [TU32, TU16]),
     (''playerOpenPrivateChannel'', [TU32, TString]),
     (''playerStowItem'', [TU32, TPos, TU16, TByte, TByte, TBool]),
     (''playerStashWithdraw'', [TU32, TU16, TU32, TByte]),
     (''playerCloseNpcChannel'', [TU32]),
     (''playerReceivePing'', [TU32]),
     (''playerReceivePingBack'', [TU32]),
     (''playerAutoWalk'', [TU32, TDirs]),
     (''playerStopAutoWalk'', [TU32]),
     (''playerUseItemEx'', [TU32, TPos, TByte, TU16, TPos, TByte, TU16]),
     (''playerUseItem'', [TU32, TPos, TByte, TByte, TU16]),
     (''playerUseWithCreature'', [TU32, TPos, TByte, TU32, TU16]),
     (''playerCloseContainer'', [TU32, TByte]),
     (''playerMoveUpContainer'', [TU32, TByte]),
     (''playerUpdateContainer'', [TU32, TByte]),
     (''playerRotateItem'', [TU32, TPos, TByte, TU16]),
     (''playerConfigureShowOffSocket'', [TU32, TPos, TByte, TU16]),
     (''playerSetShowOffSocket'', [TU32, TOutfit, TPos, TByte, TU16, TByte, TByte]),
     (''playerWrapableItem'', [TU32, TPos, TByte, TU16]),
     (''playerWriteItem'', [TU32, TU32, TString]),
     (''playerBrowseField'', [TU32, TPos]),
     (''playerSeekInContainer'', [TU32, TByte, TU16, TByte]),
     (''playerUpdateHouseWindow'', [TU32, TByte, TU32, TString]),
     (''playerRequestTrade'', [TU32, TPos, TByte, TU32, TU16]),
     (''playerAcceptTrade'', [TU32]),
     (''playerLookInTrade'', [TU32, TBool, TByte]),
     (''playerBuyItem'', [TU32, TU16, TByte, TU16, TBool, TBool]),
     (''playerSellItem'', [TU32, TU16, TByte, TU16, TBool]),
     (''playerCloseShop'', [TU32]),
     (''playerLookInShop'', [TU32, TU16, TByte]),
     (''playerCloseTrade'', [TU32]),
     (''playerSetAttackedCreature'', [TU32, TU32]),
     (''playerFollowCreature'', [TU32, TU32]),
     (''playerCancelAttackAndFollow'', [TU32]),
     (''playerSetFightModes'', [TU32, TByte, TBool, TBool]),
     (''playerLookAt'', [TU32, TU16, TPos, TByte]),
     (''playerLookInBattleList'', [TU32, TU32]),
     (''playerQuickLoot'', [TU32, TPos, TU16, TByte, TItem, TBool, TBool]),
     (''playerSetManagedContainer'', [TU32, TInt, TPos, TU16, TByte, TBool]),
     (''playerClearManagedContainer'', [TU32, TInt, TBool]),
     (''playerOpenManagedContainer'', [TU32, TInt, TBool]),
     (''playerSetQuickLootFallback'', [TU32, TBool]),
     (''playerQuickLootBlackWhitelist'', [TU32, TInt, TItems]),
     (''playerRequestDepotItems'', [TU32]),
     (''playerRequestCloseDepotSearch'', [TU32]),
     (''playerRequestDepotSearchItem'', [TU32, TU16, TByte]),
     (''playerRequestDepotSearchRetrieve'', [TU32, TU16, TByte, TByte]),
     (''playerRequestOpenContainerFromDepotSearch'', [TU32, TPos]),
     (''playerRequestAddVip'', [TU32, TString]),
     (''playerRequestRemoveVip'', [TU32, TU32]),
     (''playerRequestEditVip'', [TU32, TU32, TString, TU32, TBool]),
     (''playerApplyImbuement'', [TU32, TU16, TByte, TBool]),
     (''playerClearImbuement'', [TU32, TByte]),
     (''playerCloseImbuementWindow'', [TU32]),
     (''playerTurn'', [TU32, TDir]),
     (''playerRequestOutfit'', [TU32]),
     (''playerShowQuestLog'', [TU32]),
     (''playerShowQuestLine'', [TU32, TU16]),
     (''playerSay'', [TU32, TU16, TByte, TString, TString]),
     (''playerChangeOutfit'', [TU32, TOutfit, TByte]),
     (''playerInviteToParty'', [TU32, TU32]),
     (''playerJoinParty'', [TU32, TU32]),
     (''playerRevokePartyInvitation'', [TU32, TU32]),
     (''playerPassPartyLeadership'', [TU32, TU32]),
     (''playerLeaveParty'', [TU32]),
     (''playerEnableSharedPartyExperience'', [TU32, TBool]),
     (''playerToggleMount'', [TU32, TBool]),
     (''playerLeaveMarket'', [TU32]),
     (''playerBrowseMarket'', [TU32, TU16, TByte]),
     (''playerBrowseMarketOwnOffers'', [TU32]),
     (''playerBrowseMarketOwnHistory'', [TU32]),
     (''playerCreateMarketOffer'', [TU32, TByte, TU16, TU16, TU64, TByte, TBool]),
     (''playerCancelMarketOffer'', [TU32, TU32, TU16]),
     (''playerAcceptMarketOffer'', [TU32, TU32, TU16, TU16]),
     (''parsePlayerExtendedOpcode'', [TU32, TByte, TString]),
     (''playerOpenWheel'', [TU32, TU32]),
     (''playerSaveWheel'', [TU32, TMsg]),
     (''playerWheelGemAction'', [TU32, TMsg])]"

definition inspect_signatures :: "(string \<times> arg_type list) list" where
  "inspect_signatures =
    [(''playerInspectItem'', [TPlayer, TPos]),
     (''playerInspectItem'', [TPlayer, TU16, TByte, TBool])]"

definition creature_signatures :: "(string \<times> arg_type list) list" where
  "creature_signatures = [(''removeCreature'', [TPlayer, TBool])]"

definition activity_signatures :: "(string \<times> arg_type list) list" where
  "activity_signatures =
    [(''removePlayerUniqueLogin'', [TString]),
     (''removePlayerUniqueLogin'', [TPlayer]),
     (''playerCheckActivity'', [TString, TInt])]"

definition fits_game :: "string \<Rightarrow> arg list \<Rightarrow> bool" where
  "fits_game m args \<longleftrightarrow> (m, map arg_type_of args)
     \<in> set (game_signatures @ inspect_signatures @ creature_signatures @ activity_signatures)"

fun well_typed :: "action \<Rightarrow> bool" where
  "well_typed (GameTask m args) = fits_game m args"
| "well_typed (GameTaskTimed m args) = fits_game m args"
| "well_typed (CallGame m args) = fits_game m args"
| "well_typed _ = True"

fun to_game :: "action \<Rightarrow> bool" where
  "to_game (GameTask _ _) = True"
| "to_game (GameTaskTimed _ _) = True"
| "to_game (CallGame _ _) = True"
| "to_game _ = False"

section \<open>What a handler asks for\<close>

text \<open>The handler's requests are appended, are well typed, and at most n of them are for the game.\<close>

definition asked :: "nat \<Rightarrow> packet_state \<Rightarrow> packet_state \<Rightarrow> bool" where
  "asked n s s' \<longleftrightarrow> (\<exists>ext. ps_out s' = ps_out s @ ext \<and> list_all well_typed ext \<and> length (filter to_game ext) \<le> n)"

definition asks :: "nat \<Rightarrow> 'a parser \<Rightarrow> bool" where
  "asks n c = state_io_rel (asked n) c"

lemma asked_refl [simp]: "asked n s s"
  by (simp add: asked_def)

lemma asked_trans: "asked a s t \<Longrightarrow> asked b t u \<Longrightarrow> asked (a + b) s u"
  unfolding asked_def by (elim exE) (rule exI [of _ "_ @ _"], auto)

lemma asks_run: "asks n c \<Longrightarrow> asked n s (snd (run_state c s))"
  by (simp add: asks_def state_io_rel_def)

named_theorems asks_intros \<open>what the parts of a handler ask for\<close>

lemma asksI: "(\<And>s. asked n s (snd (run_state c s))) \<Longrightarrow> asks n c"
  by (simp add: asks_def state_io_rel_def)

lemma asks_return [asks_intros]: "asks n (State_Monad.return x)"
  by (rule asksI) simp

lemma asks_reading [asks_intros]: "asks n (reading r)"
  by (rule asksI) (simp add: reading_def asked_def split: prod.split)

lemma asks_issue:
  assumes "well_typed a" "to_game a \<Longrightarrow> 0 < n"
  shows "asks n (issue a)"
  using assms by (intro asksI) (auto simp: issue_def asked_def intro!: exI [of _ "[a]"])

lemma asks_bind:
  assumes "asks a c" "\<And>x. asks b (f x)"
  shows "asks (a + b) (State_Monad.bind c f)"
  using asked_trans [OF asks_run [OF assms(1)] asks_run [OF assms(2)]]
  by (intro asksI) (simp add: split_beta)

lemma asks_then [asks_intros]:
  assumes "asks 0 c" "\<And>x. asks n (f x)"
  shows "asks n (State_Monad.bind c f)"
  using asks_bind [OF assms] by simp

lemma asks_once:
  assumes "asks 1 c" "\<And>x. asks 0 (f x)"
  shows "asks 1 (State_Monad.bind c f)"
  using asks_bind [OF assms] by simp

lemma asks_if [asks_intros]: "(b \<Longrightarrow> asks n c) \<Longrightarrow> (\<not> b \<Longrightarrow> asks n d) \<Longrightarrow> asks n (if b then c else d)"
  by simp

lemma asks_case_prod [asks_intros]: "(\<And>x y. asks n (f x y)) \<Longrightarrow> asks n (case p of (x, y) \<Rightarrow> f x y)"
  by (cases p) simp

lemma asks_traverse [asks_intros]: "(\<And>x. asks 0 (f x)) \<Longrightarrow> asks 0 (State_Monad.traverse_list f xs)"
  by (induction xs) (auto intro!: asks_intros)

lemma asks_read_path [asks_intros]: "asks 0 (read_path n path)"
  by (induction n arbitrary: path) (auto intro!: asks_intros)

lemma asks_addGameTask [asks_intros]: "fits_game m (AU32 (pv_id p) # args) \<Longrightarrow> asks 1 (addGameTask p m args)"
  unfolding addGameTask_def by (rule asks_issue) simp_all

lemma asks_addGameTaskTimed [asks_intros]: "fits_game m (AU32 (pv_id p) # args) \<Longrightarrow> asks 1 (addGameTaskTimed p m args)"
  unfolding addGameTaskTimed_def by (rule asks_issue) simp_all

lemma asks_call [asks_intros]: "fits_game m args \<Longrightarrow> asks 1 (issue (CallGame m args))"
  by (rule asks_issue) simp_all

lemma asks_quiet [asks_intros]:
  "asks n (issue (Call m args))" "asks n (issue (Event m args))" "asks n (issue (Handle m msg))" "asks n (leave_to m)"
  by (auto simp: leave_to_def intro!: asks_issue asks_intros)

lemma asks_report_assertion [asks_intros]: "asks n report_assertion"
  by (rule asksI) (simp add: report_assertion_def asked_def)

text \<open>Every handler asks the game for at most one thing.\<close>

lemmas signatures = fits_game_def game_signatures_def inspect_signatures_def creature_signatures_def activity_signatures_def

lemma handlers_ask_1 [asks_intros]:
  "asks 1 (parseChannelInvite p)" "asks 1 (parseChannelExclude p)" "asks 1 (parseOpenChannel p)"
  "asks 1 (parseCloseChannel p)" "asks 1 (parseOpenPrivateChannel p)" "asks 1 (parseSay p)"
  "asks 1 (parseAddVip p)" "asks 1 (parseRemoveVip p)" "asks 1 (parseEditVip p)"
  "asks 1 (parseGreet p)" "asks 1 (parseInviteToParty p)" "asks 1 (parseJoinParty p)"
  "asks 1 (parseRevokePartyInvite p)" "asks 1 (parsePassPartyLeadership p)"
  unfolding parseChannelInvite_def parseChannelExclude_def parseOpenChannel_def parseCloseChannel_def parseOpenPrivateChannel_def parseSay_def parseAddVip_def parseRemoveVip_def parseEditVip_def parseGreet_def parseInviteToParty_def parseJoinParty_def parseRevokePartyInvite_def parsePassPartyLeadership_def amount_field_def tier_field_def
  by (intro asks_intros; simp add: signatures)+

lemma handlers_ask_2 [asks_intros]:
  "asks 1 (parseEnableSharedPartyExperience p)" "asks 1 (parseQuestLine p)" "asks 1 (parseModalWindowAnswer p)"
  "asks 1 (parseExtendedOpcode p)" "asks 1 (parseAutoWalk p)" "asks 1 (parseTeleport p)"
  "asks 1 (parseFightModes p)" "asks 1 (parseAttack p)" "asks 1 (parseFollow p)"
  "asks 1 (parseToggleMount p)" "asks 1 (parseApplyImbuement p)" "asks 1 (parseClearImbuement p)"
  "asks 1 (parseCloseImbuementWindow p)" "asks 1 (parseUseItem p)"
  unfolding parseEnableSharedPartyExperience_def parseQuestLine_def parseModalWindowAnswer_def parseExtendedOpcode_def parseAutoWalk_def parseTeleport_def parseFightModes_def parseAttack_def parseFollow_def parseToggleMount_def parseApplyImbuement_def parseClearImbuement_def parseCloseImbuementWindow_def parseUseItem_def amount_field_def tier_field_def
  by (intro asks_intros; simp add: signatures)+

lemma handlers_ask_3 [asks_intros]:
  "asks 1 (parseUseItemEx p)" "asks 1 (parseUseWithCreature p)" "asks 1 (parseCloseContainer p)"
  "asks 1 (parseUpArrowContainer p)" "asks 1 (parseUpdateContainer p)" "asks 1 (parseThrow p)"
  "asks 1 (parseLookAt p)" "asks 1 (parseLookInBattleList p)" "asks 1 (parseTextWindow p)"
  "asks 1 (parseHouseWindow p)" "asks 1 (parseLookInShop p)" "asks 1 (parseRequestTrade p)"
  "asks 1 (parseLookInTrade p)" "asks 1 (parseWrapableItem p)"
  unfolding parseUseItemEx_def parseUseWithCreature_def parseCloseContainer_def parseUpArrowContainer_def parseUpdateContainer_def parseThrow_def parseLookAt_def parseLookInBattleList_def parseTextWindow_def parseHouseWindow_def parseLookInShop_def parseRequestTrade_def parseLookInTrade_def parseWrapableItem_def amount_field_def tier_field_def
  by (intro asks_intros; simp add: signatures)+

lemma handlers_ask_4 [asks_intros]:
  "asks 1 (parseBrowseField p)" "asks 1 (parseSeekInContainer p)" "asks 1 (parseMarketLeave p)"
  "asks 1 (parseBugReport p)" "asks 1 (parseDebugAssert p)" "asks 1 (parseRuleViolationReport p)"
  "asks 1 (parseHotkeyEquip g p)" "asks 1 (parseQuickLoot g p)" "asks 1 (parseLootContainer g p)"
  "asks 1 (parseQuickLootBlackWhitelist g p)" "asks 1 (parsePlayerBuyOnShop g p)" "asks 1 (parsePlayerSellOnShop g p)"
  "asks 1 (parseRotateItem g p)" "asks 1 (parseInspectionObject g p)"
  unfolding parseBrowseField_def parseSeekInContainer_def parseMarketLeave_def parseBugReport_def parseDebugAssert_def parseRuleViolationReport_def parseHotkeyEquip_def parseQuickLoot_def parseLootContainer_def parseQuickLootBlackWhitelist_def parsePlayerBuyOnShop_def parsePlayerSellOnShop_def parseRotateItem_def parseInspectionObject_def amount_field_def tier_field_def
  by (intro asks_intros; simp add: signatures)+

lemma handlers_ask_5 [asks_intros]:
  "asks 1 (parseConfigureShowOffSocket g p)" "asks 1 (parseSetMonsterPodium g p)" "asks 1 (parseOpenDepotSearch g p)"
  "asks 1 (parseCloseDepotSearch g p)" "asks 1 (parseDepotSearchItemRequest g p)" "asks 1 (parseRetrieveDepotSearch g p)"
  "asks 1 (parseOpenParentContainer g p)" "asks 1 (parseMarketBrowse g p)" "asks 1 (parseMarketCreateOffer g p)"
  "asks 1 (parseForgeEnter g p)" "asks 1 (parseForgeBrowseHistory g p)" "asks 1 (parseInventoryImbuements g p)"
  "asks 1 (parseBosstiarySlot g p)" "asks 1 (parseOpenWheel g p)"
  unfolding parseConfigureShowOffSocket_def parseSetMonsterPodium_def parseOpenDepotSearch_def parseCloseDepotSearch_def parseDepotSearchItemRequest_def parseRetrieveDepotSearch_def parseOpenParentContainer_def parseMarketBrowse_def parseMarketCreateOffer_def parseForgeEnter_def parseForgeBrowseHistory_def parseInventoryImbuements_def parseBosstiarySlot_def parseOpenWheel_def amount_field_def tier_field_def
  by (intro asks_intros; simp add: signatures)+

lemma handlers_ask_6 [asks_intros]:
  "asks 1 (parseWheelGemAction g p)" "asks 1 (parseSaveWheel g p)" "asks 1 (parseCyclopediaCharacterInfo g p)"
  "asks 1 (parseHighscores g p)" "asks 1 (parseTaskHuntingAction g p)" "asks 1 (parsePreyAction g p)"
  "asks 1 (parseRewardChestCollect g p)"
  unfolding parseWheelGemAction_def parseSaveWheel_def parseCyclopediaCharacterInfo_def parseHighscores_def parseTaskHuntingAction_def parsePreyAction_def parseRewardChestCollect_def amount_field_def tier_field_def
  by (intro asks_intros; simp add: signatures)+

lemma asks_stash [asks_intros]: "asks 1 (parseStashWithdraw g p)"
proof -
  have "asks 1 (do {
       action \<leftarrow> byte;
       (if action = 0 then do {
          pos \<leftarrow> pos_field; itemId \<leftarrow> word16; stackpos \<leftarrow> byte; cnt \<leftarrow> byte;
          addGameTask p ''playerStowItem'' [APos pos, AU16 itemId, AByte stackpos, AByte cnt, ABool False] }
        else if action = 1 \<or> action = 2 then do {
          pos \<leftarrow> pos_field; itemId \<leftarrow> word16; stackpos \<leftarrow> byte;
          addGameTask p ''playerStowItem'' [APos pos, AU16 itemId, AByte stackpos, AByte 0, ABool (action = 2)] }
        else if action = 3 then do {
          itemId \<leftarrow> word16; cnt \<leftarrow> word32; stackpos \<leftarrow> byte;
          addGameTask p ''playerStashWithdraw'' [AU16 itemId, AU32 cnt, AByte stackpos] }
        else nothing);
       issue (Call ''updateUIExhausted'' []) })"
    by (rule asks_then, intro asks_intros, rule asks_once) (intro asks_intros; simp add: signatures)+
  then show ?thesis unfolding parseStashWithdraw_def by (auto intro!: asks_intros)
qed

lemma asks_market [asks_intros]: "asks 1 (parseMarketCancelOffer p)" "asks 1 (parseMarketAcceptOffer p)"
  unfolding parseMarketCancelOffer_def parseMarketAcceptOffer_def
  by ((rule asks_then [OF asks_reading])+, rule asks_once; (intro asks_intros; simp add: signatures))+

lemma asks_parseSetOutfit: "asks 1 (parseSetOutfit md g)"
  unfolding parseSetOutfit_def Let_def
  by (cases "pg_player g"; simp only: option.case; (intro asks_intros; simp add: signatures))

lemma asks_Event_msg [asks_intros]: "asks n (do { m \<leftarrow> reading (\<lambda>m. (m, m)); issue (Event e [AMsg m]) })"
  by (intro asks_intros)

lemma tables_ask:
  "list_all (asks 1) (map snd (session_opcodes g p))" "list_all (asks 1) (map snd (item_opcodes g p))"
  "list_all (asks 1) (map snd (social_opcodes g p))" "list_all (asks 1) (map snd (window_opcodes g p))"
  unfolding session_opcodes_def item_opcodes_def social_opcodes_def window_opcodes_def list.map snd_conv list.pred_inject
  by (intro conjI TrueI asks_intros; simp add: signatures)+

lemma map_of_all:
  assumes "list_all P (map snd xs)" "map_of xs k = Some v"
  shows "P v"
  using assms by (auto simp: list_all_iff dest!: map_of_SomeD)

lemma handler_asks: "asks 1 (handler g p b)"
proof -
  have "list_all (asks 1) (map snd (session_opcodes g p @ item_opcodes g p @ social_opcodes g p @ window_opcodes g p))"
    using tables_ask by simp
  from map_of_all [OF this] show ?thesis
    unfolding handler_def by (auto intro: asks_return split: option.split)
qed

section \<open>The price list\<close>

lemma price_asks: "asks 0 read_price"
  unfolding read_price_def by (intro asks_intros)

lemma price_loop_stuck: "price_loop 0xFFFF i s = None"
proof -
  have "sz \<noteq> 0xFFFF" if "price_loop sz i s = Some r" for sz r
  proof (rule price_loop.raw_induct [OF _ that, of "\<lambda>sz _ _ _. sz \<noteq> 0xFFFF"])
    fix loop :: "u16 \<Rightarrow> u16 \<Rightarrow> packet_state \<Rightarrow> packet_state option" and sz i s r
    assume IH: "\<And>sz i s r. loop sz i s = Some r \<Longrightarrow> sz \<noteq> 0xFFFF"
      and body: "(if i \<le> sz then loop sz (i + 1) (snd (run_state read_price s)) else Some s) = Some r"
    have "i \<le> 0xFFFF" using u16_lt [of i] by (simp add: word_le_nat_alt)
    then show "sz \<noteq> 0xFFFF" using IH body by (auto split: if_splits)
  qed
  then show ?thesis by (cases "price_loop 0xFFFF i s") auto
qed

lemma price_step:
  fixes i sz :: u16
  assumes "i \<le> sz" "sz \<noteq> 0xFFFF"
  shows "Suc (unat sz) - unat (i + 1) < Suc (unat sz) - unat i"
proof -
  have "unat sz \<noteq> 65535"
  proof
    assume "unat sz = 65535"
    then have "sz = of_nat 65535" by (rule word_of_unat_eq)
    with assms(2) show False by simp
  qed
  then have "unat sz < 65535" using u16_lt [of sz] by simp
  then have "unat (i + 1) = unat i + 1" using assms by (simp add: word_le_nat_alt unat_word_ariths)
  then show ?thesis using assms by (simp add: word_le_nat_alt)
qed

lemma price_loop_returns:
  assumes "sz \<noteq> 0xFFFF"
  shows "\<exists>s'. price_loop sz i s = Some s' \<and> asked 0 s s'"
proof (induction "Suc (unat sz) - unat i" arbitrary: i s rule: less_induct)
  case less
  show ?case
  proof (cases "i \<le> sz")
    case False
    then show ?thesis by (simp add: price_loop.simps)
  next
    case True
    from less [OF price_step [OF True assms]] obtain s' where "price_loop sz (i + 1) (snd (run_state read_price s)) = Some s'"
      "asked 0 (snd (run_state read_price s)) s'" by blast
    then show ?thesis using asked_trans [OF asks_run [OF price_asks]] True by (subst price_loop.simps) fastforce
  qed
qed

section \<open>Properties\<close>

lemma asked_then: "asked 0 s t \<Longrightarrow> asked n t u \<Longrightarrow> asked n s u"
  using asked_trans [of 0 s t n u] by simp

lemma party_analyzer_asks:
  assumes "parsePartyAnalyzerAction g p s = Some s'"
  shows "asked 0 s s'"
proof -
  obtain action s1 where a: "run_state byte s = (action, s1)" by (cases "run_state byte s")
  obtain sz s2 where z: "run_state word16 s1 = (sz, s2)" by (cases "run_state word16 s1")
  have s1: "asked 0 s s1" using asks_run [OF asks_reading [of 0 getByte], of s] a by simp
  have "asked 0 s1 s2" using asks_run [OF asks_reading [of 0 "get :: _ \<Rightarrow> u16 \<times> _"], of s1] z by simp
  then have s2: "asked 0 s s2" by (rule asked_then [OF s1])
  have call: "asked 0 t (snd (run_state (issue (Call m [])) t))" for t m using asks_run [OF asks_quiet(1)] .
  have end2: "asked 0 t (snd (run_state (do { issue (Call ''reloadPrices'' []); issue (Call ''updateTrackerAnalyzer'' []) }) t))" for t
    by (intro asks_run asks_intros)
  have list: "asked 0 s s3" if "price_loop sz 1 s2 = Some s3" for s3
    using price_loop_returns [of sz 1 s2] price_loop_stuck [of 1 s2] asked_then [OF s2, of 0] that by fastforce
  show ?thesis
    using assms s1 asked_then [OF s1 call] asked_then [OF list end2]
    unfolding parsePartyAnalyzerAction_def Let_def a z prod.case
    by (auto split: if_splits)
qed



section \<open>A concrete session\<close>

definition shopper :: client_player where
  "shopper = \<lparr>pv_id = 7, pv_guid = 70, pv_name = [0x41], pv_removed = False, pv_dead = False, pv_health = 100,
     pv_position = Position 100 100 7, pv_depot = 1, leads_party = True, stash_available = True, ui_exhausted = False\<rparr>"

definition market_town :: protocol_game where
  "market_town = \<lparr>acceptPackets = True, game_shutdown = False, oldProtocol = False, otclientV8 = 0, playerDeathTime = 0,
     pg_player = Some shopper, isPodium = (\<lambda>_. False), upgradeClassification = (\<lambda>_. 0), task_hunting_enabled = True,
     prey_enabled = True, reward_collect_enabled = True, reward_max_items = 100, wheel_enabled = True\<rparr>"

definition unread :: "network_message \<Rightarrow> packet_state" where
  "unread m = \<lparr>ps_msg = m, ps_debugAssertSent = False, ps_out = []\<rparr>"

definition empty_message :: network_message where
  "empty_message = \<lparr>nm_length = 1, nm_position = 9, nm_overrun = False, nm_buffer = (\<lambda>_. 0)\<rparr>"

lemma close_shop:
  "parsePacketFromDispatcher market_town 0x7C (unread m) = Some ((unread m)\<lparr>ps_out := [GameTask ''playerCloseShop'' [AU32 7]]\<rparr>)"
  by (simp add: parsePacketFromDispatcher_def market_town_def shopper_def unread_def handler_def session_opcodes_def
      item_opcodes_def addGameTask_def issue_def)


end
