(* ===== verification/Game_Packets.thy ===== *)
theory Game_Packets
  imports Game_Requests
begin

text \<open>
  Which bytes of a packet its handler in \<^verbatim>\<open>protocolgame.cpp\<close> can see: two messages that agree on the received
  bytes lead to the same requests, so no byte left over in the buffer from an earlier message has an
  effect.  Readers and handlers that keep such an agreement are called local; the composition rules are
  collected in \<^verbatim>\<open>local_intros\<close>.
\<close>

section \<open>Messages that agree on what was received\<close>

definition agree :: "nat \<Rightarrow> network_message \<Rightarrow> network_message \<Rightarrow> bool" where
  "agree lo m m' \<longleftrightarrow> nm_length m' = nm_length m \<and> nm_position m' = nm_position m \<and> nm_overrun m' = nm_overrun m
     \<and> unat (nm_length m) + 8 < 65536 \<and> lo \<le> unat (nm_position m)
     \<and> (\<forall>i. lo \<le> i \<longrightarrow> i < unat (nm_length m) + 8 \<longrightarrow> nm_buffer m' i = nm_buffer m i)"

definition same_arg :: "nat \<Rightarrow> arg \<Rightarrow> arg \<Rightarrow> bool" where
  "same_arg lo a b \<longleftrightarrow> a = b \<or> (\<exists>m m'. a = AMsg m \<and> b = AMsg m' \<and> agree lo m m')"

fun same_action :: "nat \<Rightarrow> action \<Rightarrow> action \<Rightarrow> bool" where
  "same_action lo (GameTask n xs) (GameTask k ys) = (n = k \<and> list_all2 (same_arg lo) xs ys)"
| "same_action lo (Event n xs) (Event k ys) = (n = k \<and> list_all2 (same_arg lo) xs ys)"
| "same_action lo (Handle n m) (Handle k m') = (n = k \<and> same_arg lo (AMsg m) (AMsg m'))"
| "same_action lo a b = (a = b)"

definition same_view :: "nat \<Rightarrow> packet_state \<Rightarrow> packet_state \<Rightarrow> bool" where
  "same_view lo s t \<longleftrightarrow> agree lo (ps_msg s) (ps_msg t) \<and> ps_debugAssertSent t = ps_debugAssertSent s
     \<and> list_all2 (same_action lo) (ps_out s) (ps_out t)"

text \<open>A reader is local when it returns the same value and stays in agreement; so is a whole handler.\<close>

definition local_read :: "(network_message \<Rightarrow> 'a \<times> network_message) \<Rightarrow> bool" where
  "local_read r \<longleftrightarrow> (\<forall>lo m m'. agree lo m m' \<longrightarrow> fst (r m') = fst (r m) \<and> agree lo (snd (r m)) (snd (r m')))"

definition local_parser :: "'a parser \<Rightarrow> bool" where
  "local_parser c \<longleftrightarrow> (\<forall>lo s t. same_view lo s t \<longrightarrow>
     fst (run_state c t) = fst (run_state c s) \<and> same_view lo (snd (run_state c s)) (snd (run_state c t)))"

named_theorems local_intros \<open>parsers that see only the received bytes\<close>

lemma canRead_agree:
  assumes "agree lo m m'"
  shows "(canRead m (int n) = (False, m\<lparr>nm_overrun := True\<rparr>) \<and> canRead m' (int n) = (False, m'\<lparr>nm_overrun := True\<rparr>))
    \<or> (canRead m (int n) = (True, m) \<and> canRead m' (int n) = (True, m') \<and> unat (nm_position m) + n \<le> unat (nm_length m) + 8
        \<and> unat (nm_position m) + n < 65500)"
proof -
  have "(int p + int n > int l + 8 \<or> int n \<ge> int NETWORKMESSAGE_MAXSIZE - int p) \<longleftrightarrow> \<not> (p + n \<le> l + 8 \<and> p + n < 65500)" for p l
    unfolding NETWORKMESSAGE_MAXSIZE_def by linarith
  then show ?thesis using assms unfolding canRead_def agree_def by presburger
qed

lemma agree_overrun: "agree lo m m' \<Longrightarrow> agree lo (m\<lparr>nm_overrun := True\<rparr>) (m'\<lparr>nm_overrun := True\<rparr>)"
  by (simp add: agree_def)

lemma agree_forward:
  assumes "agree lo m m'" "unat (nm_position m) + n < 65536" "unat w = n"
  shows "agree lo (m\<lparr>nm_position := nm_position m + w\<rparr>) (m'\<lparr>nm_position := nm_position m' + w\<rparr>)"
proof -
  have w: "w = of_nat n" by (rule word_of_unat_eq [OF assms(3)])
  have "unat (nm_position m + w) = unat (nm_position m) + n"
    using unat_add_lt [of "nm_position m" n] assms(2) unfolding w by simp
  then show ?thesis using assms(1) by (simp add: agree_def)
qed

lemma agree_read:
  assumes "agree lo m m'" "unat (nm_position m) + n \<le> unat (nm_length m) + 8"
  shows "mem_read (nm_buffer m') (unat (nm_position m')) n = mem_read (nm_buffer m) (unat (nm_position m)) n"
  using assms by (intro nth_equalityI) (auto simp: agree_def)

lemma local_getByte: "local_read getByte"
  unfolding local_read_def
proof (intro allI impI)
  fix lo m m'
  assume a: "agree lo m m'"
  from canRead_agree [OF a, of 1]
  show "fst (getByte m') = fst (getByte m) \<and> agree lo (snd (getByte m)) (snd (getByte m'))"
  proof
    assume "canRead m (int 1) = (False, m\<lparr>nm_overrun := True\<rparr>) \<and> canRead m' (int 1) = (False, m'\<lparr>nm_overrun := True\<rparr>)"
    then show ?thesis using agree_overrun [OF a] by (simp add: getByte_def)
  next
    assume r: "canRead m (int 1) = (True, m) \<and> canRead m' (int 1) = (True, m') \<and> unat (nm_position m) + 1 \<le> unat (nm_length m) + 8
      \<and> unat (nm_position m) + 1 < 65500"
    then have "nm_buffer m' (unat (nm_position m')) = nm_buffer m (unat (nm_position m))" using a by (auto simp: agree_def)
    then show ?thesis using r agree_forward [OF a, of 1 1] by (simp add: getByte_def)
  qed
qed

lemma local_get:
  assumes "LENGTH('a::len) div 8 < 65536"
  shows "local_read (get :: network_message \<Rightarrow> 'a word \<times> network_message)"
  unfolding local_read_def
proof (intro allI impI)
  fix lo m m'
  let ?n = "LENGTH('a) div 8" and ?get = "get :: network_message \<Rightarrow> 'a word \<times> network_message"
  assume a: "agree lo m m'"
  from canRead_agree [OF a, of ?n]
  show "fst (?get m') = fst (?get m) \<and> agree lo (snd (?get m)) (snd (?get m'))"
  proof
    assume "canRead m (int ?n) = (False, m\<lparr>nm_overrun := True\<rparr>) \<and> canRead m' (int ?n) = (False, m'\<lparr>nm_overrun := True\<rparr>)"
    then show ?thesis using agree_overrun [OF a] by (simp add: get_def)
  next
    assume r: "canRead m (int ?n) = (True, m) \<and> canRead m' (int ?n) = (True, m')
      \<and> unat (nm_position m) + ?n \<le> unat (nm_length m) + 8 \<and> unat (nm_position m) + ?n < 65500"
    then show ?thesis
      using agree_read [OF a, of ?n] agree_forward [OF a, of ?n "of_nat ?n"] assms by (simp add: get_def Let_def unat_of_nat_lt)
  qed
qed

lemma local_text: "local_read (\<lambda>m. getString m 0)"
  unfolding local_read_def
proof (intro allI impI)
  fix lo m m'
  assume a: "agree lo m m'"
  obtain len k where g: "get m = (len :: u16, k)" by (cases "get m :: u16 \<times> _")
  obtain len' k' where g': "get m' = (len' :: u16, k')" by (cases "get m' :: u16 \<times> _")
  have "local_read (get :: network_message \<Rightarrow> u16 \<times> network_message)" by (rule local_get) simp
  then have "fst (get m' :: u16 \<times> _) = fst (get m) \<and> agree lo (snd (get m :: u16 \<times> _)) (snd (get m' :: u16 \<times> _))"
    using a unfolding local_read_def by blast
  then have len: "len' = len" and k: "agree lo k k'" by (simp_all add: g g')
  from canRead_agree [OF k, of "unat len"]
  show "fst (getString m' 0) = fst (getString m 0) \<and> agree lo (snd (getString m 0)) (snd (getString m' 0))"
  proof
    assume "canRead k (int (unat len)) = (False, k\<lparr>nm_overrun := True\<rparr>) \<and> canRead k' (int (unat len)) = (False, k'\<lparr>nm_overrun := True\<rparr>)"
    then show ?thesis using agree_overrun [OF k] by (simp add: getString_def g g' len)
  next
    assume r: "canRead k (int (unat len)) = (True, k) \<and> canRead k' (int (unat len)) = (True, k')
      \<and> unat (nm_position k) + unat len \<le> unat (nm_length k) + 8 \<and> unat (nm_position k) + unat len < 65500"
    then show ?thesis
      using agree_read [OF k, of "unat len"] agree_forward [OF k, of "unat len" len] by (simp add: getString_def g g' len)
  qed
qed

lemma local_seq:
  assumes "local_read r" "\<And>x. local_read (f x)"
  shows "local_read (\<lambda>m. let (x, m1) = r m in f x m1)"
  unfolding local_read_def
proof (intro allI impI)
  fix lo m m'
  assume "agree lo m m'"
  with assms(1) have r: "fst (r m') = fst (r m)" "agree lo (snd (r m)) (snd (r m'))" by (simp_all add: local_read_def)
  with assms(2) [of "fst (r m)"]
  show "fst (let (x, m1) = r m' in f x m1) = fst (let (x, m1) = r m in f x m1)
    \<and> agree lo (snd (let (x, m1) = r m in f x m1)) (snd (let (x, m1) = r m' in f x m1))"
    by (simp add: local_read_def split_beta)
qed

lemma local_position: "local_read getPosition"
proof -
  have "local_read (get :: network_message \<Rightarrow> u16 \<times> network_message)" by (rule local_get) simp
  moreover have "local_read (\<lambda>m. (v, m))" for v :: position by (simp add: local_read_def)
  ultimately have "local_read (\<lambda>m. let (x, m1) = get m in let (y, m2) = get m1 in let (z, m3) = getByte m2 in (Position x y z, m3))"
    by (intro local_seq local_getByte)
  then show ?thesis by (simp add: getPosition_def [abs_def])
qed

lemma local_cursor: "local_read (\<lambda>m. ((nm_position m, nm_length m), m))" "local_read (\<lambda>m. (nm_position m, m))"
  by (simp_all add: local_read_def agree_def)

section \<open>Local handlers\<close>

lemma local_parserD:
  assumes "local_parser c" "same_view lo s t" "run_state c s = (x, s1)" "run_state c t = (y, t1)"
  shows "y = x" "same_view lo s1 t1"
  using assms unfolding local_parser_def by (metis fst_conv, metis snd_conv)

lemma local_return [local_intros]: "local_parser (State_Monad.return x)"
  by (simp add: local_parser_def)

lemma local_reading:
  assumes "local_read r"
  shows "local_parser (reading r)"
  unfolding local_parser_def reading_def
proof (intro allI impI)
  fix lo s t
  assume v: "same_view lo s t"
  then have "agree lo (ps_msg s) (ps_msg t)" by (simp add: same_view_def)
  with assms have r: "fst (r (ps_msg t)) = fst (r (ps_msg s))" "agree lo (snd (r (ps_msg s))) (snd (r (ps_msg t)))"
    by (simp_all add: local_read_def)
  then show "fst (run_state (State (\<lambda>s. let (v, m) = r (ps_msg s) in (v, s\<lparr>ps_msg := m\<rparr>))) t)
      = fst (run_state (State (\<lambda>s. let (v, m) = r (ps_msg s) in (v, s\<lparr>ps_msg := m\<rparr>))) s)
    \<and> same_view lo (snd (run_state (State (\<lambda>s. let (v, m) = r (ps_msg s) in (v, s\<lparr>ps_msg := m\<rparr>))) s))
      (snd (run_state (State (\<lambda>s. let (v, m) = r (ps_msg s) in (v, s\<lparr>ps_msg := m\<rparr>))) t))"
    using v by (simp add: same_view_def split_beta)
qed

lemma local_fields [local_intros]:
  "local_parser byte" "local_parser word16" "local_parser word32" "local_parser word64" "local_parser text_field" "local_parser pos_field"
  by (auto intro!: local_reading local_getByte local_get local_text local_position)

lemma local_bind [local_intros]:
  assumes "local_parser c" "\<And>x. local_parser (f x)"
  shows "local_parser (State_Monad.bind c f)"
  unfolding local_parser_def
proof (intro allI impI)
  fix lo s t
  assume v: "same_view lo s t"
  obtain x s1 where s: "run_state c s = (x, s1)" by (cases "run_state c s")
  obtain y t1 where t: "run_state c t = (y, t1)" by (cases "run_state c t")
  from local_parserD [OF assms(1) v s t] have "y = x" and v1: "same_view lo s1 t1" by simp_all
  then show "fst (run_state (State_Monad.bind c f) t) = fst (run_state (State_Monad.bind c f) s)
    \<and> same_view lo (snd (run_state (State_Monad.bind c f) s)) (snd (run_state (State_Monad.bind c f) t))"
    using assms(2) [of x] by (simp add: s t local_parser_def)
qed

lemma same_arg_refl [simp]: "same_arg lo a a"
  by (simp add: same_arg_def)

lemma same_args_refl [simp]: "list_all2 (same_arg lo) xs xs"
  by (simp add: list_all2_refl)

lemma local_issue:
  assumes "\<And>lo. same_action lo a a"
  shows "local_parser (issue a)"
  using assms by (auto simp: local_parser_def issue_def same_view_def intro: list_all2_appendI)

lemma local_asking [local_intros]:
  "local_parser (addGameTask p m args)" "local_parser (addGameTaskTimed p m args)" "local_parser (issue (CallGame m args))"
  "local_parser (issue (Call m args))" "local_parser (issue (Event m args))"
  by (auto simp: addGameTask_def addGameTaskTimed_def intro!: local_issue)

lemma local_pass:
  assumes "\<And>lo m m'. agree lo m m' \<Longrightarrow> same_action lo (f m) (f m')"
  shows "local_parser (do { m \<leftarrow> reading (\<lambda>m. (m, m)); issue (f m) })"
  using assms by (auto simp: local_parser_def reading_def issue_def same_view_def intro!: list_all2_appendI)

lemma local_if [local_intros]: "(b \<Longrightarrow> local_parser c) \<Longrightarrow> (\<not> b \<Longrightarrow> local_parser d) \<Longrightarrow> local_parser (if b then c else d)"
  by simp

lemma local_case_prod [local_intros]: "(\<And>x y. local_parser (f x y)) \<Longrightarrow> local_parser (case p of (x, y) \<Rightarrow> f x y)"
  by (cases p) simp

lemma local_traverse [local_intros]: "(\<And>x. local_parser (f x)) \<Longrightarrow> local_parser (State_Monad.traverse_list f xs)"
  by (induction xs) (auto intro!: local_intros)

lemma local_report [local_intros]: "local_parser report_assertion"
  by (auto simp: local_parser_def report_assertion_def same_view_def)

lemma read_path_same:
  assumes "same_view lo s t" "lo + n \<le> unat (nm_position (ps_msg s))"
    "unat (nm_position (ps_msg s)) \<le> unat (nm_length (ps_msg s)) + 8"
  shows "fst (run_state (read_path n path) t) = fst (run_state (read_path n path) s)
    \<and> same_view lo (snd (run_state (read_path n path) s)) (snd (run_state (read_path n path) t))"
  using assms
proof (induction n arbitrary: s t path)
  case 0
  then show ?case by simp
next
  case (Suc n)
  let ?p = "nm_position (ps_msg s)"
  let ?undo = "\<lambda>s. s\<lparr>ps_msg := (ps_msg s)\<lparr>nm_position := nm_position (ps_msg s) - 1\<rparr>\<rparr>"
  from Suc.prems(2) have "?p \<noteq> 0" by auto
  then have prev: "unat (?p - 1) = unat ?p - 1" by (rule unat_minus_one)
  have a: "agree lo (ps_msg s) (ps_msg t)" using Suc.prems(1) by (simp add: same_view_def)
  then have pos: "nm_position (ps_msg t) = ?p" by (simp add: agree_def)
  have b: "nm_buffer (ps_msg t) (unat (?p - 1)) = nm_buffer (ps_msg s) (unat (?p - 1))"
    using a Suc.prems(2,3) prev by (auto simp: agree_def)
  have v: "same_view lo (?undo s) (?undo t)"
    using Suc.prems(1,2) prev pos by (auto simp: same_view_def agree_def)
  have run: "run_state (read_path (Suc n) path) u = run_state (read_path n
      (case raw_direction (nm_buffer (ps_msg u) (unat (nm_position (ps_msg u) - 1))) of None \<Rightarrow> path | Some d \<Rightarrow> d # path)) (?undo u)" for u
    by (simp add: reading_def getPreviousByte_def Let_def)
  show ?case
    unfolding run pos b by (rule Suc.IH [OF v [unfolded pos]]) (use Suc.prems(2,3) prev in auto)
qed

lemma local_autowalk [local_intros]: "local_parser (parseAutoWalk p)"
proof -
  have "local_parser (do {
     (pos, len) \<leftarrow> reading (\<lambda>m. ((nm_position m, nm_length m), m));
     if n = 0 \<or> unat pos + unat n \<noteq> unat len + 8 then nothing
     else do {
       _ \<leftarrow> reading (\<lambda>m. ((), skipBytes m (ucast n)));
       path \<leftarrow> read_path (unat n) [];
       if path = [] then nothing else addGameTask p ''playerAutoWalk'' [ADirs path] } })" (is "local_parser ?c") for n :: u8
    unfolding local_parser_def
  proof (intro allI impI)
    fix lo s t
    assume v: "same_view lo s t"
    let ?m = "ps_msg s" and ?skip = "\<lambda>u. u\<lparr>ps_msg := skipBytes (ps_msg u) (ucast n)\<rparr>"
    let ?rest = "\<lambda>path. if path = [] then nothing else addGameTask p ''playerAutoWalk'' [ADirs path]"
    have a: "agree lo ?m (ps_msg t)" using v by (simp add: same_view_def)
    then have cur: "nm_position (ps_msg t) = nm_position ?m" "nm_length (ps_msg t) = nm_length ?m" by (simp_all add: agree_def)
    show "fst (run_state ?c t) = fst (run_state ?c s) \<and> same_view lo (snd (run_state ?c s)) (snd (run_state ?c t))"
    proof (cases "n = 0 \<or> unat (nm_position ?m) + unat n \<noteq> unat (nm_length ?m) + 8")
      case True
      then show ?thesis using v cur by (simp add: reading_def)
    next
      case False
      have w: "unat (ucast n :: u16) = unat n" by (simp add: unat_ucast_up)
      have small: "unat (nm_position ?m) + unat n < 65536" using False a by (simp add: agree_def)
      have pos: "unat (nm_position ?m + ucast n) = unat (nm_position ?m) + unat n"
        by (subst word_of_unat_eq [OF w], rule unat_add_lt) (use small in simp)
      have v': "same_view lo (?skip s) (?skip t)"
        using v agree_forward [OF a small w] by (simp add: same_view_def skipBytes_def)
      have lo: "lo \<le> unat (nm_position ?m)" using a by (simp add: agree_def)
      obtain x s1 where s1: "run_state (read_path (unat n) []) (?skip s) = (x, s1)" by (cases "run_state (read_path (unat n) []) (?skip s)")
      obtain y t1 where t1: "run_state (read_path (unat n) []) (?skip t) = (y, t1)" by (cases "run_state (read_path (unat n) []) (?skip t)")
      have "lo + unat n \<le> unat (nm_position (ps_msg (?skip s)))"
        "unat (nm_position (ps_msg (?skip s))) \<le> unat (nm_length (ps_msg (?skip s))) + 8"
        using False pos lo by (simp_all add: skipBytes_def)
      from read_path_same [OF v' this, of "[]"] have "y = x \<and> same_view lo s1 t1"
        unfolding s1 t1 fst_conv snd_conv .
      moreover have "local_parser (?rest x)" by (intro local_intros)
      ultimately have "fst (run_state (?rest y) t1) = fst (run_state (?rest x) s1)
          \<and> same_view lo (snd (run_state (?rest x) s1)) (snd (run_state (?rest y) t1))"
        unfolding local_parser_def by blast
      moreover have "run_state ?c s = run_state (?rest x) s1" "run_state ?c t = run_state (?rest y) t1"
        using False s1 t1 cur by (simp_all add: reading_def)
      ultimately show ?thesis by simp
    qed
  qed
  then show ?thesis unfolding parseAutoWalk_def by (rule local_bind [OF local_fields(1)])
qed

lemma local_pass_msg [local_intros]:
  "local_parser (leave_to h)" "local_parser (parseWheelGemAction g p)" "local_parser (parseSaveWheel g p)"
  "local_parser (do { m \<leftarrow> reading (\<lambda>m. (m, m)); issue (Event e [AMsg m]) })"
  unfolding leave_to_def parseWheelGemAction_def parseSaveWheel_def addGameTask_def
  by (intro local_if local_return local_pass; simp add: same_arg_def)+

lemma handlers_local_1 [local_intros]:
  "local_parser (parseChannelInvite p)" "local_parser (parseChannelExclude p)" "local_parser (parseOpenChannel p)"
  "local_parser (parseCloseChannel p)" "local_parser (parseOpenPrivateChannel p)" "local_parser (parseSay p)"
  "local_parser (parseAddVip p)" "local_parser (parseRemoveVip p)" "local_parser (parseEditVip p)"
  "local_parser (parseGreet p)" "local_parser (parseInviteToParty p)" "local_parser (parseJoinParty p)"
  "local_parser (parseRevokePartyInvite p)" "local_parser (parsePassPartyLeadership p)"
  unfolding parseChannelInvite_def parseChannelExclude_def parseOpenChannel_def parseCloseChannel_def parseOpenPrivateChannel_def parseSay_def parseAddVip_def parseRemoveVip_def parseEditVip_def parseGreet_def parseInviteToParty_def parseJoinParty_def parseRevokePartyInvite_def parsePassPartyLeadership_def amount_field_def tier_field_def
  by (intro local_intros)+

lemma handlers_local_2 [local_intros]:
  "local_parser (parseEnableSharedPartyExperience p)" "local_parser (parseQuestLine p)" "local_parser (parseModalWindowAnswer p)"
  "local_parser (parseExtendedOpcode p)" "local_parser (parseTeleport p)" "local_parser (parseFightModes p)"
  "local_parser (parseAttack p)" "local_parser (parseFollow p)" "local_parser (parseToggleMount p)"
  "local_parser (parseApplyImbuement p)" "local_parser (parseClearImbuement p)" "local_parser (parseCloseImbuementWindow p)"
  "local_parser (parseUseItem p)" "local_parser (parseUseItemEx p)"
  unfolding parseEnableSharedPartyExperience_def parseQuestLine_def parseModalWindowAnswer_def parseExtendedOpcode_def parseTeleport_def parseFightModes_def parseAttack_def parseFollow_def parseToggleMount_def parseApplyImbuement_def parseClearImbuement_def parseCloseImbuementWindow_def parseUseItem_def parseUseItemEx_def amount_field_def tier_field_def
  by (intro local_intros)+

lemma handlers_local_3 [local_intros]:
  "local_parser (parseUseWithCreature p)" "local_parser (parseCloseContainer p)" "local_parser (parseUpArrowContainer p)"
  "local_parser (parseUpdateContainer p)" "local_parser (parseThrow p)" "local_parser (parseLookAt p)"
  "local_parser (parseLookInBattleList p)" "local_parser (parseTextWindow p)" "local_parser (parseHouseWindow p)"
  "local_parser (parseLookInShop p)" "local_parser (parseRequestTrade p)" "local_parser (parseLookInTrade p)"
  "local_parser (parseWrapableItem p)" "local_parser (parseBrowseField p)"
  unfolding parseUseWithCreature_def parseCloseContainer_def parseUpArrowContainer_def parseUpdateContainer_def parseThrow_def parseLookAt_def parseLookInBattleList_def parseTextWindow_def parseHouseWindow_def parseLookInShop_def parseRequestTrade_def parseLookInTrade_def parseWrapableItem_def parseBrowseField_def amount_field_def tier_field_def
  by (intro local_intros)+

lemma handlers_local_4 [local_intros]:
  "local_parser (parseSeekInContainer p)" "local_parser (parseMarketLeave p)" "local_parser (parseMarketCancelOffer p)"
  "local_parser (parseMarketAcceptOffer p)" "local_parser (parseBugReport p)" "local_parser (parseDebugAssert p)"
  "local_parser (parseRuleViolationReport p)" "local_parser (parseHotkeyEquip g p)" "local_parser (parseQuickLoot g p)"
  "local_parser (parseLootContainer g p)" "local_parser (parseQuickLootBlackWhitelist g p)" "local_parser (parsePlayerBuyOnShop g p)"
  "local_parser (parsePlayerSellOnShop g p)" "local_parser (parseRotateItem g p)"
  unfolding parseSeekInContainer_def parseMarketLeave_def parseMarketCancelOffer_def parseMarketAcceptOffer_def parseBugReport_def parseDebugAssert_def parseRuleViolationReport_def parseHotkeyEquip_def parseQuickLoot_def parseLootContainer_def parseQuickLootBlackWhitelist_def parsePlayerBuyOnShop_def parsePlayerSellOnShop_def parseRotateItem_def amount_field_def tier_field_def
  by (intro local_intros)+

lemma handlers_local_5 [local_intros]:
  "local_parser (parseInspectionObject g p)" "local_parser (parseConfigureShowOffSocket g p)" "local_parser (parseSetMonsterPodium g p)"
  "local_parser (parseStashWithdraw g p)" "local_parser (parseOpenDepotSearch g p)" "local_parser (parseCloseDepotSearch g p)"
  "local_parser (parseDepotSearchItemRequest g p)" "local_parser (parseRetrieveDepotSearch g p)" "local_parser (parseOpenParentContainer g p)"
  "local_parser (parseMarketBrowse g p)" "local_parser (parseMarketCreateOffer g p)" "local_parser (parseForgeEnter g p)"
  "local_parser (parseForgeBrowseHistory g p)" "local_parser (parseInventoryImbuements g p)"
  unfolding parseInspectionObject_def parseConfigureShowOffSocket_def parseSetMonsterPodium_def parseStashWithdraw_def parseOpenDepotSearch_def parseCloseDepotSearch_def parseDepotSearchItemRequest_def parseRetrieveDepotSearch_def parseOpenParentContainer_def parseMarketBrowse_def parseMarketCreateOffer_def parseForgeEnter_def parseForgeBrowseHistory_def parseInventoryImbuements_def amount_field_def tier_field_def
  by (intro local_intros)+

lemma handlers_local_6 [local_intros]:
  "local_parser (parseBosstiarySlot g p)" "local_parser (parseOpenWheel g p)" "local_parser (parseCyclopediaCharacterInfo g p)"
  "local_parser (parseHighscores g p)" "local_parser (parseTaskHuntingAction g p)" "local_parser (parsePreyAction g p)"
  "local_parser (parseRewardChestCollect g p)"
  unfolding parseBosstiarySlot_def parseOpenWheel_def parseCyclopediaCharacterInfo_def parseHighscores_def parseTaskHuntingAction_def parsePreyAction_def parseRewardChestCollect_def amount_field_def tier_field_def
  by (intro local_intros)+

lemma tables_local:
  "list_all local_parser (map snd (session_opcodes g p))" "list_all local_parser (map snd (item_opcodes g p))"
  "list_all local_parser (map snd (social_opcodes g p))" "list_all local_parser (map snd (window_opcodes g p))"
  unfolding session_opcodes_def item_opcodes_def social_opcodes_def window_opcodes_def list.map snd_conv list.pred_inject
  by (intro conjI TrueI local_intros; simp)+

lemma handler_local: "local_parser (handler g p b)"
proof -
  have "list_all local_parser (map snd (session_opcodes g p @ item_opcodes g p @ social_opcodes g p @ window_opcodes g p))"
    using tables_local by simp
  from map_of_all [OF this] show ?thesis
    unfolding handler_def by (auto intro: local_return split: option.split)
qed

lemma local_run: "local_parser c \<Longrightarrow> same_view lo s t \<Longrightarrow> same_view lo (snd (run_state c s)) (snd (run_state c t))"
  by (simp add: local_parser_def)

lemma price_loop_same:
  assumes "same_view lo s t"
  shows "rel_option (same_view lo) (price_loop sz i s) (price_loop sz i t)"
proof (cases "sz = 0xFFFF")
  case True
  then show ?thesis by (simp add: price_loop_stuck)
next
  case False
  then show ?thesis using assms
  proof (induction "Suc (unat sz) - unat i" arbitrary: i s t rule: less_induct)
    case less
    show ?case
    proof (cases "i \<le> sz")
      case le: False
      then have "price_loop sz i u = Some u" for u by (subst price_loop.simps) simp
      then show ?thesis using less.prems by simp
    next
      case le: True
      have "same_view lo (snd (run_state read_price s)) (snd (run_state read_price t))"
        unfolding read_price_def by (intro local_run local_intros less.prems)
      from less.hyps [OF price_step [OF le less.prems(1)] less.prems(1) this]
      have "rel_option (same_view lo) (price_loop sz (i + 1) (snd (run_state read_price s)))
        (price_loop sz (i + 1) (snd (run_state read_price t)))" .
      moreover have "price_loop sz i u = price_loop sz (i + 1) (snd (run_state read_price u))" for u
        using le by (subst price_loop.simps) simp
      ultimately show ?thesis by simp
    qed
  qed
qed

lemma party_analyzer_same:
  assumes "same_view lo s t"
  shows "rel_option (same_view lo) (parsePartyAnalyzerAction g p s) (parsePartyAnalyzerAction g p t)"
proof -
  obtain a s1 where s1: "run_state byte s = (a, s1)" by (cases "run_state byte s")
  obtain a' t1 where t1: "run_state byte t = (a', t1)" by (cases "run_state byte t")
  have a: "a' = a" and v1: "same_view lo s1 t1" using local_parserD [OF local_fields(1) assms s1 t1] by simp_all
  obtain z s2 where s2: "run_state word16 s1 = (z, s2)" by (cases "run_state word16 s1")
  obtain z' t2 where t2: "run_state word16 t1 = (z', t2)" by (cases "run_state word16 t1")
  have z: "z' = z" and v2: "same_view lo s2 t2" using local_parserD [OF local_fields(2) v1 s2 t2] by simp_all
  have call: "same_view lo (snd (run_state (issue (Call m [])) u)) (snd (run_state (issue (Call m [])) v))" if "same_view lo u v" for m u v
    using local_run [OF local_asking(4) that] .
  have end2: "same_view lo (snd (run_state (do { issue (Call ''reloadPrices'' []); issue (Call ''updateTrackerAnalyzer'' []) }) u))
      (snd (run_state (do { issue (Call ''reloadPrices'' []); issue (Call ''updateTrackerAnalyzer'' []) }) v))" if "same_view lo u v" for u v
    by (intro local_run local_intros that)
  have "rel_option (same_view lo)
      (map_option (\<lambda>u. snd (run_state (do { issue (Call ''reloadPrices'' []); issue (Call ''updateTrackerAnalyzer'' []) }) u)) (price_loop z 1 s2))
      (map_option (\<lambda>u. snd (run_state (do { issue (Call ''reloadPrices'' []); issue (Call ''updateTrackerAnalyzer'' []) }) u)) (price_loop z 1 t2))"
    using price_loop_same [OF v2, of z 1] end2
    by (cases "price_loop z 1 s2"; cases "price_loop z 1 t2") (simp_all del: run_state_bind)
  then show ?thesis
    using assms v1 call [OF v1] unfolding parsePartyAnalyzerAction_def Let_def s1 t1 prod.case a s2 t2 z
    by (simp del: run_state_bind)
qed

text \<open>
  C8. What a packet asks for depends on its own bytes only: two messages with the same length, position
  and flag that agree from the position up to the end of the received body lead to the same requests with
  the same arguments (a message handed on agrees in the same way), and one handler returns exactly when
  the other does, whatever else the buffer holds.
\<close>
theorem stale_bytes_ignored:
  assumes "nm_length m' = nm_length m" "nm_position m' = nm_position m" "nm_overrun m' = nm_overrun m"
    and "unat (nm_length m) + 8 < 65536"
    and "\<And>i. unat (nm_position m) \<le> i \<Longrightarrow> i < unat (nm_length m) + 8 \<Longrightarrow> nm_buffer m' i = nm_buffer m i"
  shows "rel_option (\<lambda>s1 s2. list_all2 (same_action (unat (nm_position m))) (ps_out s1) (ps_out s2))
    (parsePacketFromDispatcher g b (s\<lparr>ps_msg := m\<rparr>)) (parsePacketFromDispatcher g b (s\<lparr>ps_msg := m'\<rparr>))"
proof -
  let ?lo = "unat (nm_position m)" and ?s = "s\<lparr>ps_msg := m\<rparr>" and ?t = "s\<lparr>ps_msg := m'\<rparr>"
  have "same_action ?lo a a" for a
  proof (cases a)
    case (Handle n k)
    then show ?thesis by simp
  qed auto
  then have v: "same_view ?lo ?s ?t" using assms by (simp add: same_view_def agree_def list_all2_refl)
  then have "rel_option (same_view ?lo) (parsePacketFromDispatcher g b ?s) (parsePacketFromDispatcher g b ?t)"
    using party_analyzer_same [OF v] local_run [OF handler_local v]
    by (simp add: parsePacketFromDispatcher_def split: option.split)
  then show ?thesis by (rule option.rel_mono_strong) (simp add: same_view_def)
qed

definition attack_message :: "u8 \<Rightarrow> network_message" where
  "attack_message old = \<lparr>nm_length = 5, nm_position = 9, nm_overrun = False, nm_buffer = (\<lambda>i. if i < 13 then of_nat i else old)\<rparr>"

theorem stale_bytes_ignored_witness:
  "rel_option (\<lambda>s1 s2. list_all2 (same_action 9) (ps_out s1) (ps_out s2))
    (parsePacketFromDispatcher market_town 0xA1 (unread (attack_message 0)))
    (parsePacketFromDispatcher market_town 0xA1 (unread (attack_message 7)))"
  using stale_bytes_ignored [where m = "attack_message 0" and m' = "attack_message 7" and g = market_town and b = "0xA1" and s = "unread empty_message"]
  by (simp add: attack_message_def unread_def)

end
