(* ===== verification/Client_Requests.thy ===== *)
theory Client_Requests
  imports Game_Requests
begin

text \<open>
  The packets a client writes, and what the server of \<^verbatim>\<open>protocolgame.cpp\<close> makes of them.  A \<^verbatim>\<open>request\<close> is what
  the player wants; \<^verbatim>\<open>encode\<close> is its opcode and its fields in the order of the wire, in the old or the new
  protocol; \<^verbatim>\<open>meaning\<close> is what the game is to be asked for.  The handler, started on a message that holds
  the encoding and ends with it, asks for the meaning.
\<close>

section \<open>Requests\<close>

datatype request =
    Walk direction
  | WalkPath "direction list"
  | Turn direction
  | Throw position u16 u8 position u8
  | LookAt position u16 u8
  | UseItem position u16 u8 u8
  | UseItemEx position u16 u8 position u16 u8
  | UseWithCreature position u16 u8 u32
  | Attack u32
  | FightModes u8 bool bool
  | Speak u8 bytes
  | Whisper u8 bytes bytes
  | SpeakInChannel u8 u16 bytes
  | BuyItem u16 u8 u16 bool bool
  | SellItem u16 u8 u16 bool
  | RequestTrade position u16 u8 u32
  | EditVip u32 bytes u32 bool
  | InviteToParty u32
  | WriteText u32 bytes
  | WriteHouseList u8 u32 bytes
  | CreateOffer u8 u16 u8 u16 u64 bool
  | CancelOffer u32 u16
  | AcceptOffer u32 u16 u16
  | QuickLootList u8 "u16 list"
  | ReportAssertion bytes bytes bytes bytes

definition wbool :: "bool \<Rightarrow> wire_value" where "wbool b = WByte (if b then 1 else 0)"

fun walk_code :: "direction \<Rightarrow> u8" where
  "walk_code DIRECTION_EAST = 1" | "walk_code DIRECTION_NORTHEAST = 2" | "walk_code DIRECTION_NORTH = 3"
| "walk_code DIRECTION_NORTHWEST = 4" | "walk_code DIRECTION_WEST = 5" | "walk_code DIRECTION_SOUTHWEST = 6"
| "walk_code DIRECTION_SOUTH = 7" | "walk_code DIRECTION_SOUTHEAST = 8" | "walk_code DIRECTION_NONE = 0"

fun walk_opcode :: "direction \<Rightarrow> u8" where
  "walk_opcode DIRECTION_NORTH = 0x65" | "walk_opcode DIRECTION_EAST = 0x66" | "walk_opcode DIRECTION_SOUTH = 0x67"
| "walk_opcode DIRECTION_WEST = 0x68" | "walk_opcode DIRECTION_NORTHEAST = 0x6A" | "walk_opcode DIRECTION_SOUTHEAST = 0x6B"
| "walk_opcode DIRECTION_SOUTHWEST = 0x6C" | "walk_opcode DIRECTION_NORTHWEST = 0x6D" | "walk_opcode DIRECTION_NONE = 0"

fun turn_opcode :: "direction \<Rightarrow> u8" where
  "turn_opcode DIRECTION_NORTH = 0x6F" | "turn_opcode DIRECTION_EAST = 0x70" | "turn_opcode DIRECTION_SOUTH = 0x71"
| "turn_opcode DIRECTION_WEST = 0x72" | "turn_opcode _ = 0"

definition amount_value :: "protocol_game \<Rightarrow> u16 \<Rightarrow> wire_value" where
  "amount_value g n = (if oldProtocol g then WByte (ucast n) else WU16 n)"

fun encode :: "protocol_game \<Rightarrow> request \<Rightarrow> u8 \<times> wire_value list" where
  "encode g (Walk d) = (walk_opcode d, [])"
| "encode g (WalkPath ds) = (0x64, WByte (of_nat (length ds)) # map (WByte \<circ> walk_code) ds)"
| "encode g (Turn d) = (turn_opcode d, [])"
| "encode g (Throw from i sp to n) = (0x78, [WPosition from, WU16 i, WByte sp, WPosition to, WByte n])"
| "encode g (LookAt at i sp) = (0x8C, [WPosition at, WU16 i, WByte sp])"
| "encode g (UseItem at i sp ix) = (0x82, [WPosition at, WU16 i, WByte sp, WByte ix])"
| "encode g (UseItemEx from i sp to j tp) = (0x83, [WPosition from, WU16 i, WByte sp, WPosition to, WU16 j, WByte tp])"
| "encode g (UseWithCreature from i sp c) = (0x84, [WPosition from, WU16 i, WByte sp, WU32 c])"
| "encode g (Attack c) = (0xA1, [WU32 c])"
| "encode g (FightModes f chase secure) = (0xA0, [WByte f, wbool chase, wbool secure])"
| "encode g (Speak t txt) = (0x96, [WByte t, WString txt])"
| "encode g (Whisper t to txt) = (0x96, [WByte t, WString to, WString txt])"
| "encode g (SpeakInChannel t c txt) = (0x96, [WByte t, WU16 c, WString txt])"
| "encode g (BuyItem i sub n cap bp) = (0x7A, [WU16 i, WByte sub, amount_value g n, wbool cap, wbool bp])"
| "encode g (SellItem i sub n eq) = (0x7B, [WU16 i, WByte sub, amount_value g n, wbool eq])"
| "encode g (RequestTrade at i sp c) = (0x7D, [WPosition at, WU16 i, WByte sp, WU32 c])"
| "encode g (EditVip guid descr icon notify) = (0xDE, [WU32 guid, WString descr, WU32 icon, wbool notify])"
| "encode g (InviteToParty c) = (0xA3, [WU32 c])"
| "encode g (WriteText w txt) = (0x89, [WU32 w, WString txt])"
| "encode g (WriteHouseList door w txt) = (0x8A, [WByte door, WU32 w, WString txt])"
| "encode g (CreateOffer t i tier n price anon) = (0xF6,
     [WByte t, WU16 i] @ (if \<not> oldProtocol g \<and> upgradeClassification g i > 0 then [WByte tier] else [])
     @ [WU16 n, if oldProtocol g then WU32 (ucast price) else WU64 price, wbool anon])"
| "encode g (CancelOffer time k) = (0xF7, [WU32 time, WU16 k])"
| "encode g (AcceptOffer time k n) = (0xF8, [WU32 time, WU16 k, WU16 n])"
| "encode g (QuickLootList f items) = (0x91, [WByte f, WU16 (of_nat (length items))] @ map WU16 items)"
| "encode g (ReportAssertion a b c d) = (0xE8, [WString a, WString b, WString c, WString d])"

text \<open>Requests the protocol can express: the talk types of each kind, texts of at most 255 characters, ranges.\<close>

fun expressible :: "protocol_game \<Rightarrow> request \<Rightarrow> bool" where
  "expressible g (Walk d) = (d \<noteq> DIRECTION_NONE)"
| "expressible g (WalkPath ds) = (ds \<noteq> [] \<and> length ds < 256 \<and> DIRECTION_NONE \<notin> set ds)"
| "expressible g (Turn d) = (d \<in> {DIRECTION_NORTH, DIRECTION_EAST, DIRECTION_SOUTH, DIRECTION_WEST})"
| "expressible g (Throw from i sp to n) = (to \<noteq> from)"
| "expressible g (FightModes f chase secure) = (f \<in> {1, 2, 3})"
| "expressible g (Speak t txt) = (t \<notin> {5, 7, 14, 16} \<and> length txt \<le> 255)"
| "expressible g (Whisper t to txt) = (t \<in> {5, 16} \<and> length txt \<le> 255)"
| "expressible g (SpeakInChannel t c txt) = (t \<in> {7, 14} \<and> length txt \<le> 255)"
| "expressible g (BuyItem i sub n cap bp) = (oldProtocol g \<longrightarrow> unat n < 256)"
| "expressible g (SellItem i sub n eq) = (sub > 0 \<and> (oldProtocol g \<longrightarrow> unat n < 256))"
| "expressible g (EditVip guid descr icon notify) = (icon \<le> 10)"
| "expressible g (CreateOffer t i tier n price anon) = (0 < n \<and> 0 < price
     \<and> (oldProtocol g \<longrightarrow> unat price < 2 ^ 32) \<and> (oldProtocol g \<or> upgradeClassification g i = 0 \<longrightarrow> tier = 0))"
| "expressible g (CancelOffer time k) = (0 < k)"
| "expressible g (AcceptOffer time k n) = (0 < k \<and> 0 < n)"
| "expressible g (QuickLootList f items) = (\<not> oldProtocol g \<and> length items < 65536)"
| "expressible g _ = True"

fun meaning :: "u32 \<Rightarrow> request \<Rightarrow> action list" where
  "meaning me (Walk d) = [GameTask ''playerMove'' [AU32 me, ADir d]]"
| "meaning me (WalkPath ds) = [GameTask ''playerAutoWalk'' [AU32 me, ADirs ds]]"
| "meaning me (Turn d) = [GameTaskTimed ''playerTurn'' [AU32 me, ADir d]]"
| "meaning me (Throw from i sp to n) = [GameTaskTimed ''playerMoveThing'' [AU32 me, APos from, AU16 i, AByte sp, APos to, AByte n]]"
| "meaning me (LookAt at i sp) = [GameTaskTimed ''playerLookAt'' [AU32 me, AU16 i, APos at, AByte sp]]"
| "meaning me (UseItem at i sp ix) = [GameTaskTimed ''playerUseItem'' [AU32 me, APos at, AByte sp, AByte ix, AU16 i]]"
| "meaning me (UseItemEx from i sp to j tp) =
     [GameTaskTimed ''playerUseItemEx'' [AU32 me, APos from, AByte sp, AU16 i, APos to, AByte tp, AU16 j]]"
| "meaning me (UseWithCreature from i sp c) = [GameTaskTimed ''playerUseWithCreature'' [AU32 me, APos from, AByte sp, AU32 c, AU16 i]]"
| "meaning me (Attack c) = [GameTask ''playerSetAttackedCreature'' [AU32 me, AU32 c]]"
| "meaning me (FightModes f chase secure) = [GameTask ''playerSetFightModes'' [AU32 me, AByte f, ABool chase, ABool secure]]"
| "meaning me (Speak t txt) = [GameTask ''playerSay'' [AU32 me, AU16 0, AByte t, AString [], AString txt]]"
| "meaning me (Whisper t to txt) = [GameTask ''playerSay'' [AU32 me, AU16 0, AByte t, AString to, AString txt]]"
| "meaning me (SpeakInChannel t c txt) = [GameTask ''playerSay'' [AU32 me, AU16 c, AByte t, AString [], AString txt]]"
| "meaning me (BuyItem i sub n cap bp) = [GameTaskTimed ''playerBuyItem'' [AU32 me, AU16 i, AByte sub, AU16 n, ABool cap, ABool bp]]"
| "meaning me (SellItem i sub n eq) = [GameTaskTimed ''playerSellItem'' [AU32 me, AU16 i, AByte sub, AU16 n, ABool eq]]"
| "meaning me (RequestTrade at i sp c) = [GameTask ''playerRequestTrade'' [AU32 me, APos at, AByte sp, AU32 c, AU16 i]]"
| "meaning me (EditVip guid descr icon notify) =
     [GameTask ''playerRequestEditVip'' [AU32 me, AU32 guid, AString descr, AU32 icon, ABool notify]]"
| "meaning me (InviteToParty c) = [GameTask ''playerInviteToParty'' [AU32 me, AU32 c]]"
| "meaning me (WriteText w txt) = [GameTask ''playerWriteItem'' [AU32 me, AU32 w, AString txt]]"
| "meaning me (WriteHouseList door w txt) = [GameTask ''playerUpdateHouseWindow'' [AU32 me, AByte door, AU32 w, AString txt]]"
| "meaning me (CreateOffer t i tier n price anon) =
     [GameTask ''playerCreateMarketOffer'' [AU32 me, AByte t, AU16 i, AU16 n, AU64 price, AByte tier, ABool anon]]"
| "meaning me (CancelOffer time k) =
     [GameTask ''playerCancelMarketOffer'' [AU32 me, AU32 time, AU16 k], Call ''updateCoinBalance'' []]"
| "meaning me (AcceptOffer time k n) =
     [GameTask ''playerAcceptMarketOffer'' [AU32 me, AU32 time, AU16 k, AU16 n], Call ''updateCoinBalance'' []]"
| "meaning me (QuickLootList f items) = [GameTask ''playerQuickLootBlackWhitelist'' [AU32 me, AInt (uint f), AItems items]]"
| "meaning me (ReportAssertion a b c d) = [GameTask ''playerDebugAssert'' [AU32 me, AString a, AString b, AString c, AString d]]"

section \<open>What a handler makes of the fields of a message\<close>

text \<open>The message holds exactly the encoding of the fields from its position to the end of its body.\<close>

definition holds :: "network_message \<Rightarrow> wire_value list \<Rightarrow> bool" where
  "holds m vs \<longleftrightarrow> readable m (length (enc_values vs))
     \<and> unat (nm_position m) + length (enc_values vs) = unat (nm_length m) + 8
     \<and> mem_read (nm_buffer m) (unat (nm_position m)) (length (enc_values vs)) = enc_values vs"

definition yields :: "'a parser \<Rightarrow> wire_value list \<Rightarrow> action list \<Rightarrow> bool" where
  "yields c vs acts \<longleftrightarrow> (\<forall>s. holds (ps_msg s) vs \<longrightarrow>
     ps_out (snd (run_state c s)) = ps_out s @ acts)"

named_theorems yields_intros \<open>reading one field after the other\<close>

lemma holds_split:
  assumes "holds m (v # vs)"
  shows "readable m (length (enc_value v))"
    "mem_read (nm_buffer m) (unat (nm_position m)) (length (enc_value v)) = enc_value v"
    "holds (advance m (length (enc_value v))) vs"
proof -
  let ?a = "length (enc_value v)" and ?b = "length (enc_values vs)"
  have r: "readable m (?a + ?b)" and e: "unat (nm_position m) + (?a + ?b) = unat (nm_length m) + 8"
    and b: "mem_read (nm_buffer m) (unat (nm_position m)) (?a + ?b) = enc_value v @ enc_values vs"
    using assms by (simp_all add: holds_def)
  show r1: "readable m ?a" using readable_split [OF r] by simp
  show "mem_read (nm_buffer m) (unat (nm_position m)) ?a = enc_value v"
    using b by (simp add: mem_read_append)
  show "holds (advance m ?a) vs"
    using readable_split [OF r] e b unat_position_advance [OF r1] by (simp add: holds_def mem_read_append)
qed

lemma yields_field:
  assumes "\<And>m. readable m (length (enc_value v)) \<Longrightarrow>
      mem_read (nm_buffer m) (unat (nm_position m)) (length (enc_value v)) = enc_value v \<Longrightarrow>
      r m = (x, advance m (length (enc_value v)))"
    and "yields (f x) vs acts"
  shows "yields (State_Monad.bind (reading r) f) (v # vs) acts"
  unfolding yields_def
proof (intro allI impI)
  fix s :: packet_state
  assume h: "holds (ps_msg s) (v # vs)"
  let ?m = "advance (ps_msg s) (length (enc_value v))"
  have "r (ps_msg s) = (x, ?m)" using assms(1) holds_split(1,2) [OF h] by blast
  moreover have "ps_out (snd (run_state (f x) (s\<lparr>ps_msg := ?m\<rparr>))) = ps_out s @ acts"
    using assms(2) holds_split(3) [OF h] by (simp add: yields_def)
  ultimately show "ps_out (snd (run_state (State_Monad.bind (reading r) f) s)) = ps_out s @ acts"
    by (simp add: reading_def)
qed

lemma yields_fields [yields_intros]:
  "yields (f1 b) vs acts \<Longrightarrow> yields (State_Monad.bind byte f1) (WByte b # vs) acts"
  "yields (f2 w) vs acts \<Longrightarrow> yields (State_Monad.bind word16 f2) (WU16 w # vs) acts"
  "yields (f3 d) vs acts \<Longrightarrow> yields (State_Monad.bind word32 f3) (WU32 d # vs) acts"
  "yields (f4 q) vs acts \<Longrightarrow> yields (State_Monad.bind word64 f4) (WU64 q # vs) acts"
  "yields (f5 t) vs acts \<Longrightarrow> yields (State_Monad.bind text_field f5) (WString t # vs) acts"
  "yields (f6 p) vs acts \<Longrightarrow> yields (State_Monad.bind pos_field f6) (WPosition p # vs) acts"
  by (rule yields_field; simp add: field_u8.fetch_enc field_u16.fetch_enc field_u32.fetch_enc field_u64.fetch_enc
      field_string.fetch_enc field_position.fetch_enc)+

lemma yields_return [yields_intros]: "yields (State_Monad.return x) vs []"
  by (simp add: yields_def)

lemma yields_issue [yields_intros]: "yields (issue a) vs [a]"
  by (simp add: yields_def issue_def)

lemma yields_ask [yields_intros]:
  "yields (addGameTask p m args) vs [GameTask m (AU32 (pv_id p) # args)]"
  "yields (addGameTaskTimed p m args) vs [GameTaskTimed m (AU32 (pv_id p) # args)]"
  by (simp_all add: addGameTask_def addGameTaskTimed_def yields_issue)

lemma yields_ask_then [yields_intros]:
  "yields (f ()) vs acts \<Longrightarrow>
    yields (State_Monad.bind (addGameTask p m args) f) vs (GameTask m (AU32 (pv_id p) # args) # acts)"
  by (simp add: yields_def addGameTask_def issue_def)

lemma yields_return_then [yields_intros]: "yields (f x) vs acts \<Longrightarrow> yields (State_Monad.bind (State_Monad.return x) f) vs acts"
  by (simp add: yields_def)

lemma yields_ifs:
  "b \<Longrightarrow> yields c vs acts \<Longrightarrow> yields (if b then c else d) vs acts"
  "\<not> b \<Longrightarrow> yields d vs acts \<Longrightarrow> yields (if b then c else d) vs acts"
  "b \<Longrightarrow> yields (State_Monad.bind c' f) vs acts \<Longrightarrow> yields (State_Monad.bind (if b then c' else d') f) vs acts"
  "\<not> b \<Longrightarrow> yields (State_Monad.bind d' f) vs acts \<Longrightarrow> yields (State_Monad.bind (if b then c' else d') f) vs acts"
  by simp_all

lemma yields_eq: "yields c vs acts \<Longrightarrow> acts = acts' \<Longrightarrow> yields c vs acts'"
  by simp

lemma yields_assoc [yields_intros]:
  "yields (State_Monad.bind c (\<lambda>x. State_Monad.bind (f x) h)) vs acts \<Longrightarrow> yields (State_Monad.bind (State_Monad.bind c f) h) vs acts"
  by simp

lemma yields_words:
  "length xs = length ws \<Longrightarrow> yields (f ws) vs acts \<Longrightarrow>
    yields (State_Monad.bind (State_Monad.traverse_list (\<lambda>_. word16) xs) f) (map WU16 ws @ vs) acts"
proof (induction xs arbitrary: ws f)
  case Nil
  then show ?case by simp
next
  case (Cons x xs)
  then obtain w ws' where ws: "ws = w # ws'" by (cases ws) auto
  have "yields (State_Monad.bind (State_Monad.traverse_list (\<lambda>_. word16) xs) (\<lambda>rest. f (w # rest))) (map WU16 ws' @ vs) acts"
    using Cons.prems ws by (intro Cons.IH) auto
  then show ?case by (simp add: ws yields_fields(2))
qed

lemma report_once:
  assumes "yields c vs acts" "holds (ps_msg s) vs" "\<not> ps_debugAssertSent s"
  shows "ps_out (snd (run_state (State_Monad.bind report_assertion (\<lambda>sent. if sent then nothing else c)) s)) = ps_out s @ acts"
  using assms by (simp add: yields_def report_assertion_def)

text \<open>The simple handlers: one task made of the fields in the order of the method.\<close>

lemma throw_request:
  "expressible g (Throw a i sp b n) \<Longrightarrow> yields (parseThrow p) (snd (encode g (Throw a i sp b n))) (meaning (pv_id p) (Throw a i sp b n))"
  unfolding parseThrow_def encode.simps meaning.simps snd_conv
  by ((rule yields_intros | (rule yields_ifs, (simp; fail)))+)

lemma simple_requests:
  "yields (parseLookAt p) (snd (encode g (LookAt at i sp))) (meaning (pv_id p) (LookAt at i sp))"
  "yields (parseUseItem p) (snd (encode g (UseItem at i sp ix))) (meaning (pv_id p) (UseItem at i sp ix))"
  "yields (parseUseItemEx p) (snd (encode g (UseItemEx at i sp to j tp))) (meaning (pv_id p) (UseItemEx at i sp to j tp))"
  "yields (parseUseWithCreature p) (snd (encode g (UseWithCreature at i sp c))) (meaning (pv_id p) (UseWithCreature at i sp c))"
  "yields (parseAttack p) (snd (encode g (Attack c))) (meaning (pv_id p) (Attack c))"
  "yields (parseRequestTrade p) (snd (encode g (RequestTrade at i sp c))) (meaning (pv_id p) (RequestTrade at i sp c))"
  "yields (parseInviteToParty p) (snd (encode g (InviteToParty c))) (meaning (pv_id p) (InviteToParty c))"
  "yields (parseTextWindow p) (snd (encode g (WriteText w txt))) (meaning (pv_id p) (WriteText w txt))"
  "yields (parseHouseWindow p) (snd (encode g (WriteHouseList door w txt))) (meaning (pv_id p) (WriteHouseList door w txt))"
  unfolding parseLookAt_def parseUseItem_def parseUseItemEx_def parseUseWithCreature_def parseAttack_def parseRequestTrade_def
    parseInviteToParty_def parseTextWindow_def parseHouseWindow_def encode.simps meaning.simps snd_conv
  by (rule yields_intros)+

lemma fight_request:
  "expressible g (FightModes f c s) \<Longrightarrow> yields (parseFightModes p) (snd (encode g (FightModes f c s))) (meaning (pv_id p) (FightModes f c s))"
  unfolding parseFightModes_def encode.simps meaning.simps snd_conv wbool_def
  by (rule yields_eq, (rule yields_intros)+) auto

lemma speech_requests:
  "expressible g (Speak t txt) \<Longrightarrow> yields (parseSay p) (snd (encode g (Speak t txt))) (meaning (pv_id p) (Speak t txt))"
  "expressible g (Whisper t to txt) \<Longrightarrow> yields (parseSay p) (snd (encode g (Whisper t to txt))) (meaning (pv_id p) (Whisper t to txt))"
  "expressible g (SpeakInChannel t c txt) \<Longrightarrow>
    yields (parseSay p) (snd (encode g (SpeakInChannel t c txt))) (meaning (pv_id p) (SpeakInChannel t c txt))"
  unfolding parseSay_def encode.simps meaning.simps snd_conv
  by ((rule yields_intros | (rule yields_ifs, (auto; fail)))+)

lemma ucast_down_up:
  assumes "unat (n :: 'a::len word) < 2 ^ LENGTH('b::len)"
  shows "ucast (ucast n :: 'b word) = n"
proof -
  have "unat n < 2 ^ LENGTH('a)" by simp
  then have "unat (ucast (ucast n :: 'b word) :: 'a word) = unat n"
    using assms by (simp add: unsigned_ucast_eq unsigned_take_bit_eq take_bit_nat_eq_self)
  from word_of_unat_eq [OF this] show ?thesis by simp
qed

lemma amount_requests:
  assumes "oldProtocol g \<Longrightarrow> unat n < 256" "yields (f n) vs acts"
  shows "yields (State_Monad.bind (amount_field g) f) (amount_value g n # vs) acts"
proof (cases "oldProtocol g")
  case True
  then have "ucast (ucast n :: u8) = n" using assms(1) by (intro ucast_down_up) simp
  then show ?thesis using assms(2) True by (simp add: amount_field_def amount_value_def yields_fields(1))
next
  case False
  then show ?thesis using assms(2) by (simp add: amount_field_def amount_value_def yields_fields(2))
qed

lemma at_least_one: "0 < (c :: u8) \<Longrightarrow> max c 1 = c"
proof -
  assume "0 < c"
  then have "1 \<le> c" by (simp add: word_le_nat_alt word_less_nat_alt)
  then show ?thesis by (simp add: max_def_raw)
qed

lemma shop_requests:
  "expressible g (BuyItem i sub n cap bp) \<Longrightarrow>
    yields (parsePlayerBuyOnShop g p) (snd (encode g (BuyItem i sub n cap bp))) (meaning (pv_id p) (BuyItem i sub n cap bp))"
  "expressible g (SellItem i sub n eq) \<Longrightarrow>
    yields (parsePlayerSellOnShop g p) (snd (encode g (SellItem i sub n eq))) (meaning (pv_id p) (SellItem i sub n eq))"
  unfolding parsePlayerBuyOnShop_def parsePlayerSellOnShop_def encode.simps meaning.simps snd_conv wbool_def
  by (rule yields_eq, (rule yields_intros | (rule amount_requests, (simp; fail)))+,
      auto simp: at_least_one)+

lemma market_requests:
  "expressible g (CancelOffer time k) \<Longrightarrow>
    yields (parseMarketCancelOffer p) (snd (encode g (CancelOffer time k))) (meaning (pv_id p) (CancelOffer time k))"
  "expressible g (AcceptOffer time k n) \<Longrightarrow>
    yields (parseMarketAcceptOffer p) (snd (encode g (AcceptOffer time k n))) (meaning (pv_id p) (AcceptOffer time k n))"
  unfolding parseMarketCancelOffer_def parseMarketAcceptOffer_def encode.simps meaning.simps snd_conv
  by ((rule yields_intros | (rule yields_ifs, (simp; fail)))+)

lemma edit_request:
  "expressible g (EditVip guid descr icon notify) \<Longrightarrow>
    yields (parseEditVip p) (snd (encode g (EditVip guid descr icon notify))) (meaning (pv_id p) (EditVip guid descr icon notify))"
  unfolding parseEditVip_def encode.simps meaning.simps snd_conv wbool_def
  by (rule yields_eq, (rule yields_intros)+) (auto simp: min_def)

lemma offer_request:
  assumes "expressible g (CreateOffer t i tier n price anon)"
  shows "yields (parseMarketCreateOffer g p) (snd (encode g (CreateOffer t i tier n price anon)))
    (meaning (pv_id p) (CreateOffer t i tier n price anon))"
proof (cases "oldProtocol g")
  case True
  then have "ucast (ucast price :: u32) = price" and "tier = 0" using assms by (auto intro: ucast_down_up)
  then show ?thesis
    using assms True unfolding parseMarketCreateOffer_def
    by (auto simp: wbool_def intro!: yields_fields yields_ask)
next
  case False
  then show ?thesis
    using assms unfolding parseMarketCreateOffer_def
    by (auto simp: tier_field_def wbool_def word_gt_0 intro!: yields_fields yields_ask)
qed

lemma loot_request:
  assumes "expressible g (QuickLootList f items)"
  shows "yields (parseQuickLootBlackWhitelist g p) (snd (encode g (QuickLootList f items))) (meaning (pv_id p) (QuickLootList f items))"
proof -
  have n: "unat (of_nat (length items) :: u16) = length items" using assms by (intro unat_of_nat_lt) simp
  have "yields (do {
     listedItems \<leftarrow> State_Monad.traverse_list (\<lambda>_. word16) [0..<unat (of_nat (length items) :: u16)];
     addGameTask p ''playerQuickLootBlackWhitelist'' [AInt (uint f), AItems listedItems] }) (map WU16 items @ [])
     (meaning (pv_id p) (QuickLootList f items))"
    unfolding meaning.simps by (rule yields_words) (simp_all add: n yields_ask)
  then show ?thesis
    using assms unfolding parseQuickLootBlackWhitelist_def by (auto intro!: yields_fields)
qed

section \<open>A path to walk\<close>

lemma raw_walk_code: "d \<noteq> DIRECTION_NONE \<Longrightarrow> raw_direction (walk_code d) = Some d"
  by (cases d) simp_all

lemma read_path_run:
  assumes "unat (nm_position (ps_msg s)) = q + k" "\<And>i. i < k \<Longrightarrow> nm_buffer (ps_msg s) (q + i) = walk_code (ds ! i)"
    "k \<le> length ds" "DIRECTION_NONE \<notin> set ds"
  shows "fst (run_state (read_path k path) s) = take k ds @ path \<and> ps_out (snd (run_state (read_path k path) s)) = ps_out s"
  using assms
proof (induction k arbitrary: s path)
  case 0
  then show ?case by simp
next
  case (Suc k)
  let ?s = "s\<lparr>ps_msg := (ps_msg s)\<lparr>nm_position := nm_position (ps_msg s) - 1\<rparr>\<rparr>"
  have "nm_position (ps_msg s) \<noteq> 0" using Suc.prems(1) by auto
  then have pos: "unat (nm_position (ps_msg s) - 1) = q + k" using Suc.prems(1) by (simp add: unat_minus_one)
  have "ds ! k \<noteq> DIRECTION_NONE" using Suc.prems(3,4) by (metis Suc_le_lessD nth_mem)
  then have "raw_direction (nm_buffer (ps_msg s) (q + k)) = Some (ds ! k)"
    using Suc.prems(2) [of k] raw_walk_code by simp
  then have run: "run_state (read_path (Suc k) path) s = run_state (read_path k (ds ! k # path)) ?s"
    by (simp add: reading_def getPreviousByte_def Let_def pos del: raw_direction.simps)
  have "take (Suc k) ds = take k ds @ [ds ! k]" using Suc.prems(3) by (simp add: take_Suc_conv_app_nth)
  then show ?case
    unfolding run using Suc.IH [of ?s "ds ! k # path"] Suc.prems pos by simp
qed

lemma enc_path: "enc_values (map (WByte \<circ> walk_code) ds) = map walk_code ds"
  by (induction ds) simp_all

lemma path_request:
  assumes "expressible g (WalkPath ds)"
  shows "yields (parseAutoWalk p) (snd (encode g (WalkPath ds))) (meaning (pv_id p) (WalkPath ds))"
proof -
  let ?n = "of_nat (length ds) :: u8"
  have n: "unat ?n = length ds" using assms by (intro unat_of_nat_lt) simp
  have "yields (do {
     (pos, len) \<leftarrow> reading (\<lambda>m. ((nm_position m, nm_length m), m));
     if ?n = 0 \<or> unat pos + unat ?n \<noteq> unat len + 8 then nothing
     else do {
       _ \<leftarrow> reading (\<lambda>m. ((), skipBytes m (ucast ?n)));
       path \<leftarrow> read_path (unat ?n) [];
       if path = [] then nothing else addGameTask p ''playerAutoWalk'' [ADirs path] } })
     (map (WByte \<circ> walk_code) ds) (meaning (pv_id p) (WalkPath ds))"
    unfolding yields_def
  proof (intro allI impI)
    fix s :: packet_state
    let ?m = "ps_msg s" and ?s = "s\<lparr>ps_msg := skipBytes (ps_msg s) (ucast ?n)\<rparr>"
    assume h: "holds ?m (map (WByte \<circ> walk_code) ds)"
    then have r: "readable ?m (length ds)" and e: "unat (nm_position ?m) + length ds = unat (nm_length ?m) + 8"
      and b: "mem_read (nm_buffer ?m) (unat (nm_position ?m)) (length ds) = map walk_code ds"
      unfolding holds_def enc_path length_map by blast+
    have w: "unat (ucast ?n :: u16) = length ds" using n by (simp add: unat_ucast_up)
    have pos: "unat (nm_position (ps_msg ?s)) = unat (nm_position ?m) + length ds"
      using unat_position_advance [OF r] unfolding word_of_unat_eq [OF w] by (simp add: skipBytes_def advance_def)
    have byte: "nm_buffer (ps_msg ?s) (unat (nm_position ?m) + i) = walk_code (ds ! i)" if "i < length ds" for i
      using arg_cong [OF b, of "\<lambda>xs. xs ! i"] that by (simp add: skipBytes_def)
    have "fst (run_state (read_path (length ds) []) ?s) = ds" "ps_out (snd (run_state (read_path (length ds) []) ?s)) = ps_out s"
      using read_path_run [OF pos byte, where path = "[]"] assms by simp_all
    moreover have "?n \<noteq> 0" using n assms by (metis expressible.simps(2) length_0_conv unat_0)
    ultimately show "ps_out (snd (run_state (do {
       (pos, len) \<leftarrow> reading (\<lambda>m. ((nm_position m, nm_length m), m));
       if ?n = 0 \<or> unat pos + unat ?n \<noteq> unat len + 8 then nothing
       else do {
         _ \<leftarrow> reading (\<lambda>m. ((), skipBytes m (ucast ?n)));
         path \<leftarrow> read_path (unat ?n) [];
         if path = [] then nothing else addGameTask p ''playerAutoWalk'' [ADirs path] } }) s)) = ps_out s @ meaning (pv_id p) (WalkPath ds)"
      using assms e unfolding n by (simp add: reading_def addGameTask_def issue_def split_beta)
  qed
  then show ?thesis unfolding parseAutoWalk_def encode.simps snd_conv by (rule yields_fields(1))
qed

section \<open>Properties\<close>

lemma opcodes_distinct:
  "distinct (map fst (session_opcodes g p @ item_opcodes g p @ social_opcodes g p @ window_opcodes g p))"
  unfolding session_opcodes_def item_opcodes_def social_opcodes_def window_opcodes_def append.simps list.map fst_conv
  by code_simp

lemma handler_entry:
  assumes "(b, h) \<in> set (session_opcodes g p) \<or> (b, h) \<in> set (item_opcodes g p) \<or> (b, h) \<in> set (social_opcodes g p)
    \<or> (b, h) \<in> set (window_opcodes g p)"
  shows "handler g p b = h"
proof -
  have "map_of (session_opcodes g p @ item_opcodes g p @ social_opcodes g p @ window_opcodes g p) b = Some h"
    by (rule map_of_is_SomeI [OF opcodes_distinct]) (use assms in auto)
  then show ?thesis unfolding handler_def by simp
qed

lemma session_handlers:
  "handler g p 0x64 = parseAutoWalk p"
  "handler g p 0x65 = addGameTask p ''playerMove'' [ADir DIRECTION_NORTH]"
  "handler g p 0x66 = addGameTask p ''playerMove'' [ADir DIRECTION_EAST]"
  "handler g p 0x67 = addGameTask p ''playerMove'' [ADir DIRECTION_SOUTH]"
  "handler g p 0x68 = addGameTask p ''playerMove'' [ADir DIRECTION_WEST]"
  "handler g p 0x6A = addGameTask p ''playerMove'' [ADir DIRECTION_NORTHEAST]"
  "handler g p 0x6B = addGameTask p ''playerMove'' [ADir DIRECTION_SOUTHEAST]"
  "handler g p 0x6C = addGameTask p ''playerMove'' [ADir DIRECTION_SOUTHWEST]"
  "handler g p 0x6D = addGameTask p ''playerMove'' [ADir DIRECTION_NORTHWEST]"
  "handler g p 0x6F = addGameTaskTimed p ''playerTurn'' [ADir DIRECTION_NORTH]"
  "handler g p 0x70 = addGameTaskTimed p ''playerTurn'' [ADir DIRECTION_EAST]"
  "handler g p 0x71 = addGameTaskTimed p ''playerTurn'' [ADir DIRECTION_SOUTH]"
  "handler g p 0x72 = addGameTaskTimed p ''playerTurn'' [ADir DIRECTION_WEST]"
  by (rule handler_entry, rule disjI1, unfold session_opcodes_def, intro list.set_intros)+

lemma item_handlers:
  "handler g p 0x78 = parseThrow p" "handler g p 0x8C = parseLookAt p" "handler g p 0x82 = parseUseItem p"
  "handler g p 0x83 = parseUseItemEx p" "handler g p 0x84 = parseUseWithCreature p" "handler g p 0x7A = parsePlayerBuyOnShop g p"
  "handler g p 0x7B = parsePlayerSellOnShop g p" "handler g p 0x7D = parseRequestTrade p" "handler g p 0x89 = parseTextWindow p"
  "handler g p 0x8A = parseHouseWindow p" "handler g p 0x91 = parseQuickLootBlackWhitelist g p"
  by (rule handler_entry, rule disjI2, rule disjI1, unfold item_opcodes_def, intro list.set_intros)+

lemma social_handlers:
  "handler g p 0x96 = parseSay p" "handler g p 0xA0 = parseFightModes p" "handler g p 0xA1 = parseAttack p"
  "handler g p 0xA3 = parseInviteToParty p"
  by (rule handler_entry, rule disjI2, rule disjI2, rule disjI1, unfold social_opcodes_def, intro list.set_intros)+

lemma window_handlers:
  "handler g p 0xDE = parseEditVip p" "handler g p 0xE8 = parseDebugAssert p" "handler g p 0xF6 = parseMarketCreateOffer g p"
  "handler g p 0xF7 = parseMarketCancelOffer p" "handler g p 0xF8 = parseMarketAcceptOffer p"
  by (rule handler_entry, rule disjI2, rule disjI2, rule disjI2, unfold window_opcodes_def, intro list.set_intros)+

lemmas request_handlers = session_handlers item_handlers social_handlers window_handlers

lemma walk_handlers:
  "d \<noteq> DIRECTION_NONE \<Longrightarrow> handler g p (walk_opcode d) = addGameTask p ''playerMove'' [ADir d]"
  "d \<in> {DIRECTION_NORTH, DIRECTION_EAST, DIRECTION_SOUTH, DIRECTION_WEST} \<Longrightarrow>
    handler g p (turn_opcode d) = addGameTaskTimed p ''playerTurn'' [ADir d]"
  by (cases d; simp only: walk_opcode.simps turn_opcode.simps session_handlers; simp)+

lemma request_yields:
  assumes "expressible g r" "\<nexists>a b c d. r = ReportAssertion a b c d"
  shows "yields (handler g p (fst (encode g r))) (snd (encode g r)) (meaning (pv_id p) r)"
  using assms simple_requests throw_request fight_request speech_requests shop_requests market_requests edit_request
    offer_request loot_request path_request walk_handlers yields_ask
  by (cases r) (simp_all only: encode.simps fst_conv request_handlers, simp_all)


definition walk_message :: network_message where
  "walk_message = (write_values (snd (encode market_town (WalkPath [DIRECTION_NORTH, DIRECTION_EAST]))) (reset empty_message))
     \<lparr>nm_position := INITIAL_BUFFER_POSITION\<rparr>"


end
