(* ===== verification/Purse.thy ===== *)
theory Purse
  imports Money
begin

text \<open>
  What a payment leaves in the pockets: the removals and the change of \<^verbatim>\<open>Game::removeMoney\<close> carried out on the
  inventory.  A removal takes coins off a stack, or the stack; change comes as new stacks
  (\<^verbatim>\<open>Game::addMoney\<close>) with identities of their own, put behind what is there; the inventory has
  room for them.
\<close>

fun take_coins :: "nat \<Rightarrow> nat \<Rightarrow> thing list \<Rightarrow> thing list" where
  "take_coins u n [] = []"
| "take_coins u n (Plain s # ts) =
     (if stack_uid s = u
      then (if n < stack_count s then Plain (s\<lparr>stack_count := stack_count s - n\<rparr>) # take_coins u n ts else take_coins u n ts)
      else Plain s # take_coins u n ts)"
| "take_coins u n (Box c # ts) = Box (take_coins u n c) # take_coins u n ts"

fun stacks_in :: "thing list \<Rightarrow> stack list" where
  "stacks_in [] = []"
| "stacks_in (Plain s # ts) = s # stacks_in ts"
| "stacks_in (Box c # ts) = stacks_in c @ stacks_in ts"

definition fresh_uid :: "thing list \<Rightarrow> nat" where
  "fresh_uid ts = Suc (fold max (map stack_uid (stacks_in ts)) 0)"

fun new_stacks :: "nat \<Rightarrow> (nat \<times> nat) list \<Rightarrow> thing list" where
  "new_stacks u [] = []"
| "new_stacks u ((i, n) # cs) = Plain \<lparr>stack_uid = u, stack_id = i, stack_count = n\<rparr> # new_stacks (Suc u) cs"

definition add_coins :: "nat \<Rightarrow> thing list \<Rightarrow> thing list" where
  "add_coins money ts = ts @ new_stacks (fresh_uid ts) (addMoney money)"

text \<open>A payment out of the inventory, and out of the bank account when that may be used.\<close>

definition pay :: "bool \<Rightarrow> nat \<Rightarrow> thing list \<times> nat \<Rightarrow> thing list \<times> nat" where
  "pay useBalance money purse = (case purse of (slots, balance) \<Rightarrow>
     (case removeMoney slots money (if useBalance then Some balance else None) of (_, removed, change, balance') \<Rightarrow>
       (add_coins change (fold (\<lambda>(u, n). take_coins u n) removed slots),
        case balance' of None \<Rightarrow> balance | Some b \<Rightarrow> b)))"

definition purse_ok :: "thing list \<Rightarrow> bool" where
  "purse_ok slots \<longleftrightarrow> distinct (map stack_uid (stacks_in slots))"

section \<open>The stacks of an inventory\<close>

lemma stacks_split: "mset (stacks_in c) = mset (plain_items c) + (\<Sum>d\<leftarrow>sub_containers c. mset (stacks_in d))"
  by (induction c rule: stacks_in.induct) simp_all

lemma walk_stacks: "mset (walk q) = (\<Sum>c\<leftarrow>q. mset (stacks_in c))"
proof (induction q rule: walk.induct)
  case (2 c q)
  then show ?case using stacks_split [of c] by (simp add: algebra_simps)
qed simp

lemma carried_stacks: "mset (carried slots) = mset (stacks_in slots)"
  by (simp add: carried_def walk_stacks stacks_split [symmetric])

lemma carried_distinct: "distinct (map stack_uid (carried slots)) = purse_ok slots"
  unfolding purse_ok_def by (rule mset_eq_imp_distinct_iff) (simp add: carried_stacks)

definition worth_of :: "stack list \<Rightarrow> nat" where
  "worth_of ss = sum_list (map getWorth ss)"

lemma worth_append [simp]: "worth_of (xs @ ys) = worth_of xs + worth_of ys"
  by (simp add: worth_of_def)

lemma money_stacks: "getMoney slots = worth_of (stacks_in slots)"
proof -
  have "mset (map getWorth (carried slots)) = mset (map getWorth (stacks_in slots))" by (simp add: carried_stacks)
  then show ?thesis unfolding getMoney_def worth_of_def by (metis sum_mset_sum_list)
qed

definition take_stack :: "nat \<Rightarrow> nat \<Rightarrow> stack list \<Rightarrow> stack list" where
  "take_stack u n xs = concat (map (\<lambda>s. if stack_uid s = u
     then (if n < stack_count s then [s\<lparr>stack_count := stack_count s - n\<rparr>] else []) else [s]) xs)"

lemma take_coins_stacks: "stacks_in (take_coins u n ts) = take_stack u n (stacks_in ts)"
  by (induction u n ts rule: take_coins.induct) (simp_all add: take_stack_def)

lemma take_stack_other: "\<forall>s \<in> set xs. stack_uid s \<noteq> u \<Longrightarrow> take_stack u n xs = xs"
  by (induction xs) (simp_all add: take_stack_def)

lemma take_stack_Cons:
  "take_stack u n (x # xs) = (if stack_uid x = u
     then (if n < stack_count x then [x\<lparr>stack_count := stack_count x - n\<rparr>] else []) else [x]) @ take_stack u n xs"
  by (simp add: take_stack_def)

lemma worth_split: "n \<le> stack_count s \<Longrightarrow> getWorth (s\<lparr>stack_count := stack_count s - n\<rparr>) + getWorth (s\<lparr>stack_count := n\<rparr>) = getWorth s"
  by (simp add: getWorth_def coin_ids add_mult_distrib [symmetric])

lemma take_stack_worth:
  assumes "distinct (map stack_uid xs)" "s \<in> set xs" "n \<le> stack_count s"
  shows "worth_of (take_stack (stack_uid s) n xs) + getWorth (s\<lparr>stack_count := n\<rparr>) = worth_of xs"
  using assms(1,2)
proof (induction xs)
  case (Cons x xs)
  show ?case
  proof (cases "x = s")
    case True
    then have "take_stack (stack_uid s) n xs = xs" using Cons.prems by (intro take_stack_other) (auto simp: image_iff)
    moreover have "n = stack_count s \<or> n < stack_count s" using assms(3) by auto
    ultimately show ?thesis using True worth_split [OF assms(3)] by (auto simp: take_stack_Cons worth_of_def)
  next
    case False
    with Cons show ?thesis by (auto simp: take_stack_Cons worth_of_def image_iff)
  qed
qed simp

lemma take_stack_uids: "set (map stack_uid (take_stack u n xs)) \<subseteq> set (map stack_uid xs)"
  by (induction xs) (auto simp: take_stack_Cons take_stack_def)

lemma take_stack_distinct: "distinct (map stack_uid xs) \<Longrightarrow> distinct (map stack_uid (take_stack u n xs))"
proof (induction xs)
  case (Cons x xs)
  then show ?case using take_stack_uids [of u n xs] by (auto simp: take_stack_Cons)
qed (simp add: take_stack_def)

lemma take_stack_find: "v \<noteq> u \<Longrightarrow> find (\<lambda>s. stack_uid s = v) (take_stack u n xs) = find (\<lambda>s. stack_uid s = v) xs"
  by (induction xs) (auto simp: take_stack_Cons take_stack_def)

lemma take_stack_member: "stack_uid s \<noteq> u \<Longrightarrow> s \<in> set (take_stack u n xs) \<longleftrightarrow> s \<in> set xs"
  by (induction xs) (auto simp: take_stack_Cons take_stack_def)

lemma take_all_stacks:
  "stacks_in (fold (\<lambda>(u, n). take_coins u n) rs slots) = fold (\<lambda>(u, n). take_stack u n) rs (stacks_in slots)"
  by (induction rs arbitrary: slots) (auto simp: take_coins_stacks)

lemma take_all_worth:
  assumes "distinct (map stack_uid xs)" "removals_ok xs rs"
  shows "worth_of (fold (\<lambda>(u, n). take_stack u n) rs xs) + removed_worth xs rs = worth_of xs
    \<and> distinct (map stack_uid (fold (\<lambda>(u, n). take_stack u n) rs xs))"
  using assms
proof (induction rs arbitrary: xs)
  case (Cons r rs)
  obtain u n where r: "r = (u, n)" by (cases r)
  obtain s where s: "s \<in> set xs" "stack_uid s = u" "n \<le> stack_count s"
    using Cons.prems(2) by (auto simp: r removals_ok_def)
  have u: "u \<notin> fst ` set rs" using Cons.prems(2) by (simp add: r removals_ok_def)
  have ok: "removals_ok (take_stack u n xs) rs"
    using Cons.prems(2) u take_stack_member [of _ u n xs] unfolding removals_ok_def r by (fastforce simp: image_iff)
  have "removed_worth (take_stack u n xs) rs = removed_worth xs rs"
    using u take_stack_find [of _ u n xs] unfolding removed_worth_def
    by (intro arg_cong [of _ _ sum_list] map_cong) (auto simp: image_iff split: prod.split)
  moreover have "removed_worth xs (r # rs) = getWorth (s\<lparr>stack_count := n\<rparr>) + removed_worth xs rs"
    using find_uid [OF Cons.prems(1) s(1)] by (simp add: removed_worth_def r s(2))
  ultimately show ?case
    using Cons.IH [OF take_stack_distinct [OF Cons.prems(1)] ok] take_stack_worth [OF Cons.prems(1) s(1,3)]
    by (simp add: r s(2))
qed (simp add: removed_worth_def)

section \<open>Payments\<close>

lemma stacks_append [simp]: "stacks_in (xs @ ys) = stacks_in xs @ stacks_in ys"
  by (induction xs rule: stacks_in.induct) simp_all

lemma new_stacks_worth: "worth_of (stacks_in (new_stacks u cs)) = created_worth cs"
proof (induction u cs rule: new_stacks.induct)
  case (2 u i n cs)
  then show ?case by (simp add: worth_of_def created_worth_def getWorth_def)
qed (simp add: worth_of_def created_worth_def)

lemma new_stacks_uids:
  "distinct (map stack_uid (stacks_in (new_stacks u cs))) \<and> (\<forall>s \<in> set (stacks_in (new_stacks u cs)). u \<le> stack_uid s)"
  by (induction u cs rule: new_stacks.induct) (auto simp: Suc_le_eq)

lemma fold_max_start: "m \<le> fold max xs (m :: nat)"
proof (induction xs arbitrary: m)
  case (Cons x xs)
  show ?case using Cons [of "max x m"] by (simp add: max.bounded_iff)
qed simp

lemma fold_max_le: "x \<in> set xs \<Longrightarrow> x \<le> fold max xs (m :: nat)"
proof (induction xs arbitrary: m)
  case (Cons y xs)
  show ?case using Cons.IH [of "max y m"] Cons.prems fold_max_start [of "max y m" xs] by (auto simp: max.bounded_iff)
qed simp

lemma add_coins_ok: "purse_ok ts \<Longrightarrow> purse_ok (add_coins money ts)"
proof -
  have "stack_uid s < fresh_uid ts" if "s \<in> set (stacks_in ts)" for s
    using that fold_max_le [of "stack_uid s" "map stack_uid (stacks_in ts)" 0] by (simp add: fresh_uid_def less_Suc_eq_le)
  then show "purse_ok ts \<Longrightarrow> purse_ok (add_coins money ts)"
    using new_stacks_uids [of "fresh_uid ts" "addMoney money"] by (fastforce simp: purse_ok_def add_coins_def)
qed

lemma change_small:
  assumes "\<forall>(w, s) \<in> set es. w = getWorth s \<and> w \<noteq> 0" "pay_stacks es money removed = Paid rs change"
  shows "change < 10000"
  using assms
proof (induction es money removed rule: pay_stacks.induct)
  case (2 w item es money removed)
  have w: "w = getWorth item" "w \<noteq> 0" using "2.prems"(1) by auto
  consider "w < money" | "w > money" | "w = money" by linarith
  then show ?case
  proof cases
    case 1
    then show ?thesis using "2.IH" "2.prems" by simp
  next
    case 2
    have "w div stack_count item \<le> 10000" using w by (auto simp: getWorth_def coin_ids split: if_splits)
    moreover have "w div stack_count item \<noteq> 0" using getWorth_unit(1) [of item] w by simp
    ultimately show ?thesis
      using ceil_div_bounds(2) [of "w div stack_count item" money] "2.prems"(2) 2 by (auto simp: Let_def)
  next
    case 3
    then show ?thesis using "2.prems"(2) by auto
  qed
qed simp

lemma removeMoney_change: "removeMoney slots money b = (ok, removed, change, b') \<Longrightarrow> change < 10000"
proof -
  have "\<forall>(w, s) \<in> set (moneyMap slots). w = getWorth s \<and> w \<noteq> 0" using moneyMap_set by blast
  from change_small [OF this, of money "[]"]
  show "removeMoney slots money b = (ok, removed, change, b') \<Longrightarrow> change < 10000"
    by (auto simp: removeMoney_def Let_def split: if_splits payment.splits option.splits)
qed

lemma removed_worth_cong: "\<lbrakk>mset xs = mset ys; distinct (map stack_uid xs)\<rbrakk> \<Longrightarrow> removed_worth xs rs = removed_worth ys rs"
proof -
  assume eq: "mset xs = mset ys" and d: "distinct (map stack_uid xs)"
  then have d': "distinct (map stack_uid ys)" by (metis mset_eq_imp_distinct_iff mset_map)
  have "find (\<lambda>s. stack_uid s = u) xs = find (\<lambda>s. stack_uid s = u) ys" for u
  proof (cases "find (\<lambda>s. stack_uid s = u) xs")
    case None
    then show ?thesis using eq by (metis find_None_iff mset_eq_setD)
  next
    case (Some s)
    then have "s \<in> set xs" "stack_uid s = u" by (auto simp: find_Some_iff)
    then show ?thesis using Some find_uid [OF d', of s] eq by (metis mset_eq_setD)
  qed
  then show ?thesis by (simp add: removed_worth_def)
qed

theorem pay_spec:
  assumes "purse_ok slots" "getMoney slots + balance < 2 ^ 64"
    and "money \<le> getMoney slots + (if useBalance then balance else 0)"
  shows "case pay useBalance money (slots, balance) of (slots', balance') \<Rightarrow>
    purse_ok slots' \<and> getMoney slots' + balance' + money = getMoney slots + balance"
proof -
  let ?b = "if useBalance then Some balance else None"
  obtain ok removed change b where m: "removeMoney slots money ?b = (ok, removed, change, b)" by (metis prod.exhaust)
  have tree: "sum_list (map tree_worth slots) = getMoney slots"
    using walk_worth [of "[slots]"] by (simp add: getMoney_def carried_def)
  have bal: "balance_of ?b = (if useBalance then balance else 0)" by (simp add: balance_of_def)
  have d: "distinct (map stack_uid (carried slots))" using assms(1) by (simp add: carried_distinct)
  have "sum_list (map tree_worth slots) + balance_of ?b < 2 ^ 64" using assms(2) by (simp add: tree bal split: if_splits)
  from removeMoney_spec [OF d this, of money]
  have spec: "removals_ok (carried slots) removed"
      "removed_worth (carried slots) removed + balance_of ?b = money + change + balance_of b"
    using assms(3) by (auto simp: m tree bal split: if_splits)
  have none: "b = None \<longleftrightarrow> \<not> useBalance"
    using m by (auto simp: removeMoney_def Let_def split: if_splits payment.splits)
  have ok: "removals_ok (stacks_in slots) removed"
    using spec(1) mset_eq_setD [OF carried_stacks [of slots]] by (simp add: removals_ok_def)
  let ?ts = "fold (\<lambda>(u, n). take_coins u n) removed slots"
  have worth: "getMoney ?ts + removed_worth (carried slots) removed = getMoney slots" and pok: "purse_ok ?ts"
    using take_all_worth [OF _ ok] assms(1) removed_worth_cong [OF carried_stacks d]
    by (simp_all add: purse_ok_def money_stacks take_all_stacks)
  have "created_worth (addMoney change) = change"
    using created_worth_addMoney [of change] removeMoney_change [OF m] by simp
  then have "getMoney (add_coins change ?ts) = getMoney ?ts + change"
    by (simp add: money_stacks add_coins_def new_stacks_worth)
  moreover have "purse_ok (add_coins change ?ts)" by (rule add_coins_ok) (rule pok)
  moreover have "pay useBalance money (slots, balance) = (add_coins change ?ts, case b of None \<Rightarrow> balance | Some b \<Rightarrow> b)"
    by (simp only: pay_def prod.case m)
  ultimately show ?thesis
    using worth spec(2) none unfolding bal by (cases b) (simp_all add: balance_of_def)
qed

end
