(* ===== verification/Market.thy ===== *)
theory Market
  imports Purse "HOL-Library.AList"
begin

text \<open>
  The market (\<^verbatim>\<open>io/iomarket.cpp\<close> and the market operations of \<^verbatim>\<open>game/game.cpp\<close>): the tables of offers and of the
  history, creating, cancelling and accepting offers, and their expiry.  A trader is a player by its GUID, online
  or loaded from the database: bank balance, inventory, stash, the items of the depot locker that may be sold,
  and the inbox.  Each player object has an account object of its own, so the comparison of accounts is the
  comparison of players.  Of a new item its count and tier are kept, not its charges.  Messages to clients
  and the saving of players are left out.
\<close>

section \<open>Traders and tables\<close>

record market_type =
  mt_ware :: u16
  mt_stackable :: bool
  mt_stackSize :: nat

record market_item =
  mi_id :: u16
  mi_tier :: u8
  mi_count :: nat

record trader =
  tr_account :: nat
  tr_bank :: nat
  tr_slots :: "thing list"
  tr_stash :: "u16 \<Rightarrow> nat"
  tr_locker :: "market_item list"
  tr_inbox :: "market_item list"

record market_offer =
  of_id :: nat
  of_player :: u32
  of_sale :: bool
  of_item :: u16
  of_amount :: nat
  of_created :: nat
  of_anonymous :: bool
  of_price :: nat
  of_tier :: u8

datatype offer_state = OFFERSTATE_ACTIVE | OFFERSTATE_CANCELLED | OFFERSTATE_EXPIRED | OFFERSTATE_ACCEPTED | OFFERSTATE_ACCEPTEDEX

record history_row =
  hr_player :: u32
  hr_sale :: bool
  hr_item :: u16
  hr_amount :: nat
  hr_price :: nat
  hr_expires :: nat
  hr_state :: offer_state
  hr_tier :: u8

text \<open>Transferable coins belong to the account, of which several traders may be characters.\<close>

record market =
  mk_traders :: "(u32 \<times> trader) list"
  mk_coins :: "(nat \<times> nat) list"
  mk_offers :: "market_offer list"
  mk_next :: nat
  mk_history :: "history_row list"

text \<open>
  The environment of a request: who is online and at the market, who must wait, who has a locker, whether the
  game takes an item out of a locker or puts one into an inbox, the clock and the configuration.
\<close>

record market_env =
  me_online :: "u32 \<Rightarrow> bool"
  me_inMarket :: "u32 \<Rightarrow> bool"
  me_exhausted :: "u32 \<Rightarrow> bool"
  me_premium :: "u32 \<Rightarrow> bool"
  me_hasLocker :: "u32 \<Rightarrow> bool"
  me_removable :: "u32 \<Rightarrow> market_item \<Rightarrow> bool"
  me_inbox :: "u32 \<Rightarrow> market_item \<Rightarrow> bool"
  me_now :: nat
  me_duration :: nat
  me_premiumOnly :: bool
  me_maxOffers :: nat
  me_maxTier :: nat

definition MARKETACTION_BUY :: u8 where "MARKETACTION_BUY = 0"
definition MARKETACTION_SELL :: u8 where "MARKETACTION_SELL = 1"
definition ITEM_STORE_COIN :: u16 where "ITEM_STORE_COIN = 22118"

definition trader_of :: "market \<Rightarrow> u32 \<Rightarrow> trader option" where
  "trader_of mk guid = (if guid = 0 then None else map_of (mk_traders mk) guid)"

definition change_trader :: "u32 \<Rightarrow> (trader \<Rightarrow> trader) \<Rightarrow> market \<Rightarrow> market" where
  "change_trader guid f mk = mk\<lparr>mk_traders := map (\<lambda>(g, t). (g, if g = guid then f t else t)) (mk_traders mk)\<rparr>"

definition player_of :: "market_env \<Rightarrow> market \<Rightarrow> u32 \<Rightarrow> trader option" where
  "player_of e mk guid = (if me_online e guid then trader_of mk guid else None)"

definition coins_of :: "market \<Rightarrow> nat \<Rightarrow> nat" where
  "coins_of mk account = (case map_of (mk_coins mk) account of None \<Rightarrow> 0 | Some n \<Rightarrow> n)"

text \<open>Account::addCoins and removeCoins of transferable coins, 32 bits wide; an account without a row has none to change.\<close>

definition change_coins :: "nat \<Rightarrow> (nat \<Rightarrow> nat) \<Rightarrow> market \<Rightarrow> market" where
  "change_coins account f mk = mk\<lparr>mk_coins := map (\<lambda>(a, n). (a, if a = account then f n else n)) (mk_coins mk)\<rparr>"

definition add_coins_to :: "nat \<Rightarrow> nat \<Rightarrow> market \<Rightarrow> market" where
  "add_coins_to account amount mk = change_coins account (\<lambda>n. (n + amount) mod 2 ^ 32) mk"

definition remove_coins_from :: "nat \<Rightarrow> nat \<Rightarrow> market \<Rightarrow> market" where
  "remove_coins_from account amount mk = change_coins account (\<lambda>n. if n < amount then n else n - amount) mk"

definition tr_money :: "trader \<Rightarrow> nat" where
  "tr_money t = getMoney (tr_slots t)"

definition pay_trader :: "bool \<Rightarrow> nat \<Rightarrow> trader \<Rightarrow> trader" where
  "pay_trader useBalance money t = (case pay useBalance money (tr_slots t, tr_bank t) of
     (slots, balance) \<Rightarrow> t\<lparr>tr_slots := slots, tr_bank := balance\<rparr>)"

definition credit_bank :: "nat \<Rightarrow> trader \<Rightarrow> trader" where
  "credit_bank money t = t\<lparr>tr_bank := (tr_bank t + money) mod 2 ^ 64\<rparr>"

section \<open>The tables\<close>

definition getTierFromDatabaseTable :: "market_env \<Rightarrow> u8 \<Rightarrow> u8" where
  "getTierFromDatabaseTable e tier = (if unat tier > me_maxTier e then 0 else tier)"

record offer_view =
  ov_amount :: nat
  ov_price :: nat
  ov_timestamp :: nat
  ov_counter :: nat
  ov_item :: u16
  ov_tier :: u8
  ov_player :: "u32 option"

definition view_offer :: "market_env \<Rightarrow> market_offer \<Rightarrow> offer_view" where
  "view_offer e o1 = \<lparr>ov_amount = of_amount o1, ov_price = of_price o1, ov_timestamp = of_created o1 + me_duration e,
     ov_counter = of_id o1 mod 2 ^ 16, ov_item = of_item o1, ov_tier = getTierFromDatabaseTable e (of_tier o1),
     ov_player = (if of_anonymous o1 then None else Some (of_player o1))\<rparr>"

definition getActiveOffers :: "market_env \<Rightarrow> bool \<Rightarrow> u16 \<Rightarrow> u8 \<Rightarrow> market \<Rightarrow> offer_view list" where
  "getActiveOffers e sale itemId tier mk =
     map (view_offer e) (filter (\<lambda>o1. of_sale o1 = sale \<and> of_item o1 = itemId \<and> of_tier o1 = tier) (mk_offers mk))"

definition getOwnOffers :: "market_env \<Rightarrow> bool \<Rightarrow> u32 \<Rightarrow> market \<Rightarrow> offer_view list" where
  "getOwnOffers e sale playerId mk =
     map (\<lambda>o1. (view_offer e o1)\<lparr>ov_player := None\<rparr>) (filter (\<lambda>o1. of_player o1 = playerId \<and> of_sale o1 = sale) (mk_offers mk))"

definition getOwnHistory :: "market_env \<Rightarrow> bool \<Rightarrow> u32 \<Rightarrow> market \<Rightarrow> history_row list" where
  "getOwnHistory e sale playerId mk =
     map (\<lambda>r. r\<lparr>hr_tier := getTierFromDatabaseTable e (hr_tier r),
            hr_state := (if hr_state r = OFFERSTATE_ACCEPTEDEX then OFFERSTATE_ACCEPTED else hr_state r)\<rparr>)
       (filter (\<lambda>r. hr_player r = playerId \<and> hr_sale r = sale) (mk_history mk))"

definition getPlayerOfferCount :: "u32 \<Rightarrow> market \<Rightarrow> nat" where
  "getPlayerOfferCount playerId mk = length (filter (\<lambda>o1. of_player o1 = playerId) (mk_offers mk))"

text \<open>Clients name an offer by its time of expiry and the low half of its id; of several the first is taken.\<close>

definition getOfferByCounter :: "market_env \<Rightarrow> nat \<Rightarrow> nat \<Rightarrow> market \<Rightarrow> market_offer option" where
  "getOfferByCounter e timestamp counter mk =
     map_option (\<lambda>o1. o1\<lparr>of_tier := getTierFromDatabaseTable e (of_tier o1)\<rparr>)
       (find (\<lambda>o1. int (of_created o1) = int timestamp - int (me_duration e) \<and> of_id o1 mod 2 ^ 16 = counter) (mk_offers mk))"

definition createOffer :: "market_env \<Rightarrow> u32 \<Rightarrow> bool \<Rightarrow> u16 \<Rightarrow> nat \<Rightarrow> nat \<Rightarrow> u8 \<Rightarrow> bool \<Rightarrow> market \<Rightarrow> market" where
  "createOffer e playerId sale itemId amount price tier anonymous mk =
     mk\<lparr>mk_offers := mk_offers mk @ [\<lparr>of_id = mk_next mk, of_player = playerId, of_sale = sale, of_item = itemId,
          of_amount = amount, of_created = me_now e, of_anonymous = anonymous, of_price = price, of_tier = tier\<rparr>],
        mk_next := mk_next mk + 1\<rparr>"

definition acceptOffer :: "nat \<Rightarrow> nat \<Rightarrow> market \<Rightarrow> market" where
  "acceptOffer offerId amount mk =
     mk\<lparr>mk_offers := map (\<lambda>o1. if of_id o1 = offerId then o1\<lparr>of_amount := of_amount o1 - amount\<rparr> else o1) (mk_offers mk)\<rparr>"

definition deleteOffer :: "nat \<Rightarrow> market \<Rightarrow> market" where
  "deleteOffer offerId mk = mk\<lparr>mk_offers := filter (\<lambda>o1. of_id o1 \<noteq> offerId) (mk_offers mk)\<rparr>"

definition appendHistory :: "u32 \<Rightarrow> bool \<Rightarrow> u16 \<Rightarrow> nat \<Rightarrow> nat \<Rightarrow> nat \<Rightarrow> u8 \<Rightarrow> offer_state \<Rightarrow> market \<Rightarrow> market" where
  "appendHistory playerId sale itemId amount price timestamp tier st mk =
     mk\<lparr>mk_history := mk_history mk @ [\<lparr>hr_player = playerId, hr_sale = sale, hr_item = itemId, hr_amount = amount,
          hr_price = price, hr_expires = timestamp, hr_state = st, hr_tier = tier\<rparr>]\<rparr>"

definition moveOfferToHistory :: "market_env \<Rightarrow> nat \<Rightarrow> offer_state \<Rightarrow> market \<Rightarrow> bool \<times> market" where
  "moveOfferToHistory e offerId st mk = (case find (\<lambda>o1. of_id o1 = offerId) (mk_offers mk) of
      None \<Rightarrow> (False, mk)
    | Some o1 \<Rightarrow> (True, appendHistory (of_player o1) (of_sale o1) (of_item o1) (of_amount o1) (of_price o1) (me_now e)
        (getTierFromDatabaseTable e (of_tier o1)) st (deleteOffer offerId mk)))"

section \<open>Items leave the locker and reach an inbox\<close>

definition withdrawItem :: "u16 \<Rightarrow> nat \<Rightarrow> trader \<Rightarrow> trader option" where
  "withdrawItem itemId amount t =
     (if tr_stash t itemId \<ge> amount \<and> tr_stash t itemId > 0 then Some (t\<lparr>tr_stash := (tr_stash t)(itemId := tr_stash t itemId - amount)\<rparr>)
      else None)"

definition wanted :: "u16 \<Rightarrow> u8 \<Rightarrow> market_item \<Rightarrow> bool" where
  "wanted itemId tier x \<longleftrightarrow> mi_id x = itemId \<and> mi_tier x = tier"

text \<open>The loops over the wanted items of the locker: whether no removal failed, what is still to be removed, what is left.\<close>

fun take_stackable :: "(market_item \<Rightarrow> bool) \<Rightarrow> (market_item \<Rightarrow> bool) \<Rightarrow> nat \<Rightarrow> market_item list \<Rightarrow> bool \<times> nat \<times> market_item list" where
  "take_stackable want removable removeAmount [] = (True, removeAmount, [])"
| "take_stackable want removable removeAmount (x # xs) =
     (if \<not> want x then (case take_stackable want removable removeAmount xs of (ok, r, ys) \<Rightarrow> (ok, r, x # ys))
      else (let removeCount = min removeAmount (mi_count x); r = removeAmount - removeCount in
        if \<not> removable x then (False, r, x # xs)
        else (let rest = (if removeCount < mi_count x then [x\<lparr>mi_count := mi_count x - removeCount\<rparr>] else []) in
          if r = 0 then (True, 0, rest @ xs)
          else (case take_stackable want removable r xs of (ok, r', ys) \<Rightarrow> (ok, r', rest @ ys)))))"

fun take_single :: "(market_item \<Rightarrow> bool) \<Rightarrow> (market_item \<Rightarrow> bool) \<Rightarrow> nat \<Rightarrow> nat \<Rightarrow> nat \<Rightarrow> market_item list \<Rightarrow> bool \<times> nat \<times> market_item list" where
  "take_single want removable amount cnt removeAmount [] = (True, removeAmount, [])"
| "take_single want removable amount cnt removeAmount (x # xs) =
     (if \<not> want x then (case take_single want removable amount cnt removeAmount xs of (ok, r, ys) \<Rightarrow> (ok, r, x # ys))
      else if cnt + mi_count x > amount then (True, removeAmount, x # xs)
      else if \<not> removable x then (False, removeAmount, x # xs)
      else take_single want removable amount (cnt + mi_count x) ((removeAmount + (2 ^ 16 - 1)) mod 2 ^ 16) xs)"

definition take_locker :: "market_type \<Rightarrow> (market_item \<Rightarrow> bool) \<Rightarrow> (market_item \<Rightarrow> bool) \<Rightarrow> nat \<Rightarrow> nat \<Rightarrow> trader \<Rightarrow> bool \<times> nat \<times> trader" where
  "take_locker it want removable amount removeAmount t =
     (if removeAmount = 0 then (True, 0, t)
      else if length (filter want (tr_locker t)) mod 2 ^ 16 = 0 then (False, removeAmount, t)
      else (case (if mt_stackable it then take_stackable want removable removeAmount (tr_locker t)
                  else take_single want removable amount 0 removeAmount (tr_locker t)) of
          (ok, r, items) \<Rightarrow> (ok, r, t\<lparr>tr_locker := items\<rparr>)))"

definition removeOfferItems :: "market_env \<Rightarrow> u32 \<Rightarrow> market_type \<Rightarrow> u16 \<Rightarrow> nat \<Rightarrow> u8 \<Rightarrow> trader \<Rightarrow> bool \<times> trader" where
  "removeOfferItems e guid it itemId amount tier t =
     (let stashItemCount = tr_stash t (mt_ware it);
          fromStash = (if stashItemCount > 0
            then (case (if amount > stashItemCount then withdrawItem (mt_ware it) stashItemCount t else None) of
                Some t' \<Rightarrow> Some (amount - stashItemCount, t')
              | None \<Rightarrow> map_option (Pair 0) (withdrawItem (mt_ware it) amount t))
            else Some (amount, t)) in
      case fromStash of None \<Rightarrow> (False, t)
      | Some (removeAmount, t) \<Rightarrow>
          (case take_locker it (wanted itemId tier) (me_removable e guid) amount removeAmount t of
             (ok, r, t) \<Rightarrow> (ok \<and> \<not> r > 0, t)))"

text \<open>New items for an inbox.  Stacks have at most the stack size; a stack size of zero never ends.\<close>

definition fresh_item :: "u16 \<Rightarrow> u8 \<Rightarrow> nat \<Rightarrow> market_item" where
  "fresh_item itemId tier n = \<lparr>mi_id = itemId, mi_tier = tier, mi_count = n\<rparr>"

partial_function (option) add_stacks :: "(market_item \<Rightarrow> bool) \<Rightarrow> u16 \<Rightarrow> u8 \<Rightarrow> nat \<Rightarrow> nat \<Rightarrow> market_item list \<Rightarrow> (bool \<times> market_item list) option" where
  "add_stacks takes itemId tier stackSize tmpAmount inbox =
     (if tmpAmount = 0 then Some (True, inbox)
      else (let stackCount = min stackSize tmpAmount in
        if \<not> takes (fresh_item itemId 0 stackCount) then Some (False, inbox)
        else add_stacks takes itemId tier stackSize (tmpAmount - stackCount) (inbox @ [fresh_item itemId tier stackCount])))"

declare add_stacks.simps [code]

fun add_singles :: "(market_item \<Rightarrow> bool) \<Rightarrow> u16 \<Rightarrow> u8 \<Rightarrow> nat \<Rightarrow> market_item list \<Rightarrow> bool \<times> market_item list" where
  "add_singles takes itemId tier 0 inbox = (True, inbox)"
| "add_singles takes itemId tier (Suc n) inbox =
     (if \<not> takes (fresh_item itemId 0 1) then (False, inbox)
      else add_singles takes itemId tier n (inbox @ [fresh_item itemId tier 1]))"

definition add_items :: "market_env \<Rightarrow> u32 \<Rightarrow> market_type \<Rightarrow> nat \<Rightarrow> u16 \<Rightarrow> u8 \<Rightarrow> nat \<Rightarrow> market \<Rightarrow> (bool \<times> market) option" where
  "add_items e guid it stackSize itemId tier amount mk = (case trader_of mk guid of None \<Rightarrow> Some (False, mk)
     | Some t \<Rightarrow> map_option (\<lambda>(ok, inbox). (ok, change_trader guid (\<lambda>t. t\<lparr>tr_inbox := inbox\<rparr>) mk))
         (if mt_stackable it then add_stacks (me_inbox e guid) itemId tier stackSize amount (tr_inbox t)
          else Some (add_singles (me_inbox e guid) itemId tier amount (tr_inbox t))))"


text \<open>Goods bought or returned: transferable coins go to the account, everything else to the inbox.\<close>

definition deliver :: "market_env \<Rightarrow> u32 \<Rightarrow> market_type \<Rightarrow> u16 \<Rightarrow> u8 \<Rightarrow> nat \<Rightarrow> market \<Rightarrow> (bool \<times> market) option" where
  "deliver e guid it itemId tier amount mk =
     (if itemId = ITEM_STORE_COIN
      then (case trader_of mk guid of None \<Rightarrow> Some (True, mk) | Some t \<Rightarrow> Some (True, add_coins_to (tr_account t) amount mk))
      else add_items e guid it (mt_stackSize it) itemId tier amount mk)"

section \<open>The operations\<close>

definition amount_refused :: "market_type \<Rightarrow> nat \<Rightarrow> bool" where
  "amount_refused it amount \<longleftrightarrow> amount = 0 \<or> \<not> mt_stackable it \<and> amount > 2000 \<or> mt_stackable it \<and> amount > 64000"

definition checkCanInitCreateMarketOffer ::
  "market_env \<Rightarrow> u32 \<Rightarrow> u8 \<Rightarrow> market_type option \<Rightarrow> nat \<Rightarrow> nat \<Rightarrow> market \<Rightarrow> bool" where
  "checkCanInitCreateMarketOffer e guid type it amount price mk \<longleftrightarrow>
     me_inMarket e guid \<and> price \<noteq> 0 \<and> \<not> price > 999999999999
     \<and> (type = MARKETACTION_BUY \<or> type = MARKETACTION_SELL)
     \<and> \<not> me_exhausted e guid
     \<and> (case it of None \<Rightarrow> False | Some it \<Rightarrow> mt_ware it \<noteq> 0 \<and> \<not> amount_refused it amount)
     \<and> \<not> (me_premiumOnly e \<and> \<not> me_premium e guid)
     \<and> \<not> (me_maxOffers e \<noteq> 0 \<and> getPlayerOfferCount guid mk \<ge> me_maxOffers e)"

definition market_fee :: "nat \<Rightarrow> nat \<Rightarrow> nat" where
  "market_fee price amount = max 20 (min 100000 (price div 100 * amount))"

text \<open>
  The result is None where the code does not return: without a player the error message of the refused offer
  dereferences the null pointer.
\<close>

definition playerCreateMarketOffer ::
  "(u16 \<Rightarrow> market_type option) \<Rightarrow> market_env \<Rightarrow> u32 \<Rightarrow> u8 \<Rightarrow> u16 \<Rightarrow> nat \<Rightarrow> nat \<Rightarrow> u8 \<Rightarrow> bool \<Rightarrow> market \<Rightarrow> market option" where
  "playerCreateMarketOffer types e guid type itemId amount price tier anonymous mk =
     (case player_of e mk guid of
        None \<Rightarrow> None
      | Some t \<Rightarrow>
        if \<not> checkCanInitCreateMarketOffer e guid type (types itemId) amount price mk then Some mk
        else (let fee = market_fee price amount; it = the (types itemId); wealth = (tr_bank t + tr_money t) mod 2 ^ 64;
                  create = createOffer e guid (type = MARKETACTION_SELL) itemId amount price tier anonymous in
          if type = MARKETACTION_SELL then
            (if fee > wealth then Some mk
             else if \<not> me_hasLocker e guid then Some mk
             else if itemId = ITEM_STORE_COIN then
               (if amount > coins_of mk (tr_account t) then Some mk
                else Some (create (change_trader guid (pay_trader True fee) (remove_coins_from (tr_account t) amount mk))))
             else (case removeOfferItems e guid it itemId amount tier t of
                 (False, t') \<Rightarrow> Some (change_trader guid (\<lambda>_. t') mk)
               | (True, t') \<Rightarrow> Some (create (change_trader guid (\<lambda>_. pay_trader True fee t') mk))))
          else (let totalPrice = price * amount + fee in
            if totalPrice > wealth then Some mk
            else Some (create (change_trader guid (pay_trader True totalPrice) mk)))))"

definition playerCancelMarketOffer ::
  "(u16 \<Rightarrow> market_type option) \<Rightarrow> market_env \<Rightarrow> u32 \<Rightarrow> nat \<Rightarrow> nat \<Rightarrow> market \<Rightarrow> market option" where
  "playerCancelMarketOffer types e guid timestamp counter mk =
     (case (player_of e mk guid, getOfferByCounter e timestamp counter mk) of
        (Some t, Some o1) \<Rightarrow>
          if \<not> me_inMarket e guid \<or> me_exhausted e guid \<or> of_player o1 \<noteq> guid then Some mk
          else (let remove = (\<lambda>mk. snd (moveOfferToHistory e (of_id o1) OFFERSTATE_CANCELLED mk)) in
            if \<not> of_sale o1 then Some (remove (change_trader guid (credit_bank (of_price o1 * of_amount o1)) mk))
            else (case types (of_item o1) of None \<Rightarrow> Some mk
              | Some it \<Rightarrow> map_option (\<lambda>(_, mk). remove mk) (deliver e guid it (of_item o1) (of_tier o1) (of_amount o1) mk)))
      | _ \<Rightarrow> Some mk)"

text \<open>The end of an accepted offer: both sides of the history, and the offer shrinks or goes.\<close>

definition offer_accepted :: "market_env \<Rightarrow> u32 \<Rightarrow> market_offer \<Rightarrow> nat \<Rightarrow> market \<Rightarrow> market" where
  "offer_accepted e guid o1 amount mk =
     (let mk = appendHistory guid (\<not> of_sale o1) (of_item o1) amount (of_price o1) (me_now e) (of_tier o1) OFFERSTATE_ACCEPTEDEX mk;
          mk = appendHistory (of_player o1) (of_sale o1) (of_item o1) amount (of_price o1) (me_now e) (of_tier o1) OFFERSTATE_ACCEPTED mk in
      if of_amount o1 = amount then deleteOffer (of_id o1) mk else acceptOffer (of_id o1) amount mk)"

definition finish_accept :: "market_env \<Rightarrow> u32 \<Rightarrow> market_offer \<Rightarrow> nat \<Rightarrow> bool \<times> market \<Rightarrow> market" where
  "finish_accept e guid o1 amount r = (if fst r then offer_accepted e guid o1 amount (snd r) else snd r)"

definition sell_to_offer ::
  "market_env \<Rightarrow> u32 \<Rightarrow> trader \<Rightarrow> market_type \<Rightarrow> market_offer \<Rightarrow> nat \<Rightarrow> nat \<Rightarrow> market \<Rightarrow> market option" where
  "sell_to_offer e guid t it o1 amount totalPrice mk =
     (case (if of_item o1 = ITEM_STORE_COIN
            then (if amount > coins_of mk (tr_account t) then (False, mk) else (True, remove_coins_from (tr_account t) amount mk))
            else (case removeOfferItems e guid it (of_item o1) amount (of_tier o1) t of
                (ok, t') \<Rightarrow> (ok, change_trader guid (\<lambda>_. t') mk))) of
        (False, mk) \<Rightarrow> Some mk
      | (True, mk) \<Rightarrow> map_option (finish_accept e guid o1 amount)
          (deliver e (of_player o1) it (of_item o1) (of_tier o1) amount (change_trader guid (credit_bank totalPrice) mk)))"

definition buy_from_offer ::
  "market_env \<Rightarrow> u32 \<Rightarrow> trader \<Rightarrow> market_type \<Rightarrow> market_offer \<Rightarrow> nat \<Rightarrow> nat \<Rightarrow> market \<Rightarrow> market option" where
  "buy_from_offer e guid t it o1 amount totalPrice mk =
     (if totalPrice > (tr_bank t + tr_money t) mod 2 ^ 64 then Some mk
      else (let settle = (if totalPrice \<le> tr_bank t then (\<lambda>t. t\<lparr>tr_bank := tr_bank t - totalPrice\<rparr>)
                          else (\<lambda>t. pay_trader False (totalPrice - tr_bank t) (t\<lparr>tr_bank := 0\<rparr>))) in
        map_option (\<lambda>(ok, mk). finish_accept e guid o1 amount (ok, change_trader (of_player o1) (credit_bank totalPrice) mk))
          (deliver e guid it (of_item o1) (of_tier o1) amount (change_trader guid settle mk))))"

definition playerAcceptMarketOffer ::
  "(u16 \<Rightarrow> market_type option) \<Rightarrow> market_env \<Rightarrow> u32 \<Rightarrow> nat \<Rightarrow> nat \<Rightarrow> nat \<Rightarrow> market \<Rightarrow> market option" where
  "playerAcceptMarketOffer types e guid timestamp counter amount mk =
     (case (player_of e mk guid, getOfferByCounter e timestamp counter mk) of
        (Some t, Some o1) \<Rightarrow>
          (case (if me_inMarket e guid \<and> \<not> me_exhausted e guid then types (of_item o1) else None) of
             None \<Rightarrow> Some mk
           | Some it \<Rightarrow>
             if amount_refused it amount \<or> amount > of_amount o1 then Some mk
             else (let totalPrice = (of_price o1 * amount) mod 2 ^ 64 in
               if (\<not> of_sale o1 \<and> \<not> me_hasLocker e guid) \<or> trader_of mk (of_player o1) = None \<or> guid = of_player o1 then Some mk
               else if \<not> of_sale o1 then sell_to_offer e guid t it o1 amount totalPrice mk
               else buy_from_offer e guid t it o1 amount totalPrice mk))
      | _ \<Rightarrow> Some mk)"

text \<open>
  Expiry: the rows are those a query found earlier, one after the other; each is moved to the history if its
  offer is still there, and paid back with the amounts of the row.  The stacks hold a hundred items.
\<close>

definition expired_offers :: "market_env \<Rightarrow> market \<Rightarrow> market_offer list" where
  "expired_offers e mk = filter (\<lambda>o1. int (of_created o1) \<le> int (me_now e) - int (me_duration e)) (mk_offers mk)"

definition expire_offer :: "(u16 \<Rightarrow> market_type option) \<Rightarrow> market_env \<Rightarrow> market_offer \<Rightarrow> market \<Rightarrow> market option" where
  "expire_offer types e row mk =
     (case moveOfferToHistory e (of_id row) OFFERSTATE_EXPIRED mk of
        (False, mk) \<Rightarrow> Some mk
      | (True, mk) \<Rightarrow>
          if of_sale row then
            (case types (of_item row) of None \<Rightarrow> Some mk
             | Some it \<Rightarrow> if trader_of mk (of_player row) = None then Some mk
                else map_option snd (add_items e (of_player row) it 100 (of_item row)
                       (getTierFromDatabaseTable e (of_tier row)) (of_amount row) mk))
          else Some (change_trader (of_player row) (credit_bank ((of_price row * of_amount row) mod 2 ^ 64)) mk))"

fun processExpiredOffers :: "(u16 \<Rightarrow> market_type option) \<Rightarrow> market_env \<Rightarrow> market_offer list \<Rightarrow> market \<Rightarrow> market option" where
  "processExpiredOffers types e [] mk = Some mk"
| "processExpiredOffers types e (row # rows) mk =
     (case expire_offer types e row mk of None \<Rightarrow> None | Some mk \<Rightarrow> processExpiredOffers types e rows mk)"

definition checkExpiredOffers :: "(u16 \<Rightarrow> market_type option) \<Rightarrow> market_env \<Rightarrow> market \<Rightarrow> market option" where
  "checkExpiredOffers types e mk = processExpiredOffers types e (expired_offers e mk) mk"

section \<open>Histories of the market\<close>

datatype market_event =
    CreateOffer u32 u8 u16 nat nat u8 bool
  | CancelOffer u32 nat nat
  | AcceptOffer u32 nat nat nat
  | CheckExpired

definition market_step :: "(u16 \<Rightarrow> market_type option) \<Rightarrow> market_env \<Rightarrow> market_event \<Rightarrow> market \<Rightarrow> market option" where
  "market_step types e ev mk = (case ev of
      CreateOffer guid type itemId amount price tier anonymous \<Rightarrow>
        playerCreateMarketOffer types e guid type itemId amount price tier anonymous mk
    | CancelOffer guid timestamp counter \<Rightarrow> playerCancelMarketOffer types e guid timestamp counter mk
    | AcceptOffer guid timestamp counter amount \<Rightarrow> playerAcceptMarketOffer types e guid timestamp counter amount mk
    | CheckExpired \<Rightarrow> checkExpiredOffers types e mk)"

fun market_run :: "(u16 \<Rightarrow> market_type option) \<Rightarrow> (market_env \<times> market_event) list \<Rightarrow> market \<Rightarrow> market option" where
  "market_run types [] mk = Some mk"
| "market_run types ((e, ev) # evs) mk = (case market_step types e ev mk of None \<Rightarrow> None | Some mk \<Rightarrow> market_run types evs mk)"

end
