(* ===== verification/Market_Money.thy ===== *)
theory Market_Money
  imports Market
begin

text \<open>
  The money of the market: what traders own and what the buying offers hold.  Every operation conserves it but
  for the fee of a new offer, and every operation returns.
\<close>

section \<open>The books\<close>

definition wealth :: "trader \<Rightarrow> nat" where
  "wealth t = tr_bank t + tr_money t"

definition owned_money :: "market \<Rightarrow> nat" where
  "owned_money mk = sum_list (map (wealth \<circ> snd) (mk_traders mk))"

definition escrow :: "market_offer \<Rightarrow> nat" where
  "escrow o1 = (if of_sale o1 then 0 else of_price o1 * of_amount o1)"

definition held_money :: "market \<Rightarrow> nat" where
  "held_money mk = sum_list (map escrow (mk_offers mk))"

definition total_money :: "market \<Rightarrow> nat" where
  "total_money mk = owned_money mk + held_money mk"

definition offer_ok :: "market \<Rightarrow> market_offer \<Rightarrow> bool" where
  "offer_ok mk o1 \<longleftrightarrow> of_id o1 < mk_next mk \<and> of_price o1 \<le> 999999999999 \<and> of_amount o1 \<le> 64000
     \<and> of_player o1 \<in> set (map fst (mk_traders mk))"

definition market_ok :: "market \<Rightarrow> bool" where
  "market_ok mk \<longleftrightarrow> distinct (map fst (mk_traders mk)) \<and> 0 \<notin> set (map fst (mk_traders mk))
     \<and> list_all (\<lambda>(_, t). purse_ok (tr_slots t)) (mk_traders mk)
     \<and> distinct (map of_id (mk_offers mk)) \<and> list_all (offer_ok mk) (mk_offers mk)"

definition works :: "market_env \<Rightarrow> bool" where
  "works e \<longleftrightarrow> (\<forall>g x. me_inbox e g x)"

section \<open>One trader, one offer\<close>

lemma trader_of_map: "market_ok mk \<Longrightarrow> trader_of mk g = map_of (mk_traders mk) g"
  using map_of_eq_None_iff [of "mk_traders mk" 0] by (auto simp: trader_of_def market_ok_def)

lemma trader_of_known: "market_ok mk \<Longrightarrow> g \<in> set (map fst (mk_traders mk)) \<Longrightarrow> \<exists>t. trader_of mk g = Some t"
  using trader_of_map [of mk g] by (metis list.set_map map_of_eq_None_iff not_None_eq)

lemma trader_purse: "market_ok mk \<Longrightarrow> trader_of mk g = Some t \<Longrightarrow> purse_ok (tr_slots t)"
  using trader_of_map [of mk g] by (auto simp: market_ok_def list_all_iff dest!: map_of_SomeD)

lemma change_keys [simp]: "map fst (mk_traders (change_trader g f mk)) = map fst (mk_traders mk)"
  by (simp add: change_trader_def comp_def case_prod_unfold)

lemma change_fields [simp]:
  "mk_offers (change_trader g f mk) = mk_offers mk" "mk_next (change_trader g f mk) = mk_next mk"
  "held_money (change_trader g f mk) = held_money mk" "mk_coins (change_trader g f mk) = mk_coins mk"
  by (simp_all add: change_trader_def held_money_def)

lemma change_sum:
  assumes "distinct (map fst ts)" "map_of ts g = Some t"
  shows "sum_list (map (h \<circ> snd) (map (\<lambda>(k, t). (k, if k = g then f t else t)) ts)) + h t
    = sum_list (map (h \<circ> snd) ts) + (h (f t) :: nat)"
  using assms
proof (induction ts)
  case (Cons x ts)
  obtain k u where x: "x = (k, u)" by (cases x)
  show ?case
  proof (cases "k = g")
    case True
    then have "g \<notin> fst ` set ts" using Cons.prems(1) x by simp
    then have "map (\<lambda>(k, t). (k, if k = g then f t else t)) ts = ts" by (intro map_idI) (auto simp: image_iff)
    then show ?thesis using Cons.prems(2) True x by simp
  next
    case False
    with Cons x show ?thesis by simp
  qed
qed simp

lemma member_sum: "map_of ts g = Some t \<Longrightarrow> h t \<le> sum_list (map (h \<circ> snd) ts)" for h :: "'a \<Rightarrow> nat"
  using map_of_SomeD [of ts g t] member_le_sum_list [of "h t" "map (h \<circ> snd) ts"] by force

lemma change_owned:
  assumes "market_ok mk" "trader_of mk g = Some t"
  shows "owned_money (change_trader g f mk) + wealth t = owned_money mk + wealth (f t)"
  using change_sum [of "mk_traders mk" g t wealth f] assms trader_of_map [OF assms(1), of g]
  by (simp add: owned_money_def change_trader_def market_ok_def)

lemma wealth_le: "market_ok mk \<Longrightarrow> trader_of mk g = Some t \<Longrightarrow> wealth t \<le> owned_money mk"
  using member_sum [of "mk_traders mk" g t wealth] trader_of_map [of mk g] by (simp add: owned_money_def)

lemma change_ok:
  assumes "market_ok mk" "trader_of mk g = Some t" "purse_ok (tr_slots (f t))"
  shows "market_ok (change_trader g f mk)"
proof -
  have m: "map_of (mk_traders mk) g = Some t" using assms(1,2) by (simp add: trader_of_map)
  have "(k, u) \<in> set (mk_traders mk) \<Longrightarrow> k = g \<Longrightarrow> u = t" for k u
    using m assms(1) by (auto simp: market_ok_def)
  then have "list_all (\<lambda>(_, t). purse_ok (tr_slots t)) (mk_traders (change_trader g f mk))"
    using assms(1,3) by (force simp: market_ok_def list_all_iff change_trader_def)
  moreover have "offer_ok (change_trader g f mk) = offer_ok mk"
    by (rule ext) (simp only: offer_ok_def change_fields change_keys)
  ultimately show ?thesis using assms(1) unfolding market_ok_def change_fields change_keys by simp
qed

lemma change_trader_of:
  "trader_of (change_trader g f mk) k = (if k = g then map_option f (trader_of mk k) else trader_of mk k)"
proof -
  have "map_of (map (\<lambda>(k, t). (k, if k = g then f t else t)) ts) k = (if k = g then map_option f (map_of ts k) else map_of ts k)" for ts k
    by (induction ts) auto
  then show ?thesis by (simp add: trader_of_def change_trader_def)
qed

lemma pay_trader_spec:
  assumes "purse_ok (tr_slots t)" "wealth t < 2 ^ 64" "money \<le> tr_money t + (if b then tr_bank t else 0)"
  shows "purse_ok (tr_slots (pay_trader b money t)) \<and> wealth (pay_trader b money t) + money = wealth t"
proof -
  obtain slots balance where p: "pay b money (tr_slots t, tr_bank t) = (slots, balance)"
    by (cases "pay b money (tr_slots t, tr_bank t)")
  have "getMoney (tr_slots t) + tr_bank t < 2 ^ 64" using assms(2) by (simp add: wealth_def tr_money_def)
  from pay_spec [OF assms(1) this, of money b] assms(3) show ?thesis
    by (simp add: p pay_trader_def wealth_def tr_money_def)
qed

lemma credit_spec: "tr_bank t + n < 2 ^ 64 \<Longrightarrow> wealth (credit_bank n t) = wealth t + n"
  by (simp add: wealth_def credit_bank_def tr_money_def)

lemma credit_slots [simp]: "tr_slots (credit_bank n t) = tr_slots t"
  by (simp add: credit_bank_def)

section \<open>The offers\<close>

lemma held_split:
  assumes "distinct (map of_id os)" "o1 \<in> set os"
  shows "sum_list (map h (filter (\<lambda>x. of_id x \<noteq> of_id o1) os)) + h o1 = sum_list (map (h :: market_offer \<Rightarrow> nat) os)"
  using assms
proof (induction os)
  case (Cons x os)
  have "filter (\<lambda>y. of_id y \<noteq> of_id x) os = os" using Cons.prems(1) by (auto simp: filter_id_conv image_iff)
  moreover have "of_id x \<noteq> of_id o1" if "x \<noteq> o1" using that Cons.prems by auto
  ultimately show ?case using Cons by (cases "x = o1") auto
qed simp

lemma held_change:
  assumes "distinct (map of_id os)" "o1 \<in> set os" "n \<le> of_amount o1"
  shows "sum_list (map escrow (map (\<lambda>x. if of_id x = of_id o1 then x\<lparr>of_amount := of_amount x - n\<rparr> else x) os))
      + (if of_sale o1 then 0 else of_price o1 * n)
    = sum_list (map escrow os)"
  using assms(1,2)
proof (induction os)
  case (Cons x os)
  have same: "map (\<lambda>y. if of_id y = of_id x then y\<lparr>of_amount := of_amount y - n\<rparr> else y) os = os"
    using Cons.prems(1) by (intro map_idI) (auto simp: image_iff)
  have "of_id x \<noteq> of_id o1" if "x \<noteq> o1" using that Cons.prems by auto
  then show ?case
    using Cons same assms(3) by (cases "x = o1") (auto simp: escrow_def diff_mult_distrib2)
qed simp

lemma deleted_money:
  assumes "market_ok mk" "o1 \<in> set (mk_offers mk)"
  shows "held_money (deleteOffer (of_id o1) mk) + escrow o1 = held_money mk"
  using held_split [of "mk_offers mk" o1 escrow] assms by (simp add: held_money_def deleteOffer_def market_ok_def)

lemma shrunk_money:
  assumes "market_ok mk" "o1 \<in> set (mk_offers mk)" "n \<le> of_amount o1"
  shows "held_money (acceptOffer (of_id o1) n mk) + (if of_sale o1 then 0 else of_price o1 * n) = held_money mk"
  using held_change [of "mk_offers mk" o1 n] assms unfolding held_money_def acceptOffer_def market_ok_def by simp

lemma held_le: "o1 \<in> set (mk_offers mk) \<Longrightarrow> escrow o1 \<le> held_money mk"
  unfolding held_money_def by (rule member_le_sum_list) (auto simp: image_iff)

lemma table_fields [simp]:
  "mk_traders (deleteOffer i mk) = mk_traders mk" "mk_traders (acceptOffer i n mk) = mk_traders mk"
  "mk_traders (appendHistory p s x n pr ti te st mk) = mk_traders mk" "mk_traders (createOffer e p s x n pr te an mk) = mk_traders mk"
  "mk_offers (appendHistory p s x n pr ti te st mk) = mk_offers mk" "mk_next (appendHistory p s x n pr ti te st mk) = mk_next mk"
  "mk_next (deleteOffer i mk) = mk_next mk" "mk_next (acceptOffer i n mk) = mk_next mk"
  "mk_coins (deleteOffer i mk) = mk_coins mk" "mk_coins (acceptOffer i n mk) = mk_coins mk"
  "mk_coins (appendHistory p s x n pr ti te st mk) = mk_coins mk" "mk_coins (createOffer e p s x n pr te an mk) = mk_coins mk"
  by (simp_all add: deleteOffer_def acceptOffer_def appendHistory_def createOffer_def)

lemma trader_of_cong: "mk_traders mk' = mk_traders mk \<Longrightarrow> trader_of mk' = trader_of mk"
  by (rule ext) (simp add: trader_of_def)

lemma owned_cong: "mk_traders mk' = mk_traders mk \<Longrightarrow> owned_money mk' = owned_money mk"
  by (simp add: owned_money_def)

lemma ok_cong:
  "market_ok mk \<Longrightarrow> mk_traders mk' = mk_traders mk \<Longrightarrow> mk_offers mk' = mk_offers mk \<Longrightarrow> mk_next mk' = mk_next mk \<Longrightarrow> market_ok mk'"
  by (simp add: market_ok_def offer_ok_def [abs_def])

lemma deleted_ok: "market_ok mk \<Longrightarrow> market_ok (deleteOffer i mk)"
  by (auto simp: market_ok_def deleteOffer_def list_all_iff offer_ok_def distinct_map_filter)

lemma shrunk_ok: "market_ok mk \<Longrightarrow> market_ok (acceptOffer i n mk)"
proof -
  have ids: "map of_id (mk_offers (acceptOffer i n mk)) = map of_id (mk_offers mk)" by (simp add: acceptOffer_def)
  have "list_all (offer_ok mk) (mk_offers mk) \<Longrightarrow> list_all (offer_ok (acceptOffer i n mk)) (mk_offers (acceptOffer i n mk))"
    by (auto simp: list_all_iff offer_ok_def acceptOffer_def)
  then show "market_ok mk \<Longrightarrow> market_ok (acceptOffer i n mk)" using ids unfolding market_ok_def table_fields by simp
qed

lemma created_ok:
  assumes "market_ok mk" "price \<le> 999999999999" "amount \<le> 64000" "g \<in> set (map fst (mk_traders mk))"
  shows "market_ok (createOffer e g s x amount price te an mk)"
  using assms by (auto simp: market_ok_def createOffer_def list_all_iff offer_ok_def)

lemma created_held: "held_money (createOffer e g s x amount price te an mk) = held_money mk + (if s then 0 else price * amount)"
  by (simp add: held_money_def createOffer_def escrow_def)


section \<open>Deliveries\<close>

definition purses :: "market \<Rightarrow> (u32 \<times> nat \<times> thing list) list" where
  "purses mk = map (\<lambda>(g, t). (g, tr_bank t, tr_slots t)) (mk_traders mk)"

definition same_books :: "market \<Rightarrow> market \<Rightarrow> bool" where
  "same_books mk mk' \<longleftrightarrow> purses mk' = purses mk \<and> mk_offers mk' = mk_offers mk \<and> mk_next mk' = mk_next mk"

lemma same_books_refl [simp]: "same_books mk mk"
  by (simp add: same_books_def)

lemma purses_owned: "owned_money mk = sum_list (map (\<lambda>(_, b, s). b + getMoney s) (purses mk))"
  by (simp add: owned_money_def purses_def comp_def case_prod_unfold wealth_def tr_money_def)

lemma purses_keys: "map fst (mk_traders mk) = map fst (purses mk)"
  by (simp add: purses_def comp_def case_prod_unfold)

lemma purses_ok: "list_all (\<lambda>(_, t). purse_ok (tr_slots t)) (mk_traders mk) = list_all (\<lambda>(_, _, s). purse_ok s) (purses mk)"
  by (simp add: purses_def list_all_iff case_prod_unfold)

lemma same_books_ok: "same_books mk mk' \<Longrightarrow> market_ok mk \<Longrightarrow> market_ok mk'"
  unfolding market_ok_def same_books_def purses_ok purses_keys offer_ok_def [abs_def] by simp

lemma same_books_money: "same_books mk mk' \<Longrightarrow> owned_money mk' = owned_money mk \<and> held_money mk' = held_money mk"
  unfolding same_books_def purses_owned held_money_def by simp

lemma same_books_trader:
  assumes "same_books mk mk'" "trader_of mk g = Some t"
  shows "\<exists>t'. trader_of mk' g = Some t' \<and> tr_bank t' = tr_bank t \<and> tr_slots t' = tr_slots t"
proof -
  have "map_of (map (\<lambda>(g, t). (g, tr_bank t, tr_slots t)) ts) g = map_option (\<lambda>t. (tr_bank t, tr_slots t)) (map_of ts g)" for ts
    by (induction ts) auto
  then have p: "map_of (purses mk) g = map_option (\<lambda>t. (tr_bank t, tr_slots t)) (map_of (mk_traders mk) g)" for mk
    by (simp add: purses_def)
  show ?thesis using assms p [of mk] p [of mk']
    by (cases "map_of (mk_traders mk') g") (auto simp: same_books_def trader_of_def split: if_splits)
qed

lemma change_same:
  assumes "\<And>t. tr_bank (f t) = tr_bank t \<and> tr_slots (f t) = tr_slots t"
  shows "same_books mk (change_trader g f mk)"
  using assms by (simp add: same_books_def purses_def) (auto simp: change_trader_def)

lemma change_coins_same: "same_books mk (change_coins a f mk)"
  by (simp add: same_books_def purses_def change_coins_def)

lemma deliver_same:
  "deliver e g it i te n mk = Some (ok, mk') \<Longrightarrow> same_books mk mk'"
  by (auto simp: deliver_def add_coins_to_def change_coins_same add_items_def intro!: change_same
      split: if_splits option.splits)

text \<open>A delivery ends when the stacks are not empty, and succeeds when the inbox takes everything.\<close>

lemma add_stacks_returns:
  "stackSize > 0 \<Longrightarrow> \<exists>ok ys. add_stacks takes i te stackSize n xs = Some (ok, ys) \<and> ((\<forall>x. takes x) \<longrightarrow> ok)"
proof (induction n arbitrary: xs rule: less_induct)
  case (less n)
  show ?case
  proof (cases "n = 0 \<or> \<not> takes (fresh_item i 0 (min stackSize n))")
    case True
    then show ?thesis by (auto simp: add_stacks.simps [of takes i te stackSize n] Let_def)
  next
    case False
    then have "n - min stackSize n < n" using less.prems by simp
    from less.IH [OF this less.prems] False show ?thesis
      by (simp add: add_stacks.simps [of takes i te stackSize n] Let_def)
  qed
qed

lemma add_singles_works: "\<forall>x. takes x \<Longrightarrow> fst (add_singles takes i te n xs)"
  by (induction n arbitrary: xs) simp_all

lemma deliver_works:
  assumes "works e" "trader_of mk g = Some t" "mt_stackSize it > 0"
  shows "\<exists>mk'. deliver e g it i te n mk = Some (True, mk')"
proof -
  have "\<forall>x. me_inbox e g x" using assms(1) by (simp add: works_def)
  then show ?thesis
    using assms(2) add_stacks_returns [OF assms(3), of "me_inbox e g" i te n "tr_inbox t"]
      add_singles_works [of "me_inbox e g" i te n "tr_inbox t"]
    by (cases "add_singles (me_inbox e g) i te n (tr_inbox t)") (auto simp: deliver_def add_items_def)
qed

lemma add_items_returns:
  assumes "trader_of mk g \<noteq> None" "stackSize > 0"
  shows "\<exists>ok mk'. add_items e g it stackSize i te n mk = Some (ok, mk') \<and> same_books mk mk'"
proof -
  obtain t where t: "trader_of mk g = Some t" using assms(1) by blast
  obtain ok ys where a: "add_stacks (me_inbox e g) i te stackSize n (tr_inbox t) = Some (ok, ys)"
    using add_stacks_returns [OF assms(2)] by blast
  have same: "same_books mk (change_trader g (\<lambda>t. t\<lparr>tr_inbox := ys\<rparr>) mk)" for ys by (rule change_same) simp
  show ?thesis
    by (cases "mt_stackable it"; cases "add_singles (me_inbox e g) i te n (tr_inbox t)")
      (simp_all add: add_items_def t a same)
qed

section \<open>What removing items leaves\<close>

lemma withdraw_purse: "withdrawItem w n t = Some t' \<Longrightarrow> tr_bank t' = tr_bank t \<and> tr_slots t' = tr_slots t"
  by (auto simp: withdrawItem_def split: if_splits)

lemma locker_purse:
  "take_locker it want rem a r t = (ok, r', t') \<Longrightarrow> tr_bank t' = tr_bank t \<and> tr_slots t' = tr_slots t"
  by (auto simp: take_locker_def split: if_splits prod.splits)

lemma removal_purse:
  "removeOfferItems e g it i n te t = (ok, t') \<Longrightarrow> tr_bank t' = tr_bank t \<and> tr_slots t' = tr_slots t"
  by (auto simp: removeOfferItems_def Let_def split: if_splits option.splits prod.splits dest!: withdraw_purse locker_purse)


section \<open>Every operation settles\<close>

definition settles :: "nat \<Rightarrow> market \<Rightarrow> market \<Rightarrow> bool" where
  "settles fee mk mk' \<longleftrightarrow> market_ok mk' \<and> total_money mk' + fee = total_money mk
     \<and> map fst (mk_traders mk') = map fst (mk_traders mk)"

definition types_ok :: "(u16 \<Rightarrow> market_type option) \<Rightarrow> bool" where
  "types_ok types \<longleftrightarrow> (\<forall>i. case types i of None \<Rightarrow> True | Some it \<Rightarrow> mt_stackSize it > 0)"

lemma types_size: "types_ok types \<Longrightarrow> types i = Some it \<Longrightarrow> mt_stackSize it > 0"
  unfolding types_ok_def by (drule spec [of _ i]) simp

lemma settles_same: "market_ok mk \<Longrightarrow> same_books mk mk' \<Longrightarrow> settles 0 mk mk'"
  using same_books_money [of mk mk'] same_books_ok [of mk mk']
  by (simp add: settles_def total_money_def purses_keys same_books_def)

lemma settles_refl: "market_ok mk \<Longrightarrow> settles 0 mk mk"
  by (simp add: settles_def)

lemma same_keys: "same_books mk mk' \<Longrightarrow> map fst (mk_traders mk') = map fst (mk_traders mk)"
  by (simp add: purses_keys same_books_def)

lemma found_offer:
  assumes "getOfferByCounter e ts c mk = Some o1"
  shows "\<exists>x \<in> set (mk_offers mk). of_id o1 = of_id x \<and> of_sale o1 = of_sale x \<and> of_price o1 = of_price x
    \<and> of_amount o1 = of_amount x \<and> of_player o1 = of_player x \<and> of_item o1 = of_item x"
  using assms by (auto simp: getOfferByCounter_def find_Some_iff)

lemma move_settles:
  assumes "market_ok mk" "x \<in> set (mk_offers mk)"
  shows "\<exists>mk'. moveOfferToHistory e (of_id x) st mk = (True, mk') \<and> market_ok mk' \<and> mk_traders mk' = mk_traders mk
    \<and> held_money mk' + escrow x = held_money mk"
proof -
  have "find (\<lambda>o1. of_id o1 = of_id x) (mk_offers mk) \<noteq> None" using assms(2) by (auto simp: find_None_iff)
  then obtain y where y: "find (\<lambda>o1. of_id o1 = of_id x) (mk_offers mk) = Some y" by blast
  have held: "held_money (appendHistory p s i n pr ti te st m) = held_money m" for p s i n pr ti te st m
    by (simp add: held_money_def)
  have "market_ok (appendHistory p s i n pr ti te st (deleteOffer (of_id x) mk))" for p s i n pr ti te
    by (rule ok_cong [OF deleted_ok [OF assms(1)]]) simp_all
  then show ?thesis using deleted_money [OF assms] by (simp add: moveOfferToHistory_def y held)
qed

lemma offer_bounds:
  assumes "market_ok mk" "x \<in> set (mk_offers mk)"
  shows "of_price x \<le> 999999999999" "of_amount x \<le> 64000" "\<exists>t. trader_of mk (of_player x) = Some t"
  using assms trader_of_known [OF assms(1), of "of_player x"] by (auto simp: market_ok_def list_all_iff offer_ok_def)

lemma small_product: "p \<le> 999999999999 \<Longrightarrow> n \<le> 64000 \<Longrightarrow> p * n < (2 :: nat) ^ 64"
  using mult_le_mono [of p 999999999999 n 64000] by simp

lemma credit_ok:
  assumes "market_ok mk" "trader_of mk g = Some t" "owned_money mk + n < 2 ^ 64"
  shows "market_ok (change_trader g (credit_bank n) mk) \<and> owned_money (change_trader g (credit_bank n) mk) = owned_money mk + n"
proof -
  have "tr_bank t \<le> owned_money mk" using wealth_le [OF assms(1,2)] by (simp add: wealth_def)
  then have "wealth (credit_bank n t) = wealth t + n" using assms(3) by (intro credit_spec) simp
  then show ?thesis
    using change_owned [OF assms(1,2), of "credit_bank n"] change_ok [OF assms(1,2), of "credit_bank n"] trader_purse [OF assms(1,2)]
    by simp
qed

lemma cancel_settles:
  assumes "market_ok mk" "total_money mk < 2 ^ 64" "types_ok types"
  shows "\<exists>mk'. playerCancelMarketOffer types e g ts c mk = Some mk' \<and> settles 0 mk mk'"
proof -
  have stay: "settles 0 mk mk" by (rule settles_refl) (rule assms(1))
  show ?thesis
  proof (cases "player_of e mk g = None \<or> getOfferByCounter e ts c mk = None \<or> \<not> me_inMarket e g \<or> me_exhausted e g
      \<or> (case getOfferByCounter e ts c mk of Some o1 \<Rightarrow> of_player o1 \<noteq> g | None \<Rightarrow> True)")
    case True
    then show ?thesis using stay by (auto simp: playerCancelMarketOffer_def split: option.splits)
  next
    case False
    then obtain t o1 where t: "player_of e mk g = Some t" and o1: "getOfferByCounter e ts c mk = Some o1" "of_player o1 = g"
      by (auto split: option.splits)
    have tr: "trader_of mk g = Some t" using t by (simp add: player_of_def split: if_splits)
    obtain x where x: "x \<in> set (mk_offers mk)" "of_id o1 = of_id x" "of_sale o1 = of_sale x" "of_price o1 = of_price x"
        "of_amount o1 = of_amount x"
      using found_offer [OF o1(1)] by blast
    show ?thesis
    proof (cases "of_sale o1")
      case False
      let ?n = "of_price x * of_amount x"
      let ?m = "change_trader g (credit_bank ?n) mk"
      have esc: "escrow x = ?n" using False x(3) by (simp add: escrow_def)
      then have "owned_money mk + ?n < 2 ^ 64" using held_le [OF x(1)] assms(2) by (simp add: total_money_def)
      then have c: "market_ok ?m" "owned_money ?m = owned_money mk + ?n" using credit_ok [OF assms(1) tr] by auto
      obtain mk' where m: "moveOfferToHistory e (of_id x) OFFERSTATE_CANCELLED ?m = (True, mk')" "market_ok mk'"
          "mk_traders mk' = mk_traders ?m" "held_money mk' + escrow x = held_money ?m"
        using move_settles [OF c(1), of x e OFFERSTATE_CANCELLED] x(1) by auto
      have "playerCancelMarketOffer types e g ts c mk = Some mk'"
        using \<open>\<not> (player_of e mk g = None \<or> _)\<close> False m(1) by (simp add: playerCancelMarketOffer_def t o1 x)
      moreover have "settles 0 mk mk'"
        using m c esc owned_cong [OF m(3)] by (simp add: settles_def total_money_def)
      ultimately show ?thesis by blast
    next
      case True
      show ?thesis
      proof (cases "types (of_item o1)")
        case None
        then show ?thesis using stay \<open>\<not> (player_of e mk g = None \<or> _)\<close> True by (simp add: playerCancelMarketOffer_def t o1)
      next
        case (Some it)
        have "\<exists>ok m. deliver e g it (of_item o1) (of_tier o1) (of_amount o1) mk = Some (ok, m)"
          using add_items_returns [of mk g "mt_stackSize it" e it "of_item o1" "of_tier o1" "of_amount o1"]
            types_size [OF assms(3) Some] tr by (auto simp: deliver_def)
        then obtain ok m where d: "deliver e g it (of_item o1) (of_tier o1) (of_amount o1) mk = Some (ok, m)" by blast
        then have sb: "same_books mk m" by (rule deliver_same)
        then have m: "market_ok m" "x \<in> set (mk_offers m)" using same_books_ok assms(1) x(1) by (auto simp: same_books_def)
        obtain mk' where v: "moveOfferToHistory e (of_id x) OFFERSTATE_CANCELLED m = (True, mk')" "market_ok mk'"
            "mk_traders mk' = mk_traders m" "held_money mk' + escrow x = held_money m"
          using move_settles [OF m] by blast
        have "playerCancelMarketOffer types e g ts c mk = Some mk'"
          using \<open>\<not> (player_of e mk g = None \<or> _)\<close> True v(1) d Some by (simp add: playerCancelMarketOffer_def t o1 x(2))
        moreover have "settles 0 mk mk'"
          using v same_books_money [OF sb] same_keys [OF sb] owned_cong [OF v(3)] True x(3)
          by (simp add: settles_def total_money_def escrow_def)
        ultimately show ?thesis by blast
      qed
    qed
  qed
qed


text \<open>A trader pays from the account and the inventory.\<close>

lemma wealth_pays: "market_ok mk \<Longrightarrow> total_money mk < 2 ^ 64 \<Longrightarrow> trader_of mk g = Some t \<Longrightarrow> wealth t < 2 ^ 64"
  using wealth_le [of mk g t] by (simp add: total_money_def)

lemma same_purse: "tr_bank t' = tr_bank t \<Longrightarrow> tr_slots t' = tr_slots t \<Longrightarrow> wealth t' = wealth t"
  by (simp add: wealth_def tr_money_def)

lemma change_purse:
  assumes "market_ok mk" "trader_of mk g = Some t" "purse_ok (tr_slots (f t))" "wealth (f t) + n = wealth t"
  shows "market_ok (change_trader g f mk) \<and> owned_money (change_trader g f mk) + n = owned_money mk"
  using change_ok [OF assms(1,2), of f] change_owned [OF assms(1,2), of f] assms(3,4) by simp

lemma paying_settles:
  assumes "market_ok mk" "total_money mk < 2 ^ 64" "trader_of mk g = Some t"
    and "tr_bank t' = tr_bank t" "tr_slots t' = tr_slots t" "n \<le> wealth t" "f t = pay_trader True n t'"
  shows "market_ok (change_trader g f mk) \<and> owned_money (change_trader g f mk) + n = owned_money mk"
proof (rule change_purse [OF assms(1,3)])
  have w: "wealth t' = wealth t" using assms(4,5) by (rule same_purse)
  have "purse_ok (tr_slots t')" using trader_purse [OF assms(1,3)] assms(5) by simp
  moreover have "wealth t' < 2 ^ 64" using wealth_pays [OF assms(1-3)] w by simp
  moreover have "n \<le> tr_money t' + (if True then tr_bank t' else 0)" using assms(6) w by (simp add: wealth_def)
  ultimately have "purse_ok (tr_slots (pay_trader True n t')) \<and> wealth (pay_trader True n t') + n = wealth t'"
    by (rule pay_trader_spec)
  then show "purse_ok (tr_slots (f t))" "wealth (f t) + n = wealth t" using w assms(7) by simp_all
qed

lemma creation_settles:
  assumes "market_ok m" "owned_money m + (fee + (if s then 0 else price * amount)) = owned_money mk" "held_money m = held_money mk"
    and "map fst (mk_traders m) = map fst (mk_traders mk)"
    and "price \<le> 999999999999" "amount \<le> 64000" "g \<in> set (map fst (mk_traders mk))"
  shows "settles fee mk (createOffer e g s x amount price te an m)"
proof -
  have "market_ok (createOffer e g s x amount price te an m)" using assms by (intro created_ok) simp_all
  moreover have "owned_money (createOffer e g s x amount price te an m) = owned_money m" by (rule owned_cong) simp
  ultimately show ?thesis using assms(2-4) by (simp add: settles_def total_money_def created_held)
qed

lemma trader_listed: "market_ok mk \<Longrightarrow> trader_of mk g = Some t \<Longrightarrow> g \<in> set (map fst (mk_traders mk))"
  using trader_of_map [of mk g] by (force dest: map_of_SomeD)

lemma coins_books [simp]:
  "mk_traders (remove_coins_from a n mk) = mk_traders mk" "mk_offers (remove_coins_from a n mk) = mk_offers mk"
  "mk_next (remove_coins_from a n mk) = mk_next mk" "held_money (remove_coins_from a n mk) = held_money mk"
  by (simp_all add: remove_coins_from_def change_coins_def held_money_def)

lemma create_guard:
  assumes "checkCanInitCreateMarketOffer e g ty it amount price mk"
  shows "price \<le> 999999999999 \<and> amount \<le> 64000"
  using assms by (auto simp: checkCanInitCreateMarketOffer_def amount_refused_def split: option.splits)

lemma fee_bound: "market_fee price amount \<le> 100000"
  by (simp add: market_fee_def)


lemma removal_settles:
  assumes "market_ok mk" "trader_of mk g = Some t" "removeOfferItems e g it i n te t = (ok, t')"
  shows "settles 0 mk (change_trader g (\<lambda>_. t') mk)"
proof -
  have p: "tr_bank t' = tr_bank t \<and> tr_slots t' = tr_slots t" using assms(3) by (rule removal_purse)
  then have "purse_ok (tr_slots t')" "wealth t' + 0 = wealth t"
    using trader_purse [OF assms(1,2)] same_purse [of t' t] by simp_all
  from change_purse [OF assms(1,2), of "\<lambda>_. t'", OF this] show ?thesis by (simp add: settles_def total_money_def)
qed

lemma offer_settles:
  assumes "market_ok mk" "total_money mk < 2 ^ 64" "trader_of mk g = Some t"
    and "checkCanInitCreateMarketOffer e g ty it amount price mk"
    and m: "mk_traders m = mk_traders mk" "mk_offers m = mk_offers mk" "mk_next m = mk_next mk"
    and t': "tr_bank t' = tr_bank t" "tr_slots t' = tr_slots t"
    and "market_fee price amount + (if s then 0 else price * amount) \<le> wealth t"
    and "f t = pay_trader True (market_fee price amount + (if s then 0 else price * amount)) t'"
  shows "\<exists>mk' fee. Some (createOffer e g s i amount price te an (change_trader g f m)) = Some mk' \<and> settles fee mk mk' \<and> fee \<le> 100000"
proof -
  have k: "market_ok m" "owned_money m = owned_money mk" "held_money m = held_money mk" "trader_of m g = Some t"
    using ok_cong [OF assms(1) m] owned_cong [OF m(1)] m(1,2) assms(3) by (auto simp: held_money_def trader_of_def)
  have "total_money m < 2 ^ 64" using k(2,3) assms(2) by (simp add: total_money_def)
  from paying_settles [OF k(1) this k(4) t' assms(10), of f, OF assms(11)]
  have p: "market_ok (change_trader g f m)"
      "owned_money (change_trader g f m) + (market_fee price amount + (if s then 0 else price * amount)) = owned_money mk"
    using k(2) by simp_all
  have "settles (market_fee price amount) mk (createOffer e g s i amount price te an (change_trader g f m))"
    by (rule creation_settles [OF p])
      (use k(3) m(1) create_guard [OF assms(4)] trader_listed [OF assms(1,3)] in simp_all)
  then show ?thesis using fee_bound [of price amount] by blast
qed

lemma create_settles:
  assumes "market_ok mk" "total_money mk < 2 ^ 64" "player_of e mk g \<noteq> None"
  shows "\<exists>mk' fee. playerCreateMarketOffer types e g ty i amount price te an mk = Some mk' \<and> settles fee mk mk' \<and> fee \<le> 100000"
proof -
  let ?stays = "\<lambda>r. \<exists>mk' fee. r = Some mk' \<and> settles fee mk mk' \<and> fee \<le> 100000"
  obtain t where t: "player_of e mk g = Some t" using assms(3) by blast
  have tr: "trader_of mk g = Some t" using t by (simp add: player_of_def split: if_splits)
  have stay: "?stays (Some mk)" using settles_refl [OF assms(1)] by (intro exI [of _ mk] exI [of _ 0]) simp
  have w: "(tr_bank t + tr_money t) mod 18446744073709551616 = wealth t"
    using wealth_pays [OF assms(1,2) tr] by (simp add: wealth_def)
  show ?thesis
  proof (cases "checkCanInitCreateMarketOffer e g ty (types i) amount price mk")
    case False
    then show ?thesis using stay by (simp add: playerCreateMarketOffer_def t)
  next
    case ok: True
    note new = offer_settles [where mk = mk, OF assms(1,2) tr, OF ok]
    note unfold = playerCreateMarketOffer_def t w Let_def
    have buy: "?stays (Some (createOffer e g False i amount price te an
        (change_trader g (pay_trader True (price * amount + market_fee price amount)) mk)))"
      if "price * amount + market_fee price amount \<le> wealth t"
      using new [OF refl refl refl refl refl, of False "pay_trader True (price * amount + market_fee price amount)"] that
      by (simp add: add.commute)
    obtain taken t' where r: "removeOfferItems e g (the (types i)) i amount te t = (taken, t')"
      by (cases "removeOfferItems e g (the (types i)) i amount te t")
    have p: "tr_bank t' = tr_bank t" "tr_slots t' = tr_slots t" using removal_purse [OF r] by auto
    have lost: "?stays (Some (change_trader g (\<lambda>_. t') mk))"
      using removal_settles [OF assms(1) tr r] by (intro exI [of _ "change_trader g (\<lambda>_. t') mk"] exI [of _ 0]) simp
    have sell: "?stays (Some (createOffer e g True i amount price te an (change_trader g (\<lambda>_. pay_trader True (market_fee price amount) t') mk)))"
      "?stays (Some (createOffer e g True i amount price te an
        (change_trader g (pay_trader True (market_fee price amount)) (remove_coins_from (tr_account t) amount mk))))"
      if "market_fee price amount \<le> wealth t"
      using new [OF refl refl refl p, of True "\<lambda>_. pay_trader True (market_fee price amount) t'"] that
        new [of "remove_coins_from (tr_account t) amount mk" t True "pay_trader True (market_fee price amount)"]
      by simp_all
    show ?thesis
    proof (cases "ty = MARKETACTION_SELL")
      case True
      then show ?thesis
        using stay ok sell lost by (cases taken; cases "i = ITEM_STORE_COIN"; cases "market_fee price amount \<le> wealth t") (simp_all add: unfold r)
    next
      case False
      then show ?thesis using stay ok buy by (cases "price * amount + market_fee price amount \<le> wealth t") (simp_all add: unfold)
    qed
  qed
qed


section \<open>Accepting an offer\<close>

lemma accepted_money:
  assumes "market_ok m" "x \<in> set (mk_offers m)" "of_id o1 = of_id x" "of_amount o1 = of_amount x" "n \<le> of_amount x"
  shows "market_ok (offer_accepted e g o1 n m) \<and> mk_traders (offer_accepted e g o1 n m) = mk_traders m
    \<and> held_money (offer_accepted e g o1 n m) + (if of_sale x then 0 else of_price x * n) = held_money m"
proof -
  let ?m = "appendHistory (of_player o1) (of_sale o1) (of_item o1) n (of_price o1) (me_now e) (of_tier o1) OFFERSTATE_ACCEPTED
    (appendHistory g (\<not> of_sale o1) (of_item o1) n (of_price o1) (me_now e) (of_tier o1) OFFERSTATE_ACCEPTEDEX m)"
  have h: "market_ok ?m" by (rule ok_cong [OF assms(1)]) simp_all
  have x: "x \<in> set (mk_offers ?m)" using assms(2) by simp
  have held: "held_money ?m = held_money m" by (simp add: held_money_def)
  show ?thesis
  proof (cases "of_amount o1 = n")
    case True
    then have "offer_accepted e g o1 n m = deleteOffer (of_id x) ?m" using assms(3) by (simp add: offer_accepted_def Let_def)
    moreover have "n = of_amount x" using True assms(4) by simp
    ultimately show ?thesis using deleted_ok [OF h] deleted_money [OF h x] held by (cases "of_sale x") (simp_all add: escrow_def)
  next
    case False
    then have "offer_accepted e g o1 n m = acceptOffer (of_id x) n ?m" using assms(3) by (simp add: offer_accepted_def Let_def)
    then show ?thesis using shrunk_ok [OF h] shrunk_money [OF h x assms(5)] held by (cases "of_sale x") simp_all
  qed
qed

text \<open>The answer to a buying offer: the seller of the goods is credited with what the offer held.\<close>

lemma sold_settles:
  assumes "market_ok m" "owned_money m + held_money m < 2 ^ 64" "works e" "mt_stackSize it > 0"
    and "x \<in> set (mk_offers m)" "\<not> of_sale x" "of_id o1 = of_id x" "of_amount o1 = of_amount x"
    and "n \<le> of_amount x" "trader_of m g = Some t" "trader_of m b \<noteq> None"
  shows "\<exists>mk'. map_option (finish_accept e g o1 n)
      (deliver e b it i te n (change_trader g (credit_bank (of_price x * n)) m)) = Some mk' \<and> settles 0 m mk'"
proof -
  let ?c = "change_trader g (credit_bank (of_price x * n)) m"
  have "of_price x * n \<le> escrow x" using assms(6,9) by (simp add: escrow_def)
  then have "owned_money m + of_price x * n < 2 ^ 64" using held_le [OF assms(5)] assms(2) by simp
  then have c: "market_ok ?c" "owned_money ?c = owned_money m + of_price x * n" using credit_ok [OF assms(1,10)] by auto
  have "trader_of ?c b \<noteq> None" using assms(11) by (auto simp: change_trader_of)
  then obtain u where "trader_of ?c b = Some u" by blast
  from deliver_works [OF assms(3) this assms(4)] obtain d where d: "deliver e b it i te n ?c = Some (True, d)" by blast
  have sb: "same_books ?c d" using d by (rule deliver_same)
  have "market_ok d" "x \<in> set (mk_offers d)" using same_books_ok [OF sb c(1)] sb assms(5) by (auto simp: same_books_def)
  from accepted_money [OF this assms(7-9), of e g] have a: "market_ok (offer_accepted e g o1 n d)"
      "mk_traders (offer_accepted e g o1 n d) = mk_traders d" "held_money (offer_accepted e g o1 n d) + of_price x * n = held_money d"
    using assms(6) by auto
  have "settles 0 m (offer_accepted e g o1 n d)"
    using a c(2) same_books_money [OF sb] same_keys [OF sb] owned_cong [OF a(2)] by (simp add: settles_def total_money_def)
  then show ?thesis by (simp add: d finish_accept_def)
qed

text \<open>The answer to a selling offer: the price goes from the buyer to the one who made the offer.\<close>

lemma settle_wealth:
  assumes "purse_ok (tr_slots t)" "wealth t < 2 ^ 64" "n \<le> wealth t"
  shows "let t' = (if n \<le> tr_bank t then t\<lparr>tr_bank := tr_bank t - n\<rparr> else pay_trader False (n - tr_bank t) (t\<lparr>tr_bank := 0\<rparr>)) in
    purse_ok (tr_slots t') \<and> wealth t' + n = wealth t"
proof (cases "n \<le> tr_bank t")
  case True
  then show ?thesis using assms(1) by (simp add: wealth_def tr_money_def)
next
  case False
  let ?t = "t\<lparr>tr_bank := 0\<rparr>"
  have w: "wealth ?t + tr_bank t = wealth t" by (simp add: wealth_def tr_money_def)
  have "n - tr_bank t \<le> tr_money ?t + (if False then tr_bank ?t else 0)"
    using assms(3) by (simp add: wealth_def tr_money_def)
  moreover have "wealth ?t < 2 ^ 64" using w assms(2) by linarith
  ultimately have "purse_ok (tr_slots (pay_trader False (n - tr_bank t) ?t))
      \<and> wealth (pay_trader False (n - tr_bank t) ?t) + (n - tr_bank t) = wealth ?t"
    using assms(1) by (intro pay_trader_spec) simp_all
  moreover have "wealth (pay_trader False (n - tr_bank t) ?t) + n = wealth t"
    using calculation w False by linarith
  ultimately show ?thesis using False by (simp add: Let_def)
qed

lemma bought:
  assumes "market_ok mk" "total_money mk < 2 ^ 64" "works e" "mt_stackSize it > 0"
    and "trader_of mk g = Some t" "trader_of mk (of_player o1) = Some b" "price \<le> wealth t"
  obtains f d v where "market_ok (change_trader g f mk)" "owned_money (change_trader g f mk) + price = owned_money mk"
    and "\<And>t. tr_stash (f t) = tr_stash t \<and> tr_locker (f t) = tr_locker t \<and> tr_inbox (f t) = tr_inbox t"
    and "deliver e g it (of_item o1) (of_tier o1) n (change_trader g f mk) = Some (True, d)" "trader_of d (of_player o1) = Some v"
    and "buy_from_offer e g t it o1 n price mk = Some (offer_accepted e g o1 n (change_trader (of_player o1) (credit_bank price) d))"
proof -
  define f where "f = (if price \<le> tr_bank t then (\<lambda>t. t\<lparr>tr_bank := tr_bank t - price\<rparr>)
    else (\<lambda>t. pay_trader False (price - tr_bank t) (t\<lparr>tr_bank := 0\<rparr>)))"
  let ?p = "change_trader g f mk"
  have "purse_ok (tr_slots (f t)) \<and> wealth (f t) + price = wealth t"
    using settle_wealth [OF trader_purse [OF assms(1,5)] wealth_pays [OF assms(1,2,5)] assms(7)] unfolding f_def
    by (simp add: Let_def split: if_splits)
  then have p: "market_ok ?p" "owned_money ?p + price = owned_money mk" using change_purse [OF assms(1,5), of f price] by auto
  have goods: "tr_stash (f t) = tr_stash t \<and> tr_locker (f t) = tr_locker t \<and> tr_inbox (f t) = tr_inbox t" for t
    by (simp add: f_def pay_trader_def split: prod.split)
  have "trader_of ?p g = Some (f t)" using assms(5) by (simp add: change_trader_of)
  from deliver_works [OF assms(3) this assms(4)]
  obtain d where d: "deliver e g it (of_item o1) (of_tier o1) n ?p = Some (True, d)" by blast
  have "trader_of ?p (of_player o1) \<noteq> None" using assms(6) by (auto simp: change_trader_of)
  then obtain v where v: "trader_of d (of_player o1) = Some v" using same_books_trader [OF deliver_same [OF d]] by blast
  have "buy_from_offer e g t it o1 n price mk = Some (offer_accepted e g o1 n (change_trader (of_player o1) (credit_bank price) d))"
    using assms(7) wealth_pays [OF assms(1,2,5)] d
    by (simp add: buy_from_offer_def wealth_def f_def [symmetric] finish_accept_def)
  then show ?thesis by (rule that [OF p goods d v])
qed

lemma bought_settles:
  assumes "market_ok mk" "total_money mk < 2 ^ 64" "works e" "mt_stackSize it > 0"
    and "x \<in> set (mk_offers mk)" "of_sale x" "of_id o1 = of_id x" "of_amount o1 = of_amount x"
    and "n \<le> of_amount x" "trader_of mk g = Some t" "trader_of mk (of_player o1) = Some b"
  shows "\<exists>mk'. buy_from_offer e g t it o1 n price mk = Some mk' \<and> settles 0 mk mk'"
proof (cases "price \<le> wealth t")
  case False
  then show ?thesis using settles_refl [OF assms(1)] wealth_pays [OF assms(1,2,10)]
    by (simp add: buy_from_offer_def wealth_def)
next
  case True
  obtain f d v where p: "market_ok (change_trader g f mk)" "owned_money (change_trader g f mk) + price = owned_money mk"
      and d: "deliver e g it (of_item o1) (of_tier o1) n (change_trader g f mk) = Some (True, d)" "trader_of d (of_player o1) = Some v"
      and r: "buy_from_offer e g t it o1 n price mk = Some (offer_accepted e g o1 n (change_trader (of_player o1) (credit_bank price) d))"
    using bought [where n = n, OF assms(1-4,10,11) True] by metis
  let ?c = "change_trader (of_player o1) (credit_bank price) d"
  have sb: "same_books (change_trader g f mk) d" using d(1) by (rule deliver_same)
  have "owned_money d + price < 2 ^ 64" using same_books_money [OF sb] p(2) assms(2) by (simp add: total_money_def)
  from credit_ok [OF same_books_ok [OF sb p(1)] d(2) this]
  have c: "market_ok ?c" "owned_money ?c = owned_money d + price" by auto
  have "x \<in> set (mk_offers ?c)" using sb assms(5) by (simp add: same_books_def)
  from accepted_money [OF c(1) this assms(7-9), of e g] have a: "market_ok (offer_accepted e g o1 n ?c)"
      "mk_traders (offer_accepted e g o1 n ?c) = mk_traders ?c" "held_money (offer_accepted e g o1 n ?c) = held_money ?c"
    using assms(6) by auto
  have "settles 0 mk (offer_accepted e g o1 n ?c)"
    using a c(2) p(2) same_books_money [OF sb] same_keys [OF sb] owned_cong [OF a(2)] by (simp add: settles_def total_money_def)
  then show ?thesis using r by blast
qed

lemma removal_known:
  "trader_of mk g = Some t \<Longrightarrow> trader_of (change_trader g f mk) b = None \<longleftrightarrow> trader_of mk b = None"
  by (auto simp: change_trader_of)

lemma sell_settles:
  assumes "market_ok mk" "total_money mk < 2 ^ 64" "works e" "mt_stackSize it > 0"
    and x: "x \<in> set (mk_offers mk)" "\<not> of_sale x" "of_id o1 = of_id x" "of_amount o1 = of_amount x" "of_player o1 = of_player x"
    and n: "n \<le> of_amount x" and tr: "trader_of mk g = Some t"
  shows "\<exists>mk'. sell_to_offer e g t it o1 n (of_price x * n) mk = Some mk' \<and> settles 0 mk mk'"
proof -
  let ?rest = "\<lambda>k. map_option (finish_accept e g o1 n)
    (deliver e (of_player o1) it (of_item o1) (of_tier o1) n (change_trader g (credit_bank (of_price x * n)) k))"
  have rest: "\<exists>mk'. ?rest k = Some mk' \<and> settles 0 mk mk'"
    if k: "settles 0 mk k" "mk_offers k = mk_offers mk" "\<And>b. trader_of k b = None \<longleftrightarrow> trader_of mk b = None" for k
  proof -
    obtain u where u: "trader_of k g = Some u" using k(3) [of g] tr by auto
    have "owned_money k + held_money k < 2 ^ 64" using k(1) assms(2) by (simp add: settles_def total_money_def)
    moreover have "trader_of k (of_player o1) \<noteq> None" using k(3) offer_bounds(3) [OF assms(1) x(1)] x(5) by auto
    ultimately have "\<exists>mk'. ?rest k = Some mk' \<and> settles 0 k mk'"
      using k x(1) by (intro sold_settles [OF _ _ assms(3,4) _ x(2-4) n u]) (simp_all add: settles_def)
    then show ?thesis using k(1) by (auto simp: settles_def)
  qed
  have stay: "settles 0 mk mk" by (rule settles_refl) (rule assms(1))
  show ?thesis
  proof (cases "of_item o1 = ITEM_STORE_COIN")
    case True
    have "same_books mk (remove_coins_from (tr_account t) n mk)" unfolding remove_coins_from_def by (rule change_coins_same)
    from settles_same [OF assms(1) this]
    show ?thesis using True stay rest [of "remove_coins_from (tr_account t) n mk"]
      by (cases "n > coins_of mk (tr_account t)") (simp_all add: sell_to_offer_def trader_of_def)
  next
    case False
    obtain ok t' where r: "removeOfferItems e g it (of_item o1) n (of_tier o1) t = (ok, t')"
      by (cases "removeOfferItems e g it (of_item o1) n (of_tier o1) t")
    from removal_settles [OF assms(1) tr r] show ?thesis
      using False rest [of "change_trader g (\<lambda>_. t') mk"] removal_known [OF tr]
      by (cases ok) (simp_all add: sell_to_offer_def r)
  qed
qed

lemma accept_settles:
  assumes "market_ok mk" "total_money mk < 2 ^ 64" "types_ok types" "works e"
  shows "\<exists>mk'. playerAcceptMarketOffer types e g ts c n mk = Some mk' \<and> settles 0 mk mk'"
proof (cases "player_of e mk g = None \<or> getOfferByCounter e ts c mk = None")
  case True
  then show ?thesis using settles_refl [OF assms(1)] by (auto simp: playerAcceptMarketOffer_def split: option.splits)
next
  case False
  then obtain t o1 where t: "player_of e mk g = Some t" and o1: "getOfferByCounter e ts c mk = Some o1" by auto
  have tr: "trader_of mk g = Some t" using t by (simp add: player_of_def split: if_splits)
  obtain x where x: "x \<in> set (mk_offers mk)" "of_id o1 = of_id x" "of_sale o1 = of_sale x" "of_price o1 = of_price x"
      "of_amount o1 = of_amount x" "of_player o1 = of_player x" using found_offer [OF o1] by blast
  let ?goes = "\<lambda>r. \<exists>mk'. r = Some mk' \<and> settles 0 mk mk'"
  have stay: "?goes (Some mk)" using settles_refl [OF assms(1)] by simp
  have rest: "?goes (if amount_refused it n \<or> n > of_amount o1 then Some mk
      else (let totalPrice = (of_price o1 * n) mod 2 ^ 64 in
        if (\<not> of_sale o1 \<and> \<not> me_hasLocker e g) \<or> trader_of mk (of_player o1) = None \<or> g = of_player o1 then Some mk
        else if \<not> of_sale o1 then sell_to_offer e g t it o1 n totalPrice mk
        else buy_from_offer e g t it o1 n totalPrice mk))" if "types (of_item o1) = Some it" for it
  proof (cases "n \<le> of_amount x")
    case True
    have s: "mt_stackSize it > 0" by (rule types_size [OF assms(3) that])
    have "(of_price x * n) mod 2 ^ 64 = of_price x * n"
      using small_product [of "of_price x" n] offer_bounds(1,2) [OF assms(1) x(1)] True by simp
    moreover have "?goes (sell_to_offer e g t it o1 n (of_price x * n) mk)" if "\<not> of_sale x"
      by (rule sell_settles [OF assms(1,2,4) s x(1) that x(2,5,6) True tr])
    moreover have "?goes (buy_from_offer e g t it o1 n p mk)" if "of_sale x" for p
      using bought_settles [OF assms(1,2,4) s x(1) that x(2,5) True tr] offer_bounds(3) [OF assms(1) x(1)] x(6) by auto
    ultimately show ?thesis using stay x(3-6) by (simp add: Let_def)
  next
    case False
    then show ?thesis using stay x(5) by simp
  qed
  show ?thesis
    using stay rest by (cases "me_inMarket e g \<and> \<not> me_exhausted e g"; cases "types (of_item o1)")
      (simp_all add: playerAcceptMarketOffer_def t o1 del: de_Morgan_conj)
qed

section \<open>Expiry\<close>

lemma move_offers:
  "moveOfferToHistory e i st mk = (True, mk') \<Longrightarrow> mk_offers mk' = filter (\<lambda>o1. of_id o1 \<noteq> i) (mk_offers mk)"
  by (auto simp: moveOfferToHistory_def deleteOffer_def split: option.splits)

lemma expire_settles:
  assumes "market_ok mk" "total_money mk < 2 ^ 64" "x \<in> set (mk_offers mk)"
  shows "\<exists>mk'. expire_offer types e x mk = Some mk' \<and> settles 0 mk mk'
    \<and> mk_offers mk' = filter (\<lambda>o1. of_id o1 \<noteq> of_id x) (mk_offers mk)"
proof -
  obtain m where m: "moveOfferToHistory e (of_id x) OFFERSTATE_EXPIRED mk = (True, m)" "market_ok m"
      "mk_traders m = mk_traders mk" "held_money m + escrow x = held_money mk"
    using move_settles [OF assms(1,3), of e OFFERSTATE_EXPIRED] by blast
  note os = move_offers [OF m(1)]
  have owned: "owned_money m = owned_money mk" using m(3) by (rule owned_cong)
  show ?thesis
  proof (cases "of_sale x")
    case False
    let ?n = "of_price x * of_amount x"
    have n: "?n mod 18446744073709551616 = ?n"
      using small_product [of "of_price x" "of_amount x"] offer_bounds(1,2) [OF assms(1,3)] by simp
    have esc: "escrow x = ?n" using False by (simp add: escrow_def)
    obtain t where t: "trader_of m (of_player x) = Some t"
      using offer_bounds(3) [OF assms(1,3)] trader_of_cong [OF m(3)] by auto
    have "owned_money m + ?n < 2 ^ 64" using m(4) esc owned assms(2) by (simp add: total_money_def)
    from credit_ok [OF m(2) t this] have "settles 0 mk (change_trader (of_player x) (credit_bank ?n) m)"
      using m(3,4) esc owned by (simp add: settles_def total_money_def)
    then show ?thesis using False m(1) n os by (simp add: expire_offer_def)
  next
    case True
    have stay: "settles 0 mk m" using m(2-4) owned True by (simp add: settles_def total_money_def escrow_def)
    show ?thesis
    proof (cases "types (of_item x) = None \<or> trader_of m (of_player x) = None")
      case True
      then show ?thesis using \<open>of_sale x\<close> stay m(1) os by (auto simp: expire_offer_def split: option.splits)
    next
      case False
      then obtain it where it: "types (of_item x) = Some it" by auto
      obtain ok d where d: "add_items e (of_player x) it 100 (of_item x) (getTierFromDatabaseTable e (of_tier x)) (of_amount x) m = Some (ok, d)"
          "same_books m d"
        using add_items_returns [of m "of_player x" 100] False by (metis zero_less_numeral)
      have "settles 0 m d" using m(2) d(2) by (rule settles_same)
      then have "settles 0 mk d" using stay by (simp add: settles_def)
      then show ?thesis using True False m(1) it d os by (auto simp: expire_offer_def same_books_def)
    qed
  qed
qed

lemma process_settles:
  assumes "market_ok mk" "total_money mk < 2 ^ 64" "set rows \<subseteq> set (mk_offers mk)" "distinct (map of_id rows)"
  shows "\<exists>mk'. processExpiredOffers types e rows mk = Some mk' \<and> settles 0 mk mk'"
  using assms
proof (induction rows arbitrary: mk)
  case Nil
  then show ?case using settles_refl by simp
next
  case (Cons x rows)
  have "x \<in> set (mk_offers mk)" using Cons.prems(3) by simp
  from expire_settles [OF Cons.prems(1,2) this] obtain m where m: "expire_offer types e x mk = Some m" "settles 0 mk m"
      "mk_offers m = filter (\<lambda>o1. of_id o1 \<noteq> of_id x) (mk_offers mk)" by blast
  have "set rows \<subseteq> set (mk_offers m)" using Cons.prems(3,4) m(3) by (auto simp: image_iff)
  then have "\<exists>mk'. processExpiredOffers types e rows m = Some mk' \<and> settles 0 m mk'"
    using m(2) Cons.prems(2,4) by (intro Cons.IH) (simp_all add: settles_def)
  then show ?case using m(1,2) by (auto simp: settles_def)
qed

lemma expiry_settles:
  assumes "market_ok mk" "total_money mk < 2 ^ 64"
  shows "\<exists>mk'. checkExpiredOffers types e mk = Some mk' \<and> settles 0 mk mk'"
  unfolding checkExpiredOffers_def using assms
  by (intro process_settles) (auto simp: expired_offers_def market_ok_def distinct_map_filter)

section \<open>Any history of the market\<close>

fun event_ok :: "market \<Rightarrow> market_env \<times> market_event \<Rightarrow> bool" where
  "event_ok mk (e, CreateOffer g _ _ _ _ _ _) \<longleftrightarrow> works e \<and> player_of e mk g \<noteq> None"
| "event_ok mk (e, _) \<longleftrightarrow> works e"

fun creates :: "market_event \<Rightarrow> bool" where
  "creates (CreateOffer _ _ _ _ _ _ _) \<longleftrightarrow> True"
| "creates _ \<longleftrightarrow> False"

lemma step_settles:
  assumes "market_ok mk" "total_money mk < 2 ^ 64" "types_ok types" "event_ok mk (e, ev)"
  shows "\<exists>mk' fee. market_step types e ev mk = Some mk' \<and> settles fee mk mk' \<and> fee \<le> (if creates ev then 100000 else 0)"
proof (cases ev)
  case (CreateOffer g ty i n p te an)
  then show ?thesis using create_settles [OF assms(1,2), of e g types ty i n p te an] assms(4) by (simp add: market_step_def)
next
  case (CancelOffer g ts c)
  then show ?thesis using cancel_settles [OF assms(1-3), of e g ts c] by (simp add: market_step_def)
next
  case (AcceptOffer g ts c n)
  then show ?thesis using accept_settles [OF assms(1-3), of e g ts c n] assms(4) by (simp add: market_step_def)
next
  case CheckExpired
  then show ?thesis using expiry_settles [OF assms(1,2), of types e] by (simp add: market_step_def)
qed

lemma event_ok_keys:
  assumes "market_ok mk" "settles fee mk mk'" "event_ok mk x"
  shows "event_ok mk' x"
proof -
  have known: "trader_of m g = None \<longleftrightarrow> g \<notin> set (map fst (mk_traders m))" if "market_ok m" for m g
    using trader_of_map [OF that, of g] by (simp add: map_of_eq_None_iff)
  have "trader_of mk' g = None \<longleftrightarrow> trader_of mk g = None" for g
    using known [OF assms(1)] known [of mk'] assms(2) by (simp only: settles_def)
  then have "player_of e mk' g = None \<longleftrightarrow> player_of e mk g = None" for e g by (simp add: player_of_def)
  then show ?thesis using assms(3) by (cases "(mk, x)" rule: event_ok.cases) simp_all
qed


lemma history_settles:
  assumes "market_ok mk" "total_money mk < 2 ^ 64" "types_ok types" "list_all (event_ok mk) evs"
  shows "\<exists>mk' fees. market_run types evs mk = Some mk' \<and> settles fees mk mk'
    \<and> fees \<le> 100000 * length (filter (creates \<circ> snd) evs)"
  using assms
proof (induction types evs mk rule: market_run.induct)
  case (1 types mk)
  then show ?case using settles_refl [of mk] by (intro exI [of _ mk] exI [of _ 0]) simp
next
  case (2 types e ev evs mk)
  obtain m fee where m: "market_step types e ev mk = Some m" "settles fee mk m" "fee \<le> (if creates ev then 100000 else 0)"
    using step_settles [OF "2.prems"(1-3), of e ev] "2.prems"(4) by auto
  have "list_all (event_ok m) evs"
    using event_ok_keys [OF "2.prems"(1) m(2)] "2.prems"(4) by (auto simp: list_all_iff)
  moreover have "market_ok m" "total_money m < 2 ^ 64" using m(2) "2.prems"(2) by (simp_all add: settles_def)
  ultimately obtain mk' fees where r: "market_run types evs m = Some mk'" "settles fees m mk'"
      "fees \<le> 100000 * length (filter (creates \<circ> snd) evs)"
    using "2.IH" [OF m(1) _ _ "2.prems"(3)] by blast
  have "settles (fee + fees) mk mk'" using m(2) r(2) by (simp add: settles_def)
  moreover have "fee + fees \<le> 100000 * length (filter (creates \<circ> snd) ((e, ev) # evs))"
    using m(3) r(3) by (auto split: if_splits)
  moreover have "market_run types ((e, ev) # evs) mk = Some mk'" using m(1) r(1) by simp
  ultimately show ?case by blast
qed

text \<open>A seller and a buyer: thirty pieces of an item in a locker, a purse of coins, and what they agree on.\<close>

definition market_env0 :: market_env where
  "market_env0 = \<lparr>me_online = (\<lambda>_. True), me_inMarket = (\<lambda>_. True), me_exhausted = (\<lambda>_. False), me_premium = (\<lambda>_. True),
     me_hasLocker = (\<lambda>_. True), me_removable = (\<lambda>_ _. True), me_inbox = (\<lambda>_ _. True), me_now = 1000, me_duration = 100,
     me_premiumOnly = False, me_maxOffers = 10, me_maxTier = 10\<rparr>"

definition market_types0 :: "u16 \<Rightarrow> market_type option" where
  "market_types0 i = (if i = 2000 then Some \<lparr>mt_ware = 2000, mt_stackable = True, mt_stackSize = 100\<rparr> else None)"

definition market0 :: market where
  "market0 = \<lparr>mk_traders =
     [(1, \<lparr>tr_account = 1, tr_bank = 30, tr_slots = [], tr_stash = (\<lambda>_. 0), tr_locker = [\<lparr>mi_id = 2000, mi_tier = 0, mi_count = 30\<rparr>], tr_inbox = []\<rparr>),
      (2, \<lparr>tr_account = 2, tr_bank = 50, tr_slots = [Plain \<lparr>stack_uid = 1, stack_id = ITEM_PLATINUM_COIN, stack_count = 9\<rparr>],
           tr_stash = (\<lambda>_. 0), tr_locker = [], tr_inbox = []\<rparr>)],
     mk_coins = [], mk_offers = [], mk_next = 1, mk_history = []\<rparr>"

definition market_events0 :: "market_event list" where
  "market_events0 = [CreateOffer 1 MARKETACTION_SELL 2000 25 40 0 False, AcceptOffer 2 1100 1 20,
     CreateOffer 2 MARKETACTION_BUY 2000 5 10 0 True, CancelOffer 2 1100 2, CheckExpired]"

lemma market0_ok: "market_ok market0" "total_money market0 = 980"
  by (simp_all add: market_ok_def market0_def purse_ok_def total_money_def owned_money_def held_money_def wealth_def
    tr_money_def getMoney_def carried_def getWorth_def coin_ids)

lemma market_events0_ok: "types_ok market_types0" "list_all (event_ok market0) (map (Pair market_env0) market_events0)"
  by (simp_all add: types_ok_def market_types0_def market_events0_def works_def market_env0_def player_of_def trader_of_def market0_def)



text \<open>
  Without the assumption on the inboxes money is made: the seller is credited before the delivery, and when the
  inbox of the buyer refuses the goods the offer keeps what it held.
\<close>

lemma refused_delivery_makes_money:
  "\<exists>mk'. playerAcceptMarketOffer market_types0 (market_env0\<lparr>me_inbox := \<lambda>_ _. False\<rparr>) 1 1100 1 5
      (createOffer market_env0 2 False 2000 5 10 0 False market0) = Some mk'
    \<and> owned_money mk' = owned_money market0 + 50 \<and> held_money mk' = 50"
  by (simp add: playerAcceptMarketOffer_def player_of_def trader_of_def getOfferByCounter_def createOffer_def market0_def market_env0_def
    market_types0_def getTierFromDatabaseTable_def amount_refused_def sell_to_offer_def removeOfferItems_def take_locker_def wanted_def
    ITEM_STORE_COIN_def change_trader_def credit_bank_def deliver_def add_items_def add_stacks.simps [of _ _ _ _ 5] Let_def
    owned_money_def held_money_def escrow_def wealth_def tr_money_def getMoney_def carried_def finish_accept_def)

text \<open>
  Expiry trusts the row a query found earlier: of an offer that was partly sold to in between, the whole amount of
  the row is paid back.
\<close>

lemma stale_row_makes_money:
  assumes "market_ok mk" "x \<in> set (mk_offers mk)" "\<not> of_sale x" "total_money mk < 2 ^ 64" "n \<le> of_amount x"
    and "expire_offer types e x (acceptOffer (of_id x) n mk) = Some mk'"
  shows "total_money mk' = total_money (acceptOffer (of_id x) n mk) + of_price x * n"
proof -
  let ?m = "acceptOffer (of_id x) n mk"
  have ok: "market_ok ?m" using assms(1) by (rule shrunk_ok)
  let ?x = "x\<lparr>of_amount := of_amount x - n\<rparr>"
  have x: "?x \<in> set (mk_offers ?m)" using assms(2) by (force simp: acceptOffer_def)
  obtain m where m: "moveOfferToHistory e (of_id x) OFFERSTATE_EXPIRED ?m = (True, m)" "market_ok m"
      "mk_traders m = mk_traders ?m" "held_money m + escrow ?x = held_money ?m"
    using move_settles [OF ok x, of e OFFERSTATE_EXPIRED] by auto
  have held: "held_money ?m + of_price x * n = held_money mk" using shrunk_money [OF assms(1,2,5)] assms(3) by simp
  let ?n = "of_price x * of_amount x"
  have n: "?n mod 18446744073709551616 = ?n"
    using small_product [of "of_price x" "of_amount x"] offer_bounds(1,2) [OF assms(1,2)] by simp
  obtain t where t: "trader_of m (of_player x) = Some t" using offer_bounds(3) [OF assms(1,2)] trader_of_cong [of m mk] m(3) by auto
  have owned: "owned_money m = owned_money mk" using owned_cong [of m mk] m(3) by simp
  have esc: "escrow x = ?n" "escrow ?x + of_price x * n = ?n"
    using assms(3,5) by (simp_all add: escrow_def diff_mult_distrib2)
  then have "held_money m + ?n = held_money mk" using m(4) held by simp
  moreover from this have "owned_money m + ?n < 2 ^ 64" using owned assms(4) by (simp add: total_money_def)
  ultimately show ?thesis using credit_ok [OF m(2) t, of ?n] assms(3,6) m(1) n owned held owned_cong [of ?m mk]
    by (auto simp: expire_offer_def total_money_def)
qed

end
