(* ===== verification/Market_Goods.thy ===== *)
theory Market_Goods
  imports Market_Money
begin

text \<open>
  The goods of the market.  For a stackable item that is not the coin of the store: the pieces in stashes, lockers
  and inboxes together with those the selling offers hold.  No operation makes more of them.
\<close>

section \<open>Where the goods are\<close>

definition amount_of :: "(market_item \<Rightarrow> bool) \<Rightarrow> market_item list \<Rightarrow> nat" where
  "amount_of want xs = sum_list (map mi_count (filter want xs))"

lemma amount_simps [simp]:
  "amount_of want [] = 0" "amount_of want (x # xs) = (if want x then mi_count x else 0) + amount_of want xs"
  "amount_of want (xs @ ys) = amount_of want xs + amount_of want ys"
  by (simp_all add: amount_of_def)

definition goods_of :: "u16 \<Rightarrow> u16 \<Rightarrow> trader \<Rightarrow> nat" where
  "goods_of i ware t = amount_of (\<lambda>x. mi_id x = i) (tr_locker t) + amount_of (\<lambda>x. mi_id x = i) (tr_inbox t) + tr_stash t ware"

definition offered :: "u16 \<Rightarrow> market_offer \<Rightarrow> nat" where
  "offered i o1 = (if of_sale o1 \<and> of_item o1 = i then of_amount o1 else 0)"

definition owned_goods :: "u16 \<Rightarrow> u16 \<Rightarrow> market \<Rightarrow> nat" where
  "owned_goods i ware mk = sum_list (map (goods_of i ware \<circ> snd) (mk_traders mk))"

definition held_goods :: "u16 \<Rightarrow> market \<Rightarrow> nat" where
  "held_goods i mk = sum_list (map (offered i) (mk_offers mk))"

definition total_goods :: "u16 \<Rightarrow> u16 \<Rightarrow> market \<Rightarrow> nat" where
  "total_goods i ware mk = owned_goods i ware mk + held_goods i mk"

lemma change_goods:
  assumes "market_ok mk" "trader_of mk g = Some t"
  shows "owned_goods i w (change_trader g f mk) + goods_of i w t = owned_goods i w mk + goods_of i w (f t)"
  using change_sum [of "mk_traders mk" g t "goods_of i w" f] assms trader_of_map [OF assms(1), of g]
  by (simp add: owned_goods_def change_trader_def market_ok_def)

lemma less_goods:
  assumes "market_ok mk" "trader_of mk g = Some t" "goods_of i w (f t) \<le> goods_of i w t + n"
  shows "owned_goods i w (change_trader g f mk) \<le> owned_goods i w mk + n"
  using change_goods [OF assms(1,2), of i w f] assms(3) by simp

lemma keep_goods:
  assumes "\<And>t. goods_of i w (f t) = goods_of i w t"
  shows "owned_goods i w (change_trader g f mk) = owned_goods i w mk"
  unfolding owned_goods_def change_trader_def using assms by (auto intro!: arg_cong [of _ _ sum_list])

lemma paid_goods [simp]: "goods_of i w (pay_trader b n t) = goods_of i w t" "goods_of i w (credit_bank n t) = goods_of i w t"
  by (simp_all add: goods_of_def pay_trader_def credit_bank_def split: prod.split)

lemma bank_goods [simp]: "goods_of i w (t\<lparr>tr_bank := n\<rparr>) = goods_of i w t"
  by (simp add: goods_of_def)

lemma goods_cong: "mk_traders mk' = mk_traders mk \<Longrightarrow> owned_goods i w mk' = owned_goods i w mk"
  by (simp add: owned_goods_def)

lemma held_goods_cong: "mk_offers mk' = mk_offers mk \<Longrightarrow> held_goods i mk' = held_goods i mk"
  by (simp add: held_goods_def)

section \<open>Taking goods\<close>

lemma wanted_count [simp]: "wanted i te (x\<lparr>mi_count := n\<rparr>) = wanted i te x"
  by (simp add: wanted_def)

lemma take_stackable_amount:
  "take_stackable (wanted i te) rem r xs = (ok, r', ys) \<Longrightarrow>
    amount_of (\<lambda>x. mi_id x = j) ys \<le> amount_of (\<lambda>x. mi_id x = j) xs \<and>
    (ok \<longrightarrow> amount_of (\<lambda>x. mi_id x = i) ys + r = amount_of (\<lambda>x. mi_id x = i) xs + r' \<and> r' \<le> r)"
proof (induction "wanted i te" rem r xs arbitrary: ok r' ys rule: take_stackable.induct)
  case (2 rem r x xs)
  show ?case
  proof (cases "wanted i te x")
    case False
    then show ?thesis using "2.hyps"(1) "2.prems" by (auto split: prod.splits)
  next
    case True
    then have id: "mi_id x = i" by (simp add: wanted_def)
    show ?thesis
    proof (cases "rem x \<and> r - min r (mi_count x) \<noteq> 0")
      case False
      then show ?thesis using "2.prems" True id by (auto simp: Let_def split: if_splits)
    next
      case again: True
      obtain ok' r'' zs where rec: "take_stackable (wanted i te) rem (r - min r (mi_count x)) xs = (ok', r'', zs)"
        by (cases "take_stackable (wanted i te) rem (r - min r (mi_count x)) xs")
      have "mi_count x < r" using again by (simp add: min_def split: if_splits)
      then show ?thesis
        using "2.hyps"(2) [of "min r (mi_count x)" "r - min r (mi_count x)" _ ok' r'' zs] True again "2.prems" rec id
        by (auto simp: Let_def)
    qed
  qed
qed simp

lemma take_single_amount:
  "take_single want rem n c r xs = (ok, r', ys) \<Longrightarrow> amount_of (\<lambda>x. mi_id x = j) ys \<le> amount_of (\<lambda>x. mi_id x = j) xs"
  by (induction want rem n c r xs arbitrary: ok r' ys rule: take_single.induct) (fastforce split: if_splits prod.splits)+

lemma locker_goods:
  assumes "take_locker it (wanted k te) rem n r t = (ok, r', t')"
  shows "goods_of i w t' \<le> goods_of i w t"
    and "ok \<Longrightarrow> mt_stackable it \<Longrightarrow> r' = 0 \<Longrightarrow> goods_of k w t' + r = goods_of k w t"
proof -
  obtain ok' r'' ys where l: "(if mt_stackable it then take_stackable (wanted k te) rem r (tr_locker t)
      else take_single (wanted k te) rem n 0 r (tr_locker t)) = (ok', r'', ys)" by (meson prod_cases3)
  have le: "amount_of (\<lambda>x. mi_id x = i) ys \<le> amount_of (\<lambda>x. mi_id x = i) (tr_locker t)" for i
    using l take_stackable_amount [of k te rem r "tr_locker t" ok' r'' ys i]
      take_single_amount [of "wanted k te" rem n 0 r "tr_locker t" ok' r'' ys i] by (simp split: if_splits)
  show "goods_of i w t' \<le> goods_of i w t"
    using assms l le [of i] by (auto simp: take_locker_def goods_of_def split: if_splits)
  show "ok \<Longrightarrow> mt_stackable it \<Longrightarrow> r' = 0 \<Longrightarrow> goods_of k w t' + r = goods_of k w t"
    using assms l take_stackable_amount [of k te rem r "tr_locker t" ok' r'' ys]
    by (auto simp: take_locker_def goods_of_def split: if_splits)
qed

lemma withdraw_goods:
  assumes "withdrawItem v n t = Some t'"
  shows "goods_of i w t' + (if v = w then n else 0) = goods_of i w t"
  using assms by (auto simp: withdrawItem_def goods_of_def split: if_splits)

lemma removal_goods:
  assumes "removeOfferItems e g it k n te t = (ok, t')"
  shows "goods_of i w t' \<le> goods_of i w t"
    and "ok \<Longrightarrow> mt_stackable it \<Longrightarrow> goods_of k (mt_ware it) t' + n = goods_of k (mt_ware it) t"
proof -
  let ?v = "mt_ware it"
  define fromStash where "fromStash = (if tr_stash t ?v > 0
      then (case (if n > tr_stash t ?v then withdrawItem ?v (tr_stash t ?v) t else None) of
          Some t' \<Rightarrow> Some (n - tr_stash t ?v, t') | None \<Rightarrow> map_option (Pair 0) (withdrawItem ?v n t))
      else Some (n, t))"
  have r: "(case fromStash of None \<Rightarrow> (False, t) | Some (r, u) \<Rightarrow>
      (case take_locker it (wanted k te) (me_removable e g) n r u of (ok, r, t) \<Rightarrow> (ok \<and> \<not> r > 0, t))) = (ok, t')"
    using assms by (simp add: removeOfferItems_def Let_def fromStash_def)
  have stash: "goods_of i w u \<le> goods_of i w t \<and> goods_of k ?v u + n = goods_of k ?v t + r"
    if fs: "fromStash = Some (r, u)" for i w r u
  proof -
    consider "tr_stash t ?v = 0" "r = n" "u = t"
      | "n > tr_stash t ?v" "withdrawItem ?v (tr_stash t ?v) t = Some u" "r = n - tr_stash t ?v"
      | "r = 0" "withdrawItem ?v n t = Some u"
      using fs by (cases "tr_stash t ?v = 0"; cases "n > tr_stash t ?v"; cases "withdrawItem ?v (tr_stash t ?v) t")
        (clarsimp simp: fromStash_def)+
    then show ?thesis
    proof cases
      case 2
      then show ?thesis using withdraw_goods [OF 2(2), of i w] withdraw_goods [OF 2(2), of k ?v] by simp
    next
      case 3
      then show ?thesis using withdraw_goods [OF 3(2), of i w] withdraw_goods [OF 3(2), of k ?v] by simp
    qed simp
  qed
  have "goods_of i w t' \<le> goods_of i w t \<and> (ok \<longrightarrow> mt_stackable it \<longrightarrow> goods_of k ?v t' + n = goods_of k ?v t)"
  proof (cases fromStash)
    case None
    then show ?thesis using r by simp
  next
    case (Some ru)
    obtain m u where ru: "ru = (m, u)" by (cases ru)
    obtain ok' r' where l: "take_locker it (wanted k te) (me_removable e g) n m u = (ok', r', t')" "ok = (ok' \<and> r' = 0)"
      using r Some ru by (auto split: prod.splits)
    show ?thesis
      using locker_goods(1) [OF l(1), of i w] locker_goods(2) [OF l(1), of ?v] stash [of m u i w] Some ru l(2) by auto
  qed
  then show "goods_of i w t' \<le> goods_of i w t" "ok \<Longrightarrow> mt_stackable it \<Longrightarrow> goods_of k ?v t' + n = goods_of k ?v t"
    by simp_all
qed

section \<open>Delivering goods\<close>

lemma add_stacks_amount:
  assumes "stackSize > 0" "add_stacks takes k te stackSize n xs = Some (ok, ys)"
  shows "amount_of (\<lambda>x. mi_id x = i) ys \<le> amount_of (\<lambda>x. mi_id x = i) xs + (if k = i then n else 0)"
  using assms(2)
proof (induction n arbitrary: xs rule: less_induct)
  case (less n)
  show ?case
  proof (cases "n = 0 \<or> \<not> takes (fresh_item k 0 (min stackSize n))")
    case True
    then show ?thesis using less.prems by (auto simp: add_stacks.simps [of takes k te stackSize n] Let_def split: if_splits)
  next
    case False
    have "n - min stackSize n < n" using False assms(1) by simp
    moreover have "add_stacks takes k te stackSize (n - min stackSize n) (xs @ [fresh_item k te (min stackSize n)]) = Some (ok, ys)"
      using less.prems False by (simp add: add_stacks.simps [of takes k te stackSize n] Let_def)
    ultimately show ?thesis using less.IH by (fastforce simp: fresh_item_def split: if_splits)
  qed
qed

lemma add_singles_amount:
  "amount_of (\<lambda>x. mi_id x = i) (snd (add_singles takes k te n xs)) \<le> amount_of (\<lambda>x. mi_id x = i) xs + (if k = i then n else 0)"
proof (induction n arbitrary: xs)
  case (Suc n)
  then show ?case using Suc [of "xs @ [fresh_item k te 1]"] by (auto simp: fresh_item_def split: if_splits)
qed simp

lemma add_items_goods:
  assumes "market_ok mk" "stackSize > 0" "add_items e g it stackSize k te n mk = Some (ok, mk')"
  shows "owned_goods i w mk' \<le> owned_goods i w mk + (if k = i then n else 0)"
proof (cases "trader_of mk g")
  case None
  then show ?thesis using assms(3) by (simp add: add_items_def)
next
  case (Some t)
  obtain ys where ys: "mk' = change_trader g (\<lambda>t. t\<lparr>tr_inbox := ys\<rparr>) mk"
      "amount_of (\<lambda>x. mi_id x = i) ys \<le> amount_of (\<lambda>x. mi_id x = i) (tr_inbox t) + (if k = i then n else 0)"
    using assms(3) Some add_stacks_amount [OF assms(2), of "me_inbox e g" k te n "tr_inbox t" ok _ i]
      add_singles_amount [of i "me_inbox e g" k te n "tr_inbox t"]
    by (cases "add_singles (me_inbox e g) k te n (tr_inbox t)") (force simp: add_items_def split: if_splits)
  show ?thesis unfolding ys(1) by (rule less_goods [OF assms(1) Some]) (use ys(2) in \<open>simp add: goods_of_def\<close>)
qed

lemma deliver_goods:
  assumes "market_ok mk" "mt_stackSize it > 0" "deliver e g it k te n mk = Some (ok, mk')"
  shows "owned_goods i w mk' \<le> owned_goods i w mk + (if k = i then n else 0)"
proof (cases "k = ITEM_STORE_COIN")
  case True
  then have "mk_traders mk' = mk_traders mk"
    using assms(3) by (auto simp: deliver_def add_coins_to_def change_coins_def split: option.splits)
  from goods_cong [OF this] show ?thesis by simp
next
  case False
  then show ?thesis using assms by (intro add_items_goods) (auto simp: deliver_def)
qed

section \<open>The offers\<close>

lemma held_shrinks:
  assumes "distinct (map of_id os)" "x \<in> set os" "n \<le> of_amount x"
  shows "sum_list (map (offered i) (map (\<lambda>y. if of_id y = of_id x then y\<lparr>of_amount := of_amount y - n\<rparr> else y) os))
      + (if of_sale x \<and> of_item x = i then n else 0)
    = sum_list (map (offered i) os)"
  using assms(1,2)
proof (induction os)
  case (Cons y os)
  have same: "map (\<lambda>z. if of_id z = of_id y then z\<lparr>of_amount := of_amount z - n\<rparr> else z) os = os"
    using Cons.prems(1) by (intro map_idI) (auto simp: image_iff)
  show ?case
  proof (cases "y = x")
    case True
    then show ?thesis using same assms(3) by (simp del: map_map add: offered_def [of i x] offered_def [of i "x\<lparr>of_amount := _\<rparr>"])
  next
    case False
    then have "of_id y \<noteq> of_id x" "x \<in> set os" using Cons.prems by auto
    then show ?thesis using Cons by simp
  qed
qed simp

lemma moved_goods:
  assumes "market_ok mk" "x \<in> set (mk_offers mk)" "moveOfferToHistory e (of_id x) st mk = (True, mk')"
  shows "mk_traders mk' = mk_traders mk \<and> held_goods i mk' + offered i x = held_goods i mk"
proof -
  have "mk_traders mk' = mk_traders mk" using assms(3) by (auto simp: moveOfferToHistory_def split: option.splits)
  then show ?thesis using held_split [of "mk_offers mk" x "offered i"] assms(1,2) move_offers [OF assms(3)]
    by (simp add: held_goods_def market_ok_def)
qed

lemma accepted_goods:
  assumes "market_ok m" "x \<in> set (mk_offers m)" "of_id o1 = of_id x" "of_amount o1 = of_amount x" "n \<le> of_amount x"
  shows "held_goods i (offer_accepted e g o1 n m) + (if of_sale x \<and> of_item x = i then n else 0) = held_goods i m"
proof -
  have d: "distinct (map of_id (mk_offers m))" using assms(1) by (simp add: market_ok_def)
  show ?thesis
    using held_split [OF d assms(2), of "offered i"] held_shrinks [OF d assms(2,5), of i] assms(3,4)
    by (cases "of_amount x = n"; cases "of_sale x"; cases "of_item x = i")
      (simp_all del: map_map add: offer_accepted_def Let_def held_goods_def deleteOffer_def acceptOffer_def appendHistory_def offered_def)
qed

section \<open>Every operation\<close>

lemma moved_total:
  assumes "market_ok m" "x \<in> set (mk_offers m)"
  shows "total_goods i w (snd (moveOfferToHistory e (of_id x) st m)) + offered i x = total_goods i w m"
proof -
  obtain m' where m: "moveOfferToHistory e (of_id x) st m = (True, m')" using move_settles [OF assms] by blast
  show ?thesis using moved_goods [OF assms m, of i] goods_cong [of m' m i w] m by (simp add: total_goods_def)
qed

lemma credited_total [simp]:
  "total_goods i w (change_trader g (credit_bank n) mk) = total_goods i w mk"
  "total_goods i w (change_trader g (pay_trader b n) mk) = total_goods i w mk"
  by (simp_all add: total_goods_def keep_goods held_goods_def)

lemma change_total:
  assumes "market_ok mk" "trader_of mk g = Some t"
  shows "total_goods i w (change_trader g f mk) + goods_of i w t = total_goods i w mk + goods_of i w (f t)"
  using change_goods [OF assms, of i w f] by (simp add: total_goods_def held_goods_def)

lemma delivered_total:
  assumes "market_ok mk" "mt_stackSize it > 0" "deliver e g it k te n mk = Some (ok, mk')"
  shows "total_goods i w mk' \<le> total_goods i w mk + (if k = i then n else 0)"
  using deliver_goods [OF assms, of i w] deliver_same [OF assms(3)]
  by (simp add: total_goods_def held_goods_def same_books_def)

lemma cancelled:
  assumes "market_ok mk" "types_ok types" "trader_of mk g = Some t" "getOfferByCounter e ts c mk = Some o1"
  shows "total_goods i w (snd (moveOfferToHistory e (of_id o1) st (change_trader g (credit_bank n) mk))) \<le> total_goods i w mk"
    and "\<lbrakk>of_sale o1; types (of_item o1) = Some it; deliver e g it (of_item o1) te (of_amount o1) mk = Some (ok, d)\<rbrakk> \<Longrightarrow>
      total_goods i w (snd (moveOfferToHistory e (of_id o1) st d)) \<le> total_goods i w mk"
proof -
  obtain x where x: "x \<in> set (mk_offers mk)" "of_id o1 = of_id x" "of_sale o1 = of_sale x" "of_amount o1 = of_amount x" "of_item o1 = of_item x"
    using found_offer [OF assms(4)] by blast
  let ?m = "change_trader g (credit_bank n) mk"
  have "market_ok ?m" using change_ok [OF assms(1,3), of "credit_bank n"] trader_purse [OF assms(1,3)] by simp
  from moved_total [OF this, of x i w e st] x
  show "total_goods i w (snd (moveOfferToHistory e (of_id o1) st ?m)) \<le> total_goods i w mk" by simp
  assume d: "of_sale o1" "types (of_item o1) = Some it" "deliver e g it (of_item o1) te (of_amount o1) mk = Some (ok, d)"
  have "mt_stackSize it > 0" by (rule types_size [OF assms(2) d(2)])
  from delivered_total [OF assms(1) this d(3), of i w]
  have "total_goods i w d \<le> total_goods i w mk + offered i x"
    using x d(1) by (cases "of_item x = i") (simp_all add: offered_def)
  moreover have sb: "same_books mk d" by (rule deliver_same [OF d(3)])
  moreover have "x \<in> set (mk_offers d)" using sb x(1) by (simp add: same_books_def)
  ultimately show "total_goods i w (snd (moveOfferToHistory e (of_id o1) st d)) \<le> total_goods i w mk"
    using moved_total [OF same_books_ok [OF sb assms(1)], of x i w e st] x(2) by simp
qed

lemma cancel_goods:
  assumes "market_ok mk" "types_ok types" "playerCancelMarketOffer types e g ts c mk = Some mk'"
  shows "total_goods i w mk' \<le> total_goods i w mk"
proof (cases "player_of e mk g = None \<or> getOfferByCounter e ts c mk = None")
  case True
  then show ?thesis using assms(3) by (auto simp: playerCancelMarketOffer_def split: option.splits)
next
  case False
  then obtain t o1 where t: "player_of e mk g = Some t" and o1: "getOfferByCounter e ts c mk = Some o1" by auto
  have tr: "trader_of mk g = Some t" using t by (simp add: player_of_def split: if_splits)
  note c = cancelled [where i = i and w = w and st = OFFERSTATE_CANCELLED, OF assms(1,2) tr o1]
  show ?thesis
  proof (cases "\<not> me_inMarket e g \<or> me_exhausted e g \<or> of_player o1 \<noteq> g \<or> \<not> of_sale o1 \<or> types (of_item o1) = None")
    case True
    then show ?thesis using assms(3) c(1) by (auto simp: playerCancelMarketOffer_def t o1 split: if_splits)
  next
    case False
    then show ?thesis using assms(3) c(2) by (auto simp: playerCancelMarketOffer_def t o1)
  qed
qed

lemma created_goods:
  "held_goods i (createOffer e g s k n price te an m) = held_goods i m + (if s \<and> k = i then n else 0)"
  by (simp add: held_goods_def createOffer_def offered_def)

lemma created_total:
  "total_goods i w (createOffer e g s k n price te an m) = total_goods i w m + (if s \<and> k = i then n else 0)"
  using goods_cong [of "createOffer e g s k n price te an m" m i w] created_goods [of i e g s k n price te an m]
  by (simp add: total_goods_def)

lemma create_goods:
  assumes "market_ok mk" "types i = Some it" "mt_stackable it" "i \<noteq> ITEM_STORE_COIN"
    and "playerCreateMarketOffer types e g ty k n price te an mk = Some mk'"
  shows "total_goods i (mt_ware it) mk' \<le> total_goods i (mt_ware it) mk"
proof -
  let ?T = "total_goods i (mt_ware it)" and ?create = "\<lambda>s. createOffer e g s k n price te an" and ?fee = "market_fee price n"
  have coins: "?T (?create True (change_trader g (pay_trader True ?fee) (remove_coins_from a n mk))) \<le> ?T mk"
    if "k = ITEM_STORE_COIN" for a
    using that assms(4) goods_cong [of "remove_coins_from a n mk" mk i] held_goods_cong [of "remove_coins_from a n mk" mk i]
    by (simp add: created_total) (simp add: total_goods_def)
  have items: "?T (if ok then ?create True (change_trader g (\<lambda>_. pay_trader True ?fee t') mk) else change_trader g (\<lambda>_. t') mk) \<le> ?T mk"
    if "trader_of mk g = Some t" "removeOfferItems e g (the (types k)) k n te t = (ok, t')" for t ok t'
  proof -
    note taken = change_total [OF assms(1) that(1), of i "mt_ware it"]
    have le: "goods_of i (mt_ware it) t' \<le> goods_of i (mt_ware it) t" by (rule removal_goods(1) [OF that(2)])
    have eq: "goods_of i (mt_ware it) t' + n = goods_of i (mt_ware it) t" if "ok" "k = i"
      using removal_goods(2) [OF \<open>removeOfferItems _ _ _ _ _ _ _ = _\<close>] that assms(2,3) by simp
    show ?thesis
      using taken [of "\<lambda>_. pay_trader True ?fee t'"] taken [of "\<lambda>_. t'"] le eq
      by (cases ok; cases "k = i") (simp_all add: created_total)
  qed
  show ?thesis
  proof (cases "player_of e mk g")
    case None
    then show ?thesis using assms(5) by (simp add: playerCreateMarketOffer_def)
  next
    case (Some t)
    then have tr: "trader_of mk g = Some t" by (simp add: player_of_def split: if_splits)
    obtain ok t' where r: "removeOfferItems e g (the (types k)) k n te t = (ok, t')"
      by (cases "removeOfferItems e g (the (types k)) k n te t")
    have buy: "?T (?create False (change_trader g (pay_trader True total) mk)) \<le> ?T mk" for total
      by (simp add: created_total)
    show ?thesis
      using assms(5) coins items [OF tr r] buy
      by (cases ok) (auto simp: playerCreateMarketOffer_def Some Let_def r split: if_splits)
  qed
qed

lemma credit_keeps_ok: "market_ok mk \<Longrightarrow> trader_of mk g = Some t \<Longrightarrow> market_ok (change_trader g (credit_bank n) mk)"
  using change_ok [of mk g t "credit_bank n"] trader_purse [of mk g t] by simp

lemma accepted_total:
  assumes "market_ok m" "x \<in> set (mk_offers m)" "of_id o1 = of_id x" "of_amount o1 = of_amount x" "n \<le> of_amount x"
  shows "total_goods i w (offer_accepted e g o1 n m) + (if of_sale x \<and> of_item x = i then n else 0) = total_goods i w m"
  using accepted_goods [OF assms, of i e g] goods_cong [of "offer_accepted e g o1 n m" m i w] accepted_money [OF assms, of e g]
  by (simp add: total_goods_def)

lemma sell_goods:
  assumes "market_ok mk" "types i = Some it" "mt_stackable it" "i \<noteq> ITEM_STORE_COIN" "mt_stackSize jt > 0" "types (of_item o1) = Some jt"
    and x: "x \<in> set (mk_offers mk)" "\<not> of_sale x" "of_id o1 = of_id x" "of_amount o1 = of_amount x"
    and n: "n \<le> of_amount x" and tr: "trader_of mk g = Some t"
    and op: "sell_to_offer e g t jt o1 n price mk = Some mk'"
  shows "total_goods i (mt_ware it) mk' \<le> total_goods i (mt_ware it) mk"
proof -
  let ?T = "total_goods i (mt_ware it)" and ?given = "if of_item o1 = i then n else 0"
  have rest: "?T mk' \<le> ?T m + ?given"
    if m: "market_ok m" "mk_offers m = mk_offers mk" "trader_of m g = Some u"
      and r: "map_option (finish_accept e g o1 n)
        (deliver e (of_player o1) jt (of_item o1) (of_tier o1) n (change_trader g (credit_bank price) m)) = Some mk'" for m u
  proof -
    obtain ok d where d: "deliver e (of_player o1) jt (of_item o1) (of_tier o1) n (change_trader g (credit_bank price) m) = Some (ok, d)"
        "mk' = finish_accept e g o1 n (ok, d)" using r by auto
    have c: "market_ok (change_trader g (credit_bank price) m)" by (rule credit_keeps_ok [OF m(1,3)])
    have le: "?T d \<le> ?T m + ?given" using delivered_total [OF c assms(5) d(1), of i "mt_ware it"] by simp
    have sb: "same_books (change_trader g (credit_bank price) m) d" by (rule deliver_same [OF d(1)])
    have "market_ok d" "x \<in> set (mk_offers d)" using same_books_ok [OF sb c] sb m(2) x(1) by (auto simp: same_books_def)
    from accepted_total [OF this x(3,4) n, of i "mt_ware it" e g] show ?thesis
      using le x(2) by (cases ok) (simp_all add: d(2) finish_accept_def)
  qed
  show ?thesis
  proof (cases "of_item o1 = ITEM_STORE_COIN")
    case True
    let ?m = "remove_coins_from (tr_account t) n mk"
    have "?T ?m = ?T mk" using goods_cong [of ?m mk i] held_goods_cong [of ?m mk i] by (simp add: total_goods_def)
    moreover have "market_ok ?m" by (rule ok_cong [OF assms(1)]) simp_all
    moreover have "trader_of ?m g = Some t" using tr trader_of_cong [of ?m mk] by simp
    ultimately show ?thesis using op True assms(4) rest [of ?m t] by (auto simp: sell_to_offer_def split: if_splits)
  next
    case False
    obtain ok t' where r: "removeOfferItems e g jt (of_item o1) n (of_tier o1) t = (ok, t')"
      by (cases "removeOfferItems e g jt (of_item o1) n (of_tier o1) t")
    let ?m = "change_trader g (\<lambda>_. t') mk"
    have ok: "market_ok ?m" using removal_settles [OF assms(1) tr r] by (simp add: settles_def)
    have "ok \<Longrightarrow> ?T ?m + ?given \<le> ?T mk" "?T ?m \<le> ?T mk"
      using change_total [OF assms(1) tr, of i "mt_ware it" "\<lambda>_. t'"] removal_goods(2) [OF r] assms(2,3,6)
        removal_goods(1) [OF r, of i "mt_ware it"] by (auto split: if_splits)
    moreover have "trader_of ?m g = Some t'" using tr by (simp add: change_trader_of)
    ultimately show ?thesis using op False r rest [OF ok, of t'] by (cases ok) (force simp: sell_to_offer_def)+
  qed
qed

lemma bought_goods:
  assumes "market_ok mk" "total_money mk < 2 ^ 64" "works e" "mt_stackSize jt > 0"
    and x: "x \<in> set (mk_offers mk)" "of_sale x" "of_id o1 = of_id x" "of_amount o1 = of_amount x" "of_item o1 = of_item x"
    and n: "n \<le> of_amount x" and tr: "trader_of mk g = Some t" "trader_of mk (of_player o1) = Some b"
    and op: "buy_from_offer e g t jt o1 n price mk = Some mk'"
  shows "total_goods i w mk' \<le> total_goods i w mk"
proof (cases "price \<le> wealth t")
  case False
  then show ?thesis using op wealth_pays [OF assms(1,2) tr(1)] by (simp add: buy_from_offer_def wealth_def)
next
  case True
  obtain f d v where p: "market_ok (change_trader g f mk)"
      and f: "\<And>t. tr_stash (f t) = tr_stash t \<and> tr_locker (f t) = tr_locker t \<and> tr_inbox (f t) = tr_inbox t"
      and d: "deliver e g jt (of_item o1) (of_tier o1) n (change_trader g f mk) = Some (True, d)" "trader_of d (of_player o1) = Some v"
      and r: "buy_from_offer e g t jt o1 n price mk = Some (offer_accepted e g o1 n (change_trader (of_player o1) (credit_bank price) d))"
    using bought [where n = n, OF assms(1-4) tr True] by metis
  let ?c = "change_trader (of_player o1) (credit_bank price) d"
  have sb: "same_books (change_trader g f mk) d" using d(1) by (rule deliver_same)
  have c: "market_ok ?c" by (rule credit_keeps_ok [OF same_books_ok [OF sb p] d(2)])
  have "x \<in> set (mk_offers ?c)" using sb x(1) by (simp add: same_books_def)
  from accepted_total [OF c this x(3,4) n, of i w e g] delivered_total [OF p assms(4) d(1), of i w]
  have "total_goods i w (offer_accepted e g o1 n ?c) \<le> total_goods i w mk"
    using x(2,5) change_total [OF assms(1) tr(1), of i w f] f by (cases "of_item x = i") (simp_all add: goods_of_def)
  then show ?thesis using op r by simp
qed

lemma accept_goods:
  assumes "market_ok mk" "total_money mk < 2 ^ 64" "types_ok types" "works e" "types i = Some it" "mt_stackable it" "i \<noteq> ITEM_STORE_COIN"
    and "playerAcceptMarketOffer types e g ts c n mk = Some mk'"
  shows "total_goods i (mt_ware it) mk' \<le> total_goods i (mt_ware it) mk"
proof (cases "player_of e mk g = None \<or> getOfferByCounter e ts c mk = None")
  case True
  then show ?thesis using assms(8) by (auto simp: playerAcceptMarketOffer_def split: option.splits)
next
  case False
  then obtain t o1 where t: "player_of e mk g = Some t" and o1: "getOfferByCounter e ts c mk = Some o1" by auto
  have tr: "trader_of mk g = Some t" using t by (simp add: player_of_def split: if_splits)
  obtain x where x: "x \<in> set (mk_offers mk)" "of_id o1 = of_id x" "of_sale o1 = of_sale x"
      "of_amount o1 = of_amount x" "of_player o1 = of_player x" "of_item o1 = of_item x" using found_offer [OF o1] by blast
  obtain b where b: "trader_of mk (of_player o1) = Some b" using offer_bounds(3) [OF assms(1) x(1)] x(5) by auto
  let ?price = "(of_price o1 * n) mod 18446744073709551616"
  consider "mk' = mk"
    | jt where "types (of_item o1) = Some jt" "n \<le> of_amount o1" "\<not> of_sale o1" "sell_to_offer e g t jt o1 n ?price mk = Some mk'"
    | jt where "types (of_item o1) = Some jt" "n \<le> of_amount o1" "of_sale o1" "buy_from_offer e g t jt o1 n ?price mk = Some mk'"
  proof (cases "me_inMarket e g \<and> \<not> me_exhausted e g")
    case True
    then show ?thesis using assms(8) that
      by (cases "types (of_item o1)") (auto simp: playerAcceptMarketOffer_def t o1 Let_def split: if_splits)
  next
    case False
    then show ?thesis using assms(8) that(1) by (simp add: playerAcceptMarketOffer_def t o1 del: de_Morgan_conj)
  qed
  then show ?thesis
  proof cases
    case (2 jt)
    then show ?thesis
      using sell_goods [where types = types and i = i, OF assms(1,5-7) types_size [OF assms(3) 2(1)] 2(1) x(1) _ x(2,4) _ tr 2(4)] x(3,4) by simp
  next
    case (3 jt)
    then show ?thesis
      using bought_goods [OF assms(1,2,4) types_size [OF assms(3) 3(1)] x(1) _ x(2,4,6) _ tr b 3(4)] x(3,4) by simp
  qed simp
qed

lemma expire_goods:
  assumes "market_ok mk" "x \<in> set (mk_offers mk)" "expire_offer types e x mk = Some mk'"
  shows "total_goods i w mk' \<le> total_goods i w mk"
proof -
  obtain m where m: "moveOfferToHistory e (of_id x) OFFERSTATE_EXPIRED mk = (True, m)" "market_ok m"
    using move_settles [OF assms(1,2), of e OFFERSTATE_EXPIRED] by blast
  have total: "total_goods i w m + offered i x = total_goods i w mk"
    using moved_total [OF assms(1,2), of i w e OFFERSTATE_EXPIRED] m(1) by simp
  have returned: "total_goods i w d \<le> total_goods i w m + (if of_item x = i then of_amount x else 0)"
    if "add_items e (of_player x) it 100 (of_item x) te (of_amount x) m = Some (ok, d)" for it te ok d
  proof -
    have "mk_offers d = mk_offers m" using that by (auto simp: add_items_def split: option.splits)
    then show ?thesis
      using add_items_goods [OF m(2) _ that, of i w] by (simp add: total_goods_def held_goods_def)
  qed
  show ?thesis
  proof (cases "of_sale x \<and> types (of_item x) \<noteq> None \<and> trader_of m (of_player x) \<noteq> None")
    case True
    then obtain it where it: "types (of_item x) = Some it" by blast
    obtain ok where "add_items e (of_player x) it 100 (of_item x) (getTierFromDatabaseTable e (of_tier x)) (of_amount x) m = Some (ok, mk')"
      using assms(3) True it m(1) by (auto simp: expire_offer_def split: if_splits)
    from returned [OF this] show ?thesis using total True by (simp add: offered_def split: if_splits)
  next
    case False
    then show ?thesis using assms(3) m(1) total by (auto simp: expire_offer_def split: if_splits option.splits)
  qed
qed

lemma process_goods:
  assumes "market_ok mk" "total_money mk < 2 ^ 64" "set rows \<subseteq> set (mk_offers mk)" "distinct (map of_id rows)"
    and "processExpiredOffers types e rows mk = Some mk'"
  shows "total_goods i w mk' \<le> total_goods i w mk"
  using assms
proof (induction rows arbitrary: mk)
  case (Cons x rows)
  have x: "x \<in> set (mk_offers mk)" using Cons.prems(3) by simp
  from expire_settles [OF Cons.prems(1,2) this] obtain m where m: "expire_offer types e x mk = Some m" "settles 0 mk m"
      "mk_offers m = filter (\<lambda>o1. of_id o1 \<noteq> of_id x) (mk_offers mk)" by blast
  have "set rows \<subseteq> set (mk_offers m)" using Cons.prems(3,4) m(3) by (auto simp: image_iff)
  then have "total_goods i w mk' \<le> total_goods i w m"
    using m(1,2) Cons.prems(2,4,5) by (intro Cons.IH) (simp_all add: settles_def)
  then show ?case using expire_goods [OF Cons.prems(1) x m(1), of i w] by simp
qed simp

lemma expiry_goods:
  assumes "market_ok mk" "total_money mk < 2 ^ 64" "checkExpiredOffers types e mk = Some mk'"
  shows "total_goods i w mk' \<le> total_goods i w mk"
  using assms unfolding checkExpiredOffers_def
  by (intro process_goods) (auto simp: expired_offers_def market_ok_def distinct_map_filter)

section \<open>Any history of the market\<close>

lemma step_goods:
  assumes "market_ok mk" "total_money mk < 2 ^ 64" "types_ok types" "event_ok mk (e, ev)"
    and "types i = Some it" "mt_stackable it" "i \<noteq> ITEM_STORE_COIN" "market_step types e ev mk = Some mk'"
  shows "total_goods i (mt_ware it) mk' \<le> total_goods i (mt_ware it) mk"
proof (cases ev)
  case (CreateOffer g ty k n p te an)
  then show ?thesis using create_goods [where types = types and i = i, OF assms(1,5-7), of e g ty k n p te an mk'] assms(8) by (simp add: market_step_def)
next
  case (CancelOffer g ts c)
  then show ?thesis using cancel_goods [OF assms(1,3), of e g ts c mk' i "mt_ware it"] assms(8) by (simp add: market_step_def)
next
  case (AcceptOffer g ts c n)
  then show ?thesis
    using accept_goods [where types = types and i = i, OF assms(1-3) _ assms(5-7), of e g ts c n mk'] assms(4,8) by (simp add: market_step_def)
next
  case CheckExpired
  then show ?thesis using expiry_goods [OF assms(1,2), of types e mk'] assms(8) by (simp add: market_step_def)
qed

lemma history_goods:
  assumes "market_ok mk" "total_money mk < 2 ^ 64" "types_ok types" "list_all (event_ok mk) evs"
    and "types i = Some it" "mt_stackable it" "i \<noteq> ITEM_STORE_COIN" "market_run types evs mk = Some mk'"
  shows "total_goods i (mt_ware it) mk' \<le> total_goods i (mt_ware it) mk"
  using assms
proof (induction types evs mk rule: market_run.induct)
  case (2 types e ev evs mk)
  obtain m fee where m: "market_step types e ev mk = Some m" "settles fee mk m"
    using step_settles [OF "2.prems"(1-3), of e ev] "2.prems"(4) by auto
  have ok: "list_all (event_ok m) evs"
    using event_ok_keys [OF "2.prems"(1) m(2)] "2.prems"(4) by (auto simp: list_all_iff)
  have "market_ok m" "total_money m < 2 ^ 64" using m(2) "2.prems"(2) by (simp_all add: settles_def)
  from "2.IH" [OF m(1) this "2.prems"(3) ok "2.prems"(5-7)] "2.prems"(8) m(1)
    step_goods [OF "2.prems"(1-3) _ "2.prems"(5-7) m(1)] "2.prems"(4)
  show ?case by simp
qed simp



end
