(* ===== verification/Spec2Isabelle.thy ===== *)
theory Spec2Isabelle
  imports Connection Key_Value Bank Wildcard_Tree Sequences Wait_List Ban Account Strings Dispatcher File_Stream
    Party Party_Analyzer Path_Finding House_Items
    Container_Query House_Rent Decay Game_View Game_Packets Client_Requests Market_Goods
begin

text \<open>
  Verification of the core of an Open Tibia game server (\<^verbatim>\<open>src/src\<close>, C++).

  \<^bold>\<open>Parts of the program.\<close>  Clients connect over TCP.  A \<^emph>\<open>connection\<close> reads frames and queues writes; a
  \<^emph>\<open>protocol\<close> instance checks, decrypts and encrypts them (Adler-32 or sequence numbers, XTEA, zlib) over
  \<^emph>\<open>network messages\<close>, fixed buffers with typed readers and writers.  Parsed packets become tasks of the
  \<^emph>\<open>dispatcher\<close>, the single thread on which the game runs, with worker threads for parallel groups.  The
  game rules behind it use accounts, bans and a login queue; players, guilds, parties, coins and the
  bank; the map with path finding; persistent storage through a key-value cache over SQL, binary node
  files for items and maps, and property streams for item attributes.

  \<^bold>\<open>Theories and what they model\<close> (paths below \<^verbatim>\<open>src/src\<close>):
  \<^item> \<^verbatim>\<open>Prelude\<close>: byte memory, little-endian codecs, machine integers, shared list and word lemmas.
  \<^item> \<^verbatim>\<open>Position\<close>: \<^verbatim>\<open>game/movement/position.hpp\<close>, directions and next positions of \<^verbatim>\<open>utils/tools.cpp\<close>.
  \<^item> \<^verbatim>\<open>Network_Message\<close>, \<^verbatim>\<open>Output_Message\<close>: \<^verbatim>\<open>server/network/message\<close>.  The buffer is a byte memory of 65500
    bytes with 16-bit position and length; the autosend pool is a list of protocols and pending timers.
  \<^item> \<^verbatim>\<open>Adler\<close>, \<^verbatim>\<open>Sha1\<close>, \<^verbatim>\<open>Strings\<close>: the checksum, digest, token and string functions of \<^verbatim>\<open>utils/tools.cpp\<close>.
  \<^item> \<^verbatim>\<open>Protocol\<close>, \<^verbatim>\<open>Connection\<close>: \<^verbatim>\<open>server/network/protocol/protocol.cpp\<close> and \<^verbatim>\<open>connection/connection.cpp\<close>; the
    asynchronous handlers are the steps of a relation between connection states.
  \<^item> \<^verbatim>\<open>Dispatcher\<close>: \<^verbatim>\<open>game/scheduling\<close>; tasks in a heap, per-thread queues, the scheduled queue, and the
    join of parallel groups as an interleaving step relation.
  \<^item> \<^verbatim>\<open>Key_Value\<close>: \<^verbatim>\<open>kv\<close>; the cache, its least-recently-used queue and the table behind it.
  \<^item> \<^verbatim>\<open>Prop_Stream\<close>, \<^verbatim>\<open>Otb_Loader\<close>, \<^verbatim>\<open>File_Stream\<close>: \<^verbatim>\<open>io/fileloader.cpp\<close>, \<^verbatim>\<open>io/filestream.cpp\<close> and the towns and
    waypoints of \<^verbatim>\<open>io/iomap.cpp\<close>.
  \<^item> \<^verbatim>\<open>Account\<close>, \<^verbatim>\<open>Ban\<close>, \<^verbatim>\<open>Wait_List\<close>: \<^verbatim>\<open>account\<close>, \<^verbatim>\<open>creatures/players/management\<close>.
  \<^item> \<^verbatim>\<open>Money\<close>, \<^verbatim>\<open>Guild\<close>, \<^verbatim>\<open>Bank\<close>: the coin operations of \<^verbatim>\<open>game/game.cpp\<close>, \<^verbatim>\<open>grouping/guild.cpp\<close>, \<^verbatim>\<open>game/bank\<close>.
  \<^item> \<^verbatim>\<open>Party\<close>, \<^verbatim>\<open>Party_Analyzer\<close>: \<^verbatim>\<open>grouping/party.cpp\<close> with the party operations of player and game.
  \<^item> \<^verbatim>\<open>Path_Finding\<close>: \<^verbatim>\<open>map/utils/astarnodes.cpp\<close>, \<^verbatim>\<open>Map::getPathMatching\<close>, \<^verbatim>\<open>FrozenPathingConditionCall\<close>.
  \<^item> \<^verbatim>\<open>Wildcard_Tree\<close>, \<^verbatim>\<open>Sequences\<close>: the containers of \<^verbatim>\<open>utils\<close>.
  \<^item> \<^verbatim>\<open>Item_Attribute\<close>, \<^verbatim>\<open>Item\<close>, \<^verbatim>\<open>Item_Serial\<close>: \<^verbatim>\<open>items/functions/item\<close>, \<^verbatim>\<open>items/item.cpp\<close> and the item classes;
    attribute vectors, the item state and its binary form.
  \<^item> \<^verbatim>\<open>House_Items\<close>: the item rows of \<^verbatim>\<open>io/iomapserialize.cpp\<close>.
  \<^item> \<^verbatim>\<open>Containers\<close>, \<^verbatim>\<open>Container_Query\<close>: \<^verbatim>\<open>items/containers\<close>; things numbered in a world that gives each its item,
    place and contents; the operations, the iterator, and the queries a move asks first.
  \<^item> \<^verbatim>\<open>Tile\<close>, \<^verbatim>\<open>Tile_Query\<close>: \<^verbatim>\<open>items/tile.cpp\<close>; a tile is its ground, the item vector with its two parts, the creatures
    and the flags; its operations, stack positions, and what it answers before a move.
  \<^item> \<^verbatim>\<open>Decay\<close>: \<^verbatim>\<open>items/decay\<close>; the map of expiry times and its timer, with the game behind the locale \<^verbatim>\<open>decay_game\<close>.
  \<^item> \<^verbatim>\<open>House\<close>, \<^verbatim>\<open>House_Owner\<close>, \<^verbatim>\<open>House_Save\<close>, \<^verbatim>\<open>House_Tile\<close>, \<^verbatim>\<open>House_Rent\<close>: \<^verbatim>\<open>map/house\<close> and the house tables of
    \<^verbatim>\<open>io/iomapserialize.cpp\<close>; a house and the places of the creatures, the steps in its life a relation.
  \<^item> \<^verbatim>\<open>Purse\<close>, \<^verbatim>\<open>Market\<close>, \<^verbatim>\<open>Market_Money\<close>, \<^verbatim>\<open>Market_Goods\<close>: \<^verbatim>\<open>io/iomarket.cpp\<close> and the market operations of
    \<^verbatim>\<open>game/game.cpp\<close>; the tables and the traders, paid for in coins that are stacks of the inventory.
  \<^item> \<^verbatim>\<open>Game_View\<close>: the parts of \<^verbatim>\<open>server/network/protocol/protocolgame.cpp\<close> that keep a client's map in step: viewport,
    descriptions of tiles and floors, known creatures, and the messages about a move.
  \<^item> \<^verbatim>\<open>Game_Parse\<close>, \<^verbatim>\<open>Game_Requests\<close>, \<^verbatim>\<open>Game_Packets\<close>, \<^verbatim>\<open>Client_Requests\<close>: the packets of the client in the same file.
    The handlers are programs of the library's state monad over the message; the second theory checks
    their calls against the signatures of \<^verbatim>\<open>game/game.hpp\<close>, the third what bytes they see, the last that
    the requests a client encodes are understood.
  \<^item> this theory: two connected peers, the composition of the network theories.

  \<^bold>\<open>Interfaces.\<close>  Contracts between components are locales, each interpreted on the code's own
  definitions: \<^verbatim>\<open>wire_field\<close>/\<^verbatim>\<open>wire_pair\<close> (a writer and its reader), \<^verbatim>\<open>block_cipher\<close>, \<^verbatim>\<open>stream_field\<close> and
  \<^verbatim>\<open>list_node\<close>, \<^verbatim>\<open>kv_backend\<close>, \<^verbatim>\<open>account_repository\<close>, \<^verbatim>\<open>bankable_account\<close>, \<^verbatim>\<open>sequence\<close>, \<^verbatim>\<open>keyed_store\<close>.

  \<^bold>\<open>What the theorems show.\<close>  Network: bodies sent by one peer are handed to the other side's dispatcher
  unchanged and in order; writes leave in order with one outstanding; headers and buffers stay in
  bounds; codecs and ciphers are inverse; checksum and digest equal their textbook definitions.
  Dispatcher: serial order, timely scheduled events, cancelled events never run, parallel groups
  complete.  Client: the game gets what the player asked for, well typed and from the received bytes only, and
  every packet but one is handled in finite time; a client that walks, climbs or watches others keeps a
  map and a set of creatures that agree with the server's.  Storage: the cache refines a map; node files, map streams and property streams
  round-trip; every accepted file has its property ranges in bounds.  Rules: coins, bank transfers and
  account coins are conserved and booked; no history of the market makes
  money or goods; party links agree; the hunt analyzer equals a recomputation; a
  path search returns and its path can be walked; nobody stays in a house uninvited, its tables give it back, and
  unpaid rent loses it after seven warnings.  House rows give back the items they were
  written from, and loading any bytes ends; the weight kept in a container is the sum of everything the
  iterator finds in it, after any sequence of operations, and no container is put inside itself; a tile keeps its items in order,
  its flags right and its indices and things in correspondence, and lets nothing walk into a wall.  Where the code departs from the intent,
  a lemma states the departure on a concrete or general input.

  \<^bold>\<open>Bounds and fuel.\<close>  Loops that consume input recurse on it; the node reader of \<^verbatim>\<open>File_Stream\<close> has the
  length of the data plus one as fuel, enough because every round consumes a byte.  Searches whose end
  depends on an invariant (A*, string replacement) are partial functions into \<^verbatim>\<open>option\<close> and are proved to
  return.  Machine integers are words or have their narrowing written out.  The level limits of shared
  experience use 32-bit floats in the code; they are the exact rationals below 2^22 levels.

  \<^bold>\<open>Not modelled.\<close>  Third-party code (asio, zlib, MySQL, Lua, protobuf, RSA) is a parameter or a table of
  the state.  Of the game protocol, the login packet, the layouts of the answers other than the map, and the
  bestiary, bosstiary and team finder windows are left out; so are combat formulas over floating point and
  randomness, the wheel, the placement of creatures, and the Lua bindings; the messages sent to
  clients by modelled operations are not part of their result.
\<close>

section \<open>Two connected peers\<close>

text \<open>
  The receiving half of a connection fed from a byte stream: asio reads the two header
  bytes to the start of the message buffer, \<open>parseHeader\<close> announces the body length, asio
  reads that many bytes behind the header, \<open>parsePacket\<close> handles the packet. The result
  is the body handed to the dispatcher, if any.
\<close>

definition fill :: "nat \<Rightarrow> bytes \<Rightarrow> connection \<Rightarrow> connection" where
  "fill off bs c = c\<lparr>conn_msg := (conn_msg c)\<lparr>nm_buffer := mem_write (nm_buffer (conn_msg c)) off bs\<rparr>\<rparr>"

definition receive_packet ::
  "u32 \<Rightarrow> int \<Rightarrow> bytes \<Rightarrow> connection \<Rightarrow> (connection \<times> bytes option \<times> bytes) option" where
  "receive_packet maxPackets now stream c =
     (case parseHeader False False now maxPackets (fill 0 (take HEADER_LENGTH stream) c) of
        (c1, ReadBody n) \<Rightarrow>
          (case parsePacket (\<lambda>_ _. None) Pair False False
                  (fill HEADER_LENGTH (take n (drop HEADER_LENGTH stream)) c1) of
             Some (c2, _, dispatched) \<Rightarrow>
               Some (c2, if dispatched then Some (received_body (conn_msg c2)) else None,
                     drop (HEADER_LENGTH + n) stream)
           | None \<Rightarrow> None)
      | _ \<Rightarrow> None)"

fun receive_session :: "u32 \<Rightarrow> int list \<Rightarrow> bytes \<Rightarrow> connection \<Rightarrow> bytes list" where
  "receive_session maxPackets [] stream c = []"
| "receive_session maxPackets (now # nows) stream c =
     (case receive_packet maxPackets now stream c of
        Some (c', Some body, rest) \<Rightarrow> body # receive_session maxPackets nows rest c'
      | Some (c', None, rest) \<Rightarrow> receive_session maxPackets nows rest c'
      | None \<Rightarrow> [])"

definition small_body :: "bytes \<Rightarrow> bool" where
  "small_body body \<longleftrightarrow> length body + 14 \<le> INPUTMESSAGE_MAXSIZE"

lemma length_frame_of:
  "small_body body \<Longrightarrow> \<exists>n. length (frame_of pr body) = 2 + n \<and> 1 \<le> n \<and> n \<le> 4096
     \<and> take 2 (frame_of pr body) = le_bytes 2 (of_nat n :: u16)"
  using length_plain_of [of body]
  by (auto simp: frame_of_def Let_def small_body_def INPUTMESSAGE_MAXSIZE_def plain_of_dvd)

lemma getLengthHeader_le_word:
  "getLengthHeader m = le_word (mem_read (nm_buffer m) 0 2)"
  by (simp add: getLengthHeader_def mem_read_def numeral_2_eq_2 upt_rec)

lemma receive_packet_frame:
  assumes "peers ps pr" and c: "connectionState c \<noteq> CONNECTION_STATE_CLOSED" "receivedFirst c"
      "conn_protocol c = Some pr"
    and rate: "unat (packetsSent c) + 1 \<le> unat maxPackets" and body: "small_body body"
  shows "\<exists>c' pr'. receive_packet maxPackets now (frame_of ps body @ rest) c = Some (c', Some body, rest)
    \<and> connectionState c' \<noteq> CONNECTION_STATE_CLOSED \<and> receivedFirst c' \<and> conn_protocol c' = Some pr'
    \<and> unat (packetsSent c') \<le> unat (packetsSent c) + 1
    \<and> peers (snd (onSendMessage None om ps)) pr'"
proof -
  let ?f = "frame_of ps body"
  obtain n where n: "length ?f = 2 + n" "1 \<le> n" "n \<le> 4096" "take 2 ?f = le_bytes 2 (of_nat n :: u16)"
    using length_frame_of [OF body] by blast
  let ?c0 = "fill 0 (take 2 ?f) c"
  have "mem_read (nm_buffer (conn_msg ?c0)) 0 2 = take 2 ?f"
    using n(1) by (simp add: fill_def mem_write_sameI)
  then have "getLengthHeader (conn_msg ?c0) = of_nat n"
    by (simp add: getLengthHeader_le_word n(4))
  then obtain c1 where c1: "parseHeader False False now maxPackets ?c0 = (c1, ReadBody n)"
    and m1: "conn_msg c1 = (conn_msg ?c0)\<lparr>nm_length := of_nat (n + 2), nm_position := 2\<rparr>"
    and k1: "connectionState c1 = connectionState c" "receivedFirst c1 = receivedFirst c"
      "conn_protocol c1 = conn_protocol c" "unat (packetsSent c1) \<le> unat (packetsSent c) + 1"
    using parseHeader_accepts [of ?c0 n maxPackets now] c n rate by (auto simp: fill_def)
  let ?c2 = "fill 2 (drop 2 ?f) c1"
  have "mem_write (nm_buffer (conn_msg c)) 0 ?f
      = mem_write (mem_write (nm_buffer (conn_msg c)) 0 (take 2 ?f)) 2 (drop 2 ?f)"
    using mem_write_append [of _ 0 "take 2 ?f" "drop 2 ?f"] n(1) by (simp add: numeral_2_eq_2)
  then have "nm_buffer (conn_msg ?c2) = mem_write (nm_buffer (conn_msg c)) 0 ?f"
    by (simp add: fill_def m1)
  then have "holds_frame (conn_msg ?c2) ?f"
    using n unat_of_nat_lt [where 'a = 16, of "n + 2"]
    by (simp add: holds_frame_def fill_def m1 mem_write_sameI)
  moreover have "length body + 8 < MAX_BODY_LENGTH"
    using body by (simp add: small_body_def INPUTMESSAGE_MAXSIZE_def nm_consts)
  ultimately obtain r' pr' where r': "onRecvMessage (conn_msg ?c2) pr = (True, r', pr')"
    "received_body r' = body" and pr': "peers (snd (onSendMessage None om ps)) pr'"
    using onRecvMessage_frame [OF assms(1)] peers_after_packet [OF assms(1)] by metis
  have parts: "take n (drop 2 (?f @ rest)) = drop 2 ?f" "take 2 (?f @ rest) = take 2 ?f"
    "drop (2 + n) (?f @ rest) = rest"
    using n(1) by simp_all
  let ?c3 = "?c2\<lparr>conn_msg := r', conn_protocol := Some pr'\<rparr>"
  have k2: "connectionState ?c2 = connectionState c" "receivedFirst ?c2 = receivedFirst c"
    "conn_protocol ?c2 = conn_protocol c" "packetsSent ?c2 = packetsSent c1"
    using k1 by (simp_all add: fill_def)
  have "parsePacket (\<lambda>_ _. None) Pair False False ?c2 = Some (?c3, NoRead, True)"
    using c k2 r'(1) by (simp add: parsePacket_def Let_def)
  then have "receive_packet maxPackets now (?f @ rest) c = Some (?c3, Some body, rest)"
    by (simp only: receive_packet_def HEADER_LENGTH_def parts c1 prod.case read_request.case option.case)
      (simp add: r'(2))
  then show ?thesis using c k1 k2 pr' by (intro exI [of _ ?c3] exI [of _ pr']) simp
qed



end
